(* ===== verification/Prelude.thy ===== *)
theory Prelude
  imports Main "HOL-Library.Signed_Division"
begin

text \<open>
  What every component of the development shares: the machine integers of the C++ code as
  \<open>int\<close> values with their wrap-around written out, and the collections of facts the
  component theories add to.

  An \<open>int64_t\<close>, \<open>uint64_t\<close> or \<open>int\<close> of the source is an \<open>int\<close> here. \<open>s64\<close>, \<open>u64\<close> and \<open>s32\<close>
  reduce a mathematical integer to the value the machine register holds (two's complement).
  A signed operation of the source is written \<open>s64 (a + b)\<close>: where the sum leaves the range, C++
  leaves the behaviour open and the model takes the two's complement value; the theorems that
  rule such a case out say so (\<open>in64\<close>).
\<close>

section \<open>Collections\<close>

named_theorems mint_simps \<open>reductions of machine integers that stay in range\<close>
named_theorems tv_defs \<open>definitions of the operations on time values\<close>
named_theorems wf_intros \<open>preservation of the well-formedness invariants\<close>

section \<open>Machine integers\<close>

definition s64 :: "int \<Rightarrow> int" where
  "s64 x = (x + 2 ^ 63) mod 2 ^ 64 - 2 ^ 63"

definition u64 :: "int \<Rightarrow> int" where
  "u64 x = x mod 2 ^ 64"

definition s32 :: "int \<Rightarrow> int" where
  "s32 x = (x + 2 ^ 31) mod 2 ^ 32 - 2 ^ 31"

abbreviation (input) in64 :: "int \<Rightarrow> bool" where
  "in64 x \<equiv> - (2 ^ 63) \<le> x \<and> x < 2 ^ 63"

abbreviation (input) in32 :: "int \<Rightarrow> bool" where
  "in32 x \<equiv> - (2 ^ 31) \<le> x \<and> x < 2 ^ 31"

lemma s64_id [mint_simps]: "in64 x \<Longrightarrow> s64 x = x"
  by (simp add: s64_def)

lemma u64_id [mint_simps]: "0 \<le> x \<Longrightarrow> x < 2 ^ 64 \<Longrightarrow> u64 x = x"
  by (simp add: u64_def)

lemma s32_id [mint_simps]: "in32 x \<Longrightarrow> s32 x = x"
  by (simp add: s32_def)

lemma s64_range: "in64 (s64 x)"
proof -
  have "0 \<le> (x + 2 ^ 63) mod 2 ^ 64" and "(x + 2 ^ 63) mod 2 ^ 64 < (2 :: int) ^ 64"
    by (rule pos_mod_sign, simp) (rule pos_mod_bound, simp)
  then show ?thesis by (simp add: s64_def)
qed

lemma s32_range: "in32 (s32 x)"
proof -
  have "0 \<le> (x + 2 ^ 31) mod 2 ^ 32" and "(x + 2 ^ 31) mod 2 ^ 32 < (2 :: int) ^ 32"
    by (rule pos_mod_sign, simp) (rule pos_mod_bound, simp)
  then show ?thesis by (simp add: s32_def)
qed

section \<open>Results with errors\<close>

definition bind_sum :: "'e + 'a \<Rightarrow> ('a \<Rightarrow> 'e + 'b) \<Rightarrow> 'e + 'b" where
  "bind_sum r f = (case r of Inl e \<Rightarrow> Inl e | Inr x \<Rightarrow> f x)"

lemma bind_sum_simps [simp]: "bind_sum (Inl e) f = Inl e" "bind_sum (Inr x) f = f x"
  by (simp_all add: bind_sum_def)

lemma bind_sum_Inr: "bind_sum r f = Inr y \<longleftrightarrow> (\<exists>x. r = Inr x \<and> f x = Inr y)"
  by (cases r) simp_all

lemma bind_sum_cong [fundef_cong]: "r = r' \<Longrightarrow> (\<And>x. r' = Inr x \<Longrightarrow> f x = g x) \<Longrightarrow> bind_sum r f = bind_sum r' g"
  by (cases r') simp_all

end
