(* ===== verification/TimeValue.thy ===== *)
theory TimeValue
  imports Prelude
begin

text \<open>
  \<open>ossia::time_value\<close> (editor/scenario/time_value.hpp): an amount of time, a 64-bit counter with
  everything from \<open>infinite_min\<close> on read as infinite. One definition per operator of the
  struct; the overloads on \<open>double\<close> and \<open>float\<close> are not modelled.
\<close>

section \<open>The type and its constants\<close>

datatype time_value = Time_value (impl: int)

definition INT64_MAX :: int where
  "INT64_MAX = 2 ^ 63 - 1"

definition infinite_min :: int where
  "infinite_min = INT64_MAX div 8"

definition tv_infinity :: int where
  "tv_infinity = INT64_MAX div 2"

definition Infinite :: time_value where
  "Infinite = Time_value tv_infinity"

definition Zero_tv :: time_value where
  "Zero_tv = Time_value 0"

definition One_tv :: time_value where
  "One_tv = Time_value 1"

definition tv_infinite :: "time_value \<Rightarrow> bool" where
  "tv_infinite t \<longleftrightarrow> impl t \<ge> infinite_min"

section \<open>Comparison\<close>

definition tv_eq :: "time_value \<Rightarrow> time_value \<Rightarrow> bool" where
  "tv_eq a b \<longleftrightarrow> (tv_infinite a \<and> tv_infinite b) \<or> impl a = impl b"

definition tv_neq :: "time_value \<Rightarrow> time_value \<Rightarrow> bool" where
  "tv_neq a b \<longleftrightarrow> (tv_infinite a \<noteq> tv_infinite b) \<or> impl a \<noteq> impl b"

definition tv_lt :: "time_value \<Rightarrow> time_value \<Rightarrow> bool" where
  "tv_lt a b \<longleftrightarrow> \<not> (tv_infinite a \<and> tv_infinite b) \<and> impl a < impl b"

definition tv_gt :: "time_value \<Rightarrow> time_value \<Rightarrow> bool" where
  "tv_gt a b \<longleftrightarrow> \<not> (tv_infinite a \<and> tv_infinite b) \<and> impl a > impl b"

definition tv_le :: "time_value \<Rightarrow> time_value \<Rightarrow> bool" where
  "tv_le a b \<longleftrightarrow> (tv_infinite a \<and> tv_infinite b) \<or> impl a \<le> impl b"

definition tv_ge :: "time_value \<Rightarrow> time_value \<Rightarrow> bool" where
  "tv_ge a b \<longleftrightarrow> (tv_infinite a \<and> tv_infinite b) \<or> impl a \<ge> impl b"

section \<open>Arithmetic\<close>

definition add_is_infinite :: "time_value \<Rightarrow> time_value \<Rightarrow> bool" where
  "add_is_infinite lhs rhs =
     (if tv_infinite lhs \<or> tv_infinite rhs then True
      else if impl lhs \<ge> 0 \<and> impl rhs \<ge> 0 then
        (let l = u64 (impl lhs); r = u64 (impl rhs) in u64 (l + r) \<ge> infinite_min)
      else if impl lhs \<ge> 0 \<and> impl rhs < 0 then False
      else if impl lhs < 0 \<and> impl rhs \<ge> 0 then False
      else if impl lhs < 0 \<and> impl rhs < 0 then
        (let l = u64 (s64 (- impl lhs)); r = u64 (s64 (- impl rhs))
         in u64 (l + r) \<ge> infinite_min)
      else False)"

definition sub_is_infinite :: "time_value \<Rightarrow> time_value \<Rightarrow> bool" where
  "sub_is_infinite lhs rhs =
     (if tv_infinite lhs \<or> tv_infinite rhs then True
      else if impl lhs \<ge> 0 \<and> impl rhs \<ge> 0 then False
      else if impl lhs \<ge> 0 \<and> impl rhs < 0 then
        (let l = u64 (impl lhs); r = u64 (s64 (- impl rhs)) in u64 (l + r) \<ge> infinite_min)
      else if impl lhs < 0 \<and> impl rhs \<ge> 0 then
        (let l = u64 (s64 (- impl lhs)); r = u64 (impl rhs) in u64 (l + r) \<ge> infinite_min)
      else if impl lhs < 0 \<and> impl rhs < 0 then False
      else False)"

definition tv_plus :: "time_value \<Rightarrow> time_value \<Rightarrow> time_value" where
  "tv_plus a t =
     (if add_is_infinite a t then Time_value tv_infinity
      else Time_value (s64 (impl a + impl t)))"

definition tv_minus :: "time_value \<Rightarrow> time_value \<Rightarrow> time_value" where
  "tv_minus a t =
     (if sub_is_infinite a t then Time_value tv_infinity
      else Time_value (s64 (impl a - impl t)))"

text \<open>The overloads on \<open>int64_t\<close> and \<open>uint64_t\<close>; the assertions of the latter are compiled
  out in release builds.\<close>

definition tv_plus_i64 :: "time_value \<Rightarrow> int \<Rightarrow> time_value" where
  "tv_plus_i64 a d = tv_plus a (Time_value d)"

definition tv_plus_u64 :: "time_value \<Rightarrow> int \<Rightarrow> time_value" where
  "tv_plus_u64 a d = tv_plus a (Time_value (s64 d))"

definition tv_minus_i64 :: "time_value \<Rightarrow> int \<Rightarrow> time_value" where
  "tv_minus_i64 a d = tv_plus a (Time_value (s64 (- d)))"

definition tv_minus_u64 :: "time_value \<Rightarrow> int \<Rightarrow> time_value" where
  "tv_minus_u64 a d = tv_plus a (Time_value (s64 (- s64 d)))"

definition tv_uminus :: "time_value \<Rightarrow> time_value" where
  "tv_uminus a = (if tv_infinite a then Time_value (impl a) else Time_value (s64 (- impl a)))"

text \<open>The compound assignments return the new value of \<open>*this\<close>.\<close>

definition tv_assign_i64 :: "time_value \<Rightarrow> int \<Rightarrow> time_value" where
  "tv_assign_i64 a d = Time_value d"

definition tv_plus_assign_i64 :: "time_value \<Rightarrow> int \<Rightarrow> time_value" where
  "tv_plus_assign_i64 a d = tv_plus a (Time_value d)"

definition tv_plus_assign :: "time_value \<Rightarrow> time_value \<Rightarrow> time_value" where
  "tv_plus_assign a t =
     (if tv_infinite a \<or> tv_infinite t then Time_value tv_infinity
      else Time_value (s64 (impl a + impl t)))"

definition tv_minus_assign_i64 :: "time_value \<Rightarrow> int \<Rightarrow> time_value" where
  "tv_minus_assign_i64 a d =
     (if tv_infinite a then Time_value tv_infinity else Time_value (s64 (impl a - d)))"

definition tv_minus_assign :: "time_value \<Rightarrow> time_value \<Rightarrow> time_value" where
  "tv_minus_assign a t =
     (if tv_infinite a \<or> tv_infinite t then Time_value tv_infinity
      else Time_value (s64 (impl a - impl t)))"

text \<open>Multiplication by \<open>int32_t\<close>, \<open>int64_t\<close>, \<open>uint32_t\<close> is one in \<open>int64_t\<close>; by \<open>uint64_t\<close> one
  in \<open>uint64_t\<close>, cast back.\<close>

definition tv_times :: "time_value \<Rightarrow> int \<Rightarrow> time_value" where
  "tv_times a d =
     (if tv_infinite a then Time_value (impl a) else Time_value (s64 (impl a * d)))"

definition tv_times_u64 :: "time_value \<Rightarrow> int \<Rightarrow> time_value" where
  "tv_times_u64 a d =
     (if tv_infinite a then Time_value (impl a)
      else Time_value (s64 (u64 (u64 (impl a) * d))))"

text \<open>Remainder truncates towards zero; a zero divisor, and \<open>INT64_MIN % -1\<close>, have no
  behaviour in C++ and are \<open>None\<close>.\<close>

definition tv_mod :: "time_value \<Rightarrow> time_value \<Rightarrow> time_value option" where
  "tv_mod a d =
     (if impl d = 0 \<or> (impl a = - (2 ^ 63) \<and> impl d = - 1) then None
      else Some (Time_value (impl a smod impl d)))"

definition tv_abs :: "time_value \<Rightarrow> time_value" where
  "tv_abs t = Time_value (if impl t \<ge> 0 then impl t else s64 (- impl t))"

definition tv_norm :: "time_value \<Rightarrow> time_value \<Rightarrow> time_value" where
  "tv_norm t1 t2 =
     (if tv_infinite t1 \<or> tv_infinite t2 then Infinite
      else Time_value (if impl t1 > impl t2 then s64 (impl t1 - impl t2)
                       else s64 (impl t2 - impl t1)))"

section \<open>Basic facts\<close>

lemma infinite_min_eq: "infinite_min = 2 ^ 60 - 1"
  by (simp add: infinite_min_def INT64_MAX_def)

lemma tv_infinity_eq: "tv_infinity = 2 ^ 62 - 1"
  by (simp add: tv_infinity_def INT64_MAX_def)

lemmas tv_consts = infinite_min_eq tv_infinity_eq

declare tv_eq_def [tv_defs] tv_neq_def [tv_defs] tv_lt_def [tv_defs] tv_gt_def [tv_defs]
  tv_le_def [tv_defs] tv_ge_def [tv_defs] tv_infinite_def [tv_defs]

lemma infinite_Infinite [simp]: "tv_infinite Infinite"
  by (simp add: Infinite_def tv_infinite_def tv_consts)

lemma infinite_infinity [simp]: "tv_infinite (Time_value tv_infinity)"
  by (simp add: tv_infinite_def tv_consts)

lemma infinite_Zero [simp]: "\<not> tv_infinite Zero_tv"
  by (simp add: Zero_tv_def tv_infinite_def tv_consts)

lemma impl_Zero [simp]: "impl Zero_tv = 0"
  by (simp add: Zero_tv_def)

text \<open>A finite value is one that is not infinite and fits the register.\<close>

definition tv_finite :: "time_value \<Rightarrow> bool" where
  "tv_finite t \<longleftrightarrow> \<not> tv_infinite t \<and> - (2 ^ 63) \<le> impl t"

lemma tv_finite_range: "tv_finite t \<Longrightarrow> - (2 ^ 63) \<le> impl t \<and> impl t < 2 ^ 60 - 1"
  by (auto simp: tv_finite_def tv_infinite_def tv_consts)

section \<open>Order\<close>

text \<open>
  \<open><=\<close> and \<open><\<close> of the struct make time values a preorder, total, whose equivalence is the
  struct's \<open>==\<close>: all infinite values are equivalent.
\<close>

instantiation time_value :: preorder
begin

definition less_eq_time_value :: "time_value \<Rightarrow> time_value \<Rightarrow> bool" where
  "less_eq_time_value = tv_le"

definition less_time_value :: "time_value \<Rightarrow> time_value \<Rightarrow> bool" where
  "less_time_value = tv_lt"

instance
proof
  fix x y z :: time_value
  show "x < y \<longleftrightarrow> x \<le> y \<and> \<not> y \<le> x"
    by (auto simp: less_eq_time_value_def less_time_value_def tv_defs)
  show "x \<le> x"
    by (simp add: less_eq_time_value_def tv_defs)
  show "x \<le> y \<Longrightarrow> y \<le> z \<Longrightarrow> x \<le> z"
    by (auto simp: less_eq_time_value_def tv_defs)
qed

end

lemma tv_le_total: "tv_le a b \<or> tv_le b a"
  by (auto simp: tv_defs)

lemma tv_eq_iff_le: "tv_eq a b \<longleftrightarrow> tv_le a b \<and> tv_le b a"
  by (auto simp: tv_defs)

lemma tv_not_le: "\<not> tv_le a b \<longleftrightarrow> tv_lt b a"
  by (auto simp: tv_defs)

lemma tv_gt_lt: "tv_gt a b = tv_lt b a"
  by (auto simp: tv_defs)

lemma tv_ge_le: "tv_ge a b = tv_le b a"
  by (auto simp: tv_defs)

lemma tv_le_trans: "tv_le a b \<Longrightarrow> tv_le b c \<Longrightarrow> tv_le a c"
  by (auto simp: tv_defs)

lemma tv_neq_finite: "\<not> (tv_infinite a \<and> tv_infinite b) \<Longrightarrow> tv_neq a b \<longleftrightarrow> \<not> tv_eq a b"
  by (auto simp: tv_defs)

text \<open>The comparison operators of \<open>time_value\<close> are those of one total preorder: exactly one
  of \<open>a < b\<close>, \<open>a == b\<close>, \<open>b < a\<close> holds, and the four order operators agree with each other.\<close>

theorem tv_trichotomy:
  "(tv_lt a b \<or> tv_eq a b \<or> tv_lt b a)
   \<and> \<not> (tv_lt a b \<and> tv_eq a b) \<and> \<not> (tv_lt a b \<and> tv_lt b a)
   \<and> (tv_le a b = (tv_lt a b \<or> tv_eq a b))
   \<and> tv_gt a b = tv_lt b a \<and> tv_ge a b = tv_le b a"
  by (auto simp: tv_defs)

text \<open>\<open>operator!=\<close> is not the negation of \<open>operator==\<close>: it is for any pair that is not two
  infinite values, while two infinite values with different counters are both \<open>==\<close> and \<open>!=\<close>.\<close>

theorem tv_neq_characterisation:
  "tv_neq a b = (if tv_infinite a \<and> tv_infinite b then impl a \<noteq> impl b else \<not> tv_eq a b)
   \<and> (\<exists>c d. tv_eq c d \<and> tv_neq c d)"
proof
  show "tv_neq a b = (if tv_infinite a \<and> tv_infinite b then impl a \<noteq> impl b else \<not> tv_eq a b)"
    by (auto simp: tv_defs)
  have "tv_eq Infinite (Time_value infinite_min) \<and> tv_neq Infinite (Time_value infinite_min)"
    by (simp add: tv_defs Infinite_def tv_consts)
  then show "\<exists>c d. tv_eq c d \<and> tv_neq c d" by blast
qed

section \<open>Addition and subtraction\<close>

lemma add_is_infinite_finite:
  assumes "tv_finite a" and "tv_finite b"
  shows "add_is_infinite a b \<longleftrightarrow>
    (0 \<le> impl a \<and> 0 \<le> impl b \<and> infinite_min \<le> impl a + impl b)
    \<or> (impl a < 0 \<and> impl b < 0 \<and> impl a + impl b \<le> - infinite_min
        \<and> (impl a, impl b) \<noteq> (- (2 ^ 63), - (2 ^ 63)))"
proof -
  have nf: "\<not> tv_infinite a" "\<not> tv_infinite b"
    using assms by (simp_all add: tv_finite_def)
  have r: "- (2 ^ 63) \<le> impl a" "impl a < 2 ^ 60 - 1" "- (2 ^ 63) \<le> impl b" "impl b < 2 ^ 60 - 1"
    using assms tv_finite_range by blast+
  have m: "u64 (s64 (- x)) = - x" if "- (2 ^ 63) \<le> x" "x < 0" for x :: int
    using that by (cases "x = - (2 ^ 63)") (simp_all add: s64_def u64_def)
  have s: "infinite_min \<le> u64 (- x - y) \<longleftrightarrow>
      x + y \<le> - infinite_min \<and> (x, y) \<noteq> (- (2 ^ 63), - (2 ^ 63))"
    if "- (2 ^ 63) \<le> x" "x < 0" "- (2 ^ 63) \<le> y" "y < 0" for x y :: int
  proof (cases "x + y = - (2 ^ 64)")
    case True
    with that have "x = - (2 ^ 63)" "y = - (2 ^ 63)" by simp_all
    then show ?thesis by (simp add: u64_def tv_consts)
  next
    case False
    with that have "u64 (- x - y) = - x - y" by (intro u64_id) simp_all
    with that False show ?thesis by (auto simp: tv_consts)
  qed
  show ?thesis
  proof (cases "impl a < 0 \<and> impl b < 0")
    case True
    then have "add_is_infinite a b \<longleftrightarrow> infinite_min \<le> u64 (- impl a - impl b)"
      using nf r m by (simp add: add_is_infinite_def Let_def)
    with True r s[of "impl a" "impl b"] show ?thesis by auto
  next
    case False
    then show ?thesis
      using nf r by (auto simp: add_is_infinite_def Let_def u64_id)
  qed
qed

lemma tv_plus_infinite: "tv_infinite a \<or> tv_infinite b \<Longrightarrow> tv_plus a b = Infinite"
  by (auto simp: tv_plus_def add_is_infinite_def Infinite_def)

lemma tv_minus_infinite: "tv_infinite a \<or> tv_infinite b \<Longrightarrow> tv_minus a b = Infinite"
  by (auto simp: tv_minus_def sub_is_infinite_def Infinite_def)

lemma tv_plus_exact:
  assumes "tv_finite a" and "tv_finite b" and "\<bar>impl a + impl b\<bar> < infinite_min"
  shows "tv_plus a b = Time_value (impl a + impl b)"
proof -
  have "\<not> add_is_infinite a b"
    using assms by (auto simp: add_is_infinite_finite)
  then show ?thesis
    using assms(3) by (auto simp: tv_plus_def tv_consts abs_less_iff intro!: s64_id)
qed

text \<open>
  C3: Addition is exact or saturates: two finite values of opposite signs, or whose sum stays
  below \<open>infinite_min\<close> in magnitude, add exactly and without wrap-around; two of the same sign
  whose sum leaves that range add to \<open>Infinite\<close>, the negative ones included. The pair left
  out, the least 64-bit value added to itself, wraps to 0 (\<open>tv_plus_least\<close>).
\<close>

theorem tv_plus_saturates:
  assumes "tv_finite a" and "tv_finite b"
    and "(impl a, impl b) \<noteq> (- (2 ^ 63), - (2 ^ 63))"
  shows "tv_plus a b =
    (if (0 \<le> impl a \<longleftrightarrow> 0 \<le> impl b) \<and> infinite_min \<le> \<bar>impl a + impl b\<bar> then Infinite
     else Time_value (impl a + impl b))"
proof -
  have r: "- (2 ^ 63) \<le> impl a" "impl a < 2 ^ 60 - 1" "- (2 ^ 63) \<le> impl b" "impl b < 2 ^ 60 - 1"
    using assms tv_finite_range by blast+
  have i: "add_is_infinite a b \<longleftrightarrow>
      (0 \<le> impl a \<longleftrightarrow> 0 \<le> impl b) \<and> infinite_min \<le> \<bar>impl a + impl b\<bar>"
    using assms(3) by (auto simp: add_is_infinite_finite[OF assms(1,2)] tv_consts)
  show ?thesis
  proof (cases "add_is_infinite a b")
    case True
    with i show ?thesis by (simp add: tv_plus_def Infinite_def)
  next
    case False
    with i r have "in64 (impl a + impl b)" by (auto simp: tv_consts)
    then have "s64 (impl a + impl b) = impl a + impl b" by (rule s64_id)
    with False i show ?thesis by (auto simp: tv_plus_def)
  qed
qed

theorem tv_plus_saturates_witness:
  "tv_plus (Time_value (- (2 ^ 59))) (Time_value (- (2 ^ 59) - 5)) = Infinite"
  by (subst tv_plus_saturates) (simp_all add: tv_finite_def tv_infinite_def tv_consts)

lemma tv_plus_least: "tv_plus (Time_value (- (2 ^ 63))) (Time_value (- (2 ^ 63))) = Zero_tv"
  by (simp add: tv_plus_def add_is_infinite_def tv_infinite_def tv_consts u64_def s64_def Zero_tv_def)

lemma sub_is_infinite_finite:
  assumes "tv_finite a" and "tv_finite b"
  shows "sub_is_infinite a b \<longleftrightarrow>
    (0 \<le> impl a \<and> impl b < 0 \<or> impl a < 0 \<and> 0 \<le> impl b) \<and> infinite_min \<le> \<bar>impl a - impl b\<bar>"
proof -
  have nf: "\<not> tv_infinite a" "\<not> tv_infinite b"
    using assms by (simp_all add: tv_finite_def)
  have r: "- (2 ^ 63) \<le> impl a" "impl a < 2 ^ 60 - 1" "- (2 ^ 63) \<le> impl b" "impl b < 2 ^ 60 - 1"
    using assms tv_finite_range by blast+
  have m: "u64 (s64 (- x)) = - x" if "- (2 ^ 63) \<le> x" "x < 0" for x :: int
    using that by (cases "x = - (2 ^ 63)") (simp_all add: s64_def u64_def)
  show ?thesis
    using nf r m by (auto simp: sub_is_infinite_def Let_def u64_id tv_consts)
qed

lemma tv_minus_exact:
  assumes "tv_finite a" and "tv_finite b" and "\<bar>impl a - impl b\<bar> < infinite_min"
  shows "tv_minus a b = Time_value (impl a - impl b)"
proof -
  have "\<not> sub_is_infinite a b"
    using assms by (auto simp: sub_is_infinite_finite)
  then show ?thesis
    using assms(3) by (auto simp: tv_minus_def tv_consts abs_less_iff intro!: s64_id)
qed

text \<open>Adding a duration and subtracting it again gives the value back, for values and sums
  within the finite range.\<close>

theorem tv_plus_minus:
  assumes "\<bar>impl a\<bar> < infinite_min" and "\<bar>impl b\<bar> < infinite_min"
    and "\<bar>impl a + impl b\<bar> < infinite_min"
  shows "tv_minus (tv_plus a b) b = a"
proof -
  have f: "tv_finite t" if "\<bar>impl t\<bar> < infinite_min" for t
    using that by (auto simp: tv_finite_def tv_infinite_def tv_consts)
  have "tv_plus a b = Time_value (impl a + impl b)"
    using assms f by (intro tv_plus_exact)
  then show ?thesis
    using assms f[of "Time_value (impl a + impl b)"] f[of b]
    by (simp add: tv_minus_exact)
qed

theorem tv_plus_minus_witness:
  "tv_minus (tv_plus (Time_value 705600000) (Time_value 44100)) (Time_value 44100)
   = Time_value 705600000"
  by (rule tv_plus_minus) (simp_all add: tv_consts)

text \<open>The compound assignment \<open>+=\<close> on time values does not saturate as \<open>+\<close> does: on finite
  values whose sum fits the register the two agree (under \<open>==\<close>) unless both are negative and
  the sum is at or below \<open>-infinite_min\<close>, where \<open>+\<close> gives \<open>Infinite\<close> and \<open>+=\<close> a negative
  date.\<close>

theorem tv_plus_assign_agrees:
  assumes "tv_finite a" and "tv_finite b" and "- (2 ^ 63) \<le> impl a + impl b"
  shows "tv_eq (tv_plus_assign a b) (tv_plus a b) \<longleftrightarrow>
    \<not> (impl a < 0 \<and> impl b < 0 \<and> impl a + impl b \<le> - infinite_min)"
proof -
  have r: "impl a < 2 ^ 60 - 1" "impl b < 2 ^ 60 - 1"
    using assms tv_finite_range by blast+
  then have "s64 (impl a + impl b) = impl a + impl b"
    using assms(3) by (intro s64_id) simp
  then have pa: "tv_plus_assign a b = Time_value (impl a + impl b)"
    using assms by (simp add: tv_plus_assign_def tv_finite_def)
  have ne: "(impl a, impl b) \<noteq> (- (2 ^ 63), - (2 ^ 63))"
    using assms(3) by auto
  show ?thesis
    unfolding pa tv_plus_saturates[OF assms(1,2) ne]
    using r by (auto simp: tv_defs tv_consts Infinite_def)
qed

theorem tv_plus_assign_agrees_witness:
  "\<not> tv_eq (tv_plus_assign (Time_value (- (2 ^ 60))) (Time_value (- 1)))
           (tv_plus (Time_value (- (2 ^ 60))) (Time_value (- 1)))"
  by (subst tv_plus_assign_agrees) (simp_all add: tv_finite_def tv_infinite_def tv_consts)

text \<open>Monotonicity: adding the same non-negative duration keeps the order of two dates.\<close>

lemma tv_plus_mono:
  assumes "tv_le a b" and "0 \<le> impl c" and "- (2 ^ 63) \<le> impl a" and "- (2 ^ 63) \<le> impl b"
  shows "tv_le (tv_plus a c) (tv_plus b c)"
proof (cases "tv_infinite b \<or> tv_infinite c \<or> tv_infinite a")
  case True
  then show ?thesis
  proof (elim disjE)
    assume "tv_infinite b"
    then have "tv_plus b c = Infinite" by (simp add: tv_plus_infinite)
    moreover have "tv_le x Infinite" if "impl x < 2 ^ 60 - 1 \<or> tv_infinite x" for x
      using that by (auto simp: tv_defs Infinite_def tv_consts)
    ultimately show ?thesis
      by (metis infinite_min_eq leI tv_infinite_def)
  next
    assume "tv_infinite c"
    then show ?thesis by (simp add: tv_plus_infinite tv_defs)
  next
    assume "tv_infinite a"
    then have "tv_infinite b" using assms(1) by (auto simp: tv_defs)
    with \<open>tv_infinite a\<close> show ?thesis by (simp add: tv_plus_infinite tv_defs)
  qed
next
  case False
  then have f: "tv_finite a" "tv_finite b" "tv_finite c"
    using assms by (auto simp: tv_finite_def)
  have "impl a \<le> impl b" using assms(1) False by (auto simp: tv_defs)
  moreover have "(impl a, impl c) \<noteq> (- (2 ^ 63), - (2 ^ 63))" "(impl b, impl c) \<noteq> (- (2 ^ 63), - (2 ^ 63))"
    using assms(2) by auto
  ultimately show ?thesis
    using assms(2) f tv_finite_range[of a] tv_finite_range[of b] tv_finite_range[of c]
    by (auto simp: tv_plus_saturates tv_defs tv_consts Infinite_def)
qed

end
