(* ===== verification/Strings.thy ===== *)
theory Strings
  imports Prelude
begin

text \<open>
  The pieces of the C++ standard library on \<open>std::string\<close>, \<open>std::string_view\<close> and \<open>int\<close> that
  the address code uses: signed character codes, \<open>std::to_string\<close>, \<open>std::from_chars\<close> behind
  \<open>parse_strict<int>\<close> (detail/parse_strict.hpp), \<open>find_first_of\<close> and \<open>find_last_of\<close>, and the
  round trip between the two integer conversions.

  A \<open>std::string\<close> is a \<open>string\<close>, a list of bytes. \<open>std::string::npos\<close> is \<open>None\<close>.
\<close>

section \<open>Characters\<close>

text \<open>\<open>char\<close> is signed on the supported targets: bytes from 128 on compare as negative.\<close>

definition schar :: "char \<Rightarrow> int" where
  "schar c = (let n = int (of_char c) in if n < 128 then n else n - 256)"

definition is_digit :: "char \<Rightarrow> bool" where
  "is_digit c \<longleftrightarrow> schar c \<ge> schar CHR ''0'' \<and> schar c \<le> schar CHR ''9''"

lemma schar_inj: "schar c = schar d \<longleftrightarrow> c = d"
proof -
  have "schar c = schar d \<longleftrightarrow> (of_char c :: nat) = of_char d"
    using nat_of_char_less_256[of c] nat_of_char_less_256[of d]
    by (auto simp: schar_def Let_def simp del: nat_of_char_less_256)
  then show ?thesis by simp
qed

lemma schar_range: "- 128 \<le> schar c \<and> schar c < 128"
  using nat_of_char_less_256[of c]
  by (auto simp: schar_def Let_def simp del: nat_of_char_less_256)

definition digit_char :: "int \<Rightarrow> char" where
  "digit_char d = char_of (48 + d)"

definition digit_val :: "char \<Rightarrow> int" where
  "digit_val c = schar c - schar CHR ''0''"

lemma schar_digit_char: "0 \<le> d \<Longrightarrow> d < 10 \<Longrightarrow> schar (digit_char d) = 48 + d"
proof -
  assume d: "0 \<le> d" "d < 10"
  have "int (of_char (digit_char d)) = of_char (digit_char d)"
    by (metis of_nat_of_char)
  also have "\<dots> = 48 + d" using d by (simp add: digit_char_def)
  finally show ?thesis using d by (simp add: schar_def)
qed

lemma schar_0 [simp]: "schar CHR ''0'' = 48"
  and schar_9 [simp]: "schar CHR ''9'' = 57"
  and schar_minus [simp]: "schar CHR ''-'' = 45"
  and schar_dot [simp]: "schar CHR ''.'' = 46"
  and schar_slash [simp]: "schar CHR ''/'' = 47"
  by (simp_all add: schar_def)

lemma is_digit_digit_char [simp]: "0 \<le> d \<Longrightarrow> d < 10 \<Longrightarrow> is_digit (digit_char d)"
  by (simp add: is_digit_def schar_digit_char)

lemma digit_val_digit_char [simp]: "0 \<le> d \<Longrightarrow> d < 10 \<Longrightarrow> digit_val (digit_char d) = d"
  by (simp add: digit_val_def schar_digit_char)

lemma not_digit [simp]: "\<not> is_digit CHR ''-''" "\<not> is_digit CHR ''.''" "\<not> is_digit CHR ''/''"
  by (simp_all add: is_digit_def)

section \<open>Integers as text\<close>

text \<open>\<open>std::to_string\<close>.\<close>

function nat_str :: "int \<Rightarrow> string" where
  "nat_str n = (if n < 10 then [digit_char n] else nat_str (n div 10) @ [digit_char (n mod 10)])"
  by pat_completeness auto
termination
  by (relation "measure nat") auto

declare nat_str.simps [simp del]

definition to_string :: "int \<Rightarrow> string" where
  "to_string i = (if i < 0 then CHR ''-'' # nat_str (- i) else nat_str i)"

text \<open>
  \<open>parse_strict<int>\<close>: \<open>std::from_chars\<close> reads an optional minus sign and the longest run of
  digits, and fails on an empty run or a value outside \<open>int\<close>; the wrapper also fails when
  something is left over. Together: an optional minus and digits only, in range.
\<close>

definition digits_value :: "string \<Rightarrow> int" where
  "digits_value ds = foldl (\<lambda>v c. 10 * v + digit_val c) 0 ds"

definition parse_strict_int :: "string \<Rightarrow> int option" where
  "parse_strict_int s =
     (let neg = (s \<noteq> [] \<and> hd s = CHR ''-'');
          ds = (if neg then tl s else s);
          v = (if neg then - digits_value ds else digits_value ds)
      in if ds = [] \<or> \<not> list_all is_digit ds \<or> \<not> in32 v then None else Some v)"

lemma nat_str_digits: "0 \<le> n \<Longrightarrow> list_all is_digit (nat_str n) \<and> nat_str n \<noteq> []"
proof (induction n rule: nat_str.induct)
  case (1 n)
  then show ?case by (cases "n < 10") (simp_all add: nat_str.simps[of n])
qed

lemma digits_value_snoc: "digits_value (ds @ [c]) = 10 * digits_value ds + digit_val c"
  by (simp add: digits_value_def)

lemma digits_value_nat_str: "0 \<le> n \<Longrightarrow> digits_value (nat_str n) = n"
proof (induction n rule: nat_str.induct)
  case (1 n)
  show ?case
  proof (cases "n < 10")
    case True
    with 1 show ?thesis by (simp add: nat_str.simps[of n] digits_value_def)
  next
    case False
    with 1 show ?thesis by (simp add: nat_str.simps[of n] digits_value_snoc)
  qed
qed

lemma hd_nat_str: "0 \<le> n \<Longrightarrow> hd (nat_str n) \<noteq> CHR ''-''"
  using nat_str_digits[of n] by (cases "nat_str n") auto

lemma parse_to_string: "in32 i \<Longrightarrow> parse_strict_int (to_string i) = Some i"
  using nat_str_digits[of i] nat_str_digits[of "- i"] hd_nat_str[of i]
  by (cases "i < 0") (simp_all add: parse_strict_int_def to_string_def digits_value_nat_str Let_def)

lemma to_string_chars: "c \<in> set (to_string i) \<Longrightarrow> is_digit c \<or> c = CHR ''-''"
  using nat_str_digits[of i] nat_str_digits[of "- i"]
  by (auto simp: to_string_def list_all_iff split: if_splits)

lemma parse_range: "parse_strict_int s = Some i \<Longrightarrow> in32 i"
  by (auto simp: parse_strict_int_def Let_def split: if_splits)

section \<open>Searching\<close>

text \<open>\<open>find_first_of\<close> and \<open>find_last_of\<close> for a single character.\<close>

fun find_first_of :: "char \<Rightarrow> string \<Rightarrow> nat option" where
  "find_first_of c [] = None"
| "find_first_of c (x # xs) =
     (if x = c then Some 0 else map_option Suc (find_first_of c xs))"

fun find_last_of :: "char \<Rightarrow> string \<Rightarrow> nat option" where
  "find_last_of c [] = None"
| "find_last_of c (x # xs) =
     (case find_last_of c xs of
        Some i \<Rightarrow> Some (Suc i)
      | None \<Rightarrow> if x = c then Some 0 else None)"

lemma find_first_of_None [simp]: "find_first_of c xs = None \<longleftrightarrow> c \<notin> set xs"
  by (induction xs) auto

lemma find_first_of_absent: "c \<notin> set xs \<Longrightarrow> find_first_of c xs = None"
  by simp

lemma find_first_of_Some:
  "find_first_of c xs = Some i \<Longrightarrow> i < length xs \<and> xs ! i = c \<and> c \<notin> set (take i xs)"
  by (induction xs arbitrary: i) (auto split: if_splits)

lemma find_first_of_append:
  "c \<notin> set xs \<Longrightarrow> find_first_of c (xs @ c # ys) = Some (length xs)"
  by (induction xs) auto

lemma find_last_of_None [simp]: "find_last_of c xs = None \<longleftrightarrow> c \<notin> set xs"
  by (induction xs) (auto split: option.splits)

lemma find_last_of_Some:
  "find_last_of c xs = Some i \<Longrightarrow> i < length xs \<and> xs ! i = c \<and> c \<notin> set (drop (Suc i) xs)"
proof (induction xs arbitrary: i)
  case (Cons x xs)
  then show ?case
    by (cases "find_last_of c xs") (auto split: if_splits)
qed simp

lemma find_last_of_append:
  "c \<notin> set ys \<Longrightarrow> find_last_of c (xs @ c # ys) = Some (length xs)"
  by (induction xs) (auto split: option.splits)

text \<open>\<open>std::string::find\<close> of a string.\<close>

fun find_str :: "string \<Rightarrow> string \<Rightarrow> nat option" where
  "find_str s [] = (if s = [] then Some 0 else None)"
| "find_str s (c # cs) =
     (if take (length s) (c # cs) = s then Some 0 else map_option Suc (find_str s cs))"

lemma find_str_prefix: "find_str s (s @ t) = Some 0"
proof (cases "s @ t")
  case (Cons c cs)
  then have "take (length s) (c # cs) = s" by (metis append_eq_conv_conj)
  then show ?thesis using Cons by simp
qed simp

end
