(* ===== verification/Names.thy ===== *)
theory Names
  imports Strings "HOL-Library.Multiset"
begin

text \<open>
  Names of devices and nodes (network/base/name_validation.hpp and .cpp): the valid characters,
  the replacement of invalid ones, and \<open>sanitize_name\<close>, which picks for a new node a name none of
  its future siblings has, by numbering instances \<open>foo\<close>, \<open>foo.1\<close>, \<open>foo.2\<close>, ... The source has the
  algorithm twice, on a vector of names and in place on the sibling nodes; both are here.
\<close>

section \<open>Characters of names\<close>

definition is_valid_character_for_device :: "char \<Rightarrow> bool" where
  "is_valid_character_for_device ch \<longleftrightarrow>
     (let c = schar ch in
      (c \<ge> schar CHR ''a'' \<and> c \<le> schar CHR ''z'') \<or> (c \<ge> schar CHR ''A'' \<and> c \<le> schar CHR ''Z'')
      \<or> (c \<ge> schar CHR ''0'' \<and> c \<le> schar CHR ''9'')
      \<or> ch = CHR ''.'' \<or> ch = CHR ''~'' \<or> ch = CHR ''_'' \<or> ch = CHR ''('' \<or> ch = CHR '')''
      \<or> ch = CHR ''-'' \<or> ch = CHR '' '' \<or> ch = CHR ''='')"

definition is_valid_character_for_name :: "char \<Rightarrow> bool" where
  "is_valid_character_for_name ch \<longleftrightarrow>
     (let c = schar ch in
      (c \<ge> schar CHR ''a'' \<and> c \<le> schar CHR ''z'') \<or> (c \<ge> schar CHR ''A'' \<and> c \<le> schar CHR ''Z'')
      \<or> (c \<ge> schar CHR ''0'' \<and> c \<le> schar CHR ''9'')
      \<or> ch = CHR ''.'' \<or> ch = CHR ''~'' \<or> ch = CHR ''_'' \<or> ch = CHR ''('' \<or> ch = CHR '')''
      \<or> ch = CHR ''-'' \<or> ch = CHR '':'' \<or> ch = CHR '' '' \<or> ch = CHR ''='')"

definition sanitize_device_name :: "string \<Rightarrow> string" where
  "sanitize_device_name ret =
     map (\<lambda>c. if is_valid_character_for_device c then c else CHR ''_'') ret"

definition sanitize_chars :: "string \<Rightarrow> string" where
  "sanitize_chars ret = map (\<lambda>c. if is_valid_character_for_name c then c else CHR ''_'') ret"

section \<open>Instance numbers\<close>

text \<open>The root of a name is what precedes its last dot, when an \<open>int\<close> follows it; the flag tells
  that the name is its own root.\<close>

definition name_root :: "string \<Rightarrow> string \<times> bool" where
  "name_root name =
     (case find_last_of CHR ''.'' name of
        Some pos \<Rightarrow>
          (case parse_strict_int (drop (pos + 1) name) of
             Some _ \<Rightarrow> (take pos name, False)
           | None \<Rightarrow> (name, True))
      | None \<Rightarrow> (name, True))"

text \<open>The loop over the siblings: is the name taken, and the instance numbers of its root.\<close>

fun scan_brethren :: "string \<Rightarrow> string \<Rightarrow> bool \<Rightarrow> int list \<Rightarrow> string list \<Rightarrow> bool \<times> int list" where
  "scan_brethren name root here nums [] = (here, nums)"
| "scan_brethren name root here nums (n # ns) =
     (let here' = (here \<or> n = name);
          root_len = length root;
          same_root = (take root_len n = root)
      in if length n < root_len + 1 then scan_brethren name root here' nums ns
         else if same_root \<and> n ! root_len = CHR ''.'' then
           (case parse_strict_int (drop (root_len + 1) n) of
              Some i \<Rightarrow> scan_brethren name root here' (nums @ [i]) ns
            | None \<Rightarrow> scan_brethren name root here' nums ns)
         else if same_root \<and> root_len = length n then
           scan_brethren name root here' (nums @ [0]) ns
         else scan_brethren name root here' nums ns)"

text \<open>\<open>std::max_element\<close>, read through its iterator, on a non-empty range.\<close>

definition max_element :: "int list \<Rightarrow> int" where
  "max_element xs = fold max (tl xs) (hd xs)"

text \<open>\<open>sanitize_name(std::string, const std::vector<std::string>&)\<close>. \<open>*it + 1\<close> is an \<open>int\<close>
  addition.\<close>

definition sanitize_name :: "string \<Rightarrow> string list \<Rightarrow> string" where
  "sanitize_name name0 brethren =
     (let name = sanitize_chars name0;
          root_name = fst (name_root name);
          (is_here, instance_num) = scan_brethren name root_name False [] brethren
      in if \<not> is_here then name
         else if instance_num = [] \<or> (length instance_num = 1 \<and> instance_num ! 0 = 0) then
           root_name @ ''.1''
         else root_name @ ''.'' @ to_string (s32 (max_element instance_num + 1)))"

text \<open>\<open>sanitize_name(std::string&, const node_base::children_t&)\<close>: the new value of the name, over
  the names of the children.\<close>

definition sanitize_name_children :: "string \<Rightarrow> string list \<Rightarrow> string" where
  "sanitize_name_children name0 brethren =
     (let name = sanitize_chars name0;
          (root_name, name_is_root) = name_root name;
          (is_here, instance_num) = scan_brethren name root_name False [] brethren
      in if \<not> is_here then name
         else if instance_num = [] \<or> (length instance_num = 1 \<and> instance_num ! 0 = 0) then
           (if \<not> name_is_root then root_name else name) @ ''.1''
         else
           (let sorted_num = sort instance_num
            in (if \<not> name_is_root then root_name else name)
               @ ''.'' @ to_string (s32 (last sorted_num + 1))))"

section \<open>Addresses and patterns\<close>

text \<open>
  \<open>address_parts\<close> splits with \<open>boost::split\<close>, which is the parameter \<open>split\<close> (input, separators).
\<close>

definition address_parts :: "(string \<Rightarrow> string \<Rightarrow> string list) \<Rightarrow> string \<Rightarrow> string list" where
  "address_parts split src =
     (if src \<noteq> [] then
        (let src1 = (if hd src = CHR ''/'' then tl src else src);
             src2 = (if src1 \<noteq> [] \<and> last src1 = CHR ''/'' then butlast src1 else src1)
         in split src2 ''/'')
      else [])"

fun brace_loop :: "int \<Rightarrow> int \<Rightarrow> bool \<Rightarrow> string \<Rightarrow> bool" where
  "brace_loop brace_count arr_count b [] = (b \<and> brace_count = 0 \<and> arr_count = 0)"
| "brace_loop brace_count arr_count b (c # s) =
     (if c = CHR ''{'' then brace_loop (brace_count + 1) arr_count True s
      else if c = CHR ''['' then brace_loop brace_count (arr_count + 1) True s
      else if c = CHR ''}'' then
        (if brace_count - 1 < 0 then False else brace_loop (brace_count - 1) arr_count b s)
      else if c = CHR '']'' then
        (if arr_count - 1 < 0 then False else brace_loop brace_count (arr_count - 1) b s)
      else brace_loop brace_count arr_count b s)"

definition is_brace_expansion :: "string \<Rightarrow> bool" where
  "is_brace_expansion s = brace_loop 0 0 False s"

section \<open>Sanitised characters\<close>

definition valid_name :: "string \<Rightarrow> bool" where
  "valid_name s \<longleftrightarrow> list_all is_valid_character_for_name s"

lemma valid_underscore [simp]: "is_valid_character_for_name CHR ''_''"
  by (simp add: is_valid_character_for_name_def)

lemma valid_sanitize_chars [simp]: "valid_name (sanitize_chars s)"
  by (auto simp: valid_name_def sanitize_chars_def list_all_iff)

lemma sanitize_chars_id: "valid_name s \<Longrightarrow> sanitize_chars s = s"
  by (auto simp: valid_name_def sanitize_chars_def list_all_iff intro: map_idI)

lemma sanitize_chars_idem [simp]: "sanitize_chars (sanitize_chars s) = sanitize_chars s"
  by (simp add: sanitize_chars_id)

lemma length_sanitize_chars [simp]: "length (sanitize_chars s) = length s"
  by (simp add: sanitize_chars_def)

lemma valid_name_append [simp]: "valid_name (a @ b) \<longleftrightarrow> valid_name a \<and> valid_name b"
  by (simp add: valid_name_def)

lemma valid_dot [simp]: "is_valid_character_for_name CHR ''.''"
  by (simp add: is_valid_character_for_name_def)

lemma valid_digit: "is_digit c \<Longrightarrow> is_valid_character_for_name c"
  by (auto simp: is_valid_character_for_name_def is_digit_def Let_def)

lemma valid_to_string [simp]: "valid_name (to_string i)"
  using to_string_chars[of _ i] valid_digit
  by (fastforce simp: valid_name_def list_all_iff is_valid_character_for_name_def)

lemma valid_name_take: "valid_name s \<Longrightarrow> valid_name (take n s)"
  by (auto simp: valid_name_def list_all_iff dest: in_set_takeD)

lemma slash_not_valid: "\<not> is_valid_character_for_name CHR ''/''"
  by (simp add: is_valid_character_for_name_def schar_def)

lemma valid_name_no_slash: "valid_name s \<Longrightarrow> CHR ''/'' \<notin> set s"
  using slash_not_valid by (auto simp: valid_name_def list_all_iff)

section \<open>What the loop over the siblings computes\<close>

text \<open>The instance number a sibling's name carries under a root, if any.\<close>

definition instance_of :: "string \<Rightarrow> string \<Rightarrow> int option" where
  "instance_of root n =
     (if length root < length n \<and> take (length root) n = root \<and> n ! length root = CHR ''.''
      then parse_strict_int (drop (length root + 1) n) else None)"

text \<open>The last branch of the loop, meant for a sibling named exactly like the root, is never
  taken: the length test before it has already skipped that sibling.\<close>

lemma scan_brethren_eq:
  "scan_brethren name root here nums ns =
     (here \<or> name \<in> set ns, nums @ List.map_filter (instance_of root) ns)"
proof (induction ns arbitrary: here nums)
  case Nil
  then show ?case by (simp add: List.map_filter_def)
next
  case (Cons n ns)
  then show ?case
    by (auto simp: Let_def instance_of_def List.map_filter_def split: option.splits)
qed

definition instance_nums :: "string \<Rightarrow> string list \<Rightarrow> int list" where
  "instance_nums root ns = List.map_filter (instance_of root) ns"

lemma set_instance_nums: "set (instance_nums root ns) = {i. \<exists>n\<in>set ns. instance_of root n = Some i}"
  by (force simp: instance_nums_def List.map_filter_def image_iff)

lemma max_element_eq: "xs \<noteq> [] \<Longrightarrow> max_element xs = Max (set xs)"
  by (cases xs) (simp_all add: max_element_def Max.set_eq_fold del: set_simps)

lemma sanitize_name_unfold:
  "sanitize_name name0 ns =
     (let name = sanitize_chars name0; root = fst (name_root name); nums = instance_nums root ns
      in if name \<notin> set ns then name
         else if nums = [] \<or> nums = [0] then root @ ''.1''
         else root @ ''.'' @ to_string (s32 (Max (set nums) + 1)))"
  by (auto simp: sanitize_name_def scan_brethren_eq instance_nums_def Let_def length_Suc_conv
      max_element_eq)

lemma name_root_eq: "snd (name_root n) \<Longrightarrow> fst (name_root n) = n"
  by (auto simp: name_root_def simp del: find_last_of_None split: option.splits)

lemma valid_name_root: "valid_name n \<Longrightarrow> valid_name (fst (name_root n))"
  by (auto simp: name_root_def valid_name_take split: option.splits)

lemma to_string_1: "to_string 1 = ''1''"
  by code_simp

lemma instance_of_num: "in32 i \<Longrightarrow> instance_of root (root @ CHR ''.'' # to_string i) = Some i"
  by (simp add: instance_of_def parse_to_string)

lemma sorted_le_last: "sorted xs \<Longrightarrow> y \<in> set xs \<Longrightarrow> y \<le> last xs"
  by (induction xs) auto

lemma sort_last_Max:
  assumes "xs \<noteq> []"
  shows "last (sort xs) = Max (set (xs :: int list))"
proof (rule Max_eqI[symmetric])
  have "sort xs \<noteq> []" using assms by (metis set_empty set_sort)
  then show "last (sort xs) \<in> set xs" using last_in_set by fastforce
  show "y \<le> last (sort xs)" if "y \<in> set xs" for y
    using that by (intro sorted_le_last) simp_all
qed simp

text \<open>No sibling carries the largest \<open>int\<close> as an instance number of the name's root.\<close>

definition instances_left :: "string \<Rightarrow> string list \<Rightarrow> bool" where
  "instances_left name brethren \<longleftrightarrow>
     list_all (\<lambda>n. instance_of (fst (name_root (sanitize_chars name))) n \<noteq> Some (2 ^ 31 - 1)) brethren"

lemma sanitize_name_new:
  assumes left: "instances_left name brethren"
  shows "sanitize_name name brethren \<notin> set brethren \<and> valid_name (sanitize_name name brethren)"
proof -
  define root where "root = fst (name_root (sanitize_chars name))"
  define nums where "nums = instance_nums root brethren"
  have valid: "valid_name root" by (simp add: root_def valid_name_root)
  have taken: "i \<in> set nums" if "root @ CHR ''.'' # to_string i \<in> set brethren" "in32 i" for i
    using that instance_of_num[of i root] by (auto simp: nums_def set_instance_nums)
  have one: "root @ ''.1'' = root @ CHR ''.'' # to_string 1"
    by (simp add: to_string_1)
  have r: "in32 (m + 1)" if "m \<in> set nums" for m
    using that left[unfolded instances_left_def list_all_iff] parse_range
    by (fastforce simp: nums_def set_instance_nums root_def instance_of_def split: if_splits)
  show ?thesis
  proof (cases "sanitize_chars name \<in> set brethren")
    case False
    then show ?thesis by (simp add: sanitize_name_unfold)
  next
    case here: True
    show ?thesis
    proof (cases "nums = [] \<or> nums = [0]")
      case True
      with here have "sanitize_name name brethren = root @ CHR ''.'' # to_string 1"
        by (simp add: sanitize_name_unfold Let_def root_def nums_def to_string_1)
      moreover have "root @ CHR ''.'' # to_string 1 \<notin> set brethren"
        using True taken[of 1] by auto
      ultimately show ?thesis
        using valid valid_to_string[of 1] by (simp add: valid_name_def)
    next
      case False
      let ?m = "Max (set nums)"
      have m: "?m \<in> set nums" using False by (intro Max_in) auto
      from here False have "sanitize_name name brethren = root @ CHR ''.'' # to_string (?m + 1)"
        using r[OF m] by (simp add: sanitize_name_unfold Let_def root_def nums_def s32_id)
      moreover have "?m + 1 \<notin> set nums"
        by (metis List.finite_set Max_ge not_less zless_add1_eq)
      ultimately show ?thesis
        using valid valid_to_string[of "?m + 1"] taken[of "?m + 1"] r[OF m]
        by (auto simp: valid_name_def)
    qed
  qed
qed

lemma sanitize_name_available:
  assumes "sanitize_chars name \<notin> set brethren \<or> instances_left name brethren"
  shows "sanitize_name name brethren \<notin> set brethren \<and> valid_name (sanitize_name name brethren)"
  using assms sanitize_name_new[of name brethren] by (auto simp: sanitize_name_unfold)

text \<open>C35: \<open>sanitize_name\<close> returns a valid name that no sibling has, unless a sibling already
  carries the largest \<open>int\<close> as its instance number.\<close>

theorem sanitize_name_fresh:
  assumes "\<forall>n\<in>set brethren.
    instance_of (fst (name_root (sanitize_chars name))) n \<noteq> Some (2 ^ 31 - 1)"
  shows "sanitize_name name brethren \<notin> set brethren \<and> valid_name (sanitize_name name brethren)"
  using assms by (intro sanitize_name_new) (simp add: instances_left_def list_all_iff)

lemma witness_instances:
  "instance_of (fst (name_root (sanitize_chars ''foo''))) ''foo'' = None"
  "instance_of (fst (name_root (sanitize_chars ''foo''))) ''bar'' = None"
  "instance_of (fst (name_root (sanitize_chars ''foo''))) ''foo.4'' = Some 4"
  by code_simp+

theorem sanitize_name_fresh_witness:
  "sanitize_name ''foo'' [''foo'', ''bar'', ''foo.4''] \<notin> set [''foo'', ''bar'', ''foo.4'']
   \<and> valid_name (sanitize_name ''foo'' [''foo'', ''bar'', ''foo.4''])"
  by (rule sanitize_name_fresh) (simp add: witness_instances)

text \<open>Why the exception: past the largest \<open>int\<close> the instance number overflows, and the name
  picked can be one that is taken.\<close>

lemma sanitize_name_overflow:
  "sanitize_name ''a.2147483647'' [''a.2147483647'', ''a.-2147483648''] = ''a.-2147483648''"
  by code_simp

lemma sanitize_children_eq:
  "sanitize_name_children name brethren = sanitize_name name brethren"
proof -
  define nm where "nm = sanitize_chars name"
  obtain root is_root where r: "name_root nm = (root, is_root)" by (cases "name_root nm")
  have i: "(if \<not> is_root then root else nm) = root" using name_root_eq[of nm] r by simp
  define nums where "nums = instance_nums root brethren"
  have sc: "scan_brethren nm root False [] brethren = (nm \<in> set brethren, nums)"
    by (simp add: scan_brethren_eq nums_def instance_nums_def)
  have "sanitize_name_children name brethren =
      (if nm \<notin> set brethren then nm
       else if nums = [] \<or> (length nums = 1 \<and> nums ! 0 = 0) then root @ ''.1''
       else root @ ''.'' @ to_string (s32 (last (sort nums) + 1)))"
    by (simp only: sanitize_name_children_def Let_def nm_def[symmetric] r prod.case sc i)
  also have "\<dots> = sanitize_name name brethren"
    by (simp add: sanitize_name_def Let_def nm_def[symmetric] r sc sort_last_Max max_element_eq)
  finally show ?thesis .
qed

text \<open>The in-place version on the children of a node computes what the version on a vector
  of names does.\<close>

theorem sanitize_name_children_eq:
  "sanitize_name_children name brethren = sanitize_name name brethren"
  by (rule sanitize_children_eq)

section \<open>Brace expansion patterns\<close>

text \<open>No prefix of \<open>s\<close> closes more \<open>r\<close> than it opened \<open>l\<close>, with \<open>k\<close> open already.\<close>

definition prefix_ok :: "char \<Rightarrow> char \<Rightarrow> int \<Rightarrow> string \<Rightarrow> bool" where
  "prefix_ok l r k s \<longleftrightarrow>
     (\<forall>i\<le>length s. 0 \<le> k + int (count_list (take i s) l) - int (count_list (take i s) r))"

lemma all_le_Suc: "(\<forall>i\<le>Suc n. P i) \<longleftrightarrow> P 0 \<and> (\<forall>i\<le>n. P (Suc i))"
  by (metis Suc_le_mono bot_nat_0.extremum old.nat.exhaust)

lemma prefix_ok_Nil [simp]: "prefix_ok l r k [] \<longleftrightarrow> 0 \<le> k"
  by (simp add: prefix_ok_def)

lemma prefix_ok_Cons [simp]:
  "l \<noteq> r \<Longrightarrow> prefix_ok l r k (c # s) \<longleftrightarrow>
     0 \<le> k \<and> prefix_ok l r (if c = l then k + 1 else if c = r then k - 1 else k) s"
  by (auto simp: prefix_ok_def all_le_Suc algebra_simps)

lemma prefix_ok_nonneg: "prefix_ok l r k s \<Longrightarrow> 0 \<le> k"
  by (auto simp: prefix_ok_def dest: spec[of _ 0])

lemma brace_loop_iff:
  "0 \<le> k \<Longrightarrow> 0 \<le> m \<Longrightarrow> brace_loop k m b s \<longleftrightarrow>
     (b \<or> CHR ''{'' \<in> set s \<or> CHR ''['' \<in> set s)
     \<and> prefix_ok CHR ''{'' CHR ''}'' k s \<and> prefix_ok CHR ''['' CHR '']'' m s
     \<and> k + int (count_list s CHR ''{'') = int (count_list s CHR ''}'')
     \<and> m + int (count_list s CHR ''['') = int (count_list s CHR '']'')"
proof (induction s arbitrary: k m b)
  case (Cons c s)
  consider "c = CHR ''{''" | "c = CHR ''}''" | "c = CHR ''[''" | "c = CHR '']''"
    | "c \<noteq> CHR ''{''" "c \<noteq> CHR ''}''" "c \<noteq> CHR ''[''" "c \<noteq> CHR '']''"
    by blast
  then show ?case
  proof cases
    case 2 then show ?thesis using Cons prefix_ok_nonneg[of _ _ "k - 1" s] by (cases "k < 1") auto
  next
    case 4 then show ?thesis using Cons prefix_ok_nonneg[of _ _ "m - 1" s] by (cases "m < 1") auto
  qed (use Cons in auto)
qed auto

text \<open>\<open>is_brace_expansion\<close> accepts exactly the strings with at least one opening brace or
  bracket, in which braces and brackets each balance and no prefix closes more than it opened.\<close>

theorem is_brace_expansion_iff:
  "is_brace_expansion s \<longleftrightarrow>
     (CHR ''{'' \<in> set s \<or> CHR ''['' \<in> set s)
     \<and> prefix_ok CHR ''{'' CHR ''}'' 0 s \<and> prefix_ok CHR ''['' CHR '']'' 0 s
     \<and> count_list s CHR ''{'' = count_list s CHR ''}''
     \<and> count_list s CHR ''['' = count_list s CHR '']''"
  by (simp add: is_brace_expansion_def brace_loop_iff)

section \<open>Splitting addresses\<close>

text \<open>
  What \<open>boost::split\<close> documents for one separator: the tokens, none of which holds the separator,
  joined by it give the input back. \<open>split_on\<close> is a splitter that does.
\<close>

fun join_on :: "char \<Rightarrow> string list \<Rightarrow> string" where
  "join_on c [] = []"
| "join_on c [x] = x"
| "join_on c (x # y # ys) = x @ c # join_on c (y # ys)"

definition split_doc :: "(string \<Rightarrow> string \<Rightarrow> string list) \<Rightarrow> bool" where
  "split_doc split \<longleftrightarrow>
     (\<forall>s c. split s [c] \<noteq> [] \<and> (\<forall>t\<in>set (split s [c]). c \<notin> set t) \<and> join_on c (split s [c]) = s)"

fun split_on :: "string \<Rightarrow> string \<Rightarrow> string list" where
  "split_on [] seps = [[]]"
| "split_on (x # xs) seps =
     (if x \<in> set seps then [] # split_on xs seps
      else (x # hd (split_on xs seps)) # tl (split_on xs seps))"

lemma split_on_ne [simp]: "split_on s seps \<noteq> []"
  by (cases s) auto

lemma join_on_hd: "join_on c ((x # t) # ts) = x # join_on c (t # ts)"
  by (cases ts) auto

lemma join_on_empty: "ts \<noteq> [] \<Longrightarrow> join_on c ([] # ts) = c # join_on c ts"
  by (cases ts) auto

lemma split_on_doc: "split_doc split_on"
proof -
  have "(\<forall>t\<in>set (split_on s [c]). c \<notin> set t) \<and> join_on c (split_on s [c]) = s" for s c
  proof (induction s)
    case (Cons x s)
    obtain t ts where "split_on s [c] = t # ts" by (cases "split_on s [c]") auto
    with Cons show ?case by (auto simp: join_on_hd join_on_empty)
  qed simp
  then show ?thesis by (simp add: split_doc_def)
qed

definition strip_slash :: "string \<Rightarrow> string" where
  "strip_slash s =
     (let t = (if s \<noteq> [] \<and> hd s = CHR ''/'' then tl s else s)
      in if t \<noteq> [] \<and> last t = CHR ''/'' then butlast t else t)"

text \<open>The parts of a non-empty address hold no slash and, joined by slashes, give the address
  back without its outer slashes; an empty address has no part.\<close>

theorem address_parts_join:
  assumes "split_doc split"
  shows "(src = [] \<longrightarrow> address_parts split src = [])
    \<and> (src \<noteq> [] \<longrightarrow> join_on CHR ''/'' (address_parts split src) = strip_slash src
         \<and> (\<forall>t\<in>set (address_parts split src). CHR ''/'' \<notin> set t))"
  using assms by (simp add: address_parts_def strip_slash_def split_doc_def Let_def)

theorem address_parts_join_witness:
  "address_parts split_on ''/foo/bar/'' = [''foo'', ''bar'']
   \<and> join_on CHR ''/'' (address_parts split_on ''/foo/bar/'') = strip_slash ''/foo/bar/''"
proof
  show "address_parts split_on ''/foo/bar/'' = [''foo'', ''bar'']" by code_simp
  show "join_on CHR ''/'' (address_parts split_on ''/foo/bar/'') = strip_slash ''/foo/bar/''"
    using address_parts_join[OF split_on_doc, of "''/foo/bar/''"] by blast
qed

end
