(* ===== verification/RankedTree.thy ===== *)
theory RankedTree
  imports Main
begin

text \<open>
  The interface the recursions over a tree kept in a store rely on: every state that satisfies
  the invariant gives each number a duplicate-free list of children, all larger than it and below
  a bound. A recursion over children then ends; \<open>forest_induct\<close> is its induction rule, and
  \<open>weight\<close> the measure for recursions that change the store as they go. Also the nodes below a
  list of nodes, \<open>below\<close>, and what restricting the store does to them.
\<close>

section \<open>Nodes below a node\<close>

inductive_set below :: "(nat \<Rightarrow> nat list) \<Rightarrow> nat list \<Rightarrow> nat set" for ch js where
  below_here: "j \<in> set js \<Longrightarrow> j \<in> below ch js"
| below_child: "j \<in> below ch js \<Longrightarrow> c \<in> set (ch j) \<Longrightarrow> c \<in> below ch js"

lemma below_mono: "set js \<subseteq> below ch ks \<Longrightarrow> below ch js \<subseteq> below ch ks"
proof
  fix x assume "set js \<subseteq> below ch ks" "x \<in> below ch js"
  from this(2,1) show "x \<in> below ch ks"
    by (induction rule: below.induct) (auto intro: below_child)
qed

lemma below_Nil [simp]: "below ch [] = {}"
proof -
  have "x \<notin> below ch []" for x
  proof
    assume "x \<in> below ch []"
    then show False by (induction rule: below.induct) auto
  qed
  then show ?thesis by auto
qed

lemma below_Cons: "below ch (j # js) = below ch [j] \<union> below ch js"
proof
  have "x \<in> below ch [j] \<union> below ch js" if "x \<in> below ch (j # js)" for x
    using that by (induction rule: below.induct) (auto intro: below.intros)
  then show "below ch (j # js) \<subseteq> below ch [j] \<union> below ch js" by auto
  show "below ch [j] \<union> below ch js \<subseteq> below ch (j # js)"
    by (intro Un_least below_mono) (auto intro: below_here)
qed

lemma below_single: "below ch [j] = insert j (below ch (ch j))"
proof
  have "x \<in> insert j (below ch (ch j))" if "x \<in> below ch [j]" for x
    using that by (induction rule: below.induct) (auto intro: below.intros)
  then show "below ch [j] \<subseteq> insert j (below ch (ch j))" by auto
  have "j \<in> below ch [j]" by (simp add: below_here)
  then show "insert j (below ch (ch j)) \<subseteq> below ch [j]"
    by (intro insert_subsetI below_mono) (auto intro: below_child)
qed

text \<open>Cutting the children of nodes of a set that is closed under children.\<close>

lemma below_restrict:
  assumes closed: "\<And>x c. x \<in> D \<Longrightarrow> c \<in> set (ch x) \<Longrightarrow> c \<in> D"
    and cut: "\<And>x. x \<notin> D \<Longrightarrow> ch' x = ch x" "\<And>x. x \<in> D \<Longrightarrow> ch' x = []"
  shows "D \<union> below ch' js = D \<union> below ch js"
proof -
  have "x \<in> D \<union> below ch js" if "x \<in> below ch' js" for x
    using that
  proof (induction rule: below.induct)
    case (below_child j c)
    then show ?case by (cases "j \<in> D") (auto simp: cut intro: below.intros)
  qed (auto intro: below_here)
  moreover have "x \<in> D \<union> below ch' js" if "x \<in> below ch js" for x
    using that
  proof (induction rule: below.induct)
    case (below_child j c)
    then show ?case
      by (cases "j \<in> D") (auto simp: cut intro: closed below.below_child)
  qed (auto intro: below_here)
  ultimately show ?thesis by auto
qed

lemma below_cong:
  assumes "\<And>x. x \<in> below ch js \<Longrightarrow> ch' x = ch x"
  shows "below ch' js = below ch js"
proof
  have "x \<in> below ch js" if "x \<in> below ch' js" for x
    using that by (induction rule: below.induct) (auto simp: assms intro: below.intros)
  then show "below ch' js \<subseteq> below ch js" by auto
  have "x \<in> below ch' js" if "x \<in> below ch js" for x
    using that
  proof (induction rule: below.induct)
    case (below_child j c)
    then have "c \<in> set (ch' j)" using assms by simp
    with below_child.IH show ?case by (rule below.below_child)
  qed (auto intro: below_here)
  then show "below ch js \<subseteq> below ch' js" by auto
qed

section \<open>Weight of a list of nodes\<close>

definition weight :: "nat \<Rightarrow> nat list \<Rightarrow> nat" where
  "weight N js = sum_list (map (\<lambda>j. 2 ^ (N - j)) js)"

lemma weight_simps [simp]:
  "weight N [] = 0"
  "weight N (j # js) = 2 ^ (N - j) + weight N js"
  by (simp_all add: weight_def)

lemma sum_pow_between: "j < N \<Longrightarrow> (\<Sum>c\<in>{j<..<N}. 2 ^ (N - c)) + 2 = (2 :: nat) ^ (N - j)"
proof (induction "N - j" arbitrary: j)
  case (Suc d)
  show ?case
  proof (cases "Suc j < N")
    case True
    have "{j<..<N} = insert (Suc j) {Suc j<..<N}" using True by auto
    then have "(\<Sum>c\<in>{j<..<N}. 2 ^ (N - c)) = 2 ^ (N - Suc j) + (\<Sum>c\<in>{Suc j<..<N}. (2 :: nat) ^ (N - c))"
      by simp
    moreover have "(\<Sum>c\<in>{Suc j<..<N}. 2 ^ (N - c)) + 2 = (2 :: nat) ^ (N - Suc j)"
      using Suc True by (intro Suc.hyps(1)) auto
    moreover have "N - j = Suc (N - Suc j)" using True by simp
    ultimately show ?thesis by simp
  next
    case False
    then have "N = Suc j" using Suc by simp
    then show ?thesis by auto
  qed
qed simp

section \<open>The interface\<close>

locale ranked_tree =
  fixes ch :: "'s \<Rightarrow> nat \<Rightarrow> nat list" and bound :: "'s \<Rightarrow> nat" and inv :: "'s \<Rightarrow> bool"
  assumes child_after: "inv s \<Longrightarrow> c \<in> set (ch s i) \<Longrightarrow> i < c \<and> c < bound s"
    and children_distinct: "inv s \<Longrightarrow> distinct (ch s i)"
begin

lemma weight_children:
  assumes "inv s" and "j < bound s"
  shows "weight (bound s) (ch s j) < 2 ^ (bound s - j)"
proof -
  have "weight (bound s) (ch s j) = (\<Sum>c\<in>set (ch s j). 2 ^ (bound s - c))"
    using children_distinct[OF assms(1)] by (simp add: weight_def sum_list_distinct_conv_sum_set)
  also have "\<dots> \<le> (\<Sum>c\<in>{j<..<bound s}. 2 ^ (bound s - c))"
    using child_after[OF assms(1)] by (intro sum_mono2) auto
  also have "\<dots> < 2 ^ (bound s - j)"
    using sum_pow_between[OF assms(2)] by simp
  finally show ?thesis .
qed

lemma forest_induct [consumes 2, case_names Nil Cons]:
  assumes "inv s" and "\<forall>j\<in>set js. j < bound s"
    and nil: "P []"
    and cons: "\<And>j js. j < bound s \<Longrightarrow> P (ch s j) \<Longrightarrow> P js \<Longrightarrow> P (j # js)"
  shows "P js"
  using assms(2)
proof (induction "weight (bound s) js" arbitrary: js rule: less_induct)
  case less
  show ?case
  proof (cases js)
    case Nil
    then show ?thesis by (simp add: nil)
  next
    case (Cons j ks)
    have j: "j < bound s" using less.prems Cons by simp
    have "weight (bound s) (ch s j) < weight (bound s) js"
      using weight_children[OF assms(1) j] Cons by simp
    then have "P (ch s j)"
      using less.hyps child_after[OF assms(1)] by blast
    moreover have "P ks"
      using less.hyps[of ks] less.prems Cons by simp
    ultimately show ?thesis using cons j Cons by simp
  qed
qed

lemma below_after: "inv s \<Longrightarrow> x \<in> below (ch s) (ch s j) \<Longrightarrow> j < x"
proof -
  assume i: "inv s" and "x \<in> below (ch s) (ch s j)"
  from this(2) show "j < x"
    by (induction rule: below.induct) (auto dest: child_after[OF i])
qed

lemma below_bounded:
  "inv s \<Longrightarrow> \<forall>j\<in>set js. j < bound s \<Longrightarrow> x \<in> below (ch s) js \<Longrightarrow> x < bound s"
proof -
  assume i: "inv s" and js: "\<forall>j\<in>set js. j < bound s" and "x \<in> below (ch s) js"
  from this(3) show "x < bound s"
    using js by (induction rule: below.induct) (auto dest: child_after[OF i])
qed

end

end
