(* ===== verification/DeviceTree.thy ===== *)
theory DeviceTree
  imports Names RankedTree
begin

text \<open>
  The tree of nodes of a device: \<open>node_base\<close> (network/base/node.cpp) on \<open>generic_node\<close>
  (network/generic/generic_node.cpp).

  A node is an entry of a store, its address a number that is never reused, so that pointers
  (children, parents, results) are numbers and aliasing is explicit. The mutexes are left out: an
  operation runs to its end alone. Listeners of the device's signals are outside the model; the
  signals and the calls to the protocol are recorded in the order they are made. A recursion over
  the tree whose end depends on the shape of the store is \<open>partial_function (option)\<close>: \<open>None\<close> is
  not returning, and the theorems show that it does return on well-formed trees.
\<close>

section \<open>State\<close>

record node =
  nname :: string
  nparent :: "nat option"
  nchildren :: "nat list"
  nosc :: string
  nparam :: bool

datatype signal =
    Node_created nat
  | Node_removing nat
  | Node_renamed nat string
  | Parameter_created nat
  | Parameter_removing nat
  | Observe nat bool
  | About_to_be_deleted nat

record device =
  nodes :: "nat \<Rightarrow> node option"
  next_id :: nat
  can_change_tree :: bool
  signals :: "signal list"

definition name_of :: "device \<Rightarrow> nat \<Rightarrow> string" where
  "name_of st i = (case nodes st i of Some n \<Rightarrow> nname n | None \<Rightarrow> [])"

definition kids :: "device \<Rightarrow> nat \<Rightarrow> nat list" where
  "kids st i = (case nodes st i of Some n \<Rightarrow> nchildren n | None \<Rightarrow> [])"

definition parent_of :: "device \<Rightarrow> nat \<Rightarrow> nat option" where
  "parent_of st i = (case nodes st i of Some n \<Rightarrow> nparent n | None \<Rightarrow> None)"

definition has_parameter :: "device \<Rightarrow> nat \<Rightarrow> bool" where
  "has_parameter st i = (case nodes st i of Some n \<Rightarrow> nparam n | None \<Rightarrow> False)"

definition osc_cache :: "device \<Rightarrow> nat \<Rightarrow> string" where
  "osc_cache st i = (case nodes st i of Some n \<Rightarrow> nosc n | None \<Rightarrow> [])"

definition emit :: "signal \<Rightarrow> device \<Rightarrow> device" where
  "emit s st = st\<lparr>signals := signals st @ [s]\<rparr>"

definition upd_node :: "nat \<Rightarrow> (node \<Rightarrow> node) \<Rightarrow> device \<Rightarrow> device" where
  "upd_node i f st = st\<lparr>nodes := (nodes st)(i := map_option f (nodes st i))\<rparr>"

definition delete_node :: "nat \<Rightarrow> device \<Rightarrow> device" where
  "delete_node i st = st\<lparr>nodes := (nodes st)(i := None)\<rparr>"

text \<open>\<open>generic_device\<close>: a device that is its own root node, whose tree can change.\<close>

definition generic_device :: "string \<Rightarrow> device" where
  "generic_device name =
     \<lparr>nodes = [0 \<mapsto> \<lparr>nname = name, nparent = None, nchildren = [], nosc = ''/'', nparam = False\<rparr>],
      next_id = 1, can_change_tree = True, signals = []\<rparr>"

section \<open>Addresses of nodes\<close>

text \<open>\<open>getOSCAddressFromNode_rec\<close> and \<open>osc_parameter_string\<close> (network/base/osc_address.cpp): the
  string the recursion appends to is its result.\<close>

partial_function (option) osc_address_rec :: "device \<Rightarrow> nat \<Rightarrow> string option" where
  "osc_address_rec st i =
     (case parent_of st i of
        Some p \<Rightarrow> Option.bind (osc_address_rec st p) (\<lambda>s. Some (s @ ''/'' @ name_of st i))
      | None \<Rightarrow> Some [])"

definition osc_parameter_string :: "device \<Rightarrow> nat \<Rightarrow> string option" where
  "osc_parameter_string st i =
     (case parent_of st i of Some _ \<Rightarrow> osc_address_rec st i | None \<Rightarrow> Some ''/'')"

section \<open>Children\<close>

definition children_names :: "device \<Rightarrow> nat \<Rightarrow> string list" where
  "children_names st i = map (name_of st) (kids st i)"

definition children_copy :: "device \<Rightarrow> nat \<Rightarrow> nat list" where
  "children_copy st i = kids st i"

definition children_count :: "device \<Rightarrow> nat \<Rightarrow> nat" where
  "children_count st i = length (kids st i)"

definition find_child :: "device \<Rightarrow> nat \<Rightarrow> string \<Rightarrow> nat option" where
  "find_child st i name = List.find (\<lambda>c. name_of st c = name) (kids st i)"

definition has_child :: "device \<Rightarrow> nat \<Rightarrow> nat \<Rightarrow> bool" where
  "has_child st i n = list_ex (\<lambda>c. c = n) (kids st i)"

text \<open>\<open>starts_with\<close> is \<open>boost::starts_with\<close>.\<close>

definition is_root_instance :: "(string \<Rightarrow> string \<Rightarrow> bool) \<Rightarrow> device \<Rightarrow> nat \<Rightarrow> nat \<Rightarrow> bool" where
  "is_root_instance starts_with st i child =
     (let child_name = name_of st child
      in list_ex (\<lambda>c. let bro_name = name_of st c
                      in length bro_name > length child_name + 1
                         \<and> starts_with bro_name child_name
                         \<and> bro_name ! length child_name = CHR ''.'') (kids st i))"

section \<open>Creation\<close>

text \<open>\<open>generic_node::make_child\<close> with the constructors it runs: a node with its parent, whose OSC
  address is computed at once.\<close>

definition make_child :: "device \<Rightarrow> nat \<Rightarrow> string \<Rightarrow> (device \<times> nat) option" where
  "make_child st i name =
     (let j = next_id st;
          st1 = st\<lparr>nodes := (nodes st)(j \<mapsto>
                   \<lparr>nname = name, nparent = Some i, nchildren = [], nosc = [], nparam = False\<rparr>),
                 next_id := j + 1\<rparr>
      in case osc_parameter_string st1 j of
           None \<Rightarrow> None
         | Some s \<Rightarrow> Some (upd_node j (\<lambda>n. n\<lparr>nosc := s\<rparr>) st1, j))"

definition create_child :: "device \<Rightarrow> nat \<Rightarrow> string \<Rightarrow> (device \<times> nat option) option" where
  "create_child st i name0 =
     (if \<not> can_change_tree st then Some (st, None)
      else
        (let name = sanitize_name_children name0 (children_names st i)
         in case make_child st i name of
              None \<Rightarrow> None
            | Some (st1, ptr) \<Rightarrow>
                (let st2 = upd_node i (\<lambda>n. n\<lparr>nchildren := nchildren n @ [ptr]\<rparr>) st1
                 in Some (emit (Node_created ptr) st2, Some ptr))))"

text \<open>\<open>add_child\<close>: the node handed in is in the store already (or null); it is accepted under the
  name it has, if that name needs no change.\<close>

definition add_child :: "device \<Rightarrow> nat \<Rightarrow> nat option \<Rightarrow> device \<times> nat option" where
  "add_child st i n =
     (if \<not> can_change_tree st then (st, None)
      else case n of
        None \<Rightarrow> (st, None)
      | Some ptr \<Rightarrow>
          (let name = name_of st ptr
           in if name = sanitize_name name (children_names st i) then
                (emit (Node_created ptr) (upd_node i (\<lambda>n. n\<lparr>nchildren := nchildren n @ [ptr]\<rparr>) st), Some ptr)
              else (st, None)))"

section \<open>Parameters\<close>

definition remove_parameter :: "nat \<Rightarrow> device \<Rightarrow> device" where
  "remove_parameter i st =
     (if has_parameter st i
      then emit (Observe i False) (emit (Parameter_removing i)
             (upd_node i (\<lambda>n. n\<lparr>nparam := False\<rparr>) st))
      else st)"

text \<open>\<open>generic_node::create_parameter\<close>; the type it sets is not part of this model.\<close>

definition create_parameter :: "nat \<Rightarrow> device \<Rightarrow> device" where
  "create_parameter i st =
     (if \<not> has_parameter st i
      then emit (Parameter_created i) (upd_node i (\<lambda>n. n\<lparr>nparam := True\<rparr>) st)
      else st)"

section \<open>Removal\<close>

text \<open>\<open>~generic_node\<close> of a node whose children are gone.\<close>

definition destroy_node :: "nat \<Rightarrow> device \<Rightarrow> device" where
  "destroy_node i st = delete_node i (remove_parameter i (emit (About_to_be_deleted i) st))"

text \<open>
  The loop of \<open>clear_children\<close> over the children moved out of the node. For each of them it calls
  \<open>clear_children\<close>, whose own loop is the nested call here, then removes its parameter, signals
  and destroys it.
\<close>

partial_function (option) clear_loop :: "nat list \<Rightarrow> device \<Rightarrow> device option" where
  "clear_loop to_remove st =
     (case to_remove of
        [] \<Rightarrow> Some st
      | child # rest \<Rightarrow>
          Option.bind
            (if \<not> can_change_tree st then Some st
             else clear_loop (kids st child) (upd_node child (\<lambda>n. n\<lparr>nchildren := []\<rparr>) st))
            (\<lambda>st1. clear_loop rest
               (destroy_node child (emit (Node_removing child) (remove_parameter child st1)))))"

definition clear_children :: "nat \<Rightarrow> device \<Rightarrow> device option" where
  "clear_children i st =
     (if \<not> can_change_tree st then Some st
      else clear_loop (kids st i) (upd_node i (\<lambda>n. n\<lparr>nchildren := []\<rparr>) st))"

text \<open>\<open>remove_child\<close>, by name and by node: the child's own parameter goes when the unique pointer
  that holds it does, at the end of the function.\<close>

definition remove_found :: "device \<Rightarrow> nat \<Rightarrow> nat option \<Rightarrow> (device \<times> bool) option" where
  "remove_found st i found =
     (case found of
        None \<Rightarrow> Some (st, False)
      | Some cld \<Rightarrow>
          (let st1 = upd_node i (\<lambda>n. n\<lparr>nchildren := remove1 cld (nchildren n)\<rparr>) st
           in case clear_children cld st1 of
                None \<Rightarrow> None
              | Some st2 \<Rightarrow> Some (destroy_node cld (emit (Node_removing cld) st2), True)))"

definition remove_child_name :: "device \<Rightarrow> nat \<Rightarrow> string \<Rightarrow> (device \<times> bool) option" where
  "remove_child_name st i name =
     (if \<not> can_change_tree st then Some (st, False)
      else
        (let n = sanitize_chars name
         in remove_found st i (List.find (\<lambda>c. name_of st c = n) (kids st i))))"

definition remove_child :: "device \<Rightarrow> nat \<Rightarrow> nat \<Rightarrow> (device \<times> bool) option" where
  "remove_child st i n =
     (if \<not> can_change_tree st then Some (st, False)
      else remove_found st i (List.find (\<lambda>c. c = n) (kids st i)))"

section \<open>Renaming\<close>

text \<open>\<open>generic_node_base::on_address_change\<close> on a list of nodes: recompute the cached address of
  each, then those of its children.\<close>

partial_function (option) on_address_change :: "nat list \<Rightarrow> device \<Rightarrow> device option" where
  "on_address_change is st =
     (case is of
        [] \<Rightarrow> Some st
      | i # rest \<Rightarrow>
          Option.bind (osc_parameter_string st i) (\<lambda>s.
            Option.bind (on_address_change (kids st i) (upd_node i (\<lambda>n. n\<lparr>nosc := s\<rparr>) st))
              (\<lambda>st1. on_address_change rest st1)))"

text \<open>
  \<open>generic_node_base::set_name\<close>. The old name is moved out first; the siblings the new name is
  compared with include the node itself with its name moved from, which is empty in the standard
  libraries the code is built with.
\<close>

definition set_name :: "nat \<Rightarrow> string \<Rightarrow> device \<Rightarrow> device option" where
  "set_name i name st =
     (let old_name = name_of st i;
          st1 = upd_node i (\<lambda>n. n\<lparr>nname := []\<rparr>) st;
          new_name = (case parent_of st1 i of
                        Some p \<Rightarrow> sanitize_name_children name (children_names st1 p)
                      | None \<Rightarrow> sanitize_chars name);
          st2 = upd_node i (\<lambda>n. n\<lparr>nname := new_name\<rparr>) st1
      in Option.bind (on_address_change [i] st2) (\<lambda>st3.
           Some (emit (Node_renamed i old_name) st3)))"

section \<open>Reading an updated store\<close>

lemma nodes_simps [simp]:
  "nodes (emit s st) = nodes st"
  "nodes (upd_node i f st) j = (if j = i then map_option f (nodes st i) else nodes st j)"
  "nodes (delete_node i st) j = (if j = i then None else nodes st j)"
  by (simp_all add: emit_def upd_node_def delete_node_def)

lemma other_fields [simp]:
  "next_id (emit s st) = next_id st"
  "next_id (upd_node i f st) = next_id st"
  "next_id (delete_node i st) = next_id st"
  "can_change_tree (emit s st) = can_change_tree st"
  "can_change_tree (upd_node i f st) = can_change_tree st"
  "can_change_tree (delete_node i st) = can_change_tree st"
  "signals (upd_node i f st) = signals st"
  "signals (delete_node i st) = signals st"
  "signals (emit s st) = signals st @ [s]"
  by (simp_all add: emit_def upd_node_def delete_node_def)

lemmas read_defs = name_of_def kids_def parent_of_def has_parameter_def osc_cache_def

lemma read_emit [simp]:
  "name_of (emit s st) = name_of st" "kids (emit s st) = kids st"
  "parent_of (emit s st) = parent_of st" "has_parameter (emit s st) = has_parameter st"
  by (simp_all add: read_defs fun_eq_iff)

lemma read_delete:
  "kids (delete_node i st) j = (if j = i then [] else kids st j)"
  "name_of (delete_node i st) j = (if j = i then [] else name_of st j)"
  "parent_of (delete_node i st) j = (if j = i then None else parent_of st j)"
  by (simp_all add: read_defs)

lemma kids_cut: "kids (upd_node i (\<lambda>n. n\<lparr>nchildren := []\<rparr>) st) j = (if j = i then [] else kids st j)"
  by (simp add: kids_def split: option.split)

lemma remove_parameter_read [simp]:
  "kids (remove_parameter i st) = kids st"
  "name_of (remove_parameter i st) = name_of st"
  "parent_of (remove_parameter i st) = parent_of st"
  "next_id (remove_parameter i st) = next_id st"
  "can_change_tree (remove_parameter i st) = can_change_tree st"
  by (auto simp: remove_parameter_def read_defs fun_eq_iff split: option.splits)

lemma remove_parameter_nodes: "j \<noteq> i \<Longrightarrow> nodes (remove_parameter i st) j = nodes st j"
  by (simp add: remove_parameter_def)

lemma destroy_node_read [simp]:
  "kids (destroy_node i st) j = (if j = i then [] else kids st j)"
  "next_id (destroy_node i st) = next_id st"
  "can_change_tree (destroy_node i st) = can_change_tree st"
  by (simp_all add: destroy_node_def read_delete)

lemma destroy_node_nodes: "nodes (destroy_node i st) j = (if j = i then None else nodes st j)"
  by (simp add: destroy_node_def remove_parameter_nodes)

section \<open>Well-formed devices\<close>

definition ordered :: "device \<Rightarrow> bool" where
  "ordered st \<longleftrightarrow>
     (\<forall>i c. c \<in> set (kids st i) \<longrightarrow> i < c \<and> c < next_id st) \<and> (\<forall>i. distinct (kids st i))"

interpretation tree: ranked_tree kids next_id ordered
  by unfold_locales (auto simp: ordered_def)

text \<open>
  Every allocated number is below \<open>next_id\<close>; children are allocated, know their parent, and are
  known by it; siblings have different, valid names.
\<close>

definition wf_device :: "device \<Rightarrow> bool" where
  "wf_device st \<longleftrightarrow> ordered st
     \<and> (\<forall>i. nodes st i \<noteq> None \<longrightarrow> i < next_id st)
     \<and> (\<forall>i c. c \<in> set (kids st i) \<longrightarrow> nodes st c \<noteq> None \<and> parent_of st c = Some i)
     \<and> (\<forall>c p. parent_of st c = Some p \<longrightarrow> c \<in> set (kids st p))
     \<and> (\<forall>i. distinct (children_names st i))
     \<and> (\<forall>i c. c \<in> set (kids st i) \<longrightarrow> valid_name (name_of st c))"

lemma wf_orderedD: "wf_device st \<Longrightarrow> ordered st"
  by (simp add: wf_device_def)

lemma wf_bound: "wf_device st \<Longrightarrow> nodes st i \<noteq> None \<Longrightarrow> i < next_id st"
  and wf_child_node: "wf_device st \<Longrightarrow> c \<in> set (kids st i) \<Longrightarrow> nodes st c \<noteq> None"
  and wf_child_parent: "wf_device st \<Longrightarrow> c \<in> set (kids st i) \<Longrightarrow> parent_of st c = Some i"
  and wf_parent_child: "wf_device st \<Longrightarrow> parent_of st c = Some p \<Longrightarrow> c \<in> set (kids st p)"
  and wf_names_distinct: "wf_device st \<Longrightarrow> distinct (children_names st i)"
  and wf_name_valid: "wf_device st \<Longrightarrow> c \<in> set (kids st i) \<Longrightarrow> valid_name (name_of st c)"
  unfolding wf_device_def by blast+

lemma wf_parent_less: "wf_device st \<Longrightarrow> parent_of st c = Some p \<Longrightarrow> p < c \<and> c < next_id st"
  unfolding wf_device_def ordered_def by blast

section \<open>Clearing and removing\<close>

text \<open>\<open>clear_loop\<close> returns, and what is left of the store is what is not below the list.\<close>

lemma clear_loop_effect:
  assumes "ordered st" and "\<forall>j\<in>set js. j < next_id st" and "can_change_tree st"
  shows "\<exists>st'. clear_loop js st = Some st' \<and> next_id st' = next_id st
    \<and> can_change_tree st' = can_change_tree st
    \<and> (\<forall>x. nodes st' x = (if x \<in> below (kids st) js then None else nodes st x))"
  using assms
proof (induction "weight (next_id st) js" arbitrary: js st rule: less_induct)
  case less
  show ?case
  proof (cases js)
    case Nil
    then show ?thesis by (simp add: clear_loop.simps)
  next
    case (Cons j rest)
    define st0 where "st0 = upd_node j (\<lambda>n. n\<lparr>nchildren := []\<rparr>) st"
    have k0: "kids st0 x = (if x = j then [] else kids st x)" for x
      by (simp add: st0_def kids_cut)
    have j: "j < next_id st" using less.prems Cons by simp
    have n0: "next_id st0 = next_id st" "can_change_tree st0"
      using less.prems by (simp_all add: st0_def)
    have o0: "ordered st0"
      using less.prems(1) by (auto simp: ordered_def k0 n0)
    have kj: "\<forall>c\<in>set (kids st j). c < next_id st0"
      using less.prems(1) n0 by (auto simp: ordered_def)
    have "weight (next_id st0) (kids st j) < weight (next_id st) js"
      using tree.weight_children[OF less.prems(1) j] Cons n0 by simp
    from less.hyps[OF this o0 kj n0(2)]
    obtain st1 where c1: "clear_loop (kids st j) st0 = Some st1"
      and s1: "next_id st1 = next_id st0" "can_change_tree st1"
        "\<And>x. nodes st1 x = (if x \<in> below (kids st0) (kids st j) then None else nodes st0 x)"
      using n0 by auto
    have "below (kids st0) (kids st j) = below (kids st) (kids st j)"
      using tree.below_after[OF less.prems(1)] by (intro below_cong) (auto simp: k0)
    note s1 = s1[unfolded this]
    define st2 where "st2 = destroy_node j (emit (Node_removing j) (remove_parameter j st1))"
    have n2: "nodes st2 x = (if x \<in> below (kids st) [j] then None else nodes st x)" for x
      using s1(3) by (auto simp: st2_def destroy_node_nodes remove_parameter_nodes below_single st0_def)
    have k2: "kids st2 x = (if x \<in> below (kids st) [j] then [] else kids st x)" for x
      by (simp add: kids_def n2)
    have e2: "next_id st2 = next_id st" "can_change_tree st2"
      using s1(1,2) n0 by (simp_all add: st2_def)
    have o2: "ordered st2"
      using less.prems(1) by (auto simp: ordered_def k2 e2)
    have "weight (next_id st2) rest < weight (next_id st) js" using Cons e2 by simp
    from less.hyps[OF this o2] obtain st3 where c3: "clear_loop rest st2 = Some st3"
      and s3: "next_id st3 = next_id st" "can_change_tree st3"
        "\<And>x. nodes st3 x = (if x \<in> below (kids st2) rest then None else nodes st2 x)"
      using less.prems Cons e2 by auto
    have "below (kids st) [j] \<union> below (kids st2) rest = below (kids st) js"
      unfolding Cons below_Cons[of _ j rest]
      by (rule below_restrict) (auto simp: k2 intro: below_child)
    then have b: "x \<in> below (kids st) [j] \<or> x \<in> below (kids st2) rest \<longleftrightarrow> x \<in> below (kids st) js" for x
      by blast
    have "clear_loop js st = Some st3"
      using c1 c3 less.prems(3) Cons by (simp add: clear_loop.simps[of "j # rest"] st0_def st2_def)
    moreover have "nodes st3 x = (if x \<in> below (kids st) js then None else nodes st x)" for x
      using s3(3)[of x] n2[of x] b[of x] by auto
    ultimately show ?thesis using s3 less.prems(3) by auto
  qed
qed

text \<open>The store an operation leaves when it cuts the children \<open>js\<close> of \<open>i\<close>.\<close>

definition cut_below :: "device \<Rightarrow> nat \<Rightarrow> (nat \<Rightarrow> bool) \<Rightarrow> nat \<Rightarrow> node option" where
  "cut_below st i keep x =
     (if x \<in> below (kids st) (filter (\<lambda>c. \<not> keep c) (kids st i)) then None
      else if x = i then map_option (\<lambda>n. n\<lparr>nchildren := filter keep (nchildren n)\<rparr>) (nodes st i)
      else nodes st x)"

lemma clear_children_effect:
  assumes "ordered st" and "can_change_tree st"
  shows "\<exists>st'. clear_children i st = Some st' \<and> next_id st' = next_id st \<and> can_change_tree st'
    \<and> nodes st' = cut_below st i (\<lambda>_. False)"
proof -
  define st0 where "st0 = upd_node i (\<lambda>n. n\<lparr>nchildren := []\<rparr>) st"
  have k0: "kids st0 x = (if x = i then [] else kids st x)" for x
    by (simp add: st0_def kids_cut)
  have n0: "next_id st0 = next_id st" "can_change_tree st0"
    using assms by (simp_all add: st0_def)
  have o0: "ordered st0" and b0: "\<forall>c\<in>set (kids st i). c < next_id st0"
    using assms(1) by (auto simp: ordered_def k0 n0)
  have "below (kids st0) (kids st i) = below (kids st) (kids st i)"
    using tree.below_after[OF assms(1)] by (intro below_cong) (auto simp: k0)
  moreover have "i \<notin> below (kids st) (kids st i)"
    using tree.below_after[OF assms(1), of i i] by auto
  moreover obtain st' where "clear_loop (kids st i) st0 = Some st'" "next_id st' = next_id st0"
    "can_change_tree st'"
    "\<And>x. nodes st' x = (if x \<in> below (kids st0) (kids st i) then None else nodes st0 x)"
    using clear_loop_effect[OF o0 b0 n0(2)] n0(2) by auto
  ultimately show ?thesis
    using assms(2) n0 by (auto simp: clear_children_def st0_def cut_below_def fun_eq_iff)
qed

lemma find_SomeD: "List.find P xs = Some x \<Longrightarrow> x \<in> set xs \<and> P x"
  by (induction xs) (auto split: if_splits)

lemma filter_eq_single: "distinct xs \<Longrightarrow> x \<in> set xs \<Longrightarrow> filter (\<lambda>c. c = x) xs = [x]"
proof (induction xs)
  case (Cons a xs)
  show ?case
  proof (cases "a = x")
    case True
    then have "filter (\<lambda>c. c = x) xs = []" using Cons.prems by (auto simp: filter_empty_conv)
    then show ?thesis using True by simp
  qed (use Cons in auto)
qed simp

lemma remove1_eq_filter: "distinct xs \<Longrightarrow> remove1 x xs = filter (\<lambda>c. c \<noteq> x) xs"
proof (induction xs)
  case (Cons a xs)
  then have "filter (\<lambda>c. c \<noteq> a) xs = xs" by (auto simp: filter_id_conv)
  with Cons show ?case by auto
qed simp

lemma remove_found_effect:
  assumes "ordered st" and "can_change_tree st" and c: "cld \<in> set (kids st i)"
  shows "\<exists>st'. remove_found st i (Some cld) = Some (st', True) \<and> next_id st' = next_id st
    \<and> can_change_tree st' \<and> nodes st' = cut_below st i (\<lambda>c. c \<noteq> cld)"
proof -
  define st1 where "st1 = upd_node i (\<lambda>n. n\<lparr>nchildren := remove1 cld (nchildren n)\<rparr>) st"
  have d: "distinct (kids st i)" using assms(1) by (simp add: ordered_def)
  have k1: "kids st1 x = (if x = i then filter (\<lambda>c. c \<noteq> cld) (kids st i) else kids st x)" for x
    using d by (auto simp: st1_def kids_def remove1_eq_filter split: option.split)
  have n1: "next_id st1 = next_id st" "can_change_tree st1"
    using assms(2) by (simp_all add: st1_def)
  have o1: "ordered st1"
    using assms(1) by (auto simp: ordered_def k1 n1 split: if_splits)
  have ic: "i < cld" using assms(1) c by (auto simp: ordered_def)
  obtain st2 where c2: "clear_children cld st1 = Some st2" "next_id st2 = next_id st"
    "can_change_tree st2" and s2: "nodes st2 = cut_below st1 cld (\<lambda>_. False)"
    using clear_children_effect[OF o1 n1(2), of cld] n1 by auto
  define st3 where "st3 = destroy_node cld (emit (Node_removing cld) st2)"
  have nb: "i \<notin> below (kids st) (kids st cld)"
    using tree.below_after[OF assms(1), of i cld] ic by auto
  have b1: "below (kids st1) (kids st cld) = below (kids st) (kids st cld)"
  proof (rule below_cong)
    fix x assume "x \<in> below (kids st) (kids st cld)"
    then show "kids st1 x = kids st x" using nb by (auto simp: k1)
  qed
  have kc: "kids st1 cld = kids st cld" using ic by (simp add: k1)
  have f: "filter (\<lambda>c. \<not> c \<noteq> cld) (kids st i) = [cld]"
    using filter_eq_single[OF d c] by simp
  have ni: "nodes st1 i = map_option (\<lambda>n. n\<lparr>nchildren := filter (\<lambda>c. c \<noteq> cld) (nchildren n)\<rparr>) (nodes st i)"
    using d by (auto simp: st1_def kids_def remove1_eq_filter split: option.splits)
  have nx: "nodes st1 x = nodes st x" if "x \<noteq> i" for x using that by (simp add: st1_def)
  have "nodes st3 x = cut_below st i (\<lambda>c. c \<noteq> cld) x" for x
    unfolding st3_def destroy_node_nodes nodes_simps s2 cut_below_def f below_single[of _ cld]
    using b1 kc nb ic ni nx by auto
  then show ?thesis
    using c2 by (auto simp: remove_found_def Let_def st1_def[symmetric] st3_def)
qed

lemma read_cut:
  assumes "nodes st' x = (if b then None
      else if x = i then map_option (\<lambda>n. n\<lparr>nchildren := filter keep (nchildren n)\<rparr>) (nodes st i)
      else nodes st x)"
  shows "kids st' x = (if b then [] else if x = i then filter keep (kids st i) else kids st x)"
    and "name_of st' x = (if b then [] else name_of st x)"
    and "parent_of st' x = (if b then None else parent_of st x)"
  unfolding kids_def name_of_def parent_of_def assms
  by (cases b; cases "x = i"; cases "nodes st x"; simp)+

lemma wf_cut_below [wf_intros]:
  assumes wf: "wf_device st" and n: "nodes st' = cut_below st i keep" "next_id st' = next_id st"
  shows "wf_device st'"
proof -
  define B where "B = below (kids st) (filter (\<lambda>c. \<not> keep c) (kids st i))"
  have ord: "ordered st" using wf by (rule wf_orderedD)
  have "i \<notin> B"
  proof
    assume "i \<in> B"
    moreover have "B \<subseteq> below (kids st) (kids st i)"
      unfolding B_def by (rule below_mono) (auto intro: below_here)
    ultimately show False using tree.below_after[OF ord, of i i] by auto
  qed
  have nx: "nodes st' x = (if x \<in> B then None
      else if x = i then map_option (\<lambda>n. n\<lparr>nchildren := filter keep (nchildren n)\<rparr>) (nodes st i)
      else nodes st x)" for x
    by (simp add: n cut_below_def B_def)
  have k: "kids st' x = (if x \<in> B then [] else if x = i then filter keep (kids st i) else kids st x)"
    and nm: "name_of st' x = (if x \<in> B then [] else name_of st x)"
    and pa: "parent_of st' x = (if x \<in> B then None else parent_of st x)" for x
    by (rule read_cut[OF nx])+
  note pw = wf_child_parent[OF wf]
  have inB: "c \<in> B \<longleftrightarrow> x \<in> B \<or> (x = i \<and> \<not> keep c)" if c: "c \<in> set (kids st x)" for c x
  proof
    assume "c \<in> B"
    then show "x \<in> B \<or> (x = i \<and> \<not> keep c)"
      unfolding B_def using pw[OF c]
      by (cases rule: below.cases) (auto dest: pw)
  next
    assume "x \<in> B \<or> (x = i \<and> \<not> keep c)"
    then show "c \<in> B" unfolding B_def using c by (auto intro: below.intros)
  qed
  have kept: "c \<in> set (kids st x) \<and> x \<notin> B \<and> c \<notin> B" if "c \<in> set (kids st' x)" for c x
    using that inB[of c x] by (auto simp: k split: if_splits)
  have "ordered st'" using ord by (auto simp: ordered_def k n(2))
  moreover have "nodes st' c \<noteq> None" if "c \<in> set (kids st' x)" for c x
    using kept[OF that] wf_child_node[OF wf, of c x] by (auto simp: nx)
  moreover have "parent_of st' c = Some x" if "c \<in> set (kids st' x)" for c x
    using kept[OF that] pw[of c x] by (simp add: pa)
  moreover have "c \<in> set (kids st' p)" if "parent_of st' c = Some p" for c p
  proof -
    have "c \<notin> B" "parent_of st c = Some p" using that by (auto simp: pa split: if_splits)
    then show ?thesis using wf_parent_child[OF wf] inB[of c p] by (auto simp: k)
  qed
  moreover have "distinct (children_names st' x)" for x
  proof -
    have "set (kids st' x) \<subseteq> set (kids st x)" "distinct (kids st' x)"
      using ord by (auto simp: k ordered_def)
    then have "distinct (map (name_of st) (kids st' x))"
      using wf_names_distinct[OF wf, of x]
      by (auto simp: children_names_def distinct_map intro: inj_on_subset)
    moreover have "map (name_of st) (kids st' x) = children_names st' x"
      using kept by (simp add: children_names_def nm)
    ultimately show ?thesis by simp
  qed
  moreover have "valid_name (name_of st' c)" if "c \<in> set (kids st' x)" for c x
    using kept[OF that] wf_name_valid[OF wf, of c x] by (simp add: nm)
  moreover have "x < next_id st'" if "nodes st' x \<noteq> None" for x
    using that wf_bound[OF wf, of x] wf_bound[OF wf, of i] by (auto simp: nx n(2) split: if_splits)
  ultimately show ?thesis unfolding wf_device_def by blast
qed

end
