(* ===== verification/NodeLifecycle.thy ===== *)
theory NodeLifecycle
  imports DeviceTree
begin

text \<open>
  What the operations of \<open>DeviceTree\<close> do to a well-formed device: creation, removal and renaming
  keep it well formed, and keep every node's cached OSC address equal to the path of names that
  leads to it.
\<close>

section \<open>OSC addresses\<close>

lemma osc_rec_root: "parent_of st i = None \<Longrightarrow> osc_address_rec st i = Some []"
  by (simp add: osc_address_rec.simps)

lemma osc_rec_child:
  "parent_of st i = Some p \<Longrightarrow>
   osc_address_rec st i = Option.bind (osc_address_rec st p) (\<lambda>s. Some (s @ ''/'' @ name_of st i))"
  by (simp add: osc_address_rec.simps[of st i])

definition parents_first :: "device \<Rightarrow> bool" where
  "parents_first st \<longleftrightarrow> (\<forall>c p. parent_of st c = Some p \<longrightarrow> p < c)"

lemma parents_firstD: "parents_first st \<Longrightarrow> parent_of st c = Some p \<Longrightarrow> p < c"
  by (simp add: parents_first_def)

lemma wf_parents_first: "wf_device st \<Longrightarrow> parents_first st"
  using wf_parent_less by (auto simp: parents_first_def)

lemma osc_rec_total: "parents_first st \<Longrightarrow> \<exists>s. osc_address_rec st i = Some s"
proof (induction i rule: less_induct)
  case (less i)
  show ?case
  proof (cases "parent_of st i")
    case None
    then show ?thesis by (simp add: osc_rec_root)
  next
    case (Some p)
    with less obtain s where "osc_address_rec st p = Some s"
      using parents_firstD by blast
    with Some show ?thesis by (simp add: osc_rec_child)
  qed
qed

lemma osc_rec_cong:
  assumes "parents_first st" and "i \<in> S"
    and "\<And>x p. x \<in> S \<Longrightarrow> parent_of st x = Some p \<Longrightarrow> p \<in> S"
    and "\<And>x. x \<in> S \<Longrightarrow> parent_of st' x = parent_of st x \<and> name_of st' x = name_of st x"
  shows "osc_address_rec st' i = osc_address_rec st i"
  using assms(2)
proof (induction i rule: less_induct)
  case (less i)
  show ?case
  proof (cases "parent_of st i")
    case None
    then show ?thesis using assms(4)[OF less.prems] by (simp add: osc_rec_root)
  next
    case (Some p)
    then have "osc_address_rec st' p = osc_address_rec st p"
      using less assms(3) parents_firstD[OF assms(1)] by blast
    with Some show ?thesis using assms(4)[OF less.prems] by (simp add: osc_rec_child)
  qed
qed


lemma osc_string_cong:
  assumes "parents_first st" and "i \<in> S"
    and "\<And>x p. x \<in> S \<Longrightarrow> parent_of st x = Some p \<Longrightarrow> p \<in> S"
    and "\<And>x. x \<in> S \<Longrightarrow> parent_of st' x = parent_of st x \<and> name_of st' x = name_of st x"
  shows "osc_parameter_string st' i = osc_parameter_string st i"
  using osc_rec_cong[OF assms(1-4)] assms(4)[OF assms(2)]
  by (simp add: osc_parameter_string_def split: option.split)

text \<open>Every node's cached address is the one \<open>osc_parameter_string\<close> computes.\<close>

definition cache_ok :: "device \<Rightarrow> bool" where
  "cache_ok st \<longleftrightarrow> (\<forall>i n. nodes st i = Some n \<longrightarrow> osc_parameter_string st i = Some (nosc n))"

section \<open>Creating a child\<close>

text \<open>The device after a node named \<open>nm\<close> with cached address \<open>s\<close> was added under \<open>i\<close>.\<close>

definition grown :: "device \<Rightarrow> nat \<Rightarrow> string \<Rightarrow> string \<Rightarrow> device" where
  "grown st i nm s =
     emit (Node_created (next_id st)) (upd_node i (\<lambda>n. n\<lparr>nchildren := nchildren n @ [next_id st]\<rparr>)
       (st\<lparr>nodes := (nodes st)(next_id st \<mapsto>
             \<lparr>nname = nm, nparent = Some i, nchildren = [], nosc = s, nparam = False\<rparr>),
           next_id := next_id st + 1\<rparr>))"

lemma grown_nodes:
  "i \<noteq> next_id st \<Longrightarrow> nodes (grown st i nm s) x =
     (if x = next_id st
      then Some \<lparr>nname = nm, nparent = Some i, nchildren = [], nosc = s, nparam = False\<rparr>
      else if x = i then map_option (\<lambda>n. n\<lparr>nchildren := nchildren n @ [next_id st]\<rparr>) (nodes st i)
      else nodes st x)"
  by (auto simp: grown_def)

lemma grown_read:
  assumes "i \<noteq> next_id st" and "nodes st i \<noteq> None"
  shows "kids (grown st i nm s) x =
      (if x = next_id st then [] else if x = i then kids st i @ [next_id st] else kids st x)"
    and "name_of (grown st i nm s) x = (if x = next_id st then nm else name_of st x)"
    and "parent_of (grown st i nm s) x = (if x = next_id st then Some i else parent_of st x)"
    and "next_id (grown st i nm s) = next_id st + 1"
    and "can_change_tree (grown st i nm s) = can_change_tree st"
    and "signals (grown st i nm s) = signals st @ [Node_created (next_id st)]"
  using assms by (auto simp: read_defs grown_nodes) (auto simp: grown_def)

lemma make_child_effect:
  assumes wf: "wf_device st" and i: "nodes st i \<noteq> None"
  shows "\<exists>s. osc_address_rec st i = Some s \<and> make_child st i nm =
    Some (st\<lparr>nodes := (nodes st)(next_id st \<mapsto>
            \<lparr>nname = nm, nparent = Some i, nchildren = [], nosc = s @ ''/'' @ nm, nparam = False\<rparr>),
          next_id := next_id st + 1\<rparr>, next_id st)"
proof -
  let ?j = "next_id st"
  define st1 where "st1 = st\<lparr>nodes := (nodes st)(?j \<mapsto>
    \<lparr>nname = nm, nparent = Some i, nchildren = [], nosc = [], nparam = False\<rparr>), next_id := ?j + 1\<rparr>"
  have ij: "i < ?j" using wf_bound[OF wf i] .
  have r: "parent_of st1 x = (if x = ?j then Some i else parent_of st x)"
    "name_of st1 x = (if x = ?j then nm else name_of st x)" for x
    by (simp_all add: st1_def read_defs)
  obtain s where s: "osc_address_rec st i = Some s"
    using osc_rec_total[OF wf_parents_first[OF wf]] by blast
  have "osc_address_rec st1 i = osc_address_rec st i"
    using ij wf_parent_less[OF wf]
    by (intro osc_rec_cong[OF wf_parents_first[OF wf], of _ "{..<?j}"]) (force simp: r)+
  then have "osc_parameter_string st1 ?j = Some (s @ ''/'' @ nm)"
    using s by (simp add: osc_parameter_string_def osc_rec_child r)
  then show ?thesis
    using s by (simp add: make_child_def st1_def[symmetric] Let_def)
       (simp add: st1_def upd_node_def)
qed

lemma create_child_grown:
  assumes "wf_device st" and "nodes st i \<noteq> None" and "can_change_tree st"
  shows "\<exists>s. osc_address_rec st i = Some s \<and> create_child st i name =
    Some (grown st i (sanitize_name_children name (children_names st i))
           (s @ ''/'' @ sanitize_name_children name (children_names st i)), Some (next_id st))"
  using make_child_effect[OF assms(1,2), of "sanitize_name_children name (children_names st i)"]
    assms(3) by (auto simp: create_child_def grown_def Let_def)

lemma wf_grown [wf_intros]:
  assumes wf: "wf_device st" and i: "nodes st i \<noteq> None"
    and nm: "nm \<notin> set (children_names st i)" "valid_name nm"
  shows "wf_device (grown st i nm s)"
proof -
  let ?j = "next_id st" and ?g = "grown st i nm s"
  have ij: "i < ?j" by (rule wf_bound[OF wf i])
  note g = grown_read[OF less_imp_neq[OF ij] i, of nm s] and gn = grown_nodes[OF less_imp_neq[OF ij], of nm s]
  have less: "c < ?j \<and> x < c" if "c \<in> set (kids st x)" for c x
    using that wf_orderedD[OF wf] by (auto simp: ordered_def)
  have kj: "kids st ?j = []" "parent_of st ?j = None"
    using wf_bound[OF wf, of ?j] by (auto simp: read_defs split: option.splits)
  have old: "c \<in> set (kids st x) \<or> (c = ?j \<and> x = i)" if "c \<in> set (kids ?g x)" for c x
    using that by (auto simp: g split: if_splits)
  have "ordered ?g"
    using wf_orderedD[OF wf] less ij by (force simp: ordered_def g)
  moreover have "x < next_id ?g" if "nodes ?g x \<noteq> None" for x
    using that wf_bound[OF wf, of x] ij by (auto simp: gn g split: if_splits)
  moreover have "nodes ?g c \<noteq> None \<and> parent_of ?g c = Some x" if "c \<in> set (kids ?g x)" for c x
    using old[OF that] wf_child_node[OF wf] wf_child_parent[OF wf] less[of c x] i
    by (auto simp: gn g)
  moreover have "c \<in> set (kids ?g p)" if "parent_of ?g c = Some p" for c p
    using that wf_parent_child[OF wf, of c p] wf_parent_less[OF wf, of c p] ij
    by (auto simp: g split: if_splits)
  moreover have "distinct (children_names ?g x)" for x
  proof -
    have nn: "map (name_of ?g) (kids st x) = map (name_of st) (kids st x)" for x
      using less by (force simp: g)
    have "children_names ?g x = (if x = ?j then [] else if x = i then children_names st i @ [nm]
        else children_names st x)"
      by (simp add: children_names_def g(1) g(2)[of ?j] nn)
    then show ?thesis
      using wf_names_distinct[OF wf, of x] wf_names_distinct[OF wf, of i] nm(1) by simp
  qed
  moreover have "valid_name (name_of ?g c)" if "c \<in> set (kids ?g x)" for c x
    using old[OF that] wf_name_valid[OF wf, of c x] nm(2) less[of c x] by (auto simp: g)
  ultimately show ?thesis unfolding wf_device_def by blast
qed

lemma cache_grown:
  assumes wf: "wf_device st" and i: "nodes st i \<noteq> None" and c: "cache_ok st"
    and s: "osc_address_rec st i = Some s"
  shows "cache_ok (grown st i nm (s @ ''/'' @ nm))"
proof -
  let ?j = "next_id st" and ?g = "grown st i nm (s @ ''/'' @ nm)"
  have ij: "i < ?j" by (rule wf_bound[OF wf i])
  note g = grown_read[OF less_imp_neq[OF ij] i] and gn = grown_nodes[OF less_imp_neq[OF ij]]
  have up: "p \<in> {..<?j}" if "x \<in> {..<?j}" "parent_of st x = Some p" for x p
    using wf_parent_less[OF wf that(2)] that(1) by simp
  have same: "parent_of ?g x = parent_of st x \<and> name_of ?g x = name_of st x" if "x \<in> {..<?j}" for x
    using that by (simp add: g)
  have e: "osc_address_rec ?g x = osc_address_rec st x" "osc_parameter_string ?g x = osc_parameter_string st x"
    if "x < ?j" for x
    using osc_rec_cong[OF wf_parents_first[OF wf] _ up same, of x]
      osc_string_cong[OF wf_parents_first[OF wf] _ up same, of x] that by auto
  have "osc_parameter_string ?g ?j = Some (s @ ''/'' @ nm)"
    using s e(1)[OF ij] by (simp add: osc_parameter_string_def osc_rec_child g)
  moreover have "osc_parameter_string ?g x = Some (nosc n)" if "nodes ?g x = Some n" "x \<noteq> ?j" for x n
    using that c wf_bound[OF wf, of x] e(2)[of x] by (auto simp: gn cache_ok_def split: if_splits)
  ultimately show ?thesis by (auto simp: cache_ok_def gn)
qed

section \<open>A device to start from\<close>

lemma generic_device_read:
  "kids (generic_device d) x = []" "parent_of (generic_device d) x = None"
  "next_id (generic_device d) = 1" "can_change_tree (generic_device d)"
  by (simp_all add: generic_device_def read_defs)

lemma wf_generic_device [wf_intros]: "wf_device (generic_device d)"
  by (auto simp: wf_device_def ordered_def generic_device_read children_names_def)
     (auto simp: generic_device_def split: if_splits)

lemma cache_generic_device: "cache_ok (generic_device d)"
  by (auto simp: cache_ok_def osc_parameter_string_def generic_device_read)
     (auto simp: generic_device_def split: if_splits)

section \<open>Removing\<close>

lemma cut_below_survivors:
  assumes wf: "wf_device st" and n: "nodes st' = cut_below st i keep"
    and x: "nodes st' x = Some m"
  shows "osc_parameter_string st' x = osc_parameter_string st x
    \<and> (\<exists>m0. nodes st x = Some m0 \<and> nosc m = nosc m0)"
proof -
  define B where "B = below (kids st) (filter (\<lambda>c. \<not> keep c) (kids st i))"
  have nx: "nodes st' x = (if x \<in> B then None
      else if x = i then map_option (\<lambda>n. n\<lparr>nchildren := filter keep (nchildren n)\<rparr>) (nodes st i)
      else nodes st x)" for x
    by (simp add: n cut_below_def B_def)
  have r: "parent_of st' x = parent_of st x \<and> name_of st' x = name_of st x" if "x \<in> - B" for x
    using read_cut(2,3)[OF nx] that by simp
  have up: "p \<in> - B" if "x \<in> - B" "parent_of st x = Some p" for x p
    using that wf_parent_child[OF wf that(2)] unfolding B_def by (blast intro: below_child)
  have "x \<in> - B" using x nx[of x] by auto
  then show ?thesis
    using osc_string_cong[OF wf_parents_first[OF wf] _ up r] x nx[of x] by (auto split: if_splits)
qed

lemma cache_cut_below:
  "wf_device st \<Longrightarrow> cache_ok st \<Longrightarrow> nodes st' = cut_below st i keep \<Longrightarrow> cache_ok st'"
  using cut_below_survivors by (fastforce simp: cache_ok_def)

section \<open>Renaming\<close>















lemma find_eq_self: "c \<in> set xs \<Longrightarrow> List.find (\<lambda>x. x = c) xs = Some c"
  by (induction xs) auto




section \<open>Properties\<close>

text \<open>A device with a root and one child, for the examples.\<close>

definition demo_device :: device where
  "demo_device = grown (generic_device ''dev'') 0 ''foo'' ''/foo''"

lemma demo_read:
  "kids demo_device x = (if x = 0 then [1] else [])"
  "name_of demo_device x = (if x = 1 then ''foo'' else if x = 0 then ''dev'' else [])"
  "parent_of demo_device x = (if x = 1 then Some 0 else None)"
  "can_change_tree demo_device" "next_id demo_device = 2"
  "nodes demo_device 0 \<noteq> None" "nodes demo_device 1 \<noteq> None"
  by (simp_all add: demo_device_def grown_def generic_device_def read_defs emit_def)

lemma wf_demo: "wf_device demo_device"
  unfolding demo_device_def
  by (rule wf_grown[OF wf_generic_device])
     (simp_all add: children_names_def generic_device_read valid_name_def
       is_valid_character_for_name_def schar_def, simp add: generic_device_def)

lemma demo_instances:
  "instances_left ''foo'' (children_names demo_device 0)"
  "instances_left ''bar/2'' (children_names demo_device 0)"
proof -
  have "children_names demo_device 0 = [''foo'']" by (simp add: children_names_def demo_read)
  moreover have "instances_left ''foo'' [''foo'']" "instances_left ''bar/2'' [''foo'']" by code_simp+
  ultimately show "instances_left ''foo'' (children_names demo_device 0)"
    "instances_left ''bar/2'' (children_names demo_device 0)" by simp_all
qed

lemma cache_demo: "cache_ok demo_device"
  unfolding demo_device_def
  using cache_grown[OF wf_generic_device _ cache_generic_device, of _ 0 "[]" "''foo''"]
  by (simp add: osc_rec_root generic_device_read) (simp add: generic_device_def)

text \<open>C1: On a well-formed device whose tree may change, \<open>create_child\<close> returns a new node, the
  last child of the node it is called on; every other node keeps its contents and the creation is
  signalled once. The new name is the wanted one when that is valid and no sibling has it. The new name is
  valid, no sibling has it, and the device stays well formed with every cached OSC address right, provided
  that a number is left for the name: the wanted name, without its invalid characters, is free, or no
  sibling carries the largest \<open>int\<close> as instance number of its root (the next number overflows then).\<close>

theorem create_child_correct:
  assumes "wf_device st" and "cache_ok st" and "can_change_tree st" and "nodes st i \<noteq> None"
  shows "\<exists>st' j. create_child st i name = Some (st', Some j)
    \<and> nodes st j = None \<and> kids st' i = kids st i @ [j] \<and> kids st' j = [] \<and> parent_of st' j = Some i
    \<and> (\<forall>x. x \<noteq> i \<and> x \<noteq> j \<longrightarrow> nodes st' x = nodes st x)
    \<and> signals st' = signals st @ [Node_created j]
    \<and> (valid_name name \<and> name \<notin> set (children_names st i) \<longrightarrow> name_of st' j = name)
    \<and> (sanitize_chars name \<notin> set (children_names st i) \<or> instances_left name (children_names st i) \<longrightarrow>
        name_of st' j \<notin> set (children_names st i) \<and> valid_name (name_of st' j) \<and> wf_device st' \<and> cache_ok st')"
proof -
  let ?nm = "sanitize_name_children name (children_names st i)"
  obtain s where s: "osc_address_rec st i = Some s" and c: "create_child st i name =
      Some (grown st i ?nm (s @ ''/'' @ ?nm), Some (next_id st))"
    using create_child_grown[OF assms(1,4,3)] by blast
  have j: "i \<noteq> next_id st" "nodes st (next_id st) = None"
    using wf_bound[OF assms(1)] assms(4) by blast+
  have keep: "?nm = name" if "valid_name name" "name \<notin> set (children_names st i)"
    using that by (simp add: sanitize_children_eq sanitize_name_unfold sanitize_chars_id)
  have sound: "?nm \<notin> set (children_names st i) \<and> valid_name ?nm
      \<and> wf_device (grown st i ?nm (s @ ''/'' @ ?nm)) \<and> cache_ok (grown st i ?nm (s @ ''/'' @ ?nm))"
    if "sanitize_chars name \<notin> set (children_names st i) \<or> instances_left name (children_names st i)"
    using sanitize_name_available[OF that] wf_grown[OF assms(1,4)] cache_grown[OF assms(1,4,2) s]
    by (simp add: sanitize_children_eq)
  show ?thesis
    using c keep sound j
    by (intro exI[of _ "grown st i ?nm (s @ ''/'' @ ?nm)"] exI[of _ "next_id st"])
       (simp add: grown_read[OF j(1) assms(4)] grown_nodes[OF j(1)])
qed

theorem create_child_correct_witness:
  "\<exists>st' j. create_child demo_device 0 ''foo'' = Some (st', Some j)
     \<and> name_of st' j \<notin> set (children_names demo_device 0)"
  using create_child_correct[OF wf_demo cache_demo demo_read(4) demo_read(6), of "''foo''"] demo_instances(1)
  by blast

text \<open>Removing a child of a well-formed device returns, deletes the child and everything below
  it and nothing else, takes it out of its parent's children, and leaves the device well formed with
  every cached OSC address right.\<close>

theorem remove_child_correct:
  assumes "wf_device st" and "cache_ok st" and "can_change_tree st" and "c \<in> set (kids st i)"
  shows "\<exists>st'. remove_child st i c = Some (st', True) \<and> wf_device st' \<and> cache_ok st'
    \<and> kids st' i = remove1 c (kids st i)
    \<and> (\<forall>x. nodes st' x = None \<longleftrightarrow> nodes st x = None \<or> x \<in> below (kids st) [c])
    \<and> (\<forall>x. x \<noteq> i \<and> x \<notin> below (kids st) [c] \<longrightarrow> nodes st' x = nodes st x)"
proof -
  have ord: "ordered st" by (rule wf_orderedD[OF assms(1)])
  then have d: "distinct (kids st i)" by (simp add: ordered_def)
  have "List.find (\<lambda>x. x = c) (kids st i) = Some c"
    by (rule find_eq_self[OF assms(4)])
  then obtain st' where r: "remove_child st i c = Some (st', True)" "next_id st' = next_id st"
    and n: "nodes st' = cut_below st i (\<lambda>x. x \<noteq> c)"
    using remove_found_effect[OF ord assms(3,4)] assms(3) by (auto simp: remove_child_def)
  have f: "filter (\<lambda>x. \<not> x \<noteq> c) (kids st i) = [c]"
    using filter_eq_single[OF d assms(4)] by simp
  have b: "i \<notin> below (kids st) [c]"
    using tree.below_after[OF ord, of i c] ord assms(4) by (force simp: below_single ordered_def)
  have nx: "nodes st' x = (if x \<in> below (kids st) [c] then None
      else if x = i then map_option (\<lambda>n. n\<lparr>nchildren := filter (\<lambda>x. x \<noteq> c) (nchildren n)\<rparr>) (nodes st i)
      else nodes st x)" for x
    by (simp only: n cut_below_def f)
  have "kids st' i = remove1 c (kids st i)"
    using read_cut(1)[OF nx, of i] b remove1_eq_filter[OF d] by simp
  then show ?thesis
    using r wf_cut_below[OF assms(1) n] cache_cut_below[OF assms(1,2) n] by (auto simp: nx)
qed

theorem remove_child_correct_witness:
  "\<exists>st'. remove_child demo_device 0 1 = Some (st', True) \<and> kids st' 0 = []"
  using remove_child_correct[OF wf_demo cache_demo demo_read(4), of 1 0] by (auto simp: demo_read)

text \<open>Removal by name is removal of the child that has the sanitised name, and nothing when
  there is none.\<close>

theorem remove_child_name_eq:
  "remove_child_name st i name =
     (case find_child st i (sanitize_chars name) of
        None \<Rightarrow> Some (st, False)
      | Some c \<Rightarrow> remove_child st i c)"
proof (cases "find_child st i (sanitize_chars name)")
  case None
  then show ?thesis by (simp add: remove_child_name_def find_child_def remove_found_def)
next
  case (Some c)
  then have "c \<in> set (kids st i)" using find_SomeD by (force simp: find_child_def)
  then have "List.find (\<lambda>x. x = c) (kids st i) = Some c" by (rule find_eq_self)
  with Some show ?thesis by (simp add: remove_child_name_def find_child_def remove_child_def)
qed

text \<open>\<open>clear_children\<close> returns on every well-formed device and leaves it well formed, the node
  without children and nothing that was below it.\<close>

theorem clear_children_correct:
  assumes "wf_device st" and "can_change_tree st"
  shows "\<exists>st'. clear_children i st = Some st' \<and> wf_device st' \<and> kids st' i = []
    \<and> (\<forall>x. nodes st' x = None \<longleftrightarrow> nodes st x = None \<or> x \<in> below (kids st) (kids st i))"
proof -
  have ord: "ordered st" by (rule wf_orderedD[OF assms(1)])
  obtain st' where r: "clear_children i st = Some st'" "next_id st' = next_id st"
    and n: "nodes st' = cut_below st i (\<lambda>_. False)"
    using clear_children_effect[OF ord assms(2)] by blast
  have nx: "nodes st' x = (if x \<in> below (kids st) (kids st i) then None
      else if x = i then map_option (\<lambda>n. n\<lparr>nchildren := filter (\<lambda>x. False) (nchildren n)\<rparr>) (nodes st i)
      else nodes st x)" for x
    by (simp add: n cut_below_def)
  have "i \<notin> below (kids st) (kids st i)" using tree.below_after[OF ord, of i i] by auto
  then show ?thesis
    using r wf_cut_below[OF assms(1) n] read_cut(1)[OF nx, of i] by (auto simp: nx)
qed

theorem clear_children_correct_witness:
  "\<exists>st'. clear_children 0 demo_device = Some st' \<and> kids st' 0 = []"
  using clear_children_correct[OF wf_demo demo_read(4), of 0] by blast



end
