(* ===== verification/NatCompare.thy ===== *)
theory NatCompare
  imports Strings
begin

text \<open>
  The natural-order comparison of node names, \<open>strnatcmp\<close> with its helpers
  (network/base/node_functions.cpp). A \<open>char const*\<close> is the rest of the string from the pointer on;
  reading past its end gives the terminating NUL.
\<close>

section \<open>The comparison\<close>

definition nat_at :: "string \<Rightarrow> char" where
  "nat_at a = (case a of [] \<Rightarrow> CHR 0x00 | c # _ \<Rightarrow> c)"

definition nat_isspace :: "char \<Rightarrow> bool" where
  "nat_isspace a \<longleftrightarrow> a = CHR '' ''"

definition nat_toupper :: "char \<Rightarrow> char" where
  "nat_toupper a =
     (if schar a \<ge> schar CHR ''a'' \<and> schar a \<le> schar CHR ''z''
      then char_of (schar a - (schar CHR ''a'' - schar CHR ''A'')) else a)"

function nat_compare_right :: "int \<Rightarrow> string \<Rightarrow> string \<Rightarrow> int" where
  "nat_compare_right bias a b =
     (if \<not> is_digit (nat_at a) \<and> \<not> is_digit (nat_at b) then bias
      else if \<not> is_digit (nat_at a) then - 1
      else if \<not> is_digit (nat_at b) then 1
      else if schar (nat_at a) < schar (nat_at b) then
        nat_compare_right (if bias = 0 then - 1 else bias) (tl a) (tl b)
      else if schar (nat_at a) > schar (nat_at b) then
        nat_compare_right (if bias = 0 then 1 else bias) (tl a) (tl b)
      else if nat_at a = CHR 0x00 \<and> nat_at b = CHR 0x00 then bias
      else nat_compare_right bias (tl a) (tl b))"
  by pat_completeness auto

lemma not_digit_NUL [simp]: "\<not> is_digit CHR 0x00"
  by (simp add: is_digit_def schar_def)

lemma digit_at_ne: "is_digit (nat_at a) \<Longrightarrow> a \<noteq> []"
  by (auto simp: nat_at_def)

termination nat_compare_right
  by (relation "measure (\<lambda>(_, a, _). length a)") (auto dest!: digit_at_ne)

function nat_compare_left :: "string \<Rightarrow> string \<Rightarrow> int" where
  "nat_compare_left a b =
     (if \<not> is_digit (nat_at a) \<and> \<not> is_digit (nat_at b) then 0
      else if \<not> is_digit (nat_at a) then - 1
      else if \<not> is_digit (nat_at b) then 1
      else if schar (nat_at a) < schar (nat_at b) then - 1
      else if schar (nat_at a) > schar (nat_at b) then 1
      else nat_compare_left (tl a) (tl b))"
  by pat_completeness auto
termination
  by (relation "measure (\<lambda>(a, _). length a)") (auto dest!: digit_at_ne)

declare nat_compare_right.simps [simp del] nat_compare_left.simps [simp del]

text \<open>\<open>strnatcmp<fold_case>\<close>, with what the two index variables have reached yet.\<close>

definition skip_spaces :: "string \<Rightarrow> string" where
  "skip_spaces a = dropWhile nat_isspace a"

definition digit_runs :: "string \<Rightarrow> string \<Rightarrow> int" where
  "digit_runs a b =
     (if is_digit (nat_at a) \<and> is_digit (nat_at b) then
        (if nat_at a = CHR ''0'' \<or> nat_at b = CHR ''0'' then nat_compare_left a b
         else nat_compare_right 0 a b)
      else 0)"

function strnatcmp :: "bool \<Rightarrow> string \<Rightarrow> string \<Rightarrow> int" where
  "strnatcmp fold_case a0 b0 =
     (let a = skip_spaces a0; b = skip_spaces b0;
          ca = nat_at a; cb = nat_at b;
          result = digit_runs a b
      in if result \<noteq> 0 then result
         else if ca = CHR 0x00 \<and> cb = CHR 0x00 then 0
         else
           (let ca' = (if fold_case then nat_toupper ca else ca);
                cb' = (if fold_case then nat_toupper cb else cb)
            in if schar ca' < schar cb' then - 1
               else if schar ca' > schar cb' then 1
               else strnatcmp fold_case (tl a) (tl b)))"
  by pat_completeness auto

termination strnatcmp
proof (relation "measure (\<lambda>(_, a, b). length a + length b)")
  fix f a0 b0 a b ca cb r ca' cb'
  assume a: "a = skip_spaces a0" and b: "b = skip_spaces b0" and ca: "ca = nat_at a" and cb: "cb = nat_at b"
    and ne: "\<not> (ca = CHR 0x00 \<and> cb = CHR 0x00)"
  have "length a \<le> length a0" "length b \<le> length b0"
    using a b by (simp_all add: skip_spaces_def length_dropWhile_le)
  moreover have "a \<noteq> [] \<or> b \<noteq> []" using ne ca cb by (auto simp: nat_at_def)
  ultimately show "((f, tl a, tl b), (f, a0, b0)) \<in> measure (\<lambda>(_, a, b). length a + length b)"
    by (cases a; cases b) auto
qed simp

declare strnatcmp.simps [simp del]

section \<open>Comparing in the other order\<close>

lemma nat_compare_right_swap: "nat_compare_right (- bias) b a = - nat_compare_right bias a b"
proof (induction bias a b rule: nat_compare_right.induct)
  case (1 bias a b)
  consider "\<not> (is_digit (nat_at a) \<and> is_digit (nat_at b))"
    | "is_digit (nat_at a)" "is_digit (nat_at b)" "schar (nat_at a) < schar (nat_at b)"
    | "is_digit (nat_at a)" "is_digit (nat_at b)" "schar (nat_at a) > schar (nat_at b)"
    | "is_digit (nat_at a)" "is_digit (nat_at b)" "schar (nat_at a) = schar (nat_at b)"
    by linarith
  then show ?case
  proof cases
    case 1
    then show ?thesis by (auto simp: nat_compare_right.simps[of _ a] nat_compare_right.simps[of _ b])
  next
    case 2
    then show ?thesis using "1.IH"(1)
      by (simp add: nat_compare_right.simps[of _ a] nat_compare_right.simps[of _ b] split: if_splits)
  next
    case 3
    then show ?thesis using "1.IH"(2)
      by (simp add: nat_compare_right.simps[of _ a] nat_compare_right.simps[of _ b] split: if_splits)
  next
    case 4
    moreover have "nat_at a \<noteq> CHR 0x00" using 4 by auto
    ultimately show ?thesis using "1.IH"(3)
      by (auto simp: nat_compare_right.simps[of _ a] nat_compare_right.simps[of _ b])
  qed
qed

lemma nat_compare_left_swap: "nat_compare_left b a = - nat_compare_left a b"
proof (induction a b rule: nat_compare_left.induct)
  case (1 a b)
  then show ?case
    by (auto simp: nat_compare_left.simps[of a b] nat_compare_left.simps[of b a])
qed

lemma digit_runs_swap: "digit_runs b a = - digit_runs a b"
  using nat_compare_right_swap[of 0 b a] nat_compare_left_swap[of b a]
  by (auto simp: digit_runs_def)

definition nat_fold :: "bool \<Rightarrow> char \<Rightarrow> int" where
  "nat_fold f c = schar (if f then nat_toupper c else c)"

lemma strnatcmp_unfold:
  "strnatcmp f a b =
     (if digit_runs (skip_spaces a) (skip_spaces b) \<noteq> 0 then digit_runs (skip_spaces a) (skip_spaces b)
      else if nat_at (skip_spaces a) = CHR 0x00 \<and> nat_at (skip_spaces b) = CHR 0x00 then 0
      else if nat_fold f (nat_at (skip_spaces a)) < nat_fold f (nat_at (skip_spaces b)) then - 1
      else if nat_fold f (nat_at (skip_spaces b)) < nat_fold f (nat_at (skip_spaces a)) then 1
      else strnatcmp f (tl (skip_spaces a)) (tl (skip_spaces b)))"
  by (subst strnatcmp.simps) (simp only: Let_def nat_fold_def)

lemma neg_step:
  fixes r r' x y z z' :: int
  assumes "r' = - r" and "N' \<longleftrightarrow> N" and "r = 0 \<Longrightarrow> \<not> N \<Longrightarrow> \<not> x < y \<Longrightarrow> \<not> y < x \<Longrightarrow> z' = - z"
  shows "(if r' \<noteq> 0 then r' else if N' then 0 else if y < x then - 1 else if x < y then 1 else z')
    = - (if r \<noteq> 0 then r else if N then 0 else if x < y then - 1 else if y < x then 1 else z)"
  using assms by auto

lemma strnatcmp_antisym: "strnatcmp f b a = - strnatcmp f a b"
proof (induction f a b rule: strnatcmp.induct)
  case (1 f a b)
  have IH: "strnatcmp f (tl (skip_spaces b)) (tl (skip_spaces a))
      = - strnatcmp f (tl (skip_spaces a)) (tl (skip_spaces b))"
    if "digit_runs (skip_spaces a) (skip_spaces b) = 0"
      "\<not> (nat_at (skip_spaces a) = CHR 0x00 \<and> nat_at (skip_spaces b) = CHR 0x00)"
      "\<not> nat_fold f (nat_at (skip_spaces a)) < nat_fold f (nat_at (skip_spaces b))"
      "\<not> nat_fold f (nat_at (skip_spaces b)) < nat_fold f (nat_at (skip_spaces a))"
    by (rule "1.IH"[OF refl refl refl refl refl _ _ refl refl]) (use that in \<open>simp_all add: nat_fold_def\<close>)
  show ?case
    unfolding strnatcmp_unfold[of f a b] strnatcmp_unfold[of f b a]
    by (rule neg_step[OF digit_runs_swap _ IH]) auto
qed

lemma strnatcmp_self: "strnatcmp f a a = 0"
  using strnatcmp_antisym[of f a a] by simp

section \<open>Comparing numbers\<close>

lemma digits_foldl:
  "foldl (\<lambda>v c. 10 * v + digit_val c) k ds
   = k * 10 ^ length ds + foldl (\<lambda>v c. 10 * v + digit_val c) 0 ds"
proof (induction ds arbitrary: k)
  case (Cons d ds)
  show ?case
    using Cons.IH[of "10 * k + digit_val d"] Cons.IH[of "digit_val d"] by (simp add: distrib_right)
qed simp

lemma digits_value_Cons: "digits_value (c # ds) = digit_val c * 10 ^ length ds + digits_value ds"
  using digits_foldl[of "digit_val c" ds] by (simp add: digits_value_def)

lemma digit_val_range: "is_digit c \<Longrightarrow> 0 \<le> digit_val c \<and> digit_val c \<le> 9"
  by (simp add: is_digit_def digit_val_def)

lemma digits_value_range: "list_all is_digit ds \<Longrightarrow> 0 \<le> digits_value ds \<and> digits_value ds < 10 ^ length ds"
proof (induction ds)
  case (Cons c ds)
  then have "0 \<le> digit_val c" "digit_val c \<le> 9" using digit_val_range by auto
  then have "digit_val c * 10 ^ length ds \<le> 9 * 10 ^ length ds" "0 \<le> digit_val c * 10 ^ length ds"
    by (auto intro: mult_right_mono)
  moreover have "0 \<le> digits_value ds" "digits_value ds < 10 ^ length ds" using Cons by auto
  ultimately show ?case
    unfolding digits_value_Cons length_Cons power_Suc by (intro conjI) linarith+
qed (simp add: digits_value_def)

lemma right_digits:
  "list_all is_digit xs \<Longrightarrow> list_all is_digit ys \<Longrightarrow> nat_compare_right bias xs ys =
     (if length xs < length ys then - 1 else if length ys < length xs then 1
      else if bias \<noteq> 0 then bias else sgn (digits_value xs - digits_value ys))"
proof (induction xs arbitrary: ys bias)
  case Nil
  then show ?case
    by (cases ys) (auto simp: nat_compare_right.simps[of _ "[]"] nat_at_def digits_value_def)
next
  case (Cons x xs)
  show ?case
  proof (cases ys)
    case Nil
    then show ?thesis using Cons.prems
      by (simp add: nat_compare_right.simps[of _ "x # xs"] nat_at_def)
  next
    case (Cons y zs)
    have d: "is_digit x" "is_digit y" "list_all is_digit xs" "list_all is_digit zs"
      using Cons.prems Cons by auto
    have IH: "nat_compare_right b xs zs =
       (if length xs < length zs then - 1 else if length zs < length xs then 1
        else if b \<noteq> 0 then b else sgn (digits_value xs - digits_value zs))" for b
      by (rule Cons.IH[OF d(3,4)])
    have r: "0 \<le> digit_val x" "0 \<le> digit_val y" using digit_val_range d by auto
    have v: "schar x < schar y \<longleftrightarrow> digit_val x < digit_val y" by (simp add: digit_val_def)
    have lt: "digits_value (x # xs) < digits_value (y # zs)"
      if "digit_val x < digit_val y" "length xs = length zs" "0 \<le> digit_val y" "list_all is_digit xs" "list_all is_digit zs"
      for x y xs zs
    proof -
      have "(digit_val x + 1) * 10 ^ length xs \<le> digit_val y * 10 ^ length zs"
        using that by (intro mult_mono) (auto intro: order_trans)
      then show ?thesis
        using digits_value_range[OF that(4)] digits_value_range[OF that(5)] that(2)
        by (simp add: digits_value_Cons algebra_simps)
    qed
    consider "schar x < schar y" | "schar y < schar x" | "schar x = schar y" by linarith
    then show ?thesis
    proof cases
      case 1
      then have "digits_value (x # xs) < digits_value (y # zs)" if "length xs = length zs"
        using lt[of x y xs zs] that v d r by simp
      with 1 show ?thesis
        using Cons d IH by (simp add: nat_compare_right.simps[of bias "x # xs"] nat_at_def)
    next
      case 2
      then have "digits_value (y # zs) < digits_value (x # xs)" if "length xs = length zs"
        using lt[of y x zs xs] that d r by (simp add: digit_val_def)
      with 2 show ?thesis
        using Cons d IH by (simp add: nat_compare_right.simps[of bias "x # xs"] nat_at_def)
    next
      case 3
      then have "x = y" by (simp add: schar_inj)
      moreover have "x \<noteq> CHR 0x00" using d by auto
      ultimately have "nat_compare_right bias (x # xs) ys = nat_compare_right bias xs zs"
        using Cons d by (simp add: nat_compare_right.simps[of bias "y # xs"] nat_at_def)
      with \<open>x = y\<close> Cons show ?thesis by (simp add: IH digits_value_Cons)
    qed
  qed
qed

lemma hd_nat_str_pos: "0 < n \<Longrightarrow> hd (nat_str n) \<noteq> CHR ''0''"
proof (induction n rule: nat_str.induct)
  case (1 n)
  show ?case
  proof (cases "n < 10")
    case True
    have "schar (digit_char n) = 48 + n" using 1 True by (simp add: schar_digit_char)
    then have "digit_char n \<noteq> CHR ''0''" using 1 by auto
    with True show ?thesis by (simp add: nat_str.simps[of n])
  next
    case False
    then show ?thesis
      using 1 nat_str_digits[of "n div 10"] by (simp add: nat_str.simps[of n])
  qed
qed

lemma nat_str_lower:
  assumes "0 < n"
  shows "10 ^ (length (nat_str n) - 1) \<le> n"
proof -
  obtain c ds where s: "nat_str n = c # ds" using nat_str_digits[of n] assms by (cases "nat_str n") auto
  have d: "list_all is_digit (c # ds)" using nat_str_digits[of n] assms s by simp
  have "digit_val c \<noteq> 0" using hd_nat_str_pos[OF assms] s schar_inj[of c "CHR ''0''"] by (simp add: digit_val_def)
  then have "1 \<le> digit_val c" using digit_val_range[of c] d by simp
  then have "1 * 10 ^ length ds \<le> digit_val c * 10 ^ length ds" by (intro mult_right_mono) auto
  moreover have "n = digit_val c * 10 ^ length ds + digits_value ds"
    using digits_value_nat_str[of n] assms s by (simp add: digits_value_Cons)
  moreover have "0 \<le> digits_value ds" using digits_value_range[of ds] d by simp
  ultimately have "10 ^ length ds \<le> n" by linarith
  then show ?thesis by (simp only: s length_Cons diff_Suc_1)
qed

lemma nat_str_shorter:
  assumes "0 < m" "0 < n" "length (nat_str m) < length (nat_str n)"
  shows "m < n"
proof -
  have "m < 10 ^ length (nat_str m)"
    using digits_value_range[of "nat_str m"] nat_str_digits[of m] digits_value_nat_str[of m] assms by simp
  also have "\<dots> \<le> 10 ^ (length (nat_str n) - 1)" using assms by (intro power_increasing) auto
  also have "\<dots> \<le> n" by (rule nat_str_lower[OF assms(2)])
  finally show ?thesis .
qed

lemma digit_runs_numbers:
  assumes "0 < m" "0 < n"
  shows "digit_runs (nat_str m) (nat_str n) = sgn (m - n)"
proof -
  have d: "list_all is_digit (nat_str m)" "nat_str m \<noteq> []" "list_all is_digit (nat_str n)" "nat_str n \<noteq> []"
    using nat_str_digits assms by auto
  then have at: "nat_at (nat_str m) = hd (nat_str m)" "is_digit (hd (nat_str m))"
    "nat_at (nat_str n) = hd (nat_str n)" "is_digit (hd (nat_str n))"
    by (auto simp: nat_at_def neq_Nil_conv)
  show ?thesis
    using at hd_nat_str_pos[OF assms(1)] hd_nat_str_pos[OF assms(2)]
      nat_str_shorter[OF assms] nat_str_shorter[OF assms(2,1)]
      digits_value_nat_str[of m] digits_value_nat_str[of n] assms
    by (simp add: digit_runs_def right_digits[OF d(1,3)])
qed

lemma right_prefix:
  "\<not> is_digit x \<Longrightarrow> \<not> is_digit y \<Longrightarrow> nat_compare_right bias (p @ x # xs) (p @ y # ys) = bias"
proof (induction p)
  case Nil
  then show ?case by (simp add: nat_compare_right.simps[of _ "x # xs"] nat_at_def)
next
  case (Cons c p)
  then show ?case by (simp add: nat_compare_right.simps[of _ "c # p @ x # xs"] nat_at_def)
qed

lemma left_prefix:
  "\<not> is_digit x \<Longrightarrow> \<not> is_digit y \<Longrightarrow> nat_compare_left (p @ x # xs) (p @ y # ys) = 0"
proof (induction p)
  case Nil
  then show ?case by (simp add: nat_compare_left.simps[of "x # xs"] nat_at_def)
next
  case (Cons c p)
  then show ?case by (simp add: nat_compare_left.simps[of "c # p @ x # xs"] nat_at_def)
qed

lemma skip_spaces_idem [simp]: "skip_spaces (skip_spaces a) = skip_spaces a"
  by (simp add: skip_spaces_def dropWhile_idem)

lemma strnatcmp_skip: "strnatcmp f (skip_spaces a) (skip_spaces b) = strnatcmp f a b"
  by (simp add: strnatcmp_unfold[of f "skip_spaces a"] strnatcmp_unfold[of f a])

lemma dropWhile_stop: "\<not> P z \<Longrightarrow> dropWhile P (p @ z # zs) = dropWhile P p @ z # zs"
  by (induction p) auto

lemma strnatcmp_prefix:
  assumes "\<not> is_digit x" "\<not> is_digit y" "\<not> nat_isspace x" "\<not> nat_isspace y"
  shows "CHR 0x00 \<notin> set p \<Longrightarrow> strnatcmp f (p @ x # xs) (p @ y # ys) = strnatcmp f (x # xs) (y # ys)"
proof (induction "length p" arbitrary: p rule: less_induct)
  case less
  define q where "q = dropWhile nat_isspace p"
  have sk: "skip_spaces (p @ z # zs) = q @ z # zs" if "\<not> nat_isspace z" for z zs
    using dropWhile_stop[of nat_isspace z] that by (simp add: skip_spaces_def q_def)
  have e: "strnatcmp f (p @ x # xs) (p @ y # ys) = strnatcmp f (q @ x # xs) (q @ y # ys)"
    using strnatcmp_skip[of f "p @ x # xs" "p @ y # ys"] sk assms by simp
  show ?case
  proof (cases q)
    case Nil
    then show ?thesis using e by simp
  next
    case (Cons d r)
    have d: "\<not> nat_isspace d" using Cons hd_dropWhile[of nat_isspace p] by (auto simp: q_def)
    have "set q \<subseteq> set p" "length q \<le> length p"
      by (auto simp: q_def length_dropWhile_le dest: set_dropWhileD)
    then have r: "CHR 0x00 \<notin> set r" "length r < length p" "d \<noteq> CHR 0x00" using less.prems Cons by auto
    have "digit_runs (q @ x # xs) (q @ y # ys) = 0"
      using right_prefix[OF assms(1,2), of 0 q] left_prefix[OF assms(1,2), of q] by (simp add: digit_runs_def)
    then have "strnatcmp f (q @ x # xs) (q @ y # ys) = strnatcmp f (r @ x # xs) (r @ y # ys)"
      using Cons d r(3)
      by (simp add: strnatcmp_unfold[of f "d # r @ x # xs"] skip_spaces_def nat_at_def)
    then show ?thesis using e less.hyps[OF r(2,1)] by simp
  qed
qed

lemma strnatcmp_numbers:
  assumes "0 < m" "0 < n"
  shows "strnatcmp f (to_string m) (to_string n) = sgn (m - n)"
proof (cases "m = n")
  case False
  have "skip_spaces (nat_str k) = nat_str k" if "0 < k" for k
  proof -
    obtain c ds where "nat_str k = c # ds" "is_digit c"
      using nat_str_digits[of k] \<open>0 < k\<close> by (cases "nat_str k") auto
    moreover have "\<not> is_digit CHR '' ''" by (simp add: is_digit_def schar_def)
    ultimately show ?thesis by (auto simp: skip_spaces_def nat_isspace_def)
  qed
  with assms False show ?thesis
    by (simp add: to_string_def strnatcmp_unfold[of f "nat_str m"] digit_runs_numbers sgn_if)
qed (simp add: strnatcmp_self)

section \<open>Properties\<close>

text \<open>Comparing two names in the other order gives the opposite result, so a name compares
  equal to itself and never both before and after another.\<close>

theorem strnatcmp_swap: "strnatcmp f b a = - strnatcmp f a b"
  by (rule strnatcmp_antisym)

text \<open>Instances of a name are ordered by their instance numbers, whatever the number of
  digits.\<close>

theorem strnatcmp_instances:
  assumes "CHR 0x00 \<notin> set root" and "0 < m" and "0 < n"
  shows "strnatcmp f (root @ ''.'' @ to_string m) (root @ ''.'' @ to_string n) = sgn (m - n)"
proof -
  have dot: "\<not> is_digit CHR ''.''" "\<not> nat_isspace CHR ''.''" by (simp_all add: nat_isspace_def)
  have "digit_runs (CHR ''.'' # a) (CHR ''.'' # b) = 0" for a b
    using dot by (simp add: digit_runs_def nat_at_def)
  then have "strnatcmp f (CHR ''.'' # a) (CHR ''.'' # b) = strnatcmp f a b" for a b
    using dot by (simp add: strnatcmp_unfold[of f "CHR ''.'' # a"] skip_spaces_def nat_at_def)
  then show ?thesis
    using strnatcmp_prefix[OF dot(1) dot(1) dot(2) dot(2) assms(1)] strnatcmp_numbers[OF assms(2,3)]
    by simp
qed

theorem strnatcmp_instances_witness:
  "strnatcmp True (''foo'' @ ''.'' @ to_string 9) (''foo'' @ ''.'' @ to_string 10) = - 1"
  using strnatcmp_instances[of "''foo''" 9 10 True] by simp

end
