(* ===== verification/Addresses.thy ===== *)
theory Addresses
  imports NodeLifecycle
begin

text \<open>
  Textual addresses of nodes (network/base/osc_address.cpp) and the paths of nodes they are meant
  to name.
\<close>

section \<open>Addresses\<close>

text \<open>\<open>getAddressFromNode_rec\<close> and \<open>getOSCAddressFromNodeWithDevice_rec\<close>, which calls the
  recursion without the device.\<close>

partial_function (option) address_rec :: "device \<Rightarrow> nat \<Rightarrow> string option" where
  "address_rec st i =
     (case parent_of st i of
        Some p \<Rightarrow> Option.bind (address_rec st p) (\<lambda>s. Some (s @ ''/'' @ name_of st i))
      | None \<Rightarrow> Some (name_of st i @ '':''))"

definition osc_address_with_device_rec :: "device \<Rightarrow> nat \<Rightarrow> string option" where
  "osc_address_with_device_rec st i =
     Option.bind (case parent_of st i of Some p \<Rightarrow> osc_address_rec st p | None \<Rightarrow> Some [])
       (\<lambda>s. Some (s @ ''/'' @ name_of st i))"

definition osc_parameter_string_with_device :: "device \<Rightarrow> nat \<Rightarrow> string option" where
  "osc_parameter_string_with_device st i =
     (case parent_of st i of Some _ \<Rightarrow> osc_address_with_device_rec st i | None \<Rightarrow> Some ''/'')"

definition address_string_from_node :: "device \<Rightarrow> nat \<Rightarrow> string option" where
  "address_string_from_node st i =
     Option.bind (address_rec st i) (\<lambda>s. Some (if last s = CHR '':'' then s @ ''/'' else s))"

definition relative_address_string_from_nodes :: "device \<Rightarrow> nat \<Rightarrow> nat \<Rightarrow> string option" where
  "relative_address_string_from_nodes st node parent =
     Option.bind (address_string_from_node st node) (\<lambda>addr.
     Option.bind (address_string_from_node st parent) (\<lambda>parent_addr0.
       (let parent_addr = (if last parent_addr0 \<noteq> CHR ''/'' then parent_addr0 @ ''/'' else parent_addr0)
        in if find_str parent_addr addr \<noteq> None then Some (drop (length parent_addr) addr)
           else Some (name_of st node))))"

section \<open>Paths\<close>

text \<open>\<open>path st a ns b\<close>: the nodes \<open>ns\<close> lead from \<open>a\<close> down to \<open>b\<close>.\<close>

inductive path :: "device \<Rightarrow> nat \<Rightarrow> nat list \<Rightarrow> nat \<Rightarrow> bool" for st where
  path_here: "path st a [] a"
| path_down: "path st a ns b \<Longrightarrow> c \<in> set (kids st b) \<Longrightarrow> path st a (ns @ [c]) c"

inductive_simps path_Nil: "path st a [] b"
inductive_simps path_snoc: "path st a (ns @ [c]) b"

lemma path_Nil_iff [simp]: "path st a [] b \<longleftrightarrow> b = a"
  by (auto simp: path_Nil)

lemma path_snoc_iff [simp]:
  "path st a (ns @ [c]) b \<longleftrightarrow> b = c \<and> (\<exists>d. path st a ns d \<and> c \<in> set (kids st d))"
  by (auto simp: path_snoc)

lemma path_Cons: "path st a (c # ns) b \<longleftrightarrow> c \<in> set (kids st a) \<and> path st c ns b"
proof (induction ns arbitrary: b rule: rev_induct)
  case Nil
  show ?case using path_snoc_iff[of st a "[]" c b] by auto
next
  case (snoc d ns)
  have "path st a (c # ns @ [d]) b \<longleftrightarrow> path st a ((c # ns) @ [d]) b" by simp
  then show ?case using snoc by (simp only: path_snoc_iff) auto
qed

definition slashed :: "device \<Rightarrow> nat list \<Rightarrow> string" where
  "slashed st ns = concat (map (\<lambda>n. ''/'' @ name_of st n) ns)"

lemma slashed_simps [simp]:
  "slashed st [] = []" "slashed st (n # ns) = CHR ''/'' # name_of st n @ slashed st ns"
  "slashed st (ns @ ms) = slashed st ns @ slashed st ms"
  by (simp_all add: slashed_def)

lemma path_osc_rec:
  assumes wf: "wf_device st"
  shows "path st a ns b \<Longrightarrow> osc_address_rec st a = Some s \<Longrightarrow> osc_address_rec st b = Some (s @ slashed st ns)"
proof (induction rule: path.induct)
  case (path_down a ns b c)
  then show ?case using wf_child_parent[OF wf, of c b] by (simp add: osc_rec_child)
qed simp

lemma path_address_rec:
  assumes wf: "wf_device st"
  shows "path st a ns b \<Longrightarrow> address_rec st a = Some s \<Longrightarrow> address_rec st b = Some (s @ slashed st ns)"
proof (induction rule: path.induct)
  case (path_down a ns b c)
  then show ?case using wf_child_parent[OF wf, of c b] by (simp add: address_rec.simps[of st c])
qed simp

lemma slashed_join: "ns \<noteq> [] \<Longrightarrow> slashed st ns = CHR ''/'' # join_on CHR ''/'' (map (name_of st) ns)"
proof (induction ns)
  case (Cons n ns)
  then show ?case by (cases ns) auto
qed simp

lemma path_address:
  assumes wf: "wf_device st" and r: "parent_of st r = None" and p: "path st r ns i"
  shows "address_rec st i = Some (name_of st r @ '':'' @ slashed st ns)"
    and "osc_address_rec st i = Some (slashed st ns)"
proof -
  have "address_rec st r = Some (name_of st r @ '':'')" using r by (simp add: address_rec.simps)
  then show "address_rec st i = Some (name_of st r @ '':'' @ slashed st ns)"
    using path_address_rec[OF wf p] by simp
  show "osc_address_rec st i = Some (slashed st ns)"
    using path_osc_rec[OF wf p osc_rec_root[OF r]] by simp
qed

lemma path_parent:
  assumes wf: "wf_device st" and r: "parent_of st r = None" and p: "path st r ns i"
  shows "parent_of st i = None \<longleftrightarrow> ns = []"
proof (cases ns rule: rev_cases)
  case Nil
  then show ?thesis using p r by simp
next
  case (snoc ms c)
  then show ?thesis using p wf_child_parent[OF wf, of i] by fastforce
qed

section \<open>Properties\<close>

text \<open>The OSC address of a node below the root is the names on the way to it, each after a
  slash; its full address is the device's name, a colon and that, with a slash added when the node
  is the root or its name ends in a colon.\<close>

theorem addresses_spell_path:
  assumes "wf_device st" and "parent_of st r = None" and "path st r ns i"
  shows "osc_parameter_string st i = Some (if ns = [] then ''/'' else slashed st ns)
    \<and> address_string_from_node st i = Some (name_of st r @ '':'' @ slashed st ns
        @ (if last ('':'' @ slashed st ns) = CHR '':'' then ''/'' else []))"
proof -
  have "last (name_of st r @ '':'' @ slashed st ns) = last ('':'' @ slashed st ns)"
    by (simp add: last_append)
  then show ?thesis
    using path_address[OF assms] path_parent[OF assms]
    by (auto simp: osc_parameter_string_def address_string_from_node_def split: option.split)
qed

theorem addresses_spell_path_witness:
  "address_string_from_node demo_device 1 = Some ''dev:/foo''"
proof -
  have "path demo_device 0 [1] 1" by (simp add: path_Cons demo_read)
  then show ?thesis
    using addresses_spell_path[OF wf_demo, of 0 "[1]" 1] by (simp add: demo_read)
qed

text \<open>The version that should lead with the device's name never does: it is the
  version without it.\<close>

theorem osc_with_device_has_no_device:
  "osc_parameter_string_with_device st i = osc_parameter_string st i"
  by (auto simp: osc_parameter_string_with_device_def osc_parameter_string_def
      osc_address_with_device_rec_def osc_rec_child split: option.split)

text \<open>The address of a node relative to one above it is the names on the way between them,
  separated by slashes (with a slash more when the node's name ends in a colon).\<close>

theorem relative_address_descendant:
  assumes "wf_device st" and "parent_of st r = None" and "path st r as a" and "path st a bs b"
    and "bs \<noteq> []" and "as = [] \<or> name_of st a \<noteq> []"
  shows "relative_address_string_from_nodes st b a =
    Some (join_on CHR ''/'' (map (name_of st) bs)
          @ (if last (slashed st bs) = CHR '':'' then ''/'' else []))"
proof -
  let ?pre = "name_of st r @ '':'' @ slashed st as"
  have ab: "address_rec st a = Some ?pre" using path_address(1)[OF assms(1-3)] .
  then have bb: "address_rec st b = Some (?pre @ slashed st bs)"
    using path_address_rec[OF assms(1,4)] by simp
  have sl: "slashed st bs = CHR ''/'' # join_on CHR ''/'' (map (name_of st) bs)"
    by (rule slashed_join[OF assms(5)])
  have la: "last ?pre = (if as = [] then CHR '':'' else last (name_of st a))" "slashed st as \<noteq> [] \<or> as = []"
  proof -
    show "last ?pre = (if as = [] then CHR '':'' else last (name_of st a))"
    proof (cases as rule: rev_cases)
      case (snoc cs c)
      then show ?thesis using assms(3,6) by auto
    qed simp
    show "slashed st as \<noteq> [] \<or> as = []" by (cases as) auto
  qed
  have nsl: "last (name_of st a) \<noteq> CHR ''/''" if ne: "as \<noteq> []"
  proof -
    obtain cs d where "as = cs @ [a]" "a \<in> set (kids st d)"
      using assms(3) ne by (cases as rule: rev_cases) auto
    then have "CHR ''/'' \<notin> set (name_of st a)"
      using wf_name_valid[OF assms(1)] valid_name_no_slash by blast
    moreover have "name_of st a \<noteq> []" using assms(6) ne by simp
    ultimately show ?thesis using last_in_set by metis
  qed
  obtain pa where pa: "address_string_from_node st a = Some pa"
    "(if last pa \<noteq> CHR ''/'' then pa @ ''/'' else pa) = ?pre @ ''/''"
  proof -
    let ?pa = "if last ?pre = CHR '':'' then ?pre @ ''/'' else ?pre"
    have "address_string_from_node st a = Some ?pa" by (simp add: address_string_from_node_def ab)
    moreover have "(if last ?pa \<noteq> CHR ''/'' then ?pa @ ''/'' else ?pa) = ?pre @ ''/''"
      using la nsl by auto
    ultimately show ?thesis by (rule that)
  qed
  have "address_string_from_node st b = Some (?pre @ slashed st bs
      @ (if last (slashed st bs) = CHR '':'' then ''/'' else []))"
    using sl by (simp add: address_string_from_node_def bb)
  then show ?thesis
    using find_str_prefix[of "?pre @ ''/''"]
    by (simp add: relative_address_string_from_nodes_def pa Let_def sl)
qed

theorem relative_address_descendant_witness:
  "relative_address_string_from_nodes demo_device 1 0 = Some ''foo''"
proof -
  have "path demo_device 0 [1] 1" by (simp add: path_Cons demo_read)
  then show ?thesis
    using relative_address_descendant[OF wf_demo, of 0 "[]" 0 "[1]" 1] by (simp add: demo_read)
qed

end
