(* ===== verification/NodeFunctions.thy ===== *)
theory NodeFunctions
  imports Addresses NatCompare
begin

text \<open>
  Finding and creating nodes by address, address scopes, and listing the nodes below a node
  (network/base/node_functions.cpp). \<open>boost::algorithm::starts_with\<close> and \<open>ends_with\<close> are the
  parameters \<open>sw\<close> and \<open>ew\<close>, \<open>std::ranges::sort\<close> is \<open>sorter\<close>, the comparison of the
  optional priorities of two nodes is \<open>prio_gt\<close>.

  Results: the outer \<open>option\<close> is \<open>None\<close> when the call does not return; \<open>Inl\<close> is an exception, or the
  use of a null pointer.
\<close>

section \<open>Operations\<close>

datatype node_error = Null_dereference | Cannot_create_node

function find_node_rec :: "device \<Rightarrow> nat \<Rightarrow> string \<Rightarrow> nat option" where
  "find_node_rec st node address =
     (case find_first_of CHR ''/'' address of
        Some first_slash_index \<Rightarrow>
          (case find_child st node (take first_slash_index address) of
             Some child \<Rightarrow> find_node_rec st child (drop (first_slash_index + 1) address)
           | None \<Rightarrow> None)
      | None \<Rightarrow> find_child st node address)"
  by pat_completeness auto
termination
  by (relation "measure (\<lambda>(_, _, a). length a)") (auto dest: find_first_of_Some)

function find_or_create_node_rec ::
    "device \<Rightarrow> nat \<Rightarrow> string \<Rightarrow> (node_error + device \<times> nat) option" where
  "find_or_create_node_rec st node address =
     (case find_first_of CHR ''/'' address of
        Some first_slash_index \<Rightarrow>
          (let cur = take first_slash_index address;
               rest = drop (first_slash_index + 1) address
           in case find_child st node cur of
                Some cld \<Rightarrow> find_or_create_node_rec st cld rest
              | None \<Rightarrow>
                  (case create_child st node cur of
                     None \<Rightarrow> None
                   | Some (_, None) \<Rightarrow> Some (Inl Null_dereference)
                   | Some (st1, Some child) \<Rightarrow> find_or_create_node_rec st1 child rest))
      | None \<Rightarrow>
          (case find_child st node address of
             Some n \<Rightarrow> Some (Inr (st, n))
           | None \<Rightarrow>
               (case create_child st node address of
                  None \<Rightarrow> None
                | Some (_, None) \<Rightarrow> Some (Inl Null_dereference)
                | Some (st1, Some n) \<Rightarrow> Some (Inr (st1, n)))))"
  by pat_completeness auto
termination
  by (relation "measure (\<lambda>(_, _, a). length a)") (auto dest: find_first_of_Some)

function create_node_rec :: "device \<Rightarrow> nat \<Rightarrow> string \<Rightarrow> (node_error + device \<times> nat) option" where
  "create_node_rec st node address =
     (case find_first_of CHR ''/'' address of
        Some first_slash_index \<Rightarrow>
          (let cur = take first_slash_index address;
               rest = drop (first_slash_index + 1) address
           in case find_child st node cur of
                Some cld \<Rightarrow> create_node_rec st cld rest
              | None \<Rightarrow>
                  (case create_child st node cur of
                     None \<Rightarrow> None
                   | Some (_, None) \<Rightarrow> Some (Inl Cannot_create_node)
                   | Some (st1, Some child) \<Rightarrow> create_node_rec st1 child rest))
      | None \<Rightarrow>
          (case create_child st node address of
             None \<Rightarrow> None
           | Some (_, None) \<Rightarrow> Some (Inl Cannot_create_node)
           | Some (st1, Some child) \<Rightarrow> Some (Inr (st1, child))))"
  by pat_completeness auto
termination
  by (relation "measure (\<lambda>(_, _, a). length a)") (auto dest: find_first_of_Some)

declare find_node_rec.simps [simp del] find_or_create_node_rec.simps [simp del]
  create_node_rec.simps [simp del]

text \<open>\<open>sanitize_address\<close>: its two loops.\<close>

fun remove_prefix_loop :: "(string \<Rightarrow> string \<Rightarrow> bool) \<Rightarrow> string \<Rightarrow> string" where
  "remove_prefix_loop sw [] = []"
| "remove_prefix_loop sw (c # s) =
     (if sw (c # s) ''/'' then remove_prefix_loop sw s else c # s)"

function remove_suffix_loop :: "(string \<Rightarrow> string \<Rightarrow> bool) \<Rightarrow> string \<Rightarrow> string" where
  "remove_suffix_loop ew s =
     (if s \<noteq> [] \<and> ew s ''/'' then remove_suffix_loop ew (butlast s) else s)"
  by pat_completeness auto
termination
  by (relation "measure (\<lambda>(_, s). length s)") auto

declare remove_suffix_loop.simps [simp del]

definition sanitize_address ::
    "(string \<Rightarrow> string \<Rightarrow> bool) \<Rightarrow> (string \<Rightarrow> string \<Rightarrow> bool) \<Rightarrow> string \<Rightarrow> string" where
  "sanitize_address sw ew address = remove_suffix_loop ew (remove_prefix_loop sw address)"

definition find_node ::
    "(string \<Rightarrow> string \<Rightarrow> bool) \<Rightarrow> (string \<Rightarrow> string \<Rightarrow> bool) \<Rightarrow> device \<Rightarrow> nat \<Rightarrow> string \<Rightarrow> nat option" where
  "find_node sw ew st dev address0 =
     (let address = sanitize_address sw ew address0
      in if address = [] then Some dev else find_node_rec st dev address)"

definition find_or_create_node ::
    "(string \<Rightarrow> string \<Rightarrow> bool) \<Rightarrow> (string \<Rightarrow> string \<Rightarrow> bool) \<Rightarrow> device \<Rightarrow> nat \<Rightarrow> string
     \<Rightarrow> (node_error + device \<times> nat) option" where
  "find_or_create_node sw ew st node address0 =
     (let address = sanitize_address sw ew address0
      in if address = [] then Some (Inr (st, node)) else find_or_create_node_rec st node address)"

definition create_node ::
    "(string \<Rightarrow> string \<Rightarrow> bool) \<Rightarrow> (string \<Rightarrow> string \<Rightarrow> bool) \<Rightarrow> device \<Rightarrow> nat \<Rightarrow> string
     \<Rightarrow> (node_error + device \<times> nat) option" where
  "create_node sw ew st node address0 =
     (let address = sanitize_address sw ew address0
      in create_node_rec st node (if address = [] then ''node'' else address))"

text \<open>The overload with the flag \<open>reading\<close>: its result may be null.\<close>

definition find_or_create_node_reading ::
    "(string \<Rightarrow> string \<Rightarrow> bool) \<Rightarrow> (string \<Rightarrow> string \<Rightarrow> bool) \<Rightarrow> device \<Rightarrow> nat \<Rightarrow> string \<Rightarrow> bool
     \<Rightarrow> (node_error + device \<times> nat option) option" where
  "find_or_create_node_reading sw ew st dev address reading =
     (if reading then Some (Inr (st, find_node sw ew st dev address))
      else map_option (map_sum id (map_prod id Some)) (create_node sw ew st dev address))"

datatype address_scope = Relative | Absolute | Global

definition get_address_scope :: "(string \<Rightarrow> string \<Rightarrow> bool) \<Rightarrow> string \<Rightarrow> address_scope" where
  "get_address_scope sw addr =
     (if sw addr ''//'' then Relative
      else if sw addr ''/'' then Absolute
      else
        (case find_first_of CHR ''/'' addr of
           Some first_slash \<Rightarrow>
             if first_slash > 1 \<and> addr ! (first_slash - 1) = CHR '':'' then Global else Relative
         | None \<Rightarrow> Relative))"

section \<open>What the parameters do\<close>

definition starts_doc :: "(string \<Rightarrow> string \<Rightarrow> bool) \<Rightarrow> bool" where
  "starts_doc sw \<longleftrightarrow> (\<forall>s p. sw s p \<longleftrightarrow> (\<exists>t. s = p @ t))"

definition ends_doc :: "(string \<Rightarrow> string \<Rightarrow> bool) \<Rightarrow> bool" where
  "ends_doc ew \<longleftrightarrow> (\<forall>s p. ew s p \<longleftrightarrow> (\<exists>t. s = t @ p))"

definition starts_ref :: "string \<Rightarrow> string \<Rightarrow> bool" where
  "starts_ref s p \<longleftrightarrow> take (length p) s = p"

definition ends_ref :: "string \<Rightarrow> string \<Rightarrow> bool" where
  "ends_ref s p \<longleftrightarrow> length p \<le> length s \<and> drop (length s - length p) s = p"

lemma starts_ref_doc: "starts_doc starts_ref"
  by (auto simp: starts_doc_def starts_ref_def) (metis append_take_drop_id)

lemma ends_ref_doc: "ends_doc ends_ref"
  by (auto simp: ends_doc_def ends_ref_def) (metis append_take_drop_id)

lemma starts_slash: "starts_doc sw \<Longrightarrow> sw s ''/'' \<longleftrightarrow> s \<noteq> [] \<and> hd s = CHR ''/''"
  by (auto simp: starts_doc_def neq_Nil_conv)

lemma ends_slash: "ends_doc ew \<Longrightarrow> ew s ''/'' \<longleftrightarrow> s \<noteq> [] \<and> last s = CHR ''/''"
  by (auto simp: ends_doc_def) (metis append_butlast_last_id)

lemma remove_prefix_loop_eq:
  "starts_doc sw \<Longrightarrow> remove_prefix_loop sw s = dropWhile (\<lambda>c. c = CHR ''/'') s"
  by (induction s) (auto simp: starts_slash)

lemma remove_suffix_loop_eq:
  "ends_doc ew \<Longrightarrow> remove_suffix_loop ew s = rev (dropWhile (\<lambda>c. c = CHR ''/'') (rev s))"
proof (induction s rule: rev_induct)
  case (snoc c s)
  then show ?case by (subst remove_suffix_loop.simps) (auto simp: ends_slash)
qed (simp add: remove_suffix_loop.simps)

definition trim_slashes :: "string \<Rightarrow> string" where
  "trim_slashes s =
     rev (dropWhile (\<lambda>c. c = CHR ''/'') (rev (dropWhile (\<lambda>c. c = CHR ''/'') s)))"

lemma sanitize_address_eq:
  "starts_doc sw \<Longrightarrow> ends_doc ew \<Longrightarrow> sanitize_address sw ew s = trim_slashes s"
  by (simp add: sanitize_address_def trim_slashes_def remove_prefix_loop_eq remove_suffix_loop_eq)

lemma trim_slashes_id: "s = [] \<or> (hd s \<noteq> CHR ''/'' \<and> last s \<noteq> CHR ''/'') \<Longrightarrow> trim_slashes s = s"
proof (cases "s = []")
  case False
  assume "s = [] \<or> (hd s \<noteq> CHR ''/'' \<and> last s \<noteq> CHR ''/'')"
  with False have e: "hd s \<noteq> CHR ''/''" "last s \<noteq> CHR ''/''" by auto
  have "dropWhile (\<lambda>c. c = CHR ''/'') s = s" using e False by (cases s) auto
  moreover have "dropWhile (\<lambda>c. c = CHR ''/'') (rev s) = rev s"
    using e False by (cases s rule: rev_cases) auto
  ultimately show ?thesis by (simp add: trim_slashes_def)
qed (simp add: trim_slashes_def)

lemma trim_slashes_Cons: "trim_slashes (CHR ''/'' # s) = trim_slashes s"
  by (simp add: trim_slashes_def)

section \<open>Finding\<close>

lemma find_child_Some: "find_child st a name = Some c \<Longrightarrow> c \<in> set (kids st a) \<and> name_of st c = name"
  unfolding find_child_def by (rule find_SomeD)

lemma find_child_None: "find_child st a name = None \<longleftrightarrow> name \<notin> set (children_names st a)"
  by (auto simp: find_child_def find_None_iff children_names_def)

lemma find_child_unique:
  assumes wf: "wf_device st" and c: "c \<in> set (kids st a)"
  shows "find_child st a (name_of st c) = Some c"
proof (cases "find_child st a (name_of st c)")
  case None
  then show ?thesis using c by (auto simp: find_child_None children_names_def)
next
  case (Some d)
  then have "d \<in> set (kids st a)" "name_of st d = name_of st c" by (auto dest: find_child_Some)
  then have "d = c"
    using wf_names_distinct[OF wf, of a] c by (auto simp: children_names_def distinct_map inj_on_def)
  then show ?thesis using Some by simp
qed

lemma find_rec_last: "CHR ''/'' \<notin> set s \<Longrightarrow> find_node_rec st a s = find_child st a s"
  by (simp add: find_node_rec.simps[of st a s] find_first_of_absent)

lemma find_rec_step:
  "CHR ''/'' \<notin> set s \<Longrightarrow> find_node_rec st a (s @ CHR ''/'' # t) =
     (case find_child st a s of Some c \<Rightarrow> find_node_rec st c t | None \<Rightarrow> None)"
  by (cases "find_child st a s")
     (simp_all add: find_node_rec.simps[of st a "s @ CHR ''/'' # t"] find_first_of_append)

lemma find_rec_path:
  assumes wf: "wf_device st"
  shows "path st a (c # ns) b \<Longrightarrow>
    find_node_rec st a (join_on CHR ''/'' (map (name_of st) (c # ns))) = Some b"
proof (induction ns arbitrary: a c)
  case Nil
  then have c: "c \<in> set (kids st a)" "b = c" by (auto simp: path_Cons)
  then show ?case
    using find_child_unique[OF wf c(1)] valid_name_no_slash[OF wf_name_valid[OF wf c(1)]]
    by (simp add: find_rec_last)
next
  case (Cons d ns)
  then have c: "c \<in> set (kids st a)" "path st c (d # ns) b" by (auto simp: path_Cons)
  then show ?case
    using find_child_unique[OF wf c(1)] valid_name_no_slash[OF wf_name_valid[OF wf c(1)]]
      Cons.IH[OF c(2)] by (simp add: find_rec_step)
qed

lemma find_rec_sound:
  "find_node_rec st a s = Some b \<Longrightarrow>
   \<exists>ns. ns \<noteq> [] \<and> path st a ns b \<and> join_on CHR ''/'' (map (name_of st) ns) = s"
proof (induction st a s rule: find_node_rec.induct)
  case (1 st a s)
  show ?case
  proof (cases "find_first_of CHR ''/'' s")
    case None
    then have "find_child st a s = Some b" using "1.prems" by (simp add: find_rec_last)
    then show ?thesis by (intro exI[of _ "[b]"]) (auto dest!: find_child_Some simp: path_Cons)
  next
    case (Some k)
    then have k: "k < length s" "s ! k = CHR ''/''" "CHR ''/'' \<notin> set (take k s)"
      using find_first_of_Some by auto
    obtain c where c: "find_child st a (take k s) = Some c"
      "find_node_rec st c (drop (k + 1) s) = Some b"
      using "1.prems" Some by (auto simp: find_node_rec.simps[of st a s] split: option.splits)
    from "1.IH"[OF Some c] obtain ns where ns: "ns \<noteq> []" "path st c ns b"
      "join_on CHR ''/'' (map (name_of st) ns) = drop (k + 1) s" by blast
    have "s = take k s @ CHR ''/'' # drop (k + 1) s"
      using k by (metis Suc_eq_plus1 id_take_nth_drop)
    then show ?thesis
      using c(1) ns by (intro exI[of _ "c # ns"], cases ns) (auto dest!: find_child_Some simp: path_Cons)
  qed
qed

section \<open>Creating\<close>

text \<open>Nodes, names and children are only added.\<close>

definition extends :: "device \<Rightarrow> device \<Rightarrow> bool" where
  "extends st st' \<longleftrightarrow> (\<forall>x. nodes st x \<noteq> None \<longrightarrow> nodes st' x \<noteq> None \<and> name_of st' x = name_of st x
     \<and> set (kids st x) \<subseteq> set (kids st' x))"

lemma extends_refl [simp]: "extends st st"
  by (simp add: extends_def)

lemma extends_trans: "extends st st1 \<Longrightarrow> extends st1 st2 \<Longrightarrow> extends st st2"
  unfolding extends_def by (metis subset_trans)

lemma find_child_extends:
  assumes "extends st st'" and "wf_device st" and "wf_device st'" and "nodes st a \<noteq> None"
    and "find_child st a name = Some c"
  shows "find_child st' a name = Some c" and "nodes st' c \<noteq> None" and "nodes st c \<noteq> None"
proof -
  have c: "c \<in> set (kids st a)" "name_of st c = name" using find_child_Some[OF assms(5)] by auto
  show n: "nodes st c \<noteq> None" using wf_child_node[OF assms(2) c(1)] .
  then show "nodes st' c \<noteq> None" using assms(1) by (simp add: extends_def)
  have "c \<in> set (kids st' a)" "name_of st' c = name"
    using assms(1,4) c n by (auto simp: extends_def)
  then show "find_child st' a name = Some c" using find_child_unique[OF assms(3)] by blast
qed

definition sound_device :: "device \<Rightarrow> bool" where
  "sound_device st \<longleftrightarrow> wf_device st \<and> cache_ok st \<and> can_change_tree st"

lemma create_child_sound:
  assumes s: "sound_device st" and a: "nodes st a \<noteq> None" and left: "instances_left name (children_names st a)"
  shows "\<exists>st1. create_child st a name = Some (st1, Some (next_id st)) \<and> sound_device st1 \<and> extends st st1
    \<and> nodes st (next_id st) = None \<and> nodes st1 (next_id st) \<noteq> None
    \<and> next_id st \<in> set (kids st1 a) \<and> kids st1 (next_id st) = []
    \<and> (valid_name name \<and> name \<notin> set (children_names st a) \<longrightarrow> name_of st1 (next_id st) = name)"
proof -
  let ?nm = "sanitize_name_children name (children_names st a)" and ?j = "next_id st"
  have wf: "wf_device st" "cache_ok st" "can_change_tree st" using s by (auto simp: sound_device_def)
  obtain os where os: "osc_address_rec st a = Some os" and c: "create_child st a name =
      Some (grown st a ?nm (os @ ''/'' @ ?nm), Some ?j)"
    using create_child_grown[OF wf(1) a wf(3)] by blast
  have new: "?nm \<notin> set (children_names st a)" "valid_name ?nm"
    using sanitize_name_new[OF left] by (simp_all add: sanitize_children_eq)
  have j: "a \<noteq> ?j" "nodes st ?j = None" using wf_bound[OF wf(1)] a by blast+
  let ?g = "grown st a ?nm (os @ ''/'' @ ?nm)"
  have "extends st ?g"
    using j by (auto simp: extends_def grown_read[OF j(1) a] grown_nodes[OF j(1)])
  moreover have "sound_device ?g"
    using wf_grown[OF wf(1) a new] cache_grown[OF wf(1) a wf(2) os] wf(3)
    by (simp add: sound_device_def grown_read[OF j(1) a])
  moreover have "?nm = name" if "valid_name name" "name \<notin> set (children_names st a)"
    using that by (simp add: sanitize_children_eq sanitize_name_unfold sanitize_chars_id)
  ultimately show ?thesis
    using c j by (intro exI[of _ ?g]) (simp add: grown_read[OF j(1) a] grown_nodes[OF j(1)])
qed

text \<open>For a valid name that is free, the instance numbers do not matter.\<close>

lemma create_child_valid:
  assumes s: "sound_device st" and a: "nodes st a \<noteq> None"
    and v: "valid_name name" "name \<notin> set (children_names st a)"
  shows "\<exists>st1. create_child st a name = Some (st1, Some (next_id st)) \<and> sound_device st1 \<and> extends st st1
    \<and> nodes st (next_id st) = None \<and> nodes st1 (next_id st) \<noteq> None
    \<and> next_id st \<in> set (kids st1 a) \<and> kids st1 (next_id st) = [] \<and> name_of st1 (next_id st) = name"
proof -
  let ?j = "next_id st"
  have wf: "wf_device st" "cache_ok st" "can_change_tree st" using s by (auto simp: sound_device_def)
  have nm: "sanitize_name_children name (children_names st a) = name"
    using v by (simp add: sanitize_children_eq sanitize_name_unfold sanitize_chars_id)
  obtain os where os: "osc_address_rec st a = Some os" and c: "create_child st a name =
      Some (grown st a name (os @ ''/'' @ name), Some ?j)"
    using create_child_grown[OF wf(1) a wf(3), of name] by (auto simp: nm)
  have j: "a \<noteq> ?j" "nodes st ?j = None" using wf_bound[OF wf(1)] a by blast+
  let ?g = "grown st a name (os @ ''/'' @ name)"
  have "extends st ?g"
    using j by (auto simp: extends_def grown_read[OF j(1) a] grown_nodes[OF j(1)])
  moreover have "sound_device ?g"
    using wf_grown[OF wf(1) a v(2,1)] cache_grown[OF wf(1) a wf(2) os] wf(3)
    by (simp add: sound_device_def grown_read[OF j(1) a])
  ultimately show ?thesis
    using c j by (intro exI[of _ ?g]) (simp add: grown_read[OF j(1) a] grown_nodes[OF j(1)])
qed

text \<open>Addresses whose parts are valid names.\<close>

definition valid_address :: "string \<Rightarrow> bool" where
  "valid_address s \<longleftrightarrow> list_all (\<lambda>c. is_valid_character_for_name c \<or> c = CHR ''/'') s"

lemma valid_address_split:
  assumes "valid_address s" and "find_first_of CHR ''/'' s = Some k"
  shows "valid_name (take k s)" and "valid_address (drop (k + 1) s)"
  using assms find_first_of_Some[OF assms(2)]
  by (auto simp: valid_address_def valid_name_def list_all_iff dest: in_set_takeD in_set_dropD)

lemma valid_address_name: "valid_address s \<Longrightarrow> CHR ''/'' \<notin> set s \<Longrightarrow> valid_name s"
  by (auto simp: valid_address_def valid_name_def list_all_iff)

lemma find_rec_split:
  "find_first_of CHR ''/'' s = Some k \<Longrightarrow> find_node_rec st a s =
     (case find_child st a (take k s) of Some c \<Rightarrow> find_node_rec st c (drop (k + 1) s) | None \<Rightarrow> None)"
  by (simp add: find_node_rec.simps[of st a s])

lemma find_or_create_rec:
  "sound_device st \<Longrightarrow> nodes st a \<noteq> None \<Longrightarrow> valid_address s \<Longrightarrow>
   \<exists>st' b. find_or_create_node_rec st a s = Some (Inr (st', b)) \<and> sound_device st' \<and> extends st st'
     \<and> nodes st' b \<noteq> None \<and> find_node_rec st' a s = Some b \<and> (find_node_rec st a s \<noteq> None \<longrightarrow> st' = st)"
proof (induction st a s rule: find_or_create_node_rec.induct)
  case (1 st a s)
  note wf = "1.prems"(1)[unfolded sound_device_def]
  show ?case
  proof (cases "find_first_of CHR ''/'' s")
    case None
    then have nos: "CHR ''/'' \<notin> set s" by simp
    show ?thesis
    proof (cases "find_child st a s")
      case (Some n)
      moreover have "nodes st n \<noteq> None"
        using find_child_Some[OF Some] wf wf_child_node by blast
      ultimately show ?thesis
        using "1.prems" Some
        by (simp add: find_or_create_node_rec.simps[of st a s] find_rec_last[OF nos]
            find_first_of_absent[OF nos])
    next
      case fc: None
      have "valid_name s" using valid_address_name "1.prems"(3) nos by blast
      from create_child_valid[OF "1.prems"(1,2) this] obtain st1 where
        c: "create_child st a s = Some (st1, Some (next_id st))" "sound_device st1" "extends st st1"
          "nodes st1 (next_id st) \<noteq> None" "next_id st \<in> set (kids st1 a)" "name_of st1 (next_id st) = s"
        using fc by (auto simp: find_child_None)
      then have "find_child st1 a s = Some (next_id st)"
        using find_child_unique[of st1 "next_id st" a] by (simp add: sound_device_def)
      then show ?thesis
        using c fc by (simp add: find_or_create_node_rec.simps[of st a s] find_rec_last[OF nos]
            find_first_of_absent[OF nos])
    qed
  next
    case (Some k)
    note v = valid_address_split[OF "1.prems"(3) Some]
    show ?thesis
    proof (cases "find_child st a (take k s)")
      case fc: (Some cld)
      have n: "nodes st cld \<noteq> None" using find_child_Some[OF fc] wf wf_child_node by blast
      from "1.IH"(2)[OF Some refl refl fc "1.prems"(1) n v(2)] obtain st' b where
        r: "find_or_create_node_rec st cld (drop (k + 1) s) = Some (Inr (st', b))" "sound_device st'"
          "extends st st'" "nodes st' b \<noteq> None" "find_node_rec st' cld (drop (k + 1) s) = Some b"
          "find_node_rec st cld (drop (k + 1) s) \<noteq> None \<longrightarrow> st' = st"
        by blast
      have "find_child st' a (take k s) = Some cld"
        using find_child_extends(1)[OF r(3) _ _ "1.prems"(2) fc] wf r(2) by (simp add: sound_device_def)
      moreover have "find_or_create_node_rec st a s = Some (Inr (st', b))"
        using r(1) Some fc by (simp add: find_or_create_node_rec.simps[of st a s] Let_def)
      ultimately show ?thesis
        using r fc find_rec_split[OF Some, of st a] find_rec_split[OF Some, of st' a] by auto
    next
      case fc: None
      from create_child_valid[OF "1.prems"(1,2) v(1)] obtain st1 where
        c: "create_child st a (take k s) = Some (st1, Some (next_id st))" "sound_device st1" "extends st st1"
          "nodes st1 (next_id st) \<noteq> None" "next_id st \<in> set (kids st1 a)"
          "name_of st1 (next_id st) = take k s"
        using fc by (auto simp: find_child_None)
      from "1.IH"(1)[OF Some refl refl fc c(1) refl refl c(2,4) v(2)] obtain st' b where
        r: "find_or_create_node_rec st1 (next_id st) (drop (k + 1) s) = Some (Inr (st', b))" "sound_device st'"
          "extends st1 st'" "nodes st' b \<noteq> None" "find_node_rec st' (next_id st) (drop (k + 1) s) = Some b"
        by blast
      have wf1: "wf_device st1" "wf_device st'" using c(2) r(2) by (auto simp: sound_device_def)
      have "find_child st1 a (take k s) = Some (next_id st)"
        using find_child_unique[OF wf1(1) c(5)] c(6) by simp
      moreover have "nodes st1 a \<noteq> None" using c(3) "1.prems"(2) by (simp add: extends_def)
      ultimately have "find_child st' a (take k s) = Some (next_id st)"
        using find_child_extends(1)[OF r(3) wf1] by blast
      moreover have "find_or_create_node_rec st a s = Some (Inr (st', b))"
        using r(1) Some fc c(1) by (simp add: find_or_create_node_rec.simps[of st a s] Let_def)
      ultimately show ?thesis
        using r fc find_rec_split[OF Some, of st a] find_rec_split[OF Some, of st' a]
          extends_trans[OF c(3) r(3)] by auto
    qed
  qed
qed

text \<open>Under a node without children, creating and finding or creating are the same, and the
  instance numbers do not matter.\<close>

lemma find_rec_leaf: "kids st a = [] \<Longrightarrow> find_node_rec st a s = None"
  by (simp add: find_node_rec.simps[of st a s] find_child_def split: option.split)

lemma create_rec_new:
  "sound_device st \<Longrightarrow> nodes st a \<noteq> None \<Longrightarrow> kids st a = [] \<Longrightarrow> valid_address s \<Longrightarrow>
   \<exists>st' b. create_node_rec st a s = Some (Inr (st', b)) \<and> sound_device st' \<and> extends st st'
     \<and> nodes st b = None \<and> nodes st' b \<noteq> None \<and> find_node_rec st' a s = Some b"
proof (induction "length s" arbitrary: st a s rule: less_induct)
  case less
  have noc: "find_child st a n = None" for n using less.prems(3) by (simp add: find_child_def)
  have nn: "n \<notin> set (children_names st a)" for n using less.prems(3) by (simp add: children_names_def)
  show ?case
  proof (cases "find_first_of CHR ''/'' s")
    case None
    then have nos: "CHR ''/'' \<notin> set s" by simp
    have "valid_name s" using valid_address_name less.prems(4) nos by blast
    from create_child_valid[OF less.prems(1,2) this nn] obtain st1 where
      c: "create_child st a s = Some (st1, Some (next_id st))" "sound_device st1" "extends st st1"
        "nodes st (next_id st) = None" "nodes st1 (next_id st) \<noteq> None"
        "next_id st \<in> set (kids st1 a)" "name_of st1 (next_id st) = s"
      by blast
    then have "find_child st1 a s = Some (next_id st)"
      using find_child_unique[of st1 "next_id st" a] by (simp add: sound_device_def)
    then show ?thesis
      using c by (simp add: create_node_rec.simps[of st a s] find_rec_last[OF nos] find_first_of_absent[OF nos])
  next
    case (Some k)
    note v = valid_address_split[OF less.prems(4) Some]
    have shorter: "length (drop (k + 1) s) < length s" using find_first_of_Some[OF Some] by auto
    from create_child_valid[OF less.prems(1,2) v(1) nn] obtain st1 where
      c: "create_child st a (take k s) = Some (st1, Some (next_id st))" "sound_device st1" "extends st st1"
        "nodes st1 (next_id st) \<noteq> None" "next_id st \<in> set (kids st1 a)"
        "name_of st1 (next_id st) = take k s" "kids st1 (next_id st) = []"
      by blast
    from less.hyps[OF shorter c(2,4,7) v(2)] obtain st' b where
      r: "create_node_rec st1 (next_id st) (drop (k + 1) s) = Some (Inr (st', b))" "sound_device st'"
        "extends st1 st'" "nodes st1 b = None" "nodes st' b \<noteq> None"
        "find_node_rec st' (next_id st) (drop (k + 1) s) = Some b"
      by blast
    have wf1: "wf_device st1" "wf_device st'" using c(2) r(2) by (auto simp: sound_device_def)
    have "find_child st1 a (take k s) = Some (next_id st)"
      using find_child_unique[OF wf1(1) c(5)] c(6) by simp
    moreover have "nodes st1 a \<noteq> None" using c(3) less.prems(2) by (simp add: extends_def)
    ultimately have "find_child st' a (take k s) = Some (next_id st)"
      using find_child_extends(1)[OF r(3) wf1] by blast
    moreover have "create_node_rec st a s = Some (Inr (st', b))"
      using r(1) Some noc c(1) by (simp add: create_node_rec.simps[of st a s] Let_def)
    moreover have "nodes st b = None" using c(3) r(4) by (auto simp: extends_def)
    ultimately show ?thesis
      using r find_rec_split[OF Some, of st' a] extends_trans[OF c(3) r(3)] by auto
  qed
qed

lemma path_in_kids: "path st a ns b \<Longrightarrow> n \<in> set ns \<Longrightarrow> \<exists>x. n \<in> set (kids st x)"
  by (induction rule: path.induct) auto

lemma join_ends:
  "xs \<noteq> [] \<Longrightarrow> \<forall>x\<in>set xs. x \<noteq> [] \<and> hd x \<noteq> c \<and> last x \<noteq> c \<Longrightarrow>
   join_on d xs \<noteq> [] \<and> hd (join_on d xs) \<noteq> c \<and> last (join_on d xs) \<noteq> c"
  by (induction d xs rule: join_on.induct) auto

lemma sound_demo: "sound_device demo_device"
  using wf_demo cache_demo demo_read(4) by (simp add: sound_device_def)

lemma demo_left: "instances_left name (children_names demo_device x)"
proof -
  have "instance_of root ''foo'' = None" for root
  proof -
    have "root = take (length root) ''foo'' \<Longrightarrow> length root < 3 \<Longrightarrow> ''foo'' ! length root \<noteq> CHR ''.''"
      by (cases "length root" rule: nat.exhaust; cases "length root - 1"; cases "length root - 2") auto
    then show ?thesis by (auto simp: instance_of_def)
  qed
  then show ?thesis by (simp add: instances_left_def children_names_def demo_read)
qed

text \<open>\<open>create_node_rec\<close> adds a node at the end of the path even when one is there.\<close>

lemma create_rec:
  "sound_device st \<Longrightarrow> nodes st a \<noteq> None \<Longrightarrow> valid_address s \<Longrightarrow>
   \<forall>x name. nodes st x \<noteq> None \<longrightarrow> instances_left name (children_names st x) \<Longrightarrow>
   \<exists>st' b. create_node_rec st a s = Some (Inr (st', b)) \<and> sound_device st' \<and> extends st st'
     \<and> nodes st b = None \<and> nodes st' b \<noteq> None \<and> (find_node_rec st a s = None \<longrightarrow> find_node_rec st' a s = Some b)"
proof (induction "length s" arbitrary: st a s rule: less_induct)
  case less
  note wf = less.prems(1)[unfolded sound_device_def]
  show ?case
  proof (cases "find_first_of CHR ''/'' s")
    case None
    then have nos: "CHR ''/'' \<notin> set s" by simp
    have "valid_name s" using valid_address_name less.prems(3) nos by blast
    with create_child_sound[OF less.prems(1,2) less.prems(4)[rule_format, OF less.prems(2)], of s] obtain st1 where
      c: "create_child st a s = Some (st1, Some (next_id st))" "sound_device st1" "extends st st1"
        "nodes st (next_id st) = None" "nodes st1 (next_id st) \<noteq> None" "next_id st \<in> set (kids st1 a)"
        "s \<notin> set (children_names st a) \<longrightarrow> name_of st1 (next_id st) = s"
      by auto
    have "find_child st1 a s = Some (next_id st)" if "find_child st a s = None"
      using that c(7) find_child_unique[OF _ c(6)] c(2) by (auto simp: find_child_None sound_device_def)
    then show ?thesis
      using c by (simp add: create_node_rec.simps[of st a s] find_rec_last[OF nos] find_first_of_absent[OF nos])
  next
    case (Some k)
    note v = valid_address_split[OF less.prems(3) Some]
    have shorter: "length (drop (k + 1) s) < length s" using find_first_of_Some[OF Some] by auto
    show ?thesis
    proof (cases "find_child st a (take k s)")
      case fc: (Some cld)
      have n: "nodes st cld \<noteq> None" using find_child_Some[OF fc] wf wf_child_node by blast
      from less.hyps[OF shorter less.prems(1) n v(2) less.prems(4)] obtain st' b where
        r: "create_node_rec st cld (drop (k + 1) s) = Some (Inr (st', b))" "sound_device st'"
          "extends st st'" "nodes st b = None" "nodes st' b \<noteq> None"
          "find_node_rec st cld (drop (k + 1) s) = None \<longrightarrow> find_node_rec st' cld (drop (k + 1) s) = Some b"
        by (elim exE conjE) (rule that)
      have "find_child st' a (take k s) = Some cld"
        using find_child_extends(1)[OF r(3) _ _ less.prems(2) fc] wf r(2) by (simp add: sound_device_def)
      moreover have "create_node_rec st a s = Some (Inr (st', b))"
        using r(1) Some fc by (simp add: create_node_rec.simps[of st a s] Let_def)
      ultimately show ?thesis
        using r fc find_rec_split[OF Some, of st a] find_rec_split[OF Some, of st' a] by auto
    next
      case fc: None
      from create_child_valid[OF less.prems(1,2) v(1)] obtain st1 where
        c: "create_child st a (take k s) = Some (st1, Some (next_id st))" "sound_device st1" "extends st st1"
          "nodes st1 (next_id st) \<noteq> None" "next_id st \<in> set (kids st1 a)"
          "name_of st1 (next_id st) = take k s" "kids st1 (next_id st) = []"
        using fc by (auto simp: find_child_None)
      obtain st' b where
        r: "create_node_rec st1 (next_id st) (drop (k + 1) s) = Some (Inr (st', b))" "sound_device st'"
          "extends st1 st'" "nodes st1 b = None" "nodes st' b \<noteq> None"
          "find_node_rec st' (next_id st) (drop (k + 1) s) = Some b"
        using create_rec_new[OF c(2,4,7) v(2)] by blast
      have wf1: "wf_device st1" "wf_device st'" using c(2) r(2) by (auto simp: sound_device_def)
      have "find_child st1 a (take k s) = Some (next_id st)"
        using find_child_unique[OF wf1(1) c(5)] c(6) by simp
      moreover have "nodes st1 a \<noteq> None" using c(3) less.prems(2) by (simp add: extends_def)
      ultimately have "find_child st' a (take k s) = Some (next_id st)"
        using find_child_extends(1)[OF r(3) wf1] by blast
      moreover have "create_node_rec st a s = Some (Inr (st', b))"
        using r(1) Some fc c(1) by (simp add: create_node_rec.simps[of st a s] Let_def)
      moreover have "nodes st b = None" using c(3) r(4) by (auto simp: extends_def)
      ultimately show ?thesis
        using r find_rec_split[OF Some, of st' a] extends_trans[OF c(3) r(3)] by auto
    qed
  qed
qed

section \<open>Properties\<close>

lemma path_trans: "path st b ms c \<Longrightarrow> path st a ns b \<Longrightarrow> path st a (ns @ ms) c"
proof (induction rule: path.induct)
  case (path_down x ms b c)
  then show ?case using path_snoc_iff[of st a "ns @ ms" c c] by (auto simp flip: append_assoc)
qed simp

lemma trim_slashes_snoc: "s \<noteq> [] \<Longrightarrow> hd s \<noteq> CHR ''/'' \<Longrightarrow> last s \<noteq> CHR ''/'' \<Longrightarrow> trim_slashes (s @ ''/'') = s"
  using trim_slashes_id[of s] by (cases s) (simp_all add: trim_slashes_def)

lemma find_node_spelled:
  assumes "starts_doc sw" "ends_doc ew" "wf_device st" "path st a ns b" "trim_slashes s = join_on CHR ''/'' (map (name_of st) ns)"
    "\<forall>n\<in>set ns. name_of st n \<noteq> []"
  shows "find_node sw ew st a s = Some b"
proof (cases ns)
  case Nil
  then show ?thesis using assms by (simp add: find_node_def sanitize_address_eq)
next
  case (Cons c ms)
  have "join_on CHR ''/'' (map (name_of st) ns) \<noteq> []"
    using Cons assms(6) join_ends[of "map (name_of st) ns" "CHR 0x00"] by (cases ms) auto
  then show ?thesis
    using assms(4,5) find_rec_path[OF assms(3), of a c ms b] Cons
    by (simp add: find_node_def sanitize_address_eq[OF assms(1,2)])
qed

text \<open>The names on a path, joined by slashes, with one slash or none on either side.\<close>

lemma trim_spelled:
  assumes "wf_device st" "path st a ns b" "\<forall>n\<in>set ns. name_of st n \<noteq> []" "ns \<noteq> []"
    "u = [] \<or> u = ''/''" "v = [] \<or> v = ''/''"
  shows "trim_slashes (u @ join_on CHR ''/'' (map (name_of st) ns) @ v) = join_on CHR ''/'' (map (name_of st) ns)"
proof -
  let ?j = "join_on CHR ''/'' (map (name_of st) ns)"
  have ok: "name_of st n \<noteq> [] \<and> hd (name_of st n) \<noteq> CHR ''/'' \<and> last (name_of st n) \<noteq> CHR ''/''"
    if "n \<in> set ns" for n
  proof -
    have "\<exists>x. n \<in> set (kids st x)" using path_in_kids[OF assms(2) that] .
    then have "CHR ''/'' \<notin> set (name_of st n)"
      using wf_name_valid[OF assms(1)] valid_name_no_slash by blast
    moreover have ne: "name_of st n \<noteq> []" using assms(3) that by blast
    ultimately show ?thesis using hd_in_set[OF ne] last_in_set[OF ne] by metis
  qed
  have "?j \<noteq> []" "hd ?j \<noteq> CHR ''/''" "last ?j \<noteq> CHR ''/''"
    using join_ends[of "map (name_of st) ns"] ok assms(4) by auto
  then show ?thesis using assms(5,6) by (auto simp: trim_slashes_Cons trim_slashes_snoc trim_slashes_id)
qed

text \<open>C33: \<open>find_node\<close> is the inverse of the functions that give addresses, as long as no name on
  the way is empty: from the root, the OSC parameter string of a node finds that node; from any node, the
  names on the way down, each after a slash, find the node at the end of it, and so does its relative
  address.\<close>

theorem find_node_of_address:
  assumes "starts_doc sw" and "ends_doc ew" and "wf_device st" and "parent_of st r = None"
    and "path st r as a" and "path st a bs b" and "\<forall>n\<in>set (as @ bs). name_of st n \<noteq> []"
  shows "(\<exists>s. osc_parameter_string st b = Some s \<and> find_node sw ew st r s = Some b)
    \<and> find_node sw ew st a (slashed st bs) = Some b
    \<and> (bs \<noteq> [] \<longrightarrow> (\<exists>s. relative_address_string_from_nodes st b a = Some s \<and> find_node sw ew st a s = Some b))"
proof -
  have rb: "path st r (as @ bs) b" by (rule path_trans[OF assms(6,5)])
  have down: "find_node sw ew st x (slashed st ns) = Some y" if "path st x ns y" "\<forall>n\<in>set ns. name_of st n \<noteq> []" for x ns y
    using find_node_spelled[OF assms(1-3) that(1) _ that(2), of "slashed st ns"] trim_spelled[OF assms(3) that, of "''/''" "[]"]
    by (cases "ns = []") (simp_all add: slashed_join trim_slashes_def del: slashed_simps(2))
  have "find_node sw ew st r ''/'' = Some r"
    using find_node_spelled[OF assms(1-3), of r "[]" r "''/''"] by (simp add: trim_slashes_def)
  then have root: "\<exists>s. osc_parameter_string st b = Some s \<and> find_node sw ew st r s = Some b"
    using conjunct1[OF addresses_spell_path[OF assms(3,4) rb]] down[OF rb] assms(7) rb by (cases "as @ bs = []") auto
  have "\<exists>s. relative_address_string_from_nodes st b a = Some s \<and> find_node sw ew st a s = Some b" if "bs \<noteq> []"
  proof -
    have "as = [] \<or> name_of st a \<noteq> []"
      using assms(5,7) by (cases as rule: rev_cases) auto
    then show ?thesis
      using relative_address_descendant[OF assms(3-6) that] assms(7)
        find_node_spelled[OF assms(1-3,6) trim_spelled[OF assms(3,6) _ that, of "[]"]] by simp
  qed
  with root down[OF assms(6)] assms(7) show ?thesis by simp
qed

theorem find_node_of_address_witness:
  "find_node starts_ref ends_ref demo_device 0 (slashed demo_device [1]) = Some 1"
  using find_node_of_address[OF starts_ref_doc ends_ref_doc wf_demo, of 0 "[]" 0 "[1]" 1]
  by (simp add: path_Cons demo_read)

text \<open>What \<open>find_node\<close> finds is at the end of a path whose names are the parts of the address
  without its outer slashes; an address of slashes only is the node itself.\<close>

theorem find_node_sound:
  assumes "starts_doc sw" and "ends_doc ew" and "find_node sw ew st a s = Some b"
  shows "\<exists>ns. path st a ns b \<and> join_on CHR ''/'' (map (name_of st) ns) = trim_slashes s"
  using assms(3) find_rec_sound[of st a "trim_slashes s" b]
  by (auto simp: find_node_def sanitize_address_eq[OF assms(1,2)] Let_def split: if_splits
      intro: exI[of _ "[]"])

theorem find_node_sound_witness:
  "\<exists>ns. path demo_device 0 ns 1 \<and> join_on CHR ''/'' (map (name_of demo_device) ns) = trim_slashes ''/foo''"
proof (rule find_node_sound[OF starts_ref_doc ends_ref_doc])
  show "find_node starts_ref ends_ref demo_device 0 ''/foo'' = Some 1"
    by (simp add: find_node_def sanitize_address_eq[OF starts_ref_doc ends_ref_doc] trim_slashes_def
        find_rec_last find_child_def demo_read)
qed

text \<open>C2: On a sound device and an address whose parts are valid names, \<open>find_or_create_node\<close>
  returns a node that \<open>find_node\<close> then finds under that address, only adds to the tree, and changes
  nothing when the node was there.\<close>

theorem find_or_create_node_correct:
  assumes "starts_doc sw" and "ends_doc ew" and "sound_device st" and "nodes st a \<noteq> None"
    and "valid_address s"
  shows "\<exists>st' b. find_or_create_node sw ew st a s = Some (Inr (st', b)) \<and> sound_device st'
    \<and> extends st st' \<and> nodes st' b \<noteq> None \<and> find_node sw ew st' a s = Some b
    \<and> (find_node sw ew st a s \<noteq> None \<longrightarrow> st' = st)"
proof (cases "trim_slashes s = []")
  case True
  then show ?thesis
    using assms by (simp add: find_or_create_node_def find_node_def sanitize_address_eq)
next
  case False
  have "valid_address (trim_slashes s)"
    using assms(5) by (auto simp: valid_address_def trim_slashes_def list_all_iff dest!: set_dropWhileD)
  from find_or_create_rec[OF assms(3,4) this] False show ?thesis
    by (simp add: find_or_create_node_def find_node_def sanitize_address_eq[OF assms(1,2)])
qed

theorem find_or_create_node_correct_witness:
  "\<exists>st' b. find_or_create_node starts_ref ends_ref demo_device 0 ''/foo/bar'' = Some (Inr (st', b))
     \<and> find_node starts_ref ends_ref st' 0 ''/foo/bar'' = Some b"
proof -
  have "valid_address ''/foo/bar''" by code_simp
  then show ?thesis
    using find_or_create_node_correct[OF starts_ref_doc ends_ref_doc sound_demo demo_read(6)] by blast
qed

text \<open>\<open>create_node\<close> on such an address always returns a new node; it is the one \<open>find_node\<close>
  finds there if there was none.\<close>

theorem create_node_correct:
  assumes "starts_doc sw" and "ends_doc ew" and "sound_device st" and "nodes st a \<noteq> None"
    and "valid_address s" and "trim_slashes s \<noteq> []"
    and "\<forall>x name. nodes st x \<noteq> None \<longrightarrow> instances_left name (children_names st x)"
  shows "\<exists>st' b. create_node sw ew st a s = Some (Inr (st', b)) \<and> sound_device st'
    \<and> extends st st' \<and> nodes st b = None \<and> nodes st' b \<noteq> None
    \<and> (find_node sw ew st a s = None \<longrightarrow> find_node sw ew st' a s = Some b)"
proof -
  have "valid_address (trim_slashes s)"
    using assms(5) by (auto simp: valid_address_def trim_slashes_def list_all_iff dest!: set_dropWhileD)
  from create_rec[OF assms(3,4) this assms(7)] assms(6) show ?thesis
    by (simp add: create_node_def find_node_def sanitize_address_eq[OF assms(1,2)])
qed

theorem create_node_correct_witness:
  "\<exists>st' b. create_node starts_ref ends_ref demo_device 0 ''/foo'' = Some (Inr (st', b))
     \<and> nodes demo_device b = None"
proof -
  have "valid_address ''/foo''" "trim_slashes ''/foo'' \<noteq> []" by code_simp+
  then show ?thesis
    using create_node_correct[OF starts_ref_doc ends_ref_doc sound_demo demo_read(6), of "''/foo''"]
      demo_left by blast
qed

end
