(* ===== verification/NodeListing.thy ===== *)
theory NodeListing
  imports NodeFunctions
begin

text \<open>
  Listing the nodes below a node (\<open>list_all_children\<close>, \<open>iterate_all_children\<close> of
  network/base/node_functions.cpp), sorted or not, with and without a limit on the depth. The loop
  over the children of a node is the recursion over the list, the recursive call of the source
  the nested one. \<open>std::ranges::sort\<close> is the parameter \<open>sorter\<close>; the comparison of the
  optional priorities of two nodes, which it falls back to, is \<open>prio_gt\<close>.
\<close>

section \<open>Operations\<close>

definition node_sort :: "(nat \<Rightarrow> nat \<Rightarrow> bool) \<Rightarrow> device \<Rightarrow> nat \<Rightarrow> nat \<Rightarrow> bool" where
  "node_sort prio_gt st n1 n2 =
     (let order = strnatcmp True (name_of st n1) (name_of st n2)
      in if order < 0 then True else if order = 0 then prio_gt n1 n2 else False)"

type_synonym sorter = "(nat \<Rightarrow> nat \<Rightarrow> bool) \<Rightarrow> nat list \<Rightarrow> nat list"

definition sorted_children ::
    "sorter \<Rightarrow> (nat \<Rightarrow> nat \<Rightarrow> bool) \<Rightarrow> bool \<Rightarrow> device \<Rightarrow> nat \<Rightarrow> nat list" where
  "sorted_children sorter prio_gt do_sort st node =
     (let children = children_copy st node
      in if do_sort then sorter (node_sort prio_gt st) children else children)"

partial_function (option) list_all_loop :: "(nat \<Rightarrow> nat list) \<Rightarrow> nat list \<Rightarrow> nat list \<Rightarrow> nat list option" where
  "list_all_loop children_of children list =
     (case children of
        [] \<Rightarrow> Some list
      | child # rest \<Rightarrow>
          Option.bind (list_all_loop children_of (children_of child) (list @ [child]))
            (\<lambda>list1. list_all_loop children_of rest list1))"

text \<open>With a depth: \<open>next_depth\<close> is an \<open>int\<close> computed from the \<open>unsigned\<close> depth of the call.\<close>

definition next_depth :: "int \<Rightarrow> int" where
  "next_depth depth = (if depth > 0 then s32 (s32 depth - 1) else - 1)"

partial_function (option) list_depth_loop ::
    "(nat \<Rightarrow> nat list) \<Rightarrow> int \<Rightarrow> nat list \<Rightarrow> nat list \<Rightarrow> nat list option" where
  "list_depth_loop children_of nd children list =
     (case children of
        [] \<Rightarrow> Some list
      | child # rest \<Rightarrow>
          Option.bind
            (if nd \<noteq> 0
             then list_depth_loop children_of (next_depth (nd mod 2 ^ 32)) (children_of child) (list @ [child])
             else Some (list @ [child]))
            (\<lambda>list1. list_depth_loop children_of nd rest list1))"

definition list_all_children ::
    "sorter \<Rightarrow> (nat \<Rightarrow> nat \<Rightarrow> bool) \<Rightarrow> device \<Rightarrow> nat \<Rightarrow> nat list \<Rightarrow> int \<Rightarrow> bool \<Rightarrow> nat list option" where
  "list_all_children sorter prio_gt st node list depth do_sort =
     (let children_of = sorted_children sorter prio_gt do_sort st
      in if depth = 0 then list_all_loop children_of (children_of node) list
         else list_depth_loop children_of (next_depth depth) (children_of node) list)"

text \<open>\<open>iterate_all_children\<close>, on a list of nodes; the result is the nodes whose parameter \<open>f\<close> is
  called on, in the order of the calls.\<close>

partial_function (option) iterate_all_children :: "device \<Rightarrow> nat list \<Rightarrow> nat list \<Rightarrow> nat list option" where
  "iterate_all_children st todo calls =
     (case todo of
        [] \<Rightarrow> Some calls
      | node # rest \<Rightarrow>
          Option.bind
            (iterate_all_children st (kids st node) (if has_parameter st node then calls @ [node] else calls))
            (\<lambda>calls1. iterate_all_children st rest calls1))"

section \<open>The forest that is walked\<close>

text \<open>The children of every node in some order: again a ranked tree.\<close>

definition arranged :: "(nat \<Rightarrow> nat list) \<times> device \<Rightarrow> bool" where
  "arranged = (\<lambda>(arr, st). wf_device st \<and> (\<forall>i. mset (arr i) = mset (kids st i)))"

interpretation listing: ranked_tree fst "\<lambda>(arr, st). next_id st" arranged
proof unfold_locales
  fix s :: "(nat \<Rightarrow> nat list) \<times> device" and c i
  assume s: "arranged s"
  obtain arr st where st: "s = (arr, st)" by (cases s)
  have o: "ordered st" and m: "mset (arr i) = mset (kids st i)" for i
    using s by (auto simp: arranged_def st wf_orderedD)
  have "distinct (arr i) \<longleftrightarrow> distinct (kids st i)" "set (arr i) = set (kids st i)"
    using m mset_eq_imp_distinct_iff mset_eq_setD by blast+
  then show "c \<in> set (fst s i) \<Longrightarrow> i < c \<and> c < (case s of (arr, st) \<Rightarrow> next_id st)"
    and "distinct (fst s i)"
    using o by (auto simp: st ordered_def)
qed

lemma below_set_cong:
  assumes "\<And>x. set (ch' x) = set (ch x)"
  shows "below ch' js = below ch js"
proof -
  have "x \<in> below b js" if "x \<in> below a js" "\<And>x. set (a x) = set (b x)" for a b x
    using that by (induction rule: below.induct) (auto intro: below.intros)
  then show ?thesis using assms by blast
qed

lemma arranged_below:
  assumes "arranged (arr, st)"
  shows "below arr js = below (kids st) js"
proof -
  have "mset (arr x) = mset (kids st x)" for x using assms by (simp add: arranged_def)
  then have "set (arr x) = set (kids st x)" for x by (metis mset_eq_setD)
  then show ?thesis by (rule below_set_cong)
qed

text \<open>Lists of nodes with nothing in common below them.\<close>

fun apart :: "(nat \<Rightarrow> nat list) \<Rightarrow> nat list \<Rightarrow> bool" where
  "apart ch [] \<longleftrightarrow> True"
| "apart ch (j # js) \<longleftrightarrow> below ch [j] \<inter> below ch js = {} \<and> apart ch js"

lemma below_union: "below ch js = (\<Union>j\<in>set js. below ch [j])"
proof (induction js)
  case (Cons j js)
  then show ?case unfolding below_Cons[of ch j js] by simp
qed simp

lemma siblings_disjoint:
  assumes wf: "wf_device st" and jk: "j \<in> set (kids st i)" "k \<in> set (kids st i)" "j \<noteq> k"
  shows "below (kids st) [j] \<inter> below (kids st) [k] = {}"
proof -
  have ord: "ordered st" by (rule wf_orderedD[OF wf])
  have ge: "m \<le> x" if "x \<in> below (kids st) [m]" for x m
    using that tree.below_after[OF ord, of x m] by (auto simp: below_single)
  have lt: "i < j" "i < k" using jk ord by (auto simp: ordered_def)
  have par: "x = i" if "m \<in> set (kids st x)" "m \<in> set (kids st i)" for m x
    using wf_child_parent[OF wf that(1)] wf_child_parent[OF wf that(2)] by simp
  have notin: "m \<notin> below (kids st) [l]" if "m \<in> set (kids st i)" "l \<in> set (kids st i)" "m \<noteq> l" for m l
  proof
    assume "m \<in> below (kids st) [l]"
    then obtain x where "x \<in> below (kids st) [l]" "m \<in> set (kids st x)"
      using \<open>m \<noteq> l\<close> by (cases rule: below.cases) auto
    then have "l \<le> i" using ge par that by blast
    moreover have "i < l" using that(2) ord by (simp add: ordered_def)
    ultimately show False by simp
  qed
  have "x \<notin> below (kids st) [k]" if "x \<in> below (kids st) [j]" for x
    using that
  proof (induction rule: below.induct)
    case (below_here x)
    then show ?case using notin[of j k] jk by auto
  next
    case (below_child y c)
    show ?case
    proof
      assume "c \<in> below (kids st) [k]"
      then show False
      proof (cases rule: below.cases)
        case below_here
        then have "y = i" using par[of k y] below_child jk by simp
        then show False using ge[OF below_child(1)] lt by simp
      next
        case (below_child z)
        then have "z = y"
          using wf_child_parent[OF wf, of c z] wf_child_parent[OF wf, of c y] \<open>c \<in> set (kids st y)\<close>
          by simp
        then show False using below_child \<open>y \<notin> below (kids st) [k]\<close> by simp
      qed
    qed
  qed
  then show ?thesis by blast
qed

lemma siblings_apart:
  assumes "arranged (arr, st)"
  shows "apart arr (arr i)"
proof -
  have wf: "wf_device st" and m: "mset (arr i) = mset (kids st i)"
    using assms by (simp_all add: arranged_def)
  have "distinct (arr i)" "set (arr i) = set (kids st i)"
    using mset_eq_imp_distinct_iff[OF m] mset_eq_setD[OF m] wf_orderedD[OF wf]
    by (simp_all add: ordered_def)
  moreover have "distinct js \<Longrightarrow> set js \<subseteq> set (kids st i) \<Longrightarrow> apart arr js" for js
  proof (induction js)
    case (Cons j js)
    then have "below (kids st) [j] \<inter> below (kids st) [k] = {}" if "k \<in> set js" for k
      using siblings_disjoint[OF wf, of j i k] that by auto
    then show ?case
      using Cons by (auto simp: arranged_below[OF assms] below_union[of _ js])
  qed simp
  ultimately show ?thesis by simp
qed

section \<open>What the walks compute\<close>

text \<open>No node comes before one of those above it.\<close>

definition top_down :: "device \<Rightarrow> nat list \<Rightarrow> bool" where
  "top_down st = sorted_wrt (\<lambda>x y. x \<notin> below (kids st) (kids st y))"

lemma list_all_loop_effect:
  assumes "arranged (arr, st)" and "\<forall>j\<in>set js. j < next_id st"
  shows "\<exists>l. (\<forall>acc. list_all_loop arr js acc = Some (acc @ l)) \<and> set l = below (kids st) js
    \<and> (apart arr js \<longrightarrow> distinct l \<and> top_down st l)"
proof -
  have wf: "wf_device st" using assms by (simp add: arranged_def)
  note ab = arranged_below[OF assms(1)] and ord = wf_orderedD[OF wf]
  have b: "\<forall>j\<in>set js. j < (case (arr, st) of (arr, st) \<Rightarrow> next_id st)" using assms(2) by simp
  from assms(1) b show ?thesis
  proof (induction js rule: listing.forest_induct)
    case Nil
    then show ?case by (simp add: list_all_loop.simps top_down_def)
  next
    case (Cons j js)
    then obtain l1 l2 where l1: "\<And>acc. list_all_loop arr (arr j) acc = Some (acc @ l1)"
        "set l1 = below (kids st) (arr j)" "distinct l1" "top_down st l1"
      and l2: "\<And>acc. list_all_loop arr js acc = Some (acc @ l2)" "set l2 = below (kids st) js"
        "apart arr js \<longrightarrow> distinct l2 \<and> top_down st l2"
      using siblings_apart[OF assms(1), of j] by auto
    have sj: "set (arr j) = set (kids st j)"
      using assms(1) by (auto simp: arranged_def dest!: mset_eq_setD)
    then have bj: "below (kids st) (arr j) = below (kids st) (kids st j)"
      unfolding below_union[of _ "arr j"] below_union[of _ "kids st j"] by simp
    have "list_all_loop arr (j # js) acc = Some (acc @ j # l1 @ l2)" for acc
      by (simp add: list_all_loop.simps[of arr "j # js"] l1 l2)
    moreover have "set (j # l1 @ l2) = below (kids st) (j # js)"
      using l1 l2 bj by (auto simp: below_Cons[of _ j js] below_single[of _ j])
    moreover have "distinct (j # l1 @ l2) \<and> top_down st (j # l1 @ l2)" if a: "apart arr (j # js)"
    proof -
      have d: "below (kids st) [j] \<inter> below (kids st) js = {}" and aj: "apart arr js"
        using a by (auto simp: ab)
      have after: "j < x" if "x \<in> set l1" for x
        using that tree.below_after[OF ord, of x j] l1(2) bj by simp
      have sub: "below (kids st) (kids st y) \<subseteq> below (kids st) js" if "y \<in> below (kids st) js" for y
        using that by (intro below_mono) (auto intro: below_child)
      have lj: "set l1 \<subseteq> below (kids st) [j]" "j \<in> below (kids st) [j]"
        using l1(2) bj by (auto simp: below_single[of _ j])
      have "j \<notin> set l1" using after by blast
      then have "distinct (j # l1 @ l2)"
        using d l1(3) l2(2,3) aj lj by auto
      moreover have "x \<notin> below (kids st) (kids st y)" if "x \<in> below (kids st) [j]" "y \<in> set l2" for x y
        using that sub[of y] d l2(2) by auto
      moreover have "j \<notin> below (kids st) (kids st y)" if "y \<in> set l1" for y
        using after[OF that] tree.below_after[OF ord, of j y] by auto
      ultimately show ?thesis
        using l1(4) l2(3) aj lj by (auto simp: top_down_def sorted_wrt_append)
    qed
    ultimately show ?case by blast
  qed
qed

text \<open>The nodes at most \<open>n\<close> steps below a list of nodes.\<close>

definition within :: "device \<Rightarrow> nat list \<Rightarrow> nat \<Rightarrow> nat set" where
  "within st js n = {b. \<exists>j\<in>set js. \<exists>ns. path st j ns b \<and> length ns \<le> n}"

lemma within_simps:
  "within st [] n = {}"
  "within st (j # js) n = within st [j] n \<union> within st js n"
  "within st [j] 0 = {j}"
  "within st [j] (Suc n) = insert j (within st (kids st j) n)"
proof -
  show "within st [j] (Suc n) = insert j (within st (kids st j) n)"
  proof (rule set_eqI)
    fix b
    have "(\<exists>ns. path st j ns b \<and> length ns \<le> Suc n) \<longleftrightarrow>
        b = j \<or> (\<exists>c ns. c \<in> set (kids st j) \<and> path st c ns b \<and> length ns \<le> n)"
    proof
      assume "\<exists>ns. path st j ns b \<and> length ns \<le> Suc n"
      then obtain ns where "path st j ns b" "length ns \<le> Suc n" by blast
      then show "b = j \<or> (\<exists>c ns. c \<in> set (kids st j) \<and> path st c ns b \<and> length ns \<le> n)"
        by (cases ns) (auto simp: path_Cons)
    next
      assume "b = j \<or> (\<exists>c ns. c \<in> set (kids st j) \<and> path st c ns b \<and> length ns \<le> n)"
      then show "\<exists>ns. path st j ns b \<and> length ns \<le> Suc n"
      proof
        assume "b = j"
        then show ?thesis by (intro exI[of _ "[]"]) simp
      next
        assume "\<exists>c ns. c \<in> set (kids st j) \<and> path st c ns b \<and> length ns \<le> n"
        then obtain c ns where "path st j (c # ns) b" "length (c # ns) \<le> Suc n"
          by (auto simp: path_Cons)
        then show ?thesis by blast
      qed
    qed
    then show "b \<in> within st [j] (Suc n) \<longleftrightarrow> b \<in> insert j (within st (kids st j) n)"
      by (auto simp: within_def)
  qed
qed (auto simp: within_def)

lemma within_below: "within st js n \<subseteq> below (kids st) js"
proof -
  have "path st j ns b \<Longrightarrow> j \<in> set js \<Longrightarrow> b \<in> below (kids st) js" for j ns b
    by (induction rule: path.induct) (auto intro: below.intros)
  then show ?thesis by (auto simp: within_def)
qed

lemma list_depth_loop_effect:
  assumes "arranged (arr, st)" and "\<forall>j\<in>set js. j < next_id st" and "n < 2 ^ 31"
  shows "\<exists>l. (\<forall>acc. list_depth_loop arr (int n) js acc = Some (acc @ l)) \<and> set l = within st js n
    \<and> (apart arr js \<longrightarrow> distinct l)"
proof -
  have wf: "wf_device st" using assms(1) by (simp add: arranged_def)
  note ab = arranged_below[OF assms(1)] and ord = wf_orderedD[OF wf]
  have b: "\<forall>j\<in>set js. j < (case (arr, st) of (arr, st) \<Rightarrow> next_id st)" using assms(2) by simp
  from assms(1) b assms(3) show ?thesis
  proof (induction js arbitrary: n rule: listing.forest_induct)
    case Nil
    then show ?case by (simp add: list_depth_loop.simps within_simps(1))
  next
    case (Cons j js)
    have sj: "set (arr j) = set (kids st j)"
      using assms(1) by (auto simp: arranged_def dest!: mset_eq_setD)
    then have wj: "within st (arr j) m = within st (kids st j) m" for m
      by (simp add: within_def)
    obtain l2 where l2: "\<And>acc. list_depth_loop arr (int n) js acc = Some (acc @ l2)"
        "set l2 = within st js n" "apart arr js \<longrightarrow> distinct l2"
      using Cons.IH(2)[OF Cons.prems] by blast
    obtain l1 where l1: "\<And>acc. (if int n \<noteq> 0
          then list_depth_loop arr (next_depth (int n mod 2 ^ 32)) (arr j) (acc @ [j])
          else Some (acc @ [j])) = Some (acc @ j # l1)"
        "set (j # l1) = within st [j] n" "distinct (j # l1)"
    proof (cases n)
      case 0
      then show ?thesis using that[of "[]"] by (simp add: within_simps(3))
    next
      case (Suc m)
      have "int n mod 2 ^ 32 = int n" using Cons.prems by simp
      moreover have "next_depth (int n) = int m"
        using Suc Cons.prems by (simp add: next_depth_def s32_id)
      moreover obtain l where l: "\<And>acc. list_depth_loop arr (int m) (arr j) acc = Some (acc @ l)"
          "set l = within st (arr j) m" "distinct l"
        using Cons.IH(1)[of m] Cons.prems Suc siblings_apart[OF assms(1), of j] by auto
      moreover have "j \<notin> set l"
        using l(2) wj within_below[of st "kids st j" m] tree.below_after[OF ord, of j j] by blast
      ultimately show ?thesis
        using that[of l] Suc wj by (simp add: within_simps(4))
    qed
    have "list_depth_loop arr (int n) (j # js) acc = Some (acc @ j # l1 @ l2)" for acc
      using l1(1) by (simp add: list_depth_loop.simps[of arr "int n" "j # js"] l2)
    moreover have "set (j # l1 @ l2) = within st (j # js) n"
      using l1(2) l2(2) within_simps(2)[of st j js n] by auto
    moreover have "distinct (j # l1 @ l2)" if "apart arr (j # js)"
    proof -
      have d: "below (kids st) [j] \<inter> below (kids st) js = {}" "apart arr js"
        using that by (auto simp: ab)
      then have "set (j # l1) \<inter> set l2 = {}"
        using within_below[of st "[j]" n] within_below[of st js n] l1(2) l2(2) by blast
      then show ?thesis using l1(3) l2(3) d(2) by auto
    qed
    ultimately show ?case by blast
  qed
qed

lemma iterate_all_effect:
  assumes "wf_device st" and "\<forall>j\<in>set js. j < next_id st"
  shows "\<exists>l. (\<forall>acc. list_all_loop (kids st) js acc = Some (acc @ l))
    \<and> (\<forall>acc. iterate_all_children st js acc = Some (acc @ filter (has_parameter st) l))"
  using wf_orderedD[OF assms(1)] assms(2)
proof (induction js rule: tree.forest_induct)
  case Nil
  then show ?case by (simp add: list_all_loop.simps iterate_all_children.simps)
next
  case (Cons j js)
  then obtain l1 l2 where "\<forall>acc. list_all_loop (kids st) (kids st j) acc = Some (acc @ l1)"
    "\<forall>acc. iterate_all_children st (kids st j) acc = Some (acc @ filter (has_parameter st) l1)"
    "\<forall>acc. list_all_loop (kids st) js acc = Some (acc @ l2)"
    "\<forall>acc. iterate_all_children st js acc = Some (acc @ filter (has_parameter st) l2)"
    by blast
  then show ?case
    by (intro exI[of _ "j # l1 @ l2"])
       (auto simp: list_all_loop.simps[of _ "j # js"] iterate_all_children.simps[of _ "j # js"])
qed

section \<open>Properties\<close>

text \<open>What the C++ standard says of \<open>std::ranges::sort\<close> whatever the comparison: it permutes.\<close>

definition sorter_doc :: "sorter \<Rightarrow> bool" where
  "sorter_doc sorter \<longleftrightarrow> (\<forall>le xs. mset (sorter le xs) = mset xs)"

definition insertion_sorter :: sorter where
  "insertion_sorter le xs = foldr (\<lambda>x ys. takeWhile (\<lambda>y. le y x) ys @ x # dropWhile (\<lambda>y. le y x) ys) xs []"

lemma insertion_sorter_doc: "sorter_doc insertion_sorter"
proof -
  have "mset (takeWhile P ys @ x # dropWhile P ys) = mset (x # ys)" for P ys and x :: nat
    by (metis mset.simps(2) mset_append takeWhile_dropWhile_id union_mset_add_mset_right)
  then have "mset (insertion_sorter le xs) = mset xs" for le xs
    by (induction xs) (auto simp: insertion_sorter_def)
  then show ?thesis by (simp add: sorter_doc_def)
qed

lemma sorted_children_arranged:
  "wf_device st \<Longrightarrow> sorter_doc sorter \<Longrightarrow> arranged (sorted_children sorter prio_gt do_sort st, st)"
  by (simp add: arranged_def sorted_children_def children_copy_def sorter_doc_def Let_def)

text \<open>Without a limit on the depth, \<open>list_all_children\<close> returns, sorted or not, and appends to
  the list every node below the given one exactly once, none before a node it is below of.\<close>

theorem list_all_children_unlimited:
  assumes "wf_device st" and "sorter_doc sorter"
  shows "\<exists>l. list_all_children sorter prio_gt st node acc 0 do_sort = Some (acc @ l)
    \<and> set l = below (kids st) (kids st node) \<and> distinct l \<and> top_down st l"
proof -
  let ?arr = "sorted_children sorter prio_gt do_sort st"
  note ar = sorted_children_arranged[OF assms, of prio_gt do_sort]
  have s: "set (?arr node) = set (kids st node)"
    using ar by (auto simp: arranged_def dest!: mset_eq_setD)
  then have "below (kids st) (?arr node) = below (kids st) (kids st node)"
    unfolding below_union[of _ "?arr node"] below_union[of _ "kids st node"] by simp
  moreover have "\<forall>j\<in>set (?arr node). j < next_id st"
    using s wf_orderedD[OF assms(1)] by (auto simp: ordered_def)
  ultimately show ?thesis
    using list_all_loop_effect[OF ar, of "?arr node"] siblings_apart[OF ar, of node]
    by (auto simp: list_all_children_def)
qed

theorem list_all_children_unlimited_witness:
  "\<exists>l. list_all_children insertion_sorter (\<lambda>_ _. False) demo_device 0 [] 0 True = Some l
     \<and> set l = below (kids demo_device) [1]"
  using list_all_children_unlimited[OF wf_demo insertion_sorter_doc, of "\<lambda>_ _. False" 0 "[]" True]
  by (auto simp: demo_read)

text \<open>With a depth limit it appends exactly once every node between one and that many steps
  below the given one.\<close>

theorem list_all_children_depth:
  assumes "wf_device st" and "sorter_doc sorter" and "0 < depth" and "depth < 2 ^ 31"
  shows "\<exists>l. list_all_children sorter prio_gt st node acc depth do_sort = Some (acc @ l)
    \<and> distinct l \<and> set l = {b. \<exists>ns. path st node ns b \<and> ns \<noteq> [] \<and> int (length ns) \<le> depth}"
proof -
  let ?arr = "sorted_children sorter prio_gt do_sort st" and ?n = "nat (depth - 1)"
  note ar = sorted_children_arranged[OF assms(1,2), of prio_gt do_sort]
  have s: "set (?arr node) = set (kids st node)"
    using ar by (auto simp: arranged_def dest!: mset_eq_setD)
  then have b: "\<forall>j\<in>set (?arr node). j < next_id st"
    using wf_orderedD[OF assms(1)] by (auto simp: ordered_def)
  have n: "next_depth depth = int ?n" "?n < 2 ^ 31"
    using assms(3,4) by (simp_all add: next_depth_def s32_id)
  obtain l where l: "\<And>acc. list_depth_loop ?arr (int ?n) (?arr node) acc = Some (acc @ l)"
    "set l = within st (?arr node) ?n" "distinct l"
    using list_depth_loop_effect[OF ar b n(2)] siblings_apart[OF ar, of node] by blast
  have "within st (?arr node) ?n = {b. \<exists>ns. path st node ns b \<and> ns \<noteq> [] \<and> int (length ns) \<le> depth}"
  proof (rule set_eqI)
    fix b
    have "(\<exists>j\<in>set (kids st node). \<exists>ns. path st j ns b \<and> length ns \<le> ?n) \<longleftrightarrow>
        (\<exists>j ns. path st node (j # ns) b \<and> int (length (j # ns)) \<le> depth)"
    proof -
      have "length ns \<le> ?n \<longleftrightarrow> int (length (j # ns)) \<le> depth" for j and ns :: "nat list"
        using assms(3) by (simp only: length_Cons) linarith
      then show ?thesis unfolding path_Cons by blast
    qed
    then show "b \<in> within st (?arr node) ?n \<longleftrightarrow>
        b \<in> {b. \<exists>ns. path st node ns b \<and> ns \<noteq> [] \<and> int (length ns) \<le> depth}"
      by (auto simp: within_def s neq_Nil_conv)
  qed
  then show ?thesis using l n(1) assms(3) by (auto simp: list_all_children_def)
qed

theorem list_all_children_depth_witness:
  "\<exists>l. list_all_children insertion_sorter (\<lambda>_ _. False) demo_device 0 [] 1 True = Some l \<and> distinct l"
  using list_all_children_depth[OF wf_demo insertion_sorter_doc, of 1 "\<lambda>_ _. False" 0 "[]" True]
  by auto

text \<open>\<open>iterate_all_children\<close> calls its function on the parameters of the node and of the nodes
  \<open>list_all_children\<close> lists, in that order.\<close>

theorem iterate_all_children_eq:
  assumes "wf_device st" and "node < next_id st"
  shows "\<exists>l. list_all_children sorter prio_gt st node [] 0 False = Some l
    \<and> iterate_all_children st [node] [] = Some (filter (has_parameter st) (node # l))"
proof -
  have "sorted_children sorter prio_gt False st = kids st"
    by (simp add: sorted_children_def children_copy_def fun_eq_iff)
  moreover have "\<forall>j\<in>set (kids st node). j < next_id st"
    using wf_orderedD[OF assms(1)] by (auto simp: ordered_def)
  ultimately show ?thesis
    using iterate_all_effect[OF assms(1), of "kids st node"]
    by (auto simp: list_all_children_def iterate_all_children.simps[of _ "[node]"]
        iterate_all_children.simps[of _ "[]"])
qed

theorem iterate_all_children_eq_witness:
  "\<exists>l. iterate_all_children demo_device [0] [] = Some (filter (has_parameter demo_device) (0 # l))"
  using iterate_all_children_eq[OF wf_demo, of 0 insertion_sorter "\<lambda>_ _. False"] demo_read(5)
  by (simp del: filter.simps) blast

end
