(* ===== verification/BraceExpansion.thy ===== *)
theory BraceExpansion
  imports Names
begin

text \<open>
  Brace expansion of address patterns (network/base/node_functions.cpp): the tokenizer, \<open>append_all\<close>
  and the two \<open>expand\<close> functions, then \<open>expand_ranges\<close> and \<open>canonicalize_str\<close>, which rewrite ranges
  and character classes to braces first. The matches of the compile-time regular expressions
  (the CTRE library) and its \<open>to_number\<close> are parameters.

  A tokenizer is what is left of its string after the current token; \<open>List\<close> is \<open>string list\<close>.
  \<open>detail::expand\<close> calls itself on the tokenizer it shares: \<open>None\<close> would be not returning.
\<close>

section \<open>Tokens\<close>

fun scan_token :: "(char \<Rightarrow> bool) \<Rightarrow> string \<Rightarrow> string \<times> string" where
  "scan_token istoken [] = ([], [])"
| "scan_token istoken (c # s) =
     (if istoken c then ([], c # s)
      else if c = CHR 0x5C then
        (case s of
           [] \<Rightarrow> ([c], [])
         | d # t \<Rightarrow> (let (tok, rest) = scan_token istoken t in (c # d # tok, rest)))
      else (let (tok, rest) = scan_token istoken s in (c # tok, rest)))"

definition next_token :: "(char \<Rightarrow> bool) \<Rightarrow> string \<Rightarrow> (string \<times> string) option" where
  "next_token istoken rest =
     (if rest = [] then None
      else
        (case scan_token istoken rest of
           ([], r) \<Rightarrow> Some ([hd rest], tl rest)
         | (tok, r) \<Rightarrow> Some (tok, r)))"

definition append_all :: "string list \<Rightarrow> string list \<Rightarrow> string list" where
  "append_all lista listb =
     (if length listb = 1 then map (\<lambda>a. a @ last listb) lista
      else concat (map (\<lambda>a. map (\<lambda>b. a @ b) listb) lista))"

section \<open>Expansion\<close>

definition on_back :: "('a \<Rightarrow> 'a) \<Rightarrow> 'a list \<Rightarrow> 'a list" where
  "on_back f xs = butlast xs @ [f (last xs)]"

definition inner_token :: "char \<Rightarrow> bool" where
  "inner_token c \<longleftrightarrow> c = CHR ''{'' \<or> c = CHR '','' \<or> c = CHR ''}''"

definition unclosed :: "string list list \<Rightarrow> string list" where
  "unclosed alts =
     fold (\<lambda>alt result. append_all (map (\<lambda>a. a @ '','') result) alt) (tl alts)
       (append_all [''{''] (hd alts))"

definition closed_group :: "string list list \<Rightarrow> string list" where
  "closed_group alts =
     (if length alts = 1 then map (\<lambda>a. ''{'' @ a @ ''}'') (last alts)
      else hd alts @ concat (tl alts))"

text \<open>\<open>detail::expand\<close>, from a point of its loop on.\<close>

partial_function (option) expand_token ::
    "string list list \<Rightarrow> string \<Rightarrow> (string list \<times> string) option" where
  "expand_token alts rest =
     (case next_token inner_token rest of
        None \<Rightarrow> Some (unclosed alts, rest)
      | Some (tok, rest1) \<Rightarrow>
          if hd tok = CHR ''{'' then
            Option.bind (expand_token [[[]]] rest1) (\<lambda>(l, rest2).
              expand_token (on_back (\<lambda>a. append_all a l) alts) rest2)
          else if hd tok = CHR '','' then expand_token (alts @ [[[]]]) rest1
          else if hd tok = CHR ''}'' then Some (closed_group alts, rest1)
          else expand_token (on_back (map (\<lambda>a. a @ tok)) alts) rest1)"

partial_function (option) expand_loop :: "string list \<Rightarrow> string \<Rightarrow> string list option" where
  "expand_loop lst rest =
     (case next_token (\<lambda>c. c = CHR ''{'') rest of
        None \<Rightarrow> Some lst
      | Some (tok, rest1) \<Rightarrow>
          if hd tok = CHR ''{'' then
            Option.bind (expand_token [[[]]] rest1) (\<lambda>(l, rest2). expand_loop (append_all lst l) rest2)
          else expand_loop (map (\<lambda>a. a @ tok) lst) rest1)"

definition expand :: "string \<Rightarrow> string list option" where
  "expand str = expand_loop [[]] str"

text \<open>The version of a build without the regular expression library.\<close>

definition expand_fallback :: "string \<Rightarrow> string list option" where
  "expand_fallback str = Some [str]"

section \<open>Tokens come from the front\<close>

lemma scan_token_append:
  "scan_token p s = (tok, r) \<Longrightarrow> s = tok @ r \<and> (r = [] \<or> p (hd r)) \<and> (tok \<noteq> [] \<longrightarrow> \<not> p (hd tok))"
proof (induction p s arbitrary: tok r rule: scan_token.induct)
  case (2 p c s)
  show ?case
  proof (cases "p c")
    case np: False
    show ?thesis
    proof (cases "c = CHR 0x5C")
      case True
      then show ?thesis using 2 np by (cases s) (auto split: prod.splits)
    next
      case False
      then show ?thesis using 2 np by (auto split: prod.splits)
    qed
  qed (use 2 in auto)
qed auto

lemma next_token_Some:
  assumes "next_token p rest = Some (tok, r)"
  shows "rest = tok @ r" and "tok \<noteq> []" and "length r < length rest"
    and "p (hd tok) \<longrightarrow> tok = [hd rest]"
  using assms scan_token_append[of p rest]
  by (auto simp: next_token_def neq_Nil_conv split: if_splits prod.splits list.splits)

lemma next_token_None: "next_token p rest = None \<longleftrightarrow> rest = []"
  by (auto simp: next_token_def split: prod.splits list.splits)

lemma append_all_eq: "append_all xs ys = concat (map (\<lambda>a. map (\<lambda>b. a @ b) ys) xs)"
proof (cases "length ys = 1")
  case True
  then obtain y where "ys = [y]" by (cases ys) auto
  moreover have "concat (map (\<lambda>a. [a @ y]) xs) = map (\<lambda>a. a @ y) xs" by (induction xs) auto
  ultimately show ?thesis by (simp add: append_all_def)
qed (auto simp: append_all_def)

section \<open>Expansion returns\<close>

lemma expand_token_total:
  "\<exists>l r. expand_token alts rest = Some (l, r) \<and> length r \<le> length rest"
proof (induction "length rest" arbitrary: alts rest rule: less_induct)
  case less
  show ?case
  proof (cases "next_token inner_token rest")
    case None
    then show ?thesis by (simp add: expand_token.simps[of alts rest])
  next
    case (Some p)
    obtain tok r where p: "p = (tok, r)" by (cases p)
    have r: "length r < length rest" using next_token_Some(3) Some p by blast
    obtain l r2 where sub: "expand_token [[[]]] r = Some (l, r2)" "length r2 \<le> length r"
      using less[OF r] by blast
    have r2: "length r2 < length rest" using sub r by simp
    obtain l3 r3 where "expand_token (on_back (\<lambda>a. append_all a l) alts) r2 = Some (l3, r3)"
      "length r3 \<le> length r2" using less[OF r2] by blast
    moreover have "\<exists>l' r'. expand_token (alts @ [[[]]]) r = Some (l', r') \<and> length r' \<le> length r"
      "\<exists>l' r'. expand_token (on_back (map (\<lambda>a. a @ tok)) alts) r = Some (l', r') \<and> length r' \<le> length r"
      using less[OF r] by blast+
    ultimately show ?thesis
      using Some p r sub by (auto simp: expand_token.simps[of alts rest])
  qed
qed

lemma expand_loop_total: "\<exists>l. expand_loop lst rest = Some l"
proof (induction "length rest" arbitrary: lst rest rule: less_induct)
  case less
  show ?case
  proof (cases "next_token (\<lambda>c. c = CHR ''{'') rest")
    case None
    then show ?thesis by (simp add: expand_loop.simps[of lst rest])
  next
    case (Some p)
    obtain tok r where p: "p = (tok, r)" by (cases p)
    have r: "length r < length rest" using next_token_Some(3) Some p by blast
    obtain l r2 where sub: "expand_token [[[]]] r = Some (l, r2)" "length r2 \<le> length r"
      using expand_token_total by blast
    have r2: "length r2 < length rest" using sub r by simp
    show ?thesis
      using Some p sub less[OF r] less[OF r2] by (auto simp: expand_loop.simps[of lst rest])
  qed
qed

section \<open>What patterns mean\<close>

text \<open>A pattern is a sequence of literals and groups of alternatives, each of them a sequence.\<close>

datatype brace = Lit string | Group "brace list list"

fun print_brace :: "brace \<Rightarrow> string" and print_seq :: "brace list \<Rightarrow> string"
  and print_alts :: "brace list list \<Rightarrow> string" where
  "print_brace (Lit s) = s"
| "print_brace (Group alts) = ''{'' @ print_alts alts @ ''}''"
| "print_seq [] = []"
| "print_seq (b # bs) = print_brace b @ print_seq bs"
| "print_alts [] = []"
| "print_alts (a # alts) = print_seq a @ (if alts = [] then [] else '','' @ print_alts alts)"

definition products :: "string list \<Rightarrow> string list \<Rightarrow> string list" where
  "products xs ys = concat (map (\<lambda>a. map (\<lambda>b. a @ b) ys) xs)"

fun den_brace :: "brace \<Rightarrow> string list" and den_seq :: "brace list \<Rightarrow> string list"
  and den_alts :: "brace list list \<Rightarrow> string list list" where
  "den_brace (Lit s) = [s]"
| "den_brace (Group alts) =
     (case alts of
        [a] \<Rightarrow> map (\<lambda>s. ''{'' @ s @ ''}'') (den_seq a)
      | _ \<Rightarrow> concat (den_alts alts))"
| "den_seq [] = [[]]"
| "den_seq (b # bs) = products (den_brace b) (den_seq bs)"
| "den_alts [] = []"
| "den_alts (a # alts) = den_seq a # den_alts alts"

text \<open>Groups are not empty, and literals in groups hold none of the special characters.\<close>

definition plain :: "string \<Rightarrow> bool" where
  "plain s \<longleftrightarrow> list_all (\<lambda>c. \<not> inner_token c \<and> c \<noteq> CHR 0x5C) s"

fun wf_brace :: "brace \<Rightarrow> bool" and wf_seq :: "brace list \<Rightarrow> bool"
  and wf_alts :: "brace list list \<Rightarrow> bool" where
  "wf_brace (Lit s) \<longleftrightarrow> plain s"
| "wf_brace (Group alts) \<longleftrightarrow> alts \<noteq> [] \<and> wf_alts alts"
| "wf_seq [] \<longleftrightarrow> True"
| "wf_seq (b # bs) \<longleftrightarrow> wf_brace b \<and> wf_seq bs"
| "wf_alts [] \<longleftrightarrow> True"
| "wf_alts (a # alts) \<longleftrightarrow> wf_seq a \<and> wf_alts alts"

lemma products_assoc: "products (products a b) c = products a (products b c)"
proof -
  have "products (map (\<lambda>x. u @ x) b) c = map (\<lambda>x. u @ x) (products b c)" for u
    by (induction b) (simp_all add: products_def)
  moreover have "products (xs @ ys) c = products xs c @ products ys c" for xs ys
    by (simp add: products_def)
  ultimately show ?thesis by (induction a) (simp_all add: products_def)
qed

lemma products_unit [simp]: "products xs [[]] = xs" "products [[]] xs = xs"
  by (simp_all add: products_def) (induction xs; simp)

lemma products_single: "products xs [s] = map (\<lambda>a. a @ s) xs"
  by (induction xs) (simp_all add: products_def)

lemma append_all_products: "append_all xs ys = products xs ys"
  by (simp add: append_all_eq products_def)

lemma on_back_snoc [simp]: "on_back f (xs @ [x]) = xs @ [f x]"
  by (simp add: on_back_def)

section \<open>Expansion computes the meaning\<close>

lemma next_special: "p c \<Longrightarrow> next_token p (c # t) = Some ([c], t)"
  by (simp add: next_token_def)

lemma next_plain:
  "\<not> p c \<Longrightarrow> c \<noteq> CHR 0x5C \<Longrightarrow> scan_token p t = (tok, r) \<Longrightarrow> next_token p (c # t) = Some (c # tok, r)"
  by (simp add: next_token_def)

lemma next_scanned:
  assumes "scan_token p t = (tok, r)" and "tok \<noteq> []"
  shows "next_token p t = Some (tok, r)" and "\<not> p (hd tok)"
proof -
  have "t \<noteq> []" using scan_token_append[OF assms(1)] assms(2) by auto
  then show "next_token p t = Some (tok, r)"
    using assms by (auto simp: next_token_def split: list.split)
  show "\<not> p (hd tok)" using scan_token_append[OF assms(1)] assms(2) by blast
qed

lemma expand_token_open:
  "expand_token [[[]]] t = Some (l, r) \<Longrightarrow>
   expand_token (xs @ [L]) (CHR ''{'' # t) = expand_token (xs @ [products L l]) r"
  by (simp add: expand_token.simps[of "xs @ [L]" "CHR ''{'' # t"] next_special inner_token_def
      append_all_products)

lemma expand_token_comma:
  "expand_token alts (CHR '','' # t) = expand_token (alts @ [[[]]]) t"
  by (simp add: expand_token.simps[of alts "CHR '','' # t"] next_special inner_token_def)

lemma expand_token_close:
  "expand_token alts (CHR ''}'' # t) = Some (closed_group alts, t)"
  by (simp add: expand_token.simps[of alts "CHR ''}'' # t"] next_special inner_token_def)

lemma expand_token_lit:
  assumes "next_token inner_token t = Some (tok, r)" and "\<not> inner_token (hd tok)"
  shows "expand_token (xs @ [L]) t = expand_token (xs @ [products L [tok]]) r"
  using assms by (simp add: expand_token.simps[of _ t] inner_token_def products_single)

lemma expand_token_char:
  assumes "\<not> inner_token c" and "c \<noteq> CHR 0x5C"
  shows "expand_token (xs @ [L]) (c # t) = expand_token (xs @ [products L [[c]]]) t"
proof -
  obtain tok r where s: "scan_token inner_token t = (tok, r)" by (cases "scan_token inner_token t")
  have n: "next_token inner_token (c # t) = Some (c # tok, r)" by (rule next_plain[OF assms s])
  have l: "expand_token (xs @ [L]) (c # t) = expand_token (xs @ [products L [c # tok]]) r"
    by (rule expand_token_lit[OF n]) (simp add: assms)
  show ?thesis
  proof (cases "tok = []")
    case True
    then show ?thesis using l scan_token_append[OF s] by simp
  next
    case False
    have "expand_token (xs @ [products L [[c]]]) t = expand_token (xs @ [products (products L [[c]]) [tok]]) r"
      by (rule expand_token_lit[OF next_scanned[OF s False]])
    moreover have "products (products L [[c]]) [tok] = products L [c # tok]"
      by (simp add: products_single)
    ultimately show ?thesis using l by simp
  qed
qed

lemma expand_token_plain:
  "plain s \<Longrightarrow> expand_token (xs @ [L]) (s @ t) = expand_token (xs @ [products L [s]]) t"
proof (induction s arbitrary: L)
  case (Cons c s)
  then have "expand_token (xs @ [L]) ((c # s) @ t) = expand_token (xs @ [products (products L [[c]]) [s]]) t"
    by (simp add: plain_def expand_token_char)
  then show ?case by (simp add: products_single comp_def)
qed simp

lemma length_den_alts [simp]: "length (den_alts alts) = length alts"
  by (induction alts) auto

lemma closed_group_den:
  assumes "alts \<noteq> []"
  shows "closed_group (den_alts alts) = den_brace (Group alts)"
proof (cases "\<exists>a. alts = [a]")
  case True
  then show ?thesis by (auto simp: closed_group_def)
next
  case False
  then obtain a b rest where "alts = a # b # rest"
    using assms by (cases alts; cases "tl alts") auto
  then show ?thesis by (simp add: closed_group_def)
qed

lemma expand_token_print:
  "wf_brace b \<Longrightarrow>
    expand_token (xs @ [L]) (print_brace b @ t) = expand_token (xs @ [products L (den_brace b)]) t"
  "wf_seq bs \<Longrightarrow>
    expand_token (xs @ [L]) (print_seq bs @ t) = expand_token (xs @ [products L (den_seq bs)]) t"
  "wf_alts alts \<Longrightarrow> alts \<noteq> [] \<Longrightarrow>
    expand_token (xs @ [[[]]]) (print_alts alts @ CHR ''}'' # t) = Some (closed_group (xs @ den_alts alts), t)"
proof (induction b and bs and alts arbitrary: xs L t and xs L t and xs t
    rule: print_brace_print_seq_print_alts.induct)
  case (1 s)
  then show ?case by (simp add: expand_token_plain)
next
  case (2 alts)
  then have "expand_token ([] @ [[[]]]) (print_alts alts @ CHR ''}'' # t)
      = Some (closed_group ([] @ den_alts alts), t)" by (intro "2.IH") auto
  then have "expand_token [[[]]] (print_alts alts @ CHR ''}'' # t) = Some (den_brace (Group alts), t)"
    using closed_group_den[of alts] "2.prems" by simp
  from expand_token_open[OF this, of xs L] show ?case by simp
next
  case 3
  then show ?case by simp
next
  case (4 b bs)
  then show ?case by (simp add: products_assoc)
next
  case 5
  then show ?case by simp
next
  case (6 a alts)
  show ?case
  proof (cases "alts = []")
    case True
    then show ?thesis using 6 by (simp add: expand_token_close)
  next
    case False
    have "expand_token ((xs @ [den_seq a]) @ [[[]]]) (print_alts alts @ CHR ''}'' # t)
        = Some (closed_group ((xs @ [den_seq a]) @ den_alts alts), t)"
      using 6 False by (intro "6.IH"(2)) auto
    then show ?thesis using 6 False by (simp add: expand_token_comma)
  qed
qed

text \<open>At the top level commas and closing braces are ordinary characters.\<close>

fun wf_top :: "brace \<Rightarrow> bool" where
  "wf_top (Lit s) \<longleftrightarrow> list_all (\<lambda>c. c \<noteq> CHR ''{'' \<and> c \<noteq> CHR 0x5C) s"
| "wf_top (Group alts) \<longleftrightarrow> wf_brace (Group alts)"

lemma expand_loop_lit:
  assumes "next_token (\<lambda>c. c = CHR ''{'') t = Some (tok, r)" and "hd tok \<noteq> CHR ''{''"
  shows "expand_loop L t = expand_loop (products L [tok]) r"
  using assms by (simp add: expand_loop.simps[of _ t] products_single)

lemma expand_loop_char:
  assumes "c \<noteq> CHR ''{''" and "c \<noteq> CHR 0x5C"
  shows "expand_loop L (c # t) = expand_loop (products L [[c]]) t"
proof -
  let ?p = "\<lambda>c. c = CHR ''{''"
  obtain tok r where s: "scan_token ?p t = (tok, r)" by (cases "scan_token ?p t")
  have n: "next_token ?p (c # t) = Some (c # tok, r)" using assms s by (intro next_plain) auto
  have l: "expand_loop L (c # t) = expand_loop (products L [c # tok]) r"
    by (rule expand_loop_lit[OF n]) (simp add: assms)
  show ?thesis
  proof (cases "tok = []")
    case True
    then show ?thesis using l scan_token_append[OF s] by simp
  next
    case False
    have "expand_loop (products L [[c]]) t = expand_loop (products (products L [[c]]) [tok]) r"
      by (rule expand_loop_lit[OF next_scanned[OF s False]])
    moreover have "products (products L [[c]]) [tok] = products L [c # tok]"
      by (simp add: products_single)
    ultimately show ?thesis using l by simp
  qed
qed

lemma expand_loop_plain:
  "wf_top (Lit s) \<Longrightarrow> expand_loop L (s @ t) = expand_loop (products L [s]) t"
proof (induction s arbitrary: L)
  case (Cons c s)
  then have "expand_loop L ((c # s) @ t) = expand_loop (products (products L [[c]]) [s]) t"
    by (simp add: expand_loop_char)
  then show ?case by (simp add: products_single comp_def)
qed simp

lemma expand_loop_group:
  assumes "wf_brace (Group alts)"
  shows "expand_loop L (print_brace (Group alts) @ t) = expand_loop (products L (den_brace (Group alts))) t"
proof -
  have "expand_token ([] @ [[[]]]) (print_alts alts @ CHR ''}'' # t)
      = Some (closed_group ([] @ den_alts alts), t)"
    using assms by (intro expand_token_print(3)) auto
  then have "expand_token [[[]]] (print_alts alts @ CHR ''}'' # t) = Some (den_brace (Group alts), t)"
    using closed_group_den[of alts] assms by simp
  then show ?thesis
    by (simp add: expand_loop.simps[of L "CHR ''{'' # _"] next_special append_all_products
        del: den_brace.simps)
qed

lemma expand_loop_print:
  "list_all wf_top bs \<Longrightarrow> expand_loop L (print_seq bs) = Some (products L (den_seq bs))"
proof (induction bs arbitrary: L)
  case Nil
  then show ?case by (simp add: expand_loop.simps[of L "[]"] next_token_def)
next
  case (Cons b bs)
  have "expand_loop L (print_brace b @ print_seq bs) = expand_loop (products L (den_brace b)) (print_seq bs)"
    using Cons.prems by (cases b) (use expand_loop_plain expand_loop_group in auto)
  then show ?case using Cons by (simp add: products_assoc)
qed

section \<open>Ranges and classes\<close>

text \<open>The matches of a regular expression in a string: where each starts, its length, and its
  captures from 1 on. \<open>to_number\<close> converts a capture to an \<open>int\<close>.\<close>

type_synonym rx_matches = "string \<Rightarrow> (nat \<times> nat \<times> string list) list"

record regexes =
  rx_ranges_3 :: rx_matches
  rx_ranges_2 :: rx_matches
  rx_alpha_low :: rx_matches
  rx_alpha_up :: rx_matches
  rx_class :: rx_matches
  to_number :: "string \<Rightarrow> int"

definition replace_at :: "nat \<Rightarrow> nat \<Rightarrow> string \<Rightarrow> string \<Rightarrow> string" where
  "replace_at start len rep str = take start str @ rep @ drop (start + len) str"

text \<open>The end of each of the replacements: a trailing comma becomes the closing brace.\<close>

definition replace_closed :: "nat \<Rightarrow> nat \<Rightarrow> string \<Rightarrow> string \<Rightarrow> string" where
  "replace_closed start len rep str =
     (if last rep = CHR '','' then replace_at start len (butlast rep @ ''}'') str else str)"

text \<open>The loops over \<open>int64_t v\<close>, for either sign of the increment.\<close>

partial_function (option) range_loop :: "int \<Rightarrow> int \<Rightarrow> int \<Rightarrow> string \<Rightarrow> string option" where
  "range_loop v bound increment rep =
     (if v \<le> bound
      then range_loop (s64 (v + increment)) bound increment (rep @ to_string v @ '','')
      else Some rep)"

definition triple_positions :: "regexes \<Rightarrow> string \<Rightarrow> (nat \<times> nat \<times> int \<times> int \<times> int) list" where
  "triple_positions rx str =
     List.map_filter (\<lambda>(start, len, caps).
       let fst = to_number rx (caps ! 0); lst = to_number rx (caps ! 1); inc = to_number rx (caps ! 2)
       in if inc \<noteq> 0 then Some (start, len, min fst lst, max fst lst, inc) else None)
     (rx_ranges_3 rx str)"

definition triple_rep :: "int \<Rightarrow> int \<Rightarrow> int \<Rightarrow> string option" where
  "triple_rep first hi increment =
     (if increment > 0 then range_loop first hi increment ''{''
      else range_loop hi first increment ''{'')"

definition expand_triples :: "regexes \<Rightarrow> string \<Rightarrow> string option" where
  "expand_triples rx str =
     fold (\<lambda>(start, len, first, hi, increment) acc.
       Option.bind acc (\<lambda>s. Option.bind (triple_rep first hi increment) (\<lambda>rep.
         Some (replace_closed start len rep s))))
     (rev (triple_positions rx str)) (Some str)"

definition double_positions :: "regexes \<Rightarrow> string \<Rightarrow> (nat \<times> nat \<times> int \<times> int) list" where
  "double_positions rx str =
     map (\<lambda>(start, len, caps).
       let fst = to_number rx (caps ! 0); lst = to_number rx (caps ! 1)
       in (start, len, min fst lst, max fst lst))
     (rx_ranges_2 rx str)"

definition expand_doubles :: "regexes \<Rightarrow> string \<Rightarrow> string option" where
  "expand_doubles rx str =
     fold (\<lambda>(start, len, first, hi) acc.
       Option.bind acc (\<lambda>s.
         if hi = first then Some (replace_at start len (to_string first) s)
         else Option.bind (range_loop first hi 1 ''{'') (\<lambda>rep. Some (replace_closed start len rep s))))
     (rev (double_positions rx str)) (Some str)"

text \<open>The loop over \<open>char v\<close>, on signed character codes.\<close>

definition s8 :: "int \<Rightarrow> int" where
  "s8 x = (x + 128) mod 256 - 128"

partial_function (option) char_loop :: "int \<Rightarrow> int \<Rightarrow> string \<Rightarrow> string option" where
  "char_loop v hi rep =
     (if v \<le> hi then char_loop (s8 (v + 1)) hi (rep @ [char_of (v mod 256), CHR '','']) else Some rep)"

definition alpha_positions :: "rx_matches \<Rightarrow> string \<Rightarrow> (nat \<times> nat \<times> int \<times> int) list" where
  "alpha_positions reg str =
     map (\<lambda>(start, len, caps).
       let fst = schar (hd (caps ! 0)); lst = schar (hd (caps ! 1))
       in (start, len, min fst lst, max fst lst))
     (reg str)"

definition expand_alphas :: "rx_matches \<Rightarrow> string \<Rightarrow> string option" where
  "expand_alphas reg str =
     fold (\<lambda>(start, len, first, hi) acc.
       Option.bind acc (\<lambda>s.
         if hi = first then Some (replace_at start len (to_string first) s)
         else Option.bind (char_loop first hi ''{'') (\<lambda>rep. Some (replace_closed start len rep s))))
     (rev (alpha_positions reg str)) (Some str)"

definition expand_ranges :: "regexes \<Rightarrow> string \<Rightarrow> string option" where
  "expand_ranges rx str =
     (if CHR ''{'' \<in> set str then
        Option.bind (expand_triples rx str) (\<lambda>str1.
        Option.bind (expand_doubles rx str1) (\<lambda>str2.
        Option.bind (expand_alphas (rx_alpha_low rx) str2) (\<lambda>str3.
          expand_alphas (rx_alpha_up rx) str3)))
      else Some str)"

text \<open>\<open>canonicalize_str\<close>: the bits set for a class, as character codes.\<close>

fun class_bits :: "string \<Rightarrow> int list" where
  "class_bits (a # b # c # s) =
     (if b = CHR ''-'' \<and> schar c > schar a then [schar a..schar c] @ class_bits (c # s)
      else schar a # class_bits (b # c # s))"
| "class_bits (a # s) = schar a # class_bits s"
| "class_bits [] = []"

definition class_rep :: "string \<Rightarrow> string" where
  "class_rep theStr =
     (let bits = class_bits theStr
      in ''{'' @ concat (map (\<lambda>i. if i \<in> set bits then [char_of i, CHR '',''] else []) [0..127]))"

definition canonicalize_str :: "regexes \<Rightarrow> string \<Rightarrow> string option" where
  "canonicalize_str rx str0 =
     (let str = map (\<lambda>c. if c = CHR ''|'' then CHR '','' else c) str0;
          str1 = fold (\<lambda>(start, len, caps) s.
            replace_closed start len (class_rep (take (len - 2) (drop (start + 1) str))) s)
            (rev (rx_class rx str)) str
      in expand_ranges rx str1)"

section \<open>What the loops over ranges do\<close>

definition numbered :: "int \<Rightarrow> int \<Rightarrow> nat \<Rightarrow> string" where
  "numbered first inc n = concat (map (\<lambda>k. to_string (first + int k * inc) @ '','') [0..<n])"

lemma numbered_Suc: "numbered first inc (Suc n) = numbered first inc n @ to_string (first + int n * inc) @ '',''"
  by (simp add: numbered_def)

text \<open>As long as the values stay in range the loop goes on, a number at a time.\<close>

lemma range_loop_steps:
  "\<forall>k<n. v + int k * inc \<le> bound \<and> in64 (v + int (Suc k) * inc) \<Longrightarrow>
   range_loop v bound inc rep = range_loop (v + int n * inc) bound inc (rep @ numbered v inc n)"
proof (induction n)
  case 0
  then show ?case by (simp add: numbered_def)
next
  case (Suc n)
  then have IH: "range_loop v bound inc rep = range_loop (v + int n * inc) bound inc (rep @ numbered v inc n)"
    by simp
  have le: "v + int n * inc \<le> bound" and r: "in64 (v + int n * inc + inc)"
    using Suc.prems by (auto simp: algebra_simps)
  have "s64 (v + int n * inc + inc) = v + int (Suc n) * inc"
    using s64_id[OF r] by (simp add: algebra_simps)
  then show ?case
    unfolding IH using le by (subst range_loop.simps) (simp add: numbered_Suc)
qed

section \<open>Properties\<close>

text \<open>Brace expansion returns on every string, balanced or not.\<close>

theorem expand_returns: "\<exists>l. expand s = Some l"
  by (simp add: expand_def expand_loop_total)

text \<open>C3: On a printed pattern, \<open>expand\<close> computes what the pattern means: all ways to choose one
  alternative of each group, in order, groups of one alternative keeping their braces.\<close>

theorem expand_denotes:
  assumes "list_all wf_top bs"
  shows "expand (print_seq bs) = Some (den_seq bs)"
  using expand_loop_print[OF assms, of "[[]]"] by (simp add: expand_def)

theorem expand_denotes_witness:
  "expand ''/a{b,c{d,e}}f'' = Some [''/abf'', ''/acdf'', ''/acef'']"
proof -
  let ?bs = "[Lit ''/a'', Group [[Lit ''b''], [Lit ''c'', Group [[Lit ''d''], [Lit ''e'']]]], Lit ''f'']"
  have "list_all wf_top ?bs" by (simp add: plain_def inner_token_def)
  from expand_denotes[OF this] show ?thesis by (simp add: products_def)
qed

text \<open>With a positive increment, a range of three numbers is rewritten to the numbers from the
  smaller bound, in steps of the increment, up to the larger one.\<close>

theorem triple_rep_counts:
  assumes "in32 first" and "in32 hi" and "first \<le> hi" and "0 < inc" and "in32 inc"
  shows "triple_rep first hi inc =
    Some (''{'' @ numbered first inc (nat ((hi - first) div inc + 1)))"
proof -
  let ?n = "nat ((hi - first) div inc + 1)"
  have d: "0 \<le> (hi - first) div inc" using assms by (simp add: pos_imp_zdiv_nonneg_iff)
  have m: "(hi - first) div inc * inc \<le> hi - first" "hi - first < ((hi - first) div inc + 1) * inc"
    using div_mult_mod_eq[of "hi - first" inc] pos_mod_bound[OF assms(4), of "hi - first"]
      pos_mod_sign[OF assms(4), of "hi - first"] unfolding distrib_right mult_1 by linarith+
  have "first + int k * inc \<le> hi \<and> in64 (first + int (Suc k) * inc)" if "k < ?n" for k
  proof -
    have "int k * inc \<le> (hi - first) div inc * inc"
      using that d assms(4) by (intro mult_right_mono) auto
    then have le: "first + int k * inc \<le> hi" using m by linarith
    moreover have "0 \<le> int k * inc" using assms(4) by simp
    moreover have "int (Suc k) * inc = inc + int k * inc" by (simp add: distrib_right)
    moreover have "in64 (first + b)" if "first + a \<le> hi" "0 \<le> a" "b = inc + a" for a b
      using assms that by simp
    ultimately show ?thesis by blast
  qed
  then have "range_loop first hi inc ''{'' = range_loop (first + int ?n * inc) hi inc (''{'' @ numbered first inc ?n)"
    by (intro range_loop_steps) blast
  moreover have "\<not> first + int ?n * inc \<le> hi" using m d by simp
  ultimately show ?thesis using assms(4) by (simp add: triple_rep_def range_loop.simps[of "first + _"])
qed

theorem triple_rep_counts_witness: "triple_rep 1 7 3 = Some ''{1,4,7,''"
proof -
  have "numbered 1 3 3 = ''1,4,7,''" by code_simp
  then show ?thesis using triple_rep_counts[of 1 7 3] by simp
qed

text \<open>With a negative increment a range is never expanded: between different bounds no number is
  produced, and a range of equal bounds is counted down without end, a number at a time, for as long
  as the count fits in 64 bits.\<close>

theorem triple_rep_negative:
  assumes "inc < 0" and "in32 first" and "in32 inc"
  shows "(first < hi \<longrightarrow> triple_rep first hi inc = Some ''{'')
    \<and> (\<forall>n. - (2 ^ 63) \<le> first + int n * inc \<longrightarrow> triple_rep first first inc =
          range_loop (first + int n * inc) first inc (''{'' @ numbered first inc n))"
proof (intro conjI impI allI)
  show "triple_rep first hi inc = Some ''{''" if "first < hi"
    using assms that by (simp add: triple_rep_def range_loop.simps[of hi])
  fix n assume n: "- (2 ^ 63) \<le> first + int n * inc"
  have "first + int k * inc \<le> first \<and> in64 (first + int (Suc k) * inc)" if "k < n" for k
  proof -
    have "int n * inc \<le> int (Suc k) * inc" using that assms(1) by (intro mult_right_mono_neg) auto
    moreover have "int k * inc \<le> 0" "int (Suc k) * inc \<le> 0"
      using assms(1) by (simp_all add: mult_nonneg_nonpos)
    ultimately show ?thesis using n assms(2) by auto
  qed
  then have "range_loop first first inc ''{'' =
      range_loop (first + int n * inc) first inc (''{'' @ numbered first inc n)"
    by (intro range_loop_steps) blast
  then show "triple_rep first first inc =
      range_loop (first + int n * inc) first inc (''{'' @ numbered first inc n)"
    using assms(1) by (simp add: triple_rep_def)
qed

theorem triple_rep_negative_witness:
  "triple_rep 5 5 (- 1) = range_loop (- 1000000) 5 (- 1) (''{'' @ numbered 5 (- 1) 1000005)"
  using triple_rep_negative[of "- 1" 5 6] by (auto dest: spec[of _ 1000005])

end
