(* ===== verification/Traversal.thy ===== *)
theory Traversal
  imports NodeListing BraceExpansion
begin

text \<open>
  Path patterns (network/common/path.hpp and .cpp): the construction of a path from a pattern, the
  functions a path applies to lists of nodes, the regular expressions they use, and the functions of
  node_functions.cpp that find and create nodes by pattern.

  A child function, a closure in the source, is a value of \<open>child_function\<close>; a compiled regular
  expression is its text. The RE2 library's \<open>FullMatch\<close> is the parameter \<open>full_match\<close> (name, regular
  expression); \<open>boost::split\<close>, \<open>boost::starts_with\<close>, \<open>boost::ends_with\<close> and \<open>boost::is_any_of\<close> are
  \<open>split\<close>, \<open>sw\<close>, \<open>ew\<close> and \<open>any_of\<close>; \<open>rx\<close> is the regular expressions of \<open>expand_ranges\<close>.
\<close>

section \<open>Regular expressions for paths\<close>

definition name_characters :: string where
  "name_characters = ''a-zA-Z0-9_~(): .-''"

definition name_characters_no_instance :: string where
  "name_characters_no_instance = ''a-zA-Z0-9_~(): -''"

definition instance_regex :: string where
  "instance_regex = [CHR ''('', CHR 0x5C] @ ''.['' @ name_characters_no_instance @ '']+)?''"

text \<open>The builders of the namespace \<open>regex_path\<close>, on the address of their operands.\<close>

definition rp_device :: "string \<Rightarrow> string" where
  "rp_device s = ''^'' @ s @ '':''"

definition rp_any_instance :: "string \<Rightarrow> string" where
  "rp_any_instance s = s @ instance_regex"

definition rp_any_between :: "string list \<Rightarrow> string" where
  "rp_any_between args =
     (case args of
        [] \<Rightarrow> []
      | a # as \<Rightarrow> ''('' @ a @ concat (map (\<lambda>s. CHR ''|'' # s) as) @ '')'')"

definition rp_child :: "string \<Rightarrow> string \<Rightarrow> string" where
  "rp_child lhs rhs = lhs @ [CHR 0x5C, CHR ''/''] @ rhs"

definition rp_any_node :: "string \<Rightarrow> string" where
  "rp_any_node lhs = lhs @ [CHR 0x5C, CHR ''/''] @ ''['' @ name_characters @ '']*''"

definition rp_any_path :: "string \<Rightarrow> string" where
  "rp_any_path lhs = lhs @ [CHR ''('', CHR 0x5C, CHR ''/''] @ ''['' @ name_characters @ '']*)+''"

definition rp_any_path_from :: "string \<Rightarrow> string" where
  "rp_any_path_from rhs =
     ''^(['' @ name_characters @ '']*:)('' @ [CHR 0x5C, CHR ''/''] @ ''?['' @ name_characters
     @ '']*)+'' @ [CHR 0x5C, CHR ''/''] @ rhs"

definition rp_stop :: "string \<Rightarrow> string" where
  "rp_stop lhs = lhs @ ''$''"

definition substitute_char :: "char \<Rightarrow> string" where
  "substitute_char c =
     (if c = CHR ''('' then [CHR 0x5C, CHR ''('']
      else if c = CHR '')'' then [CHR 0x5C, CHR '')'']
      else if c = CHR ''{'' then ''(''
      else if c = CHR ''}'' then '')''
      else if c = CHR '','' then ''|''
      else if c = CHR ''?'' then ''['' @ name_characters @ '']?''
      else if c = CHR ''*'' then ''['' @ name_characters @ '']*''
      else if c = CHR ''!'' then instance_regex
      else [c])"

definition substitute_characters :: "string \<Rightarrow> string" where
  "substitute_characters part = concat (map substitute_char part)"

definition make_regex :: "regexes \<Rightarrow> string \<Rightarrow> string option" where
  "make_regex rx part =
     Option.bind (expand_ranges rx part) (\<lambda>part1. Some (''^'' @ substitute_characters part1 @ ''$''))"

definition is_regex :: "string \<Rightarrow> bool" where
  "is_regex v = list_ex (\<lambda>c. c = CHR ''('' \<or> c = CHR ''{'' \<or> c = CHR ''['' \<or> c = CHR ''*'' \<or> c = CHR ''?''
     \<or> c = CHR ''^'' \<or> c = CHR ''$'' \<or> c = CHR 0x5C \<or> c = CHR ''/'' \<or> c = CHR ''.''
     \<or> c = CHR '','' \<or> c = CHR ''!'') v"

section \<open>Child functions\<close>

datatype child_function =
    Get_parent
  | Get_all_children
  | Match_device_regex string
  | Match_device_simple string
  | Match_regex string
  | Match_simple string
  | Match_all string

definition get_parent :: "device \<Rightarrow> nat list \<Rightarrow> nat list" where
  "get_parent st old =
     fst (fold (\<lambda>ptr (vec, inserted).
       (case parent_of st ptr of
          Some par \<Rightarrow> if par \<notin> set inserted then (vec @ [par], par # inserted) else (vec, inserted)
        | None \<Rightarrow> (vec, inserted))) old ([], []))"

text \<open>\<open>get_all_children_rec\<close>: what is left of \<open>source\<close>, and \<open>vec\<close>. The set \<open>inserted\<close> is looked up but
  nothing is ever put in it.\<close>

partial_function (option) get_all_children_rec ::
    "device \<Rightarrow> nat list \<Rightarrow> nat list \<Rightarrow> nat list \<Rightarrow> nat list option" where
  "get_all_children_rec st inserted source vec =
     (case source of
        [] \<Rightarrow> Some vec
      | node # rest \<Rightarrow>
          (let sub = filter (\<lambda>c. c \<notin> set inserted) (kids st node)
           in Option.bind (get_all_children_rec st inserted sub sub)
                (\<lambda>sub1. get_all_children_rec st inserted rest (vec @ sub1))))"

definition get_all_children :: "device \<Rightarrow> nat list \<Rightarrow> nat list option" where
  "get_all_children st vec = get_all_children_rec st [] vec vec"

text \<open>The device of every node here is the one its store models; its root is node 0.\<close>

definition match_device_with_regex :: "(string \<Rightarrow> string \<Rightarrow> bool) \<Rightarrow> device \<Rightarrow> nat list \<Rightarrow> string \<Rightarrow> nat list" where
  "match_device_with_regex full_match st vec r = filter (\<lambda>_. full_match (name_of st 0) r) vec"

definition match_device_simple :: "device \<Rightarrow> nat list \<Rightarrow> string \<Rightarrow> nat list" where
  "match_device_simple st vec r = filter (\<lambda>_. name_of st 0 = r) vec"

definition match_with_regex :: "(string \<Rightarrow> string \<Rightarrow> bool) \<Rightarrow> device \<Rightarrow> nat list \<Rightarrow> string \<Rightarrow> nat list" where
  "match_with_regex full_match st vec r =
     concat (map (\<lambda>node. filter (\<lambda>c. full_match (name_of st c) r) (kids st node)) vec)"

definition match_simple :: "device \<Rightarrow> nat list \<Rightarrow> string \<Rightarrow> nat list" where
  "match_simple st vec r = concat (map (\<lambda>node. filter (\<lambda>c. name_of st c = r) (kids st node)) vec)"

definition match_all :: "device \<Rightarrow> nat list \<Rightarrow> nat list" where
  "match_all st vec = concat (map (kids st) vec)"

definition run_child_function ::
    "(string \<Rightarrow> string \<Rightarrow> bool) \<Rightarrow> device \<Rightarrow> child_function \<Rightarrow> nat list \<Rightarrow> nat list option" where
  "run_child_function full_match st f v =
     (case f of
        Get_parent \<Rightarrow> Some (get_parent st v)
      | Get_all_children \<Rightarrow> get_all_children st v
      | Match_device_regex r \<Rightarrow> Some (match_device_with_regex full_match st v r)
      | Match_device_simple r \<Rightarrow> Some (match_device_simple st v r)
      | Match_regex r \<Rightarrow> Some (match_with_regex full_match st v r)
      | Match_simple r \<Rightarrow> Some (match_simple st v r)
      | Match_all _ \<Rightarrow> Some (match_all st v))"

record path_pattern =
  pattern :: string
  scope :: address_scope
  child_functions :: "child_function list"

definition apply_path ::
    "(string \<Rightarrow> string \<Rightarrow> bool) \<Rightarrow> device \<Rightarrow> path_pattern \<Rightarrow> nat list \<Rightarrow> nat list option" where
  "apply_path full_match st p nodes0 =
     fold (\<lambda>f acc. Option.bind acc (run_child_function full_match st f)) (child_functions p) (Some nodes0)"

section \<open>From patterns to paths\<close>

text \<open>The cache of compiled regular expressions, and its use by the two functions that add a part:
  the one in the cache if there is one, else a new one that is cached.\<close>

type_synonym regex_cache = "string \<Rightarrow> string option"

definition cached_regex :: "regexes \<Rightarrow> regex_cache \<Rightarrow> string \<Rightarrow> (regex_cache \<times> string) option" where
  "cached_regex rx cache part =
     (case cache part of
        Some r \<Rightarrow> Some (cache, r)
      | None \<Rightarrow> Option.bind (make_regex rx part) (\<lambda>r. Some (cache(part \<mapsto> r), r)))"

definition add_function :: "child_function \<Rightarrow> path_pattern \<Rightarrow> path_pattern" where
  "add_function f p = p\<lparr>child_functions := child_functions p @ [f]\<rparr>"

definition add_device_part ::
    "regexes \<Rightarrow> string \<Rightarrow> regex_cache \<times> path_pattern \<Rightarrow> (regex_cache \<times> path_pattern) option" where
  "add_device_part rx part cp =
     (let (cache, p) = cp
      in if \<not> is_regex part then Some (cache, add_function (Match_device_simple part) p)
         else Option.bind (cached_regex rx cache part) (\<lambda>(cache1, r).
           Some (cache1, add_function (Match_device_regex r) p)))"

definition add_relative_path ::
    "regexes \<Rightarrow> string \<Rightarrow> regex_cache \<times> path_pattern \<Rightarrow> (regex_cache \<times> path_pattern) option" where
  "add_relative_path rx part cp =
     (let (cache, p) = cp
      in if part \<noteq> ''..'' then
           if \<not> is_regex part then Some (cache, add_function (Match_simple part) p)
           else if part = ''*'' then Some (cache, add_function (Match_all part) p)
           else Option.bind (cached_regex rx cache part) (\<lambda>(cache1, r).
             Some (cache1, add_function (Match_regex r) p))
         else Some (cache, add_function Get_parent p))"

definition is_pattern :: "(string \<Rightarrow> string \<Rightarrow> bool) \<Rightarrow> (string \<Rightarrow> char \<Rightarrow> bool) \<Rightarrow> string \<Rightarrow> bool" where
  "is_pattern sw any_of address =
     (if sw address ''//'' then True else list_ex (any_of ''?*[]{}!'') address)"

definition add_simple_address ::
    "(string \<Rightarrow> string \<Rightarrow> string list) \<Rightarrow> regexes \<Rightarrow> string \<Rightarrow> regex_cache \<times> path_pattern
     \<Rightarrow> (regex_cache \<times> path_pattern) option" where
  "add_simple_address split rx address cp =
     fold (\<lambda>part acc. Option.bind acc (add_relative_path rx part)) (address_parts split address) (Some cp)"

definition add_address ::
    "(string \<Rightarrow> string \<Rightarrow> string list) \<Rightarrow> (string \<Rightarrow> string \<Rightarrow> bool) \<Rightarrow> regexes \<Rightarrow> string
     \<Rightarrow> regex_cache \<times> path_pattern \<Rightarrow> (regex_cache \<times> path_pattern) option" where
  "add_address split sw rx address cp =
     (let (cache, p) = cp
      in if sw address ''//''
         then add_simple_address split rx (drop 2 address) (cache, add_function Get_all_children p)
         else add_simple_address split rx address cp)"

definition make_path ::
    "(string \<Rightarrow> string \<Rightarrow> string list) \<Rightarrow> (string \<Rightarrow> string \<Rightarrow> bool) \<Rightarrow> regexes \<Rightarrow> regex_cache \<Rightarrow> string
     \<Rightarrow> (regex_cache \<times> path_pattern) option" where
  "make_path split sw rx cache address =
     (let scp = get_address_scope sw address;
          p = \<lparr>pattern = address, scope = scp, child_functions = []\<rparr>
      in if address = [] then Some (cache, p)
         else
           (case scp of
              Global \<Rightarrow>
                (let start = the (find_first_of CHR ''/'' address)
                 in Option.bind (add_device_part rx (take (start - 1) address) (cache, p))
                      (add_address split sw rx (drop start address)))
            | _ \<Rightarrow> add_address split sw rx address (cache, p)))"

definition match_path :: "(string \<Rightarrow> string \<Rightarrow> bool) \<Rightarrow> device \<Rightarrow> path_pattern \<Rightarrow> nat \<Rightarrow> nat \<Rightarrow> bool option" where
  "match_path full_match st p node root =
     map_option (\<lambda>vec. node \<in> set vec) (apply_path full_match st p [root])"

section \<open>Nodes by pattern\<close>

text \<open>The libraries the functions below use.\<close>

record libraries =
  lib_split :: "string \<Rightarrow> string \<Rightarrow> string list"
  lib_starts :: "string \<Rightarrow> string \<Rightarrow> bool"
  lib_ends :: "string \<Rightarrow> string \<Rightarrow> bool"
  lib_any_of :: "string \<Rightarrow> char \<Rightarrow> bool"
  lib_match :: "string \<Rightarrow> string \<Rightarrow> bool"
  lib_rx :: regexes

definition find_nodes :: "libraries \<Rightarrow> regex_cache \<Rightarrow> device \<Rightarrow> nat \<Rightarrow> string \<Rightarrow> (regex_cache \<times> nat list) option" where
  "find_nodes lib cache st root pat =
     (if \<not> is_pattern (lib_starts lib) (lib_any_of lib) pat then
        (case find_node (lib_starts lib) (lib_ends lib) st root pat of
           Some n \<Rightarrow> Some (cache, [n])
         | None \<Rightarrow> Some (cache, []))
      else
        Option.bind (make_path (lib_split lib) (lib_starts lib) (lib_rx lib) cache pat) (\<lambda>(cache1, p).
          map_option (Pair cache1) (apply_path (lib_match lib) st p [root])))"

definition expand_address :: "libraries \<Rightarrow> string \<Rightarrow> (string list \<times> bool) option" where
  "expand_address lib address =
     (if is_brace_expansion address then
        Option.bind (canonicalize_str (lib_rx lib) address) (\<lambda>str.
          map_option (\<lambda>names. (names, True)) (expand str))
      else Some ([address], False))"

text \<open>Creating a node for each of a list of addresses, in order.\<close>

fun create_each :: "libraries \<Rightarrow> device \<Rightarrow> nat \<Rightarrow> string list \<Rightarrow> (node_error + device \<times> nat list) option" where
  "create_each lib st dev [] = Some (Inr (st, []))"
| "create_each lib st dev (addr # addrs) =
     (case create_node (lib_starts lib) (lib_ends lib) st dev addr of
        None \<Rightarrow> None
      | Some (Inl e) \<Rightarrow> Some (Inl e)
      | Some (Inr (st1, n)) \<Rightarrow>
          map_option (map_sum id (\<lambda>(st2, ns). (st2, n # ns))) (create_each lib st1 dev addrs))"

definition create_nodes :: "libraries \<Rightarrow> device \<Rightarrow> nat \<Rightarrow> string \<Rightarrow> (node_error + device \<times> nat list) option" where
  "create_nodes lib st dev pat =
     (if is_brace_expansion pat then
        Option.bind (canonicalize_str (lib_rx lib) pat) (\<lambda>str.
        Option.bind (expand str) (\<lambda>expanded. create_each lib st dev expanded))
      else create_each lib st dev [pat])"

text \<open>The nodes of \<open>find_parameter_or_create_node\<close>, before it sets parameters up on them.\<close>

definition remove_one_if :: "('a \<Rightarrow> bool) \<Rightarrow> 'a list \<Rightarrow> 'a list" where
  "remove_one_if P xs = takeWhile (\<lambda>x. \<not> P x) xs @ tl (dropWhile (\<lambda>x. \<not> P x) xs)"

fun reuse_or_create ::
    "libraries \<Rightarrow> nat \<Rightarrow> string \<Rightarrow> bool \<Rightarrow> nat list \<Rightarrow> device \<times> nat list \<times> string list
     \<Rightarrow> (node_error + device \<times> nat list \<times> string list) option" where
  "reuse_or_create lib node address pattern_matching [] acc = Some (Inr acc)"
| "reuse_or_create lib node address pattern_matching (n # found) (st, ns, names) =
     (let names1 = (if pattern_matching then remove_one_if (\<lambda>s. s = name_of st n) names
                    else remove_one_if (\<lambda>s. s = address) names)
      in if has_parameter st n then
           (case create_node (lib_starts lib) (lib_ends lib) st node address of
              None \<Rightarrow> None
            | Some (Inl e) \<Rightarrow> Some (Inl e)
            | Some (Inr (st1, m)) \<Rightarrow>
                reuse_or_create lib node address pattern_matching found (st1, ns @ [m], names1))
         else reuse_or_create lib node address pattern_matching found (st, ns @ [n], names1))"

definition nodes_for_parameters ::
    "libraries \<Rightarrow> regex_cache \<Rightarrow> device \<Rightarrow> nat \<Rightarrow> string \<Rightarrow> (node_error + device \<times> nat list) option" where
  "nodes_for_parameters lib cache st node address =
     Option.bind (expand_address lib address) (\<lambda>(names, pattern_matching).
     Option.bind (find_nodes lib cache st node address) (\<lambda>(_, found).
       (case reuse_or_create lib node address pattern_matching found (st, [], names) of
          None \<Rightarrow> None
        | Some (Inl e) \<Rightarrow> Some (Inl e)
        | Some (Inr (st1, ns, names1)) \<Rightarrow>
            map_option (map_sum id (\<lambda>(st2, ms). (st2, ns @ ms))) (create_each lib st1 node names1))))"

end
