(* ===== verification/TraversalProps.thy ===== *)
theory TraversalProps
  imports Traversal
begin

text \<open>
  What the child functions of a path compute on a well-formed device, why the cache of regular
  expressions cannot be observed, and that a path without special characters finds what \<open>find_node\<close>
  finds.
\<close>

section \<open>Parents\<close>

definition first_occurrences :: "'a list \<Rightarrow> 'a list" where
  "first_occurrences xs = rev (remdups (rev xs))"

lemma first_occurrences_snoc:
  "first_occurrences (xs @ [x]) = (if x \<in> set xs then first_occurrences xs else first_occurrences xs @ [x])"
  by (simp add: first_occurrences_def)

lemma map_filter_snoc:
  "List.map_filter f (xs @ [x]) = List.map_filter f xs @ (case f x of Some y \<Rightarrow> [y] | None \<Rightarrow> [])"
  by (simp add: List.map_filter_def split: option.split)

lemma get_parent_eq: "get_parent st old = first_occurrences (List.map_filter (parent_of st) old)"
proof -
  define step where "step = (\<lambda>ptr (vec, inserted).
    (case parent_of st ptr of
       Some par \<Rightarrow> if par \<notin> set inserted then (vec @ [par], par # inserted) else (vec, inserted)
     | None \<Rightarrow> (vec, inserted :: nat list)))"
  have "fst (fold step old ([], [])) = first_occurrences (List.map_filter (parent_of st) old)
      \<and> set (snd (fold step old ([], []))) = set (List.map_filter (parent_of st) old)"
  proof (induction old rule: rev_induct)
    case Nil
    then show ?case by (simp add: first_occurrences_def List.map_filter_def)
  next
    case (snoc x xs)
    obtain vec ins where "fold step xs ([], []) = (vec, ins)" by (cases "fold step xs ([], [])")
    with snoc show ?case
      by (cases "parent_of st x") (auto simp: step_def map_filter_snoc first_occurrences_snoc)
  qed
  then show ?thesis by (simp add: get_parent_def step_def)
qed

section \<open>All children\<close>

lemma apart_count:
  "apart ch js \<Longrightarrow> length (filter (\<lambda>v. x \<in> below ch [v]) js) = (if x \<in> below ch js then 1 else 0)"
proof (induction js)
  case (Cons j js)
  then show ?case by (auto simp: below_Cons[of ch j js])
qed simp

lemma count_split:
  assumes "\<And>v. v \<notin> below ch (ch v)"
  shows "count_list js x + length (filter (\<lambda>v. x \<in> below ch (ch v)) js)
    = length (filter (\<lambda>v. x \<in> below ch [v]) js)"
proof (induction js)
  case (Cons j js)
  then show ?case using assms[of x] by (auto simp: below_single[of ch j])
qed simp

lemma get_all_children_effect:
  assumes wf: "wf_device st" and "\<forall>j\<in>set js. j < next_id st"
  shows "\<exists>l. (\<forall>vec. get_all_children_rec st [] js vec = Some (vec @ l))
    \<and> (\<forall>x. count_list l x = length (filter (\<lambda>v. x \<in> below (kids st) (kids st v)) js))"
  using wf_orderedD[OF wf] assms(2)
proof (induction js rule: tree.forest_induct)
  case Nil
  then show ?case by (simp add: get_all_children_rec.simps)
next
  case (Cons j js)
  obtain l1 where l1: "\<And>vec. get_all_children_rec st [] (kids st j) vec = Some (vec @ l1)"
    "\<And>x. count_list l1 x = length (filter (\<lambda>v. x \<in> below (kids st) (kids st v)) (kids st j))"
    using Cons by blast
  obtain l2 where l2: "\<And>vec. get_all_children_rec st [] js vec = Some (vec @ l2)"
    "\<And>x. count_list l2 x = length (filter (\<lambda>v. x \<in> below (kids st) (kids st v)) js)"
    using Cons by blast
  have self: "v \<notin> below (kids st) (kids st v)" for v
    using tree.below_after[OF wf_orderedD[OF wf], of v v] by auto
  have "apart (kids st) (kids st j)"
    using siblings_apart[of "kids st" st j] wf by (simp add: arranged_def)
  then have "count_list (kids st j) x + count_list l1 x = (if x \<in> below (kids st) (kids st j) then 1 else 0)" for x
    using count_split[of "kids st" "kids st j" x] self apart_count[of "kids st" "kids st j" x] l1(2)[of x]
    by simp
  then have "count_list (kids st j @ l1 @ l2) x
      = length (filter (\<lambda>v. x \<in> below (kids st) (kids st v)) (j # js))" for x
    using l2(2)[of x] by simp
  moreover have "get_all_children_rec st [] (j # js) vec = Some (vec @ kids st j @ l1 @ l2)" for vec
    by (simp add: get_all_children_rec.simps[of st "[]" "j # js"] l1 l2)
  ultimately show ?case by blast
qed

section \<open>The cache\<close>

definition cache_valid :: "regexes \<Rightarrow> regex_cache \<Rightarrow> bool" where
  "cache_valid rx cache \<longleftrightarrow> (\<forall>part r. cache part = Some r \<longrightarrow> make_regex rx part = Some r)"

text \<open>Two runs that differ in their caches only.\<close>

definition agree :: "regexes \<Rightarrow> (regex_cache \<times> 'a) option \<Rightarrow> (regex_cache \<times> 'a) option \<Rightarrow> bool" where
  "agree rx x y \<longleftrightarrow>
     (x = None \<and> y = None) \<or>
     (\<exists>c d p. x = Some (c, p) \<and> y = Some (d, p) \<and> cache_valid rx c \<and> cache_valid rx d)"

lemma agree_cached:
  assumes "cache_valid rx c" and "cache_valid rx d"
  shows "agree rx (cached_regex rx c part) (cached_regex rx d part)"
proof -
  have "c part = Some r \<Longrightarrow> make_regex rx part = Some r" "d part = Some r \<Longrightarrow> make_regex rx part = Some r" for r
    using assms by (simp_all add: cache_valid_def)
  then show ?thesis
    using assms by (cases "c part"; cases "d part"; cases "make_regex rx part")
      (simp_all add: agree_def cached_regex_def cache_valid_def)
qed

lemma agree_bind:
  assumes "agree rx x y"
    and "\<And>c d p. cache_valid rx c \<Longrightarrow> cache_valid rx d \<Longrightarrow> agree rx (f (c, p)) (f (d, p))"
  shows "agree rx (Option.bind x f) (Option.bind y f)"
proof (cases "x = None \<and> y = None")
  case True
  then show ?thesis by (simp add: agree_def)
next
  case False
  then obtain c d p where "x = Some (c, p)" "y = Some (d, p)" "cache_valid rx c" "cache_valid rx d"
    using assms(1) by (auto simp: agree_def)
  then show ?thesis using assms(2) by simp
qed

lemma agree_pair: "cache_valid rx c \<Longrightarrow> cache_valid rx d \<Longrightarrow> agree rx (Some (c, p)) (Some (d, p))"
  by (simp add: agree_def)

lemma agree_with_regex:
  assumes "cache_valid rx c" and "cache_valid rx d"
  shows "agree rx (Option.bind (cached_regex rx c part) (\<lambda>(c1, r). Some (c1, g r)))
    (Option.bind (cached_regex rx d part) (\<lambda>(c1, r). Some (c1, g r)))"
  by (rule agree_bind[OF agree_cached[OF assms]]) (simp add: agree_pair)

lemma agree_device_part:
  "cache_valid rx c \<Longrightarrow> cache_valid rx d \<Longrightarrow> agree rx (add_device_part rx part (c, p)) (add_device_part rx part (d, p))"
  by (simp add: add_device_part_def agree_pair agree_with_regex)

lemma agree_relative_path:
  "cache_valid rx c \<Longrightarrow> cache_valid rx d \<Longrightarrow> agree rx (add_relative_path rx part (c, p)) (add_relative_path rx part (d, p))"
  by (simp add: add_relative_path_def agree_pair agree_with_regex)

lemma agree_simple_address:
  assumes "cache_valid rx c" and "cache_valid rx d"
  shows "agree rx (add_simple_address split rx address (c, p)) (add_simple_address split rx address (d, p))"
proof -
  have "agree rx x y \<Longrightarrow>
    agree rx (fold (\<lambda>part acc. Option.bind acc (add_relative_path rx part)) parts x)
      (fold (\<lambda>part acc. Option.bind acc (add_relative_path rx part)) parts y)"
    for parts and x y :: "(regex_cache \<times> path_pattern) option"
    by (induction parts arbitrary: x y) (auto intro: agree_bind agree_relative_path)
  then show ?thesis using assms by (simp add: add_simple_address_def agree_pair)
qed

lemma agree_address:
  "cache_valid rx c \<Longrightarrow> cache_valid rx d \<Longrightarrow>
   agree rx (add_address split sw rx address (c, p)) (add_address split sw rx address (d, p))"
  by (simp add: add_address_def agree_simple_address)

lemma agree_make_path:
  "cache_valid rx c \<Longrightarrow> cache_valid rx d \<Longrightarrow>
   agree rx (make_path split sw rx c address) (make_path split sw rx d address)"
  by (auto simp: make_path_def Let_def agree_pair agree_address
      intro!: agree_bind agree_device_part agree_address split: address_scope.split)

section \<open>Plain paths\<close>

lemma separator_unique:
  "a @ c # s = b @ c # t \<Longrightarrow> c \<notin> set a \<Longrightarrow> c \<notin> set b \<Longrightarrow> a = b \<and> s = t"
proof (induction a arbitrary: b)
  case Nil
  then show ?case by (cases b) auto
next
  case (Cons x a)
  then show ?case by (cases b) auto
qed

lemma join_on_eq:
  "xs \<noteq> [] \<Longrightarrow> ys \<noteq> [] \<Longrightarrow> \<forall>x\<in>set xs. c \<notin> set x \<Longrightarrow> \<forall>y\<in>set ys. c \<notin> set y \<Longrightarrow>
   join_on c xs = join_on c ys \<Longrightarrow> xs = ys"
proof (induction xs arbitrary: ys)
  case (Cons x xs)
  obtain y zs where ys: "ys = y # zs" using Cons.prems by (cases ys) auto
  show ?case
  proof (cases xs; cases zs)
    fix x1 xs1 y1 zs1
    assume e: "xs = x1 # xs1" "zs = y1 # zs1"
    then have "x @ c # join_on c xs = y @ c # join_on c zs" using Cons.prems ys by simp
    then have "x = y" "join_on c xs = join_on c zs"
      using separator_unique[of x c "join_on c xs" y "join_on c zs"] Cons.prems ys by auto
    moreover have "xs = zs" using e Cons.prems ys calculation(2) by (intro Cons.IH) auto
    ultimately show ?thesis using ys by simp
  next
    fix y1 zs1
    assume "xs = []" "zs = y1 # zs1"
    then have "c \<in> set x" using Cons.prems(5) ys by simp
    then show ?thesis using Cons.prems by simp
  next
    fix x1 xs1
    assume e: "xs = x1 # xs1" "zs = []"
    then have "c \<in> set y" using Cons.prems(5) ys by (metis in_set_conv_decomp join_on.simps(2,3))
    then show ?thesis using Cons.prems ys by simp
  qed (use Cons.prems ys in simp)
qed simp

lemma split_join:
  assumes "split_doc split" and "ps \<noteq> []" and "\<forall>p\<in>set ps. c \<notin> set p"
  shows "split (join_on c ps) [c] = ps"
  using assms by (intro join_on_eq) (auto simp: split_doc_def)

lemma match_simple_one:
  assumes wf: "wf_device st"
  shows "match_simple st [a] p = (case find_child st a p of Some c \<Rightarrow> [c] | None \<Rightarrow> [])"
proof (cases "find_child st a p")
  case None
  then have "name_of st c \<noteq> p" if "c \<in> set (kids st a)" for c
    using that by (auto simp: find_child_None children_names_def)
  then show ?thesis using None by (simp add: match_simple_def filter_empty_conv)
next
  case (Some c)
  then have c: "c \<in> set (kids st a)" "name_of st c = p" by (auto dest: find_child_Some)
  have "name_of st d = p \<longleftrightarrow> d = c" if "d \<in> set (kids st a)" for d
    using wf_names_distinct[OF wf, of a] c that by (auto simp: children_names_def distinct_map inj_on_def)
  then have "filter (\<lambda>d. name_of st d = p) (kids st a) = filter (\<lambda>d. d = c) (kids st a)"
    by (intro filter_cong) auto
  also have "\<dots> = [c]"
    using c(1) wf_orderedD[OF wf] by (intro filter_eq_single) (simp_all add: ordered_def)
  finally show ?thesis using Some by (simp add: match_simple_def)
qed

lemma apply_simple:
  assumes wf: "wf_device st"
  shows "ps \<noteq> [] \<Longrightarrow> \<forall>p\<in>set ps. CHR ''/'' \<notin> set p \<Longrightarrow>
    fold (\<lambda>f acc. Option.bind acc (run_child_function full_match st f)) (map Match_simple ps) (Some [a])
      = Some (case find_node_rec st a (join_on CHR ''/'' ps) of Some n \<Rightarrow> [n] | None \<Rightarrow> [])"
proof (induction ps arbitrary: a)
  case (Cons p ps)
  have r: "run_child_function full_match st (Match_simple p) [a]
      = Some (case find_child st a p of Some c \<Rightarrow> [c] | None \<Rightarrow> [])"
    using match_simple_one[OF wf] by (simp add: run_child_function_def)
  have empty: "fold (\<lambda>f acc. Option.bind acc (run_child_function full_match st f)) (map Match_simple qs) (Some [])
      = Some []" for qs
    by (induction qs) (simp_all add: run_child_function_def match_simple_def)
  have np: "CHR ''/'' \<notin> set p" using Cons.prems by simp
  show ?case
  proof (cases ps)
    case Nil
    then show ?thesis using r find_rec_last[OF np] by simp
  next
    case (Cons q qs)
    have j: "join_on CHR ''/'' (p # ps) = p @ CHR ''/'' # join_on CHR ''/'' ps" using Cons by simp
    show ?thesis
    proof (cases "find_child st a p")
      case None
      then show ?thesis using r empty by (simp add: j find_rec_step[OF np] del: join_on.simps)
    next
      case (Some c)
      have "fold (\<lambda>f acc. Option.bind acc (run_child_function full_match st f)) (map Match_simple ps) (Some [c])
          = Some (case find_node_rec st c (join_on CHR ''/'' ps) of Some n \<Rightarrow> [n] | None \<Rightarrow> [])"
        using Cons.IH Cons Cons.prems \<open>ps = q # qs\<close> by simp
      then show ?thesis using Some r by (simp add: j find_rec_step[OF np] del: join_on.simps)
    qed
  qed
qed simp

text \<open>Parts without special characters: what \<open>make_path\<close> makes of an absolute address of them.\<close>

definition plain_parts :: "string list \<Rightarrow> bool" where
  "plain_parts ps \<longleftrightarrow> ps \<noteq> [] \<and> list_all (\<lambda>p. p \<noteq> [] \<and> \<not> is_regex p) ps"

lemma not_regex: "\<not> is_regex p \<Longrightarrow> CHR ''/'' \<notin> set p \<and> p \<noteq> ''..''"
proof -
  assume n: "\<not> is_regex p"
  have "CHR ''/'' \<in> set p \<Longrightarrow> is_regex p" unfolding is_regex_def list_ex_iff by blast
  moreover have "is_regex ''..''" by code_simp
  ultimately show "CHR ''/'' \<notin> set p \<and> p \<noteq> ''..''" using n by blast
qed

lemma plain_partsD:
  assumes "plain_parts ps" and "p \<in> set ps"
  shows "p \<noteq> []" "\<not> is_regex p" "CHR ''/'' \<notin> set p" "hd p \<noteq> CHR ''/''" "last p \<noteq> CHR ''/''"
proof -
  show p: "p \<noteq> []" "\<not> is_regex p" using assms by (auto simp: plain_parts_def list_all_iff)
  then show s: "CHR ''/'' \<notin> set p" using not_regex by blast
  show "hd p \<noteq> CHR ''/''" using hd_in_set[OF p(1)] s by metis
  show "last p \<noteq> CHR ''/''" using last_in_set[OF p(1)] s by metis
qed

lemma add_plain_parts:
  "list_all (\<lambda>p. \<not> is_regex p) ps \<Longrightarrow>
   fold (\<lambda>part acc. Option.bind acc (add_relative_path rx part)) ps (Some (cache, p))
   = Some (cache, p\<lparr>child_functions := child_functions p @ map Match_simple ps\<rparr>)"
proof (induction ps arbitrary: p)
  case (Cons q ps)
  then show ?case using not_regex[of q] by (simp add: add_relative_path_def add_function_def)
qed simp

lemma plain_join_ends:
  assumes "plain_parts ps"
  shows "join_on CHR ''/'' ps \<noteq> [] \<and> hd (join_on CHR ''/'' ps) \<noteq> CHR ''/''
    \<and> last (join_on CHR ''/'' ps) \<noteq> CHR ''/''"
proof (rule join_ends)
  show "ps \<noteq> []" using assms by (simp add: plain_parts_def)
  show "\<forall>x\<in>set ps. x \<noteq> [] \<and> hd x \<noteq> CHR ''/'' \<and> last x \<noteq> CHR ''/''"
    using plain_partsD[OF assms] by blast
qed

lemma make_path_plain:
  assumes "split_doc split" and "starts_doc sw" and ps: "plain_parts ps"
  shows "make_path split sw rx cache (CHR ''/'' # join_on CHR ''/'' ps) =
    Some (cache, \<lparr>pattern = CHR ''/'' # join_on CHR ''/'' ps, scope = Absolute,
                  child_functions = map Match_simple ps\<rparr>)"
proof -
  let ?j = "join_on CHR ''/'' ps"
  note d = plain_partsD[OF ps]
  have ne: "ps \<noteq> []" using ps by (simp add: plain_parts_def)
  have j: "?j \<noteq> []" "hd ?j \<noteq> CHR ''/''" "last ?j \<noteq> CHR ''/''"
    using plain_join_ends[OF ps] by blast+
  have "\<not> sw (CHR ''/'' # ?j) ''//''" "sw (CHR ''/'' # ?j) ''/''"
    using assms(2) j by (auto simp: starts_doc_def)
  moreover have "address_parts split (CHR ''/'' # ?j) = ps"
    using split_join[OF assms(1) ne] j d by (simp add: address_parts_def)
  moreover have "list_all (\<lambda>p. \<not> is_regex p) ps" using d by (simp add: list_all_iff)
  ultimately show ?thesis
    by (simp add: make_path_def get_address_scope_def add_address_def add_simple_address_def
        add_plain_parts)
qed

section \<open>Properties\<close>

text \<open>The regular expressions of the examples, which have no braces to expand.\<close>

definition no_regexes :: regexes where
  "no_regexes = \<lparr> rx_ranges_3 = (\<lambda>_. []), rx_ranges_2 = (\<lambda>_. []), rx_alpha_low = (\<lambda>_. []),
     rx_alpha_up = (\<lambda>_. []), rx_class = (\<lambda>_. []), to_number = (\<lambda>_. 0) \<rparr>"

text \<open>\<open>get_parent\<close> gives the parents of the nodes, each once, in the order they are first
  met; nodes without a parent are dropped.\<close>

theorem get_parent_first_occurrences:
  "get_parent st old = first_occurrences (List.map_filter (parent_of st) old)"
  by (rule get_parent_eq)

text \<open>\<open>get_all_children\<close> returns and keeps the nodes it is given; it adds each node once for
  every given node it is below: nodes that are below two of them come twice.\<close>

theorem get_all_children_count:
  assumes "wf_device st" and "\<forall>j\<in>set vec. j < next_id st"
  shows "\<exists>l. get_all_children st vec = Some (vec @ l)
    \<and> (\<forall>x. count_list l x = length (filter (\<lambda>v. x \<in> below (kids st) (kids st v)) vec))"
  using get_all_children_effect[OF assms] by (auto simp: get_all_children_def)

theorem get_all_children_count_witness:
  "\<exists>l. get_all_children demo_device [0, 0] = Some ([0, 0] @ l) \<and> count_list l 1 = 2"
  using get_all_children_count[OF wf_demo, of "[0, 0]"] by (auto simp: demo_read below_single)

text \<open>The cache of regular expressions cannot be observed: with any valid cache, \<open>make_path\<close>
  makes the path it makes with the empty one, and the cache it leaves is valid.\<close>

theorem make_path_ignores_cache:
  assumes "cache_valid rx cache"
  shows "map_option snd (make_path split sw rx cache address)
      = map_option snd (make_path split sw rx Map.empty address)
    \<and> (\<forall>cache' p. make_path split sw rx cache address = Some (cache', p) \<longrightarrow> cache_valid rx cache')"
proof -
  have "cache_valid rx Map.empty" by (simp add: cache_valid_def)
  from agree_make_path[OF assms this, of split sw address] show ?thesis
    by (auto simp: agree_def)
qed

theorem make_path_ignores_cache_witness:
  "map_option snd (make_path split_on starts_ref no_regexes [''a*'' \<mapsto> ''^a[a-zA-Z0-9_~(): .-]*$''] ''/a*'')
   = map_option snd (make_path split_on starts_ref no_regexes Map.empty ''/a*'')"
proof (rule make_path_ignores_cache[THEN conjunct1])
  have "make_regex no_regexes ''a*'' = Some ''^a[a-zA-Z0-9_~(): .-]*$''"
    by (simp add: make_regex_def expand_ranges_def substitute_characters_def substitute_char_def
        name_characters_def)
  then show "cache_valid no_regexes [''a*'' \<mapsto> ''^a[a-zA-Z0-9_~(): .-]*$'']"
    by (simp add: cache_valid_def)
qed

text \<open>C34: For an absolute address whose parts hold no special character, applying its path to a node
  gives what \<open>find_node\<close> finds from there: that node alone, or nothing.\<close>

theorem plain_path_finds_node:
  assumes "split_doc split" and "starts_doc sw" and "ends_doc ew" and "wf_device st"
    and "plain_parts ps" and "address = CHR ''/'' # join_on CHR ''/'' ps"
  shows "Option.bind (make_path split sw rx cache address) (\<lambda>(_, p). apply_path full_match st p [a])
    = Some (case find_node sw ew st a address of Some n \<Rightarrow> [n] | None \<Rightarrow> [])"
proof -
  let ?j = "join_on CHR ''/'' ps"
  have ne: "ps \<noteq> []" using assms(5) by (simp add: plain_parts_def)
  note d = plain_partsD[OF assms(5)]
  have j: "?j \<noteq> []" "hd ?j \<noteq> CHR ''/''" "last ?j \<noteq> CHR ''/''"
    using plain_join_ends[OF assms(5)] by blast+
  have "find_node sw ew st a address = find_node_rec st a ?j"
    using j by (simp add: find_node_def sanitize_address_eq[OF assms(2,3)] assms(6) trim_slashes_Cons
        trim_slashes_id)
  then show ?thesis
    using apply_simple[OF assms(4) ne] d
    by (simp add: make_path_plain[OF assms(1,2,5)] assms(6) apply_path_def)
qed

theorem plain_path_finds_node_witness:
  "Option.bind (make_path split_on starts_ref no_regexes Map.empty ''/foo'')
     (\<lambda>(_, p). apply_path (\<lambda>_ _. False) demo_device p [0]) = Some [1]"
proof -
  have "plain_parts [''foo'']" by code_simp
  moreover have "find_node starts_ref ends_ref demo_device 0 ''/foo'' = Some 1"
    by (simp add: find_node_def sanitize_address_eq[OF starts_ref_doc ends_ref_doc] trim_slashes_def
        find_rec_last find_child_def demo_read)
  ultimately show ?thesis
    using plain_path_finds_node[OF split_on_doc starts_ref_doc ends_ref_doc wf_demo, of "[''foo'']" "''/foo''"]
    by simp
qed

end
