(* ===== verification/Values.thy ===== *)
theory Values
  imports Strings Complex_Main
begin

text \<open>
  Values and their comparisons (network/value/value.hpp, value.cpp, impulse.hpp and
  value_comparison.hpp). A \<open>value_t\<close> is the nullable variant of the source; the overloads of
  \<open>value_comparison_visitor2\<close> are the equations of \<open>visit\<close>, chosen as C++ overload resolution chooses
  them. Floats are only compared here: a \<open>float\<close> is not a number, an infinity, or the rational
  number it denotes (both zeros denote 0). An \<open>int32_t\<close> is converted to the nearest float before
  it is compared with one.
\<close>

section \<open>Floats\<close>

datatype f32 = Nan | Infty bool | Fin rat

fun f32_lt :: "f32 \<Rightarrow> f32 \<Rightarrow> bool" where
  "f32_lt Nan _ = False"
| "f32_lt _ Nan = False"
| "f32_lt (Infty neg) b = (neg \<and> b \<noteq> Infty True)"
| "f32_lt (Fin a) (Infty neg) = (\<not> neg)"
| "f32_lt (Fin a) (Fin b) = (a < b)"

definition f32_eq :: "f32 \<Rightarrow> f32 \<Rightarrow> bool" where
  "f32_eq a b \<longleftrightarrow> a \<noteq> Nan \<and> a = b"

text \<open>The conversion of an \<open>int32_t\<close>: 24 significant bits, rounded to nearest, ties to even.\<close>

function scale_to_24 :: "int \<Rightarrow> nat" where
  "scale_to_24 n = (if n < 2 ^ 24 then 0 else Suc (scale_to_24 (n div 2)))"
  by pat_completeness auto
termination
  by (relation "measure nat") auto

declare scale_to_24.simps [simp del]

definition round_even :: "int \<Rightarrow> int \<Rightarrow> int" where
  "round_even n d =
     (let q = n div d; r = n mod d
      in if 2 * r < d then q else if 2 * r > d then q + 1 else if even q then q else q + 1)"

definition int_to_f32 :: "int \<Rightarrow> f32" where
  "int_to_f32 n =
     (let d = 2 ^ scale_to_24 \<bar>n\<bar>; m = round_even \<bar>n\<bar> d * d
      in Fin (of_int (if n < 0 then - m else m)))"

section \<open>Values\<close>

datatype value_t =
    Null
  | Float f32
  | Int32 int
  | Vec2f f32 f32
  | Vec3f f32 f32 f32
  | Vec4f f32 f32 f32 f32
  | Impulse
  | Bool bool
  | String string
  | VList "value_t list"
  | VMap "(string \<times> value_t) list"

definition valid :: "value_t \<Rightarrow> bool" where
  "valid v \<longleftrightarrow> v \<noteq> Null"

text \<open>The comparators \<open>std::equal_to\<close>, \<open>greater\<close>, \<open>greater_equal\<close>, \<open>less\<close> and \<open>less_equal\<close>, on the types
  they are used on. Strings compare by unsigned bytes.\<close>

datatype compare_op = Equal_to | Greater | Greater_equal | Less | Less_equal

definition int_compare :: "compare_op \<Rightarrow> int \<Rightarrow> int \<Rightarrow> bool" where
  "int_compare c a b =
     (case c of
        Equal_to \<Rightarrow> a = b | Greater \<Rightarrow> a > b | Greater_equal \<Rightarrow> a \<ge> b
      | Less \<Rightarrow> a < b | Less_equal \<Rightarrow> a \<le> b)"

definition f32_compare :: "compare_op \<Rightarrow> f32 \<Rightarrow> f32 \<Rightarrow> bool" where
  "f32_compare c a b =
     (case c of
        Equal_to \<Rightarrow> f32_eq a b | Greater \<Rightarrow> f32_lt b a | Greater_equal \<Rightarrow> f32_lt b a \<or> f32_eq a b
      | Less \<Rightarrow> f32_lt a b | Less_equal \<Rightarrow> f32_lt a b \<or> f32_eq a b)"

fun string_less :: "string \<Rightarrow> string \<Rightarrow> bool" where
  "string_less _ [] = False"
| "string_less [] (_ # _) = True"
| "string_less (a # s) (b # t) =
     (if (of_char a :: nat) < of_char b then True
      else if (of_char b :: nat) < of_char a then False else string_less s t)"

definition string_compare :: "compare_op \<Rightarrow> string \<Rightarrow> string \<Rightarrow> bool" where
  "string_compare c a b =
     (case c of
        Equal_to \<Rightarrow> a = b | Greater \<Rightarrow> string_less b a | Greater_equal \<Rightarrow> \<not> string_less a b
      | Less \<Rightarrow> string_less a b | Less_equal \<Rightarrow> \<not> string_less b a)"

text \<open>The operators of \<open>impulse\<close>, with one and two impulses, and those of the placeholder for a
  string.\<close>

definition impulse_compare :: "compare_op \<Rightarrow> bool" where
  "impulse_compare c \<longleftrightarrow> c = Equal_to \<or> c = Greater_equal \<or> c = Less_equal"

definition string_t_compare :: "compare_op \<Rightarrow> bool" where
  "string_t_compare c \<longleftrightarrow> False"

fun numeric :: "value_t \<Rightarrow> bool" where
  "numeric (Float _) = True"
| "numeric (Int32 _) = True"
| "numeric (Bool _) = True"
| "numeric _ = False"

text \<open>Built-in comparison of two arithmetic values: in \<open>float\<close> if one of them is one, else in
  \<open>int\<close>.\<close>

fun promoted :: "value_t \<Rightarrow> int" where
  "promoted (Int32 i) = i"
| "promoted (Bool b) = (if b then 1 else 0)"
| "promoted _ = 0"

fun as_f32 :: "value_t \<Rightarrow> f32" where
  "as_f32 (Float f) = f"
| "as_f32 v = int_to_f32 (promoted v)"

fun is_float :: "value_t \<Rightarrow> bool" where
  "is_float (Float _) = True"
| "is_float _ = False"

definition numeric_compare :: "compare_op \<Rightarrow> value_t \<Rightarrow> value_t \<Rightarrow> bool" where
  "numeric_compare c a b =
     (if is_float a \<or> is_float b then f32_compare c (as_f32 a) (as_f32 b)
      else int_compare c (promoted a) (promoted b))"

fun floats_of :: "value_t \<Rightarrow> f32 list" where
  "floats_of (Vec2f a b) = [a, b]"
| "floats_of (Vec3f a b c) = [a, b, c]"
| "floats_of (Vec4f a b c d) = [a, b, c, d]"
| "floats_of _ = []"

definition is_vec :: "value_t \<Rightarrow> bool" where
  "is_vec v \<longleftrightarrow> floats_of v \<noteq> []"

fun elements :: "value_t \<Rightarrow> value_t list option" where
  "elements (VList xs) = Some xs"
| "elements _ = None"

fun entries :: "value_t \<Rightarrow> (string \<times> value_t) list option" where
  "entries (VMap m) = Some m"
| "entries _ = None"

fun text_of :: "value_t \<Rightarrow> string option" where
  "text_of (String s) = Some s"
| "text_of _ = None"

text \<open>The overloads that do not take a list.\<close>

definition visit_scalar :: "compare_op \<Rightarrow> value_t \<Rightarrow> value_t \<Rightarrow> bool" where
  "visit_scalar c l r =
     (if is_vec l \<and> is_vec r then
        (if length (floats_of l) = length (floats_of r)
         then list_all2 (f32_compare c) (floats_of l) (floats_of r) else False)
      else if is_vec l \<or> is_vec r then False
      else if entries l \<noteq> None \<or> entries r \<noteq> None then False
      else if l = Impulse \<or> r = Impulse then impulse_compare c
      else
        (case (text_of l, text_of r) of
           (Some s, Some t) \<Rightarrow> string_compare c s t
         | (None, None) \<Rightarrow> numeric_compare c l r
         | _ \<Rightarrow> string_t_compare c))"

lemma elements_Some: "elements v = Some xs \<longleftrightarrow> v = VList xs"
  by (cases v) auto

lemma entries_Some: "entries v = Some m \<longleftrightarrow> v = VMap m"
  by (cases v) auto

definition entries_size :: "(string \<times> value_t) list \<Rightarrow> nat" where
  "entries_size m = size_list (\<lambda>(k, v). size v + 1) m"

lemma entries_size_simps [simp]:
  "entries_size [] = 0" "entries_size ((k, v) # m) = size v + entries_size m + 2"
  by (simp_all add: entries_size_def)

lemma entries_size_less: "Some m = entries v \<Longrightarrow> entries_size m < size v"
proof -
  have "entries_size n < size (VMap n)" for n
    by (induction n) auto
  then show "Some m = entries v \<Longrightarrow> entries_size m < size v" by (cases v) auto
qed

lemma elements_size_less: "Some xs = elements v \<Longrightarrow> size_list size xs < size v"
  by (cases v) auto

text \<open>
  The visitor: on two lists all elements are compared, up to the first that fails or is null; a list
  of one element compares as it does with anything that is not a vector or an impulse; the maps'
  overload ignores the comparator and asks for equality.
\<close>

function visit :: "compare_op \<Rightarrow> value_t \<Rightarrow> value_t \<Rightarrow> bool"
  and visit_one :: "compare_op \<Rightarrow> value_t list \<Rightarrow> value_t \<Rightarrow> bool"
  and visit_one_rhs :: "compare_op \<Rightarrow> value_t \<Rightarrow> value_t list \<Rightarrow> bool"
  and visit_lists :: "compare_op \<Rightarrow> value_t list \<Rightarrow> value_t list \<Rightarrow> bool"
  and map_contains :: "(string \<times> value_t) list \<Rightarrow> string \<Rightarrow> value_t \<Rightarrow> bool"
  and visit_maps :: "(string \<times> value_t) list \<Rightarrow> (string \<times> value_t) list \<Rightarrow> bool" where
  "visit c l r =
     (case (elements l, elements r) of
        (Some xs, Some ys) \<Rightarrow> if length xs \<noteq> length ys then False else visit_lists c xs ys
      | (Some xs, None) \<Rightarrow>
          if is_vec r then False else if r = Impulse then impulse_compare c else visit_one c xs r
      | (None, Some ys) \<Rightarrow>
          if is_vec l then False else if l = Impulse then impulse_compare c else visit_one_rhs c l ys
      | (None, None) \<Rightarrow>
          (case (entries l, entries r) of
             (Some m, Some n) \<Rightarrow> if length m \<noteq> length n then False else visit_maps m n
           | _ \<Rightarrow> visit_scalar c l r))"
| "visit_one c xs r = (case xs of [x] \<Rightarrow> if valid x then visit c x r else False | _ \<Rightarrow> False)"
| "visit_one_rhs c l ys = (case ys of [y] \<Rightarrow> if valid y then visit c l y else False | _ \<Rightarrow> False)"
| "visit_lists c xs ys =
     (case (xs, ys) of
        (x # xs', y # ys') \<Rightarrow>
          if valid x \<and> valid y then (if visit c x y then visit_lists c xs' ys' else False) else False
      | _ \<Rightarrow> True)"
| "map_contains n k v =
     (case n of
        [] \<Rightarrow> False
      | (k', v') # n' \<Rightarrow>
          (k' = k \<and> (if valid v' \<and> valid v then visit Equal_to v' v else \<not> valid v' \<and> \<not> valid v))
          \<or> map_contains n' k v)"
| "visit_maps m n =
     (case m of
        [] \<Rightarrow> True
      | (k, v) # m' \<Rightarrow> if map_contains n k v then visit_maps m' n else False)"
  by pat_completeness auto

termination
  by (relation "measures [\<lambda>x. case x of
        Inl (Inl (c, a, b)) \<Rightarrow> size a + size b
      | Inl (Inr (Inl (c, xs, b))) \<Rightarrow> size_list size xs + size b
      | Inl (Inr (Inr (c, a, ys))) \<Rightarrow> size a + size_list size ys
      | Inr (Inl (c, xs, ys)) \<Rightarrow> size_list size xs + size_list size ys
      | Inr (Inr (Inl (m, k, v))) \<Rightarrow> entries_size m + size v
      | Inr (Inr (Inr (l, r))) \<Rightarrow> entries_size l + entries_size r]")
    (auto dest!: entries_size_less elements_size_less)

declare visit.simps [simp del] visit_one.simps [simp del] visit_one_rhs.simps [simp del]
  visit_lists.simps [simp del] map_contains.simps [simp del] visit_maps.simps [simp del]

section \<open>The operators\<close>

definition value_eq :: "value_t \<Rightarrow> value_t \<Rightarrow> bool" where
  "value_eq l r = (if valid l \<and> valid r then visit Equal_to l r else if \<not> valid l \<and> \<not> valid r then True else False)"

definition value_ne :: "value_t \<Rightarrow> value_t \<Rightarrow> bool" where
  "value_ne l r =
     (if valid l \<and> valid r then \<not> visit Equal_to l r else if \<not> valid l \<and> \<not> valid r then False else True)"

definition value_gt :: "value_t \<Rightarrow> value_t \<Rightarrow> bool" where
  "value_gt l r = (if valid l \<and> valid r then visit Greater l r else False)"

definition value_ge :: "value_t \<Rightarrow> value_t \<Rightarrow> bool" where
  "value_ge l r =
     (if valid l \<and> valid r then visit Greater_equal l r else if \<not> valid l \<and> \<not> valid r then True else False)"

definition value_lt :: "value_t \<Rightarrow> value_t \<Rightarrow> bool" where
  "value_lt l r = (if valid l \<and> valid r then visit Less l r else False)"

definition value_le :: "value_t \<Rightarrow> value_t \<Rightarrow> bool" where
  "value_le l r =
     (if valid l \<and> valid r then visit Less_equal l r else if \<not> valid l \<and> \<not> valid r then True else False)"

definition value_compare :: "compare_op \<Rightarrow> value_t \<Rightarrow> value_t \<Rightarrow> bool" where
  "value_compare c =
     (case c of
        Equal_to \<Rightarrow> value_eq | Greater \<Rightarrow> value_gt | Greater_equal \<Rightarrow> value_ge
      | Less \<Rightarrow> value_lt | Less_equal \<Rightarrow> value_le)"

text \<open>\<open>DestinationVisitor\<close>, with the value the destination's parameter has at its index.\<close>

definition destination_compare :: "compare_op \<Rightarrow> value_t \<Rightarrow> value_t \<Rightarrow> bool" where
  "destination_compare c param_value rhs =
     (if rhs = Null then False
      else if rhs = Impulse then impulse_compare c
      else value_compare c param_value rhs)"

definition destination_ne :: "value_t \<Rightarrow> value_t \<Rightarrow> bool" where
  "destination_ne param_value rhs \<longleftrightarrow> \<not> destination_compare Equal_to param_value rhs"

text \<open>\<open>value_map_type::operator[]\<close>: the entry, added when there is none, and the map with it.\<close>

definition value_map_at :: "(string \<times> value_t) list \<Rightarrow> string \<Rightarrow> (string \<times> value_t) list \<times> value_t" where
  "value_map_at m str =
     (case List.find (\<lambda>e. fst e = str) m of
        Some e \<Rightarrow> (m, snd e)
      | None \<Rightarrow> (m @ [(str, Null)], Null))"

section \<open>Comparing in the other order\<close>

fun swap_op :: "compare_op \<Rightarrow> compare_op" where
  "swap_op Equal_to = Equal_to"
| "swap_op Greater = Less"
| "swap_op Greater_equal = Less_equal"
| "swap_op Less = Greater"
| "swap_op Less_equal = Greater_equal"

fun map_free :: "value_t \<Rightarrow> bool" where
  "map_free (VList xs) = list_all map_free xs"
| "map_free (VMap _) = False"
| "map_free _ = True"

lemma f32_compare_swap: "f32_compare (swap_op c) b a = f32_compare c a b"
  by (cases c) (auto simp: f32_compare_def f32_eq_def)

lemma int_compare_swap: "int_compare (swap_op c) b a = int_compare c a b"
  by (cases c) (auto simp: int_compare_def)

lemma string_compare_swap: "string_compare (swap_op c) b a = string_compare c a b"
  by (cases c) (auto simp: string_compare_def)

lemma impulse_compare_swap [simp]: "impulse_compare (swap_op c) = impulse_compare c"
  by (cases c) (auto simp: impulse_compare_def)

lemma numeric_compare_swap: "numeric_compare (swap_op c) b a = numeric_compare c a b"
  by (auto simp: numeric_compare_def f32_compare_swap int_compare_swap)

lemma floats_compare_swap:
  "list_all2 (f32_compare (swap_op c)) ys xs = list_all2 (f32_compare c) xs ys"
  by (auto simp: list_all2_conv_all_nth f32_compare_swap)

lemma visit_scalar_swap: "visit_scalar (swap_op c) r l = visit_scalar c l r"
  by (auto simp: visit_scalar_def string_t_compare_def floats_compare_swap string_compare_swap
      numeric_compare_swap split: option.splits)

lemma visit_swap:
  "map_free l \<Longrightarrow> map_free r \<Longrightarrow> visit (swap_op c) r l = visit c l r"
  "list_all map_free xs \<Longrightarrow> map_free r \<Longrightarrow> visit_one_rhs (swap_op c) r xs = visit_one c xs r"
  "map_free l \<Longrightarrow> list_all map_free ys \<Longrightarrow> visit_one (swap_op c) ys l = visit_one_rhs c l ys"
  "list_all map_free xs \<Longrightarrow> list_all map_free ys \<Longrightarrow> length xs = length ys \<Longrightarrow>
    visit_lists (swap_op c) ys xs = visit_lists c xs ys"
  "map_contains n k v \<or> True" "visit_maps m n \<or> True"
proof (induction c l r and c xs r and c l ys and c xs ys and n k v and m n
    rule: visit_visit_one_visit_one_rhs_visit_lists_map_contains_visit_maps.induct)
  case (1 c l r)
  have mf: "list_all map_free zs" if "elements v = Some zs" "map_free v" for v zs
    using that by (auto simp: elements_Some)
  have ne: "entries v = None" if "map_free v" for v using that by (cases v) auto
  show ?case
  proof (cases "elements l"; cases "elements r")
    fix xs ys assume e: "elements l = Some xs" "elements r = Some ys"
    then show ?thesis
      using "1.IH"(4)[OF refl e] 1 mf by (auto simp: visit.simps[of _ l r] visit.simps[of _ r l])
  next
    fix xs assume e: "elements l = Some xs" "elements r = None"
    then show ?thesis
      using "1.IH"(3)[OF refl e] 1 mf by (auto simp: visit.simps[of _ l r] visit.simps[of _ r l])
  next
    fix ys assume e: "elements l = None" "elements r = Some ys"
    then show ?thesis
      using "1.IH"(2)[OF refl e] 1 mf by (auto simp: visit.simps[of _ l r] visit.simps[of _ r l])
  next
    assume e: "elements l = None" "elements r = None"
    then show ?thesis
      using 1 ne by (simp add: visit.simps[of _ l r] visit.simps[of _ r l] visit_scalar_swap)
  qed
next
  case (2 c xs r)
  then show ?case
    by (auto simp: visit_one.simps[of _ xs] visit_one_rhs.simps[of _ _ xs] split: list.splits)
next
  case (3 c l ys)
  then show ?case
    by (auto simp: visit_one.simps[of _ ys] visit_one_rhs.simps[of _ _ ys] split: list.splits)
next
  case (4 c xs ys)
  show ?case
  proof (cases xs)
    case Nil
    then show ?thesis using 4 by (simp add: visit_lists.simps)
  next
    case (Cons x xs')
    then obtain y ys' where ys: "ys = y # ys'" using 4 by (cases ys) auto
    have "visit (swap_op c) y x = visit c x y" if "valid x \<and> valid y"
      using "4.IH"(1)[OF _ _ _ that] "4.prems" Cons ys by auto
    moreover have "visit_lists (swap_op c) ys' xs' = visit_lists c xs' ys'" if "valid x \<and> valid y" "visit c x y"
      using "4.IH"(2)[OF _ _ _ that] "4.prems" Cons ys by auto
    ultimately show ?thesis
      using Cons ys by (auto simp: visit_lists.simps[of _ "x # xs'"] visit_lists.simps[of _ "y # ys'"])
  qed
qed auto

section \<open>A value equals itself\<close>

text \<open>Without not-a-number, and without null elements of lists.\<close>

fun tame :: "value_t \<Rightarrow> bool" where
  "tame (Float f) = (f \<noteq> Nan)"
| "tame (Vec2f a b) = (Nan \<notin> set [a, b])"
| "tame (Vec3f a b c) = (Nan \<notin> set [a, b, c])"
| "tame (Vec4f a b c d) = (Nan \<notin> set [a, b, c, d])"
| "tame (VList xs) = list_all (\<lambda>x. valid x \<and> tame x) xs"
| "tame (VMap m) = list_all (\<lambda>(k, v). tame v) m"
| "tame _ = True"

lemma visit_lists_refl:
  "\<forall>x\<in>set xs. valid x \<and> visit c x x \<Longrightarrow> visit_lists c xs xs"
  by (induction xs) (simp_all add: visit_lists.simps)

lemma map_contains_self:
  "(k, v) \<in> set m \<Longrightarrow> valid v \<longrightarrow> visit Equal_to v v \<Longrightarrow> map_contains m k v"
  by (induction m) (auto simp: map_contains.simps[of "_ # _"])

lemma visit_maps_sub:
  "\<forall>(k, v)\<in>set m. map_contains n k v \<Longrightarrow> visit_maps m n"
  by (induction m) (auto simp: visit_maps.simps)

lemma visit_eq_refl: "tame v \<Longrightarrow> valid v \<Longrightarrow> visit Equal_to v v"
proof (induction v)
  case (VList xs)
  then have "visit_lists Equal_to xs xs" by (intro visit_lists_refl) (auto simp: list_all_iff)
  then show ?case by (simp add: visit.simps)
next
  case (VMap m)
  have "visit_maps m m"
  proof (rule visit_maps_sub, clarify)
    fix k v assume kv: "(k, v) \<in> set m"
    then have "valid v \<longrightarrow> visit Equal_to v v" using VMap by (auto simp: list_all_iff)
    with kv show "map_contains m k v" by (rule map_contains_self)
  qed
  then show ?case by (simp add: visit.simps)
qed (auto simp: visit.simps visit_scalar_def is_vec_def f32_compare_def f32_eq_def impulse_compare_def
      string_compare_def numeric_compare_def int_compare_def valid_def)

section \<open>Properties\<close>

text \<open>For values that hold no map, comparing in the other order with the mirrored comparator
  gives the same result; in particular equality is symmetric there.\<close>

theorem value_compare_swap:
  assumes "map_free a" and "map_free b"
  shows "value_compare (swap_op c) b a = value_compare c a b"
  using visit_swap(1)[OF assms, of c]
  by (cases c) (auto simp: value_compare_def value_eq_def value_gt_def value_ge_def value_lt_def value_le_def)

theorem value_compare_swap_witness:
  "value_compare Less (Float (Fin 1)) (Int32 2) = value_compare Greater (Int32 2) (Float (Fin 1))"
  using value_compare_swap[of "Int32 2" "Float (Fin 1)" Greater] by simp

text \<open>A value that holds no not-a-number and no list with a null element equals itself.\<close>

theorem value_eq_self:
  assumes "tame v"
  shows "value_eq v v \<and> \<not> value_ne v v"
  using visit_eq_refl[OF assms] by (auto simp: value_eq_def value_ne_def)

theorem value_eq_self_witness:
  "value_eq (VMap [(''a'', VList [Int32 1, Impulse]), (''b'', Null)]) (VMap [(''a'', VList [Int32 1, Impulse]), (''b'', Null)])"
  using value_eq_self[of "VMap [(''a'', VList [Int32 1, Impulse]), (''b'', Null)]"] by (simp add: valid_def)

text \<open>Every comparison of two maps is their equality: equal maps are each less and greater than
  the other, and different ones neither. Two empty lists also pass every comparison.\<close>

theorem map_order_is_equality:
  "value_compare c (VMap m) (VMap n) = value_eq (VMap m) (VMap n) \<and> value_compare c (VList []) (VList [])"
proof -
  have "visit c (VMap m) (VMap n) = visit Equal_to (VMap m) (VMap n)" by (simp add: visit.simps)
  moreover have "visit c (VList []) (VList [])" by (simp add: visit.simps visit_lists.simps)
  ultimately show ?thesis
    by (cases c)
       (simp_all add: value_compare_def value_eq_def value_gt_def value_ge_def value_lt_def value_le_def valid_def)
qed

end
