(* ===== verification/Callbacks.thy ===== *)
theory Callbacks
  imports Prelude
begin

text \<open>
  Containers of callbacks: \<open>callback_container\<close> (detail/callback_container.hpp), a \<open>std::list\<close> whose
  iterators stay valid, and \<open>expression_callback_container\<close>
  (editor/expression/expression_fwd.hpp), a vector of at most two elements whose iterators are
  positions. The mutexes are left out: an operation runs alone.

  An iterator into a list is the number its element got when it was inserted. \<open>observing\<close> records
  the two virtual functions: set by \<open>on_first_callback_added\<close>, cleared by
  \<open>on_removing_last_callback\<close>.
\<close>

datatype callback_error = Invalid_callback | Capacity_exceeded

section \<open>The container on a list\<close>

record 'c callback_container =
  m_callbacks :: "(nat \<times> 'c) list"
  next_iterator :: nat
  observing :: bool

definition empty_container :: "'c callback_container" where
  "empty_container = \<lparr>m_callbacks = [], next_iterator = 0, observing = False\<rparr>"

text \<open>A callback that holds no function is \<open>None\<close>.\<close>

definition add_callback ::
    "'c option \<Rightarrow> 'c callback_container \<Rightarrow> callback_error + 'c callback_container \<times> nat" where
  "add_callback callback s =
     (case callback of
        Some c \<Rightarrow>
          (let it = next_iterator s;
               s1 = s\<lparr>m_callbacks := (it, c) # m_callbacks s, next_iterator := it + 1\<rparr>;
               s2 = (if length (m_callbacks s1) = 1 then s1\<lparr>observing := True\<rparr> else s1)
           in Inr (s2, it))
      | None \<Rightarrow> Inl Invalid_callback)"

definition erase_iterator :: "nat \<Rightarrow> (nat \<times> 'c) list \<Rightarrow> (nat \<times> 'c) list" where
  "erase_iterator it cs = filter (\<lambda>(i, _). i \<noteq> it) cs"

definition remove_callback :: "nat \<Rightarrow> 'c callback_container \<Rightarrow> 'c callback_container" where
  "remove_callback it s =
     (let s1 = (if length (m_callbacks s) = 1 then s\<lparr>observing := False\<rparr> else s)
      in s1\<lparr>m_callbacks := erase_iterator it (m_callbacks s1)\<rparr>)"

definition replace_callback :: "nat \<Rightarrow> 'c \<Rightarrow> 'c callback_container \<Rightarrow> 'c callback_container" where
  "replace_callback it cb s =
     s\<lparr>m_callbacks := map (\<lambda>(i, c). (i, if i = it then cb else c)) (m_callbacks s)\<rparr>"

text \<open>A list moved in brings its own elements: the iterators into the old one are gone, and those
  of a copy are new.\<close>

definition copy_callbacks :: "(nat \<times> 'c) list \<Rightarrow> nat \<Rightarrow> (nat \<times> 'c) list" where
  "copy_callbacks cs n = zip [n..<n + length cs] (map snd cs)"

definition replace_callbacks :: "(nat \<times> 'c) list \<Rightarrow> 'c callback_container \<Rightarrow> 'c callback_container" where
  "replace_callbacks cbs s = s\<lparr>m_callbacks := cbs\<rparr>"

text \<open>\<open>disable_callback\<close>: the copy of the callbacks the returned object holds, and the destructor
  that puts it back.\<close>

definition disable_callback ::
    "nat \<Rightarrow> 'c callback_container \<Rightarrow> 'c callback_container \<times> (nat \<times> 'c) list" where
  "disable_callback it s =
     (let n = next_iterator s;
          old_callbacks = copy_callbacks (m_callbacks s) n
      in (s\<lparr>m_callbacks := erase_iterator it (m_callbacks s),
            next_iterator := n + length (m_callbacks s)\<rparr>, old_callbacks))"

definition callback_count :: "'c callback_container \<Rightarrow> nat" where
  "callback_count s = length (m_callbacks s)"

definition callbacks_empty :: "'c callback_container \<Rightarrow> bool" where
  "callbacks_empty s \<longleftrightarrow> m_callbacks s = []"

text \<open>The callbacks \<open>send\<close> calls, in order.\<close>

definition send :: "'c callback_container \<Rightarrow> 'c list" where
  "send s = map snd (m_callbacks s)"

definition callbacks_clear :: "'c callback_container \<Rightarrow> 'c callback_container" where
  "callbacks_clear s =
     (let s1 = (if m_callbacks s \<noteq> [] then s\<lparr>observing := False\<rparr> else s)
      in s1\<lparr>m_callbacks := []\<rparr>)"

section \<open>The container on a small vector\<close>

record 'c expression_callbacks =
  ec_callbacks :: "'c list"
  ec_observing :: bool

definition ec_empty :: "'c expression_callbacks" where
  "ec_empty = \<lparr>ec_callbacks = [], ec_observing = False\<rparr>"

text \<open>Inserted at the beginning, the new element is at position 0. A third element does not fit in
  the \<open>static_vector\<close>.\<close>

definition ec_add_callback ::
    "'c option \<Rightarrow> 'c expression_callbacks \<Rightarrow> callback_error + 'c expression_callbacks \<times> nat" where
  "ec_add_callback callback s =
     (case callback of
        Some c \<Rightarrow>
          if length (ec_callbacks s) \<ge> 2 then Inl Capacity_exceeded
          else
            (let s1 = s\<lparr>ec_callbacks := c # ec_callbacks s\<rparr>;
                 s2 = (if length (ec_callbacks s1) = 1 then s1\<lparr>ec_observing := True\<rparr> else s1)
             in Inr (s2, 0))
      | None \<Rightarrow> Inl Invalid_callback)"

definition ec_remove_callback :: "nat \<Rightarrow> 'c expression_callbacks \<Rightarrow> 'c expression_callbacks" where
  "ec_remove_callback it s =
     (let s1 = (if length (ec_callbacks s) = 1 then s\<lparr>ec_observing := False\<rparr> else s)
      in s1\<lparr>ec_callbacks := take it (ec_callbacks s1) @ drop (it + 1) (ec_callbacks s1)\<rparr>)"

definition ec_callback_count :: "'c expression_callbacks \<Rightarrow> nat" where
  "ec_callback_count s = length (ec_callbacks s)"

definition ec_callbacks_empty :: "'c expression_callbacks \<Rightarrow> bool" where
  "ec_callbacks_empty s \<longleftrightarrow> ec_callbacks s = []"

definition ec_send :: "'c expression_callbacks \<Rightarrow> 'c list" where
  "ec_send s = ec_callbacks s"

definition ec_callbacks_clear :: "'c expression_callbacks \<Rightarrow> 'c expression_callbacks" where
  "ec_callbacks_clear s =
     (let s1 = (if ec_callbacks s \<noteq> [] then s\<lparr>ec_observing := False\<rparr> else s)
      in s1\<lparr>ec_callbacks := []\<rparr>)"

section \<open>The interface a listener relies on\<close>

text \<open>
  What \<open>add\<close> hands out names the callback it added, until \<open>remove\<close> is called with it, whatever is
  added and removed in between; and the container observes exactly while it holds a callback.
\<close>

locale callback_store =
  fixes add :: "'c \<Rightarrow> 's \<Rightarrow> 's \<times> 'i" and remove :: "'i \<Rightarrow> 's \<Rightarrow> 's"
    and held :: "'s \<Rightarrow> 'i \<Rightarrow> 'c option" and inv :: "'s \<Rightarrow> bool" and watching :: "'s \<Rightarrow> bool"
  assumes add_inv: "inv s \<Longrightarrow> inv (fst (add c s))"
    and remove_inv: "inv s \<Longrightarrow> held s i \<noteq> None \<Longrightarrow> inv (remove i s)"
    and add_fresh: "inv s \<Longrightarrow> held s (snd (add c s)) = None"
    and add_held: "inv s \<Longrightarrow> held (fst (add c s)) = (held s)(snd (add c s) \<mapsto> c)"
    and remove_held: "inv s \<Longrightarrow> held s i \<noteq> None \<Longrightarrow> held (remove i s) = (held s)(i := None)"
    and watching_held: "inv s \<Longrightarrow> watching s \<longleftrightarrow> (\<exists>i. held s i \<noteq> None)"
begin

text \<open>A sequence of additions and removals, and the handles it may remove.\<close>

inductive reaches :: "'s \<Rightarrow> 's \<Rightarrow> 'i set \<Rightarrow> bool" for s where
  start: "reaches s s {}"
| added: "reaches s t r \<Longrightarrow> reaches s (fst (add c t)) r"
| removed: "reaches s t r \<Longrightarrow> held t i \<noteq> None \<Longrightarrow> reaches s (remove i t) (insert i r)"

lemma reaches_inv: "reaches s t r \<Longrightarrow> inv s \<Longrightarrow> inv t"
  by (induction rule: reaches.induct) (auto intro: add_inv remove_inv)

lemma reaches_keeps:
  assumes "reaches s t r" and "inv s" and "held s i = Some c" and "i \<notin> r"
  shows "held t i = Some c"
  using assms
proof (induction rule: reaches.induct)
  case (added t r d)
  then have t: "inv t" "held t i = Some c" using reaches_inv by blast+
  then have "snd (add d t) \<noteq> i" using add_fresh[OF t(1), of d] by auto
  then show ?case using t add_held by simp
next
  case (removed t r j)
  then have "inv t" "held t i = Some c" "j \<noteq> i" using reaches_inv by auto
  then show ?case using removed remove_held by simp
qed simp

lemma removes_its_own:
  assumes "inv s" and "reaches (fst (add c s)) t r" and "snd (add c s) \<notin> r"
  shows "held t (snd (add c s)) = Some c"
    and "held (remove (snd (add c s)) t) = (held t)(snd (add c s) := None)"
    and "watching t"
proof -
  have i: "inv (fst (add c s))" "held (fst (add c s)) (snd (add c s)) = Some c"
    using add_inv[OF assms(1)] add_held[OF assms(1)] by simp_all
  show h: "held t (snd (add c s)) = Some c" using reaches_keeps[OF assms(2) i assms(3)] .
  show "held (remove (snd (add c s)) t) = (held t)(snd (add c s) := None)"
    using remove_held[OF reaches_inv[OF assms(2) i(1)]] h by simp
  show "watching t" using watching_held[OF reaches_inv[OF assms(2) i(1)]] h by blast
qed

end

section \<open>The list container provides it\<close>

definition container_ok :: "'c callback_container \<Rightarrow> bool" where
  "container_ok s \<longleftrightarrow> distinct (map fst (m_callbacks s)) \<and> (\<forall>i\<in>fst ` set (m_callbacks s). i < next_iterator s)
     \<and> (observing s \<longleftrightarrow> m_callbacks s \<noteq> [])"

definition add_ok :: "'c \<Rightarrow> 'c callback_container \<Rightarrow> 'c callback_container \<times> nat" where
  "add_ok c s = projr (add_callback (Some c) s)"

lemma add_ok_simps:
  "snd (add_ok c s) = next_iterator s"
  "m_callbacks (fst (add_ok c s)) = (next_iterator s, c) # m_callbacks s"
  "next_iterator (fst (add_ok c s)) = next_iterator s + 1"
  "observing (fst (add_ok c s)) = (if m_callbacks s = [] then True else observing s)"
  by (simp_all add: add_ok_def add_callback_def Let_def)

lemma erase_absent: "it \<notin> fst ` set cs \<Longrightarrow> erase_iterator it cs = cs"
  by (force simp: erase_iterator_def filter_id_conv)

lemma map_of_erase: "map_of (erase_iterator it cs) = (map_of cs)(it := None)"
  by (induction cs) (auto simp: erase_iterator_def)

lemma remove_callback_simps:
  "m_callbacks (remove_callback it s) = erase_iterator it (m_callbacks s)"
  "next_iterator (remove_callback it s) = next_iterator s"
  "observing (remove_callback it s) = (if length (m_callbacks s) = 1 then False else observing s)"
  by (simp_all add: remove_callback_def Let_def)

lemma erase_keeps_one:
  assumes "distinct (map fst cs)" and "it \<in> fst ` set cs"
  shows "length (erase_iterator it cs) + 1 = length cs"
  using assms
proof (induction cs)
  case (Cons p cs)
  obtain i c where p: "p = (i, c)" by (cases p)
  show ?case
  proof (cases "i = it")
    case True
    then have "it \<notin> fst ` set cs" using Cons.prems p by simp
    then show ?thesis using True p erase_absent[of it cs] by (simp add: erase_iterator_def)
  next
    case False
    then show ?thesis using Cons p by (simp add: erase_iterator_def)
  qed
qed simp

interpretation list_callbacks: callback_store add_ok remove_callback "\<lambda>s. map_of (m_callbacks s)" container_ok observing
proof unfold_locales
  fix s :: "'a callback_container" and c i
  assume s: "container_ok s"
  have fresh: "next_iterator s \<notin> fst ` set (m_callbacks s)" using s by (auto simp: container_ok_def)
  show "container_ok (fst (add_ok c s))"
    using s fresh by (auto simp: container_ok_def add_ok_simps)
  show "map_of (m_callbacks s) (snd (add_ok c s)) = None"
    using fresh by (simp add: add_ok_simps map_of_eq_None_iff)
  show "map_of (m_callbacks (fst (add_ok c s))) = (map_of (m_callbacks s))(snd (add_ok c s) \<mapsto> c)"
    by (simp add: add_ok_simps)
  show "observing s \<longleftrightarrow> (\<exists>i. map_of (m_callbacks s) i \<noteq> None)"
    using s by (cases "m_callbacks s") (auto simp: container_ok_def)
  assume i: "map_of (m_callbacks s) i \<noteq> None"
  then have mem: "i \<in> fst ` set (m_callbacks s)" by (simp add: map_of_eq_None_iff)
  have d: "distinct (map fst (m_callbacks s))" using s by (simp add: container_ok_def)
  have "distinct (map fst (erase_iterator i (m_callbacks s)))"
    using d by (simp add: erase_iterator_def distinct_map_filter)
  moreover have "set (erase_iterator i (m_callbacks s)) \<subseteq> set (m_callbacks s)"
    by (auto simp: erase_iterator_def)
  moreover have "length (erase_iterator i (m_callbacks s)) + 1 = length (m_callbacks s)"
    by (rule erase_keeps_one[OF d mem])
  ultimately show "container_ok (remove_callback i s)"
    using s by (auto simp: container_ok_def remove_callback_simps)
  show "map_of (m_callbacks (remove_callback i s)) = (map_of (m_callbacks s))(i := None)"
    by (simp add: remove_callback_simps map_of_erase)
qed

section \<open>Properties\<close>

lemma container_ok_empty: "container_ok empty_container"
  by (simp add: container_ok_def empty_container_def)

text \<open>Whatever is added to and removed from a list container after a callback was added, the
  iterator the callback got still names it: it is there until it is removed with that iterator, and
  that removal takes nothing else out.\<close>

theorem list_iterators_stay_valid:
  assumes "container_ok s" and "list_callbacks.reaches (fst (add_ok c s)) t removed"
    and "snd (add_ok c s) \<notin> removed"
  shows "map_of (m_callbacks t) (snd (add_ok c s)) = Some c
    \<and> map_of (m_callbacks (remove_callback (snd (add_ok c s)) t))
        = (map_of (m_callbacks t))(snd (add_ok c s) := None)
    \<and> observing t"
  using list_callbacks.removes_its_own[OF assms] by simp

theorem list_iterators_stay_valid_witness:
  "map_of (m_callbacks (fst (add_ok ''b'' (fst (add_ok ''a'' empty_container))))) 0 = Some ''a''"
proof -
  have "list_callbacks.reaches (fst (add_ok ''a'' empty_container))
      (fst (add_ok ''b'' (fst (add_ok ''a'' empty_container)))) {}"
    by (intro list_callbacks.reaches.intros)
  from list_iterators_stay_valid[OF container_ok_empty this] show ?thesis
    by (simp add: add_ok_simps(1)) (simp add: empty_container_def)
qed

text \<open>In the containers of expressions the iterator of the first of two callbacks names the
  second: removing with it leaves the first in and takes the second out.\<close>

theorem ec_first_iterator_stale:
  assumes "ec_add_callback (Some a) ec_empty = Inr (s1, i1)"
    and "ec_add_callback (Some b) s1 = Inr (s2, i2)"
  shows "i1 = i2 \<and> ec_send s2 = [b, a] \<and> ec_send (ec_remove_callback i1 s2) = [a]"
  using assms by (auto simp: ec_add_callback_def ec_empty_def ec_send_def ec_remove_callback_def Let_def)

theorem ec_first_iterator_stale_witness:
  "\<exists>s i. ec_add_callback (Some ''b'') \<lparr>ec_callbacks = [''a''], ec_observing = True\<rparr> = Inr (s, i)
     \<and> ec_send (ec_remove_callback 0 s) = [''a'']"
proof -
  let ?s1 = "\<lparr>ec_callbacks = [''a''], ec_observing = True\<rparr>"
  let ?s2 = "\<lparr>ec_callbacks = [''b'', ''a''], ec_observing = True\<rparr>"
  have a: "ec_add_callback (Some ''a'') ec_empty = Inr (?s1, 0)"
    by (simp add: ec_add_callback_def ec_empty_def)
  have b: "ec_add_callback (Some ''b'') ?s1 = Inr (?s2, 0)"
    by (simp add: ec_add_callback_def)
  show ?thesis
    by (intro exI conjI, rule b, rule ec_first_iterator_stale[OF a b, THEN conjunct2, THEN conjunct2])
qed

text \<open>Putting the callbacks back after \<open>disable_callback\<close> restores what is called and in which
  order, but no iterator handed out before names any of them.\<close>

theorem disable_callback_loses_iterators:
  assumes "container_ok s" and "disable_callback it s = (s1, old)" and "i < next_iterator s"
  shows "send (replace_callbacks old s1) = send s
    \<and> map_of (m_callbacks (replace_callbacks old s1)) i = None"
  using assms
  by (auto simp: disable_callback_def Let_def replace_callbacks_def send_def copy_callbacks_def
      map_of_eq_None_iff dest: set_zip_leftD)

theorem disable_callback_loses_iterators_witness:
  "map_of (m_callbacks (replace_callbacks (snd (disable_callback 0 (fst (add_ok ''a'' empty_container))))
     (fst (disable_callback 0 (fst (add_ok ''a'' empty_container)))))) 0 = None"
proof -
  have "container_ok (fst (add_ok ''a'' empty_container))"
    by (rule list_callbacks.add_inv[OF container_ok_empty])
  from disable_callback_loses_iterators[OF this surjective_pairing] show ?thesis
    by (simp add: add_ok_simps)
qed

end
