(* ===== verification/Expressions.thy ===== *)
theory Expressions
  imports Values
begin

text \<open>
  Expressions (editor/expression/): their construction, evaluation, update and reset, the two
  comparison visitors, and the results they send to their listeners when an observed parameter
  changes; with the reading of a parameter through a destination (network/value/value.cpp). An
  expression is a tree; the mutable result of a pulse is in its node. The conversion between units
  (the dataspace component) and the expressions users define are fields of the \<open>world\<close>, as is the
  state of the parameters. The reference of a destination to its parameter is a number.
\<close>

section \<open>Destinations\<close>

record parameter_state =
  p_value :: "value_t"
  p_unit :: "nat option"

record destination =
  d_parameter :: nat
  d_index :: "nat list"
  d_unit :: "nat option"

record world =
  parameters :: "nat \<Rightarrow> parameter_state"
  convert_unit :: "value_t \<Rightarrow> nat \<Rightarrow> nat \<Rightarrow> value_t"
  generic_evaluate :: "nat \<Rightarrow> bool"

text \<open>\<open>destination_index_retriever\<close> from an index on; an index out of reach gives the null value.
  Negative indices, which the code would read out of bounds with, are left out.\<close>

fun retrieve :: "nat list \<Rightarrow> value_t \<Rightarrow> value_t" where
  "retrieve [] v = v"
| "retrieve (k # ks) v =
     (case elements v of
        Some t \<Rightarrow> if length t > k then retrieve ks (t ! k) else Null
      | None \<Rightarrow>
          if length (floats_of v) > k then
            (if ks = [] then Float (floats_of v ! k) else Null)
          else Null)"

definition get_value_at_index :: "value_t \<Rightarrow> nat list \<Rightarrow> value_t" where
  "get_value_at_index val idx = (if idx = [] then val else retrieve idx val)"

definition pull :: "world \<Rightarrow> destination \<Rightarrow> value_t" where
  "pull w d =
     (let param = parameters w (d_parameter d);
          plain = get_value_at_index (p_value param) (d_index d)
      in case d_unit d of
           Some u \<Rightarrow>
             (case p_unit param of
                Some other \<Rightarrow>
                  if other \<noteq> u then
                    (let res = convert_unit w (p_value param) other u
                     in if valid res then get_value_at_index res (d_index d) else plain)
                  else plain
              | None \<Rightarrow> plain)
         | None \<Rightarrow> plain)"

definition destination_eq :: "destination \<Rightarrow> destination \<Rightarrow> bool" where
  "destination_eq l r \<longleftrightarrow> d_parameter l = d_parameter r \<and> d_index l = d_index r"

definition destination_different :: "destination \<Rightarrow> destination \<Rightarrow> bool" where
  "destination_different l r \<longleftrightarrow> d_parameter l \<noteq> d_parameter r \<or> d_index l \<noteq> d_index r"

section \<open>Expressions\<close>

datatype comparator = EQUAL | DIFFERENT | GREATER | LOWER | GREATER_EQUAL | LOWER_EQUAL | CONTAINS

datatype binary_operator = AND | OR | XOR

datatype operand = No_operand | Value "value_t" | Destination destination

datatype expr =
    No_expression
  | Atom operand comparator operand
  | Constant bool
  | Composition expr binary_operator expr
  | Negation expr
  | Pulse destination bool
  | Generic nat

datatype expr_error = Invalid_variant | Invalid_values | Null_argument | Bad_type

text \<open>The constructors that check their arguments; a null pointer is \<open>None\<close>.\<close>

definition valid_operand :: "operand \<Rightarrow> bool" where
  "valid_operand x = (case x of Value v \<Rightarrow> valid v | _ \<Rightarrow> True)"

definition make_atom :: "operand \<Rightarrow> comparator \<Rightarrow> operand \<Rightarrow> expr_error + expr" where
  "make_atom lhs c rhs =
     (if \<not> valid_operand lhs \<or> \<not> valid_operand rhs then Inl Invalid_values else Inr (Atom lhs c rhs))"

definition make_composition :: "expr option \<Rightarrow> binary_operator \<Rightarrow> expr option \<Rightarrow> expr_error + expr" where
  "make_composition e1 c e2 =
     (case (e1, e2) of
        (Some a, Some b) \<Rightarrow> Inr (Composition a c b)
      | _ \<Rightarrow> Inl Null_argument)"

definition make_not :: "expr option \<Rightarrow> expr_error + expr" where
  "make_not p = (case p of Some e \<Rightarrow> Inr (Negation e) | None \<Rightarrow> Inl Null_argument)"

section \<open>Evaluation\<close>

text \<open>\<open>contains_comparator\<close> on two values that are not null.\<close>

definition contains_values :: "value_t \<Rightarrow> value_t \<Rightarrow> bool" where
  "contains_values lhs rhs =
     (case elements lhs of
        Some xs \<Rightarrow> list_ex (\<lambda>x. value_eq x rhs) xs
      | None \<Rightarrow>
          (case (text_of lhs, text_of rhs) of
             (Some s, Some t) \<Rightarrow> find_str t s \<noteq> None
           | _ \<Rightarrow> False))"

definition compare_values :: "comparator \<Rightarrow> value_t \<Rightarrow> value_t \<Rightarrow> expr_error + bool" where
  "compare_values c first second =
     (case c of
        EQUAL \<Rightarrow> Inr (value_eq first second)
      | DIFFERENT \<Rightarrow> Inr (value_ne first second)
      | GREATER \<Rightarrow> Inr (value_gt first second)
      | LOWER \<Rightarrow> Inr (value_lt first second)
      | GREATER_EQUAL \<Rightarrow> Inr (value_ge first second)
      | LOWER_EQUAL \<Rightarrow> Inr (value_le first second)
      | CONTAINS \<Rightarrow>
          if valid first \<and> valid second then Inr (contains_values first second) else Inl Bad_type)"

definition operand_value :: "world \<Rightarrow> operand \<Rightarrow> expr_error + value_t" where
  "operand_value w x =
     (case x of No_operand \<Rightarrow> Inl Invalid_variant | Value v \<Rightarrow> Inr v | Destination d \<Rightarrow> Inr (pull w d))"

definition evaluate_atom :: "world \<Rightarrow> operand \<Rightarrow> comparator \<Rightarrow> operand \<Rightarrow> expr_error + bool" where
  "evaluate_atom w x c y =
     (case (operand_value w x, operand_value w y) of
        (Inr u, Inr v) \<Rightarrow> compare_values c u v
      | _ \<Rightarrow> Inl Invalid_variant)"

definition do_evaluation :: "binary_operator \<Rightarrow> bool \<Rightarrow> bool \<Rightarrow> bool" where
  "do_evaluation c first second =
     (case c of AND \<Rightarrow> first \<and> second | OR \<Rightarrow> first \<or> second | XOR \<Rightarrow> first \<noteq> second)"

text \<open>Both operands of a composition are evaluated, before the operator is looked at.\<close>

definition combine :: "(bool \<Rightarrow> bool \<Rightarrow> bool) \<Rightarrow> expr_error + bool \<Rightarrow> expr_error + bool \<Rightarrow> expr_error + bool" where
  "combine f x y =
     (case x of
        Inl e \<Rightarrow> Inl e
      | Inr a \<Rightarrow> (case y of Inl e \<Rightarrow> Inl e | Inr b \<Rightarrow> Inr (f a b)))"

fun evaluate :: "world \<Rightarrow> expr \<Rightarrow> expr_error + bool" where
  "evaluate w No_expression = Inl Invalid_variant"
| "evaluate w (Atom x c y) = evaluate_atom w x c y"
| "evaluate w (Constant b) = Inr b"
| "evaluate w (Composition e1 c e2) = combine (do_evaluation c) (evaluate w e1) (evaluate w e2)"
| "evaluate w (Negation e) = map_sum id Not (evaluate w e)"
| "evaluate w (Pulse d r) = Inr r"
| "evaluate w (Generic g) = Inr (generic_evaluate w g)"

text \<open>\<open>update\<close>: the parameters \<open>pull_value\<close> is called on, in order, and the pulses set to false.\<close>

definition operand_pulls :: "operand \<Rightarrow> nat list" where
  "operand_pulls x = (case x of Destination d \<Rightarrow> [d_parameter d] | _ \<Rightarrow> [])"

fun update :: "expr \<Rightarrow> expr_error + expr \<times> nat list" where
  "update No_expression = Inl Invalid_variant"
| "update (Atom x c y) = Inr (Atom x c y, operand_pulls x @ operand_pulls y)"
| "update (Constant b) = Inr (Constant b, [])"
| "update (Composition e1 c e2) =
     (case update e1 of
        Inl e \<Rightarrow> Inl e
      | Inr (f1, p1) \<Rightarrow>
          (case update e2 of
             Inl e \<Rightarrow> Inl e
           | Inr (f2, p2) \<Rightarrow> Inr (Composition f1 c f2, p1 @ p2)))"
| "update (Negation e) = map_sum id (map_prod Negation id) (update e)"
| "update (Pulse d r) = Inr (Pulse d False, [])"
| "update (Generic g) = Inr (Generic g, [])"

fun reset :: "expr \<Rightarrow> expr_error + expr" where
  "reset No_expression = Inl Invalid_variant"
| "reset (Atom x c y) = Inr (Atom x c y)"
| "reset (Constant b) = Inr (Constant b)"
| "reset (Composition e1 c e2) =
     (case reset e1 of
        Inl e \<Rightarrow> Inl e
      | Inr f1 \<Rightarrow> (case reset e2 of Inl e \<Rightarrow> Inl e | Inr f2 \<Rightarrow> Inr (Composition f1 c f2)))"
| "reset (Negation e) = map_sum id Negation (reset e)"
| "reset (Pulse d r) = Inr (Pulse d False)"
| "reset (Generic g) = Inr (Generic g)"

section \<open>The comparison visitors\<close>

definition operand_eq :: "operand \<Rightarrow> operand \<Rightarrow> bool" where
  "operand_eq x y =
     (case (x, y) of
        (No_operand, No_operand) \<Rightarrow> True
      | (Value u, Value v) \<Rightarrow> value_eq u v
      | (Destination d, Destination e) \<Rightarrow> destination_eq d e
      | _ \<Rightarrow> False)"

definition operand_ne :: "operand \<Rightarrow> operand \<Rightarrow> bool" where
  "operand_ne x y \<longleftrightarrow> \<not> operand_eq x y"

fun different :: "expr \<Rightarrow> expr \<Rightarrow> expr_error + bool" where
  "different No_expression _ = Inl Invalid_variant"
| "different _ No_expression = Inl Invalid_variant"
| "different (Atom x c y) (Atom x' c' y') = Inr (operand_ne x x' \<or> c \<noteq> c' \<or> operand_ne y y')"
| "different (Constant b) (Constant b') = Inr (b \<noteq> b')"
| "different (Composition e1 c e2) (Composition f1 d f2) =
     (if c \<noteq> d then Inr True
      else
        (case different e1 f1 of
           Inl e \<Rightarrow> Inl e
         | Inr True \<Rightarrow> Inr True
         | Inr False \<Rightarrow> different e2 f2))"
| "different (Negation e) (Negation f) = different e f"
| "different (Pulse d _) (Pulse d' _) = Inr (destination_different d d')"
| "different _ _ = Inr True"

fun equal_exprs :: "expr \<Rightarrow> expr \<Rightarrow> expr_error + bool" where
  "equal_exprs No_expression _ = Inl Invalid_variant"
| "equal_exprs _ No_expression = Inl Invalid_variant"
| "equal_exprs (Atom x c y) (Atom x' c' y') = Inr (c = c' \<and> operand_eq x x' \<and> operand_eq y y')"
| "equal_exprs (Constant b) (Constant b') = Inr (b = b')"
| "equal_exprs (Composition e1 c e2) (Composition f1 d f2) =
     (if c \<noteq> d then Inr False
      else
        (case equal_exprs e1 f1 of
           Inl e \<Rightarrow> Inl e
         | Inr False \<Rightarrow> Inr False
         | Inr True \<Rightarrow> equal_exprs e2 f2))"
| "equal_exprs (Negation e) (Negation f) = equal_exprs e f"
| "equal_exprs (Pulse d _) (Pulse d' _) = Inr (destination_eq d d')"
| "equal_exprs _ _ = Inr False"

section \<open>What listeners are sent\<close>

text \<open>
  The callback a listened-to expression has on the parameter of one of its destinations: the leaf is
  given by the way to it, the operand of an atom by a last step. The result is the expression after
  the call, and what it sends to its own listeners: an atom nothing when the value it pulls is null.
\<close>

datatype step = First | Second

definition first_value_callback :: "world \<Rightarrow> operand \<Rightarrow> comparator \<Rightarrow> value_t \<Rightarrow> expr_error + bool option" where
  "first_value_callback w second c v =
     (if valid v then
        (case operand_value w second of
           Inl e \<Rightarrow> Inl e
         | Inr u \<Rightarrow> map_sum id Some (compare_values c v u))
      else Inr None)"

definition second_value_callback :: "world \<Rightarrow> operand \<Rightarrow> comparator \<Rightarrow> value_t \<Rightarrow> expr_error + bool option" where
  "second_value_callback w first c v =
     (if valid v then
        (case operand_value w first of
           Inl e \<Rightarrow> Inl e
         | Inr u \<Rightarrow> map_sum id Some (compare_values c u v))
      else Inr None)"

definition on_result :: "(bool \<Rightarrow> expr_error + bool) \<Rightarrow> expr_error + bool option \<Rightarrow> expr_error + bool option" where
  "on_result f r =
     (case r of
        Inl e \<Rightarrow> Inl e
      | Inr None \<Rightarrow> Inr None
      | Inr (Some b) \<Rightarrow> map_sum id Some (f b))"

fun fire :: "world \<Rightarrow> expr \<Rightarrow> step list \<Rightarrow> (expr \<times> (expr_error + bool option)) option" where
  "fire w (Atom x c y) [First] =
     (case x of Destination d \<Rightarrow> Some (Atom x c y, first_value_callback w y c (pull w d)) | _ \<Rightarrow> None)"
| "fire w (Atom x c y) [Second] =
     (case y of Destination d \<Rightarrow> Some (Atom x c y, second_value_callback w x c (pull w d)) | _ \<Rightarrow> None)"
| "fire w (Pulse d r) [] = Some (Pulse d True, Inr (Some True))"
| "fire w (Composition e1 c e2) (First # p) =
     map_option (\<lambda>(f1, r). (Composition f1 c e2,
       on_result (\<lambda>b. map_sum id (do_evaluation c b) (evaluate w e2)) r)) (fire w e1 p)"
| "fire w (Composition e1 c e2) (Second # p) =
     map_option (\<lambda>(f2, r). (Composition e1 c f2,
       on_result (\<lambda>b. map_sum id (\<lambda>a. do_evaluation c a b) (evaluate w e1)) r)) (fire w e2 p)"
| "fire w (Negation e) (First # p) =
     map_option (\<lambda>(f, r). (Negation f, on_result (\<lambda>b. Inr (\<not> b)) r)) (fire w e p)"
| "fire w _ _ = None"

section \<open>Properties\<close>

lemma destination_different_eq: "destination_different d e \<longleftrightarrow> \<not> destination_eq d e"
  by (auto simp: destination_different_def destination_eq_def)

lemma map_sum_id_InrD: "map_sum id f x = Inr y \<longleftrightarrow> (\<exists>z. x = Inr z \<and> f z = y)"
  by (cases x) auto

text \<open>The visitor behind \<open>!=\<close> gives the opposite of the visitor behind \<open>==\<close>, and fails when it
  does.\<close>

theorem different_is_not_equal: "different a b = map_sum id Not (equal_exprs a b)"
proof (induction a arbitrary: b)
  case (Composition e1 c e2)
  show ?case
  proof (cases b)
    case [simp]: (Composition f1 d f2)
    show ?thesis
      by (cases "equal_exprs e1 f1") (auto simp: Composition.IH split: bool.splits)
  qed simp_all
next
  case (Negation e)
  then show ?case by (cases b) simp_all
next
  case (Atom x c y)
  show ?case by (cases b) (auto simp: operand_ne_def)
next
  case (Constant r)
  show ?case by (cases b) simp_all
next
  case (Pulse d r)
  show ?case by (cases b) (simp_all add: destination_different_eq)
next
  case No_expression
  show ?case by simp
next
  case (Generic g)
  show ?case by (cases b) simp_all
qed

lemma fire_atom:
  assumes "fire w (Atom x c y) p = Some (e', Inr (Some r))"
  shows "e' = Atom x c y \<and> evaluate w e' = Inr r"
  using assms
  by (cases "(w, Atom x c y, p)" rule: fire.cases)
    (auto split: operand.splits if_splits sum.splits
      simp: map_sum_id_InrD first_value_callback_def second_value_callback_def evaluate_atom_def operand_value_def)

lemma on_result_SomeD:
  assumes "on_result f r = Inr (Some s)"
  obtains b where "r = Inr (Some b)" "f b = Inr s"
  using assms by (auto simp: on_result_def map_sum_id_InrD split: sum.splits option.splits)

text \<open>C4: When a parameter an expression listens to changes, the result that reaches the listeners
  of the expression is what evaluating the whole expression gives at that moment.\<close>

theorem fire_sends_evaluation:
  assumes "fire w e p = Some (e', Inr (Some r))"
  shows "evaluate w e' = Inr r"
  using assms
proof (induction e arbitrary: p e' r)
  case (Atom x c y)
  then show ?case using fire_atom by blast
next
  case (Composition e1 c e2)
  then obtain s q where p: "p = s # q" by (cases p) auto
  show ?case
  proof (cases s)
    case First
    with Composition.prems p obtain f1 r1 where f: "fire w e1 q = Some (f1, r1)"
      and e': "e' = Composition f1 c e2"
      and r: "on_result (\<lambda>b. map_sum id (do_evaluation c b) (evaluate w e2)) r1 = Inr (Some r)" by auto
    from r obtain b where b: "r1 = Inr (Some b)" "map_sum id (do_evaluation c b) (evaluate w e2) = Inr r"
      by (rule on_result_SomeD)
    then have "evaluate w f1 = Inr b" using Composition.IH(1) f by simp
    then show ?thesis using b e' by (cases "evaluate w e2") (auto simp: combine_def)
  next
    case Second
    with Composition.prems p obtain f2 r2 where f: "fire w e2 q = Some (f2, r2)"
      and e': "e' = Composition e1 c f2"
      and r: "on_result (\<lambda>b. map_sum id (\<lambda>a. do_evaluation c a b) (evaluate w e1)) r2 = Inr (Some r)" by auto
    from r obtain b where b: "r2 = Inr (Some b)" "map_sum id (\<lambda>a. do_evaluation c a b) (evaluate w e1) = Inr r"
      by (rule on_result_SomeD)
    then have "evaluate w f2 = Inr b" using Composition.IH(2) f by simp
    then show ?thesis using b e' by (cases "evaluate w e1") (auto simp: combine_def)
  qed
next
  case (Negation e)
  then obtain q where p: "p = First # q" by (cases p; cases "hd p") auto
  with Negation.prems obtain f r1 where f: "fire w e q = Some (f, r1)" and e': "e' = Negation f"
    and r: "on_result (\<lambda>b. Inr (\<not> b)) r1 = Inr (Some r)" by auto
  from r obtain b where "r1 = Inr (Some b)" "(Inr (\<not> b) :: expr_error + bool) = Inr r"
    by (rule on_result_SomeD)
  then show ?case using Negation.IH f e' by simp
next
  case (Pulse d b)
  then show ?case by (cases p) auto
qed auto

text \<open>The world of the examples: parameter 0 holds 5, parameter 1 holds 7, no unit is set.\<close>

definition demo_world :: world where
  "demo_world =
     \<lparr> parameters = (\<lambda>n. \<lparr> p_value = Int32 (if n = 0 then 5 else 7), p_unit = None \<rparr>),
       convert_unit = (\<lambda>v _ _. v), generic_evaluate = (\<lambda>_. False) \<rparr>"

definition demo_expr :: expr where
  "demo_expr =
     Composition (Atom (Destination \<lparr> d_parameter = 0, d_index = [], d_unit = None \<rparr>) LOWER
         (Destination \<lparr> d_parameter = 1, d_index = [], d_unit = None \<rparr>)) XOR
       (Negation (Pulse \<lparr> d_parameter = 0, d_index = [], d_unit = None \<rparr> True))"

theorem fire_sends_evaluation_witness:
  "fire demo_world demo_expr [First, Second] = Some (demo_expr, Inr (Some True)) \<and>
   evaluate demo_world demo_expr = Inr True"
proof -
  have "fire demo_world demo_expr [First, Second] = Some (demo_expr, Inr (Some True))" by code_simp
  with fire_sends_evaluation[OF this] show ?thesis by simp
qed

fun pulses :: "expr \<Rightarrow> bool list" where
  "pulses (Composition e1 c e2) = pulses e1 @ pulses e2"
| "pulses (Negation e) = pulses e"
| "pulses (Pulse d r) = [r]"
| "pulses _ = []"

fun complete :: "expr \<Rightarrow> bool" where
  "complete No_expression = False"
| "complete (Composition e1 c e2) = (complete e1 \<and> complete e2)"
| "complete (Negation e) = complete e"
| "complete _ = True"

text \<open>The destinations that occur in an expression, those of pulses apart.\<close>

fun observed :: "expr \<Rightarrow> nat list" where
  "observed (Atom x c y) = operand_pulls x @ operand_pulls y"
| "observed (Composition e1 c e2) = observed e1 @ observed e2"
| "observed (Negation e) = observed e"
| "observed _ = []"

text \<open>Updating an expression succeeds exactly when no part of it is missing. It asks the parameters
  of the atoms for their values from left to right, leaves every pulse false, and has the result a reset
  of the expression has; a second update changes nothing more.\<close>

theorem update_clears_pulses:
  "(complete e \<longrightarrow>
     (\<exists>e'. update e = Inr (e', observed e) \<and> reset e = Inr e' \<and> list_all Not (pulses e') \<and>
       length (pulses e') = length (pulses e) \<and> update e' = Inr (e', observed e))) \<and>
   (\<not> complete e \<longrightarrow> update e = Inl Invalid_variant \<and> reset e = Inl Invalid_variant)"
  by (induction e) (auto split: sum.splits)

theorem update_clears_pulses_witness:
  "complete demo_expr \<and> pulses demo_expr = [True] \<and>
   (\<exists>e'. update demo_expr = Inr (e', [0, 1]) \<and> list_all Not (pulses e')) \<and>
   update (Negation No_expression) = Inl Invalid_variant"
proof -
  have c: "complete demo_expr" "pulses demo_expr = [True]" "observed demo_expr = [0, 1]" by code_simp+
  show ?thesis using update_clears_pulses[of demo_expr] update_clears_pulses[of "Negation No_expression"] c
    by auto
qed

end
