(* ===== verification/TokenRequest.thy ===== *)
theory TokenRequest
  imports TimeValue
begin

text \<open>
  Requests to run a process for a tick (dataflow/token_request.hpp): their construction, and the
  cutting of a tick at the boundaries of a loop, for playback in both directions. Speeds, tempos and
  musical positions, which are floating-point numbers the functions here only carry, have the type
  \<open>'d\<close>.
\<close>

section \<open>Requests\<close>

record 'd token_request =
  prev_date :: time_value
  date :: time_value
  parent_duration :: time_value
  offset :: time_value
  speed :: 'd
  tempo :: 'd
  signature :: "nat \<times> nat"
  start_sample :: int
  length_sample :: int
  start_discontinuous :: bool
  end_discontinuous :: bool
  musical_start_last_signature :: 'd
  musical_start_last_bar :: 'd
  musical_start_position :: 'd
  musical_end_last_bar :: 'd
  musical_end_position :: 'd

text \<open>The constructor; the fields it does not name have their initial values, \<open>zero\<close> where they are
  floating-point numbers.\<close>

definition make_token_request ::
    "'d \<Rightarrow> time_value \<Rightarrow> time_value \<Rightarrow> time_value \<Rightarrow> time_value \<Rightarrow> 'd \<Rightarrow> nat \<times> nat \<Rightarrow> 'd \<Rightarrow> 'd token_request" where
  "make_token_request zero prev_d d parent_dur off s sig tmp =
     \<lparr> prev_date = prev_d, date = d, parent_duration = parent_dur,
       offset = (if impl off < 0 then Time_value 0 else off), speed = s, tempo = tmp, signature = sig,
       start_sample = - 1, length_sample = - 1, start_discontinuous = False, end_discontinuous = False,
       musical_start_last_signature = zero, musical_start_last_bar = zero, musical_start_position = zero,
       musical_end_last_bar = zero, musical_end_position = zero \<rparr>"

definition add_offset :: "'d token_request \<Rightarrow> time_value \<Rightarrow> 'd token_request" where
  "add_offset tk t =
     tk\<lparr>prev_date := tv_plus_assign (prev_date tk) t, date := tv_plus_assign (date tk) t\<rparr>"

definition model_read_duration :: "'d token_request \<Rightarrow> time_value" where
  "model_read_duration tk = tv_minus (date tk) (prev_date tk)"

definition in_range :: "'d token_request \<Rightarrow> time_value \<Rightarrow> bool" where
  "in_range tk global_time \<longleftrightarrow> impl global_time \<ge> impl (prev_date tk) \<and> impl global_time < impl (date tk)"

section \<open>Loops\<close>

text \<open>What a loop calls, in order: the process on a request, or the transport of the process.\<close>

datatype 'd loop_call = Run "'d token_request" | Transport time_value

definition total_amount :: "time_value \<Rightarrow> int" where
  "total_amount tick = (if impl tick \<ge> 0 then impl tick else s64 (- impl tick))"

definition has_span :: "'d token_request \<Rightarrow> int \<Rightarrow> bool" where
  "has_span tk whole \<longleftrightarrow> start_sample tk \<ge> 0 \<and> length_sample tk \<ge> 0 \<and> whole > 0"

definition cut_sample :: "'d token_request \<Rightarrow> int \<Rightarrow> int \<Rightarrow> int" where
  "cut_sample tk whole amount =
     s64 (start_sample tk + s64 (s64 (length_sample tk * amount) + whole sdiv 2) sdiv whole)"

text \<open>The lambda \<open>set_piece_span\<close>: the samples of a piece, from what was consumed before it.\<close>

definition set_piece_span ::
    "'d token_request \<Rightarrow> int \<Rightarrow> int \<Rightarrow> int \<Rightarrow> 'd token_request \<Rightarrow> 'd token_request" where
  "set_piece_span tk whole consumed piece other =
     (if has_span tk whole then
        (let s0 = cut_sample tk whole consumed; s1 = cut_sample tk whole (s64 (consumed + piece))
         in other\<lparr>start_sample := s32 s0, length_sample := s32 (s64 (s1 - s0))\<rparr>)
      else other)"

partial_function (option) loop_forward ::
    "'d token_request \<Rightarrow> int \<Rightarrow> time_value \<Rightarrow> time_value \<Rightarrow> 'd token_request \<Rightarrow> time_value \<Rightarrow> time_value
     \<Rightarrow> int \<Rightarrow> 'd loop_call list option" where
  "loop_forward tk whole start_offset loop_duration other orig_from tick_amount consumed =
     (if tv_gt tick_amount Zero_tv then
        Option.bind (tv_mod orig_from loop_duration) (\<lambda>cur_from.
          if tv_lt (tv_plus cur_from tick_amount) loop_duration then
            (let prev = tv_plus cur_from start_offset
             in Some [Run (set_piece_span tk whole consumed (impl tick_amount)
                  (other\<lparr>prev_date := prev, date := tv_plus prev tick_amount\<rparr>))])
          else
            (let this_tick = tv_minus loop_duration cur_from;
                 tick_amount' = tv_minus_assign tick_amount this_tick;
                 orig_from' = tv_plus_assign orig_from this_tick;
                 prev = tv_plus cur_from start_offset;
                 other1 = set_piece_span tk whole consumed (impl this_tick)
                   (other\<lparr>prev_date := prev, date := tv_plus prev this_tick\<rparr>)
             in Option.bind
                  (loop_forward tk whole start_offset loop_duration
                     (other1\<lparr>offset := tv_plus_assign (offset other1) this_tick\<rparr>) orig_from' tick_amount'
                     (s64 (consumed + impl this_tick)))
                  (\<lambda>calls. Some (Run other1 # Transport start_offset # calls))))
      else Some [])"

text \<open>The body of the backward loop takes a remainder in \<open>int64_t\<close>; a position on a boundary of the
  loop is moved to its end.\<close>

definition backward_position :: "time_value \<Rightarrow> int \<Rightarrow> int" where
  "backward_position orig_from loop_dur =
     (let cur_from = impl orig_from smod loop_dur in if cur_from < 0 then s64 (cur_from + loop_dur) else cur_from)"

partial_function (option) loop_backward ::
    "'d token_request \<Rightarrow> int \<Rightarrow> time_value \<Rightarrow> time_value \<Rightarrow> 'd token_request \<Rightarrow> time_value \<Rightarrow> int
     \<Rightarrow> int \<Rightarrow> 'd loop_call list option" where
  "loop_backward tk whole start_offset loop_duration other orig_from remaining consumed =
     (if remaining > 0 then
        (let loop_dur = impl loop_duration;
             pos = backward_position orig_from loop_dur;
             moved = (if pos = 0 then [Transport (tv_plus start_offset loop_duration)] else []);
             cur_from = (if pos = 0 then loop_dur else pos);
             this_tick = (if remaining < cur_from then remaining else cur_from);
             prev = tv_plus (Time_value cur_from) start_offset;
             other1 = set_piece_span tk whole consumed this_tick
               (other\<lparr>prev_date := prev, date := tv_minus prev (Time_value this_tick)\<rparr>)
         in Option.bind
              (loop_backward tk whole start_offset loop_duration
                 (other1\<lparr>offset := tv_plus_assign (offset other1) (Time_value this_tick)\<rparr>)
                 (tv_minus_assign orig_from (Time_value this_tick)) (s64 (remaining - this_tick))
                 (s64 (consumed + this_tick)))
              (\<lambda>calls. Some (moved @ Run other1 # calls)))
      else Some [])"

definition loop :: "'d token_request \<Rightarrow> time_value \<Rightarrow> time_value \<Rightarrow> 'd loop_call list option" where
  "loop tk start_offset loop_duration =
     (if impl loop_duration \<le> 0 then Some [Run (add_offset tk start_offset)]
      else
        (let orig_from = prev_date tk;
             tick_amount = tv_minus (date tk) (prev_date tk)
         in if impl tick_amount = 0 then
              (let prev = tv_plus (Time_value (impl orig_from smod impl loop_duration)) start_offset
               in Some [Run (tk\<lparr>prev_date := prev, date := prev\<rparr>)])
            else if tv_ge tick_amount Zero_tv then
              loop_forward tk (total_amount tick_amount) start_offset loop_duration tk orig_from tick_amount 0
            else
              loop_backward tk (total_amount tick_amount) start_offset loop_duration tk orig_from
                (s64 (- impl tick_amount)) 0))"

end
