(* ===== verification/LoopTiling.thy ===== *)
theory LoopTiling
  imports TokenRequest
begin

text \<open>
  What the loop of a request does, on the bounds below which nothing saturates or wraps around: a
  reference that cuts an interval of integers at the multiples of the loop's duration, the proof that
  the two loops of the code follow it, and that the pieces tile the dates and the samples of the tick.
\<close>

section \<open>Time values in range\<close>

lemma nonneg_smod: "0 \<le> (a :: int) \<Longrightarrow> 0 < b \<Longrightarrow> a smod b = a mod b"
  by (cases "a = 0") (simp_all add: signed_modulo_int_def)

lemma nonneg_sdiv: "0 \<le> (a :: int) \<Longrightarrow> 0 < b \<Longrightarrow> a sdiv b = a div b"
  by (cases "a = 0") (simp_all add: signed_divide_int_def)

lemma tv_finite_iff: "tv_finite (Time_value x) \<longleftrightarrow> - (2 ^ 63) \<le> x \<and> x < infinite_min"
  by (auto simp: tv_finite_def tv_infinite_def)

lemma tv_small:
  assumes "\<bar>x\<bar> < infinite_min" "\<bar>y\<bar> < infinite_min"
  shows "\<bar>x + y\<bar> < infinite_min \<Longrightarrow> tv_plus (Time_value x) (Time_value y) = Time_value (x + y)"
    and "\<bar>x + y\<bar> < infinite_min \<Longrightarrow> tv_plus_assign (Time_value x) (Time_value y) = Time_value (x + y)"
    and "\<bar>x - y\<bar> < infinite_min \<Longrightarrow> tv_minus (Time_value x) (Time_value y) = Time_value (x - y)"
    and "\<bar>x - y\<bar> < infinite_min \<Longrightarrow> tv_minus_assign (Time_value x) (Time_value y) = Time_value (x - y)"
proof -
  have f: "tv_finite (Time_value x)" "tv_finite (Time_value y)"
    using assms by (auto simp: tv_finite_iff tv_consts)
  show "tv_plus (Time_value x) (Time_value y) = Time_value (x + y)" if "\<bar>x + y\<bar> < infinite_min"
    using tv_plus_exact[OF f] that by simp
  show "tv_minus (Time_value x) (Time_value y) = Time_value (x - y)" if "\<bar>x - y\<bar> < infinite_min"
    using tv_minus_exact[OF f] that by simp
  show "tv_plus_assign (Time_value x) (Time_value y) = Time_value (x + y)" if "\<bar>x + y\<bar> < infinite_min"
    using f that s64_id[of "x + y"] by (simp add: tv_plus_assign_def tv_finite_def tv_consts abs_less_iff)
  show "tv_minus_assign (Time_value x) (Time_value y) = Time_value (x - y)" if "\<bar>x - y\<bar> < infinite_min"
    using f that s64_id[of "x - y"] by (simp add: tv_minus_assign_def tv_finite_def tv_consts abs_less_iff)
qed

lemma tv_gt_Zero: "tv_gt (Time_value x) Zero_tv \<longleftrightarrow> x > 0"
  by (auto simp: tv_defs Zero_tv_def tv_consts)

lemma tv_ge_Zero: "tv_ge (Time_value x) Zero_tv \<longleftrightarrow> x \<ge> 0"
  by (auto simp: tv_defs Zero_tv_def tv_consts)

lemma tv_lt_plus:
  assumes "0 \<le> x" "0 \<le> y" "x < infinite_min" "y < infinite_min" "l < infinite_min"
  shows "tv_lt (tv_plus (Time_value x) (Time_value y)) (Time_value l) \<longleftrightarrow> x + y < l"
proof (cases "x + y < infinite_min")
  case True
  then show ?thesis using assms by (simp add: tv_small tv_defs)
next
  case False
  then have "tv_plus (Time_value x) (Time_value y) = Time_value tv_infinity"
    using assms by (simp add: tv_plus_def add_is_infinite_def u64_id tv_infinite_def tv_consts)
  then show ?thesis using False assms by (simp add: tv_defs tv_consts)
qed

section \<open>The reference\<close>

text \<open>Cutting \<open>n\<close> units from a position on, forwards or backwards, at the multiples of \<open>L\<close>: the position
  and the length of each piece.\<close>

function cuts :: "int \<Rightarrow> int \<Rightarrow> int \<Rightarrow> (int \<times> int) list" where
  "cuts L a n =
     (if L \<le> 0 \<or> n \<le> 0 then []
      else (let m = min n (L - a mod L) in (a, m) # cuts L (a + m) (n - m)))"
  by pat_completeness auto
termination
  by (relation "measure (\<lambda>(_, _, n). nat n)") (auto simp: min_def)

definition back_to :: "int \<Rightarrow> int \<Rightarrow> int" where
  "back_to L a = (if a mod L = 0 then L else a mod L)"

lemma back_to_range: "0 < L \<Longrightarrow> 0 < back_to L a \<and> back_to L a \<le> L"
  by (auto simp: back_to_def order_less_le pos_mod_bound[THEN less_imp_le])

function cuts_back :: "int \<Rightarrow> int \<Rightarrow> int \<Rightarrow> (int \<times> int) list" where
  "cuts_back L a n =
     (if L \<le> 0 \<or> n \<le> 0 then []
      else (let m = min n (back_to L a) in (a, m) # cuts_back L (a - m) (n - m)))"
  by pat_completeness auto
termination
  by (relation "measure (\<lambda>(_, _, n). nat n)") (use back_to_range in \<open>auto simp: min_def\<close>)

declare cuts.simps [simp del] cuts_back.simps [simp del]

lemma cuts_0 [simp]: "cuts L a 0 = []" "cuts_back L a 0 = []"
  by (simp_all add: cuts.simps[of L a 0] cuts_back.simps[of L a 0])

definition sample_cut :: "'d token_request \<Rightarrow> int \<Rightarrow> int" where
  "sample_cut tk c =
     (let T = \<bar>impl (date tk) - impl (prev_date tk)\<bar> in start_sample tk + (length_sample tk * c + T div 2) div T)"

definition spanned :: "'d token_request \<Rightarrow> bool" where
  "spanned tk \<longleftrightarrow> start_sample tk \<ge> 0 \<and> length_sample tk \<ge> 0"

text \<open>The request of a piece: \<open>c\<close> units of the tick were consumed before it, it is \<open>m\<close> units long.\<close>

definition piece :: "'d token_request \<Rightarrow> int \<Rightarrow> int \<Rightarrow> int \<Rightarrow> int \<Rightarrow> 'd token_request" where
  "piece tk c m from till =
     (let t = tk\<lparr>prev_date := Time_value from, date := Time_value till, offset := Time_value (impl (offset tk) + c)\<rparr>
      in if spanned tk then
           t\<lparr>start_sample := sample_cut tk c, length_sample := sample_cut tk (c + m) - sample_cut tk c\<rparr>
         else t)"

definition forward_call :: "'d token_request \<Rightarrow> int \<Rightarrow> int \<Rightarrow> int \<times> int \<Rightarrow> 'd loop_call list" where
  "forward_call tk so L am =
     (let (a, m) = am
      in Run (piece tk (a - impl (prev_date tk)) m (so + a mod L) (so + a mod L + m))
         # (if (a + m) mod L = 0 then [Transport (Time_value so)] else []))"

definition backward_call :: "'d token_request \<Rightarrow> int \<Rightarrow> int \<Rightarrow> int \<times> int \<Rightarrow> 'd loop_call list" where
  "backward_call tk so L am =
     (let (a, m) = am
      in (if a mod L = 0 then [Transport (Time_value (so + L))] else [])
         @ [Run (piece tk (impl (prev_date tk) - a) m (so + back_to L a) (so + back_to L a - m))])"

text \<open>The bounds: nothing reaches infinity, and the products that place the cuts fit 64 bits.\<close>

definition loopable :: "'d token_request \<Rightarrow> int \<Rightarrow> int \<Rightarrow> bool" where
  "loopable tk so L \<longleftrightarrow>
     (let T = \<bar>impl (date tk) - impl (prev_date tk)\<bar>
      in \<bar>impl (prev_date tk)\<bar> < infinite_min \<and> \<bar>impl (date tk)\<bar> < infinite_min \<and> 0 < T \<and> T < infinite_min
       \<and> 0 < L \<and> 0 \<le> so \<and> so + L < infinite_min
       \<and> 0 \<le> impl (offset tk) \<and> impl (offset tk) + T < infinite_min
       \<and> in32 (start_sample tk) \<and> in32 (length_sample tk) \<and> start_sample tk + length_sample tk < 2 ^ 31
       \<and> length_sample tk * T < 2 ^ 62)"

section \<open>Samples\<close>

lemma cut_sample_eq:
  assumes "loopable tk so L" and "spanned tk" and "T = \<bar>impl (date tk) - impl (prev_date tk)\<bar>"
    and "0 \<le> c" and "c \<le> T"
  shows "cut_sample tk T c = sample_cut tk c"
    and "start_sample tk \<le> sample_cut tk c" and "sample_cut tk c \<le> start_sample tk + length_sample tk"
proof -
  let ?l = "length_sample tk"
  have T: "0 < T" "T < infinite_min" and l: "0 \<le> ?l" "?l * T < 2 ^ 62" and s: "0 \<le> start_sample tk"
      "start_sample tk + ?l < 2 ^ 31"
    using assms by (auto simp: loopable_def spanned_def Let_def)
  have c: "0 \<le> ?l * c" "?l * c \<le> ?l * T" using assms(4,5) l by (simp_all add: mult_left_mono)
  have n: "0 \<le> ?l * c + T div 2" "?l * c + T div 2 < 2 ^ 63"
    using c l T by (simp_all add: tv_consts)
  have "(?l * c + T div 2) div T \<le> (?l * T + T div 2) div T" using c T by (intro zdiv_mono1) auto
  also have "\<dots> = ?l" using T by simp
  finally have d: "(?l * c + T div 2) div T \<le> ?l" .
  have d0: "0 \<le> (?l * c + T div 2) div T" using n T by (simp add: pos_imp_zdiv_nonneg_iff)
  have e: "s64 (?l * c) = ?l * c" using c l by (intro s64_id) auto
  have e': "s64 (?l * c + T div 2) = ?l * c + T div 2" using n by (intro s64_id) auto
  have "s64 (start_sample tk + (?l * c + T div 2) div T) = start_sample tk + (?l * c + T div 2) div T"
    using d d0 s by (intro s64_id) auto
  then show "cut_sample tk T c = sample_cut tk c"
    unfolding cut_sample_def sample_cut_def nonneg_sdiv[of T 2, OF less_imp_le[OF T(1)] zero_less_numeral]
      e e' nonneg_sdiv[OF n(1) T(1)] assms(3)[symmetric] Let_def .
  show "start_sample tk \<le> sample_cut tk c" "sample_cut tk c \<le> start_sample tk + ?l"
    using d d0 by (simp_all add: sample_cut_def assms(3)[symmetric] Let_def)
qed

lemma sample_cut_mono:
  assumes "loopable tk so L" and "spanned tk" and "c \<le> d"
  shows "sample_cut tk c \<le> sample_cut tk d"
proof -
  have "length_sample tk * c \<le> length_sample tk * d" using assms(2,3) by (simp add: spanned_def mult_left_mono)
  moreover have "0 < \<bar>impl (date tk) - impl (prev_date tk)\<bar>" using assms(1) by (auto simp: loopable_def Let_def)
  ultimately show ?thesis by (simp add: sample_cut_def Let_def zdiv_mono1)
qed

lemma sample_cut_ends:
  assumes "loopable tk so L"
  shows "sample_cut tk 0 = start_sample tk"
    and "sample_cut tk \<bar>impl (date tk) - impl (prev_date tk)\<bar> = start_sample tk + length_sample tk"
proof -
  define T where "T = \<bar>impl (date tk) - impl (prev_date tk)\<bar>"
  have T: "0 < T" using assms by (auto simp: loopable_def T_def Let_def)
  show "sample_cut tk 0 = start_sample tk" using T by (simp add: sample_cut_def T_def[symmetric])
  have "(length_sample tk * T + T div 2) div T = length_sample tk" using T by simp
  then show "sample_cut tk \<bar>impl (date tk) - impl (prev_date tk)\<bar> = start_sample tk + length_sample tk"
    by (simp add: sample_cut_def T_def[symmetric])
qed

lemma set_piece_span_eq:
  assumes "loopable tk so L" and "T = \<bar>impl (date tk) - impl (prev_date tk)\<bar>"
    and "0 \<le> c" and "0 \<le> m" and "c + m \<le> T"
  shows "set_piece_span tk T c m other =
    (if spanned tk then
       other\<lparr>start_sample := sample_cut tk c, length_sample := sample_cut tk (c + m) - sample_cut tk c\<rparr>
     else other)"
proof (cases "spanned tk")
  case True
  note e = cut_sample_eq[OF assms(1) True assms(2)]
  have b: "start_sample tk \<ge> 0" "length_sample tk \<ge> 0" "start_sample tk + length_sample tk < 2 ^ 31" "T < infinite_min" "T > 0"
    using assms(1,2) True by (auto simp: loopable_def spanned_def Let_def)
  have cm: "s64 (c + m) = c + m" using assms(3-5) b by (intro s64_id) (simp add: tv_consts)
  have "sample_cut tk c \<le> sample_cut tk (c + m)" using sample_cut_mono[OF assms(1) True] assms(4) by simp
  then show ?thesis
    using True b e[of c] e[of "c + m"] assms(3-5)
      s32_id[of "sample_cut tk c"] s64_id[of "sample_cut tk (c + m) - sample_cut tk c"]
      s32_id[of "sample_cut tk (c + m) - sample_cut tk c"]
    by (simp add: set_piece_span_def has_span_def cm Let_def)
next
  case False
  then show ?thesis by (auto simp: set_piece_span_def has_span_def spanned_def)
qed

section \<open>The loops follow the reference\<close>

text \<open>The request the loop modifies differs from the original one in the fields of the last piece.\<close>

definition carried :: "'d token_request \<Rightarrow> int \<Rightarrow> 'd token_request \<Rightarrow> bool" where
  "carried tk c other \<longleftrightarrow>
     other\<lparr>prev_date := prev_date tk, date := date tk, offset := offset tk, start_sample := start_sample tk,
       length_sample := length_sample tk\<rparr> = tk
     \<and> offset other = Time_value (impl (offset tk) + c)
     \<and> (\<not> spanned tk \<longrightarrow> start_sample other = start_sample tk \<and> length_sample other = length_sample tk)"

lemma carried_refl: "carried tk 0 tk"
  by (simp add: carried_def)

lemma carried_piece:
  assumes "carried tk c other" and "loopable tk so L" and "T = \<bar>impl (date tk) - impl (prev_date tk)\<bar>"
    and "0 \<le> c" and "0 \<le> m" and "c + m \<le> T"
  shows "set_piece_span tk T c m (other\<lparr>prev_date := Time_value from, date := Time_value till\<rparr>) = piece tk c m from till"
proof (cases "spanned tk")
  case True
  show ?thesis unfolding set_piece_span_eq[OF assms(2-6)] if_P[OF True] piece_def Let_def
    using assms(1) by (cases tk; cases other) (simp add: carried_def)
next
  case False
  show ?thesis unfolding set_piece_span_eq[OF assms(2-6)] if_not_P[OF False] piece_def Let_def
    using assms(1) False by (cases tk; cases other) (simp add: carried_def)
qed

lemma carried_next:
  assumes "loopable tk so L" and "0 \<le> c" and "0 \<le> m" and "c + m \<le> \<bar>impl (date tk) - impl (prev_date tk)\<bar>"
  shows "carried tk (c + m)
    ((piece tk c m from till)\<lparr>offset := tv_plus_assign (offset (piece tk c m from till)) (Time_value m)\<rparr>)"
proof -
  have b: "0 \<le> impl (offset tk)" "impl (offset tk) + (c + m) < infinite_min"
    using assms by (auto simp: loopable_def Let_def)
  have "tv_plus_assign (Time_value (impl (offset tk) + c)) (Time_value m) = Time_value (impl (offset tk) + (c + m))"
    using b assms(2,3) by (subst tv_small) (auto simp: add.assoc)
  then show ?thesis by (simp add: carried_def piece_def Let_def)
qed

lemma tv_mod_pos: "0 \<le> a \<Longrightarrow> 0 < L \<Longrightarrow> tv_mod (Time_value a) (Time_value L) = Some (Time_value (a mod L))"
  by (simp add: tv_mod_def nonneg_smod)

lemma loop_forward_eq:
  assumes p: "p = impl (prev_date tk)" "0 \<le> p" and T: "T = impl (date tk) - p" "0 < T"
  shows "loopable tk so L \<Longrightarrow> p \<le> a \<Longrightarrow> 0 \<le> n \<Longrightarrow> a + n = p + T \<Longrightarrow> carried tk (a - p) other \<Longrightarrow>
    loop_forward tk T (Time_value so) (Time_value L) other (Time_value a) (Time_value n) (a - p)
      = Some (concat (map (forward_call tk so L) (cuts L a n)))"
proof (induction L a n arbitrary: other rule: cuts.induct)
  case (1 L a n)
  note lo = \<open>loopable tk so L\<close> and h = "1.prems"(2-5)
  have b: "0 < L" "0 \<le> so" "so + L < infinite_min" "p + T < infinite_min" "T < infinite_min"
    using lo p T by (auto simp: loopable_def Let_def)
  have Tabs: "T = \<bar>impl (date tk) - impl (prev_date tk)\<bar>" using T p by simp
  show ?case
  proof (cases "n = 0")
    case True
    then show ?thesis
      by (subst loop_forward.simps, subst cuts.simps) (simp add: tv_gt_Zero)
  next
    case False
    then have n: "0 < n" using h by simp
    define m where "m = min n (L - a mod L)"
    define r where "r = a mod L"
    have r: "0 \<le> r" "r < L" using b by (simp_all add: r_def)
    have m: "0 < m" "m \<le> n" "r + m \<le> L" using n r by (auto simp: m_def r_def)
    have mod: "tv_mod (Time_value a) (Time_value L) = Some (Time_value r)"
      using h p b by (simp add: tv_mod_pos r_def)
    have lt: "tv_lt (tv_plus (Time_value r) (Time_value n)) (Time_value L) \<longleftrightarrow> r + n < L"
      using r n b h p by (intro tv_lt_plus) linarith+
    have prev: "tv_plus (Time_value r) (Time_value so) = Time_value (so + r)"
      using r b by (subst tv_small) (auto simp: add.commute)
    have till: "tv_plus (Time_value (so + r)) (Time_value m) = Time_value (so + r + m)"
      using r b m by (subst tv_small) auto
    have pc: "set_piece_span tk T (a - p) m (other\<lparr>prev_date := Time_value (so + r),
        date := Time_value (so + r + m)\<rparr>) = piece tk (a - p) m (so + r) (so + r + m)"
      using h m by (intro carried_piece[OF _ lo Tabs]) auto
    have c: "cuts L a n = (a, m) # cuts L (a + m) (n - m)"
      using n b by (subst cuts.simps) (simp add: m_def Let_def)
    show ?thesis
    proof (cases "r + n < L")
      case True
      then have mn: "m = n" by (simp add: m_def r_def)
      have "(a + n) mod L = (r + n) mod L" by (simp add: r_def mod_add_left_eq)
      then have "(a + n) mod L = r + n" using True n r by simp
      then have nz: "(a + n) mod L \<noteq> 0" using n r by simp
      have "cuts L (a + n) (n - n) = []" by (subst cuts.simps) simp
      then have "concat (map (forward_call tk so L) (cuts L a n)) = [Run (piece tk (a - p) n (so + r) (so + r + n))]"
        using c nz by (simp add: mn forward_call_def p(1) r_def)
      then show ?thesis
        using True n pc lt prev till
        by (subst loop_forward.simps) (simp add: tv_gt_Zero mod mn Let_def)
    next
      case False
      then have meq: "m = L - r" by (simp add: m_def r_def)
      then have "a + m = L * (a div L) + L" by (simp add: r_def minus_mod_eq_mult_div [symmetric])
      then have bd: "(a + m) mod L = 0" by simp
      have step: "tv_minus (Time_value L) (Time_value r) = Time_value m"
        using b r meq by (subst tv_small) auto
      have tick: "tv_minus_assign (Time_value n) (Time_value m) = Time_value (n - m)"
        using m n b h p by (subst tv_small) auto
      have orig: "tv_plus_assign (Time_value a) (Time_value m) = Time_value (a + m)"
        using m n b h p by (subst tv_small) auto
      have cons: "s64 (a - p + m) = a + m - p"
        using m n b h p by (subst s64_id) (auto simp: tv_consts)
      let ?o = "piece tk (a - p) m (so + r) (so + r + m)"
      have carry: "carried tk (a + m - p) (?o\<lparr>offset := tv_plus_assign (offset ?o) (Time_value m)\<rparr>)"
        using carried_next[OF lo, of "a - p" m] h m T by (simp add: Tabs[symmetric] algebra_simps)
      have IH: "loop_forward tk T (Time_value so) (Time_value L)
          (?o\<lparr>offset := tv_plus_assign (offset ?o) (Time_value m)\<rparr>) (Time_value (a + m)) (Time_value (n - m)) (a + m - p)
        = Some (concat (map (forward_call tk so L) (cuts L (a + m) (n - m))))"
        using h m n b carry lo by (intro "1.IH"[OF _ m_def]) auto
      show ?thesis
        using False n lt
        by (subst loop_forward.simps)
          (simp add: tv_gt_Zero mod step tick orig cons prev till pc Let_def IH c forward_call_def p(1)[symmetric] bd r_def[symmetric])
    qed
  qed
qed

text \<open>Backwards the position is the remainder of the Euclidean division, also for negative dates.\<close>

lemma backward_position_eq:
  assumes "0 < L" and "L < infinite_min"
  shows "backward_position (Time_value a) L = a mod L"
proof -
  have bd: "0 \<le> x mod L" "x mod L < L" for x using assms(1) by simp_all
  have "a smod L = (if a < 0 then - ((- a) mod L) else a mod L)"
    using assms(1) by (auto simp: signed_modulo_int_def sgn_if)
  moreover have "a mod L = (if (- a) mod L = 0 then 0 else L - (- a) mod L)"
    using zmod_zminus1_eq_if[of "- a" L] by simp
  ultimately show ?thesis
    using bd[of a] bd[of "- a"] assms s64_id[of "L - (- a) mod L"]
    by (auto simp: backward_position_def tv_consts Let_def split: if_splits)
qed

lemma loop_backward_eq:
  assumes p: "p = impl (prev_date tk)" and T: "T = p - impl (date tk)" "0 < T"
  shows "loopable tk so L \<Longrightarrow> a \<le> p \<Longrightarrow> 0 \<le> n \<Longrightarrow> a - n = p - T \<Longrightarrow> carried tk (p - a) other \<Longrightarrow>
    loop_backward tk T (Time_value so) (Time_value L) other (Time_value a) n (p - a)
      = Some (concat (map (backward_call tk so L) (cuts_back L a n)))"
proof (induction L a n arbitrary: other rule: cuts_back.induct)
  case (1 L a n)
  note lo = \<open>loopable tk so L\<close> and h = "1.prems"(2-5)
  have b: "0 < L" "0 \<le> so" "so + L < infinite_min" "T < infinite_min" "\<bar>p\<bar> < infinite_min" "\<bar>p - T\<bar> < infinite_min"
    using lo p T by (auto simp: loopable_def Let_def)
  have Tabs: "T = \<bar>impl (date tk) - impl (prev_date tk)\<bar>" using T p by simp
  show ?case
  proof (cases "n = 0")
    case True
    then show ?thesis
      by (subst loop_backward.simps, subst cuts_back.simps) simp
  next
    case False
    then have n: "0 < n" using h by simp
    define r where "r = back_to L a"
    define m where "m = min n r"
    have r: "0 < r" "r \<le> L" using back_to_range[OF b(1), of a] by (simp_all add: r_def)
    have m: "0 < m" "m \<le> n" "m \<le> r" using n r by (auto simp: m_def)
    have pos: "backward_position (Time_value a) L = a mod L"
      using b by (intro backward_position_eq) auto
    have req: "(if a mod L = 0 then L else a mod L) = r" by (simp add: r_def back_to_def)
    have prev: "tv_plus (Time_value r) (Time_value so) = Time_value (so + r)"
      using r b by (subst tv_small) (auto simp: add.commute)
    have till: "tv_minus (Time_value (so + r)) (Time_value m) = Time_value (so + r - m)"
      using r b m by (subst tv_small) auto
    have tr: "tv_plus (Time_value so) (Time_value L) = Time_value (so + L)"
      using b by (subst tv_small) auto
    have orig: "tv_minus_assign (Time_value a) (Time_value m) = Time_value (a - m)"
      using m n b h by (subst tv_small) auto
    have rest: "s64 (n - m) = n - m" "s64 (p - a + m) = p - (a - m)"
      using m n b h by (subst s64_id; simp add: tv_consts)+
    have mn: "(if n < r then n else r) = m" by (simp add: m_def)
    have pc: "set_piece_span tk T (p - a) m (other\<lparr>prev_date := Time_value (so + r),
        date := Time_value (so + r - m)\<rparr>) = piece tk (p - a) m (so + r) (so + r - m)"
      using h m by (intro carried_piece[OF _ lo Tabs]) auto
    let ?o = "piece tk (p - a) m (so + r) (so + r - m)"
    have carry: "carried tk (p - (a - m)) (?o\<lparr>offset := tv_plus_assign (offset ?o) (Time_value m)\<rparr>)"
      using carried_next[OF lo, of "p - a" m] h m T by (simp add: Tabs[symmetric] algebra_simps)
    have IH: "loop_backward tk T (Time_value so) (Time_value L)
        (?o\<lparr>offset := tv_plus_assign (offset ?o) (Time_value m)\<rparr>) (Time_value (a - m)) (n - m) (p - (a - m))
      = Some (concat (map (backward_call tk so L) (cuts_back L (a - m) (n - m))))"
      using h m n b carry lo by (intro "1.IH"[OF _ m_def[unfolded r_def]]) auto
    have c: "cuts_back L a n = (a, m) # cuts_back L (a - m) (n - m)"
      using n b by (subst cuts_back.simps) (simp add: m_def r_def Let_def)
    show ?thesis
      unfolding loop_backward.simps[of _ _ _ _ _ _ n] if_P[OF n] Let_def time_value.sel pos req mn orig rest prev till pc tr IH
      by (simp add: c backward_call_def[of _ _ _ "(a, m)"] p(1)[symmetric] r_def[symmetric])
  qed
qed

section \<open>The pieces tile the tick\<close>

text \<open>What a listener sees: \<open>Inl\<close> a date of the looped content, \<open>Inr\<close> a transport.\<close>

definition played :: "'d loop_call \<Rightarrow> (int + int) list" where
  "played c =
     (case c of
        Run r \<Rightarrow>
          (let a = impl (prev_date r); b = impl (date r)
           in map Inl (if a \<le> b then [a..b - 1] else rev [b + 1..a]))
      | Transport t \<Rightarrow> [Inr (impl t)])"

text \<open>The units of the buffer, and of the parent's tick, that a call covers.\<close>

definition samples_of :: "'d loop_call \<Rightarrow> int list" where
  "samples_of c =
     (case c of Run r \<Rightarrow> [start_sample r..start_sample r + length_sample r - 1] | Transport _ \<Rightarrow> [])"

definition offsets_of :: "'d loop_call \<Rightarrow> int list" where
  "offsets_of c =
     (case c of
        Run r \<Rightarrow> [impl (offset r)..impl (offset r) + \<bar>impl (date r) - impl (prev_date r)\<bar> - 1]
      | Transport _ \<Rightarrow> [])"

text \<open>One unit of the tick, at the position \<open>x\<close>: forwards the transport follows the last date of the
  loop, backwards it precedes the end of the loop.\<close>

definition forward_unit :: "int \<Rightarrow> int \<Rightarrow> int \<Rightarrow> (int + int) list" where
  "forward_unit so L x = Inl (so + x mod L) # (if (x + 1) mod L = 0 then [Inr so] else [])"

definition backward_unit :: "int \<Rightarrow> int \<Rightarrow> int \<Rightarrow> (int + int) list" where
  "backward_unit so L x = (if x mod L = 0 then [Inr (so + L)] else []) @ [Inl (so + back_to L x)]"

lemma upto_append: "a \<le> b \<Longrightarrow> b \<le> c \<Longrightarrow> [a..b - 1] @ [b..c - 1] = [a..c - 1]" for a b c :: int
proof (cases "b = c")
  case False
  assume "a \<le> b" "b \<le> c"
  then show ?thesis using False upto_split1[of a b "c - 1"] by simp
qed simp

lemma cuts_length:
  "0 < L \<Longrightarrow> am \<in> set (cuts L a n) \<Longrightarrow> 0 < snd am \<and> fst am mod L + snd am \<le> L \<and> a \<le> fst am \<and> fst am + snd am \<le> a + n"
proof (induction L a n rule: cuts.induct)
  case (1 L a n)
  show ?case
  proof (cases "n \<le> 0")
    case True
    then show ?thesis using 1 by (simp add: cuts.simps[of L a n])
  next
    case False
    define m where "m = min n (L - a mod L)"
    have m: "0 < m" "m \<le> n" "a mod L + m \<le> L" using False 1 by (auto simp: m_def)
    have c: "cuts L a n = (a, m) # cuts L (a + m) (n - m)"
      using False 1 by (subst cuts.simps) (simp add: m_def Let_def)
    show ?thesis using 1 False m "1.IH"[OF _ m_def] by (auto simp: c)
  qed
qed

lemma cuts_tile:
  assumes "\<And>x y. x \<le> y \<Longrightarrow> f x \<le> (f y :: int)"
  shows "0 < L \<Longrightarrow> 0 \<le> n \<Longrightarrow>
    concat (map (\<lambda>(a, m). [f a..f (a + m) - 1]) (cuts L a n)) = [f a..f (a + n) - 1]"
proof (induction L a n rule: cuts.induct)
  case (1 L a n)
  show ?case
  proof (cases "n \<le> 0")
    case True
    then show ?thesis using 1 by (simp add: cuts.simps[of L a n])
  next
    case False
    define m where "m = min n (L - a mod L)"
    have m: "0 < m" "m \<le> n" using False 1 by (auto simp: m_def)
    have c: "cuts L a n = (a, m) # cuts L (a + m) (n - m)"
      using False 1 by (subst cuts.simps) (simp add: m_def Let_def)
    show ?thesis using 1 False m "1.IH"[OF _ m_def] upto_append[OF assms assms, of a "a + m" "a + n"] by (simp add: c)
  qed
qed

lemma cuts_back_tile:
  assumes "\<And>x y. x \<le> y \<Longrightarrow> f y \<le> (f x :: int)"
  shows "0 < L \<Longrightarrow> 0 \<le> n \<Longrightarrow>
    concat (map (\<lambda>(a, m). [f a..f (a - m) - 1]) (cuts_back L a n)) = [f a..f (a - n) - 1]"
proof (induction L a n rule: cuts_back.induct)
  case (1 L a n)
  show ?case
  proof (cases "n \<le> 0")
    case True
    then show ?thesis using 1 by (simp add: cuts_back.simps[of L a n])
  next
    case False
    define m where "m = min n (back_to L a)"
    have m: "0 < m" "m \<le> n" using False 1 back_to_range[of L a] by (auto simp: m_def)
    have c: "cuts_back L a n = (a, m) # cuts_back L (a - m) (n - m)"
      using False 1 by (subst cuts_back.simps) (simp add: m_def Let_def)
    show ?thesis using 1 False m "1.IH"[OF _ m_def] upto_append[OF assms assms, of "a - m" a "a - n"] by (simp add: c)
  qed
qed

text \<open>A piece that does not pass a boundary plays its units.\<close>

lemma forward_units:
  assumes "0 < L" and "0 < m" and "a mod L + m \<le> L"
  shows "concat (map (forward_unit so L) [a..a + m - 1]) =
    map Inl [so + a mod L..so + a mod L + m - 1] @ (if (a + m) mod L = 0 then [Inr so] else [])"
  using assms(2,3)
proof (induction m rule: int_gr_induct)
  case base
  then show ?case by (simp add: forward_unit_def)
next
  case (step m)
  then have lt: "a mod L + m < L" and m: "0 < m" by simp_all
  have "(a + m) mod L = (a mod L + m) mod L" by (simp add: mod_add_left_eq)
  then have am: "(a + m) mod L = a mod L + m" using lt m assms(1) by simp
  then have "(a + m) mod L \<noteq> 0" using m assms(1) by (smt (verit) pos_mod_sign)
  moreover have "[a..a + (m + 1) - 1] = [a..a + m - 1] @ [a + m]"
    and "[so + a mod L..so + a mod L + (m + 1) - 1] = [so + a mod L..so + a mod L + m - 1] @ [so + a mod L + m]"
    using m upto_rec2[of a "a + m"] upto_rec2[of "so + a mod L" "so + a mod L + m"] by (simp_all add: algebra_simps)
  ultimately show ?case using step.IH lt am by (simp add: forward_unit_def add.assoc)
qed

lemma backward_units:
  assumes "0 < L" and "0 < m" and "m \<le> back_to L a"
  shows "concat (map (backward_unit so L) (rev [a - m + 1..a])) =
    (if a mod L = 0 then [Inr (so + L)] else []) @ map Inl (rev [so + back_to L a - m + 1..so + back_to L a])"
  using assms(2,3)
proof (induction m rule: int_gr_induct)
  case base
  then show ?case by (simp add: backward_unit_def)
next
  case (step m)
  then have lt: "0 < back_to L a - m" "back_to L a - m < L" and m: "0 < m"
    using back_to_range[OF assms(1), of a] by simp_all
  have "back_to L a mod L = a mod L" by (simp add: back_to_def)
  then have "(a - m) mod L = (back_to L a - m) mod L" by (metis mod_diff_left_eq)
  then have am: "(a - m) mod L = back_to L a - m" using lt by simp
  then have bk: "back_to L (a - m) = back_to L a - m" using lt by (simp add: back_to_def)
  have "[a - (m + 1) + 1..a] = (a - m) # [a - m + 1..a]"
    and "[so + back_to L a - (m + 1) + 1..so + back_to L a]
       = (so + back_to L a - m) # [so + back_to L a - m + 1..so + back_to L a]"
    using m upto_rec1[of "a - m" a] upto_rec1[of "so + back_to L a - m" "so + back_to L a"] by (simp_all add: algebra_simps)
  then show ?case using step.IH lt am bk by (simp add: backward_unit_def algebra_simps)
qed

lemma concat_map_concat: "concat (map f (concat (map g xs))) = concat (map (\<lambda>x. concat (map f (g x))) xs)"
  by (induction xs) simp_all

lemma loop_forward_calls:
  assumes "loopable tk so L" and "0 \<le> impl (prev_date tk)" and "impl (prev_date tk) < impl (date tk)"
  shows "loop tk (Time_value so) (Time_value L) =
    Some (concat (map (forward_call tk so L) (cuts L (impl (prev_date tk)) (impl (date tk) - impl (prev_date tk)))))"
proof -
  define p where "p = impl (prev_date tk)"
  define T where "T = impl (date tk) - p"
  have b: "0 \<le> p" "0 < T" "T < infinite_min" "p < infinite_min" "p + T < infinite_min" "0 < L"
    using assms by (auto simp: p_def T_def loopable_def Let_def)
  have "tv_minus (date tk) (prev_date tk) = tv_minus (Time_value (p + T)) (Time_value p)"
    by (simp add: p_def T_def)
  also have "\<dots> = Time_value T" using b by (subst tv_small) auto
  finally have tick: "tv_minus (date tk) (prev_date tk) = Time_value T" .
  have "loop_forward tk T (Time_value so) (Time_value L) tk (Time_value p) (Time_value T) (p - p)
      = Some (concat (map (forward_call tk so L) (cuts L p T)))"
    using b assms(1) carried_refl[of tk] by (intro loop_forward_eq) (auto simp: p_def T_def)
  then show ?thesis
    using b by (simp add: loop_def tick Let_def tv_ge_Zero total_amount_def p_def T_def)
qed

lemma loop_backward_calls:
  assumes "loopable tk so L" and "impl (date tk) < impl (prev_date tk)"
  shows "loop tk (Time_value so) (Time_value L) =
    Some (concat (map (backward_call tk so L) (cuts_back L (impl (prev_date tk)) (impl (prev_date tk) - impl (date tk)))))"
proof -
  define p where "p = impl (prev_date tk)"
  define T where "T = p - impl (date tk)"
  have b: "0 < T" "T < infinite_min" "\<bar>p\<bar> < infinite_min" "\<bar>p - T\<bar> < infinite_min" "0 < L"
    using assms by (auto simp: p_def T_def loopable_def Let_def)
  have "tv_minus (date tk) (prev_date tk) = tv_minus (Time_value (p - T)) (Time_value p)"
    by (simp add: p_def T_def)
  also have "\<dots> = Time_value (- T)" using b by (subst tv_small) auto
  finally have tick: "tv_minus (date tk) (prev_date tk) = Time_value (- T)" .
  have "loop_backward tk T (Time_value so) (Time_value L) tk (Time_value p) T (p - p)
      = Some (concat (map (backward_call tk so L) (cuts_back L p T)))"
    using b assms(1) carried_refl[of tk] by (intro loop_backward_eq) (auto simp: p_def T_def)
  then show ?thesis
    using b s64_id[of T] by (simp add: loop_def tick Let_def tv_ge_Zero total_amount_def p_def T_def tv_consts)
qed

text \<open>C14: forwards, the calls of a looped tick play each date of the tick once and in order, reduced to
  the loop, the process is moved to the start of the loop right after the last date of each turn and at no
  other time, and the offsets of the pieces tile the tick.\<close>

theorem loop_forward_plays:
  assumes "loopable tk so L" and "0 \<le> impl (prev_date tk)" and "impl (prev_date tk) < impl (date tk)"
  shows "\<exists>calls. loop tk (Time_value so) (Time_value L) = Some calls
    \<and> concat (map played calls) = concat (map (forward_unit so L) [impl (prev_date tk)..impl (date tk) - 1])
    \<and> concat (map offsets_of calls) = [impl (offset tk)..impl (offset tk) + (impl (date tk) - impl (prev_date tk)) - 1]"
proof -
  define p where "p = impl (prev_date tk)"
  define T where "T = impl (date tk) - p"
  have b: "0 < L" "0 \<le> T" using assms by (auto simp: p_def T_def loopable_def Let_def)
  have pl: "concat (map played (forward_call tk so L am)) = (case am of (a, m) \<Rightarrow> concat (map (forward_unit so L) [a..a + m - 1]))"
    and off: "concat (map offsets_of (forward_call tk so L am)) = (case am of (a, m) \<Rightarrow> [impl (offset tk) + (a - p)..impl (offset tk) + (a + m - p) - 1])"
    if "am \<in> set (cuts L p T)" for am
    using cuts_length[OF b(1) that] b forward_units[of L "snd am" "fst am" so]
    by (auto simp: forward_call_def played_def offsets_of_def piece_def Let_def p_def algebra_simps split: prod.splits)
  have e: "concat (map (\<lambda>(a, m). concat (map (forward_unit so L) [a..a + m - 1])) (cuts L p T))
    = concat (map (forward_unit so L) (concat (map (\<lambda>(a, m). [a..a + m - 1]) (cuts L p T))))"
    by (simp add: concat_map_concat case_prod_unfold)
  show ?thesis
    using loop_forward_calls[OF assms] cuts_tile[of "\<lambda>x. x" L T p] b
      cuts_tile[of "\<lambda>x. impl (offset tk) + (x - p)" L T p]
    by (simp add: p_def[symmetric] T_def[symmetric] concat_map_concat pl off e cong: map_cong)
      (simp add: T_def)
qed

lemma cuts_back_length:
  "0 < L \<Longrightarrow> am \<in> set (cuts_back L a n) \<Longrightarrow>
    0 < snd am \<and> snd am \<le> back_to L (fst am) \<and> fst am \<le> a \<and> a - n \<le> fst am - snd am"
proof (induction L a n rule: cuts_back.induct)
  case (1 L a n)
  show ?case
  proof (cases "n \<le> 0")
    case True
    then show ?thesis using 1 by (simp add: cuts_back.simps[of L a n])
  next
    case False
    define m where "m = min n (back_to L a)"
    have m: "0 < m" "m \<le> n" "m \<le> back_to L a" using False back_to_range[of L a] 1 by (auto simp: m_def)
    have c: "cuts_back L a n = (a, m) # cuts_back L (a - m) (n - m)"
      using False 1 by (subst cuts_back.simps) (simp add: m_def Let_def)
    show ?thesis using 1 False m "1.IH"[OF _ m_def] by (auto simp: c)
  qed
qed

lemma cuts_back_dates:
  "0 < L \<Longrightarrow> 0 \<le> n \<Longrightarrow> concat (map (\<lambda>(a, m). rev [a - m + 1..a]) (cuts_back L a n)) = rev [a - n + 1..a]"
proof (induction L a n rule: cuts_back.induct)
  case (1 L a n)
  show ?case
  proof (cases "n \<le> 0")
    case True
    then show ?thesis using 1 by simp
  next
    case False
    define m where "m = min n (back_to L a)"
    have m: "0 < m" "m \<le> n" using False back_to_range[of L a] 1 by (auto simp: m_def)
    have c: "cuts_back L a n = (a, m) # cuts_back L (a - m) (n - m)"
      using False 1 by (subst cuts_back.simps) (simp add: m_def Let_def)
    have "rev [a - m + 1..a] @ rev [a - n + 1..a - m] = rev [a - n + 1..a]"
      using upto_append[of "a - n + 1" "a - m + 1" "a + 1"] m by (simp flip: rev_append)
    then show ?thesis using 1 False m "1.IH"[OF _ m_def] by (simp add: c algebra_simps)
  qed
qed

text \<open>C15: backwards, the calls of a looped tick play each date of the tick once, in the order of the
  playback and reduced to the loop; the process is moved to the end of the loop right before each turn and
  at no other time, and the offsets of the pieces tile the tick. Dates may be negative.\<close>

theorem loop_backward_plays:
  assumes "loopable tk so L" and "impl (date tk) < impl (prev_date tk)"
  shows "\<exists>calls. loop tk (Time_value so) (Time_value L) = Some calls
    \<and> concat (map played calls) = concat (map (backward_unit so L) (rev [impl (date tk) + 1..impl (prev_date tk)]))
    \<and> concat (map offsets_of calls) = [impl (offset tk)..impl (offset tk) + (impl (prev_date tk) - impl (date tk)) - 1]"
proof -
  define p where "p = impl (prev_date tk)"
  define T where "T = p - impl (date tk)"
  have b: "0 < L" "0 \<le> T" using assms by (auto simp: p_def T_def loopable_def Let_def)
  have pl: "concat (map played (backward_call tk so L am)) = (case am of (a, m) \<Rightarrow> concat (map (backward_unit so L) (rev [a - m + 1..a])))"
    and off: "concat (map offsets_of (backward_call tk so L am)) = (case am of (a, m) \<Rightarrow> [impl (offset tk) + (p - a)..impl (offset tk) + (p - (a - m)) - 1])"
    if "am \<in> set (cuts_back L p T)" for am
    using cuts_back_length[OF b(1) that] b backward_units[of L "snd am" "fst am" so]
    by (auto simp: backward_call_def played_def offsets_of_def piece_def Let_def p_def algebra_simps split: prod.splits)
  have e: "concat (map (\<lambda>(a, m). concat (map (backward_unit so L) (rev [a - m + 1..a]))) (cuts_back L p T))
    = concat (map (backward_unit so L) (concat (map (\<lambda>(a, m). rev [a - m + 1..a]) (cuts_back L p T))))"
    by (simp add: concat_map_concat case_prod_unfold)
  show ?thesis
    using loop_backward_calls[OF assms] cuts_back_dates[of L T p] b
      cuts_back_tile[of "\<lambda>x. impl (offset tk) + (p - x)" L T p]
    by (simp add: p_def[symmetric] T_def[symmetric] concat_map_concat pl off e cong: map_cong)
      (simp add: T_def)
qed

text \<open>in both directions the pieces of a looped tick cover the samples of the tick without a gap or an
  overlap, each piece starting at the sample the one before it ends at.\<close>

theorem loop_tiles_samples:
  assumes "loopable tk so L" and "spanned tk" and "0 \<le> impl (prev_date tk) \<or> impl (date tk) < impl (prev_date tk)"
  shows "\<exists>calls. loop tk (Time_value so) (Time_value L) = Some calls
    \<and> concat (map samples_of calls) = [start_sample tk..start_sample tk + length_sample tk - 1]"
proof -
  define p where "p = impl (prev_date tk)"
  define T where "T = \<bar>impl (date tk) - p\<bar>"
  have b: "0 < L" "0 < T" using assms by (auto simp: p_def T_def loopable_def Let_def)
  have ends: "sample_cut tk 0 = start_sample tk" "sample_cut tk T = start_sample tk + length_sample tk"
    using sample_cut_ends[OF assms(1)] by (simp_all add: T_def p_def)
  note mono = sample_cut_mono[OF assms(1,2)]
  show ?thesis
  proof (cases "p < impl (date tk)")
    case True
    have "concat (map samples_of (forward_call tk so L am))
        = (case am of (a, m) \<Rightarrow> [sample_cut tk (a - p)..sample_cut tk (a + m - p) - 1])" for am
      using assms(2) by (auto simp: forward_call_def samples_of_def piece_def Let_def p_def algebra_simps split: prod.splits)
    then show ?thesis
      using loop_forward_calls[OF assms(1)] cuts_tile[of "\<lambda>x. sample_cut tk (x - p)" L T p] mono True b ends assms(3)
      by (simp add: p_def[symmetric] concat_map_concat T_def)
  next
    case False
    have "concat (map samples_of (backward_call tk so L am))
        = (case am of (a, m) \<Rightarrow> [sample_cut tk (p - a)..sample_cut tk (p - (a - m)) - 1])" for am
      using assms(2) by (auto simp: backward_call_def samples_of_def piece_def Let_def p_def algebra_simps split: prod.splits)
    then show ?thesis
      using loop_backward_calls[OF assms(1)] cuts_back_tile[of "\<lambda>x. sample_cut tk (p - x)" L T p] mono False b ends
      by (simp add: p_def[symmetric] concat_map_concat T_def)
  qed
qed

section \<open>Ticks without an end\<close>

lemma tv_plus_inf: "tv_infinite t \<Longrightarrow> tv_plus a t = Time_value tv_infinity"
  by (simp add: tv_plus_def add_is_infinite_def)

lemma loop_forward_unending:
  assumes "loop_forward tk T so L other a n c = Some calls"
  shows "\<not> (tv_infinite n \<and> \<not> tv_infinite L)"
proof (rule loop_forward.raw_induct[OF _ assms, of "\<lambda>tk T so L other a n c calls. \<not> (tv_infinite n \<and> \<not> tv_infinite L)"])
  fix rec tk T so L other a n c calls
  assume 1: "\<And>tk T so L other a n c calls. rec tk T so L other a n c = Some calls \<Longrightarrow> \<not> (tv_infinite n \<and> \<not> tv_infinite L)"
    "(if tv_gt n Zero_tv then
        Option.bind (tv_mod a L) (\<lambda>cur_from.
          if tv_lt (tv_plus cur_from n) L then
            (let prev = tv_plus cur_from so
             in Some [Run (set_piece_span tk T c (impl n) (other\<lparr>prev_date := prev, date := tv_plus prev n\<rparr>))])
          else
            (let this_tick = tv_minus L cur_from; tick_amount' = tv_minus_assign n this_tick;
                 orig_from' = tv_plus_assign a this_tick; prev = tv_plus cur_from so;
                 other1 = set_piece_span tk T c (impl this_tick) (other\<lparr>prev_date := prev, date := tv_plus prev this_tick\<rparr>)
             in Option.bind
                  (rec tk T so L (other1\<lparr>offset := tv_plus_assign (offset other1) this_tick\<rparr>) orig_from' tick_amount'
                     (s64 (c + impl this_tick)))
                  (\<lambda>calls. Some (Run other1 # Transport so # calls))))
      else Some []) = Some calls"
  show "\<not> (tv_infinite n \<and> \<not> tv_infinite L)"
  proof
    assume i: "tv_infinite n \<and> \<not> tv_infinite L"
    then have gt: "tv_gt n Zero_tv" by (auto simp: tv_defs Zero_tv_def tv_consts)
    have lt: "\<not> tv_lt (tv_plus x n) L" for x
      using i by (auto simp: tv_plus_inf tv_defs tv_consts)
    have minus: "tv_minus_assign n x = Time_value tv_infinity" for x
      using i by (simp add: tv_minus_assign_def)
    from 1(2) obtain other' a' c' calls' where rec: "rec tk T so L other' a' (Time_value tv_infinity) c' = Some calls'"
      by (auto simp: gt lt minus Let_def bind_eq_Some_conv split: if_splits)
    have "\<not> (tv_infinite (Time_value tv_infinity) \<and> \<not> tv_infinite L)" by (rule 1(1)[OF rec])
    then show False using i by simp
  qed
qed

text \<open>a request whose date is infinite has no finite loop: the forward loop over a finite duration
  subtracts from an infinite amount for ever.\<close>

theorem loop_infinite_date:
  assumes "tv_infinite (date tk)" and "0 < impl L" and "\<not> tv_infinite L"
  shows "loop tk so L = None"
proof -
  have tick: "tv_minus (date tk) (prev_date tk) = Time_value tv_infinity"
    using assms(1) by (simp add: tv_minus_def sub_is_infinite_def)
  have "loop_forward tk T so L tk a (Time_value tv_infinity) c = None" for T a c
    using loop_forward_unending[of tk T so L tk a "Time_value tv_infinity" c] assms(3)
    by (cases "loop_forward tk T so L tk a (Time_value tv_infinity) c") auto
  then show ?thesis
    using assms(2) by (simp add: loop_def tick Let_def tv_ge_Zero total_amount_def tv_consts)
qed

section \<open>Examples\<close>

text \<open>A tick of 25 units from the date 8 over a loop of 10 units that starts at 100, on 50 samples.\<close>

definition demo_tick :: "int \<Rightarrow> int \<Rightarrow> int token_request" where
  "demo_tick a b =
     (make_token_request 0 (Time_value a) (Time_value b) (Time_value 1000) (Time_value 3) 1 (4, 4) 120)
       \<lparr>start_sample := 64, length_sample := 50\<rparr>"

lemma demo_loopable: "loopable (demo_tick 8 33) 100 10" "loopable (demo_tick 8 (- 5)) 100 10"
  by (simp_all add: loopable_def demo_tick_def make_token_request_def tv_consts)

lemma loop_forward_plays_witness:
  "\<exists>calls. loop (demo_tick 8 33) (Time_value 100) (Time_value 10) = Some calls
    \<and> concat (map offsets_of calls) = [3..27]"
  using loop_forward_plays[OF demo_loopable(1)] by (auto simp: demo_tick_def make_token_request_def)

lemma loop_backward_plays_witness:
  "\<exists>calls. loop (demo_tick 8 (- 5)) (Time_value 100) (Time_value 10) = Some calls
    \<and> concat (map played calls) = concat (map (backward_unit 100 10) [8, 7, 6, 5, 4, 3, 2, 1, 0, - 1, - 2, - 3, - 4])"
  using loop_backward_plays[OF demo_loopable(2)] by (auto simp: demo_tick_def make_token_request_def upto.simps)

lemma loop_tiles_samples_witness:
  "\<exists>calls. loop (demo_tick 8 33) (Time_value 100) (Time_value 10) = Some calls
    \<and> concat (map samples_of calls) = [64..113]"
  using loop_tiles_samples[OF demo_loopable(1)] by (auto simp: spanned_def demo_tick_def make_token_request_def)

lemma loop_infinite_date_witness: "loop (demo_tick 8 (2 ^ 63 - 1)) (Time_value 100) (Time_value 10) = None"
  using loop_infinite_date[of "demo_tick 8 (2 ^ 63 - 1)" "Time_value 10"]
  by (simp add: tv_infinite_def tv_consts demo_tick_def make_token_request_def)

end
