(* ===== verification/TripleBuffer.thy ===== *)
theory TripleBuffer
  imports Prelude "HOL-Library.Word" "HOL-Library.Multiset"
begin

text \<open>
  The wait-free triple buffers of detail/triple_buffer.hpp, through which one thread hands values to
  another. Three classes share one protocol on three slots and an atomic byte: \<open>triple_buffer\<close> that
  moves values in and out, its specialisation for trivially copyable values, which keeps a copy of the
  last value read, and \<open>triple_buffer_raw\<close>, whose slots the two sides access in place. The operations
  come first, as the thread that calls them sees them; the second part is the interleaving of the two
  threads, in which every access to a slot and to the atomic byte is one step. The memory order of the
  atomic operations is acquire and release, so that the accesses to a slot are ordered by the exchanges
  that hand it over; that the two threads never own one slot at once is the theorem
  \<open>triple_buffer_exclusive\<close>.
\<close>

unbundle bit_operations_syntax

section \<open>State and operations\<close>

record 'a buffer_core =
  buffers :: "'a list"
  mid_state :: "8 word"
  write_idx :: "8 word"
  read_idx :: "8 word"

record 'a triple_buffer = "'a buffer_core" +
  last_read :: 'a

definition index_mask :: "8 word" where
  "index_mask = 0x03"

definition dirty_bit :: "8 word" where
  "dirty_bit = 0x04"

definition core_init :: "'a \<Rightarrow> 'a buffer_core" where
  "core_init v = \<lparr>buffers = [v, v, v], mid_state = 1, write_idx = 0, read_idx = 2\<rparr>"

definition tb_init :: "'a \<Rightarrow> 'a triple_buffer" where
  "tb_init v = \<lparr>buffers = [v, v, v], mid_state = 1, write_idx = 0, read_idx = 2, last_read = v\<rparr>"

definition write_slot :: "'a \<Rightarrow> ('a, 'z) buffer_core_scheme \<Rightarrow> ('a, 'z) buffer_core_scheme" where
  "write_slot v b = b\<lparr>buffers := (buffers b)[unat (write_idx b) := v]\<rparr>"

definition read_slot :: "('a, 'z) buffer_core_scheme \<Rightarrow> 'a" where
  "read_slot b = buffers b ! unat (read_idx b)"

definition publish :: "('a, 'z) buffer_core_scheme \<Rightarrow> ('a, 'z) buffer_core_scheme" where
  "publish b =
     (let new_mid = write_idx b OR dirty_bit; old_mid = mid_state b
      in b\<lparr>mid_state := new_mid, write_idx := old_mid AND index_mask\<rparr>)"

definition has_new_data :: "('a, 'z) buffer_core_scheme \<Rightarrow> bool" where
  "has_new_data b \<longleftrightarrow> mid_state b AND dirty_bit \<noteq> 0"

text \<open>The exchange of the consumer.\<close>

definition acquire_slot :: "('a, 'z) buffer_core_scheme \<Rightarrow> ('a, 'z) buffer_core_scheme" where
  "acquire_slot b =
     (let new_mid = read_idx b; old_mid = mid_state b
      in b\<lparr>mid_state := new_mid, read_idx := old_mid AND index_mask\<rparr>)"

text \<open>The specialisation for trivially copyable values.\<close>

definition produce :: "'a \<Rightarrow> 'a triple_buffer \<Rightarrow> 'a triple_buffer" where
  "produce v b = publish (write_slot v b)"

definition cache_read :: "'a triple_buffer \<Rightarrow> 'a triple_buffer" where
  "cache_read b = b\<lparr>last_read := read_slot b\<rparr>"

definition consume :: "'a triple_buffer \<Rightarrow> 'a triple_buffer \<times> 'a option" where
  "consume b =
     (if \<not> has_new_data b then (b, None)
      else (let b1 = cache_read (acquire_slot b) in (b1, Some (last_read b1))))"

definition read :: "'a triple_buffer \<Rightarrow> 'a" where
  "read b = last_read b"

text \<open>The generic class: the value handed in is swapped with the content of the slot, or moved into it.
  \<open>produce_swap\<close> also gives what the caller's variable holds afterwards.\<close>

definition produce_swap :: "'a \<Rightarrow> 'a buffer_core \<Rightarrow> 'a buffer_core \<times> 'a" where
  "produce_swap v b = (publish (write_slot v b), buffers b ! unat (write_idx b))"

definition produce_move :: "'a \<Rightarrow> 'a buffer_core \<Rightarrow> 'a buffer_core" where
  "produce_move v b = publish (write_slot v b)"

definition consume_swap :: "'a \<Rightarrow> 'a buffer_core \<Rightarrow> 'a buffer_core \<times> 'a \<times> bool" where
  "consume_swap res b =
     (if \<not> has_new_data b then (b, res, False)
      else
        (let b1 = acquire_slot b
         in (b1\<lparr>buffers := (buffers b1)[unat (read_idx b1) := res]\<rparr>, read_slot b1, True)))"

text \<open>The raw class: the producer fills its slot in place (here: assigns it) and publishes it, the
  consumer reads its slot in place.\<close>

definition produce_raw :: "'a list \<Rightarrow> 'a list buffer_core \<Rightarrow> 'a list buffer_core" where
  "produce_raw src b = publish (write_slot src b)"

definition consume_raw :: "'a list buffer_core \<Rightarrow> 'a list buffer_core \<times> bool" where
  "consume_raw b = (if \<not> has_new_data b then (b, False) else (acquire_slot b, True))"

section \<open>The protocol of the indices\<close>

text \<open>The three indices are 0, 1 and 2 in some order, and the byte holds nothing but an index and the
  dirty bit.\<close>

definition indices :: "8 word set" where
  "indices = {0, 1, 2}"

definition mid_states :: "8 word set" where
  "mid_states = {0, 1, 2, 4, 5, 6}"

definition core_ok :: "('a, 'z) buffer_core_scheme \<Rightarrow> bool" where
  "core_ok b \<longleftrightarrow> length (buffers b) = 3 \<and> mid_state b \<in> mid_states
     \<and> write_idx b \<in> indices \<and> read_idx b \<in> indices \<and> write_idx b \<noteq> read_idx b
     \<and> mid_state b AND index_mask \<noteq> write_idx b \<and> mid_state b AND index_mask \<noteq> read_idx b"

definition mid_slot :: "('a, 'z) buffer_core_scheme \<Rightarrow> 'a" where
  "mid_slot b = buffers b ! unat (mid_state b AND index_mask)"

definition pending :: "('a, 'z) buffer_core_scheme \<Rightarrow> 'a option" where
  "pending b = (if has_new_data b then Some (mid_slot b) else None)"

lemma marked_index:
  assumes "i \<in> indices"
  shows "(i OR dirty_bit) AND index_mask = i" "(i OR dirty_bit) AND dirty_bit \<noteq> 0" "i AND dirty_bit = 0"
    "i AND index_mask = i" "i OR dirty_bit \<in> mid_states" "i \<in> mid_states" "unat i < 3"
proof -
  have "i = 0 \<or> i = 1 \<or> i = 2" using assms by (simp add: indices_def)
  then show "(i OR dirty_bit) AND index_mask = i" "(i OR dirty_bit) AND dirty_bit \<noteq> 0" "i AND dirty_bit = 0"
    "i AND index_mask = i" "i OR dirty_bit \<in> mid_states" "i \<in> mid_states" "unat i < 3"
    by (auto simp: dirty_bit_def index_mask_def mid_states_def)
qed

lemma mid_index: "m \<in> mid_states \<Longrightarrow> m AND index_mask \<in> indices"
  by (auto simp: index_mask_def mid_states_def indices_def)

lemma unat_index_eq: "i \<in> indices \<Longrightarrow> j \<in> indices \<Longrightarrow> unat i = unat j \<longleftrightarrow> i = j"
  by (simp add: word_unat_eq_iff)

lemma core_ok_init: "core_ok (core_init v)" "core_ok (tb_init v)"
  by (simp_all add: core_ok_def core_init_def tb_init_def index_mask_def indices_def mid_states_def)

lemma core_ok_write [wf_intros]: "core_ok b \<Longrightarrow> core_ok (write_slot v b)"
  by (simp add: core_ok_def write_slot_def)

lemma core_ok_publish [wf_intros]: "core_ok b \<Longrightarrow> core_ok (publish b)"
  using marked_index[of "write_idx b"] mid_index[of "mid_state b"]
  by (auto simp: core_ok_def publish_def Let_def)

lemma core_ok_acquire [wf_intros]: "core_ok b \<Longrightarrow> core_ok (acquire_slot b)"
  using marked_index[of "read_idx b"] mid_index[of "mid_state b"]
  by (auto simp: core_ok_def acquire_slot_def Let_def)

section \<open>A mailbox for the latest value\<close>

text \<open>What the classes promise: a mailbox that holds the latest value that was not read.\<close>

datatype 'a mail_op = Put 'a | Get

primrec mailbox :: "'a option \<Rightarrow> 'a mail_op list \<Rightarrow> 'a option list" where
  "mailbox m [] = []"
| "mailbox m (c # cs) = (case c of Put v \<Rightarrow> mailbox (Some v) cs | Get \<Rightarrow> m # mailbox None cs)"

primrec trace :: "('a \<Rightarrow> 's \<Rightarrow> 's) \<Rightarrow> ('s \<Rightarrow> 's \<times> 'a option) \<Rightarrow> 's \<Rightarrow> 'a mail_op list \<Rightarrow> 'a option list" where
  "trace put get s [] = []"
| "trace put get s (c # cs) =
     (case c of Put v \<Rightarrow> trace put get (put v s) cs | Get \<Rightarrow> snd (get s) # trace put get (fst (get s)) cs)"

locale latest_value =
  fixes ok :: "'s \<Rightarrow> bool" and put :: "'a \<Rightarrow> 's \<Rightarrow> 's" and get :: "'s \<Rightarrow> 's \<times> 'a option"
    and content :: "'s \<Rightarrow> 'a option"
  assumes put_ok: "ok s \<Longrightarrow> ok (put v s)"
    and get_ok: "ok s \<Longrightarrow> ok (fst (get s))"
    and content_put: "ok s \<Longrightarrow> content (put v s) = Some v"
    and get_content: "ok s \<Longrightarrow> snd (get s) = content s"
    and content_get: "ok s \<Longrightarrow> content (fst (get s)) = None"
begin

lemma trace_is_mailbox: "ok s \<Longrightarrow> trace put get s ops = mailbox (content s) ops"
  by (induction ops arbitrary: s)
    (auto simp: put_ok get_ok content_put get_content content_get split: mail_op.split)

end

lemma has_new_data_iff: "has_new_data b \<longleftrightarrow> pending b \<noteq> None"
  by (simp add: pending_def)

lemma pending_publish:
  assumes "core_ok b"
  shows "pending (publish (write_slot v b)) = Some v"
  using assms marked_index[of "write_idx b"]
  by (simp add: core_ok_def pending_def has_new_data_def mid_slot_def publish_def write_slot_def Let_def)

lemma acquire_pending:
  assumes "core_ok b"
  shows "pending (acquire_slot b) = None" and "\<not> has_new_data (acquire_slot b)"
    and "read_slot (acquire_slot b) = mid_slot b"
  using assms marked_index[of "read_idx b"]
  by (simp_all add: core_ok_def pending_def has_new_data_def read_slot_def mid_slot_def acquire_slot_def Let_def)

lemma core_ok_update [simp]:
  "core_ok (b\<lparr>last_read := v\<rparr>) \<longleftrightarrow> core_ok b" "pending (b\<lparr>last_read := v\<rparr>) = pending b"
  "core_ok (c\<lparr>buffers := (buffers c)[k := u]\<rparr>) \<longleftrightarrow> core_ok c"
  "has_new_data (c\<lparr>buffers := bs\<rparr>) \<longleftrightarrow> has_new_data c"
  "has_new_data (b\<lparr>last_read := v\<rparr>) \<longleftrightarrow> has_new_data b"
  by (simp_all add: core_ok_def pending_def has_new_data_def mid_slot_def)

lemma pending_cases: "pending b = (if has_new_data b then Some (mid_slot b) else None)"
  by (rule pending_def)

lemma not_new: "pending b = None \<longleftrightarrow> \<not> has_new_data b"
  by (simp add: pending_def)

lemma consume_result:
  assumes "core_ok b"
  shows "core_ok (fst (consume b))" "snd (consume b) = pending b" "pending (fst (consume b)) = None"
  using assms by (simp_all add: consume_def cache_read_def Let_def core_ok_acquire acquire_pending pending_cases[of b] not_new)

interpretation cached: latest_value core_ok produce consume pending
  by unfold_locales
    (simp_all add: produce_def pending_publish core_ok_publish core_ok_write consume_result)

text \<open>The generic class, for a consumer that hands in \<open>res\<close> each time, and the raw class with a consumer
  that looks at the slot it was given.\<close>

definition take_swap :: "'a \<Rightarrow> 'a buffer_core \<Rightarrow> 'a buffer_core \<times> 'a option" where
  "take_swap res b = (case consume_swap res b of (b', res', new) \<Rightarrow> (b', if new then Some res' else None))"

definition take_raw :: "'a list buffer_core \<Rightarrow> 'a list buffer_core \<times> 'a list option" where
  "take_raw b = (case consume_raw b of (b', new) \<Rightarrow> (b', if new then Some (read_slot b') else None))"

lemma pending_not_new: "\<not> has_new_data b \<Longrightarrow> pending (b\<lparr>buffers := bs\<rparr>) = None"
  by (simp add: pending_def)

lemma take_swap_result:
  assumes "core_ok b"
  shows "core_ok (fst (take_swap res b))" "snd (take_swap res b) = pending b" "pending (fst (take_swap res b)) = None"
  using assms acquire_pending[OF assms]
  by (simp_all add: take_swap_def consume_swap_def Let_def core_ok_acquire pending_cases[of b] not_new)

lemma take_raw_result:
  assumes "core_ok b"
  shows "core_ok (fst (take_raw b))" "snd (take_raw b) = pending b" "pending (fst (take_raw b)) = None"
  using assms acquire_pending[OF assms]
  by (simp_all add: take_raw_def consume_raw_def core_ok_acquire pending_cases[of b] not_new)

interpretation swapped: latest_value core_ok "\<lambda>v b. fst (produce_swap v b)" "take_swap res" pending
  by unfold_locales
    (simp_all add: produce_swap_def pending_publish core_ok_publish core_ok_write take_swap_result)

interpretation moved: latest_value core_ok produce_move "take_swap res" pending
  by unfold_locales
    (simp_all add: produce_move_def pending_publish core_ok_publish core_ok_write take_swap_result)

interpretation raw: latest_value core_ok produce_raw take_raw pending
  by unfold_locales
    (simp_all add: produce_raw_def pending_publish core_ok_publish core_ok_write take_raw_result)

lemma pending_init [simp]: "pending (core_init v) = None" "pending (tb_init v) = None"
  by (simp_all add: pending_def has_new_data_def core_init_def tb_init_def dirty_bit_def)

text \<open>C31: whatever the order of the calls, each of the three triple buffers is a mailbox that holds the
  latest value: a consumption gives the last value produced since the one before it, and nothing when there
  was none.\<close>

theorem triple_buffers_are_mailboxes:
  "trace produce consume (tb_init v) ops = mailbox None ops
   \<and> trace (\<lambda>v b. fst (produce_swap v b)) (take_swap res) (core_init v) ops = mailbox None ops
   \<and> trace produce_move (take_swap res) (core_init v) ops = mailbox None ops
   \<and> trace produce_raw take_raw (core_init l) lops = mailbox None lops"
  using cached.trace_is_mailbox[OF core_ok_init(2), of v ops] swapped.trace_is_mailbox[OF core_ok_init(1), of res v ops]
    moved.trace_is_mailbox[OF core_ok_init(1), of res v ops] raw.trace_is_mailbox[OF core_ok_init(1), of l lops]
  by simp

text \<open>the swaps of the generic class neither copy nor lose a value: the three slots and the variable
  of the caller hold the same values, each as often, before and after.\<close>

theorem swaps_keep_values:
  assumes "core_ok b"
  shows "(case produce_swap v b of (b', v') \<Rightarrow> mset (v' # buffers b') = mset (v # buffers b))
    \<and> (case consume_swap v b of (b', v', new) \<Rightarrow> mset (v' # buffers b') = mset (v # buffers b))"
proof -
  have len: "unat (write_idx b) < length (buffers b)" "unat (mid_state b AND index_mask) < length (buffers b)"
    using assms marked_index[of "write_idx b"] marked_index[of "mid_state b AND index_mask"] mid_index[of "mid_state b"]
    by (simp_all add: core_ok_def)
  have upd: "add_mset (xs ! k) (mset (xs[k := u])) = add_mset u (mset xs)" if "k < length xs" for k u and xs :: "'a list"
    using that by (simp add: mset_update)
  show ?thesis
    using upd[OF len(1), of v] upd[OF len(2), of v]
    by (simp add: produce_swap_def publish_def write_slot_def consume_swap_def acquire_slot_def read_slot_def Let_def)
qed

section \<open>The two threads\<close>

text \<open>Where each thread is: the producer between calls or after the write to its slot and before the
  exchange; the consumer between calls, after the load that saw the dirty bit, or after the exchange. The
  last three fields are history: the values published, how many were published at the last exchange of the
  consumer, and what the consumer returned, with the number of the value.\<close>

datatype 'a producer = Producing | Written 'a

datatype consumer = Consuming | Seen_dirty | Acquired

record 'a world =
  shared :: "'a triple_buffer"
  producer :: "'a producer"
  consumer :: consumer
  sent :: "'a list"
  acquired :: nat
  got :: "(nat \<times> 'a) list"

definition world_init :: "'a \<Rightarrow> 'a world" where
  "world_init v = \<lparr>shared = tb_init v, producer = Producing, consumer = Consuming, sent = [], acquired = 0, got = []\<rparr>"

inductive tb_step :: "'a world \<Rightarrow> 'a world \<Rightarrow> bool" where
  fill: "producer w = Producing \<Longrightarrow>
    tb_step w (w\<lparr>shared := write_slot v (shared w), producer := Written v\<rparr>)"
| exchange: "producer w = Written v \<Longrightarrow>
    tb_step w (w\<lparr>shared := publish (shared w), producer := Producing, sent := sent w @ [v]\<rparr>)"
| nothing_new: "consumer w = Consuming \<Longrightarrow> \<not> has_new_data (shared w) \<Longrightarrow> tb_step w w"
| load_dirty: "consumer w = Consuming \<Longrightarrow> has_new_data (shared w) \<Longrightarrow> tb_step w (w\<lparr>consumer := Seen_dirty\<rparr>)"
| acquire: "consumer w = Seen_dirty \<Longrightarrow>
    tb_step w (w\<lparr>shared := acquire_slot (shared w), consumer := Acquired, acquired := length (sent w)\<rparr>)"
| read_out: "consumer w = Acquired \<Longrightarrow>
    tb_step w (w\<lparr>shared := cache_read (shared w), consumer := Consuming,
      got := got w @ [(acquired w - 1, last_read (cache_read (shared w)))]\<rparr>)"

inductive_cases tb_stepE: "tb_step w w'"

text \<open>The invariant: which slot holds which value, and which values were read.\<close>

primrec written_ok :: "'a producer \<Rightarrow> 'a triple_buffer \<Rightarrow> bool" where
  "written_ok Producing b \<longleftrightarrow> True"
| "written_ok (Written v) b \<longleftrightarrow> buffers b ! unat (write_idx b) = v"

definition slots_hold :: "'a world \<Rightarrow> bool" where
  "slots_hold w \<longleftrightarrow>
     written_ok (producer w) (shared w)
     \<and> acquired w \<le> length (sent w)
     \<and> (has_new_data (shared w) \<longleftrightarrow> acquired w < length (sent w))
     \<and> (has_new_data (shared w) \<longrightarrow> mid_slot (shared w) = last (sent w))
     \<and> (consumer w = Seen_dirty \<longrightarrow> has_new_data (shared w))
     \<and> (consumer w = Acquired \<longrightarrow> 0 < acquired w \<and> read_slot (shared w) = sent w ! (acquired w - 1))"

definition got_before :: "nat \<Rightarrow> 'a world \<Rightarrow> bool" where
  "got_before n w \<longleftrightarrow>
     sorted_wrt (<) (map fst (got w)) \<and> (\<forall>(i, v) \<in> set (got w). i < n \<and> sent w ! i = v)"

definition world_ok :: "'a world \<Rightarrow> bool" where
  "world_ok w \<longleftrightarrow> core_ok (shared w) \<and> slots_hold w
     \<and> got_before (if consumer w = Acquired then acquired w - 1 else acquired w) w"

lemma world_ok_init: "world_ok (world_init v)"
  using not_new[THEN iffD1, OF pending_init(2)[of v]]
  by (simp add: world_ok_def world_init_def core_ok_init slots_hold_def got_before_def)

lemma got_before_mono: "got_before n w \<Longrightarrow> n \<le> m \<Longrightarrow> got_before m w"
  by (auto simp: got_before_def)

lemma publish_new:
  assumes "core_ok b"
  shows "has_new_data (publish b)" "mid_slot (publish b) = buffers b ! unat (write_idx b)"
    "read_slot (publish b) = read_slot b"
  using assms marked_index[of "write_idx b"]
  by (simp_all add: core_ok_def has_new_data_def mid_slot_def read_slot_def publish_def Let_def)

lemma write_elsewhere:
  assumes "core_ok b"
  shows "has_new_data (write_slot v b) = has_new_data b" "mid_slot (write_slot v b) = mid_slot b"
    "read_slot (write_slot v b) = read_slot b" "buffers (write_slot v b) ! unat (write_idx b) = v"
    "write_idx (write_slot v b) = write_idx b"
  using assms marked_index[of "write_idx b"] marked_index[of "read_idx b"] mid_index[of "mid_state b"]
    marked_index[of "mid_state b AND index_mask"] unat_index_eq[of "write_idx b"]
  by (auto simp: core_ok_def has_new_data_def mid_slot_def read_slot_def write_slot_def)

lemma step_write:
  assumes "world_ok w" and "producer w = Producing"
  shows "world_ok (w\<lparr>shared := write_slot v (shared w), producer := Written v\<rparr>)"
  using assms write_elsewhere[of "shared w" v]
  by (auto simp: world_ok_def slots_hold_def got_before_def core_ok_write)

lemma step_exchange:
  assumes "world_ok w" and "producer w = Written v"
  shows "world_ok (w\<lparr>shared := publish (shared w), producer := Producing, sent := sent w @ [v]\<rparr>)"
proof -
  have "\<forall>(i, v) \<in> set (got w). i < length (sent w)"
    using assms by (auto simp: world_ok_def slots_hold_def got_before_def split: if_splits)
  then show ?thesis
    using assms publish_new[of "shared w"]
    by (auto simp: world_ok_def slots_hold_def got_before_def core_ok_publish nth_append)
qed

lemma step_acquire:
  assumes "world_ok w" and "consumer w = Seen_dirty"
  shows "world_ok (w\<lparr>shared := acquire_slot (shared w), consumer := Acquired, acquired := length (sent w)\<rparr>)"
proof -
  have n: "has_new_data (shared w)" "acquired w < length (sent w)" "mid_slot (shared w) = last (sent w)"
    using assms by (auto simp: world_ok_def slots_hold_def)
  have p: "written_ok q (acquire_slot b) = written_ok q b" for q and b :: "'a triple_buffer"
    by (cases q) (simp_all add: acquire_slot_def Let_def)
  have g: "got_before (acquired w) w" "got_before (length (sent w) - 1) w"
    using assms n got_before_mono[of "acquired w" w "length (sent w) - 1"] by (simp_all add: world_ok_def)
  have "last (sent w) = sent w ! (length (sent w) - 1)" using n by (intro last_conv_nth) auto
  then show ?thesis
    using assms n g acquire_pending[of "shared w"]
    by (auto simp: world_ok_def slots_hold_def got_before_def core_ok_acquire p)
qed

lemma step_read_out:
  assumes "world_ok w" and "consumer w = Acquired"
  shows "world_ok (w\<lparr>shared := cache_read (shared w), consumer := Consuming,
    got := got w @ [(acquired w - 1, last_read (cache_read (shared w)))]\<rparr>)"
proof -
  have p: "core_ok (cache_read b) = core_ok b" "has_new_data (cache_read b) = has_new_data b"
    "mid_slot (cache_read b) = mid_slot b" "last_read (cache_read b) = read_slot b"
    "written_ok q (cache_read b) = written_ok q b" for q and b :: "'a triple_buffer"
    by (simp_all add: cache_read_def mid_slot_def) (cases q; simp)
  show ?thesis
    using assms by (auto simp: world_ok_def slots_hold_def got_before_def p sorted_wrt_append less_Suc_eq_le split: prod.splits)
qed

lemma world_ok_step: "tb_step w w' \<Longrightarrow> world_ok w \<Longrightarrow> world_ok w'"
proof (induction rule: tb_step.induct)
  case (load_dirty w)
  then show ?case by (simp add: world_ok_def slots_hold_def got_before_def)
next
  case (read_out w)
  then show ?case by (intro step_read_out)
qed (simp_all add: step_write step_exchange step_acquire)

lemma world_ok_reachable: "tb_step\<^sup>*\<^sup>* (world_init v) w \<Longrightarrow> world_ok w"
  by (induction rule: rtranclp_induct) (simp_all add: world_ok_init world_ok_step)

text \<open>C30: in every interleaving of a producer and a consumer the slot the producer writes to, the slot
  the consumer reads and the slot between them are three different slots of the array.\<close>

theorem triple_buffer_exclusive:
  assumes "tb_step\<^sup>*\<^sup>* (world_init v) w"
  shows "distinct [unat (write_idx (shared w)), unat (read_idx (shared w)), unat (mid_state (shared w) AND index_mask)]
    \<and> {unat (write_idx (shared w)), unat (read_idx (shared w)), unat (mid_state (shared w) AND index_mask)}
        \<subseteq> {..< length (buffers (shared w))}"
proof -
  have "core_ok (shared w)" using world_ok_reachable[OF assms] by (simp add: world_ok_def)
  then show ?thesis
    using marked_index(7)[of "write_idx (shared w)"] marked_index(7)[of "read_idx (shared w)"]
      marked_index(7)[of "mid_state (shared w) AND index_mask"] mid_index[of "mid_state (shared w)"]
    by (auto simp: core_ok_def unat_index_eq)
qed

text \<open>in every interleaving, what the consumer got are values that were published, each at most once
  and in the order of their publication; after an exchange it reads the last value published before the
  exchange.\<close>

theorem consumer_gets_published:
  assumes "tb_step\<^sup>*\<^sup>* (world_init v) w"
  shows "sorted_wrt (<) (map fst (got w)) \<and> (\<forall>(i, u) \<in> set (got w). i < length (sent w) \<and> sent w ! i = u)
    \<and> (consumer w = Acquired \<longrightarrow> read_slot (shared w) = last (take (acquired w) (sent w)))"
proof -
  have ok: "world_ok w" by (rule world_ok_reachable[OF assms])
  have "read_slot (shared w) = last (take (acquired w) (sent w))" if "consumer w = Acquired"
    using ok that last_conv_nth[of "take (acquired w) (sent w)"]
    by (cases "sent w = []") (auto simp: world_ok_def slots_hold_def)
  then show ?thesis
    using ok by (auto simp: world_ok_def slots_hold_def got_before_def split: if_splits)
qed

text \<open>whatever the producer is doing, a consumer that calls \<open>consume\<close> gets the last value published
  if it has not got it yet, in three steps of its own.\<close>

theorem consumer_makes_progress:
  assumes "tb_step\<^sup>*\<^sup>* (world_init v) w" and "consumer w = Consuming"
  shows "if acquired w < length (sent w)
    then \<exists>w'. tb_step\<^sup>*\<^sup>* w w' \<and> consume (shared w) = (shared w', Some (last (sent w)))
      \<and> got w' = got w @ [(length (sent w) - 1, last (sent w))] \<and> acquired w' = length (sent w) \<and> sent w' = sent w
    else consume (shared w) = (shared w, None)"
proof (cases "acquired w < length (sent w)")
  case True
  have ok: "world_ok w" by (rule world_ok_reachable[OF assms(1)])
  then have n: "has_new_data (shared w)" "mid_slot (shared w) = last (sent w)" "core_ok (shared w)"
    using True by (auto simp: world_ok_def slots_hold_def)
  define w1 where "w1 = w\<lparr>consumer := Seen_dirty\<rparr>"
  define w2 where "w2 = w1\<lparr>shared := acquire_slot (shared w1), consumer := Acquired, acquired := length (sent w1)\<rparr>"
  define w3 where "w3 = w2\<lparr>shared := cache_read (shared w2), consumer := Consuming,
    got := got w2 @ [(acquired w2 - 1, last_read (cache_read (shared w2)))]\<rparr>"
  have "tb_step w w1" unfolding w1_def using assms(2) n by (intro tb_step.load_dirty)
  moreover have "tb_step w1 w2" unfolding w2_def by (intro tb_step.acquire) (simp add: w1_def)
  moreover have "tb_step w2 w3" unfolding w3_def by (intro tb_step.read_out) (simp add: w2_def)
  ultimately have "tb_step\<^sup>*\<^sup>* w w3" by (meson converse_rtranclp_into_rtranclp rtranclp.rtrancl_refl)
  moreover have "consume (shared w) = (shared w3, Some (last (sent w)))"
    and "got w3 = got w @ [(length (sent w) - 1, last (sent w))]"
    and "acquired w3 = length (sent w)" "sent w3 = sent w"
    using n acquire_pending[of "shared w"] by (simp_all add: w3_def w2_def w1_def consume_def cache_read_def Let_def)
  ultimately show ?thesis using True by auto
next
  case False
  have "\<not> has_new_data (shared w)"
    using world_ok_reachable[OF assms(1)] False by (auto simp: world_ok_def slots_hold_def)
  then show ?thesis using False by (simp add: consume_def)
qed

section \<open>Examples\<close>

definition put_in :: "'a \<Rightarrow> 'a world \<Rightarrow> 'a world" where
  "put_in v w = w\<lparr>shared := publish (write_slot v (shared w)), producer := Producing, sent := sent w @ [v]\<rparr>"

lemma put_in_reach:
  assumes "producer w = Producing"
  shows "tb_step\<^sup>*\<^sup>* w (put_in v w)"
proof -
  let ?w = "w\<lparr>shared := write_slot v (shared w), producer := Written v\<rparr>"
  have "tb_step w ?w" using assms by (rule tb_step.fill)
  moreover have "tb_step ?w (put_in v w)" using tb_step.exchange[of ?w v] by (simp add: put_in_def)
  ultimately show ?thesis by (meson converse_rtranclp_into_rtranclp rtranclp.rtrancl_refl)
qed

text \<open>A producer that published 7 and 8, a consumer that did nothing yet, and the same after the exchange.\<close>

definition demo_tb :: "int world" where
  "demo_tb = put_in 8 (put_in 7 (world_init 0))"

definition demo_acquired :: "int world" where
  "demo_acquired = demo_tb\<lparr>shared := acquire_slot (shared demo_tb), consumer := Acquired, acquired := 2\<rparr>"

lemma demo_tb_reach: "tb_step\<^sup>*\<^sup>* (world_init 0) demo_tb"
  unfolding demo_tb_def
  by (rule rtranclp_trans[OF put_in_reach put_in_reach]) (simp_all add: put_in_def world_init_def)

lemma demo_tb_fields [simp]: "consumer demo_tb = Consuming" "sent demo_tb = [7, 8]" "acquired demo_tb = 0" "got demo_tb = []"
  by (simp_all add: demo_tb_def put_in_def world_init_def)

lemma demo_acquired_reach: "tb_step\<^sup>*\<^sup>* (world_init 0) demo_acquired"
proof -
  have "has_new_data (shared demo_tb)"
    using world_ok_reachable[OF demo_tb_reach] by (simp add: world_ok_def slots_hold_def)
  then have "tb_step demo_tb (demo_tb\<lparr>consumer := Seen_dirty\<rparr>)" by (intro tb_step.load_dirty) simp_all
  moreover have "tb_step (demo_tb\<lparr>consumer := Seen_dirty\<rparr>) demo_acquired"
    using tb_step.acquire[of "demo_tb\<lparr>consumer := Seen_dirty\<rparr>"] by (simp add: demo_acquired_def numeral_2_eq_2)
  ultimately show ?thesis using demo_tb_reach by (meson rtranclp.rtrancl_into_rtrancl)
qed

lemma triple_buffer_exclusive_witness: "distinct [unat (write_idx (shared demo_tb)), unat (read_idx (shared demo_tb))]"
  using triple_buffer_exclusive[OF demo_tb_reach] by simp

lemma consumer_gets_published_witness: "read_slot (shared demo_acquired) = 8"
  using consumer_gets_published[OF demo_acquired_reach] by (simp add: demo_acquired_def)

lemma consumer_makes_progress_witness: "snd (consume (shared demo_tb)) = Some 8"
  using consumer_makes_progress[OF demo_tb_reach] by auto

lemma swaps_keep_values_witness: "mset (snd (produce_swap 5 (core_init 0)) # buffers (fst (produce_swap 5 (core_init (0 :: int))))) = {#5, 0, 0, 0#}"
  using swaps_keep_values[OF core_ok_init(1)[of "0 :: int"], of 5]
  by (simp add: core_init_def split: prod.splits)

end
