(* ===== verification/Outcome.thy ===== *)
theory Outcome
  imports Prelude
begin

text \<open>
  The result of a step of the scenario engine: a new state, an exception, or \<open>Diverge\<close> where the fuel of
  a recursion ran out. The sequencing of steps, the loop over a list whose body may throw, and the rules
  that carry an invariant through them.
\<close>

datatype ('e, 'a) outcome = Done 'a | Throw 'e | Diverge

definition and_then :: "('e, 'a) outcome \<Rightarrow> ('a \<Rightarrow> ('e, 'b) outcome) \<Rightarrow> ('e, 'b) outcome" where
  "and_then r f = (case r of Done x \<Rightarrow> f x | Throw e \<Rightarrow> Throw e | Diverge \<Rightarrow> Diverge)"

lemma and_then_simps [simp]:
  "and_then (Done x) f = f x" "and_then (Throw e) f = Throw e" "and_then Diverge f = Diverge"
  by (simp_all add: and_then_def)

lemma and_then_eq_Done: "and_then r f = Done y \<longleftrightarrow> (\<exists>x. r = Done x \<and> f x = Done y)"
  by (cases r) simp_all

lemma and_then_assoc: "and_then (and_then r f) g = and_then r (\<lambda>x. and_then (f x) g)"
  by (cases r) simp_all

primrec each :: "('b \<Rightarrow> 'a \<Rightarrow> ('e, 'a) outcome) \<Rightarrow> 'b list \<Rightarrow> 'a \<Rightarrow> ('e, 'a) outcome" where
  "each f [] s = Done s"
| "each f (x # xs) s = and_then (f x s) (each f xs)"

lemma each_append: "each f (xs @ ys) s = and_then (each f xs s) (each f ys)"
  by (induction xs arbitrary: s) (auto simp: and_then_def split: outcome.split)

lemma each_Done_fold: "(\<And>x s. x \<in> set xs \<Longrightarrow> f x s = Done (g x s)) \<Longrightarrow> each f xs s = Done (fold g xs s)"
  by (induction xs arbitrary: s) simp_all

lemma each_invariant:
  assumes "\<And>x s s'. x \<in> set xs \<Longrightarrow> P s \<Longrightarrow> f x s = Done s' \<Longrightarrow> P s'"
  shows "P s \<Longrightarrow> each f xs s = Done s' \<Longrightarrow> P s'"
  using assms
proof (induction xs arbitrary: s)
  case (Cons x xs)
  then obtain t where "f x s = Done t" "each f xs t = Done s'" by (auto simp: and_then_eq_Done)
  then show ?case using Cons.IH[of t] Cons.prems(1,3) by (metis list.set_intros)
qed simp

lemma each_total:
  assumes "\<And>x s. x \<in> set xs \<Longrightarrow> P s \<Longrightarrow> \<exists>s'. f x s = Done s' \<and> P s'"
  shows "P s \<Longrightarrow> \<exists>s'. each f xs s = Done s' \<and> P s'"
  using assms
proof (induction xs arbitrary: s)
  case (Cons x xs)
  then obtain t where t: "f x s = Done t" "P t" by (meson list.set_intros(1))
  then show ?case using Cons.IH[of t] Cons.prems(2) by (simp add: and_then_def)
qed simp

lemma fold_invariant_rule: "(\<And>x s. x \<in> set xs \<Longrightarrow> P s \<Longrightarrow> P (f x s)) \<Longrightarrow> P s \<Longrightarrow> P (fold f xs s)"
  by (induction xs arbitrary: s) simp_all

lemma fold_same: "(\<And>x s. x \<in> set xs \<Longrightarrow> g (f x s) = g s) \<Longrightarrow> g (fold f xs s) = g s"
  by (induction xs arbitrary: s) simp_all

section \<open>Sorted sets\<close>

text \<open>\<open>flat_set\<close> of pointers: a list in the order of the addresses, which the identifiers stand for.\<close>

definition flat_insert :: "nat \<Rightarrow> nat list \<Rightarrow> nat list" where
  "flat_insert x xs = (if x \<in> set xs then xs else insort x xs)"

definition flat_erase :: "nat \<Rightarrow> nat list \<Rightarrow> nat list" where
  "flat_erase x xs = removeAll x xs"

lemma set_flat [simp]: "set (flat_insert x xs) = insert x (set xs)" "set (flat_erase x xs) = set xs - {x}"
  by (auto simp: flat_insert_def flat_erase_def set_insort_key)

lemma sorted_flat:
  "sorted xs \<Longrightarrow> distinct xs \<Longrightarrow> sorted (flat_insert x xs) \<and> distinct (flat_insert x xs)"
  "sorted xs \<Longrightarrow> distinct xs \<Longrightarrow> sorted (flat_erase x xs) \<and> distinct (flat_erase x xs)"
  by (simp_all add: flat_insert_def flat_erase_def sorted_insort distinct_insort removeAll_filter_not_eq sorted_filter[of id, simplified] distinct_filter)

end
