(* ===== verification/Floats.thy ===== *)
theory Floats
  imports Prelude Complex_Main
begin

text \<open>
  The operations of \<open>double\<close> the engine computes with, as a parameter of the model: the type \<open>'d\<close> of the
  numbers and one field per operation of the language and of \<open>cmath\<close>. Nothing is known of them but what a
  theorem assumes. \<open>f_int64\<close> and \<open>f_int32\<close> are the conversions to integers, \<open>f_lit\<close> is the number a literal
  denotes. The comparisons the code writes with \<open>>\<close> and \<open>>=\<close> are \<open>f_lt\<close> and \<open>f_le\<close> with the operands
  exchanged.
\<close>

record 'd fpu =
  f_add :: "'d \<Rightarrow> 'd \<Rightarrow> 'd"
  f_sub :: "'d \<Rightarrow> 'd \<Rightarrow> 'd"
  f_mul :: "'d \<Rightarrow> 'd \<Rightarrow> 'd"
  f_div :: "'d \<Rightarrow> 'd \<Rightarrow> 'd"
  f_neg :: "'d \<Rightarrow> 'd"
  f_abs :: "'d \<Rightarrow> 'd"
  f_floor :: "'d \<Rightarrow> 'd"
  f_ceil :: "'d \<Rightarrow> 'd"
  f_lt :: "'d \<Rightarrow> 'd \<Rightarrow> bool"
  f_le :: "'d \<Rightarrow> 'd \<Rightarrow> bool"
  f_eq :: "'d \<Rightarrow> 'd \<Rightarrow> bool"
  f_of_int :: "int \<Rightarrow> 'd"
  f_lit :: "rat \<Rightarrow> 'd"
  f_int64 :: "'d \<Rightarrow> int"
  f_int32 :: "'d \<Rightarrow> int"
  f_llround :: "'d \<Rightarrow> int"

abbreviation f_0 :: "'d fpu \<Rightarrow> 'd" where
  "f_0 fl \<equiv> f_lit fl 0"

text \<open>\<open>constexpr_floor\<close> of detail/math.hpp.\<close>

definition constexpr_floor :: "'d fpu \<Rightarrow> 'd \<Rightarrow> int" where
  "constexpr_floor fl v =
     (let val_int = f_int64 fl v; fval_int = f_of_int fl val_int
      in f_int64 fl (if f_le fl (f_of_int fl 0) v then fval_int
                     else if f_eq fl v fval_int then v else f_sub fl fval_int (f_lit fl 1)))"

text \<open>\<open>std::max\<close> of an initialiser list: the first of the largest.\<close>

fun f_max_list :: "'d fpu \<Rightarrow> 'd \<Rightarrow> 'd list \<Rightarrow> 'd" where
  "f_max_list fl m [] = m"
| "f_max_list fl m (x # xs) = f_max_list fl (if f_lt fl m x then x else m) xs"

section \<open>Exact arithmetic\<close>

text \<open>The operations on rational numbers: an instance in which nothing is rounded.\<close>

definition rat_trunc :: "rat \<Rightarrow> int" where
  "rat_trunc x = (if x \<ge> 0 then \<lfloor>x\<rfloor> else - \<lfloor>- x\<rfloor>)"

definition rat_fpu :: "rat fpu" where
  "rat_fpu =
     \<lparr>f_add = (+), f_sub = (-), f_mul = (*), f_div = (/), f_neg = uminus, f_abs = abs,
      f_floor = (\<lambda>x. of_int \<lfloor>x\<rfloor>), f_ceil = (\<lambda>x. of_int \<lceil>x\<rceil>), f_lt = (<), f_le = (\<le>), f_eq = (=),
      f_of_int = of_int, f_lit = id, f_int64 = rat_trunc, f_int32 = rat_trunc,
      f_llround = (\<lambda>x. if x \<ge> 0 then \<lfloor>x + 1 / 2\<rfloor> else - \<lfloor>- x + 1 / 2\<rfloor>)\<rparr>"

lemma rat_fpu_simps [simp]:
  "f_add rat_fpu = (+)" "f_sub rat_fpu = (-)" "f_mul rat_fpu = (*)" "f_div rat_fpu = (/)" "f_neg rat_fpu = uminus"
  "f_abs rat_fpu = abs" "f_floor rat_fpu x = of_int \<lfloor>x\<rfloor>" "f_ceil rat_fpu x = of_int \<lceil>x\<rceil>" "f_lt rat_fpu = (<)"
  "f_le rat_fpu = (\<le>)" "f_eq rat_fpu = (=)" "f_of_int rat_fpu = of_int" "f_lit rat_fpu = id"
  "f_int64 rat_fpu = rat_trunc" "f_int32 rat_fpu = rat_trunc"
  "f_llround rat_fpu x = (if x \<ge> 0 then \<lfloor>x + 1 / 2\<rfloor> else - \<lfloor>- x + 1 / 2\<rfloor>)"
  by (simp_all add: rat_fpu_def)

lemma rat_trunc_of_int [simp]: "rat_trunc (of_int n) = n"
  by (simp add: rat_trunc_def)

lemma rat_trunc_numerals [simp]:
  "rat_trunc 0 = 0" "rat_trunc 1 = 1" "rat_trunc (numeral k) = numeral k" "rat_trunc (- numeral k) = - numeral k" "rat_trunc (- 1) = - 1"
  by (simp_all add: rat_trunc_def)

lemma constexpr_floor_rat: "constexpr_floor rat_fpu x = \<lfloor>x\<rfloor>"
proof (cases "x \<ge> 0")
  case True
  then show ?thesis by (simp add: constexpr_floor_def Let_def rat_trunc_def)
next
  case False
  have t: "rat_trunc x = \<lceil>x\<rceil>" using False by (simp add: rat_trunc_def ceiling_def)
  show ?thesis
  proof (cases "x = of_int \<lceil>x\<rceil>")
    case True
    then show ?thesis using False t by (simp add: constexpr_floor_def Let_def) (metis floor_of_int)
  next
    case f: False
    have "\<lfloor>x\<rfloor> = \<lceil>x\<rceil> - 1" using f by (metis ceiling_altdef add_diff_cancel_right')
    moreover have "rat_trunc (of_int \<lceil>x\<rceil> - 1) = \<lceil>x\<rceil> - 1" using rat_trunc_of_int[of "\<lceil>x\<rceil> - 1"] by simp
    ultimately show ?thesis using False f t by (simp add: constexpr_floor_def Let_def)
  qed
qed

end
