(* ===== verification/MusicalTime.thy ===== *)
theory MusicalTime
  imports TokenRequest Floats
begin

text \<open>
  The part of a token request that computes with floating-point numbers (dataflow/token_request.hpp): the
  maps between model time and the samples of the audio buffer, the bar lines and the points of a musical
  grid that fall into a tick, the metronome, and the cutting of a request at a date.
\<close>

section \<open>Samples\<close>

definition musical_to_frame :: "'d fpu \<Rightarrow> 'd \<Rightarrow> 'd \<Rightarrow> 'd \<Rightarrow> int \<Rightarrow> int" where
  "musical_to_frame fl pos start end frames =
     (let abs = (\<lambda>x. if f_lt fl x (f_0 fl) then f_neg fl x else x);
          duration = f_sub fl end start;
          r = f_div fl (f_sub fl pos start) duration;
          tolerance = f_div fl
            (f_mul fl (f_mul fl (f_lit fl 16) (f_lit fl (1 / 2 ^ 52))) (f_max_list fl (abs pos) [abs start, abs end]))
            (abs duration)
      in constexpr_floor fl (f_mul fl (f_add fl r tolerance) (f_of_int fl frames)))"

definition abs_speed :: "'d fpu \<Rightarrow> 'd \<Rightarrow> 'd" where
  "abs_speed fl s = (if f_lt fl s (f_0 fl) then f_neg fl s else s)"

definition start_date_to_physical :: "'d fpu \<Rightarrow> 'd token_request \<Rightarrow> 'd \<Rightarrow> int" where
  "start_date_to_physical fl tk ratio =
     f_int64 fl (f_div fl (f_mul fl (f_of_int fl (impl (prev_date tk))) ratio) (abs_speed fl (speed tk)))"

definition sample_at :: "'d fpu \<Rightarrow> 'd token_request \<Rightarrow> time_value \<Rightarrow> 'd \<Rightarrow> int" where
  "sample_at fl tk tick_position ratio =
     constexpr_floor fl (f_div fl (f_mul fl (f_of_int fl (impl tick_position)) ratio) (abs_speed fl (speed tk)))"

definition physical_start :: "'d fpu \<Rightarrow> 'd token_request \<Rightarrow> 'd \<Rightarrow> int" where
  "physical_start fl tk ratio = (if start_sample tk \<ge> 0 then start_sample tk else sample_at fl tk (offset tk) ratio)"

definition physical_read_duration :: "'d fpu \<Rightarrow> 'd token_request \<Rightarrow> 'd \<Rightarrow> int" where
  "physical_read_duration fl tk ratio =
     (let a = (if impl (prev_date tk) < impl (date tk) then impl (prev_date tk) else impl (date tk));
          b = (if impl (prev_date tk) < impl (date tk) then impl (date tk) else impl (prev_date tk))
      in s64 (constexpr_floor fl (f_mul fl (f_of_int fl b) ratio) - constexpr_floor fl (f_mul fl (f_of_int fl a) ratio)))"

definition physical_write_duration :: "'d fpu \<Rightarrow> 'd token_request \<Rightarrow> 'd \<Rightarrow> int" where
  "physical_write_duration fl tk ratio =
     (if length_sample tk \<ge> 0 then length_sample tk
      else s64 (sample_at fl tk (tv_plus (offset tk) (tv_abs (tv_minus (date tk) (prev_date tk)))) ratio
                - sample_at fl tk (offset tk) ratio))"

definition safe_physical_write_duration :: "'d fpu \<Rightarrow> 'd token_request \<Rightarrow> 'd \<Rightarrow> int \<Rightarrow> int" where
  "safe_physical_write_duration fl tk ratio buffer_size = s64 (buffer_size - physical_start fl tk ratio)"

definition physical_position :: "'d fpu \<Rightarrow> 'd token_request \<Rightarrow> 'd \<Rightarrow> 'd \<Rightarrow> int" where
  "physical_position fl tk pos ratio =
     (if f_eq fl (speed tk) (f_0 fl) \<and> length_sample tk < 0 then 0
      else
        (let len = physical_write_duration fl tk ratio
         in if len \<le> 0 then 0
            else if f_eq fl (f_sub fl (musical_end_position tk) (musical_start_position tk)) (f_0 fl) then 0
            else
              (let s = musical_to_frame fl pos (musical_start_position tk) (musical_end_position tk) len
               in if s < 0 then 0 else if s \<ge> len then len - 1 else s)))"

definition to_physical_time_in_tick :: "'d fpu \<Rightarrow> 'd token_request \<Rightarrow> time_value \<Rightarrow> 'd \<Rightarrow> int" where
  "to_physical_time_in_tick fl tk global_time ratio =
     (let in_tick = (if f_lt fl (speed tk) (f_0 fl) then impl (tv_minus (prev_date tk) global_time)
                     else impl (tv_minus global_time (prev_date tk)))
      in if start_sample tk \<ge> 0 \<and> length_sample tk \<ge> 0 then
           (let dt = impl (tv_abs (tv_minus (date tk) (prev_date tk)))
            in if dt \<le> 0 then start_sample tk
               else
                 (let s = s64 (start_sample tk
                        + constexpr_floor fl (f_mul fl (f_div fl (f_of_int fl in_tick) (f_of_int fl dt)) (f_of_int fl (length_sample tk))))
                  in if s < start_sample tk then start_sample tk
                     else if s > start_sample tk + length_sample tk then start_sample tk + length_sample tk
                     else s))
         else sample_at fl tk (tv_plus (offset tk) (Time_value in_tick)) ratio)"

definition from_physical_time_in_tick :: "'d fpu \<Rightarrow> 'd token_request \<Rightarrow> int \<Rightarrow> 'd \<Rightarrow> time_value" where
  "from_physical_time_in_tick fl tk phys_time ratio =
     (let in_tick = f_of_int fl (s64 (phys_time - physical_start fl tk ratio))
      in Time_value (constexpr_floor fl
           (f_add fl (f_mul fl in_tick (f_div fl (speed tk) ratio)) (f_of_int fl (impl (prev_date tk))))))"

definition position_in_parent :: "'d fpu \<Rightarrow> 'd token_request \<Rightarrow> 'd" where
  "position_in_parent fl tk =
     (if impl (parent_duration tk) > 0
      then f_div fl (f_of_int fl (impl (date tk))) (f_of_int fl (impl (parent_duration tk))) else f_0 fl)"

definition tk_forward :: "'d token_request \<Rightarrow> bool" where
  "tk_forward tk = tv_gt (date tk) (prev_date tk)"

definition tk_paused :: "'d token_request \<Rightarrow> bool" where
  "tk_paused tk = tv_eq (date tk) (prev_date tk)"

definition tk_backward :: "'d token_request \<Rightarrow> bool" where
  "tk_backward tk = tv_lt (date tk) (prev_date tk)"

section \<open>Bars\<close>

definition quarters_in_bar :: "'d fpu \<Rightarrow> 'd token_request \<Rightarrow> 'd" where
  "quarters_in_bar fl tk =
     (case signature tk of (upper, lower) \<Rightarrow>
        if upper > 0 \<and> lower > 0
        then f_div fl (f_mul fl (f_lit fl 4) (f_of_int fl (int upper))) (f_of_int fl (int lower)) else f_lit fl 4)"

definition grid_eps :: "'d fpu \<Rightarrow> 'd" where
  "grid_eps fl = f_lit fl (1 / 10 ^ 9)"

text \<open>The two loops of \<open>for_each_bar_segment\<close>, bounded at 1024 rounds in the code, with what they call in
  order.\<close>

fun near_segments :: "nat \<Rightarrow> 'd fpu \<Rightarrow> 'd \<Rightarrow> 'd \<Rightarrow> 'd \<Rightarrow> 'd \<Rightarrow> 'd \<Rightarrow> ('d \<times> 'd) list" where
  "near_segments 0 fl bar far lo hi b = []"
| "near_segments (Suc i) fl bar far lo hi b =
     (if f_lt fl b (f_sub fl far (grid_eps fl)) then
        (let next = (if f_lt fl (f_add fl b bar) far then f_add fl b bar else far);
             rest = near_segments i fl bar far lo hi (f_add fl b bar)
         in if f_lt fl (f_add fl lo (grid_eps fl)) next \<and> f_lt fl b (f_add fl hi (grid_eps fl)) then (b, next) # rest else rest)
      else [])"

fun far_segments :: "nat \<Rightarrow> 'd fpu \<Rightarrow> 'd \<Rightarrow> 'd \<Rightarrow> 'd \<Rightarrow> ('d \<times> 'd) list" where
  "far_segments 0 fl bar hi b = []"
| "far_segments (Suc i) fl bar hi b =
     (if f_lt fl b (f_add fl hi (grid_eps fl)) then (b, f_add fl b bar) # far_segments i fl bar hi (f_add fl b bar) else [])"

definition for_each_bar_segment :: "'d fpu \<Rightarrow> 'd token_request \<Rightarrow> 'd \<Rightarrow> 'd \<Rightarrow> ('d \<times> 'd) list" where
  "for_each_bar_segment fl tk lo hi =
     (let bar = quarters_in_bar fl tk
      in if \<not> f_lt fl (f_0 fl) bar then []
         else
           (let rewinding = tv_lt (date tk) (prev_date tk);
                near = (if rewinding then musical_end_last_bar tk else musical_start_last_bar tk);
                far = (if rewinding then musical_start_last_bar tk else musical_end_last_bar tk)
            in near_segments 1024 fl bar far lo hi near
               @ far_segments 1024 fl bar hi (if f_lt fl near far then far else near)))"

section \<open>Quantification\<close>

record 'd quantification_point =
  qpoint_date :: time_value
  qpoint_index :: int
  qpoint_position :: 'd

text \<open>The lambda \<open>try_push\<close>: the point, or \<open>None\<close> past the end of the tick; and the state of the walk, the
  points given so far and whether it goes on.\<close>

definition point_at :: "'d fpu \<Rightarrow> 'd token_request \<Rightarrow> 'd \<Rightarrow> int \<Rightarrow> 'd quantification_point option" where
  "point_at fl tk pos index =
     (let tick_duration = tv_minus (date tk) (prev_date tk);
          scale = f_div fl (f_of_int fl (impl tick_duration)) (f_sub fl (musical_end_position tk) (musical_start_position tk));
          d = tv_plus (prev_date tk) (Time_value (f_int64 fl (f_mul fl (f_sub fl pos (musical_start_position tk)) scale)))
      in if tv_lt (date tk) (prev_date tk) then
           (if f_le fl pos (musical_end_position tk) then None
            else
              (let d' = (if tv_gt d (prev_date tk) then prev_date tk else d)
               in if tv_le d' (date tk) then None else Some \<lparr>qpoint_date = d', qpoint_index = index, qpoint_position = pos\<rparr>))
         else
           (if f_le fl (musical_end_position tk) pos then None
            else
              (let d' = (if tv_lt d (prev_date tk) then prev_date tk else d)
               in if tv_ge d' (date tk) then None else Some \<lparr>qpoint_date = d', qpoint_index = index, qpoint_position = pos\<rparr>)))"

definition try_push ::
    "'d fpu \<Rightarrow> 'd token_request \<Rightarrow> 'd \<Rightarrow> int \<Rightarrow> 'd quantification_point list \<Rightarrow> 'd quantification_point list \<times> bool" where
  "try_push fl tk pos index acc =
     (case point_at fl tk pos index of
        None \<Rightarrow> (acc, False)
      | Some p \<Rightarrow> (acc @ [p], Suc (length acc) < 1024))"

text \<open>Rates of a bar or longer: at most 1024 rounds go on.\<close>

fun walk_units :: "nat \<Rightarrow> 'd fpu \<Rightarrow> 'd token_request \<Rightarrow> 'd \<Rightarrow> 'd \<Rightarrow> int \<Rightarrow> 'd quantification_point list \<Rightarrow> 'd quantification_point list" where
  "walk_units 0 fl tk unit end k acc = acc"
| "walk_units (Suc n) fl tk unit end k acc =
     (if (if tv_lt (date tk) (prev_date tk) then f_lt fl (f_add fl end (grid_eps fl)) (f_of_int fl k)
          else f_lt fl (f_of_int fl k) (f_sub fl end (grid_eps fl)))
      then
        (case try_push fl tk (f_add fl (f_mul fl (f_of_int fl k) unit) (musical_start_last_signature tk)) k acc of
           (acc', go) \<Rightarrow>
             if go then walk_units n fl tk unit end (s64 (if tv_lt (date tk) (prev_date tk) then k - 1 else k + 1)) acc' else acc')
      else acc)"

fun walk_forward ::
    "'d fpu \<Rightarrow> 'd token_request \<Rightarrow> 'd \<Rightarrow> 'd \<Rightarrow> 'd \<Rightarrow> 'd \<Rightarrow> 'd \<Rightarrow> int list \<Rightarrow> 'd quantification_point list
     \<Rightarrow> 'd quantification_point list \<times> bool" where
  "walk_forward fl tk unit lo hi bar_line next_bar [] acc = (acc, True)"
| "walk_forward fl tk unit lo hi bar_line next_bar (k # ks) acc =
     (let p = f_add fl bar_line (f_mul fl (f_of_int fl k) unit)
      in if f_le fl (f_sub fl next_bar (grid_eps fl)) p \<or> f_lt fl (f_add fl hi (grid_eps fl)) p then (acc, True)
         else if f_lt fl p lo then walk_forward fl tk unit lo hi bar_line next_bar ks acc
         else
           (case try_push fl tk p k acc of
              (acc', go) \<Rightarrow> if go then walk_forward fl tk unit lo hi bar_line next_bar ks acc' else (acc', False)))"

fun walk_backward ::
    "'d fpu \<Rightarrow> 'd token_request \<Rightarrow> 'd \<Rightarrow> 'd \<Rightarrow> 'd \<Rightarrow> 'd \<Rightarrow> 'd \<Rightarrow> int list \<Rightarrow> 'd quantification_point list
     \<Rightarrow> 'd quantification_point list \<times> bool" where
  "walk_backward fl tk unit lo hi bar_line next_bar [] acc = (acc, True)"
| "walk_backward fl tk unit lo hi bar_line next_bar (k # ks) acc =
     (let p = f_add fl bar_line (f_mul fl (f_of_int fl k) unit)
      in if f_le fl (f_sub fl next_bar (grid_eps fl)) p \<or> f_lt fl (f_add fl hi (grid_eps fl)) p
         then walk_backward fl tk unit lo hi bar_line next_bar ks acc
         else if f_lt fl p lo then (acc, True)
         else
           (case try_push fl tk p k acc of
              (acc', go) \<Rightarrow> if go then walk_backward fl tk unit lo hi bar_line next_bar ks acc' else (acc', False)))"

definition walk_segment ::
    "'d fpu \<Rightarrow> 'd token_request \<Rightarrow> 'd \<Rightarrow> 'd \<Rightarrow> 'd \<Rightarrow> 'd \<times> 'd \<Rightarrow> 'd quantification_point list
     \<Rightarrow> 'd quantification_point list \<times> bool" where
  "walk_segment fl tk unit lo hi seg acc =
     (case seg of (bar_line, next_bar) \<Rightarrow>
        let divs = s32 (f_int32 fl (f_ceil fl (f_div fl (f_sub fl next_bar bar_line) unit)) + 1)
        in if \<not> tv_lt (date tk) (prev_date tk) then walk_forward fl tk unit lo hi bar_line next_bar [0..divs] acc
           else walk_backward fl tk unit lo hi bar_line next_bar (rev [0..divs]) acc)"

fun walk_segments ::
    "'d fpu \<Rightarrow> 'd token_request \<Rightarrow> 'd \<Rightarrow> 'd \<Rightarrow> 'd \<Rightarrow> ('d \<times> 'd) list \<Rightarrow> 'd quantification_point list
     \<Rightarrow> 'd quantification_point list" where
  "walk_segments fl tk unit lo hi [] acc = acc"
| "walk_segments fl tk unit lo hi (seg # segs) acc =
     (case walk_segment fl tk unit lo hi seg acc of
        (acc', walking) \<Rightarrow> if walking then walk_segments fl tk unit lo hi segs acc' else acc')"

definition get_quantification_dates :: "'d fpu \<Rightarrow> 'd token_request \<Rightarrow> 'd \<Rightarrow> 'd quantification_point list" where
  "get_quantification_dates fl tk rate =
     (if tv_eq (prev_date tk) (date tk) then []
      else
        (let duration = f_sub fl (musical_end_position tk) (musical_start_position tk);
             rewinding = tv_lt (date tk) (prev_date tk)
         in if f_le fl rate (f_0 fl) \<or> f_eq fl duration (f_0 fl) \<or> f_lt fl duration (f_0 fl) \<noteq> rewinding
            then [\<lparr>qpoint_date = prev_date tk, qpoint_index = 0, qpoint_position = musical_start_position tk\<rparr>]
            else if f_le fl rate (f_lit fl 1) then
              (let unit = f_div fl (quarters_in_bar fl tk) rate
               in if \<not> f_lt fl (f_0 fl) unit then []
                  else
                    (let origin = musical_start_last_signature tk;
                         start = f_div fl (f_sub fl (musical_start_position tk) origin) unit;
                         end = f_div fl (f_sub fl (musical_end_position tk) origin) unit;
                         first = (if rewinding then f_int64 fl (f_floor fl (f_add fl start (grid_eps fl)))
                                  else f_int64 fl (f_ceil fl (f_sub fl start (grid_eps fl))))
                     in walk_units 1024 fl tk unit end first []))
            else
              (let unit = f_div fl (f_lit fl 4) rate
               in if \<not> f_lt fl (f_0 fl) unit \<or> \<not> f_lt fl (f_0 fl) (quarters_in_bar fl tk) then []
                  else
                    (let lo = (if rewinding then musical_end_position tk else musical_start_position tk);
                         hi = (if rewinding then musical_start_position tk else musical_end_position tk);
                         segs = for_each_bar_segment fl tk lo hi
                     in walk_segments fl tk unit lo hi (if \<not> rewinding then segs else rev (take 1024 segs)) []))))"

definition get_quantification_point :: "'d fpu \<Rightarrow> 'd token_request \<Rightarrow> 'd \<Rightarrow> 'd quantification_point option" where
  "get_quantification_point fl tk rate =
     (if tv_eq (prev_date tk) (date tk) then None
      else if tk_backward tk then None
      else (case get_quantification_dates fl tk rate of [] \<Rightarrow> None | p # _ \<Rightarrow> Some p))"

definition get_quantification_date :: "'d fpu \<Rightarrow> 'd token_request \<Rightarrow> 'd \<Rightarrow> time_value option" where
  "get_quantification_date fl tk rate = map_option qpoint_date (get_quantification_point fl tk rate)"

definition get_physical_quantification_date :: "'d fpu \<Rightarrow> 'd token_request \<Rightarrow> 'd \<Rightarrow> 'd \<Rightarrow> int option" where
  "get_physical_quantification_date fl tk rate ratio =
     map_option (\<lambda>p. s64 (physical_start fl tk ratio + physical_position fl tk (qpoint_position p) ratio))
       (get_quantification_point fl tk rate)"

section \<open>The metronome\<close>

datatype click = Tick int | Tock int

text \<open>The loops over the beats add or subtract 1 until a limit is passed; for huge positions the addition is
  lost and they do not end (\<open>None\<close>).\<close>

partial_function (option) beats_up :: "'d fpu \<Rightarrow> 'd \<Rightarrow> 'd \<Rightarrow> 'd list option" where
  "beats_up fl limit q =
     (if f_lt fl q limit then Option.bind (beats_up fl limit (f_add fl q (f_lit fl 1))) (\<lambda>qs. Some (q # qs)) else Some [])"

partial_function (option) beats_down :: "'d fpu \<Rightarrow> 'd \<Rightarrow> 'd \<Rightarrow> 'd list option" where
  "beats_down fl limit q =
     (if f_lt fl limit q then Option.bind (beats_down fl limit (f_sub fl q (f_lit fl 1))) (\<lambda>qs. Some (q # qs)) else Some [])"

declare beats_up.simps [code] beats_down.simps [code]

definition emit_click :: "'d fpu \<Rightarrow> 'd token_request \<Rightarrow> 'd \<Rightarrow> 'd \<Rightarrow> 'd \<Rightarrow> bool \<Rightarrow> 'd \<Rightarrow> click list" where
  "emit_click fl tk ratio lo hi is_bar p =
     (if (if tk_backward tk then f_lt fl hi p \<or> f_le fl p lo else f_lt fl p lo \<or> f_le fl hi p) then []
      else [(if is_bar then Tick else Tock) (physical_position fl tk p ratio)])"

definition click_segment :: "'d fpu \<Rightarrow> 'd token_request \<Rightarrow> 'd \<Rightarrow> 'd \<Rightarrow> 'd \<Rightarrow> 'd \<times> 'd \<Rightarrow> click list option" where
  "click_segment fl tk ratio lo hi seg =
     (case seg of (bar_line, next_bar) \<Rightarrow>
        Option.bind (beats_up fl (f_sub fl next_bar (grid_eps fl)) (f_add fl bar_line (f_lit fl 1))) (\<lambda>qs.
          if \<not> tk_backward tk then
            Some (emit_click fl tk ratio lo hi True bar_line @ concat (map (emit_click fl tk ratio lo hi False) qs))
          else
            Option.bind (beats_down fl (f_add fl bar_line (grid_eps fl)) (if qs = [] then bar_line else List.last qs)) (\<lambda>ps.
              Some (concat (map (emit_click fl tk ratio lo hi False) ps) @ emit_click fl tk ratio lo hi True bar_line))))"

primrec click_segments :: "'d fpu \<Rightarrow> 'd token_request \<Rightarrow> 'd \<Rightarrow> 'd \<Rightarrow> 'd \<Rightarrow> ('d \<times> 'd) list \<Rightarrow> click list option" where
  "click_segments fl tk ratio lo hi [] = Some []"
| "click_segments fl tk ratio lo hi (seg # segs) =
     Option.bind (click_segment fl tk ratio lo hi seg) (\<lambda>cs.
       Option.bind (click_segments fl tk ratio lo hi segs) (\<lambda>cs'. Some (cs @ cs')))"

definition metronome :: "'d fpu \<Rightarrow> 'd token_request \<Rightarrow> 'd \<Rightarrow> click list option" where
  "metronome fl tk ratio =
     (let duration = f_sub fl (musical_end_position tk) (musical_start_position tk);
          rewinding = tk_backward tk;
          bar = f_div fl (f_mul fl (f_lit fl 4) (f_of_int fl (int (fst (signature tk))))) (f_of_int fl (int (snd (signature tk))))
      in if f_eq fl duration (f_0 fl) \<or> f_lt fl duration (f_0 fl) \<noteq> rewinding then Some []
         else if physical_write_duration fl tk ratio < 0 then Some []
         else if \<not> f_lt fl (f_0 fl) bar then Some []
         else
           (let lo = (if rewinding then musical_end_position tk else musical_start_position tk);
                hi = (if rewinding then musical_start_position tk else musical_end_position tk);
                segs = take 64 (for_each_bar_segment fl tk lo hi)
            in click_segments fl tk ratio lo hi (if \<not> rewinding then segs else rev segs)))"

definition unexpected_bar_change :: "'d fpu \<Rightarrow> 'd token_request \<Rightarrow> bool" where
  "unexpected_bar_change fl tk =
     (let difference = f_sub fl (musical_end_last_bar tk) (musical_start_last_bar tk)
      in if \<not> f_eq fl difference (f_0 fl) then
           (let d = (if f_lt fl difference (f_0 fl) then f_neg fl difference else difference);
                quarters_sig = f_div fl (f_mul fl (f_lit fl 4) (f_of_int fl (int (fst (signature tk))))) (f_of_int fl (int (snd (signature tk))));
                ratio = f_div fl d quarters_sig
            in f_lt fl (f_lit fl (1 / 10 ^ 6)) (f_sub fl ratio (f_of_int fl (f_int64 fl ratio))))
         else False)"

section \<open>Cutting a request\<close>

definition tick_fraction_at :: "'d fpu \<Rightarrow> 'd token_request \<Rightarrow> time_value \<Rightarrow> 'd" where
  "tick_fraction_at fl tk t =
     (let whole = f_of_int fl (s64 (impl (date tk) - impl (prev_date tk)))
      in if f_eq fl whole (f_0 fl) then f_0 fl
         else
           (let f = f_div fl (f_of_int fl (s64 (impl t - impl (prev_date tk)))) whole
            in if f_lt fl f (f_0 fl) then f_0 fl else if f_lt fl (f_lit fl 1) f then f_lit fl 1 else f))"

definition musical_position_at :: "'d fpu \<Rightarrow> 'd token_request \<Rightarrow> time_value \<Rightarrow> 'd" where
  "musical_position_at fl tk t =
     f_add fl (musical_start_position tk)
       (f_mul fl (f_sub fl (musical_end_position tk) (musical_start_position tk)) (tick_fraction_at fl tk t))"

definition part_of_length :: "'d fpu \<Rightarrow> 'd token_request \<Rightarrow> time_value \<Rightarrow> int" where
  "part_of_length fl tk t =
     f_int32 fl (f_add fl (f_mul fl (f_of_int fl (length_sample tk)) (tick_fraction_at fl tk t)) (f_lit fl (1 / 2)))"

definition set_end_time :: "'d fpu \<Rightarrow> time_value \<Rightarrow> 'd token_request \<Rightarrow> 'd token_request" where
  "set_end_time fl t tk =
     (let tk1 = (if length_sample tk > 0 then tk\<lparr>length_sample := part_of_length fl tk t\<rparr> else tk)
      in tk1\<lparr>musical_end_position := musical_position_at fl tk1 t, date := t\<rparr>)"

definition set_start_time :: "'d fpu \<Rightarrow> time_value \<Rightarrow> 'd token_request \<Rightarrow> 'd token_request" where
  "set_start_time fl t tk =
     (let tk1 = (if length_sample tk > 0 then
                   tk\<lparr>start_sample := s32 (start_sample tk + part_of_length fl tk t),
                      length_sample := s32 (length_sample tk - part_of_length fl tk t)\<rparr>
                 else tk)
      in tk1\<lparr>musical_start_position := musical_position_at fl tk1 t, prev_date := t\<rparr>)"

section \<open>The points of a grid lie in the tick\<close>

definition in_tick :: "'d token_request \<Rightarrow> 'd quantification_point \<Rightarrow> bool" where
  "in_tick tk p \<longleftrightarrow>
     (if tv_lt (date tk) (prev_date tk) then tv_lt (date tk) (qpoint_date p) \<and> tv_le (qpoint_date p) (prev_date tk)
      else tv_le (prev_date tk) (qpoint_date p) \<and> tv_lt (qpoint_date p) (date tk))"

lemma tv_lt_neq: "\<not> tv_eq a b \<Longrightarrow> \<not> tv_lt b a \<Longrightarrow> tv_lt a b"
  by (auto simp: tv_defs)

lemma tv_negations:
  "\<not> tv_gt a b \<longleftrightarrow> tv_le a b" "\<not> tv_le a b \<longleftrightarrow> tv_lt b a" "\<not> tv_lt a b \<longleftrightarrow> tv_le b a" "\<not> tv_ge a b \<longleftrightarrow> tv_lt a b" "tv_le a a"
  by (auto simp: tv_defs)

lemma tv_lt_not_le: "tv_lt a b \<Longrightarrow> tv_le b a \<Longrightarrow> False"
  by (auto simp: tv_defs)

lemma point_at_in_tick:
  assumes "point_at fl tk pos index = Some p"
  shows "in_tick tk p"
proof -
  define d where "d = tv_plus (prev_date tk) (Time_value (f_int64 fl (f_mul fl (f_sub fl pos (musical_start_position tk))
    (f_div fl (f_of_int fl (impl (tv_minus (date tk) (prev_date tk)))) (f_sub fl (musical_end_position tk) (musical_start_position tk))))))"
  show ?thesis
    using assms unfolding point_at_def Let_def in_tick_def d_def[symmetric]
    by (auto simp: tv_negations dest: tv_lt_not_le split: if_splits)
qed

text \<open>The walk so far: points of the tick, and less than 1024 if it goes on.\<close>

definition walked :: "'d token_request \<Rightarrow> 'd quantification_point list \<Rightarrow> bool \<Rightarrow> bool" where
  "walked tk acc go \<longleftrightarrow> list_all (in_tick tk) acc \<and> length acc \<le> 1024 \<and> (go \<longrightarrow> length acc < 1024)"

lemma walked_push:
  assumes "walked tk acc True" and "\<not> tv_eq (prev_date tk) (date tk)" and "try_push fl tk pos index acc = (acc', go)"
  shows "walked tk acc' go"
  using assms(1,3) point_at_in_tick[of fl tk pos index] by (auto simp: try_push_def walked_def split: option.splits)

lemma walked_units:
  "walked tk acc True \<Longrightarrow> \<not> tv_eq (prev_date tk) (date tk) \<Longrightarrow> walked tk (walk_units n fl tk unit end k acc) False"
proof (induction n arbitrary: k acc)
  case (Suc n)
  obtain acc' go where p: "try_push fl tk (f_add fl (f_mul fl (f_of_int fl k) unit) (musical_start_last_signature tk)) k acc = (acc', go)"
    by fastforce
  have w: "walked tk acc' go" by (rule walked_push[OF Suc.prems p])
  then have "walked tk acc' False" by (simp add: walked_def)
  moreover have "walked tk acc False" using Suc.prems(1) by (simp add: walked_def)
  moreover have "go \<Longrightarrow> walked tk (walk_units n fl tk unit end j acc') False" for j
    using Suc.IH[of acc' j] Suc.prems(2) w by simp
  ultimately show ?case by (auto simp: p)
qed (simp add: walked_def)

lemma walked_forward:
  "walked tk acc True \<Longrightarrow> \<not> tv_eq (prev_date tk) (date tk) \<Longrightarrow>
   walk_forward fl tk unit lo hi bar_line next_bar ks acc = (acc', go) \<Longrightarrow> walked tk acc' go"
proof (induction ks arbitrary: acc)
  case (Cons k ks)
  let ?p = "f_add fl bar_line (f_mul fl (f_of_int fl k) unit)"
  obtain acc1 go1 where p: "try_push fl tk ?p k acc = (acc1, go1)" by fastforce
  have w: "walked tk acc1 go1" by (rule walked_push[OF Cons.prems(1,2) p])
  show ?case using Cons.prems w Cons.IH[of acc] Cons.IH[of acc1] by (auto simp: Let_def p split: if_splits)
qed simp

lemma walked_backward:
  "walked tk acc True \<Longrightarrow> \<not> tv_eq (prev_date tk) (date tk) \<Longrightarrow>
   walk_backward fl tk unit lo hi bar_line next_bar ks acc = (acc', go) \<Longrightarrow> walked tk acc' go"
proof (induction ks arbitrary: acc)
  case (Cons k ks)
  let ?p = "f_add fl bar_line (f_mul fl (f_of_int fl k) unit)"
  obtain acc1 go1 where p: "try_push fl tk ?p k acc = (acc1, go1)" by fastforce
  have w: "walked tk acc1 go1" by (rule walked_push[OF Cons.prems(1,2) p])
  show ?case using Cons.prems w Cons.IH[of acc] Cons.IH[of acc1] by (auto simp: Let_def p split: if_splits)
qed simp

lemma walked_segments:
  "walked tk acc True \<Longrightarrow> \<not> tv_eq (prev_date tk) (date tk) \<Longrightarrow> walked tk (walk_segments fl tk unit lo hi segs acc) False"
proof (induction segs arbitrary: acc)
  case (Cons seg segs)
  obtain acc' go where s: "walk_segment fl tk unit lo hi seg acc = (acc', go)" by fastforce
  have w: "walked tk acc' go"
    using s Cons.prems walked_forward walked_backward
    by (cases seg) (auto simp: walk_segment_def Let_def split: if_splits)
  then have "walked tk acc' False" by (simp add: walked_def)
  then show ?case using Cons.IH[of acc'] Cons.prems(2) w by (cases go) (simp_all add: s)
qed (simp add: walked_def)

lemma get_quantification_dates_cases:
  assumes "\<not> tv_eq (prev_date tk) (date tk)"
  shows "walked tk (get_quantification_dates fl tk rate) False"
proof -
  have e: "walked tk [] True" "walked tk [] False" by (simp_all add: walked_def)
  have d: "walked tk [\<lparr>qpoint_date = prev_date tk, qpoint_index = 0, qpoint_position = musical_start_position tk\<rparr>] False"
    using assms by (auto simp: walked_def in_tick_def tv_defs)
  show ?thesis
    using assms walked_units[OF e(1) assms] walked_segments[OF e(1) assms] d e(2)
    by (simp add: get_quantification_dates_def Let_def)
qed

text \<open>whatever the rounding of the floating-point operations, every point of the grid found in a tick has
  its date in the tick - from its start to before its end, and the other way round when rewinding - and at most
  1024 of them are found.\<close>

theorem quantification_dates_in_tick:
  "length (get_quantification_dates fl tk rate) \<le> 1024 \<and> list_all (in_tick tk) (get_quantification_dates fl tk rate)"
proof (cases "tv_eq (prev_date tk) (date tk)")
  case True
  then show ?thesis by (simp add: get_quantification_dates_def)
next
  case False
  then show ?thesis using get_quantification_dates_cases[OF False] by (auto simp: walked_def list_all_iff)
qed

section \<open>Clicks and cuts\<close>

lemma physical_position_range:
  "0 \<le> physical_position fl tk pos ratio
   \<and> (physical_position fl tk pos ratio = 0 \<or> physical_position fl tk pos ratio < physical_write_duration fl tk ratio)"
  by (auto simp: physical_position_def Let_def)

definition click_sample :: "click \<Rightarrow> int" where
  "click_sample c = (case c of Tick n \<Rightarrow> n | Tock n \<Rightarrow> n)"

definition clicks_in_span :: "'d fpu \<Rightarrow> 'd token_request \<Rightarrow> 'd \<Rightarrow> click list \<Rightarrow> bool" where
  "clicks_in_span fl tk ratio cs \<longleftrightarrow>
     (\<forall>c \<in> set cs. 0 \<le> click_sample c \<and> (click_sample c = 0 \<or> click_sample c < physical_write_duration fl tk ratio))"

lemma clicks_in_span_append [simp]:
  "clicks_in_span fl tk ratio (cs @ cs') \<longleftrightarrow> clicks_in_span fl tk ratio cs \<and> clicks_in_span fl tk ratio cs'"
  "clicks_in_span fl tk ratio []"
  by (auto simp: clicks_in_span_def)

lemma emit_in_span [simp]: "clicks_in_span fl tk ratio (emit_click fl tk ratio lo hi is_bar p)"
  using physical_position_range[of fl tk p ratio] by (auto simp: clicks_in_span_def emit_click_def click_sample_def)

lemma emits_in_span [simp]: "clicks_in_span fl tk ratio (concat (map (emit_click fl tk ratio lo hi is_bar) ps))"
  by (induction ps) simp_all

lemma click_segment_in_span: "click_segment fl tk ratio lo hi seg = Some cs \<Longrightarrow> clicks_in_span fl tk ratio cs"
  by (auto simp: click_segment_def bind_eq_Some_conv split: prod.splits if_splits)

lemma click_segments_in_span: "click_segments fl tk ratio lo hi segs = Some cs \<Longrightarrow> clicks_in_span fl tk ratio cs"
  by (induction segs arbitrary: cs) (auto simp: bind_eq_Some_conv click_segment_in_span)

text \<open>every click of the metronome falls on a sample the tick writes: none is negative and none is past
  the end of the samples of the tick, whatever the rounding.\<close>

theorem metronome_in_span:
  assumes "metronome fl tk ratio = Some cs"
  shows "clicks_in_span fl tk ratio cs"
  using assms click_segments_in_span by (fastforce simp: metronome_def Let_def split: if_splits)

text \<open>a request cut at a date gives two that tile it: the second starts on the sample and at the musical
  position where the first ends, and their samples are those of the whole, whatever the rounding of the
  fraction.\<close>

theorem cut_tiles:
  assumes "0 \<le> length_sample tk" and "in32 (start_sample tk)"
  shows "start_sample (set_start_time fl t tk) = s32 (start_sample (set_end_time fl t tk) + length_sample (set_end_time fl t tk))
    \<and> length_sample (set_start_time fl t tk) = s32 (length_sample tk - length_sample (set_end_time fl t tk))
    \<and> start_sample (set_end_time fl t tk) = start_sample tk
    \<and> musical_start_position (set_start_time fl t tk) = musical_end_position (set_end_time fl t tk)
    \<and> date (set_end_time fl t tk) = t \<and> prev_date (set_start_time fl t tk) = t
    \<and> prev_date (set_end_time fl t tk) = prev_date tk \<and> date (set_start_time fl t tk) = date tk"
  using assms s32_id[of "start_sample tk"] s32_id[of 0]
  by (auto simp: set_start_time_def set_end_time_def musical_position_at_def tick_fraction_at_def part_of_length_def Let_def)

section \<open>Examples\<close>

text \<open>A tick of one second of 48000 samples that goes from the third beat of a bar to the second of the next.\<close>

definition demo_musical_tick :: "rat token_request" where
  "demo_musical_tick = (make_token_request 0 (Time_value 0) (Time_value 705600000) (Time_value 705600000) Zero_tv 1 (4, 4) 120)
     \<lparr>start_sample := 0, length_sample := 48000, musical_start_position := 5 / 2, musical_end_position := 9 / 2,
      musical_end_last_bar := 4\<rparr>"

lemma metronome_in_span_witness:
  "metronome rat_fpu demo_musical_tick (48000 / 705600000) = Some [Tock 12000, Tick 36000]
   \<and> clicks_in_span rat_fpu demo_musical_tick (48000 / 705600000) [Tock 12000, Tick 36000]"
proof -
  have "metronome rat_fpu demo_musical_tick (48000 / 705600000) = Some [Tock 12000, Tick 36000]" by code_simp
  then show ?thesis by (auto intro: metronome_in_span)
qed

lemma get_quantification_dates_example:
  "map qpoint_date (get_quantification_dates rat_fpu demo_musical_tick 4) = [Time_value 176400000, Time_value 529200000]"
  by code_simp

lemma cut_tiles_witness:
  "start_sample (set_start_time rat_fpu (Time_value 100) demo_musical_tick)
   = s32 (start_sample (set_end_time rat_fpu (Time_value 100) demo_musical_tick)
       + length_sample (set_end_time rat_fpu (Time_value 100) demo_musical_tick))"
proof -
  have "0 \<le> length_sample demo_musical_tick" "in32 (start_sample demo_musical_tick)"
    by (simp_all add: demo_musical_tick_def make_token_request_def)
  from cut_tiles[OF this] show ?thesis by blast
qed

end
