(* ===== verification/ScenarioData.thy ===== *)
theory ScenarioData
  imports Outcome Expressions MusicalTime "HOL-Library.Word"
begin

text \<open>
  The objects of a scenario (editor/scenario): intervals, events and syncs, which refer to each other by
  identifiers, the processes they contain, and the scenario that runs them, in one store. An identifier
  stands for the address of an object, so that the order of the identifiers is the order of the sets of
  pointers. What the engine calls outside of itself - processes, callbacks, nodes of the dataflow graph,
  observers of the syncs - is written down in \<open>calls\<close>, in the order of the calls. Speeds, tempos and
  rates are floating-point numbers of a type \<open>'d\<close> that is only carried and compared with zero here. What was last
  written into the inlets of the node of an interval is \<open>node_tempo\<close>, \<open>node_speed\<close> and \<open>node_seek\<close>, \<open>None\<close> where
  the code has a value that means nothing was.
\<close>

unbundle bit_operations_syntax

section \<open>Data\<close>

text \<open>The status of an event is a byte; the engine marks what it has finished in its highest bit.\<close>

definition NONE :: "8 word" where "NONE = 0x00"

definition PENDING :: "8 word" where "PENDING = 0x01"

definition HAPPENED :: "8 word" where "HAPPENED = 0x02"

definition DISPOSED :: "8 word" where "DISPOSED = 0x03"

definition FINISHED :: "8 word" where "FINISHED = 0x80"

datatype offset_behaviour = EXPRESSION_TRUE | EXPRESSION_FALSE | EXPRESSION

datatype done_status = NOT_DONE | DONE_TRIGGERED | DONE_MAX_REACHED

record 'd time_interval =
  start_event :: nat
  end_event :: nat
  nominal :: time_value
  min_duration :: time_value
  max_duration :: time_value
  itv_date :: time_value
  itv_offset :: time_value
  date_residue :: 'd
  parent_speed :: 'd
  is_running :: bool
  graphal :: bool
  itv_muted :: bool
  itv_callback :: bool
  itv_processes :: "nat list"
  itv_tick_offset :: time_value
  tick_start_sample :: int
  tick_length_sample :: int
  current_tempo :: 'd
  time_signatures :: "(time_value \<times> nat \<times> nat) list"
  itv_start_last_signature :: 'd
  itv_start_last_bar :: 'd
  itv_start_position :: 'd
  itv_end_last_bar :: 'd
  itv_end_position :: 'd
  itv_speed :: 'd
  global_speed :: 'd
  current_signature :: "nat \<times> nat"
  quarter_duration :: 'd
  has_tempo :: bool
  has_signature :: bool
  node_tempo :: "'d option"
  node_speed :: "'d option"
  node_seek :: int

record time_event =
  time_sync_of :: nat
  status :: "8 word"
  offset_behavior :: offset_behaviour
  ev_expression :: expr
  ev_callback :: bool
  ev_processes :: "nat list"
  previous_intervals :: "nat list"
  next_intervals :: "nat list"

record 'd time_sync =
  sync_expression :: "expr option"
  time_events :: "nat list"
  has_callback :: bool
  sync_rate :: 'd
  trigger_request :: bool
  trigger_date :: time_value
  sync_done :: done_status
  is_start :: bool
  observing :: bool
  evaluating :: bool
  sync_muted :: bool
  autotrigger :: bool
  being_triggered :: bool

record overtick =
  overtick_min :: time_value
  overtick_max :: time_value
  overtick_offset :: time_value
  overtick_sample :: int

record process =
  enabled :: bool
  unmuted :: bool

datatype 'd call =
    Event_callback nat "8 word"
  | Interval_callback nat bool time_value
  | Process_start nat
  | Process_stop nat
  | Process_pause nat
  | Process_resume nat
  | Process_offset nat time_value
  | Process_transport nat time_value
  | Process_state nat "'d token_request"
  | Process_mute nat bool
  | Node_request nat "'d token_request"
  | Scenario_request "'d token_request"
  | Launch_state "nat list"
  | Start_discontinuous nat
  | End_discontinuous nat
  | Entered_evaluation nat
  | Entered_triggering nat
  | Trigger_date_fixed nat time_value
  | Left_evaluation nat
  | Triggered nat
  | Finished_evaluation nat bool
  | Add_callback nat
  | Remove_callback nat
  | Pull "nat list"

record 'd scenario =
  intervals :: "nat \<Rightarrow> 'd time_interval"
  events :: "nat \<Rightarrow> time_event"
  syncs :: "nat \<Rightarrow> 'd time_sync"
  processes :: "nat \<Rightarrow> process"
  scenario_intervals :: "nat list"
  nodes_list :: "nat list"
  running_intervals :: "nat list"
  waiting_nodes :: "nat list"
  root_nodes :: "nat list"
  pending_events :: "nat list"
  max_reached_events :: "nat list"
  overticks :: "nat \<Rightarrow> overtick option"
  itv_end_map :: "nat \<Rightarrow> time_value option"
  offset_durations :: "(nat \<times> time_value \<times> time_value) list"
  retry_syncs :: "nat list"
  end_nodes :: "nat list"
  backward_overticks :: "nat \<Rightarrow> overtick option"
  start_nodes :: "nat list"
  itv_to_start :: "(nat \<times> 'd \<times> time_value) list"
  itv_to_stop :: "(nat \<times> 'd \<times> time_value) list"
  last_date :: time_value
  exclusive :: bool
  muted :: bool
  calls :: "'d call list"

datatype sc_error = Execution_error | Expression_error expr_error

type_synonym 'd step = "'d scenario \<Rightarrow> (sc_error, 'd scenario) outcome"

definition lift_expr :: "expr_error + 'a \<Rightarrow> (sc_error, 'a) outcome" where
  "lift_expr r = (case r of Inl e \<Rightarrow> Throw (Expression_error e) | Inr x \<Rightarrow> Done x)"

definition note_call :: "'d call \<Rightarrow> 'd scenario \<Rightarrow> 'd scenario" where
  "note_call c st = st\<lparr>calls := calls st @ [c]\<rparr>"

definition set_interval :: "nat \<Rightarrow> ('d time_interval \<Rightarrow> 'd time_interval) \<Rightarrow> 'd scenario \<Rightarrow> 'd scenario" where
  "set_interval i f st = st\<lparr>intervals := (intervals st)(i := f (intervals st i))\<rparr>"

definition set_event :: "nat \<Rightarrow> (time_event \<Rightarrow> time_event) \<Rightarrow> 'd scenario \<Rightarrow> 'd scenario" where
  "set_event e f st = st\<lparr>events := (events st)(e := f (events st e))\<rparr>"

definition set_sync :: "nat \<Rightarrow> ('d time_sync \<Rightarrow> 'd time_sync) \<Rightarrow> 'd scenario \<Rightarrow> 'd scenario" where
  "set_sync s f st = st\<lparr>syncs := (syncs st)(s := f (syncs st s))\<rparr>"

definition set_process :: "nat \<Rightarrow> (process \<Rightarrow> process) \<Rightarrow> 'd scenario \<Rightarrow> 'd scenario" where
  "set_process p f st = st\<lparr>processes := (processes st)(p := f (processes st p))\<rparr>"

definition sync_of_start :: "'d scenario \<Rightarrow> nat \<Rightarrow> nat" where
  "sync_of_start st i = time_sync_of (events st (start_event (intervals st i)))"

definition sync_of_end :: "'d scenario \<Rightarrow> nat \<Rightarrow> nat" where
  "sync_of_end st i = time_sync_of (events st (end_event (intervals st i)))"

section \<open>Processes\<close>

definition process_mute :: "bool \<Rightarrow> nat \<Rightarrow> 'd scenario \<Rightarrow> 'd scenario" where
  "process_mute m p st = note_call (Process_mute p m) (set_process p (\<lambda>x. x\<lparr>unmuted := \<not> m\<rparr>) st)"

definition if_enabled :: "(nat \<Rightarrow> 'd call) \<Rightarrow> nat \<Rightarrow> 'd scenario \<Rightarrow> 'd scenario" where
  "if_enabled c p st = (if enabled (processes st p) then note_call (c p) st else st)"

section \<open>Intervals\<close>

definition interval_notify :: "nat \<Rightarrow> 'd scenario \<Rightarrow> 'd scenario" where
  "interval_notify i st =
     (let v = intervals st i
      in if itv_callback v then note_call (Interval_callback i (is_running v) (itv_date v)) st else st)"

definition interval_stop :: "nat \<Rightarrow> 'd::zero scenario \<Rightarrow> 'd scenario" where
  "interval_stop i st =
     interval_notify i
       (set_interval i (\<lambda>v. v\<lparr>itv_offset := Zero_tv, itv_date := Zero_tv, date_residue := 0, is_running := False\<rparr>)
         (fold (\<lambda>p. note_call (Process_stop p)) (itv_processes (intervals st i)) st))"

definition interval_start :: "nat \<Rightarrow> 'd::zero scenario \<Rightarrow> 'd scenario" where
  "interval_start i st =
     (let v = intervals st i
      in if tv_le (nominal v) (itv_offset v) then interval_stop i st
         else
           interval_notify i
             (set_interval i (\<lambda>v. v\<lparr>is_running := True, itv_date := itv_offset v, date_residue := 0\<rparr>)
               (fold (if_enabled Process_start) (itv_processes v) st)))"

definition interval_offset :: "nat \<Rightarrow> time_value \<Rightarrow> 'd::zero scenario \<Rightarrow> 'd scenario" where
  "interval_offset i d st =
     interval_notify i
       (fold (if_enabled (\<lambda>p. Process_offset p d)) (itv_processes (intervals st i))
         (set_interval i (\<lambda>v. v\<lparr>itv_offset := d, itv_date := d, date_residue := 0\<rparr>) st))"

definition interval_transport :: "nat \<Rightarrow> time_value \<Rightarrow> 'd::zero scenario \<Rightarrow> 'd scenario" where
  "interval_transport i d st =
     interval_notify i
       (fold (if_enabled (\<lambda>p. Process_transport p d)) (itv_processes (intervals st i))
         (set_interval i (\<lambda>v. v\<lparr>itv_offset := d, itv_date := d, date_residue := 0\<rparr>) st))"

definition interval_pause :: "nat \<Rightarrow> 'd scenario \<Rightarrow> 'd scenario" where
  "interval_pause i st = fold (\<lambda>p. note_call (Process_pause p)) (itv_processes (intervals st i)) st"

definition interval_resume :: "nat \<Rightarrow> 'd scenario \<Rightarrow> 'd scenario" where
  "interval_resume i st = fold (\<lambda>p. note_call (Process_resume p)) (itv_processes (intervals st i)) st"

definition interval_mute :: "bool \<Rightarrow> nat \<Rightarrow> 'd scenario \<Rightarrow> 'd scenario" where
  "interval_mute m i st =
     fold (process_mute m) (itv_processes (intervals st i)) (set_interval i (\<lambda>v. v\<lparr>itv_muted := m\<rparr>) st)"

text \<open>A null pointer is \<open>None\<close>.\<close>

definition interval_add_process :: "nat \<Rightarrow> nat option \<Rightarrow> 'd scenario \<Rightarrow> 'd scenario" where
  "interval_add_process i process st =
     (case process of
        None \<Rightarrow> st
      | Some p \<Rightarrow>
          (let v = intervals st i;
               st1 = (if is_running v then
                        (let st' = note_call (Process_start p) st
                         in if tv_neq (itv_date v) Zero_tv then note_call (Process_transport p (itv_date v)) st' else st')
                      else st);
               st2 = (if itv_muted v then process_mute True p st1 else st1)
           in if p \<in> set (itv_processes v) then st2
              else set_interval i (\<lambda>v. v\<lparr>itv_processes := itv_processes v @ [p]\<rparr>) st2))"

definition interval_remove_process :: "nat \<Rightarrow> nat \<Rightarrow> 'd scenario \<Rightarrow> 'd scenario" where
  "interval_remove_process i p st = set_interval i (\<lambda>v. v\<lparr>itv_processes := remove1 p (itv_processes v)\<rparr>) st"

definition mark_end :: "nat \<Rightarrow> 'd scenario \<Rightarrow> 'd scenario" where
  "mark_end i st = note_call (End_discontinuous i) st"

definition mark_start :: "nat \<Rightarrow> 'd scenario \<Rightarrow> 'd scenario" where
  "mark_start i st = note_call (Start_discontinuous i) st"

section \<open>Events\<close>

definition event_notify :: "nat \<Rightarrow> 'd scenario \<Rightarrow> 'd scenario" where
  "event_notify e st =
     (let v = events st e in if ev_callback v then note_call (Event_callback e (status v)) st else st)"

definition set_status :: "nat \<Rightarrow> 8 word \<Rightarrow> 'd scenario \<Rightarrow> 'd scenario" where
  "set_status e s st = event_notify e (set_event e (\<lambda>v. v\<lparr>status := s\<rparr>) st)"

definition event_reset :: "nat \<Rightarrow> 'd scenario \<Rightarrow> 'd scenario" where
  "event_reset e st = set_status e NONE st"

definition event_add_process :: "nat \<Rightarrow> nat option \<Rightarrow> 'd scenario \<Rightarrow> 'd scenario" where
  "event_add_process e process st =
     (case process of
        None \<Rightarrow> st
      | Some p \<Rightarrow>
          (if p \<in> set (ev_processes (events st e)) then st
           else
             (let st1 = (if sync_muted (syncs st (time_sync_of (events st e))) then process_mute True p st else st)
              in set_event e (\<lambda>v. v\<lparr>ev_processes := ev_processes v @ [p]\<rparr>) st1)))"

definition event_remove_process :: "nat \<Rightarrow> nat \<Rightarrow> 'd scenario \<Rightarrow> 'd scenario" where
  "event_remove_process e p st = set_event e (\<lambda>v. v\<lparr>ev_processes := remove1 p (ev_processes v)\<rparr>) st"

definition event_tick :: "nat \<Rightarrow> time_value \<Rightarrow> time_value \<Rightarrow> 'd::zero \<Rightarrow> 'd scenario \<Rightarrow> 'd scenario" where
  "event_tick e d off sp st =
     fold (\<lambda>p st. note_call (Process_stop p)
         (note_call (Process_state p (make_token_request 0 Zero_tv d Zero_tv off sp (4, 4) 0))
           (note_call (Process_start p) st)))
       (ev_processes (events st e)) st"

definition event_cleanup :: "nat \<Rightarrow> 'd scenario \<Rightarrow> 'd scenario" where
  "event_cleanup e st = set_event e (\<lambda>v. v\<lparr>ev_callback := False, previous_intervals := [], next_intervals := []\<rparr>) st"

definition event_mute :: "bool \<Rightarrow> nat \<Rightarrow> 'd scenario \<Rightarrow> 'd scenario" where
  "event_mute m e st = fold (process_mute m) (ev_processes (events st e)) st"

end
