(* ===== verification/ScenarioSync.thy ===== *)
theory ScenarioSync
  imports ScenarioData
begin

text \<open>
  Syncs (time_sync.cpp): observation of their expression, requests, resetting and the date of a sync, and
  the durations of intervals (time_interval.cpp), whose setters call each other so that the minimal,
  nominal and maximal durations stay in order.
\<close>

section \<open>Syncs\<close>

text \<open>The date is the nominal duration of the first previous interval that is not graphal plus the date of
  its start; \<open>None\<close> is a recursion that never returns.\<close>

definition date_interval :: "'d scenario \<Rightarrow> nat \<Rightarrow> nat option" where
  "date_interval st s =
     map_option (\<lambda>e. hd (previous_intervals (events st e)))
       (find (\<lambda>e. previous_intervals (events st e) \<noteq> [] \<and> \<not> graphal (intervals st (hd (previous_intervals (events st e)))))
         (time_events (syncs st s)))"

partial_function (option) sync_date :: "'d scenario \<Rightarrow> nat \<Rightarrow> time_value option" where
  "sync_date st s =
     (case date_interval st s of
        None \<Rightarrow> Some Zero_tv
      | Some i \<Rightarrow> Option.bind (sync_date st (sync_of_start st i)) (\<lambda>d. Some (tv_plus (nominal (intervals st i)) d)))"

definition has_sync_rate :: "'d fpu \<Rightarrow> 'd time_sync \<Rightarrow> bool" where
  "has_sync_rate fl v \<longleftrightarrow> f_lt fl (f_0 fl) (sync_rate v)"

definition has_trigger_date :: "'d time_sync \<Rightarrow> bool" where
  "has_trigger_date v \<longleftrightarrow> \<not> tv_infinite (trigger_date v)"

definition remove_observer :: "nat \<Rightarrow> 'd scenario \<Rightarrow> 'd scenario" where
  "remove_observer s st =
     (if has_callback (syncs st s)
      then set_sync s (\<lambda>v. v\<lparr>has_callback := False\<rparr>) (note_call (Remove_callback s) st)
      else st)"

definition set_expression :: "nat \<Rightarrow> expr \<Rightarrow> 'd scenario \<Rightarrow> 'd scenario" where
  "set_expression s e st =
     set_sync s (\<lambda>v. v\<lparr>observing := False, sync_expression := Some e\<rparr>) (remove_observer s st)"

definition start_trigger_request :: "nat \<Rightarrow> 'd scenario \<Rightarrow> 'd scenario" where
  "start_trigger_request s st =
     (if \<not> trigger_request (syncs st s) then set_sync s (\<lambda>v. v\<lparr>trigger_request := True\<rparr>) st else st)"

definition end_trigger_request :: "nat \<Rightarrow> 'd scenario \<Rightarrow> 'd scenario" where
  "end_trigger_request s st = set_sync s (\<lambda>v. v\<lparr>trigger_request := False\<rparr>) st"

definition set_trigger_date :: "nat \<Rightarrow> time_value \<Rightarrow> 'd scenario \<Rightarrow> 'd scenario" where
  "set_trigger_date s d st = note_call (Trigger_date_fixed s d) (set_sync s (\<lambda>v. v\<lparr>trigger_date := d\<rparr>) st)"

definition observe_expression_impl :: "bool \<Rightarrow> nat \<Rightarrow> 'd step" where
  "observe_expression_impl b s st =
     (let v = syncs st s
      in if b = observing v then Done st
         else
           (let st1 = set_sync s (\<lambda>v. v\<lparr>observing := b\<rparr>) st
            in if b then
                 (if sync_expression v = Some No_expression then Throw (Expression_error Invalid_variant)
                  else Done (set_sync s (\<lambda>v. v\<lparr>has_callback := True\<rparr>) (note_call (Add_callback s)
                         (if has_callback v then note_call (Remove_callback s) st1 else st1))))
               else Done (remove_observer s st1)))"

definition observe_expression :: "bool \<Rightarrow> nat \<Rightarrow> 'd step" where
  "observe_expression b s st =
     (case sync_expression (syncs st s) of
        None \<Rightarrow> Done st
      | Some (Constant _) \<Rightarrow> Done st
      | Some _ \<Rightarrow> observe_expression_impl b s st)"

definition reset_expression :: "nat \<Rightarrow> 'd step" where
  "reset_expression s st =
     (case sync_expression (syncs st s) of
        None \<Rightarrow> Done st
      | Some e \<Rightarrow>
          and_then (lift_expr (reset e)) (\<lambda>e'. Done (set_sync s (\<lambda>v. v\<lparr>sync_expression := Some e'\<rparr>) st)))"

definition sync_reset :: "nat \<Rightarrow> 'd step" where
  "sync_reset s st =
     and_then (if sync_expression (syncs st s) = None then Done st else reset_expression s (remove_observer s st))
       (\<lambda>st1. Done (set_sync s
          (\<lambda>v. v\<lparr>trigger_date := Infinite, sync_done := NOT_DONE, observing := False, evaluating := False,
             being_triggered := False\<rparr>)
          (fold event_reset (time_events (syncs st1 s)) st1)))"

definition sync_cleanup :: "nat \<Rightarrow> 'd scenario \<Rightarrow> 'd scenario" where
  "sync_cleanup s st =
     set_sync s (\<lambda>v. v\<lparr>time_events := []\<rparr>) (fold event_cleanup (time_events (syncs st s)) st)"

definition sync_mute :: "bool \<Rightarrow> nat \<Rightarrow> 'd scenario \<Rightarrow> 'd scenario" where
  "sync_mute m s st =
     (if m \<noteq> sync_muted (syncs st s)
      then fold (event_mute m) (time_events (syncs st s)) (set_sync s (\<lambda>v. v\<lparr>sync_muted := m\<rparr>) st)
      else st)"

definition set_is_being_triggered :: "bool \<Rightarrow> nat \<Rightarrow> 'd scenario \<Rightarrow> 'd scenario" where
  "set_is_being_triggered b s st =
     (let st1 = (if being_triggered (syncs st s) \<noteq> b then
                   (let st' = set_sync s (\<lambda>v. v\<lparr>being_triggered := b\<rparr>) st
                    in if b then note_call (Entered_triggering s) st' else st')
                 else st)
      in if \<not> b then set_sync s (\<lambda>v. v\<lparr>trigger_date := Infinite, trigger_request := False\<rparr>) st1 else st1)"

section \<open>Durations\<close>

text \<open>The setters call each other; a call passes a duration the interval has already, so that the
  recursion ends after at most two levels.\<close>

function set_nominal_duration :: "time_value \<Rightarrow> 'd time_interval \<Rightarrow> 'd time_interval"
  and set_min_duration :: "time_value \<Rightarrow> 'd time_interval \<Rightarrow> 'd time_interval"
  and set_max_duration :: "time_value \<Rightarrow> 'd time_interval \<Rightarrow> 'd time_interval" where
  "set_nominal_duration d v =
     (let v1 = v\<lparr>nominal := d\<rparr>;
          v2 = (if tv_lt (nominal v1) (min_duration v1) then set_min_duration (nominal v1) v1 else v1);
          v3 = (if tv_gt (nominal v2) (max_duration v2) then set_max_duration (nominal v2) v2 else v2)
      in if \<not> tv_infinite (max_duration v3) \<and> tv_gt (itv_date v3) (max_duration v3)
         then v3\<lparr>itv_date := max_duration v3\<rparr> else v3)"
| "set_min_duration d v =
     (let v1 = v\<lparr>min_duration := d\<rparr>
      in if tv_gt (min_duration v1) (nominal v1) then set_nominal_duration (min_duration v1) v1 else v1)"
| "set_max_duration d v =
     (let v1 = v\<lparr>max_duration := d\<rparr>
      in if tv_lt d (nominal v1) then set_nominal_duration (max_duration v1) v1 else v1)"
  by pat_completeness auto

termination
  by (relation "measure (\<lambda>x. case x of
      Inl (d, v) \<Rightarrow> 1
    | Inr (Inl (d, v)) \<Rightarrow> if tv_gt d (nominal v) then 2 else 0
    | Inr (Inr (d, v)) \<Rightarrow> if tv_lt d (nominal v) then 2 else 0)")
    (auto simp: tv_gt_def tv_lt_def)

declare set_nominal_duration.simps [simp del] set_min_duration.simps [simp del] set_max_duration.simps [simp del]

text \<open>The comparisons of time values order them by this key: all infinite values are one.\<close>

definition tv_key :: "time_value \<Rightarrow> int" where
  "tv_key t = min (impl t) infinite_min"

lemma tv_key_order:
  "tv_lt a b \<longleftrightarrow> tv_key a < tv_key b" "tv_gt a b \<longleftrightarrow> tv_key a > tv_key b"
  "tv_le a b \<longleftrightarrow> tv_key a \<le> tv_key b" "tv_ge a b \<longleftrightarrow> tv_key a \<ge> tv_key b"
  "tv_eq a b \<longleftrightarrow> tv_key a = tv_key b"
  by (auto simp: tv_defs tv_key_def)

definition durations_ordered :: "'d time_interval \<Rightarrow> bool" where
  "durations_ordered v \<longleftrightarrow> tv_le (min_duration v) (nominal v) \<and> tv_le (nominal v) (max_duration v)"

definition clamp_date :: "'d time_interval \<Rightarrow> 'd time_interval" where
  "clamp_date v =
     (if \<not> tv_infinite (max_duration v) \<and> tv_gt (itv_date v) (max_duration v) then v\<lparr>itv_date := max_duration v\<rparr> else v)"

lemma set_min_small: "\<not> tv_gt d (nominal v) \<Longrightarrow> set_min_duration d v = v\<lparr>min_duration := d\<rparr>"
  by (simp add: set_min_duration.simps)

lemma set_max_large: "\<not> tv_lt d (nominal v) \<Longrightarrow> set_max_duration d v = v\<lparr>max_duration := d\<rparr>"
  by (simp add: set_max_duration.simps)

lemma set_nominal_eq:
  "set_nominal_duration d v =
     clamp_date (v\<lparr>nominal := d, min_duration := (if tv_lt d (min_duration v) then d else min_duration v),
       max_duration := (if tv_gt d (max_duration v) then d else max_duration v)\<rparr>)"
  unfolding set_nominal_duration.simps[of d v]
  by (cases v) (simp add: set_min_small set_max_large clamp_date_def Let_def tv_key_order)

lemma set_min_eq:
  "set_min_duration d v =
     (if tv_gt d (nominal v) then
        clamp_date (v\<lparr>nominal := d, min_duration := d, max_duration := (if tv_gt d (max_duration v) then d else max_duration v)\<rparr>)
      else v\<lparr>min_duration := d\<rparr>)"
  unfolding set_min_duration.simps[of d v] by (cases v) (simp add: set_nominal_eq Let_def tv_key_order)

lemma set_max_eq:
  "set_max_duration d v =
     (if tv_lt d (nominal v) then
        clamp_date (v\<lparr>nominal := d, min_duration := (if tv_lt d (min_duration v) then d else min_duration v), max_duration := d\<rparr>)
      else v\<lparr>max_duration := d\<rparr>)"
  unfolding set_max_duration.simps[of d v] by (cases v) (simp add: set_nominal_eq Let_def tv_key_order)

lemma clamp_date_fields [simp]:
  "nominal (clamp_date v) = nominal v" "min_duration (clamp_date v) = min_duration v"
  "max_duration (clamp_date v) = max_duration v"
  by (simp_all add: clamp_date_def)

text \<open>C9: setting any of the three durations of an interval keeps the minimal duration below the nominal
  one and the nominal below the maximal one, with the duration that was set as asked for; setting the
  nominal duration puts them in order whatever they were.\<close>

theorem durations_stay_ordered:
  "durations_ordered (set_nominal_duration d v) \<and> nominal (set_nominal_duration d v) = d
   \<and> min_duration (set_min_duration d v) = d \<and> max_duration (set_max_duration d v) = d
   \<and> (durations_ordered v \<longrightarrow> durations_ordered (set_min_duration d v) \<and> durations_ordered (set_max_duration d v))"
  by (auto simp: durations_ordered_def set_nominal_eq set_min_eq set_max_eq tv_key_order)

definition demo_interval :: "rat time_interval" where
  "demo_interval =
     \<lparr>start_event = 0, end_event = 1, nominal = Time_value 10, min_duration = Time_value 5, max_duration = Time_value 20,
      itv_date = Zero_tv, itv_offset = Zero_tv, date_residue = 0, parent_speed = 1, is_running = False, graphal = False,
      itv_muted = False, itv_callback = True, itv_processes = [], itv_tick_offset = Zero_tv, tick_start_sample = - 1,
      tick_length_sample = - 1, current_tempo = 0, time_signatures = [], itv_start_last_signature = 0, itv_start_last_bar = 0,
      itv_start_position = 0, itv_end_last_bar = 0, itv_end_position = 0, itv_speed = 1, global_speed = 1,
      current_signature = (4, 4), quarter_duration = 352800000, has_tempo = False, has_signature = False,
      node_tempo = None, node_speed = None, node_seek = - (2 ^ 63)\<rparr>"

lemma durations_stay_ordered_witness: "durations_ordered (set_min_duration (Time_value 30) demo_interval)"
proof -
  have "durations_ordered demo_interval" by (simp add: durations_ordered_def demo_interval_def tv_key_order tv_key_def tv_consts)
  then show ?thesis using durations_stay_ordered[of _ demo_interval] by blast
qed

section \<open>The date of a sync\<close>

primrec date_chain :: "'d scenario \<Rightarrow> nat \<Rightarrow> nat \<Rightarrow> nat option" where
  "date_chain st s 0 = Some s"
| "date_chain st s (Suc n) =
     Option.bind (date_chain st s n) (\<lambda>t. map_option (sync_of_start st) (date_interval st t))"

lemma date_chain_Suc:
  "date_chain st s (Suc n) =
     (case date_interval st s of None \<Rightarrow> None | Some i \<Rightarrow> date_chain st (sync_of_start st i) n)"
  by (induction n) (auto split: option.splits)

lemma sync_date_chain: "date_chain st s n = None \<Longrightarrow> \<exists>d. sync_date st s = Some d"
proof (induction n arbitrary: s)
  case (Suc n)
  show ?case
  proof (cases "date_interval st s")
    case None
    then show ?thesis by (simp add: sync_date.simps)
  next
    case (Some i)
    then obtain d where "sync_date st (sync_of_start st i) = Some d"
      using Suc by (auto simp: date_chain_Suc simp del: date_chain.simps)
    then show ?thesis using Some by (subst sync_date.simps) simp
  qed
qed simp

lemma sync_date_ends:
  assumes "sync_date st s = Some d"
  shows "\<exists>n. date_chain st s n = None"
proof (rule sync_date.raw_induct[OF _ assms, of "\<lambda>st s d. \<exists>n. date_chain st s n = None"])
  fix rec and st :: "'a scenario" and s d
  assume IH: "\<And>st s d. rec st s = Some d \<Longrightarrow> \<exists>n. date_chain st s n = None"
    and d: "(case date_interval st s of
        None \<Rightarrow> Some Zero_tv
      | Some i \<Rightarrow> Option.bind (rec st (sync_of_start st i)) (\<lambda>d. Some (tv_plus (nominal (intervals st i)) d))) = Some d"
  show "\<exists>n. date_chain st s n = None"
  proof (cases "date_interval st s")
    case None
    then have "date_chain st s (Suc 0) = None" by (simp add: date_chain_Suc del: date_chain.simps)
    then show ?thesis ..
  next
    case (Some i)
    then obtain d' where "rec st (sync_of_start st i) = Some d'" using d by (auto simp: bind_eq_Some_conv)
    then obtain n where "date_chain st (sync_of_start st i) n = None" using IH by blast
    then have "date_chain st s (Suc n) = None" using Some by (simp add: date_chain_Suc del: date_chain.simps)
    then show ?thesis ..
  qed
qed

text \<open>the computation of the date of a sync returns exactly when the chain of first previous intervals
  ends; on a cycle it recurses for ever.\<close>

theorem sync_date_returns_iff: "(\<exists>d. sync_date st s = Some d) = (\<exists>n. date_chain st s n = None)"
  using sync_date_chain sync_date_ends by metis

end
