(* ===== verification/ScenarioFrames.thy ===== *)
theory ScenarioFrames
  imports ScenarioSync
begin

text \<open>
  What the operations on intervals and events leave alone. Each operation is a change of one object and
  some calls; the facts are collected in \<open>frame_simps\<close>.
\<close>

named_theorems frame_simps \<open>fields of the store after an operation\<close>

text \<open>The same store up to the calls made.\<close>

definition quiet :: "'d scenario \<Rightarrow> 'd scenario" where
  "quiet st = st\<lparr>calls := []\<rparr>"

lemma quiet_note [simp]: "quiet (note_call c st) = quiet st"
  by (simp add: quiet_def note_call_def)

lemma quiet_fields:
  "intervals (quiet st) = intervals st" "events (quiet st) = events st" "syncs (quiet st) = syncs st"
  "processes (quiet st) = processes st" "scenario_intervals (quiet st) = scenario_intervals st"
  "nodes_list (quiet st) = nodes_list st" "running_intervals (quiet st) = running_intervals st"
  "waiting_nodes (quiet st) = waiting_nodes st" "root_nodes (quiet st) = root_nodes st"
  "itv_end_map (quiet st) = itv_end_map st" "offset_durations (quiet st) = offset_durations st"
  "last_date (quiet st) = last_date st" "exclusive (quiet st) = exclusive st"
  by (simp_all add: quiet_def)

lemma quiet_fold: "(\<And>x st. x \<in> set xs \<Longrightarrow> quiet (f x st) = quiet st) \<Longrightarrow> quiet (fold f xs st) = quiet st"
  by (rule fold_same)

lemma quiet_if_enabled [simp]: "quiet (if_enabled c p st) = quiet st"
  by (simp add: if_enabled_def)

lemma quiet_interval_notify [simp]: "quiet (interval_notify i st) = quiet st"
  by (simp add: interval_notify_def Let_def)

lemma quiet_event_notify [simp]: "quiet (event_notify e st) = quiet st"
  by (simp add: event_notify_def Let_def)

lemma quiet_marks [simp]: "quiet (mark_end i st) = quiet st" "quiet (mark_start i st) = quiet st"
  by (simp_all add: mark_end_def mark_start_def)

lemma quiet_set [simp]:
  "quiet (set_interval i f st) = set_interval i f (quiet st)"
  "quiet (set_event e g st) = set_event e g (quiet st)"
  "quiet (set_sync s h st) = set_sync s h (quiet st)"
  by (simp_all add: quiet_def set_interval_def set_event_def set_sync_def)

lemma set_fields [frame_simps]:
  "intervals (set_interval i f st) = (intervals st)(i := f (intervals st i))"
  "events (set_event e g st) = (events st)(e := g (events st e))"
  "syncs (set_sync s h st) = (syncs st)(s := h (syncs st s))"
  "events (set_interval i f st) = events st" "syncs (set_interval i f st) = syncs st"
  "intervals (set_event e g st) = intervals st" "syncs (set_event e g st) = syncs st"
  "intervals (set_sync s h st) = intervals st" "events (set_sync s h st) = events st"
  "running_intervals (set_interval i f st) = running_intervals st"
  "running_intervals (set_event e g st) = running_intervals st"
  "running_intervals (set_sync s h st) = running_intervals st"
  "itv_end_map (set_interval i f st) = itv_end_map st" "itv_end_map (set_event e g st) = itv_end_map st"
  "itv_end_map (set_sync s h st) = itv_end_map st"
  "nodes_list (set_interval i f st) = nodes_list st" "nodes_list (set_event e g st) = nodes_list st"
  "nodes_list (set_sync s h st) = nodes_list st"
  "waiting_nodes (set_interval i f st) = waiting_nodes st" "waiting_nodes (set_event e g st) = waiting_nodes st"
  "waiting_nodes (set_sync s h st) = waiting_nodes st"
  "scenario_intervals (set_interval i f st) = scenario_intervals st" "scenario_intervals (set_event e g st) = scenario_intervals st"
  "scenario_intervals (set_sync s h st) = scenario_intervals st"
  "offset_durations (set_interval i f st) = offset_durations st" "offset_durations (set_event e g st) = offset_durations st"
  "offset_durations (set_sync s h st) = offset_durations st"
  "exclusive (set_interval i f st) = exclusive st" "exclusive (set_event e g st) = exclusive st"
  "exclusive (set_sync s h st) = exclusive st"
  "last_date (set_interval i f st) = last_date st" "last_date (set_event e g st) = last_date st"
  "last_date (set_sync s h st) = last_date st"
  "root_nodes (set_interval i f st) = root_nodes st" "root_nodes (set_event e g st) = root_nodes st"
  "root_nodes (set_sync s h st) = root_nodes st"
  by (simp_all add: set_interval_def set_event_def set_sync_def)

definition stopped :: "'d::zero time_interval \<Rightarrow> 'd time_interval" where
  "stopped v = v\<lparr>itv_offset := Zero_tv, itv_date := Zero_tv, date_residue := 0, is_running := False\<rparr>"

definition started :: "'d::zero time_interval \<Rightarrow> 'd time_interval" where
  "started v =
     (if tv_le (nominal v) (itv_offset v) then stopped v
      else v\<lparr>is_running := True, itv_date := itv_offset v, date_residue := 0\<rparr>)"

definition moved :: "time_value \<Rightarrow> 'd::zero time_interval \<Rightarrow> 'd time_interval" where
  "moved d v = v\<lparr>itv_offset := d, itv_date := d, date_residue := 0\<rparr>"

lemma quiet_interval_stop [simp]: "quiet (interval_stop i st) = set_interval i stopped (quiet st)"
  by (simp add: interval_stop_def quiet_fold stopped_def[abs_def])

lemma quiet_interval_start [simp]: "quiet (interval_start i st) = set_interval i started (quiet st)"
proof (cases "tv_le (nominal (intervals st i)) (itv_offset (intervals st i))")
  case True
  have "set_interval i stopped (quiet st) = set_interval i started (quiet st)"
    using True by (simp add: set_interval_def started_def quiet_fields)
  then show ?thesis using True by (simp add: interval_start_def Let_def)
next
  case False
  have "set_interval i (\<lambda>v. v\<lparr>is_running := True, itv_date := itv_offset v, date_residue := 0\<rparr>) (quiet st)
      = set_interval i started (quiet st)"
    using False by (simp add: set_interval_def started_def quiet_fields)
  then show ?thesis using False by (simp add: interval_start_def Let_def quiet_fold)
qed

lemma quiet_interval_move [simp]:
  "quiet (interval_transport i d st) = set_interval i (moved d) (quiet st)"
  "quiet (interval_offset i d st) = set_interval i (moved d) (quiet st)"
  by (simp_all add: interval_transport_def interval_offset_def quiet_fold moved_def[abs_def])

lemma quiet_event_tick [simp]: "quiet (event_tick e d off sp st) = quiet st"
  by (simp add: event_tick_def quiet_fold)

lemma quiet_set_status [simp]: "quiet (set_status e s st) = set_event e (\<lambda>v. v\<lparr>status := s\<rparr>) (quiet st)"
  by (simp add: set_status_def)

text \<open>A field of the store after an operation is that field of the quiet store.\<close>

lemma quiet_eq_fields:
  assumes "quiet st' = quiet st"
  shows "intervals st' = intervals st" "events st' = events st" "syncs st' = syncs st"
    "processes st' = processes st" "scenario_intervals st' = scenario_intervals st" "nodes_list st' = nodes_list st"
    "running_intervals st' = running_intervals st" "waiting_nodes st' = waiting_nodes st"
    "root_nodes st' = root_nodes st" "itv_end_map st' = itv_end_map st" "offset_durations st' = offset_durations st"
    "last_date st' = last_date st" "exclusive st' = exclusive st"
  using assms by (metis quiet_fields)+

lemma quiet_interval_change:
  assumes "quiet st' = set_interval i f (quiet st)"
  shows "intervals st' = (intervals st)(i := f (intervals st i))" "events st' = events st" "syncs st' = syncs st"
    "running_intervals st' = running_intervals st" "nodes_list st' = nodes_list st"
    "waiting_nodes st' = waiting_nodes st" "itv_end_map st' = itv_end_map st"
    "scenario_intervals st' = scenario_intervals st" "offset_durations st' = offset_durations st"
    "exclusive st' = exclusive st" "last_date st' = last_date st" "root_nodes st' = root_nodes st"
proof -
  have s: "quiet st' = quiet (set_interval i f st)" using assms by simp
  show "intervals st' = (intervals st)(i := f (intervals st i))" "events st' = events st" "syncs st' = syncs st"
    "running_intervals st' = running_intervals st" "nodes_list st' = nodes_list st"
    "waiting_nodes st' = waiting_nodes st" "itv_end_map st' = itv_end_map st"
    "scenario_intervals st' = scenario_intervals st" "offset_durations st' = offset_durations st"
    "exclusive st' = exclusive st" "last_date st' = last_date st" "root_nodes st' = root_nodes st"
    unfolding quiet_eq_fields[OF s] by (simp_all add: frame_simps)
qed

lemma quiet_event_change:
  assumes "quiet st' = set_event e f (quiet st)"
  shows "events st' = (events st)(e := f (events st e))" "intervals st' = intervals st" "syncs st' = syncs st"
    "running_intervals st' = running_intervals st" "nodes_list st' = nodes_list st"
    "waiting_nodes st' = waiting_nodes st" "itv_end_map st' = itv_end_map st"
    "scenario_intervals st' = scenario_intervals st" "offset_durations st' = offset_durations st"
    "exclusive st' = exclusive st" "last_date st' = last_date st" "root_nodes st' = root_nodes st"
proof -
  have s: "quiet st' = quiet (set_event e f st)" using assms by simp
  show "events st' = (events st)(e := f (events st e))" "intervals st' = intervals st" "syncs st' = syncs st"
    "running_intervals st' = running_intervals st" "nodes_list st' = nodes_list st"
    "waiting_nodes st' = waiting_nodes st" "itv_end_map st' = itv_end_map st"
    "scenario_intervals st' = scenario_intervals st" "offset_durations st' = offset_durations st"
    "exclusive st' = exclusive st" "last_date st' = last_date st" "root_nodes st' = root_nodes st"
    unfolding quiet_eq_fields[OF s] by (simp_all add: frame_simps)
qed

lemmas interval_stop_fields [frame_simps] = quiet_interval_change[OF quiet_interval_stop]
lemmas interval_start_fields [frame_simps] = quiet_interval_change[OF quiet_interval_start]
lemmas interval_transport_fields [frame_simps] = quiet_interval_change[OF quiet_interval_move(1)]
lemmas interval_offset_fields [frame_simps] = quiet_interval_change[OF quiet_interval_move(2)]
lemmas set_status_fields [frame_simps] = quiet_event_change[OF quiet_set_status]
lemmas mark_end_fields [frame_simps] = quiet_eq_fields[OF quiet_marks(1)]
lemmas mark_start_fields [frame_simps] = quiet_eq_fields[OF quiet_marks(2)]
lemmas event_tick_fields [frame_simps] = quiet_eq_fields[OF quiet_event_tick]
lemmas event_notify_fields [frame_simps] = quiet_eq_fields[OF quiet_event_notify]
lemmas note_call_fields [frame_simps] = quiet_eq_fields[OF quiet_note]

lemma stopped_fields [simp]:
  "start_event (stopped v) = start_event v" "end_event (stopped v) = end_event v" "graphal (stopped v) = graphal v"
  "nominal (stopped v) = nominal v" "min_duration (stopped v) = min_duration v" "max_duration (stopped v) = max_duration v"
  "is_running (stopped v) = False" "itv_date (stopped v) = Zero_tv" "stopped (stopped v) = stopped v"
  by (simp_all add: stopped_def)

lemma started_fields [simp]:
  "start_event (started v) = start_event v" "end_event (started v) = end_event v" "graphal (started v) = graphal v"
  "nominal (started v) = nominal v" "min_duration (started v) = min_duration v" "max_duration (started v) = max_duration v"
  "is_running (started v) \<longleftrightarrow> tv_gt (nominal v) (itv_offset v)"
  by (auto simp: started_def tv_key_order)

lemma moved_fields [simp]:
  "start_event (moved d v) = start_event v" "end_event (moved d v) = end_event v" "graphal (moved d v) = graphal v"
  "nominal (moved d v) = nominal v" "min_duration (moved d v) = min_duration v" "max_duration (moved d v) = max_duration v"
  "is_running (moved d v) = is_running v" "itv_date (moved d v) = d"
  by (simp_all add: moved_def)

text \<open>The shape of the graph: what refers to what, which no operation of the execution changes.\<close>

definition shape :: "'d scenario \<Rightarrow> (nat \<Rightarrow> nat \<times> nat \<times> bool) \<times> (nat \<Rightarrow> nat \<times> nat list \<times> nat list) \<times> (nat \<Rightarrow> nat list)" where
  "shape st =
     ((\<lambda>i. (start_event (intervals st i), end_event (intervals st i), graphal (intervals st i))),
      (\<lambda>e. (time_sync_of (events st e), previous_intervals (events st e), next_intervals (events st e))),
      (\<lambda>s. time_events (syncs st s)))"

lemma shape_fields:
  assumes "shape st' = shape st"
  shows "start_event (intervals st' i) = start_event (intervals st i)" "end_event (intervals st' i) = end_event (intervals st i)"
    "graphal (intervals st' i) = graphal (intervals st i)" "time_sync_of (events st' e) = time_sync_of (events st e)"
    "previous_intervals (events st' e) = previous_intervals (events st e)"
    "next_intervals (events st' e) = next_intervals (events st e)" "time_events (syncs st' s) = time_events (syncs st s)"
  using assms by (simp_all add: shape_def fun_eq_iff)

end
