(* ===== verification/ScenarioEvents.thy ===== *)
theory ScenarioEvents
  imports ScenarioFrames
begin

text \<open>
  Events that happen or are disposed (detail/scenario_execution.cpp): the intervals before them stop, the
  intervals after a happened event start, and the disposal of an event disposes of the events behind it
  whose every way in is disposed.
\<close>

section \<open>Operations\<close>

definition add_running :: "nat \<Rightarrow> 'd scenario \<Rightarrow> 'd scenario" where
  "add_running i st = st\<lparr>running_intervals := flat_insert i (running_intervals st)\<rparr>"

definition erase_running :: "nat \<Rightarrow> 'd scenario \<Rightarrow> 'd scenario" where
  "erase_running i st = st\<lparr>running_intervals := flat_erase i (running_intervals st)\<rparr>"

definition stop_previous :: "nat \<Rightarrow> 'd::zero scenario \<Rightarrow> 'd scenario" where
  "stop_previous i st = erase_running i (mark_end i (interval_stop i st))"

definition start_next :: "'d::zero \<Rightarrow> nat \<Rightarrow> 'd scenario \<Rightarrow> 'd scenario" where
  "start_next sp i st =
     add_running i (mark_start i (interval_start i (set_interval i (\<lambda>v. v\<lparr>parent_speed := sp\<rparr>) st)))"

definition mark_finished :: "nat \<Rightarrow> 'd scenario \<Rightarrow> 'd scenario" where
  "mark_finished e st = set_event e (\<lambda>v. v\<lparr>status := status v OR FINISHED\<rparr>) st"

text \<open>The sets of started and stopped intervals are the running intervals of the scenario at every call.\<close>

definition make_happen :: "nat \<Rightarrow> time_value \<Rightarrow> 'd::zero token_request \<Rightarrow> 'd scenario \<Rightarrow> 'd scenario" where
  "make_happen e tick_offset tok st =
     (let st1 = set_event e (\<lambda>v. v\<lparr>status := HAPPENED\<rparr>) st;
          st2 = fold stop_previous (previous_intervals (events st1 e)) st1;
          st3 = event_tick e Zero_tv tick_offset (speed tok) st2;
          st4 = fold (start_next (speed tok)) (next_intervals (events st3 e)) st3
      in mark_finished e (event_notify e st4))"

definition all_starts_disposed :: "nat \<Rightarrow> 'd scenario \<Rightarrow> bool" where
  "all_starts_disposed e st \<longleftrightarrow>
     list_all (\<lambda>j. status (events st (start_event (intervals st j))) = DISPOSED) (previous_intervals (events st e))"

fun make_dispose :: "nat \<Rightarrow> nat \<Rightarrow> 'd::zero step" where
  "make_dispose 0 e st = Diverge"
| "make_dispose (Suc n) e st =
     (if status (events st e) = HAPPENED then Throw Execution_error
      else
        (let st1 = set_event e (\<lambda>v. v\<lparr>status := DISPOSED\<rparr>) st;
             st2 = fold stop_previous (previous_intervals (events st1 e)) st1
         in and_then
              (each
                (\<lambda>i st. let f = end_event (intervals st i)
                         in if all_starts_disposed f st \<and> \<not> graphal (intervals st i) then make_dispose n f st else Done st)
                (next_intervals (events st2 e)) st2)
              (\<lambda>st3. Done (mark_finished e (event_notify e st3)))))"

declare make_dispose.simps(2) [simp del]

section \<open>Frames\<close>

lemma running_fields [frame_simps]:
  "intervals (add_running i st) = intervals st" "events (add_running i st) = events st" "syncs (add_running i st) = syncs st"
  "intervals (erase_running i st) = intervals st" "events (erase_running i st) = events st" "syncs (erase_running i st) = syncs st"
  "running_intervals (add_running i st) = flat_insert i (running_intervals st)"
  "running_intervals (erase_running i st) = flat_erase i (running_intervals st)"
  by (simp_all add: add_running_def erase_running_def)

lemma stop_previous_fields [frame_simps]:
  "intervals (stop_previous i st) = (intervals st)(i := stopped (intervals st i))"
  "events (stop_previous i st) = events st" "syncs (stop_previous i st) = syncs st"
  "running_intervals (stop_previous i st) = flat_erase i (running_intervals st)"
  by (simp_all add: stop_previous_def frame_simps)

lemma start_next_fields [frame_simps]:
  "intervals (start_next sp i st) = (intervals st)(i := started ((intervals st i)\<lparr>parent_speed := sp\<rparr>))"
  "events (start_next sp i st) = events st" "syncs (start_next sp i st) = syncs st"
  "running_intervals (start_next sp i st) = flat_insert i (running_intervals st)"
  by (simp_all add: start_next_def frame_simps)

lemma mark_finished_fields [frame_simps]:
  "intervals (mark_finished e st) = intervals st" "syncs (mark_finished e st) = syncs st"
  "running_intervals (mark_finished e st) = running_intervals st"
  "events (mark_finished e st) = (events st)(e := (events st e)\<lparr>status := status (events st e) OR FINISHED\<rparr>)"
  by (simp_all add: mark_finished_def frame_simps)

lemma fold_stop_fields:
  "intervals (fold stop_previous is st) = (\<lambda>j. if j \<in> set is then stopped (intervals st j) else intervals st j)"
  "events (fold stop_previous is st) = events st" "syncs (fold stop_previous is st) = syncs st"
  "set (running_intervals (fold stop_previous is st)) = set (running_intervals st) - set is"
  by (induction "is" arbitrary: st) (auto simp: frame_simps fun_eq_iff)

lemma fold_start_events:
  "events (fold (start_next sp) is st) = events st" "syncs (fold (start_next sp) is st) = syncs st"
  "set (running_intervals (fold (start_next sp) is st)) = set (running_intervals st) \<union> set is"
  by (induction "is" arbitrary: st) (auto simp: frame_simps)

lemma fold_start_intervals:
  "distinct is \<Longrightarrow> intervals (fold (start_next sp) is st) =
     (\<lambda>j. if j \<in> set is then started ((intervals st j)\<lparr>parent_speed := sp\<rparr>) else intervals st j)"
  by (induction "is" arbitrary: st) (auto simp: frame_simps fun_eq_iff)

text \<open>Fields that neither the happening nor the disposal of an event changes.\<close>

lemma exclusive_running [simp]:
  "exclusive (add_running i st) = exclusive st" "exclusive (erase_running i st) = exclusive st"
  by (simp_all add: add_running_def erase_running_def)

lemma exclusive_folds [simp]:
  "exclusive (fold stop_previous is st) = exclusive st" "exclusive (fold (start_next sp) is st) = exclusive st"
  by (induction "is" arbitrary: st) (simp_all add: stop_previous_def start_next_def frame_simps)

text \<open>C6: after an event has happened its status is \<open>HAPPENED\<close> and \<open>FINISHED\<close> and no other event has
  changed; the intervals before it are stopped and no longer among the running ones; the intervals after it
  are started at their offset at the parent's speed and are among the running ones, but one whose nominal
  duration is not larger than its offset is stopped at once, and stays listed as running.\<close>

theorem make_happen_correct:
  assumes "distinct (next_intervals (events st e))"
    and "set (previous_intervals (events st e)) \<inter> set (next_intervals (events st e)) = {}"
  shows "status (events (make_happen e off tok st) e) = HAPPENED OR FINISHED
    \<and> (\<forall>f. f \<noteq> e \<longrightarrow> events (make_happen e off tok st) f = events st f)
    \<and> (\<forall>i. intervals (make_happen e off tok st) i =
         (if i \<in> set (previous_intervals (events st e)) then stopped (intervals st i)
          else if i \<in> set (next_intervals (events st e)) then started ((intervals st i)\<lparr>parent_speed := speed tok\<rparr>)
          else intervals st i))
    \<and> set (running_intervals (make_happen e off tok st)) =
        set (running_intervals st) - set (previous_intervals (events st e)) \<union> set (next_intervals (events st e))"
  using assms
  by (auto simp: make_happen_def Let_def frame_simps fold_stop_fields fold_start_events fold_start_intervals)

section \<open>Disposal\<close>

abbreviation disposed_finished :: "8 word" where
  "disposed_finished \<equiv> DISPOSED OR FINISHED"

text \<open>What a disposal may change; \<open>X\<close> are the events disposed on request and not for what is before them.\<close>

definition disposes :: "nat set \<Rightarrow> 'd::zero scenario \<Rightarrow> 'd scenario \<Rightarrow> bool" where
  "disposes X st st' \<longleftrightarrow>
     shape st' = shape st
     \<and> (\<forall>f. status (events st' f) \<in> {status (events st f), disposed_finished})
     \<and> (\<forall>i. intervals st' i \<in> {intervals st i, stopped (intervals st i)})
     \<and> set (running_intervals st') \<subseteq> set (running_intervals st)
     \<and> (\<forall>f. status (events st' f) \<noteq> status (events st f) \<longrightarrow>
          (\<forall>i \<in> set (previous_intervals (events st f)).
             intervals st' i = stopped (intervals st i) \<and> i \<notin> set (running_intervals st')
             \<and> (f \<notin> X \<longrightarrow> status (events st' (start_event (intervals st i))) \<in> {DISPOSED, disposed_finished})))"

lemma disposes_refl: "disposes X st st"
  by (simp add: disposes_def)

lemma disposesD:
  assumes "disposes X st st'"
  shows "shape st' = shape st" "status (events st' f) = status (events st f) \<or> status (events st' f) = disposed_finished"
    "intervals st' i = intervals st i \<or> intervals st' i = stopped (intervals st i)"
    "set (running_intervals st') \<subseteq> set (running_intervals st)"
    "status (events st' f) \<noteq> status (events st f) \<Longrightarrow> i \<in> set (previous_intervals (events st f)) \<Longrightarrow>
       intervals st' i = stopped (intervals st i) \<and> i \<notin> set (running_intervals st')"
    "status (events st' f) \<noteq> status (events st f) \<Longrightarrow> i \<in> set (previous_intervals (events st f)) \<Longrightarrow> f \<notin> X \<Longrightarrow>
       status (events st' (start_event (intervals st i))) \<in> {DISPOSED, disposed_finished}"
  using assms unfolding disposes_def by blast+

lemma disposes_trans:
  assumes "disposes X st st'" and "disposes X st' st''"
  shows "disposes X st st''"
  unfolding disposes_def
proof (intro conjI allI impI ballI)
  note d1 = disposesD[OF assms(1)] and d2 = disposesD[OF assms(2)]
  show "shape st'' = shape st" using d1(1) d2(1) by simp
  show "status (events st'' f) \<in> {status (events st f), disposed_finished}" for f
    using d1(2)[of f] d2(2)[of f] by auto
  show "intervals st'' i \<in> {intervals st i, stopped (intervals st i)}" for i
    using d1(3)[of i] d2(3)[of i] by auto
  show "set (running_intervals st'') \<subseteq> set (running_intervals st)" using d1(4) d2(4) by blast
  fix f i
  assume ch: "status (events st'' f) \<noteq> status (events st f)" and i: "i \<in> set (previous_intervals (events st f))"
  have i': "i \<in> set (previous_intervals (events st' f))" using i shape_fields(5)[OF d1(1)] by simp
  have sv: "start_event (intervals st' i) = start_event (intervals st i)" by (rule shape_fields(1)[OF d1(1)])
  define g where "g = start_event (intervals st i)"
  have *: "intervals st'' i = stopped (intervals st i) \<and> i \<notin> set (running_intervals st'')
    \<and> (f \<notin> X \<longrightarrow> status (events st'' g) \<in> {DISPOSED, disposed_finished})"
  proof (cases "status (events st' f) = status (events st f)")
    case True
    then show ?thesis using d2(5)[of f i] d2(6)[of f i] d1(3)[of i] ch i' sv by (auto simp: g_def)
  next
    case False
    have "status (events st'' g) \<in> {DISPOSED, disposed_finished}" if "f \<notin> X"
      using d1(6)[OF False i that] d2(2)[of g] by (auto simp: g_def)
    then show ?thesis using d1(5)[OF False i] d2(3)[of i] d2(4) by auto
  qed
  show "intervals st'' i = stopped (intervals st i)" "i \<notin> set (running_intervals st'')" using * by simp_all
  show "status (events st'' (start_event (intervals st i))) \<in> {DISPOSED, disposed_finished}" if "f \<notin> X"
    using * that by (simp add: g_def)
qed

lemma disposes_mono: "disposes X st st' \<Longrightarrow> X \<subseteq> Y \<Longrightarrow> disposes Y st st'"
  unfolding disposes_def by blast

text \<open>An event disposed because everything before it is.\<close>

lemma disposes_forced:
  assumes "disposes {f} st st'" and "all_starts_disposed f st"
  shows "disposes {} st st'"
proof -
  have "status (events st' (start_event (intervals st i))) \<in> {DISPOSED, disposed_finished}"
    if "i \<in> set (previous_intervals (events st f))" for i
    using assms that unfolding disposes_def all_starts_disposed_def list_all_iff by (metis insert_iff singletonD)
  then show ?thesis using assms(1) unfolding disposes_def by blast
qed

lemma dispose_self:
  assumes "st1 = fold stop_previous (previous_intervals (events st e)) (set_event e (\<lambda>v. v\<lparr>status := DISPOSED\<rparr>) st)"
    and "disposes {} st1 st2"
  shows "disposes {e} st (mark_finished e (event_notify e st2)) \<and> status (events (mark_finished e (event_notify e st2)) e) = disposed_finished"
proof -
  let ?st' = "mark_finished e (event_notify e st2)"
  have f1: "events st1 = (events st)(e := (events st e)\<lparr>status := DISPOSED\<rparr>)"
    "intervals st1 = (\<lambda>j. if j \<in> set (previous_intervals (events st e)) then stopped (intervals st j) else intervals st j)"
    "syncs st1 = syncs st"
    "set (running_intervals st1) = set (running_intervals st) - set (previous_intervals (events st e))"
    by (simp_all add: assms(1) fold_stop_fields frame_simps cong: if_cong)
  have sh1: "shape st1 = shape st" by (auto simp: shape_def f1 fun_eq_iff)
  note d = disposesD[OF assms(2)]
  have sh2: "shape st2 = shape st" using d(1) sh1 by simp
  have f2: "intervals ?st' = intervals st2" "running_intervals ?st' = running_intervals st2"
    "status (events ?st' f) = (if f = e then disposed_finished else status (events st2 f))" for f
  proof -
    have "status (events st2 e) \<in> {DISPOSED, disposed_finished}" using d(2)[of e] by (auto simp: f1)
    then have "status (events st2 e) OR FINISHED = disposed_finished" by (auto simp: or.assoc)
    then show "intervals ?st' = intervals st2" "running_intervals ?st' = running_intervals st2"
      "status (events ?st' f) = (if f = e then disposed_finished else status (events st2 f))"
      by (simp_all add: frame_simps)
  qed
  have st1_status: "status (events st1 f) = (if f = e then DISPOSED else status (events st f))" for f
    by (simp add: f1)
  have "disposes {e} st ?st'"
    unfolding disposes_def
  proof (intro conjI allI impI ballI)
    show "shape ?st' = shape st" using sh2 by (auto simp: shape_def frame_simps fun_eq_iff)
    show "status (events ?st' f) \<in> {status (events st f), disposed_finished}" for f
      using d(2)[of f] st1_status[of f] by (auto simp: f2)
    show "intervals ?st' i \<in> {intervals st i, stopped (intervals st i)}" for i
      using d(3)[of i] by (auto simp: f2 f1 split: if_splits)
    show "set (running_intervals ?st') \<subseteq> set (running_intervals st)" using d(4) by (auto simp: f2 f1)
  next
    fix f i
    assume ch: "status (events ?st' f) \<noteq> status (events st f)" and i: "i \<in> set (previous_intervals (events st f))"
    have prev: "previous_intervals (events st1 f) = previous_intervals (events st f)" and
      strt: "start_event (intervals st1 i) = start_event (intervals st i)"
      using shape_fields[OF sh1] by simp_all
    consider "f = e" | "f \<noteq> e" "status (events st2 f) \<noteq> status (events st1 f)"
      using ch by (auto simp: f2 st1_status split: if_splits)
    then have *: "intervals st2 i = stopped (intervals st i) \<and> i \<notin> set (running_intervals st2)
        \<and> (f \<noteq> e \<longrightarrow> status (events st2 (start_event (intervals st i))) \<in> {DISPOSED, disposed_finished})"
    proof cases
      case 1
      then have "intervals st1 i = stopped (intervals st i)" "i \<notin> set (running_intervals st1)" using i by (auto simp: f1)
      then show ?thesis using d(3)[of i] d(4) 1 by auto
    next
      case 2
      then have "intervals st2 i = stopped (intervals st1 i) \<and> i \<notin> set (running_intervals st2)
          \<and> status (events st2 (start_event (intervals st1 i))) \<in> {DISPOSED, disposed_finished}"
        using d(5)[OF 2(2), of i] d(6)[OF 2(2), of i] i prev by simp
      then show ?thesis by (auto simp: f1 strt split: if_splits)
    qed
    show "intervals ?st' i = stopped (intervals st i)" "i \<notin> set (running_intervals ?st')" using * by (simp_all add: f2)
    show "status (events ?st' (start_event (intervals st i))) \<in> {DISPOSED, disposed_finished}" if "f \<notin> {e}"
      using * that by (auto simp: f2)
  qed
  then show ?thesis using f2(3)[of e] by simp
qed

lemma make_dispose_disposes:
  "make_dispose n e st = Done st' \<Longrightarrow> disposes {e} st st' \<and> status (events st' e) = disposed_finished"
proof (induction n arbitrary: e st st')
  case (Suc n)
  define st1 where "st1 = fold stop_previous (previous_intervals (events st e)) (set_event e (\<lambda>v. v\<lparr>status := DISPOSED\<rparr>) st)"
  let ?sub = "\<lambda>i (st :: 'a scenario). let f = end_event (intervals st i)
      in if all_starts_disposed f st \<and> \<not> graphal (intervals st i) then make_dispose n f st else Done st"
  obtain st2 where each: "each ?sub (next_intervals (events st1 e)) st1 = Done st2"
    and st': "st' = mark_finished e (event_notify e st2)"
    using Suc.prems
    by (auto simp: make_dispose.simps(2) Let_def st1_def and_then_eq_Done frame_simps split: if_splits)
  have sub: "disposes {} s s'" if "?sub i s = Done s'" for i s s'
    using that Suc.IH[THEN conjunct1, THEN disposes_forced] by (auto simp: Let_def disposes_refl split: if_splits)
  have "disposes {} st1 st2"
    by (rule each_invariant[where P = "disposes {} st1", OF _ disposes_refl each]) (blast intro: disposes_trans sub)
  then show ?case using dispose_self[OF st1_def] st' by simp
qed simp

section \<open>What a disposal reaches\<close>

text \<open>
  An event is closed when each way into it starts at an event that is disposed already or being disposed, which the
  events of \<open>S\<close> are. A disposal reaches the event itself and what the disposal of the closed ends of the
  intervals after it reaches.
\<close>

definition ways_closed :: "'d scenario \<Rightarrow> nat set \<Rightarrow> nat \<Rightarrow> bool" where
  "ways_closed st S f \<longleftrightarrow> (\<forall>j \<in> set (previous_intervals (events st f)).
     start_event (intervals st j) \<in> S \<or> status (events st (start_event (intervals st j))) = DISPOSED)"

inductive doomed :: "'d scenario \<Rightarrow> nat set \<Rightarrow> nat \<Rightarrow> nat \<Rightarrow> bool" for st where
  doomed_self: "doomed st S e e"
| doomed_next: "i \<in> set (next_intervals (events st e)) \<Longrightarrow> \<not> graphal (intervals st i) \<Longrightarrow>
    ways_closed st (insert e S) (end_event (intervals st i)) \<Longrightarrow>
    doomed st (insert e S) (end_event (intervals st i)) f \<Longrightarrow> doomed st S e f"

inductive_simps doomed_iff: "doomed st S e f"

text \<open>The effect on all events of a set: they are disposed and finished, and the intervals before them are stopped.\<close>

definition disposed_all :: "'d::zero scenario \<Rightarrow> nat set \<Rightarrow> 'd scenario \<Rightarrow> 'd scenario \<Rightarrow> bool" where
  "disposed_all st D s s' \<longleftrightarrow>
     shape s' = shape s \<and> syncs s' = syncs s \<and> exclusive s' = exclusive s
     \<and> (\<forall>f. events s' f = (if f \<in> D then (events s f)\<lparr>status := disposed_finished\<rparr> else events s f))
     \<and> (\<forall>i. intervals s' i = (if \<exists>f \<in> D. i \<in> set (previous_intervals (events st f)) then stopped (intervals s i) else intervals s i))
     \<and> set (running_intervals s') = set (running_intervals s) - (\<Union>f \<in> D. set (previous_intervals (events st f)))"

lemma disposed_all_refl: "disposed_all st {} s s"
  by (simp add: disposed_all_def)

lemma disposed_all_trans: "disposed_all st D s s' \<Longrightarrow> disposed_all st E s' s'' \<Longrightarrow> disposed_all st (D \<union> E) s s''"
  by (auto simp: disposed_all_def)

definition disposal_result :: "'d::zero scenario \<Rightarrow> nat set \<Rightarrow> 'd scenario \<Rightarrow> (sc_error, 'd scenario) outcome \<Rightarrow> bool" where
  "disposal_result st D s r \<longleftrightarrow>
     (if \<exists>f \<in> D. status (events st f) = HAPPENED then r = Throw Execution_error
      else \<exists>s'. r = Done s' \<and> disposed_all st D s s')"

text \<open>The state in the course of a disposal: the events of \<open>S\<close> are marked, and those that were reached before are finished.\<close>

definition midway :: "'d::zero scenario \<Rightarrow> nat set \<Rightarrow> 'd scenario \<Rightarrow> bool" where
  "midway st S s \<longleftrightarrow>
     shape s = shape st
     \<and> (\<forall>g. status (events s g) = DISPOSED \<longleftrightarrow> g \<in> S \<or> status (events st g) = DISPOSED)
     \<and> (\<forall>g. status (events s g) = HAPPENED \<longleftrightarrow> status (events st g) = HAPPENED)"

lemma status_codes [simp]:
  "disposed_finished \<noteq> DISPOSED" "disposed_finished \<noteq> HAPPENED" "DISPOSED \<noteq> HAPPENED" "HAPPENED \<noteq> DISPOSED"
  by (simp_all add: DISPOSED_def FINISHED_def HAPPENED_def)

lemma midway_closed: "midway st S s \<Longrightarrow> all_starts_disposed f s \<longleftrightarrow> ways_closed st S f"
  using shape_fields[of s st] by (simp add: midway_def all_starts_disposed_def ways_closed_def list_all_iff)

lemma midway_disposed:
  assumes "midway st S s" "disposed_all st D s s'" "\<forall>f \<in> D. f \<notin> S \<and> status (events st f) \<noteq> DISPOSED \<and> status (events st f) \<noteq> HAPPENED"
  shows "midway st S s'"
  using assms by (auto simp: midway_def disposed_all_def)

definition falling :: "(nat \<Rightarrow> nat) \<Rightarrow> 'd scenario \<Rightarrow> bool" where
  "falling rank st \<longleftrightarrow> (\<forall>e. \<forall>i \<in> set (next_intervals (events st e)). \<not> graphal (intervals st i) \<longrightarrow>
     rank (end_event (intervals st i)) < rank e)"

lemma doomed_rank: "doomed st S e f \<Longrightarrow> falling rank st \<Longrightarrow> rank f \<le> rank e"
  by (induction rule: doomed.induct) (fastforce simp: falling_def)+

definition reached_by :: "'d scenario \<Rightarrow> nat set \<Rightarrow> nat list \<Rightarrow> nat set" where
  "reached_by st S is = {f. \<exists>i \<in> set is. \<not> graphal (intervals st i) \<and> ways_closed st S (end_event (intervals st i))
     \<and> doomed st S (end_event (intervals st i)) f}"

lemma reached_by_simps: "reached_by st S [] = {}"
  "reached_by st S (i # is) = reached_by st S [i] \<union> reached_by st S is"
  by (auto simp: reached_by_def)

lemma doomed_insert: "{f. doomed st S e f} = insert e (reached_by st (insert e S) (next_intervals (events st e)))"
  by (auto simp: reached_by_def doomed_iff[of st S e])

definition dispose_next :: "nat \<Rightarrow> nat \<Rightarrow> 'd::zero step" where
  "dispose_next n i st =
     (let f = end_event (intervals st i) in if all_starts_disposed f st \<and> \<not> graphal (intervals st i) then make_dispose n f st else Done st)"

lemma dispose_next_all:
  assumes sub: "\<And>i t. i \<in> set is \<Longrightarrow> midway st S t \<Longrightarrow> disposal_result st (reached_by st S [i]) t (dispose_next n i t)"
    and new: "\<forall>f \<in> reached_by st S is. f \<notin> S \<and> status (events st f) \<noteq> DISPOSED"
  shows "midway st S t \<Longrightarrow> disposal_result st (reached_by st S is) t (each (dispose_next n) is t)"
  using sub new
proof (induction "is" arbitrary: t)
  case Nil
  show ?case using disposed_all_refl by (simp add: disposal_result_def reached_by_simps)
next
  case (Cons i js)
  note split = reached_by_simps(2)[of st S i js]
  have first: "disposal_result st (reached_by st S [i]) t (dispose_next n i t)" using Cons.prems by simp
  show ?case
  proof (cases "\<exists>f \<in> reached_by st S [i]. status (events st f) = HAPPENED")
    case True
    then have "dispose_next n i t = Throw Execution_error" using first by (simp add: disposal_result_def)
    moreover have "\<exists>f \<in> reached_by st S (i # js). status (events st f) = HAPPENED" using True by (auto simp: split)
    ultimately show ?thesis by (simp add: disposal_result_def)
  next
    case False
    then obtain t' where t': "dispose_next n i t = Done t'" "disposed_all st (reached_by st S [i]) t t'"
      using first by (auto simp: disposal_result_def)
    have "midway st S t'"
      by (rule midway_disposed[OF Cons.prems(1) t'(2)]) (use False Cons.prems(3) in \<open>auto simp: split\<close>)
    then have "disposal_result st (reached_by st S js) t' (each (dispose_next n) js t')"
      using Cons by (auto simp: split)
    then show ?thesis
      using False t'(1) disposed_all_trans[OF t'(2)]
      by (cases "\<exists>f \<in> reached_by st S js. status (events st f) = HAPPENED") (auto simp: disposal_result_def split)
  qed
qed

lemma make_dispose_result:
  fixes st :: "'a::zero scenario"
  assumes rank: "falling rank st"
  shows "rank e < n \<Longrightarrow> midway st S s \<Longrightarrow> \<forall>g \<in> S. rank e < rank g \<Longrightarrow> \<forall>f. doomed st S e f \<longrightarrow> status (events st f) \<noteq> DISPOSED \<Longrightarrow>
    disposal_result st {f. doomed st S e f} s (make_dispose n e s)"
proof (induction n arbitrary: e S s)
  case (Suc n)
  let ?S = "insert e S" and ?D = "reached_by st (insert e S) (next_intervals (events st e))"
  define s1 where "s1 = fold stop_previous (previous_intervals (events s e)) (set_event e (\<lambda>v. v\<lparr>status := DISPOSED\<rparr>) s)"
  have run: "make_dispose (Suc n) e s = (if status (events s e) = HAPPENED then Throw Execution_error
      else and_then (each (dispose_next n) (next_intervals (events s1 e)) s1) (\<lambda>s2. Done (mark_finished e (event_notify e s2))))"
    by (simp add: make_dispose.simps(2) Let_def s1_def frame_simps dispose_next_def[abs_def])
  have sh: "shape s = shape st" using Suc.prems(2) by (simp add: midway_def)
  note shs = shape_fields[OF sh]
  have s1: "events s1 = (events s)(e := (events s e)\<lparr>status := DISPOSED\<rparr>)" "shape s1 = shape st"
    "syncs s1 = syncs s" "exclusive s1 = exclusive s"
    "intervals s1 = (\<lambda>i. if i \<in> set (previous_intervals (events st e)) then stopped (intervals s i) else intervals s i)"
    "set (running_intervals s1) = set (running_intervals s) - set (previous_intervals (events st e))"
    using sh by (auto simp: s1_def fold_stop_fields frame_simps shape_def fun_eq_iff shs cong: if_cong)
  have self: "doomed st S e e" by (rule doomed_self)
  show ?case
  proof (cases "status (events st e) = HAPPENED")
    case True
    then have "make_dispose (Suc n) e s = Throw Execution_error" using Suc.prems(2) run by (simp add: midway_def)
    then show ?thesis using True self by (auto simp: disposal_result_def)
  next
    case False
    have mid: "midway st ?S s1" using Suc.prems(2) False s1 by (auto simp: midway_def)
    have less: "rank f < rank e" if f: "f \<in> ?D" for f
    proof -
      obtain i where i: "i \<in> set (next_intervals (events st e))" "\<not> graphal (intervals st i)"
        "doomed st ?S (end_event (intervals st i)) f" using f unfolding reached_by_def by blast
      then show ?thesis using doomed_rank[OF i(3) rank] rank unfolding falling_def by fastforce
    qed
    have new: "\<forall>f \<in> ?D. f \<notin> ?S \<and> status (events st f) \<noteq> DISPOSED"
      using less Suc.prems(3,4) doomed_insert[of st S e] by fastforce
    have "disposal_result st (reached_by st ?S [i]) t (dispose_next n i t)"
      if i: "i \<in> set (next_intervals (events st e))" and t: "midway st ?S t" for i t
    proof -
      have it: "graphal (intervals t i) = graphal (intervals st i)" "end_event (intervals t i) = end_event (intervals st i)"
        using t shape_fields[of t st] by (simp_all add: midway_def)
      show ?thesis
      proof (cases "ways_closed st ?S (end_event (intervals st i)) \<and> \<not> graphal (intervals st i)")
        case True
        then have "rank (end_event (intervals st i)) < rank e" using rank i by (simp add: falling_def)
        moreover have "\<forall>f. doomed st ?S (end_event (intervals st i)) f \<longrightarrow> status (events st f) \<noteq> DISPOSED"
          using True i Suc.prems(4) doomed_next by blast
        ultimately have "disposal_result st {f. doomed st ?S (end_event (intervals st i)) f} t (make_dispose n (end_event (intervals st i)) t)"
          using Suc.prems(1,3) by (intro Suc.IH t) auto
        then show ?thesis using True by (simp add: dispose_next_def Let_def it midway_closed[OF t] reached_by_def)
      next
        case False
        then have "reached_by st ?S [i] = {}" by (auto simp: reached_by_def)
        then show ?thesis using False disposed_all_refl
          by (auto simp: dispose_next_def Let_def it midway_closed[OF t] disposal_result_def)
      qed
    qed
    from dispose_next_all[OF this new mid]
    have rest: "disposal_result st ?D s1 (each (dispose_next n) (next_intervals (events s1 e)) s1)"
      using shape_fields(6)[OF s1(2)] by simp
    have happened: "(\<exists>f \<in> {f. doomed st S e f}. status (events st f) = HAPPENED) \<longleftrightarrow> (\<exists>f \<in> ?D. status (events st f) = HAPPENED)"
      using False by (simp only: doomed_insert) simp
    have not_yet: "status (events s e) \<noteq> HAPPENED" using False Suc.prems(2) by (simp add: midway_def)
    show ?thesis
    proof (cases "\<exists>f \<in> ?D. status (events st f) = HAPPENED")
      case True
      then show ?thesis using rest not_yet unfolding disposal_result_def happened run by simp
    next
      case none: False
      then obtain s2 where s2: "each (dispose_next n) (next_intervals (events s1 e)) s1 = Done s2" "disposed_all st ?D s1 s2"
        using rest by (auto simp: disposal_result_def)
      have e: "e \<notin> ?D" using new by blast
      then have "events s2 e = (events s e)\<lparr>status := DISPOSED\<rparr>" using s2(2) s1(1) by (simp add: disposed_all_def)
      then have "disposed_all st (insert e ?D) s (mark_finished e (event_notify e s2))"
        using s2(2) s1 sh by (auto simp: disposed_all_def frame_simps shape_def fun_eq_iff mark_finished_def)
      then show ?thesis using none False not_yet s2(1) unfolding disposal_result_def happened run doomed_insert by simp
    qed
  qed
qed simp

text \<open>C5: on a graph whose intervals that are not graphal lead to events of smaller rank, with more fuel than the
  rank of the event, a disposal always returns. It reaches the event and, from each event it reaches, the ends of the
  intervals after it that are not graphal and whose every other way in starts at an event that is disposed or on the
  way that led there. When one of these has happened, it throws; otherwise all of them are disposed and finished
  and no other event has changed; the intervals before them are stopped and no longer among the running ones, every
  other interval is as it was, and so is the graph. No event it reaches is taken to be marked as disposed without being finished.\<close>

theorem make_dispose_correct:
  assumes "falling rank st" and "rank e < n"
    and "\<forall>f. doomed st {} e f \<longrightarrow> status (events st f) \<noteq> DISPOSED"
  shows "if \<exists>f. doomed st {} e f \<and> status (events st f) = HAPPENED
    then make_dispose n e st = Throw Execution_error
    else \<exists>st'. make_dispose n e st = Done st' \<and> shape st' = shape st
      \<and> (\<forall>f. events st' f = (if doomed st {} e f then (events st f)\<lparr>status := disposed_finished\<rparr> else events st f))
      \<and> (\<forall>i. intervals st' i = (if \<exists>f. doomed st {} e f \<and> i \<in> set (previous_intervals (events st f))
            then stopped (intervals st i) else intervals st i))
      \<and> set (running_intervals st') =
          set (running_intervals st) - {i. \<exists>f. doomed st {} e f \<and> i \<in> set (previous_intervals (events st f))}"
proof -
  have "midway st {} st" by (simp add: midway_def)
  then have result: "disposal_result st {f. doomed st {} e f} st (make_dispose n e st)"
    using assms(3) by (intro make_dispose_result[OF assms(1,2)]) auto
  show ?thesis
  proof (cases "\<exists>f. doomed st {} e f \<and> status (events st f) = HAPPENED")
    case False
    then obtain st' where "make_dispose n e st = Done st'" "disposed_all st {f. doomed st {} e f} st st'"
      using result by (auto simp: disposal_result_def)
    then show ?thesis using False by (simp add: disposed_all_def) blast
  qed (use result in \<open>simp add: disposal_result_def\<close>)
qed

section \<open>Forward graphs\<close>

text \<open>A rank of the syncs, at most \<open>N\<close>, that grows along every interval.\<close>

definition forward_graph :: "(nat \<Rightarrow> nat) \<Rightarrow> nat \<Rightarrow> 'd scenario \<Rightarrow> bool" where
  "forward_graph \<rho> N st \<longleftrightarrow>
     (\<forall>s. \<rho> s \<le> N)
     \<and> (\<forall>e. \<forall>i \<in> set (next_intervals (events st e)). \<rho> (time_sync_of (events st e)) < \<rho> (sync_of_end st i))
     \<and> (\<forall>s. \<forall>e \<in> set (time_events (syncs st s)). time_sync_of (events st e) = s)"

lemma forward_graph_shape:
  assumes "shape st' = shape st"
  shows "forward_graph \<rho> N st' = forward_graph \<rho> N st"
  by (simp add: forward_graph_def sync_of_end_def shape_fields[OF assms])

lemma forward_falling: "forward_graph \<rho> N st \<Longrightarrow> falling (\<lambda>e. N - \<rho> (time_sync_of (events st e))) st"
  unfolding forward_graph_def falling_def sync_of_end_def by (metis diff_less_mono2 order_less_le_trans)

text \<open>The intervals an event lists start or end there.\<close>

definition consistent :: "'d scenario \<Rightarrow> bool" where
  "consistent st \<longleftrightarrow> (\<forall>e. (\<forall>i \<in> set (previous_intervals (events st e)). end_event (intervals st i) = e)
     \<and> (\<forall>i \<in> set (next_intervals (events st e)). start_event (intervals st i) = e))"

lemma doomed_cong:
  assumes "events s = events st" "intervals s = intervals st"
  shows "doomed s S e f \<longleftrightarrow> doomed st S e f"
proof -
  have "doomed v S e f" if "doomed u S e f" "events v = events u" "intervals v = intervals u" for u v :: "'a scenario"
    using that by (induction rule: doomed.induct) (auto simp: ways_closed_def intro: doomed.intros)
  from this[of s st] this[of st s] show ?thesis using assms by auto
qed

lemma doomed_closed:
  "doomed st S e f \<Longrightarrow> f = e \<or> (\<exists>S'. ways_closed st S' f \<and> S' \<subseteq> S \<union> {g. doomed st S e g})"
proof (induction rule: doomed.induct)
  case (doomed_next i e S f)
  have up: "doomed st S e g" if "doomed st (insert e S) (end_event (intervals st i)) g" for g
    by (rule doomed.doomed_next[OF doomed_next(1-3) that])
  consider "f = end_event (intervals st i)"
    | S' where "ways_closed st S' f" "S' \<subseteq> insert e S \<union> {g. doomed st (insert e S) (end_event (intervals st i)) g}"
    using doomed_next.IH by auto
  then show ?case
  proof cases
    case 1
    then show ?thesis using doomed_next(3) doomed_self by (intro disjI2 exI[of _ "insert e S"]) auto
  next
    case 2
    have "S' \<subseteq> S \<union> {g. doomed st S e g}" using 2(2) up doomed_self[of st S e] by blast
    then show ?thesis using 2(1) by blast
  qed
qed simp

section \<open>Two ways into one event\<close>

lemma dispose_leaf:
  assumes "status (events st e) \<noteq> HAPPENED" and "next_intervals (events st e) = [i]"
    and "end_event (intervals st i) = f"
    and "j \<in> set (previous_intervals (events st f))" and "start_event (intervals st j) = g"
    and "g \<noteq> e" and "status (events st g) \<noteq> DISPOSED" and "f \<noteq> e"
  shows "\<exists>st'. make_dispose (Suc n) e st = Done st' \<and> (\<forall>x. x \<noteq> e \<longrightarrow> events st' x = events st x)
    \<and> status (events st' e) = disposed_finished \<and> shape st' = shape st"
proof -
  define st1 where "st1 = fold stop_previous (previous_intervals (events st e)) (set_event e (\<lambda>v. v\<lparr>status := DISPOSED\<rparr>) st)"
  have ev: "events st1 = (events st)(e := (events st e)\<lparr>status := DISPOSED\<rparr>)" and sy: "syncs st1 = syncs st"
    and iv: "start_event (intervals st1 x) = start_event (intervals st x)" "end_event (intervals st1 x) = end_event (intervals st x)"
      "graphal (intervals st1 x) = graphal (intervals st x)" for x
    by (simp_all add: st1_def fold_stop_fields frame_simps)
  have "\<not> all_starts_disposed f st1"
    using assms(4-8) by (auto simp: all_starts_disposed_def list_all_iff ev iv)
  then have "make_dispose (Suc n) e st = Done (mark_finished e (event_notify e st1))"
    using assms(1-3) by (simp add: make_dispose.simps(2) Let_def st1_def[symmetric] frame_simps iv ev)
  moreover have "shape (mark_finished e (event_notify e st1)) = shape st"
    by (auto simp: shape_def frame_simps ev sy iv fun_eq_iff)
  ultimately show ?thesis by (auto simp: frame_simps ev)
qed

text \<open>when two events lead to a third one and are disposed one after the other, the third is never
  disposed: the status of an event whose disposal is finished is not \<open>DISPOSED\<close> any more, so that the second
  disposal does not see that both ways are closed.\<close>

theorem second_disposal_misses_join:
  assumes "distinct [g, e, f]" and "status (events st g) \<noteq> HAPPENED" and "status (events st e) \<notin> {HAPPENED, DISPOSED}"
    and "next_intervals (events st g) = [j]" and "next_intervals (events st e) = [i]"
    and "end_event (intervals st i) = f" and "end_event (intervals st j) = f"
    and "start_event (intervals st i) = e" and "start_event (intervals st j) = g"
    and "set (previous_intervals (events st f)) = {i, j}"
  shows "\<exists>st1 st2. make_dispose (Suc m) g st = Done st1 \<and> make_dispose (Suc n) e st1 = Done st2
    \<and> status (events st2 g) = disposed_finished \<and> status (events st2 e) = disposed_finished
    \<and> events st2 f = events st f"
proof -
  obtain st1 where 1: "make_dispose (Suc m) g st = Done st1" "\<And>x. x \<noteq> g \<Longrightarrow> events st1 x = events st x"
      "status (events st1 g) = disposed_finished" "shape st1 = shape st"
    using dispose_leaf[of st g j f i e m] assms by auto
  note sh = shape_fields[OF 1(4)]
  have "status (events st1 g) \<noteq> DISPOSED" by (simp add: 1(3) DISPOSED_def FINISHED_def)
  then obtain st2 where 2: "make_dispose (Suc n) e st1 = Done st2" "\<And>x. x \<noteq> e \<Longrightarrow> events st2 x = events st1 x"
      "status (events st2 e) = disposed_finished"
    using dispose_leaf[of st1 e i f j g n] assms 1(2)[of e] by (auto simp: sh)
  then show ?thesis using 1 assms(1) by auto
qed

section \<open>Termination\<close>

text \<open>on a graph whose intervals that are not graphal lead to events of smaller rank, a disposal never
  runs out of as much fuel as the rank of the event, plus one.\<close>

theorem make_dispose_returns:
  fixes st :: "'a::zero scenario"
  assumes "\<And>e i. i \<in> set (next_intervals (events st e)) \<Longrightarrow> \<not> graphal (intervals st i) \<Longrightarrow>
      rank (end_event (intervals st i)) < (rank e :: nat)"
    and "rank e < n"
  shows "make_dispose n e st \<noteq> Diverge"
proof -
  have "shape s = shape st \<Longrightarrow> rank e < n \<Longrightarrow> make_dispose n e s \<noteq> Diverge" for s :: "'a scenario"
  proof (induction n arbitrary: e s)
    case (Suc n)
    define s1 where "s1 = fold stop_previous (previous_intervals (events s e)) (set_event e (\<lambda>v. v\<lparr>status := DISPOSED\<rparr>) s)"
    let ?sub = "\<lambda>i (st :: 'a scenario). let f = end_event (intervals st i)
      in if all_starts_disposed f st \<and> \<not> graphal (intervals st i) then make_dispose n f st else Done st"
    have sh1: "shape s1 = shape st"
      using Suc.prems(1) by (auto simp: s1_def shape_def fold_stop_fields frame_simps fun_eq_iff)
    have "each ?sub is t \<noteq> Diverge" if "set is \<subseteq> set (next_intervals (events st e))" "shape t = shape st" for "is" and t :: "'a scenario"
      using that
    proof (induction "is" arbitrary: t)
      case (Cons i js)
      note sh = shape_fields[OF Cons.prems(2)]
      have ne: "?sub i t \<noteq> Diverge"
        using Suc.IH[OF Cons.prems(2)] assms(1)[of i e] Cons.prems(1) Suc.prems(2) by (auto simp: Let_def sh)
      show ?case
      proof (cases "?sub i t")
        case (Done t')
        then have "shape t' = shape t"
          using make_dispose_disposes disposesD(1) by (auto simp: Let_def split: if_splits) blast
        then show ?thesis using Done Cons by simp
      qed (use ne in simp_all)
    qed simp
    moreover have "next_intervals (events s1 e) = next_intervals (events st e)" using shape_fields(6)[OF sh1] .
    ultimately have "each ?sub (next_intervals (events s1 e)) s1 \<noteq> Diverge" using sh1 by simp
    then show ?case
      by (auto simp: make_dispose.simps(2) Let_def s1_def frame_simps and_then_def split: outcome.split)
  qed simp
  then show ?thesis using assms(2) by blast
qed

text \<open>an interval that is not graphal and leads from an event back to itself, the only way into it,
  makes its disposal recurse for ever.\<close>

theorem make_dispose_loop:
  assumes "next_intervals (events st e) = [i]" and "previous_intervals (events st e) = [i]"
    and "start_event (intervals st i) = e" and "end_event (intervals st i) = e" and "\<not> graphal (intervals st i)"
    and "status (events st e) \<noteq> HAPPENED"
  shows "make_dispose n e st = Diverge"
  using assms
proof (induction n arbitrary: st)
  case (Suc n)
  define st1 where "st1 = stop_previous i (set_event e (\<lambda>v. v\<lparr>status := DISPOSED\<rparr>) st)"
  have "make_dispose n e st1 = Diverge"
    using Suc.prems by (intro Suc.IH) (simp_all add: st1_def frame_simps DISPOSED_def HAPPENED_def)
  moreover have "all_starts_disposed e st1"
    using Suc.prems by (simp add: all_starts_disposed_def st1_def frame_simps)
  ultimately show ?case
    using Suc.prems by (simp add: make_dispose.simps(2) Let_def st1_def frame_simps)
qed simp

section \<open>Examples\<close>

definition demo_itv :: "nat \<Rightarrow> nat \<Rightarrow> rat time_interval" where
  "demo_itv a b = demo_interval\<lparr>start_event := a, end_event := b\<rparr>"

definition demo_event :: "nat \<Rightarrow> nat list \<Rightarrow> nat list \<Rightarrow> time_event" where
  "demo_event s prev nexts =
     \<lparr>time_sync_of = s, status = NONE, offset_behavior = EXPRESSION_TRUE, ev_expression = Constant True, ev_callback = False,
      ev_processes = [], previous_intervals = prev, next_intervals = nexts\<rparr>"

definition demo_sync :: "bool \<Rightarrow> nat list \<Rightarrow> rat time_sync" where
  "demo_sync start evs =
     \<lparr>sync_expression = Some (Constant True), time_events = evs, has_callback = False, sync_rate = 0, trigger_request = False,
      trigger_date = Infinite, sync_done = NOT_DONE, is_start = start, observing = False, evaluating = False,
      sync_muted = False, autotrigger = False, being_triggered = False\<rparr>"

definition demo_store ::
    "(nat \<Rightarrow> rat time_interval) \<Rightarrow> (nat \<Rightarrow> time_event) \<Rightarrow> (nat \<Rightarrow> rat time_sync) \<Rightarrow> nat list \<Rightarrow> nat list \<Rightarrow> rat scenario" where
  "demo_store is es ss il nl =
     \<lparr>intervals = is, events = es, syncs = ss, processes = (\<lambda>_. \<lparr>enabled = True, unmuted = True\<rparr>), scenario_intervals = il,
      nodes_list = nl, running_intervals = il, waiting_nodes = [], root_nodes = [], pending_events = [], max_reached_events = [],
      overticks = (\<lambda>_. None), itv_end_map = (\<lambda>_. None), offset_durations = [], retry_syncs = [], end_nodes = [],
      backward_overticks = (\<lambda>_. None), start_nodes = [], itv_to_start = [],
      itv_to_stop = [], last_date = Infinite, exclusive = False, muted = False, calls = []\<rparr>"

text \<open>Two events, 0 and 1, that lead to the event 2; and an event that leads to itself.\<close>

definition demo_join :: "rat scenario" where
  "demo_join = demo_store (\<lambda>i. if i = 0 then demo_itv 0 2 else demo_itv 1 2)
     (\<lambda>e. if e = 0 then demo_event 0 [] [0] else if e = 1 then demo_event 1 [] [1] else demo_event 2 [0, 1] [])
     (\<lambda>s. demo_sync (s < 2) [s]) [0, 1] [0, 1, 2]"

definition demo_cycle :: "rat scenario" where
  "demo_cycle = demo_store (\<lambda>i. demo_itv 0 0) (\<lambda>e. demo_event 0 [0] [0]) (\<lambda>s. demo_sync True [0]) [0] [0]"

lemmas demo_defs = demo_store_def demo_event_def demo_sync_def demo_itv_def demo_interval_def demo_join_def demo_cycle_def

definition demo_token :: "rat token_request" where
  "demo_token = make_token_request 0 Zero_tv (Time_value 4) (Time_value 100) Zero_tv 1 (4, 4) 120"

lemma make_happen_correct_witness:
  "set (running_intervals (make_happen 2 Zero_tv demo_token demo_join)) = {}"
  using make_happen_correct[of demo_join 2 Zero_tv demo_token] by (simp add: demo_defs)

lemma make_dispose_correct_witness:
  "\<exists>st'. make_dispose 2 0 demo_join = Done st' \<and> status (events st' 0) = disposed_finished"
proof -
  have reached: "doomed demo_join {} 0 f \<longleftrightarrow> f = 0" for f
    by (subst doomed_iff) (auto simp: demo_defs ways_closed_def NONE_def DISPOSED_def)
  have "falling (\<lambda>e. if e = 2 then 0 else 1) demo_join" by (auto simp: falling_def demo_defs split: if_splits)
  moreover have "status (events demo_join 0) = NONE" by (simp add: demo_defs)
  ultimately show ?thesis
    using make_dispose_correct[of _ demo_join 0 2] by (force simp: reached NONE_def HAPPENED_def DISPOSED_def)
qed

lemma second_disposal_misses_join_witness:
  "\<exists>st1 st2. make_dispose 1 0 demo_join = Done st1 \<and> make_dispose 1 1 st1 = Done st2 \<and> status (events st2 2) = NONE"
proof -
  have "\<exists>st1 st2. make_dispose (Suc 0) 0 demo_join = Done st1 \<and> make_dispose (Suc 0) 1 st1 = Done st2
    \<and> status (events st2 0) = disposed_finished \<and> status (events st2 1) = disposed_finished
    \<and> events st2 2 = events demo_join 2"
    by (rule second_disposal_misses_join[of 0 1 2 demo_join 0 1])
      (auto simp: demo_defs NONE_def HAPPENED_def DISPOSED_def)
  moreover have "status (events demo_join 2) = NONE" by (simp add: demo_defs)
  ultimately show ?thesis by auto
qed

lemma make_dispose_returns_witness: "make_dispose 2 0 demo_join \<noteq> Diverge"
  by (rule make_dispose_returns[of demo_join "\<lambda>e. if e = 2 then 0 else 1"]) (auto simp: demo_defs split: if_splits)

lemma make_dispose_loop_witness: "make_dispose 1000 0 demo_cycle = Diverge"
  using make_dispose_loop[of demo_cycle 0 0 1000] by (simp add: demo_defs NONE_def HAPPENED_def)

end
