(* ===== verification/ScenarioGraph.thy ===== *)
theory ScenarioGraph
  imports ScenarioEvents
begin

text \<open>
  The components of a scenario (scenario.cpp): the syncs that intervals connect, in both directions, found
  with an explicit stack, and their resetting. The stack has its top first. The loops take fuel; as much
  as there are syncs in the component is enough (\<open>reset_component_correct\<close>).
\<close>

section \<open>Operations\<close>

definition erase_end_map :: "nat \<Rightarrow> 'd scenario \<Rightarrow> 'd scenario" where
  "erase_end_map i st = st\<lparr>itv_end_map := (itv_end_map st)(i := None)\<rparr>"

definition stop_interval :: "nat \<Rightarrow> 'd::zero scenario \<Rightarrow> 'd scenario" where
  "stop_interval i st = erase_end_map i (erase_running i (interval_stop i st))"

text \<open>One interval of the visited sync: it is stopped, and the sync at its other end is visited if it was
  not seen.\<close>

definition see :: "nat \<Rightarrow> nat list \<times> nat list \<Rightarrow> nat list \<times> nat list" where
  "see t cs = (case cs of (cache, stack) \<Rightarrow> if t \<in> set cache then (cache, stack) else (flat_insert t cache, t # stack))"

definition reset_previous :: "nat \<Rightarrow> 'd::zero scenario \<times> nat list \<times> nat list \<Rightarrow> 'd scenario \<times> nat list \<times> nat list" where
  "reset_previous i x = (case x of (st, cs) \<Rightarrow> let st' = stop_interval i st in (st', see (sync_of_start st' i) cs))"

definition reset_next :: "nat \<Rightarrow> 'd::zero scenario \<times> nat list \<times> nat list \<Rightarrow> 'd scenario \<times> nat list \<times> nat list" where
  "reset_next i x = (case x of (st, cs) \<Rightarrow> let st' = stop_interval i st in (st', see (sync_of_end st' i) cs))"

definition reset_event :: "nat \<Rightarrow> 'd::zero scenario \<times> nat list \<times> nat list \<Rightarrow> 'd scenario \<times> nat list \<times> nat list" where
  "reset_event e x =
     (let y = fold reset_previous (previous_intervals (events (fst x) e)) x
      in fold reset_next (next_intervals (events (fst y) e)) y)"

fun reset_loop :: "nat \<Rightarrow> nat list \<Rightarrow> nat list \<Rightarrow> 'd::zero step" where
  "reset_loop n cache [] st = Done st"
| "reset_loop 0 cache (s # stack) st = Diverge"
| "reset_loop (Suc n) cache (s # stack) st =
     and_then (sync_reset s st) (\<lambda>st1.
       case fold reset_event (time_events (syncs st1 s)) (st1, cache, stack) of
         (st2, cache', stack') \<Rightarrow> reset_loop n cache' stack' st2)"

definition reset_component :: "nat \<Rightarrow> nat \<Rightarrow> 'd::zero step" where
  "reset_component n s st = reset_loop n [s] [s] st"

definition collect_event :: "'d scenario \<Rightarrow> nat \<Rightarrow> nat list \<times> nat list \<Rightarrow> nat list \<times> nat list" where
  "collect_event st e cs =
     fold (\<lambda>i. see (sync_of_end st i)) (next_intervals (events st e))
       (fold (\<lambda>i. see (sync_of_start st i)) (previous_intervals (events st e)) cs)"

fun collect_loop :: "nat \<Rightarrow> nat list \<Rightarrow> nat list \<Rightarrow> 'd scenario \<Rightarrow> (sc_error, nat list) outcome" where
  "collect_loop n cache [] st = Done cache"
| "collect_loop 0 cache (s # stack) st = Diverge"
| "collect_loop (Suc n) cache (s # stack) st =
     (case fold (collect_event st) (time_events (syncs st s)) (cache, stack) of
        (cache', stack') \<Rightarrow> collect_loop n cache' stack' st)"

definition is_executing :: "nat \<Rightarrow> 'd scenario \<Rightarrow> bool" where
  "is_executing s st \<longleftrightarrow>
     being_triggered (syncs st s)
     \<or> list_ex (\<lambda>e. list_ex (\<lambda>i. is_running (intervals st i)) (previous_intervals (events st e))
          \<or> list_ex (\<lambda>i. is_running (intervals st i)) (next_intervals (events st e)))
        (time_events (syncs st s))"

definition reset_all_components_except :: "nat \<Rightarrow> nat \<Rightarrow> 'd::zero step" where
  "reset_all_components_except n s st =
     and_then (collect_loop n [s] [s] st) (\<lambda>cache.
       each (\<lambda>t st. if is_executing t st then reset_component n t st else Done st)
         (fold flat_insert (filter (\<lambda>t. t \<notin> set cache) (nodes_list st)) []) st)"

section \<open>The graph\<close>

definition sync_intervals :: "'d scenario \<Rightarrow> nat \<Rightarrow> nat set" where
  "sync_intervals st s =
     (\<Union>e \<in> set (time_events (syncs st s)). set (previous_intervals (events st e)) \<union> set (next_intervals (events st e)))"

definition neighbours :: "'d scenario \<Rightarrow> nat \<Rightarrow> nat set" where
  "neighbours st s =
     (\<Union>e \<in> set (time_events (syncs st s)).
        sync_of_start st ` set (previous_intervals (events st e)) \<union> sync_of_end st ` set (next_intervals (events st e)))"

definition component :: "'d scenario \<Rightarrow> nat \<Rightarrow> nat set" where
  "component st s = {t. (s, t) \<in> {(a, b). b \<in> neighbours st a}\<^sup>*}"

lemma shape_graph:
  assumes "shape st' = shape st"
  shows "sync_of_start st' i = sync_of_start st i" "sync_of_end st' i = sync_of_end st i"
    "sync_intervals st' s = sync_intervals st s" "neighbours st' s = neighbours st s" "component st' s = component st s"
proof -
  note f = shape_fields[OF assms]
  show a: "sync_of_start st' i = sync_of_start st i" "sync_of_end st' i = sync_of_end st i" for i
    by (simp_all add: sync_of_start_def sync_of_end_def f)
  show "sync_intervals st' s = sync_intervals st s" by (simp add: sync_intervals_def f)
  show n: "neighbours st' s = neighbours st s" for s by (simp add: neighbours_def f a)
  show "component st' s = component st s" by (simp add: component_def n)
qed

lemma component_self: "s \<in> component st s"
  by (simp add: component_def)

lemma component_step: "t \<in> component st s \<Longrightarrow> neighbours st t \<subseteq> component st s"
  by (auto simp: component_def intro: rtrancl_into_rtrancl)

lemma component_least: "s \<in> X \<Longrightarrow> (\<And>t. t \<in> X \<Longrightarrow> neighbours st t \<subseteq> X) \<Longrightarrow> component st s \<subseteq> X"
proof
  fix t assume X: "s \<in> X" "\<And>t. t \<in> X \<Longrightarrow> neighbours st t \<subseteq> X" and "t \<in> component st s"
  then have "(s, t) \<in> {(a, b). b \<in> neighbours st a}\<^sup>*" by (simp add: component_def)
  then show "t \<in> X" using X by (induction rule: rtrancl_induct) auto
qed

section \<open>The search\<close>

text \<open>What the search has seen: \<open>cache\<close>, of which \<open>stack\<close> is still to be visited.\<close>

definition seen :: "nat set \<Rightarrow> nat list \<times> nat list \<Rightarrow> nat list \<times> nat list \<Rightarrow> bool" where
  "seen T cs cs' \<longleftrightarrow>
     set (fst cs') = set (fst cs) \<union> T \<and> distinct (snd cs') \<and> set (snd cs') \<subseteq> set (fst cs')
     \<and> set (fst cs') - set (snd cs') = set (fst cs) - set (snd cs)"

definition search_ok :: "nat list \<times> nat list \<Rightarrow> bool" where
  "search_ok cs \<longleftrightarrow> distinct (snd cs) \<and> set (snd cs) \<subseteq> set (fst cs)"

lemma seen_see: "search_ok cs \<Longrightarrow> seen {t} cs (see t cs)"
  by (cases cs) (auto simp: see_def seen_def search_ok_def)

lemma seen_ok: "seen T cs cs' \<Longrightarrow> search_ok cs'"
  unfolding seen_def search_ok_def by blast

lemma seen_trans: "seen T cs cs' \<Longrightarrow> seen U cs' cs'' \<Longrightarrow> seen (T \<union> U) cs cs''"
  by (auto simp: seen_def)

lemma seen_refl: "search_ok cs \<Longrightarrow> seen {} cs cs"
  by (simp add: seen_def search_ok_def)

lemma seen_fold: "search_ok cs \<Longrightarrow> seen (f ` set xs) cs (fold (\<lambda>x. see (f x)) xs cs)"
proof (induction xs arbitrary: cs)
  case (Cons x xs)
  have "seen {f x} cs (see (f x) cs)" by (rule seen_see[OF Cons.prems])
  from seen_trans[OF this Cons.IH[OF seen_ok[OF this]]] show ?case by simp
qed (simp add: seen_refl)

lemma seen_collect_event:
  "search_ok cs \<Longrightarrow> seen (sync_of_start st ` set (previous_intervals (events st e)) \<union> sync_of_end st ` set (next_intervals (events st e)))
    cs (collect_event st e cs)"
  unfolding collect_event_def
  by (rule seen_trans[OF seen_fold seen_fold]) (auto intro: seen_ok[OF seen_fold])

lemma seen_collect_events:
  "search_ok cs \<Longrightarrow> seen (\<Union>e \<in> set es. sync_of_start st ` set (previous_intervals (events st e)) \<union> sync_of_end st ` set (next_intervals (events st e)))
    cs (fold (collect_event st) es cs)"
proof (induction es arbitrary: cs)
  case (Cons e es)
  note 1 = seen_collect_event[OF Cons.prems, of st e]
  from seen_trans[OF 1 Cons.IH[OF seen_ok[OF 1]]] show ?case by simp
qed (simp add: seen_refl)

lemma neighbours_events:
  "neighbours st s = (\<Union>e \<in> set (time_events (syncs st s)).
     sync_of_start st ` set (previous_intervals (events st e)) \<union> sync_of_end st ` set (next_intervals (events st e)))"
  by (simp add: neighbours_def)

text \<open>The loop that only collects ends with the component.\<close>

definition search_inv :: "'d scenario \<Rightarrow> nat \<Rightarrow> nat list \<times> nat list \<Rightarrow> bool" where
  "search_inv st r cs \<longleftrightarrow>
     search_ok cs \<and> r \<in> set (fst cs) \<and> set (fst cs) \<subseteq> component st r
     \<and> (\<forall>t \<in> set (fst cs) - set (snd cs). neighbours st t \<subseteq> set (fst cs))"

lemma search_inv_start: "search_inv st r ([r], [r])"
  by (simp add: search_inv_def search_ok_def component_self)

lemma search_inv_step:
  assumes "search_inv st r (cache, s # stack)"
    and "seen (neighbours st s) (cache, stack) (cache', stack')"
  shows "search_inv st r (cache', stack')"
    and "set cache' - set stack' = insert s (set cache - set (s # stack))" and "s \<in> set cache" and "s \<notin> set stack"
proof -
  have 1: "set cache' = set cache \<union> neighbours st s" "distinct stack'" "set stack' \<subseteq> set cache'"
    "set cache' - set stack' = set cache - set stack"
    using assms(2) by (auto simp: seen_def)
  have 2: "s \<in> set cache" "s \<notin> set stack" "r \<in> set cache" "set cache \<subseteq> component st r"
    "\<And>t. t \<in> set cache - set (s # stack) \<Longrightarrow> neighbours st t \<subseteq> set cache"
    using assms(1) by (auto simp: search_inv_def search_ok_def)
  show e: "set cache' - set stack' = insert s (set cache - set (s # stack))" using 1(4) 2 by auto
  show "s \<in> set cache" "s \<notin> set stack" by (rule 2)+
  have "neighbours st s \<subseteq> component st r" using component_step 2(1,4) by blast
  moreover have "neighbours st t \<subseteq> set cache'" if "t \<in> set cache' - set stack'" for t
  proof -
    have "t = s \<or> t \<in> set cache - set (s # stack)" using that e by blast
    then show ?thesis using 2(5) 1(1) by blast
  qed
  ultimately show "search_inv st r (cache', stack')"
    using 1 2(3,4) unfolding search_inv_def search_ok_def fst_conv snd_conv by blast
qed

lemma search_inv_end: "search_inv st r (cache, []) \<Longrightarrow> set cache = component st r"
  using component_least[of r "set cache" st] by (auto simp: search_inv_def)

text \<open>Fuel: the syncs of the component that are not visited yet.\<close>

lemma collect_loop_component:
  assumes "finite (component st r)"
  shows "search_inv st r (cache, stack) \<Longrightarrow> card (component st r - (set cache - set stack)) \<le> n \<Longrightarrow>
    \<exists>cache'. collect_loop n cache stack st = Done cache' \<and> set cache' = component st r"
proof (induction n arbitrary: cache stack)
  case 0
  show ?case
  proof (cases stack)
    case (Cons s rest)
    have "s \<in> component st r - (set cache - set stack)" using 0 Cons by (auto simp: search_inv_def search_ok_def)
    then show ?thesis using 0 assms by auto
  qed (use 0 search_inv_end[of st r cache] in simp)
next
  case (Suc n)
  show ?case
  proof (cases stack)
    case (Cons s rest)
    obtain cache' stack' where f: "fold (collect_event st) (time_events (syncs st s)) (cache, rest) = (cache', stack')"
      by (cases "fold (collect_event st) (time_events (syncs st s)) (cache, rest)")
    have ok: "search_ok (cache, rest)" using Suc.prems Cons by (auto simp: search_inv_def search_ok_def)
    have sn: "seen (neighbours st s) (cache, rest) (cache', stack')"
      using seen_collect_events[OF ok, of st "time_events (syncs st s)"] by (simp add: f neighbours_events)
    note st = search_inv_step[OF Suc.prems(1)[unfolded Cons] sn]
    have "s \<in> component st r - (set cache - set stack)" using Suc.prems(1) st(3) Cons by (auto simp: search_inv_def)
    moreover have "component st r - (set cache' - set stack') = component st r - (set cache - set stack) - {s}"
      unfolding st(2) Cons by blast
    ultimately have "card (component st r - (set cache' - set stack')) \<le> n"
      using Suc.prems(2) assms by simp
    then show ?thesis using Suc.IH[OF st(1)] Cons f by simp
  qed (use Suc.prems(1) search_inv_end[of st r cache] in simp)
qed

section \<open>The effect on the store\<close>

lemma stop_interval_fields [frame_simps]:
  "intervals (stop_interval i st) = (intervals st)(i := stopped (intervals st i))"
  "events (stop_interval i st) = events st" "syncs (stop_interval i st) = syncs st"
  "running_intervals (stop_interval i st) = flat_erase i (running_intervals st)"
  "nodes_list (stop_interval i st) = nodes_list st"
  by (simp_all add: stop_interval_def erase_end_map_def erase_running_def frame_simps)

lemma fold_stop_interval:
  "intervals (fold stop_interval is st) = (\<lambda>j. if j \<in> set is then stopped (intervals st j) else intervals st j)"
  "events (fold stop_interval is st) = events st" "syncs (fold stop_interval is st) = syncs st"
  "set (running_intervals (fold stop_interval is st)) = set (running_intervals st) - set is"
  "nodes_list (fold stop_interval is st) = nodes_list st"
  by (induction "is" arbitrary: st) (auto simp: frame_simps fun_eq_iff)

lemma shape_stop [simp]: "shape (fold stop_interval is st) = shape st"
  by (auto simp: shape_def fold_stop_interval fun_eq_iff)

lemma shape_stop_one [simp]: "shape (stop_interval i st) = shape st"
  using shape_stop[of "[i]" st] by simp

lemma fold_reset_sides:
  "fold reset_previous is (st, cs) = (fold stop_interval is st, fold (\<lambda>i. see (sync_of_start st i)) is cs)"
  "fold reset_next is (st, cs) = (fold stop_interval is st, fold (\<lambda>i. see (sync_of_end st i)) is cs)"
  by (induction "is" arbitrary: st cs)
    (simp_all add: reset_previous_def reset_next_def Let_def shape_graph(1,2)[OF shape_stop_one])

lemma collect_event_stop [simp]: "collect_event (fold stop_interval is st) = collect_event st"
  by (simp add: collect_event_def[abs_def] fold_stop_interval(2) shape_graph(1,2)[OF shape_stop] fun_eq_iff)

lemma fold_reset_event:
  "fold reset_event es (st, cs) =
     (fold stop_interval (concat (map (\<lambda>e. previous_intervals (events st e) @ next_intervals (events st e)) es)) st,
      fold (collect_event st) es cs)"
proof (induction es arbitrary: st cs)
  case (Cons e es)
  let ?is = "previous_intervals (events st e) @ next_intervals (events st e)"
  let ?st = "fold stop_interval ?is st"
  have "reset_event e (st, cs) = (?st, collect_event st e cs)"
    by (simp add: reset_event_def Let_def fold_reset_sides fold_stop_interval(2) collect_event_def
      shape_graph(1,2)[OF shape_stop])
  then show ?case
    using Cons.IH[of ?st "collect_event st e cs"] by (simp add: fold_stop_interval(2))
qed simp

section \<open>Resetting\<close>

text \<open>No expression of a sync has an empty variant; the constructors of the library build no such expression.\<close>

definition syncs_complete :: "'d scenario \<Rightarrow> bool" where
  "syncs_complete st \<longleftrightarrow> (\<forall>s e. sync_expression (syncs st s) = Some e \<longrightarrow> complete e)"

lemma reset_complete: "complete e \<Longrightarrow> \<exists>e'. reset e = Inr e' \<and> complete e'"
proof (induction e)
  case (Composition a c b)
  then obtain a' b' where "reset a = Inr a'" "complete a'" "reset b = Inr b'" "complete b'" by auto
  then show ?case by simp
next
  case (Negation e)
  then obtain e' where "reset e = Inr e'" "complete e'" by auto
  then show ?case by simp
qed simp_all

lemma fold_event_reset:
  "intervals (fold event_reset es st) = intervals st" "syncs (fold event_reset es st) = syncs st"
  "running_intervals (fold event_reset es st) = running_intervals st" "nodes_list (fold event_reset es st) = nodes_list st"
  "events (fold event_reset es st) = (\<lambda>e. if e \<in> set es then (events st e)\<lparr>status := NONE\<rparr> else events st e)"
  by (induction es arbitrary: st) (auto simp: event_reset_def frame_simps fun_eq_iff)

lemma remove_observer_fields [frame_simps]:
  "intervals (remove_observer s st) = intervals st" "events (remove_observer s st) = events st"
  "running_intervals (remove_observer s st) = running_intervals st" "nodes_list (remove_observer s st) = nodes_list st"
  "syncs (remove_observer s st) t = (if t = s then (syncs st s)\<lparr>has_callback := False\<rparr> else syncs st t)"
  by (simp_all add: remove_observer_def frame_simps)

lemma sync_reset_done:
  assumes "syncs_complete st"
  shows "\<exists>st'. sync_reset s st = Done st' \<and> syncs_complete st' \<and> shape st' = shape st
    \<and> intervals st' = intervals st \<and> running_intervals st' = running_intervals st \<and> nodes_list st' = nodes_list st
    \<and> events st' = (\<lambda>e. if e \<in> set (time_events (syncs st s)) then (events st e)\<lparr>status := NONE\<rparr> else events st e)
    \<and> being_triggered (syncs st' s) = False \<and> (\<forall>t. t \<noteq> s \<longrightarrow> syncs st' t = syncs st t)"
proof (cases "sync_expression (syncs st s)")
  case None
  then show ?thesis
    using assms
    by (auto simp: sync_reset_def fold_event_reset frame_simps syncs_complete_def shape_def fun_eq_iff)
next
  case (Some e)
  then obtain e' where e': "reset e = Inr e'" "complete e'" using assms Some reset_complete[of e] by (auto simp: syncs_complete_def)
  have "sync_expression (syncs (remove_observer s st) s) = Some e" using Some by (simp add: frame_simps)
  then have "reset_expression s (remove_observer s st)
      = Done (set_sync s (\<lambda>v. v\<lparr>sync_expression := Some e'\<rparr>) (remove_observer s st))"
    by (simp add: reset_expression_def e' lift_expr_def)
  then show ?thesis
    using assms Some e'(2)
    by (auto simp: sync_reset_def fold_event_reset frame_simps syncs_complete_def shape_def fun_eq_iff)
qed

text \<open>The store after the syncs of \<open>V\<close> were reset.\<close>

definition reset_syncs :: "nat set \<Rightarrow> 'd::zero scenario \<Rightarrow> 'd scenario \<Rightarrow> bool" where
  "reset_syncs V st st' \<longleftrightarrow>
     shape st' = shape st \<and> nodes_list st' = nodes_list st
     \<and> (\<forall>e. events st' e = (if \<exists>s \<in> V. e \<in> set (time_events (syncs st s)) then (events st e)\<lparr>status := NONE\<rparr> else events st e))
     \<and> (\<forall>i. intervals st' i = (if \<exists>s \<in> V. i \<in> sync_intervals st s then stopped (intervals st i) else intervals st i))
     \<and> set (running_intervals st') = set (running_intervals st) - (\<Union>s \<in> V. sync_intervals st s)
     \<and> (\<forall>s. being_triggered (syncs st' s) \<longleftrightarrow> s \<notin> V \<and> being_triggered (syncs st s))"

lemma reset_syncs_refl: "reset_syncs {} st st"
  by (simp add: reset_syncs_def)

lemma sync_intervals_concat:
  "set (concat (map (\<lambda>e. previous_intervals (events st e) @ next_intervals (events st e)) (time_events (syncs st s))))
    = sync_intervals st s"
  by (auto simp: sync_intervals_def)

lemma reset_syncs_step:
  assumes "reset_syncs V st0 st" and "syncs_complete st"
  shows "\<exists>st1. sync_reset s st = Done st1
    \<and> (\<exists>st2. fold reset_event (time_events (syncs st1 s)) (st1, cs) = (st2, fold (collect_event st0) (time_events (syncs st0 s)) cs)
        \<and> reset_syncs (insert s V) st0 st2 \<and> syncs_complete st2)"
proof -
  note r = assms(1)[unfolded reset_syncs_def]
  have sh: "shape st = shape st0" using r by simp
  obtain st1 where 1: "sync_reset s st = Done st1" "syncs_complete st1" "shape st1 = shape st"
      "intervals st1 = intervals st" "running_intervals st1 = running_intervals st" "nodes_list st1 = nodes_list st"
      "events st1 = (\<lambda>e. if e \<in> set (time_events (syncs st s)) then (events st e)\<lparr>status := NONE\<rparr> else events st e)"
      "being_triggered (syncs st1 s) = False" "\<And>t. t \<noteq> s \<Longrightarrow> syncs st1 t = syncs st t"
    using sync_reset_done[OF assms(2)] by blast
  have sh1: "shape st1 = shape st0" using 1(3) sh by simp
  note f1 = shape_fields[OF sh1] and g1 = shape_graph[OF sh1]
  define il where "il = concat (map (\<lambda>e. previous_intervals (events st1 e) @ next_intervals (events st1 e)) (time_events (syncs st1 s)))"
  let ?st2 = "fold stop_interval il st1"
  have is_eq: "set il = sync_intervals st0 s" unfolding il_def sync_intervals_concat by (rule g1(3))
  have col: "collect_event st1 = collect_event st0"
    by (simp add: collect_event_def[abs_def] f1 g1 fun_eq_iff)
  have te: "time_events (syncs st s) = time_events (syncs st0 s)" by (rule shape_fields(7)[OF sh])
  have "reset_syncs (insert s V) st0 ?st2"
    unfolding reset_syncs_def
  proof (intro conjI allI)
    show "shape ?st2 = shape st0" using sh1 by simp
    show "nodes_list ?st2 = nodes_list st0" using r 1 by (simp add: fold_stop_interval)
    show "events ?st2 e = (if \<exists>t \<in> insert s V. e \<in> set (time_events (syncs st0 t)) then (events st0 e)\<lparr>status := NONE\<rparr> else events st0 e)" for e
      using r by (simp add: fold_stop_interval 1 te)
    show "intervals ?st2 i = (if \<exists>t \<in> insert s V. i \<in> sync_intervals st0 t then stopped (intervals st0 i) else intervals st0 i)" for i
      using r by (simp add: fold_stop_interval is_eq 1)
    show "set (running_intervals ?st2) = set (running_intervals st0) - (\<Union>t \<in> insert s V. sync_intervals st0 t)"
      using r by (auto simp: fold_stop_interval is_eq 1)
    show "being_triggered (syncs ?st2 t) \<longleftrightarrow> t \<notin> insert s V \<and> being_triggered (syncs st0 t)" for t
      using r 1(8) 1(9)[of t] by (cases "t = s") (simp_all add: fold_stop_interval)
  qed
  moreover have "syncs_complete ?st2" using 1(2) by (simp add: syncs_complete_def fold_stop_interval)
  ultimately show ?thesis
    using 1(1) fold_reset_event[of "time_events (syncs st1 s)" st1 cs] col f1(7)[of s] by (auto simp: il_def)
qed

lemma reset_loop_component:
  assumes "finite (component st0 r)"
  shows "search_inv st0 r (cache, stack) \<Longrightarrow> card (component st0 r - (set cache - set stack)) \<le> n \<Longrightarrow>
    reset_syncs (set cache - set stack) st0 st \<Longrightarrow> syncs_complete st \<Longrightarrow>
    \<exists>st'. reset_loop n cache stack st = Done st' \<and> reset_syncs (component st0 r) st0 st' \<and> syncs_complete st'"
proof (induction n arbitrary: cache stack st)
  case 0
  show ?case
  proof (cases stack)
    case (Cons s rest)
    have "s \<in> component st0 r - (set cache - set stack)" using 0(1) Cons by (auto simp: search_inv_def search_ok_def)
    then show ?thesis using 0 assms by auto
  qed (use 0 search_inv_end[of st0 r cache] in simp)
next
  case (Suc n)
  show ?case
  proof (cases stack)
    case (Cons s rest)
    obtain cache' stack' where f: "fold (collect_event st0) (time_events (syncs st0 s)) (cache, rest) = (cache', stack')"
      by (cases "fold (collect_event st0) (time_events (syncs st0 s)) (cache, rest)")
    have ok: "search_ok (cache, rest)" using Suc.prems(1) Cons by (auto simp: search_inv_def search_ok_def)
    have sn: "seen (neighbours st0 s) (cache, rest) (cache', stack')"
      using seen_collect_events[OF ok, of st0 "time_events (syncs st0 s)"] by (simp add: f neighbours_events)
    note stp = search_inv_step[OF Suc.prems(1)[unfolded Cons] sn]
    have "s \<in> component st0 r - (set cache - set stack)" using Suc.prems(1) stp(3) Cons by (auto simp: search_inv_def)
    moreover have "component st0 r - (set cache' - set stack') = component st0 r - (set cache - set stack) - {s}"
      unfolding stp(2) Cons by blast
    ultimately have card: "card (component st0 r - (set cache' - set stack')) \<le> n"
      using Suc.prems(2) assms by simp
    obtain st1 st2 where "sync_reset s st = Done st1"
      and "fold reset_event (time_events (syncs st1 s)) (st1, cache, rest) = (st2, cache', stack')"
      and r2: "reset_syncs (insert s (set cache - set stack)) st0 st2" "syncs_complete st2"
      using reset_syncs_step[OF Suc.prems(3,4), of s "(cache, rest)"] f by auto
    moreover have "reset_syncs (set cache' - set stack') st0 st2" using r2(1) stp(2) Cons by simp
    ultimately show ?thesis using Suc.IH[OF stp(1) card _ r2(2)] Cons by simp
  qed (use Suc.prems search_inv_end[of st0 r cache] in simp)
qed

text \<open>C8: resetting the component of a sync visits exactly the syncs that intervals connect to it: their
  events have no status, every interval attached to one of them is stopped and none is listed as running,
  none of them is being triggered, and everything outside the component is as before. As much fuel as the
  component has syncs is enough.\<close>

theorem reset_component_correct:
  assumes "finite (component st r)" and "card (component st r) \<le> n" and "syncs_complete st"
  shows "\<exists>st'. reset_component n r st = Done st' \<and> reset_syncs (component st r) st st' \<and> syncs_complete st'"
  using reset_loop_component[OF assms(1) search_inv_start, of n st] assms(2,3)
  by (simp add: reset_component_def reset_syncs_refl)

section \<open>Exclusive scenarios\<close>

definition attached_running :: "'d scenario \<Rightarrow> nat \<Rightarrow> bool" where
  "attached_running st s \<longleftrightarrow> (\<exists>i \<in> sync_intervals st s. is_running (intervals st i))"

lemma is_executing_iff: "is_executing s st \<longleftrightarrow> being_triggered (syncs st s) \<or> attached_running st s"
  by (auto simp: is_executing_def attached_running_def sync_intervals_def list_ex_iff)

lemma fold_flat_insert: "set (fold flat_insert xs ys) = set xs \<union> set ys"
  by (induction xs arbitrary: ys) auto

lemma reset_syncs_running:
  assumes "reset_syncs V st st'"
  shows "is_running (intervals st' i) \<Longrightarrow> is_running (intervals st i)"
    and "is_executing t st' \<Longrightarrow> is_executing t st"
    and "t \<in> V \<Longrightarrow> \<not> is_executing t st'"
proof -
  note r = assms[unfolded reset_syncs_def]
  have sh: "shape st' = shape st" using r by blast
  show run: "is_running (intervals st' i) \<Longrightarrow> is_running (intervals st i)" for i using r by (metis stopped_fields(7))
  have bt: "being_triggered (syncs st' t) \<longleftrightarrow> t \<notin> V \<and> being_triggered (syncs st t)" using r by blast
  show "is_executing t st' \<Longrightarrow> is_executing t st"
    using bt run unfolding is_executing_iff attached_running_def shape_graph(3)[OF sh] by blast
  have "\<not> is_running (intervals st' i)" if "i \<in> sync_intervals st t" "t \<in> V" for i
    using r that by (metis stopped_fields(7))
  then show "t \<in> V \<Longrightarrow> \<not> is_executing t st'"
    using bt unfolding is_executing_iff attached_running_def shape_graph(3)[OF sh] by blast
qed

text \<open>after the trigger of a sync of an exclusive scenario, no sync outside its component is being
  triggered or has an interval that runs, and nothing that did not run before runs.\<close>

theorem exclusive_stops_others:
  assumes "\<And>t. finite (component st t) \<and> card (component st t) \<le> n" and "syncs_complete st"
  shows "\<exists>st'. reset_all_components_except n s st = Done st' \<and> shape st' = shape st
    \<and> (\<forall>t \<in> set (nodes_list st) - component st s. \<not> is_executing t st')
    \<and> (\<forall>i. is_running (intervals st' i) \<longrightarrow> is_running (intervals st i))"
proof -
  obtain cache where c: "collect_loop n [s] [s] st = Done cache" "set cache = component st s"
    using collect_loop_component[OF conjunct1[OF assms(1)] search_inv_start, of s n] assms(1)[of s] by auto
  define others where "others = fold flat_insert (filter (\<lambda>t. t \<notin> set cache) (nodes_list st)) []"
  have o: "set others = set (nodes_list st) - component st s" by (auto simp: others_def fold_flat_insert c(2))
  let ?f = "\<lambda>t (u :: 'a scenario). if is_executing t u then reset_component n t u else Done u"
  have "\<exists>st'. each ?f ts u = Done st' \<and> shape st' = shape st \<and> syncs_complete st'
      \<and> (\<forall>t \<in> set ts. \<not> is_executing t st') \<and> (\<forall>t. is_executing t st' \<longrightarrow> is_executing t u)
      \<and> (\<forall>i. is_running (intervals st' i) \<longrightarrow> is_running (intervals u i))"
    if "shape u = shape st" "syncs_complete u" for ts and u :: "'a scenario"
    using that
  proof (induction ts arbitrary: u)
    case (Cons t ts)
    have comp: "component u x = component st x" for x by (rule shape_graph(5)[OF Cons.prems(1)])
    obtain u' where u': "?f t u = Done u'" "shape u' = shape st" "syncs_complete u'" "\<not> is_executing t u'"
      "\<And>x. is_executing x u' \<Longrightarrow> is_executing x u" "\<And>i. is_running (intervals u' i) \<Longrightarrow> is_running (intervals u i)"
    proof (cases "is_executing t u")
      case True
      obtain u' where "reset_component n t u = Done u'" "reset_syncs (component st t) u u'" "syncs_complete u'"
        using reset_component_correct[of u t n] assms(1)[of t] Cons.prems(2) by (auto simp: comp)
      then show ?thesis
        using that[of u'] True reset_syncs_running[of "component st t" u u'] component_self[of t st] Cons.prems(1)
        by (auto simp: reset_syncs_def)
    next
      case False
      then show ?thesis using that[of u] Cons.prems by simp
    qed
    from Cons.IH[OF u'(2,3)] u' show ?case by auto
  qed auto
  from this[of st others] assms(2) c(1) o show ?thesis
    by (auto simp: reset_all_components_except_def others_def)
qed

section \<open>Examples\<close>

text \<open>Two components: the interval 0 from the sync 0 to the sync 1, the interval 1 from 2 to 3; both run.\<close>

definition demo_pair :: "rat scenario" where
  "demo_pair = demo_store
     (\<lambda>i. if i = 0 then (demo_itv 0 1)\<lparr>is_running := True\<rparr> else (demo_itv 2 3)\<lparr>is_running := True\<rparr>)
     (\<lambda>e. if e = 0 then demo_event 0 [] [0] else if e = 1 then demo_event 1 [0] []
        else if e = 2 then demo_event 2 [] [1] else demo_event 3 [1] [])
     (\<lambda>s. demo_sync (s = 0) (if s < 4 then [s] else [])) [0, 1] [0, 1, 2, 3]"

lemma demo_pair_neighbours: "neighbours demo_pair t \<subseteq> {0, 1, 2, 3}"
  by (auto simp: neighbours_def demo_pair_def demo_defs sync_of_start_def sync_of_end_def split: if_splits)

lemma demo_pair_component: "finite (component demo_pair t) \<and> card (component demo_pair t) \<le> 5"
proof -
  have "component demo_pair t \<subseteq> insert t {0, 1, 2, 3}"
    using demo_pair_neighbours by (intro component_least) blast+
  moreover have "card (insert t {0, 1, 2, 3}) \<le> 5" using card_insert_le_m1[of 5 "{0, 1, 2, 3 :: nat}" t] by simp
  ultimately show ?thesis using finite_subset card_mono order_trans
    by (metis finite.emptyI finite.insertI)
qed

lemma demo_pair_complete: "syncs_complete demo_pair"
  by (simp add: syncs_complete_def demo_pair_def demo_defs)

lemma reset_component_correct_witness:
  "\<exists>st'. reset_component 5 0 demo_pair = Done st' \<and> status (events st' 1) = NONE \<and> \<not> is_running (intervals st' 0)"
proof -
  obtain st' where st': "reset_component 5 0 demo_pair = Done st'" "reset_syncs (component demo_pair 0) demo_pair st'"
    using reset_component_correct[of demo_pair 0 5] demo_pair_component[of 0] demo_pair_complete by blast
  have "0 \<in> sync_intervals demo_pair 0" "status (events demo_pair 1) = NONE"
    by (simp_all add: sync_intervals_def demo_pair_def demo_defs)
  then show ?thesis using st' component_self[of 0 demo_pair] by (auto simp: reset_syncs_def)
qed

lemma exclusive_stops_others_witness:
  "\<exists>st'. reset_all_components_except 5 0 demo_pair = Done st' \<and> shape st' = shape demo_pair"
  using exclusive_stops_others[of demo_pair 5 0] demo_pair_component demo_pair_complete by blast

end
