(* ===== verification/ScenarioTrigger.thy ===== *)
theory ScenarioTrigger
  imports ScenarioGraph
begin

text \<open>
  The triggering of a sync (detail/scenario_sync_execution.cpp and
  detail/scenario_sync_musical_execution.cpp): which of its events are pending, whether it is ready,
  its quantification to a musical date, and the events that happen or are disposed once it triggers.
  The engine hands the same vectors to every call: the pending events and the events whose maximal
  duration was reached are fields of the scenario. The environment has the operations of \<open>double\<close>, the state
  of the device tree the expressions look at, and the value of the tempo curve of an interval at a date.
\<close>

record 'd env =
  env_world :: world
  env_fpu :: "'d fpu"
  tempo_curve :: "nat \<Rightarrow> int \<Rightarrow> 'd"

abbreviation quantification_date :: "'d env \<Rightarrow> 'd token_request \<Rightarrow> 'd \<Rightarrow> time_value option" where
  "quantification_date env tk rate \<equiv> get_quantification_date (env_fpu env) tk rate"

datatype sync_status = NOT_READY | RETRY | DONE

type_synonym 'd sync_result = "(sc_error, sync_status \<times> 'd scenario) outcome"

section \<open>Pending events\<close>

definition is_pending :: "8 word \<Rightarrow> bool" where
  "is_pending st \<longleftrightarrow> st AND PENDING \<noteq> 0"

definition is_finished :: "8 word \<Rightarrow> bool" where
  "is_finished st \<longleftrightarrow> st AND FINISHED \<noteq> 0"

definition is_happened :: "8 word \<Rightarrow> bool" where
  "is_happened st \<longleftrightarrow> st AND HAPPENED = HAPPENED"

definition is_disposed :: "8 word \<Rightarrow> bool" where
  "is_disposed st \<longleftrightarrow> st AND DISPOSED = DISPOSED"

definition reached_min :: "'d scenario \<Rightarrow> nat \<Rightarrow> bool" where
  "reached_min st i \<longleftrightarrow>
     graphal (intervals st i)
     \<or> (let s = status (events st (start_event (intervals st i)))
        in is_disposed s
           \<or> (is_happened s \<or> is_finished s \<or> is_pending s)
              \<and> \<not> tv_lt (itv_date (intervals st i)) (min_duration (intervals st i)))"

text \<open>The state of the loop over the events: the store, the number of pending events, the number of active
  ones and whether a maximal duration was reached.\<close>

definition on_pending :: "nat \<Rightarrow> 'd scenario \<times> nat \<times> nat \<times> bool \<Rightarrow> 'd scenario \<times> nat \<times> nat \<times> bool" where
  "on_pending e x =
     (case x of (st, count, active, mx) \<Rightarrow>
        let mx' = (mx \<or> list_ex (\<lambda>i. tv_ge (itv_date (intervals st i)) (max_duration (intervals st i)))
                     (previous_intervals (events st e)))
        in if e \<in> set (pending_events st) then (st, count, active, mx')
           else (st\<lparr>pending_events := pending_events st @ [e]\<rparr>, count + 1, active, mx'))"

definition ready_event :: "nat \<Rightarrow> 'd scenario \<times> nat \<times> nat \<times> bool \<Rightarrow> 'd scenario \<times> nat \<times> nat \<times> bool" where
  "ready_event e x =
     (case x of (st, count, active, mx) \<Rightarrow>
        let s = status (events st e)
        in if is_finished s \<or> s = NONE then
             (if list_all (reached_min st) (previous_intervals (events st e))
              then on_pending e (set_status e PENDING st, count, active, mx) else x)
           else if s = PENDING then on_pending e x
           else if is_disposed s then (st, count, active - 1, mx)
           else x)"

definition is_timesync_ready :: "nat \<Rightarrow> 'd scenario \<Rightarrow> 'd scenario \<times> bool \<times> bool" where
  "is_timesync_ready s st =
     (case fold ready_event (time_events (syncs st s)) (st\<lparr>pending_events := []\<rparr>, 0, length (time_events (syncs st s)), False) of
        (st', count, active, mx) \<Rightarrow> (st', count = active, mx))"

section \<open>Quantification\<close>

definition end_map_insert :: "nat \<Rightarrow> time_value \<Rightarrow> 'd scenario \<Rightarrow> 'd scenario" where
  "end_map_insert i d st =
     (if itv_end_map st i = None then st\<lparr>itv_end_map := (itv_end_map st)(i := Some d)\<rparr> else st)"

definition sync_previous :: "'d scenario \<Rightarrow> nat \<Rightarrow> nat list" where
  "sync_previous st s = concat (map (\<lambda>e. previous_intervals (events st e)) (time_events (syncs st s)))"

definition quantify_time_sync :: "'d env \<Rightarrow> nat \<Rightarrow> 'd token_request \<Rightarrow> 'd scenario \<Rightarrow> 'd sync_result" where
  "quantify_time_sync env s tk st =
     (case quantification_date env tk (sync_rate (syncs st s)) of
        None \<Rightarrow> Done (NOT_READY, st)
      | Some qdate \<Rightarrow>
          (let st1 = set_trigger_date s qdate st;
               diff = tv_minus (tv_minus qdate (prev_date tk)) One_tv;
               st2 = fold (\<lambda>i st. end_map_insert i (tv_plus (itv_date (intervals st i)) diff) st) (sync_previous st1 s) st1
           in and_then (observe_expression False s st2) (\<lambda>st3. Done (RETRY, st3))))"

definition trigger_quantified_time_sync :: "nat \<Rightarrow> bool \<Rightarrow> 'd scenario \<Rightarrow> sync_status \<times> bool \<times> 'd scenario" where
  "trigger_quantified_time_sync s mx st =
     (if list_all
           (\<lambda>i. status (events st (start_event (intervals st i))) = HAPPENED \<longrightarrow>
                (case itv_end_map st i of None \<Rightarrow> True | Some d \<Rightarrow> tv_eq (itv_date (intervals st i)) d))
           (sync_previous st s)
      then (DONE, True, fold erase_end_map (sync_previous st s) st)
      else (NOT_READY, mx, st))"

section \<open>Triggering\<close>

definition enter_evaluation :: "nat \<Rightarrow> 'd scenario \<Rightarrow> 'd scenario" where
  "enter_evaluation s st =
     (if \<not> evaluating (syncs st s)
      then note_call (Entered_evaluation s) (end_trigger_request s (set_sync s (\<lambda>v. v\<lparr>evaluating := True\<rparr>) st))
      else st)"

definition update_sync_expression :: "nat \<Rightarrow> 'd step" where
  "update_sync_expression s st =
     (case sync_expression (syncs st s) of
        None \<Rightarrow> Done st
      | Some e \<Rightarrow> and_then (lift_expr (update e)) (\<lambda>(e', pulls).
          Done (note_call (Pull pulls) (set_sync s (\<lambda>v. v\<lparr>sync_expression := Some e'\<rparr>) st))))"

definition waits_for_expression :: "nat \<Rightarrow> bool \<Rightarrow> 'd scenario \<Rightarrow> bool" where
  "waits_for_expression s mx st \<longleftrightarrow>
     sync_expression (syncs st s) \<notin> {None, Some (Constant True)} \<and> \<not> mx"

text \<open>The part common to both functions: \<open>None\<close> is the return before the sync is being triggered.\<close>

definition check_expression :: "'d env \<Rightarrow> nat \<Rightarrow> 'd scenario \<Rightarrow> (sc_error, bool \<times> 'd scenario) outcome" where
  "check_expression env s st =
     (if \<not> has_trigger_date (syncs st s) \<and> \<not> being_triggered (syncs st s) then
        and_then (if \<not> observing (syncs st s) then update_sync_expression s st else Done st) (\<lambda>st1.
        and_then (observe_expression True s st1) (\<lambda>st2.
          if trigger_request (syncs st2 s) then Done (True, end_trigger_request s st2)
          else
            (case sync_expression (syncs st2 s) of
               None \<Rightarrow> Done (True, st2)
             | Some e \<Rightarrow> and_then (lift_expr (evaluate (env_world env) e)) (\<lambda>b. Done (b, st2)))))
      else Done (True, st))"

definition run_event :: "nat \<Rightarrow> 'd env \<Rightarrow> bool \<Rightarrow> time_value \<Rightarrow> 'd token_request \<Rightarrow> nat \<Rightarrow> 'd::zero step" where
  "run_event n env mx tick_offset tk e st =
     and_then (lift_expr (update (ev_expression (events st e)))) (\<lambda>(expr, pulls).
       let st1 = note_call (Pull pulls) (set_event e (\<lambda>v. v\<lparr>ev_expression := expr\<rparr>) st)
       in and_then (lift_expr (evaluate (env_world env) expr)) (\<lambda>b.
            if b then
              (let st2 = make_happen e tick_offset tk st1
               in Done (if mx then st2\<lparr>max_reached_events := max_reached_events st2 @ [e]\<rparr> else st2))
            else make_dispose n e st1))"

definition finish_sync :: "nat \<Rightarrow> bool \<Rightarrow> 'd scenario \<Rightarrow> 'd scenario" where
  "finish_sync s mx st =
     set_sync s (\<lambda>v. v\<lparr>sync_done := (if mx then DONE_MAX_REACHED else DONE_TRIGGERED)\<rparr>)
       (note_call (Finished_evaluation s mx)
         (set_sync s (\<lambda>v. v\<lparr>evaluating := False\<rparr>) (note_call (Triggered s) st)))"

definition fire_sync :: "nat \<Rightarrow> 'd env \<Rightarrow> nat \<Rightarrow> time_value \<Rightarrow> 'd token_request \<Rightarrow> bool \<Rightarrow> 'd::zero scenario \<Rightarrow> 'd sync_result" where
  "fire_sync n env s tick_offset tk mx st =
     and_then (reset_expression s (set_is_being_triggered False s st)) (\<lambda>st1.
     and_then (each (run_event n env mx tick_offset tk) (pending_events st1) st1) (\<lambda>st2.
     and_then (observe_expression False s st2) (\<lambda>st3.
       let st4 = finish_sync s mx st3
       in and_then (if exclusive st4 then reset_all_components_except n s st4 else Done st4) (\<lambda>st5. Done (DONE, st5)))))"

text \<open>The sync is about to trigger: at once, or at the date it is quantified to.\<close>

definition proceed ::
    "nat \<Rightarrow> 'd env \<Rightarrow> nat \<Rightarrow> time_value \<Rightarrow> 'd token_request \<Rightarrow> bool \<Rightarrow> 'd::zero scenario \<Rightarrow> 'd sync_result" where
  "proceed n env s tick_offset tk mx st =
     (if has_trigger_date (syncs st s) then
        (case trigger_quantified_time_sync s mx st of
           (res, mx', st') \<Rightarrow> if res \<noteq> DONE then Done (res, st') else fire_sync n env s tick_offset tk mx' st')
      else if has_sync_rate (env_fpu env) (syncs st s) then quantify_time_sync env s tk st
      else fire_sync n env s tick_offset tk mx st)"

definition trigger_sync ::
    "nat \<Rightarrow> 'd env \<Rightarrow> nat \<Rightarrow> time_value \<Rightarrow> 'd token_request \<Rightarrow> bool \<Rightarrow> 'd::zero scenario \<Rightarrow> 'd sync_result" where
  "trigger_sync n env s tick_offset tk mx st =
     (let st1 = enter_evaluation s st
      in if waits_for_expression s mx st1 then
           and_then (check_expression env s st1) (\<lambda>(go, st2).
             if \<not> go then Done (NOT_READY, st2)
             else proceed n env s tick_offset tk mx (set_is_being_triggered True s st2))
         else fire_sync n env s tick_offset tk mx st1)"

definition trigger_sync_musical ::
    "'d env \<Rightarrow> nat \<Rightarrow> 'd token_request \<Rightarrow> bool \<Rightarrow> 'd::zero scenario \<Rightarrow> 'd sync_result" where
  "trigger_sync_musical env s tk mx st =
     (let st1 = enter_evaluation s st
      in if waits_for_expression s mx st1 then
           and_then (check_expression env s st1) (\<lambda>(go, st2).
             if \<not> go then Done (NOT_READY, st2)
             else
               and_then (reset_expression s (set_is_being_triggered True s st2)) (\<lambda>st3.
                 if \<not> has_trigger_date (syncs st3 s) \<and> has_sync_rate (env_fpu env) (syncs st3 s) then quantify_time_sync env s tk st3
                 else Done (NOT_READY, st3)))
         else Done (NOT_READY, st1))"

definition leave_evaluation :: "nat \<Rightarrow> 'd scenario \<Rightarrow> 'd scenario" where
  "leave_evaluation s st =
     (if evaluating (syncs st s)
      then note_call (Left_evaluation s) (end_trigger_request s (set_sync s (\<lambda>v. v\<lparr>evaluating := False\<rparr>) st))
      else st)"

definition process_this ::
    "nat \<Rightarrow> 'd env \<Rightarrow> nat \<Rightarrow> time_value \<Rightarrow> 'd token_request \<Rightarrow> 'd::zero scenario \<Rightarrow> 'd sync_result" where
  "process_this n env s tick_offset tk st =
     (case is_timesync_ready s st of
        (st1, ready, mx) \<Rightarrow>
          if \<not> ready then Done (NOT_READY, leave_evaluation s st1) else trigger_sync n env s tick_offset tk mx st1)"

definition process_this_musical ::
    "'d env \<Rightarrow> nat \<Rightarrow> 'd token_request \<Rightarrow> 'd::zero scenario \<Rightarrow> 'd sync_result" where
  "process_this_musical env s tk st =
     (case is_timesync_ready s st of
        (st1, ready, mx) \<Rightarrow>
          if \<not> ready then Done (NOT_READY, leave_evaluation s st1) else trigger_sync_musical env s tk mx st1)"

end
