(* ===== verification/ScenarioTriggerProps.thy ===== *)
theory ScenarioTriggerProps
  imports ScenarioTrigger
begin

text \<open>
  Properties of the triggering of syncs: when a sync is ready, that a sync which does not trigger leaves the
  execution as it is, what a trigger does to the pending events, and in which state it leaves the sync.
\<close>

section \<open>Readiness\<close>

definition becomes_pending :: "'d scenario \<Rightarrow> nat \<Rightarrow> bool" where
  "becomes_pending st e \<longleftrightarrow>
     status (events st e) = PENDING
     \<or> (is_finished (status (events st e)) \<or> status (events st e) = NONE)
        \<and> (\<forall>i \<in> set (previous_intervals (events st e)). reached_min st i)"

text \<open>Disposed, and not by a disposal that has finished.\<close>

definition leaves_count :: "'d scenario \<Rightarrow> nat \<Rightarrow> bool" where
  "leaves_count st e \<longleftrightarrow> is_disposed (status (events st e)) \<and> \<not> is_finished (status (events st e))"

definition past_max :: "'d scenario \<Rightarrow> nat \<Rightarrow> bool" where
  "past_max st e \<longleftrightarrow>
     (\<exists>i \<in> set (previous_intervals (events st e)). tv_ge (itv_date (intervals st i)) (max_duration (intervals st i)))"

lemma status_facts:
  "is_disposed DISPOSED" "\<not> is_disposed NONE" "\<not> is_disposed PENDING" "\<not> is_finished PENDING" "\<not> is_finished NONE"
  "is_disposed (DISPOSED OR FINISHED)" "is_finished (DISPOSED OR FINISHED)" "PENDING \<noteq> NONE" "\<not> is_finished DISPOSED"
  by (simp_all add: is_disposed_def is_finished_def DISPOSED_def NONE_def PENDING_def FINISHED_def)

lemma set_status_more [frame_simps]:
  "pending_events (set_status e s st) = pending_events st" "max_reached_events (set_status e s st) = max_reached_events st"
  by (simp_all add: set_status_def event_notify_def set_event_def note_call_def Let_def)

lemma ready_event_eq:
  assumes "e \<notin> set (pending_events st)" and "start_event ` intervals st ` set (previous_intervals (events st e)) \<subseteq> - {e}"
  shows "\<exists>st'. ready_event e (st, count, active, mx) =
      (st', if becomes_pending st e then count + 1 else count, if leaves_count st e then active - 1 else active,
       mx \<or> becomes_pending st e \<and> past_max st e)
    \<and> events st' = (\<lambda>f. if f = e \<and> becomes_pending st e then (events st f)\<lparr>status := PENDING\<rparr> else events st f)
    \<and> intervals st' = intervals st \<and> running_intervals st' = running_intervals st \<and> syncs st' = syncs st
    \<and> exclusive st' = exclusive st
    \<and> pending_events st' = pending_events st @ (if becomes_pending st e then [e] else [])"
proof -
  let ?s = "status (events st e)"
  consider (min) "is_finished ?s \<or> ?s = NONE" "becomes_pending st e"
    | (wait) "is_finished ?s \<or> ?s = NONE" "\<not> becomes_pending st e"
    | (pend) "?s = PENDING" | (disp) "\<not> is_finished ?s" "?s \<noteq> NONE" "?s \<noteq> PENDING" "is_disposed ?s"
    | (other) "\<not> is_finished ?s" "?s \<noteq> NONE" "?s \<noteq> PENDING" "\<not> is_disposed ?s"
    by blast
  then show ?thesis
  proof cases
    case min
    then have "?s \<noteq> PENDING" using status_facts by metis
    then have all: "list_all (reached_min st) (previous_intervals (events st e))" and lc: "\<not> leaves_count st e"
      using min status_facts by (auto simp: becomes_pending_def list_all_iff leaves_count_def)
    show ?thesis
      using min all lc assms(1)
      by (auto simp: ready_event_def on_pending_def Let_def frame_simps past_max_def list_ex_iff fun_eq_iff)
  next
    case wait
    then have "\<not> list_all (reached_min st) (previous_intervals (events st e))" "\<not> leaves_count st e"
      using status_facts by (auto simp: becomes_pending_def list_all_iff leaves_count_def)
    then show ?thesis using wait by (auto simp: ready_event_def Let_def)
  next
    case pend
    then have b: "becomes_pending st e" "\<not> leaves_count st e" "\<not> (is_finished ?s \<or> ?s = NONE)"
      using status_facts by (auto simp: becomes_pending_def leaves_count_def)
    have "(events st e)\<lparr>status := PENDING\<rparr> = events st e" using pend by simp
    then show ?thesis
      using b pend assms(1) by (auto simp: ready_event_def on_pending_def Let_def past_max_def list_ex_iff fun_eq_iff)
  next
    case disp
    then have "\<not> becomes_pending st e" "leaves_count st e" by (auto simp: becomes_pending_def leaves_count_def)
    then show ?thesis using disp by (auto simp: ready_event_def Let_def)
  next
    case other
    then have "\<not> becomes_pending st e" "\<not> leaves_count st e" by (auto simp: becomes_pending_def leaves_count_def)
    then show ?thesis using other by (auto simp: ready_event_def Let_def)
  qed
qed

lemma fold_ready_event:
  "distinct es \<Longrightarrow> set es \<inter> set (pending_events st) = {} \<Longrightarrow>
    (\<forall>e \<in> set es. \<forall>i \<in> set (previous_intervals (events st e)). start_event (intervals st i) \<notin> set es) \<Longrightarrow>
    \<exists>st'. fold ready_event es (st, count, active, mx) =
      (st', count + length (filter (becomes_pending st) es), active - length (filter (leaves_count st) es),
       mx \<or> (\<exists>e \<in> set es. becomes_pending st e \<and> past_max st e))
    \<and> events st' = (\<lambda>f. if f \<in> set es \<and> becomes_pending st f then (events st f)\<lparr>status := PENDING\<rparr> else events st f)
    \<and> intervals st' = intervals st \<and> running_intervals st' = running_intervals st \<and> syncs st' = syncs st
    \<and> exclusive st' = exclusive st
    \<and> pending_events st' = pending_events st @ filter (becomes_pending st) es"
proof (induction es arbitrary: st count active mx)
  case (Cons e es)
  obtain st1 where 1: "ready_event e (st, count, active, mx) =
      (st1, if becomes_pending st e then count + 1 else count, if leaves_count st e then active - 1 else active,
       mx \<or> becomes_pending st e \<and> past_max st e)"
    and f: "events st1 = (\<lambda>f. if f = e \<and> becomes_pending st e then (events st f)\<lparr>status := PENDING\<rparr> else events st f)"
      "intervals st1 = intervals st" "running_intervals st1 = running_intervals st" "syncs st1 = syncs st"
      "exclusive st1 = exclusive st"
      "pending_events st1 = pending_events st @ (if becomes_pending st e then [e] else [])"
    using ready_event_eq[of e st count active mx] Cons.prems by auto
  have same: "becomes_pending st1 g = becomes_pending st g" "leaves_count st1 g = leaves_count st g" "past_max st1 g = past_max st g"
    if "g \<in> set es" for g
  proof -
    have g: "events st1 g = events st g" using that Cons.prems(1) by (auto simp: f)
    have "reached_min st1 i = reached_min st i" if "i \<in> set (previous_intervals (events st g))" for i
      using that Cons.prems(3) \<open>g \<in> set es\<close> by (auto simp: reached_min_def f)
    then show "becomes_pending st1 g = becomes_pending st g" "leaves_count st1 g = leaves_count st g" "past_max st1 g = past_max st g"
      by (auto simp: becomes_pending_def leaves_count_def past_max_def g f(2))
  qed
  have pr: "distinct es" "set es \<inter> set (pending_events st1) = {}"
    "\<forall>e \<in> set es. \<forall>i \<in> set (previous_intervals (events st1 e)). start_event (intervals st1 i) \<notin> set es"
    using Cons.prems by (auto simp: f)
  have fl: "filter (becomes_pending st1) es = filter (becomes_pending st) es" "filter (leaves_count st1) es = filter (leaves_count st) es"
    using same by (auto cong: filter_cong)
  have ev: "(if h \<in> set es \<and> becomes_pending st1 h then (events st1 h)\<lparr>status := PENDING\<rparr> else events st1 h)
      = (if h \<in> set (e # es) \<and> becomes_pending st h then (events st h)\<lparr>status := PENDING\<rparr> else events st h)" for h
    using same[of h] Cons.prems(1) by (auto simp: f)
  have px: "(\<exists>g \<in> set es. becomes_pending st1 g \<and> past_max st1 g) = (\<exists>g \<in> set es. becomes_pending st g \<and> past_max st g)"
    using same by auto
  define c1 where "c1 = (if becomes_pending st e then count + 1 else count)"
  define a1 where "a1 = (if leaves_count st e then active - 1 else active)"
  define m1 where "m1 = (mx \<or> becomes_pending st e \<and> past_max st e)"
  obtain st2 where 2: "fold ready_event es (st1, c1, a1, m1) =
      (st2, c1 + length (filter (becomes_pending st) es), a1 - length (filter (leaves_count st) es),
       m1 \<or> (\<exists>g \<in> set es. becomes_pending st g \<and> past_max st g))"
    "events st2 = (\<lambda>h. if h \<in> set (e # es) \<and> becomes_pending st h then (events st h)\<lparr>status := PENDING\<rparr> else events st h)"
    "intervals st2 = intervals st" "running_intervals st2 = running_intervals st" "syncs st2 = syncs st" "exclusive st2 = exclusive st"
    "pending_events st2 = pending_events st1 @ filter (becomes_pending st) es"
    using Cons.IH[OF pr, of c1 a1 m1] unfolding fl ev px f(2-5) by blast
  show ?case
    by (rule exI[of _ st2]) (use 1 2 f(6) in \<open>auto simp: c1_def a1_def m1_def\<close>)
qed (auto simp: fun_eq_iff)

lemma length_filter_disjoint:
  "(\<And>x. \<not> (P x \<and> Q x)) \<Longrightarrow> length (filter P xs) + length (filter Q xs) = length (filter (\<lambda>x. P x \<or> Q x) xs)"
  by (induction xs) auto

lemma length_filter_all: "length (filter P xs) = length xs \<longleftrightarrow> (\<forall>x \<in> set xs. P x)"
  using length_filter_less[of _ xs P] by fastforce

text \<open>which events become pending, whether the sync is ready and whether a maximal duration was
  reached, for a sync none of whose events starts an interval that leads back to it: an event becomes
  pending when it is, or when it is new or finished and every interval before it allows it; the sync is
  ready when every event is pending or being disposed. Nothing else changes.\<close>

theorem timesync_readiness:
  assumes "distinct (time_events (syncs st s))"
    and "\<forall>i \<in> set (sync_previous st s). start_event (intervals st i) \<notin> set (time_events (syncs st s))"
  shows "\<exists>st' ready mx. is_timesync_ready s st = (st', ready, mx)
    \<and> pending_events st' = filter (becomes_pending st) (time_events (syncs st s))
    \<and> (ready \<longleftrightarrow> (\<forall>e \<in> set (time_events (syncs st s)). becomes_pending st e \<or> leaves_count st e))
    \<and> (mx \<longleftrightarrow> (\<exists>e \<in> set (time_events (syncs st s)). becomes_pending st e \<and> past_max st e))
    \<and> (\<forall>e. events st' e = (if e \<in> set (time_events (syncs st s)) \<and> becomes_pending st e
                            then (events st e)\<lparr>status := PENDING\<rparr> else events st e))
    \<and> intervals st' = intervals st \<and> running_intervals st' = running_intervals st \<and> syncs st' = syncs st"
proof -
  let ?es = "time_events (syncs st s)" and ?st = "st\<lparr>pending_events := []\<rparr>"
  have same: "becomes_pending ?st = becomes_pending st" "leaves_count ?st = leaves_count st" "past_max ?st = past_max st"
    by (simp_all add: fun_eq_iff becomes_pending_def leaves_count_def past_max_def reached_min_def)
  have fld: "events ?st = events st" "intervals ?st = intervals st" "running_intervals ?st = running_intervals st"
    "syncs ?st = syncs st" "pending_events ?st = []" by simp_all
  have disj: "\<not> (becomes_pending st e \<and> leaves_count st e)" for e
    using status_facts by (auto simp: becomes_pending_def leaves_count_def)
  obtain st' where f: "fold ready_event ?es (?st, 0, length ?es, False) =
      (st', length (filter (becomes_pending st) ?es), length ?es - length (filter (leaves_count st) ?es),
       \<exists>e \<in> set ?es. becomes_pending st e \<and> past_max st e)"
    "events st' = (\<lambda>f. if f \<in> set ?es \<and> becomes_pending st f then (events st f)\<lparr>status := PENDING\<rparr> else events st f)"
    "intervals st' = intervals st" "running_intervals st' = running_intervals st" "syncs st' = syncs st"
    "pending_events st' = filter (becomes_pending st) ?es"
    using fold_ready_event[of ?es ?st 0 "length ?es" False] assms unfolding same fld by (auto simp: sync_previous_def)
  have "length (filter (becomes_pending st) ?es) + length (filter (leaves_count st) ?es)
      = length (filter (\<lambda>e. becomes_pending st e \<or> leaves_count st e) ?es)"
    using disj by (intro length_filter_disjoint) auto
  moreover have "length (filter (\<lambda>e. becomes_pending st e \<or> leaves_count st e) ?es) = length ?es
      \<longleftrightarrow> (\<forall>e \<in> set ?es. becomes_pending st e \<or> leaves_count st e)"
    by (rule length_filter_all)
  ultimately have "length (filter (becomes_pending st) ?es) = length ?es - length (filter (leaves_count st) ?es)
      \<longleftrightarrow> (\<forall>e \<in> set ?es. becomes_pending st e \<or> leaves_count st e)"
    using length_filter_le[of "leaves_count st" ?es] by linarith
  then show ?thesis using f by (simp add: is_timesync_ready_def)
qed

text \<open>an event that was disposed becomes pending again when its sync is looked at once more, and is then
  run like any other, although no interval leads to it any longer.\<close>

theorem disposed_event_pends_again:
  assumes "distinct (time_events (syncs st s))"
    and "\<forall>i \<in> set (sync_previous st s). start_event (intervals st i) \<notin> set (time_events (syncs st s))"
    and "e \<in> set (time_events (syncs st s))" and "status (events st e) = disposed_finished"
    and "\<forall>i \<in> set (previous_intervals (events st e)). status (events st (start_event (intervals st i))) = disposed_finished"
  shows "\<exists>st' ready mx. is_timesync_ready s st = (st', ready, mx)
    \<and> e \<in> set (pending_events st') \<and> status (events st' e) = PENDING"
proof -
  have b: "becomes_pending st e" using assms(4,5) status_facts by (auto simp: becomes_pending_def reached_min_def Let_def)
  obtain st' ready mx where r: "is_timesync_ready s st = (st', ready, mx)"
      "pending_events st' = filter (becomes_pending st) (time_events (syncs st s))"
      "events st' e = (events st e)\<lparr>status := PENDING\<rparr>"
    using timesync_readiness[OF assms(1,2)] assms(3) b by (metis (no_types, lifting))
  have "e \<in> set (pending_events st')" "status (events st' e) = PENDING" using r(2,3) assms(3) b by simp_all
  then show ?thesis using r(1) by blast
qed

section \<open>A sync that does not trigger\<close>

text \<open>The same execution: intervals, events and what runs.\<close>

definition same_run :: "'d scenario \<Rightarrow> 'd scenario \<Rightarrow> bool" where
  "same_run st st' \<longleftrightarrow>
     intervals st' = intervals st \<and> events st' = events st \<and> running_intervals st' = running_intervals st
     \<and> pending_events st' = pending_events st \<and> exclusive st' = exclusive st
     \<and> (\<forall>t. time_events (syncs st' t) = time_events (syncs st t))"

lemma same_run_refl: "same_run st st"
  by (simp add: same_run_def)

lemma same_run_trans: "same_run a b \<Longrightarrow> same_run b c \<Longrightarrow> same_run a c"
  by (simp add: same_run_def)

lemma same_run_note: "same_run a b \<Longrightarrow> same_run a (note_call c b)"
  by (simp add: same_run_def note_call_def)

lemma same_run_set_sync:
  "same_run a b \<Longrightarrow> (\<And>v. time_events (f v) = time_events v) \<Longrightarrow> same_run a (set_sync s f b)"
  by (auto simp: same_run_def set_sync_def)

lemmas same_run_rules = same_run_refl same_run_note same_run_set_sync

lemma same_run_ops:
  "same_run st (end_trigger_request s st)" "same_run st (set_trigger_date s d st)" "same_run st (remove_observer s st)"
  "same_run st (set_is_being_triggered b s st)" "same_run st (enter_evaluation s st)" "same_run st (leave_evaluation s st)"
  by (auto simp: end_trigger_request_def set_trigger_date_def remove_observer_def set_is_being_triggered_def
      enter_evaluation_def leave_evaluation_def Let_def intro!: same_run_rules)

lemma same_run_observe: "observe_expression b s st = Done st' \<Longrightarrow> same_run st st'"
  by (auto simp: observe_expression_def observe_expression_impl_def Let_def remove_observer_def
      split: option.splits expr.splits if_splits intro!: same_run_rules)

lemma same_run_update: "update_sync_expression s st = Done st' \<Longrightarrow> same_run st st'"
  by (auto simp: update_sync_expression_def and_then_eq_Done split: option.splits intro!: same_run_rules)

lemma same_run_reset: "reset_expression s st = Done st' \<Longrightarrow> same_run st st'"
  by (auto simp: reset_expression_def and_then_eq_Done split: option.splits intro!: same_run_rules)

lemma same_run_check:
  assumes "check_expression env s st = Done (go, st')"
  shows "same_run st st'"
proof (cases "\<not> has_trigger_date (syncs st s) \<and> \<not> being_triggered (syncs st s)")
  case True
  then obtain st1 st2 where "(if \<not> observing (syncs st s) then update_sync_expression s st else Done st) = Done st1"
      and 2: "observe_expression True s st1 = Done st2" "st' = st2 \<or> st' = end_trigger_request s st2"
    using assms by (auto simp: check_expression_def and_then_eq_Done split: if_splits option.splits)
  then have "same_run st st1" by (auto simp: same_run_refl dest: same_run_update split: if_splits)
  then show ?thesis using 2 same_run_observe same_run_trans same_run_ops(1) by metis
next
  case False
  then have "st' = st" using assms by (auto simp: check_expression_def)
  then show ?thesis by (simp add: same_run_refl)
qed

lemma same_run_end_map: "same_run st (fold (\<lambda>i st. end_map_insert i (f st i) st) is st)"
proof (induction "is" arbitrary: st)
  case (Cons i js)
  have "same_run st (end_map_insert i (f st i) st)" by (simp add: same_run_def end_map_insert_def)
  from same_run_trans[OF this Cons.IH] show ?case by simp
qed (simp add: same_run_refl)

lemma same_run_quantify:
  assumes "quantify_time_sync env s tk st = Done (r, st')"
  shows "same_run st st' \<and> r \<noteq> DONE"
proof (cases "quantification_date env tk (sync_rate (syncs st s))")
  case (Some q)
  let ?st1 = "set_trigger_date s q st"
  let ?st2 = "fold (\<lambda>i st. end_map_insert i (tv_plus (itv_date (intervals st i)) (tv_minus (tv_minus q (prev_date tk)) One_tv)) st)
    (sync_previous ?st1 s) ?st1"
  have "and_then (observe_expression False s ?st2) (\<lambda>st3. Done (RETRY, st3)) = Done (r, st')"
    using assms unfolding quantify_time_sync_def Some option.case Let_def .
  then obtain x where x: "observe_expression False s ?st2 = Done x" "Done (RETRY, x) = Done (r, st')"
    unfolding and_then_eq_Done by blast
  have 2: "same_run st ?st2" by (rule same_run_trans[OF same_run_ops(2) same_run_end_map])
  have "same_run st x" by (rule same_run_trans[OF 2 same_run_observe[OF x(1)]])
  then show ?thesis using x(2) by simp
qed (use assms in \<open>auto simp: quantify_time_sync_def same_run_refl\<close>)

lemma fire_sync_done: "fire_sync n env s off tk mx st = Done (r, st') \<Longrightarrow> r = DONE"
  by (auto simp: fire_sync_def and_then_eq_Done Let_def)

lemma proceed_same_run:
  assumes "proceed n env s off tk mx st = Done (r, st')" and "r \<noteq> DONE"
  shows "same_run st st'"
proof (cases "has_trigger_date (syncs st s)")
  case True
  then show ?thesis
    using assms fire_sync_done[of n env s off tk _ _ r st']
    by (auto simp: proceed_def trigger_quantified_time_sync_def same_run_refl split: if_splits)
next
  case False
  then show ?thesis
    using assms fire_sync_done[of n env s off tk mx st r st'] same_run_quantify[of env s tk st r st']
    by (auto simp: proceed_def split: if_splits)
qed

lemma trigger_sync_same_run:
  assumes "trigger_sync n env s off tk mx st = Done (r, st')" and "r \<noteq> DONE"
  shows "same_run st st'"
proof -
  let ?st1 = "enter_evaluation s st"
  have 1: "same_run st ?st1" by (rule same_run_ops)
  have w: "waits_for_expression s mx ?st1"
    using assms fire_sync_done[of n env s off tk mx ?st1 r st'] by (auto simp: trigger_sync_def Let_def split: if_splits)
  then obtain go st2 where c: "check_expression env s ?st1 = Done (go, st2)"
    and p: "if go then proceed n env s off tk mx (set_is_being_triggered True s st2) = Done (r, st') else st' = st2"
    using assms by (auto simp: trigger_sync_def Let_def and_then_eq_Done split: if_splits)
  have 2: "same_run st st2" by (rule same_run_trans[OF 1 same_run_check[OF c]])
  then have 3: "same_run st (set_is_being_triggered True s st2)" by (rule same_run_trans[OF _ same_run_ops(4)])
  show ?thesis using p 2 same_run_trans[OF 3 proceed_same_run[OF _ assms(2)]] by (cases go) auto
qed

text \<open>a call that does not trigger the sync - because an event is not ready, because the expression is
  false, or because the trigger is put off to a quantified date - starts and stops nothing: the intervals
  and what runs are as before, and of the events only some of the sync have become pending.\<close>

theorem not_triggered_nothing_moves:
  assumes "process_this n env s off tk st = Done (r, st')" and "r \<noteq> DONE"
    and "distinct (time_events (syncs st s))"
    and "\<forall>i \<in> set (sync_previous st s). start_event (intervals st i) \<notin> set (time_events (syncs st s))"
  shows "intervals st' = intervals st \<and> running_intervals st' = running_intervals st
    \<and> (\<forall>e. events st' e = (if e \<in> set (time_events (syncs st s)) \<and> becomes_pending st e
                            then (events st e)\<lparr>status := PENDING\<rparr> else events st e))"
proof -
  obtain st1 ready mx where 1: "is_timesync_ready s st = (st1, ready, mx)"
      "\<forall>e. events st1 e = (if e \<in> set (time_events (syncs st s)) \<and> becomes_pending st e
                            then (events st e)\<lparr>status := PENDING\<rparr> else events st e)"
      "intervals st1 = intervals st" "running_intervals st1 = running_intervals st"
    using timesync_readiness[OF assms(3,4)] by blast
  have "same_run st1 st'"
  proof (cases ready)
    case True
    then show ?thesis using assms(1,2) 1(1) trigger_sync_same_run by (auto simp: process_this_def)
  next
    case False
    then show ?thesis using assms(1) 1(1) same_run_ops(6) by (auto simp: process_this_def)
  qed
  then show ?thesis using 1 by (simp add: same_run_def)
qed

section \<open>A sync that triggers\<close>

definition happened_finished :: "8 word" where
  "happened_finished = HAPPENED OR FINISHED"

definition evaluates_true :: "world \<Rightarrow> expr \<Rightarrow> bool" where
  "evaluates_true w x \<longleftrightarrow> (case update x of Inl _ \<Rightarrow> False | Inr (x', _) \<Rightarrow> evaluate w x' = Inr True)"

definition happened :: "time_event \<Rightarrow> time_event" where
  "happened v = v\<lparr>status := happened_finished, ev_expression := (case update (ev_expression v) of Inr (x, _) \<Rightarrow> x | Inl _ \<Rightarrow> No_expression)\<rparr>"

lemma happened_shape [simp]:
  "previous_intervals (happened v) = previous_intervals v" "next_intervals (happened v) = next_intervals v"
  "status (happened v) = happened_finished" "ev_expression (happened v) = (case update (ev_expression v) of Inr (x, _) \<Rightarrow> x | Inl _ \<Rightarrow> No_expression)"
  by (simp_all add: happened_def)

lemma exclusive_make_happen: "exclusive (make_happen e off tk st) = exclusive st"
  by (simp add: make_happen_def Let_def mark_finished_def frame_simps)

lemma make_happen_events:
  "events (make_happen e off tk st) = (events st)(e := (events st e)\<lparr>status := happened_finished\<rparr>)"
  "syncs (make_happen e off tk st) = syncs st"
  "set (running_intervals (make_happen e off tk st)) =
     set (running_intervals st) - set (previous_intervals (events st e)) \<union> set (next_intervals (events st e))"
  by (simp_all add: make_happen_def Let_def frame_simps fold_stop_fields fold_start_events happened_finished_def)

lemma make_happen_shape: "shape (make_happen e off tk st) = shape st"
proof -
  have "shape (fold (start_next sp) is s) = shape s" for sp "is" and s :: "'a scenario"
    by (intro fold_same) (auto simp: shape_def frame_simps fun_eq_iff)
  moreover have "shape (fold stop_previous is s) = shape s" for "is" and s :: "'a scenario"
    by (intro fold_same) (auto simp: shape_def frame_simps fun_eq_iff)
  moreover have "shape (mark_finished e s) = shape s" "shape (event_notify e s) = shape s" "shape (event_tick e d off sp s) = shape s"
    "shape (set_event e (\<lambda>v. v\<lparr>status := x\<rparr>) s) = shape s" for s :: "'a scenario" and d sp x
    by (auto simp: shape_def frame_simps fun_eq_iff)
  ultimately show ?thesis by (simp add: make_happen_def Let_def)
qed

lemma shape_max_reached: "shape (st\<lparr>max_reached_events := xs\<rparr>) = shape st"
  by (simp add: shape_def)

lemma disposed_all_cong:
  assumes "shape s = shape t" "events s = events t" "intervals s = intervals t" "syncs s = syncs t" "exclusive s = exclusive t"
    "running_intervals s = running_intervals t"
  shows "disposed_all st D s s' \<longleftrightarrow> disposed_all st D t s'"
  by (simp only: disposed_all_def assms)

lemma run_event_true:
  assumes "evaluates_true (env_world env) (ev_expression (events st e))"
  shows "\<exists>st'. run_event n env mx off tk e st = Done st' \<and> events st' = (events st)(e := happened (events st e))
    \<and> shape st' = shape st \<and> syncs st' = syncs st \<and> exclusive st' = exclusive st
    \<and> set (running_intervals st') = set (running_intervals st) - set (previous_intervals (events st e)) \<union> set (next_intervals (events st e))"
proof -
  obtain x p where x: "update (ev_expression (events st e)) = Inr (x, p)" "evaluate (env_world env) x = Inr True"
    using assms by (auto simp: evaluates_true_def split: sum.splits)
  define st1 where "st1 = note_call (Pull p) (set_event e (\<lambda>v. v\<lparr>ev_expression := x\<rparr>) st)"
  have f: "events st1 = (events st)(e := (events st e)\<lparr>ev_expression := x\<rparr>)" "syncs st1 = syncs st" "exclusive st1 = exclusive st"
    "running_intervals st1 = running_intervals st" "shape st1 = shape st"
    by (auto simp: st1_def frame_simps shape_def fun_eq_iff)
  have "run_event n env mx off tk e st = Done (if mx then (make_happen e off tk st1)\<lparr>max_reached_events :=
      max_reached_events (make_happen e off tk st1) @ [e]\<rparr> else make_happen e off tk st1)"
    by (simp add: run_event_def x lift_expr_def Let_def st1_def)
  then show ?thesis
    by (auto simp: make_happen_events exclusive_make_happen shape_max_reached make_happen_shape f x(1) happened_def fun_eq_iff)
qed

definition refreshed :: "time_event \<Rightarrow> time_event" where
  "refreshed v = v\<lparr>ev_expression := (case update (ev_expression v) of Inr (x, _) \<Rightarrow> x | Inl _ \<Rightarrow> No_expression)\<rparr>"

definition evaluates_false :: "world \<Rightarrow> expr \<Rightarrow> bool" where
  "evaluates_false w x \<longleftrightarrow> (case update x of Inl _ \<Rightarrow> False | Inr (x', _) \<Rightarrow> evaluate w x' = Inr False)"

lemma evaluates_exclusive: "evaluates_true w x \<Longrightarrow> \<not> evaluates_false w x"
  by (auto simp: evaluates_true_def evaluates_false_def split: sum.splits)

lemma run_event_false:
  assumes "evaluates_false (env_world env) (ev_expression (events s e))"
    and "falling rank st" "rank e < n" "midway st {} s"
    and "\<forall>f. doomed st {} e f \<longrightarrow> status (events st f) \<notin> {DISPOSED, HAPPENED}"
  shows "\<exists>s'. run_event n env mx off tk e s = Done s' \<and> disposed_all st {f. doomed st {} e f} (set_event e refreshed s) s'"
proof -
  obtain x p where x: "update (ev_expression (events s e)) = Inr (x, p)" "evaluate (env_world env) x = Inr False"
    using assms(1) by (auto simp: evaluates_false_def split: sum.splits)
  define s1 where "s1 = note_call (Pull p) (set_event e (\<lambda>v. v\<lparr>ev_expression := x\<rparr>) s)"
  have s1: "events s1 = (events s)(e := refreshed (events s e))" "shape s1 = shape s" "intervals s1 = intervals s"
    "syncs s1 = syncs s" "exclusive s1 = exclusive s" "running_intervals s1 = running_intervals s"
    by (auto simp: s1_def frame_simps shape_def fun_eq_iff refreshed_def x(1))
  then have "midway st {} s1" using assms(4) by (auto simp: midway_def refreshed_def)
  then have "disposal_result st {f. doomed st {} e f} s1 (make_dispose n e s1)"
    using make_dispose_result[OF assms(2,3)] assms(5) by auto
  then obtain s' where s': "make_dispose n e s1 = Done s'" "disposed_all st {f. doomed st {} e f} s1 s'"
    using assms(5) by (auto simp: disposal_result_def split: if_splits)
  have "shape (set_event e refreshed s) = shape s" by (auto simp: shape_def frame_simps fun_eq_iff refreshed_def)
  then have "disposed_all st {f. doomed st {} e f} (set_event e refreshed s) s'"
    using s'(2) s1 disposed_all_cong[of s1 "set_event e refreshed s"] by (simp add: frame_simps fun_upd_def)
  moreover have "run_event n env mx off tk e s = Done s'"
    using s'(1) by (simp add: run_event_def x lift_expr_def Let_def s1_def)
  ultimately show ?thesis by blast
qed

text \<open>
  The events \<open>P\<close> have been served: those whose expressions are true have happened, what the disposal of the others
  reaches is disposed and finished.
\<close>

definition chosen :: "'d env \<Rightarrow> 'd scenario \<Rightarrow> nat set \<Rightarrow> nat set" where
  "chosen env st P = {e \<in> P. evaluates_true (env_world env) (ev_expression (events st e))}"

definition rejected :: "'d env \<Rightarrow> 'd scenario \<Rightarrow> nat set \<Rightarrow> nat set" where
  "rejected env st P = {f. \<exists>e \<in> P - chosen env st P. doomed st {} e f}"

definition served_events :: "'d env \<Rightarrow> 'd::zero scenario \<Rightarrow> nat set \<Rightarrow> 'd scenario \<Rightarrow> bool" where
  "served_events env st P s \<longleftrightarrow>
     (\<forall>e. events s e = (if e \<in> chosen env st P then happened (events st e)
          else if e \<in> rejected env st P then (if e \<in> P then refreshed (events st e) else events st e)\<lparr>status := disposed_finished\<rparr>
          else events st e))
     \<and> set (running_intervals s) =
         set (running_intervals st) - (\<Union>e \<in> chosen env st P \<union> rejected env st P. set (previous_intervals (events st e)))
           \<union> (\<Union>e \<in> chosen env st P. set (next_intervals (events st e)))"

definition served :: "'d env \<Rightarrow> 'd::zero scenario \<Rightarrow> nat set \<Rightarrow> 'd scenario \<Rightarrow> bool" where
  "served env st P s \<longleftrightarrow> shape s = shape st \<and> syncs s = syncs st \<and> exclusive s = exclusive st \<and> served_events env st P s"

lemmas served_defs = served_def served_events_def

text \<open>What the pending events of a sync in a graph without cycles are like.\<close>

definition servable :: "'d env \<Rightarrow> (nat \<Rightarrow> nat) \<Rightarrow> nat \<Rightarrow> nat \<Rightarrow> 'd::zero scenario \<Rightarrow> bool" where
  "servable env \<rho> N s st \<longleftrightarrow>
     forward_graph \<rho> N st \<and> consistent st
     \<and> (\<forall>e \<in> set (pending_events st). time_sync_of (events st e) = s \<and> status (events st e) = PENDING
          \<and> (evaluates_true (env_world env) (ev_expression (events st e)) \<or>
             evaluates_false (env_world env) (ev_expression (events st e)) \<and>
               (\<forall>f. doomed st {} e f \<longrightarrow> status (events st f) \<notin> {DISPOSED, HAPPENED})))"

lemma servable_rank:
  assumes "servable env \<rho> N s st" "p \<in> set (pending_events st)" "doomed st {} p f"
  shows "f = p \<or> \<rho> s < \<rho> (time_sync_of (events st f))"
proof -
  have fg: "forward_graph \<rho> N st" and p: "time_sync_of (events st p) = s" using assms(1,2) by (auto simp: servable_def)
  have "f = e \<or> \<rho> (time_sync_of (events st e)) < \<rho> (time_sync_of (events st f))" if "doomed st S e f" for S e f
    using that
  proof (induction rule: doomed.induct)
    case (doomed_next i e S f)
    have "\<rho> (time_sync_of (events st e)) < \<rho> (time_sync_of (events st (end_event (intervals st i))))"
      using fg doomed_next(1) by (auto simp: forward_graph_def sync_of_end_def)
    then show ?case using doomed_next.IH by auto
  qed simp
  from this[OF assms(3)] show ?thesis by (simp add: p)
qed

text \<open>No interval leads from a chosen event to one that is served with it.\<close>

lemma served_apart:
  assumes v: "servable env \<rho> N s st" and P: "P \<subseteq> set (pending_events st)"
    and p: "p \<in> chosen env st P" and f: "f \<in> chosen env st P \<union> rejected env st P"
  shows "set (next_intervals (events st p)) \<inter> set (previous_intervals (events st f)) = {}"
proof (rule equals0I)
  fix i assume "i \<in> set (next_intervals (events st p)) \<inter> set (previous_intervals (events st f))"
  then have i: "i \<in> set (next_intervals (events st p))" "i \<in> set (previous_intervals (events st f))"
    and ends: "start_event (intervals st i) = p" "end_event (intervals st i) = f"
    using v by (auto simp: servable_def consistent_def)
  have pp: "p \<in> set (pending_events st)" "time_sync_of (events st p) = s" "status (events st p) = PENDING"
    using p P v by (auto simp: chosen_def servable_def)
  have up: "\<rho> s < \<rho> (time_sync_of (events st f))"
    using v i(1) ends(2) pp(2) by (auto simp: servable_def forward_graph_def sync_of_end_def)
  have "f \<notin> set (pending_events st)" using up v by (auto simp: servable_def)
  with f P obtain q where q: "q \<in> set (pending_events st)" "q \<notin> chosen env st P" "doomed st {} q f" "f \<noteq> q"
    by (auto simp: chosen_def rejected_def)
  obtain S where S: "ways_closed st S f" "S \<subseteq> {g. doomed st {} q g}" using doomed_closed[OF q(3)] q(4) by auto
  have "PENDING \<noteq> DISPOSED" by (simp add: PENDING_def DISPOSED_def)
  then have "doomed st {} q p" using S i(2) ends(1) pp(3) by (auto simp: ways_closed_def)
  then have "p = q \<or> \<rho> s < \<rho> (time_sync_of (events st p))" using servable_rank[OF v q(1)] by blast
  then show False using p q(2) pp(2) by auto
qed

lemma served_step:
  assumes v: "servable env \<rho> N s st" "N < n" and P: "P \<subseteq> set (pending_events st)" and e: "e \<in> set (pending_events st)" "e \<notin> P"
    and u: "served env st P u"
  shows "\<exists>u'. run_event n env mx off tk e u = Done u' \<and> served env st (insert e P) u'"
proof -
  let ?true = "evaluates_true (env_world env) (ev_expression (events st e))"
  have sub: "insert e P \<subseteq> set (pending_events st)" using P e by simp
  have new: "e \<notin> chosen env st P \<union> rejected env st P"
    using servable_rank[OF v(1)] P e v(1) by (fastforce simp: chosen_def rejected_def servable_def)
  then have eu: "events u e = events st e" using u by (simp add: served_defs)
  show ?thesis
  proof (cases ?true)
    case True
    have sets: "chosen env st (insert e P) = insert e (chosen env st P)" "rejected env st (insert e P) = rejected env st P"
      using True by (auto simp: chosen_def rejected_def)
    obtain u' where u': "run_event n env mx off tk e u = Done u'" "events u' = (events u)(e := happened (events st e))"
        "shape u' = shape u" "syncs u' = syncs u" "exclusive u' = exclusive u"
        "set (running_intervals u') = set (running_intervals u) - set (previous_intervals (events st e)) \<union> set (next_intervals (events st e))"
      using run_event_true[of env u e n mx off tk] True by (auto simp: eu)
    have apart: "set (next_intervals (events st p)) \<inter> set (previous_intervals (events st e)) = {}" if "p \<in> chosen env st P" for p
      using served_apart[OF v(1) sub, of p e] that by (simp add: sets)
    have "set (running_intervals u') = set (running_intervals st)
        - (\<Union>f \<in> chosen env st (insert e P) \<union> rejected env st (insert e P). set (previous_intervals (events st f)))
        \<union> (\<Union>f \<in> chosen env st (insert e P). set (next_intervals (events st f)))"
      using u apart unfolding served_defs u'(6) sets by auto
    moreover have "events u' f = (if f \<in> chosen env st (insert e P) then happened (events st f)
        else if f \<in> rejected env st (insert e P) then (if f \<in> insert e P then refreshed (events st f) else events st f)\<lparr>status := disposed_finished\<rparr>
        else events st f)" for f
      using u new unfolding served_defs u'(2) sets by auto
    ultimately show ?thesis using u u' by (simp add: served_defs)
  next
    case False
    let ?D = "{f. doomed st {} e f}"
    have sets: "chosen env st (insert e P) = chosen env st P" "rejected env st (insert e P) = rejected env st P \<union> ?D"
      using False by (auto simp: chosen_def rejected_def)
    have no: "evaluates_false (env_world env) (ev_expression (events u e))"
      "\<forall>f. doomed st {} e f \<longrightarrow> status (events st f) \<notin> {DISPOSED, HAPPENED}"
      using False v(1) e(1) by (auto simp: servable_def eu)
    have unmarked: "status (events st f) \<notin> {DISPOSED, HAPPENED}" if "f \<in> chosen env st P \<union> rejected env st P" for f
    proof -
      have "PENDING \<notin> {DISPOSED, HAPPENED}" by (simp add: PENDING_def DISPOSED_def HAPPENED_def)
      then show ?thesis using that P v(1) by (auto simp: chosen_def rejected_def servable_def)
    qed
    have "happened_finished \<notin> {DISPOSED, HAPPENED}" by (simp add: happened_finished_def DISPOSED_def HAPPENED_def FINISHED_def)
    then have "midway st {} u" using u unmarked by (auto simp: served_defs midway_def)
    moreover have "falling (\<lambda>e. N - \<rho> (time_sync_of (events st e))) st"
      using v(1) by (intro forward_falling) (simp add: servable_def)
    ultimately obtain u' where u': "run_event n env mx off tk e u = Done u'" "disposed_all st ?D (set_event e refreshed u) u'"
      using run_event_false[OF no(1), of _ st n] no(2) v(2) by fastforce
    have apart: "set (next_intervals (events st p)) \<inter> set (previous_intervals (events st f)) = {}"
      if "p \<in> chosen env st P" "f \<in> ?D" for p f
      using served_apart[OF v(1) sub, of p f] that by (simp add: sets)
    have "set (running_intervals u') = set (running_intervals st)
        - (\<Union>f \<in> chosen env st (insert e P) \<union> rejected env st (insert e P). set (previous_intervals (events st f)))
        \<union> (\<Union>f \<in> chosen env st (insert e P). set (next_intervals (events st f)))"
      using u u'(2) apart unfolding served_defs disposed_all_def sets frame_simps by auto
    moreover have "events u' f = (if f \<in> chosen env st (insert e P) then happened (events st f)
        else if f \<in> rejected env st (insert e P) then (if f \<in> insert e P then refreshed (events st f) else events st f)\<lparr>status := disposed_finished\<rparr>
        else events st f)" for f
    proof -
      have "f \<in> ?D \<Longrightarrow> f \<notin> chosen env st P" "f \<in> ?D \<Longrightarrow> f \<in> P \<Longrightarrow> f = e"
        using servable_rank[OF v(1) e(1), of f] P e v(1) by (auto simp: chosen_def servable_def)
      moreover have "e \<in> ?D" by (simp add: doomed_self)
      ultimately show ?thesis
        using u u'(2) new eu e(2) by (auto simp: served_defs disposed_all_def sets frame_simps refreshed_def)
    qed
    moreover have "shape (set_event e refreshed u) = shape u" by (auto simp: shape_def frame_simps fun_eq_iff refreshed_def)
    ultimately show ?thesis using u u' by (simp add: served_defs disposed_all_def frame_simps)
  qed
qed

lemma each_run_event:
  assumes v: "servable env \<rho> N s st" "N < n" and es: "distinct es" "set es \<subseteq> set (pending_events st)"
  shows "P \<subseteq> set (pending_events st) \<Longrightarrow> P \<inter> set es = {} \<Longrightarrow> served env st P u \<Longrightarrow>
    \<exists>u'. each (run_event n env mx off tk) es u = Done u' \<and> served env st (P \<union> set es) u'"
  using es
proof (induction es arbitrary: P u)
  case (Cons e es)
  obtain u1 where u1: "run_event n env mx off tk e u = Done u1" "served env st (insert e P) u1"
    using served_step[OF v Cons.prems(1), of e u mx off tk] Cons.prems by auto
  then obtain u2 where "each (run_event n env mx off tk) es u1 = Done u2" "served env st (insert e P \<union> set es) u2"
    using Cons.IH[of "insert e P" u1] Cons.prems by auto
  then show ?case using u1 by auto
qed simp

definition sync_at_rest :: "'d time_sync \<Rightarrow> bool" where
  "sync_at_rest v \<longleftrightarrow> \<not> evaluating v \<and> \<not> being_triggered v \<and> \<not> trigger_request v \<and> trigger_date v = Infinite"

lemma observe_keeps:
  assumes "observe_expression b s st = Done st'"
  shows "trigger_date (syncs st' s) = trigger_date (syncs st s) \<and> being_triggered (syncs st' s) = being_triggered (syncs st s)
    \<and> trigger_request (syncs st' s) = trigger_request (syncs st s)"
  using assms
  by (auto simp: observe_expression_def observe_expression_impl_def Let_def remove_observer_def frame_simps fun_eq_iff
      split: option.splits expr.splits if_splits)

lemma observe_off: "\<exists>st'. observe_expression False s st = Done st'"
  by (auto simp: observe_expression_def observe_expression_impl_def Let_def split: option.splits expr.splits)

lemma finish_sync_fields:
  "events (finish_sync s mx st) = events st" "running_intervals (finish_sync s mx st) = running_intervals st"
  "exclusive (finish_sync s mx st) = exclusive st"
  "syncs (finish_sync s mx st) s = (syncs st s)\<lparr>evaluating := False, sync_done := (if mx then DONE_MAX_REACHED else DONE_TRIGGERED)\<rparr>"
  by (simp_all add: finish_sync_def frame_simps)

lemma servable_same_run:
  assumes "same_run st st'"
  shows "servable env \<rho> N s st' \<longleftrightarrow> servable env \<rho> N s st"
proof -
  have f: "events st' = events st" "intervals st' = intervals st" "pending_events st' = pending_events st"
    and te: "time_events (syncs st' x) = time_events (syncs st x)" for x
    using assms by (simp_all add: same_run_def)
  then have "forward_graph \<rho> N st' \<longleftrightarrow> forward_graph \<rho> N st" by (simp add: forward_graph_def sync_of_end_def)
  then show ?thesis by (simp add: servable_def consistent_def f doomed_cong[OF f(1,2)])
qed

lemma served_same_run:
  assumes "same_run st st'"
  shows "served_events env st' P u \<longleftrightarrow> served_events env st P u"
proof -
  have f: "events st' = events st" "intervals st' = intervals st" "running_intervals st' = running_intervals st"
    using assms by (simp_all add: same_run_def)
  then have c: "chosen env st' P = chosen env st P" by (simp add: chosen_def)
  have "rejected env st' P = rejected env st P" by (simp add: rejected_def c doomed_cong[OF f(1,2)])
  then show ?thesis by (simp add: served_events_def f c)
qed

lemma fire_sync_runs:
  assumes "\<not> exclusive st" and "\<forall>x. sync_expression (syncs st s) = Some x \<longrightarrow> complete x"
    and "distinct (pending_events st)" and v: "servable env \<rho> N s st" "N < n"
  shows "\<exists>st'. fire_sync n env s off tk mx st = Done (DONE, st') \<and> served_events env st (set (pending_events st)) st'
    \<and> sync_at_rest (syncs st' s) \<and> sync_done (syncs st' s) = (if mx then DONE_MAX_REACHED else DONE_TRIGGERED)"
proof -
  let ?st0 = "set_is_being_triggered False s st"
  have r0: "same_run st ?st0" by (rule same_run_ops)
  have s0: "\<not> being_triggered (syncs ?st0 s)" "\<not> trigger_request (syncs ?st0 s)" "trigger_date (syncs ?st0 s) = Infinite"
    "sync_expression (syncs ?st0 s) = sync_expression (syncs st s)"
    by (auto simp: set_is_being_triggered_def Let_def frame_simps)
  obtain st1 where 1: "reset_expression s ?st0 = Done st1" "same_run ?st0 st1"
    and s1: "\<not> being_triggered (syncs st1 s)" "\<not> trigger_request (syncs st1 s)" "trigger_date (syncs st1 s) = Infinite"
  proof (cases "sync_expression (syncs st s)")
    case None
    then show ?thesis using that[of ?st0] s0 same_run_refl by (auto simp: reset_expression_def)
  next
    case (Some x)
    then obtain x' where x': "reset x = Inr x'" using reset_complete assms(2) by blast
    have "reset_expression s ?st0 = Done (set_sync s (\<lambda>v. v\<lparr>sync_expression := Some x'\<rparr>) ?st0)"
      using Some s0(4) by (simp add: reset_expression_def x' lift_expr_def)
    then show ?thesis using that[of "set_sync s (\<lambda>v. v\<lparr>sync_expression := Some x'\<rparr>) ?st0"] s0
      by (simp add: frame_simps same_run_set_sync same_run_refl)
  qed
  have r1: "same_run st st1" by (rule same_run_trans[OF r0 1(2)])
  then have e1: "events st1 = events st" "pending_events st1 = pending_events st" and x1: "exclusive st1 = exclusive st"
    by (simp_all add: same_run_def)
  have v1: "servable env \<rho> N s st1" using servable_same_run[OF r1] v(1) by simp
  have "served env st1 {} st1" by (simp add: served_defs chosen_def rejected_def)
  then obtain st2 where 2: "each (run_event n env mx off tk) (pending_events st1) st1 = Done st2"
      "served env st1 (set (pending_events st)) st2"
    using each_run_event[OF v1 v(2), of "pending_events st1" "{}" st1 mx off tk] assms(3) by (auto simp: e1)
  obtain st3 where 3: "observe_expression False s st2 = Done st3" using observe_off by blast
  note f3 = same_run_observe[OF 3, unfolded same_run_def]
  have s2: "syncs st2 = syncs st1" "exclusive st2 = exclusive st1" using 2(2) by (simp_all add: served_def)
  then have s3: "\<not> being_triggered (syncs st3 s)" "\<not> trigger_request (syncs st3 s)" "trigger_date (syncs st3 s) = Infinite"
    using observe_keeps[OF 3] s1 by auto
  let ?st4 = "finish_sync s mx st3"
  have "\<not> exclusive ?st4" using assms(1) x1 f3 s2 by (simp add: finish_sync_fields)
  then have "fire_sync n env s off tk mx st = Done (DONE, ?st4)"
    by (simp add: fire_sync_def 1(1) 2(1) 3 Let_def)
  moreover have "served_events env st (set (pending_events st)) st2" using served_same_run[OF r1] 2(2) by (simp add: served_def)
  ultimately show ?thesis
    using f3 s3 by (auto simp: served_events_def finish_sync_fields sync_at_rest_def)
qed

text \<open>C7: a sync whose condition is absent or the constant true, or one that has waited for its maximal duration, serves
  its pending events and is left neither evaluating nor being triggered, with no request or date pending. The events whose
  expressions are true happen and are finished. The others are disposed and finished, and so is what their disposal
  reaches behind them. No other event changes. The intervals before all of these leave the running intervals
  and the ones after the events that happened join. This is for a graph without cycles, whose objects refer to
  each other consistently, and enough fuel for it; a scenario that is not exclusive; a condition of the sync without an empty
  operand; pending events of the sync, listed once each, whose expressions can be evaluated; and disposals that reach no
  event that has happened without being finished or is marked as disposed without being finished.\<close>

theorem trigger_runs_events:
  assumes "sync_expression (syncs st s) \<in> {None, Some (Constant True)} \<or> mx"
    and "\<not> exclusive st" and "\<forall>x. sync_expression (syncs st s) = Some x \<longrightarrow> complete x"
    and "distinct (pending_events st)" and "servable env \<rho> N s st" and "N < n"
  shows "\<exists>st'. trigger_sync n env s off tk mx st = Done (DONE, st')
    \<and> (let T = {e \<in> set (pending_events st). evaluates_true (env_world env) (ev_expression (events st e))};
           D = {f. \<exists>e \<in> set (pending_events st) - T. doomed st {} e f}
       in (\<forall>e. status (events st' e) = (if e \<in> T then happened_finished else if e \<in> D then disposed_finished else status (events st e)))
        \<and> (\<forall>e. e \<notin> T \<union> D \<longrightarrow> events st' e = events st e)
        \<and> set (running_intervals st') =
            set (running_intervals st) - (\<Union>e \<in> T \<union> D. set (previous_intervals (events st e))) \<union> (\<Union>e \<in> T. set (next_intervals (events st e))))
    \<and> sync_at_rest (syncs st' s) \<and> sync_done (syncs st' s) = (if mx then DONE_MAX_REACHED else DONE_TRIGGERED)"
proof -
  let ?st1 = "enter_evaluation s st"
  have r: "same_run st ?st1" by (rule same_run_ops)
  have x: "sync_expression (syncs ?st1 s) = sync_expression (syncs st s)"
    by (simp add: enter_evaluation_def end_trigger_request_def frame_simps)
  have "\<not> waits_for_expression s mx ?st1" using assms(1) by (auto simp: waits_for_expression_def x)
  then have run: "trigger_sync n env s off tk mx st = fire_sync n env s off tk mx ?st1"
    by (simp add: trigger_sync_def Let_def)
  have f: "exclusive ?st1 = exclusive st" "pending_events ?st1 = pending_events st" using r by (simp_all add: same_run_def)
  have "servable env \<rho> N s ?st1" using assms(5) servable_same_run[OF r] by simp
  then obtain st' where u: "fire_sync n env s off tk mx ?st1 = Done (DONE, st')" "served_events env st (set (pending_events st)) st'"
      "sync_at_rest (syncs st' s)" "sync_done (syncs st' s) = (if mx then DONE_MAX_REACHED else DONE_TRIGGERED)"
    using fire_sync_runs[of ?st1 s env \<rho> N n off tk mx] assms(2-4,6) served_same_run[OF r] by (auto simp: f x)
  then show ?thesis
    by (intro exI[of _ st']) (simp add: run served_events_def chosen_def rejected_def Let_def)
qed

section \<open>Quantification\<close>

text \<open>a sync that is put off to the date \<open>q\<close> is asked again, and each interval that leads to it is to end
  when it has advanced by the time from the start of the tick to just before \<open>q\<close>, unless an end was fixed
  for it before.\<close>

theorem quantify_fixes_ends:
  assumes "quantification_date env tk (sync_rate (syncs st s)) = Some q"
  shows "\<exists>st'. quantify_time_sync env s tk st = Done (RETRY, st') \<and> trigger_date (syncs st' s) = q
    \<and> (\<forall>i. itv_end_map st' i =
         (if i \<in> set (sync_previous st s) \<and> itv_end_map st i = None
          then Some (tv_plus (itv_date (intervals st i)) (tv_minus (tv_minus q (prev_date tk)) One_tv))
          else itv_end_map st i))
    \<and> same_run st st'"
proof -
  let ?d = "tv_minus (tv_minus q (prev_date tk)) One_tv" and ?st1 = "set_trigger_date s q st"
  have ins: "itv_end_map (fold (\<lambda>i st. end_map_insert i (tv_plus (itv_date (intervals st i)) ?d) st) is u) j =
      (if j \<in> set is \<and> itv_end_map u j = None then Some (tv_plus (itv_date (intervals u j)) ?d) else itv_end_map u j)
    \<and> syncs (fold (\<lambda>i st. end_map_insert i (tv_plus (itv_date (intervals st i)) ?d) st) is u) = syncs u"
    for "is" j and u :: "'a scenario"
  proof (induction "is" arbitrary: u)
    case (Cons i js)
    show ?case using Cons.IH[of "end_map_insert i (tv_plus (itv_date (intervals u i)) ?d) u"]
      by (auto simp: end_map_insert_def)
  qed simp
  have p: "sync_previous ?st1 s = sync_previous st s" "intervals ?st1 = intervals st" "itv_end_map ?st1 = itv_end_map st"
    "trigger_date (syncs ?st1 s) = q"
    by (simp_all add: set_trigger_date_def frame_simps sync_previous_def)
  define st2 where "st2 = fold (\<lambda>i st. end_map_insert i (tv_plus (itv_date (intervals st i)) ?d) st) (sync_previous ?st1 s) ?st1"
  obtain st3 where 3: "observe_expression False s st2 = Done st3" using observe_off by blast
  have q: "quantify_time_sync env s tk st = Done (RETRY, st3)"
    using 3 by (simp add: quantify_time_sync_def assms Let_def st2_def)
  have "itv_end_map st3 = itv_end_map st2"
    using 3 by (auto simp: observe_expression_def observe_expression_impl_def Let_def remove_observer_def frame_simps
        split: option.splits expr.splits if_splits)
  moreover have "trigger_date (syncs st3 s) = q"
  proof -
    have "syncs st2 = syncs ?st1" unfolding st2_def by (rule conjunct2[OF ins])
    then show ?thesis using observe_keeps[OF 3] p(4) by auto
  qed
  moreover have "itv_end_map st2 i =
      (if i \<in> set (sync_previous st s) \<and> itv_end_map st i = None then Some (tv_plus (itv_date (intervals st i)) ?d)
       else itv_end_map st i)" for i
    using conjunct1[OF ins[of "sync_previous ?st1 s" ?st1 i]] unfolding st2_def p .
  ultimately show ?thesis using q same_run_quantify[OF q] by auto
qed

section \<open>Errors\<close>

text \<open>an event that happens to have the status \<open>HAPPENED\<close> cannot be disposed, and an event whose
  expression cannot be evaluated neither happens nor is disposed: both raise an exception. But an event that
  has happened and is finished is disposed without one.\<close>

theorem disposal_errors:
  "(status (events st e) = HAPPENED \<longrightarrow> make_dispose (Suc n) e st = Throw Execution_error)
   \<and> (\<forall>x. update (ev_expression (events st e)) = Inl x \<longrightarrow> run_event n env mx off tk e st = Throw (Expression_error x))
   \<and> (\<forall>x y p. update (ev_expression (events st e)) = Inr (x, p) \<longrightarrow> evaluate (env_world env) x = Inl y \<longrightarrow>
        run_event n env mx off tk e st = Throw (Expression_error y))
   \<and> (status (events st e) = happened_finished \<longrightarrow> next_intervals (events st e) = [] \<longrightarrow>
        (\<exists>st'. make_dispose (Suc n) e st = Done st' \<and> status (events st' e) = disposed_finished))"
proof (intro conjI impI allI)
  assume h: "status (events st e) = happened_finished" and n: "next_intervals (events st e) = []"
  then have "status (events st e) \<noteq> HAPPENED" by (simp add: happened_finished_def HAPPENED_def FINISHED_def)
  then have "\<exists>st'. make_dispose (Suc n) e st = Done st'"
    using n by (simp add: make_dispose.simps(2) Let_def frame_simps fold_stop_fields)
  then show "\<exists>st'. make_dispose (Suc n) e st = Done st' \<and> status (events st' e) = disposed_finished"
    using make_dispose_disposes by blast
qed (auto simp: make_dispose.simps(2) run_event_def lift_expr_def Let_def)

section \<open>Examples\<close>

definition demo_env :: "rat env" where
  "demo_env = \<lparr>env_world = demo_world, env_fpu = rat_fpu, tempo_curve = (\<lambda>_ _. 120)\<rparr>"

definition with_status :: "8 word \<Rightarrow> rat scenario" where
  "with_status s = demo_pair\<lparr>events := (\<lambda>e. (events demo_pair e)\<lparr>status := s\<rparr>)\<rparr>"

lemma timesync_readiness_witness:
  "\<exists>st' ready mx. is_timesync_ready 0 demo_pair = (st', ready, mx) \<and> pending_events st' = [0] \<and> ready"
proof -
  have "becomes_pending demo_pair 0" by (simp add: becomes_pending_def demo_pair_def demo_defs NONE_def)
  moreover have "time_events (syncs demo_pair 0) = [0]" "sync_previous demo_pair 0 = []"
    by (simp_all add: sync_previous_def demo_pair_def demo_defs)
  ultimately show ?thesis using timesync_readiness[of demo_pair 0] by auto
qed

lemma disposed_event_pends_again_witness:
  "\<exists>st' ready mx. is_timesync_ready 1 (with_status disposed_finished) = (st', ready, mx) \<and> status (events st' 1) = PENDING"
proof -
  let ?st = "with_status disposed_finished"
  have "distinct (time_events (syncs ?st 1))"
    and "\<forall>i \<in> set (sync_previous ?st 1). start_event (intervals ?st i) \<notin> set (time_events (syncs ?st 1))"
    and "1 \<in> set (time_events (syncs ?st 1))" and "status (events ?st 1) = disposed_finished"
    and "\<forall>i \<in> set (previous_intervals (events ?st 1)). status (events ?st (start_event (intervals ?st i))) = disposed_finished"
    by (auto simp: with_status_def sync_previous_def demo_pair_def demo_defs)
  from disposed_event_pends_again[OF this] show ?thesis by blast
qed

lemma not_triggered_nothing_moves_witness:
  "\<exists>st'. process_this 5 demo_env 1 Zero_tv demo_token demo_pair = Done (NOT_READY, st') \<and> intervals st' = intervals demo_pair"
proof -
  have e: "time_events (syncs demo_pair 1) = [1]" "sync_previous demo_pair 1 = [0]" "start_event (intervals demo_pair 0) = 0"
    "status (events demo_pair 1) = NONE" "previous_intervals (events demo_pair 1) = [0]" "status (events demo_pair 0) = NONE"
    "\<not> graphal (intervals demo_pair 0)"
    by (simp_all add: sync_previous_def demo_pair_def demo_defs)
  have "\<not> becomes_pending demo_pair 1" "\<not> leaves_count demo_pair 1"
    using status_facts
    by (auto simp: becomes_pending_def leaves_count_def reached_min_def Let_def e[unfolded One_nat_def] is_happened_def is_pending_def NONE_def HAPPENED_def PENDING_def
        is_finished_def is_disposed_def DISPOSED_def FINISHED_def)
  then obtain st1 mx where "is_timesync_ready 1 demo_pair = (st1, False, mx)"
    using timesync_readiness[of demo_pair 1] e by auto
  then have "process_this 5 demo_env 1 Zero_tv demo_token demo_pair = Done (NOT_READY, leave_evaluation 1 st1)"
    by (simp add: process_this_def)
  then show ?thesis using not_triggered_nothing_moves[of 5 demo_env 1 Zero_tv demo_token demo_pair] e by auto
qed

text \<open>A sync with two events: the expression of the first is true, that of the second false.\<close>

definition demo_choice :: "rat scenario" where
  "demo_choice = (demo_store (\<lambda>i. if i = 0 then demo_itv 0 2 else demo_itv 1 3)
     (\<lambda>e. (if e = 0 then demo_event 0 [] [0] else if e = 1 then (demo_event 0 [] [1])\<lparr>ev_expression := Constant False\<rparr>
           else if e = 2 then demo_event 1 [0] [] else if e = 3 then demo_event 1 [1] [] else demo_event e [] [])
         \<lparr>status := (if e < 2 then PENDING else NONE)\<rparr>)
     (\<lambda>s. demo_sync (s = 0) (if s = 0 then [0, 1] else if s = 1 then [2, 3] else [])) [0, 1] [0, 1])\<lparr>pending_events := [0, 1]\<rparr>"

lemma demo_choice_servable: "servable demo_env (\<lambda>s. if s = 0 then 0 else 1) 1 0 demo_choice"
proof -
  have "doomed demo_choice {} 1 f \<Longrightarrow> f = 1 \<or> f = 3" for f
    by (subst (asm) doomed_iff, subst (asm) doomed_iff) (auto simp: demo_choice_def demo_defs)
  moreover have "status (events demo_choice f) \<notin> {DISPOSED, HAPPENED}" if "f = 1 \<or> f = 3" for f
    using that by (auto simp: demo_choice_def demo_defs NONE_def PENDING_def DISPOSED_def HAPPENED_def)
  ultimately have "\<forall>f. doomed demo_choice {} 1 f \<longrightarrow> status (events demo_choice f) \<notin> {DISPOSED, HAPPENED}" by blast
  moreover have "pending_events demo_choice = [0, 1]" "evaluates_true (env_world demo_env) (ev_expression (events demo_choice 0))"
    "evaluates_false (env_world demo_env) (ev_expression (events demo_choice 1))"
    "\<forall>e \<in> {0, 1}. time_sync_of (events demo_choice e) = 0 \<and> status (events demo_choice e) = PENDING"
    by (auto simp: demo_choice_def demo_defs evaluates_true_def evaluates_false_def)
  moreover have "forward_graph (\<lambda>s. if s = 0 then 0 else 1) 1 demo_choice" "consistent demo_choice"
    by (auto simp: forward_graph_def consistent_def sync_of_end_def demo_choice_def demo_defs)
  ultimately show ?thesis by (auto simp: servable_def)
qed

lemma trigger_runs_events_witness:
  "\<exists>st'. trigger_sync 5 demo_env 0 Zero_tv demo_token False demo_choice = Done (DONE, st')
    \<and> status (events st' 0) = happened_finished \<and> status (events st' 1) = disposed_finished \<and> sync_at_rest (syncs st' 0)"
proof -
  have "sync_expression (syncs demo_choice 0) \<in> {None, Some (Constant True)} \<or> False" "\<not> exclusive demo_choice"
    "\<forall>x. sync_expression (syncs demo_choice 0) = Some x \<longrightarrow> complete x" "distinct (pending_events demo_choice)" "(1::nat) < 5"
    and p: "pending_events demo_choice = [0, 1]" "evaluates_true (env_world demo_env) (ev_expression (events demo_choice 0))"
    "\<not> evaluates_true (env_world demo_env) (ev_expression (events demo_choice (Suc 0)))"
    by (simp_all add: demo_choice_def demo_defs evaluates_true_def)
  from trigger_runs_events[OF this(1-4) demo_choice_servable this(5), of Zero_tv demo_token] obtain st' where
    st': "trigger_sync 5 demo_env 0 Zero_tv demo_token False demo_choice = Done (DONE, st')" "sync_at_rest (syncs st' 0)"
      "status (events st' 0) = happened_finished" "status (events st' 1) = disposed_finished"
    by (auto simp: p Let_def doomed_self)
  then show ?thesis by blast
qed

lemma demo_quantification: "quantification_date demo_env demo_token r = Some (Time_value 0)"
  by (simp add: get_quantification_date_def get_quantification_point_def get_quantification_dates_def demo_env_def demo_token_def
      make_token_request_def tk_backward_def tv_defs tv_consts Zero_tv_def Let_def)

lemma quantify_fixes_ends_witness:
  "\<exists>st'. quantify_time_sync demo_env 1 demo_token demo_pair = Done (RETRY, st') \<and> trigger_date (syncs st' 1) = Time_value 0"
  using quantify_fixes_ends[OF demo_quantification] by blast

lemma disposal_errors_witness: "make_dispose (Suc 4) 0 (with_status HAPPENED) = Throw Execution_error"
proof -
  have "status (events (with_status HAPPENED) 0) = HAPPENED" by (simp add: with_status_def)
  then show ?thesis using disposal_errors[of "with_status HAPPENED" 0 4] by blast
qed

end
