(* ===== verification/ScenarioLifecycle.thy ===== *)
theory ScenarioLifecycle
  imports ScenarioGraph
begin

text \<open>
  The scenario as a whole (scenario.cpp): its intervals and syncs, starting and stopping it, the requests to
  start or stop an interval, and the durations that an offset overrides and that are put back afterwards
  (detail/scenario_offset.cpp).
\<close>

section \<open>Operations\<close>

definition get_roots :: "'d scenario \<Rightarrow> nat list" where
  "get_roots st = filter (\<lambda>s. is_start (syncs st s)) (nodes_list st)"

definition make_rigid :: "nat \<Rightarrow> time_value \<Rightarrow> time_value \<Rightarrow> 'd scenario \<Rightarrow> 'd scenario" where
  "make_rigid i mn mx st =
     (let v = intervals st i;
          saved = (if \<exists>x \<in> set (offset_durations st). fst x = i then offset_durations st
                   else insort_key fst (i, min_duration v, max_duration v) (offset_durations st))
      in set_interval i (\<lambda>v. set_max_duration mx (set_min_duration mn v)) (st\<lparr>offset_durations := saved\<rparr>))"

definition restore_durations :: "'d scenario \<Rightarrow> 'd scenario" where
  "restore_durations st =
     (fold (\<lambda>(i, mn, mx). set_interval i (\<lambda>v. set_max_duration mx (set_min_duration mn v))) (offset_durations st) st)
       \<lparr>offset_durations := []\<rparr>"

text \<open>The interval is started, passed over or wrong according to the status of its two ends.\<close>

definition start_one :: "nat \<Rightarrow> 'd::zero step" where
  "start_one i st =
     (let v = intervals st i; s = status (events st (start_event v)); e = status (events st (end_event v))
      in if s = HAPPENED \<and> e = HAPPENED then Done st
         else if s = PENDING \<and> e = NONE then Done st
         else if s = HAPPENED \<and> e = NONE then Done (interval_start i (add_running i st))
         else if s = NONE \<and> e = HAPPENED then Done st
         else if s = HAPPENED \<and> e = PENDING then Done (interval_start i (add_running i st))
         else if s = NONE \<and> e = NONE then Done st
         else if s = DISPOSED \<and> e = DISPOSED then Done st
         else Throw Execution_error)"

definition scenario_start :: "'d::zero step" where
  "scenario_start st =
     (let st1 = st\<lparr>root_nodes := get_roots st\<rparr>;
          st2 = st1\<lparr>waiting_nodes := fold flat_insert (root_nodes st1) (waiting_nodes st1)\<rparr>
      in and_then (each sync_reset (nodes_list st2) st2) (\<lambda>st3. each start_one (scenario_intervals st3) st3))"

definition scenario_stop :: "'d::zero step" where
  "scenario_stop st =
     and_then (each sync_reset (nodes_list st) (fold interval_stop (scenario_intervals st) st)) (\<lambda>st1.
       Done ((restore_durations
         (st1\<lparr>running_intervals := [], itv_to_start := [], itv_to_stop := [], waiting_nodes := [], pending_events := [],
              max_reached_events := [], overticks := (\<lambda>_. None), itv_end_map := (\<lambda>_. None)\<rparr>))\<lparr>last_date := Infinite\<rparr>))"

definition scenario_pause :: "'d scenario \<Rightarrow> 'd scenario" where
  "scenario_pause st = fold interval_pause (scenario_intervals st) st"

definition scenario_resume :: "'d scenario \<Rightarrow> 'd scenario" where
  "scenario_resume st = fold interval_resume (scenario_intervals st) st"

definition add_time_interval :: "nat \<Rightarrow> 'd scenario \<Rightarrow> 'd scenario" where
  "add_time_interval i st =
     (if i \<in> set (scenario_intervals st) then st
      else
        (let t = sync_of_end st i;
             end_root = (tv_neq (last_date st) Infinite \<and> is_start (syncs st t));
             st1 = (if muted st then interval_mute True i st else st);
             st2 = st1\<lparr>scenario_intervals := scenario_intervals st1 @ [i]\<rparr>
         in if end_root then
              (let st3 = st2\<lparr>waiting_nodes := flat_erase t (waiting_nodes st2)\<rparr> in st3\<lparr>root_nodes := get_roots st3\<rparr>)
            else st2))"

text \<open>Erasing the first request for an interval.\<close>

definition erase_request :: "nat \<Rightarrow> (nat \<times> 'd \<times> time_value) list \<Rightarrow> (nat \<times> 'd \<times> time_value) list" where
  "erase_request i rs =
     (case find (\<lambda>r. fst r = i) rs of
        None \<Rightarrow> rs
      | Some _ \<Rightarrow> takeWhile (\<lambda>r. fst r \<noteq> i) rs @ tl (dropWhile (\<lambda>r. fst r \<noteq> i) rs))"

definition remove_time_interval :: "nat option \<Rightarrow> 'd scenario \<Rightarrow> 'd scenario" where
  "remove_time_interval itv st =
     (case itv of
        None \<Rightarrow> st
      | Some i \<Rightarrow>
          (let t = sync_of_end st i;
               st1 = (if tv_neq (last_date st) Infinite then
                        (let st' = (if is_start (syncs st t) then st\<lparr>waiting_nodes := flat_insert t (waiting_nodes st)\<rparr> else st)
                         in st'\<lparr>root_nodes := get_roots st'\<rparr>)
                      else st)
           in st1\<lparr>running_intervals := flat_erase i (running_intervals st1),
                  itv_to_start := erase_request i (itv_to_start st1),
                  itv_to_stop := erase_request i (itv_to_stop st1),
                  itv_end_map := (itv_end_map st1)(i := None),
                  offset_durations := filter (\<lambda>x. fst x \<noteq> i) (offset_durations st1),
                  scenario_intervals := remove1 i (scenario_intervals st1)\<rparr>))"

definition add_time_sync :: "nat \<Rightarrow> 'd scenario \<Rightarrow> 'd scenario" where
  "add_time_sync t st =
     (if t \<in> set (nodes_list st) then st
      else
        (let st1 = (if muted st then sync_mute True t st else st);
             st2 = st1\<lparr>nodes_list := nodes_list st1 @ [t]\<rparr>
         in if tv_neq (last_date st) Infinite \<and> is_start (syncs st2 t) then
              (let st3 = st2\<lparr>waiting_nodes := flat_insert t (waiting_nodes st2)\<rparr> in st3\<lparr>root_nodes := get_roots st3\<rparr>)
            else st2))"

definition remove_time_sync :: "nat option \<Rightarrow> 'd scenario \<Rightarrow> 'd scenario" where
  "remove_time_sync sync st =
     (case sync of
        None \<Rightarrow> st
      | Some t \<Rightarrow>
          st\<lparr>waiting_nodes := flat_erase t (waiting_nodes st), root_nodes := remove1 t (root_nodes st),
             overticks := (overticks st)(t := None), end_nodes := flat_erase t (end_nodes st),
             retry_syncs := flat_erase t (retry_syncs st), nodes_list := remove1 t (nodes_list st)\<rparr>)"

definition reset_subgraph :: "nat list \<Rightarrow> nat list \<Rightarrow> 'd::zero step" where
  "reset_subgraph ss is st =
     and_then (each sync_reset ss st) (\<lambda>st1. Done (fold (\<lambda>i st. erase_end_map i (erase_running i (interval_stop i st))) is st1))"

definition set_exclusive :: "bool \<Rightarrow> 'd scenario \<Rightarrow> 'd scenario" where
  "set_exclusive b st = st\<lparr>exclusive := b\<rparr>"

definition mute_impl :: "bool \<Rightarrow> 'd scenario \<Rightarrow> 'd scenario" where
  "mute_impl m st = fold (sync_mute m) (nodes_list st) (fold (interval_mute m) (scenario_intervals st) st)"

definition request_start_interval :: "nat \<Rightarrow> 'd \<Rightarrow> time_value \<Rightarrow> 'd scenario \<Rightarrow> 'd scenario" where
  "request_start_interval i ratio from st = st\<lparr>itv_to_start := itv_to_start st @ [(i, ratio, from)]\<rparr>"

definition request_stop_interval :: "nat \<Rightarrow> 'd \<Rightarrow> 'd scenario \<Rightarrow> 'd scenario" where
  "request_stop_interval i ratio st = st\<lparr>itv_to_stop := itv_to_stop st @ [(i, ratio, Time_value 0)]\<rparr>"

section \<open>Starting and stopping\<close>

lemma each_sync_reset:
  assumes "syncs_complete st"
  shows "\<exists>st'. each sync_reset ss st = Done st' \<and> syncs_complete st' \<and> shape st' = shape st
    \<and> intervals st' = intervals st \<and> running_intervals st' = running_intervals st \<and> nodes_list st' = nodes_list st
    \<and> (\<forall>e. events st' e = (if \<exists>s \<in> set ss. e \<in> set (time_events (syncs st s)) then (events st e)\<lparr>status := NONE\<rparr> else events st e))
    \<and> (\<forall>s \<in> set ss. \<not> being_triggered (syncs st' s))"
  using assms
proof (induction ss arbitrary: st rule: rev_induct)
  case (snoc s ss)
  obtain st1 where 1: "each sync_reset ss st = Done st1" "syncs_complete st1" "shape st1 = shape st"
      "intervals st1 = intervals st" "running_intervals st1 = running_intervals st" "nodes_list st1 = nodes_list st"
      "\<forall>e. events st1 e = (if \<exists>s \<in> set ss. e \<in> set (time_events (syncs st s)) then (events st e)\<lparr>status := NONE\<rparr> else events st e)"
      "\<forall>s \<in> set ss. \<not> being_triggered (syncs st1 s)"
    using snoc by blast
  obtain st2 where 2: "sync_reset s st1 = Done st2" "syncs_complete st2" "shape st2 = shape st1"
      "intervals st2 = intervals st1" "running_intervals st2 = running_intervals st1" "nodes_list st2 = nodes_list st1"
      "events st2 = (\<lambda>e. if e \<in> set (time_events (syncs st1 s)) then (events st1 e)\<lparr>status := NONE\<rparr> else events st1 e)"
      "being_triggered (syncs st2 s) = False" "\<forall>t. t \<noteq> s \<longrightarrow> syncs st2 t = syncs st1 t"
    using sync_reset_done[OF 1(2)] by blast
  have te: "time_events (syncs st1 s) = time_events (syncs st s)" using shape_fields(7)[OF 1(3)] .
  have "\<forall>e. events st2 e = (if \<exists>s \<in> set (ss @ [s]). e \<in> set (time_events (syncs st s)) then (events st e)\<lparr>status := NONE\<rparr> else events st e)"
    using 1(7) by (auto simp: 2(7) te)
  moreover have "\<forall>t \<in> set (ss @ [s]). \<not> being_triggered (syncs st2 t)" using 1(8) 2(8,9) by (metis Un_iff insert_iff list.set set_append empty_iff)
  ultimately show ?case using 1 2 by (simp add: each_append)
qed simp

text \<open>Every interval of the scenario lies between events of its syncs.\<close>

definition intervals_inside :: "'d scenario \<Rightarrow> bool" where
  "intervals_inside st \<longleftrightarrow>
     (\<forall>i \<in> set (scenario_intervals st). \<forall>e \<in> {start_event (intervals st i), end_event (intervals st i)}.
        \<exists>s \<in> set (nodes_list st). e \<in> set (time_events (syncs st s)))"

lemma each_same: "(\<And>x. x \<in> set xs \<Longrightarrow> f x s = Done s) \<Longrightarrow> each f xs s = Done s"
  by (induction xs) simp_all

lemma fold_event_reset_lists:
  "scenario_intervals (fold event_reset es u) = scenario_intervals u" "nodes_list (fold event_reset es u) = nodes_list u"
  by (induction es arbitrary: u) (simp_all add: event_reset_def frame_simps)

lemma remove_observer_lists:
  "scenario_intervals (remove_observer s st) = scenario_intervals st" "nodes_list (remove_observer s st) = nodes_list st"
  by (simp_all add: remove_observer_def frame_simps)

lemma sync_reset_lists:
  assumes "sync_reset s st = Done st'"
  shows "scenario_intervals st' = scenario_intervals st \<and> nodes_list st' = nodes_list st"
proof -
  obtain st1 where 1: "(if sync_expression (syncs st s) = None then Done st else reset_expression s (remove_observer s st)) = Done st1"
    and 2: "st' = set_sync s
        (\<lambda>v. v\<lparr>trigger_date := Infinite, sync_done := NOT_DONE, observing := False, evaluating := False, being_triggered := False\<rparr>)
        (fold event_reset (time_events (syncs st1 s)) st1)"
    using assms unfolding sync_reset_def and_then_eq_Done by blast
  have "scenario_intervals st1 = scenario_intervals st \<and> nodes_list st1 = nodes_list st"
  proof (cases "sync_expression (syncs st s)")
    case None
    then show ?thesis using 1 by simp
  next
    case (Some e)
    then have "reset_expression s (remove_observer s st) = Done st1" using 1 by simp
    then show ?thesis
      by (auto simp: reset_expression_def and_then_eq_Done remove_observer_lists frame_simps split: option.splits)
  qed
  then show ?thesis by (simp add: 2 frame_simps fold_event_reset_lists)
qed

lemma each_sync_reset_lists:
  "each sync_reset ss st = Done st' \<Longrightarrow> scenario_intervals st' = scenario_intervals st \<and> nodes_list st' = nodes_list st"
  by (rule each_invariant[where P = "\<lambda>u. scenario_intervals u = scenario_intervals st \<and> nodes_list u = nodes_list st"])
    (auto dest: sync_reset_lists)

text \<open>starting a scenario whose intervals lie between its own syncs resets every sync and starts no
  interval: the table of statuses it then goes through always finds two events without a status, so that it
  never raises the error it is there for.\<close>

theorem start_starts_nothing:
  assumes "syncs_complete st" and "intervals_inside st"
  shows "\<exists>st'. scenario_start st = Done st' \<and> intervals st' = intervals st \<and> running_intervals st' = running_intervals st
    \<and> (\<forall>s \<in> set (nodes_list st). \<forall>e \<in> set (time_events (syncs st s)). status (events st' e) = NONE)"
proof -
  define st2 where "st2 = st\<lparr>root_nodes := get_roots st, waiting_nodes := fold flat_insert (get_roots st) (waiting_nodes st)\<rparr>"
  have same: "nodes_list st2 = nodes_list st" "intervals st2 = intervals st" "events st2 = events st" "syncs st2 = syncs st"
    "running_intervals st2 = running_intervals st" "scenario_intervals st2 = scenario_intervals st"
    by (simp_all add: st2_def)
  have "syncs_complete st2" using assms(1) by (simp add: syncs_complete_def same)
  then obtain st3 where 3: "each sync_reset (nodes_list st) st2 = Done st3" "shape st3 = shape st2"
      "intervals st3 = intervals st" "running_intervals st3 = running_intervals st"
      "\<forall>e. events st3 e = (if \<exists>s \<in> set (nodes_list st). e \<in> set (time_events (syncs st s)) then (events st e)\<lparr>status := NONE\<rparr> else events st e)"
    using each_sync_reset[of st2 "nodes_list st"] by (auto simp: same)
  have li: "scenario_intervals st3 = scenario_intervals st" using each_sync_reset_lists[OF 3(1)] by (simp add: same)
  have "start_one i st3 = Done st3" if "i \<in> set (scenario_intervals st)" for i
  proof -
    have "status (events st3 (start_event (intervals st3 i))) = NONE" "status (events st3 (end_event (intervals st3 i))) = NONE"
      using assms(2) that by (simp_all add: intervals_inside_def 3(3,5))
    then show ?thesis by (simp add: start_one_def Let_def)
  qed
  then have "each start_one (scenario_intervals st3) st3 = Done st3" by (intro each_same) (simp add: li)
  then have "scenario_start st = Done st3"
    using 3(1) by (simp add: scenario_start_def Let_def st2_def[symmetric] same)
  moreover have "\<forall>s \<in> set (nodes_list st). \<forall>e \<in> set (time_events (syncs st s)). status (events st3 e) = NONE"
    unfolding 3(5)[rule_format] by simp blast
  ultimately show ?thesis using 3(3,4) by blast
qed

lemma fold_interval_stop:
  "intervals (fold interval_stop is st) = (\<lambda>j. if j \<in> set is then stopped (intervals st j) else intervals st j)"
  "syncs (fold interval_stop is st) = syncs st" "nodes_list (fold interval_stop is st) = nodes_list st"
  "events (fold interval_stop is st) = events st" "scenario_intervals (fold interval_stop is st) = scenario_intervals st"
  "offset_durations (fold interval_stop is st) = offset_durations st"
  by (induction "is" arbitrary: st) (auto simp: frame_simps fun_eq_iff)

lemma rigid_fields [simp]:
  "is_running (set_max_duration mx (set_min_duration mn v)) = is_running v"
  "start_event (set_max_duration mx (set_min_duration mn v)) = start_event v"
  "end_event (set_max_duration mx (set_min_duration mn v)) = end_event v"
  "graphal (set_max_duration mx (set_min_duration mn v)) = graphal v"
  by (simp_all add: set_max_eq set_min_eq clamp_date_def)

lemma rigid_interval_fields:
  "is_running (intervals (set_interval a (\<lambda>v. set_max_duration mx (set_min_duration mn v)) u) i) = is_running (intervals u i)"
  "start_event (intervals (set_interval a (\<lambda>v. set_max_duration mx (set_min_duration mn v)) u) i) = start_event (intervals u i)"
  by (simp_all add: set_interval_def)

lemma restore_loop_fields:
  "is_running (intervals (fold (\<lambda>(i, mn, mx). set_interval i (\<lambda>v. set_max_duration mx (set_min_duration mn v))) ds u) i) = is_running (intervals u i)
    \<and> (\<exists>is. fold (\<lambda>(i, mn, mx). set_interval i (\<lambda>v. set_max_duration mx (set_min_duration mn v))) ds u = u\<lparr>intervals := is\<rparr>)"
proof (induction ds arbitrary: u)
  case Nil
  have "u = u\<lparr>intervals := intervals u\<rparr>" by simp
  then show ?case unfolding fold_simps by blast
next
  case (Cons d ds)
  obtain a mn mx where d: "d = (a, mn, mx)" by (cases d)
  let ?u = "set_interval a (\<lambda>v. set_max_duration mx (set_min_duration mn v)) u"
  have u: "?u\<lparr>intervals := is\<rparr> = u\<lparr>intervals := is\<rparr>" for "is" by (simp add: set_interval_def)
  show ?case using Cons.IH[of ?u] unfolding d fold_simps prod.case rigid_interval_fields u .
qed

lemma restore_fields:
  "is_running (intervals (restore_durations st) i) = is_running (intervals st i)"
  "events (restore_durations st) = events st" "running_intervals (restore_durations st) = running_intervals st"
  "waiting_nodes (restore_durations st) = waiting_nodes st" "last_date (restore_durations st) = last_date st"
  "itv_to_start (restore_durations st) = itv_to_start st"
proof -
  let ?r = "fold (\<lambda>(i, mn, mx). set_interval i (\<lambda>v. set_max_duration mx (set_min_duration mn v))) (offset_durations st) st"
  note l = restore_loop_fields[of "offset_durations st" st i]
  obtain "is" where "?r = st\<lparr>intervals := is\<rparr>" using l by blast
  then show "events (restore_durations st) = events st" "running_intervals (restore_durations st) = running_intervals st"
    "waiting_nodes (restore_durations st) = waiting_nodes st" "last_date (restore_durations st) = last_date st"
    "itv_to_start (restore_durations st) = itv_to_start st"
    by (simp_all add: restore_durations_def)
  show "is_running (intervals (restore_durations st) i) = is_running (intervals st i)"
    using l by (simp add: restore_durations_def)
qed

text \<open>stopping a scenario stops each of its intervals, takes the status from each event of its syncs, and
  leaves nothing running, waiting or requested.\<close>

theorem stop_stops_everything:
  assumes "syncs_complete st"
  shows "\<exists>st'. scenario_stop st = Done st' \<and> running_intervals st' = [] \<and> waiting_nodes st' = [] \<and> itv_to_start st' = []
    \<and> last_date st' = Infinite
    \<and> (\<forall>i \<in> set (scenario_intervals st). \<not> is_running (intervals st' i))
    \<and> (\<forall>s \<in> set (nodes_list st). \<forall>e \<in> set (time_events (syncs st s)). status (events st' e) = NONE)"
proof -
  let ?st1 = "fold interval_stop (scenario_intervals st) st"
  have "syncs_complete ?st1" using assms by (simp add: syncs_complete_def fold_interval_stop)
  then obtain st2 where 2: "each sync_reset (nodes_list st) ?st1 = Done st2" "intervals st2 = intervals ?st1"
      "\<forall>e. events st2 e = (if \<exists>s \<in> set (nodes_list st). e \<in> set (time_events (syncs st s)) then (events st e)\<lparr>status := NONE\<rparr> else events st e)"
    using each_sync_reset[of ?st1 "nodes_list st"] by (auto simp: fold_interval_stop)
  let ?st3 = "st2\<lparr>running_intervals := [], itv_to_start := [], itv_to_stop := [], waiting_nodes := [], pending_events := [],
              max_reached_events := [], overticks := (\<lambda>_. None), itv_end_map := (\<lambda>_. None)\<rparr>"
  have "scenario_stop st = Done ((restore_durations ?st3)\<lparr>last_date := Infinite\<rparr>)"
    using 2(1) by (simp add: scenario_stop_def fold_interval_stop)
  then show ?thesis using 2 by (auto simp: restore_fields fold_interval_stop)
qed

section \<open>Durations overridden by an offset\<close>

lemma set_both:
  assumes "tv_le mn mx"
  shows "min_duration (set_max_duration mx (set_min_duration mn v)) = mn" "max_duration (set_max_duration mx (set_min_duration mn v)) = mx"
  using assms by (auto simp: set_max_eq set_min_eq tv_key_order)

lemma set_both_nominal:
  assumes "tv_le mn (nominal v)" and "tv_le (nominal v) mx"
  shows "nominal (set_max_duration mx (set_min_duration mn v)) = nominal v"
  using assms by (auto simp: set_max_eq set_min_eq tv_key_order)

definition durations_valid :: "'d scenario \<Rightarrow> bool" where
  "durations_valid st \<longleftrightarrow> (\<forall>i. tv_le (min_duration (intervals st i)) (max_duration (intervals st i)))"

text \<open>What the offset has saved are the durations of the original store.\<close>

definition saved_from :: "'d scenario \<Rightarrow> 'd scenario \<Rightarrow> bool" where
  "saved_from st0 st \<longleftrightarrow>
     distinct (map fst (offset_durations st))
     \<and> (\<forall>(i, mn, mx) \<in> set (offset_durations st). mn = min_duration (intervals st0 i) \<and> mx = max_duration (intervals st0 i))
     \<and> (\<forall>i. i \<notin> fst ` set (offset_durations st) \<longrightarrow>
          min_duration (intervals st i) = min_duration (intervals st0 i) \<and> max_duration (intervals st i) = max_duration (intervals st0 i))"

lemma make_rigid_fields:
  "intervals (make_rigid i mn mx st) = (intervals st)(i := set_max_duration mx (set_min_duration mn (intervals st i)))"
  "offset_durations (make_rigid i mn mx st) =
    (if i \<in> fst ` set (offset_durations st) then offset_durations st
     else insort_key fst (i, min_duration (intervals st i), max_duration (intervals st i)) (offset_durations st))"
proof -
  have "(\<exists>x \<in> set (offset_durations st). fst x = i) = (i \<in> fst ` set (offset_durations st))" by auto
  then show "intervals (make_rigid i mn mx st) = (intervals st)(i := set_max_duration mx (set_min_duration mn (intervals st i)))"
    "offset_durations (make_rigid i mn mx st) =
      (if i \<in> fst ` set (offset_durations st) then offset_durations st
       else insort_key fst (i, min_duration (intervals st i), max_duration (intervals st i)) (offset_durations st))"
    by (simp_all add: make_rigid_def Let_def set_interval_def)
qed

lemma saved_from_rigid:
  assumes "saved_from st0 st"
  shows "saved_from st0 (make_rigid i mn mx st)"
proof (cases "i \<in> fst ` set (offset_durations st)")
  case True
  then show ?thesis using assms unfolding saved_from_def make_rigid_fields by auto
next
  case False
  let ?x = "(i, min_duration (intervals st i), max_duration (intervals st i))"
  let ?ds = "insort_key fst ?x (offset_durations st)"
  have s: "set ?ds = insert ?x (set (offset_durations st))" by (rule set_insort_key)
  have "offset_durations (make_rigid i mn mx st) = ?ds" using False by (simp add: make_rigid_fields)
  moreover have "distinct (map fst ?ds)"
    using assms False by (simp add: saved_from_def distinct_insort_key)
  moreover have "min_duration (intervals st i) = min_duration (intervals st0 i) \<and> max_duration (intervals st i) = max_duration (intervals st0 i)"
    using assms False unfolding saved_from_def by blast
  moreover have "intervals (make_rigid i mn mx st) j = intervals st j" if "j \<noteq> i" for j
    using that by (simp add: make_rigid_fields)
  ultimately show ?thesis using assms unfolding saved_from_def by (auto simp: set_insort_key)
qed

lemma restore_fold:
  assumes "distinct (map fst ds)"
    and "\<forall>(i, mn, mx) \<in> set ds. mn = min_duration (intervals st0 i) \<and> mx = max_duration (intervals st0 i)" and "durations_valid st0"
  shows "let st' = fold (\<lambda>(i, mn, mx). set_interval i (\<lambda>v. set_max_duration mx (set_min_duration mn v))) ds st
    in \<forall>i. if i \<in> fst ` set ds then min_duration (intervals st' i) = min_duration (intervals st0 i) \<and> max_duration (intervals st' i) = max_duration (intervals st0 i)
          else intervals st' i = intervals st i"
  using assms(1,2)
proof (induction ds arbitrary: st)
  case (Cons d ds)
  obtain i mn mx where d: "d = (i, mn, mx)" by (cases d)
  let ?st = "set_interval i (\<lambda>v. set_max_duration mx (set_min_duration mn v)) st"
  have m: "mn = min_duration (intervals st0 i)" "mx = max_duration (intervals st0 i)" "tv_le mn mx"
    using Cons.prems(2) assms(3) by (auto simp: d durations_valid_def)
  have i: "min_duration (intervals ?st i) = mn" "max_duration (intervals ?st i) = mx"
    using set_both[OF m(3)] by (simp_all add: frame_simps)
  have "i \<notin> fst ` set ds" using Cons.prems(1) by (auto simp: d)
  then show ?case using Cons.IH[of ?st] Cons.prems i m by (auto simp: d Let_def frame_simps)
qed simp

text \<open>whatever intervals an offset has made rigid, in whatever order and how often, restoring gives every
  interval the minimal and the maximal duration it had before.\<close>

theorem rigid_round_trip:
  assumes "durations_valid st" and "offset_durations st = []"
  shows "min_duration (intervals (restore_durations (fold (\<lambda>(i, mn, mx). make_rigid i mn mx) rs st)) i) = min_duration (intervals st i)
    \<and> max_duration (intervals (restore_durations (fold (\<lambda>(i, mn, mx). make_rigid i mn mx) rs st)) i) = max_duration (intervals st i)"
proof -
  have "saved_from st st" using assms(2) by (simp add: saved_from_def)
  then have sv: "saved_from st (fold (\<lambda>(i, mn, mx). make_rigid i mn mx) rs st)"
    by (rule fold_invariant_rule[rotated]) (auto simp: saved_from_rigid)
  define u where "u = fold (\<lambda>(i, mn, mx). make_rigid i mn mx) rs st"
  note sv = sv[folded u_def, unfolded saved_from_def]
  show ?thesis
    unfolding u_def[symmetric]
    using restore_fold[of "offset_durations u" st u] sv assms(1)
    by (cases "i \<in> fst ` set (offset_durations u)") (auto simp: restore_durations_def Let_def)
qed

text \<open>but a minimal duration above the nominal one raises the nominal duration too, and restoring does not
  lower it again.\<close>

theorem rigid_keeps_raised_nominal:
  assumes "durations_ordered (intervals st i)" and "offset_durations st = []"
    and "tv_gt mn (nominal (intervals st i))" and "tv_le mn mx"
  shows "nominal (intervals (restore_durations (make_rigid i mn mx st)) i) =
    (if tv_gt mn (max_duration (intervals st i)) then max_duration (intervals st i) else mn)"
  using assms
  by (auto simp: make_rigid_def restore_durations_def Let_def frame_simps set_max_eq set_min_eq tv_key_order durations_ordered_def)

section \<open>Requests\<close>

lemma erase_request_count:
  "length (filter (\<lambda>r. fst r = i) (erase_request i rs)) = length (filter (\<lambda>r. fst r = i) rs) - 1"
proof (induction rs)
  case (Cons r rs)
  show ?case
  proof (cases "fst r = i")
    case False
    then have "erase_request i (r # rs) = r # erase_request i rs"
      by (auto simp: erase_request_def split: option.splits)
    then show ?thesis using Cons False by simp
  qed (simp add: erase_request_def)
qed (simp add: erase_request_def)

text \<open>removing an interval takes back one request to start it: of two requests one stays, for an interval
  that is no longer part of the scenario.\<close>

theorem remove_leaves_second_request:
  assumes "\<not> (\<exists>r \<in> set (itv_to_start st). fst r = i)"
  shows "\<exists>r \<in> set (itv_to_start (remove_time_interval (Some i)
      (request_start_interval i b y (request_start_interval i a x st)))). fst r = i"
proof -
  let ?rs = "itv_to_start (request_start_interval i b y (request_start_interval i a x st))"
  have "filter (\<lambda>r. fst r = i) (itv_to_start st) = []" using assms by (simp add: filter_empty_conv)
  then have "length (filter (\<lambda>r. fst r = i) (erase_request i ?rs)) = 1"
    unfolding erase_request_count by (simp add: request_start_interval_def)
  moreover have "itv_to_start (remove_time_interval (Some i) (request_start_interval i b y (request_start_interval i a x st)))
      = erase_request i ?rs"
    by (simp add: remove_time_interval_def Let_def)
  ultimately have "filter (\<lambda>r. fst r = i) (itv_to_start (remove_time_interval (Some i)
      (request_start_interval i b y (request_start_interval i a x st)))) \<noteq> []"
    by (metis One_nat_def length_0_conv nat.distinct(1))
  then show ?thesis unfolding filter_empty_conv by blast
qed

section \<open>Examples\<close>

lemma demo_pair_inside: "intervals_inside demo_pair"
  by (simp add: intervals_inside_def demo_pair_def demo_defs)

lemma start_starts_nothing_witness:
  "\<exists>st'. scenario_start demo_pair = Done st' \<and> intervals st' = intervals demo_pair"
  using start_starts_nothing[OF demo_pair_complete demo_pair_inside] by blast

lemma stop_stops_everything_witness:
  "\<exists>st'. scenario_stop demo_pair = Done st' \<and> running_intervals st' = [] \<and> last_date st' = Infinite"
  using stop_stops_everything[OF demo_pair_complete] by blast

lemma demo_pair_valid: "durations_valid demo_pair" "durations_ordered (intervals demo_pair 0)" "offset_durations demo_pair = []"
  by (simp_all add: durations_valid_def durations_ordered_def demo_pair_def demo_defs tv_key_order tv_key_def tv_consts)

lemma rigid_round_trip_witness:
  "min_duration (intervals (restore_durations (fold (\<lambda>(i, mn, mx). make_rigid i mn mx)
     [(0, Time_value 1, Time_value 2), (1, Time_value 9, Time_value 9), (0, Time_value 30, Time_value 40)] demo_pair)) 0)
   = min_duration (intervals demo_pair 0)"
  using rigid_round_trip[OF demo_pair_valid(1,3)] by blast

lemma rigid_keeps_raised_nominal_witness:
  "nominal (intervals (restore_durations (make_rigid 0 (Time_value 30) (Time_value 40) demo_pair)) 0)
   = (if tv_gt (Time_value 30) (max_duration (intervals demo_pair 0)) then max_duration (intervals demo_pair 0) else Time_value 30)"
proof (rule rigid_keeps_raised_nominal[OF demo_pair_valid(2,3)])
  show "tv_gt (Time_value 30) (nominal (intervals demo_pair 0))"
    by (simp add: demo_pair_def demo_defs tv_key_order tv_key_def tv_consts)
  show "tv_le (Time_value 30) (Time_value 40)" by (simp add: tv_key_order tv_key_def tv_consts)
qed

lemma remove_leaves_second_request_witness:
  "\<exists>r \<in> set (itv_to_start (remove_time_interval (Some 0)
     (request_start_interval 0 1 Zero_tv (request_start_interval 0 1 Zero_tv demo_pair)))). fst r = 0"
  by (rule remove_leaves_second_request) (simp add: demo_pair_def demo_defs)

end
