(* ===== verification/ScenarioClock.thy ===== *)
theory ScenarioClock
  imports ScenarioTrigger
begin

text \<open>
  The clock of an interval (time_interval.cpp): how far a tick of its parent moves it, the fraction of a time
  unit carried to the next tick, the request it hands to its processes, and the musical position of that
  request.
\<close>

section \<open>Speed and tempo\<close>

definition root_tempo :: "'d fpu \<Rightarrow> 'd" where
  "root_tempo fl = f_lit fl 120"

definition speed_override :: "'d fpu \<Rightarrow> 'd time_interval \<Rightarrow> 'd" where
  "speed_override fl v = (case node_speed v of Some s \<Rightarrow> s | None \<Rightarrow> f_lit fl 1)"

definition interval_tempo :: "'d env \<Rightarrow> nat \<Rightarrow> 'd time_interval \<Rightarrow> time_value \<Rightarrow> 'd" where
  "interval_tempo env i v d = (case node_tempo v of Some t \<Rightarrow> t | None \<Rightarrow> tempo_curve env i (impl d))"

definition tempo_in :: "'d env \<Rightarrow> nat \<Rightarrow> 'd time_interval \<Rightarrow> time_value \<Rightarrow> 'd token_request \<Rightarrow> 'd" where
  "tempo_in env i v d tk = (if has_tempo v then interval_tempo env i v d else tempo tk)"

text \<open>The speed of the interval times what its inlets say, in \<open>root_tempo\<close>.\<close>

definition tempo_speed :: "'d env \<Rightarrow> nat \<Rightarrow> 'd time_interval \<Rightarrow> time_value \<Rightarrow> 'd" where
  "tempo_speed env i v d =
     (let fl = env_fpu env
      in f_div fl (f_mul fl (f_mul fl (itv_speed v) (speed_override fl v)) (interval_tempo env i v d)) (root_tempo fl))"

definition get_speed :: "'d env \<Rightarrow> nat \<Rightarrow> 'd time_interval \<Rightarrow> time_value \<Rightarrow> 'd" where
  "get_speed env i v d = (if \<not> has_tempo v then itv_speed v else tempo_speed env i v d)"

definition local_time_factor :: "'d env \<Rightarrow> nat \<Rightarrow> 'd time_interval \<Rightarrow> 'd token_request \<Rightarrow> 'd" where
  "local_time_factor env i v tk =
     (let fl = env_fpu env
      in if has_tempo v \<and> \<not> f_eq fl (speed tk) (f_0 fl) then f_div fl (tempo_speed env i v (itv_date v)) (speed tk)
         else itv_speed v)"

definition to_local_offset :: "'d fpu \<Rightarrow> time_value \<Rightarrow> 'd \<Rightarrow> time_value" where
  "to_local_offset fl off factor =
     (if impl off = 0 then off else Time_value (f_int64 fl (f_mul fl (f_of_int fl (impl off)) (f_abs fl factor))))"

section \<open>Steps\<close>

definition take_step :: "'d fpu \<Rightarrow> 'd \<Rightarrow> 'd time_interval \<Rightarrow> int \<times> 'd time_interval" where
  "take_step fl exact v =
     (let want = f_add fl exact (date_residue v); step = f_floor fl want
      in (f_int64 fl step, v\<lparr>date_residue := f_sub fl want step\<rparr>))"

definition advance_for :: "'d env \<Rightarrow> nat \<Rightarrow> 'd time_interval \<Rightarrow> time_value \<Rightarrow> 'd token_request \<Rightarrow> int" where
  "advance_for env i v d tk =
     (let fl = env_fpu env
      in f_int64 fl (f_floor fl (f_add fl (f_mul fl (f_of_int fl (impl d)) (local_time_factor env i v tk)) (date_residue v))))"

definition take_backward_step :: "'d env \<Rightarrow> nat \<Rightarrow> time_value \<Rightarrow> 'd token_request \<Rightarrow> 'd time_interval \<Rightarrow> int \<times> 'd time_interval" where
  "take_backward_step env i d tk v =
     (let fl = env_fpu env;
          f0 = f_abs fl (local_time_factor env i v tk);
          f = (if f_eq fl f0 (f_0 fl) then f_lit fl 1 else f0)
      in case take_step fl (f_mul fl (f_neg fl (f_of_int fl (impl d))) f) v of (step, v') \<Rightarrow> (s64 (- step), v'))"

section \<open>Musical position\<close>

text \<open>\<open>last_before\<close> of detail/algorithms.hpp on a sorted map: the last element not after the key, and the first
  one when all are after it.\<close>

definition last_before :: "(time_value \<times> 'v) list \<Rightarrow> time_value \<Rightarrow> (time_value \<times> 'v) option" where
  "last_before xs k =
     (let before = takeWhile (\<lambda>x. \<not> tv_lt k (fst x)) xs
      in if before \<noteq> [] then Some (List.last before) else (case xs of [] \<Rightarrow> None | x # _ \<Rightarrow> Some x))"

definition signature_in :: "'d time_interval \<Rightarrow> time_value \<Rightarrow> 'd token_request \<Rightarrow> nat \<times> nat" where
  "signature_in v d tk =
     (if has_signature v \<and> time_signatures v \<noteq> [] then
        (case last_before (time_signatures v) d of Some (_, sig) \<Rightarrow> sig | None \<Rightarrow> signature tk)
      else signature tk)"

definition signature_at :: "'d time_interval \<Rightarrow> time_value \<Rightarrow> 'd token_request \<Rightarrow> time_value \<times> nat \<times> nat" where
  "signature_at v d tk =
     (if has_signature v \<and> time_signatures v \<noteq> [] then
        (case last_before (time_signatures v) d of Some x \<Rightarrow> x | None \<Rightarrow> (Time_value 0, signature tk))
      else (Time_value 0, signature tk))"

definition last_bar :: "'d fpu \<Rightarrow> 'd time_interval \<Rightarrow> time_value \<Rightarrow> time_value \<times> nat \<times> nat \<Rightarrow> 'd" where
  "last_bar fl v d x =
     (case x of (time, upper, lower) \<Rightarrow>
        let since = f_div fl (f_of_int fl (impl (tv_minus d time))) (quarter_duration v);
            bar = f_mul fl (f_lit fl 4) (f_div fl (f_of_int fl (int upper)) (f_of_int fl (int lower)));
            bars = f_mul fl (f_floor fl (f_div fl since bar)) bar
        in f_add fl (f_div fl (f_of_int fl (impl time)) (quarter_duration v)) bars)"

definition musical_state :: "'d fpu \<Rightarrow> time_value \<Rightarrow> time_value \<Rightarrow> 'd token_request \<Rightarrow> 'd time_interval \<Rightarrow> 'd time_interval" where
  "musical_state fl old_date new_date tk v =
     (if has_signature v \<or> has_tempo v then
        (let s = signature_at v old_date tk;
             v1 = v\<lparr>itv_start_last_signature := f_div fl (f_of_int fl (impl (fst s))) (quarter_duration v),
                    itv_start_last_bar := last_bar fl v old_date s,
                    itv_start_position := f_div fl (f_of_int fl (impl old_date)) (quarter_duration v)\<rparr>
         in if impl new_date \<noteq> impl old_date then
              v1\<lparr>itv_end_last_bar := last_bar fl v new_date (signature_at v new_date tk),
                 itv_end_position := f_div fl (f_of_int fl (impl new_date)) (quarter_duration v)\<rparr>
            else v1\<lparr>itv_end_last_bar := itv_start_last_bar v1, itv_end_position := itv_start_position v1\<rparr>)
      else
        v\<lparr>itv_start_last_signature := musical_start_last_signature tk, itv_start_last_bar := musical_start_last_bar tk,
          itv_start_position := musical_start_position tk, itv_end_last_bar := musical_end_last_bar tk,
          itv_end_position := musical_end_position tk\<rparr>)"

section \<open>Ticks\<close>

definition interval_token :: "time_value \<Rightarrow> time_value \<Rightarrow> 'd::zero time_interval \<Rightarrow> 'd token_request" where
  "interval_token old_date new_date v =
     (make_token_request 0 old_date new_date (nominal v) (itv_tick_offset v) (global_speed v) (current_signature v) (current_tempo v))
       \<lparr>start_sample := tick_start_sample v, length_sample := tick_length_sample v,
        musical_start_last_signature := itv_start_last_signature v, musical_start_last_bar := itv_start_last_bar v,
        musical_start_position := itv_start_position v, musical_end_last_bar := itv_end_last_bar v,
        musical_end_position := itv_end_position v\<rparr>"

definition interval_state :: "nat \<Rightarrow> time_value \<Rightarrow> time_value \<Rightarrow> 'd::zero scenario \<Rightarrow> 'd scenario" where
  "interval_state i old_date new_date st =
     (let v = intervals st i
      in if itv_processes v \<noteq> [] \<or> has_tempo v \<or> has_signature v then
           (let tok = interval_token old_date new_date v
            in fold (if_enabled (\<lambda>p. Process_state p tok)) (itv_processes v) (note_call (Node_request i tok) st))
         else st)"

text \<open>The two clamps at zero of \<open>tick_impl\<close>, on the dates and the samples of the tick.\<close>

definition covered :: "'d fpu \<Rightarrow> int \<Rightarrow> int \<Rightarrow> int \<Rightarrow> int" where
  "covered fl len part whole =
     f_int32 fl (f_add fl (f_mul fl (f_of_int fl len) (f_div fl (f_of_int fl part) (f_of_int fl whole))) (f_lit fl (1 / 2)))"

definition clamp_new ::
    "'d fpu \<Rightarrow> time_value \<Rightarrow> time_value \<Rightarrow> 'd time_interval \<Rightarrow> time_value \<times> 'd time_interval" where
  "clamp_new fl old_date new_date v =
     (if tv_lt new_date Zero_tv then
        (let v1 = (if tick_length_sample v > 0 then
                     (if tv_gt old_date Zero_tv
                      then v\<lparr>tick_length_sample := covered fl (tick_length_sample v) (impl old_date) (s64 (impl old_date - impl new_date))\<rparr>
                      else v\<lparr>tick_length_sample := 0\<rparr>)
                   else v)
         in (Zero_tv, v1\<lparr>itv_date := Zero_tv\<rparr>))
      else (new_date, v))"

definition clamp_old ::
    "'d fpu \<Rightarrow> time_value \<Rightarrow> time_value \<Rightarrow> 'd time_interval \<Rightarrow> time_value \<times> 'd time_interval" where
  "clamp_old fl old_date new_date v =
     (if tv_lt old_date Zero_tv then
        (let v1 = (if tick_length_sample v > 0 then
                     (if tv_gt new_date Zero_tv then
                        (let kept = covered fl (tick_length_sample v) (impl new_date) (s64 (impl new_date - impl old_date))
                         in v\<lparr>tick_start_sample := s32 (tick_start_sample v + s32 (tick_length_sample v - kept)), tick_length_sample := kept\<rparr>)
                      else v\<lparr>tick_start_sample := s32 (tick_start_sample v + tick_length_sample v), tick_length_sample := 0\<rparr>)
                   else v)
         in (Zero_tv, v1))
      else (old_date, v))"

definition tick_values ::
    "'d env \<Rightarrow> nat \<Rightarrow> time_value \<Rightarrow> time_value \<Rightarrow> time_value \<Rightarrow> 'd token_request \<Rightarrow> 'd time_interval
     \<Rightarrow> time_value \<times> time_value \<times> 'd time_interval" where
  "tick_values env i old_date0 new_date0 off tk v =
     (let fl = env_fpu env
      in case clamp_new fl old_date0 new_date0 (v\<lparr>itv_tick_offset := off, itv_date := new_date0\<rparr>) of (new_date, v1) \<Rightarrow>
         case clamp_old fl old_date0 new_date v1 of (old_date, v2) \<Rightarrow>
           let v3 = v2\<lparr>current_signature := signature_in v2 old_date tk,
                       current_tempo := f_mul fl (f_mul fl (itv_speed v2) (speed_override fl v2)) (tempo_in env i v2 old_date tk)\<rparr>;
               v4 = v3\<lparr>global_speed := (if has_tempo v3 then get_speed env i v3 old_date else f_mul fl (parent_speed v3) (itv_speed v3))\<rparr>
           in (old_date, new_date, musical_state fl old_date new_date tk v4))"

definition tick_impl ::
    "'d env \<Rightarrow> nat \<Rightarrow> time_value \<Rightarrow> time_value \<Rightarrow> time_value \<Rightarrow> 'd token_request \<Rightarrow> 'd::zero scenario \<Rightarrow> 'd scenario" where
  "tick_impl env i old_date new_date off tk st =
     (case tick_values env i old_date new_date off tk (intervals st i) of (old_date', new_date', v) \<Rightarrow>
        let st1 = interval_state i old_date' new_date' (set_interval i (\<lambda>_. v) st)
        in if itv_callback v then note_call (Interval_callback i True new_date') st1 else st1)"

definition tick_current :: "'d env \<Rightarrow> nat \<Rightarrow> time_value \<Rightarrow> 'd token_request \<Rightarrow> 'd::zero scenario \<Rightarrow> 'd scenario" where
  "tick_current env i off tk st =
     (let st1 = set_interval i (\<lambda>v. v\<lparr>tick_start_sample := start_sample tk,
                                      tick_length_sample := (if length_sample tk \<ge> 0 then 0 else - 1)\<rparr>) st;
          d = itv_date (intervals st1 i)
      in tick_impl env i d d off tk st1)"

text \<open>The body shared by the ticks that advance by an exact amount.\<close>

definition tick_step ::
    "'d env \<Rightarrow> nat \<Rightarrow> 'd \<Rightarrow> time_value \<Rightarrow> 'd token_request \<Rightarrow> 'd::zero scenario \<Rightarrow> 'd scenario" where
  "tick_step env i exact off tk st =
     (case take_step (env_fpu env) exact (intervals st i) of (step, v) \<Rightarrow>
        tick_impl env i (itv_date v) (tv_plus_i64 (itv_date v) step) off tk (set_interval i (\<lambda>_. v) st))"

definition interval_tick :: "'d env \<Rightarrow> nat \<Rightarrow> time_value \<Rightarrow> 'd token_request \<Rightarrow> 'd \<Rightarrow> 'd::zero scenario \<Rightarrow> 'd scenario" where
  "interval_tick env i d tk ratio st =
     (let st1 = set_interval i (\<lambda>v. v\<lparr>tick_start_sample := start_sample tk, tick_length_sample := length_sample tk\<rparr>) st;
          v = intervals st1 i; fl = env_fpu env
      in tick_step env i (f_div fl (f_mul fl (f_of_int fl (impl d)) (get_speed env i v (itv_date v))) ratio) (itv_tick_offset v) tk st1)"

definition take_seek :: "nat \<Rightarrow> 'd::zero scenario \<Rightarrow> 'd scenario" where
  "take_seek i st =
     (let seek = node_seek (intervals st i)
      in if seek \<ge> 0 then interval_transport i (Time_value seek) (set_interval i (\<lambda>v. v\<lparr>node_seek := - (2 ^ 63)\<rparr>) st) else st)"

definition set_tick_samples :: "nat \<Rightarrow> int \<Rightarrow> int \<Rightarrow> 'd scenario \<Rightarrow> 'd scenario" where
  "set_tick_samples i first len st = set_interval i (\<lambda>v. v\<lparr>tick_start_sample := first, tick_length_sample := len\<rparr>) st"

definition tick_offset ::
    "'d env \<Rightarrow> nat \<Rightarrow> time_value \<Rightarrow> time_value \<Rightarrow> 'd token_request \<Rightarrow> int \<Rightarrow> int \<Rightarrow> 'd::zero scenario \<Rightarrow> 'd scenario" where
  "tick_offset env i d off tk first len st =
     (let st1 = take_seek i (set_tick_samples i first len st);
          v = intervals st1 i; fl = env_fpu env
      in if has_tempo v \<and> \<not> f_eq fl (speed tk) (f_0 fl) then
           (let sp = f_div fl (tempo_speed env i v (itv_date v)) (speed tk)
            in tick_step env i (f_mul fl (f_of_int fl (impl d)) sp) (to_local_offset fl off sp) tk st1)
         else
           tick_step env i (f_mul fl (f_of_int fl (impl d)) (itv_speed v)) (to_local_offset fl off (itv_speed v)) tk st1)"

definition tick_offset_speed_precomputed ::
    "'d env \<Rightarrow> nat \<Rightarrow> time_value \<Rightarrow> time_value \<Rightarrow> 'd token_request \<Rightarrow> int \<Rightarrow> int \<Rightarrow> 'd::zero scenario \<Rightarrow> 'd scenario" where
  "tick_offset_speed_precomputed env i d off tk first len st =
     (let st1 = set_tick_samples i first len st; v = intervals st1 i
      in tick_impl env i (itv_date v) (tv_plus_i64 (itv_date v) (impl d))
           (to_local_offset (env_fpu env) off (local_time_factor env i v tk)) tk st1)"

section \<open>Set-up\<close>

definition set_time_signature_map :: "(time_value \<times> nat \<times> nat) list option \<Rightarrow> 'd time_interval \<Rightarrow> 'd time_interval" where
  "set_time_signature_map m v =
     (case m of None \<Rightarrow> v\<lparr>has_signature := False\<rparr> | Some x \<Rightarrow> v\<lparr>has_signature := True, time_signatures := x\<rparr>)"

definition interval_create :: "nat \<Rightarrow> 'd time_interval \<Rightarrow> 'd scenario \<Rightarrow> 'd scenario" where
  "interval_create i v st =
     set_event (end_event v) (\<lambda>e. e\<lparr>previous_intervals := previous_intervals e @ [i]\<rparr>)
       (set_event (start_event v) (\<lambda>e. e\<lparr>next_intervals := next_intervals e @ [i]\<rparr>) (set_interval i (\<lambda>_. v) st))"

end
