(* ===== verification/ScenarioTick.thy ===== *)
theory ScenarioTick
  imports ScenarioClock ScenarioLifecycle
begin

text \<open>
  The tick of a scenario (detail/scenario_execution.cpp): every running interval is advanced, not past its
  end; a sync whose intervals have reached their end triggers, and what is left of the tick is handed to the
  intervals that start there, until nothing is left; and the same backwards. The loops of the cascades take
  fuel.
\<close>

section \<open>Cuts\<close>

definition has_window :: "int \<Rightarrow> int \<Rightarrow> bool" where
  "has_window first end \<longleftrightarrow> first \<ge> 0 \<and> end \<ge> first"

definition window_of :: "int \<Rightarrow> int \<Rightarrow> int" where
  "window_of first end = (if has_window first end then s32 (end - first) else - 1)"

text \<open>The samples between the start of the window and a cut.\<close>

definition span_to :: "int \<Rightarrow> int \<Rightarrow> int \<Rightarrow> int" where
  "span_to first end cutp = (if has_window first end then s32 (cutp - first) else - 1)"

definition round_cut :: "'d fpu \<Rightarrow> time_value \<Rightarrow> int \<Rightarrow> int \<Rightarrow> 'd \<Rightarrow> int" where
  "round_cut fl tick first end parent_time =
     (let c = s32 (first + s32 (f_llround fl
            (f_mul fl (f_of_int fl (window_of first end)) (f_div fl parent_time (f_of_int fl (impl tick))))))
      in if c < first then first else if c > end then end else c)"

definition cut_at :: "'d fpu \<Rightarrow> time_value \<Rightarrow> int \<Rightarrow> int \<Rightarrow> 'd \<Rightarrow> int" where
  "cut_at fl tick first end parent_time =
     (if \<not> has_window first end then - 1
      else if impl tick \<le> 0 \<or> f_le fl parent_time (f_0 fl) then first
      else if f_le fl (f_of_int fl (impl tick)) parent_time then end
      else round_cut fl tick first end parent_time)"

definition merge_overtick :: "time_value \<Rightarrow> time_value \<Rightarrow> int \<Rightarrow> overtick option \<Rightarrow> overtick" where
  "merge_overtick ot off cutp old =
     (case old of
        None \<Rightarrow> \<lparr>overtick_min = ot, overtick_max = ot, overtick_offset = off, overtick_sample = cutp\<rparr>
      | Some cur \<Rightarrow>
          (let cur1 = (if tv_lt ot (overtick_min cur) then cur\<lparr>overtick_min := ot\<rparr> else cur)
           in if tv_gt ot (overtick_max cur1)
              then cur1\<lparr>overtick_max := ot, overtick_offset := off, overtick_sample := cutp\<rparr> else cur1))"

section \<open>One interval\<close>

text \<open>The end of an interval in this tick: its maximal duration, or the date it was given by quantification.\<close>

definition interval_limit :: "'d scenario \<Rightarrow> nat \<Rightarrow> time_value" where
  "interval_limit st i =
     (let mx = max_duration (intervals st i)
      in case itv_end_map st i of None \<Rightarrow> mx | Some d \<Rightarrow> if tv_lt d mx then d else mx)"

definition note_overtick :: "nat \<Rightarrow> time_value \<Rightarrow> time_value \<Rightarrow> int \<Rightarrow> 'd scenario \<Rightarrow> 'd scenario" where
  "note_overtick s ot off cutp st = st\<lparr>overticks := (overticks st)(s := Some (merge_overtick ot off cutp (overticks st s)))\<rparr>"

definition run_to_limit ::
    "'d env \<Rightarrow> nat \<Rightarrow> 'd token_request \<Rightarrow> time_value \<Rightarrow> time_value \<Rightarrow> int \<Rightarrow> int \<Rightarrow> time_value \<Rightarrow> 'd \<Rightarrow> 'd::zero scenario \<Rightarrow> 'd scenario" where
  "run_to_limit env i tk tick off first end limit s st =
     (let fl = env_fpu env; v = intervals st i;
          max_tick = tv_minus limit (itv_date v);
          diff = f_of_int fl (s64 (advance_for env i v tick tk - impl max_tick))
      in if f_le fl diff (f_0 fl) then
           (if tv_neq tick Zero_tv then tick_offset env i tick off tk first (window_of first end) st else st)
         else
           (let sf = (if f_lt fl (f_0 fl) s then s else f_lit fl 1);
                cutp = cut_at fl tick first end (f_div fl (f_of_int fl (impl max_tick)) sf);
                st1 = (if tv_neq max_tick Zero_tv \<or> tv_eq limit Zero_tv
                       then tick_offset_speed_precomputed env i max_tick off tk first (span_to first end cutp) st else st)
            in note_overtick (sync_of_end st i) (Time_value (f_int64 fl (f_div fl diff sf)))
                 (tv_plus off (Time_value (f_int64 fl (f_div fl (f_of_int fl (impl max_tick)) sf)))) cutp st1))"

definition run_to_zero ::
    "'d env \<Rightarrow> nat \<Rightarrow> 'd token_request \<Rightarrow> time_value \<Rightarrow> time_value \<Rightarrow> int \<Rightarrow> int \<Rightarrow> 'd \<Rightarrow> 'd::zero scenario \<Rightarrow> 'd scenario" where
  "run_to_zero env i tk tick off first end s st =
     (let fl = env_fpu env; v = intervals st i
      in if s64 (- advance_for env i v tick tk) \<le> impl (itv_date v) then
           (if tv_neq tick Zero_tv then tick_offset env i tick off tk first (window_of first end) st else st)
         else if tv_neq (itv_date v) Zero_tv then
           (let ns = f_neg fl s;
                cutp = cut_at fl tick first end (f_div fl (f_of_int fl (impl (itv_date v))) (if f_lt fl (f_0 fl) ns then ns else f_lit fl 1))
            in tick_offset_speed_precomputed env i (Time_value (s64 (- impl (itv_date v)))) off tk first (span_to first end cutp) st)
         else st)"

definition reach_end :: "nat \<Rightarrow> 'd scenario \<Rightarrow> 'd scenario" where
  "reach_end i st =
     (let v = intervals st i; s = sync_of_end st i
      in if tv_ge (itv_date v) (min_duration v) then
           (let st1 = st\<lparr>end_nodes := flat_insert s (end_nodes st)\<rparr>
            in if graphal v then fold (\<lambda>e. set_status e PENDING) (time_events (syncs st1 s)) st1 else st1)
         else st)"

definition run_interval ::
    "'d env \<Rightarrow> 'd token_request \<Rightarrow> time_value \<Rightarrow> time_value \<Rightarrow> int \<Rightarrow> int \<Rightarrow> nat \<Rightarrow> 'd::zero scenario \<Rightarrow> 'd scenario" where
  "run_interval env tk tick off first end i st =
     (let limit = interval_limit st i;
          st1 = set_interval i (\<lambda>v. v\<lparr>parent_speed := speed tk\<rparr>) st;
          s = local_time_factor env i (intervals st1 i) tk
      in reach_end i
           (if \<not> tv_infinite limit then
              (if f_le (env_fpu env) (f_0 (env_fpu env)) s then run_to_limit env i tk tick off first end limit s st1
               else run_to_zero env i tk tick off first end s st1)
            else tick_offset env i tick off tk first (window_of first end) st1))"

section \<open>Before the intervals run\<close>

definition clean_running :: "'d scenario \<Rightarrow> 'd scenario" where
  "clean_running st =
     st\<lparr>running_intervals := filter (\<lambda>i. status (events st (end_event (intervals st i))) \<noteq> HAPPENED) (running_intervals st)\<rparr>"

definition check_root :: "nat \<Rightarrow> nat \<Rightarrow> 'd::zero step" where
  "check_root n s st =
     and_then (if \<not> observing (syncs st s) then observe_expression True s st else Done st) (\<lambda>st1.
       if trigger_request (syncs st1 s) \<and> s \<notin> set (waiting_nodes st1) then
         and_then (reset_component n s st1) (\<lambda>st2.
           let st3 = (if autotrigger (syncs st2 s) then set_sync s (\<lambda>v. v\<lparr>evaluating := True\<rparr>) st2 else st2)
           in Done (st3\<lparr>waiting_nodes := flat_insert s (waiting_nodes st3)\<rparr>))
       else Done st1)"

definition check_waiting :: "nat \<Rightarrow> 'd env \<Rightarrow> 'd token_request \<Rightarrow> nat \<Rightarrow> 'd::zero step" where
  "check_waiting n env tk s st =
     and_then (process_this n env s (offset tk) tk st) (\<lambda>(res, st1).
       let st2 = (if res = DONE then st1\<lparr>waiting_nodes := flat_erase s (waiting_nodes st1)\<rparr> else st1)
       in Done (st2\<lparr>pending_events := []\<rparr>))"

definition stop_if_running :: "nat \<Rightarrow> bool \<Rightarrow> 'd::zero scenario \<Rightarrow> 'd scenario" where
  "stop_if_running i mark st =
     (if is_running (intervals st i) \<or> i \<in> set (running_intervals st)
      then interval_stop i (if mark then mark_end i st else st) else st)"

definition start_date :: "time_value \<Rightarrow> time_value \<Rightarrow> time_value" where
  "start_date from nom =
     (if impl from < 0 then Time_value 0
      else if tv_ge from nom \<and> impl nom > 0 then Time_value (impl nom - 1) else from)"

definition start_request :: "'d token_request \<Rightarrow> nat \<Rightarrow> time_value \<Rightarrow> 'd::zero scenario \<Rightarrow> 'd scenario" where
  "start_request tk i from st =
     (let st1 = stop_if_running i True st;
          start_from = start_date from (nominal (intervals st1 i));
          st2 = interval_start i (set_interval i (\<lambda>v. v\<lparr>itv_offset := start_from, parent_speed := speed tk\<rparr>) st1);
          st3 = add_running i (if impl start_from > 0 then interval_transport i start_from st2 else st2)
      in set_status (end_event (intervals st3 i)) NONE (set_status (start_event (intervals st3 i)) HAPPENED st3))"

text \<open>The requests that are due at a date in this tick are served; the others are kept. In an exclusive
  scenario the first one served stops everything and ends the loop.\<close>

fun run_starts ::
    "'d env \<Rightarrow> 'd token_request \<Rightarrow> (nat \<times> 'd \<times> time_value) list \<Rightarrow> (nat \<times> 'd \<times> time_value) list \<Rightarrow> 'd::zero scenario \<Rightarrow> 'd scenario" where
  "run_starts env tk kept [] st = st\<lparr>itv_to_start := kept\<rparr>"
| "run_starts env tk kept ((i, ratio, from) # rs) st =
     (if quantification_date env tk ratio = None then run_starts env tk (kept @ [(i, ratio, from)]) rs st
      else
        (let st1 = start_request tk i from st
         in if exclusive st1 then (fold interval_stop (running_intervals st1) st1)\<lparr>running_intervals := [], itv_to_start := []\<rparr>
            else run_starts env tk kept rs st1))"

fun run_stops ::
    "'d env \<Rightarrow> 'd token_request \<Rightarrow> (nat \<times> 'd \<times> time_value) list \<Rightarrow> (nat \<times> 'd \<times> time_value) list \<Rightarrow> 'd::zero scenario \<Rightarrow> 'd scenario" where
  "run_stops env tk kept [] st = st\<lparr>itv_to_stop := kept\<rparr>"
| "run_stops env tk kept ((i, ratio, from) # rs) st =
     (if quantification_date env tk ratio = None then run_stops env tk (kept @ [(i, ratio, from)]) rs st
      else run_stops env tk kept rs (erase_running i (stop_if_running i False st)))"

definition check_musical :: "'d env \<Rightarrow> 'd token_request \<Rightarrow> nat \<Rightarrow> 'd::zero step" where
  "check_musical env tk i st =
     (let v = intervals st i; s = sync_of_end st i
      in if tv_ge (itv_date v) (min_duration v) \<and> has_sync_rate (env_fpu env) (syncs st s) then
           and_then (process_this_musical env s tk (st\<lparr>end_nodes := flat_insert s (end_nodes st)\<rparr>)) (\<lambda>(_, st1). Done st1)
         else Done st)"

section \<open>The cascade\<close>

definition span_begin :: "'d token_request \<Rightarrow> int" where
  "span_begin tk = (if start_sample tk \<ge> 0 \<and> length_sample tk \<ge> 0 then start_sample tk else - 1)"

definition span_end :: "'d token_request \<Rightarrow> int" where
  "span_end tk = (if start_sample tk \<ge> 0 \<and> length_sample tk \<ge> 0 then s32 (start_sample tk + length_sample tk) else - 1)"

definition cascade_event :: "'d env \<Rightarrow> 'd token_request \<Rightarrow> time_value \<Rightarrow> nat \<Rightarrow> 'd::zero scenario \<Rightarrow> 'd scenario" where
  "cascade_event env tk tick e st =
     (let s = time_sync_of (events st e)
      in case overticks st s of
           None \<Rightarrow> st
         | Some ov \<Rightarrow>
             (let remaining = overtick_max ov;
                  off = tv_minus (tv_plus (offset tk) tick) remaining;
                  st1 = st\<lparr>overticks := (overticks st)(s := Some (ov\<lparr>overtick_offset := off\<rparr>))\<rparr>;
                  cutp = overtick_sample ov
              in fold (run_interval env tk remaining off cutp (if cutp \<ge> 0 then span_end tk else - 1)) (next_intervals (events st1 e)) st1))"

definition cascade_node :: "nat \<Rightarrow> 'd env \<Rightarrow> 'd token_request \<Rightarrow> nat \<Rightarrow> 'd::zero step" where
  "cascade_node n env tk s st =
     (let off = (case overticks st s of Some ov \<Rightarrow> overtick_offset ov | None \<Rightarrow> offset tk)
      in and_then (process_this n env s off tk st) (\<lambda>(res, st1).
           case res of
             DONE \<Rightarrow> let st2 = set_is_being_triggered False s st1 in Done (st2\<lparr>retry_syncs := flat_erase s (retry_syncs st2)\<rparr>)
           | NOT_READY \<Rightarrow> Done st1
           | RETRY \<Rightarrow> Done (st1\<lparr>retry_syncs := flat_insert s (retry_syncs st1)\<rparr>)))"

definition cascade_round :: "nat \<Rightarrow> 'd env \<Rightarrow> 'd token_request \<Rightarrow> time_value \<Rightarrow> 'd::zero step" where
  "cascade_round n env tk tick st =
     (let st1 = (fold (cascade_event env tk tick) (max_reached_events st) st)\<lparr>max_reached_events := []\<rparr>
      in and_then (each (cascade_node n env tk) (end_nodes st1) st1) (\<lambda>st2.
           Done (st2\<lparr>end_nodes := retry_syncs st2, retry_syncs := []\<rparr>)))"

fun cascade :: "nat \<Rightarrow> nat \<Rightarrow> 'd env \<Rightarrow> 'd token_request \<Rightarrow> time_value \<Rightarrow> 'd::zero step" where
  "cascade 0 n env tk tick st = Diverge"
| "cascade (Suc k) n env tk tick st =
     and_then (cascade_round n env tk tick st) (\<lambda>st1.
       if max_reached_events st1 \<noteq> [] \<or> end_nodes st1 \<noteq> [] then cascade k n env tk tick st1 else Done st1)"

section \<open>Backwards\<close>

definition note_backward_overtick :: "nat \<Rightarrow> time_value \<Rightarrow> time_value \<Rightarrow> int \<Rightarrow> 'd scenario \<Rightarrow> 'd scenario" where
  "note_backward_overtick s ot off cutp st =
     st\<lparr>backward_overticks := (backward_overticks st)(s := Some (merge_overtick ot off cutp (backward_overticks st s))),
        start_nodes := flat_insert s (start_nodes st)\<rparr>"

definition run_interval_backward ::
    "'d env \<Rightarrow> 'd token_request \<Rightarrow> time_value \<Rightarrow> time_value \<Rightarrow> int \<Rightarrow> int \<Rightarrow> nat \<Rightarrow> 'd::zero scenario \<Rightarrow> 'd scenario" where
  "run_interval_backward env tk tick off first end i st =
     (let fl = env_fpu env;
          st1 = set_interval i (\<lambda>v. v\<lparr>parent_speed := speed tk\<rparr>) st;
          old = itv_date (intervals st1 i);
          s0 = f_abs fl (local_time_factor env i (intervals st1 i) tk);
          s = (if f_eq fl s0 (f_0 fl) then f_lit fl 1 else s0)
      in case take_backward_step env i tick tk (intervals st1 i) of (displacement, v) \<Rightarrow>
         let st2 = set_interval i (\<lambda>_. v) st1
         in if displacement < impl old then
              (if tv_neq tick Zero_tv
               then tick_offset_speed_precomputed env i (Time_value (s64 (- displacement))) off tk first (window_of first end) st2
               else st2)
            else
              (let cutp = (if \<not> has_window first end then - 1
                          else if impl tick > 0 then round_cut fl tick first end (f_div fl (f_of_int fl (impl old)) s) else first);
                   st3 = (if tv_neq old Zero_tv
                          then tick_offset_speed_precomputed env i (Time_value (s64 (- impl old))) off tk first (span_to first end cutp) st2
                          else st2)
               in note_backward_overtick (sync_of_start st3 i)
                    (Time_value (f_int64 fl (f_div fl (f_of_int fl (s64 (displacement - impl old))) s)))
                    (tv_plus off (Time_value (f_int64 fl (f_div fl (f_of_int fl (impl old)) s)))) cutp st3))"

definition stop_next :: "nat \<Rightarrow> 'd::zero scenario \<Rightarrow> 'd scenario" where
  "stop_next i st = (if i \<in> set (running_intervals st) then erase_running i (mark_end i (interval_stop i st)) else st)"

definition start_previous ::
    "'d env \<Rightarrow> 'd token_request \<Rightarrow> time_value \<Rightarrow> time_value \<Rightarrow> int \<Rightarrow> nat \<Rightarrow> 'd::zero scenario \<Rightarrow> 'd scenario" where
  "start_previous env tk remaining off cutp i st =
     (if graphal (intervals st i) \<or> i \<in> set (running_intervals st) then st
      else
        (let st1 = interval_start i (set_interval i (\<lambda>v. v\<lparr>itv_offset := Zero_tv, parent_speed := speed tk\<rparr>) st);
             st2 = interval_transport i (nominal (intervals st1 i)) st1;
             st3 = add_running i (mark_start i (set_status (end_event (intervals st2 i)) NONE st2))
         in run_interval_backward env tk remaining off cutp (if cutp \<ge> 0 then span_end tk else - 1) i st3))"

definition rewind_event ::
    "'d env \<Rightarrow> 'd token_request \<Rightarrow> time_value \<Rightarrow> time_value \<Rightarrow> int \<Rightarrow> nat \<Rightarrow> 'd::zero scenario \<Rightarrow> 'd scenario" where
  "rewind_event env tk remaining off cutp e st =
     (let st1 = fold stop_next (next_intervals (events st e)) st
      in fold (start_previous env tk remaining off cutp) (previous_intervals (events st1 e)) st1)"

definition rewind_node :: "'d env \<Rightarrow> 'd token_request \<Rightarrow> nat \<Rightarrow> 'd::zero step" where
  "rewind_node env tk s st =
     and_then (sync_reset s st) (\<lambda>st1.
       let st2 = (if is_start (syncs st1 s) then st1\<lparr>waiting_nodes := flat_insert s (waiting_nodes st1)\<rparr> else st1)
       in Done (case backward_overticks st2 s of
                  None \<Rightarrow> st2
                | Some ov \<Rightarrow> fold (rewind_event env tk (overtick_max ov) (overtick_offset ov) (overtick_sample ov)) (time_events (syncs st2 s)) st2))"

fun rewind :: "nat \<Rightarrow> 'd env \<Rightarrow> 'd token_request \<Rightarrow> 'd::zero step" where
  "rewind 0 env tk st = Diverge"
| "rewind (Suc k) env tk st =
     (if start_nodes st = [] then Done st
      else and_then (each (rewind_node env tk) (start_nodes st) (st\<lparr>start_nodes := []\<rparr>)) (rewind k env tk))"

definition state_impl_backward :: "nat \<Rightarrow> 'd env \<Rightarrow> 'd token_request \<Rightarrow> time_value \<Rightarrow> 'd::zero step" where
  "state_impl_backward k env tk amount st =
     (let st1 = st\<lparr>backward_overticks := (\<lambda>_. None), start_nodes := []\<rparr>
      in rewind k env tk
           (fold (run_interval_backward env tk amount (offset tk) (span_begin tk) (span_end tk)) (running_intervals st1) st1))"

section \<open>The tick\<close>

definition state_impl_forward :: "nat \<Rightarrow> nat \<Rightarrow> 'd env \<Rightarrow> 'd token_request \<Rightarrow> time_value \<Rightarrow> 'd::zero step" where
  "state_impl_forward k n env tk tick st =
     (let st1 = clean_running (st\<lparr>overticks := (\<lambda>_. None), end_nodes := [], retry_syncs := []\<rparr>);
          st2 = st1\<lparr>pending_events := [], max_reached_events := []\<rparr>
      in and_then (each (check_root n) (root_nodes st2) st2) (\<lambda>st3.
         and_then (each (check_waiting n env tk) (waiting_nodes st3) st3) (\<lambda>st4.
         let st5 = st4\<lparr>pending_events := []\<rparr>;
             st6 = run_starts env tk [] (itv_to_start st5) st5;
             st7 = run_stops env tk [] (itv_to_stop st6) st6
         in and_then (each (check_musical env tk) (running_intervals st7) st7) (\<lambda>st8.
            cascade k n env tk tick
              (fold (run_interval env tk tick (offset tk) (span_begin tk) (span_end tk)) (running_intervals st8) st8)))))"

definition state_impl :: "nat \<Rightarrow> nat \<Rightarrow> 'd env \<Rightarrow> 'd token_request \<Rightarrow> 'd::zero step" where
  "state_impl k n env tk st =
     (let tick = (if tv_eq (last_date st) Infinite then date tk else tv_minus (date tk) (last_date st));
          st1 = (note_call (Scenario_request tk) st)\<lparr>last_date := date tk\<rparr>
      in if tv_lt tick Zero_tv then
           and_then (state_impl_backward k env tk (Time_value (s64 (- impl tick))) st1) (\<lambda>st2.
             Done (if tv_lt (last_date st2) Zero_tv then st2\<lparr>last_date := Zero_tv\<rparr> else st2))
         else state_impl_forward k n env tk tick st1)"

end
