(* ===== verification/ScenarioTickProps.thy ===== *)
theory ScenarioTickProps
  imports ScenarioTick ScenarioTriggerProps
begin

text \<open>
  The advance of one interval: a tick moves it by what the engine has asked for before (so that the decision
  whether the tick fits is the right one), never past its end and never below zero; nothing is lost in the
  fractions, which add up exactly in exact arithmetic; and a step back undoes a step forth.
\<close>

section \<open>Frames\<close>

definition ticked :: "'d env \<Rightarrow> nat \<Rightarrow> time_value \<Rightarrow> time_value \<Rightarrow> time_value \<Rightarrow> 'd token_request \<Rightarrow> 'd time_interval \<Rightarrow> 'd time_interval" where
  "ticked env i old_date new_date off tk v = snd (snd (tick_values env i old_date new_date off tk v))"

lemma quiet_interval_state [simp]: "quiet (interval_state i a b st) = quiet st"
  by (simp add: interval_state_def Let_def quiet_fold)

lemma quiet_tick_impl [simp]:
  "quiet (tick_impl env i old_date new_date off tk st) = set_interval i (ticked env i old_date new_date off tk) (quiet st)"
proof -
  obtain a b v where t: "tick_values env i old_date new_date off tk (intervals st i) = (a, b, v)" by (metis surj_pair)
  have "set_interval i (\<lambda>_. v) (quiet st) = set_interval i (ticked env i old_date new_date off tk) (quiet st)"
    by (simp add: set_interval_def ticked_def quiet_fields t)
  then show ?thesis by (simp add: tick_impl_def t Let_def)
qed

lemmas tick_impl_fields [frame_simps] = quiet_interval_change[OF quiet_tick_impl]

text \<open>What a tick leaves alone in an interval.\<close>

definition fixed_part :: "'d time_interval \<Rightarrow> (nat \<times> nat \<times> bool) \<times> (time_value \<times> time_value \<times> time_value) \<times> bool \<times> 'd \<times> bool \<times> time_value" where
  "fixed_part v = ((start_event v, end_event v, graphal v), (nominal v, min_duration v, max_duration v), is_running v,
     itv_speed v, has_tempo v, itv_offset v)"

lemma fixed_partD:
  assumes "fixed_part w = fixed_part v"
  shows "start_event w = start_event v" "end_event w = end_event v" "graphal w = graphal v" "nominal w = nominal v"
    "min_duration w = min_duration v" "max_duration w = max_duration v" "is_running w = is_running v"
    "itv_speed w = itv_speed v" "has_tempo w = has_tempo v" "itv_offset w = itv_offset v"
  using assms by (simp_all add: fixed_part_def)

lemma fixed_clamps:
  "fixed_part (snd (clamp_new fl a b v)) = fixed_part v" "fixed_part (snd (clamp_old fl a b v)) = fixed_part v"
  "itv_date (snd (clamp_old fl a b v)) = itv_date v" "date_residue (snd (clamp_old fl a b v)) = date_residue v"
  "date_residue (snd (clamp_new fl a b v)) = date_residue v"
  by (simp_all add: clamp_new_def clamp_old_def fixed_part_def Let_def)

lemma fixed_musical:
  "fixed_part (musical_state fl a b tk v) = fixed_part v" "itv_date (musical_state fl a b tk v) = itv_date v"
  "date_residue (musical_state fl a b tk v) = date_residue v"
  by (simp_all add: musical_state_def fixed_part_def Let_def)

lemma ticked_fields:
  "fixed_part (ticked env i old_date new_date off tk v) = fixed_part v"
  "itv_date (ticked env i old_date new_date off tk v) = (if tv_lt new_date Zero_tv then Zero_tv else new_date)"
  "date_residue (ticked env i old_date new_date off tk v) = date_residue v"
proof -
  obtain nd v1 where c: "clamp_new (env_fpu env) old_date new_date (v\<lparr>itv_tick_offset := off, itv_date := new_date\<rparr>) = (nd, v1)"
    by fastforce
  obtain od v2 where c2: "clamp_old (env_fpu env) old_date nd v1 = (od, v2)" by fastforce
  note f = fixed_clamps(1)[of "env_fpu env" old_date new_date "v\<lparr>itv_tick_offset := off, itv_date := new_date\<rparr>", unfolded c]
    fixed_clamps(5)[of "env_fpu env" old_date new_date "v\<lparr>itv_tick_offset := off, itv_date := new_date\<rparr>", unfolded c]
  note f2 = fixed_clamps(2-4)[of "env_fpu env" old_date nd v1, unfolded c2]
  have d: "itv_date v1 = (if tv_lt new_date Zero_tv then Zero_tv else new_date)"
    using c by (auto simp: clamp_new_def Let_def split: if_splits)
  show "fixed_part (ticked env i old_date new_date off tk v) = fixed_part v"
    using f f2 by (simp add: ticked_def tick_values_def c c2 Let_def fixed_musical) (simp add: fixed_part_def)
  show "itv_date (ticked env i old_date new_date off tk v) = (if tv_lt new_date Zero_tv then Zero_tv else new_date)"
    using f2 d by (simp add: ticked_def tick_values_def c c2 Let_def fixed_musical)
  show "date_residue (ticked env i old_date new_date off tk v) = date_residue v"
    using f f2 by (simp add: ticked_def tick_values_def c c2 Let_def fixed_musical)
qed

section \<open>A tick moves by what it was asked for\<close>

text \<open>The store where only the clock of the interval has moved, to a date and a fraction.\<close>

definition clock_moved :: "nat \<Rightarrow> time_value \<Rightarrow> 'd \<Rightarrow> 'd scenario \<Rightarrow> 'd scenario \<Rightarrow> bool" where
  "clock_moved i d r st st' \<longleftrightarrow>
     (\<exists>v. quiet st' = set_interval i (\<lambda>_. v) (quiet st) \<and> fixed_part v = fixed_part (intervals st i)
        \<and> itv_date v = d \<and> date_residue v = r)"

lemma clock_movedD:
  assumes "clock_moved i d r st st'"
  shows "itv_date (intervals st' i) = d" "date_residue (intervals st' i) = r"
    "fixed_part (intervals st' i) = fixed_part (intervals st i)" "\<And>j. j \<noteq> i \<Longrightarrow> intervals st' j = intervals st j"
    "events st' = events st" "syncs st' = syncs st" "running_intervals st' = running_intervals st"
    "itv_end_map st' = itv_end_map st"
proof -
  obtain v where q: "quiet st' = set_interval i (\<lambda>_. v) (quiet st)" and v: "fixed_part v = fixed_part (intervals st i)"
      "itv_date v = d" "date_residue v = r"
    using assms by (auto simp: clock_moved_def)
  note f = quiet_interval_change[OF q]
  show "itv_date (intervals st' i) = d" "date_residue (intervals st' i) = r"
    "fixed_part (intervals st' i) = fixed_part (intervals st i)" "\<And>j. j \<noteq> i \<Longrightarrow> intervals st' j = intervals st j"
    "events st' = events st" "syncs st' = syncs st" "running_intervals st' = running_intervals st"
    "itv_end_map st' = itv_end_map st"
    using v by (simp_all add: f)
qed

definition at_least_zero :: "time_value \<Rightarrow> time_value" where
  "at_least_zero d = (if tv_lt d Zero_tv then Zero_tv else d)"

lemma set_set: "set_interval i f (set_interval i g st) = set_interval i (f \<circ> g) st"
  by (simp add: set_interval_def)

lemma set_const: "set_interval i f st = set_interval i (\<lambda>_. f (intervals st i)) st"
  by (simp add: set_interval_def)

lemma clock_moved_tick_impl:
  assumes "quiet st1 = set_interval i (\<lambda>_. v) (quiet st)" and "fixed_part v = fixed_part (intervals st i)" and "date_residue v = r"
  shows "clock_moved i (at_least_zero n) r st (tick_impl env i a n off tk st1)"
proof -
  have "quiet (tick_impl env i a n off tk st1) = set_interval i (\<lambda>_. ticked env i a n off tk v) (quiet st)"
    by (simp add: assms(1) set_set comp_def)
  then show ?thesis
    using assms(2,3) unfolding clock_moved_def by (intro exI[of _ "ticked env i a n off tk v"]) (simp add: ticked_fields at_least_zero_def)
qed

text \<open>The interval once a seek that was written into its node has been taken.\<close>

definition sought :: "'d::zero time_interval \<Rightarrow> 'd time_interval" where
  "sought v = (if node_seek v < 0 then v
     else v\<lparr>node_seek := - (2 ^ 63), itv_offset := Time_value (node_seek v), itv_date := Time_value (node_seek v), date_residue := 0\<rparr>)"

lemma quiet_take_seek: "quiet (take_seek i st) = set_interval i sought (quiet st)"
proof (cases "node_seek (intervals st i) < 0")
  case True
  then have "set_interval i sought (quiet st) = quiet st"
    by (simp add: set_interval_def quiet_fields sought_def)
  then show ?thesis using True by (simp add: take_seek_def Let_def)
next
  case False
  have "set_interval i (moved (Time_value (node_seek (intervals st i))) \<circ> (\<lambda>v. v\<lparr>node_seek := - (2 ^ 63)\<rparr>)) (quiet st)
      = set_interval i sought (quiet st)"
    using False by (simp add: set_interval_def quiet_fields sought_def moved_def)
  then show ?thesis using False by (simp add: take_seek_def Let_def set_set)
qed

lemmas take_seek_fields [frame_simps] = quiet_interval_change[OF quiet_take_seek]

definition next_residue :: "'d env \<Rightarrow> nat \<Rightarrow> 'd time_interval \<Rightarrow> time_value \<Rightarrow> 'd token_request \<Rightarrow> 'd" where
  "next_residue env i v d tk =
     (let fl = env_fpu env; want = f_add fl (f_mul fl (f_of_int fl (impl d)) (local_time_factor env i v tk)) (date_residue v)
      in f_sub fl want (f_floor fl want))"

text \<open>The amount that decides whether a tick fits into an interval is exactly the amount the tick then
  moves it by, with the fraction carried over, whatever the rounding; the date is not let below zero. A seek is
  taken before.\<close>

lemma tick_moves_by_advance:
  fixes st :: "'d::zero scenario" and i :: nat
  defines "u \<equiv> sought (intervals st i)"
  shows "clock_moved i (at_least_zero (tv_plus_i64 (itv_date u) (advance_for env i u d tk)))
    (next_residue env i u d tk) (set_interval i (\<lambda>_. u) st) (tick_offset env i d off tk first len st)"
proof -
  let ?st1 = "take_seek i (set_tick_samples i first len st)" and ?fl = "env_fpu env"
  define v where "v = intervals ?st1 i"
  have v: "v = u\<lparr>tick_start_sample := first, tick_length_sample := len\<rparr>"
    by (simp add: v_def u_def set_tick_samples_def frame_simps sought_def)
  define factor where "factor = local_time_factor env i u tk"
  define exact where "exact = f_mul ?fl (f_of_int ?fl (impl d)) factor"
  have fv: "local_time_factor env i v tk = factor"
    by (simp add: v factor_def local_time_factor_def tempo_speed_def interval_tempo_def speed_override_def Let_def)
  have step: "tick_offset env i d off tk first len st = tick_step env i exact (to_local_offset ?fl off factor) tk ?st1"
  proof (cases "has_tempo v \<and> \<not> f_eq ?fl (speed tk) (f_0 ?fl)")
    case True
    then have "factor = f_div ?fl (tempo_speed env i v (itv_date v)) (speed tk)" by (auto simp add: fv[symmetric] local_time_factor_def Let_def)
    then show ?thesis using True unfolding tick_offset_def Let_def v_def[symmetric] by (simp add: exact_def)
  next
    case False
    then have "factor = itv_speed v" by (auto simp add: fv[symmetric] local_time_factor_def Let_def)
    then show ?thesis using False unfolding tick_offset_def Let_def v_def[symmetric] if_not_P[OF False] by (simp add: exact_def)
  qed
  define want where "want = f_add ?fl exact (date_residue u)"
  define w where "w = v\<lparr>date_residue := f_sub ?fl want (f_floor ?fl want)\<rparr>"
  have ts: "take_step ?fl exact (intervals ?st1 i) = (f_int64 ?fl (f_floor ?fl want), w)"
    by (simp add: take_step_def Let_def w_def want_def v_def[symmetric]) (simp add: v)
  have adv: "advance_for env i u d tk = f_int64 ?fl (f_floor ?fl want)"
    by (simp add: advance_for_def Let_def want_def exact_def factor_def)
  have "tick_offset env i d off tk first len st = tick_impl env i (itv_date w) (tv_plus_i64 (itv_date w) (f_int64 ?fl (f_floor ?fl want)))
      (to_local_offset ?fl off factor) tk (set_interval i (\<lambda>_. w) ?st1)"
    unfolding step tick_step_def ts by simp
  moreover have "quiet (set_interval i (\<lambda>_. w) ?st1) = set_interval i (\<lambda>_. w) (quiet (set_interval i (\<lambda>_. u) st))"
    by (simp add: set_tick_samples_def quiet_take_seek set_set comp_def)
  moreover have "fixed_part w = fixed_part (intervals (set_interval i (\<lambda>_. u) st) i)" "itv_date w = itv_date u"
    by (simp_all add: w_def v fixed_part_def frame_simps)
  moreover have "date_residue w = next_residue env i u d tk"
    by (simp add: w_def next_residue_def Let_def want_def exact_def factor_def)
  ultimately show ?thesis
    using clock_moved_tick_impl[of "set_interval i (\<lambda>_. w) ?st1" i w "set_interval i (\<lambda>_. u) st"] by (simp add: adv)
qed

lemma clock_moved_precomputed:
  "clock_moved i (at_least_zero (tv_plus_i64 (itv_date (intervals st i)) (impl d))) (date_residue (intervals st i)) st
     (tick_offset_speed_precomputed env i d off tk first len st)"
proof -
  let ?st1 = "set_tick_samples i first len st"
  define v where "v = (intervals st i)\<lparr>tick_start_sample := first, tick_length_sample := len\<rparr>"
  have v: "intervals ?st1 i = v" by (simp add: v_def set_tick_samples_def frame_simps)
  have "quiet ?st1 = set_interval i (\<lambda>_. v) (quiet st)" 
    by (simp add: set_tick_samples_def v_def) (simp add: set_interval_def quiet_fields)
  moreover have "fixed_part v = fixed_part (intervals st i)" "date_residue v = date_residue (intervals st i)"
    "itv_date v = itv_date (intervals st i)"
    by (simp_all add: v_def fixed_part_def)
  ultimately show ?thesis
    using clock_moved_tick_impl[of ?st1 i v st] by (simp add: tick_offset_speed_precomputed_def Let_def v)
qed

section \<open>One interval in a tick\<close>

lemma fold_set_status_fields:
  "intervals (fold (\<lambda>e. set_status e s) es st) = intervals st" "overticks (fold (\<lambda>e. set_status e s) es st) = overticks st"
  "running_intervals (fold (\<lambda>e. set_status e s) es st) = running_intervals st"
  by (induction es arbitrary: st) (simp_all add: frame_simps set_status_def event_notify_def set_event_def note_call_def Let_def)

lemma reach_end_fields [frame_simps]:
  "intervals (reach_end i st) = intervals st" "overticks (reach_end i st) = overticks st"
  "running_intervals (reach_end i st) = running_intervals st"
  by (simp_all add: reach_end_def Let_def fold_set_status_fields)

lemma overticks_quiet: "overticks (quiet st) = overticks st" "overticks (set_interval i f st) = overticks st"
  by (simp_all add: quiet_def set_interval_def)

lemma clock_moved_overticks: "clock_moved i d r st st' \<Longrightarrow> overticks st' = overticks st"
  by (metis clock_moved_def overticks_quiet)

lemma plus_in_room:
  assumes "0 \<le> impl d" and "impl d \<le> impl l" and "impl l < infinite_min" and "n \<le> impl l - impl d" and "in64 n"
  shows "tv_plus_i64 d n = Time_value (impl d + n)"
proof -
  have f: "tv_finite d" "tv_finite (Time_value n)" using assms by (auto simp: tv_finite_def tv_infinite_def tv_consts)
  have "\<not> add_is_infinite d (Time_value n)" using assms by (auto simp: add_is_infinite_finite[OF f])
  moreover have "s64 (impl d + n) = impl d + n" using assms by (intro s64_id) (auto simp: tv_consts)
  ultimately show ?thesis by (simp add: tv_plus_i64_def tv_plus_def)
qed

lemma minus_in_room:
  assumes "0 \<le> impl d" and "impl d \<le> impl l" and "impl l < infinite_min"
  shows "tv_minus l d = Time_value (impl l - impl d)"
proof -
  have "tv_finite d" "tv_finite l" using assms by (auto simp: tv_finite_def tv_infinite_def tv_consts)
  then show ?thesis using assms by (intro tv_minus_exact) auto
qed

text \<open>Speeds, residues and dates at which the decisions are made in range.\<close>

definition tick_ready :: "'d env \<Rightarrow> 'd token_request \<Rightarrow> time_value \<Rightarrow> nat \<Rightarrow> 'd scenario \<Rightarrow> bool" where
  "tick_ready env tk tick i st \<longleftrightarrow>
     (let v = intervals st i; limit = interval_limit st i; room = impl limit - impl (itv_date v); n = advance_for env i v tick tk
      in \<not> tv_infinite limit \<and> 0 \<le> impl (itv_date v) \<and> 0 \<le> room \<and> in64 n \<and> in64 (n - room)
         \<and> f_le (env_fpu env) (f_0 (env_fpu env)) (local_time_factor env i v tk)
         \<and> (f_le (env_fpu env) (f_of_int (env_fpu env) (n - room)) (f_0 (env_fpu env)) \<longleftrightarrow> n - room \<le> 0))"

lemma parent_speed_irrelevant:
  "local_time_factor env i (v\<lparr>parent_speed := sp\<rparr>) tk = local_time_factor env i v tk"
  "advance_for env i (v\<lparr>parent_speed := sp\<rparr>) d tk = advance_for env i v d tk"
  "sought (v\<lparr>parent_speed := sp\<rparr>) = (sought v)\<lparr>parent_speed := sp\<rparr>" "fixed_part (v\<lparr>parent_speed := sp\<rparr>) = fixed_part v"
  by (simp_all add: local_time_factor_def advance_for_def tempo_speed_def interval_tempo_def speed_override_def sought_def
      fixed_part_def Let_def)

text \<open>C10: an interval that runs forwards and is not past its end - its maximal duration or the date its end was
  quantified to - is not past it after the tick, unless it takes a seek: it advances by the whole tick where that fits, and stops at its
  end exactly where it does not, with the sync at its end noted for the rest of the tick. A seek that was written into
  its node is taken in a tick that fits and is not zero, and in no other: the interval is then at the date sought,
  advanced by the tick, wherever its end is, and no sync is noted. No other interval moves. The end is finite, the
  amounts are in 64 bits, and the comparison on floating point of what is left of the tick with zero is right.\<close>

theorem run_interval_within_limit:
  assumes "tick_ready env tk tick i st"
  shows "let v = intervals st i; limit = interval_limit st i; st' = run_interval env tk tick off first end i st;
      n = advance_for env i v tick tk; u = sought v; seeks = n \<le> impl limit - impl (itv_date v) \<and> tv_neq tick Zero_tv \<and> 0 \<le> node_seek v
    in (if seeks then itv_date (intervals st' i) = at_least_zero (tv_plus_i64 (Time_value (node_seek v)) (advance_for env i u tick tk))
          \<and> overticks st' = overticks st \<and> fixed_part (intervals st' i) = fixed_part u
        else (if n \<le> impl limit - impl (itv_date v)
              then itv_date (intervals st' i) = (if tv_neq tick Zero_tv then at_least_zero (Time_value (impl (itv_date v) + n)) else itv_date v)
                \<and> overticks st' = overticks st
              else impl (itv_date (intervals st' i)) = impl limit \<and> overticks st' (sync_of_end st i) \<noteq> None)
            \<and> impl (itv_date (intervals st' i)) \<le> impl limit \<and> fixed_part (intervals st' i) = fixed_part v)
      \<and> 0 \<le> impl (itv_date (intervals st' i)) \<and> (\<forall>j. j \<noteq> i \<longrightarrow> intervals st' j = intervals st j)"
proof -
  define v where "v = intervals st i"
  define limit where "limit = interval_limit st i"
  define n where "n = advance_for env i v tick tk"
  define room where "room = impl limit - impl (itv_date v)"
  define st1 where "st1 = set_interval i (\<lambda>v. v\<lparr>parent_speed := speed tk\<rparr>) st"
  define v1 where "v1 = v\<lparr>parent_speed := speed tk\<rparr>"
  define s where "s = local_time_factor env i v tk"
  define fl where "fl = env_fpu env"
  define seeks where "seeks \<longleftrightarrow> n \<le> room \<and> tv_neq tick Zero_tv \<and> 0 \<le> node_seek v"
  note r = assms[unfolded tick_ready_def Let_def, folded v_def limit_def fl_def, folded s_def n_def room_def]
  have i1: "intervals st1 i = v1" "\<And>j. j \<noteq> i \<Longrightarrow> intervals st1 j = intervals st j" "overticks st1 = overticks st"
    by (simp_all add: st1_def v1_def v_def frame_simps overticks_quiet)
  have v1: "itv_date v1 = itv_date v" "fixed_part v1 = fixed_part v" "advance_for env i v1 tick tk = n"
      "local_time_factor env i v1 tk = s"
    by (simp_all add: v1_def parent_speed_irrelevant n_def s_def)
  have u1: "itv_date (sought v1) = itv_date (sought v)" "fixed_part (sought v1) = fixed_part (sought v)"
      "advance_for env i (sought v1) tick tk = advance_for env i (sought v) tick tk"
    by (simp_all add: v1_def parent_speed_irrelevant)
  have l: "impl limit < infinite_min" using r by (simp add: tv_infinite_def)
  have mt: "tv_minus limit (itv_date v) = Time_value room" using minus_in_room r l by (simp add: room_def)
  have rg: "0 \<le> room" "impl (itv_date v) + room = impl limit" using r by (simp_all add: room_def)
  have run: "run_interval env tk tick off first end i st = reach_end i (run_to_limit env i tk tick off first end limit s st1)"
    using r by (simp add: run_interval_def Let_def limit_def[symmetric] st1_def[symmetric] i1 v1 fl_def[symmetric])
  define st2 where "st2 = run_to_limit env i tk tick off first end limit s st1"
  have d64: "s64 (n - room) = n - room" using r by (intro s64_id) simp
  have z: "impl (itv_date v) = impl limit" if "room = 0" using that rg by simp
  have "(if seeks then itv_date (intervals st2 i) = at_least_zero (tv_plus_i64 (Time_value (node_seek v)) (advance_for env i (sought v) tick tk))
          \<and> overticks st2 = overticks st \<and> fixed_part (intervals st2 i) = fixed_part (sought v)
        else (if n \<le> room
        then itv_date (intervals st2 i) = (if tv_neq tick Zero_tv then at_least_zero (Time_value (impl (itv_date v) + n)) else itv_date v)
          \<and> overticks st2 = overticks st
        else impl (itv_date (intervals st2 i)) = impl limit \<and> overticks st2 (sync_of_end st i) \<noteq> None)
          \<and> fixed_part (intervals st2 i) = fixed_part v)
      \<and> (\<forall>j. j \<noteq> i \<longrightarrow> intervals st2 j = intervals st j)"
  proof (cases "n \<le> room")
    case True
    then have st2: "st2 = (if tv_neq tick Zero_tv then tick_offset env i tick off tk first (window_of first end) st1 else st1)"
      using r d64 by (simp add: st2_def run_to_limit_def i1 v1 mt Let_def fl_def[symmetric])
    show ?thesis
    proof (cases "tv_neq tick Zero_tv")
      case t: True
      have m: "clock_moved i (at_least_zero (tv_plus_i64 (itv_date (sought v)) (advance_for env i (sought v) tick tk)))
          (next_residue env i (sought v1) tick tk) (set_interval i (\<lambda>_. sought v1) st1) st2"
        using tick_moves_by_advance[where st = st1 and i = i and env = env and d = tick and tk = tk and off = off and first = first
            and len = "window_of first end", unfolded i1(1) u1] t st2 by simp
      note c = clock_movedD(1,3,4)[OF m] clock_moved_overticks[OF m]
      have j: "intervals st2 j = intervals st j" if "j \<noteq> i" for j using c(3)[OF that] i1(2)[OF that] that by (simp add: frame_simps)
      have o: "overticks st2 = overticks st" using c(4) i1(3) by (simp add: overticks_quiet)
      have p: "fixed_part (intervals st2 i) = fixed_part (sought v)" using c(2) u1(2) by (simp add: frame_simps)
      show ?thesis
      proof (cases "0 \<le> node_seek v")
        case True
        then have "seeks" using \<open>n \<le> room\<close> t by (simp add: seeks_def)
        moreover have "itv_date (sought v) = Time_value (node_seek v)" using True by (simp add: sought_def)
        ultimately show ?thesis using c(1) j o p by simp
      next
        case False
        then have "\<not> seeks" "sought v = v" by (simp_all add: seeks_def sought_def)
        moreover have "tv_plus_i64 (itv_date v) n = Time_value (impl (itv_date v) + n)"
          using plus_in_room[of "itv_date v" limit n] r l True by (simp add: room_def)
        ultimately show ?thesis using c(1) j o p True t by (simp add: n_def[symmetric])
      qed
    next
      case False
      then show ?thesis using True st2 i1 v1 by (simp add: seeks_def)
    qed
  next
    case False
    define sf where "sf = (if f_lt fl (f_0 fl) s then s else f_lit fl 1)"
    define c where "c = cut_at fl tick first end (f_div fl (f_of_int fl room) sf)"
    define st3 where "st3 = (if tv_neq (Time_value room) Zero_tv \<or> tv_eq limit Zero_tv
        then tick_offset_speed_precomputed env i (Time_value room) off tk first (span_to first end c) st1 else st1)"
    have st2: "st2 = note_overtick (sync_of_end st1 i) (Time_value (f_int64 fl (f_div fl (f_of_int fl (n - room)) sf)))
        (tv_plus off (Time_value (f_int64 fl (f_div fl (f_of_int fl room) sf)))) c st3"
      using False r d64 unfolding st2_def run_to_limit_def Let_def i1 v1 mt fl_def[symmetric] sf_def[symmetric] time_value.sel
        c_def[symmetric] st3_def[symmetric] by simp
    have "tv_plus_i64 (itv_date v) room = limit"
      using plus_in_room[of "itv_date v" limit room] r l rg by (simp add: tv_consts)
    moreover have "at_least_zero limit = limit" using r rg by (auto simp: at_least_zero_def tv_defs)
    ultimately have m: "clock_moved i limit (date_residue v1) st1 (tick_offset_speed_precomputed env i (Time_value room) off tk first len st1)" for len
      using clock_moved_precomputed[of i st1 "Time_value room" env off tk first len] by (simp add: i1 v1)
    have "impl (itv_date (intervals st3 i)) = impl limit \<and> fixed_part (intervals st3 i) = fixed_part v
        \<and> (\<forall>j. j \<noteq> i \<longrightarrow> intervals st3 j = intervals st j)"
      using clock_movedD(1,3,4)[OF m] i1 v1 z by (auto simp: st3_def tv_defs)
    moreover have "sync_of_end st1 i = sync_of_end st i"
      by (simp add: sync_of_end_def st1_def frame_simps)
    ultimately show ?thesis using False by (simp add: st2 note_overtick_def seeks_def)
  qed
  moreover have "impl (at_least_zero (Time_value (impl (itv_date v) + n))) \<le> impl limit" if "n \<le> room"
    using that rg r by (auto simp: at_least_zero_def)
  moreover have "0 \<le> impl (at_least_zero x)" for x by (auto simp: at_least_zero_def tv_defs tv_consts)
  ultimately show ?thesis
    using rg r unfolding Let_def run st2_def[symmetric] v_def[symmetric] limit_def[symmetric] n_def[symmetric] room_def[symmetric]
      seeks_def[symmetric] reach_end_fields
    by (auto split: if_splits)
qed

section \<open>Cuts in samples\<close>

lemma round_cut_range: "first \<le> end \<Longrightarrow> first \<le> round_cut fl tick first end t \<and> round_cut fl tick first end t \<le> end"
  by (simp add: round_cut_def Let_def)

text \<open>the cut of a tick lies in its window of samples, whatever the rounding, so that the samples up to the
  cut, which the interval that ends writes, and those from it, which whatever follows writes, are those of the
  window, each once.\<close>

theorem cut_splits_window:
  assumes "has_window first end" and "end < 2 ^ 31"
  shows "first \<le> cut_at fl tick first end t \<and> cut_at fl tick first end t \<le> end
    \<and> has_window (cut_at fl tick first end t) end
    \<and> span_to first end (cut_at fl tick first end t) + window_of (cut_at fl tick first end t) end = window_of first end
    \<and> 0 \<le> span_to first end (cut_at fl tick first end t)"
proof -
  have r: "0 \<le> first" "first \<le> end" using assms by (simp_all add: has_window_def)
  define c where "c = cut_at fl tick first end t"
  have c: "first \<le> c" "c \<le> end" using r round_cut_range[OF r(2), of fl tick t] by (auto simp: c_def cut_at_def assms(1))
  have "s32 (c - first) = c - first" "s32 (end - c) = end - c" "s32 (end - first) = end - first"
    using r c assms(2) by (auto intro!: s32_id)
  moreover have "has_window c end" using c r by (simp add: has_window_def)
  ultimately show ?thesis using c assms(1) by (simp add: c_def[symmetric] span_to_def window_of_def)
qed

lemma cut_splits_window_witness:
  "0 \<le> span_to 0 512 (cut_at rat_fpu (Time_value 9) 0 512 3)"
  using cut_splits_window[of 0 512 rat_fpu "Time_value 9" 3] by (simp add: has_window_def)

section \<open>Exact arithmetic\<close>

text \<open>The steps taken for a list of exact amounts, and what is carried at the end.\<close>

primrec take_steps :: "'d fpu \<Rightarrow> 'd list \<Rightarrow> 'd time_interval \<Rightarrow> int \<times> 'd time_interval" where
  "take_steps fl [] v = (0, v)"
| "take_steps fl (x # xs) v =
     (case take_step fl x v of (n, v1) \<Rightarrow> case take_steps fl xs v1 of (m, v2) \<Rightarrow> (n + m, v2))"

lemma rat_step: "take_step rat_fpu x v = (\<lfloor>x + date_residue v\<rfloor>, v\<lparr>date_residue := frac (x + date_residue v)\<rparr>)"
  by (simp add: take_step_def Let_def frac_def)

text \<open>in exact arithmetic nothing is lost in the fractions: over any number of ticks the clock advances by
  the whole part of everything it was asked for, and carries the rest.\<close>

theorem steps_do_not_drift:
  assumes "0 \<le> date_residue v" and "date_residue v < 1"
  shows "fst (take_steps rat_fpu xs v) = \<lfloor>date_residue v + sum_list xs\<rfloor>
    \<and> date_residue (snd (take_steps rat_fpu xs v)) = frac (date_residue v + sum_list xs)"
  using assms
proof (induction xs arbitrary: v)
  case Nil
  then show ?case by (simp add: frac_eq floor_eq_iff)
next
  case (Cons x xs)
  define r where "r = date_residue v"
  obtain m v2 where t: "take_steps rat_fpu xs (v\<lparr>date_residue := frac (x + r)\<rparr>) = (m, v2)" by fastforce
  have f: "frac (x + r) + sum_list xs = of_int (- \<lfloor>x + r\<rfloor>) + (r + (x + sum_list xs))" by (simp add: frac_def)
  have "m = \<lfloor>frac (x + r) + sum_list xs\<rfloor>" "date_residue v2 = frac (frac (x + r) + sum_list xs)"
    using Cons.IH[of "v\<lparr>date_residue := frac (x + r)\<rparr>"] frac_ge_0[of "x + r"] frac_lt_1[of "x + r"] by (auto simp: t)
  then have "m = \<lfloor>r + (x + sum_list xs)\<rfloor> - \<lfloor>x + r\<rfloor>" "date_residue v2 = frac (r + (x + sum_list xs))"
    unfolding f floor_add_int[symmetric] by (simp_all add: frac_def)
  then show ?case using t by (simp add: rat_step r_def[symmetric])
qed

lemma steps_do_not_drift_witness:
  "fst (take_steps rat_fpu [1 / 3, 1 / 3, 1 / 3, 5 / 2] demo_interval) = 3"
proof -
  have r: "date_residue demo_interval = 0" by (simp add: demo_interval_def)
  have "\<lfloor>7 / 2 :: rat\<rfloor> = 3" by (simp add: floor_eq_iff)
  then show ?thesis using steps_do_not_drift[of demo_interval "[1 / 3, 1 / 3, 1 / 3, 5 / 2]"] unfolding r by simp
qed

text \<open>in exact arithmetic a scenario that rewinds a tick takes an interval back exactly to the date and the
  fraction it had before the tick.\<close>

theorem forth_and_back:
  assumes "env_fpu env = rat_fpu" and "0 \<le> date_residue v" and "date_residue v < 1"
    and "\<not> has_tempo v" and "0 < itv_speed v" and "take_step rat_fpu (of_int (impl d) * itv_speed v) v = (n, v1)" and "in64 n"
  shows "take_backward_step env i d tk v1 = (n, v)"
proof -
  define r where "r = date_residue v"
  define x where "x = of_int (impl d) * itv_speed v"
  have v1: "n = \<lfloor>x + r\<rfloor>" "v1 = v\<lparr>date_residue := frac (x + r)\<rparr>"
    using assms(6) by (simp_all add: rat_step x_def r_def)
  have l: "local_time_factor env i v1 tk = itv_speed v" using assms(4) by (simp add: local_time_factor_def Let_def v1)
  have b: "- x + frac (x + r) = r - of_int n" by (simp add: frac_def v1)
  have "\<lfloor>r - of_int n\<rfloor> = - n" "frac (r - of_int n) = r"
    using assms(2,3) by (simp_all add: r_def[symmetric] frac_def floor_eq_iff)
  moreover have "- x + date_residue v1 = r - of_int n" using b by (simp add: v1(2))
  moreover have "v1\<lparr>date_residue := r\<rparr> = v" by (simp add: v1(2) r_def)
  ultimately have "take_step rat_fpu (- x) v1 = (- n, v)" by (simp add: rat_step)
  moreover have "s64 n = n" using assms(7) by (intro s64_id) simp
  ultimately show ?thesis
    using assms(1,5) by (simp add: take_backward_step_def Let_def l x_def[symmetric])
qed

lemma forth_and_back_witness:
  "take_backward_step demo_env 0 (Time_value 7) demo_token (demo_interval\<lparr>date_residue := 1 / 2, itv_speed := 3 / 2\<rparr>\<lparr>date_residue := 0\<rparr>)
   = (11, demo_interval\<lparr>date_residue := 1 / 2, itv_speed := 3 / 2\<rparr>)"
proof (rule forth_and_back)
  show "take_step rat_fpu (of_int (impl (Time_value 7)) * itv_speed (demo_interval\<lparr>date_residue := 1 / 2, itv_speed := 3 / 2\<rparr>))
      (demo_interval\<lparr>date_residue := 1 / 2, itv_speed := 3 / 2\<rparr>)
    = (11, demo_interval\<lparr>date_residue := 1 / 2, itv_speed := 3 / 2\<rparr>\<lparr>date_residue := 0\<rparr>)"
    by (simp add: rat_step frac_def)
qed (simp_all add: demo_env_def demo_interval_def)

lemma run_interval_within_limit_witness:
  "itv_date (intervals (run_interval demo_env demo_token (Time_value 30) Zero_tv 0 512 0 demo_pair) 0) = Time_value 20"
proof -
  have v: "intervals demo_pair 0 = (demo_itv 0 1)\<lparr>is_running := True\<rparr>" "interval_limit demo_pair 0 = Time_value 20"
    by (simp_all add: demo_pair_def demo_defs interval_limit_def)
  have a: "advance_for demo_env 0 ((demo_itv 0 1)\<lparr>is_running := True\<rparr>) (Time_value 30) demo_token = 30"
    using rat_trunc_of_int[of 30] by (simp add: advance_for_def local_time_factor_def demo_env_def demo_defs Let_def)
  have d: "itv_date ((demo_itv 0 1)\<lparr>is_running := True\<rparr>) = Zero_tv" by (simp add: demo_defs)
  have "tick_ready demo_env demo_token (Time_value 30) 0 demo_pair"
    by (simp add: tick_ready_def Let_def v[unfolded One_nat_def] a[unfolded One_nat_def] d[unfolded One_nat_def] local_time_factor_def tv_infinite_def tv_consts)
      (simp add: demo_env_def demo_defs)
  from run_interval_within_limit[OF this, of Zero_tv 0 512] show ?thesis
    unfolding Let_def v a d by (simp add: time_value.expand demo_defs)
qed

end
