(* ===== verification/ScenarioRequests.thy ===== *)
theory ScenarioRequests
  imports ScenarioTickProps
begin

text \<open>
  What a tick does before the intervals run: the intervals whose start or stop was requested, and those taken
  off the running ones.
\<close>

section \<open>Starting on request\<close>

lemma status_change_fields:
  "intervals (set_status e s st) = intervals st" "running_intervals (set_status e s st) = running_intervals st"
  "exclusive (set_status e s st) = exclusive st"
  by (simp_all add: frame_simps)

lemma stop_if_running_fields [frame_simps]:
  "intervals (stop_if_running i b st) j =
     (if j = i \<and> (is_running (intervals st i) \<or> i \<in> set (running_intervals st)) then stopped (intervals st i) else intervals st j)"
  "running_intervals (stop_if_running i b st) = running_intervals st" "exclusive (stop_if_running i b st) = exclusive st"
  "events (stop_if_running i b st) = events st"
  by (simp_all add: stop_if_running_def frame_simps)











text \<open>an interval whose end event has happened is not taken off the running ones at the start of a tick: the
  status asked for is the one an event has only while it is happening.\<close>

theorem clean_running_keeps_happened:
  assumes "i \<in> set (running_intervals st)" and "status (events st (end_event (intervals st i))) = HAPPENED OR FINISHED"
  shows "i \<in> set (running_intervals (clean_running st))"
proof -
  have "HAPPENED OR FINISHED \<noteq> HAPPENED" by (simp add: HAPPENED_def FINISHED_def)
  then show ?thesis using assms by (simp add: clean_running_def)
qed

section \<open>Examples\<close>



lemma clean_running_keeps_happened_witness:
  "0 \<in> set (running_intervals (clean_running (with_status happened_finished)))"
  by (rule clean_running_keeps_happened) (simp_all add: with_status_def demo_pair_def demo_defs happened_finished_def)

end
