(* ===== verification/ScenarioTermination.thy ===== *)
theory ScenarioTermination
  imports ScenarioRequests ScenarioTickProps
begin

text \<open>
  The cascade of a tick returns. Everything a sync does when it is asked to trigger keeps the graph and what the cascade
  counts (\<open>calm\<close>); on a graph in which intervals lead to syncs of larger rank, each round of the cascade
  reaches syncs of a larger rank than the round before.
\<close>

section \<open>Results of steps\<close>

definition ok :: "('a \<Rightarrow> bool) \<Rightarrow> ('e, 'a) outcome \<Rightarrow> bool" where
  "ok Q r = (case r of Done x \<Rightarrow> Q x | Throw _ \<Rightarrow> True | Diverge \<Rightarrow> False)"

lemma ok_simps [simp]: "ok Q (Done x) = Q x" "ok Q (Throw e)" "\<not> ok Q Diverge"
  by (simp_all add: ok_def)

lemma ok_and_then: "ok Q r \<Longrightarrow> (\<And>x. Q x \<Longrightarrow> ok R (f x)) \<Longrightarrow> ok R (and_then r f)"
  by (cases r) simp_all

lemma ok_each: "(\<And>x s. x \<in> set xs \<Longrightarrow> Q s \<Longrightarrow> ok Q (f x s)) \<Longrightarrow> Q s \<Longrightarrow> ok Q (each f xs s)"
proof (induction xs arbitrary: s)
  case (Cons x xs)
  have "ok Q (f x s)" using Cons.prems by simp
  then show ?case using Cons by (auto intro!: ok_and_then[of Q])
qed simp

lemma ok_mono: "ok Q r \<Longrightarrow> (\<And>x. Q x \<Longrightarrow> R x) \<Longrightarrow> ok R r"
  by (cases r) simp_all

lemma ok_Done: "ok Q r \<Longrightarrow> r = Done x \<Longrightarrow> Q x"
  by simp

lemma ok_lift: "ok (\<lambda>_. True) (lift_expr r)"
  by (cases r) (simp_all add: lift_expr_def)

section \<open>Calm changes\<close>

definition tick_frame :: "'d scenario \<Rightarrow> _" where
  "tick_frame st = (shape st, end_nodes st, retry_syncs st, exclusive st, (\<lambda>s. sync_rate (syncs st s)), overticks st)"

text \<open>\<open>P\<close> is a property of intervals that starting and stopping keep.\<close>

definition engine_closed :: "('d::zero time_interval \<Rightarrow> bool) \<Rightarrow> bool" where
  "engine_closed P \<longleftrightarrow> (\<forall>v sp. P v \<longrightarrow> P (stopped v) \<and> P (v\<lparr>parent_speed := sp\<rparr>) \<and> P (started v))"

definition calm :: "('d::zero time_interval \<Rightarrow> bool) \<Rightarrow> nat set \<Rightarrow> 'd scenario \<Rightarrow> 'd scenario \<Rightarrow> bool" where
  "calm P E st st' \<longleftrightarrow>
     tick_frame st' = tick_frame st \<and> set (max_reached_events st') \<subseteq> set (max_reached_events st) \<union> E
     \<and> set (pending_events st') \<subseteq> set (pending_events st) \<union> E
     \<and> ((\<forall>i. P (intervals st i)) \<longrightarrow> (\<forall>i. P (intervals st' i)))"

lemma calm_refl: "calm P E st st"
  by (simp add: calm_def)

lemma calm_trans: "calm P E st st' \<Longrightarrow> calm P E st' st'' \<Longrightarrow> calm P E st st''"
  by (auto simp: calm_def)

lemma calm_shape: "calm P E st st' \<Longrightarrow> shape st' = shape st"
  by (simp add: calm_def tick_frame_def)

lemma calm_note: "calm P E st0 st \<Longrightarrow> calm P E st0 (note_call c st)"
  by (simp add: calm_def tick_frame_def shape_def note_call_def)

lemma calm_sync:
  assumes "calm P E st0 st" and "\<And>v. time_events (h v) = time_events v \<and> sync_rate (h v) = sync_rate v"
  shows "calm P E st0 (set_sync s h st)"
proof -
  have "(\<lambda>t. time_events (syncs (set_sync s h st) t)) = (\<lambda>t. time_events (syncs st t))"
    "(\<lambda>t. sync_rate (syncs (set_sync s h st) t)) = (\<lambda>t. sync_rate (syncs st t))"
    using assms(2) by (auto simp: set_sync_def)
  then show ?thesis using assms(1) by (simp add: calm_def tick_frame_def shape_def set_sync_def)
qed

lemma calm_event:
  assumes "calm P E st0 st"
    and "\<And>v. time_sync_of (g v) = time_sync_of v \<and> previous_intervals (g v) = previous_intervals v \<and> next_intervals (g v) = next_intervals v"
  shows "calm P E st0 (set_event e g st)"
proof -
  have "(\<lambda>f. (time_sync_of (events (set_event e g st) f), previous_intervals (events (set_event e g st) f), next_intervals (events (set_event e g st) f)))
      = (\<lambda>f. (time_sync_of (events st f), previous_intervals (events st f), next_intervals (events st f)))"
    using assms(2) by (auto simp: set_event_def)
  then show ?thesis using assms(1) by (simp add: calm_def tick_frame_def shape_def set_event_def)
qed

lemma calm_interval:
  assumes "calm P E st0 st"
    and "\<And>v. start_event (f v) = start_event v \<and> end_event (f v) = end_event v \<and> graphal (f v) = graphal v"
    and "\<And>v. P v \<Longrightarrow> P (f v)"
  shows "calm P E st0 (set_interval i f st)"
proof -
  have v: "intervals (set_interval i f st) j = (if j = i then f (intervals st i) else intervals st j)" for j
    by (simp add: set_interval_def)
  have "shape (set_interval i f st) = shape st"
    using assms(2) by (auto simp: shape_def fun_eq_iff v frame_simps)
  then have "tick_frame (set_interval i f st) = tick_frame st"
    by (simp add: tick_frame_def set_interval_def)
  moreover have "max_reached_events (set_interval i f st) = max_reached_events st" "pending_events (set_interval i f st) = pending_events st"
    by (simp_all add: set_interval_def)
  ultimately show ?thesis using assms(1,3) by (auto simp: calm_def v)
qed

lemma calm_fold: "(\<And>x st. x \<in> set xs \<Longrightarrow> calm P E st0 st \<Longrightarrow> calm P E st0 (f x st)) \<Longrightarrow> calm P E st0 st \<Longrightarrow> calm P E st0 (fold f xs st)"
  by (rule fold_invariant_rule)

text \<open>Two stores that differ only in the calls are equally calm.\<close>

lemma calm_quiet: "calm P E st0 (quiet st) = calm P E st0 st"
  by (simp add: calm_def tick_frame_def shape_def quiet_def)

lemma calm_by_quiet: "quiet st' = quiet st \<Longrightarrow> calm P E st0 st \<Longrightarrow> calm P E st0 st'"
  by (metis calm_quiet)

lemma calm_stop: "engine_closed P \<Longrightarrow> calm P E st0 st \<Longrightarrow> calm P E st0 (interval_stop i st)"
  using calm_interval[of P E st0 "quiet st" stopped i] by (simp add: calm_quiet[symmetric, of P E st0 "interval_stop i st"] calm_quiet engine_closed_def)

lemma calm_start: "engine_closed P \<Longrightarrow> calm P E st0 st \<Longrightarrow> calm P E st0 (interval_start i st)"
  using calm_interval[of P E st0 "quiet st" started i] by (simp add: calm_quiet[symmetric, of P E st0 "interval_start i st"] calm_quiet engine_closed_def)

lemma calm_update: "calm P E st0 st \<Longrightarrow> calm P E st0 (st\<lparr>running_intervals := xs\<rparr>)" "calm P E st0 st \<Longrightarrow> set ys \<subseteq> set (pending_events st0) \<union> E \<Longrightarrow> calm P E st0 (st\<lparr>pending_events := ys\<rparr>)"
  "calm P E st0 st \<Longrightarrow> set ys \<subseteq> set (max_reached_events st0) \<union> E \<Longrightarrow> calm P E st0 (st\<lparr>max_reached_events := ys\<rparr>)"
  "calm P E st0 st \<Longrightarrow> calm P E st0 (st\<lparr>itv_end_map := m\<rparr>)"
  by (simp_all add: calm_def tick_frame_def shape_def)

lemma calm_running: "calm P E st0 st \<Longrightarrow> calm P E st0 (add_running i st)" "calm P E st0 st \<Longrightarrow> calm P E st0 (erase_running i st)"
  by (simp_all add: add_running_def erase_running_def calm_update)

lemma calm_marks: "calm P E st0 st \<Longrightarrow> calm P E st0 (mark_start i st)" "calm P E st0 st \<Longrightarrow> calm P E st0 (mark_end i st)"
  "calm P E st0 st \<Longrightarrow> calm P E st0 (event_notify e st)" "calm P E st0 st \<Longrightarrow> calm P E st0 (event_tick e d off sp st)"
  by (rule calm_by_quiet; simp)+

lemma calm_status: "calm P E st0 st \<Longrightarrow> calm P E st0 (set_status e s st)" "calm P E st0 st \<Longrightarrow> calm P E st0 (mark_finished e st)"
  by (simp_all add: set_status_def mark_finished_def calm_marks calm_event)

lemma calm_stop_previous: "engine_closed P \<Longrightarrow> calm P E st0 st \<Longrightarrow> calm P E st0 (stop_previous i st)"
  by (simp add: stop_previous_def calm_running calm_marks calm_stop)

lemma calm_start_next: "engine_closed P \<Longrightarrow> calm P E st0 st \<Longrightarrow> calm P E st0 (start_next sp i st)"
  by (simp add: start_next_def calm_running calm_marks calm_start calm_interval engine_closed_def)

lemma calm_make_happen: "engine_closed P \<Longrightarrow> calm P E st0 st \<Longrightarrow> calm P E st0 (make_happen e off tok st)"
  unfolding make_happen_def Let_def
  by (intro calm_status calm_marks calm_fold calm_start_next calm_stop_previous calm_event) simp_all

section \<open>Disposal\<close>

lemma calm_make_dispose:
  assumes "engine_closed P"
  shows "forward_graph \<rho> N st \<Longrightarrow> N - \<rho> (time_sync_of (events st e)) < n \<Longrightarrow> ok (calm P E st) (make_dispose n e st)"
proof (induction n arbitrary: e st)
  case (Suc n)
  let ?st2 = "fold stop_previous (previous_intervals (events (set_event e (\<lambda>v. v\<lparr>status := DISPOSED\<rparr>) st) e))
    (set_event e (\<lambda>v. v\<lparr>status := DISPOSED\<rparr>) st)"
  have c2: "calm P E st ?st2"
    by (intro calm_fold calm_stop_previous calm_event assms) (simp_all add: calm_refl)
  note sh = shape_fields[OF calm_shape[OF c2]]
  have "ok (calm P E st) (each (\<lambda>i st. let f = end_event (intervals st i)
      in if all_starts_disposed f st \<and> \<not> graphal (intervals st i) then make_dispose n f st else Done st)
      (next_intervals (events ?st2 e)) ?st2)"
  proof (rule ok_each)
    fix i s assume i: "i \<in> set (next_intervals (events ?st2 e))" and s: "calm P E st s"
    note sh' = shape_fields[OF calm_shape[OF s]]
    have f: "forward_graph \<rho> N s" using Suc.prems(1) forward_graph_shape[OF calm_shape[OF s]] by simp
    have "\<rho> (time_sync_of (events st e)) < \<rho> (sync_of_end st i)"
      using Suc.prems(1) i sh(6)[of e] by (simp add: forward_graph_def)
    moreover have "\<rho> (sync_of_end st i) \<le> N" using Suc.prems(1) by (simp add: forward_graph_def)
    ultimately have "N - \<rho> (time_sync_of (events s (end_event (intervals s i)))) < n"
      using Suc.prems(2) sh' by (simp add: sync_of_end_def)
    then have "ok (calm P E s) (make_dispose n (end_event (intervals s i)) s)" using Suc.IH f by blast
    then show "ok (calm P E st) (let f = end_event (intervals s i)
      in if all_starts_disposed f s \<and> \<not> graphal (intervals s i) then make_dispose n f s else Done s)"
      using s by (auto simp: Let_def intro: ok_mono calm_trans)
  qed (rule c2)
  then show ?case
    by (auto simp: make_dispose.simps(2) Let_def intro!: ok_and_then[of "calm P E st"] calm_status calm_marks)
qed simp

section \<open>A sync that is asked to trigger\<close>

lemma calm_observe: "calm P E st0 st \<Longrightarrow> ok (calm P E st0) (observe_expression b s st)"
  by (simp add: observe_expression_def observe_expression_impl_def remove_observer_def Let_def calm_sync calm_note split: option.split expr.split)

lemma calm_set_being_triggered: "calm P E st0 st \<Longrightarrow> calm P E st0 (set_is_being_triggered b s st)"
  by (simp add: set_is_being_triggered_def Let_def calm_sync calm_note)

lemma calm_reset_expression: "calm P E st0 st \<Longrightarrow> ok (calm P E st0) (reset_expression s st)"
  by (auto simp: reset_expression_def calm_sync split: option.split intro!: ok_and_then[OF ok_lift])

lemma calm_enter: "calm P E st0 st \<Longrightarrow> calm P E st0 (enter_evaluation s st)" "calm P E st0 st \<Longrightarrow> calm P E st0 (leave_evaluation s st)"
  by (simp_all add: enter_evaluation_def leave_evaluation_def end_trigger_request_def calm_sync calm_note)

lemma calm_in: "calm P E st0 st \<Longrightarrow> e \<in> E \<Longrightarrow> calm P E st0 (st\<lparr>max_reached_events := max_reached_events st @ [e]\<rparr>)"
  by (rule calm_update(3)) (auto simp: calm_def)

lemma calm_in_pending: "calm P E st0 st \<Longrightarrow> e \<in> E \<Longrightarrow> calm P E st0 (st\<lparr>pending_events := pending_events st @ [e]\<rparr>)"
  by (rule calm_update(2)) (auto simp: calm_def)

lemma calm_ready_event: "calm P E st0 (fst x) \<Longrightarrow> e \<in> E \<Longrightarrow> calm P E st0 (fst (ready_event e x))"
proof -
  have p: "calm P E st0 (fst (on_pending e (st, c, a, m)))" if "calm P E st0 st" "e \<in> E" for st c a m
    using that by (simp add: on_pending_def Let_def calm_in_pending)
  assume "calm P E st0 (fst x)" "e \<in> E"
  then show ?thesis by (cases x) (simp add: ready_event_def Let_def p calm_status)
qed

lemma calm_ready:
  assumes "set (time_events (syncs st s)) \<subseteq> E"
  shows "calm P E (st\<lparr>pending_events := []\<rparr>) (fst (is_timesync_ready s st))"
proof -
  have "calm P E (st\<lparr>pending_events := []\<rparr>) (fst (fold ready_event (time_events (syncs st s))
     (st\<lparr>pending_events := []\<rparr>, 0, length (time_events (syncs st s)), False)))"
    using assms by (intro fold_invariant_rule[where P = "\<lambda>x. calm P E _ (fst x)"] calm_ready_event) (auto simp: calm_refl)
  then show ?thesis by (simp add: is_timesync_ready_def case_prod_beta)
qed

lemma calm_run_event:
  assumes "engine_closed P" "forward_graph \<rho> N st0" "N < n" and e: "e \<in> E" and c: "calm P E st0 st"
  shows "ok (calm P E st0) (run_event n env mx off tk e st)"
proof -
  have d: "ok (calm P E st0) (make_dispose n e st')" if "calm P E st0 st'" for st'
  proof -
    have "forward_graph \<rho> N st'" using assms(2) forward_graph_shape[OF calm_shape[OF that]] by simp
    moreover have "N - \<rho> (time_sync_of (events st' e)) < n" using assms(3) by simp
    ultimately have "ok (calm P E st') (make_dispose n e st')" using calm_make_dispose[OF assms(1)] by blast
    then show ?thesis using that by (auto intro: ok_mono calm_trans)
  qed
  have h: "calm P E st0 (make_happen e off tk st')" if "calm P E st0 st'" for st'
    using calm_make_happen[OF assms(1) that] .
  show ?thesis
    unfolding run_event_def Let_def
  proof (rule ok_and_then[OF ok_lift], clarify, rule ok_and_then[OF ok_lift])
    fix expr pulls b
    have "calm P E st0 (note_call (Pull pulls) (set_event e (\<lambda>v. v\<lparr>ev_expression := expr\<rparr>) st))"
      by (intro calm_note calm_event c) simp
    then show "ok (calm P E st0) (if b then Done (if mx
        then make_happen e off tk (note_call (Pull pulls) (set_event e (ev_expression_update (\<lambda>_. expr)) st))
          \<lparr>max_reached_events := max_reached_events (make_happen e off tk (note_call (Pull pulls) (set_event e (ev_expression_update (\<lambda>_. expr)) st))) @ [e]\<rparr>
        else make_happen e off tk (note_call (Pull pulls) (set_event e (ev_expression_update (\<lambda>_. expr)) st)))
      else make_dispose n e (note_call (Pull pulls) (set_event e (ev_expression_update (\<lambda>_. expr)) st)))"
      by (simp add: d h calm_in[OF h e])
  qed
qed

lemma calm_finish: "calm P E st0 st \<Longrightarrow> calm P E st0 (finish_sync s mx st)"
  by (simp add: finish_sync_def calm_sync calm_note)

lemma calm_fire_sync:
  assumes "engine_closed P" "forward_graph \<rho> N st0" "N < n" "\<not> exclusive st0" "set (pending_events st0) \<subseteq> E"
    and c: "calm P E st0 st"
  shows "ok (\<lambda>(r, st'). r = DONE \<and> calm P E st0 st') (fire_sync n env s off tk mx st)"
  unfolding fire_sync_def Let_def
proof (rule ok_and_then[OF calm_reset_expression[OF calm_set_being_triggered[OF c]]])
  fix st1 assume st1: "calm P E st0 st1"
  have "set (pending_events st1) \<subseteq> E" using st1 assms(5) by (auto simp: calm_def)
  then have e: "ok (calm P E st0) (each (run_event n env mx off tk) (pending_events st1) st1)"
    using st1 by (intro ok_each calm_run_event[OF assms(1-3)]) auto
  show "ok (\<lambda>(r, st'). r = DONE \<and> calm P E st0 st')
    (and_then (each (run_event n env mx off tk) (pending_events st1) st1) (\<lambda>st2.
     and_then (observe_expression False s st2) (\<lambda>st3.
       and_then (if exclusive (finish_sync s mx st3) then reset_all_components_except n s (finish_sync s mx st3)
         else Done (finish_sync s mx st3)) (\<lambda>st5. Done (DONE, st5)))))"
  proof (rule ok_and_then[OF e], rule ok_and_then[OF calm_observe])
    fix st3 assume "calm P E st0 st3"
    then have f: "calm P E st0 (finish_sync s mx st3)" by (rule calm_finish)
    then have "\<not> exclusive (finish_sync s mx st3)" using assms(4) by (simp add: calm_def tick_frame_def)
    then show "ok (\<lambda>(r, st'). r = DONE \<and> calm P E st0 st')
      (and_then (if exclusive (finish_sync s mx st3) then reset_all_components_except n s (finish_sync s mx st3)
         else Done (finish_sync s mx st3)) (\<lambda>st5. Done (DONE, st5)))" using f by simp
  qed
qed

lemma calm_check_expression: "calm P E st0 st \<Longrightarrow> ok (\<lambda>(b, st'). calm P E st0 st') (check_expression env s st)"
proof -
  assume c: "calm P E st0 st"
  have u: "ok (calm P E st0) (update_sync_expression s st)"
    using c by (auto simp: update_sync_expression_def calm_note calm_sync split: option.split intro!: ok_and_then[OF ok_lift])
  have o2: "ok (\<lambda>(b, st'). calm P E st0 st') (if trigger_request (syncs st2 s) then Done (True, end_trigger_request s st2)
      else (case sync_expression (syncs st2 s) of None \<Rightarrow> Done (True, st2)
        | Some e \<Rightarrow> and_then (lift_expr (evaluate (env_world env) e)) (\<lambda>b. Done (b, st2))))"
    if "calm P E st0 st2" for st2
    using that by (auto simp: end_trigger_request_def calm_sync split: option.split intro!: ok_and_then[OF ok_lift])
  have "ok (calm P E st0) (if \<not> observing (syncs st s) then update_sync_expression s st else Done st)" using u c by simp
  then show ?thesis
    using c unfolding check_expression_def by (auto intro!: ok_and_then[of "calm P E st0"] o2 calm_observe)
qed

lemma calm_trigger_quantified:
  "calm P E st0 st \<Longrightarrow> trigger_quantified_time_sync s mx st = (r, mx', st') \<Longrightarrow> calm P E st0 st' \<and> r \<noteq> RETRY"
  by (auto simp: trigger_quantified_time_sync_def erase_end_map_def intro!: calm_fold calm_update split: if_splits)

text \<open>Without a rate no sync asks to be tried again.\<close>

lemma calm_trigger_sync:
  assumes "engine_closed P" "forward_graph \<rho> N st0" "N < n" "\<not> exclusive st0" "set (pending_events st0) \<subseteq> E"
    and r: "\<not> has_sync_rate (env_fpu env) (syncs st0 s)"
    and c: "calm P E st0 st"
  shows "ok (\<lambda>(r, st'). r \<noteq> RETRY \<and> calm P E st0 st') (trigger_sync n env s off tk mx st)"
proof -
  have fire: "ok (\<lambda>(r, st'). r \<noteq> RETRY \<and> calm P E st0 st') (fire_sync n env s off tk mx2 st2)" if "calm P E st0 st2" for mx2 st2
    using calm_fire_sync[OF assms(1-5) that] by (rule ok_mono) auto
  have pr: "ok (\<lambda>(r, st'). r \<noteq> RETRY \<and> calm P E st0 st') (proceed n env s off tk mx st2)" if st2: "calm P E st0 st2" for st2
  proof -
    have "(\<lambda>s. sync_rate (syncs st2 s)) = (\<lambda>s. sync_rate (syncs st0 s))" using st2 by (simp add: calm_def tick_frame_def)
    then have "\<not> has_sync_rate (env_fpu env) (syncs st2 s)" using r by (simp add: has_sync_rate_def fun_eq_iff)
    then show ?thesis using st2 calm_trigger_quantified[OF st2]
      by (auto simp: proceed_def fire split: prod.split)
  qed
  show ?thesis
    using calm_enter(1)[OF c] unfolding trigger_sync_def Let_def
    by (auto intro!: fire pr ok_and_then[OF calm_check_expression] calm_set_being_triggered)
qed

lemma calm_process_this:
  assumes "engine_closed P" "forward_graph \<rho> N st" "N < n" "\<not> exclusive st"
    and "\<not> has_sync_rate (env_fpu env) (syncs st s)"
  shows "ok (\<lambda>(r, st'). r \<noteq> RETRY \<and> calm P (set (time_events (syncs st s))) (st\<lparr>pending_events := []\<rparr>) st') (process_this n env s off tk st)"
proof -
  let ?st0 = "st\<lparr>pending_events := []\<rparr>"
  obtain st1 b mx where r: "is_timesync_ready s st = (st1, b, mx)" by (cases "is_timesync_ready s st") auto
  have c: "calm P (set (time_events (syncs st s))) ?st0 st1" using calm_ready[of st s "set (time_events (syncs st s))" P] r by simp
  have "forward_graph \<rho> N ?st0" using assms(2) by (simp add: forward_graph_def sync_of_end_def)
  then show ?thesis
    using calm_trigger_sync[where ?st0.0 = ?st0 and st = st1, OF assms(1) _ assms(3)] assms(4,5) c
    by (simp add: process_this_def r calm_enter(2)[OF c])
qed

section \<open>Intervals that run\<close>

text \<open>What running an interval may do: end nodes are added from \<open>S\<close>, and the rest of what the cascade looks at stays.\<close>

definition flows :: "nat set \<Rightarrow> 'd scenario \<Rightarrow> 'd scenario \<Rightarrow> bool" where
  "flows S st st' \<longleftrightarrow>
     (shape st', retry_syncs st', exclusive st', max_reached_events st', (\<lambda>s. sync_rate (syncs st' s)))
       = (shape st, retry_syncs st, exclusive st, max_reached_events st, (\<lambda>s. sync_rate (syncs st s)))
     \<and> set (end_nodes st') \<subseteq> set (end_nodes st) \<union> S"

lemma flows_refl: "flows S st st"
  by (simp add: flows_def)

lemma flows_trans: "flows S st st' \<Longrightarrow> flows S st' st'' \<Longrightarrow> flows S st st''"
  by (auto simp: flows_def)

lemma flows_mono: "flows S st st' \<Longrightarrow> S \<subseteq> T \<Longrightarrow> flows T st st'"
  by (auto simp: flows_def)

lemma flows_shape: "flows S st st' \<Longrightarrow> shape st' = shape st"
  by (simp add: flows_def)

lemma flows_quiet: "flows S st (quiet st') = flows S st st'" "flows S (quiet st) st' = flows S st st'"
  by (simp_all add: flows_def shape_def quiet_def)

lemma flows_interval:
  assumes "start_event v = start_event (intervals st i)" "end_event v = end_event (intervals st i)" "graphal v = graphal (intervals st i)"
  shows "flows S st (set_interval i (\<lambda>_. v) st)"
proof -
  have "shape (set_interval i (\<lambda>_. v) st) = shape st" using assms by (simp add: shape_def fun_eq_iff set_interval_def)
  then show ?thesis by (simp add: flows_def set_interval_def)
qed

lemma flows_change:
  assumes "quiet st' = set_interval i f (quiet st)"
    and "\<And>v. start_event (f v) = start_event v \<and> end_event (f v) = end_event v \<and> graphal (f v) = graphal v"
  shows "flows S st st'"
proof -
  have "flows S st (set_interval i f (quiet st))"
    using flows_interval[of "f (intervals st i)" "quiet st" i S] assms(2) set_const[of i f "quiet st"]
    by (simp add: flows_quiet quiet_fields)
  then show ?thesis by (simp add: flows_quiet assms(1)[symmetric])
qed

lemma flows_note: "quiet st' = quiet st \<Longrightarrow> flows S st st'"
  by (metis flows_quiet(1) flows_refl)

lemma flows_tick_impl: "flows S st (tick_impl env i a b off tk st)"
  by (rule flows_change[OF quiet_tick_impl]) (simp add: fixed_partD[OF ticked_fields(1)])

lemma flows_samples: "flows S st (set_tick_samples i first len st)"
  unfolding set_tick_samples_def by (rule flows_change[OF quiet_set(1)]) simp

lemma flows_take_seek: "flows S st (take_seek i st)"
proof -
  have "flows S st (set_interval i (\<lambda>v. v\<lparr>node_seek := - (2 ^ 63)\<rparr>) st)" by (rule flows_change[OF quiet_set(1)]) simp
  moreover have "flows S st' (interval_transport i d st')" for d st' by (rule flows_change[OF quiet_interval_move(1)]) simp
  ultimately show ?thesis by (auto simp: take_seek_def Let_def flows_refl intro: flows_trans)
qed

lemma flows_tick_step: "flows S st (tick_step env i x off tk st)"
proof -
  obtain n v where t: "take_step (env_fpu env) x (intervals st i) = (n, v)" by fastforce
  have "flows S st (set_interval i (\<lambda>_. v) st)" using t by (intro flows_interval) (auto simp: take_step_def Let_def)
  then show ?thesis unfolding tick_step_def t prod.case by (rule flows_trans[OF _ flows_tick_impl])
qed

lemma flows_tick_offset:
  "flows S st (tick_offset env i d off tk first len st)" "flows S st (tick_offset_speed_precomputed env i d off tk first len st)"
  unfolding tick_offset_def tick_offset_speed_precomputed_def Let_def
  by (auto intro: flows_trans[OF flows_trans[OF flows_samples flows_take_seek] flows_tick_step] flows_trans[OF flows_samples flows_tick_impl])

lemma flows_set_status: "flows S st (set_status e x st)"
proof -
  have "shape (set_status e x st) = shape st"
    by (auto simp: shape_def fun_eq_iff frame_simps)
  then show ?thesis
    by (simp add: flows_def frame_simps) (simp add: set_status_def event_notify_def note_call_def set_event_def Let_def)
qed

lemma flows_fold: "(\<And>x st. x \<in> set xs \<Longrightarrow> flows S st (f x st)) \<Longrightarrow> flows S st (fold f xs st)"
  by (rule fold_invariant_rule[where P = "flows S st"]) (auto intro: flows_trans flows_refl)

lemma flows_reach_end: "flows {sync_of_end st i} st (reach_end i st)"
proof -
  have "flows {sync_of_end st i} st (st\<lparr>end_nodes := flat_insert (sync_of_end st i) (end_nodes st)\<rparr>)"
    by (auto simp: flows_def shape_def)
  then show ?thesis by (auto simp: reach_end_def Let_def flows_refl intro: flows_trans[OF _ flows_fold[OF flows_set_status]])
qed

lemma flows_note_overtick: "flows S st (note_overtick s a b c st)"
  by (simp add: flows_def note_overtick_def shape_def)

lemma flows_run_interval: "flows {sync_of_end st i} st (run_interval env tk tick off first end i st)"
proof -
  let ?S = "{sync_of_end st i}"
  let ?st1 = "set_interval i (\<lambda>v. v\<lparr>parent_speed := speed tk\<rparr>) st"
  have st1: "flows ?S st ?st1" by (rule flows_change[OF quiet_set(1)]) simp
  have r: "flows ?S st' (run_to_limit env i tk tick off first end l s st')" "flows ?S st' (run_to_zero env i tk tick off first end s st')" for l s st'
    unfolding run_to_limit_def run_to_zero_def Let_def
    by (auto intro: flows_refl flows_tick_offset flows_note_overtick flows_trans[OF flows_tick_offset(2) flows_note_overtick])
  have e: "flows ?S st (reach_end i st')" if "flows ?S st st'" for st'
  proof -
    have "sync_of_end st' i = sync_of_end st i"
      using shape_fields[OF flows_shape[OF that]] by (simp add: sync_of_end_def)
    then show ?thesis using flows_trans[OF that] flows_reach_end[of st' i] by simp
  qed
  show ?thesis
    unfolding run_interval_def Let_def
    by (rule e) (auto intro: flows_trans[OF st1] r flows_tick_offset)
qed

lemma flows_cascade_event:
  "flows (sync_of_end st ` set (next_intervals (events st e))) st (cascade_event env tk tick e st)"
proof (cases "overticks st (time_sync_of (events st e))")
  case (Some ov)
  let ?S = "sync_of_end st ` set (next_intervals (events st e))"
  let ?st1 = "st\<lparr>overticks := (overticks st)(time_sync_of (events st e) \<mapsto>
      ov\<lparr>overtick_offset := tv_minus (tv_plus (offset tk) tick) (overtick_max ov)\<rparr>)\<rparr>"
  let ?run = "run_interval env tk (overtick_max ov) (tv_minus (tv_plus (offset tk) tick) (overtick_max ov)) (overtick_sample ov)
      (if overtick_sample ov \<ge> 0 then span_end tk else - 1)"
  have "flows ?S st (fold ?run (next_intervals (events st e)) ?st1)"
  proof (rule fold_invariant_rule[where P = "flows ?S st"])
    show "flows ?S st (?run i st')" if i: "i \<in> set (next_intervals (events st e))" and f: "flows ?S st st'" for i st'
    proof -
      have "sync_of_end st' i = sync_of_end st i"
        using shape_fields[OF flows_shape[OF f]] by (simp add: sync_of_end_def)
      then have r: "flows {sync_of_end st i} st' (?run i st')" by (metis flows_run_interval)
      show ?thesis using i by (intro flows_trans[OF f flows_mono[OF r]]) auto
    qed
  qed (simp add: flows_def shape_def)
  then show ?thesis by (simp add: cascade_event_def Let_def Some)
qed (simp add: cascade_event_def flows_refl)

section \<open>Rounds\<close>

definition settled :: "'d env \<Rightarrow> (nat \<Rightarrow> nat) \<Rightarrow> nat \<Rightarrow> 'd scenario \<Rightarrow> bool" where
  "settled env \<rho> N st \<longleftrightarrow>
     forward_graph \<rho> N st \<and> \<not> exclusive st \<and> retry_syncs st = [] \<and> (\<forall>s. \<not> has_sync_rate (env_fpu env) (syncs st s))"

lemma settled_flows: "settled env \<rho> N st \<Longrightarrow> flows S st st' \<Longrightarrow> settled env \<rho> N st'"
  using forward_graph_shape[of st' st] by (auto simp: settled_def flows_def has_sync_rate_def fun_eq_iff)

lemma settled_calm: "settled env \<rho> N st \<Longrightarrow> calm P E st st' \<Longrightarrow> settled env \<rho> N st'"
  using forward_graph_shape[of st' st] by (auto simp: settled_def calm_def tick_frame_def has_sync_rate_def fun_eq_iff)

lemma cascade_round_level:
  assumes "settled env \<rho> N st" "N < n"
    and "\<forall>e \<in> set (max_reached_events st). k \<le> Suc (\<rho> (time_sync_of (events st e)))" "\<forall>s \<in> set (end_nodes st). k \<le> \<rho> s"
  shows "ok (\<lambda>st'. settled env \<rho> N st' \<and> end_nodes st' = []
    \<and> (\<forall>e \<in> set (max_reached_events st'). k \<le> \<rho> (time_sync_of (events st' e)))) (cascade_round n env tk tick st)"
proof -
  let ?A = "fold (cascade_event env tk tick) (max_reached_events st) st"
  let ?S = "\<Union>e \<in> set (max_reached_events st). sync_of_end st ` set (next_intervals (events st e))"
  have f: "flows ?S st ?A"
  proof (rule fold_invariant_rule[where P = "flows ?S st"])
    show "flows ?S st (cascade_event env tk tick e st')" if e: "e \<in> set (max_reached_events st)" and f: "flows ?S st st'" for e st'
    proof -
      have "sync_of_end st' ` set (next_intervals (events st' e)) = sync_of_end st ` set (next_intervals (events st e))"
        using shape_fields[OF flows_shape[OF f]] by (simp add: sync_of_end_def)
      then have "sync_of_end st' ` set (next_intervals (events st' e)) \<subseteq> ?S" using e by blast
      then show ?thesis by (rule flows_trans[OF f flows_mono[OF flows_cascade_event]])
    qed
  qed (rule flows_refl)
  let ?B = "?A\<lparr>max_reached_events := []\<rparr>"
  have ends: "set (end_nodes ?A) \<subseteq> set (end_nodes st) \<union> ?S" using f by (simp add: flows_def)
  have up: "k \<le> \<rho> s" if s: "s \<in> set (end_nodes ?A)" for s
  proof (cases "s \<in> set (end_nodes st)")
    case False
    then obtain e i where e: "e \<in> set (max_reached_events st)" "i \<in> set (next_intervals (events st e))" "s = sync_of_end st i"
      using s ends by blast
    then have "\<rho> (time_sync_of (events st e)) < \<rho> s" using assms(1) by (auto simp: settled_def forward_graph_def)
    then show ?thesis using assms(3) e(1) by fastforce
  qed (use assms(4) in simp)
  define Q where "Q = (\<lambda>st'. settled env \<rho> N st' \<and> end_nodes st' = end_nodes ?A
      \<and> (\<forall>e \<in> set (max_reached_events st'). k \<le> \<rho> (time_sync_of (events st' e))))"
  have B: "Q ?B" using settled_flows[OF assms(1) f]
    by (simp add: Q_def settled_def forward_graph_def sync_of_end_def)
  have e: "ok Q (each (cascade_node n env tk) (end_nodes ?A) ?B)"
  proof (rule ok_each)
    show "Q ?B" by (rule B)
  next
    fix s st1 assume s: "s \<in> set (end_nodes ?A)" and Q: "Q st1"
    let ?E = "set (time_events (syncs st1 s))"
    define off where "off = (case overticks st1 s of Some ov \<Rightarrow> overtick_offset ov | None \<Rightarrow> offset tk)"
    have p: "ok (\<lambda>(r, st'). r \<noteq> RETRY \<and> calm (\<lambda>_. True) ?E (st1\<lparr>pending_events := []\<rparr>) st') (process_this n env s off tk st1)"
      using Q assms(2) by (intro calm_process_this[of _ \<rho> N]) (auto simp: Q_def settled_def engine_closed_def)
    have keep: "Q st2" if c: "calm (\<lambda>_. True) ?E (st1\<lparr>pending_events := []\<rparr>) st2" for st2
    proof -
      have "settled env \<rho> N (st1\<lparr>pending_events := []\<rparr>)" using Q
        by (simp add: Q_def settled_def forward_graph_def sync_of_end_def)
      then have t: "settled env \<rho> N st2" using c by (rule settled_calm)
      have sh: "time_sync_of (events st2 e) = time_sync_of (events st1 e)" for e
        using shape_fields(4)[OF calm_shape[OF c], of e] by simp
      have "k \<le> \<rho> (time_sync_of (events st1 e))" if "e \<in> ?E" for e
        using Q that up[OF s] by (simp add: Q_def settled_def forward_graph_def)
      then show ?thesis using t sh Q c by (auto simp: Q_def calm_def tick_frame_def)
    qed
    have d: "Q ((set_is_being_triggered False s st2)\<lparr>retry_syncs := flat_erase s (retry_syncs (set_is_being_triggered False s st2))\<rparr>)"
      if c: "calm (\<lambda>_. True) ?E (st1\<lparr>pending_events := []\<rparr>) st2" for st2
    proof -
      have q: "Q (set_is_being_triggered False s st2)" using keep calm_set_being_triggered[OF c] by blast
      then have "retry_syncs (set_is_being_triggered False s st2) = []" by (simp add: Q_def settled_def)
      then show ?thesis using q by (simp add: flat_erase_def Q_def settled_def forward_graph_def sync_of_end_def)
    qed
    show "ok Q (cascade_node n env tk s st1)"
      unfolding cascade_node_def Let_def off_def[symmetric]
      by (rule ok_and_then[OF p]) (auto simp: keep d Let_def split: sync_status.split)
  qed
  have fin: "ok (\<lambda>st'. settled env \<rho> N st' \<and> end_nodes st' = []
      \<and> (\<forall>e \<in> set (max_reached_events st'). k \<le> \<rho> (time_sync_of (events st' e)))) (Done (st2\<lparr>end_nodes := retry_syncs st2, retry_syncs := []\<rparr>))" if "Q st2" for st2
    using that by (simp add: Q_def settled_def forward_graph_def sync_of_end_def)
  show ?thesis using ok_and_then[OF e fin] by (simp add: cascade_round_def Let_def)
qed

lemma cascade_level:
  assumes "N < n"
  shows "settled env \<rho> N st \<Longrightarrow> \<forall>e \<in> set (max_reached_events st). k \<le> Suc (\<rho> (time_sync_of (events st e)))
    \<Longrightarrow> \<forall>s \<in> set (end_nodes st). k \<le> \<rho> s \<Longrightarrow> N + 2 \<le> f + k \<Longrightarrow> 0 < f
    \<Longrightarrow> ok (\<lambda>st'. max_reached_events st' = [] \<and> end_nodes st' = [] \<and> retry_syncs st' = []) (cascade f n env tk tick st)"
proof (induction f arbitrary: k st)
  case (Suc f)
  show ?case
    unfolding cascade.simps
  proof (rule ok_and_then[OF cascade_round_level[OF Suc.prems(1) assms Suc.prems(2,3)]], clarify)
    fix st1 assume s: "settled env \<rho> N st1" "end_nodes st1 = []"
      and l: "\<forall>e \<in> set (max_reached_events st1). k \<le> \<rho> (time_sync_of (events st1 e))"
    show "ok (\<lambda>st'. max_reached_events st' = [] \<and> end_nodes st' = [] \<and> retry_syncs st' = [])
      (if max_reached_events st1 \<noteq> [] \<or> end_nodes st1 \<noteq> [] then cascade f n env tk tick st1 else Done st1)"
    proof (cases "max_reached_events st1")
      case (Cons e es)
      then have "k \<le> \<rho> (time_sync_of (events st1 e))" using l by simp
      also have "\<dots> \<le> N" using s(1) by (simp add: settled_def forward_graph_def)
      finally have "0 < f" using Suc.prems(4) by simp
      then show ?thesis using Suc.IH[of st1 "Suc k"] s l Suc.prems(4) Cons by simp
    qed (use s in \<open>simp add: settled_def\<close>)
  qed
qed simp

text \<open>C11: The cascade of a tick ends: on a graph in which every interval leads from a sync to one of larger rank, when
  no sync is quantified and the scenario is not exclusive, as many rounds as there are ranks and one more are
  enough; it returns with nothing left to do, unless an expression or the disposal of an event throws.\<close>

theorem cascade_returns:
  assumes "forward_graph \<rho> N st" and "\<not> exclusive st" and "retry_syncs st = []"
    and "\<forall>s. \<not> has_sync_rate (env_fpu env) (syncs st s)" and "N < n" and "N + 2 \<le> k"
  shows "(\<exists>st'. cascade k n env tk tick st = Done st' \<and> max_reached_events st' = [] \<and> end_nodes st' = [] \<and> retry_syncs st' = [])
    \<or> (\<exists>e. cascade k n env tk tick st = Throw e)"
proof -
  have "ok (\<lambda>st'. max_reached_events st' = [] \<and> end_nodes st' = [] \<and> retry_syncs st' = []) (cascade k n env tk tick st)"
    using cascade_level[OF assms(5), of env \<rho> st 0 k] assms by (simp add: settled_def)
  then show ?thesis by (cases "cascade k n env tk tick st") auto
qed

text \<open>Two syncs with an interval between them; the event of the first has just reached its maximal duration.\<close>

definition demo_line :: "rat scenario" where
  "demo_line = (demo_store (\<lambda>i. demo_itv 0 1)
       (\<lambda>e. if e = 0 then demo_event 0 [] [0] else if e = 1 then demo_event 1 [0] [] else demo_event e [] [])
       (\<lambda>s. demo_sync (s = 0) [s]) [0] [0, 1])
     \<lparr>max_reached_events := [0],
      overticks := [0 \<mapsto> \<lparr>overtick_min = Time_value 30, overtick_max = Time_value 30, overtick_offset = Zero_tv, overtick_sample = - 1\<rparr>]\<rparr>"

lemma cascade_returns_witness:
  "(\<exists>st'. cascade 3 2 demo_env demo_token (Time_value 30) demo_line = Done st'
      \<and> max_reached_events st' = [] \<and> end_nodes st' = [] \<and> retry_syncs st' = [])
   \<or> (\<exists>e. cascade 3 2 demo_env demo_token (Time_value 30) demo_line = Throw e)"
proof (rule cascade_returns)
  show "forward_graph (\<lambda>s. min s 1) 1 demo_line"
    by (auto simp: forward_graph_def demo_line_def demo_defs sync_of_end_def)
qed (auto simp: demo_line_def demo_defs has_sync_rate_def demo_env_def)

end
