(* ===== verification/ScenarioOffset.thy ===== *)
theory ScenarioOffset
  imports ScenarioLifecycle ScenarioTrigger
begin

text \<open>
  Offset and transport of a whole scenario (detail/scenario_offset.cpp): the default dates of the syncs, the
  durations made rigid so that the syncs before the new date lie at their default date, the status each event has at
  the new date, and the intervals that run there. Dates are computed along the first intervals before a sync and
  statuses along the intervals after one; both recursions take fuel. The order in which a hash map of syncs is
  gone through is the parameter \<open>arrange\<close>. The states that past events write are a call with their processes, in the
  order of the dates.
\<close>

section \<open>Dates\<close>

text \<open>A date that is never computed is a recursion that does not return.\<close>

definition date_of :: "nat \<Rightarrow> 'd scenario \<Rightarrow> (sc_error, time_value) outcome" where
  "date_of s st = (case sync_date st s of Some d \<Rightarrow> Done d | None \<Rightarrow> Diverge)"

definition dates_insert :: "nat \<Rightarrow> time_value \<Rightarrow> (nat \<times> time_value) list \<Rightarrow> (nat \<times> time_value) list" where
  "dates_insert s d m = (if s \<in> fst ` set m then m else m @ [(s, d)])"

fun process_timesync_dates ::
    "nat \<Rightarrow> 'd scenario \<Rightarrow> nat \<Rightarrow> (nat \<times> time_value) list \<Rightarrow> (sc_error, (nat \<times> time_value) list) outcome" where
  "process_timesync_dates 0 st s m = Diverge"
| "process_timesync_dates (Suc n) st s m =
     and_then (date_of s st) (\<lambda>d.
       each (\<lambda>e. each (\<lambda>i m. if \<not> graphal (intervals st i) then process_timesync_dates n st (sync_of_end st i) m else Done m)
                   (next_intervals (events st e)))
         (time_events (syncs st s)) (dates_insert s d m))"

section \<open>Events\<close>

definition offset_status :: "'d env \<Rightarrow> nat \<Rightarrow> 'd scenario \<Rightarrow> (sc_error, 8 word) outcome" where
  "offset_status env e st =
     (case offset_behavior (events st e) of
        EXPRESSION_TRUE \<Rightarrow> Done HAPPENED
      | EXPRESSION_FALSE \<Rightarrow> Done DISPOSED
      | EXPRESSION \<Rightarrow>
          and_then (lift_expr (evaluate (env_world env) (ev_expression (events st e)))) (\<lambda>b.
            Done (if b then HAPPENED else DISPOSED)))"

definition status_after :: "'d env \<Rightarrow> nat \<Rightarrow> time_value \<Rightarrow> 'd scenario \<Rightarrow> nat \<Rightarrow> 8 word \<Rightarrow> (sc_error, 8 word) outcome" where
  "status_after env e off st i s =
     and_then (date_of (sync_of_start st i) st) (\<lambda>d.
       let io = tv_minus off d; v = intervals st i
       in if tv_lt io Zero_tv then Done NONE
          else if tv_ge io Zero_tv \<and> tv_le io (max_duration v) then Done (if tv_gt io (min_duration v) then PENDING else NONE)
          else if tv_gt io (max_duration v) then offset_status env e st
          else Done s)"

definition status_at :: "'d env \<Rightarrow> nat \<Rightarrow> time_value \<Rightarrow> time_value \<Rightarrow> 'd scenario \<Rightarrow> (sc_error, 8 word) outcome" where
  "status_at env e d off st =
     and_then (if tv_lt d off then offset_status env e st else if tv_eq d off then Done PENDING else Done NONE)
       (each (status_after env e off st) (previous_intervals (events st e)))"

text \<open>A \<open>flat_multimap\<close> puts a new element after those with the same key.\<close>

definition past_insert :: "time_value \<Rightarrow> nat \<Rightarrow> (time_value \<times> nat) list \<Rightarrow> (time_value \<times> nat) list" where
  "past_insert d e past =
     takeWhile (\<lambda>x. \<not> tv_lt d (fst x)) past @ (d, e) # dropWhile (\<lambda>x. \<not> tv_lt d (fst x)) past"

type_synonym 'd offset_state = "'d scenario \<times> (time_value \<times> nat) list \<times> nat list"

fun process_offset :: "nat \<Rightarrow> 'd env \<Rightarrow> time_value \<Rightarrow> nat \<Rightarrow> 'd offset_state \<Rightarrow> (sc_error, 'd offset_state) outcome" where
  "process_offset 0 env off s x = Diverge"
| "process_offset (Suc n) env off s x =
     and_then (date_of s (fst x)) (\<lambda>d.
       each (\<lambda>e (st, past, seen).
           if e \<in> set seen then Done (st, past, seen)
           else
             and_then (status_at env e d off st) (\<lambda>es.
               let st1 = set_status e es st; seen1 = flat_insert e seen
               in if es = HAPPENED then
                    each (\<lambda>i y. process_offset n env off (sync_of_end (fst y) i) y) (next_intervals (events st1 e))
                      (st1, if ev_processes (events st1 e) \<noteq> [] then past_insert d e past else past, seen1)
                  else Done (st1, past, seen1)))
         (time_events (syncs (fst x) s)) x)"

declare process_offset.simps(2) [simp del]

section \<open>The whole scenario\<close>

definition prepare_offset :: "'d::zero step" where
  "prepare_offset st =
     (let st0 = restore_durations st
      in and_then (each sync_reset (nodes_list st0) st0) (\<lambda>st1.
           Done (st1\<lparr>running_intervals := [], itv_to_start := [], itv_to_stop := [], pending_events := [],
                     max_reached_events := [], overticks := (\<lambda>_. None), itv_end_map := (\<lambda>_. None)\<rparr>)))"

definition rigid_before :: "nat \<Rightarrow> 'd scenario \<Rightarrow> 'd scenario" where
  "rigid_before s st =
     fold (\<lambda>i st. make_rigid i (nominal (intervals st i)) (nominal (intervals st i)) st) (sync_previous st s) st"

definition rigid_across :: "time_value \<Rightarrow> (nat \<times> time_value) list \<Rightarrow> nat \<Rightarrow> 'd scenario \<Rightarrow> 'd scenario" where
  "rigid_across off m s st =
     fold (\<lambda>i st.
         case map_of m (sync_of_start st i) of
           None \<Rightarrow> st
         | Some d \<Rightarrow>
             if tv_lt d off \<and> tv_lt (min_duration (intervals st i)) (nominal (intervals st i))
             then make_rigid i (tv_minus off d) (max_duration (intervals st i)) st else st)
       (sync_previous st s) st"

definition rigid_all :: "time_value \<Rightarrow> (nat \<times> time_value) list \<Rightarrow> (nat \<times> time_value) list \<Rightarrow> 'd scenario \<Rightarrow> 'd scenario" where
  "rigid_all off m elts st = fold (\<lambda>(s, d). if tv_lt d off then rigid_before s else rigid_across off m s) elts st"

text \<open>A sync none of whose events has an interval before it is off the score, but the first one.\<close>

definition off_score :: "nat \<Rightarrow> nat \<Rightarrow> 'd scenario \<Rightarrow> bool" where
  "off_score first s st \<longleftrightarrow> list_all (\<lambda>e. previous_intervals (events st e) = []) (time_events (syncs st s)) \<and> s \<noteq> first"

definition transport_interval :: "nat \<Rightarrow> time_value \<Rightarrow> nat \<Rightarrow> 'd::zero step" where
  "transport_interval first off i st =
     and_then (date_of (sync_of_start st i) st) (\<lambda>d.
       if off_score first (sync_of_start st i) st then Done st
       else
         (let io = tv_minus off d
          in if tv_ge io Zero_tv \<and> tv_le io (max_duration (intervals st i))
                \<and> status (events st (start_event (intervals st i))) = HAPPENED
             then Done (add_running i (interval_transport i io st))
             else Done (interval_transport i Zero_tv st)))"

definition offset_interval :: "nat \<Rightarrow> time_value \<Rightarrow> nat \<Rightarrow> 'd::zero step" where
  "offset_interval first off i st =
     and_then (date_of (sync_of_start st i) st) (\<lambda>d.
       if off_score first (sync_of_start st i) st then Done st
       else if tv_le d off \<and> tv_le off (tv_plus d (nominal (intervals st i)))
               \<and> status (events st (start_event (intervals st i))) = HAPPENED
            then Done (add_running i (interval_offset i (tv_minus off d) st))
            else Done st)"

definition stop_no_longer_running :: "nat list \<Rightarrow> nat list \<Rightarrow> 'd::zero scenario \<Rightarrow> 'd scenario" where
  "stop_no_longer_running before after st = fold (\<lambda>i st. if i \<notin> set after then interval_stop i st else st) before st"

text \<open>The part both operations share: what is ready before the intervals are moved. A scenario without syncs,
  whose first one the code reads all the same, is a run without a result.\<close>

definition settle_events ::
    "nat \<Rightarrow> 'd env \<Rightarrow> ((nat \<times> time_value) list \<Rightarrow> (nat \<times> time_value) list) \<Rightarrow> time_value \<Rightarrow> 'd::zero scenario
     \<Rightarrow> (sc_error, nat \<times> 'd scenario \<times> (time_value \<times> nat) list) outcome" where
  "settle_events n env arrange off st =
     and_then (prepare_offset st) (\<lambda>st1.
       case nodes_list st1 of
         [] \<Rightarrow> Diverge
       | first # _ \<Rightarrow>
           and_then (process_timesync_dates n st1 first []) (\<lambda>m.
             and_then (process_offset n env off first (rigid_all off m (arrange m) st1, [], [])) (\<lambda>(st2, past, _).
               Done (first, st2, past))))"

definition transport_impl ::
    "nat \<Rightarrow> 'd env \<Rightarrow> ((nat \<times> time_value) list \<Rightarrow> (nat \<times> time_value) list) \<Rightarrow> time_value \<Rightarrow> 'd::zero step" where
  "transport_impl n env arrange off st =
     (if tv_eq off Zero_tv then and_then (scenario_stop st) scenario_start
      else
        and_then (settle_events n env arrange off st) (\<lambda>(first, st1, past).
          and_then (each (transport_interval first off) (scenario_intervals st1) st1) (\<lambda>st2.
            Done ((stop_no_longer_running (running_intervals st) (running_intervals st2) st2)\<lparr>last_date := off\<rparr>))))"

definition offset_impl ::
    "nat \<Rightarrow> 'd env \<Rightarrow> ((nat \<times> time_value) list \<Rightarrow> (nat \<times> time_value) list) \<Rightarrow> time_value \<Rightarrow> 'd::zero step" where
  "offset_impl n env arrange off st =
     and_then (settle_events n env arrange off st) (\<lambda>(first, st1, past).
       let st2 = (if \<not> muted st1
                  then note_call (Launch_state (concat (map (\<lambda>x. ev_processes (events st1 (snd x))) past))) st1 else st1)
       in and_then (each (offset_interval first off) (scenario_intervals st2) st2) (\<lambda>st3.
            Done ((stop_no_longer_running (running_intervals st) (running_intervals st3) st3)\<lparr>last_date := off\<rparr>)))"

end
