(* ===== verification/ScenarioOffsetProps.thy ===== *)
theory ScenarioOffsetProps
  imports ScenarioOffset ScenarioTriggerProps
begin

text \<open>
  What an offset does: the dates it computes are not changed by it, the events it reaches get the status they have at
  the new date and no other event is touched, and the intervals that run afterwards are those the date lies in.
\<close>

section \<open>Loops\<close>

lemma each_relation:
  assumes "\<And>s. R s s" and "\<And>s t u. R s t \<Longrightarrow> R t u \<Longrightarrow> R s u" and "\<And>x s t. Q x s \<Longrightarrow> R s t \<Longrightarrow> Q x t"
    and "\<And>x s t. x \<in> set xs \<Longrightarrow> I s \<Longrightarrow> f x s = Done t \<Longrightarrow> I t \<and> R s t \<and> Q x t"
  shows "I s \<Longrightarrow> each f xs s = Done t \<Longrightarrow> I t \<and> R s t \<and> (\<forall>x \<in> set xs. Q x t)"
  using assms(4)
proof (induction xs arbitrary: s)
  case Nil
  then show ?case using assms(1) by simp
next
  case (Cons x xs)
  then obtain u where u: "f x s = Done u" "each f xs u = Done t" by (auto simp: and_then_eq_Done)
  have "I u \<and> R s u \<and> Q x u" using Cons.prems(3)[of x s u] Cons.prems(1) u(1) by simp
  moreover from this have "I t \<and> R u t \<and> (\<forall>x \<in> set xs. Q x t)"
    using Cons.IH[of u] u(2) Cons.prems(3) by (meson list.set_intros(2))
  ultimately show ?case using assms(2,3) by auto
qed

section \<open>Dates\<close>

definition same_dates :: "'d scenario \<Rightarrow> 'd scenario \<Rightarrow> bool" where
  "same_dates st st' \<longleftrightarrow> shape st' = shape st \<and> (\<forall>i. nominal (intervals st' i) = nominal (intervals st i))"

lemma same_dates_sym: "same_dates st st' \<Longrightarrow> same_dates st' st"
  by (simp add: same_dates_def)

lemma same_dates_links:
  assumes "same_dates st st'"
  shows "date_interval st' s = date_interval st s" "sync_of_start st' i = sync_of_start st i"
    "sync_of_end st' i = sync_of_end st i" "nominal (intervals st' i) = nominal (intervals st i)"
proof -
  note f = shape_fields[of st' st] assms[unfolded same_dates_def]
  show "date_interval st' s = date_interval st s" "sync_of_start st' i = sync_of_start st i"
    "sync_of_end st' i = sync_of_end st i" "nominal (intervals st' i) = nominal (intervals st i)"
    using f by (simp_all add: date_interval_def sync_of_start_def sync_of_end_def)
qed

lemma sync_date_same_Some:
  assumes "sync_date st s = Some d" and "same_dates st st'"
  shows "sync_date st' s = Some d"
proof -
  have "\<forall>st'. same_dates st st' \<longrightarrow> sync_date st' s = Some d"
  proof (rule sync_date.raw_induct[OF _ assms(1), of "\<lambda>st s d. \<forall>st'. same_dates st st' \<longrightarrow> sync_date st' s = Some d"])
    fix rec and st :: "'a scenario" and s d
    assume IH: "\<And>st s d. rec st s = Some d \<Longrightarrow> \<forall>st'. same_dates st st' \<longrightarrow> sync_date st' s = Some d"
      and d: "(case date_interval st s of
          None \<Rightarrow> Some Zero_tv
        | Some i \<Rightarrow> Option.bind (rec st (sync_of_start st i)) (\<lambda>d. Some (tv_plus (nominal (intervals st i)) d))) = Some d"
    show "\<forall>st'. same_dates st st' \<longrightarrow> sync_date st' s = Some d"
    proof (intro allI impI)
      fix st' assume s: "same_dates st st'"
      note l = same_dates_links[OF s]
      show "sync_date st' s = Some d"
      proof (cases "date_interval st s")
        case None
        then show ?thesis using d by (subst sync_date.simps) (simp add: l)
      next
        case (Some i)
        then obtain d' where d': "rec st (sync_of_start st i) = Some d'" "d = tv_plus (nominal (intervals st i)) d'"
          using d by (auto simp: bind_eq_Some_conv)
        then show ?thesis using IH[OF d'(1)] s Some by (subst sync_date.simps) (simp add: l)
      qed
    qed
  qed
  then show ?thesis using assms(2) by blast
qed

lemma sync_date_same: "same_dates st st' \<Longrightarrow> sync_date st' s = sync_date st s"
  by (metis not_Some_eq same_dates_sym sync_date_same_Some)

section \<open>Events at the new date\<close>

text \<open>A store that differs only in the status of events, and in the calls made.\<close>

definition still :: "'d scenario \<Rightarrow> 'd scenario \<Rightarrow> bool" where
  "still st st' \<longleftrightarrow> (\<exists>f. quiet st' = quiet st\<lparr>events := (\<lambda>e. (events st e)\<lparr>status := f e\<rparr>)\<rparr>)"

lemma still_refl: "still st st"
  unfolding still_def by (rule exI[of _ "\<lambda>e. status (events st e)"]) (simp add: quiet_def)

lemma still_fields:
  assumes "still st st'"
  shows "intervals st' = intervals st" "syncs st' = syncs st" "scenario_intervals st' = scenario_intervals st"
    "nodes_list st' = nodes_list st" "running_intervals st' = running_intervals st"
    "time_sync_of (events st' e) = time_sync_of (events st e)" "offset_behavior (events st' e) = offset_behavior (events st e)"
    "ev_expression (events st' e) = ev_expression (events st e)" "ev_processes (events st' e) = ev_processes (events st e)"
    "previous_intervals (events st' e) = previous_intervals (events st e)" "next_intervals (events st' e) = next_intervals (events st e)"
proof -
  obtain f where f: "quiet st' = quiet st\<lparr>events := (\<lambda>e. (events st e)\<lparr>status := f e\<rparr>)\<rparr>" using assms by (auto simp: still_def)
  have e: "events st' = (\<lambda>e. (events st e)\<lparr>status := f e\<rparr>)" using arg_cong[OF f, of events] by (simp add: quiet_fields)
  show "intervals st' = intervals st" "syncs st' = syncs st" "scenario_intervals st' = scenario_intervals st"
    "nodes_list st' = nodes_list st" "running_intervals st' = running_intervals st"
    using arg_cong[OF f, of intervals] arg_cong[OF f, of syncs] arg_cong[OF f, of scenario_intervals] arg_cong[OF f, of nodes_list]
      arg_cong[OF f, of running_intervals] by (simp_all add: quiet_fields)
  show "time_sync_of (events st' e) = time_sync_of (events st e)" "offset_behavior (events st' e) = offset_behavior (events st e)"
    "ev_expression (events st' e) = ev_expression (events st e)" "ev_processes (events st' e) = ev_processes (events st e)"
    "previous_intervals (events st' e) = previous_intervals (events st e)" "next_intervals (events st' e) = next_intervals (events st e)"
    by (simp_all add: e)
qed

lemma still_event: "still st st' \<Longrightarrow> events st' e = (events st e)\<lparr>status := status (events st' e)\<rparr>"
proof -
  assume "still st st'"
  then obtain f where f: "quiet st' = quiet st\<lparr>events := (\<lambda>e. (events st e)\<lparr>status := f e\<rparr>)\<rparr>" by (auto simp: still_def)
  show ?thesis using arg_cong[OF f, of events] by (simp add: quiet_fields)
qed

lemma still_dates: "still st st' \<Longrightarrow> same_dates st st'"
  using still_fields[of st st'] by (simp add: same_dates_def shape_def)

lemma still_trans: "still st st' \<Longrightarrow> still st' st'' \<Longrightarrow> still st st''"
proof -
  assume a: "still st st'" "still st' st''"
  obtain f where f: "quiet st' = quiet st\<lparr>events := (\<lambda>e. (events st e)\<lparr>status := f e\<rparr>)\<rparr>" using a by (auto simp: still_def)
  obtain g where g: "quiet st'' = quiet st'\<lparr>events := (\<lambda>e. (events st' e)\<lparr>status := g e\<rparr>)\<rparr>" using a by (auto simp: still_def)
  have e: "events st' = (\<lambda>e. (events st e)\<lparr>status := f e\<rparr>)" using arg_cong[OF f, of events] by (simp add: quiet_fields)
  show ?thesis unfolding still_def by (rule exI[of _ g]) (simp add: g e f)
qed

lemma still_set_status: "still st (set_status e s st)"
  unfolding still_def
  by (rule exI[of _ "\<lambda>f. if f = e then s else status (events st f)"])
    (simp, auto simp: set_event_def quiet_def fun_eq_iff)

lemma status_at_still:
  assumes "still st st'"
  shows "status_at env e d off st' = status_at env e d off st"
proof -
  note f = still_fields[OF assms] still_dates[OF assms]
  have o: "offset_status env e st' = offset_status env e st"
    by (cases "offset_behavior (events st e)") (simp_all add: offset_status_def f)
  have "status_after env e off st' = status_after env e off st"
    by (intro ext) (unfold status_after_def date_of_def sync_date_same[OF f(12)] same_dates_links[OF f(12)] f(1) o, rule refl)
  then show ?thesis by (simp add: status_at_def o f)
qed

text \<open>The status an event has at the date \<open>off\<close>.\<close>

definition expected_status :: "'d env \<Rightarrow> time_value \<Rightarrow> 'd scenario \<Rightarrow> nat \<Rightarrow> (sc_error, 8 word) outcome" where
  "expected_status env off st e = and_then (date_of (time_sync_of (events st e)) st) (\<lambda>d. status_at env e d off st)"

text \<open>An event that has happened leads to the events of the syncs its intervals end at.\<close>

definition leads_to :: "'d env \<Rightarrow> time_value \<Rightarrow> 'd scenario \<Rightarrow> nat \<Rightarrow> nat \<Rightarrow> bool" where
  "leads_to env off st e f \<longleftrightarrow>
     expected_status env off st e = Done HAPPENED
     \<and> (\<exists>i \<in> set (next_intervals (events st e)). f \<in> set (time_events (syncs st (sync_of_end st i))))"

definition reached_from :: "'d env \<Rightarrow> time_value \<Rightarrow> 'd scenario \<Rightarrow> nat \<Rightarrow> nat \<Rightarrow> bool" where
  "reached_from env off st s f \<longleftrightarrow> (\<exists>e \<in> set (time_events (syncs st s)). (leads_to env off st)\<^sup>*\<^sup>* e f)"

definition syncs_own :: "'d scenario \<Rightarrow> bool" where
  "syncs_own st \<longleftrightarrow> (\<forall>s. \<forall>e \<in> set (time_events (syncs st s)). time_sync_of (events st e) = s)"

definition past_of :: "time_value \<Rightarrow> 'd scenario \<Rightarrow> 'd scenario \<Rightarrow> nat list \<Rightarrow> (time_value \<times> nat) set" where
  "past_of off st0 st vis =
     {(d, e). e \<in> set vis \<and> status (events st e) = HAPPENED \<and> ev_processes (events st0 e) \<noteq> []
        \<and> sync_date st0 (time_sync_of (events st0 e)) = Some d}"

definition offset_inv :: "'d env \<Rightarrow> time_value \<Rightarrow> 'd scenario \<Rightarrow> 'd offset_state \<Rightarrow> bool" where
  "offset_inv env off st0 x =
     (case x of (st, past, vis) \<Rightarrow>
        still st0 st
        \<and> (\<forall>e. e \<notin> set vis \<longrightarrow> events st e = events st0 e)
        \<and> (\<forall>e \<in> set vis. expected_status env off st0 e = Done (status (events st e)))
        \<and> set past = past_of off st0 st vis \<and> sorted (map (tv_key \<circ> fst) past))"

text \<open>From one state to a later one, working on the sync \<open>s\<close>.\<close>

definition offset_grows :: "'d env \<Rightarrow> time_value \<Rightarrow> 'd scenario \<Rightarrow> 'd offset_state \<Rightarrow> 'd offset_state \<Rightarrow> bool" where
  "offset_grows env off st0 x y \<longleftrightarrow>
     set (snd (snd x)) \<subseteq> set (snd (snd y))
     \<and> (\<forall>e \<in> set (snd (snd y)) - set (snd (snd x)). \<forall>f. leads_to env off st0 e f \<longrightarrow> f \<in> set (snd (snd y)))"

lemma offset_grows_refl: "offset_grows env off st0 x x"
  by (simp add: offset_grows_def)

lemma offset_grows_trans: "offset_grows env off st0 x y \<Longrightarrow> offset_grows env off st0 y z \<Longrightarrow> offset_grows env off st0 x z"
  unfolding offset_grows_def by blast

lemma set_past_insert: "set (past_insert d e past) = insert (d, e) (set past)"
proof -
  have "set past = set (takeWhile P past) \<union> set (dropWhile P past)" for P
    by (metis set_append takeWhile_dropWhile_id)
  then show ?thesis by (auto simp: past_insert_def)
qed

lemma sorted_past_insert:
  assumes "sorted (map (tv_key \<circ> fst) past)"
  shows "sorted (map (tv_key \<circ> fst) (past_insert d e past))"
proof -
  let ?P = "\<lambda>x. \<not> tv_lt d (fst x)"
  have split: "past = takeWhile ?P past @ dropWhile ?P past" by simp
  have s: "sorted (map (tv_key \<circ> fst) (takeWhile ?P past @ dropWhile ?P past))" using assms by simp
  have t: "\<forall>x \<in> set (takeWhile ?P past). tv_key (fst x) \<le> tv_key d" by (auto dest!: set_takeWhileD simp: tv_key_order)
  have u: "\<forall>x \<in> set (dropWhile ?P past). tv_key d \<le> tv_key (fst x)"
  proof (cases "dropWhile ?P past")
    case (Cons y ys)
    then have "tv_key d < tv_key (fst y)" using hd_dropWhile[of ?P past] by (auto simp: tv_key_order)
    then show ?thesis using s Cons by (auto simp: sorted_append)
  next
    case Nil
    show ?thesis unfolding Nil by simp
  qed
  have "sorted (map (tv_key \<circ> fst) (takeWhile ?P past)) \<and> sorted (map (tv_key \<circ> fst) (dropWhile ?P past))
      \<and> (\<forall>x \<in> set (takeWhile ?P past). \<forall>y \<in> set (dropWhile ?P past). tv_key (fst x) \<le> tv_key (fst y))"
    using s unfolding map_append sorted_append by simp
  then show ?thesis unfolding past_insert_def map_append sorted_append using t u by auto
qed

definition offset_moves :: "'d env \<Rightarrow> time_value \<Rightarrow> 'd scenario \<Rightarrow> nat \<Rightarrow> 'd offset_state \<Rightarrow> 'd offset_state \<Rightarrow> bool" where
  "offset_moves env off st0 s x y \<longleftrightarrow>
     offset_grows env off st0 x y \<and> (\<forall>e \<in> set (snd (snd y)) - set (snd (snd x)). reached_from env off st0 s e)"

lemma offset_moves_refl: "offset_moves env off st0 s x x"
  by (simp add: offset_moves_def offset_grows_refl)

lemma offset_moves_trans: "offset_moves env off st0 s x y \<Longrightarrow> offset_moves env off st0 s y z \<Longrightarrow> offset_moves env off st0 s x z"
  unfolding offset_moves_def using offset_grows_trans by blast

lemma offset_moves_seen: "offset_moves env off st0 s x y \<Longrightarrow> set (snd (snd x)) \<subseteq> set (snd (snd y))"
  by (simp add: offset_moves_def offset_grows_def)

lemma offset_moves_link:
  "offset_moves env off st0 s x y \<Longrightarrow> e \<in> set (snd (snd y)) \<Longrightarrow> e \<notin> set (snd (snd x)) \<Longrightarrow> leads_to env off st0 e f
     \<Longrightarrow> f \<in> set (snd (snd y))"
  unfolding offset_moves_def offset_grows_def by blast

lemma offset_moves_reached:
  "offset_moves env off st0 s x y \<Longrightarrow> e \<in> set (snd (snd y)) \<Longrightarrow> e \<notin> set (snd (snd x)) \<Longrightarrow> reached_from env off st0 s e"
  unfolding offset_moves_def by blast

lemma reached_from_end:
  assumes "e \<in> set (time_events (syncs st0 s))" and "expected_status env off st0 e = Done HAPPENED"
    and "i \<in> set (next_intervals (events st0 e))" and "reached_from env off st0 (sync_of_end st0 i) f"
  shows "reached_from env off st0 s f"
proof -
  obtain f0 where f0: "f0 \<in> set (time_events (syncs st0 (sync_of_end st0 i)))" "(leads_to env off st0)\<^sup>*\<^sup>* f0 f"
    using assms(4) by (auto simp: reached_from_def)
  then have "leads_to env off st0 e f0" using assms(2,3) by (auto simp: leads_to_def)
  then have "(leads_to env off st0)\<^sup>*\<^sup>* e f" using f0(2) by (rule converse_rtranclp_into_rtranclp)
  then show ?thesis using assms(1) by (auto simp: reached_from_def)
qed

text \<open>Giving an event that was not reached before its status.\<close>

lemma offset_inv_visit:
  assumes inv: "offset_inv env off st0 (st, past, vis)" and e: "e \<notin> set vis" "expected_status env off st0 e = Done es"
    and d: "sync_date st0 (time_sync_of (events st0 e)) = Some d"
  shows "offset_inv env off st0 (set_status e es st,
    if es = HAPPENED \<and> ev_processes (events st0 e) \<noteq> [] then past_insert d e past else past, flat_insert e vis)"
proof -
  let ?st1 = "set_status e es st"
  have st: "still st0 ?st1" using inv still_trans[OF _ still_set_status] by (auto simp: offset_inv_def)
  have ev: "events ?st1 f = (if f = e then (events st e)\<lparr>status := es\<rparr> else events st f)" for f
    by (simp add: frame_simps)
  have "past_of off st0 ?st1 (flat_insert e vis) =
      (if es = HAPPENED \<and> ev_processes (events st0 e) \<noteq> [] then insert (d, e) (past_of off st0 st vis) else past_of off st0 st vis)"
    using e(1) d by (auto simp: past_of_def ev)
  then show ?thesis
    using inv st e by (auto simp: offset_inv_def ev set_past_insert sorted_past_insert)
qed

lemma process_offset_moves:
  assumes own: "syncs_own st0"
  shows "offset_inv env off st0 x \<Longrightarrow> process_offset n env off s x = Done y \<Longrightarrow>
    offset_inv env off st0 y \<and> offset_moves env off st0 s x y \<and> set (time_events (syncs st0 s)) \<subseteq> set (snd (snd y))"
proof (induction n arbitrary: s x y)
  case (Suc n)
  let ?inv = "offset_inv env off st0" and ?moves = "offset_moves env off st0 s" and ?seen = "\<lambda>x :: 'a offset_state. set (snd (snd x))"
  let ?body = "\<lambda>d e (st, past, vis).
     if e \<in> set vis then Done (st, past, vis)
     else and_then (status_at env e d off st) (\<lambda>es.
         let st1 = set_status e es st; vis1 = flat_insert e vis
         in if es = HAPPENED then
              each (\<lambda>i y. process_offset n env off (sync_of_end (fst y) i) y) (next_intervals (events st1 e))
                (st1, if ev_processes (events st1 e) \<noteq> [] then past_insert d e past else past, vis1)
            else Done (st1, past, vis1))"
  obtain d where d: "date_of s (fst x) = Done d" and y: "each (?body d) (time_events (syncs (fst x) s)) x = Done y"
    using Suc.prems(2) by (auto simp: process_offset.simps(2) and_then_eq_Done)
  have x: "still st0 (fst x)" using Suc.prems(1) by (auto simp: offset_inv_def split: prod.splits)
  have te: "time_events (syncs (fst x) s) = time_events (syncs st0 s)" by (simp add: still_fields[OF x])
  have d0: "sync_date st0 s = Some d"
    using d sync_date_same[OF still_dates[OF x]] by (auto simp: date_of_def split: option.splits)
  have step: "?inv t \<and> ?moves z t \<and> e \<in> ?seen t"
    if e: "e \<in> set (time_events (syncs st0 s))" and z: "?inv z" and b: "?body d e z = Done t" for e z t
  proof -
    obtain st past vis where zz: "z = (st, past, vis)" by (cases z)
    have st: "still st0 st" using z by (simp add: zz offset_inv_def)
    show ?thesis
    proof (cases "e \<in> set vis")
      case True
      then show ?thesis using b z by (auto simp: zz offset_moves_refl)
    next
      case False
      have own_e: "time_sync_of (events st0 e) = s" using own e by (auto simp: syncs_own_def)
      obtain es where es: "status_at env e d off st0 = Done es"
        and t: "(if es = HAPPENED then
              each (\<lambda>i y. process_offset n env off (sync_of_end (fst y) i) y) (next_intervals (events (set_status e es st) e))
                (set_status e es st, if ev_processes (events (set_status e es st) e) \<noteq> [] then past_insert d e past else past, flat_insert e vis)
            else Done (set_status e es st, past, flat_insert e vis)) = Done t"
        using b False by (auto simp: zz status_at_still[OF st] and_then_eq_Done Let_def)
      have ex: "expected_status env off st0 e = Done es"
        by (simp add: expected_status_def own_e date_of_def d0 es)
      define z1 where "z1 = (set_status e es st,
          if es = HAPPENED \<and> ev_processes (events st0 e) \<noteq> [] then past_insert d e past else past, flat_insert e vis)"
      have z1: "?inv z1" "?seen z1 = insert e (?seen z)"
        using offset_inv_visit[OF z[unfolded zz] False ex] by (simp_all add: z1_def own_e d0 zz)
      have same: "ev_processes (events (set_status e es st) e) = ev_processes (events st0 e)"
        "next_intervals (events (set_status e es st) e) = next_intervals (events st0 e)"
        using still_fields[OF still_trans[OF st still_set_status[of st e es]]] by simp_all
      have here: "reached_from env off st0 s e" using e by (auto simp: reached_from_def)
      show ?thesis
      proof (cases "es = HAPPENED")
        case False
        then have "t = z1" using t by (simp add: z1_def)
        moreover have "\<not> leads_to env off st0 e f" for f using ex False by (simp add: leads_to_def)
        ultimately show ?thesis using z1 here by (auto simp: offset_moves_def offset_grows_def)
      next
        case True
        have t1: "each (\<lambda>i y. process_offset n env off (sync_of_end (fst y) i) y) (next_intervals (events st0 e)) z1 = Done t"
          using t True same[unfolded True] by (auto simp: z1_def)
        have "?inv t \<and> ?moves z1 t \<and> (\<forall>i \<in> set (next_intervals (events st0 e)). set (time_events (syncs st0 (sync_of_end st0 i))) \<subseteq> ?seen t)"
        proof (rule each_relation[where I = ?inv and R = ?moves
              and Q = "\<lambda>i z. set (time_events (syncs st0 (sync_of_end st0 i))) \<subseteq> ?seen z", OF _ _ _ _ z1(1) t1])
          fix i u v assume i: "i \<in> set (next_intervals (events st0 e))" and u: "?inv u"
            and v: "process_offset n env off (sync_of_end (fst u) i) u = Done v"
          have "still st0 (fst u)" using u by (auto simp: offset_inv_def split: prod.splits)
          then have "sync_of_end (fst u) i = sync_of_end st0 i" by (intro same_dates_links still_dates)
          then have r: "?inv v \<and> offset_moves env off st0 (sync_of_end st0 i) u v \<and> set (time_events (syncs st0 (sync_of_end st0 i))) \<subseteq> ?seen v"
            using Suc.IH[OF u v] by simp
          then have "?moves u v"
            using reached_from_end[OF e _ i] ex True by (auto simp: offset_moves_def)
          then show "?inv v \<and> ?moves u v \<and> set (time_events (syncs st0 (sync_of_end st0 i))) \<subseteq> ?seen v" using r by blast
        next
          show "?moves z z" for z by (rule offset_moves_refl)
          show "?moves u w" if "?moves u v" "?moves v w" for u v w using that by (rule offset_moves_trans)
          show "set (time_events (syncs st0 (sync_of_end st0 x))) \<subseteq> ?seen v" if "set (time_events (syncs st0 (sync_of_end st0 x))) \<subseteq> ?seen u" "?moves u v" for u v x using offset_moves_seen[OF that(2)] that(1) by blast
        qed
        then have r: "?inv t" "?moves z1 t" "\<And>i. i \<in> set (next_intervals (events st0 e)) \<Longrightarrow> set (time_events (syncs st0 (sync_of_end st0 i))) \<subseteq> ?seen t"
          by blast+
        have sub: "?seen z \<subseteq> ?seen t" "e \<in> ?seen t" using offset_moves_seen[OF r(2)] z1(2) by auto
        have own_links: "f \<in> ?seen t" if "leads_to env off st0 e f" for f using that r(3) by (auto simp: leads_to_def)
        have new_links: "f \<in> ?seen t" if "g \<in> ?seen t" "g \<notin> ?seen z1" "leads_to env off st0 g f" for g f
          by (rule offset_moves_link[OF r(2) that])
        have "offset_grows env off st0 z t"
          unfolding offset_grows_def
        proof (intro conjI ballI allI impI)
          fix g f assume "g \<in> ?seen t - ?seen z" "leads_to env off st0 g f"
          then show "f \<in> ?seen t" using own_links new_links[of g f] unfolding z1(2) by (cases "g = e") simp_all
        qed (rule sub(1))
        moreover have "\<forall>f \<in> ?seen t - ?seen z. reached_from env off st0 s f"
        proof
          fix f assume "f \<in> ?seen t - ?seen z"
          then show "reached_from env off st0 s f"
            using offset_moves_reached[OF r(2), of f] here unfolding z1(2) by (cases "f = e") simp_all
        qed
        ultimately show ?thesis using r(1) sub by (simp add: offset_moves_def)
      qed
    qed
  qed
  have "?inv y \<and> ?moves x y \<and> (\<forall>e \<in> set (time_events (syncs st0 s)). e \<in> ?seen y)"
  proof (rule each_relation[where I = ?inv and R = ?moves and Q = "\<lambda>e z. e \<in> ?seen z", OF _ _ _ _ Suc.prems(1) y[unfolded te]])
    show "?inv t \<and> ?moves z t \<and> e \<in> ?seen t" if "e \<in> set (time_events (syncs st0 s))" "?inv z" "?body d e z = Done t" for e z t
      using step that by blast
  next
    show "?moves z z" for z by (rule offset_moves_refl)
    show "?moves u w" if "?moves u v" "?moves v w" for u v w using that by (rule offset_moves_trans)
    show "x \<in> ?seen v" if "x \<in> ?seen u" "?moves u v" for u v x using offset_moves_seen[OF that(2)] that(1) by blast
  qed
  then show ?case by blast
qed simp

section \<open>What an offset decides\<close>

text \<open>
  The status of an event at a date, without the order of the computation: an event without intervals before it is
  decided by its own date; for any other, the last interval before it alone counts, and the time since that one started.
\<close>

definition verdict :: "'d env \<Rightarrow> 'd scenario \<Rightarrow> nat \<Rightarrow> 8 word" where
  "verdict env st e =
     (case offset_behavior (events st e) of
        EXPRESSION_TRUE \<Rightarrow> HAPPENED
      | EXPRESSION_FALSE \<Rightarrow> DISPOSED
      | EXPRESSION \<Rightarrow> (if evaluate (env_world env) (ev_expression (events st e)) = Inr True then HAPPENED else DISPOSED))"

definition status_since :: "8 word \<Rightarrow> time_value \<Rightarrow> 'd time_interval \<Rightarrow> 8 word" where
  "status_since v since i =
     (if tv_lt since Zero_tv then NONE
      else if tv_lt (max_duration i) since then v
      else if tv_lt (min_duration i) since then PENDING
      else NONE)"

definition status_on :: "'d env \<Rightarrow> time_value \<Rightarrow> 'd scenario \<Rightarrow> nat \<Rightarrow> 8 word" where
  "status_on env off st e =
     (case previous_intervals (events st e) of
        [] \<Rightarrow>
          (let d = the (sync_date st (time_sync_of (events st e)))
           in if tv_lt d off then verdict env st e else if tv_eq d off then PENDING else NONE)
      | is \<Rightarrow> status_since (verdict env st e) (tv_minus off (the (sync_date st (sync_of_start st (last is))))) (intervals st (last is)))"

inductive offset_reaches :: "'d env \<Rightarrow> time_value \<Rightarrow> 'd scenario \<Rightarrow> nat \<Rightarrow> nat \<Rightarrow> bool" for env off st s where
  reach_first: "e \<in> set (time_events (syncs st s)) \<Longrightarrow> offset_reaches env off st s e"
| reach_next: "offset_reaches env off st s e \<Longrightarrow> status_on env off st e = HAPPENED \<Longrightarrow> i \<in> set (next_intervals (events st e)) \<Longrightarrow>
    f \<in> set (time_events (syncs st (sync_of_end st i))) \<Longrightarrow> offset_reaches env off st s f"

text \<open>An interval before an event ends there and is one of those after the event it starts from.\<close>

definition linked :: "'d scenario \<Rightarrow> bool" where
  "linked st \<longleftrightarrow> (\<forall>e. \<forall>i \<in> set (previous_intervals (events st e)).
     end_event (intervals st i) = e \<and> i \<in> set (next_intervals (events st (start_event (intervals st i)))))"

definition decidable :: "'d env \<Rightarrow> 'd scenario \<Rightarrow> bool" where
  "decidable env st \<longleftrightarrow> (\<forall>e. offset_behavior (events st e) = EXPRESSION \<longrightarrow>
     (\<exists>b. evaluate (env_world env) (ev_expression (events st e)) = Inr b))"

lemma date_interval_Some:
  assumes "date_interval st s = Some i"
  shows "\<exists>e \<in> set (time_events (syncs st s)). i \<in> set (previous_intervals (events st e))"
proof -
  obtain e where e: "find (\<lambda>e. previous_intervals (events st e) \<noteq> [] \<and> \<not> graphal (intervals st (hd (previous_intervals (events st e)))))
      (time_events (syncs st s)) = Some e" "i = hd (previous_intervals (events st e))"
    using assms by (auto simp: date_interval_def)
  then have "e \<in> set (time_events (syncs st s))" "previous_intervals (events st e) \<noteq> []"
    by (auto simp: find_Some_iff)
  then show ?thesis using e(2) hd_in_set by blast
qed

lemma every_sync_dated:
  assumes "forward_graph \<rho> N st" "linked st"
  shows "\<exists>d. sync_date st s = Some d"
proof (induction "\<rho> s" arbitrary: s rule: less_induct)
  case less
  show ?case
  proof (cases "date_interval st s")
    case None
    then show ?thesis by (subst sync_date.simps) simp
  next
    case (Some i)
    then obtain e where e: "e \<in> set (time_events (syncs st s))" "i \<in> set (previous_intervals (events st e))"
      using date_interval_Some by blast
    then have "end_event (intervals st i) = e" "i \<in> set (next_intervals (events st (start_event (intervals st i))))"
      using assms(2) by (auto simp: linked_def)
    moreover have "time_sync_of (events st e) = s" using assms(1) e(1) by (simp add: forward_graph_def)
    ultimately have "\<rho> (sync_of_start st i) < \<rho> s"
      using assms(1) by (force simp: forward_graph_def sync_of_end_def sync_of_start_def)
    then obtain d where "sync_date st (sync_of_start st i) = Some d" using less by blast
    then show ?thesis using Some by (subst sync_date.simps) simp
  qed
qed

lemma offset_status_verdict: "decidable env st \<Longrightarrow> offset_status env e st = Done (verdict env st e)"
  by (cases "offset_behavior (events st e)") (auto simp: offset_status_def verdict_def decidable_def lift_expr_def)

lemma status_after_since:
  assumes "decidable env st" "sync_date st (sync_of_start st i) = Some d"
  shows "status_after env e off st i s = Done (status_since (verdict env st e) (tv_minus off d) (intervals st i))"
  by (simp add: status_after_def status_since_def date_of_def assms offset_status_verdict Let_def tv_key_order)

lemma status_at_on:
  assumes "decidable env st" "\<And>s. \<exists>d. sync_date st s = Some d" "sync_date st (time_sync_of (events st e)) = Some d"
  shows "status_at env e d off st = Done (status_on env off st e)"
proof -
  let ?since = "\<lambda>i. status_since (verdict env st e) (tv_minus off (the (sync_date st (sync_of_start st i)))) (intervals st i)"
  have after: "status_after env e off st i s = Done (?since i)" for i s
    using assms(2)[of "sync_of_start st i"] status_after_since[OF assms(1), of i] by fastforce
  have "each (status_after env e off st) is s = Done (if is = [] then s else ?since (last is))" for "is" s
    by (induction "is" arbitrary: s) (auto simp: after)
  then show ?thesis
    by (auto simp: status_at_def status_on_def Let_def offset_status_verdict[OF assms(1)] assms(3) split: list.split)
qed

lemma process_offset_returns:
  assumes g: "forward_graph \<rho> N st0" and ready: "decidable env st0" "\<And>s. \<exists>d. sync_date st0 s = Some d"
  shows "still st0 (fst x) \<Longrightarrow> N - \<rho> s < n \<Longrightarrow> \<exists>y. process_offset n env off s x = Done y \<and> still st0 (fst y)"
proof (induction n arbitrary: s x)
  case (Suc n)
  note f = still_fields[OF Suc.prems(1)]
  obtain d where d: "sync_date st0 s = Some d" using ready(2) by blast
  then have here: "date_of s (fst x) = Done d" by (simp add: date_of_def sync_date_same[OF still_dates[OF Suc.prems(1)]])
  let ?body = "\<lambda>e (st, past, seen).
     if e \<in> set seen then Done (st, past, seen)
     else and_then (status_at env e d off st) (\<lambda>es.
         let st1 = set_status e es st; seen1 = flat_insert e seen
         in if es = HAPPENED then
              each (\<lambda>i y. process_offset n env off (sync_of_end (fst y) i) y) (next_intervals (events st1 e))
                (st1, if ev_processes (events st1 e) \<noteq> [] then past_insert d e past else past, seen1)
            else Done (st1, past, seen1))"
  have "\<exists>t. ?body e z = Done t \<and> still st0 (fst t)" if e: "e \<in> set (time_events (syncs st0 s))" and z: "still st0 (fst z)"
    for e and z :: "'a offset_state"
  proof -
    obtain st past seen where zz: "z = (st, past, seen)" by (cases z)
    have st: "still st0 st" using z by (simp add: zz)
    have own: "time_sync_of (events st0 e) = s" using g e by (simp add: forward_graph_def)
    have at: "status_at env e d off st = Done (status_on env off st0 e)"
      using status_at_on[OF ready] d own by (simp add: status_at_still[OF st])
    have st1: "still st0 (set_status e es st)" for es by (rule still_trans[OF st still_set_status])
    have onward: "\<exists>u. each (\<lambda>i y. process_offset n env off (sync_of_end (fst y) i) y) (next_intervals (events st0 e)) y = Done u \<and> still st0 (fst u)"
      if "still st0 (fst y)" for y :: "'a offset_state"
    proof (rule each_total[where P = "\<lambda>y. still st0 (fst y)", OF _ that])
      fix i and u :: "'a offset_state" assume i: "i \<in> set (next_intervals (events st0 e))" and u: "still st0 (fst u)"
      have "\<rho> s < \<rho> (sync_of_end st0 i)" "\<rho> (sync_of_end st0 i) \<le> N" using g i own by (auto simp: forward_graph_def)
      then have "N - \<rho> (sync_of_end st0 i) < n" using Suc.prems(2) by linarith
      moreover have "sync_of_end (fst u) i = sync_of_end st0 i" by (rule same_dates_links[OF still_dates[OF u]])
      ultimately show "\<exists>v. process_offset n env off (sync_of_end (fst u) i) u = Done v \<and> still st0 (fst v)"
        using Suc.IH[OF u] by simp
    qed
    show ?thesis
      using onward st st1 by (auto simp: zz at Let_def still_fields[OF st1])
  qed
  then have "\<exists>y. each ?body (time_events (syncs st0 s)) x = Done y \<and> still st0 (fst y)"
    by (rule each_total[where P = "\<lambda>y. still st0 (fst y)", OF _ Suc.prems(1)])
  then show ?case by (simp add: process_offset.simps(2) here f(2))
qed simp

text \<open>C12: on a graph without cycles, whose events and intervals refer to each other consistently, with enough fuel for it
  and when the expressions that count can be evaluated, an offset returns and gives each event it reaches the status the event has at the new date, which \<open>status_on\<close>
  says: one without intervals before it has happened or is disposed after its own date, and any other
  by the time since the last interval before it started, none up to the minimal duration of that one, pending up to its maximal duration,
  and decided after it. The events of the sync it starts from are reached, and from an event that has happened by then those of the syncs
  its intervals lead to. No other event changes, nothing else of the scenario does, and the events with processes
  that have happened are kept with their dates, in the order of these.\<close>

theorem process_offset_correct:
  assumes "forward_graph \<rho> N st" and "linked st" and "decidable env st" and "N < n"
  shows "\<exists>st' past vis. process_offset n env off s (st, [], []) = Done (st', past, vis)
    \<and> set vis = {e. offset_reaches env off st s e}
    \<and> (\<forall>e. events st' e = (if offset_reaches env off st s e then (events st e)\<lparr>status := status_on env off st e\<rparr> else events st e))
    \<and> still st st' \<and> sorted (map (tv_key \<circ> fst) past)
    \<and> set past = {(d, e). offset_reaches env off st s e \<and> status_on env off st e = HAPPENED \<and> ev_processes (events st e) \<noteq> []
        \<and> sync_date st (time_sync_of (events st e)) = Some d}"
proof -
  note dated = every_sync_dated[OF assms(1,2)]
  have own: "syncs_own st" using assms(1) by (simp add: syncs_own_def forward_graph_def)
  have "N - \<rho> s < n" using assms(4) by simp
  then obtain st' past vis where run: "process_offset n env off s (st, [], []) = Done (st', past, vis)"
    using process_offset_returns[OF assms(1,3) dated, of "(st, [], [])"] still_refl by fastforce
  have "offset_inv env off st (st, [], [])" by (simp add: offset_inv_def still_refl past_of_def)
  from process_offset_moves[OF own this run]
  have r: "offset_inv env off st (st', past, vis)" "offset_moves env off st s (st, [], []) (st', past, vis)"
      "set (time_events (syncs st s)) \<subseteq> set vis"
    by simp_all
  have expected: "expected_status env off st e = Done (status_on env off st e)" for e
    using dated[of "time_sync_of (events st e)"] status_at_on[OF assms(3) dated] by (auto simp: expected_status_def date_of_def)
  have reach: "offset_reaches env off st s e" if "(leads_to env off st)\<^sup>*\<^sup>* e0 e" "e0 \<in> set (time_events (syncs st s))" for e0 e
    using that by (induction rule: rtranclp_induct) (auto simp: leads_to_def expected intro: offset_reaches.intros)
  have "e \<in> set vis" if "offset_reaches env off st s e" for e
    using that
  proof (induction rule: offset_reaches.induct)
    case (reach_next e i f)
    then have "leads_to env off st e f" by (auto simp: leads_to_def expected)
    then show ?case using r(2) reach_next.IH by (auto simp: offset_moves_def offset_grows_def)
  qed (use r(3) in auto)
  moreover have "offset_reaches env off st s e" if "e \<in> set vis" for e
    using that r(2) reach by (auto simp: offset_moves_def reached_from_def)
  ultimately have vis: "e \<in> set vis \<longleftrightarrow> offset_reaches env off st s e" for e by blast
  have ev: "events st' e = (if e \<in> set vis then (events st e)\<lparr>status := status_on env off st e\<rparr> else events st e)" for e
    using r(1) still_event[of st st' e] by (auto simp: offset_inv_def expected)
  have "set past = past_of off st st' vis" using r(1) by (simp add: offset_inv_def)
  then have "set past = {(d, e). offset_reaches env off st s e \<and> status_on env off st e = HAPPENED \<and> ev_processes (events st e) \<noteq> []
        \<and> sync_date st (time_sync_of (events st e)) = Some d}"
    by (auto simp: past_of_def ev vis)
  then show ?thesis using r(1) run ev by (auto simp: offset_inv_def vis)
qed

section \<open>Intervals at the new date\<close>

text \<open>Only the clock of one interval moves, and it may become a running one.\<close>

definition clocked :: "nat \<Rightarrow> 'd scenario \<Rightarrow> 'd scenario \<Rightarrow> bool" where
  "clocked i st st' \<longleftrightarrow>
     (\<exists>v. intervals st' = (intervals st)(i := v) \<and> nominal v = nominal (intervals st i) \<and> max_duration v = max_duration (intervals st i)
        \<and> start_event v = start_event (intervals st i) \<and> end_event v = end_event (intervals st i) \<and> graphal v = graphal (intervals st i))
     \<and> events st' = events st \<and> syncs st' = syncs st \<and> scenario_intervals st' = scenario_intervals st \<and> nodes_list st' = nodes_list st"

lemma clockedD:
  assumes "clocked i st st'"
  shows "same_dates st st'" "events st' = events st" "syncs st' = syncs st" "scenario_intervals st' = scenario_intervals st"
    "nodes_list st' = nodes_list st" "max_duration (intervals st' j) = max_duration (intervals st j)"
    "start_event (intervals st' j) = start_event (intervals st j)" "j \<noteq> i \<Longrightarrow> intervals st' j = intervals st j"
proof -
  obtain v where v: "intervals st' = (intervals st)(i := v)" "nominal v = nominal (intervals st i)" "max_duration v = max_duration (intervals st i)"
      "start_event v = start_event (intervals st i)" "end_event v = end_event (intervals st i)" "graphal v = graphal (intervals st i)"
    and r: "events st' = events st" "syncs st' = syncs st" "scenario_intervals st' = scenario_intervals st" "nodes_list st' = nodes_list st"
    using assms by (auto simp: clocked_def)
  show "same_dates st st'" using v r by (simp add: same_dates_def shape_def fun_eq_iff)
  show "events st' = events st" "syncs st' = syncs st" "scenario_intervals st' = scenario_intervals st" "nodes_list st' = nodes_list st"
    using r by simp_all
  show "max_duration (intervals st' j) = max_duration (intervals st j)" "start_event (intervals st' j) = start_event (intervals st j)"
    "j \<noteq> i \<Longrightarrow> intervals st' j = intervals st j"
    using v by simp_all
qed

lemma clocked_off_score:
  assumes "clocked j st st'"
  shows "off_score first s st' = off_score first s st"
  using clockedD[OF assms] by (simp add: off_score_def)

text \<open>An operation that puts one interval where it is at the new date: whether it then runs, and its date.\<close>

locale interval_placer =
  fixes body :: "nat \<Rightarrow> 'd::zero step" and runs :: "nat \<Rightarrow> 'd scenario \<Rightarrow> bool" and date_after :: "nat \<Rightarrow> 'd scenario \<Rightarrow> time_value"
  assumes body_places: "body i st = Done st' \<Longrightarrow> clocked i st st' \<and> itv_date (intervals st' i) = date_after i st
      \<and> set (running_intervals st') = set (running_intervals st) \<union> (if runs i st then {i} else {})"
    and runs_elsewhere: "clocked j st st' \<Longrightarrow> runs i st' = runs i st"
    and date_elsewhere: "clocked j st st' \<Longrightarrow> j \<noteq> i \<Longrightarrow> date_after i st' = date_after i st"
begin

lemma place_all:
  "distinct is \<Longrightarrow> each body is st = Done st' \<Longrightarrow>
     same_dates st st' \<and> events st' = events st \<and> syncs st' = syncs st \<and> scenario_intervals st' = scenario_intervals st
     \<and> nodes_list st' = nodes_list st \<and> (\<forall>i. max_duration (intervals st' i) = max_duration (intervals st i))
     \<and> (\<forall>i. runs i st' = runs i st)
     \<and> (\<forall>i. if i \<in> set is then itv_date (intervals st' i) = date_after i st else intervals st' i = intervals st i)
     \<and> set (running_intervals st') = set (running_intervals st) \<union> {i \<in> set is. runs i st}"
proof (induction "is" arbitrary: st)
  case (Cons a "is")
  then obtain u where u: "body a st = Done u" "each body is u = Done st'" by (auto simp: and_then_eq_Done)
  note b = body_places[OF u(1)]
  have ca: "clocked a st u" using b by simp
  note c = clockedD[OF ca]
  have IH: "same_dates u st' \<and> events st' = events u \<and> syncs st' = syncs u \<and> scenario_intervals st' = scenario_intervals u
     \<and> nodes_list st' = nodes_list u \<and> (\<forall>i. max_duration (intervals st' i) = max_duration (intervals u i))
     \<and> (\<forall>i. runs i st' = runs i u)
     \<and> (\<forall>i. if i \<in> set is then itv_date (intervals st' i) = date_after i u else intervals st' i = intervals u i)
     \<and> set (running_intervals st') = set (running_intervals u) \<union> {i \<in> set is. runs i u}"
    using Cons u(2) by simp
  have "same_dates st st'" using IH c(1) by (simp add: same_dates_def)
  moreover have "\<forall>i. if i \<in> set (a # is) then itv_date (intervals st' i) = date_after i st else intervals st' i = intervals st i"
  proof
    fix i
    show "if i \<in> set (a # is) then itv_date (intervals st' i) = date_after i st else intervals st' i = intervals st i"
      using IH[THEN conjunct2, THEN conjunct2, THEN conjunct2, THEN conjunct2, THEN conjunct2, THEN conjunct2, THEN conjunct2, THEN conjunct1, THEN spec, of i]
        b c(8)[of i] date_elsewhere[OF ca, of i] Cons.prems(1) by (auto split: if_splits)
  qed
  ultimately show ?case using IH b c(2-6) runs_elsewhere[OF ca] by auto
qed (simp add: same_dates_def)

end

definition transport_runs :: "nat \<Rightarrow> time_value \<Rightarrow> nat \<Rightarrow> 'd scenario \<Rightarrow> bool" where
  "transport_runs first off i st \<longleftrightarrow>
     \<not> off_score first (sync_of_start st i) st
     \<and> (\<exists>d. sync_date st (sync_of_start st i) = Some d \<and> tv_ge (tv_minus off d) Zero_tv
            \<and> tv_le (tv_minus off d) (max_duration (intervals st i)))
     \<and> status (events st (start_event (intervals st i))) = HAPPENED"

definition transport_date :: "nat \<Rightarrow> time_value \<Rightarrow> nat \<Rightarrow> 'd scenario \<Rightarrow> time_value" where
  "transport_date first off i st =
     (if off_score first (sync_of_start st i) st then itv_date (intervals st i)
      else if transport_runs first off i st then tv_minus off (the (sync_date st (sync_of_start st i))) else Zero_tv)"

definition offset_runs :: "nat \<Rightarrow> time_value \<Rightarrow> nat \<Rightarrow> 'd scenario \<Rightarrow> bool" where
  "offset_runs first off i st \<longleftrightarrow>
     \<not> off_score first (sync_of_start st i) st
     \<and> (\<exists>d. sync_date st (sync_of_start st i) = Some d \<and> tv_le d off \<and> tv_le off (tv_plus d (nominal (intervals st i))))
     \<and> status (events st (start_event (intervals st i))) = HAPPENED"

definition offset_date :: "nat \<Rightarrow> time_value \<Rightarrow> nat \<Rightarrow> 'd scenario \<Rightarrow> time_value" where
  "offset_date first off i st =
     (if offset_runs first off i st then tv_minus off (the (sync_date st (sync_of_start st i))) else itv_date (intervals st i))"

lemma clocked_refl: "clocked i st st"
  by (auto simp: clocked_def intro: exI[of _ "intervals st i"])

lemma clocked_move: "clocked i st (interval_transport i d st)" "clocked i st (interval_offset i d st)"
  by (auto simp: clocked_def frame_simps intro!: exI[of _ "moved d (intervals st i)"])

lemma clocked_running: "clocked i st st' \<Longrightarrow> clocked i st (add_running i st')"
  by (simp add: clocked_def add_running_def)

lemma runs_elsewhere:
  assumes "clocked j st st'"
  shows "transport_runs first off i st' = transport_runs first off i st" "offset_runs first off i st' = offset_runs first off i st"
  using clockedD[OF assms] same_dates_links[OF clockedD(1)[OF assms]] sync_date_same[OF clockedD(1)[OF assms]]
  by (simp_all add: transport_runs_def offset_runs_def clocked_off_score[OF assms])

interpretation transport: interval_placer "transport_interval first off" "transport_runs first off" "transport_date first off"
  for first off
proof
  fix i and st st' :: "'a::zero scenario"
  assume b: "transport_interval first off i st = Done st'"
  then obtain d where d: "sync_date st (sync_of_start st i) = Some d"
    by (auto simp: transport_interval_def and_then_eq_Done date_of_def split: option.splits)
  show "clocked i st st' \<and> itv_date (intervals st' i) = transport_date first off i st
      \<and> set (running_intervals st') = set (running_intervals st) \<union> (if transport_runs first off i st then {i} else {})"
    using b d
    by (auto simp: transport_interval_def date_of_def Let_def transport_date_def transport_runs_def clocked_refl clocked_move
        clocked_running frame_simps split: if_splits)
next
  fix i j and st st' :: "'a::zero scenario"
  assume c: "clocked j st st'"
  then show "transport_runs first off i st' = transport_runs first off i st" by (rule runs_elsewhere)
  show "transport_date first off i st' = transport_date first off i st" if "j \<noteq> i"
    using clockedD(8)[OF c, of i] that sync_date_same[OF clockedD(1)[OF c]] same_dates_links[OF clockedD(1)[OF c]]
    by (simp add: transport_date_def runs_elsewhere[OF c] clocked_off_score[OF c])
qed

interpretation offset: interval_placer "offset_interval first off" "offset_runs first off" "offset_date first off"
  for first off
proof
  fix i and st st' :: "'a::zero scenario"
  assume b: "offset_interval first off i st = Done st'"
  then obtain d where d: "sync_date st (sync_of_start st i) = Some d"
    by (auto simp: offset_interval_def and_then_eq_Done date_of_def split: option.splits)
  show "clocked i st st' \<and> itv_date (intervals st' i) = offset_date first off i st
      \<and> set (running_intervals st') = set (running_intervals st) \<union> (if offset_runs first off i st then {i} else {})"
    using b d
    by (auto simp: offset_interval_def date_of_def Let_def offset_date_def offset_runs_def clocked_refl clocked_move
        clocked_running frame_simps split: if_splits)
next
  fix i j and st st' :: "'a::zero scenario"
  assume c: "clocked j st st'"
  then show "offset_runs first off i st' = offset_runs first off i st" by (rule runs_elsewhere)
  show "offset_date first off i st' = offset_date first off i st" if "j \<noteq> i"
    using clockedD(8)[OF c, of i] that sync_date_same[OF clockedD(1)[OF c]] same_dates_links[OF clockedD(1)[OF c]]
    by (simp add: offset_date_def runs_elsewhere[OF c])
qed

section \<open>The whole scenario at the new date\<close>

lemma restore_lists:
  "scenario_intervals (restore_durations st) = scenario_intervals st" "nodes_list (restore_durations st) = nodes_list st"
proof -
  obtain "is" where "fold (\<lambda>(i, mn, mx). set_interval i (\<lambda>v. set_max_duration mx (set_min_duration mn v))) (offset_durations st) st = st\<lparr>intervals := is\<rparr>"
    using restore_loop_fields[of "offset_durations st" st 0] by blast
  then show "scenario_intervals (restore_durations st) = scenario_intervals st" "nodes_list (restore_durations st) = nodes_list st"
    by (simp_all add: restore_durations_def)
qed

definition lists_of :: "'d scenario \<Rightarrow> nat list \<times> nat list \<times> nat list" where
  "lists_of st = (scenario_intervals st, nodes_list st, running_intervals st)"

lemma prepare_offset_lists: "prepare_offset st = Done st' \<Longrightarrow> lists_of st' = (scenario_intervals st, nodes_list st, [])"
  using each_sync_reset_lists[of "nodes_list (restore_durations st)" "restore_durations st"]
  by (auto simp: prepare_offset_def Let_def and_then_eq_Done lists_of_def restore_lists)

lemma rigid_lists: "lists_of (rigid_all off m elts st) = lists_of st"
proof -
  have r: "lists_of (make_rigid i mn mx st) = lists_of st" for i mn mx and st :: "'a scenario"
    by (simp add: make_rigid_def Let_def lists_of_def frame_simps)
  have "lists_of (rigid_before s st) = lists_of st" for s and st :: "'a scenario"
    unfolding rigid_before_def by (rule fold_same) (simp add: r)
  moreover have "lists_of (rigid_across off m s st) = lists_of st" for s and st :: "'a scenario"
    unfolding rigid_across_def by (rule fold_same) (simp add: r split: option.split)
  ultimately show ?thesis unfolding rigid_all_def by (intro fold_same) (auto split: prod.split)
qed

lemma process_offset_still: "process_offset n env off s x = Done y \<Longrightarrow> still (fst x) (fst y)"
proof (induction n arbitrary: s x y)
  case (Suc n)
  from Suc.prems show ?case
    unfolding process_offset.simps(2) and_then_eq_Done
  proof (elim exE conjE, elim each_invariant[where P = "\<lambda>z. still (fst x) (fst z)", rotated 2])
    fix d e z t
    assume z: "still (fst x) (fst z)" and b: "(case z of (st, past, vis) \<Rightarrow>
        if e \<in> set vis then Done (st, past, vis)
        else and_then (status_at env e d off st) (\<lambda>es.
            let st1 = set_status e es st; vis1 = flat_insert e vis
            in if es = HAPPENED then
                 each (\<lambda>i y. process_offset n env off (sync_of_end (fst y) i) y) (next_intervals (events st1 e))
                   (st1, if ev_processes (events st1 e) \<noteq> [] then past_insert d e past else past, vis1)
               else Done (st1, past, vis1))) = Done t"
    obtain st past vis where zz: "z = (st, past, vis)" by (cases z)
    have s1: "still (fst x) (set_status e es st)" for es using z still_trans[OF _ still_set_status] by (simp add: zz)
    have in_each: "still (fst x) (fst t)"
      if "each (\<lambda>i y. process_offset n env off (sync_of_end (fst y) i) y) is (set_status e es st, p, v) = Done t" for "is" es p v
      by (rule each_invariant[OF _ _ that, where P = "\<lambda>z. still (fst x) (fst z)"]) (use Suc.IH still_trans in blast, simp add: s1)
    show "still (fst x) (fst t)"
      using b z s1 in_each by (auto simp: zz and_then_eq_Done Let_def split: if_splits)
  qed (rule still_refl)
qed simp

lemma settle_events_lists:
  assumes "settle_events n env arrange off st = Done (first, st1, past)"
  shows "scenario_intervals st1 = scenario_intervals st" "running_intervals st1 = []" "\<exists>rest. nodes_list st1 = first # rest"
proof -
  obtain st0 where p: "prepare_offset st = Done st0" and rest: "(case nodes_list st0 of
         [] \<Rightarrow> Diverge
       | first # _ \<Rightarrow>
           and_then (process_timesync_dates n st0 first []) (\<lambda>m.
             and_then (process_offset n env off first (rigid_all off m (arrange m) st0, [], [])) (\<lambda>(st2, past, _).
               Done (first, st2, past)))) = Done (first, st1, past)"
    using assms by (auto simp: settle_events_def and_then_eq_Done)
  obtain nodes where nl: "nodes_list st0 = first # nodes"
    using rest by (cases "nodes_list st0") (auto simp: and_then_eq_Done)
  then obtain m vis where o: "process_offset n env off first (rigid_all off m (arrange m) st0, [], []) = Done (st1, past, vis)"
    using rest by (auto simp: and_then_eq_Done)
  note l = prepare_offset_lists[OF p]
  have "lists_of st1 = lists_of st0"
    using still_fields[OF process_offset_still[OF o]] rigid_lists[of off m "arrange m" st0] by (simp add: lists_of_def)
  then have "nodes_list st1 = first # nodes" "scenario_intervals st1 = scenario_intervals st" "running_intervals st1 = []"
    using l nl by (simp_all add: lists_of_def)
  then show "scenario_intervals st1 = scenario_intervals st" "running_intervals st1 = []" "\<exists>rest. nodes_list st1 = first # rest"
    by simp_all
qed

lemma stop_no_longer_fields:
  "intervals (stop_no_longer_running before after st) = (\<lambda>i. if i \<in> set before - set after then stopped (intervals st i) else intervals st i)"
  "events (stop_no_longer_running before after st) = events st" "syncs (stop_no_longer_running before after st) = syncs st"
  "running_intervals (stop_no_longer_running before after st) = running_intervals st"
  "scenario_intervals (stop_no_longer_running before after st) = scenario_intervals st"
  "nodes_list (stop_no_longer_running before after st) = nodes_list st"
  by (induction before arbitrary: st) (auto simp: stop_no_longer_running_def frame_simps fun_eq_iff)

text \<open>What the last two steps of an offset leave: the store is that of the intervals placed, but for those that ran before
  and do not run now.\<close>

definition finished_offset :: "nat list \<Rightarrow> time_value \<Rightarrow> 'd::zero scenario \<Rightarrow> 'd scenario" where
  "finished_offset before off st = (stop_no_longer_running before (running_intervals st) st)\<lparr>last_date := off\<rparr>"

lemma finished_offset_fields:
  "same_dates st (finished_offset before off st)" "running_intervals (finished_offset before off st) = running_intervals st"
  "last_date (finished_offset before off st) = off" "nodes_list (finished_offset before off st) = nodes_list st"
  "scenario_intervals (finished_offset before off st) = scenario_intervals st"
  "transport_runs first off i (finished_offset before off st) = transport_runs first off i st"
  "offset_runs first off i (finished_offset before off st) = offset_runs first off i st"
  "off_score first s (finished_offset before off st) = off_score first s st"
  "itv_date (intervals (finished_offset before off st) i) =
     (if i \<in> set before - set (running_intervals st) then Zero_tv else itv_date (intervals st i))"
proof -
  let ?t = "finished_offset before off st"
  show d: "same_dates st ?t"
    by (simp add: same_dates_def shape_def fun_eq_iff finished_offset_def stop_no_longer_fields)
  have m: "max_duration (intervals ?t j) = max_duration (intervals st j)" "start_event (intervals ?t j) = start_event (intervals st j)"
      "events ?t = events st" "syncs ?t = syncs st" for j
    by (simp_all add: finished_offset_def stop_no_longer_fields)
  show "running_intervals ?t = running_intervals st" "last_date ?t = off" "nodes_list ?t = nodes_list st"
    "scenario_intervals ?t = scenario_intervals st"
    "itv_date (intervals ?t i) = (if i \<in> set before - set (running_intervals st) then Zero_tv else itv_date (intervals st i))"
    by (simp_all add: finished_offset_def stop_no_longer_fields)
  show os: "off_score first s ?t = off_score first s st" for s by (simp add: off_score_def m)
  show "transport_runs first off i ?t = transport_runs first off i st" "offset_runs first off i ?t = offset_runs first off i st"
    by (simp_all add: transport_runs_def offset_runs_def os m same_dates_links[OF d] sync_date_same[OF d])
qed

text \<open>Where the loop over the intervals returns, the start of each has a date.\<close>

lemma placed_have_dates:
  "each (transport_interval first off) is st = Done st' \<Longrightarrow> \<forall>i \<in> set is. \<exists>d. sync_date st (sync_of_start st i) = Some d"
  "each (offset_interval first off) is st = Done st' \<Longrightarrow> \<forall>i \<in> set is. \<exists>d. sync_date st (sync_of_start st i) = Some d"
proof -
  have tr: "same_dates s t \<Longrightarrow> same_dates t u \<Longrightarrow> same_dates s u" and rf: "same_dates s s" for s t u :: "'a scenario"
    by (simp_all add: same_dates_def)
  have go: "\<forall>i \<in> set is. \<exists>d. sync_date st (sync_of_start st i) = Some d"
    if e: "each body is st = Done st'" and b: "\<And>i s t. body i s = Done t \<Longrightarrow> same_dates s t \<and> (\<exists>d. sync_date s (sync_of_start s i) = Some d)" for body
  proof -
    have q: "(\<exists>d. sync_date t (sync_of_start t i) = Some d) = (\<exists>d. sync_date s (sync_of_start s i) = Some d)" if "same_dates s t" for s t :: "'a scenario" and i
      using same_dates_links(2)[OF that] sync_date_same[OF that] by simp
    have "True \<and> same_dates st st' \<and> (\<forall>i \<in> set is. \<exists>d. sync_date st' (sync_of_start st' i) = Some d)"
    proof (rule each_relation[where I = "\<lambda>_. True" and R = same_dates
          and Q = "\<lambda>i t. \<exists>d. sync_date t (sync_of_start t i) = Some d", OF _ _ _ _ _ e])
      show "True \<and> same_dates s t \<and> (\<exists>d. sync_date t (sync_of_start t i) = Some d)" if "body i s = Done t" for i s t
        using b[OF that] q[of s t i] by blast
      show "\<exists>d. sync_date t (sync_of_start t i) = Some d" if "\<exists>d. sync_date s (sync_of_start s i) = Some d" "same_dates s t"
        for i and s t :: "'a scenario"
        using q[OF that(2)] that(1) by simp
      show "same_dates s u" if "same_dates s t" "same_dates t u" for s t u :: "'a scenario" using tr that by blast
    qed (simp_all add: rf)
    then show ?thesis using q by blast
  qed
  show "each (transport_interval first off) is st = Done st' \<Longrightarrow> \<forall>i \<in> set is. \<exists>d. sync_date st (sync_of_start st i) = Some d"
  proof (elim go)
    show "same_dates s t \<and> (\<exists>d. sync_date s (sync_of_start s i) = Some d)" if "transport_interval first off i s = Done t" for i s t
      using that transport.body_places[OF that] clockedD(1)[of i s t]
      by (auto simp: transport_interval_def and_then_eq_Done date_of_def split: option.splits)
  qed
  show "each (offset_interval first off) is st = Done st' \<Longrightarrow> \<forall>i \<in> set is. \<exists>d. sync_date st (sync_of_start st i) = Some d"
  proof (elim go)
    show "same_dates s t \<and> (\<exists>d. sync_date s (sync_of_start s i) = Some d)" if "offset_interval first off i s = Done t" for i s t
      using that offset.body_places[OF that] clockedD(1)[of i s t]
      by (auto simp: offset_interval_def and_then_eq_Done date_of_def split: option.splits)
  qed
qed

text \<open>after a transport to a date other than zero the running intervals are those of the score that the date lies in,
  between the date of their start and their maximal duration, and whose start event has happened; each of them is
  where the date falls in it, and every other interval of the score is at its beginning.\<close>

theorem transport_places_intervals:
  assumes "distinct (scenario_intervals st)" and "\<not> tv_eq off Zero_tv" and "transport_impl n env arrange off st = Done st'"
  shows "\<exists>first rest. nodes_list st' = first # rest \<and> last_date st' = off \<and> scenario_intervals st' = scenario_intervals st
    \<and> set (running_intervals st') = {i \<in> set (scenario_intervals st'). transport_runs first off i st'}
    \<and> (\<forall>i \<in> set (scenario_intervals st'). \<not> off_score first (sync_of_start st' i) st' \<longrightarrow>
          (\<exists>d. sync_date st' (sync_of_start st' i) = Some d
             \<and> itv_date (intervals st' i) = (if transport_runs first off i st' then tv_minus off d else Zero_tv)))"
proof -
  obtain first st1 past st2 where p: "settle_events n env arrange off st = Done (first, st1, past)"
      "each (transport_interval first off) (scenario_intervals st1) st1 = Done st2" "st' = finished_offset (running_intervals st) off st2"
    using assms(2,3) by (auto simp: transport_impl_def and_then_eq_Done finished_offset_def)
  note l = settle_events_lists[OF p(1)]
  have pl: "same_dates st1 st2" "scenario_intervals st2 = scenario_intervals st1" "nodes_list st2 = nodes_list st1"
      "\<And>i. transport_runs first off i st2 = transport_runs first off i st1" "syncs st2 = syncs st1" "events st2 = events st1"
      "\<And>i. i \<in> set (scenario_intervals st) \<Longrightarrow> itv_date (intervals st2 i) = transport_date first off i st1"
      "set (running_intervals st2) = {i \<in> set (scenario_intervals st). transport_runs first off i st1}"
    using transport.place_all[OF _ p(2)] assms(1) l by auto
  have dates: "same_dates st1 st'"
    using pl(1) finished_offset_fields(1)[of st2 "running_intervals st" off] by (simp add: p(3) same_dates_def)
  note f = finished_offset_fields[where st = st2 and before = "running_intervals st" and off = off, folded p(3)]
  have os: "off_score first s st' = off_score first s st1" for s by (simp add: f(8)) (simp add: off_score_def pl)
  have runs: "transport_runs first off i st' = transport_runs first off i st1" for i by (simp add: f pl)
  have "\<exists>d. sync_date st' (sync_of_start st' i) = Some d
      \<and> itv_date (intervals st' i) = (if transport_runs first off i st' then tv_minus off d else Zero_tv)"
    if i: "i \<in> set (scenario_intervals st)" and o: "\<not> off_score first (sync_of_start st' i) st'" for i
  proof -
    obtain d where d: "sync_date st1 (sync_of_start st1 i) = Some d" using placed_have_dates(1)[OF p(2)] i l(1) by auto
    have "i \<in> set (running_intervals st2) \<longleftrightarrow> transport_runs first off i st1" using i pl(8) by simp
    then show ?thesis
      using d o i by (simp add: sync_date_same[OF dates] same_dates_links[OF dates] f(9) pl(7) runs transport_date_def os)
  qed
  then show ?thesis
    using l pl f by (intro exI[of _ first]) (auto simp: runs)
qed

text \<open>after an offset the running intervals are those of the score whose start event has happened and whose nominal
  duration from the date of their start covers the date; each of them is where the date falls in it.\<close>

theorem offset_places_intervals:
  assumes "distinct (scenario_intervals st)" and "offset_impl n env arrange off st = Done st'"
  shows "\<exists>first rest. nodes_list st' = first # rest \<and> last_date st' = off \<and> scenario_intervals st' = scenario_intervals st
    \<and> set (running_intervals st') = {i \<in> set (scenario_intervals st'). offset_runs first off i st'}
    \<and> (\<forall>i \<in> set (running_intervals st').
          \<exists>d. sync_date st' (sync_of_start st' i) = Some d \<and> tv_le d off \<and> itv_date (intervals st' i) = tv_minus off d)"
proof -
  obtain first st0 past st1 st2 where p: "settle_events n env arrange off st = Done (first, st0, past)"
      "st1 = (if \<not> muted st0 then note_call (Launch_state (concat (map (\<lambda>x. ev_processes (events st0 (snd x))) past))) st0 else st0)"
      "each (offset_interval first off) (scenario_intervals st1) st1 = Done st2" "st' = finished_offset (running_intervals st) off st2"
    using assms(2) by (auto simp: offset_impl_def and_then_eq_Done finished_offset_def Let_def)
  note l = settle_events_lists[OF p(1)]
  have l1: "scenario_intervals st1 = scenario_intervals st" "running_intervals st1 = []" "\<exists>rest. nodes_list st1 = first # rest"
    using l by (simp_all add: p(2) frame_simps)
  have pl: "same_dates st1 st2" "scenario_intervals st2 = scenario_intervals st1" "nodes_list st2 = nodes_list st1"
      "\<And>i. offset_runs first off i st2 = offset_runs first off i st1"
      "\<And>i. i \<in> set (scenario_intervals st) \<Longrightarrow> itv_date (intervals st2 i) = offset_date first off i st1"
      "set (running_intervals st2) = {i \<in> set (scenario_intervals st). offset_runs first off i st1}"
    using offset.place_all[OF _ p(3)] assms(1) l1 by auto
  note f = finished_offset_fields[where st = st2 and before = "running_intervals st" and off = off, folded p(4)]
  have dates: "same_dates st1 st'" using pl(1) f(1) by (simp add: same_dates_def)
  have "\<exists>d. sync_date st' (sync_of_start st' i) = Some d \<and> tv_le d off \<and> itv_date (intervals st' i) = tv_minus off d"
    if i: "i \<in> set (running_intervals st')" for i
  proof -
    have r: "i \<in> set (scenario_intervals st)" "offset_runs first off i st1" "i \<in> set (running_intervals st2)"
      using i pl(6) by (simp_all add: f)
    then obtain d where "sync_date st1 (sync_of_start st1 i) = Some d" "tv_le d off" by (auto simp: offset_runs_def)
    then show ?thesis
      using r by (simp add: sync_date_same[OF dates] same_dates_links[OF dates] f(9) pl(5) offset_date_def)
  qed
  then show ?thesis
    using l1 pl f by (intro exI[of _ first]) auto
qed

section \<open>Instances\<close>

declare sync_date.simps [code]

definition demo_seek :: "rat scenario" where
  "demo_seek = demo_store (\<lambda>i. demo_itv 0 1)
       (\<lambda>e. if e = 0 then demo_event 0 [] [0] else if e = 1 then demo_event 1 [0] [] else demo_event e [] [])
       (\<lambda>s. demo_sync (s = 0) [s]) [0] [0, 1]"

lemma demo_seek_results:
  "(case transport_impl 3 demo_env id (Time_value 7) demo_seek of Done st' \<Rightarrow> running_intervals st' | _ \<Rightarrow> []) = [0]"
  "(case offset_impl 3 demo_env id (Time_value 7) demo_seek of Done st' \<Rightarrow> running_intervals st' | _ \<Rightarrow> []) = [0]"
  "(case process_offset 3 demo_env (Time_value 7) 0 (demo_seek, [], []) of Done (st', past, vis) \<Rightarrow> vis | _ \<Rightarrow> []) = [0, 1]"
  by code_simp+

lemma demo_seek_fields: "scenario_intervals demo_seek = [0]" "syncs_own demo_seek" "\<not> tv_eq (Time_value 7) Zero_tv"
  by (auto simp: demo_seek_def demo_defs syncs_own_def tv_defs tv_consts)

lemma transport_places_intervals_witness:
  "\<exists>st' d. transport_impl 3 demo_env id (Time_value 7) demo_seek = Done st' \<and> running_intervals st' = [0]
     \<and> sync_date st' (sync_of_start st' 0) = Some d \<and> itv_date (intervals st' 0) = tv_minus (Time_value 7) d"
proof -
  obtain st' where st': "transport_impl 3 demo_env id (Time_value 7) demo_seek = Done st'" "running_intervals st' = [0]"
    using demo_seek_results(1) by (auto split: outcome.splits)
  have "distinct (scenario_intervals demo_seek)" by (simp add: demo_seek_fields)
  from transport_places_intervals[OF this demo_seek_fields(3) st'(1)] obtain first where
    r: "scenario_intervals st' = [0]" "set (running_intervals st') = {i \<in> set (scenario_intervals st'). transport_runs first (Time_value 7) i st'}"
      "\<forall>i \<in> set (scenario_intervals st'). \<not> off_score first (sync_of_start st' i) st' \<longrightarrow>
         (\<exists>d. sync_date st' (sync_of_start st' i) = Some d
           \<and> itv_date (intervals st' i) = (if transport_runs first (Time_value 7) i st' then tv_minus (Time_value 7) d else Zero_tv))"
    unfolding demo_seek_fields(1) by (elim exE conjE)
  have "0 \<in> set (running_intervals st')" using st'(2) by simp
  then have t: "transport_runs first (Time_value 7) 0 st'" unfolding r(2) by simp
  then have "\<not> off_score first (sync_of_start st' 0) st'" by (simp add: transport_runs_def)
  then show ?thesis using r(3) st' t by (simp add: r(1))
qed

lemma offset_places_intervals_witness:
  "\<exists>st' d. offset_impl 3 demo_env id (Time_value 7) demo_seek = Done st'
     \<and> sync_date st' (sync_of_start st' 0) = Some d \<and> itv_date (intervals st' 0) = tv_minus (Time_value 7) d"
proof -
  obtain st' where st': "offset_impl 3 demo_env id (Time_value 7) demo_seek = Done st'" "running_intervals st' = [0]"
    using demo_seek_results(2) by (auto split: outcome.splits)
  have "distinct (scenario_intervals demo_seek)" by (simp add: demo_seek_fields)
  from offset_places_intervals[OF this st'(1)] show ?thesis using st' by auto
qed

lemma process_offset_correct_witness:
  "\<exists>st' past vis. process_offset 3 demo_env (Time_value 7) 0 (demo_seek, [], []) = Done (st', past, vis)
     \<and> (\<forall>e. 1 < e \<longrightarrow> events st' e = events demo_seek e) \<and> status (events st' 0) = HAPPENED"
proof -
  have "forward_graph (\<lambda>s. if s = 0 then 0 else 1) 1 demo_seek" "linked demo_seek" "decidable demo_env demo_seek"
    by (auto simp: forward_graph_def linked_def decidable_def sync_of_end_def demo_seek_def demo_defs)
  from process_offset_correct[OF this, of 3 "Time_value 7" 0] obtain st' past vis where
    c: "process_offset 3 demo_env (Time_value 7) 0 (demo_seek, [], []) = Done (st', past, vis)"
      "\<forall>e. events st' e = (if offset_reaches demo_env (Time_value 7) demo_seek 0 e
        then (events demo_seek e)\<lparr>status := status_on demo_env (Time_value 7) demo_seek e\<rparr> else events demo_seek e)"
    by auto
  have "sync_date demo_seek 0 = Some Zero_tv"
    by (subst sync_date.simps) (simp add: date_interval_def demo_seek_def demo_defs)
  then have now: "status_on demo_env (Time_value 7) demo_seek 0 = HAPPENED"
    by (simp add: status_on_def verdict_def demo_seek_def demo_defs tv_defs tv_consts Zero_tv_def)
  have "e \<le> 1" if "offset_reaches demo_env (Time_value 7) demo_seek 0 e" for e
    using that by (induction rule: offset_reaches.induct) (auto simp: demo_seek_def demo_defs sync_of_end_def split: if_splits)
  then have far: "\<not> offset_reaches demo_env (Time_value 7) demo_seek 0 e" if "1 < e" for e using that by fastforce
  have "offset_reaches demo_env (Time_value 7) demo_seek 0 0"
    by (rule reach_first) (simp add: demo_seek_def demo_defs)
  then show ?thesis using c now far by (intro exI[of _ st'] exI[of _ past] exI[of _ vis]) simp
qed

end
