(* ===== verification/Conversion.thy ===== *)
theory Conversion
  imports Values
begin

text \<open>
  Types of values and conversions between them (network/value/detail/value_conversion_impl.hpp, value.cpp,
  value_traits.hpp), and the printing of values (format_value.hpp). The template \<open>value_converter<T>\<close> for numbers
  is \<open>convert_num\<close>, its argument the operations of \<open>T\<close>. What the language and \<open>fmt\<close> leave open is the
  parameter \<open>num_env\<close>: the rounding of sums and differences to \<open>float\<close> and to \<open>double\<close>, the conversion to \<open>int32_t\<close>
  of a number that does not fit, the reading of a \<open>float\<close> from a string, and the two formats of a \<open>float\<close>.
\<close>

record num_env =
  to_float :: "rat \<Rightarrow> f32"
  to_double :: "rat \<Rightarrow> f32"
  cast_int :: "f32 \<Rightarrow> int"
  parse_float :: "string \<Rightarrow> f32 option"
  show_float :: "f32 \<Rightarrow> string"
  show_float2 :: "f32 \<Rightarrow> string"

section \<open>Types\<close>

datatype val_type = FLOAT | INT32 | VEC2F | VEC3F | VEC4F | IMPULSE | BOOL | STRING | LIST | MAP | NO_TYPE

fun get_type :: "value_t \<Rightarrow> val_type" where
  "get_type Null = NO_TYPE"
| "get_type (Float _) = FLOAT"
| "get_type (Int32 _) = INT32"
| "get_type (Vec2f _ _) = VEC2F"
| "get_type (Vec3f _ _ _) = VEC3F"
| "get_type (Vec4f _ _ _ _) = VEC4F"
| "get_type Impulse = IMPULSE"
| "get_type (Bool _) = BOOL"
| "get_type (String _) = STRING"
| "get_type (VList _) = LIST"
| "get_type (VMap _) = MAP"

definition is_numeric :: "value_t \<Rightarrow> bool" where
  "is_numeric v \<longleftrightarrow> get_type v \<in> {INT32, FLOAT, BOOL}"

definition is_array :: "value_t \<Rightarrow> bool" where
  "is_array v \<longleftrightarrow> get_type v \<in> {MAP, LIST, VEC2F, VEC3F, VEC4F}"

fun components :: "value_t \<Rightarrow> f32 list option" where
  "components (Vec2f a b) = Some [a, b]"
| "components (Vec3f a b c) = Some [a, b, c]"
| "components (Vec4f a b c d) = Some [a, b, c, d]"
| "components _ = None"

fun make_vec :: "f32 list \<Rightarrow> value_t" where
  "make_vec [a, b] = Vec2f a b"
| "make_vec [a, b, c] = Vec3f a b c"
| "make_vec [a, b, c, d] = Vec4f a b c d"
| "make_vec _ = Null"

text \<open>\<open>init_value\<close> throws on a type that is none.\<close>

fun init_value :: "val_type \<Rightarrow> value_t option" where
  "init_value IMPULSE = Some Impulse"
| "init_value BOOL = Some (Bool False)"
| "init_value INT32 = Some (Int32 0)"
| "init_value FLOAT = Some (Float (Fin 0))"
| "init_value STRING = Some (String [])"
| "init_value LIST = Some (VList [])"
| "init_value MAP = Some (VMap [])"
| "init_value VEC2F = Some (Vec2f (Fin 0) (Fin 0))"
| "init_value VEC3F = Some (Vec3f (Fin 0) (Fin 0) (Fin 0))"
| "init_value VEC4F = Some (Vec4f (Fin 0) (Fin 0) (Fin 0) (Fin 0))"
| "init_value NO_TYPE = None"

section \<open>Numbers\<close>

definition rat_trunc32 :: "rat \<Rightarrow> int" where
  "rat_trunc32 x = (if x \<ge> 0 then \<lfloor>x\<rfloor> else - \<lfloor>- x\<rfloor>)"

fun f32_to_int :: "num_env \<Rightarrow> f32 \<Rightarrow> int" where
  "f32_to_int ne (Fin a) = (if in32 (rat_trunc32 a) then rat_trunc32 a else cast_int ne (Fin a))"
| "f32_to_int ne x = cast_int ne x"

text \<open>\<open>parse_relax<int>\<close>: the number at the beginning of the string, what follows is not looked at.\<close>

definition parse_relax_int :: "string \<Rightarrow> int option" where
  "parse_relax_int s =
     (let neg = (s \<noteq> [] \<and> hd s = CHR ''-'');
          ds = takeWhile is_digit (if neg then tl s else s);
          v = (if neg then - digits_value ds else digits_value ds)
      in if ds = [] \<or> \<not> in32 v then None else Some v)"

record 'a number_type =
  nt_zero :: 'a
  nt_int :: "int \<Rightarrow> 'a"
  nt_float :: "f32 \<Rightarrow> 'a"
  nt_bool :: "bool \<Rightarrow> 'a"
  nt_string :: "string \<Rightarrow> 'a"

fun convert_num :: "'a number_type \<Rightarrow> value_t \<Rightarrow> 'a" where
  "convert_num t Null = nt_zero t"
| "convert_num t Impulse = nt_zero t"
| "convert_num t (Int32 i) = nt_int t i"
| "convert_num t (Float f) = nt_float t f"
| "convert_num t (Bool b) = nt_bool t b"
| "convert_num t (String s) = nt_string t s"
| "convert_num t (Vec2f a b) = nt_float t a"
| "convert_num t (Vec3f a b c) = nt_float t a"
| "convert_num t (Vec4f a b c d) = nt_float t a"
| "convert_num t (VList xs) = (case xs of [] \<Rightarrow> nt_zero t | x # _ \<Rightarrow> convert_num t x)"
| "convert_num t (VMap m) = (case m of [] \<Rightarrow> nt_zero t | kv # _ \<Rightarrow> convert_num t (snd kv))"

definition bool_num :: "bool \<Rightarrow> int" where
  "bool_num b = (if b then 1 else 0)"

definition int_type :: "num_env \<Rightarrow> int number_type" where
  "int_type ne = \<lparr>nt_zero = 0, nt_int = (\<lambda>i. i), nt_float = f32_to_int ne, nt_bool = bool_num,
     nt_string = (\<lambda>s. case parse_relax_int s of Some i \<Rightarrow> i | None \<Rightarrow> 0)\<rparr>"

definition float_type :: "num_env \<Rightarrow> f32 number_type" where
  "float_type ne = \<lparr>nt_zero = Fin 0, nt_int = int_to_f32, nt_float = (\<lambda>f. f), nt_bool = (\<lambda>b. Fin (of_int (bool_num b))),
     nt_string = (\<lambda>s. case parse_float ne s of Some f \<Rightarrow> f | None \<Rightarrow> Fin 0)\<rparr>"

definition bool_type :: "bool number_type" where
  "bool_type = \<lparr>nt_zero = False, nt_int = (\<lambda>i. i \<noteq> 0), nt_float = (\<lambda>f. f \<noteq> Fin 0), nt_bool = (\<lambda>b. b),
     nt_string = (\<lambda>s. (s \<noteq> [] \<and> hd s \<in> {CHR ''T'', CHR ''t'', CHR ''Y'', CHR ''y''}) \<or> s = ''1'')\<rparr>"

section \<open>Text\<close>

fun comma_separated :: "string list \<Rightarrow> string" where
  "comma_separated [] = []"
| "comma_separated [s] = s"
| "comma_separated (s # ss) = s @ '', '' @ comma_separated ss"

definition quote :: char where
  "quote = CHR 0x22"

definition show_vec :: "(f32 \<Rightarrow> string) \<Rightarrow> f32 list \<Rightarrow> string" where
  "show_vec sh cs = ''['' @ comma_separated (List.map sh cs) @ '']''"

fun convert_string :: "num_env \<Rightarrow> value_t \<Rightarrow> string" where
  "convert_string ne Null = []"
| "convert_string ne Impulse = ''impulse''"
| "convert_string ne (Int32 i) = to_string i"
| "convert_string ne (Float f) = show_float ne f"
| "convert_string ne (Bool b) = (if b then ''true'' else ''false'')"
| "convert_string ne (String s) = s"
| "convert_string ne (Vec2f a b) = show_vec (show_float ne) [a, b]"
| "convert_string ne (Vec3f a b c) = show_vec (show_float ne) [a, b, c]"
| "convert_string ne (Vec4f a b c d) = show_vec (show_float ne) [a, b, c, d]"
| "convert_string ne (VList xs) = ''['' @ comma_separated (List.map (convert_string ne) xs) @ '']''"
| "convert_string ne (VMap m) =
     ''{'' @ comma_separated (List.map (\<lambda>kv. [quote] @ fst kv @ [quote] @ '': '' @ convert_string ne (snd kv)) m) @ ''}''"

text \<open>\<open>value_to_pretty_string\<close>, which writes the type before the value.\<close>

definition escape_quotes :: "string \<Rightarrow> string" where
  "escape_quotes s = concat (List.map (\<lambda>c. if c = quote then [CHR 0x5C, quote] else [c]) s)"

fun pretty :: "num_env \<Rightarrow> value_t \<Rightarrow> string" where
  "pretty ne Null = ''invalid''"
| "pretty ne Impulse = ''impulse''"
| "pretty ne (Int32 i) = ''int: '' @ to_string i"
| "pretty ne (Float f) = ''float: '' @ show_float2 ne f"
| "pretty ne (Bool b) = ''bool: '' @ (if b then ''true'' else ''false'')"
| "pretty ne (String s) = ''string: '' @ [quote] @ escape_quotes s @ [quote]"
| "pretty ne (Vec2f a b) = ''vec2f: '' @ show_vec (show_float2 ne) [a, b]"
| "pretty ne (Vec3f a b c) = ''vec3f: '' @ show_vec (show_float2 ne) [a, b, c]"
| "pretty ne (Vec4f a b c d) = ''vec4f: '' @ show_vec (show_float2 ne) [a, b, c, d]"
| "pretty ne (VList xs) = ''list: ['' @ comma_separated (List.map (pretty ne) xs) @ '']''"
| "pretty ne (VMap m) =
     ''map: {'' @ comma_separated (List.map (\<lambda>kv. [quote] @ fst kv @ [quote] @ '': '' @ pretty ne (snd kv)) m) @ ''}''"

section \<open>Lists, maps and vectors\<close>

fun convert_list :: "value_t \<Rightarrow> value_t list" where
  "convert_list Null = []"
| "convert_list (VList xs) = xs"
| "convert_list v = (case components v of Some cs \<Rightarrow> List.map Float cs | None \<Rightarrow> [v])"

text \<open>Assignment through \<open>value_map_type::operator[]\<close>.\<close>

fun map_assign :: "string \<Rightarrow> value_t \<Rightarrow> (string \<times> value_t) list \<Rightarrow> (string \<times> value_t) list" where
  "map_assign k v [] = [(k, v)]"
| "map_assign k v (kv # m) = (if fst kv = k then (k, v) # m else kv # map_assign k v m)"

definition numbered :: "value_t list \<Rightarrow> (string \<times> value_t) list" where
  "numbered xs = fold (\<lambda>(i, x). map_assign (to_string (int i)) x) (enumerate 0 xs) []"

fun convert_map :: "value_t \<Rightarrow> (string \<times> value_t) list" where
  "convert_map Null = []"
| "convert_map (VMap m) = m"
| "convert_map (VList xs) = numbered xs"
| "convert_map v = (case components v of Some cs \<Rightarrow> numbered (List.map Float cs) | None \<Rightarrow> [(''0'', v)])"

text \<open>The vector that is the current one where it has no component to take; its length is that of \<open>cur\<close>.\<close>

fun convert_vec :: "num_env \<Rightarrow> f32 list \<Rightarrow> value_t \<Rightarrow> f32 list" where
  "convert_vec ne cur (Float f) = replicate (length cur) f"
| "convert_vec ne cur (Int32 i) = replicate (length cur) (int_to_f32 i)"
| "convert_vec ne cur (Bool b) = replicate (length cur) (Fin (of_int (bool_num b)))"
| "convert_vec ne cur (VList xs) =
     (let cs = take (length cur) (List.map (convert_num (float_type ne)) xs)
      in cs @ replicate (length cur - length cs) (Fin 0))"
| "convert_vec ne cur v =
     (case components v of
        Some cs \<Rightarrow> take (length cur) cs @ drop (length cs) cur
      | None \<Rightarrow> replicate (length cur) (Fin 0))"

section \<open>Conversion\<close>

definition zeros :: "nat \<Rightarrow> f32 list" where
  "zeros n = replicate n (Fin 0)"

fun convert_to :: "num_env \<Rightarrow> value_t \<Rightarrow> val_type \<Rightarrow> value_t" where
  "convert_to ne v NO_TYPE = Null"
| "convert_to ne v IMPULSE = Impulse"
| "convert_to ne v INT32 = Int32 (convert_num (int_type ne) v)"
| "convert_to ne v FLOAT = Float (convert_num (float_type ne) v)"
| "convert_to ne v BOOL = Bool (convert_num bool_type v)"
| "convert_to ne v STRING = String (convert_string ne v)"
| "convert_to ne v LIST = VList (convert_list v)"
| "convert_to ne v MAP = VMap (convert_map v)"
| "convert_to ne v VEC2F = make_vec (convert_vec ne (zeros 2) v)"
| "convert_to ne v VEC3F = make_vec (convert_vec ne (zeros 3) v)"
| "convert_to ne v VEC4F = make_vec (convert_vec ne (zeros 4) v)"

text \<open>Conversion in place keeps the value when there is no type to convert to.\<close>

definition convert_inplace :: "num_env \<Rightarrow> value_t \<Rightarrow> val_type \<Rightarrow> value_t" where
  "convert_inplace ne v t = (if t \<noteq> NO_TYPE then convert_to ne v t else v)"

text \<open>The other overload converts to the type of a current value.\<close>

definition convert_like :: "num_env \<Rightarrow> value_t \<Rightarrow> value_t \<Rightarrow> value_t" where
  "convert_like ne v cur =
     (case get_type cur of
        NO_TYPE \<Rightarrow> Null
      | IMPULSE \<Rightarrow> cur
      | t \<Rightarrow> (case components cur of Some cs \<Rightarrow> make_vec (convert_vec ne cs v) | None \<Rightarrow> convert_to ne v t))"

section \<open>Every conversion has the type asked for\<close>

lemma length_convert_vec [simp]: "length (convert_vec ne cur v) = length cur"
  by (cases v) (auto simp: Let_def)

lemma length_zeros [simp]: "length (zeros n) = n"
  by (simp add: zeros_def)

lemma make_vec_type:
  "length cs = 2 \<Longrightarrow> get_type (make_vec cs) = VEC2F"
  "length cs = 3 \<Longrightarrow> get_type (make_vec cs) = VEC3F"
  "length cs = 4 \<Longrightarrow> get_type (make_vec cs) = VEC4F"
  by (auto simp: numeral_eq_Suc length_Suc_conv)

lemma components_make_vec:
  "2 \<le> length cs \<Longrightarrow> length cs \<le> 4 \<Longrightarrow> components (make_vec cs) = Some cs"
  by (auto simp: numeral_eq_Suc le_Suc_eq length_Suc_conv)

lemma make_vec_components: "components v = Some cs \<Longrightarrow> make_vec cs = v \<and> 2 \<le> length cs \<and> length cs \<le> 4"
  by (cases v) auto

lemma components_type:
  "components v = Some cs \<longleftrightarrow>
     (get_type v = VEC2F \<and> length cs = 2 \<or> get_type v = VEC3F \<and> length cs = 3 \<or> get_type v = VEC4F \<and> length cs = 4) \<and> make_vec cs = v"
  by (cases v) (auto simp: numeral_eq_Suc length_Suc_conv)

lemma get_type_convert_to [simp]: "get_type (convert_to ne v t) = t"
  by (cases t) (simp_all add: make_vec_type)

lemma get_type_convert_like: "get_type (convert_like ne v cur) = get_type cur"
  by (cases cur) (simp_all add: convert_like_def make_vec_type)

text \<open>The numbered map has the keys 0, 1, 2 ... in this order.\<close>

lemma map_assign_new: "k \<notin> fst ` set m \<Longrightarrow> map_assign k v m = m @ [(k, v)]"
  by (induction m) auto

lemma to_string_inj: "0 \<le> i \<Longrightarrow> 0 \<le> j \<Longrightarrow> to_string i = to_string j \<Longrightarrow> i = j"
  by (metis digits_value_nat_str linorder_not_less to_string_def)

lemma numbered_from:
  assumes "fst ` set m \<subseteq> (\<lambda>i. to_string (int i)) ` {..<n}"
  shows "fold (\<lambda>(i, x). map_assign (to_string (int i)) x) (enumerate n xs) m = m @ List.map (\<lambda>(i, x). (to_string (int i), x)) (enumerate n xs)"
  using assms
proof (induction xs arbitrary: m n)
  case (Cons x xs)
  have "to_string (int n) \<noteq> to_string (int i)" if "i < n" for i
    using to_string_inj[of "int n" "int i"] that by auto
  then have "to_string (int n) \<notin> fst ` set m" using Cons.prems by blast
  moreover have "fst ` set (m @ [(to_string (int n), x)]) \<subseteq> (\<lambda>i. to_string (int i)) ` {..<Suc n}"
    using Cons.prems by (auto simp: lessThan_Suc)
  ultimately show ?case using Cons.IH[of "m @ [(to_string (int n), x)]" "Suc n"] by (simp add: map_assign_new)
qed simp

lemma numbered_eq: "numbered xs = List.map (\<lambda>(i, x). (to_string (int i), x)) (enumerate 0 xs)"
  using numbered_from[of "[]" 0] by (simp add: numbered_def)

section \<open>What conversions keep\<close>

lemma convert_num_own:
  "convert_num (int_type ne) (Int32 i) = i" "convert_num (float_type ne) (Float f) = f" "convert_num bool_type (Bool b) = b"
  "nt_int (int_type ne) i = i" "nt_float (float_type ne) f = f" "nt_bool bool_type b = b"
  by (simp_all add: int_type_def float_type_def bool_type_def)

lemma convert_to_own: "convert_to ne v (get_type v) = v"
  by (cases v) (simp_all add: convert_num_own zeros_def)

lemma convert_like_own: "get_type v = get_type cur \<Longrightarrow> convert_like ne v cur = v"
  by (cases cur; cases v) (auto simp: convert_like_def convert_num_own)

lemma parse_relax_to_string: "in32 i \<Longrightarrow> parse_relax_int (to_string i) = Some i"
proof -
  have tw: "takeWhile is_digit (nat_str n) = nat_str n" if "0 \<le> n" for n
    using nat_str_digits[OF that] by (simp add: takeWhile_eq_all_conv list_all_iff)
  assume "in32 i"
  then show ?thesis
    using nat_str_digits[of i] nat_str_digits[of "- i"] hd_nat_str[of i]
    by (cases "i < 0") (simp_all add: parse_relax_int_def to_string_def digits_value_nat_str tw Let_def)
qed

lemma int_to_f32_exact: "\<bar>i\<bar> \<le> 2 ^ 24 \<Longrightarrow> int_to_f32 i = Fin (of_int i)"
proof -
  assume a: "\<bar>i\<bar> \<le> 2 ^ 24"
  have "\<bar>i\<bar> < 2 ^ 24 \<or> \<bar>i\<bar> = 2 ^ 24" using a by linarith
  then show ?thesis
  proof
    assume "\<bar>i\<bar> < 2 ^ 24"
    then have "scale_to_24 \<bar>i\<bar> = 0" by (subst scale_to_24.simps) simp
    then show ?thesis by (simp add: int_to_f32_def round_even_def Let_def)
  next
    assume e: "\<bar>i\<bar> = 2 ^ 24"
    have "scale_to_24 16777216 = 1" by (simp add: scale_to_24.simps)
    then have "round_even \<bar>i\<bar> (2 ^ scale_to_24 \<bar>i\<bar>) * 2 ^ scale_to_24 \<bar>i\<bar> = \<bar>i\<bar>" by (simp add: e round_even_def)
    then show ?thesis unfolding int_to_f32_def Let_def by auto
  qed
qed

lemma rat_trunc32_int [simp]: "rat_trunc32 (of_int i) = i"
  by (simp add: rat_trunc32_def)

lemma f32_to_int_exact: "in32 i \<Longrightarrow> f32_to_int ne (Fin (of_int i)) = i"
  by simp

text \<open>A number survives the way through a list, a map or, where every digit fits, another number.\<close>

lemma numeric_through_containers:
  assumes "is_numeric v"
  shows "convert_to ne (convert_to ne v LIST) (get_type v) = v" "convert_to ne (convert_to ne v MAP) (get_type v) = v"
  using assms by (cases v; simp add: is_numeric_def convert_num_own)+

lemma int_through_string: "in32 i \<Longrightarrow> convert_to ne (convert_to ne (Int32 i) STRING) INT32 = Int32 i"
  by (simp add: int_type_def parse_relax_to_string)

lemma int_through_float: "\<bar>i\<bar> \<le> 2 ^ 24 \<Longrightarrow> convert_to ne (convert_to ne (Int32 i) FLOAT) INT32 = Int32 i"
  by (auto simp: int_type_def float_type_def int_to_f32_exact)

lemma bool_through: "t \<notin> {NO_TYPE, IMPULSE} \<Longrightarrow> convert_to ne (convert_to ne (Bool b) t) BOOL = Bool b"
  by (cases t; cases b) (simp_all add: int_type_def float_type_def bool_type_def bool_num_def zeros_def numeral_eq_Suc)

lemma convert_vec_list [simp]: "convert_vec ne (zeros (length cs)) (VList (List.map Float cs)) = cs"
  by (simp add: comp_def convert_num_own)

lemma vec_through_list: "is_array v \<Longrightarrow> get_type v \<noteq> MAP \<Longrightarrow> convert_to ne (convert_to ne v LIST) (get_type v) = v"
proof (cases "components v")
  case (Some cs)
  then show ?thesis by (cases v) (auto simp: zeros_def numeral_eq_Suc convert_num_own)
next
  case None
  assume "is_array v" "get_type v \<noteq> MAP"
  then show ?thesis using None by (cases v) (simp_all add: is_array_def)
qed

definition vec_size :: "val_type \<Rightarrow> nat" where
  "vec_size t = (case t of VEC2F \<Rightarrow> 2 | VEC3F \<Rightarrow> 3 | VEC4F \<Rightarrow> 4 | _ \<Rightarrow> 0)"

lemma vec_through_longer:
  assumes "components v = Some cs" and "length cs \<le> vec_size t"
  shows "convert_to ne (convert_to ne v t) (get_type v) = v"
  using assms by (cases v; cases t) (auto simp: vec_size_def zeros_def numeral_eq_Suc)

text \<open>A conversion has the type that is asked for, and a value of that type already is returned as it is, by both overloads.\<close>

theorem convert_has_type:
  "get_type (convert_to ne v t) = t \<and> get_type (convert_like ne v cur) = get_type cur
   \<and> (get_type v = t \<longrightarrow> convert_to ne v t = v) \<and> (get_type v = get_type cur \<longrightarrow> convert_like ne v cur = v)"
  using convert_to_own convert_like_own by (auto simp: get_type_convert_like)

text \<open>A parameter for examples: exact sums, floats written and read as their whole part.\<close>

definition demo_num :: num_env where
  "demo_num = \<lparr>to_float = Fin, to_double = Fin, cast_int = (\<lambda>_. 0), parse_float = (\<lambda>s. map_option (\<lambda>i. Fin (of_int i)) (parse_relax_int s)),
     show_float = (\<lambda>f. case f of Fin a \<Rightarrow> to_string (rat_trunc32 a) | _ \<Rightarrow> ''inf''), show_float2 = (\<lambda>_. ''0.00'')\<rparr>"

lemma convert_has_type_witness:
  "convert_to demo_num (Int32 7) INT32 = Int32 7 \<and> convert_like demo_num (Vec2f (Fin 1) (Fin 2)) (Vec2f (Fin 0) (Fin 0)) = Vec2f (Fin 1) (Fin 2)"
  using convert_has_type[of demo_num "Int32 7" INT32 "Int32 0"]
    convert_has_type[of demo_num "Vec2f (Fin 1) (Fin 2)" VEC2F "Vec2f (Fin 0) (Fin 0)"] by simp

text \<open>C38: Conversions that lose nothing can be undone: an \<open>int32_t\<close> written as a string is read back, and one of at most 24 bits
  comes back from a \<open>float\<close>; a boolean comes back from every type but an impulse; a number comes back from a list and from a
  map, a vector or a list from a list, and a vector from a vector that is not shorter.\<close>

theorem conversions_round_trip:
  "(in32 i \<longrightarrow> convert_to ne (convert_to ne (Int32 i) STRING) INT32 = Int32 i)
   \<and> (\<bar>i\<bar> \<le> 2 ^ 24 \<longrightarrow> convert_to ne (convert_to ne (Int32 i) FLOAT) INT32 = Int32 i)
   \<and> (t \<notin> {NO_TYPE, IMPULSE} \<longrightarrow> convert_to ne (convert_to ne (Bool b) t) BOOL = Bool b)
   \<and> (is_numeric v \<or> is_array v \<and> get_type v \<noteq> MAP \<longrightarrow> convert_to ne (convert_to ne v LIST) (get_type v) = v)
   \<and> (is_numeric v \<longrightarrow> convert_to ne (convert_to ne v MAP) (get_type v) = v)
   \<and> (components v = Some cs \<and> length cs \<le> vec_size t \<longrightarrow> convert_to ne (convert_to ne v t) (get_type v) = v)"
  using int_through_string[of i ne] int_through_float[of i ne] bool_through[of t ne b] numeric_through_containers[of v ne]
    vec_through_list[of v ne] vec_through_longer[of v cs t ne]
  by blast

lemma conversions_round_trip_witness:
  "convert_to demo_num (convert_to demo_num (Int32 (- 42)) STRING) INT32 = Int32 (- 42)
   \<and> convert_to demo_num (convert_to demo_num (Vec2f (Fin 1) (Fin 2)) VEC4F) VEC2F = Vec2f (Fin 1) (Fin 2)"
  using conversions_round_trip[of "- 42" demo_num VEC4F True "Vec2f (Fin 1) (Fin 2)" "[Fin 1, Fin 2]"]
  by (simp add: vec_size_def)

text \<open>An integer of more than 24 bits does not come back from a \<open>float\<close>, which has 24 bits of precision.\<close>

lemma large_int_through_float:
  "convert_to demo_num (convert_to demo_num (Int32 16777217) FLOAT) INT32 = Int32 16777216"
  by code_simp

end
