(* ===== verification/Domains.thy ===== *)
theory Domains
  imports Conversion "HOL-Library.Signed_Division"
begin

text \<open>
  Domains of parameters (network/domain): the bounds and the sets of values a parameter may take, how a value is
  brought into its domain according to the bounding mode, and how domains are made and changed. The rounding of
  floats is that of \<open>num_env\<close> (Conversion); \<open>std::fmod\<close> and \<open>std::remainder\<close> are exact. Differences of integers
  that overflow wrap around. A flat set is the list of its elements, in the order of the comparison; of two that
  are equivalent the first is kept. A visitor applied to a null value among others is the error \<open>Bad_variant\<close>.
\<close>

section \<open>Arithmetic\<close>

fun f32_add :: "(rat \<Rightarrow> f32) \<Rightarrow> f32 \<Rightarrow> f32 \<Rightarrow> f32" where
  "f32_add r Nan _ = Nan"
| "f32_add r _ Nan = Nan"
| "f32_add r (Infty a) (Infty b) = (if a = b then Infty a else Nan)"
| "f32_add r (Infty a) (Fin _) = Infty a"
| "f32_add r (Fin _) (Infty b) = Infty b"
| "f32_add r (Fin a) (Fin b) = r (a + b)"

fun f32_neg :: "f32 \<Rightarrow> f32" where
  "f32_neg Nan = Nan"
| "f32_neg (Infty a) = Infty (\<not> a)"
| "f32_neg (Fin a) = Fin (- a)"

definition f32_sub :: "(rat \<Rightarrow> f32) \<Rightarrow> f32 \<Rightarrow> f32 \<Rightarrow> f32" where
  "f32_sub r a b = f32_add r a (f32_neg b)"

fun f32_abs :: "f32 \<Rightarrow> f32" where
  "f32_abs Nan = Nan"
| "f32_abs (Infty _) = Infty False"
| "f32_abs (Fin a) = Fin \<bar>a\<bar>"

definition rat_round_even :: "rat \<Rightarrow> int" where
  "rat_round_even x =
     (let q = \<lfloor>x\<rfloor>; f = x - of_int q
      in if f < 1 / 2 then q else if f > 1 / 2 then q + 1 else if even q then q else q + 1)"

fun f32_fmod :: "f32 \<Rightarrow> f32 \<Rightarrow> f32" where
  "f32_fmod (Fin a) (Fin b) = (if b = 0 then Nan else Fin (a - b * of_int (rat_trunc32 (a / b))))"
| "f32_fmod (Fin a) (Infty _) = Fin a"
| "f32_fmod _ _ = Nan"

fun f32_remainder :: "f32 \<Rightarrow> f32 \<Rightarrow> f32" where
  "f32_remainder (Fin a) (Fin b) = (if b = 0 then Nan else Fin (a - b * of_int (rat_round_even (a / b))))"
| "f32_remainder (Fin a) (Infty _) = Fin a"
| "f32_remainder _ _ = Nan"

fun f32_double :: "f32 \<Rightarrow> f32" where
  "f32_double Nan = Nan"
| "f32_double (Infty a) = Infty a"
| "f32_double (Fin a) = Fin (2 * a)"

text \<open>Rounding a \<open>double\<close> to a \<open>float\<close>.\<close>

fun narrow :: "num_env \<Rightarrow> f32 \<Rightarrow> f32" where
  "narrow ne (Fin a) = to_float ne a"
| "narrow ne x = x"

section \<open>Bounding\<close>

datatype bounding_mode = FREE | CLIP | WRAP | FOLD | CLAMP_LOW | CLAMP_HIGH

definition int_max :: "int \<Rightarrow> int \<Rightarrow> int" where
  "int_max a b = (if a < b then b else a)"

definition int_min :: "int \<Rightarrow> int \<Rightarrow> int" where
  "int_min a b = (if a > b then b else a)"

definition f32_max :: "f32 \<Rightarrow> f32 \<Rightarrow> f32" where
  "f32_max a b = (if f32_lt a b then b else a)"

definition f32_min :: "f32 \<Rightarrow> f32 \<Rightarrow> f32" where
  "f32_min a b = (if f32_lt b a then b else a)"

definition int_clamp :: "int \<Rightarrow> int \<Rightarrow> int \<Rightarrow> int" where
  "int_clamp d mn mx = int_max (int_min d mx) mn"

definition f32_clamp :: "f32 \<Rightarrow> f32 \<Rightarrow> f32 \<Rightarrow> f32" where
  "f32_clamp d mn mx = f32_max (f32_min d mx) mn"

text \<open>On integers the differences are of type \<open>int32_t\<close> and the rest is computed in \<open>double\<close>, exactly.\<close>

definition int_wrap :: "int \<Rightarrow> int \<Rightarrow> int \<Rightarrow> int" where
  "int_wrap v low high =
     (if (v \<ge> low \<and> v < high) \<or> low = high then v
      else if v \<ge> low then s32 (low + s32 (v - low) smod \<bar>s32 (low - high)\<bar>)
      else s32 (high - s32 (low - v) smod \<bar>s32 (low - high)\<bar>))"

definition int_remainder :: "int \<Rightarrow> int \<Rightarrow> int" where
  "int_remainder x y = x - y * round_even x y"

definition int_fold :: "int \<Rightarrow> int \<Rightarrow> int \<Rightarrow> int" where
  "int_fold v low high =
     (if (v \<ge> low \<and> v \<le> high) \<or> low = high then v
      else s32 (low + \<bar>int_remainder (s32 (v - low)) (2 * \<bar>s32 (low - high)\<bar>)\<bar>))"

definition f32_ge :: "f32 \<Rightarrow> f32 \<Rightarrow> bool" where
  "f32_ge a b \<longleftrightarrow> f32_lt b a \<or> f32_eq a b"

definition f32_wrap :: "num_env \<Rightarrow> f32 \<Rightarrow> f32 \<Rightarrow> f32 \<Rightarrow> f32" where
  "f32_wrap ne v low high =
     (let r = to_float ne
      in if (f32_ge v low \<and> f32_lt v high) \<or> f32_eq low high then v
         else if f32_ge v low then f32_add r low (f32_fmod (f32_sub r v low) (f32_abs (f32_sub r low high)))
         else f32_sub r high (f32_fmod (f32_sub r low v) (f32_abs (f32_sub r low high))))"

definition f32_fold :: "num_env \<Rightarrow> f32 \<Rightarrow> f32 \<Rightarrow> f32 \<Rightarrow> f32" where
  "f32_fold ne v low high =
     (let r = to_float ne
      in if (f32_ge v low \<and> f32_ge high v) \<or> f32_eq low high then v
         else narrow ne (f32_add (to_double ne) low
                (f32_abs (f32_remainder (f32_sub r v low) (f32_double (f32_abs (f32_sub r low high)))))))"

text \<open>The five functions for one type of values, and what leaves a value as it is.\<close>

record ('v, 'r) bounds =
  b_clamp :: "'v \<Rightarrow> 'v \<Rightarrow> 'v \<Rightarrow> 'r"
  b_wrap :: "'v \<Rightarrow> 'v \<Rightarrow> 'v \<Rightarrow> 'r"
  b_fold :: "'v \<Rightarrow> 'v \<Rightarrow> 'v \<Rightarrow> 'r"
  b_max :: "'v \<Rightarrow> 'v \<Rightarrow> 'r"
  b_min :: "'v \<Rightarrow> 'v \<Rightarrow> 'r"
  b_keep :: "'v \<Rightarrow> 'r"

definition int_bounds :: "(int, int) bounds" where
  "int_bounds = \<lparr>b_clamp = int_clamp, b_wrap = int_wrap, b_fold = int_fold, b_max = int_max, b_min = int_min, b_keep = (\<lambda>v. v)\<rparr>"

definition f32_bounds :: "num_env \<Rightarrow> (f32, f32) bounds" where
  "f32_bounds ne = \<lparr>b_clamp = f32_clamp, b_wrap = f32_wrap ne, b_fold = f32_fold ne, b_max = f32_max, b_min = f32_min, b_keep = (\<lambda>v. v)\<rparr>"

definition bound_with :: "('v, 'r) bounds \<Rightarrow> bounding_mode \<Rightarrow> 'v option \<Rightarrow> 'v option \<Rightarrow> 'v \<Rightarrow> 'r" where
  "bound_with bs b mn mx v =
     (case (mn, mx) of
        (Some low, Some high) \<Rightarrow>
          (case b of CLIP \<Rightarrow> b_clamp bs v low high | WRAP \<Rightarrow> b_wrap bs v low high | FOLD \<Rightarrow> b_fold bs v low high
           | CLAMP_LOW \<Rightarrow> b_max bs v low | CLAMP_HIGH \<Rightarrow> b_min bs v high | FREE \<Rightarrow> b_keep bs v)
      | (Some low, None) \<Rightarrow> (if b = CLIP \<or> b = CLAMP_LOW then b_max bs v low else b_keep bs v)
      | (None, Some high) \<Rightarrow> (if b = CLIP \<or> b = CLAMP_HIGH then b_min bs v high else b_keep bs v)
      | (None, None) \<Rightarrow> b_keep bs v)"

text \<open>A boolean is bounded as the number 0 or 1.\<close>

definition bool_bound :: "bounding_mode \<Rightarrow> bool \<Rightarrow> bool" where
  "bool_bound b v = (bound_with int_bounds b (Some 0) (Some 1) (bool_num v) \<noteq> 0)"

section \<open>Values\<close>

datatype domain_error = Bad_variant

type_synonym 'a checked = "domain_error + 'a"

text \<open>The visitor of clamp, wrap and fold: \<open>ci\<close> and \<open>cf\<close> are the function on integers and on floats.\<close>

fun apply_ternary :: "(int \<Rightarrow> int \<Rightarrow> int \<Rightarrow> int) \<Rightarrow> (f32 \<Rightarrow> f32 \<Rightarrow> f32 \<Rightarrow> f32) \<Rightarrow> value_t \<Rightarrow> value_t \<Rightarrow> value_t \<Rightarrow> value_t checked"
  and apply_ternary_all ::
    "(int \<Rightarrow> int \<Rightarrow> int \<Rightarrow> int) \<Rightarrow> (f32 \<Rightarrow> f32 \<Rightarrow> f32 \<Rightarrow> f32) \<Rightarrow> value_t list \<Rightarrow> value_t list \<Rightarrow> value_t list \<Rightarrow> value_t list checked" where
  "apply_ternary ci cf v mn mx =
     (if v = Null \<or> mn = Null \<or> mx = Null then Inl Bad_variant
      else
        (case (v, mn, mx) of
           (Int32 a, Int32 l, Int32 h) \<Rightarrow> Inr (Int32 (ci a l h))
         | (Float a, Float l, Float h) \<Rightarrow> Inr (Float (cf a l h))
         | (Bool a, Bool l, Bool h) \<Rightarrow> Inr (Bool (ci (bool_num a) (bool_num l) (bool_num h) \<noteq> 0))
         | (VList as, VList ls, VList hs) \<Rightarrow>
             (if length as = length ls \<and> length as = length hs
              then bind_sum (apply_ternary_all ci cf as ls hs) (\<lambda>xs. Inr (VList xs)) else Inr (VList []))
         | (_, Float l, Float h) \<Rightarrow>
             Inr (case components v of Some as \<Rightarrow> make_vec (map (\<lambda>a. cf a l h) as) | None \<Rightarrow> v)
         | _ \<Rightarrow>
             Inr (case (components v, components mn, components mx) of
                    (Some as, Some ls, Some hs) \<Rightarrow>
                      if length as = length ls \<and> length as = length hs
                      then make_vec (map (\<lambda>(a, l, h). cf a l h) (zip as (zip ls hs))) else v
                  | _ \<Rightarrow> v)))"
| "apply_ternary_all ci cf (a # as) (l # ls) (h # hs) =
     bind_sum (apply_ternary ci cf a l h) (\<lambda>x. bind_sum (apply_ternary_all ci cf as ls hs) (\<lambda>xs. Inr (x # xs)))"
| "apply_ternary_all ci cf _ _ _ = Inr []"

declare apply_ternary.simps [simp del]

fun apply_binary :: "(int \<Rightarrow> int \<Rightarrow> int) \<Rightarrow> (f32 \<Rightarrow> f32 \<Rightarrow> f32) \<Rightarrow> value_t \<Rightarrow> value_t \<Rightarrow> value_t checked"
  and apply_binary_all :: "(int \<Rightarrow> int \<Rightarrow> int) \<Rightarrow> (f32 \<Rightarrow> f32 \<Rightarrow> f32) \<Rightarrow> value_t list \<Rightarrow> value_t list \<Rightarrow> value_t list checked" where
  "apply_binary ci cf v m =
     (if v = Null \<or> m = Null then Inl Bad_variant
      else
        (case (v, m) of
           (Int32 a, Int32 l) \<Rightarrow> Inr (Int32 (ci a l))
         | (Float a, Float l) \<Rightarrow> Inr (Float (cf a l))
         | (Bool a, Bool l) \<Rightarrow> Inr (Bool (ci (bool_num a) (bool_num l) \<noteq> 0))
         | (VList as, VList ls) \<Rightarrow>
             (if length as = length ls then bind_sum (apply_binary_all ci cf as ls) (\<lambda>xs. Inr (VList xs)) else Inr (VList []))
         | (_, Float l) \<Rightarrow> Inr (case components v of Some as \<Rightarrow> make_vec (map (\<lambda>a. cf a l) as) | None \<Rightarrow> v)
         | _ \<Rightarrow>
             Inr (case (components v, components m) of
                    (Some as, Some ls) \<Rightarrow> if length as = length ls then make_vec (map (\<lambda>(a, l). cf a l) (zip as ls)) else v
                  | _ \<Rightarrow> v)))"
| "apply_binary_all ci cf (a # as) (l # ls) =
     bind_sum (apply_binary ci cf a l) (\<lambda>x. bind_sum (apply_binary_all ci cf as ls) (\<lambda>xs. Inr (x # xs)))"
| "apply_binary_all ci cf _ _ = Inr []"

declare apply_binary.simps [simp del]

text \<open>\<open>ossia::clamp\<close>, \<open>wrap\<close>, \<open>fold\<close>, \<open>clamp_min\<close> and \<open>clamp_max\<close> on values; a bound that is null is none.\<close>

definition value_bounds :: "num_env \<Rightarrow> (value_t, value_t checked) bounds" where
  "value_bounds ne =
     (let ternary = (\<lambda>f g v low high. if valid v \<and> valid low \<and> valid high then apply_ternary f g v low high else Inr v);
          binary = (\<lambda>f g v m. if valid v \<and> valid m then apply_binary f g v m else Inr v)
      in \<lparr>b_clamp = ternary int_clamp f32_clamp, b_wrap = ternary int_wrap (f32_wrap ne), b_fold = ternary int_fold (f32_fold ne),
          b_max = binary int_max f32_max, b_min = binary int_min f32_min, b_keep = Inr\<rparr>)"

fun map_checked :: "('a \<Rightarrow> 'b checked) \<Rightarrow> 'a list \<Rightarrow> 'b list checked" where
  "map_checked f [] = Inr []"
| "map_checked f (x # xs) = bind_sum (f x) (\<lambda>y. bind_sum (map_checked f xs) (\<lambda>ys. Inr (y # ys)))"

section \<open>Domains\<close>

record 'v range_domain =
  dom_min :: "'v option"
  dom_max :: "'v option"
  dom_values :: "'v list"

record vector_domain =
  vd_min :: "value_t list"
  vd_max :: "value_t list"
  vd_values :: "value_t list list"

text \<open>\<open>vecf_domain<N>\<close>: the three arrays have the length \<open>N\<close>.\<close>

record vecf_domain =
  vf_min :: "f32 option list"
  vf_max :: "f32 option list"
  vf_values :: "f32 list list"

datatype domain =
    No_domain
  | Impulse_domain
  | Bool_domain
  | Int_domain "int range_domain"
  | Float_domain "f32 range_domain"
  | String_domain "string list"
  | Vector_domain vector_domain
  | Vecf_domain vecf_domain
  | Generic_domain "value_t range_domain"

definition vecf_size :: "vecf_domain \<Rightarrow> nat" where
  "vecf_size d = length (vf_min d)"

definition empty_range :: "'v range_domain" where
  "empty_range = \<lparr>dom_min = None, dom_max = None, dom_values = []\<rparr>"

definition empty_vector :: vector_domain where
  "empty_vector = \<lparr>vd_min = [], vd_max = [], vd_values = []\<rparr>"

definition empty_vecf :: "nat \<Rightarrow> vecf_domain" where
  "empty_vecf n = \<lparr>vf_min = replicate n None, vf_max = replicate n None, vf_values = replicate n []\<rparr>"

text \<open>Flat sets: membership and insertion by the order.\<close>

definition set_has :: "('a \<Rightarrow> 'a \<Rightarrow> bool) \<Rightarrow> 'a \<Rightarrow> 'a list \<Rightarrow> bool" where
  "set_has lt k xs = list_ex (\<lambda>x. \<not> lt x k \<and> \<not> lt k x) xs"

definition set_insert :: "('a \<Rightarrow> 'a \<Rightarrow> bool) \<Rightarrow> 'a \<Rightarrow> 'a list \<Rightarrow> 'a list" where
  "set_insert lt k xs = (if set_has lt k xs then xs else takeWhile (\<lambda>x. lt x k) xs @ k # dropWhile (\<lambda>x. lt x k) xs)"

section \<open>Bringing a value into its domain\<close>

definition numeric_clamp ::
    "('v \<Rightarrow> value_t) \<Rightarrow> ('v \<Rightarrow> 'v \<Rightarrow> bool) \<Rightarrow> ('v, 'v) bounds \<Rightarrow> bounding_mode \<Rightarrow> 'v range_domain \<Rightarrow> 'v \<Rightarrow> value_t" where
  "numeric_clamp mk eq bs b d v =
     (if b = FREE then mk v
      else if dom_values d = [] then mk (bound_with bs b (dom_min d) (dom_max d) v)
      else (case List.find (\<lambda>x. eq x v) (dom_values d) of Some x \<Rightarrow> mk x | None \<Rightarrow> Null))"

definition numeric_clamp_vec :: "('v \<Rightarrow> f32) \<Rightarrow> num_env \<Rightarrow> bounding_mode \<Rightarrow> 'v range_domain \<Rightarrow> f32 list \<Rightarrow> value_t" where
  "numeric_clamp_vec flt ne b d cs =
     (if b = FREE then make_vec cs
      else if dom_values d = []
      then make_vec (List.map (bound_with (f32_bounds ne) b (map_option flt (dom_min d)) (map_option flt (dom_max d))) cs)
      else if list_all (\<lambda>c. list_ex (\<lambda>x. f32_eq (flt x) c) (dom_values d)) cs then make_vec cs else Null)"

definition bool_clamp_vec :: "bounding_mode \<Rightarrow> f32 list \<Rightarrow> value_t" where
  "bool_clamp_vec b cs =
     make_vec (if b = FREE then cs else List.map (\<lambda>c. Fin (of_int (bool_num (bool_bound b (c \<noteq> Fin 0))))) cs)"

definition value_set_clamp :: "bounding_mode \<Rightarrow> string list \<Rightarrow> string \<Rightarrow> value_t" where
  "value_set_clamp b vs s = (if b = FREE \<or> vs = [] then String s else if s \<in> set vs then String s else Null)"

definition list_clamp_at :: "num_env \<Rightarrow> bounding_mode \<Rightarrow> vector_domain \<Rightarrow> nat \<Rightarrow> value_t \<Rightarrow> value_t checked" where
  "list_clamp_at ne b d i v =
     (let bound = (\<lambda>xs. if i < length xs \<and> valid (xs ! i) then Some (xs ! i) else None)
      in if i < length (vd_values d) \<and> vd_values d ! i \<noteq> [] then Inr (if set_has value_lt v (vd_values d ! i) then v else Null)
         else bound_with (value_bounds ne) b (bound (vd_min d)) (bound (vd_max d)) v)"

definition list_clamp :: "num_env \<Rightarrow> bounding_mode \<Rightarrow> vector_domain \<Rightarrow> value_t list \<Rightarrow> value_t checked" where
  "list_clamp ne b d vs =
     (if b = FREE then Inr (VList vs)
      else bind_sum (map_checked (\<lambda>(i, v). list_clamp_at ne b d i v) (enumerate 0 vs)) (\<lambda>xs. Inr (VList xs)))"

text \<open>A component that is not in its set of values is left at zero.\<close>

definition vec_clamp :: "num_env \<Rightarrow> bounding_mode \<Rightarrow> vecf_domain \<Rightarrow> f32 list \<Rightarrow> value_t" where
  "vec_clamp ne b d cs =
     make_vec (if b = FREE then cs
       else List.map (\<lambda>(c, mn, mx, vs). if vs \<noteq> [] then (if set_has f32_lt c vs then c else Fin 0)
                                         else bound_with (f32_bounds ne) b mn mx c)
              (zip cs (zip (vf_min d) (zip (vf_max d) (vf_values d)))))"

definition generic_clamp :: "num_env \<Rightarrow> bounding_mode \<Rightarrow> value_t range_domain \<Rightarrow> value_t \<Rightarrow> value_t checked" where
  "generic_clamp ne b d v =
     (if b = FREE then Inr v
      else if dom_values d = [] then bound_with (value_bounds ne) b (dom_min d) (dom_max d) v
      else Inr (if list_ex (\<lambda>x. value_eq x v) (dom_values d) then v else Null))"

end
