(* ===== verification/DomainOps.thy ===== *)
theory DomainOps
  imports Domains
begin

text \<open>
  Operations on domains (network/domain/domain_base.cpp, detail/apply_domain.hpp, detail/min_max.hpp,
  detail/value_set_domain.hpp, domain_conversion.hpp, common/value_bounding.hpp): a value brought into a domain, the
  bounds and the sets of values read and written, domains made from values, and domains converted to another type.
\<close>

section \<open>Applying a domain\<close>

text \<open>\<open>list_func\<close>: the bounds of a list as those of a vector, with every value converted to a float.\<close>

definition first_n :: "nat \<Rightarrow> 'b \<Rightarrow> ('a \<Rightarrow> 'b) \<Rightarrow> 'a list \<Rightarrow> 'b list" where
  "first_n n z f xs = List.map f (take n xs) @ replicate (n - length xs) z"

definition list_func :: "num_env \<Rightarrow> nat \<Rightarrow> vector_domain \<Rightarrow> vecf_domain" where
  "list_func ne n d =
     (let num = convert_num (float_type ne)
      in \<lparr>vf_min = first_n n None (\<lambda>v. Some (num v)) (vd_min d), vf_max = first_n n None (\<lambda>v. Some (num v)) (vd_max d),
          vf_values = first_n n [] (\<lambda>vs. fold (\<lambda>v s. set_insert f32_lt (num v) s) vs []) (vd_values d)\<rparr>)"

text \<open>In a list, the elements that have the type of the domain are brought into it and the others are kept.\<close>

definition visit_each :: "val_type \<Rightarrow> (value_t \<Rightarrow> value_t) \<Rightarrow> value_t list \<Rightarrow> value_t" where
  "visit_each t f xs = VList (List.map (\<lambda>x. if get_type x = t then f x else x) xs)"

definition clamp_int :: "bounding_mode \<Rightarrow> int range_domain \<Rightarrow> int \<Rightarrow> value_t" where
  "clamp_int = numeric_clamp Int32 (=) int_bounds"

definition clamp_f32 :: "num_env \<Rightarrow> bounding_mode \<Rightarrow> f32 range_domain \<Rightarrow> f32 \<Rightarrow> value_t" where
  "clamp_f32 ne = numeric_clamp Float f32_eq (f32_bounds ne)"

fun apply_scalar :: "num_env \<Rightarrow> bounding_mode \<Rightarrow> domain \<Rightarrow> value_t \<Rightarrow> value_t" where
  "apply_scalar ne b Impulse_domain Impulse = Impulse"
| "apply_scalar ne b Bool_domain (Bool x) = Bool (bool_bound b x)"
| "apply_scalar ne b (Int_domain d) (Int32 i) = clamp_int b d i"
| "apply_scalar ne b (Int_domain d) (Float f) = convert_to ne (clamp_int b d (f32_to_int ne f)) FLOAT"
| "apply_scalar ne b (Float_domain d) (Float f) = clamp_f32 ne b d f"
| "apply_scalar ne b (Float_domain d) (Int32 i) = convert_to ne (clamp_f32 ne b d (int_to_f32 i)) INT32"
| "apply_scalar ne b (String_domain vs) (String s) = value_set_clamp b vs s"
| "apply_scalar ne b _ _ = Null"

fun apply_vec :: "num_env \<Rightarrow> bounding_mode \<Rightarrow> domain \<Rightarrow> f32 list \<Rightarrow> value_t" where
  "apply_vec ne b Bool_domain cs = bool_clamp_vec b cs"
| "apply_vec ne b (Int_domain d) cs = numeric_clamp_vec int_to_f32 ne b d cs"
| "apply_vec ne b (Float_domain d) cs = numeric_clamp_vec (\<lambda>f. f) ne b d cs"
| "apply_vec ne b (Vector_domain d) cs = vec_clamp ne b (list_func ne (length cs) d) cs"
| "apply_vec ne b (Vecf_domain d) cs = (if vecf_size d = length cs then vec_clamp ne b d cs else Null)"
| "apply_vec ne b _ cs = Null"

fun domain_type :: "domain \<Rightarrow> val_type" where
  "domain_type Impulse_domain = IMPULSE"
| "domain_type Bool_domain = BOOL"
| "domain_type (Int_domain _) = INT32"
| "domain_type (Float_domain _) = FLOAT"
| "domain_type (String_domain _) = STRING"
| "domain_type _ = NO_TYPE"

fun apply_list :: "num_env \<Rightarrow> bounding_mode \<Rightarrow> domain \<Rightarrow> value_t list \<Rightarrow> value_t checked" where
  "apply_list ne b No_domain xs = Inr Null"
| "apply_list ne b (Vector_domain d) xs = list_clamp ne b d xs"
| "apply_list ne b (Vecf_domain d) xs = Inr Null"
| "apply_list ne b (Generic_domain d) xs = bind_sum (map_checked (generic_clamp ne b d) xs) (\<lambda>ys. Inr (VList ys))"
| "apply_list ne b dm xs = Inr (visit_each (domain_type dm) (apply_scalar ne b dm) xs)"

definition apply_visitor :: "num_env \<Rightarrow> bounding_mode \<Rightarrow> domain \<Rightarrow> value_t \<Rightarrow> value_t checked" where
  "apply_visitor ne b dm v =
     (case v of
        VList xs \<Rightarrow> apply_list ne b dm xs
      | _ \<Rightarrow>
          (case dm of
             Generic_domain d \<Rightarrow> generic_clamp ne b d v
           | _ \<Rightarrow> Inr (case components v of Some cs \<Rightarrow> apply_vec ne b dm cs | None \<Rightarrow> apply_scalar ne b dm v)))"

text \<open>The overload for a value that is copied, and the one for a value that is moved.\<close>

definition apply_domain :: "num_env \<Rightarrow> domain \<Rightarrow> bounding_mode \<Rightarrow> value_t \<Rightarrow> value_t checked" where
  "apply_domain ne dm b v = (if dm \<noteq> No_domain \<and> valid v then apply_visitor ne b dm v else Inr v)"

definition apply_domain_move :: "num_env \<Rightarrow> domain \<Rightarrow> bounding_mode \<Rightarrow> value_t \<Rightarrow> value_t checked" where
  "apply_domain_move ne dm b v = (if dm \<noteq> No_domain \<and> valid v \<and> b \<noteq> FREE then apply_visitor ne b dm v else Inr v)"

definition bound_value :: "num_env \<Rightarrow> domain \<Rightarrow> value_t \<Rightarrow> bounding_mode \<Rightarrow> value_t checked" where
  "bound_value ne dm v mode =
     (if dm \<noteq> No_domain then bind_sum (apply_domain ne dm mode v) (\<lambda>r. Inr (if valid r then r else Null)) else Inr v)"

section \<open>Bounds\<close>

definition of_option :: "('a \<Rightarrow> value_t) \<Rightarrow> 'a option \<Rightarrow> value_t" where
  "of_option mk x = (case x of Some y \<Rightarrow> mk y | None \<Rightarrow> Null)"

definition all_some :: "f32 option list \<Rightarrow> value_t" where
  "all_some xs = (if list_all (\<lambda>x. x \<noteq> None) xs then make_vec (List.map the xs) else Null)"

fun get_min :: "domain \<Rightarrow> value_t" where
  "get_min No_domain = Null"
| "get_min Impulse_domain = Impulse"
| "get_min Bool_domain = Bool False"
| "get_min (Int_domain d) = of_option Int32 (dom_min d)"
| "get_min (Float_domain d) = of_option Float (dom_min d)"
| "get_min (String_domain vs) = Null"
| "get_min (Vector_domain d) = VList (vd_min d)"
| "get_min (Vecf_domain d) = all_some (vf_min d)"
| "get_min (Generic_domain d) = of_option (\<lambda>v. v) (dom_min d)"

fun get_max :: "domain \<Rightarrow> value_t" where
  "get_max No_domain = Null"
| "get_max Impulse_domain = Impulse"
| "get_max Bool_domain = Bool True"
| "get_max (Int_domain d) = of_option Int32 (dom_max d)"
| "get_max (Float_domain d) = of_option Float (dom_max d)"
| "get_max (String_domain vs) = Null"
| "get_max (Vector_domain d) = VList (vd_max d)"
| "get_max (Vecf_domain d) = all_some (vf_max d)"
| "get_max (Generic_domain d) = of_option (\<lambda>v. v) (dom_max d)"

text \<open>The bounds as floats; those of a vector are the smallest and the largest of its components.\<close>

definition fold_some :: "('a \<Rightarrow> 'a \<Rightarrow> 'a) \<Rightarrow> 'a option list \<Rightarrow> 'a option" where
  "fold_some f xs = fold (\<lambda>m r. case m of None \<Rightarrow> r | Some y \<Rightarrow> (case r of None \<Rightarrow> Some y | Some x \<Rightarrow> Some (f x y))) xs None"

fun get_float_minmax :: "num_env \<Rightarrow> domain \<Rightarrow> f32 option \<times> f32 option" where
  "get_float_minmax ne Bool_domain = (Some (Fin 0), Some (Fin 1))"
| "get_float_minmax ne (Int_domain d) = (map_option int_to_f32 (dom_min d), map_option int_to_f32 (dom_max d))"
| "get_float_minmax ne (Float_domain d) = (dom_min d, dom_max d)"
| "get_float_minmax ne (Vecf_domain d) = (fold_some f32_min (vf_min d), fold_some f32_max (vf_max d))"
| "get_float_minmax ne (Generic_domain d) =
     (map_option (convert_num (float_type ne)) (dom_min d), map_option (convert_num (float_type ne)) (dom_max d))"
| "get_float_minmax ne _ = (None, None)"

text \<open>What a bound becomes when it is set to a value; a null value removes it.\<close>

definition new_int_bound :: "num_env \<Rightarrow> value_t \<Rightarrow> int option" where
  "new_int_bound ne v = (case v of Int32 i \<Rightarrow> Some i | Float f \<Rightarrow> Some (f32_to_int ne f) | _ \<Rightarrow> None)"

definition new_float_bound :: "value_t \<Rightarrow> f32 option" where
  "new_float_bound v = (case v of Int32 i \<Rightarrow> Some (int_to_f32 i) | Float f \<Rightarrow> Some f | _ \<Rightarrow> None)"

definition new_list_bound :: "value_t \<Rightarrow> value_t list" where
  "new_list_bound v = (case v of VList xs \<Rightarrow> xs | _ \<Rightarrow> [])"

definition new_vec_bound :: "num_env \<Rightarrow> nat \<Rightarrow> value_t \<Rightarrow> f32 option list" where
  "new_vec_bound ne n v =
     (case v of
        Float f \<Rightarrow> replicate n (Some f)
      | Int32 i \<Rightarrow> replicate n (Some (int_to_f32 i))
      | VList xs \<Rightarrow> if length xs = n then List.map (\<lambda>x. Some (convert_num (float_type ne) x)) xs else replicate n None
      | _ \<Rightarrow> (case components v of Some cs \<Rightarrow> if length cs = n then List.map Some cs else replicate n None | None \<Rightarrow> replicate n None))"

definition new_bound :: "value_t \<Rightarrow> value_t option" where
  "new_bound v = (if valid v then Some v else None)"

fun create_min :: "value_t \<Rightarrow> domain" where
  "create_min Impulse = Impulse_domain"
| "create_min (Bool _) = Bool_domain"
| "create_min (Int32 i) = Int_domain (empty_range\<lparr>dom_min := Some i\<rparr>)"
| "create_min (Float f) = Float_domain (empty_range\<lparr>dom_min := Some f\<rparr>)"
| "create_min (String _) = String_domain []"
| "create_min (VList xs) = Vector_domain (empty_vector\<lparr>vd_min := xs\<rparr>)"
| "create_min v = (case components v of Some cs \<Rightarrow> Vecf_domain ((empty_vecf (length cs))\<lparr>vf_min := List.map Some cs\<rparr>) | None \<Rightarrow> No_domain)"

fun create_max :: "value_t \<Rightarrow> domain" where
  "create_max Impulse = Impulse_domain"
| "create_max (Bool _) = Bool_domain"
| "create_max (Int32 i) = Int_domain (empty_range\<lparr>dom_max := Some i\<rparr>)"
| "create_max (Float f) = Float_domain (empty_range\<lparr>dom_max := Some f\<rparr>)"
| "create_max (String _) = String_domain []"
| "create_max (VList xs) = Vector_domain (empty_vector\<lparr>vd_max := xs\<rparr>)"
| "create_max v = (case components v of Some cs \<Rightarrow> Vecf_domain ((empty_vecf (length cs))\<lparr>vf_max := List.map Some cs\<rparr>) | None \<Rightarrow> No_domain)"

fun set_min :: "num_env \<Rightarrow> domain \<Rightarrow> value_t \<Rightarrow> domain" where
  "set_min ne No_domain v = (if valid v then create_min v else No_domain)"
| "set_min ne (Int_domain d) v = Int_domain (d\<lparr>dom_min := new_int_bound ne v\<rparr>)"
| "set_min ne (Float_domain d) v = Float_domain (d\<lparr>dom_min := new_float_bound v\<rparr>)"
| "set_min ne (Vector_domain d) v = Vector_domain (d\<lparr>vd_min := new_list_bound v\<rparr>)"
| "set_min ne (Vecf_domain d) v = Vecf_domain (d\<lparr>vf_min := new_vec_bound ne (vecf_size d) v\<rparr>)"
| "set_min ne (Generic_domain d) v = Generic_domain (d\<lparr>dom_min := new_bound v\<rparr>)"
| "set_min ne dm v = dm"

fun set_max :: "num_env \<Rightarrow> domain \<Rightarrow> value_t \<Rightarrow> domain" where
  "set_max ne No_domain v = (if valid v then create_max v else No_domain)"
| "set_max ne (Int_domain d) v = Int_domain (d\<lparr>dom_max := new_int_bound ne v\<rparr>)"
| "set_max ne (Float_domain d) v = Float_domain (d\<lparr>dom_max := new_float_bound v\<rparr>)"
| "set_max ne (Vector_domain d) v = Vector_domain (d\<lparr>vd_max := new_list_bound v\<rparr>)"
| "set_max ne (Vecf_domain d) v = Vecf_domain (d\<lparr>vf_max := new_vec_bound ne (vecf_size d) v\<rparr>)"
| "set_max ne (Generic_domain d) v = Generic_domain (d\<lparr>dom_max := new_bound v\<rparr>)"
| "set_max ne dm v = dm"

section \<open>Sets of values\<close>

fun target_int :: "value_t \<Rightarrow> int option" where
  "target_int (Int32 i) = Some i"
| "target_int _ = None"

fun target_float :: "value_t \<Rightarrow> f32 option" where
  "target_float (Float f) = Some f"
| "target_float _ = None"

fun target_string :: "value_t \<Rightarrow> string option" where
  "target_string (String s) = Some s"
| "target_string _ = None"

text \<open>The loop over the sets of a list clears each of them and puts every value into the first.\<close>

definition update_vector_values :: "value_t list \<Rightarrow> value_t list list \<Rightarrow> value_t list list" where
  "update_vector_values vals sets =
     fold (\<lambda>i ss. let cleared = ss[i := []] in cleared[0 := fold (set_insert value_lt) vals (cleared ! 0)]) [0..<length sets] sets"

fun set_values :: "domain \<Rightarrow> value_t list \<Rightarrow> domain" where
  "set_values (Int_domain d) vals = Int_domain (d\<lparr>dom_values := List.map_filter target_int vals\<rparr>)"
| "set_values (Float_domain d) vals = Float_domain (d\<lparr>dom_values := List.map_filter target_float vals\<rparr>)"
| "set_values (String_domain vs) vals = String_domain (List.map_filter target_string vals)"
| "set_values (Vector_domain d) vals = Vector_domain (d\<lparr>vd_values := update_vector_values vals (vd_values d)\<rparr>)"
| "set_values (Vecf_domain d) vals =
     Vecf_domain (d\<lparr>vf_values := replicate (vecf_size d) (fold (set_insert f32_lt) (List.map_filter target_float vals) [])\<rparr>)"
| "set_values (Generic_domain d) vals = Generic_domain (d\<lparr>dom_values := vals\<rparr>)"
| "set_values dm vals = dm"

fun get_values :: "domain \<Rightarrow> value_t list" where
  "get_values Bool_domain = [Bool False, Bool True]"
| "get_values (Int_domain d) = List.map Int32 (dom_values d)"
| "get_values (Float_domain d) = List.map Float (dom_values d)"
| "get_values (String_domain vs) = List.map String vs"
| "get_values (Vector_domain d) = List.map VList (vd_values d)"
| "get_values (Vecf_domain d) = List.map (\<lambda>s. VList (List.map Float s)) (vf_values d)"
| "get_values (Generic_domain d) = dom_values d"
| "get_values _ = []"

section \<open>Making domains\<close>

fun init_domain :: "val_type \<Rightarrow> domain" where
  "init_domain IMPULSE = Impulse_domain"
| "init_domain INT32 = Int_domain empty_range"
| "init_domain FLOAT = Float_domain empty_range"
| "init_domain BOOL = Bool_domain"
| "init_domain STRING = String_domain []"
| "init_domain LIST = Vector_domain empty_vector"
| "init_domain VEC2F = Vecf_domain (empty_vecf 2)"
| "init_domain VEC3F = Vecf_domain (empty_vecf 3)"
| "init_domain VEC4F = Vecf_domain (empty_vecf 4)"
| "init_domain _ = No_domain"

text \<open>Two bounds of one type make a domain, bounds of different types make none.\<close>

definition minmax_domain :: "value_t \<Rightarrow> value_t \<Rightarrow> domain" where
  "minmax_domain mn mx =
     (case (mn, mx) of
        (Bool _, Bool _) \<Rightarrow> Bool_domain
      | (Impulse, Impulse) \<Rightarrow> Impulse_domain
      | (String _, String _) \<Rightarrow> String_domain []
      | (Int32 a, Int32 b) \<Rightarrow> Int_domain \<lparr>dom_min = Some a, dom_max = Some b, dom_values = []\<rparr>
      | (Float a, Float b) \<Rightarrow> Float_domain \<lparr>dom_min = Some a, dom_max = Some b, dom_values = []\<rparr>
      | (VList as, VList bs) \<Rightarrow> Vector_domain \<lparr>vd_min = as, vd_max = bs, vd_values = []\<rparr>
      | _ \<Rightarrow>
          (case (components mn, components mx) of
             (Some as, Some bs) \<Rightarrow>
               if length as = length bs
               then Vecf_domain \<lparr>vf_min = List.map Some as, vf_max = List.map Some bs, vf_values = replicate (length as) []\<rparr>
               else No_domain
           | _ \<Rightarrow> No_domain))"

text \<open>The values of a domain without bounds are set without a test that there is a domain.\<close>

definition domain_of_values :: "value_t list \<Rightarrow> domain checked" where
  "domain_of_values vals =
     (case vals of
        [] \<Rightarrow> Inr No_domain
      | v # _ \<Rightarrow>
          if init_domain (get_type v) = No_domain then Inl Bad_variant
          else Inr (set_values (init_domain (get_type v)) vals))"

definition make_domain :: "num_env \<Rightarrow> value_t \<Rightarrow> value_t \<Rightarrow> domain" where
  "make_domain ne mn mx =
     (if valid mn \<and> valid mx then minmax_domain mn mx
      else if valid mn then set_max ne (minmax_domain mn mn) Null
      else if valid mx then set_min ne (minmax_domain mx mx) Null
      else No_domain)"

definition make_domain_values :: "num_env \<Rightarrow> value_t \<Rightarrow> value_t \<Rightarrow> value_t list \<Rightarrow> domain checked" where
  "make_domain_values ne mn mx vals =
     (if valid mn \<or> valid mx then Inr (set_values (make_domain ne mn mx) vals) else domain_of_values vals)"

definition value_set_domain :: "value_t list \<Rightarrow> value_t \<Rightarrow> domain" where
  "value_set_domain vals cur =
     (case cur of
        Bool _ \<Rightarrow> Bool_domain
      | Int32 _ \<Rightarrow> Int_domain (empty_range\<lparr>dom_values := List.map_filter target_int vals\<rparr>)
      | Float _ \<Rightarrow> Float_domain (empty_range\<lparr>dom_values := List.map_filter target_float vals\<rparr>)
      | String _ \<Rightarrow> String_domain (List.map_filter target_string vals)
      | VList orig \<Rightarrow> Vector_domain (empty_vector\<lparr>vd_values := replicate (length orig) (fold (set_insert value_lt) vals [])\<rparr>)
      | _ \<Rightarrow>
          (case components cur of
             Some cs \<Rightarrow> Vecf_domain ((empty_vecf (length cs))
               \<lparr>vf_values := replicate (length cs) (fold (set_insert f32_lt) (List.map_filter target_float vals) [])\<rparr>)
           | None \<Rightarrow> No_domain))"

definition make_domain_from_osc :: "value_t list \<Rightarrow> value_t \<Rightarrow> domain" where
  "make_domain_from_osc vals cur =
     (case vals of
        [a, b] \<Rightarrow> if valid a \<and> valid b then minmax_domain a b else value_set_domain vals cur
      | _ \<Rightarrow> value_set_domain vals cur)"

definition vec_of_list :: "num_env \<Rightarrow> nat \<Rightarrow> value_t list \<Rightarrow> value_t" where
  "vec_of_list ne n xs = make_vec (convert_vec ne (zeros n) (VList xs))"

definition make_domain_from_minmax :: "num_env \<Rightarrow> value_t list \<Rightarrow> value_t list \<Rightarrow> val_type \<Rightarrow> domain" where
  "make_domain_from_minmax ne mn mx t =
     (let lists = make_domain ne (VList mn) (VList mx);
          n = vec_size t;
          filled = (\<lambda>x. make_vec (replicate n (Fin x)))
      in if length mn = length mx then
           (if length mn = 0 then No_domain
            else if length mn = 1 then make_domain ne (convert_to ne (hd mn) t) (convert_to ne (hd mx) t)
            else if length mn \<le> 4 then make_domain ne (vec_of_list ne (length mn) mn) (vec_of_list ne (length mn) mx)
            else lists)
         else if mn = [] then
           (case t of
              FLOAT \<Rightarrow> make_domain ne (Float (Fin 0)) (hd mx)
            | INT32 \<Rightarrow> make_domain ne (Int32 0) (hd mx)
            | _ \<Rightarrow> if n > 0 then make_domain ne (filled 0) (vec_of_list ne n mx) else lists)
         else if mx = [] then
           (case t of
              FLOAT \<Rightarrow> make_domain ne (hd mn) (Float (Fin 1))
            | INT32 \<Rightarrow> make_domain ne (hd mn) (Int32 1)
            | _ \<Rightarrow> if n > 0 then make_domain ne (vec_of_list ne n mn) (filled 1) else lists)
         else lists)"

section \<open>Converting a domain\<close>

definition int_range_of :: "num_env \<Rightarrow> f32 range_domain \<Rightarrow> int range_domain" where
  "int_range_of ne d = \<lparr>dom_min = map_option (f32_to_int ne) (dom_min d), dom_max = map_option (f32_to_int ne) (dom_max d),
     dom_values = List.map (f32_to_int ne) (dom_values d)\<rparr>"

definition float_range_of :: "int range_domain \<Rightarrow> f32 range_domain" where
  "float_range_of d = \<lparr>dom_min = map_option int_to_f32 (dom_min d), dom_max = map_option int_to_f32 (dom_max d),
     dom_values = List.map int_to_f32 (dom_values d)\<rparr>"

fun to_int_domain :: "num_env \<Rightarrow> domain \<Rightarrow> domain" where
  "to_int_domain ne (Int_domain d) = Int_domain d"
| "to_int_domain ne (Float_domain d) = Int_domain (int_range_of ne d)"
| "to_int_domain ne Bool_domain = Int_domain \<lparr>dom_min = Some 0, dom_max = Some 1, dom_values = []\<rparr>"
| "to_int_domain ne _ = Int_domain empty_range"

fun to_float_domain :: "domain \<Rightarrow> domain" where
  "to_float_domain (Int_domain d) = Float_domain (float_range_of d)"
| "to_float_domain (Float_domain d) = Float_domain d"
| "to_float_domain Bool_domain = Float_domain \<lparr>dom_min = Some (Fin 0), dom_max = Some (Fin 1), dom_values = []\<rparr>"
| "to_float_domain _ = Float_domain empty_range"

text \<open>For a vector a domain of numbers is made one of floats, which applies to each component.\<close>

fun to_vecf_domain :: "num_env \<Rightarrow> nat \<Rightarrow> domain \<Rightarrow> domain" where
  "to_vecf_domain ne n (Vecf_domain d) = Vecf_domain (if vecf_size d = n then d else empty_vecf n)"
| "to_vecf_domain ne n (Vector_domain d) = Vecf_domain (list_func ne n d)"
| "to_vecf_domain ne n (Int_domain d) = Float_domain (float_range_of d)"
| "to_vecf_domain ne n Bool_domain = Float_domain \<lparr>dom_min = Some (Fin 0), dom_max = Some (Fin 1), dom_values = []\<rparr>"
| "to_vecf_domain ne n (Float_domain d) = Float_domain d"
| "to_vecf_domain ne n _ = Vecf_domain (empty_vecf n)"

definition convert_domain :: "num_env \<Rightarrow> domain \<Rightarrow> val_type \<Rightarrow> domain checked" where
  "convert_domain ne dm t =
     (if t \<in> {MAP, NO_TYPE} then Inr No_domain
      else if dm = No_domain then Inl Bad_variant
      else Inr (case t of
          IMPULSE \<Rightarrow> Impulse_domain
        | INT32 \<Rightarrow> to_int_domain ne dm
        | FLOAT \<Rightarrow> to_float_domain dm
        | BOOL \<Rightarrow> Bool_domain
        | STRING \<Rightarrow> (case dm of String_domain vs \<Rightarrow> String_domain vs | _ \<Rightarrow> String_domain [])
        | LIST \<Rightarrow> (case dm of Vector_domain d \<Rightarrow> Vector_domain d | _ \<Rightarrow> Vector_domain empty_vector)
        | _ \<Rightarrow> to_vecf_domain ne (vec_size t) dm))"

text \<open>The alternatives of the variant are numbered; one number is not used.\<close>

fun which :: "domain \<Rightarrow> nat" where
  "which Impulse_domain = 0"
| "which Bool_domain = 1"
| "which (Int_domain _) = 2"
| "which (Float_domain _) = 3"
| "which (String_domain _) = 5"
| "which (Vector_domain _) = 6"
| "which (Vecf_domain d) = 5 + vecf_size d"
| "which (Generic_domain _) = 10"
| "which No_domain = 11"

definition convert_compatible_domain :: "num_env \<Rightarrow> domain \<Rightarrow> val_type \<Rightarrow> domain checked" where
  "convert_compatible_domain ne dm t =
     (if which dm < 6 then convert_domain ne dm t
      else if which dm = 6 then (if t \<in> {VEC2F, VEC3F, VEC4F} then convert_domain ne dm t else Inr dm)
      else Inr dm)"

section \<open>Comparing domains\<close>

fun option_eq :: "('a \<Rightarrow> 'a \<Rightarrow> bool) \<Rightarrow> 'a option \<Rightarrow> 'a option \<Rightarrow> bool" where
  "option_eq eq (Some x) (Some y) = eq x y"
| "option_eq eq None None = True"
| "option_eq eq _ _ = False"

definition range_eq :: "('v \<Rightarrow> 'v \<Rightarrow> bool) \<Rightarrow> 'v range_domain \<Rightarrow> 'v range_domain \<Rightarrow> bool" where
  "range_eq eq l r \<longleftrightarrow> option_eq eq (dom_min l) (dom_min r) \<and> option_eq eq (dom_max l) (dom_max r)
     \<and> list_all2 eq (dom_values l) (dom_values r)"

fun domain_eq :: "domain \<Rightarrow> domain \<Rightarrow> bool" where
  "domain_eq No_domain No_domain = True"
| "domain_eq Impulse_domain Impulse_domain = True"
| "domain_eq Bool_domain Bool_domain = True"
| "domain_eq (Int_domain l) (Int_domain r) = range_eq (=) l r"
| "domain_eq (Float_domain l) (Float_domain r) = range_eq f32_eq l r"
| "domain_eq (String_domain l) (String_domain r) = (l = r)"
| "domain_eq (Vector_domain l) (Vector_domain r) =
     (list_all2 value_eq (vd_min l) (vd_min r) \<and> list_all2 value_eq (vd_max l) (vd_max r)
      \<and> list_all2 (list_all2 value_eq) (vd_values l) (vd_values r))"
| "domain_eq (Vecf_domain l) (Vecf_domain r) =
     (vecf_size l = vecf_size r \<and> list_all2 (option_eq f32_eq) (vf_min l) (vf_min r)
      \<and> list_all2 (option_eq f32_eq) (vf_max l) (vf_max r) \<and> list_all2 (list_all2 f32_eq) (vf_values l) (vf_values r))"
| "domain_eq (Generic_domain l) (Generic_domain r) = range_eq value_eq l r"
| "domain_eq _ _ = False"

end
