(* ===== verification/DomainProps.thy ===== *)
theory DomainProps
  imports DomainOps
begin

text \<open>
  What domains guarantee: a value brought into its domain keeps its type or is rejected, numbers end between the
  bounds and at the right place, sets of values accept their members only, and bounds that are set are read back.
\<close>

section \<open>Well-formed domains\<close>

fun wf_domain :: "domain \<Rightarrow> bool" where
  "wf_domain (Vecf_domain d) = (2 \<le> vecf_size d \<and> vecf_size d \<le> 4 \<and> length (vf_max d) = vecf_size d \<and> length (vf_values d) = vecf_size d)"
| "wf_domain _ = True"

lemma length_first_n [simp]: "length (first_n n z f xs) = n"
  by (simp add: first_n_def)

lemma vecf_sizes [simp]:
  "vecf_size (list_func ne n d) = n" "vecf_size (empty_vecf n) = n"
  "length (vf_max (list_func ne n d)) = n" "length (vf_values (list_func ne n d)) = n"
  "length (vf_max (empty_vecf n)) = n" "length (vf_values (empty_vecf n)) = n"
  by (simp_all add: list_func_def vecf_size_def empty_vecf_def Let_def)

lemma length_new_vec_bound [simp]: "length (new_vec_bound ne n v) = n"
  by (cases v) (simp_all add: new_vec_bound_def)

lemma components_length: "components v = Some cs \<Longrightarrow> 2 \<le> length cs \<and> length cs \<le> 4"
  by (cases v) auto

lemma wf_init [simp]: "wf_domain (init_domain t)"
  by (cases t) simp_all

lemma wf_create [simp]: "wf_domain (create_min v)" "wf_domain (create_max v)"
  by (cases v; simp add: vecf_size_def empty_vecf_def)+

lemma wf_set_min [simp]: "wf_domain dm \<Longrightarrow> wf_domain (set_min ne dm v)"
  by (cases dm) (simp_all add: vecf_size_def)

lemma wf_set_max [simp]: "wf_domain dm \<Longrightarrow> wf_domain (set_max ne dm v)"
  by (cases dm) (simp_all add: vecf_size_def)

lemma wf_set_values [simp]: "wf_domain dm \<Longrightarrow> wf_domain (set_values dm vs)"
  by (cases dm) (simp_all add: vecf_size_def)

lemma wf_minmax [simp]: "wf_domain (minmax_domain mn mx)"
  by (cases mn; cases mx) (simp_all add: minmax_domain_def vecf_size_def)

lemma wf_make_domain [simp]: "wf_domain (make_domain ne mn mx)"
  by (simp add: make_domain_def)

lemma vec_size_range: "vec_size t = 0 \<or> 2 \<le> vec_size t \<and> vec_size t \<le> 4"
  by (cases t) (simp_all add: vec_size_def)

lemma wf_value_set [simp]: "wf_domain (value_set_domain vals cur)"
  by (cases cur) (simp_all add: value_set_domain_def vecf_size_def empty_vecf_def)

lemma wf_to_vecf: "wf_domain dm \<Longrightarrow> 2 \<le> n \<Longrightarrow> n \<le> 4 \<Longrightarrow> wf_domain (to_vecf_domain ne n dm)"
  by (cases dm) auto

lemma wf_convert_domain: "convert_domain ne dm t = Inr dm' \<Longrightarrow> wf_domain dm \<Longrightarrow> wf_domain dm'"
  by (cases dm; cases t)
    (auto simp: convert_domain_def vec_size_def)

section \<open>Types\<close>

lemma make_vec_map: "components v = Some cs \<Longrightarrow> length ds = length cs \<Longrightarrow> get_type (make_vec ds) = get_type v"
  by (cases v) (auto simp: numeral_eq_Suc length_Suc_conv)

lemma make_vec_type_Suc:
  "length cs = Suc (Suc 0) \<Longrightarrow> get_type (make_vec cs) = VEC2F"
  "length cs = Suc (Suc (Suc 0)) \<Longrightarrow> get_type (make_vec cs) = VEC3F"
  "length cs = Suc (Suc (Suc (Suc 0))) \<Longrightarrow> get_type (make_vec cs) = VEC4F"
  by (simp_all add: make_vec_type numeral_eq_Suc)

lemma apply_ternary_type: "apply_ternary ci cf v mn mx = Inr r \<Longrightarrow> get_type r = get_type v"
  by (cases v; cases mn)
    (auto simp: apply_ternary.simps bind_sum_Inr make_vec_type_Suc split: "value_t.splits" if_splits option.splits)

lemma apply_binary_type: "apply_binary ci cf v m = Inr r \<Longrightarrow> get_type r = get_type v"
  by (cases v; cases m)
    (auto simp: apply_binary.simps bind_sum_Inr make_vec_type_Suc split: "value_t.splits" if_splits option.splits)

lemma value_bounds_type: "bound_with (value_bounds ne) b mn mx v = Inr r \<Longrightarrow> get_type r = get_type v"
  by (auto simp: bound_with_def value_bounds_def Let_def split: option.splits bounding_mode.splits if_splits
      dest: apply_ternary_type apply_binary_type)

lemma generic_clamp_type: "generic_clamp ne b d v = Inr r \<Longrightarrow> r = Null \<or> get_type r = get_type v"
  by (auto simp: generic_clamp_def split: if_splits dest: value_bounds_type)

lemma map_checked_Inr: "map_checked f xs = Inr ys \<longleftrightarrow> list_all2 (\<lambda>x y. f x = Inr y) xs ys"
  by (induction xs arbitrary: ys) (auto simp: bind_sum_Inr list_all2_Cons1)

lemma vec_clamp_type:
  assumes "length cs = vecf_size d" and "wf_domain (Vecf_domain d)" and "components v = Some cs"
  shows "get_type (vec_clamp ne b d cs) = get_type v"
  using assms by (auto simp: vec_clamp_def vecf_size_def intro!: make_vec_map)

lemma apply_vec_type:
  assumes "wf_domain dm" and v: "components v = Some cs"
  shows "apply_vec ne b dm cs = Null \<or> get_type (apply_vec ne b dm cs) = get_type v"
proof (cases dm)
  case (Vector_domain d)
  have "wf_domain (Vecf_domain (list_func ne (length cs) d))" using components_length[OF v] by simp
  then show ?thesis using Vector_domain vec_clamp_type[OF _ _ v] by simp
next
  case (Vecf_domain d)
  then show ?thesis using assms vec_clamp_type[OF _ _ v] by auto
qed (use v in \<open>auto simp: numeric_clamp_vec_def bool_clamp_vec_def intro!: make_vec_map\<close>)

lemma numeric_clamp_shape: "numeric_clamp mk eq bs b d v = Null \<or> (\<exists>x. numeric_clamp mk eq bs b d v = mk x)"
  by (auto simp: numeric_clamp_def split: option.splits)

lemma apply_scalar_type: "apply_scalar ne b dm v = Null \<or> get_type (apply_scalar ne b dm v) = get_type v"
proof -
  have i: "clamp_int b d x = Null \<or> get_type (clamp_int b d x) = INT32" for d x
    using numeric_clamp_shape[of Int32 "(=)" int_bounds b d x] by (auto simp: clamp_int_def)
  have f: "clamp_f32 ne b d x = Null \<or> get_type (clamp_f32 ne b d x) = FLOAT" for d x
    using numeric_clamp_shape[of Float f32_eq "f32_bounds ne" b d x] by (auto simp: clamp_f32_def)
  show ?thesis
    by (cases "(ne, b, dm, v)" rule: apply_scalar.cases) (use i f in \<open>auto simp: value_set_clamp_def\<close>)
qed

text \<open>C36: A value that is brought into its domain keeps its type, a list also its length, or is rejected: the result is
  null. This holds in every mode and for every domain.\<close>

theorem apply_domain_keeps_type:
  assumes "wf_domain dm" and "apply_domain ne dm b v = Inr r"
  shows "r = Null \<or> get_type r = get_type v \<and> (\<forall>xs. v = VList xs \<longrightarrow> (\<exists>ys. r = VList ys \<and> length ys = length xs))"
proof (cases "dm \<noteq> No_domain \<and> valid v")
  case True
  then have a: "apply_visitor ne b dm v = Inr r" using assms(2) by (simp add: apply_domain_def)
  show ?thesis
  proof (cases "\<exists>xs. v = VList xs")
    case True
    then obtain xs where v: "v = VList xs" by blast
    then have "apply_list ne b dm xs = Inr r" using a by (simp add: apply_visitor_def)
    then show ?thesis
      by (cases dm) (auto simp: v visit_each_def list_clamp_def bind_sum_Inr map_checked_Inr split: if_splits
          dest: list_all2_lengthD)
  next
    case False
    show ?thesis
    proof (cases "\<exists>d. dm = Generic_domain d")
      case True
      then obtain d where "generic_clamp ne b d v = Inr r" using a False by (cases v) (auto simp: apply_visitor_def)
      then show ?thesis using False generic_clamp_type by blast
    next
      case ng: False
      then have "r = (case components v of Some cs \<Rightarrow> apply_vec ne b dm cs | None \<Rightarrow> apply_scalar ne b dm v)"
        using a False by (cases v; cases dm) (auto simp: apply_visitor_def)
      then show ?thesis using False apply_vec_type[OF assms(1)] apply_scalar_type[of ne b dm v]
        by (cases "components v") auto
    qed
  qed
qed (use assms(2) in \<open>auto simp: apply_domain_def\<close>)

lemma apply_domain_keeps_type_witness:
  "\<exists>r. apply_domain demo_num (Bool_domain) CLIP (VList [Bool True, Int32 4]) = Inr r
     \<and> (r = Null \<or> (\<exists>ys. r = VList ys \<and> length ys = 2))"
proof -
  have "apply_domain demo_num Bool_domain CLIP (VList [Bool True, Int32 4]) = Inr (VList [Bool True, Int32 4])" by code_simp
  then show ?thesis using apply_domain_keeps_type[of Bool_domain demo_num CLIP "VList [Bool True, Int32 4]"] by auto
qed

section \<open>Integers between bounds\<close>

lemma smod_pos: "0 \<le> a \<Longrightarrow> 0 < b \<Longrightarrow> a smod b = (a mod b :: int)"
  by (cases "a = 0") (simp_all add: smod_int_alt_def)

lemma round_even_error:
  assumes "0 < (d :: int)"
  shows "\<bar>2 * (n - d * round_even n d)\<bar> \<le> d"
proof -
  have low: "n - d * (n div d) = n mod d" and high: "n - d * (n div d + 1) = n mod d - d"
    by (simp_all add: minus_mult_div_eq_mod algebra_simps)
  have m: "0 \<le> n mod d" "n mod d < d" using assms by simp_all
  have "2 * (n mod d) \<le> d \<and> round_even n d = n div d \<or> d \<le> 2 * (n mod d) \<and> round_even n d = n div d + 1"
    by (auto simp: round_even_def Let_def)
  then show ?thesis
  proof (elim disjE conjE)
    assume a: "2 * (n mod d) \<le> d" "round_even n d = n div d"
    show ?thesis unfolding a(2) low using a(1) m by simp
  next
    assume a: "d \<le> 2 * (n mod d)" "round_even n d = n div d + 1"
    show ?thesis unfolding a(2) high using a(1) m by simp
  qed
qed

lemma int_clamp_eq: "int_clamp v low high = max low (min v high)"
  by (auto simp: int_clamp_def int_max_def int_min_def)

definition fits_range :: "int \<Rightarrow> int \<Rightarrow> int \<Rightarrow> bool" where
  "fits_range low high v \<longleftrightarrow> low < high \<and> in32 low \<and> in32 high \<and> in32 (high - low) \<and> in32 (v - low) \<and> in32 (low - v)"

lemma range_size: "fits_range low high v \<Longrightarrow> \<bar>s32 (low - high)\<bar> = high - low"
  by (subst s32_id) (auto simp: fits_range_def)

lemma dvd_mod_diff: "(b :: int) dvd a - a mod b"
  by (simp add: minus_mod_eq_mult_div)

lemma int_wrap_range:
  assumes f: "fits_range low high v"
  shows "low \<le> int_wrap v low high \<and> int_wrap v low high \<le> high \<and> high - low dvd int_wrap v low high - v"
proof (cases "v < low")
  case True
  have m: "0 \<le> (low - v) mod (high - low)" "(low - v) mod (high - low) < high - low"
    using f by (simp_all add: fits_range_def)
  have "int_wrap v low high = high - (low - v) mod (high - low)"
    using True f m by (simp add: int_wrap_def range_size[OF f] s32_id smod_pos fits_range_def)
  moreover have "high - low dvd (high - low) + ((low - v) - (low - v) mod (high - low))"
    by (intro dvd_add dvd_mod_diff) simp
  moreover have "(high - low) + ((low - v) - (low - v) mod (high - low)) = high - (low - v) mod (high - low) - v" by simp
  ultimately show ?thesis using m by simp
next
  case False
  have m: "0 \<le> (v - low) mod (high - low)" "(v - low) mod (high - low) < high - low"
    using f by (simp_all add: fits_range_def)
  show ?thesis
  proof (cases "v < high")
    case above: False
    have "int_wrap v low high = low + (v - low) mod (high - low)"
      using above False f m by (simp add: int_wrap_def range_size[OF f] s32_id smod_pos fits_range_def)
    moreover have "high - low dvd low + (v - low) mod (high - low) - v"
    proof -
      have e: "low + (v - low) mod (high - low) - v = - ((v - low) - (v - low) mod (high - low))" by simp
      show ?thesis unfolding e by (simp only: dvd_minus_iff dvd_mod_diff)
    qed
    ultimately show ?thesis using m by simp
  qed (use False in \<open>auto simp: int_wrap_def\<close>)
qed

lemma int_fold_range:
  assumes f: "fits_range low high v"
  shows "low \<le> int_fold v low high \<and> int_fold v low high \<le> high
   \<and> (2 * (high - low) dvd int_fold v low high - v \<or> 2 * (high - low) dvd (int_fold v low high - low) + (v - low))"
proof (cases "low \<le> v \<and> v \<le> high")
  case False
  let ?p = "2 * (high - low)"
  let ?r = "int_remainder (v - low) ?p"
  have r: "\<bar>?r\<bar> \<le> high - low" using round_even_error[of ?p "v - low"] f by (simp add: int_remainder_def fits_range_def)
  then have e: "int_fold v low high = low + \<bar>?r\<bar>"
    using False f by (auto simp: int_fold_def range_size[OF f] s32_id fits_range_def)
  have d: "?p dvd (v - low) - ?r" by (simp add: int_remainder_def)
  have "?p dvd (low + \<bar>?r\<bar>) - v \<or> ?p dvd ((low + \<bar>?r\<bar>) - low) + (v - low)"
  proof (cases "0 \<le> ?r")
    case True
    then have e: "(low + \<bar>?r\<bar>) - v = - ((v - low) - ?r)" by simp
    show ?thesis unfolding e dvd_minus_iff using d by blast
  next
    case False
    then have e: "((low + \<bar>?r\<bar>) - low) + (v - low) = (v - low) - ?r" by simp
    show ?thesis unfolding e using d by blast
  qed
  then show ?thesis using r e by simp
qed (auto simp: int_fold_def)

text \<open>C37: A number bounded by two integers that are in order, with no difference that overflows: clipping gives the nearest number
  between them, wrapping and folding give a number between them, that differs by a multiple of the length of the range, or that is
  the value or its mirror image at the lower bound up to twice that length. A number inside the range stays, and one-sided modes
  look at one bound.\<close>

theorem int_bounds_hold:
  assumes "fits_range low high v"
  shows "\<exists>j. apply_domain ne (Int_domain \<lparr>dom_min = Some low, dom_max = Some high, dom_values = []\<rparr>) b (Int32 v) = Inr (Int32 j)
    \<and> (b \<noteq> FREE \<and> b \<noteq> CLAMP_LOW \<and> b \<noteq> CLAMP_HIGH \<longrightarrow> low \<le> j \<and> j \<le> high)
    \<and> (low \<le> v \<and> v < high \<longrightarrow> j = v)
    \<and> (case b of FREE \<Rightarrow> j = v | CLIP \<Rightarrow> j = max low (min v high) | CLAMP_LOW \<Rightarrow> j = max low v | CLAMP_HIGH \<Rightarrow> j = min v high
       | WRAP \<Rightarrow> high - low dvd j - v
       | FOLD \<Rightarrow> 2 * (high - low) dvd j - v \<or> 2 * (high - low) dvd (j - low) + (v - low))"
proof -
  let ?j = "if b = FREE then v else bound_with int_bounds b (Some low) (Some high) v"
  have "apply_domain ne (Int_domain \<lparr>dom_min = Some low, dom_max = Some high, dom_values = []\<rparr>) b (Int32 v) = Inr (Int32 ?j)"
    by (simp add: apply_domain_def valid_def apply_visitor_def clamp_int_def numeric_clamp_def)
  moreover have "low < high" using assms by (simp add: fits_range_def)
  ultimately show ?thesis
    using int_wrap_range[OF assms] int_fold_range[OF assms]
    by (intro exI[of _ ?j])
      (cases b; auto simp: bound_with_def int_bounds_def int_clamp_eq int_max_def int_min_def int_wrap_def int_fold_def)
qed

lemma int_bounds_hold_witness:
  "\<exists>j. apply_domain demo_num (Int_domain \<lparr>dom_min = Some 0, dom_max = Some 10, dom_values = []\<rparr>) WRAP (Int32 23) = Inr (Int32 j)
     \<and> 0 \<le> j \<and> j \<le> 10 \<and> 10 dvd j - 23"
  using int_bounds_hold[of 0 10 23 demo_num WRAP] by (auto simp: fits_range_def)

text \<open>A value a whole number of ranges below ends at the upper bound, which wrapping again moves to the lower one.\<close>

lemma wrap_below_gives_high: "int_wrap (- 10) 0 10 = 10" "int_wrap 10 0 10 = 0"
  by (simp_all add: int_wrap_def smod_pos s32_id)

section \<open>Floats between bounds\<close>

definition f32_within :: "f32 \<Rightarrow> f32 \<Rightarrow> f32 \<Rightarrow> bool" where
  "f32_within lo hi f \<longleftrightarrow> f32_ge f lo \<and> f32_ge hi f"

lemma f32_clamp_within:
  assumes "f32_ge hi lo" and "f \<noteq> Nan"
  shows "f32_within lo hi (f32_clamp f lo hi)" "f32_within lo hi f \<Longrightarrow> f32_clamp f lo hi = f"
  using assms
  by (cases f; cases lo; cases hi; auto simp: f32_within_def f32_ge_def f32_eq_def f32_clamp_def f32_max_def f32_min_def split: if_splits)+

lemma f32_within_not_nan: "f32_within lo hi f \<Longrightarrow> f \<noteq> Nan"
  by (auto simp: f32_within_def f32_ge_def f32_eq_def)

lemma components_make: "components v = Some cs \<Longrightarrow> length ds = length cs \<Longrightarrow> components (make_vec ds) = Some ds"
  using components_length[of v cs] components_make_vec[of ds] by simp

text \<open>A vector clipped to two floats that are in order has the length it had, every component between the bounds, and those
  that were there unchanged; clipping again changes nothing. Only a component that is no number escapes the bounds, and it is
  excluded.\<close>

theorem clip_vector_within:
  assumes "f32_ge hi lo" and "components v = Some cs" and "Nan \<notin> set cs"
    and "dm = Float_domain \<lparr>dom_min = Some lo, dom_max = Some hi, dom_values = []\<rparr>"
  shows "\<exists>ds. apply_domain ne dm CLIP v = Inr (make_vec ds) \<and> length ds = length cs \<and> list_all (f32_within lo hi) ds
    \<and> (\<forall>i < length cs. f32_within lo hi (cs ! i) \<longrightarrow> ds ! i = cs ! i) \<and> apply_domain ne dm CLIP (make_vec ds) = Inr (make_vec ds)"
proof -
  let ?clip = "List.map (\<lambda>c. f32_clamp c lo hi)"
  have step: "apply_domain ne dm CLIP w = Inr (make_vec (?clip as))" if "components w = Some as" for w as
  proof -
    have "bound_with (f32_bounds ne) CLIP (Some lo) (Some hi) = (\<lambda>c. f32_clamp c lo hi)"
      by (rule ext) (simp add: bound_with_def f32_bounds_def)
    then show ?thesis
      using that by (cases w) (simp_all add: assms(4) apply_domain_def valid_def apply_visitor_def numeric_clamp_vec_def)
  qed
  have w: "list_all (f32_within lo hi) (?clip cs)"
    unfolding list_all_iff
  proof
    fix d assume "d \<in> set (?clip cs)"
    then obtain c where c: "c \<in> set cs" "d = f32_clamp c lo hi" by auto
    then have "c \<noteq> Nan" using assms(3) by metis
    then show "f32_within lo hi d" using f32_clamp_within(1)[OF assms(1)] c(2) by simp
  qed
  have twice: "?clip (?clip cs) = ?clip cs"
    using w f32_clamp_within(2)[OF assms(1)] f32_within_not_nan by (auto simp: list_all_iff)
  have again: "apply_domain ne dm CLIP (make_vec (?clip cs)) = Inr (make_vec (?clip cs))"
    using step[OF components_make[OF assms(2), of "?clip cs"]] unfolding twice by simp
  have same: "f32_within lo hi (cs ! i) \<longrightarrow> ?clip cs ! i = cs ! i" if "i < length cs" for i
    using that f32_clamp_within(2)[OF assms(1), of "cs ! i"] f32_within_not_nan by auto
  show ?thesis using step[OF assms(2)] w again same by (intro exI[of _ "?clip cs"]) simp
qed

lemma clip_vector_within_witness:
  "\<exists>ds. apply_domain demo_num (Float_domain \<lparr>dom_min = Some (Fin 0), dom_max = Some (Fin 1), dom_values = []\<rparr>) CLIP (Vec2f (Fin 3) (Fin (1 / 2)))
     = Inr (make_vec ds) \<and> length ds = 2 \<and> list_all (f32_within (Fin 0) (Fin 1)) ds \<and> ds ! 1 = Fin (1 / 2)"
  using clip_vector_within[of "Fin 1" "Fin 0" "Vec2f (Fin 3) (Fin (1 / 2))" "[Fin 3, Fin (1 / 2)]" _ demo_num, OF _ _ _ refl]
  by (auto simp: f32_ge_def f32_within_def f32_eq_def)

section \<open>Sets of values\<close>

lemma find_eq: "List.find (\<lambda>x. x = v) xs = (if v \<in> set xs then Some v else None)"
  by (induction xs) auto

lemma find_f32_eq: "List.find (\<lambda>x. f32_eq x f) xs = (if list_ex (\<lambda>x. f32_eq x f) xs then Some f else None)"
  by (induction xs) (auto simp: f32_eq_def)

lemma value_eq_scalar [simp]:
  "value_eq (Int32 i) (Int32 j) \<longleftrightarrow> i = j" "value_eq (Float f) (Float g) \<longleftrightarrow> f32_eq f g" "value_eq (String s) (String t) \<longleftrightarrow> s = t"
  by (simp_all add: value_eq_def valid_def visit.simps visit_scalar_def is_vec_def string_compare_def numeric_compare_def int_compare_def f32_compare_def)

text \<open>A domain with a set of values, outside of the free mode, lets a value of its own type through exactly when the set has an
  equal one, and makes null of every other; a domain of any values does so for every value but a list.\<close>

theorem value_sets_accept_members:
  assumes "b \<noteq> FREE" and "get_values dm \<noteq> []" and "valid v"
    and "domain_type dm = get_type v \<and> get_type v \<in> {INT32, FLOAT, STRING} \<or> (\<exists>d. dm = Generic_domain d) \<and> get_type v \<noteq> LIST"
  shows "apply_domain ne dm b v = Inr (if list_ex (\<lambda>x. value_eq x v) (get_values dm) then v else Null)"
proof (cases dm)
  case (Generic_domain d)
  then show ?thesis using assms by (cases v) (auto simp: apply_domain_def apply_visitor_def generic_clamp_def)
next
  case (Int_domain d)
  then obtain i where "v = Int32 i" using assms by (cases v) auto
  then show ?thesis using assms Int_domain
    by (auto simp: apply_domain_def apply_visitor_def clamp_int_def numeric_clamp_def find_eq list_ex_iff)
next
  case (Float_domain d)
  then obtain f where "v = Float f" using assms by (cases v) auto
  then show ?thesis using assms Float_domain
    by (auto simp: apply_domain_def apply_visitor_def clamp_f32_def numeric_clamp_def find_f32_eq list_ex_iff)
next
  case (String_domain vs)
  then obtain s where "v = String s" using assms by (cases v) auto
  then show ?thesis using assms String_domain
    by (auto simp: apply_domain_def apply_visitor_def value_set_clamp_def list_ex_iff)
qed (use assms in \<open>auto\<close>)

lemma value_sets_accept_members_witness:
  "apply_domain demo_num (String_domain [''on'', ''off'']) CLIP (String ''on'') = Inr (String ''on'')
   \<and> apply_domain demo_num (Int_domain \<lparr>dom_min = None, dom_max = None, dom_values = [1, 2]\<rparr>) WRAP (Int32 3) = Inr Null"
  using value_sets_accept_members[of CLIP "String_domain [''on'', ''off'']" "String ''on''" demo_num]
    value_sets_accept_members[of WRAP "Int_domain \<lparr>dom_min = None, dom_max = None, dom_values = [1, 2]\<rparr>" "Int32 3" demo_num]
  by (simp add: valid_def)

section \<open>Bounds that are set are read\<close>

definition bound_fits :: "domain \<Rightarrow> value_t \<Rightarrow> bool" where
  "bound_fits dm v \<longleftrightarrow>
     (case dm of
        Int_domain _ \<Rightarrow> get_type v = INT32
      | Float_domain _ \<Rightarrow> get_type v = FLOAT
      | Vector_domain _ \<Rightarrow> get_type v = LIST
      | Vecf_domain d \<Rightarrow> (\<exists>cs. components v = Some cs \<and> length cs = vecf_size d)
      | Generic_domain _ \<Rightarrow> valid v
      | _ \<Rightarrow> False)"

lemma all_some_map: "components v = Some cs \<Longrightarrow> all_some (List.map Some cs) = v"
  using make_vec_components[of v cs] by (simp add: all_some_def list_all_iff comp_def)

lemma new_vec_bound_fits: "components v = Some cs \<Longrightarrow> length cs = n \<Longrightarrow> new_vec_bound ne n v = List.map Some cs"
  by (cases v) (auto simp: new_vec_bound_def)

lemma all_some_none: "2 \<le> n \<Longrightarrow> all_some (replicate n None) = Null"
  by (cases n) (simp_all add: all_some_def)

lemma new_vec_bound_null: "new_vec_bound ne n Null = replicate n None"
  by (simp add: new_vec_bound_def)

text \<open>A bound of the type of the domain that is set is the bound that is read, a null value removes it (a list keeps an empty one),
  and neither touches the other bound or the set of values.\<close>

theorem bounds_are_read_back:
  assumes "wf_domain dm" and "bound_fits dm v"
  shows "get_min (set_min ne dm v) = v \<and> get_max (set_min ne dm v) = get_max dm \<and> get_values (set_min ne dm v) = get_values dm
    \<and> get_max (set_max ne dm v) = v \<and> get_min (set_max ne dm v) = get_min dm \<and> get_values (set_max ne dm v) = get_values dm
    \<and> get_min (set_min ne dm Null) = (case dm of Vector_domain _ \<Rightarrow> VList [] | _ \<Rightarrow> Null)
    \<and> get_max (set_max ne dm Null) = (case dm of Vector_domain _ \<Rightarrow> VList [] | _ \<Rightarrow> Null)"
proof (cases dm)
  case (Vecf_domain d)
  then obtain cs where "components v = Some cs" "length cs = vecf_size d" using assms(2) by (auto simp: bound_fits_def)
  then show ?thesis using Vecf_domain assms(1)
    by (simp add: new_vec_bound_fits all_some_map new_vec_bound_null all_some_none)
next
  case (Generic_domain d)
  then show ?thesis using assms(2) by (simp add: bound_fits_def new_bound_def of_option_def)
next
  case (Int_domain d)
  then obtain i where "v = Int32 i" using assms(2) by (cases v) (auto simp: bound_fits_def)
  then show ?thesis using Int_domain by (simp add: new_int_bound_def of_option_def)
next
  case (Float_domain d)
  then obtain f where "v = Float f" using assms(2) by (cases v) (auto simp: bound_fits_def)
  then show ?thesis using Float_domain by (simp add: new_float_bound_def of_option_def)
next
  case (Vector_domain d)
  then obtain xs where "v = VList xs" using assms(2) by (cases v) (auto simp: bound_fits_def)
  then show ?thesis using Vector_domain by (simp add: new_list_bound_def)
qed (use assms(2) in \<open>simp_all add: bound_fits_def\<close>)

lemma bounds_are_read_back_witness:
  "get_min (set_min demo_num (Vecf_domain (empty_vecf 2)) (Vec2f (Fin 1) (Fin 2))) = Vec2f (Fin 1) (Fin 2)
   \<and> get_max (set_max demo_num (Int_domain empty_range) (Int32 4)) = Int32 4"
  using bounds_are_read_back[of "Vecf_domain (empty_vecf 2)" "Vec2f (Fin 1) (Fin 2)" demo_num]
    bounds_are_read_back[of "Int_domain empty_range" "Int32 4" demo_num]
  by (simp add: bound_fits_def)

text \<open>A domain made of two bounds of one type has these bounds, and one made of a single bound has no other.\<close>

lemma make_domain_bounds:
  assumes "get_type mn = get_type mx" and "get_type mn \<in> {INT32, FLOAT, LIST, VEC2F, VEC3F, VEC4F}"
  shows "get_min (make_domain ne mn mx) = mn" "get_max (make_domain ne mn mx) = mx"
  using assms by (cases mn; cases mx; simp add: make_domain_def valid_def minmax_domain_def of_option_def all_some_def)+

text \<open>Bounds of different types make no domain, so that an integer maximum alone makes none for a float.\<close>

lemma minmax_of_integer: "make_domain_from_minmax ne [] [Int32 5] FLOAT = No_domain"
  by (simp add: make_domain_from_minmax_def vec_size_def make_domain_def valid_def minmax_domain_def)

section \<open>What the code does beside that\<close>

text \<open>A float that is not in the set of values of a domain of integers is not rejected, it becomes zero; so does the component of a
  vector. Wrapping makes true false. In the free mode a value that is copied is made null by a domain of another type, and a
  value that is moved is not.\<close>

lemma float_outside_integer_set:
  "apply_domain demo_num (Int_domain \<lparr>dom_min = None, dom_max = None, dom_values = [1, 2]\<rparr>) CLIP (Float (Fin 3)) = Inr (Float (Fin 0))"
  by code_simp

lemma component_outside_set:
  "apply_domain demo_num (Vecf_domain ((empty_vecf 2)\<lparr>vf_values := [[Fin 1], []]\<rparr>)) CLIP (Vec2f (Fin 3) (Fin 4)) = Inr (Vec2f (Fin 0) (Fin 4))"
  by code_simp

lemma wrap_true: "apply_domain ne Bool_domain WRAP (Bool True) = Inr (Bool False)"
  by (simp add: apply_domain_def valid_def apply_visitor_def bool_bound_def bool_num_def bound_with_def int_bounds_def int_wrap_def smod_pos s32_id)

lemma free_mode_copied_and_moved:
  "apply_domain ne Bool_domain FREE (String s) = Inr Null" "apply_domain_move ne Bool_domain FREE (String s) = Inr (String s)"
  by (simp_all add: apply_domain_def apply_domain_move_def valid_def apply_visitor_def)

lemma free_mode_truncates:
  "apply_domain demo_num (Int_domain empty_range) FREE (Float (Fin (3 / 2))) = Inr (Float (Fin 1))"
  by code_simp

text \<open>Setting the values of a list puts all of them into the first set and empties the others.\<close>

lemma vector_values_in_first:
  "get_values (set_values (Vector_domain (empty_vector\<lparr>vd_values := [[], [Int32 7]]\<rparr>)) [Int32 2, Int32 1]) = [VList [Int32 1, Int32 2], VList []]"
  by code_simp

end
