(* ===== verification/Merging.thy ===== *)
theory Merging
  imports Conversion Expressions
begin

text \<open>
  Merging of values (network/value/value_algorithms.hpp): the template \<open>value_merger\<close>, whose parameter says if the
  source replaces a value that is there, and the reading of a list by an index path. A merge changes its first
  argument in the code; here it returns it.
\<close>

section \<open>Merging\<close>

definition write_float :: "value_t \<Rightarrow> f32 \<Rightarrow> f32" where
  "write_float v f = (case v of Int32 i \<Rightarrow> int_to_f32 i | Float g \<Rightarrow> g | Bool b \<Rightarrow> Fin (of_int (bool_num b)) | _ \<Rightarrow> f)"

definition set_first_component :: "f32 list \<Rightarrow> value_t \<Rightarrow> f32 list" where
  "set_first_component cs v = cs[0 := write_float v (cs ! 0)]"

definition write_components :: "f32 list \<Rightarrow> value_t list \<Rightarrow> f32 list" where
  "write_components cs vs = List.map (\<lambda>(v, f). write_float v f) (zip vs cs) @ drop (length vs) cs"

definition copy_components :: "'a list \<Rightarrow> 'a list \<Rightarrow> 'a list" where
  "copy_components cs ds = take (length cs) ds @ drop (length ds) cs"

text \<open>A list that is too short is extended with null values.\<close>

definition resized :: "nat \<Rightarrow> value_t list \<Rightarrow> value_t list" where
  "resized n vs = vs @ replicate (n - length vs) Null"

fun merge_value :: "bool \<Rightarrow> value_t \<Rightarrow> value_t \<Rightarrow> value_t"
  and merge_list :: "bool \<Rightarrow> value_t list \<Rightarrow> value_t list \<Rightarrow> value_t list" where
  "merge_value sp d s =
     (case d of
        Null \<Rightarrow> s
      | VList t \<Rightarrow>
          (case s of
             VList r \<Rightarrow> VList (merge_list sp t r)
           | _ \<Rightarrow>
               (case components s of
                  Some cs \<Rightarrow> VList (copy_components (resized (length cs) t) (List.map Float cs))
                | None \<Rightarrow> (case t of [] \<Rightarrow> VList [s] | x # xs \<Rightarrow> VList (merge_value sp x s # xs))))
      | _ \<Rightarrow>
          (if s = Null then d
           else case components d of
             Some ds \<Rightarrow>
               (case s of
                  VList r \<Rightarrow> make_vec (write_components ds r)
                | _ \<Rightarrow>
                    (case components s of
                       Some cs \<Rightarrow> make_vec (copy_components ds cs)
                     | None \<Rightarrow> make_vec (set_first_component ds s)))
           | None \<Rightarrow> (if get_type s = LIST \<or> components s \<noteq> None then d else if sp then s else d)))"
| "merge_list sp [] rs = rs"
| "merge_list sp (l # ls) [] = l # ls"
| "merge_list sp (l # ls) (r # rs) = merge_value sp l r # merge_list sp ls rs"

declare merge_value.simps [simp del]

definition set_first_value :: "bool \<Rightarrow> value_t list \<Rightarrow> value_t \<Rightarrow> value_t list" where
  "set_first_value sp t v = (case t of [] \<Rightarrow> [v] | x # xs \<Rightarrow> merge_value sp x v # xs)"

section \<open>Index paths\<close>

text \<open>On the way, a cell that is no list becomes one with the cell in it. Negative indices, with which the code would
  resize to a huge length, are left out.\<close>

definition sub_list :: "value_t \<Rightarrow> value_t list" where
  "sub_list c = (case c of VList s \<Rightarrow> s | _ \<Rightarrow> [c])"

fun insert_in_list :: "bool \<Rightarrow> nat list \<Rightarrow> value_t \<Rightarrow> value_t list \<Rightarrow> value_t list" where
  "insert_in_list sp [] v t = t"
| "insert_in_list sp (p # idx) v t =
     (let cur = resized (p + 1) t
      in cur[p := if idx = [] then merge_value sp (cur ! p) v else VList (insert_in_list sp idx v (sub_list (cur ! p)))])"

text \<open>The cell an insertion finds at the end of a path.\<close>

definition cell :: "value_t list \<Rightarrow> nat \<Rightarrow> value_t" where
  "cell t p = (if p < length t then t ! p else Null)"

fun cell_at :: "nat list \<Rightarrow> value_t list \<Rightarrow> value_t" where
  "cell_at [] t = VList t"
| "cell_at [p] t = cell t p"
| "cell_at (p # q # idx) t = cell_at (q # idx) (sub_list (cell t p))"

section \<open>Merging lists by index\<close>

lemma resized_facts [simp]:
  "length (resized n t) = max n (length t)" "p < max n (length t) \<Longrightarrow> resized n t ! p = cell t p"
  by (auto simp: resized_def cell_def nth_append)

lemma cell_update: "cell (t[p := x]) q = (if p = q \<and> q < length t then x else cell t q)"
  by (auto simp: cell_def nth_list_update)

lemma cell_resized [simp]: "cell (resized n t) q = cell t q"
  by (auto simp: cell_def resized_def nth_append)

lemma cell_simps [simp]: "cell [] i = Null" "cell (x # xs) 0 = x" "cell (x # xs) (Suc i) = cell xs i"
  by (simp_all add: cell_def)

lemma merge_null [simp]: "merge_value sp Null s = s"
  by (simp add: merge_value.simps)

lemma merge_list_cells:
  "length (merge_list sp ls rs) = max (length ls) (length rs)"
  "cell (merge_list sp ls rs) i = (if i < length rs then merge_value sp (cell ls i) (rs ! i) else cell ls i)"
proof (induction ls arbitrary: rs i)
  case Nil
  { case 1 then show ?case by simp next case 2 then show ?case by (simp add: cell_def) }
next
  case (Cons l ls)
  { case 1 then show ?case by (cases rs) (simp_all add: Cons.IH(1))
  next case 2 then show ?case by (cases rs; cases i) (simp_all add: Cons.IH(2)) }
qed

lemma insert_length: "length (insert_in_list sp (p # idx) v t) = max (p + 1) (length t)"
  by (simp add: Let_def)

lemma cell_insert:
  "cell (insert_in_list sp (p # idx) v t) q =
     (if q = p then (if idx = [] then merge_value sp (cell t p) v else VList (insert_in_list sp idx v (sub_list (cell t p)))) else cell t q)"
  by (simp add: Let_def cell_update less_max_iff_disj)

text \<open>A value inserted at an index path is merged with the cell it finds there, the value read back at the path is the merge,
  and every path that parts from it leads to the cell it led to before.\<close>

theorem insert_in_list_correct:
  assumes "idx \<noteq> []"
  shows "cell_at idx (insert_in_list sp idx v t) = merge_value sp (cell_at idx t) v
    \<and> get_value_at_index (VList (insert_in_list sp idx v t)) idx = merge_value sp (cell_at idx t) v
    \<and> (\<forall>other common p q ps qs. idx = common @ p # ps \<and> other = common @ q # qs \<and> p \<noteq> q \<longrightarrow>
         cell_at other (insert_in_list sp idx v t) = cell_at other t)"
proof -
  have here: "cell_at idx (insert_in_list sp idx v t) = merge_value sp (cell_at idx t) v" if "idx \<noteq> []" for idx t
    using that by (induction idx t rule: cell_at.induct) (simp_all add: cell_insert sub_list_def del: insert_in_list.simps)
  have read: "retrieve idx (VList (insert_in_list sp idx v t)) = cell_at idx (insert_in_list sp idx v t)" if "idx \<noteq> []" for idx t
    using that
  proof (induction idx t rule: cell_at.induct)
    case (2 p t)
    have "p < length (insert_in_list sp [p] v t)" unfolding insert_length by simp
    then show ?case by (simp add: cell_def del: insert_in_list.simps)
  next
    case (3 p q idx t)
    have l: "p < length (insert_in_list sp (p # q # idx) v t)" unfolding insert_length by simp
    then have "insert_in_list sp (p # q # idx) v t ! p = VList (insert_in_list sp (q # idx) v (sub_list (cell t p)))"
      using cell_insert[of sp p "q # idx" v t p] by (simp add: cell_def del: insert_in_list.simps)
    then show ?case using 3 l by (simp add: cell_insert sub_list_def del: insert_in_list.simps)
  qed simp
  have apart: "cell_at (common @ q # qs) (insert_in_list sp (common @ p # ps) v t) = cell_at (common @ q # qs) t"
    if "p \<noteq> q" for common p q ps qs t
    using that
  proof (induction common arbitrary: t)
    case Nil
    then show ?case by (cases qs) (simp_all add: cell_insert del: insert_in_list.simps)
  next
    case (Cons c common)
    obtain r rs where r: "common @ q # qs = r # rs" by (cases common) auto
    have "common @ p # ps \<noteq> []" by simp
    then show ?case using Cons.IH[OF Cons.prems, of "sub_list (cell t c)"] unfolding append_Cons r
      by (simp add: cell_insert sub_list_def del: insert_in_list.simps)
  qed
  show ?thesis using here[OF assms] read[OF assms] apart assms by (auto simp: get_value_at_index_def)
qed

lemma insert_in_list_correct_witness:
  "cell_at [1, 0] (insert_in_list True [1, 0] (Int32 9) [Int32 1, Int32 2]) = Int32 9
   \<and> cell_at [0] (insert_in_list True [1, 0] (Int32 9) [Int32 1, Int32 2]) = Int32 1"
proof -
  note c = insert_in_list_correct[of "[1, 0]" True "Int32 9" "[Int32 1, Int32 2]"]
  show ?thesis
    using c[THEN conjunct1] c[THEN conjunct2, THEN conjunct2, rule_format, of "[]" 1 "[0]" "[0]" 0 "[]"]
    by (simp add: cell_def sub_list_def merge_value.simps)
qed

section \<open>Merging again\<close>

lemma merge_list_self: "(\<And>x. x \<in> set t \<Longrightarrow> merge_value sp x x = x) \<Longrightarrow> merge_list sp t t = t"
  by (induction t) auto

lemma copy_self [simp]: "copy_components cs cs = cs" "copy_components (copy_components cs ds) ds = copy_components cs ds"
  by (simp_all add: copy_components_def min_def)

lemma length_copy [simp]: "length (copy_components cs ds) = length cs"
  by (simp add: copy_components_def)

lemma merge_self [simp]: "merge_value sp d d = d"
proof (induction d)
  case (VList xs)
  then show ?case by (simp add: merge_value.simps merge_list_self)
qed (simp_all add: merge_value.simps copy_components_def)

lemma merge_list_self' [simp]: "merge_list sp t t = t"
  by (simp add: merge_list_self)

lemma write_float_again [simp]: "write_float v (write_float v f) = write_float v f"
  by (cases v) (simp_all add: write_float_def)

lemma write_components_again: "write_components (write_components cs vs) vs = write_components cs vs"
  by (rule nth_equalityI) (auto simp: write_components_def nth_append)

lemma length_write [simp]: "length (write_components cs vs) = length cs" "length (set_first_component cs v) = length cs"
  by (auto simp: write_components_def set_first_component_def)

lemma set_first_again: "set_first_component (set_first_component cs v) v = set_first_component cs v"
  by (cases cs) (simp_all add: set_first_component_def)

lemma merge_vec:
  assumes "components d = Some ds"
  shows "merge_value sp d s =
    (if s = Null then d
     else make_vec (case s of VList r \<Rightarrow> write_components ds r
       | _ \<Rightarrow> (case components s of Some cs \<Rightarrow> copy_components ds cs | None \<Rightarrow> set_first_component ds s)))"
  using assms by (cases d) (auto simp: merge_value.simps split: "value_t.split" option.split)

lemma merge_vec_again:
  assumes d: "components d = Some ds"
  shows "merge_value sp (merge_value sp d s) s = merge_value sp d s"
proof (cases "s = Null")
  case True
  then show ?thesis by (simp add: merge_vec[OF d])
next
  case False
  define ds' where "ds' = (case s of VList r \<Rightarrow> write_components ds r
       | _ \<Rightarrow> (case components s of Some cs \<Rightarrow> copy_components ds cs | None \<Rightarrow> set_first_component ds s))"
  have l: "length ds' = length ds" by (auto simp: ds'_def split: "value_t.split" option.split)
  have m: "merge_value sp d s = make_vec ds'" using False by (simp add: merge_vec[OF d] ds'_def)
  have "components (make_vec ds') = Some ds'"
    using make_vec_components[OF d] l by (simp add: components_make_vec)
  moreover have "(case s of VList r \<Rightarrow> write_components ds' r
       | _ \<Rightarrow> (case components s of Some cs \<Rightarrow> copy_components ds' cs | None \<Rightarrow> set_first_component ds' s)) = ds'"
    by (auto simp: ds'_def write_components_again set_first_again split: "value_t.split" option.split)
  ultimately show ?thesis using False by (simp add: m merge_vec)
qed

lemma merge_into_list:
  "merge_value sp (VList t) (VList r) = VList (merge_list sp t r)"
  "components s = Some cs \<Longrightarrow> merge_value sp (VList t) s = VList (copy_components (resized (length cs) t) (List.map Float cs))"
  "components s = None \<Longrightarrow> get_type s \<noteq> LIST \<Longrightarrow> merge_value sp (VList t) s = VList (set_first_value sp t s)"
  by (simp add: merge_value.simps, (cases s; simp add: merge_value.simps set_first_value_def split: list.split)+)

lemma merge_scalar:
  assumes "d \<noteq> Null" and "components d = None" and "get_type d \<noteq> LIST"
  shows "merge_value sp d s = (if s = Null \<or> get_type s = LIST \<or> components s \<noteq> None \<or> \<not> sp then d else s)"
  using assms by (cases d) (simp_all add: merge_value.simps)

text \<open>Merging a value a second time changes nothing more, whichever of the two values has precedence.\<close>

theorem merge_value_again: "merge_value sp (merge_value sp d s) s = merge_value sp d s"
proof -
  have "merge_value sp (merge_value sp d s) s = merge_value sp d s"
    "merge_list sp (merge_list sp ls rs) rs = merge_list sp ls rs" for d s ls rs
  proof (induction sp d s and sp ls rs rule: merge_value_merge_list.induct)
    case (1 sp d s)
    consider t where "d = VList t" | ds where "components d = Some ds" | "d = Null"
      | "d \<noteq> Null" "components d = None" "get_type d \<noteq> LIST"
      by (cases d) auto
    then show ?case
    proof cases
      case VList: (1 t)
      show ?thesis
      proof (cases "\<exists>r. s = VList r")
        case True
        then show ?thesis using VList 1 by (auto simp: merge_into_list)
      next
        case False
        then have g: "get_type s \<noteq> LIST" by (cases s) auto
        show ?thesis
        proof (cases "components s")
          case None
          show ?thesis
          proof (cases t)
            case (Cons x xs)
            then have "merge_value sp (merge_value sp x s) s = merge_value sp x s" using 1 VList None g by (cases s) auto
            then show ?thesis using Cons by (simp add: VList merge_into_list(3)[OF None g] set_first_value_def)
          qed (simp add: VList merge_into_list(3)[OF None g] set_first_value_def)
        next
          case (Some cs)
          have "resized (length cs) (copy_components (resized (length cs) t) (List.map Float cs))
              = copy_components (resized (length cs) t) (List.map Float cs)"
            by (simp add: resized_def[of _ "copy_components _ _"])
          then show ?thesis by (simp add: VList merge_into_list(2)[OF Some])
        qed
      qed
    next
      case 4
      then show ?thesis by (simp add: merge_scalar)
    qed (simp_all add: merge_vec_again)
  qed auto
  then show ?thesis by blast
qed

end
