(* ===== verification/States.thy ===== *)
theory States
  imports Merging
begin

text \<open>
  States and messages (editor/state: message.hpp, message.cpp, state.hpp, state.cpp, flat_state.hpp, flat_vec_state.hpp,
  detail/state_flatten_visitor.hpp): the elements of a state, the merging of two elements for one parameter, the
  flattening of nested states, and what launching pushes to the parameters. The type of a parameter and the one a
  unit asks for are the parameter \<open>param_types\<close>. An index past the end of a bit set throws; one past the end of a
  list is read without a test in the code, and is the error \<open>Out_of_range\<close> too.
\<close>

record param_types =
  pt_value :: "nat \<Rightarrow> val_type"
  pt_unit :: "nat \<Rightarrow> val_type"

datatype state_error = Null_value | Out_of_range | Impossible_case

datatype state_element =
    No_element
  | Message destination "value_t"
  | State "state_element list"
  | Piecewise nat "value_t list" "nat option"
  | Piecewise_vec nat "f32 list" "nat option" "bool list"

section \<open>Comparing elements\<close>

fun element_eq :: "state_element \<Rightarrow> state_element \<Rightarrow> bool"
  and elements_eq :: "state_element list \<Rightarrow> state_element list \<Rightarrow> bool" where
  "element_eq No_element No_element = True"
| "element_eq (Message d v) (Message e w) = (destination_eq d e \<and> value_eq v w)"
| "element_eq (State xs) (State ys) = elements_eq xs ys"
| "element_eq (Piecewise a vs u) (Piecewise b ws t) = (a = b \<and> list_all2 value_eq vs ws \<and> u = t)"
| "element_eq (Piecewise_vec a vs u us) (Piecewise_vec b ws t ts) =
     (length vs = length ws \<and> a = b \<and> list_all2 f32_eq vs ws \<and> u = t \<and> us = ts)"
| "element_eq _ _ = False"
| "elements_eq [] [] = True"
| "elements_eq (x # xs) (y # ys) = (element_eq x y \<and> elements_eq xs ys)"
| "elements_eq _ _ = False"

section \<open>Merging into a vector\<close>

definition is_vec_type :: "val_type \<Rightarrow> bool" where
  "is_vec_type t \<longleftrightarrow> t \<in> {VEC2F, VEC3F, VEC4F}"

definition same_vec_type :: "value_t \<Rightarrow> value_t \<Rightarrow> bool" where
  "same_vec_type l r \<longleftrightarrow> get_type l = get_type r \<and> is_vec_type (get_type l)"

definition set_used :: "nat \<Rightarrow> bool list \<Rightarrow> state_error + bool list" where
  "set_used i us = (if i < length us then Inr (us[i := True]) else Inl Out_of_range)"

definition two_used :: "nat \<Rightarrow> nat \<Rightarrow> nat \<Rightarrow> state_error + bool list" where
  "two_used n i j = bind_sum (set_used i (replicate n False)) (set_used j)"

definition put :: "nat \<Rightarrow> 'a \<Rightarrow> 'a list \<Rightarrow> 'a list" where
  "put i x xs = (if i < length xs then xs[i := x] else xs)"

definition make_piecewise_from_floats :: "nat \<Rightarrow> destination \<Rightarrow> destination \<Rightarrow> f32 \<Rightarrow> f32 \<Rightarrow> state_element" where
  "make_piecewise_from_floats n ex inc orig incoming =
     (let i = hd (d_index ex); j = hd (d_index inc)
      in Piecewise_vec (d_parameter ex) (put j incoming (put i orig (zeros n))) (d_unit inc) (put j True (put i True (replicate n False))))"

definition merge_floats :: "param_types \<Rightarrow> destination \<Rightarrow> destination \<Rightarrow> f32 \<Rightarrow> f32 \<Rightarrow> state_element" where
  "merge_floats pt ex inc orig incoming =
     (let t = (case d_unit inc of Some u \<Rightarrow> pt_unit pt u | None \<Rightarrow> pt_value pt (d_parameter ex))
      in if d_index ex \<noteq> [] \<and> d_index inc \<noteq> [] \<and> d_index ex \<noteq> d_index inc \<and> is_vec_type t
         then make_piecewise_from_floats (vec_size t) ex inc orig incoming
         else Message inc (Float incoming))"

text \<open>Two messages that set different components become one that knows which components it sets.\<close>

definition piecewise_of :: "destination \<Rightarrow> destination \<Rightarrow> f32 list \<Rightarrow> state_element \<Rightarrow> state_error + f32 list \<times> state_element" where
  "piecewise_of ex inc cs otherwise =
     (if d_index ex \<noteq> d_index inc \<and> d_index ex \<noteq> []
      then bind_sum (two_used (length cs) (hd (d_index ex)) (hd (d_index inc)))
             (\<lambda>us. Inr (cs, Piecewise_vec (d_parameter ex) cs (d_unit inc) us))
      else Inr (cs, otherwise))"

definition merge_vec_float :: "destination \<Rightarrow> destination \<Rightarrow> f32 list \<Rightarrow> f32 \<Rightarrow> state_error + f32 list \<times> state_element" where
  "merge_vec_float ex inc cs f =
     (case d_index inc of
        [] \<Rightarrow> Inr (cs, No_element)
      | i # _ \<Rightarrow> let ds = put i f cs in piecewise_of ex inc ds (Message ex (make_vec ds)))"

definition merge_vec_vec :: "destination \<Rightarrow> destination \<Rightarrow> f32 list \<Rightarrow> f32 list \<Rightarrow> state_error + f32 list \<times> state_element" where
  "merge_vec_vec ex inc cs ds =
     (case d_index inc of
        [] \<Rightarrow> Inr (ds, No_element)
      | i # _ \<Rightarrow> piecewise_of ex inc (put i (ds ! i) cs) No_element)"

definition merge_vec_list :: "destination \<Rightarrow> destination \<Rightarrow> f32 list \<Rightarrow> value_t list \<Rightarrow> state_error + f32 list \<times> state_element" where
  "merge_vec_list ex inc cs vs =
     (case d_index inc of
        [] \<Rightarrow> Inr (write_components cs vs, No_element)
      | i # _ \<Rightarrow>
          if i < length cs \<and> length vs \<le> i then Inl Out_of_range
          else piecewise_of ex inc (put i (write_float (vs ! i) (cs ! i)) cs) No_element)"

definition vec_merger :: "param_types \<Rightarrow> destination \<Rightarrow> destination \<Rightarrow> value_t \<Rightarrow> value_t \<Rightarrow> state_error + value_t \<times> state_element" where
  "vec_merger pt ex inc cur v =
     (let vec = (\<lambda>r. bind_sum r (\<lambda>(cs, e). Inr (make_vec cs, e)))
      in if cur = Null \<or> v = Null then Inl Null_value
         else
           (case (components cur, components v) of
              (Some cs, Some ds) \<Rightarrow> if length cs = length ds then vec (merge_vec_vec ex inc cs ds) else Inr (cur, No_element)
            | (Some cs, None) \<Rightarrow>
                (case v of Float f \<Rightarrow> vec (merge_vec_float ex inc cs f) | VList vs \<Rightarrow> vec (merge_vec_list ex inc cs vs)
                 | _ \<Rightarrow> Inr (cur, No_element))
            | (None, Some ds) \<Rightarrow>
                (case cur of Float f \<Rightarrow> bind_sum (merge_vec_float inc ex ds f) (\<lambda>(_, e). Inr (cur, e)) | _ \<Rightarrow> Inr (cur, No_element))
            | (None, None) \<Rightarrow>
                (case (cur, v) of (Float a, Float b) \<Rightarrow> Inr (cur, merge_floats pt ex inc a b) | _ \<Rightarrow> Inr (cur, No_element))))"

section \<open>Merging two elements\<close>

definition remove_at :: "nat \<Rightarrow> 'a list \<Rightarrow> 'a list" where
  "remove_at k xs = take k xs @ drop (Suc k) xs"

definition both_in_list :: "destination \<Rightarrow> destination \<Rightarrow> value_t \<Rightarrow> value_t \<Rightarrow> value_t list" where
  "both_in_list ex inc cur v =
     (if d_index inc \<noteq> [] \<and> d_index ex \<noteq> [] then insert_in_list True (d_index inc) v (insert_in_list True (d_index ex) cur [])
      else if d_index inc \<noteq> [] then insert_in_list True (d_index inc) v [cur]
      else set_first_value True (insert_in_list True (d_index ex) cur []) v)"

text \<open>Flag \<open>m\<close>: values without an index are merged, not kept beside each other.\<close>

definition merge_messages ::
    "param_types \<Rightarrow> bool \<Rightarrow> nat \<Rightarrow> destination \<Rightarrow> value_t \<Rightarrow> destination \<Rightarrow> value_t \<Rightarrow> state_element list \<Rightarrow> state_error + state_element list" where
  "merge_messages pt m k ex cur inc v st =
     (if valid v \<and> (same_vec_type cur v \<or> is_vec_type (pt_value pt (d_parameter ex))) then
        bind_sum (vec_merger pt ex inc cur v) (\<lambda>(cur', e).
          Inr (if e \<noteq> No_element then remove_at k st @ [e] else st[k := Message ex cur']))
      else if d_index inc = [] \<and> d_index ex = [] then
        Inr (if m then st[k := Message ex (merge_value True cur v)] else st @ [Message inc v])
      else Inr (remove_at k st @ [Piecewise (d_parameter inc) (both_in_list ex inc cur v) (d_unit inc)]))"

definition insert_or_first :: "bool \<Rightarrow> nat list \<Rightarrow> value_t \<Rightarrow> value_t list \<Rightarrow> value_t list" where
  "insert_or_first sp idx v vs = (if idx = [] then set_first_value sp vs v else insert_in_list sp idx v vs)"

text \<open>A message goes into a vector of which some components are set: a float with an index, or a vector of the same size.\<close>

definition message_into_vec :: "nat list \<Rightarrow> value_t \<Rightarrow> f32 list \<Rightarrow> bool list \<Rightarrow> f32 list \<times> bool list" where
  "message_into_vec idx v cs us =
     (case v of
        Float f \<Rightarrow> (case idx of i # _ \<Rightarrow> (put i f cs, put i True us) | [] \<Rightarrow> (cs, us))
      | _ \<Rightarrow>
          (case components v of
             Some ds \<Rightarrow>
               if length ds = length cs then (case idx of i # _ \<Rightarrow> (put i (ds ! i) cs, put i True us) | [] \<Rightarrow> (ds, us)) else (cs, us)
           | None \<Rightarrow> (cs, us)))"

definition used_over :: "f32 list \<Rightarrow> bool list \<Rightarrow> f32 list \<Rightarrow> f32 list" where
  "used_over ds us cs = List.map (\<lambda>(d, u, c). if u then d else c) (zip ds (zip us cs))"

fun merge_element ::
    "param_types \<Rightarrow> bool \<Rightarrow> nat \<Rightarrow> state_element \<Rightarrow> state_element \<Rightarrow> state_element list \<Rightarrow> state_error + state_element list" where
  "merge_element pt m k (Message ex cur) (Message inc v) st = merge_messages pt m k ex cur inc v st"
| "merge_element pt m k (Piecewise a vs u) (Message inc v) st = Inr (st[k := Piecewise a (insert_or_first True (d_index inc) v vs) u])"
| "merge_element pt m k (Piecewise_vec a cs u us) (Message inc v) st =
     (let (ds, ts) = message_into_vec (d_index inc) v cs us in Inr (st[k := Piecewise_vec a ds u ts]))"
| "merge_element pt m k (Message ex cur) (Piecewise a vs u) st =
     Inr (filter (\<lambda>e. \<not> element_eq e (Piecewise a vs u)) (remove_at k st) @ [Piecewise a (insert_or_first False (d_index ex) cur vs) u])"
| "merge_element pt m k (Piecewise a vs u) (Piecewise b ws t) st = Inr (st[k := Piecewise a (merge_list True vs ws) u])"
| "merge_element pt m k (Piecewise_vec a cs u us) (Piecewise_vec b ds t ts) st =
     (if length cs = length ds
      then Inr (st[k := Piecewise_vec a (used_over ds ts cs) u (map2 (\<or>) ts us)]) else Inl Impossible_case)"
| "merge_element pt m k No_element incoming st = Inr st"
| "merge_element pt m k _ _ st = Inl Impossible_case"

section \<open>Flattening\<close>

fun element_key :: "state_element \<Rightarrow> (nat \<times> nat option) option" where
  "element_key (Message d v) = Some (d_parameter d, d_unit d)"
| "element_key (Piecewise a vs u) = Some (a, u)"
| "element_key (Piecewise_vec a cs u us) = Some (a, u)"
| "element_key _ = None"

text \<open>With \<open>same\<close> the elements are known to be for one parameter, and only the units are compared.\<close>

definition same_param :: "bool \<Rightarrow> nat \<times> nat option \<Rightarrow> state_element \<Rightarrow> bool" where
  "same_param same key e = (case element_key e of Some k \<Rightarrow> snd k = snd key \<and> (same \<or> fst k = fst key) | None \<Rightarrow> False)"

fun find_index :: "('a \<Rightarrow> bool) \<Rightarrow> 'a list \<Rightarrow> nat option" where
  "find_index p [] = None"
| "find_index p (x # xs) = (if p x then Some 0 else map_option Suc (find_index p xs))"

definition flatten_message :: "param_types \<Rightarrow> bool \<Rightarrow> bool \<Rightarrow> nat \<times> nat option \<Rightarrow> state_element \<Rightarrow> state_element list \<Rightarrow> state_error + state_element list" where
  "flatten_message pt m same key e st =
     (case find_index (same_param same key) st of
        None \<Rightarrow> Inr (st @ [e])
      | Some k \<Rightarrow> merge_element pt m k (st ! k) e st)"

fun flatten :: "param_types \<Rightarrow> bool \<Rightarrow> bool \<Rightarrow> state_element \<Rightarrow> state_element list \<Rightarrow> state_error + state_element list"
  and flatten_all :: "param_types \<Rightarrow> bool \<Rightarrow> bool \<Rightarrow> state_element list \<Rightarrow> state_element list \<Rightarrow> state_error + state_element list" where
  "flatten pt m same (State es) st = flatten_all pt m same es st"
| "flatten pt m same No_element st = Inr st"
| "flatten pt m same e st = (case element_key e of Some key \<Rightarrow> flatten_message pt m same key e st | None \<Rightarrow> Inr st)"
| "flatten_all pt m same [] st = Inr st"
| "flatten_all pt m same (e # es) st = bind_sum (flatten pt m same e st) (flatten_all pt m same es)"

definition flatten_and_filter :: "param_types \<Rightarrow> state_element list \<Rightarrow> state_element \<Rightarrow> state_error + state_element list" where
  "flatten_and_filter pt st e = flatten pt False False e st"

definition merge_flatten_and_filter :: "param_types \<Rightarrow> state_element list \<Rightarrow> state_element \<Rightarrow> state_error + state_element list" where
  "merge_flatten_and_filter pt st e = flatten pt True False e st"

text \<open>A state keeps its own elements only when they are not null.\<close>

definition state_add :: "state_element \<Rightarrow> state_element list \<Rightarrow> state_element list" where
  "state_add e st = (if e \<noteq> No_element then st @ [e] else st)"

definition state_remove :: "state_element \<Rightarrow> state_element list \<Rightarrow> state_element list" where
  "state_remove e st = filter (\<lambda>x. \<not> element_eq x e) st"

text \<open>\<open>mono_state\<close> has room for one element: adding replaces it and removing does nothing.\<close>

definition mono_flatten :: "param_types \<Rightarrow> state_element \<Rightarrow> state_element \<Rightarrow> state_error + state_element" where
  "mono_flatten pt e incoming =
     (if e = No_element then Inr incoming
      else bind_sum (merge_element pt False 0 e incoming [e]) (\<lambda>st. Inr (last st)))"

text \<open>\<open>flat_set_state\<close> has one element for a parameter and a unit; a state cannot be added to it, nor a null element.\<close>

type_synonym flat_set_state = "nat \<times> nat option \<Rightarrow> state_element option"

definition flat_set_add :: "state_element \<Rightarrow> flat_set_state \<Rightarrow> state_error + flat_set_state" where
  "flat_set_add e m = (case element_key e of Some key \<Rightarrow> Inr (m(key := Some e)) | None \<Rightarrow> Inl Impossible_case)"

definition flat_set_find :: "state_element \<Rightarrow> flat_set_state \<Rightarrow> state_element option" where
  "flat_set_find e m = (case element_key e of Some key \<Rightarrow> m key | None \<Rightarrow> None)"

definition flat_set_remove :: "state_element \<Rightarrow> flat_set_state \<Rightarrow> flat_set_state" where
  "flat_set_remove e m = (case element_key e of Some key \<Rightarrow> m(key := None) | None \<Rightarrow> m)"

section \<open>Launching\<close>

text \<open>The conversions between units and the effect of pushing a value to a parameter are parameters: a value from a unit to the one
  of the parameter, and the current value put in a unit, merged there with a value at an index or with components,
  and taken back.\<close>

record push_env =
  pe_types :: param_types
  pe_convert :: "value_t \<Rightarrow> nat \<Rightarrow> nat option \<Rightarrow> value_t"
  pe_merge :: "value_t \<Rightarrow> nat option \<Rightarrow> nat \<Rightarrow> value_t \<Rightarrow> nat list \<Rightarrow> value_t"
  pe_merge_used :: "value_t \<Rightarrow> nat option \<Rightarrow> nat \<Rightarrow> f32 list \<Rightarrow> bool list \<Rightarrow> value_t"
  pe_push :: "nat \<Rightarrow> value_t \<Rightarrow> (nat \<Rightarrow> parameter_state) \<Rightarrow> nat \<Rightarrow> parameter_state"

text \<open>The parameters, and what was pushed to them in this order.\<close>

type_synonym pushed = "(nat \<Rightarrow> parameter_state) \<times> (nat \<times> value_t) list"

definition push_value :: "push_env \<Rightarrow> nat \<Rightarrow> value_t \<Rightarrow> pushed \<Rightarrow> state_error + pushed" where
  "push_value pe a v w = Inr (pe_push pe a v (fst w), snd w @ [(a, v)])"

definition launch_message :: "push_env \<Rightarrow> destination \<Rightarrow> value_t \<Rightarrow> pushed \<Rightarrow> state_error + pushed" where
  "launch_message pe d v w =
     (let a = d_parameter d; cur = p_value (fst w a); au = p_unit (fst w a); push = (\<lambda>x. push_value pe a x w)
      in if d_index d = [] then
           (case d_unit d of
              None \<Rightarrow> push v
            | Some u \<Rightarrow> push (if au = Some u then v else pe_convert pe v u au))
         else if d_unit d = None \<or> au = None \<or> d_unit d = au then
           (if is_vec_type (get_type cur) then bind_sum (vec_merger (pe_types pe) d d cur v) (\<lambda>(cur', _). push cur')
            else push (VList (insert_in_list True (d_index d) v (sub_list cur))))
         else push (pe_merge pe cur au (the (d_unit d)) v (d_index d)))"

definition launch_piecewise :: "push_env \<Rightarrow> nat \<Rightarrow> value_t list \<Rightarrow> pushed \<Rightarrow> state_error + pushed" where
  "launch_piecewise pe a vs w =
     push_value pe a (case p_value (fst w a) of VList xs \<Rightarrow> VList (merge_list True xs vs) | _ \<Rightarrow> VList vs) w"

text \<open>Components that are not all set are merged with those of the parameter, if it has a vector of that size.\<close>

definition launch_piecewise_vec :: "push_env \<Rightarrow> nat \<Rightarrow> f32 list \<Rightarrow> nat option \<Rightarrow> bool list \<Rightarrow> pushed \<Rightarrow> state_error + pushed" where
  "launch_piecewise_vec pe a cs u us w =
     (let cur = p_value (fst w a); au = p_unit (fst w a); push = (\<lambda>x. push_value pe a x w)
      in if u = None \<or> au = None \<or> u = au then
           (if list_all (\<lambda>b. b) us then push (make_vec cs)
            else (case components cur of
                    Some ds \<Rightarrow> if length ds = length cs then push (make_vec (used_over cs us ds)) else Inr w
                  | None \<Rightarrow> Inr w))
         else if list_all (\<lambda>b. b) us then push (pe_convert pe (make_vec cs) (the u) au)
         else push (pe_merge_used pe cur au (the u) cs us))"

fun launch :: "push_env \<Rightarrow> state_element \<Rightarrow> pushed \<Rightarrow> state_error + pushed"
  and launch_all :: "push_env \<Rightarrow> state_element list \<Rightarrow> pushed \<Rightarrow> state_error + pushed" where
  "launch pe No_element w = Inr w"
| "launch pe (Message d v) w = launch_message pe d v w"
| "launch pe (State es) w = launch_all pe es w"
| "launch pe (Piecewise a vs u) w = launch_piecewise pe a vs w"
| "launch pe (Piecewise_vec a cs u us) w = launch_piecewise_vec pe a cs u us w"
| "launch_all pe [] w = Inr w"
| "launch_all pe (e # es) w = bind_sum (launch pe e w) (launch_all pe es)"

end
