(* ===== verification/StateProps.thy ===== *)
theory StateProps
  imports States
begin

text \<open>
  What flattening guarantees: a flat state stays flat and has one element for each parameter and unit that is named,
  and for plain messages launching the flattened state leaves every parameter as launching them one by one does.
\<close>

section \<open>Flat states\<close>

definition keys_of :: "state_element list \<Rightarrow> (nat \<times> nat option) option list" where
  "keys_of st = List.map element_key st"

definition flat_state :: "state_element list \<Rightarrow> bool" where
  "flat_state st \<longleftrightarrow> None \<notin> set (keys_of st) \<and> distinct (keys_of st)"

fun named :: "state_element \<Rightarrow> (nat \<times> nat option) set"
  and named_all :: "state_element list \<Rightarrow> (nat \<times> nat option) set" where
  "named (State es) = named_all es"
| "named e = (case element_key e of Some key \<Rightarrow> {key} | None \<Rightarrow> {})"
| "named_all [] = {}"
| "named_all (e # es) = named e \<union> named_all es"

definition names :: "state_element list \<Rightarrow> (nat \<times> nat option) set" where
  "names st = {key. Some key \<in> set (keys_of st)}"

lemma find_index_Some: "find_index p xs = Some k \<Longrightarrow> k < length xs \<and> p (xs ! k)"
  by (induction xs arbitrary: k) (auto split: if_splits)

lemma find_index_None: "find_index p xs = None \<longleftrightarrow> (\<forall>x \<in> set xs. \<not> p x)"
  by (induction xs) auto

lemma same_param_False: "same_param False key e \<longleftrightarrow> element_key e = Some key"
  by (auto simp: same_param_def prod_eq_iff split: option.splits)

lemma flat_state_update:
  assumes "flat_state st" and "k < length st" and "element_key e = element_key (st ! k)"
  shows "flat_state (st[k := e])" "names (st[k := e]) = names st"
proof -
  have "keys_of (st[k := e]) = keys_of st"
    using assms(2,3) by (simp add: keys_of_def map_update list_update_same_conv)
  then show "flat_state (st[k := e])" "names (st[k := e]) = names st" using assms(1) by (simp_all add: flat_state_def names_def)
qed

lemma keys_remove_at: "keys_of (remove_at k st) = remove_at k (keys_of st)"
  by (simp add: keys_of_def remove_at_def take_map drop_map)

lemma remove_at_split: "k < length xs \<Longrightarrow> xs = take k xs @ xs ! k # drop (Suc k) xs"
  by (rule id_take_nth_drop)

lemma distinct_remove_at:
  assumes "k < length xs" and "distinct xs"
  shows "distinct (remove_at k xs)" "set (remove_at k xs) = set xs - {xs ! k}"
proof -
  have "distinct (take k xs @ xs ! k # drop (Suc k) xs)" using remove_at_split[OF assms(1)] assms(2) by metis
  moreover have "set xs = set (take k xs @ xs ! k # drop (Suc k) xs)" using remove_at_split[OF assms(1)] by metis
  ultimately show "distinct (remove_at k xs)" "set (remove_at k xs) = set xs - {xs ! k}" by (auto simp: remove_at_def)
qed

lemma flat_state_replace:
  assumes "flat_state st" and "k < length st" and "element_key e = element_key (st ! k)" and "sub = filter p (remove_at k st)"
    and "\<And>x. \<not> p x \<Longrightarrow> element_key x = element_key e"
  shows "flat_state (sub @ [e])" "names (sub @ [e]) = names st"
proof -
  have k: "k < length (keys_of st)" "keys_of st ! k = element_key e" using assms(2,3) by (simp_all add: keys_of_def)
  have d: "distinct (keys_of (remove_at k st))" "set (keys_of (remove_at k st)) = set (keys_of st) - {element_key e}"
    using distinct_remove_at[OF k(1)] assms(1) k(2) by (simp_all add: keys_remove_at flat_state_def)
  have "filter p (remove_at k st) = remove_at k st"
    using assms(5) d(2) by (intro filter_True) (force simp: keys_of_def)
  then have e: "keys_of (sub @ [e]) = keys_of (remove_at k st) @ [element_key e]" by (simp add: assms(4) keys_of_def)
  have "element_key e \<in> set (keys_of st)" using nth_mem[OF k(1)] k(2) by metis
  then have s: "set (keys_of (sub @ [e])) = set (keys_of st)" unfolding e set_append d(2) by auto
  have "distinct (keys_of (sub @ [e]))" unfolding e using d by simp
  then show "flat_state (sub @ [e])" "names (sub @ [e]) = names st"
    using s assms(1) by (simp_all add: flat_state_def names_def)
qed

lemma flat_state_append: "flat_state st \<Longrightarrow> element_key e = Some key \<Longrightarrow> key \<notin> names st \<Longrightarrow> flat_state (st @ [e]) \<and> names (st @ [e]) = insert key (names st)"
  by (auto simp: flat_state_def names_def keys_of_def)

lemmas flat_state_replace' = flat_state_replace[where p = "\<lambda>_. True", simplified]

text \<open>What a merge of two messages produces is for their parameter.\<close>

lemma piecewise_of_key:
  assumes "piecewise_of ex inc cs e = Inr (ds, r)" and "r \<noteq> No_element" and "d_unit inc = d_unit ex"
    and "e \<noteq> No_element \<Longrightarrow> element_key e = Some (d_parameter ex, d_unit ex)"
  shows "element_key r = Some (d_parameter ex, d_unit ex)"
  using assms by (auto simp: piecewise_of_def bind_sum_Inr split: if_splits)

lemma vec_merger_key:
  assumes r: "vec_merger pt ex inc cur v = Inr (cur', r)" and n: "r \<noteq> No_element"
    and same: "d_parameter inc = d_parameter ex" "d_unit inc = d_unit ex"
  shows "element_key r = Some (d_parameter ex, d_unit ex)"
proof -
  have vf: "element_key e = Some (d_parameter ex, d_unit ex)" if "merge_vec_float a b cs f = Inr (ds, e)" "e \<noteq> No_element"
    "a = ex \<and> b = inc \<or> a = inc \<and> b = ex" for a b cs f ds e
    using that same by (auto simp: merge_vec_float_def Let_def split: list.splits dest!: piecewise_of_key)
  have vv: "element_key e = Some (d_parameter ex, d_unit ex)" if "merge_vec_vec ex inc cs fs = Inr (ds, e)" "e \<noteq> No_element" for cs fs ds e
    using that same by (auto simp: merge_vec_vec_def split: list.splits dest!: piecewise_of_key)
  have vl: "element_key e = Some (d_parameter ex, d_unit ex)" if "merge_vec_list ex inc cs vs = Inr (ds, e)" "e \<noteq> No_element" for cs vs ds e
    using that same by (auto simp: merge_vec_list_def split: list.splits if_splits dest!: piecewise_of_key)
  have ff: "element_key (merge_floats pt ex inc a b) = Some (d_parameter ex, d_unit ex)" for a b
    using same by (simp add: merge_floats_def make_piecewise_from_floats_def Let_def)
  show ?thesis using r n
    by (auto simp: vec_merger_def Let_def bind_sum_Inr ff split: if_splits option.splits "value_t.splits"
        intro: vf vv vl)
qed

lemma merge_messages_flat:
  assumes st: "flat_state st" "k < length st" "st ! k = Message ex cur" and same: "d_parameter inc = d_parameter ex" "d_unit inc = d_unit ex"
    and r: "merge_messages pt True k ex cur inc v st = Inr st'"
  shows "flat_state st' \<and> names st' = names st"
proof (cases "valid v \<and> (same_vec_type cur v \<or> is_vec_type (pt_value pt (d_parameter ex)))")
  case True
  then obtain cur' e where v: "vec_merger pt ex inc cur v = Inr (cur', e)"
      "st' = (if e \<noteq> No_element then remove_at k st @ [e] else st[k := Message ex cur'])"
    using r by (auto simp: merge_messages_def bind_sum_Inr)
  have "element_key e = element_key (st ! k)" if "e \<noteq> No_element" using vec_merger_key[OF v(1) that same] st(3) by simp
  then show ?thesis using v(2) st flat_state_update[OF st(1,2), of "Message ex cur'"] flat_state_replace'[OF st(1,2), of e] by auto
next
  case False
  then show ?thesis
    using r st same flat_state_update[OF st(1,2), of "Message ex (merge_value True cur v)"]
      flat_state_replace'[OF st(1,2), of "Piecewise (d_parameter inc) (both_in_list ex inc cur v) (d_unit inc)"]
    by (auto simp: merge_messages_def split: if_splits)
qed

lemma element_eq_key: "element_eq x (Piecewise a vs u) \<Longrightarrow> element_key x = Some (a, u)"
  by (cases x) auto

lemma merge_element_flat:
  assumes st: "flat_state st" "k < length st" and ek: "element_key (st ! k) = Some key" "element_key e = Some key"
    and r: "merge_element pt True k (st ! k) e st = Inr st'"
  shows "flat_state st' \<and> names st' = names st"
proof (cases "st ! k")
  case [simp]: (Message ex cur)
  show ?thesis
  proof (cases e)
    case (Message inc v)
    then show ?thesis using r ek merge_messages_flat[OF st \<open>st ! k = Message ex cur\<close>] by auto
  next
    case (Piecewise a vs u)
    then show ?thesis
      using r ek flat_state_replace[OF st, of "Piecewise a (insert_or_first False (d_index ex) cur vs) u",
          where p = "\<lambda>x. \<not> element_eq x (Piecewise a vs u)", OF _ refl] element_eq_key[of _ a vs u]
      by auto
  qed (use r ek in auto)
next
  case [simp]: (Piecewise a vs u)
  show ?thesis
    using r ek flat_state_update[OF st] by (cases e) auto
next
  case [simp]: (Piecewise_vec a cs u us)
  show ?thesis
    using r ek flat_state_update[OF st] by (cases e) (auto split: if_splits prod.splits)
qed (use ek in auto)

lemma flatten_message_flat:
  assumes "flat_state st" and "element_key e = Some key" and "flatten_message pt True False key e st = Inr st'"
  shows "flat_state st' \<and> names st' = insert key (names st)"
proof (cases "find_index (same_param False key) st")
  case None
  then have "key \<notin> names st" by (auto simp: find_index_None same_param_False names_def keys_of_def)
  then show ?thesis using flat_state_append[OF assms(1,2)] assms(3) None by (simp add: flatten_message_def)
next
  case (Some k)
  then have k: "k < length st" "element_key (st ! k) = Some key" using find_index_Some[OF Some] by (simp_all add: same_param_False)
  have "key \<in> names st" using nth_mem[OF k(1)] k(2) by (force simp: names_def keys_of_def)
  then show ?thesis using merge_element_flat[OF assms(1) k assms(2)] assms(3) Some by (auto simp: flatten_message_def)
qed

lemma flatten_flat:
  "m \<Longrightarrow> \<not> same \<Longrightarrow> flatten pt m same e st = Inr st' \<Longrightarrow> flat_state st \<Longrightarrow> flat_state st' \<and> names st' = names st \<union> named e"
  "m \<Longrightarrow> \<not> same \<Longrightarrow> flatten_all pt m same es st = Inr st' \<Longrightarrow> flat_state st \<Longrightarrow> flat_state st' \<and> names st' = names st \<union> named_all es"
proof (induction pt m same e st and pt m same es st arbitrary: st' and st'
    rule: flatten_flatten_all.induct[case_names state nothing message piecewise vectors none several])
  case (several pt m same e es st)
  then show ?case by (fastforce simp: bind_sum_Inr)
next
  case (message pt m same d v st)
  then show ?case using flatten_message_flat[of st "Message d v" "(d_parameter d, d_unit d)" pt st'] by simp
next
  case (piecewise pt m same a vs u st)
  then show ?case using flatten_message_flat[of st "Piecewise a vs u" "(a, u)" pt st'] by simp
next
  case (vectors pt m same a cs u us st)
  then show ?case using flatten_message_flat[of st "Piecewise_vec a cs u us" "(a, u)" pt st'] by simp
qed simp_all
lemma flat_step: "flatten pt True False e st = Inr st' \<Longrightarrow> flat_state st \<Longrightarrow> flat_state st'"
  using flatten_flat(1)[where m = True and same = False] by blast

text \<open>C39: Flattening with merging into a state that is flat - no state in it, no null element, and no two elements for one parameter and
  unit - keeps it flat when it succeeds, and the result has an element for exactly the parameters and units named before or in what
  was flattened, however deep it was nested.\<close>

theorem merge_flatten_keeps_flat:
  assumes "flat_state st" and "merge_flatten_and_filter pt st e = Inr st'"
  shows "flat_state st' \<and> names st' = names st \<union> named e"
  using flatten_flat(1)[where m = True and same = False] assms by (simp add: merge_flatten_and_filter_def)

text \<open>Types for examples: parameter 9 holds a vector of two floats, the others an integer.\<close>

definition demo_types :: param_types where
  "demo_types = \<lparr>pt_value = (\<lambda>a. if a = 9 then VEC2F else INT32), pt_unit = (\<lambda>_. FLOAT)\<rparr>"

definition demo_dest :: "nat \<Rightarrow> nat list \<Rightarrow> destination" where
  "demo_dest a idx = \<lparr>d_parameter = a, d_index = idx, d_unit = None\<rparr>"

lemma merge_flatten_keeps_flat_witness:
  "\<exists>st'. merge_flatten_and_filter demo_types [Message (demo_dest 1 []) (Int32 5)]
       (State [Message (demo_dest 2 []) (Int32 6), State [Message (demo_dest 1 [1]) (Int32 7)]]) = Inr st'
     \<and> flat_state st' \<and> names st' = {(1, None), (2, None)}"
proof -
  have "merge_flatten_and_filter demo_types [Message (demo_dest 1 []) (Int32 5)]
       (State [Message (demo_dest 2 []) (Int32 6), State [Message (demo_dest 1 [1]) (Int32 7)]])
     = Inr [Message (demo_dest 2 []) (Int32 6), Piecewise 1 [Int32 5, Int32 7] None]" by code_simp
  from merge_flatten_keeps_flat[OF _ this] show ?thesis
    using \<open>merge_flatten_and_filter _ _ _ = _\<close> by (auto simp: flat_state_def keys_of_def names_def demo_dest_def)
qed

section \<open>Plain messages\<close>

definition plain :: "param_types \<Rightarrow> state_element \<Rightarrow> bool" where
  "plain pt e = (case e of
       Message d v \<Rightarrow> d_index d = [] \<and> d_unit d = None \<and> valid v \<and> components v = None \<and> get_type v \<noteq> LIST
         \<and> \<not> is_vec_type (pt_value pt (d_parameter d))
     | _ \<Rightarrow> False)"

fun pair_of :: "state_element \<Rightarrow> nat \<times> value_t" where
  "pair_of (Message d v) = (d_parameter d, v)"
| "pair_of _ = (0, Null)"

definition stored :: "nat \<times> value_t \<Rightarrow> (nat \<Rightarrow> parameter_state) \<Rightarrow> nat \<Rightarrow> parameter_state" where
  "stored x ps = ps(fst x := (ps (fst x))\<lparr>p_value := snd x\<rparr>)"

definition storing :: "push_env \<Rightarrow> bool" where
  "storing pe \<longleftrightarrow> pe_push pe = (\<lambda>a v. stored (a, v))"

lemma launch_plain:
  assumes "storing pe" and "list_all (plain pt) es"
  shows "launch_all pe es w = Inr (fold stored (List.map pair_of es) (fst w), snd w @ List.map pair_of es)"
  using assms(2)
proof (induction es arbitrary: w)
  case (Cons e es)
  then obtain d v where e: "e = Message d v" "d_index d = []" "d_unit d = None" by (cases e) (auto simp: plain_def)
  have "launch pe e w = Inr (stored (d_parameter d, v) (fst w), snd w @ [(d_parameter d, v)])"
    using assms(1) by (simp add: e launch_message_def push_value_def storing_def Let_def)
  then show ?case using Cons by (simp add: e(1))
qed simp

lemma stored_commute: "a \<notin> fst ` set ys \<Longrightarrow> fold stored ys (stored (a, v) ps) = stored (a, v) (fold stored ys ps)"
proof (induction ys arbitrary: ps)
  case (Cons y ys)
  then have "stored y (stored (a, v) ps) = stored (a, v) (stored y ps)" by (auto simp: stored_def fun_eq_iff)
  then show ?case using Cons by simp
qed simp

lemma stored_twice: "stored (a, v) (stored (a, c) ps) = stored (a, v) ps"
  by (simp add: stored_def)

lemma fold_stored_update:
  assumes "distinct (List.map fst xs)" and "k < length xs" and "fst (xs ! k) = a"
  shows "fold stored (xs[k := (a, v)]) ps = stored (a, v) (fold stored xs ps)"
proof -
  obtain us c vs where x: "xs = us @ (a, c) # vs" "length us = k"
    using assms(2,3) id_take_nth_drop[OF assms(2)] by (metis length_take min.absorb4 prod.collapse)
  then have "a \<notin> fst ` set vs" using assms(1) by force
  then show ?thesis using x(2) unfolding x(1) by (simp add: stored_commute stored_twice list_update_append)
qed

lemma plain_key: "plain pt e \<Longrightarrow> element_key e = Some (fst (pair_of e), None)"
  by (cases e) (auto simp: plain_def)

lemma plain_flat_distinct: "flat_state st \<Longrightarrow> list_all (plain pt) st \<Longrightarrow> distinct (List.map fst (List.map pair_of st))"
proof -
  assume f: "flat_state st" "list_all (plain pt) st"
  have "keys_of st = List.map (\<lambda>a. Some (a, None)) (List.map fst (List.map pair_of st))"
    using f(2) plain_key by (auto simp: keys_of_def list_all_iff)
  then have "distinct (List.map (\<lambda>a. Some (a, None :: nat option)) (List.map fst (List.map pair_of st)))"
    using f(1) by (simp add: flat_state_def)
  then show ?thesis by (metis distinct_map)
qed

lemma flatten_plain_step:
  assumes st: "flat_state st" "list_all (plain pt) st" and e: "plain pt e"
  shows "\<exists>st'. flatten pt True False e st = Inr st' \<and> list_all (plain pt) st'
    \<and> (\<forall>ps. fold stored (List.map pair_of st') ps = stored (pair_of e) (fold stored (List.map pair_of st) ps))"
proof -
  obtain d v where m: "e = Message d v" "d_index d = []" "d_unit d = None" "valid v" "components v = None" "get_type v \<noteq> LIST"
      "\<not> is_vec_type (pt_value pt (d_parameter d))"
    using e by (cases e) (auto simp: plain_def)
  show ?thesis
  proof (cases "find_index (same_param False (d_parameter d, d_unit d)) st")
    case None
    then show ?thesis using st e m(1) by (intro exI[of _ "st @ [e]"]) (simp add: flatten_message_def)
  next
    case (Some k)
    then have k: "k < length st" "element_key (st ! k) = Some (d_parameter d, d_unit d)"
      using find_index_Some[OF Some] by (simp_all add: same_param_False)
    have "plain pt (st ! k)" using st(2) k(1) by (simp add: list_all_length)
    then obtain x cur where x: "st ! k = Message x cur" "d_index x = []" "d_unit x = None" "d_parameter x = d_parameter d" "valid cur"
        "components cur = None" "get_type cur \<noteq> LIST"
      using k(2) by (cases "st ! k") (auto simp: plain_def)
    have "merge_value True cur v = v" using x m by (simp add: merge_scalar valid_def)
    moreover have "\<not> same_vec_type cur v" using m(5) x(6) by (cases v) (auto simp: same_vec_type_def is_vec_type_def)
    ultimately have r: "flatten pt True False e st = Inr (st[k := Message x v])"
      using Some x m by (simp add: flatten_message_def merge_messages_def)
    have "plain pt (Message x v)" using m x by (simp add: plain_def)
    then have "list_all (plain pt) (st[k := Message x v])"
      using st(2) by (auto simp: list_all_iff dest!: set_update_subset_insert[THEN subsetD])
    moreover have "fold stored (List.map pair_of (st[k := Message x v])) ps = stored (pair_of e) (fold stored (List.map pair_of st) ps)" for ps
      using fold_stored_update[OF plain_flat_distinct[OF st], of k "d_parameter d" v ps] k(1) x m(1) by (simp add: map_update)
    ultimately show ?thesis using r by blast
  qed
qed

text \<open>C40: When pushing a value stores it in the parameter, launching a list of plain messages - without index or unit, with values that
  are no lists or vectors, to parameters that hold none - leaves every parameter as launching their flattened and merged state does,
  which pushes to no parameter twice.\<close>

theorem launch_of_flattened:
  assumes "storing pe" and "list_all (plain pt) es"
  shows "\<exists>st. merge_flatten_and_filter pt [] (State es) = Inr st \<and> (\<forall>w. \<exists>w1 w2. launch_all pe st w = Inr w1 \<and> launch_all pe es w = Inr w2
    \<and> fst w1 = fst w2 \<and> (snd w = [] \<longrightarrow> distinct (List.map fst (snd w1))))"
proof -
  have "\<exists>st'. flatten_all pt True False es st = Inr st' \<and> flat_state st' \<and> list_all (plain pt) st'
      \<and> (\<forall>ps. fold stored (List.map pair_of st') ps = fold stored (List.map pair_of es) (fold stored (List.map pair_of st) ps))"
    if "flat_state st" "list_all (plain pt) st" "list_all (plain pt) es" for st es
    using that
  proof (induction es arbitrary: st)
    case (Cons e es)
    obtain st1 where s1: "flatten pt True False e st = Inr st1" "list_all (plain pt) st1"
        "\<forall>ps. fold stored (List.map pair_of st1) ps = stored (pair_of e) (fold stored (List.map pair_of st) ps)"
      using flatten_plain_step[of st pt e] Cons.prems by auto
    have "flat_state st1" using flat_step[OF s1(1) Cons.prems(1)] .
    then show ?case using Cons.IH[OF _ s1(2)] Cons.prems s1 by auto
  qed simp
  from this[of "[]" es] obtain st where st: "flatten_all pt True False es [] = Inr st" "flat_state st" "list_all (plain pt) st"
      "\<forall>ps. fold stored (List.map pair_of st) ps = fold stored (List.map pair_of es) ps"
    using assms(2) by (auto simp: flat_state_def keys_of_def)
  then show ?thesis
    using launch_plain[OF assms(1) st(3)] launch_plain[OF assms] plain_flat_distinct[OF st(2,3)]
    by (intro exI[of _ st]) (simp add: merge_flatten_and_filter_def)
qed

definition demo_push :: push_env where
  "demo_push = \<lparr>pe_types = demo_types, pe_convert = (\<lambda>v _ _. v), pe_merge = (\<lambda>_ _ _ v _. v), pe_merge_used = (\<lambda>v _ _ _ _. v),
     pe_push = (\<lambda>a v. stored (a, v))\<rparr>"

lemma launch_of_flattened_witness:
  "\<exists>st w1 w2. merge_flatten_and_filter demo_types [] (State [Message (demo_dest 1 []) (Int32 5), Message (demo_dest 1 []) (Bool True)]) = Inr st
     \<and> launch_all demo_push st (\<lambda>_. \<lparr>p_value = Null, p_unit = None\<rparr>, []) = Inr w1
     \<and> launch_all demo_push [Message (demo_dest 1 []) (Int32 5), Message (demo_dest 1 []) (Bool True)] (\<lambda>_. \<lparr>p_value = Null, p_unit = None\<rparr>, []) = Inr w2
     \<and> fst w1 = fst w2"
proof -
  have "list_all (plain demo_types) [Message (demo_dest 1 []) (Int32 5), Message (demo_dest 1 []) (Bool True)]" by code_simp
  from launch_of_flattened[OF _ this, of demo_push] show ?thesis by (force simp: storing_def demo_push_def)
qed

section \<open>What is lost\<close>

text \<open>A vector without index replaces the components that are collected for a parameter, but is not noted as setting them, so that the
  launch sends only those that were set before. A message with an integer for one component is dropped. Two messages that
  set different components, one of them past the end of the vector, throw.\<close>

lemma vector_not_marked_used:
  "flatten demo_types True False (Message (demo_dest 9 []) (Vec2f (Fin 3) (Fin 4))) [Piecewise_vec 9 [Fin 1, Fin 2] None [True, False]]
    = Inr [Piecewise_vec 9 [Fin 3, Fin 4] None [True, False]]"
  by code_simp

lemma integer_component_dropped:
  "flatten demo_types True False (Message (demo_dest 9 [1]) (Int32 3)) [Piecewise_vec 9 [Fin 1, Fin 2] None [True, False]]
    = Inr [Piecewise_vec 9 [Fin 1, Fin 2] None [True, False]]"
  by code_simp

lemma component_past_end_throws:
  "flatten demo_types True False (Message (demo_dest 9 [2]) (Float (Fin 3))) [Message (demo_dest 9 [0]) (Vec2f (Fin 1) (Fin 2))] = Inl Out_of_range"
  by code_simp

end
