(* ===== verification/DepthFirst.thy ===== *)
theory DepthFirst
  imports Prelude
begin

text \<open>
  The depth-first search of the dataflow graph and the topological sort on top of it (dataflow/graph/graph_utils.hpp).
  A graph is its number of vertices and, for each of them, the list of its out-edges: the target and what the edge
  carries. The search is written with an explicit stack as in the code and calls a visitor at every event; an
  exception of the visitor ends it.
\<close>

section \<open>The search\<close>

datatype colour = White | Gray | Black

type_synonym 'e edge = "nat \<times> nat \<times> 'e"
type_synonym 'e out_edges = "nat \<Rightarrow> (nat \<times> 'e) list"

text \<open>A color is read from a vector: a vertex that the graph does not have is out of its range.\<close>

datatype 'x search_error = Thrown 'x | Out_of_range

type_synonym ('s, 'x) event = "'s \<Rightarrow> 'x search_error + 's"

record ('s, 'e, 'x) visitor =
  initialize_vertex :: "nat \<Rightarrow> ('s, 'x) event"
  start_vertex :: "nat \<Rightarrow> ('s, 'x) event"
  discover_vertex :: "nat \<Rightarrow> ('s, 'x) event"
  examine_edge :: "'e edge \<Rightarrow> ('s, 'x) event"
  tree_edge :: "'e edge \<Rightarrow> ('s, 'x) event"
  back_edge :: "'e edge \<Rightarrow> ('s, 'x) event"
  forward_or_cross_edge :: "'e edge \<Rightarrow> ('s, 'x) event"
  finish_edge :: "'e edge \<Rightarrow> ('s, 'x) event"
  finish_vertex :: "nat \<Rightarrow> ('s, 'x) event"

text \<open>
  A frame of the stack is a vertex, the edge that is being followed from it and the edges that come after. The frame
  on top is in the arguments of the loop.
\<close>

type_synonym 'e frame = "nat \<times> 'e edge \<times> (nat \<times> 'e) list"

definition pending :: "'e frame list \<Rightarrow> nat" where
  "pending st = (\<Sum>(u, e, es) \<leftarrow> st. Suc (length es))"

lemma pending_simps [simp]: "pending [] = 0" "pending ((u, e, es) # st) = Suc (length es) + pending st"
  by (simp_all add: pending_def)

definition whites :: "colour list \<Rightarrow> nat" where
  "whites cs = length (filter (\<lambda>c. c = White) cs)"

lemma whites_grow: "whites (cs[v := Black]) \<le> whites cs"
proof (induction cs arbitrary: v)
  case (Cons c cs)
  show ?case using Cons[of "v - 1"] by (cases v) (auto simp: whites_def)
qed (simp add: whites_def)

lemma whites_shrink: "v < length cs \<Longrightarrow> cs ! v = White \<Longrightarrow> whites (cs[v := Gray]) < whites cs"
proof (induction cs arbitrary: v)
  case (Cons c cs)
  show ?case using Cons.IH[of "v - 1"] Cons.prems by (cases v) (auto simp: whites_def)
qed simp

function (sequential) visit_loop ::
  "('s, 'e, 'x) visitor \<Rightarrow> 'e out_edges \<Rightarrow> 'e frame list \<Rightarrow> nat \<Rightarrow> (nat \<times> 'e) list \<Rightarrow> colour list \<Rightarrow> 's \<Rightarrow>
    'x search_error + (colour list \<times> 's)" where
  "visit_loop vis g st u [] cs s = bind_sum (finish_vertex vis u s) (\<lambda>s.
    case st of
      [] \<Rightarrow> Inr (cs[u := Black], s)
    | (w, e, es) # st \<Rightarrow> bind_sum (finish_edge vis e s) (visit_loop vis g st w es (cs[u := Black])))"
| "visit_loop vis g st u ((v, e) # es) cs s = bind_sum (examine_edge vis (u, v, e) s) (\<lambda>s.
    if v < length cs then
      case cs ! v of
        White \<Rightarrow> bind_sum (tree_edge vis (u, v, e) s) (\<lambda>s.
          bind_sum (discover_vertex vis v s) (visit_loop vis g ((u, (u, v, e), es) # st) v (g v) (cs[v := Gray])))
      | Gray \<Rightarrow> bind_sum (back_edge vis (u, v, e) s) (\<lambda>s.
          bind_sum (finish_edge vis (u, v, e) s) (visit_loop vis g st u es cs))
      | Black \<Rightarrow> bind_sum (forward_or_cross_edge vis (u, v, e) s) (\<lambda>s.
          bind_sum (finish_edge vis (u, v, e) s) (visit_loop vis g st u es cs))
    else Inl Out_of_range)"
  by pat_completeness auto

termination
proof (relation "measures [\<lambda>(vis, g, st, u, es, cs, s). whites cs, \<lambda>(vis, g, st, u, es, cs, s). length es + pending st]",
    goal_cases)
  case (2 vis g st u cs s s' x st' y w e es s'')
  then show ?case using whites_grow[of cs u] by auto
qed (auto intro: whites_shrink)

definition custom_depth_first_visit_impl ::
  "('s, 'e, 'x) visitor \<Rightarrow> 'e out_edges \<Rightarrow> nat \<Rightarrow> colour list \<Rightarrow> 's \<Rightarrow> 'x search_error + (colour list \<times> 's)" where
  "custom_depth_first_visit_impl vis g u cs s =
    bind_sum (discover_vertex vis u s) (visit_loop vis g [] u (g u) (cs[u := Gray]))"

text \<open>The two loops over all vertices: one makes them white, the other starts at those that still are.\<close>

fun initialize_all :: "('s, 'e, 'x) visitor \<Rightarrow> nat list \<Rightarrow> colour list \<Rightarrow> 's \<Rightarrow> 'x search_error + (colour list \<times> 's)" where
  "initialize_all vis [] cs s = Inr (cs, s)"
| "initialize_all vis (u # us) cs s = bind_sum (initialize_vertex vis u s) (initialize_all vis us (cs[u := White]))"

definition start_at :: "('s, 'e, 'x) visitor \<Rightarrow> 'e out_edges \<Rightarrow> nat \<Rightarrow> colour list \<Rightarrow> 's \<Rightarrow> 'x search_error + (colour list \<times> 's)" where
  "start_at vis g u cs s = bind_sum (start_vertex vis u s) (custom_depth_first_visit_impl vis g u cs)"

fun search_from :: "('s, 'e, 'x) visitor \<Rightarrow> 'e out_edges \<Rightarrow> nat list \<Rightarrow> colour list \<Rightarrow> 's \<Rightarrow> 'x search_error + (colour list \<times> 's)" where
  "search_from vis g [] cs s = Inr (cs, s)"
| "search_from vis g (u # us) cs s =
    (if cs ! u = White then bind_sum (start_at vis g u cs s) (\<lambda>(cs, s). search_from vis g us cs s)
     else search_from vis g us cs s)"

definition custom_depth_first_search ::
  "('s, 'e, 'x) visitor \<Rightarrow> nat \<Rightarrow> 'e out_edges \<Rightarrow> colour list \<Rightarrow> nat \<Rightarrow> nat \<Rightarrow> 's \<Rightarrow> 'x search_error + (colour list \<times> 's)" where
  "custom_depth_first_search vis n g cs default_start start s =
    bind_sum (initialize_all vis [0..<n] cs s) (\<lambda>(cs, s).
    bind_sum (if start \<noteq> default_start then start_at vis g start cs s else Inr (cs, s)) (\<lambda>(cs, s).
    search_from vis g [0..<n] cs s))"

text \<open>
  The sort runs the search with the visitor of the graph library, whose result is a list of vertices. The visitor is a
  parameter; what the sort relies on is that a back edge throws and that a finished vertex is put behind the result.
\<close>

definition custom_topological_sort ::
  "(nat list, 'e, 'x) visitor \<Rightarrow> nat \<Rightarrow> 'e out_edges \<Rightarrow> nat \<Rightarrow> 'x search_error + nat list" where
  "custom_topological_sort vis n g default_start =
    bind_sum (custom_depth_first_search vis n g (replicate n White) default_start default_start []) (\<lambda>(cs, out). Inr out)"

definition topo_sort_visitor :: "'x \<Rightarrow> (nat list, 'e, 'x) visitor \<Rightarrow> bool" where
  "topo_sort_visitor not_a_dag vis \<longleftrightarrow>
    (\<forall>e out. back_edge vis e out = Inl (Thrown not_a_dag) \<and> examine_edge vis e out = Inr out
      \<and> tree_edge vis e out = Inr out \<and> forward_or_cross_edge vis e out = Inr out \<and> finish_edge vis e out = Inr out)
    \<and> (\<forall>v out. finish_vertex vis v out = Inr (out @ [v]) \<and> initialize_vertex vis v out = Inr out
      \<and> start_vertex vis v out = Inr out \<and> discover_vertex vis v out = Inr out)"

end
