(* ===== verification/Closure.thy ===== *)
theory Closure
  imports DepthFirst
begin

text \<open>
  The transitive closure of the dataflow graph (dataflow/graph/transitive_closure.hpp): the graph is condensed to its
  strong components, the components are laid out in chains, and for every component the least position it reaches in each
  chain is computed from the last component in topological order to the first. The vectors the code keeps from one
  call to the next are all written before they are read, so they are local here.
\<close>

section \<open>The graph library\<close>

text \<open>
  What is called of the graph library is a parameter: the number of strong components and the component of each
  vertex, the lists of vertices of the components, and the topological sort of the condensation, which puts the
  targets of the edges first.
\<close>

record 'e graph_lib =
  strong_components :: "nat \<Rightarrow> 'e out_edges \<Rightarrow> nat \<times> nat list"
  build_component_lists :: "nat \<Rightarrow> 'e out_edges \<Rightarrow> nat \<Rightarrow> nat list \<Rightarrow> nat list list"
  topological_sort :: "nat \<Rightarrow> nat list list \<Rightarrow> nat list"

section \<open>The condensation\<close>

definition remove_duplicates :: "nat list \<Rightarrow> nat list" where
  "remove_duplicates xs = (if length xs \<le> 1 then xs else remdups_adj (sort xs))"

definition component_edges :: "'e out_edges \<Rightarrow> nat list \<Rightarrow> nat list \<Rightarrow> nat \<Rightarrow> nat list" where
  "component_edges g component_number members s =
    remove_duplicates (filter (\<lambda>t. s \<noteq> t) (concat (List.map (\<lambda>u. List.map (\<lambda>(v, e). component_number ! v) (g u)) members)))"

definition condensation :: "'e out_edges \<Rightarrow> nat list \<Rightarrow> nat list list \<Rightarrow> nat list list" where
  "condensation g component_number components =
    List.map (\<lambda>s. component_edges g component_number (components ! s) s) [0..<length components]"

fun number_vertices :: "nat \<Rightarrow> nat list \<Rightarrow> nat list \<Rightarrow> nat list" where
  "number_vertices n [] number = number"
| "number_vertices n (v # vs) number = number_vertices (Suc n) vs (number[v := n])"

definition sort_adjacent :: "nat list \<Rightarrow> nat list list \<Rightarrow> nat list list" where
  "sort_adjacent topo_number cg = List.map (sort_key (\<lambda>v. topo_number ! v)) cg"

section \<open>Chains\<close>

definition free_count :: "bool list \<Rightarrow> nat" where
  "free_count flags = length (filter Not flags)"

lemma free_count_taken: "v < length flags \<Longrightarrow> \<not> flags ! v \<Longrightarrow> free_count (flags[v := True]) < free_count flags"
proof (induction flags arbitrary: v)
  case (Cons f flags)
  show ?case using Cons.IH[of "v - 1"] Cons.prems by (cases v) (auto simp: free_count_def)
qed simp

text \<open>A chain goes on with the first successor that no chain has yet.\<close>

function extend_chain :: "nat list list \<Rightarrow> nat \<Rightarrow> bool list \<Rightarrow> nat list \<times> bool list" where
  "extend_chain cg v in_a_chain =
    (let flags = in_a_chain[v := True]
     in case List.find (\<lambda>w. w < length flags \<and> \<not> flags ! w) (cg ! v) of
          Some w \<Rightarrow> (let (chain, flags) = extend_chain cg w flags in (v # chain, flags))
        | None \<Rightarrow> ([v], flags))"
  by pat_completeness auto

termination
  by (relation "measure (\<lambda>(cg, v, flags). free_count (flags[v := True]))")
    (auto simp: find_Some_iff intro!: free_count_taken)

declare extend_chain.simps [simp del]

fun build_chains :: "nat list list \<Rightarrow> nat list \<Rightarrow> bool list \<Rightarrow> nat list list" where
  "build_chains cg [] in_a_chain = []"
| "build_chains cg (v # vs) in_a_chain =
    (if in_a_chain ! v then build_chains cg vs in_a_chain
     else let (chain, flags) = extend_chain cg v in_a_chain in chain # build_chains cg vs flags)"

fun place_chain :: "nat \<Rightarrow> nat \<Rightarrow> nat list \<Rightarrow> nat list \<times> nat list \<Rightarrow> nat list \<times> nat list" where
  "place_chain i j [] places = places"
| "place_chain i j (v # vs) (chain_number, pos_in_chain) =
    place_chain i (Suc j) vs (chain_number[v := i], pos_in_chain[v := j])"

fun place_chains :: "nat \<Rightarrow> nat list list \<Rightarrow> nat list \<times> nat list \<Rightarrow> nat list \<times> nat list" where
  "place_chains i [] places = places"
| "place_chains i (chain # chs) places = place_chains (Suc i) chs (place_chain i 0 chain places)"

section \<open>Successors\<close>

definition inf_vertex :: nat where
  "inf_vertex = 2 ^ 64 - 1"

definition union_successor_sets :: "nat list \<Rightarrow> nat list \<Rightarrow> nat list" where
  "union_successor_sets s1 s2 = map2 min s1 s2"

fun add_successors :: "nat list \<Rightarrow> nat list \<Rightarrow> nat \<Rightarrow> nat list \<Rightarrow> nat list list \<Rightarrow> nat list list" where
  "add_successors chain_number topo_number u [] successors = successors"
| "add_successors chain_number topo_number u (v # vs) successors =
    add_successors chain_number topo_number u vs
      (if topo_number ! v < successors ! u ! (chain_number ! v)
       then successors[u := (union_successor_sets (successors ! u) (successors ! v))[chain_number ! v := topo_number ! v]]
       else successors)"

fun all_successors :: "nat list \<Rightarrow> nat list \<Rightarrow> nat list list \<Rightarrow> nat list \<Rightarrow> nat list list \<Rightarrow> nat list list" where
  "all_successors chain_number topo_number cg [] successors = successors"
| "all_successors chain_number topo_number cg (u # us) successors =
    all_successors chain_number topo_number cg us (add_successors chain_number topo_number u (cg ! u) successors)"

definition closure_row :: "nat list list \<Rightarrow> nat list \<Rightarrow> nat list \<Rightarrow> nat list \<Rightarrow> nat list" where
  "closure_row chs topo_order pos_in_chain row =
    concat (map2 (\<lambda>chain topo_num. if topo_num < inf_vertex then drop (pos_in_chain ! (topo_order ! topo_num)) chain else []) chs row)"

section \<open>The closure\<close>

definition component_closure :: "'e graph_lib \<Rightarrow> nat \<Rightarrow> nat list list \<Rightarrow> nat list list" where
  "component_closure lib num_scc cg =
    (let topo_order = rev (topological_sort lib num_scc cg);
         topo_number = number_vertices 0 topo_order (replicate num_scc 0);
         cg = sort_adjacent topo_number cg;
         chs = build_chains cg topo_order (replicate num_scc False);
         (chain_number, pos_in_chain) = place_chains 0 chs (replicate num_scc 0, replicate num_scc 0);
         successors = all_successors chain_number topo_number cg (rev topo_order)
           (replicate num_scc (replicate (length chs) inf_vertex))
     in List.map (closure_row chs topo_order pos_in_chain) successors)"

text \<open>The edges that are added to the closure, in their order.\<close>

definition between_components :: "nat list list \<Rightarrow> nat list list \<Rightarrow> (nat \<times> nat) list" where
  "between_components components rows =
    concat (map2 (\<lambda>members row. concat (List.map (\<lambda>t. List.product members (components ! t)) row)) components rows)"

definition within_components :: "nat list list \<Rightarrow> (nat \<times> nat) list" where
  "within_components components =
    concat (List.map (\<lambda>members. if length members > 1 then List.product members members else []) components)"

definition loopbacks :: "nat \<Rightarrow> 'e out_edges \<Rightarrow> nat list \<Rightarrow> nat list list \<Rightarrow> (nat \<times> nat) list" where
  "loopbacks n g component_number components =
    concat (List.map (\<lambda>u. concat (List.map (\<lambda>(v, e).
      if v = u \<and> length (components ! (component_number ! u)) = 1 then [(u, u)] else []) (g u))) [0..<n])"

definition transitive_closure :: "'e graph_lib \<Rightarrow> nat \<Rightarrow> 'e out_edges \<Rightarrow> (nat \<times> nat) list" where
  "transitive_closure lib n g =
    (if n = 0 then []
     else let (num_scc, component_number) = strong_components lib n g;
              components = build_component_lists lib n g num_scc component_number;
              cg = condensation g component_number components;
              rows = component_closure lib num_scc cg
          in between_components components rows @ within_components components @ loopbacks n g component_number components)"

text \<open>The closure the graph keeps, and the question it is asked.\<close>

definition has_edge :: "(nat \<times> nat) list \<Rightarrow> nat \<Rightarrow> nat \<Rightarrow> bool" where
  "has_edge tc source_vtx sink_vtx \<longleftrightarrow> (source_vtx, sink_vtx) \<in> set tc"

end
