(* ===== verification/DepthFirstProps.thy ===== *)
theory DepthFirstProps
  imports DepthFirst
begin

text \<open>
  The topological sort is correct: on a graph without cycles it returns every vertex once, behind all targets of its
  edges, and on a graph with a cycle it throws. The invariant of the search relates the colors, the stack and what has
  been finished.
\<close>

section \<open>Graphs\<close>

definition targets :: "'e out_edges \<Rightarrow> nat \<Rightarrow> nat set" where
  "targets g u = fst ` set (g u)"

definition arcs :: "nat \<Rightarrow> 'e out_edges \<Rightarrow> (nat \<times> nat) set" where
  "arcs n g = {(u, v). u < n \<and> v \<in> targets g u}"

definition closed_graph :: "nat \<Rightarrow> 'e out_edges \<Rightarrow> bool" where
  "closed_graph n g \<longleftrightarrow> (\<forall>u < n. targets g u \<subseteq> {..<n})"

text \<open>A list is ordered when every vertex comes behind the targets of its edges.\<close>

definition ordered :: "'e out_edges \<Rightarrow> nat list \<Rightarrow> bool" where
  "ordered g xs \<longleftrightarrow> (\<forall>i < length xs. targets g (xs ! i) \<subseteq> set (take i xs))"

lemma ordered_Nil [simp]: "ordered g []"
  by (simp add: ordered_def)

lemma ordered_snoc [simp]: "ordered g (xs @ [x]) \<longleftrightarrow> ordered g xs \<and> targets g x \<subseteq> set xs"
  by (auto simp: ordered_def nth_append less_Suc_eq)

lemma ordered_append: "ordered g (xs @ ys) \<Longrightarrow> ordered g xs"
  by (induction ys rule: rev_induct) (simp_all flip: append_assoc)

lemma ordered_closed: "ordered g xs \<Longrightarrow> x \<in> set xs \<Longrightarrow> targets g x \<subseteq> set xs"
  by (induction xs rule: rev_induct) auto

lemma ordered_acyclic: "ordered g xs \<Longrightarrow> distinct xs \<Longrightarrow> acyclic {(u, v). u \<in> set xs \<and> v \<in> targets g u}"
proof (induction xs rule: rev_induct)
  case (snoc x xs)
  let ?r = "{(u, v). u \<in> set xs \<and> v \<in> targets g u}"
  have split: "{(u, v). u \<in> set (xs @ [x]) \<and> v \<in> targets g u} = ?r \<union> {x} \<times> targets g x" by auto
  have "x \<notin> set xs" and sub: "targets g x \<subseteq> set xs" and closed: "\<And>y. y \<in> set xs \<Longrightarrow> targets g y \<subseteq> set xs"
    using snoc.prems ordered_closed[of g xs] by auto
  have into: "(a, b) \<in> (?r \<union> {x} \<times> targets g x)\<^sup>+ \<Longrightarrow> b \<in> set xs" for a b
    by (induction rule: trancl_induct) (use sub closed in auto)
  have stay: "(a, b) \<in> (?r \<union> {x} \<times> targets g x)\<^sup>+ \<Longrightarrow> a \<in> set xs \<Longrightarrow> (a, b) \<in> ?r\<^sup>+ \<and> b \<in> set xs" for a b
  proof (induction rule: trancl_induct)
    case (base y)
    then show ?case using closed \<open>x \<notin> set xs\<close> by auto
  next
    case (step y z)
    then show ?case using closed \<open>x \<notin> set xs\<close> by (auto intro: trancl_into_trancl)
  qed
  have "acyclic ?r" using snoc by simp
  then show ?case unfolding split acyclic_def using into stay by blast
qed (simp add: acyclic_def)

section \<open>The invariant of the search\<close>

text \<open>
  The edges of a vertex on the stack that have been followed lead to finished vertices, but for the one that leads to
  the vertex above.
\<close>

fun frames_ok :: "'e out_edges \<Rightarrow> nat set \<Rightarrow> nat \<Rightarrow> 'e frame list \<Rightarrow> bool" where
  "frames_ok g fin upper [] = True"
| "frames_ok g fin upper ((u, e, es) # st) =
    (fst ` set es \<subseteq> targets g u \<and> upper \<in> targets g u \<and> targets g u \<subseteq> fst ` set es \<union> insert upper fin \<and> frames_ok g fin u st)"

definition on_stack :: "'e frame list \<Rightarrow> nat list" where
  "on_stack st = List.map fst st"

lemma on_stack_simps [simp]: "on_stack [] = []" "on_stack ((u, e, es) # st) = u # on_stack st"
  by (simp_all add: on_stack_def)

definition colours_ok :: "nat \<Rightarrow> nat list \<Rightarrow> nat list \<Rightarrow> colour list \<Rightarrow> bool" where
  "colours_ok n grays out cs \<longleftrightarrow> length cs = n \<and> distinct (grays @ out) \<and> set (grays @ out) \<subseteq> {..<n}
    \<and> (\<forall>v < n. cs ! v = (if v \<in> set out then Black else if v \<in> set grays then Gray else White))"

lemma frames_ok_mono: "frames_ok g fin upper st \<Longrightarrow> fin \<subseteq> fin' \<Longrightarrow> frames_ok g fin' upper st"
  by (induction g fin upper st rule: frames_ok.induct) auto

lemma frames_path:
  "frames_ok g fin upper st \<Longrightarrow> set (on_stack st) \<subseteq> {..<n} \<Longrightarrow> v \<in> set (on_stack st) \<Longrightarrow> (v, upper) \<in> (arcs n g)\<^sup>+"
proof (induction g fin upper st rule: frames_ok.induct)
  case (2 g fin upper u e es st)
  then have arc: "(u, upper) \<in> arcs n g" by (simp add: arcs_def)
  show ?case
  proof (cases "v = u")
    case True
    then show ?thesis using arc by blast
  next
    case False
    then have "(v, u) \<in> (arcs n g)\<^sup>+" using "2.IH" "2.prems" by simp
    then show ?thesis using arc by (rule trancl_into_trancl)
  qed
qed simp

lemma colours_discover: "colours_ok n grays out cs \<Longrightarrow> v < n \<Longrightarrow> cs ! v = White \<Longrightarrow> colours_ok n (v # grays) out (cs[v := Gray])"
  by (auto simp: colours_ok_def nth_list_update split: if_splits)

lemma colours_finish: "colours_ok n (u # grays) out cs \<Longrightarrow> colours_ok n grays (out @ [u]) (cs[u := Black])"
  by (auto simp: colours_ok_def nth_list_update)

lemma topo_sort_visitor_simps:
  assumes "topo_sort_visitor nad vis"
  shows "back_edge vis e out = Inl (Thrown nad)" "examine_edge vis e out = Inr out" "tree_edge vis e out = Inr out"
    "forward_or_cross_edge vis e out = Inr out" "finish_edge vis e out = Inr out"
    "finish_vertex vis v out = Inr (out @ [v])" "initialize_vertex vis v out = Inr out"
    "start_vertex vis v out = Inr out" "discover_vertex vis v out = Inr out"
  using assms unfolding topo_sort_visitor_def by blast+

text \<open>What a search leaves: an ordered list of what is black, and nothing gray. It throws only on a cycle.\<close>

definition visit_result :: "nat \<Rightarrow> 'e out_edges \<Rightarrow> 'x \<Rightarrow> nat set \<Rightarrow> 'x search_error + (colour list \<times> nat list) \<Rightarrow> bool" where
  "visit_result n g nad vs r = (case r of
      Inl x \<Rightarrow> x = Thrown nad \<and> \<not> acyclic (arcs n g)
    | Inr (cs, out) \<Rightarrow> colours_ok n [] out cs \<and> ordered g out \<and> vs \<subseteq> set out)"

lemma visit_loop_correct:
  assumes "topo_sort_visitor nad vis" and "closed_graph n g"
  shows "colours_ok n (u # on_stack st) out cs \<Longrightarrow> ordered g out \<Longrightarrow> frames_ok g (set out) u st
    \<Longrightarrow> fst ` set es \<subseteq> targets g u \<Longrightarrow> targets g u \<subseteq> fst ` set es \<union> set out
    \<Longrightarrow> visit_result n g nad (set (u # on_stack st) \<union> set out) (visit_loop vis g st u es cs out)"
  using assms
proof (induction vis g st u es cs out rule: visit_loop.induct)
  case (1 vis g st u cs out)
  note topo = topo_sort_visitor_simps[OF "1.prems"(6)]
  have ord: "ordered g (out @ [u])" using "1.prems" by simp
  have colours: "colours_ok n (on_stack st) (out @ [u]) (cs[u := Black])" using colours_finish "1.prems"(1) by simp
  show ?case
  proof (cases st)
    case Nil
    then show ?thesis using colours ord by (auto simp: topo visit_result_def)
  next
    case (Cons f st')
    obtain w e es where f: "f = (w, e, es)" by (cases f)
    have "visit_result n g nad (set (w # on_stack st') \<union> set (out @ [u])) (visit_loop vis g st' w es (cs[u := Black]) (out @ [u]))"
    proof (rule "1.IH"[where x = "out @ [u]"])
      show "frames_ok g (set (out @ [u])) w st'"
        using "1.prems"(3) Cons f by (auto elim: frames_ok_mono)
    qed (use "1.prems" Cons f colours ord in \<open>auto simp: topo\<close>)
    then show ?thesis using Cons f by (auto simp: topo visit_result_def split: sum.splits prod.splits)
  qed
next
  case (2 vis g st u v e es cs out)
  note topo = topo_sort_visitor_simps[OF "2.prems"(6)]
  have u: "u < n" and len: "length cs = n" using "2.prems"(1) by (auto simp: colours_ok_def)
  have v: "v \<in> targets g u" "v < n" using "2.prems"(4,7) u by (auto simp: closed_graph_def)
  show ?case
  proof (cases "cs ! v")
    case White
    have "v \<notin> set (u # on_stack st)" "v \<notin> set out" using White v(2) "2.prems"(1) by (auto simp: colours_ok_def split: if_splits)
    have "visit_result n g nad (set (v # on_stack ((u, (u, v, e), es) # st)) \<union> set out)
        (visit_loop vis g ((u, (u, v, e), es) # st) v (g v) (cs[v := Gray]) out)"
      by (rule "2.IH"(1)[where x = out and xa = out])
        (use "2.prems" White v len colours_discover[OF "2.prems"(1) v(2) White] in \<open>auto simp: topo targets_def\<close>)
    then show ?thesis using White v len by (auto simp: topo visit_result_def split: sum.splits prod.splits)
  next
    case Gray
    then have "v \<in> set (u # on_stack st)" using v(2) "2.prems"(1) by (auto simp: colours_ok_def split: if_splits)
    moreover have "set (on_stack st) \<subseteq> {..<n}" using "2.prems"(1) by (auto simp: colours_ok_def)
    ultimately have "v = u \<or> (v, u) \<in> (arcs n g)\<^sup>+" using frames_path[OF "2.prems"(3)] by auto
    moreover have "(u, v) \<in> arcs n g" using u v by (simp add: arcs_def)
    ultimately have "(v, v) \<in> (arcs n g)\<^sup>+" by (auto intro: trancl_into_trancl)
    then show ?thesis using Gray v len by (auto simp: topo visit_result_def acyclic_def)
  next
    case Black
    then have "v \<in> set out" using v(2) "2.prems"(1) by (auto simp: colours_ok_def split: if_splits)
    then have "visit_result n g nad (set (u # on_stack st) \<union> set out) (visit_loop vis g st u es cs out)"
      by (intro "2.IH"(3)[where x = out and xa = out and xb = out]) (use "2.prems" Black v len in \<open>auto simp: topo\<close>)
    then show ?thesis using Black v len by (simp add: topo)
  qed
qed

section \<open>The sort\<close>

lemma visit_correct:
  assumes "topo_sort_visitor nad vis" "closed_graph n g" "colours_ok n [] out cs" "ordered g out" "u < n" "cs ! u = White"
  shows "visit_result n g nad (insert u (set out)) (start_at vis g u cs out)"
proof -
  have "visit_result n g nad (insert u (set out)) (visit_loop vis g [] u (g u) (cs[u := Gray]) out)"
    using visit_loop_correct[OF assms(1,2), where st = "[]" and u = u and out = out and es = "g u"] assms(4)
      colours_discover[OF assms(3,5,6)] by (simp add: targets_def)
  then show ?thesis using assms(1)
    by (simp add: start_at_def custom_depth_first_visit_impl_def topo_sort_visitor_simps)
qed

lemma search_from_correct:
  assumes "topo_sort_visitor nad vis" "closed_graph n g"
  shows "colours_ok n [] out cs \<Longrightarrow> ordered g out \<Longrightarrow> set us \<subseteq> {..<n}
    \<Longrightarrow> visit_result n g nad (set us \<union> set out) (search_from vis g us cs out)"
proof (induction us arbitrary: cs out)
  case (Cons u us)
  have u: "u < n" and us: "set us \<subseteq> {..<n}" using Cons.prems(3) by auto
  show ?case
  proof (cases "cs ! u = White")
    case True
    note first = visit_correct[OF assms Cons.prems(1,2) u True]
    show ?thesis
    proof (cases "start_at vis g u cs out")
      case (Inl x)
      then show ?thesis using first True by (simp add: visit_result_def)
    next
      case (Inr r)
      obtain cs' out' where r: "r = (cs', out')" by (cases r)
      then have "colours_ok n [] out' cs'" "ordered g out'" "insert u (set out) \<subseteq> set out'"
        using first Inr by (auto simp: visit_result_def)
      with Cons.IH[OF this(1,2) us] show ?thesis using True Inr r
        by (auto simp: visit_result_def split: sum.splits prod.splits)
    qed
  next
    case False
    then have "u \<in> set out" using u Cons.prems(1) by (auto simp: colours_ok_def split: if_splits)
    with Cons.IH[OF Cons.prems(1,2) us] False show ?thesis by (simp add: insert_absorb)
  qed
qed (simp add: visit_result_def)

lemma initialize_all_white:
  assumes "topo_sort_visitor nad vis"
  shows "initialize_all vis us (replicate n White) out = Inr (replicate n White, out)"
proof -
  have "(replicate n White)[u := White] = replicate n White" for u
    by (cases "u < n") (simp_all add: list_update_same_conv list_update_beyond)
  then show ?thesis by (induction us) (simp_all add: topo_sort_visitor_simps[OF assms])
qed

lemma custom_topological_sort_result:
  assumes "topo_sort_visitor nad vis" "closed_graph n g"
  shows "case custom_topological_sort vis n g d of
      Inl x \<Rightarrow> x = Thrown nad \<and> \<not> acyclic (arcs n g)
    | Inr order \<Rightarrow> acyclic (arcs n g) \<and> distinct order \<and> set order = {..<n} \<and> ordered g order"
proof -
  have "visit_result n g nad {..<n} (search_from vis g [0..<n] (replicate n White) [])"
    using search_from_correct[OF assms, of "[]" "replicate n White" "[0..<n]"] by (auto simp: colours_ok_def atLeast0LessThan)
  moreover have "acyclic (arcs n g)" if "ordered g out" "distinct out" "set out = {..<n}" for out
    using ordered_acyclic[OF that(1,2)] that(3) by (simp add: arcs_def)
  ultimately show ?thesis
    by (auto simp: custom_topological_sort_def custom_depth_first_search_def initialize_all_white[OF assms(1)] bind_sum_def
        visit_result_def colours_ok_def arcs_def split: sum.splits prod.splits)
qed

text \<open>C23: The topological sort of the dataflow graph throws exactly when the edges of the graph form a cycle; on every other
  graph it returns each vertex once, behind the targets of its edges.\<close>

theorem topological_sort_correct:
  assumes "topo_sort_visitor nad vis" "closed_graph n g"
  shows "(custom_topological_sort vis n g d = Inl (Thrown nad) \<longleftrightarrow> \<not> acyclic (arcs n g))
    \<and> (acyclic (arcs n g) \<longrightarrow> (\<exists>order. custom_topological_sort vis n g d = Inr order \<and> distinct order \<and> set order = {..<n}
        \<and> ordered g order))"
  using custom_topological_sort_result[OF assms, of d] by (auto split: sum.splits)

definition library_visitor :: "(nat list, 'e, unit) visitor" where
  "library_visitor = \<lparr>initialize_vertex = \<lambda>v. Inr, start_vertex = \<lambda>v. Inr, discover_vertex = \<lambda>v. Inr, examine_edge = \<lambda>e. Inr,
    tree_edge = \<lambda>e. Inr, back_edge = \<lambda>e out. Inl (Thrown ()), forward_or_cross_edge = \<lambda>e. Inr, finish_edge = \<lambda>e. Inr,
    finish_vertex = \<lambda>v out. Inr (out @ [v])\<rparr>"

lemma library_visitor_ok: "topo_sort_visitor () library_visitor"
  by (simp add: topo_sort_visitor_def library_visitor_def)

text \<open>Three nodes in a chain, and the same with an edge back from the last to the first.\<close>

definition line_graph :: "unit out_edges" where
  "line_graph u = (if u < 2 then [(Suc u, ())] else [])"

definition ring_graph :: "unit out_edges" where
  "ring_graph u = (if u < 2 then [(Suc u, ())] else [(0, ())])"

lemma closed_chain: "closed_graph 3 line_graph"
  by (auto simp: closed_graph_def targets_def line_graph_def)

lemma closed_ring: "closed_graph 3 ring_graph"
  by (auto simp: closed_graph_def targets_def ring_graph_def)

lemma topological_sort_correct_witness:
  "custom_topological_sort library_visitor 3 line_graph 0 = Inr [2, 1, 0] \<and> \<not> acyclic (arcs 3 ring_graph)"
proof
  have "custom_topological_sort library_visitor 3 ring_graph 0 = Inl (Thrown ())" by code_simp
  then show "\<not> acyclic (arcs 3 ring_graph)"
    using topological_sort_correct[OF library_visitor_ok closed_ring, of 0] by blast
  show "custom_topological_sort library_visitor 3 line_graph 0 = Inr [2, 1, 0]" by code_simp
qed

end
