(* ===== verification/BreadthFirst.thy ===== *)
theory BreadthFirst
  imports DepthFirstProps "HOL-Library.Word"
begin

unbundle bit_operations_syntax

text \<open>
  The breadth-first search that asks for a path between two nodes (dataflow/graph/breadth_first_search.hpp and
  \<open>bfs_update::find_path\<close> of dataflow/graph/graph_static.hpp), with its map of colors that has four of them in a byte.
\<close>

section \<open>Four colors in a byte\<close>

definition two_bit_white :: "8 word" where "two_bit_white = 0"
definition two_bit_gray :: "8 word" where "two_bit_gray = 1"
definition two_bit_black :: "8 word" where "two_bit_black = 3"

definition resize_colors :: "nat \<Rightarrow> 8 word list" where
  "resize_colors n = replicate ((n + 4 - 1) div 4) 0"

definition get_color :: "8 word list \<Rightarrow> nat \<Rightarrow> 8 word" where
  "get_color colors i = drop_bit (i mod 4 * 2) (colors ! (i div 4)) AND 3"

definition put_color :: "8 word list \<Rightarrow> nat \<Rightarrow> 8 word \<Rightarrow> 8 word list" where
  "put_color colors i c =
    colors[i div 4 := (colors ! (i div 4) AND NOT (push_bit (i mod 4 * 2) 3)) OR push_bit (i mod 4 * 2) c]"

text \<open>A vertex has a color when its byte exists.\<close>

definition has_color :: "8 word list \<Rightarrow> nat \<Rightarrow> bool" where
  "has_color colors i \<longleftrightarrow> i div 4 < length colors"

lemma three_mask: "(3 :: 8 word) = mask 2"
  by (simp add: mask_eq_exp_minus_1)

lemma small_color: "c AND mask 2 = c \<Longrightarrow> bit c k \<Longrightarrow> k < 2" for c :: "8 word"
  by (metis bit_and_iff bit_mask_iff)

lemma get_put_same:
  fixes b c :: "8 word"
  assumes "c AND mask 2 = c" "p < 4"
  shows "drop_bit (p * 2) ((b AND NOT (push_bit (p * 2) (mask 2))) OR push_bit (p * 2) c) AND mask 2 = c"
proof (rule bit_word_eqI)
  fix k :: nat assume "k < LENGTH(8)"
  then show "bit (drop_bit (p * 2) ((b AND NOT (push_bit (p * 2) (mask 2))) OR push_bit (p * 2) c) AND mask 2) k = bit c k"
    using assms(2) small_color[OF assms(1), of k] by (auto simp: bit_simps)
qed

lemma get_put_other:
  fixes b c :: "8 word"
  assumes "c AND mask 2 = c" "p < 4" "q < 4" "q \<noteq> p"
  shows "drop_bit (q * 2) ((b AND NOT (push_bit (p * 2) (mask 2))) OR push_bit (p * 2) c) AND mask 2 = drop_bit (q * 2) b AND mask 2"
proof (rule bit_word_eqI)
  fix k :: nat assume "k < LENGTH(8)"
  have apart: "\<not> (p * 2 \<le> q * 2 + k \<and> q * 2 + k - p * 2 < 2)" if "k < 2" using assms(2-4) that by presburger
  have "q * 2 + k < 8" if "k < 2" using assms(3) that by simp
  then show "bit (drop_bit (q * 2) ((b AND NOT (push_bit (p * 2) (mask 2))) OR push_bit (p * 2) c) AND mask 2) k
      = bit (drop_bit (q * 2) b AND mask 2) k"
    using apart small_color[OF assms(1), of "q * 2 + k - p * 2"] by (auto simp: bit_simps)
qed

lemma get_put_color:
  assumes "c AND 3 = c" "has_color colors i"
  shows "get_color (put_color colors i c) j = (if j = i then c else get_color colors j)"
proof (cases "j div 4 = i div 4")
  case True
  then have "j mod 4 \<noteq> i mod 4" if "j \<noteq> i" using that by (metis div_mult_mod_eq)
  then show ?thesis
    using True assms get_put_same[OF assms(1)[unfolded three_mask], of "i mod 4"]
      get_put_other[OF assms(1)[unfolded three_mask], of "i mod 4" "j mod 4"]
    by (auto simp: get_color_def put_color_def has_color_def three_mask)
qed (use assms in \<open>auto simp: get_color_def put_color_def has_color_def\<close>)

lemma has_color_put [simp]: "has_color (put_color colors i c) j = has_color colors j"
  by (simp add: has_color_def put_color_def)

lemma color_codes [simp]: "two_bit_white AND 3 = two_bit_white" "two_bit_gray AND 3 = two_bit_gray" "two_bit_black AND 3 = two_bit_black"
  "two_bit_gray \<noteq> two_bit_white" "two_bit_black \<noteq> two_bit_white"
  by (simp_all add: two_bit_white_def two_bit_gray_def two_bit_black_def)

lemma has_color_resize: "v < n \<Longrightarrow> has_color (resize_colors n) v"
  by (auto simp: has_color_def resize_colors_def)

lemma get_color_resize: "v < n \<Longrightarrow> get_color (resize_colors n) v = two_bit_white"
  using has_color_resize[of v n] by (simp add: get_color_def resize_colors_def has_color_def two_bit_white_def)

section \<open>The search\<close>

text \<open>
  The queue is a circular buffer with room for as many vertices as the graph has. A vertex that is pushed on a full buffer
  would take the place of the first one; the search has no result then, nor when it meets a vertex without a color.
\<close>

definition push_back :: "nat \<Rightarrow> nat list \<Rightarrow> nat \<Rightarrow> nat list option" where
  "push_back capacity queue v = (if length queue < capacity then Some (queue @ [v]) else None)"

text \<open>The visitor is told of every vertex that is discovered, and may end the search.\<close>

type_synonym 's discover = "nat \<Rightarrow> 's \<Rightarrow> bool \<times> 's"

datatype 's scan = Ended 's | Going "nat list" "8 word list" 's

fun scan_edges :: "'s discover \<Rightarrow> nat \<Rightarrow> (nat \<times> 'e) list \<Rightarrow> nat list \<Rightarrow> 8 word list \<Rightarrow> 's \<Rightarrow> 's scan option" where
  "scan_edges discover capacity [] queue colors s = Some (Going queue colors s)"
| "scan_edges discover capacity ((v, e) # es) queue colors s =
    (if \<not> has_color colors v then None
     else if get_color colors v = two_bit_white then
       (case discover v s of (stop, s) \<Rightarrow>
         if stop then Some (Ended s)
         else Option.bind (push_back capacity queue v) (\<lambda>queue.
           scan_edges discover capacity es queue (put_color colors v two_bit_gray) s))
     else scan_edges discover capacity es queue colors s)"

definition white_count :: "8 word list \<Rightarrow> nat" where
  "white_count colors = card {v. has_color colors v \<and> get_color colors v = two_bit_white}"

lemma finite_colored: "finite {v. has_color colors v \<and> get_color colors v = c}"
proof (rule finite_subset)
  show "{v. has_color colors v \<and> get_color colors v = c} \<subseteq> {..<4 * length colors}" by (auto simp: has_color_def)
qed simp

lemma white_count_put:
  "has_color colors v \<Longrightarrow> c AND 3 = c \<Longrightarrow> c \<noteq> two_bit_white \<Longrightarrow> white_count (put_color colors v c) \<le> white_count colors"
  unfolding white_count_def by (rule card_mono[OF finite_colored]) (auto simp: get_put_color split: if_splits)

lemma white_count_gray:
  assumes "has_color colors v" "get_color colors v = two_bit_white"
  shows "white_count (put_color colors v two_bit_gray) < white_count colors"
  unfolding white_count_def
  by (rule psubset_card_mono[OF finite_colored]) (use assms in \<open>auto simp: get_put_color split: if_splits\<close>)

lemma scan_edges_measure:
  "scan_edges discover capacity es queue colors s = Some (Going queue' colors' s') \<Longrightarrow>
    white_count colors' + length queue' \<le> white_count colors + length queue \<and> length colors' = length colors"
proof (induction discover capacity es queue colors s rule: scan_edges.induct)
  case (2 discover capacity v e es queue colors s)
  show ?case
  proof (cases "get_color colors v = two_bit_white")
    case True
    then have "has_color colors v" and "\<not> fst (discover v s)" and q: "push_back capacity queue v = Some (queue @ [v])"
      using "2.prems" by (auto simp: push_back_def split: if_splits prod.splits)
    moreover have "length (put_color colors v two_bit_gray) = length colors" by (simp add: put_color_def)
    ultimately show ?thesis
      using "2.IH"(1)[of "fst (discover v s)" "snd (discover v s)" "queue @ [v]"] "2.prems" True white_count_gray[of colors v]
      by (auto split: prod.splits)
  qed (use 2 in \<open>auto split: if_splits\<close>)
qed simp

function visit_queue :: "'s discover \<Rightarrow> 'e out_edges \<Rightarrow> nat \<Rightarrow> nat \<Rightarrow> nat list \<Rightarrow> 8 word list \<Rightarrow> 's \<Rightarrow> 's option" where
  "visit_queue discover g capacity source [] colors s = Some s"
| "visit_queue discover g capacity source (u # queue) colors s =
    (case scan_edges discover capacity (g u) queue colors s of
       None \<Rightarrow> None
     | Some (Ended s) \<Rightarrow> Some s
     | Some (Going queue colors s) \<Rightarrow>
         if has_color colors source then visit_queue discover g capacity source queue (put_color colors source two_bit_black) s
         else None)"
  by pat_completeness auto

termination
proof (relation "measure (\<lambda>(discover, g, capacity, source, queue, colors, s). white_count colors + length queue)", goal_cases)
  case (2 discover g capacity source u queue colors s a queue' colors' s')
  then show ?case
    using scan_edges_measure[of discover capacity "g u" queue colors s queue' colors' s'] white_count_put[of colors' source two_bit_black]
    by auto
qed simp

definition breadth_first_visit_simple :: "'s discover \<Rightarrow> 'e out_edges \<Rightarrow> nat \<Rightarrow> nat \<Rightarrow> 8 word list \<Rightarrow> 's \<Rightarrow> 's option" where
  "breadth_first_visit_simple discover g capacity source colors s =
    (if has_color colors source then
       Option.bind (push_back capacity [] source) (\<lambda>queue.
         visit_queue discover g capacity source queue (put_color colors source two_bit_gray) (snd (discover source s)))
     else None)"

text \<open>All vertices are made white first.\<close>

definition breadth_first_search_simple :: "'s discover \<Rightarrow> nat \<Rightarrow> 'e out_edges \<Rightarrow> nat \<Rightarrow> nat \<Rightarrow> 8 word list \<Rightarrow> 's \<Rightarrow> 's option" where
  "breadth_first_search_simple discover n g capacity source colors s =
    breadth_first_visit_simple discover g capacity source
      (fold (\<lambda>v colors. put_color colors v two_bit_white) [0..<n] colors) s"

section \<open>Finding a path\<close>

definition bfs_find_visitor :: "nat \<Rightarrow> bool discover" where
  "bfs_find_visitor node_to_find u ok = (let ok = (ok \<or> u = node_to_find) in (ok, ok))"

text \<open>The capacity the queue has from earlier searches stays when it is larger.\<close>

definition find_path :: "nat \<Rightarrow> nat \<Rightarrow> nat \<Rightarrow> nat \<Rightarrow> 'e out_edges \<Rightarrow> bool option" where
  "find_path old_capacity source sink n g =
    breadth_first_search_simple (bfs_find_visitor sink) n g (if old_capacity \<le> n then n else old_capacity) source
      (resize_colors n) False"

section \<open>The search is correct\<close>

definition colors_ok :: "nat \<Rightarrow> nat set \<Rightarrow> 8 word list \<Rightarrow> bool" where
  "colors_ok n discovered colors \<longleftrightarrow> discovered \<subseteq> {..<n}
    \<and> (\<forall>v < n. has_color colors v \<and> (get_color colors v = two_bit_white \<longleftrightarrow> v \<notin> discovered))"

lemma colors_ok_put:
  assumes "colors_ok n discovered colors" "v < n" "c AND 3 = c" "c \<noteq> two_bit_white"
  shows "colors_ok n (insert v discovered) (put_color colors v c)"
  using assms by (auto simp: colors_ok_def get_put_color)

lemma queue_has_room:
  assumes "distinct queue" "set queue \<subseteq> discovered" "discovered \<subseteq> {..<n}" "v < n" "v \<notin> discovered" "n \<le> capacity"
  shows "push_back capacity queue v = Some (queue @ [v])"
proof -
  have "card (insert v (set queue)) \<le> card {..<n}" using assms(2-4) by (intro card_mono) auto
  moreover have "v \<notin> set queue" using assms(2,5) by blast
  ultimately show ?thesis using assms(1,6) by (simp add: push_back_def distinct_card)
qed

lemma scan_edges_correct:
  assumes "n \<le> capacity"
  shows "colors_ok n discovered colors \<Longrightarrow> distinct queue \<Longrightarrow> set queue \<subseteq> discovered \<Longrightarrow> fst ` set es \<subseteq> {..<n} \<Longrightarrow> ok = (sink \<in> discovered) \<Longrightarrow>
    (case scan_edges (bfs_find_visitor sink) capacity es queue colors ok of
       None \<Rightarrow> False
     | Some (Ended ok') \<Rightarrow> ok' \<and> sink \<in> discovered \<union> fst ` set es
     | Some (Going queue' colors' ok') \<Rightarrow> colors_ok n (discovered \<union> fst ` set es) colors' \<and> distinct queue'
         \<and> set queue' = set queue \<union> (fst ` set es - discovered) \<and> ok' = (sink \<in> discovered \<union> fst ` set es))"
proof (induction es arbitrary: discovered queue colors ok)
  case (Cons a es)
  obtain v e where a: "a = (v, e)" by (cases a)
  have v: "v < n" "has_color colors v" and es: "fst ` set es \<subseteq> {..<n}" using Cons.prems(1,4) a by (auto simp: colors_ok_def)
  show ?case
  proof (cases "v \<in> discovered")
    case True
    then have "get_color colors v \<noteq> two_bit_white" using Cons.prems(1) v by (simp add: colors_ok_def)
    then have "scan_edges (bfs_find_visitor sink) capacity (a # es) queue colors ok
        = scan_edges (bfs_find_visitor sink) capacity es queue colors ok" using a v by simp
    moreover have "discovered \<union> fst ` set (a # es) = discovered \<union> fst ` set es"
      "fst ` set (a # es) - discovered = fst ` set es - discovered" using True a by auto
    ultimately show ?thesis using Cons.IH[OF Cons.prems(1-3) es Cons.prems(5)] by (simp only:)
  next
    case False
    then have white: "get_color colors v = two_bit_white" using Cons.prems(1) v by (simp add: colors_ok_def)
    show ?thesis
    proof (cases "ok \<or> v = sink")
      case True
      then show ?thesis using a v white Cons.prems(5) by (auto simp: bfs_find_visitor_def Let_def)
    next
      case ok: False
      have push: "push_back capacity queue v = Some (queue @ [v])"
        by (rule queue_has_room[OF Cons.prems(2,3) _ v(1) False assms]) (use Cons.prems(1) in \<open>auto simp: colors_ok_def\<close>)
      have eq: "scan_edges (bfs_find_visitor sink) capacity (a # es) queue colors ok
          = scan_edges (bfs_find_visitor sink) capacity es (queue @ [v]) (put_color colors v two_bit_gray) ok"
        using a v(2) white push ok by (simp add: bfs_find_visitor_def Let_def)
      have colors: "colors_ok n (insert v discovered) (put_color colors v two_bit_gray)" using colors_ok_put Cons.prems(1) v(1) by simp
      have queue: "distinct (queue @ [v])" "set (queue @ [v]) \<subseteq> insert v discovered" using Cons.prems(2,3) False by auto
      have "ok = (sink \<in> insert v discovered)" using ok Cons.prems(5) by auto
      note rest = Cons.IH[OF colors queue es this]
      have "insert v discovered \<union> fst ` set es = discovered \<union> fst ` set (a # es)"
        "set (queue @ [v]) \<union> (fst ` set es - insert v discovered) = set queue \<union> (fst ` set (a # es) - discovered)"
        using a False by auto
      with rest show ?thesis unfolding eq by (simp only:)
    qed
  qed
qed simp

lemma visit_queue_correct:
  assumes "n \<le> capacity" "closed_graph n g" "source < n"
  shows "colors_ok n discovered colors \<Longrightarrow> distinct queue \<Longrightarrow> set queue \<subseteq> discovered \<Longrightarrow> source \<in> discovered \<Longrightarrow>
    discovered \<subseteq> (arcs n g)\<^sup>* `` {source} \<Longrightarrow> (\<forall>v \<in> discovered - set queue. targets g v \<subseteq> discovered) \<Longrightarrow> ok = (sink \<in> discovered) \<Longrightarrow>
    visit_queue (bfs_find_visitor sink) g capacity source queue colors ok = Some ((source, sink) \<in> (arcs n g)\<^sup>*)"
  using assms
proof (induction "bfs_find_visitor sink" g capacity source queue colors ok arbitrary: discovered rule: visit_queue.induct)
  case (1 g capacity source colors ok)
  have "x \<in> discovered" if "(source, x) \<in> (arcs n g)\<^sup>*" for x
    using that by (induction rule: rtrancl_induct) (use 1 in \<open>auto simp: arcs_def\<close>)
  then show ?case using 1 by auto
next
  case (2 g capacity source u queue colors ok)
  let ?D = "discovered \<union> targets g u"
  have u: "u \<in> discovered" "u < n" "(source, u) \<in> (arcs n g)\<^sup>*" using "2.prems"(1,3,5) by (auto simp: colors_ok_def)
  then have t: "targets g u \<subseteq> {..<n}" using "2.prems"(9) by (simp add: closed_graph_def)
  have "(source, x) \<in> (arcs n g)\<^sup>*" if "x \<in> targets g u" for x
    using u(2,3) that by (auto simp: arcs_def intro: rtrancl_into_rtrancl)
  then have reach: "?D \<subseteq> (arcs n g)\<^sup>* `` {source}" using "2.prems"(5) by auto
  note scan = scan_edges_correct[OF "2.prems"(8) "2.prems"(1), of queue "g u" ok sink]
  show ?case
  proof (cases "scan_edges (bfs_find_visitor sink) capacity (g u) queue colors ok")
    case None
    then show ?thesis using scan "2.prems"(2,3,7) t by (simp add: targets_def)
  next
    case (Some r)
    show ?thesis
    proof (cases r)
      case (Ended ok')
      then have "ok' \<and> sink \<in> ?D" using scan Some "2.prems"(2,3,7) t by (simp add: targets_def)
      then show ?thesis using reach Some Ended by auto
    next
      case (Going queue' colors' ok')
      then have *: "colors_ok n ?D colors'" "distinct queue'" "set queue' = set queue \<union> (targets g u - discovered)" "ok' = (sink \<in> ?D)"
        using scan Some "2.prems"(2,3,7) t by (simp_all add: targets_def)
      have source: "source \<in> ?D" "has_color colors' source" using "2.prems"(4,10) *(1) by (auto simp: colors_ok_def)
      have "colors_ok n ?D (put_color colors' source two_bit_black)"
        using colors_ok_put[OF *(1) "2.prems"(10), of two_bit_black] source(1) by (simp add: insert_absorb)
      moreover have "set queue' \<subseteq> ?D" using *(3) "2.prems"(3) by auto
      moreover have "\<forall>v \<in> ?D - set queue'. targets g v \<subseteq> ?D" using "2.prems"(6) *(3) by auto
      ultimately have "visit_queue (bfs_find_visitor sink) g capacity source queue' (put_color colors' source two_bit_black) ok'
          = Some ((source, sink) \<in> (arcs n g)\<^sup>*)"
        using "2.hyps"[OF Some Going source(2) _ *(2) _ source(1) reach] *(4) "2.prems"(8-10) by blast
      then show ?thesis using Some Going source(2) by simp
    qed
  qed
qed

lemma fold_put_white:
  "\<forall>v < n. has_color colors v \<and> get_color colors v = two_bit_white \<Longrightarrow> set vs \<subseteq> {..<n} \<Longrightarrow>
    \<forall>v < n. has_color (fold (\<lambda>v colors. put_color colors v two_bit_white) vs colors) v
      \<and> get_color (fold (\<lambda>v colors. put_color colors v two_bit_white) vs colors) v = two_bit_white"
  by (induction vs arbitrary: colors) (auto simp: get_put_color)

lemma find_path_result:
  assumes "closed_graph n g" "source < n"
  shows "find_path old_capacity source sink n g = Some ((source, sink) \<in> (arcs n g)\<^sup>*)"
proof -
  let ?capacity = "if old_capacity \<le> n then n else old_capacity"
  define colors where "colors = fold (\<lambda>v colors. put_color colors v two_bit_white) [0..<n] (resize_colors n)"
  have white: "\<forall>v < n. has_color colors v \<and> get_color colors v = two_bit_white"
    unfolding colors_def by (rule fold_put_white) (simp_all add: has_color_resize get_color_resize atLeast0LessThan)
  have "colors_ok n {source} (put_color colors source two_bit_gray)"
    using white assms(2) by (auto simp: colors_ok_def get_put_color)
  then have "visit_queue (bfs_find_visitor sink) g ?capacity source [source] (put_color colors source two_bit_gray) (source = sink)
      = Some ((source, sink) \<in> (arcs n g)\<^sup>*)"
    by (intro visit_queue_correct[OF _ assms, of _ "{source}"]) auto
  moreover have "push_back ?capacity [] source = Some [source]" using assms(2) by (simp add: push_back_def)
  ultimately show ?thesis
    using white assms(2)
    by (simp add: find_path_def breadth_first_search_simple_def breadth_first_visit_simple_def bfs_find_visitor_def Let_def
        flip: colors_def)
qed

text \<open>The breadth-first search between two nodes ends, never overflows its queue or its map of colors, and answers
  whether edges lead from the first to the second.\<close>

theorem find_path_correct:
  assumes "closed_graph n g" "source < n"
  shows "find_path old_capacity source sink n g = Some ((source, sink) \<in> (arcs n g)\<^sup>*)"
  using assms by (rule find_path_result)

lemma find_path_correct_witness: "(0, 2) \<in> (arcs 3 line_graph)\<^sup>* \<and> (2, 0) \<notin> (arcs 3 line_graph)\<^sup>*"
proof -
  have "find_path 0 0 2 3 line_graph = Some True" "find_path 0 2 0 3 line_graph = Some False" by code_simp+
  then show ?thesis
    using find_path_correct[OF closed_chain, of 0 0 2] find_path_correct[OF closed_chain, of 2 0 0] by simp
qed

end
