(* ===== verification/ClosureProps.thy ===== *)
theory ClosureProps
  imports Closure BreadthFirst
begin

text \<open>
  The closure of the dataflow graph has an edge from a vertex to another exactly when a path of at least one edge leads
  there.
\<close>

section \<open>Numbers and chains\<close>

lemma length_number_vertices [simp]: "length (number_vertices k vs t) = length t"
  by (induction k vs t rule: number_vertices.induct) simp_all

lemma number_vertices_other: "v \<notin> set vs \<Longrightarrow> number_vertices k vs t ! v = t ! v"
  by (induction k vs t rule: number_vertices.induct) simp_all

lemma number_vertices_nth:
  "distinct vs \<Longrightarrow> set vs \<subseteq> {..<length t} \<Longrightarrow> i < length vs \<Longrightarrow> number_vertices k vs t ! (vs ! i) = k + i"
proof (induction k vs t arbitrary: i rule: number_vertices.induct)
  case (2 k v vs t)
  then show ?case by (cases i) (auto simp: number_vertices_other)
qed simp

definition adjacent :: "nat list list \<Rightarrow> (nat \<times> nat) set" where
  "adjacent cg = {(s, t). s < length cg \<and> t \<in> set (cg ! s)}"

lemma adjacent_sorted: "adjacent (sort_adjacent number cg) = adjacent cg"
  by (auto simp: adjacent_def sort_adjacent_def)

abbreviation in_range :: "nat list list \<Rightarrow> bool" where
  "in_range cg \<equiv> \<forall>s < length cg. set (cg ! s) \<subseteq> {..<length cg}"

definition is_path :: "nat list list \<Rightarrow> nat list \<Rightarrow> bool" where
  "is_path cg = successively (\<lambda>s t. (s, t) \<in> adjacent cg)"

lemma extend_chain_correct:
  assumes "in_range cg"
  shows "extend_chain cg v flags = (chain, flags') \<Longrightarrow> length flags = length cg \<Longrightarrow> v < length cg \<Longrightarrow> \<not> flags ! v \<Longrightarrow>
    chain \<noteq> [] \<and> hd chain = v \<and> is_path cg chain \<and> distinct chain \<and> set chain \<subseteq> {w. w < length cg \<and> \<not> flags ! w}
    \<and> length flags' = length cg \<and> (\<forall>w < length cg. flags' ! w \<longleftrightarrow> flags ! w \<or> w \<in> set chain)"
  using assms
proof (induction cg v flags arbitrary: chain flags' rule: extend_chain.induct)
  case (1 cg v flags)
  let ?f = "flags[v := True]"
  show ?case
  proof (cases "List.find (\<lambda>w. w < length ?f \<and> \<not> ?f ! w) (cg ! v)")
    case None
    then show ?thesis using "1.prems" by (auto simp: extend_chain.simps[of cg v] is_path_def nth_list_update)
  next
    case (Some w)
    obtain c f where c: "extend_chain cg w ?f = (c, f)" by fastforce
    have w: "w \<in> set (cg ! v)" "w < length cg" "\<not> ?f ! w" using Some "1.prems"(2) by (auto simp: find_Some_iff)
    have IH: "c \<noteq> [] \<and> hd c = w \<and> is_path cg c \<and> distinct c \<and> set c \<subseteq> {w. w < length cg \<and> \<not> ?f ! w}
        \<and> length f = length cg \<and> (\<forall>w < length cg. f ! w \<longleftrightarrow> ?f ! w \<or> w \<in> set c)"
      using "1.IH"[OF refl Some c] "1.prems"(2,5) w by simp
    have "chain = v # c" "flags' = f" using "1.prems"(1) c Some by (simp_all add: extend_chain.simps[of cg v])
    moreover have "is_path cg (v # c)" using IH w "1.prems"(3) by (cases c) (auto simp: is_path_def adjacent_def)
    ultimately show ?thesis using IH "1.prems"(2-4) by (auto simp: nth_list_update split: if_splits)
  qed
qed

lemma build_chains_correct:
  assumes "in_range cg"
  shows "set vs \<subseteq> {..<length cg} \<Longrightarrow> length flags = length cg \<Longrightarrow>
    distinct (concat (build_chains cg vs flags)) \<and> list_all (is_path cg) (build_chains cg vs flags)
    \<and> set (concat (build_chains cg vs flags)) \<subseteq> {w. w < length cg \<and> \<not> flags ! w}
    \<and> set vs \<subseteq> {w. flags ! w} \<union> set (concat (build_chains cg vs flags))"
  using assms
proof (induction cg vs flags rule: build_chains.induct)
  case (2 cg v vs flags)
  show ?case
  proof (cases "flags ! v")
    case False
    obtain c f where c: "extend_chain cg v flags = (c, f)" by fastforce
    then have *: "c \<noteq> [] \<and> hd c = v \<and> is_path cg c \<and> distinct c \<and> set c \<subseteq> {w. w < length cg \<and> \<not> flags ! w}
        \<and> length f = length cg \<and> (\<forall>w < length cg. f ! w \<longleftrightarrow> flags ! w \<or> w \<in> set c)"
      using extend_chain_correct[OF "2.prems"(3) c] "2.prems" False by simp
    then have "v \<in> set c" by (cases c) auto
    moreover note "2.IH"(2)[OF False c[symmetric] refl] "2.prems"
    ultimately show ?thesis using False c * by auto
  qed (use 2 in auto)
qed simp

lemma length_place_chain [simp]:
  "length (fst (place_chain i j c p)) = length (fst p)" "length (snd (place_chain i j c p)) = length (snd p)"
  by (induction i j c p rule: place_chain.induct) auto

lemma place_chain_other:
  "v \<notin> set c \<Longrightarrow> fst (place_chain i j c p) ! v = fst p ! v" "v \<notin> set c \<Longrightarrow> snd (place_chain i j c p) ! v = snd p ! v"
  by (induction i j c p rule: place_chain.induct) auto

lemma place_chain_nth:
  assumes "distinct c" "set c \<subseteq> {..<length (fst p)}" "length (snd p) = length (fst p)" "k < length c"
  shows "fst (place_chain i j c p) ! (c ! k) = i \<and> snd (place_chain i j c p) ! (c ! k) = j + k"
  using assms
proof (induction i j c p arbitrary: k rule: place_chain.induct)
  case (2 i j v vs cn pos)
  then show ?case by (cases k) (auto simp: place_chain_other)
qed simp

lemma length_place_chains [simp]:
  "length (fst (place_chains i cs p)) = length (fst p)" "length (snd (place_chains i cs p)) = length (snd p)"
  by (induction i cs p rule: place_chains.induct) auto

lemma place_chains_other:
  "v \<notin> set (concat cs) \<Longrightarrow> fst (place_chains i cs p) ! v = fst p ! v \<and> snd (place_chains i cs p) ! v = snd p ! v"
  by (induction i cs p rule: place_chains.induct) (auto simp: place_chain_other)

lemma place_chains_nth:
  assumes "distinct (concat cs)" "set (concat cs) \<subseteq> {..<length (fst p)}" "length (snd p) = length (fst p)"
    "j < length cs" "k < length (cs ! j)"
  shows "fst (place_chains i cs p) ! (cs ! j ! k) = i + j \<and> snd (place_chains i cs p) ! (cs ! j ! k) = k"
  using assms
proof (induction i cs p arbitrary: j rule: place_chains.induct)
  case (2 i c cs p)
  show ?case
  proof (cases j)
    case 0
    then have "c ! k \<notin> set (concat cs)" using 2(2,6) by (auto dest: nth_mem)
    then show ?thesis using 0 2(2-6) place_chains_other[of "c ! k" cs] place_chain_nth[of c p k i 0] by simp
  next
    case (Suc j')
    then show ?thesis using 2 by simp
  qed
qed simp

section \<open>The layout\<close>

text \<open>
  Everything the computation of the successors relies on: the topological order, the numbers in it, and a partition of the
  components into chains, each of which is a path.
\<close>

definition layout :: "nat list list \<Rightarrow> nat list \<Rightarrow> nat list \<Rightarrow> nat list list \<Rightarrow> nat list \<Rightarrow> nat list \<Rightarrow> bool" where
  "layout cg order number chs cn pos \<longleftrightarrow>
    in_range cg \<and> (\<forall>v < length cg. number ! v < length cg \<and> order ! (number ! v) = v)
    \<and> (\<forall>i < length cg. order ! i < length cg \<and> number ! (order ! i) = i)
    \<and> (\<forall>(s, t) \<in> adjacent cg. number ! s < number ! t)
    \<and> (\<forall>v < length cg. cn ! v < length chs \<and> pos ! v < length (chs ! (cn ! v)) \<and> chs ! (cn ! v) ! (pos ! v) = v)
    \<and> (\<forall>j < length chs. is_path cg (chs ! j) \<and> (\<forall>k < length (chs ! j). chs ! j ! k < length cg \<and> cn ! (chs ! j ! k) = j \<and> pos ! (chs ! j ! k) = k))"

lemma layout_chain:
  assumes "layout cg order number chs cn pos" "v < length cg"
  shows "cn ! v < length chs" "pos ! v < length (chs ! (cn ! v))" "chs ! (cn ! v) ! (pos ! v) = v"
  using assms unfolding layout_def by blast+

lemma layout_nth:
  assumes "layout cg order number chs cn pos" "j < length chs" "k < length (chs ! j)"
  shows "chs ! j ! k < length cg" "cn ! (chs ! j ! k) = j" "pos ! (chs ! j ! k) = k"
  using assms unfolding layout_def by blast+

lemma in_set_drop: "x \<in> set (drop p xs) \<longleftrightarrow> (\<exists>k. p \<le> k \<and> k < length xs \<and> xs ! k = x)"
proof
  assume "x \<in> set (drop p xs)"
  then obtain i where "i < length xs - p" "xs ! (p + i) = x" by (auto simp: in_set_conv_nth)
  then show "\<exists>k. p \<le> k \<and> k < length xs \<and> xs ! k = x" by (intro exI[of _ "p + i"]) simp
next
  assume "\<exists>k. p \<le> k \<and> k < length xs \<and> xs ! k = x"
  then obtain k where "p \<le> k" "k < length xs" "xs ! k = x" by blast
  then show "x \<in> set (drop p xs)" by (auto simp: in_set_conv_nth intro!: exI[of _ "k - p"])
qed

lemma layout_drop:
  assumes "layout cg order number chs cn pos" "j < length chs"
  shows "x \<in> set (drop p (chs ! j)) \<longleftrightarrow> x < length cg \<and> cn ! x = j \<and> p \<le> pos ! x"
  using layout_nth[OF assms] layout_chain[OF assms(1)] by (auto simp: in_set_drop)

lemma number_increases:
  assumes "layout cg order number chs cn pos"
  shows "(s, t) \<in> (adjacent cg)\<^sup>+ \<Longrightarrow> number ! s < number ! t"
  by (induction rule: trancl_induct) (use assms in \<open>auto simp: layout_def elim: less_trans\<close>)

lemma path_reaches:
  "is_path cg c \<Longrightarrow> j < k \<Longrightarrow> k < length c \<Longrightarrow> (c ! j, c ! k) \<in> (adjacent cg)\<^sup>+"
proof (induction k)
  case (Suc k)
  have arc: "(c ! k, c ! Suc k) \<in> adjacent cg" using Suc.prems by (simp add: is_path_def successively_conv_nth)
  show ?case
  proof (cases "j = k")
    case True
    then show ?thesis using arc by auto
  next
    case False
    then have "(c ! j, c ! k) \<in> (adjacent cg)\<^sup>+" using Suc by simp
    then show ?thesis using arc by (rule trancl_into_trancl)
  qed
qed simp

text \<open>In a chain, positions and numbers have the same order.\<close>

lemma chain_order:
  assumes "layout cg order number chs cn pos" "v < length cg" "w < length cg" "cn ! v = cn ! w"
  shows "pos ! v \<le> pos ! w \<longleftrightarrow> number ! v \<le> number ! w" "number ! v \<le> number ! w \<Longrightarrow> (v, w) \<in> (adjacent cg)\<^sup>*"
proof -
  have reach: "pos ! a < pos ! b \<Longrightarrow> (a, b) \<in> (adjacent cg)\<^sup>+" if "a < length cg" "b < length cg" "cn ! a = cn ! b" for a b
    using path_reaches[of cg "chs ! (cn ! b)" "pos ! a" "pos ! b"] that assms(1) unfolding layout_def by metis
  have same: "pos ! v = pos ! w \<Longrightarrow> v = w" using assms unfolding layout_def by metis
  show "pos ! v \<le> pos ! w \<longleftrightarrow> number ! v \<le> number ! w"
    using number_increases[OF assms(1) reach[of v w]] number_increases[OF assms(1) reach[of w v]] same assms(2-4)
    by (cases "pos ! v" "pos ! w" rule: linorder_cases) auto
  then show "number ! v \<le> number ! w \<Longrightarrow> (v, w) \<in> (adjacent cg)\<^sup>*"
    using reach[of v w] same assms(2-4) by (cases "pos ! v = pos ! w") auto
qed

section \<open>Successors\<close>

text \<open>A row claims the components whose number is at least the one the row has for their chain.\<close>

definition claims :: "nat list list \<Rightarrow> nat list \<Rightarrow> nat list \<Rightarrow> nat list \<Rightarrow> nat set" where
  "claims cg number cn row = {x. x < length cg \<and> row ! (cn ! x) \<le> number ! x}"

definition good_row :: "nat list list \<Rightarrow> nat list \<Rightarrow> nat list \<Rightarrow> nat \<Rightarrow> nat list \<Rightarrow> bool" where
  "good_row cg order cn m row \<longleftrightarrow> length row = m
    \<and> (\<forall>j < m. row ! j = inf_vertex \<or> (row ! j < length cg \<and> cn ! (order ! (row ! j)) = j))"

definition row_of :: "nat list list \<Rightarrow> nat list \<Rightarrow> nat list \<Rightarrow> nat list \<Rightarrow> nat \<Rightarrow> nat list \<Rightarrow> nat set \<Rightarrow> bool" where
  "row_of cg order number cn m row X \<longleftrightarrow> good_row cg order cn m row \<and> claims cg number cn row = X"

lemma reach_in_range: "(v, x) \<in> (adjacent cg)\<^sup>* \<Longrightarrow> in_range cg \<Longrightarrow> v < length cg \<Longrightarrow> x < length cg"
  by (induction rule: rtrancl_induct) (auto simp: adjacent_def)

lemma claims_union:
  assumes "layout cg order number chs cn pos" "length r = length chs" "length r' = length chs"
  shows "claims cg number cn (union_successor_sets r r') = claims cg number cn r \<union> claims cg number cn r'"
  using assms by (auto simp: claims_def union_successor_sets_def layout_def min_le_iff_disj)

lemma claims_update:
  assumes "layout cg order number chs cn pos" "length r = length chs" "v < length cg" "number ! v \<le> r ! (cn ! v)"
  shows "claims cg number cn (r[cn ! v := number ! v])
    = claims cg number cn r \<union> {x. x < length cg \<and> cn ! x = cn ! v \<and> number ! v \<le> number ! x}"
  using assms by (auto simp: claims_def layout_def nth_list_update)

lemma good_union: "good_row cg order cn m r \<Longrightarrow> good_row cg order cn m r' \<Longrightarrow> good_row cg order cn m (union_successor_sets r r')"
  by (auto simp: good_row_def union_successor_sets_def min_def)

lemma good_update:
  assumes "layout cg order number chs cn pos" "good_row cg order cn (length chs) r" "v < length cg"
  shows "good_row cg order cn (length chs) (r[cn ! v := number ! v])"
  using assms by (auto simp: good_row_def layout_def nth_list_update)

text \<open>Adding a successor adds what is reached from it.\<close>

lemma add_one:
  assumes layout: "layout cg order number chs cn pos" and "v < length cg"
    and r: "row_of cg order number cn (length chs) r X" and r': "row_of cg order number cn (length chs) r' ((adjacent cg)\<^sup>+ `` {v})"
    and "number ! v < r ! (cn ! v)"
  shows "row_of cg order number cn (length chs) ((union_successor_sets r r')[cn ! v := number ! v]) (X \<union> (adjacent cg)\<^sup>* `` {v})"
proof -
  let ?u = "union_successor_sets r r'"
  have rows: "good_row cg order cn (length chs) ?u" "length ?u = length chs"
    using good_union[of cg order cn "length chs" r r'] r r' by (simp_all add: row_of_def) (simp add: good_row_def)
  have "v \<notin> (adjacent cg)\<^sup>+ `` {v}" using number_increases[OF layout, of v v] unfolding Image_singleton_iff by fast
  moreover have "claims cg number cn r' = (adjacent cg)\<^sup>+ `` {v}" using r' by (simp add: row_of_def)
  ultimately have "v \<notin> claims cg number cn r'" by simp
  then have "number ! v < r' ! (cn ! v)" using \<open>v < length cg\<close> by (simp add: claims_def)
  then have least: "number ! v \<le> ?u ! (cn ! v)"
    using assms(5) r r' layout_chain[OF layout \<open>v < length cg\<close>] by (simp add: union_successor_sets_def row_of_def good_row_def)
  have "claims cg number cn (?u[cn ! v := number ! v])
      = X \<union> (adjacent cg)\<^sup>+ `` {v} \<union> {x. x < length cg \<and> cn ! x = cn ! v \<and> number ! v \<le> number ! x}"
    using claims_update[OF layout rows(2) \<open>v < length cg\<close> least] claims_union[OF layout, of r r'] r r'
    by (simp add: row_of_def good_row_def)
  also have "\<dots> = X \<union> (adjacent cg)\<^sup>* `` {v}"
  proof -
    have "(v, x) \<in> (adjacent cg)\<^sup>*" if "x < length cg" "cn ! x = cn ! v" "number ! v \<le> number ! x" for x
      using chain_order(2)[OF layout \<open>v < length cg\<close> that(1) that(2)[symmetric] that(3)] .
    moreover have "v \<in> {x. x < length cg \<and> cn ! x = cn ! v \<and> number ! v \<le> number ! x}" using \<open>v < length cg\<close> by simp
    ultimately show ?thesis by (auto dest: rtranclD trancl_into_rtrancl)
  qed
  finally show ?thesis using good_update[OF layout rows(1) \<open>v < length cg\<close>] by (simp add: row_of_def)
qed

lemma add_successors_correct:
  assumes layout: "layout cg order number chs cn pos" and "u < length cg"
  shows "length succ = length cg \<Longrightarrow> row_of cg order number cn (length chs) (succ ! u) ((adjacent cg)\<^sup>* `` X) \<Longrightarrow>
    (\<forall>v \<in> set vs. v < length cg \<and> v \<noteq> u \<and> row_of cg order number cn (length chs) (succ ! v) ((adjacent cg)\<^sup>+ `` {v})) \<Longrightarrow>
    length (add_successors cn number u vs succ) = length cg
    \<and> (\<forall>w. w \<noteq> u \<longrightarrow> add_successors cn number u vs succ ! w = succ ! w)
    \<and> row_of cg order number cn (length chs) (add_successors cn number u vs succ ! u) ((adjacent cg)\<^sup>* `` (X \<union> set vs))"
proof (induction vs arbitrary: succ X)
  case (Cons v vs)
  let ?succ = "if number ! v < succ ! u ! (cn ! v)
    then succ[u := (union_successor_sets (succ ! u) (succ ! v))[cn ! v := number ! v]] else succ"
  have v: "v < length cg" "v \<noteq> u" "row_of cg order number cn (length chs) (succ ! v) ((adjacent cg)\<^sup>+ `` {v})"
    using Cons.prems(3) by auto
  have "row_of cg order number cn (length chs) (?succ ! u) ((adjacent cg)\<^sup>* `` insert v X)"
  proof (cases "number ! v < succ ! u ! (cn ! v)")
    case True
    have "(adjacent cg)\<^sup>* `` insert v X = (adjacent cg)\<^sup>* `` X \<union> (adjacent cg)\<^sup>* `` {v}" by auto
    then show ?thesis using add_one[OF layout v(1) Cons.prems(2) v(3) True] True Cons.prems(1) \<open>u < length cg\<close> by simp
  next
    case False
    then have "v \<in> (adjacent cg)\<^sup>* `` X" using Cons.prems(2) v(1) by (auto simp: row_of_def claims_def)
    then have "(adjacent cg)\<^sup>* `` insert v X = (adjacent cg)\<^sup>* `` X" by (auto intro: rtrancl_trans)
    then show ?thesis using False Cons.prems(2) by simp
  qed
  moreover have "length ?succ = length cg" "\<forall>w. w \<noteq> u \<longrightarrow> ?succ ! w = succ ! w" using Cons.prems(1) by auto
  moreover have "\<forall>x \<in> set vs. x < length cg \<and> x \<noteq> u \<and> row_of cg order number cn (length chs) (?succ ! x) ((adjacent cg)\<^sup>+ `` {x})"
    using Cons.prems(3) by auto
  ultimately have "length (add_successors cn number u vs ?succ) = length cg
    \<and> (\<forall>w. w \<noteq> u \<longrightarrow> add_successors cn number u vs ?succ ! w = ?succ ! w)
    \<and> row_of cg order number cn (length chs) (add_successors cn number u vs ?succ ! u) ((adjacent cg)\<^sup>* `` (insert v X \<union> set vs))"
    by (intro Cons.IH) auto
  then show ?case by (simp del: nth_list_update)
qed simp

definition plain :: "nat list list \<Rightarrow> unit out_edges" where
  "plain cg s = List.map (\<lambda>t. (t, ())) (cg ! s)"

lemma targets_plain [simp]: "targets (plain cg) s = set (cg ! s)"
  by (simp add: targets_def plain_def image_image)

lemma reached_from_successors: "u < length cg \<Longrightarrow> (adjacent cg)\<^sup>+ `` {u} = (adjacent cg)\<^sup>* `` set (cg ! u)"
  by (auto simp: adjacent_def trancl_unfold_left relcomp_unfold)

lemma all_successors_correct:
  assumes layout: "layout cg order number chs cn pos"
  shows "ordered (plain cg) (ready @ us) \<Longrightarrow> distinct (ready @ us) \<Longrightarrow> set (ready @ us) \<subseteq> {..<length cg} \<Longrightarrow> length succ = length cg \<Longrightarrow>
    (\<forall>w \<in> set ready. row_of cg order number cn (length chs) (succ ! w) ((adjacent cg)\<^sup>+ `` {w})) \<Longrightarrow>
    (\<forall>w \<in> set us. row_of cg order number cn (length chs) (succ ! w) {}) \<Longrightarrow>
    length (all_successors cn number cg us succ) = length cg
    \<and> (\<forall>w \<in> set (ready @ us). row_of cg order number cn (length chs) (all_successors cn number cg us succ ! w) ((adjacent cg)\<^sup>+ `` {w}))"
proof (induction us arbitrary: ready succ)
  case (Cons u us)
  let ?succ = "add_successors cn number u (cg ! u) succ"
  have u: "u < length cg" using Cons.prems(3) by simp
  have "ordered (plain cg) (ready @ [u])" using ordered_append[of "plain cg" "ready @ [u]" us] Cons.prems(1) by simp
  then have sub: "set (cg ! u) \<subseteq> set ready" by simp
  have "row_of cg order number cn (length chs) (succ ! u) ((adjacent cg)\<^sup>* `` {})" using Cons.prems(6) by simp
  from add_successors_correct[OF layout u Cons.prems(4) this, of "cg ! u"] sub
  have "length ?succ = length cg \<and> (\<forall>w. w \<noteq> u \<longrightarrow> ?succ ! w = succ ! w)
      \<and> row_of cg order number cn (length chs) (?succ ! u) ((adjacent cg)\<^sup>+ `` {u})"
    using Cons.prems(2,3,5) by (fastforce simp: reached_from_successors[OF u])
  then have step: "length ?succ = length cg"
    "\<forall>w \<in> set (ready @ [u]). row_of cg order number cn (length chs) (?succ ! w) ((adjacent cg)\<^sup>+ `` {w})"
    "\<forall>w \<in> set us. row_of cg order number cn (length chs) (?succ ! w) {}"
    using Cons.prems(2,5,6) by (auto simp: disjoint_iff)
  show ?case using Cons.IH[OF _ _ _ step] Cons.prems(1-3) by simp
qed simp

lemma set_closure_row:
  assumes layout: "layout cg order number chs cn pos" and good: "good_row cg order cn (length chs) row" and "length cg \<le> inf_vertex"
  shows "set (closure_row chs order pos row) = claims cg number cn row"
proof -
  have "x \<in> set (closure_row chs order pos row) \<longleftrightarrow> x \<in> claims cg number cn row" for x
  proof -
    have "x \<in> set (closure_row chs order pos row) \<longleftrightarrow>
        (\<exists>j < length chs. row ! j < inf_vertex \<and> x \<in> set (drop (pos ! (order ! (row ! j))) (chs ! j)))"
      using good by (auto simp: closure_row_def set_zip good_row_def split: if_splits)
    also have "\<dots> \<longleftrightarrow> (\<exists>j < length chs. x < length cg \<and> cn ! x = j \<and> row ! j < inf_vertex \<and> pos ! (order ! (row ! j)) \<le> pos ! x)"
      using layout_drop[OF layout] by blast
    also have "\<dots> \<longleftrightarrow> x < length cg \<and> row ! (cn ! x) \<le> number ! x"
    proof (cases "x < length cg")
      case True
      then have j: "cn ! x < length chs" and "number ! x < length cg" using layout unfolding layout_def by blast+
      show ?thesis
      proof (cases "row ! (cn ! x) < inf_vertex")
        case row: True
        then have "row ! (cn ! x) < length cg" "cn ! (order ! (row ! (cn ! x))) = cn ! x" using good j by (auto simp: good_row_def)
        moreover from this(1) have "order ! (row ! (cn ! x)) < length cg" "number ! (order ! (row ! (cn ! x))) = row ! (cn ! x)"
          using layout unfolding layout_def by blast+
        ultimately show ?thesis using chain_order(1)[OF layout, of "order ! (row ! (cn ! x))" x] True j row by simp
      qed (use True j \<open>number ! x < length cg\<close> assms(3) in auto)
    qed simp
    finally show ?thesis by (simp add: claims_def)
  qed
  then show ?thesis by blast
qed

section \<open>The closure of the components\<close>

lemma order_numbers:
  assumes "distinct ts" "set ts = {..<m}" "ordered (plain cg) ts" "length cg = m"
  defines "number \<equiv> number_vertices 0 (rev ts) (replicate m 0)"
  shows "\<forall>i < m. rev ts ! i < m \<and> number ! (rev ts ! i) = i" "\<forall>v < m. number ! v < m \<and> rev ts ! (number ! v) = v"
    "\<forall>(s, t) \<in> adjacent cg. number ! s < number ! t"
proof -
  have m: "length ts = m" using distinct_card[OF assms(1)] assms(2) by simp
  have num: "number ! (rev ts ! i) = i" if "i < m" for i
    using number_vertices_nth[of "rev ts" "replicate m 0" i 0] assms(1,2) m that by (simp add: number_def)
  have below: "rev ts ! i < m" if "i < m" for i using nth_mem[of i "rev ts"] m that assms(2) by auto
  then show 1: "\<forall>i < m. rev ts ! i < m \<and> number ! (rev ts ! i) = i" using num by blast
  have ex: "\<exists>i < m. rev ts ! i = v" if "v < m" for v
  proof -
    have "v \<in> set (rev ts)" using that assms(2) by auto
    then show ?thesis using m unfolding in_set_conv_nth by simp
  qed
  then show 2: "\<forall>v < m. number ! v < m \<and> rev ts ! (number ! v) = v" using num by metis
  show "\<forall>(s, t) \<in> adjacent cg. number ! s < number ! t"
  proof clarify
    fix s t assume "(s, t) \<in> adjacent cg"
    then have s: "s < m" "t \<in> set (cg ! s)" using assms(4) by (auto simp: adjacent_def)
    then obtain i where i: "i < m" "rev ts ! i = s" using ex by blast
    let ?k = "m - Suc i"
    have "ts ! ?k = s" "?k < length ts" using i m by (simp_all add: rev_nth)
    then have "t \<in> set (take ?k ts)" using assms(3) s(2) by (auto simp: ordered_def)
    then obtain j where j: "j < ?k" "ts ! j = t" using m by (auto simp: in_set_conv_nth)
    then have "rev ts ! (m - Suc j) = t" using m i by (simp add: rev_nth)
    then show "number ! s < number ! t" using num[of i] num[of "m - Suc j"] i j by auto
  qed
qed

lemma chains_layout:
  assumes "in_range cg" "distinct ts" "set ts = {..<length cg}" "ordered (plain cg) ts"
  defines "number \<equiv> number_vertices 0 (rev ts) (replicate (length cg) 0)"
  defines "chs \<equiv> build_chains cg (rev ts) (replicate (length cg) False)"
  shows "layout cg (rev ts) number chs (fst (place_chains 0 chs (replicate (length cg) 0, replicate (length cg) 0)))
    (snd (place_chains 0 chs (replicate (length cg) 0, replicate (length cg) 0)))"
proof -
  let ?p = "(replicate (length cg) 0, replicate (length cg) (0 :: nat)) :: nat list \<times> nat list"
  have chs: "distinct (concat chs)" "list_all (is_path cg) chs" "set (concat chs) = {..<length cg}"
    using build_chains_correct[OF assms(1), of "rev ts" "replicate (length cg) False"] assms(3) by (auto simp: chs_def)
  have nth: "fst (place_chains 0 chs ?p) ! (chs ! j ! k) = j \<and> snd (place_chains 0 chs ?p) ! (chs ! j ! k) = k \<and> chs ! j ! k < length cg"
    if "j < length chs" "k < length (chs ! j)" for j k
  proof -
    have "chs ! j ! k \<in> set (concat chs)" using that by (auto intro!: bexI[of _ "chs ! j"])
    then have "chs ! j ! k < length cg" using chs(3) by (metis lessThan_iff)
    then show ?thesis using place_chains_nth[of chs ?p j k 0] chs that by simp
  qed
  have "\<exists>j < length chs. \<exists>k < length (chs ! j). chs ! j ! k = v" if "v < length cg" for v
  proof -
    have "v \<in> set (concat chs)" using chs(3) that by simp
    then obtain c where "c \<in> set chs" "v \<in> set c" by auto
    then show ?thesis unfolding in_set_conv_nth by blast
  qed
  then have "fst (place_chains 0 chs ?p) ! v < length chs
      \<and> snd (place_chains 0 chs ?p) ! v < length (chs ! (fst (place_chains 0 chs ?p) ! v))
      \<and> chs ! (fst (place_chains 0 chs ?p) ! v) ! (snd (place_chains 0 chs ?p) ! v) = v" if "v < length cg" for v
    using nth that by force
  then show ?thesis
    unfolding layout_def using order_numbers[OF assms(2-4) refl] assms(1) nth chs(2)
    by (simp add: number_def list_all_length)
qed

lemma component_closure_correct:
  assumes "in_range cg" "length cg = m" "distinct (topological_sort lib m cg)" "set (topological_sort lib m cg) = {..<m}"
    "ordered (plain cg) (topological_sort lib m cg)" "m \<le> inf_vertex"
  shows "length (component_closure lib m cg) = m \<and> (\<forall>s < m. set (component_closure lib m cg ! s) = (adjacent cg)\<^sup>+ `` {s})"
proof -
  define ts where "ts = topological_sort lib m cg"
  define number where "number = number_vertices 0 (rev ts) (replicate m 0)"
  define cg' where "cg' = sort_adjacent number cg"
  define chs where "chs = build_chains cg' (rev ts) (replicate m False)"
  define places where "places = place_chains 0 chs (replicate m 0, replicate m 0)"
  have cg': "length cg' = m" "\<forall>s < m. set (cg' ! s) = set (cg ! s)" "adjacent cg' = adjacent cg"
    using assms(2) adjacent_sorted by (simp_all add: cg'_def sort_adjacent_def)
  have range': "in_range cg'" and "ordered (plain cg') ts"
    using assms(1,2,4,5) cg' nth_mem[of _ ts] by (auto simp: ordered_def ts_def)
  then have layout: "layout cg' (rev ts) number chs (fst places) (snd places)"
    using chains_layout[of cg' ts] assms(3,4) cg' by (simp add: ts_def number_def chs_def places_def)
  let ?init = "replicate m (replicate (length chs) inf_vertex)"
  have "fst places ! x < length chs \<and> number ! x < m" if "x < m" for x using layout that cg'(1) unfolding layout_def by blast
  then have "row_of cg' (rev ts) number (fst places) (length chs) (?init ! w) {}" if "w < m" for w
    using that assms(6) cg'(1) by (fastforce simp: row_of_def good_row_def claims_def)
  then have "length (all_successors (fst places) number cg' ts ?init) = m \<and> (\<forall>w < m.
      row_of cg' (rev ts) number (fst places) (length chs) (all_successors (fst places) number cg' ts ?init ! w) ((adjacent cg)\<^sup>+ `` {w}))"
    using all_successors_correct[OF layout, of "[]" ts ?init] assms(3,4) cg' \<open>ordered (plain cg') ts\<close> by (simp add: ts_def)
  moreover have "component_closure lib m cg =
      List.map (closure_row chs (rev ts) (snd places)) (all_successors (fst places) number cg' ts ?init)"
    by (simp add: component_closure_def ts_def number_def cg'_def chs_def places_def Let_def case_prod_unfold)
  ultimately show ?thesis
    using set_closure_row[OF layout] assms(6) cg'(1) by (simp add: row_of_def)
qed

section \<open>What the graph library promises\<close>

definition components_ok :: "nat \<Rightarrow> 'e out_edges \<Rightarrow> nat \<Rightarrow> nat list \<Rightarrow> bool" where
  "components_ok n g num_scc number \<longleftrightarrow> length number = n \<and> set number = {..<num_scc}
    \<and> (\<forall>u < n. \<forall>v < n. number ! u = number ! v \<longleftrightarrow> (u, v) \<in> (arcs n g)\<^sup>* \<and> (v, u) \<in> (arcs n g)\<^sup>*)"

definition component_lists_ok :: "nat \<Rightarrow> nat list \<Rightarrow> nat list list \<Rightarrow> bool" where
  "component_lists_ok num_scc number components \<longleftrightarrow> length components = num_scc
    \<and> (\<forall>s < num_scc. distinct (components ! s) \<and> set (components ! s) = {u. u < length number \<and> number ! u = s})"

definition sorted_ok :: "nat list list \<Rightarrow> nat list \<Rightarrow> bool" where
  "sorted_ok cg ts \<longleftrightarrow> distinct ts \<and> set ts = {..<length cg} \<and> ordered (plain cg) ts"

definition graph_library :: "'e graph_lib \<Rightarrow> bool" where
  "graph_library lib \<longleftrightarrow>
    (\<forall>n g. closed_graph n g \<longrightarrow> (case strong_components lib n g of (m, number) \<Rightarrow>
      components_ok n g m number \<and> component_lists_ok m number (build_component_lists lib n g m number)))
    \<and> (\<forall>cg. in_range cg \<longrightarrow> acyclic (adjacent cg) \<longrightarrow> sorted_ok cg (topological_sort lib (length cg) cg))"

section \<open>The condensation\<close>

lemma set_remove_duplicates [simp]: "set (remove_duplicates xs) = set xs"
  by (simp add: remove_duplicates_def)

lemma arcs_closed: "closed_graph n g \<Longrightarrow> (u, v) \<in> arcs n g \<Longrightarrow> u < n \<and> v < n"
  by (auto simp: arcs_def closed_graph_def)

lemma trancl_arcs_closed: "(u, v) \<in> (arcs n g)\<^sup>+ \<Longrightarrow> closed_graph n g \<Longrightarrow> u < n \<and> v < n"
  by (induction rule: trancl_induct) (auto dest: arcs_closed)

lemma components_size:
  assumes "components_ok n g m number" "component_lists_ok m number components" "u < n"
  shows "u \<in> set (components ! (number ! u))" "number ! u < m"
    "length (components ! (number ! u)) \<le> 1 \<longleftrightarrow> set (components ! (number ! u)) = {u}"
proof -
  have u: "u < length number" using assms by (simp add: components_ok_def)
  then have "number ! u \<in> set number" by simp
  then show m: "number ! u < m" using assms(1) unfolding components_ok_def by (metis lessThan_iff)
  then show mem: "u \<in> set (components ! (number ! u))" using assms(2) u by (auto simp: component_lists_ok_def)
  have "distinct (components ! (number ! u))" using assms(2) m by (auto simp: component_lists_ok_def)
  then show "length (components ! (number ! u)) \<le> 1 \<longleftrightarrow> set (components ! (number ! u)) = {u}"
    using mem by (cases "components ! (number ! u)") (auto simp: subset_singleton_iff)
qed

lemma adjacent_condensation:
  assumes "closed_graph n g" "components_ok n g m number" "component_lists_ok m number components"
  shows "(s, t) \<in> adjacent (condensation g number components)
    \<longleftrightarrow> s < m \<and> s \<noteq> t \<and> (\<exists>u v. (u, v) \<in> arcs n g \<and> number ! u = s \<and> number ! v = t)"
proof -
  have len: "length components = m" "length number = n" using assms(2,3) by (simp_all add: component_lists_ok_def components_ok_def)
  have "t \<in> set (component_edges g number (components ! s) s) \<longleftrightarrow>
      s \<noteq> t \<and> (\<exists>u v. (u, v) \<in> arcs n g \<and> number ! u = s \<and> number ! v = t)" if "s < m"
  proof -
    have "set (components ! s) = {u. u < n \<and> number ! u = s}" using assms(3) that len by (simp add: component_lists_ok_def)
    then have "t \<in> set (component_edges g number (components ! s) s) \<longleftrightarrow>
        s \<noteq> t \<and> (\<exists>u. u < n \<and> number ! u = s \<and> (\<exists>p \<in> set (g u). number ! fst p = t))"
      by (auto simp: component_edges_def case_prod_unfold)
    then show ?thesis by (auto simp: arcs_def targets_def)
  qed
  moreover have "(s, t) \<in> adjacent (condensation g number components) \<longleftrightarrow> s < m \<and> t \<in> set (component_edges g number (components ! s) s)"
    using len by (auto simp: adjacent_def condensation_def)
  ultimately show ?thesis by blast
qed

lemma condensation_in_range:
  assumes "closed_graph n g" "components_ok n g m number" "component_lists_ok m number components"
  shows "in_range (condensation g number components)" "length (condensation g number components) = m"
proof -
  show len: "length (condensation g number components) = m" using assms(3) by (simp add: condensation_def component_lists_ok_def)
  show "in_range (condensation g number components)"
  proof (intro allI impI subsetI)
    fix s t assume "s < length (condensation g number components)" "t \<in> set (condensation g number components ! s)"
    then have "(s, t) \<in> adjacent (condensation g number components)" by (simp add: adjacent_def)
    then obtain u v where "(u, v) \<in> arcs n g" "number ! v = t" using adjacent_condensation[OF assms] by blast
    then have "t < m" using arcs_closed[OF assms(1)] components_size(2)[OF assms(2,3)] by blast
    then show "t \<in> {..<length (condensation g number components)}" using len by simp
  qed
qed

text \<open>Paths of the condensation are paths of the graph, and paths of the graph stay in a component or follow one.\<close>

lemma condensation_sound:
  assumes "closed_graph n g" "components_ok n g m number" "component_lists_ok m number components"
  shows "(s, t) \<in> (adjacent (condensation g number components))\<^sup>+ \<Longrightarrow> \<forall>u v. u < n \<longrightarrow> v < n \<longrightarrow> number ! u = s \<longrightarrow> number ! v = t \<longrightarrow> (u, v) \<in> (arcs n g)\<^sup>+"
proof (induction rule: trancl_induct)
  case (base t)
  then obtain a b where ab: "(a, b) \<in> arcs n g" "number ! a = s" "number ! b = t" using adjacent_condensation[OF assms] by blast
  show ?case
  proof (intro allI impI)
    fix u v assume "u < n" "v < n" "number ! u = s" "number ! v = t"
    then have "(u, a) \<in> (arcs n g)\<^sup>*" "(b, v) \<in> (arcs n g)\<^sup>*"
      using ab arcs_closed[OF assms(1) ab(1)] assms(2) unfolding components_ok_def by blast+
    then show "(u, v) \<in> (arcs n g)\<^sup>+" using ab(1) by (meson rtrancl_into_trancl1 trancl_rtrancl_trancl)
  qed
next
  case (step t t')
  then obtain a b where ab: "(a, b) \<in> arcs n g" "number ! a = t" "number ! b = t'" using adjacent_condensation[OF assms] by blast
  show ?case
  proof (intro allI impI)
    fix u v assume *: "u < n" "v < n" "number ! u = s" "number ! v = t'"
    then have "(b, v) \<in> (arcs n g)\<^sup>*" using ab arcs_closed[OF assms(1) ab(1)] assms(2) unfolding components_ok_def by blast
    moreover have "(u, a) \<in> (arcs n g)\<^sup>+" using step.IH * ab arcs_closed[OF assms(1) ab(1)] by blast
    ultimately show "(u, v) \<in> (arcs n g)\<^sup>+" using ab(1) by (meson trancl_into_trancl trancl_rtrancl_trancl)
  qed
qed

lemma condensation_acyclic:
  assumes "closed_graph n g" "components_ok n g m number" "component_lists_ok m number components"
  shows "acyclic (adjacent (condensation g number components))"
  unfolding acyclic_def
proof (intro allI notI)
  let ?A = "adjacent (condensation g number components)"
  fix s assume "(s, s) \<in> ?A\<^sup>+"
  then obtain t where t: "(s, t) \<in> ?A" "(t, s) \<in> ?A\<^sup>*" using tranclD by metis
  then have "s \<noteq> t" using adjacent_condensation[OF assms] by blast
  then have return: "(t, s) \<in> ?A\<^sup>+" using t(2) by (simp add: rtrancl_eq_or_trancl)
  from t(1) obtain u v where uv: "(u, v) \<in> arcs n g" "number ! u = s" "number ! v = t" using adjacent_condensation[OF assms] by blast
  then have "(v, u) \<in> (arcs n g)\<^sup>+" using condensation_sound[OF assms return] arcs_closed[OF assms(1) uv(1)] by blast
  then have "number ! u = number ! v"
    using uv(1) arcs_closed[OF assms(1) uv(1)] assms(2) unfolding components_ok_def by (meson r_into_rtrancl trancl_into_rtrancl)
  then show False using uv \<open>s \<noteq> t\<close> by simp
qed

lemma condensation_complete:
  assumes "closed_graph n g" "components_ok n g m number" "component_lists_ok m number components"
  shows "(u, v) \<in> (arcs n g)\<^sup>+ \<Longrightarrow> number ! u = number ! v \<or> (number ! u, number ! v) \<in> (adjacent (condensation g number components))\<^sup>+"
proof (induction rule: trancl_induct)
  case (base v)
  then show ?case
    using adjacent_condensation[OF assms] components_size(2)[OF assms(2,3)] arcs_closed[OF assms(1)] by blast
next
  case (step v w)
  then have "number ! v = number ! w \<or> (number ! v, number ! w) \<in> adjacent (condensation g number components)"
    using adjacent_condensation[OF assms] components_size(2)[OF assms(2,3)] arcs_closed[OF assms(1)] by blast
  then show ?case using step.IH by (metis r_into_trancl trancl_into_trancl)
qed

section \<open>The closure of the graph\<close>

lemma set_between:
  "length rows = length components \<Longrightarrow> (u, v) \<in> set (between_components components rows)
    \<longleftrightarrow> (\<exists>s < length components. u \<in> set (components ! s) \<and> (\<exists>t \<in> set (rows ! s). v \<in> set (components ! t)))"
  by (fastforce simp: between_components_def set_zip)

lemma set_within:
  "(u, v) \<in> set (within_components components)
    \<longleftrightarrow> (\<exists>s < length components. length (components ! s) > 1 \<and> u \<in> set (components ! s) \<and> v \<in> set (components ! s))"
  by (auto simp: within_components_def in_set_conv_nth[of _ components] split: if_splits) force+

lemma set_loopbacks:
  "(u, v) \<in> set (loopbacks n g number components) \<longleftrightarrow> u = v \<and> (u, u) \<in> arcs n g \<and> length (components ! (number ! u)) = 1"
  by (auto simp: loopbacks_def arcs_def targets_def split: if_splits) force+

text \<open>In a component of one node, a path back to it is an edge.\<close>

lemma loop_of_singleton:
  assumes "components_ok n g m number" "closed_graph n g" "(u, u) \<in> (arcs n g)\<^sup>+" "\<And>w. w < n \<Longrightarrow> number ! w = number ! u \<Longrightarrow> w = u"
  shows "(u, u) \<in> arcs n g"
proof -
  obtain w where w: "(u, w) \<in> arcs n g" "(w, u) \<in> (arcs n g)\<^sup>*" using tranclD[OF assms(3)] by blast
  then have "number ! w = number ! u" "w < n"
    using assms(1) arcs_closed[OF assms(2) w(1)] unfolding components_ok_def by (meson r_into_rtrancl)+
  then show ?thesis using assms(4) w(1) by blast
qed

text \<open>In a component of several, every node is on a path to every one.\<close>

lemma within_reaches:
  assumes "components_ok n g m number" "u < n" "v < n" "w < n" "number ! u = number ! v" "number ! w = number ! u" "w \<noteq> u"
  shows "(u, v) \<in> (arcs n g)\<^sup>+"
proof -
  have "(u, w) \<in> (arcs n g)\<^sup>*" "(w, v) \<in> (arcs n g)\<^sup>*" using assms unfolding components_ok_def by metis+
  then show ?thesis using assms(7) by (metis rtrancl_eq_or_trancl trancl_rtrancl_trancl)
qed

lemma transitive_closure_result:
  assumes "graph_library lib" "closed_graph n g" "n \<le> inf_vertex"
  shows "has_edge (transitive_closure lib n g) u v \<longleftrightarrow> (u, v) \<in> (arcs n g)\<^sup>+"
proof (cases "n = 0")
  case True
  have "arcs 0 g = {}" by (simp add: arcs_def)
  then show ?thesis using True by (simp add: has_edge_def transitive_closure_def)
next
  case False
  obtain m number where scc: "strong_components lib n g = (m, number)" by (cases "strong_components lib n g")
  define components where "components = build_component_lists lib n g m number"
  define cg where "cg = condensation g number components"
  have ok: "components_ok n g m number" "component_lists_ok m number components"
    using assms(1,2) scc unfolding graph_library_def components_def by (auto split: prod.splits)
  note condensed = assms(2) ok
  have len: "length number = n" "length components = m" "length cg = m" and "in_range cg"
    using ok condensation_in_range[OF condensed] by (simp_all add: components_ok_def component_lists_ok_def cg_def)
  have "m = card (set number)" using ok(1) by (simp add: components_ok_def)
  then have "m \<le> inf_vertex" using card_length[of number] len(1) assms(3) by simp
  moreover have "sorted_ok cg (topological_sort lib m cg)"
    using assms(1) \<open>in_range cg\<close> condensation_acyclic[OF condensed] len(3) unfolding graph_library_def cg_def by blast
  ultimately have rows: "length (component_closure lib m cg) = m"
    "\<And>s. s < m \<Longrightarrow> set (component_closure lib m cg ! s) = (adjacent cg)\<^sup>+ `` {s}"
    using component_closure_correct[OF \<open>in_range cg\<close> len(3), where lib = lib] len(3) by (simp_all add: sorted_ok_def)
  have member: "x \<in> set (components ! s) \<longleftrightarrow> x < n \<and> number ! x = s" if "s < m" for x s
    using ok(2) that len(1) by (auto simp: component_lists_ok_def)
  have small: "length (components ! (number ! u)) \<le> 1 \<longleftrightarrow> (\<forall>w < n. number ! w = number ! u \<longrightarrow> w = u)" if "u < n" for u
    using components_size[OF ok that] member[of "number ! u"] by auto
  have "(u, v) \<in> set (between_components components (component_closure lib m cg))
      \<longleftrightarrow> u < n \<and> v < n \<and> (number ! u, number ! v) \<in> (adjacent cg)\<^sup>+"
  proof -
    have "t < m" if "s < m" "(s, t) \<in> (adjacent cg)\<^sup>+" for s t
      using reach_in_range[OF trancl_into_rtrancl[OF that(2)] \<open>in_range cg\<close>] that(1) len(3) by simp
    note inside = this
    have "(u, v) \<in> set (between_components components (component_closure lib m cg))
        \<longleftrightarrow> (\<exists>s < m. u \<in> set (components ! s) \<and> (\<exists>t \<in> (adjacent cg)\<^sup>+ `` {s}. v \<in> set (components ! t)))"
      using set_between[of "component_closure lib m cg" components u v] rows len(2) by (simp cong: conj_cong)
    also have "\<dots> \<longleftrightarrow> (\<exists>s < m. u < n \<and> number ! u = s \<and> (\<exists>t. (s, t) \<in> (adjacent cg)\<^sup>+ \<and> v < n \<and> number ! v = t))"
      using inside member by blast
    finally show ?thesis using components_size(2)[OF ok] by blast
  qed
  moreover have "(u, v) \<in> set (within_components components)
      \<longleftrightarrow> u < n \<and> v < n \<and> number ! u = number ! v \<and> (\<exists>w < n. number ! w = number ! u \<and> w \<noteq> u)"
  proof -
    have "(u, v) \<in> set (within_components components)
        \<longleftrightarrow> (\<exists>s < m. length (components ! s) > 1 \<and> (u < n \<and> number ! u = s) \<and> (v < n \<and> number ! v = s))"
      using set_within[of u v components] len(2) member by (simp cong: conj_cong)
    also have "\<dots> \<longleftrightarrow> u < n \<and> v < n \<and> number ! u = number ! v \<and> \<not> length (components ! (number ! u)) \<le> 1"
      using components_size(2)[OF ok] by (auto simp: not_le)
    finally show ?thesis using small by blast
  qed
  moreover have "(u, v) \<in> set (loopbacks n g number components)
      \<longleftrightarrow> u = v \<and> (u, u) \<in> arcs n g \<and> (\<forall>w < n. number ! w = number ! u \<longrightarrow> w = u)"
  proof -
    have "length (components ! (number ! u)) = 1 \<longleftrightarrow> length (components ! (number ! u)) \<le> 1" if "u < n"
      using components_size(1)[OF ok that] by (cases "components ! (number ! u)") auto
    then show ?thesis using set_loopbacks[of u v n g number components] small arcs_closed[OF assms(2)] by blast
  qed
  ultimately have "has_edge (transitive_closure lib n g) u v \<longleftrightarrow>
      u < n \<and> v < n \<and> ((number ! u, number ! v) \<in> (adjacent cg)\<^sup>+
        \<or> (number ! u = number ! v \<and> (\<exists>w < n. number ! w = number ! u \<and> w \<noteq> u))
        \<or> (u = v \<and> (u, u) \<in> arcs n g \<and> (\<forall>w < n. number ! w = number ! u \<longrightarrow> w = u)))"
    using False arcs_closed[OF assms(2), of u u]
    by (auto simp: has_edge_def transitive_closure_def scc Let_def simp flip: components_def cg_def)
  also have "\<dots> \<longleftrightarrow> (u, v) \<in> (arcs n g)\<^sup>+"
  proof (intro iffI; (elim conjE disjE)?)
    assume "u < n" "v < n" "(number ! u, number ! v) \<in> (adjacent cg)\<^sup>+"
    then show "(u, v) \<in> (arcs n g)\<^sup>+" using condensation_sound[OF condensed] unfolding cg_def by blast
  next
    assume "u < n" "v < n" "number ! u = number ! v" "\<exists>w < n. number ! w = number ! u \<and> w \<noteq> u"
    then show "(u, v) \<in> (arcs n g)\<^sup>+" using within_reaches[OF ok(1)] by blast
  next
    assume "u = v" "(u, u) \<in> arcs n g"
    then show "(u, v) \<in> (arcs n g)\<^sup>+" by blast
  next
    assume path: "(u, v) \<in> (arcs n g)\<^sup>+"
    then have "u < n" "v < n" using trancl_arcs_closed assms(2) by blast+
    moreover have "u = v \<and> (u, u) \<in> arcs n g" if "number ! u = number ! v" "\<forall>w < n. number ! w = number ! u \<longrightarrow> w = u"
      using that loop_of_singleton[OF ok(1) assms(2), of u] path \<open>v < n\<close> by metis
    ultimately show "u < n \<and> v < n \<and> ((number ! u, number ! v) \<in> (adjacent cg)\<^sup>+
        \<or> (number ! u = number ! v \<and> (\<exists>w < n. number ! w = number ! u \<and> w \<noteq> u))
        \<or> (u = v \<and> (u, u) \<in> arcs n g \<and> (\<forall>w < n. number ! w = number ! u \<longrightarrow> w = u)))"
      using condensation_complete[OF condensed path] unfolding cg_def by blast
  qed
  finally show ?thesis .
qed

text \<open>The transitive closure has an edge from one node to another exactly when a path of at least one edge leads there.\<close>

theorem transitive_closure_correct:
  assumes "graph_library lib" "closed_graph n g" "n \<le> inf_vertex"
  shows "has_edge (transitive_closure lib n g) u v \<longleftrightarrow> (u, v) \<in> (arcs n g)\<^sup>+"
  using assms by (rule transitive_closure_result)

section \<open>A library that keeps the promises\<close>

text \<open>Components from searches for paths, and the sort from the one of the code.\<close>

definition mutual :: "nat \<Rightarrow> 'e out_edges \<Rightarrow> nat \<Rightarrow> nat \<Rightarrow> bool" where
  "mutual n g u v \<longleftrightarrow> find_path 0 u v n g = Some True \<and> find_path 0 v u n g = Some True"

definition first_members :: "nat \<Rightarrow> 'e out_edges \<Rightarrow> nat list" where
  "first_members n g = filter (\<lambda>v. \<not> list_ex (\<lambda>u. mutual n g u v) [0..<v]) [0..<n]"

definition naive_library :: "'e graph_lib" where
  "naive_library = \<lparr>strong_components = \<lambda>n g. (length (first_members n g),
      List.map (\<lambda>v. length (takeWhile (\<lambda>r. \<not> mutual n g r v) (first_members n g))) [0..<n]),
    build_component_lists = \<lambda>n g m number. List.map (\<lambda>s. filter (\<lambda>u. number ! u = s) [0..<length number]) [0..<m],
    topological_sort = \<lambda>m cg. (case custom_topological_sort library_visitor m (plain cg) 0 of Inr ts \<Rightarrow> ts | Inl x \<Rightarrow> [])\<rparr>"

lemma mutual_iff:
  "closed_graph n g \<Longrightarrow> u < n \<Longrightarrow> v < n \<Longrightarrow> mutual n g u v \<longleftrightarrow> (u, v) \<in> (arcs n g)\<^sup>* \<and> (v, u) \<in> (arcs n g)\<^sup>*"
  by (simp add: mutual_def find_path_result)

lemma first_members_correct:
  assumes "closed_graph n g" "v < n"
  shows "\<exists>i < length (first_members n g). mutual n g (first_members n g ! i) v"
proof -
  let ?u = "LEAST u. u < n \<and> mutual n g u v"
  have "v < n \<and> mutual n g v v" using assms by (simp add: mutual_iff)
  then have u: "?u < n \<and> mutual n g ?u v" by (rule LeastI)
  have "\<not> mutual n g w ?u" if "w < ?u" for w
  proof
    assume "mutual n g w ?u"
    then have "mutual n g w v" using u that assms by (auto simp: mutual_iff)
    then show False using not_less_Least[OF that] that u by simp
  qed
  then have "?u \<in> set (first_members n g)" using u by (auto simp: first_members_def list_ex_iff)
  then show ?thesis using u unfolding in_set_conv_nth by metis
qed

lemma first_members_apart:
  assumes "closed_graph n g" "r \<in> set (first_members n g)" "r' \<in> set (first_members n g)" "mutual n g r r'"
  shows "r = r'"
proof (rule ccontr)
  assume "r \<noteq> r'"
  have "r < n" "r' < n" using assms(2,3) by (simp_all add: first_members_def)
  then have "mutual n g r' r" using assms(1,4) by (auto simp: mutual_iff)
  then show False using \<open>r \<noteq> r'\<close> assms(2-4) by (cases "r < r'") (auto simp: first_members_def list_ex_iff)
qed

lemma naive_components:
  assumes "closed_graph n g"
  defines "reps \<equiv> first_members n g"
  defines "number \<equiv> List.map (\<lambda>v. length (takeWhile (\<lambda>r. \<not> mutual n g r v) reps)) [0..<n]"
  shows "components_ok n g (length reps) number"
proof -
  have reps: "distinct reps" "\<And>i. i < length reps \<Longrightarrow> reps ! i < n"
    using nth_mem[of _ reps] by (auto simp: reps_def first_members_def)
  have found: "number ! v < length reps \<and> mutual n g (reps ! (number ! v)) v" if v: "v < n" for v
  proof -
    obtain i where "i < length reps" "mutual n g (reps ! i) v" using first_members_correct[OF assms(1) v] by (auto simp: reps_def)
    then have "length (takeWhile (\<lambda>r. \<not> mutual n g r v) reps) < length reps"
      by (metis (no_types, lifting) length_takeWhile_le linorder_not_le nth_mem order_le_less takeWhile_eq_all_conv takeWhile_eq_take take_all_iff)
    then show ?thesis using nth_length_takeWhile[of "\<lambda>r. \<not> mutual n g r v" reps] v by (simp add: number_def)
  qed
  have unique: "i = number ! v" if "i < length reps" "v < n" "mutual n g (reps ! i) v" for i v
  proof -
    have "mutual n g (reps ! i) (reps ! (number ! v))"
      using that found[OF that(2)] reps(2) assms(1) by (auto simp: mutual_iff)
    then have "reps ! i = reps ! (number ! v)"
      using first_members_apart[OF assms(1)] that(1) found[OF that(2)] by (simp add: reps_def)
    then show ?thesis using nth_eq_iff_index_eq[OF reps(1)] that(1) found[OF that(2)] by blast
  qed
  have "number ! u = number ! v \<longleftrightarrow> (u, v) \<in> (arcs n g)\<^sup>* \<and> (v, u) \<in> (arcs n g)\<^sup>*" if "u < n" "v < n" for u v
  proof -
    have "number ! u = number ! v \<longleftrightarrow> mutual n g (reps ! (number ! u)) v" using found[OF that(1)] found[OF that(2)] unique[OF _ that(2)] by metis
    also have "\<dots> \<longleftrightarrow> mutual n g u v" using found[OF that(1)] reps(2) that assms(1) by (auto simp: mutual_iff)
    finally show ?thesis using that assms(1) by (simp add: mutual_iff)
  qed
  moreover have "set number = {..<length reps}"
  proof
    show "set number \<subseteq> {..<length reps}" using found by (auto simp: in_set_conv_nth) (simp add: number_def)
    show "{..<length reps} \<subseteq> set number"
    proof
      fix i assume i: "i \<in> {..<length reps}"
      then have "i = number ! (reps ! i)" using unique[of i "reps ! i"] reps(2) assms(1) by (simp add: mutual_iff)
      then show "i \<in> set number" using i reps(2) nth_mem[of "reps ! i" number] by (simp add: number_def)
    qed
  qed
  ultimately show ?thesis by (simp add: components_ok_def number_def)
qed

lemma arcs_plain: "length cg = m \<Longrightarrow> arcs m (plain cg) = adjacent cg"
  by (simp add: arcs_def adjacent_def)

lemma naive_library_ok: "graph_library naive_library"
  unfolding graph_library_def
proof (intro conjI allI impI)
  fix n :: nat and g :: "'a out_edges" assume "closed_graph n g"
  from naive_components[OF this]
  show "case strong_components naive_library n g of (m, number) \<Rightarrow> components_ok n g m number
      \<and> component_lists_ok m number (build_component_lists naive_library n g m number)"
    by (auto simp: naive_library_def component_lists_ok_def)
next
  fix cg assume "in_range cg" "acyclic (adjacent cg)"
  then have "closed_graph (length cg) (plain cg)" "acyclic (arcs (length cg) (plain cg))"
    by (simp_all add: closed_graph_def arcs_plain)
  then show "sorted_ok cg (topological_sort naive_library (length cg) cg)"
    using custom_topological_sort_result[OF library_visitor_ok, of "length cg" "plain cg" 0]
    by (auto simp: naive_library_def sorted_ok_def split: sum.splits)
qed

text \<open>A cycle of two nodes, and a third one that leads into it.\<close>

definition two_and_one :: "unit out_edges" where
  "two_and_one u = (if u = 0 then [(1, ())] else if u = 1 then [(0, ())] else [(1, ())])"

lemma transitive_closure_correct_witness:
  "has_edge (transitive_closure naive_library 3 two_and_one) 2 0 \<and> has_edge (transitive_closure naive_library 3 two_and_one) 1 1
    \<and> \<not> has_edge (transitive_closure naive_library 3 two_and_one) 2 2"
proof -
  have closed: "closed_graph 3 two_and_one" by (auto simp: closed_graph_def targets_def two_and_one_def)
  have "(3 :: nat) \<le> inf_vertex" by (simp add: inf_vertex_def)
  note edge = transitive_closure_correct[OF naive_library_ok closed this]
  have arcs: "(2, 1) \<in> arcs 3 two_and_one" "(1, 0) \<in> arcs 3 two_and_one" "(0, 1) \<in> arcs 3 two_and_one"
    by (simp_all add: arcs_def targets_def two_and_one_def)
  have "v \<noteq> 2" if "(u, v) \<in> (arcs 3 two_and_one)\<^sup>+" for u v
    using that by (induction rule: trancl_induct) (auto simp: arcs_def targets_def two_and_one_def split: if_splits)
  moreover have "(2, 0) \<in> (arcs 3 two_and_one)\<^sup>+" "(1, 1) \<in> (arcs 3 two_and_one)\<^sup>+"
    using arcs by (blast intro: trancl_into_trancl)+
  ultimately show ?thesis using edge[of 2 0] edge[of 1 1] edge[of 2 2] by blast
qed

end
