(* ===== verification/ValueMapping.thy ===== *)
theory ValueMapping
  imports DomainOps Expressions
begin

text \<open>
  Bringing a value from one port or parameter to another (network/common/value_mapping.cpp, complex_type.cpp and the
  control processing of dataflow/data.cpp): the conversion of its unit or its type, the component an index selects, and
  the scaling from one domain to another. Units are the parameter \<open>unit_env\<close>, with the conversion of a number to a
  character, which the language leaves open where the number does not fit.
\<close>

section \<open>Types\<close>

text \<open>A \<open>complex_type\<close> is a plain type, a unit (which may be none) or the name of an extended type.\<close>

datatype complex_type = No_complex_type | Plain_type val_type | Unit_type "nat option" | Extended_type string

record unit_env =
  check_units_convertible :: "nat option \<Rightarrow> nat option \<Rightarrow> bool"
  units_convert :: "value_t \<Rightarrow> nat option \<Rightarrow> nat option \<Rightarrow> value_t"
  matching_type :: "nat option \<Rightarrow> val_type"
  extended_types :: "string \<Rightarrow> val_type list"
  cast_char :: "f32 \<Rightarrow> char"

definition underlying_type :: "unit_env \<Rightarrow> complex_type \<Rightarrow> val_type" where
  "underlying_type ue t = (case t of
      Plain_type v \<Rightarrow> v
    | Unit_type u \<Rightarrow> matching_type ue u
    | Extended_type e \<Rightarrow> (case extended_types ue e of [] \<Rightarrow> IMPULSE | t # ts \<Rightarrow> t)
    | No_complex_type \<Rightarrow> IMPULSE)"

fun target_unit :: "complex_type \<Rightarrow> nat option option" where
  "target_unit (Unit_type u) = Some u"
| "target_unit _ = None"

fun target_type :: "complex_type \<Rightarrow> val_type option" where
  "target_type (Plain_type t) = Some t"
| "target_type _ = None"

definition convert_complex :: "num_env \<Rightarrow> unit_env \<Rightarrow> value_t \<Rightarrow> complex_type \<Rightarrow> complex_type \<Rightarrow> value_t" where
  "convert_complex ne ue v source_t dest_t = (case (target_unit source_t, target_unit dest_t, target_type dest_t) of
      (Some src_u, Some tgt_u, _) \<Rightarrow> units_convert ue v src_u tgt_u
    | (_, _, Some t) \<Rightarrow> convert_to ne v t
    | (_, Some (Some u), None) \<Rightarrow> convert_to ne v (underlying_type ue dest_t)
    | _ \<Rightarrow> v)"

definition units_govern :: "unit_env \<Rightarrow> complex_type \<Rightarrow> complex_type \<Rightarrow> bool" where
  "units_govern ue source_type sink_type = (case (target_unit source_type, target_unit sink_type) of
      (Some (Some s), Some (Some t)) \<Rightarrow> check_units_convertible ue (Some s) (Some t)
    | _ \<Rightarrow> False)"

section \<open>Scaling\<close>

fun f32_mul :: "(rat \<Rightarrow> f32) \<Rightarrow> f32 \<Rightarrow> f32 \<Rightarrow> f32" where
  "f32_mul r (Fin a) (Fin b) = r (a * b)"
| "f32_mul r (Infty s) (Infty t) = Infty (s \<noteq> t)"
| "f32_mul r (Infty s) (Fin a) = (if a = 0 then Nan else Infty (s \<noteq> (a < 0)))"
| "f32_mul r (Fin a) (Infty s) = (if a = 0 then Nan else Infty (s \<noteq> (a < 0)))"
| "f32_mul r _ _ = Nan"

text \<open>The divisors here are never zero.\<close>

fun f32_div :: "(rat \<Rightarrow> f32) \<Rightarrow> f32 \<Rightarrow> f32 \<Rightarrow> f32" where
  "f32_div r (Fin a) (Fin b) = r (a / b)"
| "f32_div r (Infty s) (Fin a) = Infty (s \<noteq> (a < 0))"
| "f32_div r (Fin a) (Infty s) = Fin 0"
| "f32_div r _ _ = Nan"

definition is_zero :: "f32 \<Rightarrow> bool" where
  "is_zero x \<longleftrightarrow> x = Fin 0"

text \<open>
  The template \<open>scale_visitor\<close> computes with \<open>double\<close>, \<open>process_float_control_visitor\<close> with \<open>float\<close>: how a number of the
  value enters the computation and how its result becomes a \<open>float\<close> again depend on it.
\<close>

record scaling =
  sc_src_min :: f32
  sc_dst_min :: f32
  sc_ratio :: f32
  sc_round :: "rat \<Rightarrow> f32"
  sc_int :: "int \<Rightarrow> f32"
  sc_float :: "f32 \<Rightarrow> f32"

definition scaled :: "scaling \<Rightarrow> f32 \<Rightarrow> f32" where
  "scaled sc x = f32_add (sc_round sc) (sc_dst_min sc) (f32_mul (sc_round sc) (sc_ratio sc) (f32_sub (sc_round sc) x (sc_src_min sc)))"

fun scale_value :: "num_env \<Rightarrow> unit_env \<Rightarrow> scaling \<Rightarrow> value_t \<Rightarrow> value_t" where
  "scale_value ne ue sc Null = Null"
| "scale_value ne ue sc Impulse = Impulse"
| "scale_value ne ue sc (Int32 i) = Int32 (f32_to_int ne (scaled sc (sc_int sc i)))"
| "scale_value ne ue sc (Float f) = Float (sc_float sc (scaled sc f))"
| "scale_value ne ue sc (Bool b) = Bool (\<not> is_zero (scaled sc (sc_int sc (bool_num b))))"
| "scale_value ne ue sc (String s) = String (List.map (\<lambda>c. cast_char ue (scaled sc (sc_int sc (schar c)))) s)"
| "scale_value ne ue sc (Vec2f x y) = Vec2f (sc_float sc (scaled sc x)) (sc_float sc (scaled sc y))"
| "scale_value ne ue sc (Vec3f x y z) = Vec3f (sc_float sc (scaled sc x)) (sc_float sc (scaled sc y)) (sc_float sc (scaled sc z))"
| "scale_value ne ue sc (Vec4f x y z w) =
    Vec4f (sc_float sc (scaled sc x)) (sc_float sc (scaled sc y)) (sc_float sc (scaled sc z)) (sc_float sc (scaled sc w))"
| "scale_value ne ue sc (VList vs) = VList (List.map (scale_value ne ue sc) vs)"
| "scale_value ne ue sc (VMap m) = VMap (List.map (\<lambda>(k, v). (k, scale_value ne ue sc v)) m)"

definition double_scaling :: "num_env \<Rightarrow> f32 \<Rightarrow> f32 \<Rightarrow> f32 \<Rightarrow> scaling" where
  "double_scaling ne src_min dst_min ratio = \<lparr>sc_src_min = src_min, sc_dst_min = dst_min, sc_ratio = ratio,
    sc_round = to_double ne, sc_int = (\<lambda>i. Fin (of_int i)), sc_float = narrow ne\<rparr>"

definition float_scaling :: "num_env \<Rightarrow> f32 \<Rightarrow> f32 \<Rightarrow> f32 \<Rightarrow> scaling" where
  "float_scaling ne src_min dst_min ratio = \<lparr>sc_src_min = src_min, sc_dst_min = dst_min, sc_ratio = ratio,
    sc_round = to_float ne, sc_int = int_to_f32, sc_float = (\<lambda>f. f)\<rparr>"

definition scale :: "num_env \<Rightarrow> unit_env \<Rightarrow> value_t \<Rightarrow> f32 \<Rightarrow> f32 \<Rightarrow> f32 \<Rightarrow> f32 \<Rightarrow> value_t" where
  "scale ne ue v src_min src_max dst_min dst_max =
    (let sub = f32_sub (to_double ne) src_max src_min
     in if is_zero sub then v
        else scale_value ne ue (double_scaling ne src_min dst_min
               (f32_div (to_double ne) (f32_sub (to_double ne) dst_max dst_min) sub)) v)"

definition process_float_control :: "num_env \<Rightarrow> unit_env \<Rightarrow> value_t \<Rightarrow> f32 \<Rightarrow> f32 \<Rightarrow> f32 \<Rightarrow> f32 \<Rightarrow> value_t" where
  "process_float_control ne ue v src_min src_max dst_min dst_max =
    (let sub = f32_sub (to_float ne) src_max src_min
     in if is_zero sub then v
        else scale_value ne ue (float_scaling ne src_min dst_min
               (f32_div (to_float ne) (f32_sub (to_float ne) dst_max dst_min) sub)) v)"

section \<open>From one domain to another\<close>

text \<open>The bounds of a domain of one number, as doubles; \<open>bool\<close> has 0 and 1.\<close>

definition int_double :: "int \<Rightarrow> f32" where
  "int_double i = Fin (of_int i)"

fun number_bounds :: "domain \<Rightarrow> (f32 option \<times> f32 option) option" where
  "number_bounds (Int_domain d) = Some (map_option int_double (dom_min d), map_option int_double (dom_max d))"
| "number_bounds (Float_domain d) = Some (dom_min d, dom_max d)"
| "number_bounds _ = None"

definition scale_between :: "num_env \<Rightarrow> unit_env \<Rightarrow> value_t \<Rightarrow> f32 option \<times> f32 option \<Rightarrow> f32 option \<times> f32 option \<Rightarrow> value_t" where
  "scale_between ne ue v source sink = (case (source, sink) of
      ((Some smin, Some smax), (Some tmin, Some tmax)) \<Rightarrow> scale ne ue v smin smax tmin tmax
    | _ \<Rightarrow> v)"

definition domain_map :: "num_env \<Rightarrow> unit_env \<Rightarrow> nat list \<Rightarrow> value_t \<Rightarrow> domain \<Rightarrow> domain \<Rightarrow> value_t" where
  "domain_map ne ue idx v source_domain tgt_domain = (case (source_domain, tgt_domain) of
      (Vecf_domain s, _) \<Rightarrow> (case (idx, number_bounds tgt_domain) of
          ([i], Some t) \<Rightarrow> if i < vecf_size s then scale_between ne ue v (vf_min s ! i, vf_max s ! i) t else v
        | _ \<Rightarrow> v)
    | (Bool_domain, _) \<Rightarrow> (case number_bounds tgt_domain of
          Some t \<Rightarrow> scale_between ne ue v (Some (Fin 0), Some (Fin 1)) t
        | None \<Rightarrow> v)
    | (_, Bool_domain) \<Rightarrow> (case number_bounds source_domain of
          Some s \<Rightarrow> scale_between ne ue v s (Some (Fin 0), Some (Fin 1))
        | None \<Rightarrow> v)
    | _ \<Rightarrow> (case (number_bounds source_domain, number_bounds tgt_domain) of
          (Some s, Some t) \<Rightarrow> scale_between ne ue v s t
        | _ \<Rightarrow> v))"

text \<open>Both domains and the value are visited: one that is null throws.\<close>

definition map_value :: "num_env \<Rightarrow> unit_env \<Rightarrow> value_t \<Rightarrow> nat list \<Rightarrow> domain \<Rightarrow> domain \<Rightarrow> value_t checked" where
  "map_value ne ue v idx source_domain target_domain =
    (if v = Null \<or> source_domain = No_domain \<or> target_domain = No_domain then Inl Bad_variant
     else Inr (domain_map ne ue idx v source_domain target_domain))"

section \<open>Processing a value for a port\<close>

definition clip_value :: "num_env \<Rightarrow> value_t \<Rightarrow> domain \<Rightarrow> value_t checked" where
  "clip_value ne v sink_domain =
    bind_sum (bound_value ne sink_domain v CLIP) (\<lambda>bounded. Inr (if valid bounded then bounded else v))"

definition filter_value :: "num_env \<Rightarrow> unit_env \<Rightarrow> value_t \<Rightarrow> nat list \<Rightarrow> complex_type \<Rightarrow> complex_type \<Rightarrow> value_t \<times> bool" where
  "filter_value ne ue source res_index source_type res_type =
    (let source =
       (case (target_unit source_type, target_unit res_type) of
          (Some s, Some t) \<Rightarrow>
            if s \<noteq> t \<and> check_units_convertible ue s t
            then (let converted = units_convert ue source s t in if valid converted then converted else source)
            else source
        | _ \<Rightarrow>
          (case (target_type source_type, target_type res_type) of
             (Some s, Some t) \<Rightarrow> if s \<noteq> t \<and> res_index = [] then convert_inplace ne source t else source
           | _ \<Rightarrow> source));
         source = (if valid source \<and> res_index \<noteq> [] then get_value_at_index source res_index else source)
     in (source, units_govern ue source_type res_type))"

definition adapt_value ::
  "num_env \<Rightarrow> unit_env \<Rightarrow> value_t \<Rightarrow> nat list \<Rightarrow> complex_type \<Rightarrow> complex_type \<Rightarrow> domain \<Rightarrow> domain \<Rightarrow> value_t checked" where
  "adapt_value ne ue v idx source_type sink_type source_domain sink_domain =
    (let (v, governed) = filter_value ne ue v idx source_type sink_type
     in if governed then if sink_domain \<noteq> No_domain then clip_value ne v sink_domain else Inr v
        else if source_domain \<noteq> No_domain \<and> sink_domain \<noteq> No_domain then map_value ne ue v idx source_domain sink_domain
        else Inr v)"

fun is_vector_domain :: "domain \<Rightarrow> bool" where
  "is_vector_domain (Vector_domain d) = True"
| "is_vector_domain (Vecf_domain d) = True"
| "is_vector_domain _ = False"

text \<open>The three overloads of \<open>process_control_value\<close>: by domains, by types and by both; and the one that has the ports.\<close>

definition process_domains :: "num_env \<Rightarrow> unit_env \<Rightarrow> value_t \<Rightarrow> domain \<Rightarrow> domain \<Rightarrow> value_t checked" where
  "process_domains ne ue v source_domain sink_domain =
    (if is_vector_domain source_domain \<and> is_vector_domain sink_domain then map_value ne ue v [] source_domain sink_domain
     else Inr (case (get_float_minmax ne source_domain, get_float_minmax ne sink_domain) of
         ((Some src_min, Some src_max), (Some tgt_min, Some tgt_max)) \<Rightarrow>
           process_float_control ne ue v src_min src_max tgt_min tgt_max
       | _ \<Rightarrow> v))"

definition process_types :: "num_env \<Rightarrow> unit_env \<Rightarrow> value_t \<Rightarrow> complex_type \<Rightarrow> complex_type \<Rightarrow> value_t" where
  "process_types ne ue v source_type sink_type =
    (case (target_unit source_type, target_unit sink_type) of
       (Some s, Some t) \<Rightarrow>
         if \<not> check_units_convertible ue s t then v
         else (let converted = convert_complex ne ue v source_type sink_type in if valid converted then converted else v)
     | _ \<Rightarrow> (let converted = convert_complex ne ue v source_type sink_type in if valid converted then converted else v))"

definition process_both ::
  "num_env \<Rightarrow> unit_env \<Rightarrow> value_t \<Rightarrow> domain \<Rightarrow> domain \<Rightarrow> complex_type \<Rightarrow> complex_type \<Rightarrow> value_t checked" where
  "process_both ne ue v source_domain sink_domain source_type sink_type =
    (if units_govern ue source_type sink_type
     then (let v = process_types ne ue v source_type sink_type
           in if sink_domain \<noteq> No_domain then clip_value ne v sink_domain else Inr v)
     else bind_sum (process_domains ne ue v source_domain sink_domain) (\<lambda>v. Inr (process_types ne ue v source_type sink_type)))"

definition process_control_value ::
  "num_env \<Rightarrow> unit_env \<Rightarrow> value_t \<Rightarrow> domain \<Rightarrow> domain \<Rightarrow> complex_type \<Rightarrow> complex_type \<Rightarrow> value_t checked" where
  "process_control_value ne ue v source_domain sink_domain source_type sink_type =
    (if units_govern ue source_type sink_type
     then (let v = process_types ne ue v source_type sink_type
           in if sink_domain \<noteq> No_domain then clip_value ne v sink_domain else Inr v)
     else if source_domain \<noteq> No_domain \<and> sink_domain \<noteq> No_domain \<and> source_type \<noteq> No_complex_type \<and> sink_type \<noteq> No_complex_type
     then process_both ne ue v source_domain sink_domain source_type sink_type
     else if source_type \<noteq> No_complex_type \<and> sink_type \<noteq> No_complex_type
     then Inr (process_types ne ue v source_type sink_type)
     else if source_domain \<noteq> No_domain \<and> sink_domain \<noteq> No_domain
     then process_domains ne ue v source_domain sink_domain
     else Inr v)"

end
