(* ===== verification/GraphData.thy ===== *)
theory GraphData
  imports ValueMapping TokenRequest
begin

text \<open>
  The objects of the dataflow graph (dataflow/port.hpp, graph_edge.hpp, connection.hpp, graph_node.hpp): ports, edges
  and nodes in one store, and what links them. Of the four kinds of data a port can hold only values are kept; of a
  delay line of another kind there is its length.
\<close>

section \<open>Addresses\<close>

text \<open>What a path reaches in the devices is an argument: parameters, and nodes without one.\<close>

datatype reached = Parameter_at nat | Node_at nat
type_synonym devices = "string \<Rightarrow> reached list"

datatype destination_t = No_destination | To_parameter nat | To_path string | To_node nat

text \<open>The two callbacks and their second argument, whether the destination is the only one.\<close>

definition apply_to_destination :: "destination_t \<Rightarrow> devices \<Rightarrow> (reached \<times> bool) list" where
  "apply_to_destination addr devs = (case addr of
      To_parameter p \<Rightarrow> [(Parameter_at p, True)]
    | To_path pat \<Rightarrow> (let roots = devs pat in List.map (\<lambda>r. (r, length roots = 1)) roots)
    | To_node n \<Rightarrow> [(Node_at n, True)]
    | No_destination \<Rightarrow> [])"

section \<open>Ports\<close>

record timed_value =
  t_value :: "value_t"
  t_timestamp :: int

record typed_value = timed_value +
  t_index :: "nat list"
  t_type :: complex_type

datatype data_mix_method = Mix_append | Mix_replace | Mix_merge

record value_port =
  vp_domain :: domain
  vp_type :: complex_type
  vp_address_unit :: "nat option"
  vp_index :: "nat list"
  vp_is_event :: bool
  vp_mix_method :: data_mix_method
  vp_data :: "timed_value list"

datatype port_kind = Audio_port | Midi_port | Value_port | Geometry_port | Texture_port

text \<open>The scope of a port is a set of flags; the inlets that belong to a port are below it.\<close>

record port =
  which :: port_kind
  address :: destination_t
  local_scope :: bool
  global_scope :: bool
  cables :: "nat list"
  child_inlets :: "nat list"
  values_of :: value_port

section \<open>Edges\<close>

datatype delay_line =
    No_delay_line
  | Audio_delay_line nat
  | Midi_delay_line nat
  | Value_delay_line "typed_value list list"
  | Geometry_delay_line nat

datatype required_sides = Inbound | Outbound | Both_sides

datatype connection =
    No_connection
  | Immediate_glutton
  | Immediate_strict required_sides
  | Delayed_glutton delay_line nat
  | Delayed_strict delay_line nat
  | Dependency

fun delayed :: "connection \<Rightarrow> bool" where
  "delayed (Delayed_glutton buffer pos) = True"
| "delayed (Delayed_strict buffer pos) = True"
| "delayed _ = False"

fun data_size :: "delay_line \<Rightarrow> nat" where
  "data_size No_delay_line = 0"
| "data_size (Audio_delay_line n) = n"
| "data_size (Midi_delay_line n) = n"
| "data_size (Value_delay_line vs) = length vs"
| "data_size (Geometry_delay_line n) = n"

record graph_edge =
  con :: connection
  e_out :: "nat option"
  e_in :: "nat option"
  out_node :: "nat option"
  in_node :: "nat option"

section \<open>Nodes\<close>

record 'd graph_node =
  root_inputs :: "nat list"
  root_outputs :: "nat list"
  requested_tokens :: "'d token_request list"
  executed :: bool
  not_threadable :: bool
  node_start_discontinuous :: bool
  node_end_discontinuous :: bool
  muted :: bool

definition enabled :: "'d graph_node \<Rightarrow> bool" where
  "enabled n \<longleftrightarrow> requested_tokens n \<noteq> []"

section \<open>The store\<close>

record 'd graph_store =
  inlet_at :: "nat \<Rightarrow> port"
  outlet_at :: "nat \<Rightarrow> port"
  node_at :: "nat \<Rightarrow> 'd graph_node"
  edge_at :: "nat \<Rightarrow> graph_edge"

text \<open>The inlets of a node: those it lists, each followed by its children, and the children of its outlets.\<close>

definition all_inlets :: "('d, 'z) graph_store_scheme \<Rightarrow> nat \<Rightarrow> nat list" where
  "all_inlets w n =
    concat (List.map (\<lambda>p. p # child_inlets (inlet_at w p)) (root_inputs (node_at w n)))
    @ concat (List.map (\<lambda>p. child_inlets (outlet_at w p)) (root_outputs (node_at w n)))"

abbreviation all_outlets :: "('d, 'z) graph_store_scheme \<Rightarrow> nat \<Rightarrow> nat list" where
  "all_outlets w n \<equiv> root_outputs (node_at w n)"

definition upd_inlet :: "nat \<Rightarrow> (port \<Rightarrow> port) \<Rightarrow> ('d, 'z) graph_store_scheme \<Rightarrow> ('d, 'z) graph_store_scheme" where
  "upd_inlet i f w = w\<lparr>inlet_at := (inlet_at w)(i := f (inlet_at w i))\<rparr>"

definition upd_outlet :: "nat \<Rightarrow> (port \<Rightarrow> port) \<Rightarrow> ('d, 'z) graph_store_scheme \<Rightarrow> ('d, 'z) graph_store_scheme" where
  "upd_outlet i f w = w\<lparr>outlet_at := (outlet_at w)(i := f (outlet_at w i))\<rparr>"

definition upd_node :: "nat \<Rightarrow> ('d graph_node \<Rightarrow> 'd graph_node) \<Rightarrow> ('d, 'z) graph_store_scheme \<Rightarrow> ('d, 'z) graph_store_scheme" where
  "upd_node n f w = w\<lparr>node_at := (node_at w)(n := f (node_at w n))\<rparr>"

definition upd_edge :: "nat \<Rightarrow> (graph_edge \<Rightarrow> graph_edge) \<Rightarrow> ('d, 'z) graph_store_scheme \<Rightarrow> ('d, 'z) graph_store_scheme" where
  "upd_edge e f w = w\<lparr>edge_at := (edge_at w)(e := f (edge_at w e))\<rparr>"

lemmas upd_defs = upd_inlet_def upd_outlet_def upd_node_def upd_edge_def

text \<open>A connection by address: some outlet of the one and some inlet of the other lead to the same parameter.\<close>

definition parameters_of :: "destination_t \<Rightarrow> devices \<Rightarrow> nat list" where
  "parameters_of addr devs =
    concat (List.map (\<lambda>(r, unique). case r of Parameter_at p \<Rightarrow> [p] | Node_at n \<Rightarrow> []) (apply_to_destination addr devs))"

definition find_address_connection :: "('d, 'z) graph_store_scheme \<Rightarrow> nat \<Rightarrow> nat \<Rightarrow> devices \<Rightarrow> bool" where
  "find_address_connection w source sink devs =
    list_ex (\<lambda>p. list_ex (\<lambda>q.
      list_ex (\<lambda>p1. list_ex (\<lambda>p2. p1 = p2) (parameters_of (address (inlet_at w q)) devs))
        (parameters_of (address (outlet_at w p)) devs)) (all_inlets w sink)) (all_outlets w source)"

end
