(* ===== verification/GraphBase.thy ===== *)
theory GraphBase
  imports GraphData
begin

text \<open>
  The graph of nodes and edges (dataflow/graph_node.cpp, \<open>graph_base\<close> of dataflow/graph/graph_utils.hpp): connecting and
  disconnecting edges and ports, adding and removing nodes, and the maps from nodes and edges to their places in the
  graph. A vertex of the graph is its index; removing one moves those above it down, as the graph library does.
\<close>

section \<open>Ports and edges\<close>

definition port_connect :: "nat \<Rightarrow> port \<Rightarrow> port" where
  "port_connect e p = (if e \<in> set (cables p) then p else p\<lparr>cables := cables p @ [e]\<rparr>)"

definition port_disconnect :: "nat \<Rightarrow> port \<Rightarrow> port" where
  "port_disconnect e p = p\<lparr>cables := removeAll e (cables p)\<rparr>"

fun init_delay_line :: "port_kind \<Rightarrow> delay_line \<Rightarrow> delay_line" where
  "init_delay_line Audio_port buffer = Audio_delay_line 0"
| "init_delay_line Value_port buffer = Value_delay_line []"
| "init_delay_line Midi_port buffer = Midi_delay_line 0"
| "init_delay_line Geometry_port buffer = Geometry_delay_line 0"
| "init_delay_line Texture_port buffer = buffer"

fun init_connection :: "port_kind \<Rightarrow> connection \<Rightarrow> connection" where
  "init_connection k (Delayed_glutton buffer pos) = Delayed_glutton (init_delay_line k buffer) pos"
| "init_connection k (Delayed_strict buffer pos) = Delayed_strict (init_delay_line k buffer) pos"
| "init_connection k c = c"

text \<open>The ports of an edge that has all four ends and whose nodes have the ports.\<close>

definition edge_ports :: "('d, 'z) graph_store_scheme \<Rightarrow> nat \<Rightarrow> (nat \<times> nat) option" where
  "edge_ports w e = (case (e_in (edge_at w e), e_out (edge_at w e), in_node (edge_at w e), out_node (edge_at w e)) of
      (Some i, Some j, Some nin, Some nout) \<Rightarrow>
        if i \<in> set (all_inlets w nin) \<and> j \<in> set (all_outlets w nout) then Some (i, j) else None
    | _ \<Rightarrow> None)"

definition edge_init :: "nat \<Rightarrow> ('d, 'z) graph_store_scheme \<Rightarrow> ('d, 'z) graph_store_scheme" where
  "edge_init e w = (case edge_ports w e of
      Some (i, j) \<Rightarrow>
        upd_edge e (\<lambda>x. x\<lparr>con := init_connection (which (outlet_at w j)) (con x)\<rparr>)
          (upd_inlet i (port_connect e) (upd_outlet j (port_connect e) w))
    | None \<Rightarrow> w)"

definition empty_edge :: graph_edge where
  "empty_edge = \<lparr>con = No_connection, e_out = None, e_in = None, out_node = None, in_node = None\<rparr>"

definition edge_clear :: "nat \<Rightarrow> ('d, 'z) graph_store_scheme \<Rightarrow> ('d, 'z) graph_store_scheme" where
  "edge_clear e w = upd_edge e (\<lambda>x. empty_edge)
    (case edge_ports w e of
       Some (i, j) \<Rightarrow> upd_inlet i (port_disconnect e) (upd_outlet j (port_disconnect e) w)
     | None \<Rightarrow> w)"

text \<open>A node clears its cables and deletes its ports.\<close>

definition node_clear :: "nat \<Rightarrow> ('d, 'z) graph_store_scheme \<Rightarrow> ('d, 'z) graph_store_scheme" where
  "node_clear n w =
    upd_node n (\<lambda>x. x\<lparr>root_inputs := [], root_outputs := []\<rparr>)
      (fold (\<lambda>p w. fold edge_clear (cables (outlet_at w p)) w) (all_outlets w n)
        (fold (\<lambda>p w. fold edge_clear (cables (inlet_at w p)) w) (all_inlets w n) w))"

section \<open>The graph\<close>

record 'd graph_base = "'d graph_store" +
  vertex_nodes :: "nat list"
  out_lists :: "(nat \<times> nat) list list"
  node_map :: "nat \<Rightarrow> nat option"
  edge_map :: "nat \<Rightarrow> (nat \<times> nat) option"
  node_list :: "nat list"
  dirty :: bool

text \<open>The place of an edge is its source and its position among the edges of the source.\<close>

definition graph_edges :: "(nat \<times> nat) list list \<Rightarrow> (nat \<times> nat \<times> nat) list" where
  "graph_edges outs =
    concat (List.map (\<lambda>(u, es). List.map (\<lambda>(k, v, e). (e, u, k)) (enumerate 0 es)) (enumerate 0 outs))"

definition recompute_maps :: "('d, 'z) graph_base_scheme \<Rightarrow> ('d, 'z) graph_base_scheme" where
  "recompute_maps w = w\<lparr>node_map := map_of (zip (vertex_nodes w) [0..<length (vertex_nodes w)]),
    edge_map := map_of (graph_edges (out_lists w))\<rparr>"

definition add_node_impl :: "nat \<Rightarrow> ('d, 'z) graph_base_scheme \<Rightarrow> ('d, 'z) graph_base_scheme" where
  "add_node_impl n w = recompute_maps (w\<lparr>vertex_nodes := vertex_nodes w @ [n], out_lists := out_lists w @ [[]],
    node_list := node_list w @ [n], dirty := True\<rparr>)"

definition add_node :: "nat \<Rightarrow> ('d, 'z) graph_base_scheme \<Rightarrow> ('d, 'z) graph_base_scheme" where
  "add_node n w = (if node_map w n = None then add_node_impl n w else w)"

text \<open>The vertex of a node that is added when it is not there.\<close>

definition vertex_for :: "nat \<Rightarrow> ('d, 'z) graph_base_scheme \<Rightarrow> nat \<times> ('d, 'z) graph_base_scheme" where
  "vertex_for n w = (case node_map w n of Some v \<Rightarrow> (v, w) | None \<Rightarrow> (length (vertex_nodes w), add_node_impl n w))"

text \<open>An edge without nodes adds a vertex without a node, which recomputing the maps asserts against.\<close>

definition connect :: "nat \<Rightarrow> ('d, 'z) graph_base_scheme \<Rightarrow> ('d, 'z) graph_base_scheme option" where
  "connect e w = (let w = edge_init e w in case (in_node (edge_at w e), out_node (edge_at w e)) of
      (Some nin, Some nout) \<Rightarrow>
        (let (in_vtx, w) = vertex_for nin w; (out_vtx, w) = vertex_for nout w
         in Some ((recompute_maps (w\<lparr>out_lists := (out_lists w)[in_vtx := out_lists w ! in_vtx @ [(out_vtx, e)]]\<rparr>))\<lparr>dirty := True\<rparr>))
    | _ \<Rightarrow> None)"

definition disconnect :: "nat \<Rightarrow> ('d, 'z) graph_base_scheme \<Rightarrow> ('d, 'z) graph_base_scheme" where
  "disconnect e w = (let w = edge_clear e w in case edge_map w e of
      Some (u, k) \<Rightarrow>
        (recompute_maps (w\<lparr>out_lists := (out_lists w)[u := take k (out_lists w ! u) @ drop (Suc k) (out_lists w ! u)]\<rparr>))\<lparr>dirty := True\<rparr>
    | None \<Rightarrow> w)"

definition clear_vertex :: "nat \<Rightarrow> (nat \<times> nat) list list \<Rightarrow> (nat \<times> nat) list list" where
  "clear_vertex v outs = List.map (filter (\<lambda>(t, e). t \<noteq> v)) (outs[v := []])"

definition renumber :: "nat \<Rightarrow> nat \<Rightarrow> nat" where
  "renumber v t = (if t > v then t - 1 else t)"

definition remove_vertex :: "nat \<Rightarrow> (nat \<times> nat) list list \<Rightarrow> (nat \<times> nat) list list" where
  "remove_vertex v outs = List.map (List.map (\<lambda>(t, e). (renumber v t, e))) (take v outs @ drop (Suc v) outs)"

definition remove_node :: "nat \<Rightarrow> ('d, 'z) graph_base_scheme \<Rightarrow> ('d, 'z) graph_base_scheme" where
  "remove_node n w =
    (let w = fold (\<lambda>p w. fold disconnect (cables (inlet_at w p)) w) (all_inlets w n) w;
         w = fold (\<lambda>p w. fold disconnect (cables (outlet_at w p)) w) (all_outlets w n) w;
         w = (case node_map w n of
                Some v \<Rightarrow> recompute_maps (w\<lparr>out_lists := remove_vertex v (clear_vertex v (out_lists w)),
                                           vertex_nodes := take v (vertex_nodes w) @ drop (Suc v) (vertex_nodes w)\<rparr>)
              | None \<Rightarrow> w)
     in w\<lparr>node_list := remove1 n (node_list w), dirty := True\<rparr>)"

definition graph_clear :: "('d, 'z) graph_base_scheme \<Rightarrow> ('d, 'z) graph_base_scheme" where
  "graph_clear w =
    (fold node_clear (vertex_nodes w) (fold edge_clear (List.map fst (graph_edges (out_lists w))) w))
      \<lparr>dirty := True, node_map := Map.empty, edge_map := Map.empty, node_list := [], vertex_nodes := [], out_lists := []\<rparr>"

definition mark_dirty :: "('d, 'z) graph_base_scheme \<Rightarrow> ('d, 'z) graph_base_scheme" where
  "mark_dirty w = w\<lparr>dirty := True\<rparr>"

text \<open>The edges as the sort and the searches see them: the target of each and its connection.\<close>

definition adjacency :: "('d, 'z) graph_base_scheme \<Rightarrow> nat \<Rightarrow> (nat \<times> connection) list" where
  "adjacency w u = (if u < length (out_lists w) then List.map (\<lambda>(v, e). (v, con (edge_at w e))) (out_lists w ! u) else [])"

text \<open>The maps and the graph belong together.\<close>

definition maps_ok :: "('d, 'z) graph_base_scheme \<Rightarrow> bool" where
  "maps_ok w \<longleftrightarrow> distinct (vertex_nodes w) \<and> length (out_lists w) = length (vertex_nodes w)
    \<and> (\<forall>es \<in> set (out_lists w). \<forall>(v, e) \<in> set es. v < length (vertex_nodes w))
    \<and> node_map w = map_of (zip (vertex_nodes w) [0..<length (vertex_nodes w)])
    \<and> edge_map w = map_of (graph_edges (out_lists w))"

lemma node_map_nth:
  assumes "maps_ok w" "u < length (vertex_nodes w)"
  shows "node_map w (vertex_nodes w ! u) = Some u"
  using assms map_of_zip_nth[of "vertex_nodes w" "[0..<length (vertex_nodes w)]" u] by (simp add: maps_ok_def)

lemma node_map_Some:
  assumes "maps_ok w"
  shows "node_map w n = Some u \<longleftrightarrow> u < length (vertex_nodes w) \<and> vertex_nodes w ! u = n"
  using assms by (auto simp: maps_ok_def map_of_eq_Some_iff in_set_zip)

lemma node_map_None: "maps_ok w \<Longrightarrow> node_map w n = None \<longleftrightarrow> n \<notin> set (vertex_nodes w)"
  by (simp add: maps_ok_def map_of_zip_is_None)

end
