(* ===== verification/Timings.thy ===== *)
theory Timings
  imports MusicalTime
begin

text \<open>
  The samples of the buffer a token stands for (\<open>exec_state_facade::timings\<close> of dataflow/execution_state.cpp): the span
  the token carries, or one that is computed from its dates.
\<close>

record sample_timings =
  st_start_sample :: int
  st_length :: int

definition no_samples :: sample_timings where
  "no_samples = \<lparr>st_start_sample = 0, st_length = 0\<rparr>"

definition carried_timings :: "int \<Rightarrow> 'd token_request \<Rightarrow> sample_timings" where
  "carried_timings buffer_size t =
    (if start_sample t > buffer_size then no_samples
     else if s64 (start_sample t + length_sample t) > buffer_size
       then \<lparr>st_start_sample = start_sample t, st_length = s64 (buffer_size - start_sample t)\<rparr>
     else \<lparr>st_start_sample = start_sample t, st_length = length_sample t\<rparr>)"

definition speed_moves :: "'d fpu \<Rightarrow> 'd token_request \<Rightarrow> bool" where
  "speed_moves fl t \<longleftrightarrow> f_lt fl (f_lit fl (1 / 100)) (speed t) \<or> f_lt fl (speed t) (f_neg fl (f_lit fl (1 / 100)))"

definition checked_timings :: "int \<Rightarrow> int \<Rightarrow> int \<Rightarrow> sample_timings" where
  "checked_timings buffer_size start len =
    (if start < 0 then no_samples
     else if start \<ge> buffer_size then no_samples
     else if len < 0 then no_samples
     else if s64 (start + len) > buffer_size then no_samples
     else \<lparr>st_start_sample = start, st_length = len\<rparr>)"

definition timings :: "'d fpu \<Rightarrow> int \<Rightarrow> 'd \<Rightarrow> 'd token_request \<Rightarrow> sample_timings" where
  "timings fl buffer_size ratio t =
    (if start_sample t \<ge> 0 \<and> length_sample t \<ge> 0 then carried_timings buffer_size t
     else if speed_moves fl t then
       (let start = physical_start fl t ratio;
            tick_dur = physical_write_duration fl t ratio;
            max_dur = s64 (buffer_size - start);
            max_dur = (if max_dur < 0 then 0 else max_dur)
        in checked_timings buffer_size start (min tick_dur max_dur))
     else no_samples)"

text \<open>The samples a node is asked for never reach outside of the buffer, whatever the token says.\<close>

theorem timings_in_buffer:
  assumes "0 \<le> buffer_size" "in32 buffer_size" "in32 (start_sample t)" "in32 (length_sample t)"
  shows "0 \<le> st_start_sample (timings fl buffer_size ratio t) \<and> 0 \<le> st_length (timings fl buffer_size ratio t)
    \<and> st_start_sample (timings fl buffer_size ratio t) + st_length (timings fl buffer_size ratio t) \<le> buffer_size"
proof (cases "start_sample t \<ge> 0 \<and> length_sample t \<ge> 0")
  case True
  then have "s64 (start_sample t + length_sample t) = start_sample t + length_sample t"
      "start_sample t \<le> buffer_size \<Longrightarrow> s64 (buffer_size - start_sample t) = buffer_size - start_sample t"
    using assms by (simp_all add: s64_id)
  then show ?thesis using True assms(1) by (auto simp: timings_def carried_timings_def no_samples_def)
next
  case False
  define start where "start = physical_start fl t ratio"
  define len where "len = min (physical_write_duration fl t ratio) (if s64 (buffer_size - start) < 0 then 0 else s64 (buffer_size - start))"
  have eq: "timings fl buffer_size ratio t = (if speed_moves fl t then checked_timings buffer_size start len else no_samples)"
    using False by (auto simp: timings_def start_def len_def Let_def)
  have "0 \<le> st_start_sample (checked_timings buffer_size start len) \<and> 0 \<le> st_length (checked_timings buffer_size start len)
      \<and> st_start_sample (checked_timings buffer_size start len) + st_length (checked_timings buffer_size start len) \<le> buffer_size"
  proof (cases "0 \<le> start \<and> start < buffer_size")
    case True
    then have "s64 (buffer_size - start) = buffer_size - start" using assms by (simp add: s64_id)
    then have "len \<le> buffer_size - start" using True by (simp add: len_def)
    then show ?thesis using True assms(1) by (auto simp: checked_timings_def no_samples_def)
  qed (use assms(1) in \<open>auto simp: checked_timings_def no_samples_def\<close>)
  then show ?thesis using eq assms(1) by (simp add: no_samples_def)
qed

text \<open>A span that is too long is cut at the end of the buffer.\<close>

lemma timings_in_buffer_witness:
  "timings rat_fpu 64 1 (demo_musical_tick\<lparr>start_sample := 60, length_sample := 30\<rparr>) = \<lparr>st_start_sample = 60, st_length = 4\<rparr>
    \<and> 60 + st_length (timings rat_fpu 64 1 (demo_musical_tick\<lparr>start_sample := 60, length_sample := 30\<rparr>)) \<le> 64"
proof -
  let ?t = "demo_musical_tick\<lparr>start_sample := 60, length_sample := 30\<rparr>"
  have eq: "timings rat_fpu 64 1 ?t = \<lparr>st_start_sample = 60, st_length = 4\<rparr>"
    by (simp add: timings_def carried_timings_def s64_def)
  have "in32 (start_sample ?t)" "in32 (length_sample ?t)" by simp_all
  from timings_in_buffer[OF _ _ this, of 64 rat_fpu 1] show ?thesis using eq by simp
qed

end
