(* ===== verification/ValuePorts.thy ===== *)
theory ValuePorts
  imports GraphBase States Timings "HOL-Library.AList"
begin

text \<open>
  The values in the ports of a node (dataflow/data.cpp, data_copy.hpp, graph/graph_ordering.hpp, graph/graph_utils.hpp,
  port.cpp, execution_state.cpp and the policies under dataflow/execution): how they come into an inlet from cables, delay
  lines, the values other nodes wrote to the same address in this tick and the parameters, and how they leave an outlet.
  Ports of another kind keep no data here; what concerns them is left out.
\<close>

section \<open>The state of the execution\<close>

text \<open>
  The environment has the conversions, what the parameters are, and what the tree of nodes holds. The state has the
  parameters with what was pushed to them, the values received since the last tick, and for each parameter the values
  written to it in this tick with the number of the message.
\<close>

record exec_env =
  ee_num :: num_env
  ee_unit :: unit_env
  ee_push :: push_env
  ee_domain :: "nat \<Rightarrow> domain"
  ee_type :: "nat \<Rightarrow> val_type"
  ee_to_map :: "nat \<Rightarrow> value_t"
  ee_children :: "nat \<Rightarrow> (string \<times> nat) list"
  ee_parameter :: "nat \<Rightarrow> nat option"

record 'd exec_state = "'d graph_base" +
  x_devices :: devices
  x_params :: pushed
  x_received :: "nat \<Rightarrow> value_t list option"
  x_value_state :: "(nat \<times> (typed_value \<times> int) list) list"
  x_msg_index :: int
  x_buffer_size :: int
  x_ratio :: 'd
  x_frames :: "nat \<Rightarrow> int"
  x_transport :: "nat \<Rightarrow> int"

text \<open>
  The loops over the ports of a node are \<open>noexcept\<close>: an exception while ports are filled or emptied ends the program,
  which is the result \<open>None\<close>.
\<close>

type_synonym 'd exec_result = "'d exec_state option"

definition unless_thrown :: "'e + 'a \<Rightarrow> 'a option" where
  "unless_thrown r = (case r of Inl e \<Rightarrow> None | Inr v \<Rightarrow> Some v)"

fun fold_opt :: "('b \<Rightarrow> 'a \<Rightarrow> 'a option) \<Rightarrow> 'b list \<Rightarrow> 'a \<Rightarrow> 'a option" where
  "fold_opt f [] s = Some s"
| "fold_opt f (x # xs) s = Option.bind (f x s) (fold_opt f xs)"

section \<open>Writing values to a port\<close>

definition effective_type :: "value_port \<Rightarrow> complex_type" where
  "effective_type vp =
    (if vp_type vp \<noteq> No_complex_type then vp_type vp
     else if vp_address_unit vp \<noteq> None then Unit_type (vp_address_unit vp)
     else No_complex_type)"

definition has_effective_type :: "value_port \<Rightarrow> bool" where
  "has_effective_type vp \<longleftrightarrow> vp_address_unit vp \<noteq> None \<or> vp_type vp \<noteq> No_complex_type"

definition effective_unit :: "value_port \<Rightarrow> nat option option" where
  "effective_unit vp = (case target_unit (vp_type vp) of
      Some (Some u) \<Rightarrow> Some (Some u)
    | t \<Rightarrow> if vp_address_unit vp \<noteq> None then Some (vp_address_unit vp) else t)"

fun replace_or_append :: "value_t \<Rightarrow> int \<Rightarrow> timed_value list \<Rightarrow> timed_value list" where
  "replace_or_append v ts [] = [\<lparr>t_value = v, t_timestamp = ts\<rparr>]"
| "replace_or_append v ts (x # xs) = (if t_timestamp x = ts then x\<lparr>t_value := v\<rparr> # xs else x # replace_or_append v ts xs)"

definition write_value :: "value_t \<Rightarrow> int \<Rightarrow> value_port \<Rightarrow> value_port" where
  "write_value v ts vp = (case vp_mix_method vp of
      Mix_replace \<Rightarrow> vp\<lparr>vp_data := replace_or_append v ts (vp_data vp)\<rparr>
    | Mix_append \<Rightarrow> vp\<lparr>vp_data := vp_data vp @ [\<lparr>t_value = v, t_timestamp = ts\<rparr>]\<rparr>
    | Mix_merge \<Rightarrow> vp)"

definition add_local_value :: "exec_env \<Rightarrow> typed_value \<Rightarrow> value_port \<Rightarrow> value_port" where
  "add_local_value env other vp =
    (let sink_type = effective_type vp
     in if t_index other = vp_index vp \<and> t_type other = sink_type then write_value (t_value other) (t_timestamp other) vp
        else write_value (fst (filter_value (ee_num env) (ee_unit env) (t_value other)
               (if t_index other = vp_index vp then [] else vp_index vp) (t_type other) sink_type)) (t_timestamp other) vp)"

definition get_complex_type :: "exec_env \<Rightarrow> pushed \<Rightarrow> nat \<Rightarrow> complex_type" where
  "get_complex_type env ps p = (if p_unit (fst ps p) \<noteq> None then Unit_type (p_unit (fst ps p)) else Plain_type (ee_type env p))"

definition add_global_value :: "exec_env \<Rightarrow> pushed \<Rightarrow> nat \<Rightarrow> value_t \<Rightarrow> value_port \<Rightarrow> value_port option" where
  "add_global_value env ps p v vp =
    Option.bind (unless_thrown (adapt_value (ee_num env) (ee_unit env) v (vp_index vp) (get_complex_type env ps p) (effective_type vp)
        (ee_domain env p) (vp_domain vp)))
      (\<lambda>v. Some (write_value v 0 vp))"

definition nothing_to_adapt :: "exec_env \<Rightarrow> pushed \<Rightarrow> nat \<Rightarrow> value_port \<Rightarrow> bool" where
  "nothing_to_adapt env ps p vp \<longleftrightarrow> vp_index vp = [] \<and> vp_domain vp = No_domain
    \<and> (get_complex_type env ps p = effective_type vp \<or> get_complex_type env ps p = No_complex_type)"

definition should_process_control :: "value_port \<Rightarrow> value_port \<Rightarrow> bool" where
  "should_process_control source_port sink_port \<longleftrightarrow>
    vp_domain source_port \<noteq> No_domain \<and> vp_domain sink_port \<noteq> No_domain
    \<or> has_effective_type source_port \<and> has_effective_type sink_port"

definition process_for :: "exec_env \<Rightarrow> value_port \<Rightarrow> value_port \<Rightarrow> value_t \<Rightarrow> value_t option" where
  "process_for env source sink v =
    (if should_process_control source sink
     then unless_thrown (process_control_value (ee_num env) (ee_unit env) v (vp_domain source) (vp_domain sink)
            (effective_type source) (effective_type sink))
     else Some v)"

text \<open>The method of the sink decides how the values are added; the method that merges is not implemented.\<close>

definition add_port_values :: "exec_env \<Rightarrow> value_port \<Rightarrow> value_port \<Rightarrow> value_port option" where
  "add_port_values env other vp =
    (if vp_mix_method vp = Mix_merge then Some vp
     else fold_opt (\<lambda>x vp. Option.bind (process_for env other vp (t_value x)) (\<lambda>v. Some (write_value v (t_timestamp x) vp)))
            (vp_data other) vp)"

section \<open>Inlets\<close>

definition set_values :: "value_port \<Rightarrow> port \<Rightarrow> port" where
  "set_values vp p = p\<lparr>values_of := vp\<rparr>"

text \<open>What happens to the data of an inlet that holds values, as an action on the state.\<close>

definition on_inlet :: "nat \<Rightarrow> (value_port \<Rightarrow> value_port option) \<Rightarrow> 'd exec_state \<Rightarrow> 'd exec_result" where
  "on_inlet i f w =
    (if which (inlet_at w i) = Value_port
     then map_option (\<lambda>vp. upd_inlet i (set_values vp) w) (f (values_of (inlet_at w i)))
     else Some w)"

definition add_global_values :: "exec_env \<Rightarrow> nat \<Rightarrow> value_t list \<Rightarrow> nat \<Rightarrow> 'd exec_state \<Rightarrow> 'd exec_result" where
  "add_global_values env p vs i w =
    (if nothing_to_adapt env (x_params w) p (values_of (inlet_at w i))
     then on_inlet i (\<lambda>vp. Some (fold (\<lambda>v. write_value v 0) vs vp)) w
     else fold_opt (\<lambda>v. on_inlet i (add_global_value env (x_params w) p v)) vs w)"

definition values_written :: "'d exec_state \<Rightarrow> nat \<Rightarrow> (typed_value \<times> int) list" where
  "values_written w p = (case map_of (x_value_state w) p of Some xs \<Rightarrow> xs | None \<Rightarrow> [])"

definition copy_from_global :: "exec_env \<Rightarrow> nat \<Rightarrow> nat \<Rightarrow> 'd exec_state \<Rightarrow> 'd exec_result" where
  "copy_from_global env p i w =
    (if global_scope (inlet_at w i) then
       if \<not> vp_is_event (values_of (inlet_at w i))
       then on_inlet i (add_global_value env (x_params w) p (p_value (fst (x_params w) p))) w
       else (case x_received w p of Some vs \<Rightarrow> add_global_values env p vs i w | None \<Rightarrow> Some w)
     else Some w)"

definition find_and_copy :: "exec_env \<Rightarrow> nat \<Rightarrow> nat \<Rightarrow> 'd exec_state \<Rightarrow> 'd exec_result" where
  "find_and_copy env p i w =
    (if values_written w p \<noteq> [] \<and> which (inlet_at w i) = Value_port
     then on_inlet i (\<lambda>vp. Some (fold (\<lambda>(v, k). add_local_value env v) (values_written w p) vp)) w
     else copy_from_global env p i w)"

definition copy_from_global_node :: "exec_env \<Rightarrow> nat \<Rightarrow> nat \<Rightarrow> 'd exec_state \<Rightarrow> 'd exec_result" where
  "copy_from_global_node env n i w =
    (if global_scope (inlet_at w i) then on_inlet i (\<lambda>vp. Some (write_value (ee_to_map env n) 0 vp)) w else Some w)"

definition pull_from_parameter :: "exec_env \<Rightarrow> nat \<Rightarrow> 'd exec_state \<Rightarrow> 'd exec_result" where
  "pull_from_parameter env i w =
    fold_opt (\<lambda>(r, unique) w. case r of
        Parameter_at p \<Rightarrow>
          if local_scope (inlet_at w i) then find_and_copy env p i w
          else if global_scope (inlet_at w i) then copy_from_global env p i w
          else Some w
      | Node_at n \<Rightarrow> copy_from_global_node env n i w)
      (apply_to_destination (address (inlet_at w i)) (x_devices w)) w"

text \<open>The sources of an inlet: which of them leave the parameter to be read, and what they bring.\<close>

definition source_enabled :: "'d exec_state \<Rightarrow> nat \<Rightarrow> bool" where
  "source_enabled w e = enabled (node_at w (the (out_node (edge_at w e))))"

definition sink_enabled :: "'d exec_state \<Rightarrow> nat \<Rightarrow> bool" where
  "sink_enabled w e = enabled (node_at w (the (in_node (edge_at w e))))"

definition init_must_copy :: "'d exec_state \<Rightarrow> nat \<Rightarrow> bool" where
  "init_must_copy w e = (case con (edge_at w e) of
      Immediate_glutton \<Rightarrow> \<not> source_enabled w e
    | Immediate_strict s \<Rightarrow> False
    | Delayed_glutton buffer pos \<Rightarrow> False
    | Delayed_strict buffer pos \<Rightarrow> False
    | _ \<Rightarrow> True)"

definition copy_outlet :: "exec_env \<Rightarrow> nat \<Rightarrow> nat \<Rightarrow> 'd exec_state \<Rightarrow> 'd exec_result" where
  "copy_outlet env j i w =
    (if which (outlet_at w j) = which (inlet_at w i) then on_inlet i (add_port_values env (values_of (outlet_at w j))) w else Some w)"

text \<open>A delay line is read at its position, which advances when there was something to read.\<close>

fun line_kind :: "delay_line \<Rightarrow> port_kind option" where
  "line_kind No_delay_line = None"
| "line_kind (Audio_delay_line n) = Some Audio_port"
| "line_kind (Midi_delay_line n) = Some Midi_port"
| "line_kind (Value_delay_line vs) = Some Value_port"
| "line_kind (Geometry_delay_line n) = Some Geometry_port"

fun line_values :: "delay_line \<Rightarrow> nat \<Rightarrow> typed_value list" where
  "line_values (Value_delay_line vs) pos = vs ! pos"
| "line_values _ pos = []"

definition copy_line :: "exec_env \<Rightarrow> (nat \<Rightarrow> connection) \<Rightarrow> delay_line \<Rightarrow> nat \<Rightarrow> nat \<Rightarrow> nat \<Rightarrow> 'd exec_state \<Rightarrow> 'd exec_result" where
  "copy_line env moved buffer pos e i w =
    (if line_kind buffer = Some (which (inlet_at w i)) \<and> pos < data_size buffer
     then Option.bind (on_inlet i (\<lambda>vp. Some (fold (add_local_value env) (line_values buffer pos) vp)) w)
            (\<lambda>w. Some (upd_edge e (\<lambda>x. x\<lparr>con := moved (Suc pos)\<rparr>) w))
     else Some w)"

definition init_source :: "exec_env \<Rightarrow> nat \<Rightarrow> nat \<Rightarrow> 'd exec_state \<Rightarrow> 'd exec_result" where
  "init_source env i e w = (case con (edge_at w e) of
      Immediate_glutton \<Rightarrow> if source_enabled w e then copy_outlet env (the (e_out (edge_at w e))) i w else Some w
    | Immediate_strict s \<Rightarrow> copy_outlet env (the (e_out (edge_at w e))) i w
    | Delayed_glutton buffer pos \<Rightarrow> copy_line env (Delayed_glutton buffer) buffer pos e i w
    | Delayed_strict buffer pos \<Rightarrow> copy_line env (Delayed_strict buffer) buffer pos e i w
    | _ \<Rightarrow> Some w)"

definition init_inlet :: "exec_env \<Rightarrow> nat \<Rightarrow> 'd exec_state \<Rightarrow> 'd exec_result" where
  "init_inlet env i w =
    (let sources = cables (inlet_at w i);
         must_copy = (sources = [] \<or> list_ex (init_must_copy w) sources)
     in Option.bind (if must_copy then pull_from_parameter env i w else Some w) (fold_opt (init_source env i) sources))"

section \<open>Outlets\<close>

definition clear_data :: "port \<Rightarrow> port" where
  "clear_data p = set_values ((values_of p)\<lparr>vp_data := []\<rparr>) p"

definition resolve_type :: "exec_env \<Rightarrow> pushed \<Rightarrow> nat \<Rightarrow> value_port \<Rightarrow> complex_type \<times> bool" where
  "resolve_type env ps p vp = (case (effective_unit vp, p_unit (fst ps p)) of
      (Some (Some u), Some pu) \<Rightarrow>
        if check_units_convertible (ee_unit env) (Some u) (Some pu) then (effective_type vp, True) else (No_complex_type, False)
    | _ \<Rightarrow> (effective_type vp, False))"

definition map_value_to_param :: "exec_env \<Rightarrow> pushed \<Rightarrow> nat \<Rightarrow> timed_value \<Rightarrow> value_port \<Rightarrow> typed_value option" where
  "map_value_to_param env ps p v vp =
    (let (type, governed) = resolve_type env ps p vp;
         ret = \<lparr>t_value = t_value v, t_timestamp = t_timestamp v, t_index = vp_index vp, t_type = type\<rparr>
     in if vp_index vp = [] \<and> \<not> governed \<and> ee_domain env p \<noteq> No_domain \<and> vp_domain vp \<noteq> No_domain
        then Option.bind (unless_thrown (map_value (ee_num env) (ee_unit env) (t_value v) [] (vp_domain vp) (ee_domain env p)))
               (\<lambda>x. Some (ret\<lparr>t_value := convert_inplace (ee_num env) x (ee_type env p)\<rparr>))
        else Some ret)"

fun replace_message :: "int \<Rightarrow> typed_value \<Rightarrow> (typed_value \<times> int) list \<Rightarrow> (typed_value \<times> int) list option" where
  "replace_message ts v [] = None"
| "replace_message ts v ((x, k) # xs) =
    (if t_timestamp x = ts then Some ((v, k) # xs) else map_option (Cons (x, k)) (replace_message ts v xs))"

text \<open>The messages with their numbers, and the next number.\<close>

definition insert_value ::
  "exec_env \<Rightarrow> pushed \<Rightarrow> nat \<Rightarrow> value_port \<Rightarrow> timed_value \<Rightarrow> (typed_value \<times> int) list \<times> int \<Rightarrow> ((typed_value \<times> int) list \<times> int) option" where
  "insert_value env ps p vp v = (\<lambda>(st, idx).
    Option.bind (map_value_to_param env ps p v vp) (\<lambda>m.
      case vp_mix_method vp of
        Mix_append \<Rightarrow> Some (st @ [(m, idx)], s32 (idx + 1))
      | Mix_replace \<Rightarrow> (case replace_message (t_timestamp v) m st of
            Some st' \<Rightarrow> Some (st', idx)
          | None \<Rightarrow> Some (st @ [(m, idx)], s32 (idx + 1)))
      | Mix_merge \<Rightarrow> Some (st, idx)))"

definition insert_values :: "exec_env \<Rightarrow> nat \<Rightarrow> value_port \<Rightarrow> 'd exec_state \<Rightarrow> 'd exec_result" where
  "insert_values env p vp w =
    map_option (\<lambda>(st, idx). w\<lparr>x_value_state := AList.update p st (x_value_state w),
        x_msg_index := s32 (x_msg_index w + int (length (vp_data vp)))\<rparr>)
      (if vp_mix_method vp = Mix_merge then Some (values_written w p, x_msg_index w)
       else fold_opt (insert_value env (x_params w) p vp) (vp_data vp) (values_written w p, x_msg_index w))"

definition push_to :: "exec_env \<Rightarrow> nat \<Rightarrow> value_t \<Rightarrow> 'd exec_state \<Rightarrow> 'd exec_state" where
  "push_to env p v w = (case push_value (ee_push env) p v (x_params w) of Inr ps \<Rightarrow> w\<lparr>x_params := ps\<rparr> | Inl e \<Rightarrow> w)"

text \<open>A map that is written to a node goes to the parameters of its children.\<close>

fun apply_map :: "exec_env \<Rightarrow> nat \<Rightarrow> value_t \<Rightarrow> 'd exec_state \<Rightarrow> 'd exec_state"
  and apply_entries :: "exec_env \<Rightarrow> nat \<Rightarrow> (string \<times> value_t) list \<Rightarrow> 'd exec_state \<Rightarrow> 'd exec_state" where
  "apply_map env dest (VMap m) w = (if ee_children env dest = [] then w else apply_entries env dest m w)"
| "apply_map env dest v w = w"
| "apply_entries env dest [] w = w"
| "apply_entries env dest ((k, v) # m) w = apply_entries env dest m
    (case map_of (ee_children env dest) k of
       None \<Rightarrow> w
     | Some cld \<Rightarrow>
         if ee_children env cld \<noteq> [] then apply_map env cld v w
         else (case (ee_parameter env cld, v) of
                 (None, _) \<Rightarrow> w
               | (Some p, VMap m') \<Rightarrow> w
               | (Some p, _) \<Rightarrow> push_to env p v w))"

definition outlet_write :: "exec_env \<Rightarrow> nat \<Rightarrow> 'd exec_state \<Rightarrow> 'd exec_result" where
  "outlet_write env j w =
    (if which (outlet_at w j) \<noteq> Value_port then Some w
     else fold_opt (\<lambda>(r, unique) w. let out = outlet_at w j; vp = values_of out in case r of
         Parameter_at p \<Rightarrow>
           if local_scope out then if vp_data vp = [] then Some w else insert_values env p vp w
           else if global_scope out then Some (fold (\<lambda>x. push_to env p (t_value x)) (vp_data vp) w)
           else Some w
       | Node_at n \<Rightarrow>
           if local_scope out \<or> global_scope out then Some (fold (\<lambda>x. apply_map env n (t_value x)) (vp_data vp) w) else Some w)
       (apply_to_destination (address (outlet_at w j)) (x_devices w)) w)"

text \<open>The values of an outlet as they are put into a delay line. A line of geometries gets nothing.\<close>

fun append_line :: "value_port \<Rightarrow> delay_line \<Rightarrow> delay_line" where
  "append_line vp (Value_delay_line vs) =
    Value_delay_line (vs @ [List.map (\<lambda>x. \<lparr>t_value = t_value x, t_timestamp = t_timestamp x,
      t_index = vp_index vp, t_type = effective_type vp\<rparr>) (vp_data vp)])"
| "append_line vp (Audio_delay_line n) = Audio_delay_line (Suc n)"
| "append_line vp (Midi_delay_line n) = Midi_delay_line (Suc n)"
| "append_line vp buffer = buffer"

definition write_line :: "nat \<Rightarrow> delay_line \<Rightarrow> 'd exec_state \<Rightarrow> delay_line" where
  "write_line j buffer w =
    (if line_kind buffer = Some (which (outlet_at w j)) then append_line (values_of (outlet_at w j)) buffer else buffer)"

definition env_writer :: "nat \<Rightarrow> nat \<Rightarrow> 'd exec_state \<times> bool \<Rightarrow> 'd exec_state \<times> bool" where
  "env_writer j e = (\<lambda>(w, must_copy). case con (edge_at w e) of
      Immediate_glutton \<Rightarrow> (w, must_copy \<or> \<not> sink_enabled w e)
    | Delayed_glutton buffer pos \<Rightarrow> (upd_edge e (\<lambda>x. x\<lparr>con := Delayed_glutton (write_line j buffer w) pos\<rparr>) w, must_copy)
    | Delayed_strict buffer pos \<Rightarrow> (upd_edge e (\<lambda>x. x\<lparr>con := Delayed_strict (write_line j buffer w) pos\<rparr>) w, must_copy)
    | _ \<Rightarrow> (w, must_copy))"

definition teardown_outlet :: "exec_env \<Rightarrow> nat \<Rightarrow> 'd exec_state \<Rightarrow> 'd exec_result" where
  "teardown_outlet env j w =
    (let targets = cables (outlet_at w j);
         (w, must_copy) = fold (env_writer j) targets (w, targets = [])
     in if must_copy then outlet_write env j w else Some w)"

section \<open>A node\<close>

definition init_node :: "exec_env \<Rightarrow> nat \<Rightarrow> 'd exec_state \<Rightarrow> 'd exec_result" where
  "init_node env n w =
    fold_opt (init_inlet env) (all_inlets w n) (fold (\<lambda>j. upd_outlet j clear_data) (all_outlets w n) w)"

definition teardown_node :: "exec_env \<Rightarrow> nat \<Rightarrow> 'd exec_state \<Rightarrow> 'd exec_result" where
  "teardown_node env n w =
    Option.bind (fold_opt (teardown_outlet env) (all_outlets w n) w)
      (\<lambda>w. Some (fold (\<lambda>i. upd_inlet i clear_data) (all_inlets w n) w))"

end
