(* ===== verification/GraphUpdate.thy ===== *)
theory GraphUpdate
  imports GraphBase ClosureProps
begin

text \<open>
  The order in which the nodes of a static graph run (dataflow/graph/graph_static.hpp): the topological sort of the
  graph without its delayed edges, and the edges that are added for nodes that share an address, with a search for a path
  (\<open>bfs_update\<close>) or with the transitive closure (\<open>tc_update\<close>). The two are shown to add the same edges.
\<close>

section \<open>Sorting\<close>

type_synonym graph_t = "connection out_edges"

definition no_delay_edges :: "graph_t \<Rightarrow> graph_t" where
  "no_delay_edges g u = filter (\<lambda>(v, c). \<not> delayed c) (g u)"

definition has_no_ports :: "('d, 'z) graph_base_scheme \<Rightarrow> nat \<Rightarrow> bool" where
  "has_no_ports w n \<longleftrightarrow> root_inputs (node_at w n) = [] \<and> root_outputs (node_at w n) = []"

abbreviation num_vertices :: "('d, 'z) graph_base_scheme \<Rightarrow> nat" where
  "num_vertices w \<equiv> length (vertex_nodes w)"

text \<open>Nodes without ports come first. When the sort throws there is no order, and nothing runs.\<close>

definition sort_all_nodes :: "(nat list, connection, 'x) visitor \<Rightarrow> ('d, 'z) graph_base_scheme \<Rightarrow> graph_t \<Rightarrow> nat list" where
  "sort_all_nodes vis w g =
    (case custom_topological_sort vis (num_vertices w) (no_delay_edges g) 0 of
       Inl x \<Rightarrow> []
     | Inr topo_order \<Rightarrow>
         (let ns = List.map (\<lambda>v. vertex_nodes w ! v) topo_order
          in filter (has_no_ports w) ns @ filter (\<lambda>n. \<not> has_no_ports w n) ns))"

section \<open>Edges for addresses\<close>

definition add_dependency :: "nat \<Rightarrow> nat \<Rightarrow> graph_t \<Rightarrow> graph_t" where
  "add_dependency u v g = g(u := g u @ [(v, Dependency)])"

text \<open>Of two nodes without a path between them the one that reads what the other writes comes second.\<close>

definition link_addresses :: "('d, 'z) graph_base_scheme \<Rightarrow> devices \<Rightarrow> nat \<times> nat \<Rightarrow> nat \<Rightarrow> nat \<Rightarrow> graph_t \<Rightarrow> graph_t option" where
  "link_addresses w devs = (\<lambda>(n1, n2) s t g.
    if find_address_connection w n1 n2 devs then Some (add_dependency t s g)
    else if find_address_connection w n2 n1 devs then Some (add_dependency s t g)
    else None)"

fun pairs_of :: "'a list \<Rightarrow> ('a \<times> 'a) list" where
  "pairs_of [] = []"
| "pairs_of (x # xs) = List.map (Pair x) xs @ pairs_of xs"

definition bfs_pair :: "nat \<Rightarrow> ('d, 'z) graph_base_scheme \<Rightarrow> devices \<Rightarrow> nat \<times> nat \<Rightarrow> graph_t \<Rightarrow> graph_t option" where
  "bfs_pair capacity w devs p g =
    Option.bind (node_map w (fst p)) (\<lambda>s. Option.bind (node_map w (snd p)) (\<lambda>t.
    Option.bind (find_path capacity s t (num_vertices w) g) (\<lambda>there. if there then Some g
      else Option.bind (find_path capacity t s (num_vertices w) g) (\<lambda>back_again. if back_again then Some g
        else Some (case link_addresses w devs p s t g of Some g' \<Rightarrow> g' | None \<Rightarrow> g)))))"

fun bfs_pairs :: "nat \<Rightarrow> ('d, 'z) graph_base_scheme \<Rightarrow> devices \<Rightarrow> (nat \<times> nat) list \<Rightarrow> graph_t \<Rightarrow> graph_t option" where
  "bfs_pairs capacity w devs [] g = Some g"
| "bfs_pairs capacity w devs (p # ps) g = Option.bind (bfs_pair capacity w devs p g) (bfs_pairs capacity w devs ps)"

text \<open>The loops run over as many nodes as the graph has: an order that is shorter is read past its end.\<close>

definition bfs_update ::
  "(nat list, connection, 'x) visitor \<Rightarrow> nat \<Rightarrow> ('d, 'z) graph_base_scheme \<Rightarrow> devices \<Rightarrow> (graph_t \<times> nat list) option" where
  "bfs_update vis capacity w devs =
    (let all_nodes = sort_all_nodes vis w (adjacency w)
     in if length all_nodes < num_vertices w then None
        else map_option (\<lambda>g. (g, sort_all_nodes vis w g))
          (bfs_pairs capacity w devs (pairs_of (take (num_vertices w) all_nodes)) (adjacency w)))"

type_synonym closure_graph = "(nat \<times> nat) list"

definition tc_pair ::
  "connection graph_lib \<Rightarrow> ('d, 'z) graph_base_scheme \<Rightarrow> devices \<Rightarrow> nat \<times> nat \<Rightarrow> graph_t \<times> closure_graph \<Rightarrow> (graph_t \<times> closure_graph) option" where
  "tc_pair lib w devs p = (\<lambda>(g, tc).
    Option.bind (node_map w (fst p)) (\<lambda>s. Option.bind (node_map w (snd p)) (\<lambda>t.
    Some (if has_edge tc s t then (g, tc)
          else if has_edge tc t s then (g, tc)
          else case link_addresses w devs p s t g of
              Some g' \<Rightarrow> (g', transitive_closure lib (num_vertices w) g')
            | None \<Rightarrow> (g, tc)))))"

fun tc_add_addresses ::
  "connection graph_lib \<Rightarrow> ('d, 'z) graph_base_scheme \<Rightarrow> devices \<Rightarrow> (nat \<times> nat) list \<Rightarrow> graph_t \<times> closure_graph \<Rightarrow> (graph_t \<times> closure_graph) option" where
  "tc_add_addresses lib w devs [] gt = Some gt"
| "tc_add_addresses lib w devs (p # ps) gt = Option.bind (tc_pair lib w devs p gt) (tc_add_addresses lib w devs ps)"

definition tc_update ::
  "(nat list, connection, 'x) visitor \<Rightarrow> connection graph_lib \<Rightarrow> ('d, 'z) graph_base_scheme \<Rightarrow> devices \<Rightarrow> (graph_t \<times> nat list) option" where
  "tc_update vis lib w devs =
    (let all_nodes = sort_all_nodes vis w (adjacency w);
         tc = transitive_closure lib (num_vertices w) (adjacency w)
     in map_option (\<lambda>(g, tc). (g, sort_all_nodes vis w g))
          (tc_add_addresses lib w devs (pairs_of all_nodes) (adjacency w, tc)))"

definition simple_update :: "(nat list, connection, 'x) visitor \<Rightarrow> ('d, 'z) graph_base_scheme \<Rightarrow> graph_t \<times> nat list" where
  "simple_update vis w = (adjacency w, sort_all_nodes vis w (adjacency w))"

section \<open>The graphs of an update\<close>

lemma targets_add_dependency: "targets (add_dependency u v g) a = (if a = u then insert v (targets g a) else targets g a)"
  by (simp add: targets_def add_dependency_def)

lemma no_delay_add_dependency: "no_delay_edges (add_dependency u v g) = add_dependency u v (no_delay_edges g)"
  by (simp add: fun_eq_iff no_delay_edges_def add_dependency_def)

lemma arcs_add_dependency: "u < n \<Longrightarrow> arcs n (add_dependency u v g) = insert (u, v) (arcs n g)"
  by (auto simp: arcs_def targets_add_dependency split: if_splits)

lemma arcs_add_immediate:
  "u < n \<Longrightarrow> arcs n (no_delay_edges (add_dependency u v g)) = insert (u, v) (arcs n (no_delay_edges g))"
  by (simp add: no_delay_add_dependency arcs_add_dependency)

lemma arcs_no_delay: "arcs n (no_delay_edges g) \<subseteq> arcs n g"
  by (auto simp: arcs_def targets_def no_delay_edges_def)

lemma closed_add_dependency: "closed_graph n g \<Longrightarrow> v < n \<Longrightarrow> closed_graph n (add_dependency u v g)"
  by (auto simp: closed_graph_def targets_def add_dependency_def)

lemma closed_no_delay: "closed_graph n g \<Longrightarrow> closed_graph n (no_delay_edges g)"
  by (auto simp: closed_graph_def targets_def no_delay_edges_def)

lemma closed_adjacency: "maps_ok w \<Longrightarrow> closed_graph (num_vertices w) (adjacency w)"
  by (fastforce simp: maps_ok_def closed_graph_def targets_def adjacency_def)

text \<open>What both updates do with a pair of vertices.\<close>

definition linked :: "nat \<Rightarrow> graph_t \<Rightarrow> nat \<Rightarrow> nat \<Rightarrow> bool" where
  "linked n g s t \<longleftrightarrow> (s, t) \<in> (arcs n g)\<^sup>* \<or> (t, s) \<in> (arcs n g)\<^sup>*"

definition link_pair :: "('d, 'z) graph_base_scheme \<Rightarrow> devices \<Rightarrow> nat \<times> nat \<Rightarrow> graph_t \<Rightarrow> graph_t" where
  "link_pair w devs p g =
    (let s = the (node_map w (fst p)); t = the (node_map w (snd p))
     in if linked (num_vertices w) g s t then g
        else case link_addresses w devs p s t g of Some g' \<Rightarrow> g' | None \<Rightarrow> g)"

definition good_pair :: "('d, 'z) graph_base_scheme \<Rightarrow> nat \<times> nat \<Rightarrow> bool" where
  "good_pair w p \<longleftrightarrow> fst p \<in> set (vertex_nodes w) \<and> snd p \<in> set (vertex_nodes w) \<and> fst p \<noteq> snd p"

lemma good_pair_vertices:
  assumes "maps_ok w" "good_pair w p"
  obtains s t where "node_map w (fst p) = Some s" "node_map w (snd p) = Some t" "s < num_vertices w" "t < num_vertices w" "s \<noteq> t"
proof -
  have "node_map w (fst p) \<noteq> None" "node_map w (snd p) \<noteq> None" using assms by (simp_all add: node_map_None good_pair_def)
  then obtain s t where st: "node_map w (fst p) = Some s" "node_map w (snd p) = Some t" by blast
  moreover have "s < num_vertices w" "t < num_vertices w" "s \<noteq> t"
    using st assms by (auto simp: node_map_Some good_pair_def)
  ultimately show thesis using that by blast
qed

lemma bfs_pair_links:
  assumes "maps_ok w" "good_pair w p" "closed_graph (num_vertices w) g"
  shows "bfs_pair capacity w devs p g = Some (link_pair w devs p g)"
proof -
  obtain s t where st: "node_map w (fst p) = Some s" "node_map w (snd p) = Some t" "s < num_vertices w" "t < num_vertices w" "s \<noteq> t"
    by (rule good_pair_vertices[OF assms(1,2)])
  then show ?thesis
    by (simp add: bfs_pair_def link_pair_def linked_def find_path_result[OF assms(3)] Let_def)
qed

lemma linked_has_edge:
  assumes "graph_library lib" "closed_graph n g" "n \<le> inf_vertex" "s \<noteq> t"
  shows "has_edge (transitive_closure lib n g) s t \<or> has_edge (transitive_closure lib n g) t s \<longleftrightarrow> linked n g s t"
  using assms(4) by (simp add: transitive_closure_result[OF assms(1-3)] linked_def rtrancl_eq_or_trancl)

lemma tc_pair_links:
  assumes "graph_library lib" "maps_ok w" "num_vertices w \<le> inf_vertex" "good_pair w p" "closed_graph (num_vertices w) g"
  shows "tc_pair lib w devs p (g, transitive_closure lib (num_vertices w) g)
    = Some (link_pair w devs p g, transitive_closure lib (num_vertices w) (link_pair w devs p g))"
proof -
  obtain s t where st: "node_map w (fst p) = Some s" "node_map w (snd p) = Some t" "s < num_vertices w" "t < num_vertices w" "s \<noteq> t"
    by (rule good_pair_vertices[OF assms(2,4)])
  note edge = linked_has_edge[OF assms(1,5,3) st(5)]
  show ?thesis using st edge by (auto simp: tc_pair_def link_pair_def Let_def split: option.splits)
qed

lemma link_pair_cases:
  assumes "maps_ok w" "good_pair w p"
  obtains "link_pair w devs p g = g"
  | u v where "link_pair w devs p g = add_dependency u v g" "u < num_vertices w" "v < num_vertices w" "u \<noteq> v"
      "\<not> linked (num_vertices w) g u v"
      "\<exists>a b. node_map w a = Some u \<and> node_map w b = Some v \<and> find_address_connection w b a devs"
proof -
  obtain s t where st: "node_map w (fst p) = Some s" "node_map w (snd p) = Some t" "s < num_vertices w" "t < num_vertices w" "s \<noteq> t"
    by (rule good_pair_vertices[OF assms])
  consider "linked (num_vertices w) g s t
      \<or> \<not> find_address_connection w (fst p) (snd p) devs \<and> \<not> find_address_connection w (snd p) (fst p) devs"
    | "\<not> linked (num_vertices w) g s t" "find_address_connection w (fst p) (snd p) devs"
    | "\<not> linked (num_vertices w) g s t" "\<not> find_address_connection w (fst p) (snd p) devs" "find_address_connection w (snd p) (fst p) devs"
    by blast
  then show thesis
  proof cases
    case 1
    then show ?thesis using st that(1) by (auto simp: link_pair_def link_addresses_def case_prod_beta)
  next
    case 2
    then have "link_pair w devs p g = add_dependency t s g" using st by (simp add: link_pair_def link_addresses_def case_prod_beta)
    then show ?thesis using 2 st that(2)[of t s] by (auto simp: linked_def)
  next
    case 3
    then have "link_pair w devs p g = add_dependency s t g" using st by (simp add: link_pair_def link_addresses_def case_prod_beta)
    then show ?thesis using 3 st that(2)[of s t] by auto
  qed
qed

lemma link_pair_closed: "maps_ok w \<Longrightarrow> good_pair w p \<Longrightarrow> closed_graph (num_vertices w) g \<Longrightarrow> closed_graph (num_vertices w) (link_pair w devs p g)"
  by (rule link_pair_cases[where devs = devs and g = g and w = w and p = p]) (auto intro: closed_add_dependency)

lemma link_pair_grows:
  assumes "maps_ok w" "good_pair w p"
  shows "arcs (num_vertices w) g \<subseteq> arcs (num_vertices w) (link_pair w devs p g)"
  using assms by (rule link_pair_cases[where devs = devs and g = g]) (auto simp: arcs_add_dependency)

lemma linked_mono: "linked n g s t \<Longrightarrow> arcs n g \<subseteq> arcs n g' \<Longrightarrow> linked n g' s t"
  unfolding linked_def using rtrancl_mono by blast

text \<open>An edge is added only where there was no path, so that no cycle appears.\<close>

lemma link_pair_acyclic:
  assumes "maps_ok w" "good_pair w p" "acyclic (arcs (num_vertices w) (no_delay_edges g))"
  shows "acyclic (arcs (num_vertices w) (no_delay_edges (link_pair w devs p g)))"
  using assms(1,2)
proof (rule link_pair_cases[where devs = devs and g = g])
  fix u v
  assume *: "link_pair w devs p g = add_dependency u v g" "u < num_vertices w" "\<not> linked (num_vertices w) g u v"
  have "(v, u) \<notin> (arcs (num_vertices w) (no_delay_edges g))\<^sup>*"
    using *(3) rtrancl_mono[OF arcs_no_delay] unfolding linked_def by blast
  then show ?thesis using assms(3) *(1,2) by (simp add: arcs_add_immediate acyclic_insert)
qed (use assms(3) in simp)

lemma link_pair_links:
  assumes "maps_ok w" "good_pair w p" "find_address_connection w (fst p) (snd p) devs \<or> find_address_connection w (snd p) (fst p) devs"
    "node_map w (fst p) = Some s" "node_map w (snd p) = Some t"
  shows "linked (num_vertices w) (link_pair w devs p g) s t"
proof -
  have "s < num_vertices w" "t < num_vertices w" using assms(1,4,5) by (simp_all add: node_map_Some)
  then show ?thesis
    using assms(3-5)
    by (auto simp: link_pair_def link_addresses_def Let_def case_prod_beta linked_def arcs_add_dependency)
qed

section \<open>The order\<close>

definition runs_before :: "'a list \<Rightarrow> 'a \<Rightarrow> 'a \<Rightarrow> bool" where
  "runs_before xs a b \<longleftrightarrow> (\<exists>us vs ws. xs = us @ a # vs @ b # ws)"

lemma runs_before_nth:
  assumes "i < length xs" "a \<in> set (take i xs)"
  shows "runs_before xs a (xs ! i)"
proof -
  obtain us vs where "take i xs = us @ a # vs" using split_list[OF assms(2)] by blast
  then have "xs = us @ a # vs @ xs ! i # drop (Suc i) xs" using id_take_nth_drop[OF assms(1)] by simp
  then show ?thesis unfolding runs_before_def by blast
qed

lemma runs_before_map: "runs_before xs a b \<Longrightarrow> runs_before (List.map f xs) (f a) (f b)"
  unfolding runs_before_def by (metis list.simps(9) map_append)

lemma runs_before_filter: "runs_before xs a b \<Longrightarrow> P a \<Longrightarrow> P b \<Longrightarrow> runs_before (filter P xs) a b"
  unfolding runs_before_def by (metis filter.simps(2) filter_append)

lemma runs_before_append: "runs_before xs a b \<Longrightarrow> runs_before (xs @ ys) a b" "runs_before ys a b \<Longrightarrow> runs_before (xs @ ys) a b"
proof -
  show "runs_before (xs @ ys) a b" if "runs_before xs a b" using that unfolding runs_before_def by (metis append.assoc append_Cons)
  show "runs_before (xs @ ys) a b" if "runs_before ys a b" using that unfolding runs_before_def by (metis append.assoc)
qed

lemma runs_before_across: "a \<in> set xs \<Longrightarrow> b \<in> set ys \<Longrightarrow> runs_before (xs @ ys) a b"
proof -
  assume "a \<in> set xs" "b \<in> set ys"
  then obtain us vs us' vs' where "xs = us @ a # vs" "ys = us' @ b # vs'" by (meson split_list)
  then have "xs @ ys = us @ a # (vs @ us') @ b # vs'" by simp
  then show ?thesis unfolding runs_before_def by blast
qed

lemma sort_all_nodes_cyclic:
  assumes "topo_sort_visitor nad vis" "closed_graph (num_vertices w) g" "\<not> acyclic (arcs (num_vertices w) (no_delay_edges g))"
  shows "sort_all_nodes vis w g = []"
  using custom_topological_sort_result[OF assms(1) closed_no_delay[OF assms(2)], of 0] assms(3)
  by (auto simp: sort_all_nodes_def split: sum.splits)

definition in_order :: "('d, 'z) graph_base_scheme \<Rightarrow> graph_t \<Rightarrow> nat list \<Rightarrow> bool" where
  "in_order w g order \<longleftrightarrow> distinct order \<and> set order = set (vertex_nodes w)
    \<and> (\<forall>(u, v) \<in> arcs (num_vertices w) (no_delay_edges g).
        runs_before order (vertex_nodes w ! v) (vertex_nodes w ! u)
        \<or> has_no_ports w (vertex_nodes w ! u) \<and> \<not> has_no_ports w (vertex_nodes w ! v))"

lemma sort_all_nodes_acyclic:
  assumes "topo_sort_visitor nad vis" "maps_ok w" "closed_graph (num_vertices w) g" "acyclic (arcs (num_vertices w) (no_delay_edges g))"
  shows "in_order w g (sort_all_nodes vis w g)"
proof -
  let ?g = "no_delay_edges g" and ?f = "\<lambda>v. vertex_nodes w ! v" and ?n = "num_vertices w"
  from custom_topological_sort_result[OF assms(1) closed_no_delay[OF assms(3)], of 0] assms(4)
  obtain order where r: "custom_topological_sort vis ?n ?g 0 = Inr order"
    and order: "distinct order" "set order = {..<?n}" "ordered ?g order"
    by (auto split: sum.splits)
  let ?ns = "List.map ?f order"
  have eq: "sort_all_nodes vis w g = filter (has_no_ports w) ?ns @ filter (\<lambda>n. \<not> has_no_ports w n) ?ns"
    using r by (simp add: sort_all_nodes_def Let_def)
  have "distinct (vertex_nodes w)" using assms(2) by (simp add: maps_ok_def)
  then have inj: "inj_on ?f {..<?n}" by (auto intro: inj_on_nth)
  have "distinct ?ns" using order(1,2) inj by (simp add: distinct_map)
  moreover have set: "set ?ns = set (vertex_nodes w)" using order(2) nth_image[of ?n "vertex_nodes w"] by (simp add: atLeast0LessThan)
  moreover have "runs_before (sort_all_nodes vis w g) (?f v) (?f u) \<or> has_no_ports w (?f u) \<and> \<not> has_no_ports w (?f v)"
    if "(u, v) \<in> arcs ?n ?g" for u v
  proof -
    have "u \<in> set order" "v \<in> targets ?g u" using that order(2) by (auto simp: arcs_def)
    then obtain i where "i < length order" "order ! i = u" by (auto simp: in_set_conv_nth)
    then have before: "runs_before order v u" using order(3) \<open>v \<in> targets ?g u\<close> runs_before_nth[of i order v] by (auto simp: ordered_def)
    then have ns: "runs_before ?ns (?f v) (?f u)" by (rule runs_before_map)
    have mem: "?f v \<in> set ?ns" "?f u \<in> set ?ns" using before unfolding runs_before_def by auto
    show ?thesis
    proof (cases "has_no_ports w (?f u) \<longleftrightarrow> has_no_ports w (?f v)")
      case True
      then show ?thesis using ns unfolding eq by (cases "has_no_ports w (?f u)") (auto intro: runs_before_append runs_before_filter)
    next
      case False
      then show ?thesis
        using mem unfolding eq by (cases "has_no_ports w (?f u)") (auto intro!: runs_before_across)
    qed
  qed
  moreover have "distinct (sort_all_nodes vis w g)" using \<open>distinct ?ns\<close> unfolding eq by auto
  moreover have "set (sort_all_nodes vis w g) = set ?ns" unfolding eq by auto
  ultimately show ?thesis unfolding in_order_def by auto
qed

section \<open>The updates\<close>

lemma pairs_of_nth: "p \<in> set (pairs_of xs) \<longleftrightarrow> (\<exists>i j. i < j \<and> j < length xs \<and> p = (xs ! i, xs ! j))"
proof (induction xs)
  case (Cons x xs)
  have "p \<in> Pair x ` set xs \<longleftrightarrow> (\<exists>j < length xs. p = (x, xs ! j))" by (auto simp: in_set_conv_nth image_iff)
  moreover have "(\<exists>i j. i < j \<and> j < length (x # xs) \<and> p = ((x # xs) ! i, (x # xs) ! j))
      \<longleftrightarrow> (\<exists>j < length xs. p = (x, xs ! j)) \<or> (\<exists>i j. i < j \<and> j < length xs \<and> p = (xs ! i, xs ! j))" (is "?l \<longleftrightarrow> ?r")
  proof
    assume ?l
    then obtain i j where *: "i < j" "j < Suc (length xs)" "p = ((x # xs) ! i, (x # xs) ! j)" by auto
    then obtain j' where "j = Suc j'" by (cases j) auto
    with * show ?r by (cases i) auto
  next
    assume ?r
    then show ?l
    proof
      assume "\<exists>j < length xs. p = (x, xs ! j)"
      then obtain j where "j < length xs" "p = ((x # xs) ! 0, (x # xs) ! Suc j)" by auto
      then show ?l by (metis length_Cons Suc_less_eq zero_less_Suc)
    next
      assume "\<exists>i j. i < j \<and> j < length xs \<and> p = (xs ! i, xs ! j)"
      then obtain i j where "Suc i < Suc j" "Suc j < length (x # xs)" "p = ((x # xs) ! Suc i, (x # xs) ! Suc j)" by auto
      then show ?l by blast
    qed
  qed
  ultimately show ?case using Cons by simp
qed simp

lemma pairs_of_good:
  assumes "distinct ns" "set ns = set (vertex_nodes w)" "p \<in> set (pairs_of ns)"
  shows "good_pair w p"
proof -
  obtain i j where "i < j" "j < length ns" "p = (ns ! i, ns ! j)" using assms(3) unfolding pairs_of_nth by blast
  then show ?thesis using assms(1,2) nth_eq_iff_index_eq[of ns i j] nth_mem[of i ns] nth_mem[of j ns] by (auto simp: good_pair_def)
qed

lemma bfs_pairs_links:
  assumes "maps_ok w"
  shows "\<forall>p \<in> set ps. good_pair w p \<Longrightarrow> closed_graph (num_vertices w) g \<Longrightarrow> bfs_pairs capacity w devs ps g = Some (fold (link_pair w devs) ps g)"
  by (induction ps arbitrary: g) (simp_all add: assms bfs_pair_links link_pair_closed)

lemma tc_add_addresses_links:
  assumes "graph_library lib" "maps_ok w" "num_vertices w \<le> inf_vertex"
  shows "\<forall>p \<in> set ps. good_pair w p \<Longrightarrow> closed_graph (num_vertices w) g \<Longrightarrow>
    tc_add_addresses lib w devs ps (g, transitive_closure lib (num_vertices w) g)
      = Some (fold (link_pair w devs) ps g, transitive_closure lib (num_vertices w) (fold (link_pair w devs) ps g))"
  by (induction ps arbitrary: g) (simp_all add: assms tc_pair_links link_pair_closed)

lemma link_pairs_closed:
  assumes "maps_ok w"
  shows "\<forall>p \<in> set ps. good_pair w p \<Longrightarrow> closed_graph (num_vertices w) g \<Longrightarrow> closed_graph (num_vertices w) (fold (link_pair w devs) ps g)"
  by (induction ps arbitrary: g) (simp_all add: assms link_pair_closed)

lemma link_pairs_acyclic:
  assumes "maps_ok w"
  shows "\<forall>p \<in> set ps. good_pair w p \<Longrightarrow> acyclic (arcs (num_vertices w) (no_delay_edges g)) \<Longrightarrow>
    acyclic (arcs (num_vertices w) (no_delay_edges (fold (link_pair w devs) ps g)))"
  by (induction ps arbitrary: g) (simp_all add: assms link_pair_acyclic)

lemma link_pairs_grow:
  assumes "maps_ok w"
  shows "\<forall>p \<in> set ps. good_pair w p \<Longrightarrow> arcs (num_vertices w) g \<subseteq> arcs (num_vertices w) (fold (link_pair w devs) ps g)"
proof (induction ps arbitrary: g)
  case (Cons p ps)
  then show ?case using link_pair_grows[OF assms, of p g devs] by fastforce
qed simp

text \<open>A new edge leads from a reader to a writer.\<close>

lemma link_pair_new:
  assumes "maps_ok w" "good_pair w p" "(u, v) \<in> arcs (num_vertices w) (link_pair w devs p g)" "(u, v) \<notin> arcs (num_vertices w) g"
  shows "find_address_connection w (vertex_nodes w ! v) (vertex_nodes w ! u) devs"
  using assms(1,2)
proof (rule link_pair_cases[where devs = devs and g = g])
  fix a b
  assume *: "link_pair w devs p g = add_dependency a b g" "a < num_vertices w"
    "\<exists>n m. node_map w n = Some a \<and> node_map w m = Some b \<and> find_address_connection w m n devs"
  then have "u = a" "v = b" using assms(3,4) by (simp_all add: arcs_add_dependency)
  moreover obtain n m where "node_map w n = Some a" "node_map w m = Some b" "find_address_connection w m n devs" using *(3) by blast
  ultimately show ?thesis by (simp add: node_map_Some[OF assms(1)])
qed (use assms(3,4) in simp)

lemma link_pairs_new:
  assumes "maps_ok w"
  shows "\<forall>p \<in> set ps. good_pair w p \<Longrightarrow> (u, v) \<in> arcs (num_vertices w) (fold (link_pair w devs) ps g) \<Longrightarrow>
    (u, v) \<notin> arcs (num_vertices w) g \<Longrightarrow> find_address_connection w (vertex_nodes w ! v) (vertex_nodes w ! u) devs"
proof (induction ps arbitrary: g)
  case (Cons p ps)
  have p: "good_pair w p" "\<forall>p \<in> set ps. good_pair w p" using Cons.prems(1) by simp_all
  show ?case
  proof (cases "(u, v) \<in> arcs (num_vertices w) (link_pair w devs p g)")
    case True
    then show ?thesis by (rule link_pair_new[OF assms p(1) _ Cons.prems(3)])
  next
    case False
    show ?thesis by (rule Cons.IH[OF p(2) _ False]) (use Cons.prems(2) in simp)
  qed
qed simp

definition share_address :: "('d, 'z) graph_base_scheme \<Rightarrow> devices \<Rightarrow> nat \<Rightarrow> nat \<Rightarrow> bool" where
  "share_address w devs a b \<longleftrightarrow> find_address_connection w a b devs \<or> find_address_connection w b a devs"

lemma link_pairs_link:
  assumes "maps_ok w" "\<forall>p \<in> set ps. good_pair w p" "p \<in> set ps" "share_address w devs (fst p) (snd p)"
    "node_map w (fst p) = Some s" "node_map w (snd p) = Some t"
  shows "linked (num_vertices w) (fold (link_pair w devs) ps g) s t"
proof -
  obtain ps1 ps2 where ps: "ps = ps1 @ p # ps2" using split_list[OF assms(3)] by blast
  let ?g = "link_pair w devs p (fold (link_pair w devs) ps1 g)"
  have "linked (num_vertices w) ?g s t"
    by (rule link_pair_links[OF assms(1) _ _ assms(5,6)]) (use assms(2-4) in \<open>auto simp: share_address_def\<close>)
  moreover have "arcs (num_vertices w) ?g \<subseteq> arcs (num_vertices w) (fold (link_pair w devs) ps2 ?g)"
    by (rule link_pairs_grow[OF assms(1)]) (use assms(2) ps in simp)
  ultimately show ?thesis unfolding ps by (simp add: linked_mono)
qed

text \<open>The edges a graph has after an update, over the nodes in the order of the first sort.\<close>

definition linked_graph :: "(nat list, connection, 'x) visitor \<Rightarrow> ('d, 'z) graph_base_scheme \<Rightarrow> devices \<Rightarrow> graph_t" where
  "linked_graph vis w devs = fold (link_pair w devs) (pairs_of (sort_all_nodes vis w (adjacency w))) (adjacency w)"

definition sortable :: "'x \<Rightarrow> (nat list, connection, 'x) visitor \<Rightarrow> ('d, 'z) graph_base_scheme \<Rightarrow> bool" where
  "sortable nad vis w \<longleftrightarrow> topo_sort_visitor nad vis \<and> maps_ok w \<and> acyclic (arcs (num_vertices w) (no_delay_edges (adjacency w)))"

lemma sortable_maps: "sortable nad vis w \<Longrightarrow> maps_ok w"
  by (simp add: sortable_def)

lemma first_sort: "sortable nad vis w \<Longrightarrow> in_order w (adjacency w) (sort_all_nodes vis w (adjacency w))"
  unfolding sortable_def by (elim conjE) (rule sort_all_nodes_acyclic[OF _ _ closed_adjacency])

lemma first_length:
  assumes "sortable nad vis w"
  shows "length (sort_all_nodes vis w (adjacency w)) = num_vertices w"
proof -
  have "distinct (vertex_nodes w)" using sortable_maps[OF assms] by (simp add: maps_ok_def)
  then show ?thesis using first_sort[OF assms] unfolding in_order_def by (metis distinct_card)
qed

lemma pairs_good:
  assumes "sortable nad vis w"
  shows "\<forall>p \<in> set (pairs_of (sort_all_nodes vis w (adjacency w))). good_pair w p"
proof -
  have "distinct (sort_all_nodes vis w (adjacency w))" "set (sort_all_nodes vis w (adjacency w)) = set (vertex_nodes w)"
    using first_sort[OF assms] by (simp_all add: in_order_def)
  then show ?thesis by (simp add: pairs_of_good)
qed

lemma bfs_update_links:
  assumes "sortable nad vis w"
  shows "bfs_update vis capacity w devs = Some (linked_graph vis w devs, sort_all_nodes vis w (linked_graph vis w devs))"
  by (simp add: bfs_update_def Let_def first_length[OF assms] linked_graph_def
      bfs_pairs_links[OF sortable_maps[OF assms] pairs_good[OF assms] closed_adjacency[OF sortable_maps[OF assms]]])

lemma tc_update_links:
  assumes "sortable nad vis w" "graph_library lib" "num_vertices w \<le> inf_vertex"
  shows "tc_update vis lib w devs = Some (linked_graph vis w devs, sort_all_nodes vis w (linked_graph vis w devs))"
  by (simp add: tc_update_def Let_def linked_graph_def
      tc_add_addresses_links[OF assms(2) sortable_maps[OF assms(1)] assms(3) pairs_good[OF assms(1)] closed_adjacency[OF sortable_maps[OF assms(1)]]])

lemma linked_graph_closed:
  assumes "sortable nad vis w"
  shows "closed_graph (num_vertices w) (linked_graph vis w devs)"
  unfolding linked_graph_def
  by (rule link_pairs_closed[OF sortable_maps[OF assms] pairs_good[OF assms] closed_adjacency[OF sortable_maps[OF assms]]])

lemma linked_graph_sorted:
  assumes "sortable nad vis w"
  shows "in_order w (linked_graph vis w devs) (sort_all_nodes vis w (linked_graph vis w devs))"
proof (rule sort_all_nodes_acyclic)
  show "topo_sort_visitor nad vis" "maps_ok w" using assms by (simp_all add: sortable_def)
  show "closed_graph (num_vertices w) (linked_graph vis w devs)" by (rule linked_graph_closed[OF assms])
  show "acyclic (arcs (num_vertices w) (no_delay_edges (linked_graph vis w devs)))"
    unfolding linked_graph_def
    by (rule link_pairs_acyclic[OF sortable_maps[OF assms] pairs_good[OF assms]]) (use assms in \<open>simp add: sortable_def\<close>)
qed

lemma linked_graph_links:
  assumes sortable: "sortable nad vis w"
    and "u < num_vertices w" "v < num_vertices w" "u \<noteq> v" "share_address w devs (vertex_nodes w ! u) (vertex_nodes w ! v)"
  shows "linked (num_vertices w) (linked_graph vis w devs) u v"
proof -
  note maps = sortable_maps[OF sortable] and good = pairs_good[OF sortable]
  let ?ns = "sort_all_nodes vis w (adjacency w)"
  have ns: "set ?ns = set (vertex_nodes w)" using first_sort[OF sortable] by (simp add: in_order_def)
  then have "vertex_nodes w ! u \<in> set ?ns" "vertex_nodes w ! v \<in> set ?ns" using assms(2,3) by simp_all
  then obtain i j where ij: "i < length ?ns" "?ns ! i = vertex_nodes w ! u" "j < length ?ns" "?ns ! j = vertex_nodes w ! v"
    by (auto simp: in_set_conv_nth)
  have "distinct (vertex_nodes w)" using maps by (simp add: maps_ok_def)
  then have "i \<noteq> j" using ij assms(2-4) nth_eq_iff_index_eq by metis
  have node: "node_map w (vertex_nodes w ! u) = Some u" "node_map w (vertex_nodes w ! v) = Some v"
    using node_map_nth[OF maps] assms(2,3) by simp_all
  have "share_address w devs b a \<longleftrightarrow> share_address w devs a b" for a b by (auto simp: share_address_def)
  moreover have "linked n g b a \<longleftrightarrow> linked n g a b" for n g a b by (auto simp: linked_def)
  moreover have "(vertex_nodes w ! u, vertex_nodes w ! v) \<in> set (pairs_of ?ns) \<or> (vertex_nodes w ! v, vertex_nodes w ! u) \<in> set (pairs_of ?ns)"
    using ij \<open>i \<noteq> j\<close> unfolding pairs_of_nth by (metis linorder_neqE_nat)
  ultimately show ?thesis
    using link_pairs_link[OF maps good, of "(vertex_nodes w ! u, vertex_nodes w ! v)" devs u v]
      link_pairs_link[OF maps good, of "(vertex_nodes w ! v, vertex_nodes w ! u)" devs v u] node assms(5)
    unfolding linked_graph_def by auto
qed

text \<open>C21: 
  An update with the search for a path returns the nodes in an order: each of them once, and the nodes at the end of an
  edge that is not delayed before those at its beginning, except for a node without ports, which comes before all that
  have some. The edges of the graph are kept, those that are new lead from a node that reads an address to one that writes
  it, and of two nodes that share an address one can be reached from the other.
\<close>

theorem bfs_update_correct:
  assumes "sortable nad vis w"
  shows "\<exists>g order. bfs_update vis capacity w devs = Some (g, order) \<and> in_order w g order
    \<and> arcs (num_vertices w) (adjacency w) \<subseteq> arcs (num_vertices w) g
    \<and> (\<forall>(u, v) \<in> arcs (num_vertices w) g - arcs (num_vertices w) (adjacency w).
        find_address_connection w (vertex_nodes w ! v) (vertex_nodes w ! u) devs)
    \<and> (\<forall>u < num_vertices w. \<forall>v < num_vertices w. u \<noteq> v \<and> share_address w devs (vertex_nodes w ! u) (vertex_nodes w ! v) \<longrightarrow>
        linked (num_vertices w) g u v)"
proof (intro exI conjI)
  show "bfs_update vis capacity w devs = Some (linked_graph vis w devs, sort_all_nodes vis w (linked_graph vis w devs))"
    by (rule bfs_update_links[OF assms])
  show "in_order w (linked_graph vis w devs) (sort_all_nodes vis w (linked_graph vis w devs))"
    by (rule linked_graph_sorted[OF assms])
  show "arcs (num_vertices w) (adjacency w) \<subseteq> arcs (num_vertices w) (linked_graph vis w devs)"
    unfolding linked_graph_def by (rule link_pairs_grow[OF sortable_maps[OF assms] pairs_good[OF assms]])
  show "\<forall>(u, v) \<in> arcs (num_vertices w) (linked_graph vis w devs) - arcs (num_vertices w) (adjacency w).
      find_address_connection w (vertex_nodes w ! v) (vertex_nodes w ! u) devs"
    using link_pairs_new[OF sortable_maps[OF assms] pairs_good[OF assms]] unfolding linked_graph_def by blast
qed (use linked_graph_links[OF assms] in blast)

text \<open>
  Three nodes: what the first writes to an address the second reads, and an edge leads from an outlet of the third to an
  inlet of the first.
\<close>

definition plain_port :: "destination_t \<Rightarrow> nat list \<Rightarrow> port" where
  "plain_port addr es = \<lparr>which = Value_port, address = addr, local_scope = True, global_scope = True, cables = es, child_inlets = [],
    values_of = \<lparr>vp_domain = No_domain, vp_type = No_complex_type, vp_address_unit = None, vp_index = [], vp_is_event = False,
      vp_mix_method = Mix_append, vp_data = []\<rparr>\<rparr>"

definition plain_node :: "nat list \<Rightarrow> nat list \<Rightarrow> unit graph_node" where
  "plain_node ins outs = \<lparr>root_inputs = ins, root_outputs = outs, requested_tokens = [], executed = False, not_threadable = False,
    node_start_discontinuous = False, node_end_discontinuous = False, muted = False\<rparr>"

definition sample_graph :: "unit graph_base" where
  "sample_graph = recompute_maps \<lparr>
    inlet_at = (\<lambda>p. if p = 0 then plain_port No_destination [0] else plain_port (To_parameter 7) []),
    outlet_at = (\<lambda>p. if p = 0 then plain_port (To_parameter 7) [] else plain_port No_destination [0]),
    node_at = (\<lambda>n. if n = 0 then plain_node [0] [0] else if n = 1 then plain_node [1] [] else plain_node [] [1]),
    edge_at = (\<lambda>e. \<lparr>con = Immediate_glutton, e_out = Some 1, e_in = Some 0, out_node = Some 2, in_node = Some 0\<rparr>),
    vertex_nodes = [0, 1, 2], out_lists = [[(2, 0)], [], []], node_map = Map.empty, edge_map = Map.empty,
    node_list = [0, 1, 2], dirty = True\<rparr>"

lemma sample_vertices: "vertex_nodes sample_graph = [0, 1, 2]" "num_vertices sample_graph = 3"
  by (simp_all add: sample_graph_def recompute_maps_def)

lemma sample_sortable: "sortable () library_visitor sample_graph"
proof -
  have maps: "maps_ok sample_graph" by (simp add: sample_graph_def maps_ok_def recompute_maps_def)
  have sort: "custom_topological_sort library_visitor 3 (no_delay_edges (adjacency sample_graph)) 0 = Inr [2, 0, 1]" by code_simp
  have "acyclic (arcs 3 (no_delay_edges (adjacency sample_graph)))"
    using custom_topological_sort_result[OF library_visitor_ok closed_no_delay[OF closed_adjacency[OF maps]], of 0]
    unfolding sample_vertices(2) sort by simp
  then show ?thesis using maps library_visitor_ok unfolding sortable_def sample_vertices(2) by blast
qed

lemma sample_shares: "share_address sample_graph (\<lambda>pat. []) 0 1"
  by code_simp

lemma bfs_update_correct_witness:
  "\<exists>g order. bfs_update library_visitor 0 sample_graph (\<lambda>pat. []) = Some (g, order) \<and> in_order sample_graph g order \<and> linked 3 g 0 1"
proof -
  obtain g order where *: "bfs_update library_visitor 0 sample_graph (\<lambda>pat. []) = Some (g, order)" "in_order sample_graph g order"
    "\<forall>u < 3. \<forall>v < 3. u \<noteq> v \<and> share_address sample_graph (\<lambda>pat. []) ([0, 1, 2] ! u) ([0, 1, 2] ! v) \<longrightarrow> linked 3 g u v"
    using bfs_update_correct[OF sample_sortable, of 0 "\<lambda>pat. []"] unfolding sample_vertices(2) unfolding sample_vertices(1) by blast
  have "linked 3 g 0 1" using *(3)[rule_format, of 0 1] sample_shares by simp
  with *(1,2) show ?thesis by blast
qed

text \<open>A graph with a cycle has no order. The first update reads past the end of it.\<close>

lemma cyclic_updates:
  assumes "topo_sort_visitor nad vis" "maps_ok w" "\<not> acyclic (arcs (num_vertices w) (no_delay_edges (adjacency w)))"
  shows "bfs_update vis capacity w devs = None" "tc_update vis lib w devs = Some (adjacency w, [])"
proof -
  have empty: "sort_all_nodes vis w (adjacency w) = []"
    by (rule sort_all_nodes_cyclic[OF assms(1) closed_adjacency[OF assms(2)] assms(3)])
  have "vertex_nodes w \<noteq> []" using assms(3) by (auto simp: arcs_def acyclic_def)
  then show "bfs_update vis capacity w devs = None" by (simp add: bfs_update_def empty)
  show "tc_update vis lib w devs = Some (adjacency w, [])" by (simp add: tc_update_def Let_def empty)
qed

text \<open>C22: 
  When the edges that are not delayed are acyclic, both updates return, and the one with the transitive closure adds the same
  edges in the same order as the one with the search for a path and gives the same order of the nodes. They disagree on the
  other graphs: there the search for a path reads past the end of the list of nodes (there is no result), while the closure
  leaves the edges as they are and gives no nodes. The maps of the graph are those of its nodes, the closure's library
  behaves as documented, and there are not more nodes than the number that stands for infinity.
\<close>

theorem updates_agree:
  assumes "topo_sort_visitor nad vis" "maps_ok w" "graph_library lib" "num_vertices w \<le> inf_vertex"
  shows "if acyclic (arcs (num_vertices w) (no_delay_edges (adjacency w)))
    then \<exists>g order. bfs_update vis capacity w devs = Some (g, order) \<and> tc_update vis lib w devs = Some (g, order)
    else bfs_update vis capacity w devs = None \<and> tc_update vis lib w devs = Some (adjacency w, [])"
proof (cases "acyclic (arcs (num_vertices w) (no_delay_edges (adjacency w)))")
  case True
  then have "sortable nad vis w" using assms(1,2) by (simp add: sortable_def)
  then show ?thesis using True assms(3,4) by (simp add: tc_update_links bfs_update_links)
next
  case False
  then show ?thesis using cyclic_updates[OF assms(1,2) False] by simp
qed

lemma updates_agree_witness:
  "\<exists>g order. bfs_update library_visitor 0 sample_graph (\<lambda>pat. []) = Some (g, order)
    \<and> tc_update library_visitor naive_library sample_graph (\<lambda>pat. []) = Some (g, order)"
proof -
  have "num_vertices sample_graph \<le> inf_vertex" unfolding sample_vertices(2) by (simp add: inf_vertex_def)
  moreover have "maps_ok sample_graph" "acyclic (arcs (num_vertices sample_graph) (no_delay_edges (adjacency sample_graph)))"
    using sample_sortable by (simp_all add: sortable_def)
  ultimately show ?thesis using updates_agree[OF library_visitor_ok _ naive_library_ok] by metis
qed

end
