(* ===== verification/GraphTick.thy ===== *)
theory GraphTick
  imports ValuePorts GraphUpdate
begin

text \<open>
  One execution of the graph (dataflow/graph/graph_utils.hpp, graph_static.hpp, graph.hpp, graph_ordering.hpp,
  node_executors.hpp): nodes that miss a strict connection are disabled, the others run in the order of the sort or in one
  that is found while they run, and all of them are disabled at the end.
\<close>

section \<open>Running a node\<close>

text \<open>
  A call ends in one of three ways: the program ends, because an exception has reached a \<open>noexcept\<close> function; the call
  throws, and the handlers of its callers see the state as it is then; or it returns.
\<close>

datatype 'd run_end = Terminated | Threw "'d exec_state" | Completed "'d exec_state"

fun and_then :: "'d run_end \<Rightarrow> ('d exec_state \<Rightarrow> 'd run_end) \<Rightarrow> 'd run_end" where
  "and_then (Completed w) f = f w"
| "and_then r f = r"

text \<open>The loops over the ports are \<open>noexcept\<close>: they return, or the program ends.\<close>

definition port_loop :: "'d exec_result \<Rightarrow> 'd run_end" where
  "port_loop r = (case r of None \<Rightarrow> Terminated | Some w \<Rightarrow> Completed w)"

text \<open>
  What a call of the code of a node does is an argument, and it may end in any of the three ways. The class declares both
  functions \<open>noexcept\<close> (graph_node.hpp), so that a node whose code throws is one whose call is \<open>Terminated\<close>; the handler of
  the executor is there for calls that throw.
\<close>

record 'd user_code =
  begin_execution :: "nat \<Rightarrow> 'd exec_state \<Rightarrow> 'd run_end"
  run_node :: "nat \<Rightarrow> 'd token_request \<Rightarrow> 'd exec_state \<Rightarrow> 'd run_end"

definition process_time :: "'d fpu \<Rightarrow> nat \<Rightarrow> 'd token_request \<Rightarrow> 'd exec_state \<Rightarrow> 'd exec_state" where
  "process_time fl n t w =
    (let d = st_length (timings fl (x_buffer_size w) (x_ratio w) t);
         w = w\<lparr>x_frames := (x_frames w)(n := s64 (x_frames w n + d))\<rparr>
     in if \<not> f_eq fl (speed t) (f_0 fl)
        then w\<lparr>x_transport := (x_transport w)(n := start_date_to_physical fl t (x_ratio w))\<rparr> else w)"

text \<open>The marks of a discontinuity go to the first request.\<close>

definition mark_discontinuities :: "'d graph_node \<Rightarrow> 'd graph_node" where
  "mark_discontinuities x = (case requested_tokens x of
      [] \<Rightarrow> x
    | t # ts \<Rightarrow>
        x\<lparr>requested_tokens :=
            (let t = (if node_start_discontinuous x then t\<lparr>start_discontinuous := True\<rparr> else t)
             in if node_end_discontinuous x then t\<lparr>end_discontinuous := True\<rparr> else t) # ts,
          node_start_discontinuous := False, node_end_discontinuous := False\<rparr>)"

primrec run_requests :: "'d fpu \<Rightarrow> 'd user_code \<Rightarrow> nat \<Rightarrow> 'd token_request list \<Rightarrow> 'd exec_state \<Rightarrow> 'd run_end" where
  "run_requests fl uc n [] w = Completed w"
| "run_requests fl uc n (t # ts) w =
    and_then (run_node uc n t w) (\<lambda>w. run_requests fl uc n ts (process_time fl n t w))"

definition exec_node :: "'d fpu \<Rightarrow> exec_env \<Rightarrow> 'd user_code \<Rightarrow> nat \<Rightarrow> 'd exec_state \<Rightarrow> 'd run_end" where
  "exec_node fl env uc n w =
    and_then (port_loop (init_node env n w)) (\<lambda>w.
    and_then (begin_execution uc n w) (\<lambda>w.
      let w = upd_node n mark_discontinuities w
      in and_then (run_requests fl uc n (requested_tokens (node_at w n)) w) (\<lambda>w.
          port_loop (teardown_node env n (upd_node n (\<lambda>x. x\<lparr>executed := True\<rparr>) w)))))"

section \<open>Nodes that must not run\<close>

fun needs_side :: "required_sides \<Rightarrow> required_sides \<Rightarrow> bool" where
  "needs_side side Both_sides = True"
| "needs_side side s = (s = side)"

definition test_disable_inlet :: "'d exec_state \<Rightarrow> nat \<Rightarrow> nat \<Rightarrow> bool" where
  "test_disable_inlet w n e = (case con (edge_at w e) of
      Immediate_strict s \<Rightarrow> needs_side Outbound s \<and> enabled (node_at w n) \<and> \<not> source_enabled w e
    | Delayed_strict buffer pos \<Rightarrow> data_size buffer = 0 \<or> pos \<ge> data_size buffer
    | _ \<Rightarrow> False)"

definition test_disable_outlet :: "'d exec_state \<Rightarrow> nat \<Rightarrow> nat \<Rightarrow> bool" where
  "test_disable_outlet w n e = (case con (edge_at w e) of
      Immediate_strict s \<Rightarrow> needs_side Inbound s \<and> enabled (node_at w n) \<and> \<not> sink_enabled w e
    | _ \<Rightarrow> False)"

definition must_be_disabled :: "'d exec_state \<Rightarrow> nat \<Rightarrow> bool" where
  "must_be_disabled w n \<longleftrightarrow> muted (node_at w n)
    \<or> list_ex (\<lambda>i. list_ex (test_disable_inlet w n) (cables (inlet_at w i))) (all_inlets w n)
    \<or> list_ex (\<lambda>j. list_ex (test_disable_outlet w n) (cables (outlet_at w j))) (all_outlets w n)"

definition disable_node :: "nat \<Rightarrow> 'd exec_state \<Rightarrow> 'd exec_state" where
  "disable_node n = upd_node n (\<lambda>x. x\<lparr>requested_tokens := []\<rparr>)"

function disable_strict_nodes_rec :: "'d exec_state \<Rightarrow> nat list \<Rightarrow> 'd exec_state \<times> nat list" where
  "disable_strict_nodes_rec w cur_enabled =
    (let disabled = filter (must_be_disabled w) cur_enabled
     in if disabled = [] then (w, cur_enabled)
        else disable_strict_nodes_rec (fold disable_node disabled w) (filter (\<lambda>n. n \<notin> set disabled) cur_enabled))"
  by pat_completeness auto

termination
proof (relation "measure (\<lambda>(w, ns). length ns)", goal_cases)
  case (2 w ns)
  then show ?case by (auto simp: filter_empty_conv intro!: length_filter_less)
qed simp

declare disable_strict_nodes_rec.simps [simp del]

section \<open>When a node can run\<close>

definition can_execute :: "'d exec_state \<Rightarrow> nat \<Rightarrow> bool" where
  "can_execute w n = list_all (\<lambda>i.
    cables (inlet_at w i) \<noteq> [] \<longrightarrow>
    list_all (\<lambda>e. executed (node_at w (the (out_node (edge_at w e)))) \<or> \<not> source_enabled w e \<or> delayed (con (edge_at w e)))
      (cables (inlet_at w i))) (all_inlets w n)"

definition finish_nodes :: "nat list \<Rightarrow> 'd exec_state \<Rightarrow> 'd exec_state" where
  "finish_nodes ns w = fold (\<lambda>n. upd_node n (\<lambda>x. x\<lparr>executed := False, requested_tokens := []\<rparr>)) ns w"

section \<open>The static graph\<close>

text \<open>
  The loop over the nodes: an exception leaves it. The code asserts that a node it runs can execute; the theorems show that
  this holds.
\<close>

primrec exec_nodes :: "(nat \<Rightarrow> 'd exec_state \<Rightarrow> 'd run_end) \<Rightarrow> nat list \<Rightarrow> 'd exec_state \<Rightarrow> 'd run_end" where
  "exec_nodes run [] w = Completed w"
| "exec_nodes run (n # ns) w =
    (if enabled (node_at w n) then and_then (run n w) (exec_nodes run ns) else exec_nodes run ns w)"

text \<open>The handler around the loop, which is for every exception, logs and returns: the nodes that are left do not run.\<close>

definition catch_all :: "'d run_end \<Rightarrow> 'd exec_result" where
  "catch_all r = (case r of Terminated \<Rightarrow> None | Threw w \<Rightarrow> Some w | Completed w \<Rightarrow> Some w)"

definition static_exec :: "'d fpu \<Rightarrow> exec_env \<Rightarrow> 'd user_code \<Rightarrow> nat list \<Rightarrow> 'd exec_state \<Rightarrow> 'd exec_result" where
  "static_exec fl env uc active_nodes w = catch_all (exec_nodes (exec_node fl env uc) active_nodes w)"

definition update_enabled :: "'d exec_state \<Rightarrow> nat \<Rightarrow> nat list \<Rightarrow> nat list" where
  "update_enabled w n cache =
    (if enabled (node_at w n) then if n \<in> set cache then cache else insort n cache else remove1 n cache)"

text \<open>The graph with its order of the nodes and the set of those that are enabled. The executor is an argument.\<close>

type_synonym 'd static_graph = "'d exec_state \<times> nat list \<times> nat list"

definition static_state ::
  "(nat list \<Rightarrow> 'd exec_state \<Rightarrow> 'd exec_result) \<Rightarrow> ('d exec_state \<Rightarrow> nat list option) \<Rightarrow> 'd static_graph \<Rightarrow> 'd static_graph option" where
  "static_state tick_fun refresh = (\<lambda>(w, all_nodes, enabled_cache).
    Option.bind (if dirty w then map_option (\<lambda>order. (w\<lparr>dirty := False\<rparr>, order, [])) (refresh w) else Some (w, all_nodes, enabled_cache))
      (\<lambda>(w, all_nodes, enabled_cache).
        let (w, enabled_cache) = disable_strict_nodes_rec w (fold (update_enabled w) all_nodes enabled_cache)
        in map_option (\<lambda>w. (finish_nodes (vertex_nodes w) w, all_nodes, enabled_cache)) (tick_fun all_nodes w)))"

section \<open>The dynamic graph\<close>

definition has_port_inputs :: "'d exec_state \<Rightarrow> nat \<Rightarrow> bool" where
  "has_port_inputs w n = list_ex (\<lambda>i. cables (inlet_at w i) \<noteq> []) (all_inlets w n)"

definition has_global_inputs :: "'d exec_state \<Rightarrow> nat \<Rightarrow> bool" where
  "has_global_inputs w n = list_ex (\<lambda>i. global_scope (inlet_at w i) \<and> address (inlet_at w i) \<noteq> No_destination) (all_inlets w n)"

text \<open>Whether a node consumes something else is a virtual function of the node.\<close>

definition has_local_inputs :: "(nat \<Rightarrow> bool) \<Rightarrow> 'd exec_state \<Rightarrow> nat \<Rightarrow> bool" where
  "has_local_inputs consumes w n =
    list_ex (\<lambda>i. local_scope (inlet_at w i) \<and> (parameters_of (address (inlet_at w i)) (x_devices w) \<noteq> [] \<or> consumes n)) (all_inlets w n)"

text \<open>Two nodes that are not in the order cannot be compared: an exception.\<close>

definition compare_nodes :: "nat list \<Rightarrow> nat \<Rightarrow> nat \<Rightarrow> bool option" where
  "compare_nodes order lhs rhs = map_option (\<lambda>n. n = lhs) (List.find (\<lambda>n. n = lhs \<or> n = rhs) order)"

definition node_sorter :: "(nat \<Rightarrow> bool) \<Rightarrow> nat list \<Rightarrow> 'd exec_state \<Rightarrow> nat \<Rightarrow> nat \<Rightarrow> bool option" where
  "node_sorter consumes order w lhs rhs =
    (if has_port_inputs w lhs \<noteq> has_port_inputs w rhs then Some (has_port_inputs w lhs)
     else if has_port_inputs w lhs then compare_nodes order lhs rhs
     else if has_local_inputs consumes w lhs \<noteq> has_local_inputs consumes w rhs then Some (has_local_inputs consumes w lhs)
     else if has_local_inputs consumes w lhs then compare_nodes order lhs rhs
     else if has_global_inputs w lhs \<noteq> has_global_inputs w rhs then Some (has_global_inputs w lhs)
     else compare_nodes order lhs rhs)"

text \<open>The place of the node to run among those that have not run.\<close>

definition better :: "(nat \<Rightarrow> nat \<Rightarrow> bool option) \<Rightarrow> 'd exec_state \<Rightarrow> nat list \<Rightarrow> nat \<Rightarrow> nat option \<Rightarrow> nat option option" where
  "better cmp w nodes k cur = (case cur of
      Some c \<Rightarrow> map_option (\<lambda>less. if \<not> less \<and> can_execute w (nodes ! k) then Some k else Some c) (cmp (nodes ! c) (nodes ! k))
    | None \<Rightarrow> Some (if can_execute w (nodes ! k) then Some k else None))"

definition find_next :: "(nat \<Rightarrow> nat \<Rightarrow> bool option) \<Rightarrow> 'd exec_state \<Rightarrow> nat list \<Rightarrow> nat \<Rightarrow> nat option option" where
  "find_next cmp w nodes num_ran = fold_opt (better cmp w nodes) [0..<length nodes - num_ran] None"

definition swap_nodes :: "nat \<Rightarrow> nat \<Rightarrow> nat list \<Rightarrow> nat list" where
  "swap_nodes i j nodes = nodes[i := nodes ! j, j := nodes ! i]"

text \<open>
  The nodes that have run are at the end. The comparison sees the state as it is then. An exception leaves the tick: here
  nothing handles it.
\<close>

definition uncaught :: "'d run_end \<Rightarrow> 'd exec_result" where
  "uncaught r = (case r of Completed w \<Rightarrow> Some w | _ \<Rightarrow> None)"

function dynamic_tick ::
  "'d fpu \<Rightarrow> exec_env \<Rightarrow> 'd user_code \<Rightarrow> ('d exec_state \<Rightarrow> nat \<Rightarrow> nat \<Rightarrow> bool option) \<Rightarrow> nat list \<Rightarrow> nat \<Rightarrow> 'd exec_state \<Rightarrow>
    ('d exec_state \<times> nat list) option" where
  "dynamic_tick fl env uc cmp nodes num_ran w =
    (if num_ran \<ge> length nodes then Some (w, nodes)
     else case find_next (cmp w) w nodes num_ran of
         None \<Rightarrow> None
       | Some None \<Rightarrow> Some (w, nodes)
       | Some (Some k) \<Rightarrow> Option.bind (uncaught (exec_node fl env uc (nodes ! k) w))
           (dynamic_tick fl env uc cmp (swap_nodes (length nodes - num_ran - 1) k nodes) (Suc num_ran)))"
  by pat_completeness auto

termination by (relation "measure (\<lambda>(fl, env, uc, cmp, nodes, num_ran, w). length nodes - num_ran)") (auto simp: swap_nodes_def)

declare dynamic_tick.simps [simp del]

text \<open>A cycle leaves the graph as it is: the requests stay, and the nodes are sorted again at the next tick.\<close>

definition simple_topo_sort :: "(nat list, connection, 'x) visitor \<Rightarrow> 'd exec_state \<Rightarrow> nat list option" where
  "simple_topo_sort vis w = (case custom_topological_sort vis (num_vertices w) (no_delay_edges (adjacency w)) 0 of
      Inl x \<Rightarrow> None
    | Inr order \<Rightarrow> Some (List.map (\<lambda>v. vertex_nodes w ! v) order))"

definition dynamic_state ::
  "(nat list, connection, 'x) visitor \<Rightarrow> 'd fpu \<Rightarrow> exec_env \<Rightarrow> 'd user_code \<Rightarrow> (nat \<Rightarrow> bool) \<Rightarrow> 'd exec_state \<times> nat list \<Rightarrow>
    ('d exec_state \<times> nat list) option" where
  "dynamic_state vis fl env uc consumes = (\<lambda>(w, static_sort).
    case (if dirty w then map_option (\<lambda>order. (w\<lparr>dirty := False\<rparr>, order)) (simple_topo_sort vis w) else Some (w, static_sort)) of
      None \<Rightarrow> Some (w, static_sort)
    | Some (w, static_sort) \<Rightarrow>
        (let (w, enabled_cache) = disable_strict_nodes_rec w (sort (filter (\<lambda>n. enabled (node_at w n)) (vertex_nodes w)))
         in map_option (\<lambda>(w, nodes). (finish_nodes (vertex_nodes w) w, static_sort))
              (dynamic_tick fl env uc (node_sorter consumes static_sort) (filter (\<lambda>n. enabled (node_at w n)) static_sort) 0 w)))"

end
