(* ===== verification/GraphTickProps.thy ===== *)
theory GraphTickProps
  imports GraphTick
begin

text \<open>
  A tick of the graph is correct: filling and emptying ports leaves the graph alone, a node runs after the nodes it waits
  for, each at most once, nodes that miss a strict connection do not run, and at the end no node is enabled.
\<close>

section \<open>What running nodes leaves alone\<close>

definition fixed_port :: "port \<Rightarrow> port_kind \<times> destination_t \<times> bool \<times> bool \<times> nat list \<times> nat list" where
  "fixed_port p = (which p, address p, local_scope p, global_scope p, cables p, child_inlets p)"

definition fixed_node :: "'d graph_node \<Rightarrow> nat list \<times> nat list \<times> bool \<times> bool" where
  "fixed_node x = (root_inputs x, root_outputs x, muted x, enabled x)"

definition fixed_edge :: "graph_edge \<Rightarrow> nat option \<times> nat option \<times> nat option \<times> nat option \<times> bool" where
  "fixed_edge x = (e_out x, e_in x, out_node x, in_node x, delayed (con x))"

definition graph_part :: "'d exec_state \<Rightarrow> nat list \<times> (nat \<times> nat) list list \<times> (nat \<Rightarrow> nat option) \<times> (nat \<Rightarrow> (nat \<times> nat) option) \<times> nat list \<times> bool \<times> devices" where
  "graph_part w = (vertex_nodes w, out_lists w, node_map w, edge_map w, node_list w, dirty w, x_devices w)"

definition same_structure :: "'d exec_state \<Rightarrow> 'd exec_state \<Rightarrow> bool" where
  "same_structure w w' \<longleftrightarrow> graph_part w' = graph_part w \<and> (\<forall>n. fixed_node (node_at w' n) = fixed_node (node_at w n))
    \<and> (\<forall>i. fixed_port (inlet_at w' i) = fixed_port (inlet_at w i)) \<and> (\<forall>j. fixed_port (outlet_at w' j) = fixed_port (outlet_at w j))
    \<and> (\<forall>e. fixed_edge (edge_at w' e) = fixed_edge (edge_at w e))"

definition ran_nodes :: "'d exec_state \<Rightarrow> nat \<Rightarrow> bool" where
  "ran_nodes w n = executed (node_at w n)"

definition same_graph :: "'d exec_state \<Rightarrow> 'd exec_state \<Rightarrow> bool" where
  "same_graph w w' \<longleftrightarrow> same_structure w w' \<and> ran_nodes w' = ran_nodes w"

named_theorems frames \<open>operations that leave the graph alone\<close>

lemma same_structure_refl [simp]: "same_structure w w"
  by (simp add: same_structure_def)

lemma same_structure_trans: "same_structure w w' \<Longrightarrow> same_structure w' w'' \<Longrightarrow> same_structure w w''"
  by (simp add: same_structure_def)

lemma same_graph_refl [simp]: "same_graph w w"
  by (simp add: same_graph_def)

lemma same_graph_trans: "same_graph w w' \<Longrightarrow> same_graph w' w'' \<Longrightarrow> same_graph w w''"
  by (auto simp: same_graph_def intro: same_structure_trans)

lemma same_upd_inlet: "(\<And>p. fixed_port (f p) = fixed_port p) \<Longrightarrow> same_graph w (upd_inlet i f w)"
  by (simp add: same_graph_def same_structure_def upd_defs graph_part_def ran_nodes_def fun_eq_iff)

lemma same_upd_outlet: "(\<And>p. fixed_port (f p) = fixed_port p) \<Longrightarrow> same_graph w (upd_outlet i f w)"
  by (simp add: same_graph_def same_structure_def upd_defs graph_part_def ran_nodes_def fun_eq_iff)

lemma same_upd_edge: "fixed_edge (f (edge_at w e)) = fixed_edge (edge_at w e) \<Longrightarrow> same_graph w (upd_edge e f w)"
  by (simp add: same_graph_def same_structure_def upd_defs graph_part_def ran_nodes_def fun_eq_iff)

lemma same_upd_node:
  "fixed_node (f (node_at w n)) = fixed_node (node_at w n) \<Longrightarrow> executed (f (node_at w n)) = executed (node_at w n) \<Longrightarrow>
    same_graph w (upd_node n f w)"
  by (simp add: same_graph_def same_structure_def upd_defs graph_part_def ran_nodes_def fun_eq_iff)

lemma same_fold: "(\<And>x w. same_graph w (f x w)) \<Longrightarrow> same_graph w (fold f xs w)"
  by (induction xs arbitrary: w) (auto intro: same_graph_trans)

lemma same_fold_opt: "(\<And>x w w'. f x w = Some w' \<Longrightarrow> same_graph w w') \<Longrightarrow> fold_opt f xs w = Some w' \<Longrightarrow> same_graph w w'"
proof (induction xs arbitrary: w)
  case (Cons x xs)
  then obtain w1 where w1: "f x w = Some w1" "fold_opt f xs w1 = Some w'" by (auto simp: bind_eq_Some_conv)
  have "same_graph w1 w'" by (rule Cons.IH[OF _ w1(2)]) (rule Cons.prems(1))
  then show ?case by (rule same_graph_trans[OF Cons.prems(1)[OF w1(1)]])
qed simp

lemma fixed_set_values [simp]: "fixed_port (set_values vp p) = fixed_port p"
  by (simp add: fixed_port_def set_values_def)

lemma fixed_clear_data [simp]: "fixed_port (clear_data p) = fixed_port p"
  by (simp add: clear_data_def)

lemma same_on_inlet [frames]: "on_inlet i f w = Some w' \<Longrightarrow> same_graph w w'"
  by (auto simp: on_inlet_def intro: same_upd_inlet split: if_splits)

lemma same_add_global_values [frames]: "add_global_values env p vs i w = Some w' \<Longrightarrow> same_graph w w'"
  by (auto simp: add_global_values_def dest: frames intro: same_fold_opt[OF same_on_inlet] split: if_splits)

lemma same_copy_from_global [frames]: "copy_from_global env p i w = Some w' \<Longrightarrow> same_graph w w'"
  by (auto simp: copy_from_global_def dest: frames split: if_splits option.splits)

lemma same_find_and_copy [frames]: "find_and_copy env p i w = Some w' \<Longrightarrow> same_graph w w'"
  by (auto simp: find_and_copy_def dest: frames split: if_splits)

lemma same_copy_from_global_node [frames]: "copy_from_global_node env n i w = Some w' \<Longrightarrow> same_graph w w'"
  by (auto simp: copy_from_global_node_def dest: frames split: if_splits)

lemma same_pull_from_parameter [frames]: "pull_from_parameter env i w = Some w' \<Longrightarrow> same_graph w w'"
  unfolding pull_from_parameter_def
  by (erule same_fold_opt[rotated]) (auto dest: frames split: if_splits reached.splits)

lemma same_copy_outlet [frames]: "copy_outlet env j i w = Some w' \<Longrightarrow> same_graph w w'"
  by (auto simp: copy_outlet_def dest: frames split: if_splits)

lemma same_copy_line:
  assumes "copy_line env moved buffer pos e i w = Some w'" "delayed (con (edge_at w e)) \<longleftrightarrow> delayed (moved (Suc pos))"
  shows "same_graph w w'"
proof (cases "line_kind buffer = Some (which (inlet_at w i)) \<and> pos < data_size buffer")
  case True
  then obtain w1 where w1: "on_inlet i (\<lambda>vp. Some (fold (add_local_value env) (line_values buffer pos) vp)) w = Some w1"
      "w' = upd_edge e (\<lambda>x. x\<lparr>con := moved (Suc pos)\<rparr>) w1"
    using assms(1) by (auto simp: copy_line_def bind_eq_Some_conv)
  have "same_graph w w1" by (rule same_on_inlet[OF w1(1)])
  moreover from this have "fixed_edge (edge_at w1 e) = fixed_edge (edge_at w e)" by (simp add: same_graph_def same_structure_def)
  then have "same_graph w1 w'" unfolding w1(2) using assms(2) by (intro same_upd_edge) (simp add: fixed_edge_def)
  ultimately show ?thesis by (rule same_graph_trans)
qed (use assms(1) in \<open>auto simp: copy_line_def\<close>)

lemma same_init_source [frames]: "init_source env i e w = Some w' \<Longrightarrow> same_graph w w'"
  by (auto simp: init_source_def dest: frames intro: same_copy_line split: connection.splits if_splits)

lemma same_init_inlet [frames]: "init_inlet env i w = Some w' \<Longrightarrow> same_graph w w'"
  by (auto simp: init_inlet_def Let_def bind_eq_Some_conv intro: same_graph_trans same_pull_from_parameter
      same_fold_opt[OF same_init_source] split: if_splits)

lemma same_init_node [frames]: "init_node env n w = Some w' \<Longrightarrow> same_graph w w'"
  unfolding init_node_def
  by (rule same_graph_trans[OF same_fold[where f = "\<lambda>j. upd_outlet j clear_data"] same_fold_opt[OF same_init_inlet]])
    (auto intro: same_upd_outlet)

lemma same_extension: "same_graph w (w\<lparr>x_value_state := vs, x_msg_index := k\<rparr>)" "same_graph w (w\<lparr>x_params := ps\<rparr>)"
  by (simp_all add: same_graph_def same_structure_def graph_part_def ran_nodes_def fun_eq_iff)

lemma same_insert_values [frames]: "insert_values env p vp w = Some w' \<Longrightarrow> same_graph w w'"
  by (auto simp: insert_values_def intro: same_extension)

lemma same_push_to: "same_graph w (push_to env p v w)"
  by (auto simp: push_to_def intro: same_extension split: sum.splits)

lemma same_apply_map: "same_graph w (apply_map env dest v w)" "same_graph w (apply_entries env dest m w)"
proof (induction env dest v w and env dest m w rule: apply_map_apply_entries.induct[case_names map v1 v2 v3 v4 v5 v6 v7 v8 v9 v10 none entry])
  case (entry env dest k v m w)
  have "same_graph w (case map_of (ee_children env dest) k of
       None \<Rightarrow> w
     | Some cld \<Rightarrow>
         if ee_children env cld \<noteq> [] then apply_map env cld v w
         else (case (ee_parameter env cld, v) of
                 (None, _) \<Rightarrow> w
               | (Some p, VMap m') \<Rightarrow> w
               | (Some p, _) \<Rightarrow> push_to env p v w))"
    using entry(1) by (auto simp: same_push_to split: option.splits "value_t.splits" if_splits)
  then show ?case using entry(2) by (auto intro: same_graph_trans)
qed auto

lemma same_pushes: "same_graph w (fold (\<lambda>x. push_to env p (t_value x)) xs w)" "same_graph w (fold (\<lambda>x. apply_map env n (t_value x)) xs w)"
  by (rule same_fold, rule same_push_to) (rule same_fold, rule same_apply_map)

lemma same_outlet_write [frames]: "outlet_write env j w = Some w' \<Longrightarrow> same_graph w w'"
proof -
  assume *: "outlet_write env j w = Some w'"
  show ?thesis
  proof (cases "which (outlet_at w j) = Value_port")
    case True
    note run = *[unfolded outlet_write_def, simplified True, simplified]
    show ?thesis
      using run
      by (rule same_fold_opt[rotated])
        (auto simp: Let_def intro: same_insert_values same_pushes split: if_splits reached.splits)
  qed (use * in \<open>simp add: outlet_write_def\<close>)
qed

lemma delayed_cases: "c = Delayed_glutton buffer pos \<or> c = Delayed_strict buffer pos \<Longrightarrow> delayed c"
  by auto

lemma same_env_writer: "same_graph w (fst (env_writer j e (w, b)))"
  by (auto simp: env_writer_def fixed_edge_def intro!: same_upd_edge split: connection.splits)

lemma same_env_writers: "same_graph w (fst (fold (env_writer j) es (w, b)))"
proof (induction es arbitrary: w b)
  case (Cons e es)
  obtain w1 b1 where w1: "env_writer j e (w, b) = (w1, b1)" by (meson surj_pair)
  then have "same_graph w w1" using same_env_writer[of w j e b] by simp
  then show ?case using same_graph_trans[OF _ Cons.IH[of w1 b1]] w1 by simp
qed simp

lemma same_teardown_outlet [frames]: "teardown_outlet env j w = Some w' \<Longrightarrow> same_graph w w'"
proof -
  assume *: "teardown_outlet env j w = Some w'"
  obtain w1 b where w1: "fold (env_writer j) (cables (outlet_at w j)) (w, cables (outlet_at w j) = []) = (w1, b)" by (meson surj_pair)
  then have "same_graph w w1" using same_env_writers[of w j "cables (outlet_at w j)" "cables (outlet_at w j) = []"] by simp
  then show ?thesis
    using * w1 by (cases b) (auto simp: teardown_outlet_def Let_def intro: same_graph_trans dest: same_outlet_write)
qed

lemma same_teardown_node [frames]: "teardown_node env n w = Some w' \<Longrightarrow> same_graph w w'"
  by (auto simp: teardown_node_def bind_eq_Some_conv
      intro: same_graph_trans[OF same_fold_opt[OF same_teardown_outlet] same_fold[OF same_upd_inlet]])

section \<open>Running one node\<close>

text \<open>The code of the nodes may touch the data in ports, not the graph.\<close>

fun left_with :: "'d run_end \<Rightarrow> 'd exec_state \<Rightarrow> bool" where
  "left_with Terminated w = False"
| "left_with (Threw w') w = (w = w')"
| "left_with (Completed w') w = (w = w')"

definition user_ok :: "'d user_code \<Rightarrow> bool" where
  "user_ok uc \<longleftrightarrow> (\<forall>n w w'. left_with (begin_execution uc n w) w' \<longrightarrow> same_graph w w')
    \<and> (\<forall>n t w w'. left_with (run_node uc n t w) w' \<longrightarrow> same_graph w w')"

text \<open>Code whose calls do not throw, as those of \<open>noexcept\<close> functions.\<close>

definition never_throws :: "'d user_code \<Rightarrow> bool" where
  "never_throws uc \<longleftrightarrow> (\<forall>n w w'. begin_execution uc n w \<noteq> Threw w') \<and> (\<forall>n t w w'. run_node uc n t w \<noteq> Threw w')"

lemma and_then_completed [simp]: "and_then r f = Completed w' \<longleftrightarrow> (\<exists>w. r = Completed w \<and> f w = Completed w')"
  by (cases r) simp_all

lemma and_then_threw [simp]: "and_then r f = Threw w' \<longleftrightarrow> r = Threw w' \<or> (\<exists>w. r = Completed w \<and> f w = Threw w')"
  by (cases r) simp_all

lemma port_loop_ends [simp]: "port_loop r = Completed w \<longleftrightarrow> r = Some w" "port_loop r \<noteq> Threw w"
  by (simp_all add: port_loop_def split: option.split)

lemma same_process_time: "same_graph w (process_time fl n t w)"
  by (simp add: process_time_def Let_def same_graph_def same_structure_def graph_part_def ran_nodes_def fun_eq_iff)

lemma user_ok_ends:
  assumes "user_ok uc"
  shows "begin_execution uc n w = Completed w' \<Longrightarrow> same_graph w w'" "begin_execution uc n w = Threw w' \<Longrightarrow> same_graph w w'"
    "run_node uc n t w = Completed w' \<Longrightarrow> same_graph w w'" "run_node uc n t w = Threw w' \<Longrightarrow> same_graph w w'"
  using assms unfolding user_ok_def by (metis left_with.simps)+

lemma same_run_requests:
  assumes "user_ok uc"
  shows "run_requests fl uc n ts w = Completed w' \<or> run_requests fl uc n ts w = Threw w' \<Longrightarrow> same_graph w w'"
proof (induction ts arbitrary: w)
  case (Cons t ts)
  note ends = user_ok_ends(3,4)[OF assms]
  from Cons.prems consider "run_node uc n t w = Threw w'"
    | w1 where "run_node uc n t w = Completed w1"
        "run_requests fl uc n ts (process_time fl n t w1) = Completed w' \<or> run_requests fl uc n ts (process_time fl n t w1) = Threw w'"
    by auto
  then show ?case
  proof cases
    case 2
    show ?thesis by (rule same_graph_trans[OF ends(1)[OF 2(1)] same_graph_trans[OF same_process_time Cons.IH[OF 2(2)]]])
  qed (rule ends(2))
qed simp

lemma same_mark: "same_graph w (upd_node n mark_discontinuities w)"
  by (rule same_upd_node) (auto simp: mark_discontinuities_def fixed_node_def enabled_def split: list.splits)

definition node_ran :: "nat \<Rightarrow> 'd exec_state \<Rightarrow> 'd exec_state \<Rightarrow> bool" where
  "node_ran n w w' \<longleftrightarrow> same_structure w w' \<and> ran_nodes w' = (ran_nodes w)(n := True)"

lemma exec_node_prefix:
  assumes "user_ok uc" "init_node env n w = Some w1" "begin_execution uc n w1 = Completed w2"
  shows "same_graph w (upd_node n mark_discontinuities w2)"
  by (meson assms same_graph_trans same_init_node same_mark user_ok_ends(1))

lemma exec_node_ran:
  assumes "user_ok uc" "exec_node fl env uc n w = Completed w'"
  shows "node_ran n w w'"
proof -
  obtain w1 w2 w3 where first: "init_node env n w = Some w1" "begin_execution uc n w1 = Completed w2"
    and run: "run_requests fl uc n (requested_tokens (node_at (upd_node n mark_discontinuities w2) n)) (upd_node n mark_discontinuities w2) = Completed w3"
    and last: "teardown_node env n (upd_node n (\<lambda>x. x\<lparr>executed := True\<rparr>) w3) = Some w'"
    using assms(2) by (auto simp: exec_node_def Let_def)
  have "same_graph w w3"
    using same_graph_trans[OF exec_node_prefix[OF assms(1) first] same_run_requests[OF assms(1) disjI1[OF run]]] .
  moreover have "same_structure w3 (upd_node n (\<lambda>x. x\<lparr>executed := True\<rparr>) w3)"
    by (simp add: same_structure_def upd_node_def graph_part_def fixed_node_def enabled_def)
  moreover have "ran_nodes (upd_node n (\<lambda>x. x\<lparr>executed := True\<rparr>) w3) = (ran_nodes w3)(n := True)"
    by (simp add: ran_nodes_def upd_node_def fun_eq_iff)
  moreover note same_teardown_node[OF last]
  ultimately show ?thesis unfolding node_ran_def same_graph_def by (metis same_structure_trans)
qed

text \<open>A node that throws has not run, and leaves the graph alone.\<close>

lemma exec_node_threw:
  assumes "user_ok uc" "exec_node fl env uc n w = Threw w'"
  shows "same_graph w w'" "\<not> never_throws uc"
proof -
  from assms(2) consider w1 where "init_node env n w = Some w1" "begin_execution uc n w1 = Threw w'"
    | w1 w2 where "init_node env n w = Some w1" "begin_execution uc n w1 = Completed w2"
        "run_requests fl uc n (requested_tokens (node_at (upd_node n mark_discontinuities w2) n)) (upd_node n mark_discontinuities w2) = Threw w'"
    by (auto simp: exec_node_def Let_def)
  note cases = this
  show "same_graph w w'"
    using cases
  proof cases
    case 1
    then show ?thesis using same_graph_trans same_init_node user_ok_ends(2)[OF assms(1)] by blast
  next
    case 2
    then show ?thesis using same_graph_trans exec_node_prefix[OF assms(1)] same_run_requests[OF assms(1)] by blast
  qed
  have "\<exists>t w. run_node uc n t w = Threw w'" if "run_requests fl uc n ts w = Threw w'" for ts w
    using that by (induction ts arbitrary: w) auto
  then show "\<not> never_throws uc" using cases by (metis never_throws_def)
qed

section \<open>Strict connections\<close>

text \<open>Whether a node must stop when the nodes that run are those of a set.\<close>

definition must_stop :: "'d exec_state \<Rightarrow> nat set \<Rightarrow> nat \<Rightarrow> bool" where
  "must_stop w running n \<longleftrightarrow> muted (node_at w n)
    \<or> (\<exists>i \<in> set (all_inlets w n). \<exists>e \<in> set (cables (inlet_at w i)). case con (edge_at w e) of
          Immediate_strict s \<Rightarrow> needs_side Outbound s \<and> n \<in> running \<and> the (out_node (edge_at w e)) \<notin> running
        | Delayed_strict buffer pos \<Rightarrow> data_size buffer = 0 \<or> pos \<ge> data_size buffer
        | _ \<Rightarrow> False)
    \<or> (\<exists>j \<in> set (all_outlets w n). \<exists>e \<in> set (cables (outlet_at w j)). case con (edge_at w e) of
          Immediate_strict s \<Rightarrow> needs_side Inbound s \<and> n \<in> running \<and> the (in_node (edge_at w e)) \<notin> running
        | _ \<Rightarrow> False)"

lemma test_inlet_set: "test_disable_inlet w n e \<longleftrightarrow> (case con (edge_at w e) of
    Immediate_strict s \<Rightarrow> needs_side Outbound s \<and> n \<in> {m. enabled (node_at w m)} \<and> the (out_node (edge_at w e)) \<notin> {m. enabled (node_at w m)}
  | Delayed_strict buffer pos \<Rightarrow> data_size buffer = 0 \<or> pos \<ge> data_size buffer
  | _ \<Rightarrow> False)"
  by (simp add: test_disable_inlet_def source_enabled_def split: connection.split)

lemma test_outlet_set: "test_disable_outlet w n e \<longleftrightarrow> (case con (edge_at w e) of
    Immediate_strict s \<Rightarrow> needs_side Inbound s \<and> n \<in> {m. enabled (node_at w m)} \<and> the (in_node (edge_at w e)) \<notin> {m. enabled (node_at w m)}
  | _ \<Rightarrow> False)"
  by (simp add: test_disable_outlet_def sink_enabled_def split: connection.split)

lemma must_be_disabled_iff: "must_be_disabled w n \<longleftrightarrow> must_stop w {m. enabled (node_at w m)} n"
  unfolding must_be_disabled_def must_stop_def list_ex_iff test_inlet_set test_outlet_set ..

lemma must_stop_mono:
  assumes "must_stop w running n" "running' \<subseteq> running" "n \<in> running'"
  shows "must_stop w running' n"
  using assms unfolding must_stop_def by (fastforce split: connection.splits)

lemma disable_nodes:
  "node_at (fold disable_node ns w) m = (if m \<in> set ns then (node_at w m)\<lparr>requested_tokens := []\<rparr> else node_at w m)"
  "inlet_at (fold disable_node ns w) = inlet_at w" "outlet_at (fold disable_node ns w) = outlet_at w"
  "edge_at (fold disable_node ns w) = edge_at w"
  by (induction ns arbitrary: w) (simp_all add: disable_node_def upd_node_def)

lemma must_stop_disable: "must_stop (fold disable_node ns w) running n = must_stop w running n"
proof -
  have "all_inlets (fold disable_node ns w) n = all_inlets w n" "all_outlets (fold disable_node ns w) n = all_outlets w n"
    "muted (node_at (fold disable_node ns w) n) = muted (node_at w n)"
    by (simp_all add: all_inlets_def disable_nodes)
  then show ?thesis unfolding must_stop_def disable_nodes(2-4) by simp
qed

text \<open>
  Disabling ends, and leaves enabled the largest set of nodes in which none is muted, reads a delay line that has nothing
  for it, or misses the node at the other end of a connection that requires it.
\<close>

lemma disable_strict_result:
  "\<forall>n. enabled (node_at w n) \<longleftrightarrow> n \<in> set ns \<Longrightarrow> disable_strict_nodes_rec w ns = (w', ns') \<Longrightarrow>
    (\<forall>n. enabled (node_at w' n) \<longleftrightarrow> n \<in> set ns') \<and> set ns' \<subseteq> set ns \<and> (\<forall>n \<in> set ns'. \<not> must_stop w (set ns') n)
    \<and> (\<forall>running \<subseteq> set ns. (\<forall>n \<in> running. \<not> must_stop w running n) \<longrightarrow> running \<subseteq> set ns')"
proof (induction w ns rule: disable_strict_nodes_rec.induct)
  case (1 w ns)
  define stopped where "stopped = filter (must_be_disabled w) ns"
  have stop: "must_be_disabled w n \<longleftrightarrow> must_stop w (set ns) n" for n
    using "1.prems"(1) by (simp add: must_be_disabled_iff)
  show ?case
  proof (cases "stopped = []")
    case True
    then have "w' = w" "ns' = ns" using "1.prems"(2) by (simp_all add: disable_strict_nodes_rec.simps[of w] stopped_def)
    moreover have "\<forall>n \<in> set ns. \<not> must_stop w (set ns) n" using True stop by (simp add: stopped_def filter_empty_conv)
    ultimately show ?thesis using "1.prems"(1) by simp
  next
    case False
    let ?w = "fold disable_node stopped w" and ?ns = "filter (\<lambda>n. n \<notin> set stopped) ns"
    have rec: "disable_strict_nodes_rec ?w ?ns = (w', ns')"
      using "1.prems"(2) False by (simp add: disable_strict_nodes_rec.simps[of w] stopped_def Let_def)
    have "\<forall>n. enabled (node_at ?w n) \<longleftrightarrow> n \<in> set ?ns"
      using "1.prems"(1) by (auto simp: disable_nodes enabled_def)
    from "1.IH"[OF stopped_def False this rec]
    have IH: "\<forall>n. enabled (node_at w' n) \<longleftrightarrow> n \<in> set ns'" "set ns' \<subseteq> set ?ns" "\<forall>n \<in> set ns'. \<not> must_stop w (set ns') n"
      "\<forall>running \<subseteq> set ?ns. (\<forall>n \<in> running. \<not> must_stop w running n) \<longrightarrow> running \<subseteq> set ns'"
      unfolding must_stop_disable by blast+
    have "running \<subseteq> set ?ns" if "running \<subseteq> set ns" "\<forall>n \<in> running. \<not> must_stop w running n" for running
      using that stop must_stop_mono[of w "set ns" _ running] by (fastforce simp: stopped_def)
    then show ?thesis using IH by auto
  qed
qed

definition running_nodes :: "'d exec_state \<Rightarrow> nat set" where
  "running_nodes w = \<Union> {running. running \<subseteq> {n. enabled (node_at w n)} \<and> (\<forall>n \<in> running. \<not> must_stop w running n)}"

lemma disable_strict_running:
  assumes "\<forall>n. enabled (node_at w n) \<longleftrightarrow> n \<in> set ns" "disable_strict_nodes_rec w ns = (w', ns')"
  shows "{n. enabled (node_at w' n)} = running_nodes w" "set ns' = running_nodes w"
proof -
  from disable_strict_result[OF assms]
  have result: "\<forall>n. enabled (node_at w' n) \<longleftrightarrow> n \<in> set ns'" "set ns' \<subseteq> set ns" "\<forall>n \<in> set ns'. \<not> must_stop w (set ns') n"
    "\<And>running. running \<subseteq> set ns \<Longrightarrow> \<forall>n \<in> running. \<not> must_stop w running n \<Longrightarrow> running \<subseteq> set ns'"
    by auto
  have "{n. enabled (node_at w n)} = set ns" using assms(1) by simp
  then have "running_nodes w = \<Union> {running. running \<subseteq> set ns \<and> (\<forall>n \<in> running. \<not> must_stop w running n)}"
    by (simp add: running_nodes_def)
  then show set: "set ns' = running_nodes w" using result(2-4) by blast
  show "{n. enabled (node_at w' n)} = running_nodes w" using result(1) set by simp
qed

lemma disable_strict_same:
  "disable_strict_nodes_rec w ns = (w', ns') \<Longrightarrow>
    \<exists>stopped. w' = fold disable_node stopped w \<and> (\<exists>P. ns' = filter P ns)"
proof (induction w ns rule: disable_strict_nodes_rec.induct)
  case (1 w ns)
  define stopped where "stopped = filter (must_be_disabled w) ns"
  show ?case
  proof (cases "stopped = []")
    case True
    then have "w' = fold disable_node [] w" "ns' = filter (\<lambda>n. True) ns"
      using "1.prems" by (simp_all add: disable_strict_nodes_rec.simps[of w] stopped_def)
    then show ?thesis by blast
  next
    case False
    let ?w = "fold disable_node stopped w" and ?ns = "filter (\<lambda>n. n \<notin> set stopped) ns"
    have rec: "disable_strict_nodes_rec ?w ?ns = (w', ns')"
      using "1.prems" False by (simp add: disable_strict_nodes_rec.simps[of w] stopped_def Let_def)
    obtain more P where "w' = fold disable_node more ?w" "ns' = filter P ?ns"
      using "1.IH"[OF stopped_def False rec] by blast
    then have "w' = fold disable_node (stopped @ more) w" "ns' = filter (\<lambda>n. n \<notin> set stopped \<and> P n) ns"
      by (simp_all add: conj_commute)
    then show ?thesis by blast
  qed
qed

section \<open>The order of execution\<close>

definition waits_for :: "'d exec_state \<Rightarrow> nat \<Rightarrow> nat set" where
  "waits_for w n = {m. \<exists>i \<in> set (all_inlets w n). \<exists>e \<in> set (cables (inlet_at w i)).
    \<not> delayed (con (edge_at w e)) \<and> m = the (out_node (edge_at w e))}"

lemma can_execute_iff: "can_execute w n \<longleftrightarrow> (\<forall>m \<in> waits_for w n. ran_nodes w m \<or> \<not> enabled (node_at w m))"
  unfolding can_execute_def waits_for_def list_all_iff ran_nodes_def source_enabled_def by fastforce

lemma same_structure_parts:
  assumes "same_structure w w'"
  shows "all_inlets w' n = all_inlets w n" "cables (inlet_at w' i) = cables (inlet_at w i)"
    "out_node (edge_at w' e) = out_node (edge_at w e)" "delayed (con (edge_at w' e)) = delayed (con (edge_at w e))"
    "enabled (node_at w' n) = enabled (node_at w n)" "vertex_nodes w' = vertex_nodes w"
proof -
  have nodes: "fixed_node (node_at w' n) = fixed_node (node_at w n)" and ins: "\<And>i. fixed_port (inlet_at w' i) = fixed_port (inlet_at w i)"
    and outs: "\<And>j. fixed_port (outlet_at w' j) = fixed_port (outlet_at w j)" and edges: "fixed_edge (edge_at w' e) = fixed_edge (edge_at w e)"
    and rest: "graph_part w' = graph_part w"
    using assms by (simp_all add: same_structure_def)
  show "enabled (node_at w' n) = enabled (node_at w n)" using nodes by (simp add: fixed_node_def)
  show "cables (inlet_at w' i) = cables (inlet_at w i)" using ins by (simp add: fixed_port_def)
  show "out_node (edge_at w' e) = out_node (edge_at w e)" "delayed (con (edge_at w' e)) = delayed (con (edge_at w e))"
    using edges by (simp_all add: fixed_edge_def)
  have "child_inlets (inlet_at w' i) = child_inlets (inlet_at w i)" "child_inlets (outlet_at w' i) = child_inlets (outlet_at w i)" for i
    using ins[of i] outs[of i] by (simp_all add: fixed_port_def)
  then show "all_inlets w' n = all_inlets w n" using nodes by (simp add: all_inlets_def fixed_node_def)
  show "vertex_nodes w' = vertex_nodes w" using rest by (simp add: graph_part_def)
qed

lemma waits_for_same: "same_structure w w' \<Longrightarrow> waits_for w' n = waits_for w n"
  by (simp add: waits_for_def same_structure_parts)

lemma exec_nodes_append: "exec_nodes run (xs @ ys) w = and_then (exec_nodes run xs w) (exec_nodes run ys)"
proof (induction xs arbitrary: w)
  case (Cons n xs)
  then show ?case by (cases "run n w") simp_all
qed simp

text \<open>What has run after the first nodes of the order, when no node has thrown.\<close>

lemma exec_nodes_ran:
  assumes "user_ok uc"
  shows "exec_nodes (exec_node fl env uc) ns w = Completed w' \<Longrightarrow>
    same_structure w w' \<and> (\<forall>n. ran_nodes w' n \<longleftrightarrow> ran_nodes w n \<or> n \<in> set ns \<and> enabled (node_at w n))"
proof (induction ns arbitrary: w)
  case (Cons n ns)
  obtain w1 where w1: "(if enabled (node_at w n) then exec_node fl env uc n w else Completed w) = Completed w1"
      "exec_nodes (exec_node fl env uc) ns w1 = Completed w'"
    using Cons.prems by (auto split: if_splits)
  have first: "same_structure w w1 \<and> (\<forall>m. ran_nodes w1 m \<longleftrightarrow> ran_nodes w m \<or> m = n \<and> enabled (node_at w n))"
    using w1(1) exec_node_ran[OF assms, of fl env n w w1] by (auto simp: node_ran_def split: if_splits)
  then have same: "enabled (node_at w1 m) = enabled (node_at w m)" for m using same_structure_parts(5) by blast
  note rest = Cons.IH[OF w1(2)]
  then have "same_structure w w'" using first same_structure_trans by blast
  then show ?case using rest first by (auto simp: same)
qed simp

text \<open>When one throws, those before it have run.\<close>

lemma exec_nodes_threw:
  "exec_nodes run ns w = Threw w' \<Longrightarrow>
    \<exists>xs n ys w1. ns = xs @ n # ys \<and> exec_nodes run xs w = Completed w1 \<and> enabled (node_at w1 n) \<and> run n w1 = Threw w'"
proof (induction ns rule: rev_induct)
  case (snoc n ns)
  show ?case
  proof (cases "exec_nodes run ns w")
    case (Threw w1)
    then have "w1 = w'" using snoc.prems by (simp add: exec_nodes_append)
    with snoc.IH Threw obtain xs k ys v where "ns = xs @ k # ys" "exec_nodes run xs w = Completed v" "enabled (node_at v k)" "run k v = Threw w'"
      by blast
    then have "ns @ [n] = xs @ k # ys @ [n]" "exec_nodes run xs w = Completed v" "enabled (node_at v k)" "run k v = Threw w'" by simp_all
    then show ?thesis by blast
  next
    case (Completed w1)
    then have "enabled (node_at w1 n)" "run n w1 = Threw w'" using snoc.prems by (auto simp: exec_nodes_append split: if_splits)
    then show ?thesis using Completed by blast
  qed (use snoc.prems in \<open>simp add: exec_nodes_append\<close>)
qed simp

lemma static_order_respected:
  assumes "user_ok uc" "\<forall>m \<in> waits_for w n. enabled (node_at w m) \<longrightarrow> runs_before order m n"
    and order: "order = xs @ n # ys" "distinct order" and "exec_nodes (exec_node fl env uc) xs w = Completed w1"
  shows "can_execute w1 n"
  unfolding can_execute_iff
proof
  fix m assume m: "m \<in> waits_for w1 n"
  have ran: "same_structure w w1" "\<forall>m. ran_nodes w1 m \<longleftrightarrow> ran_nodes w m \<or> m \<in> set xs \<and> enabled (node_at w m)"
    using exec_nodes_ran[OF assms(1,5)] by blast+
  have "m \<in> set xs" if "enabled (node_at w m)"
  proof -
    have "runs_before order m n" using assms(2) m that by (simp add: waits_for_same[OF ran(1)])
    then obtain us vs ws where *: "xs @ n # ys = us @ m # vs @ n # ws" using order(1) by (auto simp: runs_before_def)
    have "n \<notin> set xs" "n \<notin> set ys" using order by auto
    moreover have "xs @ n # ys = (us @ m # vs) @ n # ws" using * by simp
    ultimately have "xs = us @ m # vs"
      using order by (metis append_Cons_eq_iff distinct.simps(2) distinct_append not_distinct_conv_prefix)
    then show ?thesis by simp
  qed
  then show "ran_nodes w1 m \<or> \<not> enabled (node_at w1 m)" using ran by (auto simp: same_structure_parts(5)[OF ran(1)])
qed

section \<open>The order of the static graph\<close>

text \<open>Every node is in the order once, after the nodes it waits for.\<close>

definition order_ok :: "'d exec_state \<Rightarrow> nat list \<Rightarrow> bool" where
  "order_ok w order \<longleftrightarrow> distinct order \<and> set order = set (vertex_nodes w)
    \<and> (\<forall>n \<in> set order. \<forall>m \<in> waits_for w n. runs_before order m n)"

text \<open>Every cable that leads to an inlet of a node in the graph is an edge of the graph.\<close>

definition cables_ok :: "'d exec_state \<Rightarrow> bool" where
  "cables_ok w \<longleftrightarrow> (\<forall>u < num_vertices w. \<forall>i \<in> set (all_inlets w (vertex_nodes w ! u)). \<forall>e \<in> set (cables (inlet_at w i)).
    \<exists>v < num_vertices w. out_node (edge_at w e) = Some (vertex_nodes w ! v) \<and> (v, e) \<in> set (out_lists w ! u))"

lemma inlets_are_ports: "i \<in> set (all_inlets w n) \<Longrightarrow> \<not> has_no_ports w n"
  by (auto simp: all_inlets_def has_no_ports_def)

lemma waits_for_arc:
  assumes "cables_ok w" "maps_ok w" "u < num_vertices w" "m \<in> waits_for w (vertex_nodes w ! u)"
  shows "\<not> has_no_ports w (vertex_nodes w ! u) \<and>
    (\<exists>v < num_vertices w. m = vertex_nodes w ! v \<and> (u, v) \<in> arcs (num_vertices w) (no_delay_edges (adjacency w)))"
proof -
  obtain i e where ie: "i \<in> set (all_inlets w (vertex_nodes w ! u))" "e \<in> set (cables (inlet_at w i))"
    "\<not> delayed (con (edge_at w e))" "m = the (out_node (edge_at w e))"
    using assms(4) unfolding waits_for_def by blast
  then obtain v where v: "v < num_vertices w" "out_node (edge_at w e) = Some (vertex_nodes w ! v)" "(v, e) \<in> set (out_lists w ! u)"
    using assms(1,3) unfolding cables_ok_def by blast
  have "u < length (out_lists w)" using assms(2,3) by (simp add: maps_ok_def)
  then have "(v, con (edge_at w e)) \<in> set (no_delay_edges (adjacency w) u)"
    using v(3) ie(3) by (force simp: adjacency_def no_delay_edges_def)
  then have "(u, v) \<in> arcs (num_vertices w) (no_delay_edges (adjacency w))"
    using assms(3) by (force simp: arcs_def targets_def)
  then show ?thesis using ie v inlets_are_ports[OF ie(1)] by auto
qed

lemma link_pair_grows_immediate:
  assumes "maps_ok w" "good_pair w p"
  shows "arcs (num_vertices w) (no_delay_edges g) \<subseteq> arcs (num_vertices w) (no_delay_edges (link_pair w devs p g))"
  using assms by (rule link_pair_cases[where devs = devs and g = g]) (auto simp: arcs_add_immediate)

lemma link_pairs_grow_immediate:
  assumes "maps_ok w"
  shows "\<forall>p \<in> set ps. good_pair w p \<Longrightarrow>
    arcs (num_vertices w) (no_delay_edges g) \<subseteq> arcs (num_vertices w) (no_delay_edges (fold (link_pair w devs) ps g))"
proof (induction ps arbitrary: g)
  case (Cons p ps)
  then show ?case using link_pair_grows_immediate[OF assms, of p g devs] by fastforce
qed simp

lemma bfs_order_ok:
  assumes "sortable nad vis w" "cables_ok w" "bfs_update vis capacity w devs = Some (g, order)"
  shows "order_ok w order"
proof -
  note maps = sortable_maps[OF assms(1)]
  have g: "g = linked_graph vis w devs" and "in_order w g order"
    using assms(3) linked_graph_sorted[OF assms(1)] by (auto simp: bfs_update_links[OF assms(1)])
  then have order: "distinct order" "set order = set (vertex_nodes w)"
    "\<And>u v. (u, v) \<in> arcs (num_vertices w) (no_delay_edges g) \<Longrightarrow>
        runs_before order (vertex_nodes w ! v) (vertex_nodes w ! u) \<or> has_no_ports w (vertex_nodes w ! u)"
    unfolding in_order_def by blast+
  have grow: "arcs (num_vertices w) (no_delay_edges (adjacency w)) \<subseteq> arcs (num_vertices w) (no_delay_edges g)"
    unfolding g linked_graph_def by (rule link_pairs_grow_immediate[OF maps pairs_good[OF assms(1)]])
  have "runs_before order m n" if n: "n \<in> set order" and m: "m \<in> waits_for w n" for n m
  proof -
    obtain u where u: "u < num_vertices w" "n = vertex_nodes w ! u" using n order(2) by (auto simp: in_set_conv_nth)
    from waits_for_arc[OF assms(2) maps u(1) m[unfolded u(2)]]
    obtain v where v: "\<not> has_no_ports w n" "m = vertex_nodes w ! v" "(u, v) \<in> arcs (num_vertices w) (no_delay_edges (adjacency w))"
      using u(2) by blast
    show ?thesis using order(3)[OF subsetD[OF grow v(3)]] v(1,2) u(2) by simp
  qed
  then show ?thesis using order by (simp add: order_ok_def)
qed

end
