(* ===== verification/GraphStatic.thy ===== *)
theory GraphStatic
  imports GraphTickProps
begin

text \<open>
  A tick of the static graph, whole: the sort when the graph has changed, the cache of enabled nodes, the strict
  connections, the nodes in order, the end of the tick.
\<close>

section \<open>The cache of enabled nodes\<close>

lemma update_enabled_step:
  assumes "distinct cache"
  shows "distinct (update_enabled w n cache)" "set (update_enabled w n cache) - {n} = set cache - {n}"
    "n \<in> set (update_enabled w n cache) \<longleftrightarrow> enabled (node_at w n)"
  using assms by (auto simp: update_enabled_def distinct_insort set_insort_key)

lemma update_enabled_all:
  "distinct cache \<Longrightarrow> distinct (fold (update_enabled w) ns cache)
    \<and> (\<forall>n. n \<in> set (fold (update_enabled w) ns cache) \<longleftrightarrow> (if n \<in> set ns then enabled (node_at w n) else n \<in> set cache))"
proof (induction ns arbitrary: cache)
  case (Cons k ns)
  note step = update_enabled_step[OF Cons.prems, where w = w and n = k]
  have "n \<in> set (update_enabled w k cache) \<longleftrightarrow> (if n = k then enabled (node_at w n) else n \<in> set cache)" for n
    using step(2) step(3) by (cases "n = k") auto
  then show ?case using Cons.IH[OF step(1)] by auto
qed simp

section \<open>The end of a tick\<close>

lemma finish_node_at:
  "node_at (finish_nodes ns w) m = (if m \<in> set ns then (node_at w m)\<lparr>executed := False, requested_tokens := []\<rparr> else node_at w m)"
  "inlet_at (finish_nodes ns w) = inlet_at w" "outlet_at (finish_nodes ns w) = outlet_at w" "edge_at (finish_nodes ns w) = edge_at w"
  "vertex_nodes (finish_nodes ns w) = vertex_nodes w" "dirty (finish_nodes ns w) = dirty w"
  unfolding finish_nodes_def by (induction ns arbitrary: w) (simp_all add: upd_node_def)

lemma disable_vertices: "vertex_nodes (fold disable_node ns w) = vertex_nodes w" "dirty (fold disable_node ns w) = dirty w"
  by (induction ns arbitrary: w) (simp_all add: disable_node_def upd_node_def)

lemma waits_for_disable: "waits_for (fold disable_node ns w) n = waits_for w n"
proof -
  have "all_inlets (fold disable_node ns w) n = all_inlets w n" by (simp add: all_inlets_def disable_nodes)
  then show ?thesis by (simp add: waits_for_def disable_nodes)
qed

lemma waits_for_finish: "waits_for (finish_nodes ns w) n = waits_for w n"
proof -
  have "all_inlets (finish_nodes ns w) n = all_inlets w n" by (simp add: all_inlets_def finish_node_at)
  then show ?thesis by (simp add: waits_for_def finish_node_at)
qed

lemma order_ok_disable: "order_ok (fold disable_node ns w) order \<longleftrightarrow> order_ok w order"
  by (simp add: order_ok_def waits_for_disable disable_vertices)

lemma order_ok_finish: "order_ok (finish_nodes ns w) order \<longleftrightarrow> order_ok w order"
  by (simp add: order_ok_def waits_for_finish finish_node_at)

lemma order_ok_same: "same_structure w w' \<Longrightarrow> order_ok w' order \<longleftrightarrow> order_ok w order"
  by (simp add: order_ok_def waits_for_same same_structure_parts(6))

section \<open>The executor's assertion\<close>

text \<open>Running a node with the assertion of the executor as a check.\<close>

definition checked_node :: "'d fpu \<Rightarrow> exec_env \<Rightarrow> 'd user_code \<Rightarrow> nat \<Rightarrow> 'd exec_state \<Rightarrow> 'd run_end" where
  "checked_node fl env uc n w = (if can_execute w n then exec_node fl env uc n w else Terminated)"

lemma order_respected:
  assumes "user_ok uc" "order_ok w (xs @ n # ys)" "exec_nodes (exec_node fl env uc) xs w = Completed w1"
  shows "can_execute w1 n"
  by (rule static_order_respected[OF assms(1) _ refl _ assms(3)]) (use assms(2) in \<open>auto simp: order_ok_def\<close>)

lemma exec_nodes_nil: "exec_nodes run [] = Completed"
  by (rule ext) simp

lemma checked_nodes_same:
  assumes "user_ok uc" "order_ok w order"
  shows "order = xs @ ys \<Longrightarrow> exec_nodes (checked_node fl env uc) xs w = exec_nodes (exec_node fl env uc) xs w"
proof (induction xs arbitrary: ys rule: rev_induct)
  case (snoc n xs)
  have "can_execute w1 n" if "exec_nodes (exec_node fl env uc) xs w = Completed w1" for w1
    using order_respected[OF assms(1) _ that, of n ys] assms(2) snoc.prems by simp
  then show ?case
    using snoc.IH[of "n # ys"] snoc.prems
    by (cases "exec_nodes (exec_node fl env uc) xs w") (simp_all add: exec_nodes_append exec_nodes_nil checked_node_def)
qed simp

section \<open>How the nodes of a tick end\<close>

text \<open>
  Either no node throws, and all the nodes that are to run have run; or one does, and exactly those before it have run.
\<close>

definition nodes_ended ::
  "(nat \<Rightarrow> 'd exec_state \<Rightarrow> 'd run_end) \<Rightarrow> nat set \<Rightarrow> nat list \<Rightarrow> 'd exec_state \<Rightarrow> 'd exec_state \<Rightarrow> bool" where
  "nodes_ended run running order w w' \<longleftrightarrow>
    exec_nodes run order w = Completed w' \<and> {n. ran_nodes w' n} = running
    \<or> (\<exists>xs n ys v. order = xs @ n # ys \<and> n \<in> running \<and> exec_nodes run xs w = Completed v \<and> run n v = Threw w'
        \<and> {n. ran_nodes w' n} = running \<inter> set xs)"

lemma static_exec_ended:
  assumes "user_ok uc" "order_ok w order" "\<forall>n. \<not> ran_nodes w n" "{n. enabled (node_at w n)} \<subseteq> set order"
    and "static_exec fl env uc order w = Some w'"
  shows "same_structure w w' \<and> nodes_ended (checked_node fl env uc) {n. enabled (node_at w n)} order w w'
    \<and> (never_throws uc \<longrightarrow> {n. ran_nodes w' n} = {n. enabled (node_at w n)})"
proof (cases "exec_nodes (exec_node fl env uc) order w")
  case (Completed v)
  then have "v = w'" using assms(5) by (simp add: static_exec_def catch_all_def)
  then show ?thesis
    using exec_nodes_ran[OF assms(1) Completed] checked_nodes_same[OF assms(1,2), of order "[]"] Completed assms(3,4)
    unfolding nodes_ended_def by auto
next
  case (Threw v)
  then have "v = w'" using assms(5) by (simp add: static_exec_def catch_all_def)
  then obtain xs n ys w1 where at_n: "order = xs @ n # ys" and before: "exec_nodes (exec_node fl env uc) xs w = Completed w1"
    and n: "enabled (node_at w1 n)" "exec_node fl env uc n w1 = Threw w'"
    using exec_nodes_threw Threw by blast
  note ran = exec_nodes_ran[OF assms(1) before]
  note threw = exec_node_threw[OF assms(1) n(2)]
  have same: "same_structure w w'" using ran threw(1) same_structure_trans unfolding same_graph_def by blast
  have "{n. ran_nodes w' n} = {n. enabled (node_at w n)} \<inter> set xs"
    using ran threw(1) assms(3) unfolding same_graph_def by auto
  moreover have "enabled (node_at w n)" using n(1) ran same_structure_parts(5) by blast
  moreover have "can_execute w1 n" using order_respected[OF assms(1) _ before, of n ys] assms(2) at_n by simp
  moreover have "exec_nodes (checked_node fl env uc) xs w = Completed w1"
    using checked_nodes_same[OF assms(1,2) at_n] before by simp
  ultimately have "nodes_ended (checked_node fl env uc) {n. enabled (node_at w n)} order w w'"
    unfolding nodes_ended_def using at_n n(2) by (auto simp: checked_node_def)
  then show ?thesis using same threw(2) by blast
qed (use assms(5) in \<open>simp add: static_exec_def catch_all_def\<close>)

section \<open>A whole tick\<close>

text \<open>Between ticks no node outside the graph is enabled, and none has run.\<close>

definition quiet :: "'d exec_state \<Rightarrow> bool" where
  "quiet w \<longleftrightarrow> (\<forall>n. (enabled (node_at w n) \<longrightarrow> n \<in> set (vertex_nodes w)) \<and> \<not> executed (node_at w n))"

text \<open>A graph that has changed can be sorted; otherwise its order is right.\<close>

definition static_ok :: "'x \<Rightarrow> (nat list, connection, 'x) visitor \<Rightarrow> 'd exec_state \<Rightarrow> nat list \<Rightarrow> nat list \<Rightarrow> bool" where
  "static_ok nad vis w order cache \<longleftrightarrow> (if dirty w then sortable nad vis w \<and> cables_ok w
    else order_ok w order \<and> distinct cache \<and> set cache \<subseteq> set order)"

definition bfs_refresh :: "(nat list, connection, 'x) visitor \<Rightarrow> nat \<Rightarrow> 'd exec_state \<Rightarrow> nat list option" where
  "bfs_refresh vis capacity w = map_option snd (bfs_update vis capacity w (x_devices w))"

lemma order_ok_dirty: "order_ok (w\<lparr>dirty := b\<rparr>) order \<longleftrightarrow> order_ok w order"
  by (simp add: order_ok_def waits_for_def all_inlets_def)

lemma running_nodes_dirty: "running_nodes (w\<lparr>dirty := b\<rparr>) = running_nodes w"
proof -
  have "all_inlets (w\<lparr>dirty := b\<rparr>) n = all_inlets w n" for n by (simp add: all_inlets_def)
  moreover have "node_at (w\<lparr>dirty := b\<rparr>) = node_at w" "edge_at (w\<lparr>dirty := b\<rparr>) = edge_at w"
    "inlet_at (w\<lparr>dirty := b\<rparr>) = inlet_at w" "outlet_at (w\<lparr>dirty := b\<rparr>) = outlet_at w" by simp_all
  ultimately have "must_stop (w\<lparr>dirty := b\<rparr>) R n = must_stop w R n" for R n unfolding must_stop_def by presburger
  then show ?thesis by (simp add: running_nodes_def)
qed

lemma clean_tick:
  assumes "user_ok uc" "quiet w" "order_ok w order" "distinct cache" "set cache \<subseteq> set order"
    and active: "disable_strict_nodes_rec w (fold (update_enabled w) order cache) = (w1, active)"
  shows "set active = running_nodes w" "distinct active" "set active \<subseteq> set order"
    "static_exec fl env uc order w1 = Some w2 \<Longrightarrow> nodes_ended (checked_node fl env uc) (running_nodes w) order w1 w2
      \<and> (never_throws uc \<longrightarrow> {n. ran_nodes w2 n} = running_nodes w) \<and> {n. ran_nodes w2 n} \<subseteq> running_nodes w \<and> order_ok w2 order
      \<and> vertex_nodes w2 = vertex_nodes w \<and> dirty w2 = dirty w \<and> {n. enabled (node_at w2 n)} = running_nodes w"
proof -
  note all = update_enabled_all[OF assms(4), of w order]
  have nodes: "set order = set (vertex_nodes w)" using assms(3) by (simp add: order_ok_def)
  then have cache: "\<forall>n. enabled (node_at w n) \<longleftrightarrow> n \<in> set (fold (update_enabled w) order cache)"
    using all assms(2,5) unfolding quiet_def by auto
  note running = disable_strict_running[OF cache active]
  show "set active = running_nodes w" by (rule running(2))
  obtain stopped P where w1: "w1 = fold disable_node stopped w" and P: "active = filter P (fold (update_enabled w) order cache)"
    using disable_strict_same[OF active] by blast
  show "distinct active" using all P by simp
  show sub: "set active \<subseteq> set order" using P cache nodes assms(2) unfolding quiet_def by auto
  have ok: "order_ok w1 order" using assms(3) unfolding w1 order_ok_disable .
  have none: "\<forall>n. \<not> ran_nodes w1 n" using assms(2) by (simp add: quiet_def ran_nodes_def w1 disable_nodes)
  have on: "{n. enabled (node_at w1 n)} \<subseteq> set order" using sub running by simp
  assume "static_exec fl env uc order w1 = Some w2"
  note ended = static_exec_ended[OF assms(1) ok none on this, unfolded running(1)]
  from ended have same: "same_structure w1 w2" by blast
  have "{n. ran_nodes w2 n} \<subseteq> running_nodes w" using ended unfolding nodes_ended_def by blast
  moreover have "order_ok w2 order" using ok by (simp add: order_ok_same[OF same])
  moreover have "vertex_nodes w2 = vertex_nodes w" "dirty w2 = dirty w"
    using same by (simp_all add: same_structure_def graph_part_def w1 disable_vertices)
  moreover have "{n. enabled (node_at w2 n)} = running_nodes w" using running(1) same_structure_parts(5)[OF same] by simp
  ultimately show "nodes_ended (checked_node fl env uc) (running_nodes w) order w1 w2
      \<and> (never_throws uc \<longrightarrow> {n. ran_nodes w2 n} = running_nodes w) \<and> {n. ran_nodes w2 n} \<subseteq> running_nodes w \<and> order_ok w2 order
      \<and> vertex_nodes w2 = vertex_nodes w \<and> dirty w2 = dirty w \<and> {n. enabled (node_at w2 n)} = running_nodes w"
    using ended by blast
qed

text \<open>C16: 
  A tick of the static graph that returns, that is, in which no exception has reached a \<open>noexcept\<close> function, has run exactly
  the nodes of the largest set in which none must stop, each of them when all that it waits for had run or do not run, in an
  order where every node is once. When the call of a node throws, which the calls of \<open>noexcept\<close> code do not, the tick
  returns too: exactly the nodes of that set that come before it have run. Either way, at the end nothing is enabled, nothing
  counts as executed, and the order and the cache are right for the next tick. The tick starts from a state between ticks
  (no node outside the graph is enabled, none has run) in which a graph that has changed can be sorted and has an edge for
  each of the cables of its nodes; the code of the nodes may change the data in ports, not the graph.
\<close>

theorem static_tick_correct:
  assumes "user_ok uc" "quiet w" "static_ok nad vis w order cache"
    and tick: "static_state (static_exec fl env uc) (bfs_refresh vis capacity) (w, order, cache) = Some (w', order', active)"
  shows "order_ok w order' \<and> set active = running_nodes w
    \<and> (\<exists>stopped w2. nodes_ended (checked_node fl env uc) (running_nodes w) order' (fold disable_node stopped (w\<lparr>dirty := False\<rparr>)) w2
        \<and> (never_throws uc \<longrightarrow> {n. ran_nodes w2 n} = running_nodes w) \<and> w' = finish_nodes (vertex_nodes w) w2)
    \<and> quiet w' \<and> (\<forall>n. \<not> enabled (node_at w' n)) \<and> \<not> dirty w' \<and> static_ok nad vis w' order' active"
proof -
  define w0 where "w0 = (if dirty w then w\<lparr>dirty := False\<rparr> else w)"
  define cache0 where "cache0 = (if dirty w then [] else cache)"
  have quiet: "quiet w0" using assms(2) by (simp add: quiet_def w0_def)
  obtain w1 w2 where start: "(if dirty w then bfs_refresh vis capacity w else Some order) = Some order'"
    and active: "disable_strict_nodes_rec w0 (fold (update_enabled w0) order' cache0) = (w1, active)"
    and exec: "static_exec fl env uc order' w1 = Some w2" and w': "w' = finish_nodes (vertex_nodes w2) w2"
  proof -
    obtain w1 a where a: "disable_strict_nodes_rec w0 (fold (update_enabled w0) (if dirty w then the (bfs_refresh vis capacity w) else order) cache0) = (w1, a)"
      by (meson surj_pair)
    show thesis
      using tick a that[of w1] unfolding static_state_def w0_def cache0_def
      by (cases "dirty w"; cases "bfs_refresh vis capacity w") (auto simp: bind_eq_Some_conv)
  qed
  have order: "order_ok w order'"
  proof (cases "dirty w")
    case True
    then obtain g where "bfs_update vis capacity w (x_devices w) = Some (g, order')" using start by (auto simp: bfs_refresh_def)
    with True show ?thesis using bfs_order_ok assms(3) unfolding static_ok_def by auto
  qed (use start assms(3) in \<open>simp add: static_ok_def\<close>)
  then have ok: "order_ok w0 order'" by (simp add: w0_def order_ok_dirty)
  have cache: "distinct cache0" "set cache0 \<subseteq> set order'"
    using start assms(3) by (auto simp: cache0_def static_ok_def split: if_splits)
  have running: "running_nodes w0 = running_nodes w" by (simp add: w0_def running_nodes_dirty)
  note parts = clean_tick[OF assms(1) quiet ok cache active]
  note after = parts(4)[OF exec, unfolded running]
  have vertices: "vertex_nodes w2 = vertex_nodes w" using after by (simp add: w0_def)
  have sub: "running_nodes w \<subseteq> set (vertex_nodes w)" using parts(1,3) order running by (simp add: order_ok_def)
  have off: "\<not> enabled (node_at w' n)" "\<not> executed (node_at w' n)" for n
    using after sub by (auto simp: w' vertices finish_node_at enabled_def ran_nodes_def set_eq_iff)
  have dirty: "\<not> dirty w'" using after by (simp add: w' finish_node_at w0_def split: if_splits)
  have "order_ok w' order'" using after by (simp add: w' order_ok_finish)
  then have static: "static_ok nad vis w' order' active" using parts(2,3) dirty by (simp add: static_ok_def)
  obtain stopped where "w1 = fold disable_node stopped w0" using disable_strict_same[OF active] by blast
  moreover have "w0 = w\<lparr>dirty := False\<rparr>" by (simp add: w0_def)
  ultimately have "nodes_ended (checked_node fl env uc) (running_nodes w) order' (fold disable_node stopped (w\<lparr>dirty := False\<rparr>)) w2"
    "never_throws uc \<longrightarrow> {n. ran_nodes w2 n} = running_nodes w"
    using after by simp_all
  moreover have "set active = running_nodes w" using parts(1) running by simp
  moreover have "quiet w'" "\<forall>n. \<not> enabled (node_at w' n)" using off by (simp_all add: quiet_def)
  moreover have "w' = finish_nodes (vertex_nodes w) w2" using w' vertices by simp
  ultimately show ?thesis using order dirty static by blast
qed

section \<open>Ticks that return\<close>

text \<open>Only values are converted, and only a conversion can throw: without ports for values every tick returns.\<close>

definition no_value_ports :: "'d exec_state \<Rightarrow> bool" where
  "no_value_ports w \<longleftrightarrow> (\<forall>i. which (inlet_at w i) \<noteq> Value_port) \<and> (\<forall>j. which (outlet_at w j) \<noteq> Value_port)"

lemma no_value_ports_same: "same_structure w w' \<Longrightarrow> no_value_ports w' = no_value_ports w"
  by (simp add: no_value_ports_def same_structure_def fixed_port_def)

lemma fold_opt_returns:
  assumes "\<forall>x w. P w \<longrightarrow> (\<exists>w'. f x w = Some w' \<and> P w')"
  shows "P w \<Longrightarrow> \<exists>w'. fold_opt f xs w = Some w' \<and> P w'"
proof (induction xs arbitrary: w)
  case (Cons x xs)
  then show ?case using assms by (fastforce dest: spec[of _ x])
qed simp

lemma fold_opt_stays: "(\<And>x. f x w = Some w) \<Longrightarrow> fold_opt f xs w = Some w"
  by (induction xs) simp_all

lemma on_inlet_none: "no_value_ports w \<Longrightarrow> on_inlet i f w = Some w"
  by (simp add: on_inlet_def no_value_ports_def)

lemma copy_from_global_none: "no_value_ports w \<Longrightarrow> copy_from_global env p i w = Some w"
  by (auto simp: copy_from_global_def add_global_values_def on_inlet_none fold_opt_stays split: option.split)

lemma pull_none: "no_value_ports w \<Longrightarrow> pull_from_parameter env i w = Some w"
  unfolding pull_from_parameter_def
  by (rule fold_opt_stays) (auto simp: find_and_copy_def copy_from_global_node_def copy_from_global_none on_inlet_none split: reached.split)

lemma outlet_write_none: "no_value_ports w \<Longrightarrow> outlet_write env j w = Some w"
  by (simp add: outlet_write_def no_value_ports_def)

lemma init_source_none: "no_value_ports w \<Longrightarrow> \<exists>w'. init_source env i e w = Some w'"
  by (auto simp: init_source_def copy_outlet_def copy_line_def on_inlet_none split: connection.split)

lemma init_inlet_none:
  assumes "no_value_ports w"
  shows "\<exists>w'. init_inlet env i w = Some w' \<and> no_value_ports w'"
proof -
  have "\<forall>e v. no_value_ports v \<longrightarrow> (\<exists>v'. init_source env i e v = Some v' \<and> no_value_ports v')"
    using init_source_none same_init_source no_value_ports_same unfolding same_graph_def by metis
  from fold_opt_returns[OF this assms] show ?thesis
    by (simp add: init_inlet_def Let_def pull_none[OF assms])
qed

lemma teardown_outlet_none:
  assumes "no_value_ports w"
  shows "\<exists>w'. teardown_outlet env j w = Some w' \<and> no_value_ports w'"
proof -
  obtain w1 b where w1: "fold (env_writer j) (cables (outlet_at w j)) (w, cables (outlet_at w j) = []) = (w1, b)" by (meson surj_pair)
  then have "no_value_ports w1"
    using same_env_writers[of w j "cables (outlet_at w j)" "cables (outlet_at w j) = []"] no_value_ports_same assms
    unfolding same_graph_def by fastforce
  then show ?thesis using w1 by (simp add: teardown_outlet_def Let_def outlet_write_none)
qed

text \<open>Code whose calls do not end the program.\<close>

definition never_ends :: "'d user_code \<Rightarrow> bool" where
  "never_ends uc \<longleftrightarrow> (\<forall>n w. begin_execution uc n w \<noteq> Terminated) \<and> (\<forall>n t w. run_node uc n t w \<noteq> Terminated)"

lemma and_then_terminated [simp]: "and_then r f = Terminated \<longleftrightarrow> r = Terminated \<or> (\<exists>w. r = Completed w \<and> f w = Terminated)"
  by (cases r) simp_all

lemma port_loop_terminated [simp]: "port_loop r = Terminated \<longleftrightarrow> r = None"
  by (simp add: port_loop_def split: option.split)

lemma run_requests_returns: "never_ends uc \<Longrightarrow> run_requests fl uc n ts w \<noteq> Terminated"
  by (induction ts arbitrary: w) (auto simp: never_ends_def)

lemma exec_node_returns:
  assumes "user_ok uc" "never_ends uc" "no_value_ports w"
  shows "exec_node fl env uc n w \<noteq> Terminated"
    "exec_node fl env uc n w = Completed w' \<or> exec_node fl env uc n w = Threw w' \<Longrightarrow> no_value_ports w'"
proof -
  have "no_value_ports (fold (\<lambda>j. upd_outlet j clear_data) (all_outlets w n) w)"
    using same_fold[of "\<lambda>j. upd_outlet j clear_data" w "all_outlets w n"] no_value_ports_same assms(3) same_upd_outlet[OF fixed_clear_data]
    unfolding same_graph_def by metis
  then obtain w1 where w1: "init_node env n w = Some w1"
    using fold_opt_returns[of no_value_ports "init_inlet env"] init_inlet_none unfolding init_node_def by blast
  have last: "teardown_node env n (upd_node n (\<lambda>x. x\<lparr>executed := True\<rparr>) w3) \<noteq> None"
    if w2: "begin_execution uc n w1 = Completed w2"
      and run: "run_requests fl uc n ts (upd_node n mark_discontinuities w2) = Completed w3" for w2 w3 ts
  proof -
    have "same_graph w w3" using same_graph_trans[OF exec_node_prefix[OF assms(1) w1 w2] same_run_requests[OF assms(1) disjI1[OF run]]] .
    then have "no_value_ports w3" using assms(3) no_value_ports_same unfolding same_graph_def by blast
    then have "no_value_ports (upd_node n (\<lambda>x. x\<lparr>executed := True\<rparr>) w3)" by (simp add: no_value_ports_def upd_node_def)
    then obtain v where "fold_opt (teardown_outlet env) (all_outlets (upd_node n (\<lambda>x. x\<lparr>executed := True\<rparr>) w3) n)
        (upd_node n (\<lambda>x. x\<lparr>executed := True\<rparr>) w3) = Some v"
      using fold_opt_returns[of no_value_ports "teardown_outlet env"] teardown_outlet_none by blast
    then show ?thesis by (simp add: teardown_node_def)
  qed
  show "exec_node fl env uc n w \<noteq> Terminated"
    using last assms(2) run_requests_returns[OF assms(2)] by (auto simp: exec_node_def w1 Let_def never_ends_def)
  assume "exec_node fl env uc n w = Completed w' \<or> exec_node fl env uc n w = Threw w'"
  then have "same_structure w w'"
    using exec_node_ran[OF assms(1)] exec_node_threw(1)[OF assms(1)] unfolding node_ran_def same_graph_def by blast
  then show "no_value_ports w'" using no_value_ports_same assms(3) by blast
qed

lemma exec_nodes_returns:
  assumes "user_ok uc" "never_ends uc"
  shows "no_value_ports w \<Longrightarrow> exec_nodes (exec_node fl env uc) ns w \<noteq> Terminated"
proof (induction ns arbitrary: w)
  case (Cons n ns)
  note exec_node = exec_node_returns[OF assms Cons.prems, of fl env n]
  show ?case using Cons exec_node by (cases "exec_node fl env uc n w") auto
qed simp

lemma static_exec_returns:
  assumes "user_ok uc" "never_ends uc" "no_value_ports w"
  shows "\<exists>w'. static_exec fl env uc ns w = Some w'"
  using exec_nodes_returns[OF assms, of fl env ns]
  by (cases "exec_nodes (exec_node fl env uc) ns w") (simp_all add: static_exec_def catch_all_def)

lemma static_tick_result:
  assumes "user_ok uc" "never_ends uc" "static_ok nad vis w order cache" "no_value_ports w"
  shows "\<exists>r. static_state (static_exec fl env uc) (bfs_refresh vis capacity) (w, order, cache) = Some r"
proof -
  have none: "no_value_ports (fst (disable_strict_nodes_rec v ns))" if "no_value_ports v" for v :: "'a exec_state" and ns
    using disable_strict_same[of v ns] that by (cases "disable_strict_nodes_rec v ns") (auto simp: no_value_ports_def disable_nodes)
  have clean: "no_value_ports (w\<lparr>dirty := False\<rparr>)" using assms(4) by (simp add: no_value_ports_def)
  show ?thesis
  proof (cases "dirty w")
    case True
    then have "sortable nad vis w" using assms(3) by (simp add: static_ok_def)
    then obtain ord where "bfs_refresh vis capacity w = Some ord" by (simp add: bfs_refresh_def bfs_update_links)
    then show ?thesis
      using True static_exec_returns[OF assms(1,2) none[OF clean]] by (fastforce simp: static_state_def case_prod_beta)
  next
    case False
    then show ?thesis using static_exec_returns[OF assms(1,2) none[OF assms(4)]] by (fastforce simp: static_state_def case_prod_beta)
  qed
qed

text \<open>
  A tick of a graph without ports for values returns, whatever its connections are and whether nodes throw or not, when the
  graph can be sorted.
\<close>

theorem static_tick_returns:
  assumes "user_ok uc" "never_ends uc" "static_ok nad vis w order cache" "no_value_ports w"
  shows "\<exists>w' order' active. static_state (static_exec fl env uc) (bfs_refresh vis capacity) (w, order, cache) = Some (w', order', active)"
  using static_tick_result[OF assms] by auto

text \<open>
  The graph of three nodes again, with requests for the first and the third, and nodes that do nothing.
\<close>

definition idle_code :: "'d user_code" where
  "idle_code = \<lparr>begin_execution = (\<lambda>n. Completed), run_node = (\<lambda>n t. Completed)\<rparr>"

lemma idle_ok: "user_ok idle_code" "never_ends idle_code" "never_throws idle_code"
  by (simp_all add: user_ok_def never_ends_def never_throws_def idle_code_def)

definition asked_node :: "nat list \<Rightarrow> nat list \<Rightarrow> rat token_request list \<Rightarrow> rat graph_node" where
  "asked_node ins outs ts = \<lparr>root_inputs = ins, root_outputs = outs, requested_tokens = ts, executed = False, not_threadable = False,
    node_start_discontinuous = False, node_end_discontinuous = False, muted = False\<rparr>"

definition sound_port :: "destination_t \<Rightarrow> nat list \<Rightarrow> port" where
  "sound_port addr es = (plain_port addr es)\<lparr>which := Audio_port\<rparr>"

definition sample_exec :: "rat exec_state" where
  "sample_exec = recompute_maps \<lparr>
    inlet_at = (\<lambda>p. if p = 0 then sound_port No_destination [0] else sound_port (To_parameter 7) []),
    outlet_at = (\<lambda>p. if p = 0 then sound_port (To_parameter 7) [] else sound_port No_destination [0]),
    node_at = (\<lambda>n. if n = 0 then asked_node [0] [0] [demo_musical_tick]
       else if n = 1 then asked_node [1] [] [] else if n = 2 then asked_node [] [1] [demo_musical_tick] else asked_node [] [] []),
    edge_at = (\<lambda>e. \<lparr>con = Immediate_strict Both_sides, e_out = Some 1, e_in = Some 0, out_node = Some 2, in_node = Some 0\<rparr>),
    vertex_nodes = [0, 1, 2], out_lists = [[(2, 0)], [], []], node_map = Map.empty, edge_map = Map.empty,
    node_list = [0, 1, 2], dirty = True,
    x_devices = (\<lambda>pat. []), x_params = (\<lambda>p. \<lparr>p_value = Null, p_unit = None\<rparr>, []), x_received = (\<lambda>p. None), x_value_state = [], x_msg_index = 0,
    x_buffer_size = 64, x_ratio = 1, x_frames = (\<lambda>n. 0), x_transport = (\<lambda>n. 0)\<rparr>"

lemma sample_exec_vertices: "vertex_nodes sample_exec = [0, 1, 2]" "num_vertices sample_exec = 3" "dirty sample_exec"
  by (simp_all add: sample_exec_def recompute_maps_def)

lemma sample_exec_sortable: "sortable () library_visitor sample_exec"
proof -
  have maps: "maps_ok sample_exec" by (simp add: sample_exec_def maps_ok_def recompute_maps_def)
  have sort: "custom_topological_sort library_visitor 3 (no_delay_edges (adjacency sample_exec)) 0 = Inr [2, 0, 1]" by code_simp
  have "acyclic (arcs 3 (no_delay_edges (adjacency sample_exec)))"
    using custom_topological_sort_result[OF library_visitor_ok closed_no_delay[OF closed_adjacency[OF maps]], of 0]
    unfolding sample_exec_vertices(2) sort by simp
  then show ?thesis using maps library_visitor_ok unfolding sortable_def sample_exec_vertices(2) by blast
qed

lemma sample_exec_cables: "cables_ok sample_exec"
  by code_simp

lemma sample_exec_quiet: "quiet sample_exec"
  by (auto simp: quiet_def sample_exec_def recompute_maps_def asked_node_def enabled_def)

lemma sample_refresh: "bfs_refresh library_visitor 0 sample_exec = Some [2, 0, 1]"
  by code_simp

lemma sample_exec_ok: "static_ok () library_visitor sample_exec [] []" "no_value_ports sample_exec"
  using sample_exec_sortable sample_exec_cables sample_exec_vertices(3)
  by (simp_all add: static_ok_def no_value_ports_def sample_exec_def recompute_maps_def sound_port_def)

lemma static_tick_returns_witness:
  "\<forall>env. \<exists>w' order' active. static_state (static_exec rat_fpu env idle_code) (bfs_refresh library_visitor 0) (sample_exec, [], []) = Some (w', order', active)"
  using static_tick_returns[OF idle_ok(1,2) sample_exec_ok] by blast

lemma static_tick_correct_witness:
  "\<forall>env. \<exists>w' order' active. static_state (static_exec rat_fpu env idle_code) (bfs_refresh library_visitor 0) (sample_exec, [], []) = Some (w', order', active)
    \<and> order_ok sample_exec order' \<and> set active = running_nodes sample_exec \<and> \<not> dirty w'"
proof
  fix env
  obtain w' order' active where
    r: "static_state (static_exec rat_fpu env idle_code) (bfs_refresh library_visitor 0) (sample_exec, [], []) = Some (w', order', active)"
    using static_tick_result[OF idle_ok(1,2) sample_exec_ok] by force
  show "\<exists>w' order' active. static_state (static_exec rat_fpu env idle_code) (bfs_refresh library_visitor 0) (sample_exec, [], []) = Some (w', order', active)
    \<and> order_ok sample_exec order' \<and> set active = running_nodes sample_exec \<and> \<not> dirty w'"
    using r static_tick_correct[OF idle_ok(1) sample_exec_quiet sample_exec_ok(1) r] by blast
qed

text \<open>Both ends occur: when the first node that is to run throws, the tick returns and no node has run.\<close>

definition failing_code :: "nat \<Rightarrow> 'd user_code" where
  "failing_code k = \<lparr>begin_execution = (\<lambda>n. Completed), run_node = (\<lambda>n t w. if n = k then Threw w else Completed w)\<rparr>"

lemma failing_ok: "user_ok (failing_code k)" "never_ends (failing_code k)"
  by (simp_all add: user_ok_def never_ends_def failing_code_def)

lemma failing_throws:
  assumes "enabled (node_at w k)"
  shows "exec_node fl env (failing_code k) k w \<noteq> Completed w'"
proof
  assume *: "exec_node fl env (failing_code k) k w = Completed w'"
  then obtain w1 w2 where start: "init_node env k w = Some w1" "begin_execution (failing_code k) k w1 = Completed w2"
    and run: "run_requests fl (failing_code k) k (requested_tokens (node_at (upd_node k mark_discontinuities w2) k)) (upd_node k mark_discontinuities w2)
      \<noteq> Threw (upd_node k mark_discontinuities w2)"
    by (auto simp: exec_node_def Let_def)
  have "same_structure w (upd_node k mark_discontinuities w2)"
    using exec_node_prefix[OF failing_ok(1) start] by (simp add: same_graph_def)
  then have "requested_tokens (node_at (upd_node k mark_discontinuities w2) k) \<noteq> []"
    using assms same_structure_parts(5) unfolding enabled_def by blast
  then show False using run by (cases "requested_tokens (node_at (upd_node k mark_discontinuities w2) k)") (simp_all add: failing_code_def)
qed

lemma failing_tick:
  assumes "enabled (node_at w k)" "no_value_ports w"
  shows "\<exists>w'. static_exec fl env (failing_code k) (k # ns) w = Some w' \<and> ran_nodes w' = ran_nodes w"
proof -
  obtain w' where w': "exec_node fl env (failing_code k) k w = Threw w'"
    using exec_node_returns(1)[OF failing_ok assms(2)] failing_throws[OF assms(1)] run_end.exhaust by metis
  then have "ran_nodes w' = ran_nodes w" using exec_node_threw(1)[OF failing_ok(1) w'] by (simp add: same_graph_def)
  then show ?thesis using w' assms(1) by (simp add: static_exec_def catch_all_def)
qed

text \<open>
  Disabling leaves enabled the largest set of the enabled nodes in which none is muted, reads a delay line that has nothing
  for it, or misses the node at the other end of a connection that requires it.
\<close>

theorem disable_strict_correct:
  assumes "\<forall>n. enabled (node_at w n) \<longleftrightarrow> n \<in> set ns" "disable_strict_nodes_rec w ns = (w', ns')"
  shows "{n. enabled (node_at w' n)} = \<Union> {running. running \<subseteq> set ns \<and> (\<forall>n \<in> running. \<not> must_stop w running n)}"
proof -
  have "{n. enabled (node_at w n)} = set ns" using assms(1) by simp
  then show ?thesis using disable_strict_running(1)[OF assms] by (simp add: running_nodes_def)
qed

lemma disable_strict_correct_witness:
  "\<exists>w' ns'. disable_strict_nodes_rec sample_exec [0, 2] = (w', ns') \<and> {n. enabled (node_at w' n)} =
    \<Union> {running. running \<subseteq> set [0, 2] \<and> (\<forall>n \<in> running. \<not> must_stop sample_exec running n)}"
proof -
  have "\<forall>n. enabled (node_at sample_exec n) \<longleftrightarrow> n \<in> set [0, 2]"
    by (simp add: sample_exec_def recompute_maps_def asked_node_def enabled_def)
  from disable_strict_correct[OF this] show ?thesis by (meson surj_pair)
qed

end
