(* ===== verification/GraphDynamic.thy ===== *)
theory GraphDynamic
  imports GraphStatic "HOL-Library.Multiset" "HOL-Library.Sublist"
begin

text \<open>
  A tick of the dynamic graph: the order is found while the nodes run. It respects what the nodes wait for, and all of
  them run unless they wait for each other.
\<close>

section \<open>The next node\<close>

lemma better_choices:
  "fold_opt (better cmp w nodes) ks cur = Some r \<Longrightarrow>
    (\<forall>c. r = Some c \<longrightarrow> cur = Some c \<or> c \<in> set ks \<and> can_execute w (nodes ! c))
    \<and> (r = None \<longrightarrow> cur = None \<and> (\<forall>k \<in> set ks. \<not> can_execute w (nodes ! k)))"
proof (induction ks arbitrary: cur)
  case (Cons k ks)
  obtain cur' where first: "better cmp w nodes k cur = Some cur'" and rest: "fold_opt (better cmp w nodes) ks cur' = Some r"
    using Cons.prems by (auto simp: bind_eq_Some_conv)
  have "(\<forall>c. cur' = Some c \<longrightarrow> cur = Some c \<or> c = k \<and> can_execute w (nodes ! k))
      \<and> (cur' = None \<longrightarrow> cur = None \<and> \<not> can_execute w (nodes ! k))"
    using first by (auto simp: better_def split: option.splits if_splits)
  with Cons.IH[OF rest] show ?case by auto
qed simp

lemma find_next_some: "find_next cmp w nodes k = Some (Some c) \<Longrightarrow> c < length nodes - k \<and> can_execute w (nodes ! c)"
  unfolding find_next_def by (drule better_choices) auto

lemma find_next_none: "find_next cmp w nodes k = Some None \<Longrightarrow> c < length nodes - k \<Longrightarrow> \<not> can_execute w (nodes ! c)"
  unfolding find_next_def by (drule better_choices) auto

section \<open>The nodes that have run\<close>

abbreviation ran_part :: "nat list \<Rightarrow> nat \<Rightarrow> nat list" where
  "ran_part nodes k \<equiv> drop (length nodes - k) nodes"

lemma swap_ran_part:
  assumes "k < length nodes" "c < length nodes - k"
  shows "ran_part (swap_nodes (length nodes - k - 1) c nodes) (Suc k) = nodes ! c # ran_part nodes k"
    "mset (swap_nodes (length nodes - k - 1) c nodes) = mset nodes"
proof -
  define p where "p = length nodes - k - 1"
  have p: "p < length nodes" "c \<le> p" "length nodes - k = Suc p" "length nodes - Suc k = p" using assms by (auto simp: p_def)
  have "drop p (nodes[p := nodes ! c, c := nodes ! p]) = drop p (nodes[p := nodes ! c])"
    using p by (cases "c = p") (simp_all add: drop_update_cancel)
  also have "\<dots> = nodes ! c # drop (Suc p) nodes"
    using p by (simp add: Cons_nth_drop_Suc[symmetric])
  finally show "ran_part (swap_nodes (length nodes - k - 1) c nodes) (Suc k) = nodes ! c # ran_part nodes k"
    by (simp add: swap_nodes_def p(3,4))
  show "mset (swap_nodes (length nodes - k - 1) c nodes) = mset nodes"
    using p unfolding swap_nodes_def p_def[symmetric] by (intro mset_swap) simp_all
qed

text \<open>A list in which each node comes after what it waits for, with the last first.\<close>

fun waits_respected :: "(nat \<Rightarrow> nat set) \<Rightarrow> nat list \<Rightarrow> bool" where
  "waits_respected waits [] = True"
| "waits_respected waits (n # ns) \<longleftrightarrow> waits n \<subseteq> set ns \<and> waits_respected waits ns"

text \<open>What a node waits for among those that run.\<close>

definition waits_on :: "'d exec_state \<Rightarrow> nat \<Rightarrow> nat set" where
  "waits_on w n = {m \<in> waits_for w n. enabled (node_at w m)}"

lemma waits_on_same: "same_structure w w' \<Longrightarrow> waits_on w' n = waits_on w n"
  by (simp add: waits_on_def waits_for_same same_structure_parts)

lemma can_execute_waits: "can_execute w n \<longleftrightarrow> (\<forall>m \<in> waits_on w n. ran_nodes w m)"
  by (auto simp: can_execute_iff waits_on_def)

definition partly_ran :: "'d exec_state \<Rightarrow> 'd exec_state \<Rightarrow> nat list \<Rightarrow> nat \<Rightarrow> bool" where
  "partly_ran w0 w nodes k \<longleftrightarrow> same_structure w0 w \<and> distinct nodes \<and> k \<le> length nodes
    \<and> {n. ran_nodes w n} = set (ran_part nodes k) \<and> waits_respected (waits_on w0) (ran_part nodes k)"

lemma partly_ran_step:
  assumes "user_ok uc" "partly_ran w0 w nodes k" "c < length nodes - k" "can_execute w (nodes ! c)"
    and "exec_node fl env uc (nodes ! c) w = Completed w1"
  shows "partly_ran w0 w1 (swap_nodes (length nodes - k - 1) c nodes) (Suc k)"
proof -
  have k: "k < length nodes" using assms(3) by simp
  note swap = swap_ran_part[OF k assms(3)]
  have old: "same_structure w0 w" "distinct nodes" "{n. ran_nodes w n} = set (ran_part nodes k)"
    "waits_respected (waits_on w0) (ran_part nodes k)"
    using assms(2) by (simp_all add: partly_ran_def)
  have ran: "same_structure w w1" "ran_nodes w1 = (ran_nodes w)(nodes ! c := True)"
    using exec_node_ran[OF assms(1,5)] by (simp_all add: node_ran_def)
  have "waits_on w0 (nodes ! c) \<subseteq> set (ran_part nodes k)"
    using assms(4) old(3) by (auto simp: can_execute_waits waits_on_same[OF old(1)])
  moreover have "{n. ran_nodes w1 n} = insert (nodes ! c) (set (ran_part nodes k))"
    using ran(2) old(3) by auto
  moreover have "distinct (swap_nodes (length nodes - k - 1) c nodes)"
    using swap(2) old(2) by (metis mset_eq_imp_distinct_iff)
  moreover have "Suc k \<le> length (swap_nodes (length nodes - k - 1) c nodes)" using k by (simp add: swap_nodes_def)
  ultimately show ?thesis
    using old(4) same_structure_trans[OF old(1) ran(1)] unfolding partly_ran_def swap(1) by simp
qed

section \<open>A tick\<close>

lemma dynamic_tick_ran:
  assumes "user_ok uc"
  shows "dynamic_tick fl env uc cmp nodes k w = Some (w', nodes') \<Longrightarrow> partly_ran w0 w nodes k \<Longrightarrow>
    mset nodes' = mset nodes \<and> (\<exists>k'. partly_ran w0 w' nodes' k' \<and> (\<forall>n \<in> set (take (length nodes' - k') nodes'). \<not> can_execute w' n))"
proof (induction "length nodes - k" arbitrary: nodes k w)
  case 0
  then have "w' = w" "nodes' = nodes" "length nodes - k = 0" by (simp_all add: dynamic_tick.simps[of _ _ _ _ nodes])
  with 0 show ?case by auto
next
  case (Suc d)
  then have k: "k < length nodes" by simp
  from Suc.prems(1) k consider
    (stuck) "find_next (cmp w) w nodes k = Some None" "w' = w" "nodes' = nodes"
  | (ran) c w1 where "find_next (cmp w) w nodes k = Some (Some c)" "exec_node fl env uc (nodes ! c) w = Completed w1"
      "dynamic_tick fl env uc cmp (swap_nodes (length nodes - k - 1) c nodes) (Suc k) w1 = Some (w', nodes')"
    by (auto simp: dynamic_tick.simps[of _ _ _ _ nodes] bind_eq_Some_conv uncaught_def split: option.splits run_end.splits)
  then show ?case
  proof cases
    case stuck
    have "\<forall>n \<in> set (take (length nodes - k) nodes). \<not> can_execute w n"
      using find_next_none[OF stuck(1)] by (auto simp: in_set_conv_nth)
    then show ?thesis using stuck Suc.prems(2) by blast
  next
    case ran
    note c = find_next_some[OF ran(1)]
    have "d = length (swap_nodes (length nodes - k - 1) c nodes) - Suc k" using Suc.hyps(2) by (simp add: swap_nodes_def)
    from Suc.hyps(1)[OF this ran(3)] show ?thesis
      using partly_ran_step[OF assms Suc.prems(2) _ _ ran(2)] c swap_ran_part(2)[OF k] by simp
  qed
qed

lemma respected_order:
  "waits_respected waits ns \<Longrightarrow> n \<in> set ns \<Longrightarrow> m \<in> waits n \<Longrightarrow> runs_before (rev ns) m n"
proof (induction ns)
  case (Cons a ns)
  show ?case
  proof (cases "n = a")
    case True
    then have "m \<in> set (rev ns)" using Cons.prems by auto
    then show ?thesis using runs_before_across[of m "rev ns" n "[a]"] True by simp
  qed (use Cons in \<open>auto intro: runs_before_append\<close>)
qed simp

text \<open>C17: 
  A tick of the dynamic graph that returns has run some of the nodes, each once and after all the enabled nodes it waits
  for; when no node waits for itself through others, all of them.
\<close>

theorem dynamic_tick_correct:
  assumes "user_ok uc" "distinct nodes" "\<forall>n. enabled (node_at w n) \<longrightarrow> n \<in> set nodes" "\<forall>n. \<not> executed (node_at w n)"
    and "dynamic_tick fl env uc cmp nodes 0 w = Some (w', nodes')"
  shows "mset nodes' = mset nodes \<and> (\<exists>order. suffix (rev order) nodes' \<and> {n. executed (node_at w' n)} = set order
    \<and> (\<forall>n \<in> set order. \<forall>m \<in> waits_for w n. enabled (node_at w m) \<longrightarrow> runs_before order m n)
    \<and> (acyclic {(n, m). m \<in> waits_for w n} \<longrightarrow> set order = set nodes))"
proof -
  have "{n. ran_nodes w n} = {}" using assms(4) by (simp add: ran_nodes_def)
  then have "partly_ran w w nodes 0" using assms(2) by (simp add: partly_ran_def)
  from dynamic_tick_ran[OF assms(1,5) this] obtain k where
    mset: "mset nodes' = mset nodes" and k: "partly_ran w w' nodes' k" and stuck: "\<forall>n \<in> set (take (length nodes' - k) nodes'). \<not> can_execute w' n"
    by blast
  let ?order = "rev (ran_part nodes' k)"
  have same: "same_structure w w'" and ran: "{n. ran_nodes w' n} = set (ran_part nodes' k)"
    and waits: "waits_respected (waits_on w) (ran_part nodes' k)"
    using k by (simp_all add: partly_ran_def)
  have set: "set nodes' = set nodes" using mset by (rule mset_eq_setD)
  have "set nodes \<subseteq> set ?order" if acyclic: "acyclic {(n, m). m \<in> waits_for w n}"
  proof (rule ccontr)
    assume "\<not> set nodes \<subseteq> set ?order"
    let ?left = "set nodes - set (ran_part nodes' k)"
    define waiting where "waiting = {(m, n). n \<in> ?left \<and> m \<in> ?left \<and> m \<in> waits_for w n}"
    have "finite waiting" unfolding waiting_def by (rule finite_subset[of _ "?left \<times> ?left"]) auto
    moreover have "acyclic waiting"
    proof (rule acyclic_subset)
      show "acyclic ({(n, m). m \<in> waits_for w n}\<inverse>)" using acyclic by simp
      show "waiting \<subseteq> {(n, m). m \<in> waits_for w n}\<inverse>" by (auto simp: waiting_def)
    qed
    ultimately have "wf waiting" by (rule finite_acyclic_wf)
    moreover have "?left \<noteq> {}" using \<open>\<not> set nodes \<subseteq> set ?order\<close> by auto
    ultimately obtain n where n: "n \<in> ?left" "\<And>m. (m, n) \<in> waiting \<Longrightarrow> m \<notin> ?left" by (meson wfE_min ex_in_conv)
    have "set nodes' = set (take (length nodes' - k) nodes') \<union> set (ran_part nodes' k)"
      by (metis append_take_drop_id set_append)
    then have "\<not> can_execute w' n" using n(1) set stuck by blast
    then obtain m where "m \<in> waits_on w n" "\<not> ran_nodes w' m" by (auto simp: can_execute_waits waits_on_same[OF same])
    then have "m \<in> ?left" "m \<in> waits_for w n" using assms(3) ran by (auto simp: waits_on_def)
    then show False using n by (auto simp: waiting_def)
  qed
  moreover have "set ?order \<subseteq> set nodes" using set by (auto dest: in_set_dropD)
  moreover have "suffix (rev ?order) nodes'" by (simp add: suffix_drop)
  moreover have "{n. executed (node_at w' n)} = set ?order" using ran by (simp add: ran_nodes_def)
  moreover have "\<forall>n \<in> set ?order. \<forall>m \<in> waits_for w n. enabled (node_at w m) \<longrightarrow> runs_before ?order m n"
    using respected_order[OF waits] by (simp add: waits_on_def)
  ultimately show ?thesis using mset by (intro conjI exI[of _ ?order]) auto
qed

text \<open>Nodes of the order can be compared, so that without ports for values the tick returns.\<close>

lemma node_sorter_compares: "a \<in> set order \<Longrightarrow> node_sorter consumes order w a b \<noteq> None"
proof -
  assume "a \<in> set order"
  then have "List.find (\<lambda>n. n = a \<or> n = b) order \<noteq> None" by (auto simp: find_None_iff)
  then have "compare_nodes order a b \<noteq> None" by (simp add: compare_nodes_def)
  then show ?thesis by (simp add: node_sorter_def)
qed

lemma find_next_compares:
  assumes "\<forall>a \<in> set nodes. \<forall>b. cmp a b \<noteq> None"
  shows "find_next cmp w nodes k \<noteq> None"
proof -
  have "fold_opt (better cmp w nodes) ks cur \<noteq> None" if "\<forall>c. cur = Some c \<longrightarrow> c < length nodes" "\<forall>c \<in> set ks. c < length nodes" for ks cur
    using that
  proof (induction ks arbitrary: cur)
    case (Cons c ks)
    obtain cur' where "better cmp w nodes c cur = Some cur'" "\<forall>c. cur' = Some c \<longrightarrow> c < length nodes"
    proof (cases cur)
      case (Some b)
      then have "nodes ! b \<in> set nodes" using Cons.prems(1) by simp
      then obtain less where "cmp (nodes ! b) (nodes ! c) = Some less" using assms by fast
      then show ?thesis using that Some Cons.prems by (simp add: better_def split: if_splits)
    qed (use that Cons.prems in \<open>auto simp: better_def split: if_splits\<close>)
    then show ?case using Cons.IH[of cur'] Cons.prems(2) by simp
  qed simp
  from this[of None "[0..<length nodes - k]"] show ?thesis unfolding find_next_def by fastforce
qed

lemma dynamic_tick_returns:
  assumes "user_ok uc" "never_ends uc" "never_throws uc"
  shows "no_value_ports w \<Longrightarrow> \<forall>w. \<forall>a \<in> set nodes. \<forall>b. cmp w a b \<noteq> None \<Longrightarrow> \<exists>w' nodes'. dynamic_tick fl env uc cmp nodes k w = Some (w', nodes')"
proof (induction "length nodes - k" arbitrary: nodes k w)
  case 0
  then show ?case by (simp add: dynamic_tick.simps[of _ _ _ _ nodes])
next
  case (Suc d)
  then have k: "k < length nodes" by simp
  obtain r where r: "find_next (cmp w) w nodes k = Some r" using find_next_compares[of nodes "cmp w" w k] Suc.prems(2) by auto
  show ?case
  proof (cases r)
    case None
    then show ?thesis using r k by (simp add: dynamic_tick.simps[of _ _ _ _ nodes])
  next
    case (Some c)
    let ?nodes = "swap_nodes (length nodes - k - 1) c nodes"
    obtain w1 where w1: "exec_node fl env uc (nodes ! c) w = Completed w1" "no_value_ports w1"
      using exec_node_returns[OF assms(1,2) Suc.prems(1)] exec_node_threw(2)[OF assms(1)] assms(3) by (metis run_end.exhaust)
    have "c < length nodes - k" using find_next_some r Some by blast
    then have "set ?nodes = set nodes" using swap_ran_part(2)[OF k] mset_eq_setD by blast
    moreover have "d = length ?nodes - Suc k" using Suc.hyps(2) by (simp add: swap_nodes_def)
    ultimately have "\<exists>w' nodes'. dynamic_tick fl env uc cmp ?nodes (Suc k) w1 = Some (w', nodes')"
      using Suc.hyps(1)[of ?nodes "Suc k" w1] w1(2) Suc.prems(2) by simp
    then show ?thesis using r Some k w1 by (simp add: dynamic_tick.simps[of _ _ _ _ nodes] uncaught_def)
  qed
qed

lemma dynamic_tick_correct_witness:
  "\<forall>env. \<exists>w' nodes' order. dynamic_tick rat_fpu env idle_code (node_sorter (\<lambda>n. False) [2, 0, 1]) [2, 0] 0 sample_exec = Some (w', nodes')
    \<and> mset nodes' = mset [2, 0] \<and> {n. executed (node_at w' n)} = set order \<and> suffix (rev order) nodes'"
proof
  fix env
  have "\<forall>w. \<forall>a \<in> set [2, 0]. \<forall>b. node_sorter (\<lambda>n. False) [2, 0, 1] w a b \<noteq> None"
    by (intro allI ballI node_sorter_compares) auto
  from dynamic_tick_returns[OF idle_ok sample_exec_ok(2) this] obtain w' nodes' where
    r: "dynamic_tick rat_fpu env idle_code (node_sorter (\<lambda>n. False) [2, 0, 1]) [2, 0] 0 sample_exec = Some (w', nodes')" by blast
  have "\<forall>n. enabled (node_at sample_exec n) \<longrightarrow> n \<in> set [2, 0]"
    by (simp add: sample_exec_def recompute_maps_def asked_node_def enabled_def)
  moreover have "\<forall>n. \<not> executed (node_at sample_exec n)" using sample_exec_quiet by (simp add: quiet_def)
  ultimately show "\<exists>w' nodes' order. dynamic_tick rat_fpu env idle_code (node_sorter (\<lambda>n. False) [2, 0, 1]) [2, 0] 0 sample_exec = Some (w', nodes')
    \<and> mset nodes' = mset [2, 0] \<and> {n. executed (node_at w' n)} = set order \<and> suffix (rev order) nodes'"
    using dynamic_tick_correct[OF idle_ok(1) _ _ _ r] r by fastforce
qed

end
