(* ===== verification/TaskPool.thy ===== *)
theory TaskPool
  imports GraphUpdate ValuePorts "HOL-Library.Multiset"
begin

text \<open>
  The parallel executor (dataflow/graph/graph_parallel_impl.hpp) and the pool of threads it runs on (dataflow/exec_pool.hpp):
  a node is a task, ready when the counter of what it waits for is zero; threads take ready tasks from two queues and
  sleep on a counter when there are none. Every access to shared memory is a step of its own; memory is sequential.
\<close>

section \<open>Tasks\<close>

record task =
  task_node :: nat
  dependencies :: int
  precedes :: "nat list"

definition new_task :: "nat \<Rightarrow> task" where
  "new_task n = \<lparr>task_node = n, dependencies = 0, precedes = []\<rparr>"

definition precede :: "nat \<Rightarrow> nat \<Rightarrow> task list \<Rightarrow> task list" where
  "precede s r tf =
    (let tf = tf[s := (tf ! s)\<lparr>precedes := precedes (tf ! s) @ [r]\<rparr>]
     in tf[r := (tf ! r)\<lparr>dependencies := dependencies (tf ! r) + 1\<rparr>])"

text \<open>The place of a task is its number. A node without a task is a null pointer, which the code follows.\<close>

fun task_of :: "nat list \<Rightarrow> nat \<Rightarrow> nat option" where
  "task_of [] n = None"
| "task_of (m # ms) n = (if m = n then Some 0 else map_option Suc (task_of ms n))"

definition all_edges :: "nat \<Rightarrow> graph_t \<Rightarrow> (nat \<times> nat) list" where
  "all_edges n g = concat (List.map (\<lambda>u. List.map (\<lambda>(v, c). (u, v)) (g u)) [0..<n])"

definition link_tasks :: "nat list \<Rightarrow> (nat \<Rightarrow> nat) \<Rightarrow> nat \<times> nat \<Rightarrow> task list \<Rightarrow> task list option" where
  "link_tasks order node_of = (\<lambda>(u, v) tf.
    case (task_of order (node_of v), task_of order (node_of u)) of
      (Some s, Some r) \<Rightarrow> Some (precede s r tf)
    | _ \<Rightarrow> None)"

definition update_graph :: "nat list \<Rightarrow> (nat \<Rightarrow> nat) \<Rightarrow> nat \<Rightarrow> graph_t \<Rightarrow> task list option" where
  "update_graph topo_order node_of n g = fold_opt (link_tasks topo_order node_of) (all_edges n g) (List.map new_task topo_order)"

section \<open>The threads\<close>

text \<open>
  What a thread is in the middle of: the loop that submits the tasks without dependencies, the submission of a task, its
  execution before, in and after the node, the loop over its successors, the end of the task, a call to \<open>wake\<close>.
\<close>

datatype frame =
    Starting "nat list"
  | Enqueue nat
  | Exec nat
  | Running nat
  | Release "nat list"
  | Finish
  | Wake

text \<open>
  Where a thread is in its loop: the test of the batch, the first attempt at each queue, the reading of the counter, the
  second test and attempts, the waiting. Thread 0 owns the batch, the others are the workers.
\<close>

datatype loop = Check1 | Owner1 | Shared1 | Read_epoch | Check2 nat | Owner2 nat | Shared2 nat | Wait nat | Left

text \<open>
  The counter on which threads sleep has 32 bits; the model counts on and compares the lowest 32 bits. The records of what
  has been started, by which thread, and finished belong to the model only.
\<close>

record pool =
  queue :: "nat list"
  owner_queue :: "nat list"
  deps_left :: "nat \<Rightarrow> int"
  batch :: int
  epoch :: nat
  stacks :: "nat \<Rightarrow> frame list"
  loops :: "nat \<Rightarrow> loop"
  started :: "(nat \<times> nat) list"
  finished :: "nat list"

text \<open>
  The next steps of a thread: the frames in place of the first one, and the rest of the state. A full queue refuses a task,
  which is then executed at once, or offered again when only the owner may execute it.
\<close>

fun frame_step :: "task list \<Rightarrow> (nat \<Rightarrow> bool) \<Rightarrow> nat \<Rightarrow> frame \<Rightarrow> pool \<Rightarrow> (frame list \<times> pool) list" where
  "frame_step tf pinned th (Starting []) s = [([], s)]"
| "frame_step tf pinned th (Starting (t # ts)) s =
    [((if dependencies (tf ! t) = 0 then [Enqueue t] else []) @ [Starting ts], s)]"
| "frame_step tf pinned th (Enqueue t) s =
    (if pinned (task_node (tf ! t)) then [([Wake], s\<lparr>owner_queue := owner_queue s @ [t]\<rparr>), ([Enqueue t], s)]
     else [([Wake], s\<lparr>queue := queue s @ [t]\<rparr>), ([Exec t], s)])"
| "frame_step tf pinned th (Exec t) s = [([Running t], s\<lparr>started := started s @ [(th, t)]\<rparr>)]"
| "frame_step tf pinned th (Running t) s = [([Release (precedes (tf ! t))], s\<lparr>finished := finished s @ [t]\<rparr>)]"
| "frame_step tf pinned th (Release []) s = [([Finish], s)]"
| "frame_step tf pinned th (Release (t # ts)) s =
    [((if deps_left s t = 1 then [Enqueue t] else []) @ [Release ts], s\<lparr>deps_left := (deps_left s)(t := deps_left s t - 1)\<rparr>)]"
| "frame_step tf pinned th Finish s = [(if batch s = 1 then [Wake] else [], s\<lparr>batch := batch s - 1\<rparr>)]"
| "frame_step tf pinned th Wake s = [([], s\<lparr>epoch := Suc (epoch s)\<rparr>)]"

definition first_try :: "nat \<Rightarrow> loop" where
  "first_try th = (if th = 0 then Check1 else Shared1)"

text \<open>Of several tasks in a queue any may come out first. A worker runs as long as the program.\<close>

definition take_owner :: "nat \<Rightarrow> pool \<Rightarrow> (loop \<times> frame list \<times> pool) list" where
  "take_owner th s = List.map (\<lambda>t. (first_try th, [Exec t], s\<lparr>owner_queue := remove1 t (owner_queue s)\<rparr>)) (owner_queue s)"

definition take_shared :: "nat \<Rightarrow> pool \<Rightarrow> (loop \<times> frame list \<times> pool) list" where
  "take_shared th s = List.map (\<lambda>t. (first_try th, [Exec t], s\<lparr>queue := remove1 t (queue s)\<rparr>)) (queue s)"

fun loop_step :: "nat \<Rightarrow> loop \<Rightarrow> pool \<Rightarrow> (loop \<times> frame list \<times> pool) list" where
  "loop_step th Check1 s = [(if batch s \<noteq> 0 then Owner1 else Left, [], s)]"
| "loop_step th Owner1 s = (if owner_queue s = [] then [(Shared1, [], s)] else take_owner th s)"
| "loop_step th Shared1 s = (if queue s = [] then [(Read_epoch, [], s)] else take_shared th s)"
| "loop_step th Read_epoch s = [(if th = 0 then Check2 (epoch s) else Shared2 (epoch s), [], s)]"
| "loop_step th (Check2 e) s = [(if batch s = 0 then Left else Owner2 e, [], s)]"
| "loop_step th (Owner2 e) s = (if owner_queue s = [] then [(Shared2 e, [], s)] else take_owner th s)"
| "loop_step th (Shared2 e) s = (if queue s = [] then [(Wait e, [], s)] else take_shared th s)"
| "loop_step th (Wait e) s = (if epoch s mod 2 ^ 32 = e mod 2 ^ 32 then [] else [(first_try th, [], s)])"
| "loop_step th Left s = []"

inductive pool_step :: "task list \<Rightarrow> (nat \<Rightarrow> bool) \<Rightarrow> nat \<Rightarrow> pool \<Rightarrow> pool \<Rightarrow> bool" for tf pinned workers where
  frame: "th \<le> workers \<Longrightarrow> stacks s th = f # st \<Longrightarrow> (fs, s') \<in> set (frame_step tf pinned th f s) \<Longrightarrow>
    pool_step tf pinned workers s (s'\<lparr>stacks := (stacks s)(th := fs @ st)\<rparr>)"
| loop: "th \<le> workers \<Longrightarrow> stacks s th = [] \<Longrightarrow> (l, fs, s') \<in> set (loop_step th (loops s th) s) \<Longrightarrow>
    pool_step tf pinned workers s (s'\<lparr>stacks := (stacks s)(th := fs), loops := (loops s)(th := l)\<rparr>)"

text \<open>The start of a run: the counters are set, the queues are empty, the workers look for a task.\<close>

definition run_start :: "task list \<Rightarrow> nat \<Rightarrow> pool" where
  "run_start tf e = \<lparr>queue = [], owner_queue = [], deps_left = (\<lambda>t. dependencies (tf ! t)), batch = int (length tf), epoch = e,
    stacks = (\<lambda>th. if th = 0 then [Starting [0..<length tf]] else []), loops = first_try, started = [], finished = []\<rparr>"

definition pool_reachable :: "task list \<Rightarrow> (nat \<Rightarrow> bool) \<Rightarrow> nat \<Rightarrow> nat \<Rightarrow> pool \<Rightarrow> bool" where
  "pool_reachable tf pinned workers e = (pool_step tf pinned workers)\<^sup>*\<^sup>* (run_start tf e)"

section \<open>The frames of all threads\<close>

definition frames :: "nat \<Rightarrow> pool \<Rightarrow> frame multiset" where
  "frames workers s = (\<Sum>th \<le> workers. mset (stacks s th))"

definition total :: "nat \<Rightarrow> (frame \<Rightarrow> nat) \<Rightarrow> pool \<Rightarrow> nat" where
  "total workers g s = (\<Sum>f \<in># frames workers s. g f)"

lemma frames_replace:
  assumes "th \<le> workers" "stacks s th = fs @ st" "stacks s' = (stacks s)(th := fs' @ st)"
  shows "frames workers s' + mset fs = frames workers s + mset fs'"
proof -
  let ?rest = "\<Sum>th' \<in> {..workers} - {th}. mset (stacks s th')"
  have "frames workers s = mset (stacks s th) + ?rest" unfolding frames_def by (rule sum.remove) (use assms(1) in auto)
  moreover have "frames workers s' = mset (stacks s' th) + (\<Sum>th' \<in> {..workers} - {th}. mset (stacks s' th'))"
    unfolding frames_def by (rule sum.remove) (use assms(1) in auto)
  moreover have "(\<Sum>th' \<in> {..workers} - {th}. mset (stacks s' th')) = ?rest"
    by (rule sum.cong) (simp_all add: assms(3))
  ultimately show ?thesis using assms(2,3) by simp
qed

lemma in_frames: "f \<in># frames workers s \<longleftrightarrow> (\<exists>th \<le> workers. f \<in> set (stacks s th))"
  unfolding frames_def by (subst set_mset_sum) auto

lemma frames_empty: "frames workers s = {#} \<longleftrightarrow> (\<forall>th \<le> workers. stacks s th = [])"
  unfolding frames_def by (auto simp: sum_eq_empty_iff)

lemma total_zero: "(\<And>f. f \<in># frames workers s \<Longrightarrow> g f = 0) \<Longrightarrow> total workers g s = 0"
  by (simp add: total_def)

lemma total_pos: "f \<in># frames workers s \<Longrightarrow> g f \<le> total workers g s"
  unfolding total_def by (metis le_add1 mset_add sum_mset.insert image_mset_add_mset)

end
