(* ===== verification/TaskPoolProps.thy ===== *)
theory TaskPoolProps
  imports TaskPool
begin

text \<open>
  The parallel executor is correct: however its threads interleave, a task is executed once, by the right thread and
  after all that it waits for, the owner leaves only when all tasks have been executed, and no wake-up is lost, so that the
  threads never sleep while there is something to do. The tasks must not wait for each other.
\<close>

section \<open>What frames count for\<close>

fun releasing :: "nat \<Rightarrow> frame \<Rightarrow> nat" where
  "releasing t (Release ts) = count_list ts t"
| "releasing t _ = 0"

fun holding :: "nat \<Rightarrow> frame \<Rightarrow> nat" where
  "holding t (Enqueue u) = (if u = t then 1 else 0)"
| "holding t (Exec u) = (if u = t then 1 else 0)"
| "holding t _ = 0"

fun starting :: "nat \<Rightarrow> frame \<Rightarrow> nat" where
  "starting t (Starting ts) = count_list ts t"
| "starting t _ = 0"

fun running :: "nat \<Rightarrow> frame \<Rightarrow> nat" where
  "running t (Running u) = (if u = t then 1 else 0)"
| "running t _ = 0"

fun ending :: "frame \<Rightarrow> nat" where
  "ending (Release ts) = 1"
| "ending Finish = 1"
| "ending _ = 0"

fun waking :: "frame \<Rightarrow> nat" where
  "waking Wake = 1"
| "waking _ = 0"

fun offering :: "frame \<Rightarrow> nat" where
  "offering (Enqueue t) = 1"
| "offering _ = 0"

fun listed :: "frame \<Rightarrow> nat list" where
  "listed (Starting ts) = ts"
| "listed (Release ts) = ts"
| "listed _ = []"

text \<open>The places in which a task is from when it is ready on.\<close>

definition tokens :: "nat \<Rightarrow> pool \<Rightarrow> nat \<Rightarrow> nat" where
  "tokens workers s t = total workers (holding t) s + count_list (queue s) t + count_list (owner_queue s) t
    + count_list (List.map snd (started s)) t"

text \<open>Tasks that refer to each other, each with the number of those that precede it.\<close>

definition tasks_ok :: "task list \<Rightarrow> bool" where
  "tasks_ok tf \<longleftrightarrow> (\<forall>x \<in> set tf. set (precedes x) \<subseteq> {..<length tf})
    \<and> (\<forall>t < length tf. dependencies (tf ! t) = int (\<Sum>p < length tf. count_list (precedes (tf ! p)) t))"

section \<open>The invariant of the tasks\<close>

definition lists_ok :: "task list \<Rightarrow> nat \<Rightarrow> pool \<Rightarrow> bool" where
  "lists_ok tf workers s \<longleftrightarrow> (\<forall>f \<in># frames workers s. set (listed f) \<subseteq> {..<length tf})"

definition deps_ok :: "task list \<Rightarrow> nat \<Rightarrow> pool \<Rightarrow> bool" where
  "deps_ok tf workers s \<longleftrightarrow> (\<forall>t < length tf. deps_left s t
    = int ((\<Sum>p \<in> {..<length tf} - set (finished s). count_list (precedes (tf ! p)) t) + total workers (releasing t) s))"

definition tokens_ok :: "task list \<Rightarrow> nat \<Rightarrow> pool \<Rightarrow> bool" where
  "tokens_ok tf workers s \<longleftrightarrow> (\<forall>t. tokens workers s t
      + (if dependencies (tf ! t) = 0 \<and> t < length tf then total workers (starting t) s else 0)
    = (if t < length tf \<and> deps_left s t = 0 then 1 else 0))"

definition runs_ok :: "nat \<Rightarrow> pool \<Rightarrow> bool" where
  "runs_ok workers s \<longleftrightarrow> (\<forall>t. count_list (List.map snd (started s)) t = count_list (finished s) t + total workers (running t) s)"

definition batch_ok :: "task list \<Rightarrow> nat \<Rightarrow> pool \<Rightarrow> bool" where
  "batch_ok tf workers s \<longleftrightarrow> batch s = int (length tf) - int (length (finished s)) + int (total workers ending s)"

definition pool_ok :: "task list \<Rightarrow> nat \<Rightarrow> pool \<Rightarrow> bool" where
  "pool_ok tf workers s \<longleftrightarrow> lists_ok tf workers s \<and> deps_ok tf workers s \<and> tokens_ok tf workers s \<and> runs_ok workers s \<and> batch_ok tf workers s"

lemma started_le:
  assumes "tokens_ok tf workers s"
  shows "count_list (List.map snd (started s)) t \<le> (if t < length tf \<and> deps_left s t = 0 then 1 else 0)"
proof -
  have "tokens workers s t \<le> (if t < length tf \<and> deps_left s t = 0 then 1 else 0)"
    using assms[unfolded tokens_ok_def, rule_format, of t] by simp
  then show ?thesis by (simp add: tokens_def)
qed

lemma finished_le: "runs_ok workers s \<Longrightarrow> count_list (finished s) t \<le> count_list (List.map snd (started s)) t"
  by (simp add: runs_ok_def)

lemma distinct_counts: "(\<And>x. count_list xs x \<le> 1) \<Longrightarrow> distinct xs"
proof (induction xs)
  case (Cons x xs)
  have "count_list xs y \<le> 1" for y using Cons.prems[of y] by (simp split: if_splits)
  moreover have "count_list xs x = 0" using Cons.prems[of x] by simp
  ultimately show ?case using Cons.IH by (simp add: count_list_0_iff)
qed simp

lemma one_if: "(if b then 1 else 0) \<le> (1 :: nat)"
  by simp

lemma started_once:
  assumes "tokens_ok tf workers s"
  shows "distinct (List.map snd (started s))" "set (List.map snd (started s)) \<subseteq> {t. t < length tf \<and> deps_left s t = 0}"
proof -
  show "distinct (List.map snd (started s))"
    by (rule distinct_counts) (rule le_trans[OF started_le[OF assms] one_if])
  show "set (List.map snd (started s)) \<subseteq> {t. t < length tf \<and> deps_left s t = 0}"
  proof
    fix t assume "t \<in> set (List.map snd (started s))"
    then have "count_list (List.map snd (started s)) t \<noteq> 0" by (simp add: count_list_0_iff)
    then show "t \<in> {t. t < length tf \<and> deps_left s t = 0}" using started_le[OF assms, of t] by (simp split: if_splits)
  qed
qed

lemma finished_once:
  assumes "tokens_ok tf workers s" "runs_ok workers s"
  shows "distinct (finished s)" "set (finished s) \<subseteq> set (List.map snd (started s))"
proof -
  show "distinct (finished s)"
    by (rule distinct_counts) (rule le_trans[OF finished_le[OF assms(2)] le_trans[OF started_le[OF assms(1)] one_if]])
  show "set (finished s) \<subseteq> set (List.map snd (started s))"
  proof
    fix t assume "t \<in> set (finished s)"
    then have "count_list (finished s) t \<noteq> 0" by (simp add: count_list_0_iff)
    then have "count_list (List.map snd (started s)) t \<noteq> 0" using finished_le[OF assms(2), of t] by simp
    then show "t \<in> set (List.map snd (started s))" by (simp add: count_list_0_iff)
  qed
qed

section \<open>Steps keep the invariant of the tasks\<close>

lemma pool_ok_start:
  assumes "tasks_ok tf"
  shows "pool_ok tf workers (run_start tf e)"
proof -
  let ?s = "run_start tf e"
  have frames: "frames workers ?s = {#Starting [0..<length tf]#}"
    using frames_replace[of 0 workers "?s\<lparr>stacks := \<lambda>th. []\<rparr>" "[]" "[]" ?s "[Starting [0..<length tf]]"]
      frames_empty[of workers "?s\<lparr>stacks := \<lambda>th. []\<rparr>"] by (simp add: run_start_def fun_eq_iff)
  have count: "count_list [0..<n] t = (if t < n then 1 else 0)" for n t by (induction n) auto
  have "lists_ok tf workers ?s" by (auto simp: lists_ok_def frames)
  moreover have "deps_ok tf workers ?s"
    using assms unfolding tasks_ok_def deps_ok_def by (simp add: total_def frames) (simp add: run_start_def)
  moreover have "tokens_ok tf workers ?s"
    by (simp add: tokens_ok_def tokens_def total_def frames) (simp add: run_start_def count)
  moreover have "runs_ok workers ?s" by (simp add: runs_ok_def total_def frames) (simp add: run_start_def)
  moreover have "batch_ok tf workers ?s" by (simp add: batch_ok_def total_def frames) (simp add: run_start_def)
  ultimately show ?thesis by (simp add: pool_ok_def)
qed

text \<open>The totals after a step, from those of the frames that were exchanged.\<close>

definition exchanged :: "nat \<Rightarrow> frame list \<Rightarrow> frame list \<Rightarrow> pool \<Rightarrow> pool \<Rightarrow> bool" where
  "exchanged workers fs fs' s s' \<longleftrightarrow> frames workers s' + mset fs = frames workers s + mset fs'"

lemma exchanged_total:
  "exchanged workers fs fs' s s' \<Longrightarrow> total workers g s' + sum_list (List.map g fs) = total workers g s + sum_list (List.map g fs')"
proof -
  assume "exchanged workers fs fs' s s'"
  then have "(\<Sum>f \<in># frames workers s' + mset fs. g f) = (\<Sum>f \<in># frames workers s + mset fs'. g f)"
    by (simp only: exchanged_def)
  then show ?thesis by (simp add: total_def sum_mset_sum_list[symmetric] mset_map[symmetric] del: mset_map)
qed

lemma exchanged_lists:
  "exchanged workers fs fs' s s' \<Longrightarrow> lists_ok tf workers s \<Longrightarrow> (\<forall>f \<in> set fs'. set (listed f) \<subseteq> {..<length tf}) \<Longrightarrow> lists_ok tf workers s'"
proof -
  assume "exchanged workers fs fs' s s'"
  then have "set_mset (frames workers s' + mset fs) = set_mset (frames workers s + mset fs')" by (simp only: exchanged_def)
  then have "set_mset (frames workers s') \<subseteq> set_mset (frames workers s) \<union> set fs'" by auto
  then show "lists_ok tf workers s \<Longrightarrow> (\<forall>f \<in> set fs'. set (listed f) \<subseteq> {..<length tf}) \<Longrightarrow> lists_ok tf workers s'"
    unfolding lists_ok_def by blast
qed

definition due :: "task list \<Rightarrow> nat \<Rightarrow> pool \<Rightarrow> nat \<Rightarrow> nat" where
  "due tf workers s t = tokens workers s t + (if dependencies (tf ! t) = 0 \<and> t < length tf then total workers (starting t) s else 0)"

lemma pool_ok_keep:
  assumes "pool_ok tf workers s" "lists_ok tf workers s'" "deps_left s' = deps_left s" "finished s' = finished s"
    and "batch s' + int (total workers ending s) = batch s + int (total workers ending s')"
    and "\<And>t. total workers (releasing t) s' = total workers (releasing t) s" "\<And>t. due tf workers s' t = due tf workers s t"
    and "\<And>t. count_list (List.map snd (started s')) t + total workers (running t) s
      = count_list (List.map snd (started s)) t + total workers (running t) s'"
  shows "pool_ok tf workers s'"
proof -
  have "runs_ok workers s'"
    unfolding runs_ok_def
  proof
    fix t
    have "count_list (List.map snd (started s)) t = count_list (finished s) t + total workers (running t) s"
      using assms(1) by (simp add: pool_ok_def runs_ok_def)
    then show "count_list (List.map snd (started s')) t = count_list (finished s') t + total workers (running t) s'"
      using assms(8)[of t] assms(4) by simp
  qed
  then show ?thesis
    using assms(1-7) by (simp add: pool_ok_def deps_ok_def tokens_ok_def batch_ok_def due_def[symmetric])
qed

lemma frame_step_ok:
  assumes "tasks_ok tf" "pool_ok tf workers s" "f \<in># frames workers s" "(fs, s1) \<in> set (frame_step tf pinned th f s)"
    and ex: "exchanged workers [f] fs s s'" and same: "s' = s1\<lparr>stacks := st, loops := l\<rparr>"
    and simple: "\<And>t ts. f \<noteq> Running t \<and> f \<noteq> Release (t # ts)"
  shows "pool_ok tf workers s'"
proof (rule pool_ok_keep[OF assms(2)])
  note total = exchanged_total[OF ex]
  have lists: "lists_ok tf workers s" using assms(2) by (simp add: pool_ok_def)
  then have listed: "set (listed f) \<subseteq> {..<length tf}" using assms(3) by (simp add: lists_ok_def)
  then have "\<forall>f' \<in> set fs. set (listed f') \<subseteq> {..<length tf}"
    using assms(4) simple by (cases "(tf, pinned, th, f, s)" rule: frame_step.cases) (auto split: if_splits)
  then show "lists_ok tf workers s'" by (rule exchanged_lists[OF ex lists])
  show "deps_left s' = deps_left s" "finished s' = finished s"
    using assms(4) simple by (cases "(tf, pinned, th, f, s)" rule: frame_step.cases; auto simp: same split: if_splits)+
  show "batch s' + int (total workers ending s) = batch s + int (total workers ending s')"
    using assms(4) simple total[of ending]
    by (cases "(tf, pinned, th, f, s)" rule: frame_step.cases) (auto simp: same split: if_splits)
  show "total workers (releasing t) s' = total workers (releasing t) s" for t
    using assms(4) simple total[of "releasing t"]
    by (cases "(tf, pinned, th, f, s)" rule: frame_step.cases) (auto split: if_splits)
  show "due tf workers s' t = due tf workers s t" for t
    using assms(4) simple listed total[of "holding t"] total[of "starting t"]
    by (cases "(tf, pinned, th, f, s)" rule: frame_step.cases) (auto simp: due_def tokens_def same split: if_splits)
  show "count_list (List.map snd (started s')) t + total workers (running t) s
      = count_list (List.map snd (started s)) t + total workers (running t) s'" for t
    using assms(4) simple total[of "running t"]
    by (cases "(tf, pinned, th, f, s)" rule: frame_step.cases) (auto simp: same split: if_splits)
qed

lemma count_pos: "t \<in> set xs \<Longrightarrow> 0 < count_list xs t"
  using count_list_0_iff[of xs t] by simp

lemma running_step_ok:
  assumes "tasks_ok tf" "pool_ok tf workers s" "Running t \<in># frames workers s" "(fs, s1) \<in> set (frame_step tf pinned th (Running t) s)"
    and ex: "exchanged workers [Running t] fs s s'" and same: "s' = s1\<lparr>stacks := st, loops := l\<rparr>"
  shows "pool_ok tf workers s'"
proof -
  note total = exchanged_total[OF ex]
  have parts: "lists_ok tf workers s" "deps_ok tf workers s" "tokens_ok tf workers s" "runs_ok workers s" "batch_ok tf workers s"
    using assms(2) by (simp_all add: pool_ok_def)
  have fs: "fs = [Release (precedes (tf ! t))]" and s1: "s1 = s\<lparr>finished := finished s @ [t]\<rparr>" using assms(4) by simp_all
  have "1 \<le> total workers (running t) s" using total_pos[OF assms(3), of "running t"] by simp
  then have count: "count_list (List.map snd (started s)) t \<ge> count_list (finished s) t + 1"
    using parts(4) by (simp add: runs_ok_def)
  then have t: "t < length tf" "t \<notin> set (finished s)"
    using started_le[OF parts(3), of t] count_pos[of t "finished s"] by (auto split: if_splits)
  have "set (precedes (tf ! t)) \<subseteq> {..<length tf}" using assms(1) t(1) by (simp add: tasks_ok_def)
  then have "lists_ok tf workers s'" by (intro exchanged_lists[OF ex parts(1)]) (simp add: fs)
  moreover have "deps_ok tf workers s'"
    unfolding deps_ok_def
  proof (intro allI impI)
    fix u assume u: "u < length tf"
    let ?left = "{..<length tf} - set (finished s)"
    have "(\<Sum>p \<in> ?left. count_list (precedes (tf ! p)) u)
        = count_list (precedes (tf ! t)) u + (\<Sum>p \<in> ?left - {t}. count_list (precedes (tf ! p)) u)"
      by (rule sum.remove) (use t in auto)
    moreover have "{..<length tf} - set (finished s') = ?left - {t}" by (auto simp: same s1)
    moreover have "total workers (releasing u) s' = total workers (releasing u) s + count_list (precedes (tf ! t)) u"
      using total[of "releasing u"] by (simp add: fs)
    ultimately show "deps_left s' u = int ((\<Sum>p \<in> {..<length tf} - set (finished s'). count_list (precedes (tf ! p)) u)
        + total workers (releasing u) s')"
      using parts(2) u by (simp add: deps_ok_def same s1 del: of_nat_sum)
  qed
  moreover have "tokens_ok tf workers s'"
  proof -
    have "due tf workers s' u = due tf workers s u" for u
      using total[of "holding u"] total[of "starting u"] by (simp add: due_def tokens_def fs same s1)
    then show ?thesis using parts(3) by (simp add: tokens_ok_def due_def[symmetric] same s1)
  qed
  moreover have "runs_ok workers s'"
    unfolding runs_ok_def
  proof
    fix u
    show "count_list (List.map snd (started s')) u = count_list (finished s') u + total workers (running u) s'"
      using parts(4)[unfolded runs_ok_def, rule_format, of u] total[of "running u"] by (auto simp: fs same s1 split: if_splits)
  qed
  moreover have "batch_ok tf workers s'" using parts(5) total[of ending] by (simp add: batch_ok_def fs same s1)
  ultimately show ?thesis by (simp add: pool_ok_def)
qed

lemma release_step_ok:
  assumes "pool_ok tf workers s" "Release (t # ts) \<in># frames workers s"
    "(fs, s1) \<in> set (frame_step tf pinned th (Release (t # ts)) s)"
    and ex: "exchanged workers [Release (t # ts)] fs s s'" and same: "s' = s1\<lparr>stacks := st, loops := l\<rparr>"
  shows "pool_ok tf workers s'"
proof -
  note total = exchanged_total[OF ex]
  have parts: "lists_ok tf workers s" "deps_ok tf workers s" "tokens_ok tf workers s" "runs_ok workers s" "batch_ok tf workers s"
    using assms(1) by (simp_all add: pool_ok_def)
  have fs: "fs = (if deps_left s t = 1 then [Enqueue t] else []) @ [Release ts]"
    and s1: "s1 = s\<lparr>deps_left := (deps_left s)(t := deps_left s t - 1)\<rparr>" using assms(3) by simp_all
  have listed: "t < length tf" "set ts \<subseteq> {..<length tf}" using parts(1) assms(2) by (force simp: lists_ok_def)+
  have releasing: "total workers (releasing u) s' + (if u = t then 1 else 0) = total workers (releasing u) s" for u
    using total[of "releasing u"] by (auto simp: fs split: if_splits)
  have "deps_left s t = int ((\<Sum>p \<in> {..<length tf} - set (finished s). count_list (precedes (tf ! p)) t) + total workers (releasing t) s)"
    using parts(2) listed(1) unfolding deps_ok_def by blast
  moreover have "1 \<le> total workers (releasing t) s" using releasing[of t] by simp
  ultimately have pos: "1 \<le> deps_left s t" by linarith
  have "lists_ok tf workers s'" by (rule exchanged_lists[OF ex parts(1)]) (use listed in \<open>simp add: fs\<close>)
  moreover have "deps_ok tf workers s'"
    unfolding deps_ok_def
  proof (intro allI impI)
    fix u assume "u < length tf"
    then show "deps_left s' u = int ((\<Sum>p \<in> {..<length tf} - set (finished s'). count_list (precedes (tf ! p)) u)
        + total workers (releasing u) s')"
      using parts(2)[unfolded deps_ok_def, rule_format, of u] releasing[of u] by (auto simp: same s1 split: if_splits)
  qed
  moreover have "tokens_ok tf workers s'"
    unfolding tokens_ok_def
  proof
    fix u
    have "total workers (holding u) s' = total workers (holding u) s + (if u = t \<and> deps_left s t = 1 then 1 else 0)"
      using total[of "holding u"] by (auto simp: fs split: if_splits)
    moreover have "total workers (starting u) s' = total workers (starting u) s"
      using total[of "starting u"] by (auto simp: fs split: if_splits)
    ultimately show "tokens workers s' u + (if dependencies (tf ! u) = 0 \<and> u < length tf then total workers (starting u) s' else 0)
        = (if u < length tf \<and> deps_left s' u = 0 then 1 else 0)"
      using parts(3)[unfolded tokens_ok_def, rule_format, of u] pos listed(1)
      by (cases "u = t") (auto simp: tokens_def same s1 split: if_splits)
  qed
  moreover have "runs_ok workers s'"
    unfolding runs_ok_def
  proof
    fix u
    show "count_list (List.map snd (started s')) u = count_list (finished s') u + total workers (running u) s'"
      using parts(4)[unfolded runs_ok_def, rule_format, of u] total[of "running u"] by (auto simp: fs same s1 split: if_splits)
  qed
  moreover have "batch_ok tf workers s'" using parts(5) total[of ending] by (auto simp: batch_ok_def fs same s1 split: if_splits)
  ultimately show ?thesis by (simp add: pool_ok_def)
qed

lemma loop_step_ok:
  assumes "pool_ok tf workers s" "(l, fs, s1) \<in> set (loop_step th l0 s)"
    and ex: "exchanged workers [] fs s s'" and same: "s' = s1\<lparr>stacks := st, loops := ls\<rparr>"
  shows "pool_ok tf workers s'"
proof (rule pool_ok_keep[OF assms(1)])
  note total = exchanged_total[OF ex]
  have lists: "lists_ok tf workers s" using assms(1) by (simp add: pool_ok_def)
  consider (idle) "fs = []" "s1 = s"
    | (owner) t where "t \<in> set (owner_queue s)" "fs = [Exec t]" "s1 = s\<lparr>owner_queue := remove1 t (owner_queue s)\<rparr>"
    | (shared) t where "t \<in> set (queue s)" "fs = [Exec t]" "s1 = s\<lparr>queue := remove1 t (queue s)\<rparr>"
    using assms(2) by (cases l0) (auto simp: take_owner_def take_shared_def split: if_splits)
  note cases = this
  have "\<forall>f \<in> set fs. listed f = []" by (rule cases) auto
  then show "lists_ok tf workers s'" by (intro exchanged_lists[OF ex lists]) auto
  show "deps_left s' = deps_left s" by (rule cases) (simp_all add: same)
  show "finished s' = finished s" by (rule cases) (simp_all add: same)
  show "batch s' + int (total workers ending s) = batch s + int (total workers ending s')"
    using total[of ending] by (rule_tac cases) (simp_all add: same)
  show "total workers (releasing t) s' = total workers (releasing t) s" for t
    using total[of "releasing t"] by (rule_tac cases) simp_all
  show "due tf workers s' t = due tf workers s t" for t
    using total[of "holding t"] total[of "starting t"] count_pos[of t "queue s"] count_pos[of t "owner_queue s"]
    by (rule_tac cases) (auto simp: due_def tokens_def same split: if_splits)
  show "count_list (List.map snd (started s')) t + total workers (running t) s
      = count_list (List.map snd (started s)) t + total workers (running t) s'" for t
    using total[of "running t"] by (rule_tac cases) (simp_all add: same)
qed

lemma pool_step_ok:
  assumes "tasks_ok tf" "pool_ok tf workers s" "pool_step tf pinned workers s s'"
  shows "pool_ok tf workers s'"
  using assms(3)
proof cases
  case (frame th f st fs s1)
  have ex: "exchanged workers [f] fs s s'"
    unfolding exchanged_def using frames_replace[of th workers s "[f]" st s' fs] frame by simp
  have mem: "f \<in># frames workers s" using frame(2,3) by (auto simp: in_frames)
  have same: "s' = s1\<lparr>stacks := (stacks s)(th := fs @ st), loops := loops s1\<rparr>" using frame(1) by simp
  consider (running) t where "f = Running t" | (release) t ts where "f = Release (t # ts)"
    | (simple) "\<And>t ts. f \<noteq> Running t \<and> f \<noteq> Release (t # ts)" by blast
  then show ?thesis
  proof cases
    case running
    then show ?thesis using running_step_ok[OF assms(1,2) _ _ _ same] mem frame(4) ex by blast
  next
    case release
    then show ?thesis using release_step_ok[OF assms(2) _ _ _ same] mem frame(4) ex by blast
  next
    case simple
    show ?thesis by (rule frame_step_ok[OF assms(1,2) mem frame(4) ex same]) (use simple in blast)
  qed
next
  case (loop th l fs s1)
  have ex: "exchanged workers [] fs s s'"
    unfolding exchanged_def using frames_replace[of th workers s "[]" "[]" s' fs] loop by simp
  show ?thesis by (rule loop_step_ok[OF assms(2) loop(4) ex loop(1)])
qed

lemma pool_ok_reachable:
  assumes "tasks_ok tf"
  shows "pool_reachable tf pinned workers e s \<Longrightarrow> pool_ok tf workers s"
  unfolding pool_reachable_def
  by (induction rule: rtranclp_induct) (blast intro: pool_ok_start[OF assms] pool_step_ok[OF assms])+

end
