(* ===== verification/TaskPoolRuns.thy ===== *)
theory TaskPoolRuns
  imports TaskPoolProps
begin

text \<open>
  The runs of the parallel executor: which thread executes what, why no thread sleeps while there is work, and that every
  run ends.
\<close>

section \<open>Who executes what\<close>

definition owner_only :: "task list \<Rightarrow> (nat \<Rightarrow> bool) \<Rightarrow> nat \<Rightarrow> bool" where
  "owner_only tf pinned t \<longleftrightarrow> pinned (task_node (tf ! t))"

fun owner_loop :: "loop \<Rightarrow> bool" where
  "owner_loop Check1 = True"
| "owner_loop Owner1 = True"
| "owner_loop (Check2 e) = True"
| "owner_loop (Owner2 e) = True"
| "owner_loop Left = True"
| "owner_loop _ = False"

definition threads_ok :: "task list \<Rightarrow> (nat \<Rightarrow> bool) \<Rightarrow> pool \<Rightarrow> bool" where
  "threads_ok tf pinned s \<longleftrightarrow> (\<forall>th. th \<noteq> 0 \<longrightarrow> \<not> owner_loop (loops s th))
    \<and> (\<forall>th t. Exec t \<in> set (stacks s th) \<and> owner_only tf pinned t \<longrightarrow> th = 0)
    \<and> (\<forall>t \<in> set (queue s). \<not> owner_only tf pinned t)
    \<and> (\<forall>(th, t) \<in> set (started s). owner_only tf pinned t \<longrightarrow> th = 0)"

lemma threads_ok_step:
  assumes "threads_ok tf pinned s" "pool_step tf pinned workers s s'"
  shows "threads_ok tf pinned s'"
  using assms(2)
proof cases
  case (frame th f st fs s1)
  have old: "\<forall>th. th \<noteq> 0 \<longrightarrow> \<not> owner_loop (loops s th)"
    "\<And>th t. Exec t \<in> set (stacks s th) \<Longrightarrow> owner_only tf pinned t \<Longrightarrow> th = 0"
    "\<forall>t \<in> set (queue s). \<not> owner_only tf pinned t" "\<forall>(th, t) \<in> set (started s). owner_only tf pinned t \<longrightarrow> th = 0"
    using assms(1) by (auto simp: threads_ok_def)
  have new: "Exec t \<in> set fs \<Longrightarrow> owner_only tf pinned t \<Longrightarrow> th = 0" for t
    using frame(4) by (cases "(tf, pinned, th, f, s)" rule: frame_step.cases) (auto simp: owner_only_def split: if_splits)
  have "loops s1 = loops s" "\<forall>t \<in> set (queue s1). \<not> owner_only tf pinned t"
    "\<forall>(th, t) \<in> set (started s1). owner_only tf pinned t \<longrightarrow> th = 0"
    using frame(4) old(3,4) old(2)[of _ th] frame(3)
    by (cases "(tf, pinned, th, f, s)" rule: frame_step.cases; auto simp: owner_only_def split: if_splits)+
  moreover have "Exec t \<in> set st \<Longrightarrow> owner_only tf pinned t \<Longrightarrow> th = 0" for t using old(2)[of t th] frame(3) by simp
  ultimately show ?thesis using old(1) old(2) new unfolding threads_ok_def frame(1) by auto
next
  case (loop th l fs s1)
  have old: "\<forall>th. th \<noteq> 0 \<longrightarrow> \<not> owner_loop (loops s th)"
    "\<And>th t. Exec t \<in> set (stacks s th) \<Longrightarrow> owner_only tf pinned t \<Longrightarrow> th = 0"
    "\<forall>t \<in> set (queue s). \<not> owner_only tf pinned t" "\<forall>(th, t) \<in> set (started s). owner_only tf pinned t \<longrightarrow> th = 0"
    using assms(1) by (auto simp: threads_ok_def)
  have own: "th \<noteq> 0 \<Longrightarrow> \<not> owner_loop (loops s th)" using old(1) by simp
  have new: "Exec t \<in> set fs \<Longrightarrow> owner_only tf pinned t \<Longrightarrow> th = 0" for t
    using loop(4) own old(3) by (cases "loops s th") (auto simp: take_owner_def take_shared_def split: if_splits)
  have new': "th \<noteq> 0 \<Longrightarrow> \<not> owner_loop l"
    using loop(4) own by (cases "loops s th") (auto simp: take_owner_def take_shared_def first_try_def split: if_splits)
  have "\<forall>t \<in> set (queue s1). \<not> owner_only tf pinned t" "started s1 = started s"
    using loop(4) old(3)
    by (cases "loops s th"; auto simp: take_owner_def take_shared_def dest: notin_set_remove1 split: if_splits)+
  then show ?thesis using old(1,2,4) new new' unfolding threads_ok_def loop(1) by auto
qed

lemma threads_ok_start: "threads_ok tf pinned (run_start tf e)"
  by (simp add: threads_ok_def run_start_def first_try_def)

lemma threads_ok_reachable: "pool_reachable tf pinned workers e s \<Longrightarrow> threads_ok tf pinned s"
  unfolding pool_reachable_def
  by (induction rule: rtranclp_induct) (blast intro: threads_ok_start threads_ok_step)+

section \<open>Sleeping\<close>

text \<open>What a thread has seen since it read the counter still holds, unless a call to \<open>wake\<close> is under way.\<close>

definition still :: "nat \<Rightarrow> pool \<Rightarrow> bool \<Rightarrow> bool" where
  "still workers s b \<longleftrightarrow> total workers waking s > 0 \<or> b"

fun loop_ok :: "nat \<Rightarrow> nat \<Rightarrow> pool \<Rightarrow> nat \<Rightarrow> loop \<Rightarrow> bool" where
  "loop_ok workers e0 s th (Check2 e) \<longleftrightarrow> e0 \<le> e \<and> e \<le> epoch s"
| "loop_ok workers e0 s th (Owner2 e) \<longleftrightarrow> e0 \<le> e \<and> e \<le> epoch s \<and> (e = epoch s \<longrightarrow> still workers s (batch s \<noteq> 0))"
| "loop_ok workers e0 s th (Shared2 e) \<longleftrightarrow> e0 \<le> e \<and> e \<le> epoch s
    \<and> (e = epoch s \<and> th = 0 \<longrightarrow> still workers s (batch s \<noteq> 0) \<and> still workers s (owner_queue s = []))"
| "loop_ok workers e0 s th (Wait e) \<longleftrightarrow> e0 \<le> e \<and> e \<le> epoch s \<and> (e = epoch s \<longrightarrow> still workers s (queue s = []))
    \<and> (e = epoch s \<and> th = 0 \<longrightarrow> still workers s (batch s \<noteq> 0) \<and> still workers s (owner_queue s = []))"
| "loop_ok workers e0 s th Left \<longleftrightarrow> batch s = 0"
| "loop_ok workers e0 s th _ \<longleftrightarrow> True"

definition sleep_ok :: "nat \<Rightarrow> nat \<Rightarrow> pool \<Rightarrow> bool" where
  "sleep_ok workers e0 s \<longleftrightarrow> e0 \<le> epoch s \<and> (\<forall>th. loop_ok workers e0 s th (loops s th))"

lemma loop_ok_woken:
  "loop_ok workers e0 s th l \<Longrightarrow> epoch s < epoch s' \<Longrightarrow> batch s' = batch s \<Longrightarrow> loop_ok workers e0 s' th l"
  by (cases "(workers, e0, s, th, l)" rule: loop_ok.cases) auto

lemma loop_ok_still:
  assumes "loop_ok workers e0 s th l" "epoch s' = epoch s" "total workers waking s \<le> total workers waking s'"
    "queue s = [] \<Longrightarrow> still workers s' (queue s' = [])" "owner_queue s = [] \<Longrightarrow> still workers s' (owner_queue s' = [])"
    "batch s \<noteq> 0 \<Longrightarrow> still workers s' (batch s' \<noteq> 0)" "batch s = 0 \<Longrightarrow> batch s' = 0"
  shows "loop_ok workers e0 s' th l"
  using assms by (cases "(workers, e0, s, th, l)" rule: loop_ok.cases) (auto simp: still_def)

lemma batch_bounds:
  assumes "pool_ok tf workers s"
  shows "length (finished s) \<le> length tf" "int (total workers ending s) \<le> batch s"
proof -
  have "distinct (finished s)" "set (finished s) \<subseteq> {..<length tf}"
    using assms finished_once started_once(2) unfolding pool_ok_def by blast+
  then show le: "length (finished s) \<le> length tf" by (metis card_lessThan card_mono distinct_card finite_lessThan)
  then show "int (total workers ending s) \<le> batch s" using assms by (simp add: pool_ok_def batch_ok_def)
qed

lemma sleep_ok_frame:
  assumes ok: "pool_ok tf workers s" and sleep: "sleep_ok workers e0 s" and mem: "f \<in># frames workers s"
    and step: "(fs, s1) \<in> set (frame_step tf pinned th f s)"
    and ex: "exchanged workers [f] fs s s'" and same: "s' = s1\<lparr>stacks := st\<rparr>"
  shows "sleep_ok workers e0 s'"
proof -
  have wakes: "total workers waking s' + waking f = total workers waking s + sum_list (List.map waking fs)"
    using exchanged_total[OF ex, of waking] by simp
  have loops: "loops s' = loops s" using step by (cases "(tf, pinned, th, f, s)" rule: frame_step.cases) (auto simp: same split: if_splits)
  show ?thesis
  proof (cases "f = Wake")
    case True
    then show ?thesis using sleep loop_ok_woken[of workers e0 s _ _ s'] step loops by (simp add: sleep_ok_def same)
  next
    case False
    have "epoch s' = epoch s" "total workers waking s \<le> total workers waking s'"
      using step False wakes by (cases "(tf, pinned, th, f, s)" rule: frame_step.cases; auto simp: same split: if_splits)+
    moreover have "queue s = [] \<Longrightarrow> still workers s' (queue s' = [])" "owner_queue s = [] \<Longrightarrow> still workers s' (owner_queue s' = [])"
      using step wakes
      by (cases "(tf, pinned, th, f, s)" rule: frame_step.cases; auto simp: same still_def split: if_splits)+
    moreover have "batch s \<noteq> 0 \<Longrightarrow> still workers s' (batch s' \<noteq> 0)"
      using step wakes by (cases "(tf, pinned, th, f, s)" rule: frame_step.cases) (auto simp: same still_def split: if_splits)
    moreover have "batch s = 0 \<Longrightarrow> batch s' = 0"
      using step batch_bounds(2)[OF ok] total_pos[OF mem, of ending]
      by (cases "(tf, pinned, th, f, s)" rule: frame_step.cases) (auto simp: same split: if_splits)
    ultimately show ?thesis using sleep loop_ok_still[of workers e0 s _ _ s'] by (simp add: sleep_ok_def loops)
  qed
qed

lemma loop_step_loops: "(l, fs, s1) \<in> set (loop_step th l0 s) \<Longrightarrow> loops s1 = loops s"
  by (cases l0) (auto simp: take_owner_def take_shared_def split: if_splits)

lemma sleep_ok_loop:
  assumes sleep: "sleep_ok workers e0 s" and step: "(l, fs, s1) \<in> set (loop_step th (loops s th) s)"
    and ex: "exchanged workers [] fs s s'" and same: "s' = s1\<lparr>stacks := st, loops := (loops s)(th := l)\<rparr>"
  shows "sleep_ok workers e0 s'"
proof -
  have old: "loop_ok workers e0 s th (loops s th)" "e0 \<le> epoch s" using sleep by (simp_all add: sleep_ok_def)
  have rest: "epoch s' = epoch s" "batch s' = batch s" "queue s = [] \<longrightarrow> queue s' = []" "owner_queue s = [] \<longrightarrow> owner_queue s' = []"
    "sum_list (List.map waking fs) = 0"
    using step by (cases "loops s th"; auto simp: same take_owner_def take_shared_def split: if_splits)+
  have wakes: "total workers waking s' = total workers waking s" using exchanged_total[OF ex, of waking] rest(5) by simp
  have keep: "loop_ok workers e0 s th' l' \<Longrightarrow> loop_ok workers e0 s' th' l'" for th' l'
    by (rule loop_ok_still) (use rest wakes in \<open>auto simp: still_def\<close>)
  have "loop_ok workers e0 s th l"
    using step old by (cases "loops s th") (auto simp: take_owner_def take_shared_def first_try_def still_def split: if_splits)
  then show ?thesis using sleep keep rest(1) by (simp add: sleep_ok_def same)
qed

lemma sleep_ok_step:
  assumes "pool_ok tf workers s" "sleep_ok workers e0 s" "pool_step tf pinned workers s s'"
  shows "sleep_ok workers e0 s'"
  using assms(3)
proof cases
  case (frame th f st fs s1)
  have ex: "exchanged workers [f] fs s s'"
    unfolding exchanged_def using frames_replace[of th workers s "[f]" st s' fs] frame by simp
  have mem: "f \<in># frames workers s" using frame(2,3) by (auto simp: in_frames)
  show ?thesis by (rule sleep_ok_frame[OF assms(1,2) mem frame(4) ex frame(1)])
next
  case (loop th l fs s1)
  have ex: "exchanged workers [] fs s s'"
    unfolding exchanged_def using frames_replace[of th workers s "[]" "[]" s' fs] loop by simp
  show ?thesis by (rule sleep_ok_loop[OF assms(2) loop(4) ex loop(1)])
qed

lemma sleep_ok_start: "sleep_ok workers e (run_start tf e)"
  by (simp add: sleep_ok_def run_start_def first_try_def)

text \<open>A task wakes the others when it is put into a queue, and the end of the batch once more.\<close>

fun held :: "frame \<Rightarrow> nat" where
  "held (Enqueue t) = 1"
| "held (Exec t) = 1"
| "held _ = 0"

definition in_all :: "nat \<Rightarrow> pool \<Rightarrow> nat" where
  "in_all workers s = total workers held s + length (queue s) + length (owner_queue s) + length (started s)"

definition wakes_ok :: "nat \<Rightarrow> nat \<Rightarrow> pool \<Rightarrow> bool" where
  "wakes_ok workers e0 s \<longleftrightarrow> epoch s + total workers waking s + total workers offering s
    \<le> e0 + in_all workers s + (if batch s = 0 then 1 else 0)"

lemma wakes_ok_step:
  assumes ok: "pool_ok tf workers s" and wakes: "wakes_ok workers e0 s" and step: "pool_step tf pinned workers s s'"
  shows "wakes_ok workers e0 s'"
  using step
proof cases
  case (frame th f st fs s1)
  have ex: "exchanged workers [f] fs s s'"
    unfolding exchanged_def using frames_replace[of th workers s "[f]" st s' fs] frame by simp
  have mem: "f \<in># frames workers s" using frame(2,3) by (auto simp: in_frames)
  have "f = Finish \<Longrightarrow> 1 \<le> batch s" using total_pos[OF mem, of ending] batch_bounds(2)[OF ok] by simp
  then show ?thesis
    using wakes exchanged_total[OF ex, of waking] exchanged_total[OF ex, of offering] exchanged_total[OF ex, of held] frame(4)
    by (cases "(tf, pinned, th, f, s)" rule: frame_step.cases) (auto simp: wakes_ok_def in_all_def frame(1) split: if_splits)
next
  case (loop th l fs s1)
  have ex: "exchanged workers [] fs s s'"
    unfolding exchanged_def using frames_replace[of th workers s "[]" "[]" s' fs] loop by simp
  have len: "t \<in> set xs \<Longrightarrow> Suc (length xs - Suc 0) = length xs" for t and xs :: "nat list" by (cases xs) auto
  show ?thesis
    using wakes exchanged_total[OF ex, of waking] exchanged_total[OF ex, of offering] exchanged_total[OF ex, of held] loop(4)
    by (cases "loops s th")
      (auto simp: wakes_ok_def in_all_def loop(1) take_owner_def take_shared_def length_remove1 len split: if_splits)
qed

lemma wakes_ok_start: "wakes_ok workers e (run_start tf e)"
proof -
  have "frames workers (run_start tf e) = {#Starting [0..<length tf]#}"
    using frames_replace[of 0 workers "(run_start tf e)\<lparr>stacks := \<lambda>th. []\<rparr>" "[]" "[]" "run_start tf e" "[Starting [0..<length tf]]"]
      frames_empty[of workers "(run_start tf e)\<lparr>stacks := \<lambda>th. []\<rparr>"] by (simp add: run_start_def fun_eq_iff)
  then show ?thesis by (simp add: wakes_ok_def in_all_def total_def) (simp add: run_start_def)
qed

lemma run_invariants:
  assumes "tasks_ok tf" "pool_reachable tf pinned workers e s"
  shows "pool_ok tf workers s" "sleep_ok workers e s" "wakes_ok workers e s"
proof -
  have "pool_ok tf workers s \<and> sleep_ok workers e s \<and> wakes_ok workers e s"
    using assms(2) unfolding pool_reachable_def
  proof (induction rule: rtranclp_induct)
    case base
    show ?case using pool_ok_start[OF assms(1)] sleep_ok_start wakes_ok_start by blast
  next
    case (step s s')
    then show ?case using pool_step_ok[OF assms(1)] sleep_ok_step wakes_ok_step by blast
  qed
  then show "pool_ok tf workers s" "sleep_ok workers e s" "wakes_ok workers e s" by simp_all
qed

section \<open>The bound of the calls to wake\<close>

lemma sum_total: "(\<Sum>t < n. total workers (g t) s) = (\<Sum>f \<in># frames workers s. \<Sum>t < n. g t f)"
proof -
  have "(\<Sum>t < n. \<Sum>f \<in># M. g t f) = (\<Sum>f \<in># M. \<Sum>t < n. g t f)" for M
    by (induction M) (simp_all add: sum.distrib)
  then show ?thesis by (simp add: total_def)
qed

lemma in_all_bound:
  assumes "pool_ok tf workers s"
  shows "in_all workers s \<le> length tf"
proof -
  let ?n = "length tf"
  have tokens: "tokens_ok tf workers s" using assms by (simp add: pool_ok_def)
  then have le: "tokens workers s t \<le> (if t < ?n then 1 else 0)" for t
    using tokens[unfolded tokens_ok_def, rule_format, of t] by (auto split: if_splits)
  then have far: "?n \<le> t \<Longrightarrow> total workers (holding t) s = 0 \<and> t \<notin> set (queue s) \<and> t \<notin> set (owner_queue s)
      \<and> t \<notin> set (List.map snd (started s))" for t
    using le[of t] by (auto simp: tokens_def count_list_0_iff)
  have "held f = (\<Sum>t < ?n. holding t f)" if f: "f \<in># frames workers s" for f
  proof -
    have "t < ?n" if "f = Enqueue t \<or> f = Exec t" for t
      using far[of t] total_pos[OF f, of "holding t"] that by (cases "t < ?n") auto
    then show ?thesis by (cases f) auto
  qed
  then have "total workers held s = (\<Sum>t < ?n. total workers (holding t) s)"
    unfolding sum_total unfolding total_def by (intro arg_cong[where f = sum_mset] image_mset_cong)
  moreover have "set (queue s) \<subseteq> {..<?n}" "set (owner_queue s) \<subseteq> {..<?n}" "set (List.map snd (started s)) \<subseteq> {..<?n}"
    using far by (meson lessThan_iff linorder_not_less subsetI)+
  then have "(\<Sum>t < ?n. count_list (queue s) t) = length (queue s)" "(\<Sum>t < ?n. count_list (owner_queue s) t) = length (owner_queue s)"
      "(\<Sum>t < ?n. count_list (List.map snd (started s)) t) = length (started s)"
    using sum_count_set[OF _ finite_lessThan] by (metis length_map)+
  ultimately have "in_all workers s = (\<Sum>t < ?n. tokens workers s t)" by (simp add: in_all_def tokens_def sum.distrib)
  also have "\<dots> \<le> (\<Sum>t < ?n. 1)" by (rule sum_mono) (use le in \<open>fastforce split: if_splits\<close>)
  finally show ?thesis by simp
qed

section \<open>Every run is right\<close>

definition task_arcs :: "task list \<Rightarrow> (nat \<times> nat) set" where
  "task_arcs tf = {(p, t). p < length tf \<and> t \<in> set (precedes (tf ! p))}"

lemma started_after:
  assumes "pool_ok tf workers s" "t \<in> set (List.map snd (started s))" "(p, t) \<in> task_arcs tf"
  shows "p \<in> set (finished s)"
proof (rule ccontr)
  assume "p \<notin> set (finished s)"
  then have p: "p \<in> {..<length tf} - set (finished s)" "t \<in> set (precedes (tf ! p))" using assms(3) by (auto simp: task_arcs_def)
  have t: "t < length tf" "deps_left s t = 0" using started_once(2) assms(1,2) unfolding pool_ok_def by blast+
  then have "(\<Sum>p \<in> {..<length tf} - set (finished s). count_list (precedes (tf ! p)) t) + total workers (releasing t) s = 0"
    using assms(1) unfolding pool_ok_def deps_ok_def by (metis of_nat_0_eq_iff)
  then have "count_list (precedes (tf ! p)) t = 0" using p(1) by simp
  then show False using p(2) by (simp add: count_list_0_iff)
qed

lemma left_all_finished:
  assumes "pool_ok tf workers s" "batch s = 0"
  shows "set (finished s) = {..<length tf}"
proof -
  have fin: "distinct (finished s)" "set (finished s) \<subseteq> {..<length tf}"
    using assms(1) finished_once started_once(2) unfolding pool_ok_def by blast+
  have "length tf \<le> length (finished s)" using assms by (simp add: pool_ok_def batch_ok_def)
  then have "card {..<length tf} \<le> card (set (finished s))" using fin(1) by (simp add: distinct_card)
  then show ?thesis using fin(2) by (metis card_seteq finite_lessThan)
qed

text \<open>C19: 
  However the threads interleave, every task is executed at most once, by the owner when its node must not change threads,
  and after all tasks that precede it have been finished; when the owner leaves all of them have been.
\<close>

theorem tasks_run_once_in_order:
  assumes "tasks_ok tf" "pool_reachable tf pinned workers e s"
  shows "distinct (List.map snd (started s)) \<and> (\<forall>(th, t) \<in> set (started s). t < length tf
      \<and> (pinned (task_node (tf ! t)) \<longrightarrow> th = 0) \<and> (\<forall>p. (p, t) \<in> task_arcs tf \<longrightarrow> p \<in> set (finished s)))
    \<and> distinct (finished s) \<and> (loops s 0 = Left \<longrightarrow> set (finished s) = {..<length tf})"
proof -
  note ok = run_invariants[OF assms]
  have parts: "tokens_ok tf workers s" "runs_ok workers s" using ok(1) by (simp_all add: pool_ok_def)
  have "t < length tf \<and> (pinned (task_node (tf ! t)) \<longrightarrow> th = 0) \<and> (\<forall>p. (p, t) \<in> task_arcs tf \<longrightarrow> p \<in> set (finished s))"
    if "(th, t) \<in> set (started s)" for th t
  proof -
    have t: "t \<in> set (List.map snd (started s))" using that by force
    then have "t < length tf" using started_once(2)[OF parts(1)] by blast
    moreover have "pinned (task_node (tf ! t)) \<longrightarrow> th = 0"
      using threads_ok_reachable[OF assms(2)] that by (auto simp: threads_ok_def owner_only_def)
    ultimately show ?thesis using started_after[OF ok(1) t] by blast
  qed
  moreover have "loops s 0 = Left \<longrightarrow> set (finished s) = {..<length tf}"
  proof
    assume left: "loops s 0 = Left"
    have "loop_ok workers e s 0 (loops s 0)" using ok(2) unfolding sleep_ok_def by blast
    then show "set (finished s) = {..<length tf}" using left_all_finished[OF ok(1)] left by simp
  qed
  ultimately show ?thesis using started_once(1)[OF parts(1)] finished_once(1)[OF parts] by blast
qed

lemma frame_step_some: "\<exists>fs s1. (fs, s1) \<in> set (frame_step tf pinned th f s) \<and> fs \<noteq> [f]"
  by (cases "(tf, pinned, th, f, s)" rule: frame_step.cases) auto

lemma loop_step_moves: "(l, fs, s1) \<in> set (loop_step th l0 s) \<Longrightarrow> l \<noteq> l0 \<or> fs \<noteq> []"
  by (cases l0) (auto simp: take_owner_def take_shared_def first_try_def split: if_splits)

lemma stuck_loops:
  assumes "\<not> (\<exists>s'. pool_step tf pinned workers s s' \<and> s' \<noteq> s)" "th \<le> workers"
  shows "stacks s th = []" "loop_step th (loops s th) s = []"
proof -
  show empty: "stacks s th = []"
  proof (rule ccontr)
    assume "stacks s th \<noteq> []"
    then obtain f st where st: "stacks s th = f # st" by (cases "stacks s th") auto
    obtain fs s1 where fs: "(fs, s1) \<in> set (frame_step tf pinned th f s)" "fs \<noteq> [f]" using frame_step_some by blast
    let ?s = "s1\<lparr>stacks := (stacks s)(th := fs @ st)\<rparr>"
    have "stacks ?s th \<noteq> stacks s th" using fs(2) st by simp
    then have "?s \<noteq> s" by metis
    then show False using pool_step.frame[OF assms(2) st fs(1)] assms(1) by blast
  qed
  show "loop_step th (loops s th) s = []"
  proof (rule ccontr)
    assume "loop_step th (loops s th) s \<noteq> []"
    then obtain l fs s1 where l: "(l, fs, s1) \<in> set (loop_step th (loops s th) s)" by (metis list.set_sel(1) surj_pair)
    let ?s = "s1\<lparr>stacks := (stacks s)(th := fs), loops := (loops s)(th := l)\<rparr>"
    have "stacks ?s th \<noteq> stacks s th \<or> loops ?s th \<noteq> loops s th" using loop_step_moves[OF l] empty by auto
    then have "?s \<noteq> s" by metis
    then show False using pool_step.loop[OF assms(2) empty l] assms(1) by blast
  qed
qed

lemma same_remainder:
  assumes "(a :: nat) \<le> b" "b - a < m" "b mod m = a mod m"
  shows "a = b"
proof -
  have "m dvd b - a" using assms(1,3) mod_eq_dvd_iff_nat by blast
  then have "b - a = 0" using assms(2) by (auto dest: dvd_imp_le)
  then show ?thesis using assms(1) by simp
qed

lemma stuck_left:
  assumes "tasks_ok tf" "acyclic (task_arcs tf)" "length tf + 1 < 2 ^ 32"
    and "pool_reachable tf pinned workers e s" "\<not> (\<exists>s'. pool_step tf pinned workers s s' \<and> s' \<noteq> s)"
  shows "loops s 0 = Left"
proof (rule ccontr)
  assume stays: "loops s 0 \<noteq> Left"
  let ?n = "length tf" and ?left = "{..<length tf} - set (finished s)"
  note ok = run_invariants[OF assms(1,4)]
  have parts: "deps_ok tf workers s" "tokens_ok tf workers s" "runs_ok workers s" "batch_ok tf workers s"
    using ok(1) by (simp_all add: pool_ok_def)
  have "frames workers s = {#}" using stuck_loops(1)[OF assms(5)] by (simp add: frames_empty)
  then have none: "total workers g s = 0" for g by (simp add: total_def)
  have "loop_step 0 (loops s 0) s = []" by (rule stuck_loops(2)[OF assms(5)]) simp
  then obtain w where w: "loops s 0 = Wait w" "epoch s mod 2 ^ 32 = w mod 2 ^ 32"
    using stays by (cases "loops s 0") (auto simp: take_owner_def take_shared_def split: if_splits)
  have wait: "loop_ok workers e s 0 (Wait w)" using ok(2) w(1) unfolding sleep_ok_def by metis
  have "epoch s \<le> e + ?n + 1" using ok(3) in_all_bound[OF ok(1)] by (simp add: wakes_ok_def split: if_splits)
  moreover have le: "e \<le> w" "w \<le> epoch s" using wait by simp_all
  ultimately have "epoch s - w < 2 ^ 32" using assms(3) by linarith
  then have "w = epoch s" by (rule same_remainder[OF le(2) _ w(2)])
  then have idle: "batch s \<noteq> 0" "queue s = []" "owner_queue s = []" using wait none by (simp_all add: still_def)
  have deps: "deps_left s t = int (\<Sum>p \<in> ?left. count_list (precedes (tf ! p)) t)" if "t < ?n" for t
    using parts(1) that none by (simp add: deps_ok_def)
  have finished: "t \<in> set (finished s)" if "t < ?n" "deps_left s t = 0" for t
  proof -
    have "count_list (List.map snd (started s)) t = 1"
      using parts(2)[unfolded tokens_ok_def, rule_format, of t] that idle none by (simp add: tokens_def split: if_splits)
    then have "count_list (finished s) t = 1" using parts(3)[unfolded runs_ok_def, rule_format, of t] none by simp
    then show ?thesis using count_list_0_iff[of "finished s" t] by auto
  qed
  have "length (finished s) < ?n" using parts(4) idle(1) batch_bounds(1)[OF ok(1)] none by (simp add: batch_ok_def)
  moreover have "?n \<le> length (finished s)" if "?left = {}"
  proof -
    have "{..<?n} \<subseteq> set (finished s)" using that by auto
    then have "?n \<le> card (set (finished s))" using card_mono[of "set (finished s)" "{..<?n}"] by simp
    then show ?thesis using card_length[of "finished s"] by simp
  qed
  ultimately have "?left \<noteq> {}" by auto
  define waiting where "waiting = {(p, t). p \<in> ?left \<and> t \<in> ?left \<and> t \<in> set (precedes (tf ! p))}"
  have "finite waiting" unfolding waiting_def by (rule finite_subset[of _ "?left \<times> ?left"]) auto
  moreover have "acyclic waiting" by (rule acyclic_subset[OF assms(2)]) (auto simp: waiting_def task_arcs_def)
  ultimately have "wf waiting" by (rule finite_acyclic_wf)
  then obtain t where t: "t \<in> ?left" "\<And>p. (p, t) \<in> waiting \<Longrightarrow> p \<notin> ?left" using \<open>?left \<noteq> {}\<close> by (meson wfE_min ex_in_conv)
  then have "(\<Sum>p \<in> ?left. count_list (precedes (tf ! p)) t) = 0" by (auto simp: waiting_def count_list_0_iff)
  then show False using deps[of t] finished[of t] t(1) by simp
qed

section \<open>Every run ends\<close>

text \<open>What is left to do for a task, a frame and a thread in its loop, with what the wake-ups it makes cost the others.\<close>

definition wake_work :: "nat \<Rightarrow> nat" where
  "wake_work workers = 8 * Suc workers + 1"

definition item_work :: "task list \<Rightarrow> nat \<Rightarrow> nat \<Rightarrow> nat" where
  "item_work tf workers t = wake_work workers + 12 + length (precedes (tf ! t))"

fun frame_work :: "task list \<Rightarrow> nat \<Rightarrow> frame \<Rightarrow> nat" where
  "frame_work tf workers (Starting ts) = 1 + length ts"
| "frame_work tf workers (Enqueue t) = item_work tf workers t + wake_work workers + 1"
| "frame_work tf workers (Exec t) = wake_work workers + 4 + length (precedes (tf ! t))"
| "frame_work tf workers (Running t) = wake_work workers + 3 + length (precedes (tf ! t))"
| "frame_work tf workers (Release ts) = wake_work workers + 2 + length ts"
| "frame_work tf workers Finish = wake_work workers + 1"
| "frame_work tf workers Wake = wake_work workers"

fun loop_work :: "nat \<Rightarrow> loop \<Rightarrow> nat" where
  "loop_work e Check1 = 7"
| "loop_work e Owner1 = 6"
| "loop_work e Shared1 = 5"
| "loop_work e Read_epoch = 4"
| "loop_work e (Check2 w) = 3 + (if w < e then 8 else 0)"
| "loop_work e (Owner2 w) = 2 + (if w < e then 8 else 0)"
| "loop_work e (Shared2 w) = 1 + (if w < e then 8 else 0)"
| "loop_work e (Wait w) = (if w < e then 8 else 0)"
| "loop_work e Left = 0"

definition unready :: "task list \<Rightarrow> nat \<Rightarrow> pool \<Rightarrow> nat" where
  "unready tf workers s = (\<Sum>t < length tf. if tokens workers s t = 0 then frame_work tf workers (Enqueue t) else 0)"

definition queued_work :: "task list \<Rightarrow> nat \<Rightarrow> pool \<Rightarrow> nat" where
  "queued_work tf workers s = sum_list (List.map (item_work tf workers) (queue s)) + sum_list (List.map (item_work tf workers) (owner_queue s))"

definition work :: "task list \<Rightarrow> nat \<Rightarrow> pool \<Rightarrow> nat" where
  "work tf workers s = unready tf workers s + total workers (frame_work tf workers) s + queued_work tf workers s
    + (\<Sum>th \<le> workers. loop_work (epoch s) (loops s th))"

lemma tokens_le: "tokens_ok tf workers s \<Longrightarrow> tokens workers s t \<le> (if t < length tf then 1 else 0)"
  unfolding tokens_ok_def by (drule spec[of _ t]) (simp split: if_splits)

definition offers :: "frame \<Rightarrow> frame list \<Rightarrow> nat \<Rightarrow> bool" where
  "offers f fs t \<longleftrightarrow> (\<exists>ts. f = Starting ts \<or> f = Release ts) \<and> Enqueue t \<in> set fs"

lemma tokens_frame:
  assumes "(fs, s1) \<in> set (frame_step tf pinned th f s)" "exchanged workers [f] fs s s'" "s' = s1\<lparr>stacks := st\<rparr>"
  shows "tokens workers s' t = tokens workers s t + (if offers f fs t then 1 else 0)"
  using assms(1) exchanged_total[OF assms(2), of "holding t"]
  by (cases "(tf, pinned, th, f, s)" rule: frame_step.cases) (auto simp: tokens_def offers_def assms(3) split: if_splits)

lemma unready_frame:
  assumes "tokens_ok tf workers s'" "\<And>u. tokens workers s' u = tokens workers s u + (if u = t then 1 else 0)"
  shows "unready tf workers s = unready tf workers s' + frame_work tf workers (Enqueue t)"
proof -
  have t: "t < length tf" "tokens workers s t = 0" "tokens workers s' t = 1"
    using tokens_le[OF assms(1), of t] assms(2)[of t] by (auto split: if_splits)
  let ?rest = "\<lambda>s. \<Sum>t \<in> {..<length tf} - {t}. if tokens workers s t = 0 then frame_work tf workers (Enqueue t) else 0"
  have "unready tf workers s = frame_work tf workers (Enqueue t) + ?rest s"
    unfolding unready_def by (subst sum.remove[of _ t]) (use t in auto)
  moreover have "unready tf workers s' = ?rest s'"
    unfolding unready_def by (subst sum.remove[of _ t]) (use t in auto)
  moreover have "?rest s' = ?rest s" by (rule sum.cong) (use assms(2) in auto)
  ultimately show ?thesis by simp
qed

lemma loop_work_woken: "loop_work (Suc e) l \<le> loop_work e l + 8"
  by (cases l) auto

lemma loops_work_woken: "(\<Sum>th \<le> workers. loop_work (Suc e) (ls th)) \<le> (\<Sum>th \<le> workers. loop_work e (ls th)) + 8 * Suc workers"
proof -
  have "(\<Sum>th \<le> workers. loop_work (Suc e) (ls th)) \<le> (\<Sum>th \<le> workers. loop_work e (ls th) + 8)"
    by (rule sum_mono) (rule loop_work_woken)
  then show ?thesis by (simp add: sum.distrib)
qed

lemma frame_work_less:
  assumes ok: "tokens_ok tf workers s'" and step: "(fs, s1) \<in> set (frame_step tf pinned th f s)" "fs \<noteq> [f]"
    and ex: "exchanged workers [f] fs s s'" and same: "s' = s1\<lparr>stacks := st\<rparr>"
  shows "work tf workers s' < work tf workers s"
proof -
  note total = exchanged_total[OF ex, of "frame_work tf workers"]
  note tokens = tokens_frame[OF step(1) ex same]
  let ?loops = "\<lambda>s. \<Sum>th \<le> workers. loop_work (epoch s) (loops s th)"
  have loops: "loops s' = loops s" using step(1) by (cases "(tf, pinned, th, f, s)" rule: frame_step.cases) (auto simp: same split: if_splits)
  show ?thesis
  proof (cases "\<exists>t. offers f fs t")
    case True
    then obtain t where t: "offers f fs t" ..
    then have only: "offers f fs u \<longleftrightarrow> u = t" for u
      using step(1) by (cases "(tf, pinned, th, f, s)" rule: frame_step.cases) (auto simp: offers_def split: if_splits)
    have "unready tf workers s = unready tf workers s' + frame_work tf workers (Enqueue t)"
      by (rule unready_frame[OF ok]) (simp add: tokens only)
    moreover have "queued_work tf workers s' = queued_work tf workers s" "?loops s' = ?loops s"
      using step(1) t by (cases "(tf, pinned, th, f, s)" rule: frame_step.cases; auto simp: queued_work_def offers_def same split: if_splits)+
    moreover have "total workers (frame_work tf workers) s' + 1 = total workers (frame_work tf workers) s + frame_work tf workers (Enqueue t)"
      using total step(1) t by (cases "(tf, pinned, th, f, s)" rule: frame_step.cases) (auto simp: offers_def split: if_splits)
    ultimately show ?thesis by (simp add: work_def)
  next
    case False
    then have "unready tf workers s' = unready tf workers s" using tokens by (simp add: unready_def)
    moreover have "total workers (frame_work tf workers) s' + queued_work tf workers s' + ?loops s'
        < total workers (frame_work tf workers) s + queued_work tf workers s + ?loops s"
      using total step False loops_work_woken[where workers = workers and e = "epoch s" and ls = "loops s"]
      by (cases "(tf, pinned, th, f, s)" rule: frame_step.cases)
        (auto simp: queued_work_def offers_def same item_work_def wake_work_def split: if_splits)
    ultimately show ?thesis by (simp add: work_def)
  qed
qed

lemma sum_upd:
  fixes g :: "loop \<Rightarrow> nat" and workers :: nat
  assumes "th \<le> workers"
  shows "(\<Sum>th' \<le> workers. g ((ls(th := l)) th')) + g (ls th) = (\<Sum>th' \<le> workers. g (ls th')) + g l"
proof -
  have "(\<Sum>th' \<le> workers. g ((ls(th := l)) th')) = g l + (\<Sum>th' \<in> {..workers} - {th}. g ((ls(th := l)) th'))"
    by (subst sum.remove[of "{..workers}" th]) (use assms in auto)
  moreover have "(\<Sum>th' \<le> workers. g (ls th')) = g (ls th) + (\<Sum>th' \<in> {..workers} - {th}. g (ls th'))"
    by (subst sum.remove[of "{..workers}" th]) (use assms in auto)
  moreover have "(\<Sum>th' \<in> {..workers} - {th}. g ((ls(th := l)) th')) = (\<Sum>th' \<in> {..workers} - {th}. g (ls th'))"
    by (rule sum.cong) auto
  ultimately show ?thesis by simp
qed

lemma loop_work_less:
  assumes sleep: "sleep_ok workers e0 s" and th: "th \<le> workers" and step: "(l, fs, s1) \<in> set (loop_step th (loops s th) s)"
    and ex: "exchanged workers [] fs s s'" and same: "s' = s1\<lparr>stacks := st, loops := (loops s)(th := l)\<rparr>"
  shows "work tf workers s' < work tf workers s"
proof -
  note total = exchanged_total[OF ex, of "frame_work tf workers"]
  have epoch: "epoch s' = epoch s" using step by (cases "loops s th") (auto simp: same take_owner_def take_shared_def split: if_splits)
  have loops: "(\<Sum>th' \<le> workers. loop_work (epoch s') (loops s' th')) + loop_work (epoch s) (loops s th)
      = (\<Sum>th' \<le> workers. loop_work (epoch s) (loops s th')) + loop_work (epoch s) l"
    using sum_upd[OF th, of "loop_work (epoch s)" "loops s" l] unfolding epoch by (simp add: same)
  have "tokens workers s' t = tokens workers s t" for t
    using step exchanged_total[OF ex, of "holding t"] count_pos[of t "queue s"] count_pos[of t "owner_queue s"]
    by (cases "loops s th") (auto simp: tokens_def same take_owner_def take_shared_def split: if_splits)
  then have unready: "unready tf workers s' = unready tf workers s" by (simp add: unready_def)
  have "loop_ok workers e0 s th (loops s th)" using sleep by (simp add: sleep_ok_def)
  then consider (idle) "fs = []" "s1 = s" "loop_work (epoch s) l < loop_work (epoch s) (loops s th)"
    | (owner) t where "t \<in> set (owner_queue s)" "fs = [Exec t]" "s1 = s\<lparr>owner_queue := remove1 t (owner_queue s)\<rparr>" "l = first_try th"
    | (shared) t where "t \<in> set (queue s)" "fs = [Exec t]" "s1 = s\<lparr>queue := remove1 t (queue s)\<rparr>" "l = first_try th"
    using step by (cases "loops s th") (auto simp: take_owner_def take_shared_def first_try_def le_less split: if_splits)
  then show ?thesis
  proof cases
    case idle
    then show ?thesis using total loops unready by (simp add: work_def queued_work_def same)
  next
    case owner
    have "loop_work (epoch s) l \<le> 7" by (simp add: owner(4) first_try_def)
    moreover have "queued_work tf workers s = queued_work tf workers s' + item_work tf workers t"
      using sum_list_map_remove1[OF owner(1), of "item_work tf workers"] by (simp add: queued_work_def same owner(3))
    ultimately show ?thesis using total loops unready by (simp add: work_def owner(2) item_work_def)
  next
    case shared
    have "loop_work (epoch s) l \<le> 7" by (simp add: shared(4) first_try_def)
    moreover have "queued_work tf workers s = queued_work tf workers s' + item_work tf workers t"
      using sum_list_map_remove1[OF shared(1), of "item_work tf workers"] by (simp add: queued_work_def same shared(3))
    ultimately show ?thesis using total loops unready by (simp add: work_def shared(2) item_work_def)
  qed
qed

lemma pool_step_work:
  assumes tasks: "tasks_ok tf" and reach: "pool_reachable tf pinned workers e s" and step: "pool_step tf pinned workers s s'" "s' \<noteq> s"
  shows "work tf workers s' < work tf workers s"
proof -
  note ok = run_invariants[OF tasks reach]
  have ok': "pool_ok tf workers s'" by (rule pool_step_ok[OF tasks ok(1) step(1)])
  from step(1) show ?thesis
  proof cases
    case (frame th f st fs s1)
    have ex: "exchanged workers [f] fs s s'"
      unfolding exchanged_def using frames_replace[of th workers s "[f]" st s' fs] frame by simp
    have "fs \<noteq> [f]"
    proof
      assume eq: "fs = [f]"
      then have "s1 = s" using frame(4) by (cases "(tf, pinned, th, f, s)" rule: frame_step.cases) (auto split: if_splits)
      moreover have "(stacks s)(th := fs @ st) = stacks s" using eq frame(3) by auto
      ultimately show False using step(2) frame(1) by simp
    qed
    then show ?thesis using frame_work_less[OF _ frame(4) _ ex frame(1)] ok' by (simp add: pool_ok_def)
  next
    case (loop th l fs s1)
    have ex: "exchanged workers [] fs s s'"
      unfolding exchanged_def using frames_replace[of th workers s "[]" "[]" s' fs] loop by simp
    show ?thesis by (rule loop_work_less[OF ok(2) loop(2,4) ex loop(1)])
  qed
qed

text \<open>
  Every run of the threads ends, when the offering of a task to a full queue that refuses it again is not counted as a step.
\<close>

theorem pool_runs_end:
  assumes "tasks_ok tf"
  shows "wf {(s', s). pool_reachable tf pinned workers e s \<and> pool_step tf pinned workers s s' \<and> s' \<noteq> s}"
  by (rule wf_subset[OF wf_measure[of "work tf workers"]]) (use pool_step_work[OF assms] in auto)

lemma run_goes_on:
  assumes tasks: "tasks_ok tf" "acyclic (task_arcs tf)" "length tf + 1 < 2 ^ 32"
  shows "pool_reachable tf pinned workers e s \<Longrightarrow> \<exists>s'. (pool_step tf pinned workers)\<^sup>*\<^sup>* s s' \<and> loops s' 0 = Left"
proof (induction s rule: measure_induct_rule[where f = "work tf workers"])
  case (less s)
  show ?case
  proof (cases "\<exists>s'. pool_step tf pinned workers s s' \<and> s' \<noteq> s")
    case True
    then obtain s1 where s1: "pool_step tf pinned workers s s1" "s1 \<noteq> s" by blast
    have "pool_reachable tf pinned workers e s1" using less.prems s1(1) unfolding pool_reachable_def by (rule rtranclp.rtrancl_into_rtrancl)
    from less.IH[OF pool_step_work[OF tasks(1) less.prems s1] this] show ?thesis using s1(1) by (meson converse_rtranclp_into_rtranclp)
  next
    case False
    then have "loops s 0 = Left" by (rule stuck_left[OF tasks less.prems])
    then show ?thesis by blast
  qed
qed

text \<open>C20: 
  The threads never sleep while there is something to do: a run that cannot go on is one whose owner has left, and every
  run can be continued to there. The tasks must not wait for each other, and the counter of 32 bits must not turn in one run.
\<close>

theorem pool_never_stuck:
  assumes "tasks_ok tf" "acyclic (task_arcs tf)" "length tf + 1 < 2 ^ 32" "pool_reachable tf pinned workers e s"
  shows "(\<not> (\<exists>s'. pool_step tf pinned workers s s' \<and> s' \<noteq> s) \<longrightarrow> loops s 0 = Left)
    \<and> (\<exists>s'. (pool_step tf pinned workers)\<^sup>*\<^sup>* s s' \<and> loops s' 0 = Left)"
  using stuck_left[OF assms] run_goes_on[OF assms] by blast

section \<open>An example\<close>

definition two_tasks :: "task list" where
  "two_tasks = [\<lparr>task_node = 0, dependencies = 0, precedes = [1]\<rparr>, \<lparr>task_node = 1, dependencies = 1, precedes = []\<rparr>]"

lemma two_tasks_facts: "tasks_ok two_tasks" "acyclic (task_arcs two_tasks)" "length two_tasks + 1 < 2 ^ 32" "length two_tasks = 2"
proof -
  show "tasks_ok two_tasks" by (auto simp: tasks_ok_def two_tasks_def less_Suc_eq lessThan_Suc numeral_2_eq_2)
  have "task_arcs two_tasks = {(0, 1)}" by (auto simp: task_arcs_def two_tasks_def less_Suc_eq)
  then show "acyclic (task_arcs two_tasks)" by (auto simp: wf_acyclic)
qed (simp_all add: two_tasks_def)

lemma tasks_run_once_in_order_witness:
  "\<exists>s. pool_reachable two_tasks (\<lambda>n. n = 0) 3 0 s \<and> distinct (finished s) \<and> set (finished s) = {0, 1}"
proof -
  have start: "pool_reachable two_tasks (\<lambda>n. n = 0) 3 0 (run_start two_tasks 0)" by (simp add: pool_reachable_def)
  obtain s where s: "(pool_step two_tasks (\<lambda>n. n = 0) 3)\<^sup>*\<^sup>* (run_start two_tasks 0) s" "loops s 0 = Left"
    using run_goes_on[OF two_tasks_facts(1-3) start] by blast
  then have reach: "pool_reachable two_tasks (\<lambda>n. n = 0) 3 0 s" by (simp add: pool_reachable_def)
  have "{..<length two_tasks} = {0, 1}" by (auto simp: two_tasks_def)
  then show ?thesis using tasks_run_once_in_order[OF two_tasks_facts(1) reach] s(2) reach by auto
qed

lemma pool_runs_end_witness:
  "wf {(s', s). pool_reachable two_tasks (\<lambda>n. n = 0) 3 0 s \<and> pool_step two_tasks (\<lambda>n. n = 0) 3 s s' \<and> s' \<noteq> s}"
  by (rule pool_runs_end[OF two_tasks_facts(1)])

lemma pool_never_stuck_witness:
  "\<exists>s. pool_step two_tasks (\<lambda>n. n = 0) 3 (run_start two_tasks 5) s \<and> s \<noteq> run_start two_tasks 5"
proof -
  have "pool_reachable two_tasks (\<lambda>n. n = 0) 3 5 (run_start two_tasks 5)" by (simp add: pool_reachable_def)
  note runs = pool_never_stuck[OF two_tasks_facts(1-3) this]
  have "loops (run_start two_tasks 5) 0 \<noteq> Left" by (simp add: run_start_def first_try_def)
  then show ?thesis using runs by blast
qed

end
