(* ===== verification/TaskFlow.thy ===== *)
theory TaskFlow
  imports TaskPoolRuns
begin

text \<open>
  The tasks of a graph: each node has one, which is preceded by those of the nodes its edges lead to. The parallel executor
  on the tasks of a sorted graph; a loop through a delayed edge, which the sort accepts, makes its owner wait for ever.
\<close>

section \<open>Building the tasks\<close>

lemma precede_nth:
  assumes "s < length tf" "r < length tf" "t < length tf"
  shows "precedes (precede s r tf ! t) = (if t = s then precedes (tf ! t) @ [r] else precedes (tf ! t))"
    "dependencies (precede s r tf ! t) = (if t = r then dependencies (tf ! t) + 1 else dependencies (tf ! t))"
    "task_node (precede s r tf ! t) = task_node (tf ! t)"
  using assms by (auto simp: precede_def Let_def nth_list_update)

lemma length_precede [simp]: "length (precede s r tf) = length tf"
  by (simp add: precede_def Let_def)

lemma precede_ok:
  assumes "tasks_ok tf" "s < length tf" "r < length tf"
  shows "tasks_ok (precede s r tf)" "task_arcs (precede s r tf) = insert (s, r) (task_arcs tf)"
    "List.map task_node (precede s r tf) = List.map task_node tf"
proof -
  let ?n = "length tf"
  have old: "\<And>p. p < ?n \<Longrightarrow> set (precedes (tf ! p)) \<subseteq> {..<?n}"
    "\<And>t. t < ?n \<Longrightarrow> dependencies (tf ! t) = int (\<Sum>p < ?n. count_list (precedes (tf ! p)) t)"
    using assms(1) by (simp_all add: tasks_ok_def)
  note nth = precede_nth[OF assms(2,3)]
  have "set (precedes (precede s r tf ! p)) \<subseteq> {..<?n}" if "p < ?n" for p
    using nth(1)[OF that] old(1)[OF that] assms(3) by auto
  then have "\<forall>x \<in> set (precede s r tf). set (precedes x) \<subseteq> {..<length (precede s r tf)}" by (simp add: all_set_conv_all_nth)
  moreover have "dependencies (precede s r tf ! t) = int (\<Sum>p < ?n. count_list (precedes (precede s r tf ! p)) t)" if t: "t < ?n" for t
  proof -
    have "(\<Sum>p < ?n. count_list (precedes (precede s r tf ! p)) t)
        = (\<Sum>p < ?n. count_list (precedes (tf ! p)) t + (if p = s then if r = t then 1 else 0 else 0))"
      by (rule sum.cong) (auto simp: nth)
    also have "\<dots> = (\<Sum>p < ?n. count_list (precedes (tf ! p)) t) + (if r = t then 1 else 0)"
      using assms(2) by (simp add: sum.distrib sum.delta)
    finally show ?thesis using nth(2)[OF t] old(2)[OF t] by auto
  qed
  ultimately show "tasks_ok (precede s r tf)" by (simp add: tasks_ok_def)
  show "task_arcs (precede s r tf) = insert (s, r) (task_arcs tf)"
    using assms(2,3) nth(1) by (auto simp: task_arcs_def split: if_splits)
  show "List.map task_node (precede s r tf) = List.map task_node tf" by (rule nth_equalityI) (simp_all add: nth(3))
qed

lemma task_of_Some:
  assumes "distinct ns"
  shows "task_of ns n = Some i \<longleftrightarrow> i < length ns \<and> ns ! i = n"
  using assms
proof (induction ns arbitrary: i)
  case (Cons m ms)
  show ?case
  proof (cases "m = n")
    case True
    have "ms ! j \<noteq> n" if "j < length ms" for j using nth_mem[OF that] True Cons.prems by auto
    then show ?thesis using True by (cases i) auto
  next
    case False
    have IH: "task_of ms n = Some j \<longleftrightarrow> j < length ms \<and> ms ! j = n" for j using Cons.IH Cons.prems by simp
    show ?thesis using False by (cases i) (simp_all add: IH)
  qed
qed simp

lemma task_of_member: "n \<in> set ns \<Longrightarrow> \<exists>i. task_of ns n = Some i"
  by (induction ns) auto

definition flow_arcs :: "nat list \<Rightarrow> (nat \<Rightarrow> nat) \<Rightarrow> (nat \<times> nat) set \<Rightarrow> (nat \<times> nat) set" where
  "flow_arcs order node_of es = {(s, r). s < length order \<and> r < length order \<and> (\<exists>(u, v) \<in> es. order ! s = node_of v \<and> order ! r = node_of u)}"

lemma flow_arcs_insert:
  "flow_arcs order node_of (set ((u, v) # es))
    = {(a, b). a < length order \<and> b < length order \<and> order ! a = node_of v \<and> order ! b = node_of u} \<union> flow_arcs order node_of (set es)"
  unfolding flow_arcs_def by auto

lemma link_all:
  assumes "distinct order" "length tf = length order" "tasks_ok tf" "List.map task_node tf = order"
    and "\<forall>(u, v) \<in> set es. node_of u \<in> set order \<and> node_of v \<in> set order"
  shows "\<exists>tf'. fold_opt (link_tasks order node_of) es tf = Some tf' \<and> length tf' = length order \<and> tasks_ok tf'
    \<and> List.map task_node tf' = order \<and> task_arcs tf' = task_arcs tf \<union> flow_arcs order node_of (set es)"
  using assms(2-5)
proof (induction es arbitrary: tf)
  case (Cons e es)
  obtain u v where e: "e = (u, v)" by (cases e)
  have mem: "node_of u \<in> set order" "node_of v \<in> set order" using Cons.prems(4) e by simp_all
  obtain s r where sr: "task_of order (node_of v) = Some s" "task_of order (node_of u) = Some r"
    using task_of_member[OF mem(1)] task_of_member[OF mem(2)] by blast
  then have pos: "s < length order" "order ! s = node_of v" "r < length order" "order ! r = node_of u"
    by (simp_all add: task_of_Some[OF assms(1)])
  let ?tf = "precede s r tf"
  have lt: "s < length tf" "r < length tf" using pos Cons.prems(1) by simp_all
  note linked = precede_ok[OF Cons.prems(2) lt]
  obtain tf' where tf': "fold_opt (link_tasks order node_of) es ?tf = Some tf'" "length tf' = length order" "tasks_ok tf'"
    "List.map task_node tf' = order" "task_arcs tf' = task_arcs ?tf \<union> flow_arcs order node_of (set es)"
    using Cons.IH[of ?tf, OF _ linked(1)] linked(3) Cons.prems(1,3,4) by auto
  have "a = s" if "a < length order" "order ! a = node_of v" for a using that pos assms(1) nth_eq_iff_index_eq by metis
  moreover have "a = r" if "a < length order" "order ! a = node_of u" for a using that pos assms(1) nth_eq_iff_index_eq by metis
  ultimately have "{(a, b). a < length order \<and> b < length order \<and> order ! a = node_of v \<and> order ! b = node_of u} = {(s, r)}"
    using pos by blast
  then have "flow_arcs order node_of (set (e # es)) = insert (s, r) (flow_arcs order node_of (set es))"
    unfolding e flow_arcs_insert by simp
  then have "task_arcs tf' = task_arcs tf \<union> flow_arcs order node_of (set (e # es))" unfolding tf'(5) linked(2) by simp
  moreover have "fold_opt (link_tasks order node_of) (e # es) tf = Some tf'" using tf'(1) by (simp add: link_tasks_def e sr)
  ultimately show ?case using tf'(2-4) by blast
qed (auto simp: flow_arcs_def)

lemma set_all_edges: "set (all_edges n g) = arcs n g"
  by (force simp: all_edges_def arcs_def targets_def)

lemma new_tasks_ok: "tasks_ok (List.map new_task ns)" "task_arcs (List.map new_task ns) = {}" "List.map task_node (List.map new_task ns) = ns"
  by (auto simp: tasks_ok_def new_task_def task_arcs_def comp_def)

lemma update_graph_tasks:
  assumes "distinct order" "set order = set (vertex_nodes w)" "closed_graph (num_vertices w) g"
  shows "\<exists>tf. update_graph order (\<lambda>v. vertex_nodes w ! v) (num_vertices w) g = Some tf \<and> tasks_ok tf \<and> List.map task_node tf = order
    \<and> task_arcs tf = flow_arcs order (\<lambda>v. vertex_nodes w ! v) (arcs (num_vertices w) g)"
proof -
  have "\<forall>(u, v) \<in> set (all_edges (num_vertices w) g). vertex_nodes w ! u \<in> set order \<and> vertex_nodes w ! v \<in> set order"
  proof (clarify, unfold set_all_edges)
    fix u v assume "(u, v) \<in> arcs (num_vertices w) g"
    then have "u < num_vertices w" "v < num_vertices w" using assms(3) by (auto simp: arcs_def closed_graph_def)
    then show "vertex_nodes w ! u \<in> set order \<and> vertex_nodes w ! v \<in> set order" using assms(2) by simp
  qed
  from link_all[OF assms(1) _ new_tasks_ok(1,3) this] show ?thesis
    by (auto simp: update_graph_def set_all_edges new_tasks_ok(2))
qed

lemma flow_arcs_acyclic:
  assumes "maps_ok w" "distinct order" "set order = set (vertex_nodes w)" "closed_graph (num_vertices w) g" "acyclic (arcs (num_vertices w) g)"
  shows "acyclic (flow_arcs order (\<lambda>v. vertex_nodes w ! v) (arcs (num_vertices w) g))"
proof -
  let ?n = "num_vertices w" and ?vertex = "\<lambda>s. the (node_map w (order ! s))"
  have edge: "(?vertex s, ?vertex r) \<in> (arcs ?n g)\<inverse>" if sr: "(s, r) \<in> flow_arcs order (\<lambda>v. vertex_nodes w ! v) (arcs ?n g)" for s r
  proof -
    obtain u v where uv: "(u, v) \<in> arcs ?n g" "order ! s = vertex_nodes w ! v" "order ! r = vertex_nodes w ! u"
      using sr unfolding flow_arcs_def by blast
    then have "u < ?n" "v < ?n" using assms(4) by (auto simp: arcs_def closed_graph_def)
    then show ?thesis using uv node_map_nth[OF assms(1)] by simp
  qed
  have path: "(?vertex s, ?vertex r) \<in> ((arcs ?n g)\<inverse>)\<^sup>+" if "(s, r) \<in> (flow_arcs order (\<lambda>v. vertex_nodes w ! v) (arcs ?n g))\<^sup>+" for s r
    using that
  proof (induction rule: trancl_induct)
    case (base y)
    then show ?case by (rule r_into_trancl[OF edge])
  next
    case (step y z)
    show ?case by (rule trancl.trancl_into_trancl[OF step.IH edge[OF step.hyps(2)]])
  qed
  have "acyclic ((arcs ?n g)\<inverse>)" using assms(5) by simp
  then show ?thesis using path unfolding acyclic_def by blast
qed

section \<open>The parallel executor on a graph\<close>

text \<open>C18: 
  On the order and the graph of an update whose edges, the delayed ones too, have no cycle, the tasks of the parallel
  executor are one for each node in the order; from every state a run can reach it goes on to its end, where every
  node has been executed, and each after those its edges lead to.
\<close>

theorem parallel_run_correct:
  assumes sort: "sortable nad vis w" "bfs_update vis capacity w devs = Some (g, order)"
    and "acyclic (arcs (num_vertices w) g)" "num_vertices w + 1 < 2 ^ 32"
  shows "\<exists>tf. update_graph order (\<lambda>v. vertex_nodes w ! v) (num_vertices w) g = Some tf \<and> List.map task_node tf = order
    \<and> (\<forall>workers pinned e s. pool_reachable tf pinned workers e s \<longrightarrow>
        (\<exists>s'. (pool_step tf pinned workers)\<^sup>*\<^sup>* s s' \<and> loops s' 0 = Left \<and> set (finished s') = {..<length order})
        \<and> (\<forall>(th, t) \<in> set (started s). \<forall>p < length order. \<forall>(u, v) \<in> arcs (num_vertices w) g.
            order ! t = vertex_nodes w ! u \<and> order ! p = vertex_nodes w ! v \<longrightarrow> p \<in> set (finished s)))"
proof -
  have g: "g = linked_graph vis w devs" and order: "in_order w g order"
    using sort(2) linked_graph_sorted[OF sort(1)] by (auto simp: bfs_update_links[OF sort(1)])
  then have closed: "closed_graph (num_vertices w) g" and ord: "distinct order" "set order = set (vertex_nodes w)"
    using linked_graph_closed[OF sort(1)] by (simp_all add: in_order_def)
  obtain tf where tf: "update_graph order (\<lambda>v. vertex_nodes w ! v) (num_vertices w) g = Some tf" "tasks_ok tf" "List.map task_node tf = order"
    "task_arcs tf = flow_arcs order (\<lambda>v. vertex_nodes w ! v) (arcs (num_vertices w) g)"
    using update_graph_tasks[OF ord closed] by blast
  have len: "length tf = length order" using tf(3) by (metis length_map)
  have acyclic: "acyclic (task_arcs tf)" unfolding tf(4) by (rule flow_arcs_acyclic[OF sortable_maps[OF sort(1)] ord closed assms(3)])
  have "distinct (vertex_nodes w)" using sortable_maps[OF sort(1)] by (simp add: maps_ok_def)
  then have "length tf + 1 < 2 ^ 32" using assms(4) ord len by (metis distinct_card)
  note ends = run_goes_on[OF tf(2) acyclic this]
  have "\<exists>s'. (pool_step tf pinned workers)\<^sup>*\<^sup>* s s' \<and> loops s' 0 = Left \<and> set (finished s') = {..<length order}"
    if reach: "pool_reachable tf pinned workers e s" for workers pinned e s
  proof -
    obtain s' where s': "(pool_step tf pinned workers)\<^sup>*\<^sup>* s s'" "loops s' 0 = Left" using ends[OF reach] by blast
    then have "pool_reachable tf pinned workers e s'" using reach unfolding pool_reachable_def by (meson rtranclp_trans)
    note ok = run_invariants[OF tf(2) this]
    have "loop_ok workers e s' 0 (loops s' 0)" using ok(2) unfolding sleep_ok_def by blast
    then have "set (finished s') = {..<length tf}" using left_all_finished[OF ok(1)] s'(2) by simp
    then show ?thesis using s' len by auto
  qed
  moreover have "p \<in> set (finished s)"
    if reach: "pool_reachable tf pinned workers e s" and st: "(th, t) \<in> set (started s)" and p: "p < length order"
      and uv: "(u, v) \<in> arcs (num_vertices w) g" "order ! t = vertex_nodes w ! u" "order ! p = vertex_nodes w ! v"
    for workers pinned e s th t p u v
  proof -
    note ok = run_invariants(1)[OF tf(2) reach]
    have t: "t \<in> set (List.map snd (started s))" using st by force
    then have "t < length order" using started_once(2)[of tf workers s] ok len by (auto simp: pool_ok_def)
    then have "(p, t) \<in> task_arcs tf" unfolding tf(4) flow_arcs_def using p uv by blast
    then show ?thesis by (rule started_after[OF ok t])
  qed
  ultimately show ?thesis using tf(1,3) by blast
qed

lemma sample_tasks_acyclic: "acyclic (arcs 3 (linked_graph library_visitor sample_graph (\<lambda>pat. [])))"
proof -
  have "map_option (\<lambda>(g, order). custom_topological_sort library_visitor 3 g 0) (bfs_update library_visitor 0 sample_graph (\<lambda>pat. []))
      = Some (Inr [2, 0, 1])" by code_simp
  then have "custom_topological_sort library_visitor 3 (linked_graph library_visitor sample_graph (\<lambda>pat. [])) 0 = Inr [2, 0, 1]"
    unfolding bfs_update_links[OF sample_sortable] by simp
  then show ?thesis
    using custom_topological_sort_result[OF library_visitor_ok linked_graph_closed[OF sample_sortable], of "\<lambda>pat. []" 0]
    unfolding sample_vertices(2) by simp
qed

lemma parallel_run_correct_witness:
  "\<exists>g order tf. bfs_update library_visitor 0 sample_graph (\<lambda>pat. []) = Some (g, order)
    \<and> update_graph order (\<lambda>v. [0, 1, 2] ! v) 3 g = Some tf \<and> List.map task_node tf = order
    \<and> (\<exists>s. (pool_step tf (\<lambda>n. n = 1) 2)\<^sup>*\<^sup>* (run_start tf 0) s \<and> loops s 0 = Left)"
proof -
  obtain g order where g: "bfs_update library_visitor 0 sample_graph (\<lambda>pat. []) = Some (g, order)" "g = linked_graph library_visitor sample_graph (\<lambda>pat. [])"
    using bfs_update_links[OF sample_sortable] by blast
  have "acyclic (arcs (num_vertices sample_graph) g)" "num_vertices sample_graph + 1 < 2 ^ 32"
    using sample_tasks_acyclic unfolding g(2) sample_vertices(2) by simp_all
  note runs = parallel_run_correct[OF sample_sortable g(1) this, unfolded sample_vertices(2), unfolded sample_vertices(1)]
  have start: "pool_reachable tf (\<lambda>n. n = 1) 2 0 (run_start tf 0)" for tf by (simp add: pool_reachable_def)
  have "\<exists>tf. update_graph order (\<lambda>v. [0, 1, 2] ! v) 3 g = Some tf \<and> List.map task_node tf = order
      \<and> (\<exists>s. (pool_step tf (\<lambda>n. n = 1) 2)\<^sup>*\<^sup>* (run_start tf 0) s \<and> loops s 0 = Left)"
    using runs
    apply (elim exE conjE)
    subgoal for tf
      apply (drule spec[of _ 2], drule spec[of _ "\<lambda>n. n = 1"], drule spec[of _ 0], drule spec[of _ "run_start tf 0"])
      apply (drule mp[OF _ start], drule conjunct1)
      by blast
    done
  then show ?thesis using g(1) by blast
qed

section \<open>Loops\<close>

text \<open>
  Tasks of which each is preceded by another of them are never executed, and the owner never leaves: this is what a loop
  through a delayed edge comes to, since the tasks are linked along all edges.
\<close>

lemma looped_tasks_wait:
  assumes tasks: "tasks_ok tf" and looped: "\<forall>t \<in> C. \<exists>p \<in> C. (p, t) \<in> task_arcs tf"
  shows "pool_reachable tf pinned workers e s \<Longrightarrow> set (finished s) \<inter> C = {}"
  unfolding pool_reachable_def
proof (induction rule: rtranclp_induct)
  case base
  show ?case by (simp add: run_start_def)
next
  case (step s s')
  have ok: "pool_ok tf workers s" using run_invariants(1)[OF tasks] step.hyps(1) by (simp add: pool_reachable_def)
  from step.hyps(2) show ?case
  proof cases
    case (frame th f st fs s1)
    show ?thesis
    proof (cases "\<exists>t. f = Running t")
      case True
      then obtain t where t: "f = Running t" ..
      have mem: "Running t \<in># frames workers s" using frame(2,3) t by (auto simp: in_frames)
      have "count_list (List.map snd (started s)) t \<noteq> 0"
        using total_pos[OF mem, of "running t"] ok by (auto simp: pool_ok_def runs_ok_def)
      then have "t \<in> set (List.map snd (started s))" by (simp add: count_list_0_iff)
      then have "t \<notin> C" using started_after[OF ok] looped step.IH by blast
      then show ?thesis using frame(1,4) t step.IH by auto
    next
      case False
      then have "finished s1 = finished s" using frame(4) by (cases "(tf, pinned, th, f, s)" rule: frame_step.cases) (auto split: if_splits)
      then show ?thesis using frame(1) step.IH by simp
    qed
  next
    case (loop th l fs s1)
    then have "finished s1 = finished s" by (cases "loops s th") (auto simp: take_owner_def take_shared_def split: if_splits)
    then show ?thesis using loop(1) step.IH by simp
  qed
qed

lemma loop_never_ends:
  assumes "tasks_ok tf" "\<forall>t \<in> C. \<exists>p \<in> C. (p, t) \<in> task_arcs tf" "t \<in> C" "t < length tf" "pool_reachable tf pinned workers e s"
  shows "loops s 0 \<noteq> Left \<and> t \<notin> snd ` set (started s)"
proof -
  note ok = run_invariants[OF assms(1,5)]
  note waits = looped_tasks_wait[OF assms(1,2,5)]
  have "loops s 0 \<noteq> Left"
  proof
    assume left: "loops s 0 = Left"
    have "loop_ok workers e s 0 (loops s 0)" using ok(2) unfolding sleep_ok_def by blast
    then show False using left_all_finished[OF ok(1)] left waits assms(3,4) by auto
  qed
  moreover have "t \<notin> set (List.map snd (started s))" using started_after[OF ok(1)] assms(2,3) waits by blast
  ultimately show ?thesis by simp
qed

definition looped_tasks :: "task list" where
  "looped_tasks = [\<lparr>task_node = 0, dependencies = 1, precedes = [1]\<rparr>, \<lparr>task_node = 1, dependencies = 1, precedes = [0]\<rparr>]"

lemma looped_example:
  "loops (run_start looped_tasks 0) 0 \<noteq> Left \<and> 1 \<notin> snd ` set (started (run_start looped_tasks 0))"
proof (rule loop_never_ends)
  show "tasks_ok looped_tasks" by (auto simp: tasks_ok_def looped_tasks_def less_Suc_eq lessThan_Suc numeral_2_eq_2)
  show "\<forall>t \<in> {0, 1}. \<exists>p \<in> {0, 1}. (p, t) \<in> task_arcs looped_tasks" by (auto simp: task_arcs_def looped_tasks_def)
  show "1 < length looped_tasks" by (simp add: looped_tasks_def)
  show "pool_reachable looped_tasks (\<lambda>n. False) 1 0 (run_start looped_tasks 0)" by (simp add: pool_reachable_def)
qed simp

end
