(* ===== verification/Encodings.thy ===== *)
theory Encodings
  imports Prelude "HOL-Library.Word"
begin

text \<open>
  Bytes as text (network/sockets/encoding.hpp): base 64, base 85, hexadecimal digits, and the two formats of records
  for memory contents. A size is that of an object in memory, so that the sums of sizes do not wrap. An output is the
  list of the bytes written through the pointer; the two functions at the end have the buffer they are written to.
\<close>

unbundle bit_operations_syntax

section \<open>Bytes\<close>

type_synonym byte = "8 word"

definition ch :: "char \<Rightarrow> byte" where
  "ch c = of_char c"

definition within :: "char \<Rightarrow> char \<Rightarrow> byte \<Rightarrow> bool" where
  "within lo hi c \<longleftrightarrow> ch lo \<le> c \<and> c \<le> ch hi"

datatype encoding = No_encoding | Base64 | Ascii85 | Hex | Intel_hex | Srec

fun max_encoded_size :: "encoding \<Rightarrow> nat \<Rightarrow> nat" where
  "max_encoded_size Base64 sz = 4 * ((sz + 2) div 3)"
| "max_encoded_size Ascii85 sz = sz * 5 div 4 + 5"
| "max_encoded_size Hex sz = sz * 2"
| "max_encoded_size Intel_hex sz = (sz + 15) div 16 * 45 + 13"
| "max_encoded_size Srec sz = (sz + 15) div 16 * 44 + 12"
| "max_encoded_size No_encoding sz = sz"

fun max_decoded_size :: "encoding \<Rightarrow> nat \<Rightarrow> nat" where
  "max_decoded_size Base64 sz = 3 * sz div 4 + 3"
| "max_decoded_size Ascii85 sz = sz * 4"
| "max_decoded_size Hex sz = sz div 2 + 1"
| "max_decoded_size Intel_hex sz = sz div 2 + 1"
| "max_decoded_size Srec sz = sz div 2 + 1"
| "max_decoded_size No_encoding sz = sz"

lemma dropWhile_shorter: "dropWhile P cs = ds \<Longrightarrow> length ds \<le> length cs"
  using length_dropWhile_le by blast

section \<open>Hexadecimal digits\<close>

definition hex_val :: "byte \<Rightarrow> byte" where
  "hex_val c =
    (if within CHR ''0'' CHR ''9'' c then c - ch CHR ''0''
     else if within CHR ''A'' CHR ''F'' c then c - ch CHR ''A'' + 10
     else if within CHR ''a'' CHR ''f'' c then c - ch CHR ''a'' + 10
     else 0)"

definition hex_pair :: "byte \<Rightarrow> byte \<Rightarrow> byte" where
  "hex_pair a b = push_bit 4 (hex_val a) OR hex_val b"

definition hex_digits :: "byte list" where
  "hex_digits = List.map ch ''0123456789ABCDEF''"

definition hex_push :: "byte \<Rightarrow> byte list" where
  "hex_push b = [hex_digits ! unat (drop_bit 4 b), hex_digits ! unat (b AND 15)]"

definition hex_encode :: "byte list \<Rightarrow> byte list" where
  "hex_encode ds = concat (List.map hex_push ds)"

definition hex_separator :: "byte \<Rightarrow> bool" where
  "hex_separator c \<longleftrightarrow> c \<in> {ch CHR '' '', ch CHR '':'', ch CHR ''-'', 13, 10}"

function hex_decode :: "byte list \<Rightarrow> byte list" where
  "hex_decode cs =
    (if length cs < 2 then []
     else case dropWhile hex_separator cs of
        a # b # rest \<Rightarrow> hex_pair a b # hex_decode rest
      | _ \<Rightarrow> [])"
  by pat_completeness auto

termination by (relation "measure length") (auto dest!: dropWhile_shorter)

declare hex_decode.simps [simp del]

section \<open>Base 64\<close>

definition base64_table :: "byte list" where
  "base64_table = List.map ch ''ABCDEFGHIJKLMNOPQRSTUVWXYZabcdefghijklmnopqrstuvwxyz0123456789+/''"

definition digit64 :: "nat \<Rightarrow> 32 word \<Rightarrow> byte" where
  "digit64 k n = base64_table ! unat (drop_bit k n AND 63)"

fun base64_encode :: "byte list \<Rightarrow> byte list" where
  "base64_encode [] = []"
| "base64_encode [a] =
    (let n = push_bit 16 (ucast a) in [digit64 18 n, digit64 12 n, ch CHR ''='', ch CHR ''=''])"
| "base64_encode [a, b] =
    (let n = push_bit 16 (ucast a) OR push_bit 8 (ucast b) in [digit64 18 n, digit64 12 n, digit64 6 n, ch CHR ''=''])"
| "base64_encode (a # b # c # ds) =
    (let n = push_bit 16 (ucast a) OR push_bit 8 (ucast b) OR ucast c
     in [digit64 18 n, digit64 12 n, digit64 6 n, digit64 0 n] @ base64_encode ds)"

definition base64_val :: "byte \<Rightarrow> byte" where
  "base64_val c =
    (if within CHR ''A'' CHR ''Z'' c then c - ch CHR ''A''
     else if within CHR ''a'' CHR ''z'' c then c - ch CHR ''a'' + 26
     else if within CHR ''0'' CHR ''9'' c then c - ch CHR ''0'' + 52
     else if c = ch CHR ''+'' then 62
     else if c = ch CHR ''/'' then 63
     else 255)"

fun base64_loop :: "32 word \<Rightarrow> nat \<Rightarrow> byte list \<Rightarrow> byte list" where
  "base64_loop buf bits [] = []"
| "base64_loop buf bits (c # cs) =
    (let v = base64_val c
     in if v = 255 then base64_loop buf bits cs
        else let buf = push_bit 6 buf OR ucast v
             in if bits + 6 \<ge> 8 then ucast (drop_bit (bits + 6 - 8) buf AND 255) # base64_loop buf (bits + 6 - 8) cs
                else base64_loop buf (bits + 6) cs)"

definition base64_decode :: "byte list \<Rightarrow> byte list" where
  "base64_decode cs = base64_loop 0 0 cs"

section \<open>Base 85\<close>

text \<open>The last group has fewer than four bytes; the missing ones count as zero and the last digits are not written.\<close>

definition group85 :: "byte list \<Rightarrow> 32 word" where
  "group85 ds = fold (\<lambda>j n. n OR push_bit (24 - 8 * j) (ucast (ds ! j))) [0..<length ds] 0"

fun digits85 :: "nat \<Rightarrow> 32 word \<Rightarrow> byte list" where
  "digits85 0 n = []"
| "digits85 (Suc k) n = digits85 k (n div 85) @ [ucast (of_char CHR ''!'' + n mod 85)]"

function ascii85_encode :: "byte list \<Rightarrow> byte list" where
  "ascii85_encode ds =
    (if ds = [] then []
     else if length ds < 4 then take (length ds + 1) (digits85 5 (group85 ds))
     else let n = group85 (take 4 ds)
          in (if n = 0 then [ch CHR ''z''] else digits85 5 n) @ ascii85_encode (drop 4 ds))"
  by pat_completeness auto

termination by (relation "measure length") auto

declare ascii85_encode.simps [simp del]

fun take85 :: "nat \<Rightarrow> 32 word \<Rightarrow> byte list \<Rightarrow> nat \<times> 32 word \<times> byte list" where
  "take85 count n [] = (count, n, [])"
| "take85 count n (c # cs) =
    (if count < 5 \<and> c \<noteq> ch CHR ''z''
     then if within CHR ''!'' CHR ''u'' c then take85 (Suc count) (n * 85 + ucast (c - ch CHR ''!'')) cs
          else take85 count n cs
     else (count, n, c # cs))"

definition bytes85 :: "nat \<Rightarrow> 32 word \<Rightarrow> byte list" where
  "bytes85 k n = List.map (\<lambda>j. ucast (drop_bit (24 - 8 * j) n AND 255)) [0..<k]"

definition group_bytes85 :: "nat \<Rightarrow> 32 word \<Rightarrow> byte list" where
  "group_bytes85 count n =
    (if count = 5 then bytes85 4 n
     else if count > 1 then bytes85 (count - 1) (((\<lambda>n. n * 85 + 84) ^^ (5 - count)) n)
     else [])"

lemma take85_length: "take85 count n cs = (count', n', cs') \<Longrightarrow> length cs' + (count' - count) \<le> length cs \<and> count \<le> count'"
  by (induction count n cs rule: take85.induct) (fastforce split: if_splits)+

lemma take85_shorter:
  assumes "c \<noteq> ch CHR ''z''" "(count, n, rest) = take85 0 0 (c # cs)"
  shows "length rest \<le> length cs"
proof (cases "within CHR ''!'' CHR ''u'' c")
  case True
  then have "take85 (Suc 0) (ucast (c - ch CHR ''!'')) cs = (count, n, rest)"
    using assms(1) assms(2)[symmetric] by simp
  from take85_length[OF this] show ?thesis by simp
next
  case False
  then have "take85 0 0 cs = (count, n, rest)" using assms(1) assms(2)[symmetric] by simp
  from take85_length[OF this] show ?thesis by simp
qed

function ascii85_decode :: "byte list \<Rightarrow> byte list" where
  "ascii85_decode [] = []"
| "ascii85_decode (c # cs) =
    (if c = ch CHR ''z'' then [0, 0, 0, 0] @ ascii85_decode cs
     else case take85 0 0 (c # cs) of (count, n, rest) \<Rightarrow> group_bytes85 count n @ ascii85_decode rest)"
  by pat_completeness auto

termination by (relation "measure length") (auto simp del: take85.simps dest!: take85_shorter)

section \<open>Records\<close>

definition line_end :: "byte \<Rightarrow> bool" where
  "line_end c \<longleftrightarrow> c = 13 \<or> c = 10"

fun hex_pairs :: "byte list \<Rightarrow> byte list" where
  "hex_pairs (a # b # cs) = hex_pair a b # hex_pairs cs"
| "hex_pairs _ = []"

definition ihex_line :: "16 word \<Rightarrow> byte list \<Rightarrow> byte list" where
  "ihex_line addr ds =
    (let bc = of_nat (length ds);
         sum = bc + ucast (drop_bit 8 addr) + ucast addr + sum_list ds
     in [ch CHR '':''] @ hex_push bc @ hex_push (ucast (drop_bit 8 addr)) @ hex_push (ucast addr) @ hex_push 0
        @ concat (List.map hex_push ds) @ hex_push (- sum) @ [13, 10])"

definition ihex_eof :: "byte list" where
  "ihex_eof = List.map ch '':00000001FF'' @ [13, 10]"

function ihex_lines :: "16 word \<Rightarrow> byte list \<Rightarrow> byte list" where
  "ihex_lines addr ds =
    (if ds = [] then []
     else ihex_line addr (take 16 ds) @ ihex_lines (addr + of_nat (length (take 16 ds))) (drop 16 ds))"
  by pat_completeness auto

termination by (relation "measure (\<lambda>(addr, ds). length ds)") auto

declare ihex_lines.simps [simp del]

definition ihex_encode :: "byte list \<Rightarrow> byte list" where
  "ihex_encode ds = ihex_lines 0 ds @ ihex_eof"

text \<open>What follows the header of a record: its data when its type is right and it is complete, and the rest of the input.\<close>

definition record_data :: "bool \<Rightarrow> nat \<Rightarrow> byte list \<Rightarrow> byte list \<times> byte list" where
  "record_data wanted bc p =
    (let data = (if wanted \<and> bc * 2 \<le> length p then hex_pairs (take (bc * 2) p) else []);
         p = drop (bc * 2) p;
         p = (if 2 \<le> length p then drop 2 p else p)
     in (data, dropWhile line_end p))"

lemma record_data_shorter:
  "(data, rest) = record_data wanted bc p \<Longrightarrow> length rest \<le> length p"
  unfolding record_data_def Let_def
  by (auto split: if_splits intro!: order.trans[OF length_dropWhile_le])

function ihex_decode :: "byte list \<Rightarrow> byte list" where
  "ihex_decode cs =
    (case dropWhile (\<lambda>c. c \<noteq> ch CHR '':'') cs of
       [] \<Rightarrow> []
     | _ # p \<Rightarrow>
        (if length p < 8 then []
         else let bc = unat (hex_pair (p ! 0) (p ! 1)); type = hex_pair (p ! 6) (p ! 7)
              in if type = 1 then []
                 else case record_data (type = 0) bc (drop 8 p) of (data, rest) \<Rightarrow> data @ ihex_decode rest))"
  by pat_completeness auto

termination by (relation "measure length") (auto dest!: dropWhile_shorter record_data_shorter)

declare ihex_decode.simps [simp del]

definition srec_line :: "16 word \<Rightarrow> byte list \<Rightarrow> byte list" where
  "srec_line addr ds =
    (let bc = of_nat (2 + length ds + 1);
         sum = bc + ucast (drop_bit 8 addr) + ucast addr + sum_list ds
     in [ch CHR ''S'', ch CHR ''1''] @ hex_push bc @ hex_push (ucast (drop_bit 8 addr)) @ hex_push (ucast addr)
        @ concat (List.map hex_push ds) @ hex_push (NOT sum) @ [13, 10])"

definition srec_eof :: "byte list" where
  "srec_eof = List.map ch ''S9030000FC'' @ [13, 10]"

function srec_lines :: "16 word \<Rightarrow> byte list \<Rightarrow> byte list" where
  "srec_lines addr ds =
    (if ds = [] then []
     else srec_line addr (take 16 ds) @ srec_lines (addr + of_nat (length (take 16 ds))) (drop 16 ds))"
  by pat_completeness auto

termination by (relation "measure (\<lambda>(addr, ds). length ds)") auto

declare srec_lines.simps [simp del]

definition srec_encode :: "byte list \<Rightarrow> byte list" where
  "srec_encode ds = srec_lines 0 ds @ srec_eof"

definition address_bytes :: "byte \<Rightarrow> nat" where
  "address_bytes type =
    (if type = ch CHR ''0'' \<or> type = ch CHR ''1'' then 2
     else if type = ch CHR ''2'' then 3
     else if type = ch CHR ''3'' then 4
     else 2)"

text \<open>A length below that of the address and the checksum leaves no data.\<close>

function srec_decode :: "byte list \<Rightarrow> byte list" where
  "srec_decode cs =
    (case dropWhile (\<lambda>c. c \<noteq> ch CHR ''S'') cs of
       _ # type # p \<Rightarrow>
        (if type \<in> {ch CHR ''9'', ch CHR ''8'', ch CHR ''7''} then []
         else if length p < 2 then []
         else let bc = unat (hex_pair (p ! 0) (p ! 1)); ab = address_bytes type; p = drop 2 p
              in if length p < ab * 2 then []
                 else case record_data (within CHR ''1'' CHR ''3'' type) (bc - ab - 1) (drop (ab * 2) p) of
                        (data, rest) \<Rightarrow> data @ srec_decode rest)
     | _ \<Rightarrow> [])"
  by pat_completeness auto

termination by (relation "measure length") (auto dest!: dropWhile_shorter record_data_shorter)

declare srec_decode.simps [simp del]

section \<open>Buffers\<close>

fun encode_to :: "encoding \<Rightarrow> byte list \<Rightarrow> byte list" where
  "encode_to Base64 ds = base64_encode ds"
| "encode_to Ascii85 ds = ascii85_encode ds"
| "encode_to Hex ds = hex_encode ds"
| "encode_to Intel_hex ds = ihex_encode ds"
| "encode_to Srec ds = srec_encode ds"
| "encode_to No_encoding ds = ds"

fun decode_to :: "encoding \<Rightarrow> byte list \<Rightarrow> byte list" where
  "decode_to Base64 cs = base64_decode cs"
| "decode_to Ascii85 cs = ascii85_decode cs"
| "decode_to Hex cs = hex_decode cs"
| "decode_to Intel_hex cs = ihex_decode cs"
| "decode_to Srec cs = srec_decode cs"
| "decode_to No_encoding cs = cs"

datatype overrun = Buffer_overrun

text \<open>Writing past the end of the vector that was allocated is an error.\<close>

definition encode_bytes :: "encoding \<Rightarrow> byte list \<Rightarrow> overrun + byte list" where
  "encode_bytes enc ds =
    (if enc = No_encoding then Inr ds
     else let out = encode_to enc ds
          in if length out \<le> max_encoded_size enc (length ds) then Inr out else Inl Buffer_overrun)"

definition decode_bytes :: "encoding \<Rightarrow> byte list \<Rightarrow> overrun + byte list" where
  "decode_bytes enc cs =
    (if enc = No_encoding then Inr cs
     else let out = decode_to enc cs
          in if length out \<le> max_decoded_size enc (length cs) then Inr out else Inl Buffer_overrun)"

end
