(* ===== verification/EncodingProps.thy ===== *)
theory EncodingProps
  imports Encodings
begin

text \<open>
  What is encoded is decoded again, in every encoding, and no encoder or decoder writes past the end of the buffer that
  was allocated for it.
\<close>

section \<open>Hexadecimal digits\<close>

lemma all_below: "list_all P [0..<n] \<Longrightarrow> i < n \<Longrightarrow> P i"
  by (simp add: list_all_iff)

lemma hex_val_digit: "n < 16 \<Longrightarrow> hex_val (hex_digits ! n) = of_nat n"
proof -
  have "list_all (\<lambda>n. hex_val (hex_digits ! n) = of_nat n) [0..<16]" by code_simp
  then show "n < 16 \<Longrightarrow> ?thesis" by (rule all_below)
qed

lemma hex_digit_plain: "n < 16 \<Longrightarrow> \<not> hex_separator (hex_digits ! n) \<and> \<not> line_end (hex_digits ! n)"
proof -
  have "list_all (\<lambda>n. \<not> hex_separator (hex_digits ! n) \<and> \<not> line_end (hex_digits ! n)) [0..<16]" by code_simp
  then show "n < 16 \<Longrightarrow> ?thesis" by (rule all_below)
qed

lemma masks: "(15 :: byte) = mask 4" "(63 :: 32 word) = mask 6" "(255 :: 32 word) = mask 8"
  by (simp_all add: mask_eq_exp_minus_1)

lemma nibbles: "unat (drop_bit 4 (b :: byte)) < 16" "unat (b AND 15) < 16"
proof -
  have "unat (drop_bit 4 b) = unat b div 16" by (simp add: drop_bit_eq_div unat_div_distrib)
  moreover have "unat b < 256" using unsigned_less[of b] by simp
  ultimately show "unat (drop_bit 4 b) < 16" by linarith
  have "unat (b AND 15) = unat b mod 16"
    by (simp only: masks flip: take_bit_eq_mask) (simp add: take_bit_eq_mod unat_mod_distrib)
  then show "unat (b AND 15) < 16" by simp
qed

lemma join_nibbles: "push_bit 4 (drop_bit 4 b) OR (b AND 15) = (b :: byte)"
  unfolding masks by (rule bit_word_eqI) (auto simp: bit_simps)

lemma hex_pair_push: "hex_pairs (hex_push b @ cs) = b # hex_pairs cs"
  using join_nibbles[of b] by (simp add: hex_push_def hex_pair_def hex_val_digit nibbles)

lemma hex_pairs_data: "hex_pairs (concat (List.map hex_push ds)) = ds"
  by (induction ds) (simp_all add: hex_pair_push)

lemma hex_push_digits: "\<exists>i < 16. \<exists>j < 16. hex_push b = [hex_digits ! i, hex_digits ! j]"
  unfolding hex_push_def using nibbles by blast

lemma hex_round_trip: "hex_decode (hex_encode ds) = ds"
proof (induction ds)
  case (Cons d ds)
  obtain i j where ij: "i < 16" "j < 16" "hex_push d = [hex_digits ! i, hex_digits ! j]" using hex_push_digits by blast
  have "hex_pair (hex_digits ! i) (hex_digits ! j) = d" using hex_pair_push[of d "[]"] ij(3) by simp
  moreover have "dropWhile hex_separator (hex_encode (d # ds)) = hex_encode (d # ds)"
    using ij hex_digit_plain by (simp add: hex_encode_def)
  ultimately show ?case using Cons ij(3) by (subst hex_decode.simps) (simp add: hex_encode_def)
qed (simp add: hex_encode_def hex_decode.simps)

section \<open>Base 64\<close>

lemma base64_val_digit: "n < 64 \<Longrightarrow> base64_val (base64_table ! n) = of_nat n"
proof -
  have "list_all (\<lambda>n. base64_val (base64_table ! n) = of_nat n) [0..<64]" by code_simp
  then show "n < 64 \<Longrightarrow> ?thesis" by (rule all_below)
qed

lemma base64_val_digit64: "base64_val (digit64 k n) = ucast (drop_bit k n AND 63)" "base64_val (digit64 k n) \<noteq> 255"
proof -
  let ?i = "unat (drop_bit k n AND 63)"
  have i: "?i < 64"
    by (simp only: masks flip: take_bit_eq_mask) (simp add: take_bit_eq_mod unat_mod_distrib)
  then have v: "base64_val (digit64 k n) = of_nat ?i" unfolding digit64_def by (rule base64_val_digit)
  then show "base64_val (digit64 k n) = ucast (drop_bit k n AND 63)" by simp
  show "base64_val (digit64 k n) \<noteq> 255"
  proof
    assume "base64_val (digit64 k n) = 255"
    then have "bit (ucast (drop_bit k n AND mask 6) :: byte) 7 = bit (255 :: byte) 7" using v by (simp add: masks)
    then show False by (simp add: bit_simps)
  qed
qed

abbreviation push64 :: "32 word \<Rightarrow> nat \<Rightarrow> 32 word \<Rightarrow> 32 word" where
  "push64 buf k n \<equiv> push_bit 6 buf OR (drop_bit k n AND 63)"

lemma base64_loop_digit:
  "base64_loop buf 0 (digit64 k n # cs) = base64_loop (push64 buf k n) 6 cs"
  "base64_loop buf 6 (digit64 k n # cs) = ucast (drop_bit 4 (push64 buf k n) AND 255) # base64_loop (push64 buf k n) 4 cs"
  "base64_loop buf 4 (digit64 k n # cs) = ucast (drop_bit 2 (push64 buf k n) AND 255) # base64_loop (push64 buf k n) 2 cs"
  "base64_loop buf 2 (digit64 k n # cs) = ucast (push64 buf k n AND 255) # base64_loop (push64 buf k n) 0 cs"
proof -
  have v: "ucast (ucast (drop_bit k n AND 63) :: byte) = drop_bit k n AND 63"
    unfolding masks by (rule bit_word_eqI) (auto simp: bit_simps)
  have ne: "ucast (drop_bit k n AND 63) \<noteq> (255 :: byte)" using base64_val_digit64[of k n] by simp
  note step = base64_loop.simps(2)[of _ _ "digit64 k n" cs, unfolded Let_def base64_val_digit64(1) if_not_P[OF ne] v]
  show "base64_loop buf 0 (digit64 k n # cs) = base64_loop (push64 buf k n) 6 cs" unfolding step by simp
  show "base64_loop buf 6 (digit64 k n # cs) = ucast (drop_bit 4 (push64 buf k n) AND 255) # base64_loop (push64 buf k n) 4 cs"
    unfolding step by simp
  show "base64_loop buf 4 (digit64 k n # cs) = ucast (drop_bit 2 (push64 buf k n) AND 255) # base64_loop (push64 buf k n) 2 cs"
    unfolding step by simp
  show "base64_loop buf 2 (digit64 k n # cs) = ucast (push64 buf k n AND 255) # base64_loop (push64 buf k n) 0 cs"
    unfolding step by simp
qed

lemma base64_bytes:
  "ucast (drop_bit 4 (push64 (push64 buf 18 n) 12 n) AND 255) = (ucast (drop_bit 16 n) :: byte)"
  "ucast (drop_bit 2 (push64 (push64 buf 12 n) 6 n) AND 255) = (ucast (drop_bit 8 n) :: byte)"
  "ucast (push64 (push64 buf 6 n) 0 n AND 255) = (ucast n :: byte)"
  unfolding masks by (rule bit_word_eqI, auto simp: bit_simps dest: bit_imp_le_length)+

lemma base64_loop_pad: "base64_loop buf bits (ch CHR ''='' # cs) = base64_loop buf bits cs"
proof -
  have "base64_val (ch CHR ''='') = 255" by code_simp
  then show ?thesis by simp
qed

lemma base64_loop_encode: "base64_loop buf 0 (base64_encode ds) = ds"
proof (induction ds arbitrary: buf rule: base64_encode.induct)
  case (2 a)
  have "ucast (drop_bit 16 (push_bit 16 (ucast a :: 32 word))) = a" by (rule bit_word_eqI) (auto simp: bit_simps)
  then show ?case by (simp only: base64_encode.simps Let_def base64_loop_digit base64_loop_pad base64_bytes base64_loop.simps(1))
next
  case (3 a b)
  let ?n = "push_bit 16 (ucast a) OR push_bit 8 (ucast b) :: 32 word"
  have "ucast (drop_bit 16 ?n) = a" "ucast (drop_bit 8 ?n) = b" by (rule bit_word_eqI, auto simp: bit_simps dest: bit_imp_le_length)+
  then show ?case by (simp only: base64_encode.simps Let_def base64_loop_digit base64_loop_pad base64_bytes base64_loop.simps(1))
next
  case (4 a b c ds)
  let ?n = "push_bit 16 (ucast a) OR push_bit 8 (ucast b) OR ucast c :: 32 word"
  have "ucast (drop_bit 16 ?n) = a" "ucast (drop_bit 8 ?n) = b" "ucast ?n = c" by (rule bit_word_eqI, auto simp: bit_simps dest: bit_imp_le_length)+
  then show ?case
    by (simp only: base64_encode.simps Let_def append.simps base64_loop_digit base64_loop_pad base64_bytes 4)
qed simp

section \<open>Base 85\<close>

definition digit85 :: "32 word \<Rightarrow> byte" where
  "digit85 n = ucast (of_char CHR ''!'' + n mod 85)"

lemma digit85_value:
  "digit85 n \<noteq> ch CHR ''z''" "within CHR ''!'' CHR ''u'' (digit85 n)" "ucast (digit85 n - ch CHR ''!'') = n mod 85"
proof -
  let ?k = "unat (n mod 85)"
  have k: "?k < 85" by (simp add: unat_mod_distrib)
  have all: "list_all (\<lambda>k. ucast (of_char CHR ''!'' + (of_nat k :: 32 word)) \<noteq> ch CHR ''z''
      \<and> within CHR ''!'' CHR ''u'' (ucast (of_char CHR ''!'' + (of_nat k :: 32 word)))
      \<and> ucast (ucast (of_char CHR ''!'' + (of_nat k :: 32 word)) - ch CHR ''!'') = (of_nat k :: 32 word)) [0..<85]" by code_simp
  have "of_nat ?k = n mod 85" by simp
  with all_below[OF all k] show "digit85 n \<noteq> ch CHR ''z''" "within CHR ''!'' CHR ''u'' (digit85 n)"
    "ucast (digit85 n - ch CHR ''!'') = n mod 85"
    unfolding digit85_def by simp_all
qed

lemma digits85_Suc: "digits85 (Suc k) n = digits85 k (n div 85) @ [digit85 n]"
  by (simp add: digit85_def)

lemma length_digits85 [simp]: "length (digits85 k n) = k"
  by (induction k arbitrary: n) simp_all

lemma take85_digit:
  "count < 5 \<Longrightarrow> take85 count m (digit85 n # cs) = take85 (Suc count) (m * 85 + n mod 85) cs"
  by (simp add: digit85_value)

lemma unat_div85: "unat (n div 85 :: 32 word) = unat n div 85"
  by (simp add: unat_div_distrib)

lemma take85_digits:
  "count + k \<le> 5 \<Longrightarrow> unat n < 85 ^ k \<Longrightarrow> take85 count m (digits85 k n @ cs) = take85 (count + k) (m * 85 ^ k + n) cs"
proof (induction k arbitrary: n cs)
  case 0
  then have "n = 0" by (simp add: unat_eq_0)
  then show ?case by simp
next
  case (Suc k)
  have "unat (n div 85) < 85 ^ k" using Suc.prems(2) by (simp add: unat_div85 less_mult_imp_div_less mult.commute)
  then have "take85 count m (digits85 (Suc k) n @ cs) = take85 (count + k) (m * 85 ^ k + n div 85) (digit85 n # cs)"
    using Suc.IH[of "n div 85" "digit85 n # cs"] Suc.prems(1) unfolding digits85_Suc by simp
  also have "\<dots> = take85 (count + Suc k) ((m * 85 ^ k + n div 85) * 85 + n mod 85) cs"
    using Suc.prems(1) take85_digit[of "count + k"] by simp
  also have "(m * 85 ^ k + n div 85) * 85 + n mod 85 = m * 85 ^ Suc k + (n div 85 * 85 + n mod 85)" by (simp add: algebra_simps)
  also have "n div 85 * 85 + n mod 85 = n" by (rule div_mult_mod_eq)
  finally show ?case .
qed

lemma take85_full: "take85 5 n cs = (5, n, cs)"
  by (cases cs) simp_all

lemma digits85_prefix: "take k (digits85 (k + j) n) = digits85 k (((\<lambda>n. n div 85) ^^ j) n)"
proof (induction j arbitrary: n)
  case (Suc j)
  have "take k (digits85 (k + Suc j) n) = take k (digits85 (k + j) (n div 85))" by (simp add: digits85_Suc)
  then show ?case using Suc by (simp only: funpow_Suc_right comp_apply)
qed simp

lemma digits85_first: "digits85 (Suc k) n = digit85 (((\<lambda>n. n div 85) ^^ k) n) # drop 1 (digits85 (Suc k) n)"
proof -
  have "digits85 1 m = [digit85 m]" for m using digits85_Suc[of 0 m] by simp
  then have "take 1 (digits85 (1 + k) n) = [digit85 (((\<lambda>n. n div 85) ^^ k) n)]" by (simp only: digits85_prefix)
  then show ?thesis by (metis append_Cons append_Nil append_take_drop_id plus_1_eq_Suc)
qed

lemma ascii85_decode_digits:
  assumes "0 < k" "k \<le> 5" "unat n < 85 ^ k" "cs = [] \<or> k = 5"
  shows "ascii85_decode (digits85 k n @ cs) = group_bytes85 k n @ ascii85_decode cs"
proof -
  obtain j where k: "k = Suc j" using assms(1) by (cases k) auto
  let ?d = "digit85 (((\<lambda>n. n div 85) ^^ j) n)" and ?ds = "drop 1 (digits85 (Suc j) n)"
  have first: "digits85 k n @ cs = ?d # ?ds @ cs" unfolding k using digits85_first[of j n] by (metis append_Cons)
  have "take85 0 0 (digits85 k n @ cs) = take85 k n cs"
    using take85_digits[of 0 k n 0 cs] assms(2,3) by (simp del: digits85.simps)
  also have "\<dots> = (k, n, cs)" using assms(4) take85_full by (auto simp del: take85.simps(2))
  finally have "take85 0 0 (?d # ?ds @ cs) = (k, n, cs)" unfolding first .
  then show ?thesis unfolding first ascii85_decode.simps(2) using digit85_value(1) by (simp del: take85.simps)
qed

lemma div85_iter: "unat (((\<lambda>n. n div 85) ^^ j) (n :: 32 word)) = unat n div 85 ^ j"
  by (induction j) (simp_all add: unat_div85 div_mult2_eq[symmetric] mult.commute)

lemma bit_group85:
  "bit (group85 ds) i \<longleftrightarrow> (\<exists>j < length ds. bit (push_bit (24 - 8 * j) (ucast (ds ! j) :: 32 word)) i)"
proof -
  have "bit (fold (\<lambda>j n. n OR push_bit (24 - 8 * j) (ucast (ds ! j))) js (n :: 32 word)) i
      \<longleftrightarrow> bit n i \<or> (\<exists>j \<in> set js. bit (push_bit (24 - 8 * j) (ucast (ds ! j) :: 32 word)) i)" for js n
    by (induction js arbitrary: n) (auto simp: bit_or_iff)
  from this[of "[0..<length ds]" 0] show ?thesis by (auto simp: group85_def)
qed

lemma group85_byte:
  assumes "j < length ds" "length ds \<le> 4"
  shows "ucast (drop_bit (24 - 8 * j) (group85 ds) AND 255) = ds ! j"
proof (rule bit_word_eqI)
  fix i assume "i < LENGTH(8)"
  then have i: "i < 8" by simp
  have one: "j' = j" if "bit (push_bit (24 - 8 * j') (ucast (ds ! j') :: 32 word)) (24 - 8 * j + i)" "j' < length ds" for j'
  proof -
    have "24 - 8 * j' \<le> 24 - 8 * j + i" "24 - 8 * j + i - (24 - 8 * j') < 8"
      using that(1) by (auto simp: bit_push_bit_iff bit_ucast_iff dest: bit_imp_le_length)
    then show ?thesis using that(2) i assms by linarith
  qed
  have "24 - 8 * j + i < 32" using i by linarith
  then have same: "bit (push_bit (24 - 8 * j) (ucast (ds ! j) :: 32 word)) (24 - 8 * j + i) \<longleftrightarrow> bit (ds ! j) i"
    using i by (simp add: bit_push_bit_iff bit_ucast_iff)
  have "bit (group85 ds) (24 - 8 * j + i) \<longleftrightarrow> bit (ds ! j) i"
    unfolding bit_group85 using one same assms(1) by blast
  then show "bit (ucast (drop_bit (24 - 8 * j) (group85 ds) AND 255) :: byte) i \<longleftrightarrow> bit (ds ! j) i"
    unfolding masks using i by (simp add: bit_simps)
qed

lemma group85_bytes: "k \<le> length ds \<Longrightarrow> length ds \<le> 4 \<Longrightarrow> bytes85 k (group85 ds) = take k ds"
  unfolding bytes85_def by (rule nth_equalityI) (simp_all add: group85_byte)

lemma group85_low: "take_bit (32 - 8 * length ds) (group85 ds) = 0"
proof (rule bit_word_eqI)
  fix i
  show "bit (take_bit (32 - 8 * length ds) (group85 ds)) i \<longleftrightarrow> bit (0 :: 32 word) i"
    unfolding bit_take_bit_iff bit_group85 by (auto simp: bit_simps)
qed

lemma bytes85_high:
  assumes "k \<le> 4" "drop_bit (32 - 8 * k) n = drop_bit (32 - 8 * k) m"
  shows "bytes85 k n = bytes85 k m"
proof -
  have "drop_bit (24 - 8 * j) n AND 255 = drop_bit (24 - 8 * j) m AND 255" if "j < k" for j
  proof (rule bit_word_eqI)
    fix i assume "i < LENGTH(32)"
    have "bit n (24 - 8 * j + i) = bit m (24 - 8 * j + i)"
      using assms(2)[THEN arg_cong, of "\<lambda>x. bit x (24 - 8 * j + i - (32 - 8 * k))"] that assms(1) by (simp add: bit_drop_bit_eq)
    then show "bit (drop_bit (24 - 8 * j) n AND 255) i = bit (drop_bit (24 - 8 * j) m AND 255) i"
      by (simp add: bit_simps)
  qed
  then show ?thesis by (simp add: bytes85_def)
qed

lemma padded_value:
  "unat m * 85 ^ j + (85 ^ j - 1) < 2 ^ 32 \<Longrightarrow> unat (((\<lambda>n. n * 85 + 84) ^^ j) (m :: 32 word)) = unat m * 85 ^ j + (85 ^ j - 1)"
proof (induction j)
  case (Suc j)
  obtain d where d: "(85 :: nat) ^ j = Suc d" by (cases "(85 :: nat) ^ j") simp_all
  have eq: "(unat m * 85 ^ j + (85 ^ j - 1)) * 85 + 84 = unat m * 85 ^ Suc j + (85 ^ Suc j - 1)"
    unfolding power_Suc d by (simp add: algebra_simps)
  have "unat m * 85 ^ j + (85 ^ j - 1) \<le> (unat m * 85 ^ j + (85 ^ j - 1)) * 85 + 84" by simp
  then have IH: "unat (((\<lambda>n. n * 85 + 84) ^^ j) m) = unat m * 85 ^ j + (85 ^ j - 1)" using Suc.IH Suc.prems eq by linarith
  have "unat (((\<lambda>n. n * 85 + 84) ^^ Suc j) m) = ((unat m * 85 ^ j + (85 ^ j - 1)) * 85 + 84) mod 2 ^ 32"
    by (simp add: unat_word_ariths IH mod_simps)
  then show ?case using Suc.prems eq by simp
qed simp

lemma same_block:
  fixes N D B :: nat
  assumes "B dvd N" "B dvd M" "N < M" "0 < D" "D \<le> B"
  shows "N div D * D + (D - 1) < M \<and> (N div D * D + (D - 1)) div B = N div B"
proof -
  let ?P = "N div D * D + (D - 1)"
  have "N = N div D * D + N mod D" "N mod D < D" using assms(4) by simp_all
  then have P: "N \<le> ?P" "?P < N + B" using assms(4,5) by linarith+
  obtain k m where km: "N = B * k" "M = B * m" using assms(1,2) unfolding dvd_def by blast
  have "k < m" using assms(3) km by simp
  then have "N + B \<le> M" unfolding km using mult_le_mono2[of "Suc k" m B] by simp
  moreover have "?P div B = k" using P unfolding km(1) by (intro div_nat_eqI) (simp_all add: mult.commute)
  moreover have "N div B = k" using km(1) assms(4,5) by simp
  ultimately show ?thesis using P by linarith
qed

lemma padded_group:
  assumes "0 < length ds" "length ds < 4"
  shows "bytes85 (length ds) (((\<lambda>n. n * 85 + 84) ^^ (4 - length ds)) (((\<lambda>n. n div 85) ^^ (4 - length ds)) (group85 ds))) = ds"
proof -
  let ?j = "4 - length ds" and ?s = "32 - 8 * length ds" and ?n = "group85 ds"
  let ?m = "((\<lambda>n. n div 85) ^^ ?j) ?n"
  have "take_bit ?s (unat ?n) = 0" using group85_low[of ds] by (metis unsigned_take_bit_eq unsigned_0)
  then have low: "2 ^ ?s dvd unat ?n" by (simp only: take_bit_eq_0_iff)
  have "?s \<le> 32" by simp
  then have top: "(2 :: nat) ^ ?s dvd 2 ^ 32" by (rule le_imp_power_dvd)
  have "length ds = 1 \<or> length ds = 2 \<or> length ds = 3" using assms by linarith
  then have small: "(85 :: nat) ^ ?j \<le> 2 ^ ?s" by auto
  have "unat ?n < 2 ^ 32" using unsigned_less[of ?n] by simp
  from same_block[OF low top this _ small]
  have P: "unat ?n div 85 ^ ?j * 85 ^ ?j + (85 ^ ?j - 1) < 2 ^ 32"
    "(unat ?n div 85 ^ ?j * 85 ^ ?j + (85 ^ ?j - 1)) div 2 ^ ?s = unat ?n div 2 ^ ?s" by simp_all
  have "unat (((\<lambda>n. n * 85 + 84) ^^ ?j) ?m) = unat ?n div 85 ^ ?j * 85 ^ ?j + (85 ^ ?j - 1)"
    using padded_value[of ?m ?j] P(1) by (simp add: div85_iter)
  then have "unat (drop_bit ?s (((\<lambda>n. n * 85 + 84) ^^ ?j) ?m)) = unat (drop_bit ?s ?n)"
    using P(2) unfolding unat_drop_bit_eq by (simp only: drop_bit_eq_div)
  then have "drop_bit ?s (((\<lambda>n. n * 85 + 84) ^^ ?j) ?m) = drop_bit ?s ?n" by (simp only: word_unat_eq_iff)
  then have "bytes85 (length ds) (((\<lambda>n. n * 85 + 84) ^^ ?j) ?m) = bytes85 (length ds) ?n"
    using assms(2) by (intro bytes85_high) simp_all
  also have "\<dots> = ds" using group85_bytes[of "length ds" ds] assms(2) by simp
  finally show ?thesis .
qed

lemma ascii85_round_trip: "ascii85_decode (ascii85_encode ds) = ds"
proof (induction ds rule: ascii85_encode.induct)
  case (1 ds)
  consider "ds = []" | "ds \<noteq> []" "length ds < 4" | "4 \<le> length ds" by fastforce
  then show ?case
  proof cases
    case 2
    let ?k = "length ds" and ?n = "((\<lambda>n. n div 85) ^^ (4 - length ds)) (group85 ds)"
    have k: "0 < ?k" "?k + 1 + (4 - ?k) = 5" using 2 by simp_all
    have "ascii85_encode ds = take (?k + 1) (digits85 (?k + 1 + (4 - ?k)) (group85 ds))"
      using 2 by (subst ascii85_encode.simps) (simp add: k(2))
    also have "\<dots> = digits85 (?k + 1) ?n" by (rule digits85_prefix)
    finally have enc: "ascii85_encode ds = digits85 (?k + 1) ?n @ []" by simp
    have "unat (group85 ds) < 2 ^ 32" using unsigned_less[of "group85 ds"] by simp
    moreover have "?k = 1 \<or> ?k = 2 \<or> ?k = 3" using 2(2) k(1) by linarith
    then have "(2 :: nat) ^ 32 \<le> 85 ^ (?k + 1) * 85 ^ (4 - ?k)" by auto
    ultimately have "unat ?n < 85 ^ (?k + 1)" by (simp only: div85_iter less_mult_imp_div_less)
    then have "ascii85_decode (ascii85_encode ds) = group_bytes85 (?k + 1) ?n @ ascii85_decode []"
      unfolding enc using 2 by (intro ascii85_decode_digits) simp_all
    also have "\<dots> = bytes85 ?k (((\<lambda>n. n * 85 + 84) ^^ (4 - ?k)) ?n)"
      using 2(2) k(1) by (simp add: group_bytes85_def)
    finally show ?thesis using padded_group[OF k(1) 2(2)] by simp
  next
    case 3
    let ?n = "group85 (take 4 ds)"
    have all: "bytes85 4 ?n = take 4 ds" using group85_bytes[of 4 "take 4 ds"] 3 by simp
    have IH: "ascii85_decode (ascii85_encode (drop 4 ds)) = drop 4 ds" using 1 3 by fastforce
    have enc: "ascii85_encode ds = (if ?n = 0 then [ch CHR ''z''] else digits85 5 ?n) @ ascii85_encode (drop 4 ds)"
      using 3 by (subst ascii85_encode.simps) (auto simp: Let_def)
    have "ascii85_decode (ascii85_encode ds) = bytes85 4 ?n @ ascii85_decode (ascii85_encode (drop 4 ds))"
    proof (cases "?n = 0")
      case True
      have "bytes85 4 0 = [0, 0, 0, 0]" by code_simp
      then show ?thesis unfolding enc using True by simp
    next
      case False
      have "unat ?n < 2 ^ 32" using unsigned_less[of ?n] by simp
      then have "unat ?n < 85 ^ 5" by simp
      then show ?thesis unfolding enc using False ascii85_decode_digits[of 5 ?n] by (simp add: group_bytes85_def del: digits85.simps)
    qed
    then show ?thesis using all IH by simp
  qed (simp add: ascii85_encode.simps)
qed

section \<open>Records\<close>

lemma length_hex_push [simp]: "length (hex_push b) = 2"
  by (simp add: hex_push_def)

lemma length_hex_data [simp]: "length (concat (List.map hex_push ds)) = length ds * 2"
  by (induction ds) simp_all

lemma push_pair: "hex_pair (hex_push b ! 0) (hex_push b ! 1) = b"
proof -
  have "hex_pairs (hex_push b @ []) = [b]" by (simp only: hex_pair_push hex_pairs.simps)
  then show ?thesis by (simp add: hex_push_def)
qed

lemma hex_pushed: "\<exists>x y. hex_push b = [x, y] \<and> hex_pair x y = b"
  using push_pair[of b] by (simp add: hex_push_def)

text \<open>The data of a record whose type is right come out, when what follows its end of line does not begin with another.\<close>

lemma record_data_line:
  assumes "\<And>c. rest \<noteq> [] \<Longrightarrow> \<not> line_end (hd rest)"
  shows "record_data True (length ds) (concat (List.map hex_push ds) @ hex_push b @ [13, 10] @ rest) = (ds, rest)"
proof -
  obtain x y where xy: "hex_push b = [x, y]" using hex_pushed by blast
  have "dropWhile line_end (13 # 10 # rest) = rest" using assms by (cases rest) (simp_all add: line_end_def)
  then show ?thesis by (simp add: record_data_def Let_def hex_pairs_data xy)
qed

lemma push_rest: "hex_push b @ cs = hex_push b ! 0 # hex_push b ! 1 # cs"
  by (simp add: hex_push_def)

lemma ihex_decode_line:
  assumes "length ds < 256" "\<And>c. rest \<noteq> [] \<Longrightarrow> \<not> line_end (hd rest)"
  shows "ihex_decode (ihex_line addr ds @ rest) = ds @ ihex_decode rest"
proof -
  obtain a0 a1 where a: "hex_push (of_nat (length ds)) = [a0, a1]" "hex_pair a0 a1 = of_nat (length ds)" using hex_pushed by blast
  obtain b0 b1 where b: "hex_push (ucast (drop_bit 8 addr)) = [b0, b1]" using hex_pushed by blast
  obtain c0 c1 where c: "hex_push (ucast addr) = [c0, c1]" using hex_pushed by blast
  obtain d0 d1 where d: "hex_push 0 = [d0, d1]" "hex_pair d0 d1 = 0" using hex_pushed by blast
  obtain sum where line: "ihex_line addr ds @ rest
      = ch CHR '':'' # [a0, a1, b0, b1, c0, c1, d0, d1] @ concat (List.map hex_push ds) @ hex_push sum @ [13, 10] @ rest"
    unfolding ihex_line_def Let_def by (simp add: a b c d)
  have "unat (of_nat (length ds) :: byte) = length ds" using assms(1) by (simp add: unat_of_nat)
  then show ?thesis unfolding line
    using record_data_line[OF assms(2), of ds sum] by (subst ihex_decode.simps) (simp add: a(2) d(2))
qed

lemma ihex_eof_decode: "ihex_decode ihex_eof = []"
  unfolding ihex_eof_def by code_simp

lemma ihex_lines_head: "ihex_lines addr ds @ ihex_eof \<noteq> [] \<and> \<not> line_end (hd (ihex_lines addr ds @ ihex_eof))"
proof -
  have "\<not> line_end (ch CHR '':'')" by code_simp
  then show ?thesis
    by (subst (1 2) ihex_lines.simps) (simp add: ihex_line_def ihex_eof_def Let_def)
qed

lemma ihex_round_trip: "ihex_decode (ihex_lines addr ds @ ihex_eof) = ds"
proof (induction addr ds rule: ihex_lines.induct)
  case (1 addr ds)
  show ?case
  proof (cases "ds = []")
    case False
    note rest = ihex_lines_head[of "addr + of_nat (length (take 16 ds))" "drop 16 ds"]
    have "ihex_lines addr ds @ ihex_eof
        = ihex_line addr (take 16 ds) @ ihex_lines (addr + of_nat (length (take 16 ds))) (drop 16 ds) @ ihex_eof"
      using False by (simp add: ihex_lines.simps[of addr ds])
    then show ?thesis using ihex_decode_line[of "take 16 ds"] rest 1[OF False] by simp
  qed (simp add: ihex_lines.simps ihex_eof_decode)
qed

lemma srec_decode_line:
  assumes "length ds < 250" "\<And>c. rest \<noteq> [] \<Longrightarrow> \<not> line_end (hd rest)"
  shows "srec_decode (srec_line addr ds @ rest) = ds @ srec_decode rest"
proof -
  obtain a0 a1 where a: "hex_push (of_nat (2 + length ds + 1)) = [a0, a1]" "hex_pair a0 a1 = of_nat (2 + length ds + 1)"
    using hex_pushed by blast
  obtain b0 b1 where b: "hex_push (ucast (drop_bit 8 addr)) = [b0, b1]" using hex_pushed by blast
  obtain c0 c1 where c: "hex_push (ucast addr) = [c0, c1]" using hex_pushed by blast
  obtain sum where line: "srec_line addr ds @ rest
      = ch CHR ''S'' # ch CHR ''1'' # [a0, a1, b0, b1, c0, c1] @ concat (List.map hex_push ds) @ hex_push sum @ [13, 10] @ rest"
    unfolding srec_line_def Let_def by (simp only: a b c) simp
  have len: "unat (of_nat (2 + length ds + 1) :: byte) - 2 - 1 = length ds" using assms(1) by (simp only: unat_of_nat) simp
  have type: "ch CHR ''1'' \<notin> {ch CHR ''9'', ch CHR ''8'', ch CHR ''7''}" "address_bytes (ch CHR ''1'') = 2"
    "within CHR ''1'' CHR ''3'' (ch CHR ''1'')" by code_simp+
  show ?thesis unfolding line
    using record_data_line[OF assms(2), of ds sum] by (subst srec_decode.simps) (simp add: a(2)[simplified] len[simplified] type[simplified])
qed

lemma srec_eof_decode: "srec_decode srec_eof = []"
  unfolding srec_eof_def by code_simp

lemma srec_lines_head: "srec_lines addr ds @ srec_eof \<noteq> [] \<and> \<not> line_end (hd (srec_lines addr ds @ srec_eof))"
proof -
  have "\<not> line_end (ch CHR ''S'')" by code_simp
  then show ?thesis
    by (subst (1 2) srec_lines.simps) (simp add: srec_line_def srec_eof_def Let_def)
qed

lemma srec_round_trip: "srec_decode (srec_lines addr ds @ srec_eof) = ds"
proof (induction addr ds rule: srec_lines.induct)
  case (1 addr ds)
  show ?case
  proof (cases "ds = []")
    case False
    note rest = srec_lines_head[of "addr + of_nat (length (take 16 ds))" "drop 16 ds"]
    have "srec_lines addr ds @ srec_eof
        = srec_line addr (take 16 ds) @ srec_lines (addr + of_nat (length (take 16 ds))) (drop 16 ds) @ srec_eof"
      using False by (simp add: srec_lines.simps[of addr ds])
    then show ?thesis using srec_decode_line[of "take 16 ds"] rest 1[OF False] by simp
  qed (simp add: srec_lines.simps srec_eof_decode)
qed

text \<open>The bytes of a line, with its checksum, add up to zero, or to 255 in the other format. No decoder looks at them.\<close>

lemma ihex_checksum: "\<exists>bs. ihex_line addr ds = [ch CHR '':''] @ hex_encode bs @ [13, 10] \<and> sum_list bs = 0"
  by (rule exI[of _ "[of_nat (length ds), ucast (drop_bit 8 addr), ucast addr, 0] @ ds
      @ [- (of_nat (length ds) + ucast (drop_bit 8 addr) + ucast addr + sum_list ds)]"])
     (simp add: ihex_line_def Let_def hex_encode_def)

lemma srec_checksum: "\<exists>bs. srec_line addr ds = [ch CHR ''S'', ch CHR ''1''] @ hex_encode bs @ [13, 10] \<and> sum_list bs = 255"
  by (rule exI[of _ "[of_nat (2 + length ds + 1), ucast (drop_bit 8 addr), ucast addr] @ ds
      @ [NOT (of_nat (2 + length ds + 1) + ucast (drop_bit 8 addr) + ucast addr + sum_list ds)]"])
     (simp add: srec_line_def Let_def hex_encode_def not_eq_complement)

section \<open>Sizes\<close>

lemma base64_encode_length: "length (base64_encode ds) = 4 * ((length ds + 2) div 3)"
  by (induction ds rule: base64_encode.induct) (simp_all add: Let_def, presburger)

lemma ascii85_encode_length: "length (ascii85_encode ds) \<le> length ds * 5 div 4 + 5"
proof (induction ds rule: ascii85_encode.induct)
  case (1 ds)
  show ?case
  proof (cases "4 \<le> length ds")
    case True
    then have "length (ascii85_encode (drop 4 ds)) \<le> (length ds - 4) * 5 div 4 + 5" using 1 by fastforce
    moreover have "length (ascii85_encode ds) \<le> 5 + length (ascii85_encode (drop 4 ds))"
      using True by (subst ascii85_encode.simps) (auto simp: Let_def simp del: digits85.simps)
    ultimately show ?thesis using True by linarith
  next
    case False
    then have "length (ascii85_encode ds) \<le> 5" by (subst ascii85_encode.simps) (auto simp del: digits85.simps)
    then show ?thesis by linarith
  qed
qed

lemma ihex_lines_length: "length (ihex_lines addr ds) \<le> (length ds + 15) div 16 * 45"
proof (induction addr ds rule: ihex_lines.induct)
  case (1 addr ds)
  show ?case
  proof (cases "ds = []")
    case False
    have "length (ihex_line addr (take 16 ds)) \<le> 45" by (simp add: ihex_line_def Let_def)
    then have "length (ihex_lines addr ds) \<le> 45 + (length ds - 16 + 15) div 16 * 45"
      using 1[OF False] False by (subst ihex_lines.simps) simp
    also have "45 + (length ds - 16 + 15) div 16 * 45 \<le> (length ds + 15) div 16 * 45"
      using False by (cases "16 \<le> length ds") (simp_all add: Suc_le_eq le_div_geq)
    finally show ?thesis .
  qed (simp add: ihex_lines.simps)
qed

lemma srec_lines_length: "length (srec_lines addr ds) \<le> (length ds + 15) div 16 * 44"
proof (induction addr ds rule: srec_lines.induct)
  case (1 addr ds)
  show ?case
  proof (cases "ds = []")
    case False
    have "length (srec_line addr (take 16 ds)) \<le> 44" by (simp add: srec_line_def Let_def)
    then have "length (srec_lines addr ds) \<le> 44 + (length ds - 16 + 15) div 16 * 44"
      using 1[OF False] False by (subst srec_lines.simps) simp
    also have "44 + (length ds - 16 + 15) div 16 * 44 \<le> (length ds + 15) div 16 * 44"
      using False by (cases "16 \<le> length ds") (simp_all add: Suc_le_eq le_div_geq)
    finally show ?thesis .
  qed (simp add: srec_lines.simps)
qed

lemma encode_to_length: "length (encode_to enc ds) \<le> max_encoded_size enc (length ds)"
proof (cases enc)
  case Intel_hex
  have "length ihex_eof = 13" by (simp add: ihex_eof_def)
  then show ?thesis using Intel_hex ihex_lines_length[of 0 ds] by (simp add: ihex_encode_def)
next
  case Srec
  have "length srec_eof = 12" by (simp add: srec_eof_def)
  then show ?thesis using Srec srec_lines_length[of 0 ds] by (simp add: srec_encode_def)
qed (simp_all add: base64_encode_length ascii85_encode_length hex_encode_def)

lemma base64_loop_length: "8 * length (base64_loop buf bits cs) \<le> bits + 6 * length cs"
proof (induction buf bits cs rule: base64_loop.induct)
  case (2 buf bits c cs)
  show ?case
  proof (cases "base64_val c = 255")
    case False
    show ?thesis
    proof (cases "bits + 6 \<ge> 8")
      case True
      show ?thesis using 2(2)[OF refl False refl True] True False by (simp add: Let_def)
    next
      case small: False
      show ?thesis using 2(3)[OF refl False refl small] small False by (simp add: Let_def)
    qed
  qed (use 2(1) in simp)
qed simp

lemma hex_decode_length: "2 * length (hex_decode cs) \<le> length cs"
proof (induction cs rule: hex_decode.induct)
  case (1 cs)
  show ?case
  proof (cases "length cs < 2")
    case False
    then show ?thesis using 1[OF False] length_dropWhile_le[of hex_separator cs]
      by (subst hex_decode.simps) (fastforce split: list.splits)
  qed (simp add: hex_decode.simps)
qed

lemma take85_count: "count \<le> 5 \<Longrightarrow> take85 count n cs = (count', n', cs') \<Longrightarrow> count' \<le> 5"
  by (induction count n cs rule: take85.induct) (simp_all split: if_splits)

lemma ascii85_decode_length: "length (ascii85_decode cs) \<le> 4 * length cs"
proof (induction cs rule: ascii85_decode.induct)
  case (2 c cs)
  show ?case
  proof (cases "c = ch CHR ''z''")
    case False
    obtain count n rest where t: "take85 0 0 (c # cs) = (count, n, rest)" by (metis prod_cases3)
    have "length (group_bytes85 count n) \<le> 4"
      using take85_count[OF _ t] by (auto simp: group_bytes85_def bytes85_def)
    moreover have "length (ascii85_decode rest) \<le> 4 * length rest" using 2(2)[OF False] t by metis
    moreover have "length rest \<le> length cs" using take85_shorter[OF False t[symmetric]] .
    ultimately show ?thesis using False t by (simp del: take85.simps)
  qed (use 2(1) in simp)
qed simp

lemma record_data_size: "record_data wanted bc p = (data, rest) \<Longrightarrow> 2 * length data + length rest \<le> length p"
proof -
  assume r: "record_data wanted bc p = (data, rest)"
  have pairs: "2 * length (hex_pairs xs) \<le> length xs" for xs by (induction xs rule: hex_pairs.induct) simp_all
  have "2 * length data \<le> length (take (bc * 2) p)"
    using r pairs[of "take (bc * 2) p"] by (auto simp: record_data_def Let_def simp del: length_take split: if_splits)
  moreover have "length rest \<le> length (drop (bc * 2) p)"
    using r by (auto simp: record_data_def Let_def split: if_splits intro: order.trans[OF length_dropWhile_le])
  ultimately show ?thesis by (cases "bc * 2 \<le> length p") auto
qed

lemma ihex_decode_length: "2 * length (ihex_decode cs) \<le> length cs"
proof (induction cs rule: ihex_decode.induct)
  case (1 cs)
  show ?case
  proof (cases "dropWhile (\<lambda>c. c \<noteq> ch CHR '':'') cs")
    case (Cons x p)
    then have len: "length p < length cs" using dropWhile_shorter[OF Cons] by simp
    let ?bc = "unat (hex_pair (p ! 0) (p ! 1))" and ?type = "hex_pair (p ! 6) (p ! 7)"
    obtain data rest where r: "record_data (?type = 0) ?bc (drop 8 p) = (data, rest)" by fastforce
    show ?thesis
    proof (cases "length p < 8 \<or> ?type = 1")
      case False
      then have "2 * length (ihex_decode rest) \<le> length rest" using 1[OF Cons _ refl refl _ r[symmetric]] by blast
      moreover have "ihex_decode cs = data @ ihex_decode rest"
        using False by (subst ihex_decode.simps) (simp add: Cons r[simplified] Let_def)
      ultimately show ?thesis using record_data_size[OF r] len by simp
    qed (auto simp: ihex_decode.simps[of cs] Cons Let_def)
  next
    case Nil
    then show ?thesis by (subst ihex_decode.simps) (simp only: list.case list.size)
  qed
qed

lemma srec_decode_length: "2 * length (srec_decode cs) \<le> length cs"
proof (induction cs rule: srec_decode.induct)
  case (1 cs)
  consider (line) x type p where "dropWhile (\<lambda>c. c \<noteq> ch CHR ''S'') cs = x # type # p"
    | (none) "srec_decode cs = []"
  proof (cases "dropWhile (\<lambda>c. c \<noteq> ch CHR ''S'') cs" rule: remdups_adj.cases)
  qed (auto simp: srec_decode.simps[of cs])
  then show ?case
  proof cases
    case line
    then have len: "length p < length cs" using dropWhile_shorter[OF line] by simp
    let ?bc = "unat (hex_pair (p ! 0) (p ! 1))" and ?ab = "address_bytes type" and ?q = "drop 2 p"
    obtain data rest where r: "record_data (within CHR ''1'' CHR ''3'' type) (?bc - ?ab - 1) (drop (?ab * 2) ?q) = (data, rest)" by fastforce
    show ?thesis
    proof (cases "type \<in> {ch CHR ''9'', ch CHR ''8'', ch CHR ''7''} \<or> length p < 2 \<or> length ?q < ?ab * 2")
      case False
      then have "2 * length (srec_decode rest) \<le> length rest"
        using 1[OF line refl _ _ refl refl refl _ r[symmetric]] by blast
      moreover have "srec_decode cs = data @ srec_decode rest"
        using False by (subst srec_decode.simps) (simp add: line r[simplified] Let_def)
      ultimately show ?thesis using record_data_size[OF r] len by simp
    qed (auto simp: srec_decode.simps[of cs] line Let_def)
  qed simp
qed

lemma decode_to_length: "length (decode_to enc cs) \<le> max_decoded_size enc (length cs)"
  using base64_loop_length[of 0 0 cs] hex_decode_length[of cs] ascii85_decode_length[of cs] ihex_decode_length[of cs]
    srec_decode_length[of cs]
  by (cases enc) (simp_all add: base64_decode_def)

section \<open>Buffers\<close>

text \<open>C24: 
  In each encoding, what is encoded fits the buffer that was allocated for it, and decoding it gives the same bytes, also
  when it is empty, ends in an incomplete group, or is longer than the addresses of records reach.
\<close>

theorem encodings_round_trip: "\<exists>cs. encode_bytes enc ds = Inr cs \<and> decode_bytes enc cs = Inr ds"
proof -
  have "decode_to enc (encode_to enc ds) = ds"
    by (cases enc) (simp_all add: base64_decode_def base64_loop_encode ascii85_round_trip hex_round_trip
        ihex_encode_def ihex_round_trip srec_encode_def srec_round_trip)
  then show ?thesis
    using encode_to_length[of enc ds] decode_to_length[of enc "encode_to enc ds"]
    by (simp add: encode_bytes_def decode_bytes_def Let_def)
qed

text \<open>C25: Whatever bytes arrive, decoding them does not write past the end of its buffer.\<close>

theorem decoding_stays_in_buffer: "decode_bytes enc cs = Inr (if enc = No_encoding then cs else decode_to enc cs)"
  using decode_to_length[of enc cs] by (simp add: decode_bytes_def Let_def)

end
