(* ===== verification/Framings.thy ===== *)
theory Framings
  imports Encodings
begin

text \<open>
  Messages on a stream of bytes (network/sockets/*_framing.hpp): the bytes that an encoder writes for a message, and
  what a decoder does with the bytes that arrive, in the pieces they arrive in. A call of the handler is a message in
  the list that a decoder gives. A read that waits for a number of bytes or for a delimiter (Boost.Asio) completes when
  what has arrived suffices; bytes that have arrived and were not consumed are kept.
\<close>

section \<open>SLIP\<close>

definition slip_eot :: byte where "slip_eot = 192"
definition slip_esc :: byte where "slip_esc = 219"
definition slip_esc_end :: byte where "slip_esc_end = 220"
definition slip_esc_esc :: byte where "slip_esc_esc = 221"

datatype slip_status = Waiting | Reading_char | Reading_esc

record slip_decoder =
  slip_state :: slip_status
  slip_decoded :: "byte list"

definition slip_start :: slip_decoder where
  "slip_start = \<lparr>slip_state = Waiting, slip_decoded = []\<rparr>"

definition slip_push :: "byte list \<Rightarrow> slip_decoder \<Rightarrow> slip_decoder" where
  "slip_push bs d = d\<lparr>slip_decoded := slip_decoded d @ bs\<rparr>"

definition slip_byte :: "slip_decoder \<Rightarrow> byte \<Rightarrow> slip_decoder \<times> byte list list" where
  "slip_byte d c =
    (case slip_state d of
       Waiting \<Rightarrow>
        (if c = slip_eot then (d\<lparr>slip_state := Reading_char\<rparr>, []) else (d\<lparr>slip_decoded := []\<rparr>, []))
     | Reading_char \<Rightarrow>
        (if c = slip_eot
         then (\<lparr>slip_state = Waiting, slip_decoded = []\<rparr>, if slip_decoded d \<noteq> [] then [slip_decoded d] else [])
         else if c = slip_esc then (d\<lparr>slip_state := Reading_esc\<rparr>, [])
         else (slip_push [c] d, []))
     | Reading_esc \<Rightarrow>
        (if c = slip_esc_end then (slip_push [slip_eot] (d\<lparr>slip_state := Reading_char\<rparr>), [])
         else if c = slip_esc_esc then (slip_push [slip_esc] (d\<lparr>slip_state := Reading_char\<rparr>), [])
         else (\<lparr>slip_state = Waiting, slip_decoded = []\<rparr>, [])))"

text \<open>Bytes in the middle of a message that have no special meaning are appended at once.\<close>

function slip_bytes :: "slip_decoder \<Rightarrow> byte list \<Rightarrow> slip_decoder \<times> byte list list" where
  "slip_bytes d [] = (d, [])"
| "slip_bytes d (c # cs) =
    (if slip_state d = Reading_char
     then let plain = (\<lambda>b. b \<noteq> slip_eot \<and> b \<noteq> slip_esc); d = slip_push (takeWhile plain (c # cs)) d
          in case dropWhile plain (c # cs) of
               [] \<Rightarrow> (d, [])
             | b # rest \<Rightarrow>
                (case slip_byte d b of (d, fs) \<Rightarrow> (case slip_bytes d rest of (d, gs) \<Rightarrow> (d, fs @ gs)))
     else case slip_byte d c of (d, fs) \<Rightarrow> (case slip_bytes d cs of (d, gs) \<Rightarrow> (d, fs @ gs)))"
  by pat_completeness auto

termination
  by (relation "measure (\<lambda>(d, cs). length cs)") (auto simp del: dropWhile.simps dest!: dropWhile_shorter)

declare slip_bytes.simps(2) [simp del]

definition slip_escape :: "byte \<Rightarrow> byte list" where
  "slip_escape b =
    (if b = slip_eot then [slip_esc, slip_esc_end]
     else if b = slip_esc then [slip_esc, slip_esc_esc]
     else [b])"

definition slip_encode :: "byte list \<Rightarrow> byte list" where
  "slip_encode m = [slip_eot] @ concat (List.map slip_escape m) @ [slip_eot]"

section \<open>Start, end and escape bytes\<close>

text \<open>The three bytes are parameters of the template; two of them are never the same.\<close>

record marks =
  start_mark :: byte
  end_mark :: byte
  escape_mark :: byte

definition distinct_marks :: "marks \<Rightarrow> bool" where
  "distinct_marks k \<longleftrightarrow> start_mark k \<noteq> end_mark k \<and> start_mark k \<noteq> escape_mark k \<and> end_mark k \<noteq> escape_mark k"

definition stx_etx :: marks where
  "stx_etx = \<lparr>start_mark = 2, end_mark = 3, escape_mark = 16\<rparr>"

datatype marked_status = Waiting_start | Reading_data | Reading_escape

record marked_decoder =
  marked_state :: marked_status
  marked_decoded :: "byte list"

definition marked_start :: marked_decoder where
  "marked_start = \<lparr>marked_state = Waiting_start, marked_decoded = []\<rparr>"

definition is_mark :: "marks \<Rightarrow> byte \<Rightarrow> bool" where
  "is_mark k b \<longleftrightarrow> b = start_mark k \<or> b = end_mark k \<or> b = escape_mark k"

definition marked_push :: "byte list \<Rightarrow> marked_decoder \<Rightarrow> marked_decoder" where
  "marked_push bs d = d\<lparr>marked_decoded := marked_decoded d @ bs\<rparr>"

definition marked_byte :: "marks \<Rightarrow> marked_decoder \<Rightarrow> byte \<Rightarrow> marked_decoder \<times> byte list list" where
  "marked_byte k d c =
    (case marked_state d of
       Waiting_start \<Rightarrow>
        (if c = start_mark k then (\<lparr>marked_state = Reading_data, marked_decoded = []\<rparr>, []) else (d, []))
     | Reading_data \<Rightarrow>
        (if c = end_mark k
         then (\<lparr>marked_state = Waiting_start, marked_decoded = []\<rparr>, if marked_decoded d \<noteq> [] then [marked_decoded d] else [])
         else if c = escape_mark k then (d\<lparr>marked_state := Reading_escape\<rparr>, [])
         else if c = start_mark k then (d\<lparr>marked_decoded := []\<rparr>, [])
         else (marked_push [c] d, []))
     | Reading_escape \<Rightarrow> (marked_push [c] (d\<lparr>marked_state := Reading_data\<rparr>), []))"

function marked_bytes :: "marks \<Rightarrow> marked_decoder \<Rightarrow> byte list \<Rightarrow> marked_decoder \<times> byte list list" where
  "marked_bytes k d [] = (d, [])"
| "marked_bytes k d (c # cs) =
    (if marked_state d = Reading_data
     then let d = marked_push (takeWhile (\<lambda>b. \<not> is_mark k b) (c # cs)) d
          in case dropWhile (\<lambda>b. \<not> is_mark k b) (c # cs) of
               [] \<Rightarrow> (d, [])
             | b # rest \<Rightarrow>
                (case marked_byte k d b of (d, fs) \<Rightarrow> (case marked_bytes k d rest of (d, gs) \<Rightarrow> (d, fs @ gs)))
     else case marked_byte k d c of (d, fs) \<Rightarrow> (case marked_bytes k d cs of (d, gs) \<Rightarrow> (d, fs @ gs)))"
  by pat_completeness auto

termination
  by (relation "measure (\<lambda>(k, d, cs). length cs)") (auto simp del: dropWhile.simps dest!: dropWhile_shorter)

declare marked_bytes.simps(2) [simp del]

definition marked_encode :: "marks \<Rightarrow> byte list \<Rightarrow> byte list" where
  "marked_encode k m =
    [start_mark k] @ concat (List.map (\<lambda>b. if is_mark k b then [escape_mark k, b] else [b]) m) @ [end_mark k]"

section \<open>COBS\<close>

text \<open>A block of up to 254 bytes that are not zero is led by its length and one; it ends with a zero byte that is left out.\<close>

function cobs_decode :: "byte list \<Rightarrow> byte list option" where
  "cobs_decode [] = Some []"
| "cobs_decode (code # cs) =
    (let count = unat (code - 1)
     in if code = 0 then None
        else if length cs < count then None
        else map_option (\<lambda>ds. take count cs @ (if code < 255 \<and> drop count cs \<noteq> [] then [0] else []) @ ds)
               (cobs_decode (drop count cs)))"
  by pat_completeness auto

termination by (relation "measure length") auto

declare cobs_decode.simps(2) [simp del]

text \<open>The state of the decoder is what has arrived since the last zero byte.\<close>

function cobs_bytes :: "byte list \<Rightarrow> byte list \<Rightarrow> byte list \<times> byte list list" where
  "cobs_bytes enc cs =
    (if cs = [] then (enc, [])
     else let enc = enc @ takeWhile (\<lambda>b. b \<noteq> 0) cs
          in case dropWhile (\<lambda>b. b \<noteq> 0) cs of
               [] \<Rightarrow> (enc, [])
             | _ # rest \<Rightarrow>
                (if enc = [] then cobs_bytes [] rest
                 else let fs = (case cobs_decode enc of Some (d # ds) \<Rightarrow> [d # ds] | _ \<Rightarrow> [])
                      in case cobs_bytes [] rest of (enc, gs) \<Rightarrow> (enc, fs @ gs)))"
  by pat_completeness auto

termination by (relation "measure (\<lambda>(enc, cs). length cs)") (auto dest!: dropWhile_shorter)

declare cobs_bytes.simps [simp del]

text \<open>The place of the next length is kept in the buffer and written when the block is complete.\<close>

fun cobs_loop :: "byte list \<Rightarrow> nat \<Rightarrow> byte \<Rightarrow> byte list \<Rightarrow> byte list" where
  "cobs_loop buf code_idx code [] = buf[code_idx := code] @ [0]"
| "cobs_loop buf code_idx code (b # bs) =
    (if b = 0 then cobs_loop (buf[code_idx := code] @ [0]) (length buf) 1 bs
     else let buf = buf @ [b]; code = code + 1
          in if code = 255 then cobs_loop (buf[code_idx := code] @ [0]) (length buf) 1 bs
             else cobs_loop buf code_idx code bs)"

definition cobs_encode :: "byte list \<Rightarrow> byte list" where
  "cobs_encode m = cobs_loop [0] 0 1 m"

section \<open>Lines\<close>

text \<open>The delimiter is kept in eight bytes that end with a zero byte; it has no zero byte itself.\<close>

definition set_line_delimiter :: "byte list \<Rightarrow> byte list" where
  "set_line_delimiter delim = take 7 delim"

text \<open>The first place at which a delimiter begins.\<close>

fun search_from :: "byte list \<Rightarrow> nat \<Rightarrow> byte list \<Rightarrow> nat option" where
  "search_from delim i cs =
    (if take (length delim) cs = delim then Some i
     else case cs of [] \<Rightarrow> None | _ # cs \<Rightarrow> search_from delim (Suc i) cs)"

declare search_from.simps [simp del]

lemma search_from_shift: "search_from delim i cs = map_option ((+) i) (search_from delim 0 cs)"
proof (induction cs arbitrary: i)
  case (Cons c cs)
  show ?case
    by (subst (1 2) search_from.simps) (simp add: Cons[of "Suc i"] Cons[of "Suc 0"] option.map_comp comp_def)
qed (simp add: search_from.simps)

text \<open>
  The data begin with a line that ends at a place; positions are counted from what was consumed. An empty delimiter
  is found before anything is read, so that nothing is ever delivered and there is no such call.
\<close>

function dispatch_lines :: "byte list \<Rightarrow> byte list \<Rightarrow> nat \<Rightarrow> byte list list \<times> byte list" where
  "dispatch_lines delim data fin =
    (let this = (if fin > length delim then [take (fin - length delim) data] else []);
         rest = drop fin data
     in case search_from delim 0 rest of
          None \<Rightarrow> (this, rest)
        | Some i \<Rightarrow>
           (if rest = [] \<or> delim = [] then (this, rest)
            else case dispatch_lines delim rest (i + length delim) of (others, rest) \<Rightarrow> (this @ others, rest)))"
  by pat_completeness auto

termination by (relation "measure (\<lambda>(delim, data, fin). length (drop fin data))") (auto intro!: diff_less_mono2)

declare dispatch_lines.simps [simp del]

definition line_bytes :: "byte list \<Rightarrow> byte list \<Rightarrow> byte list \<Rightarrow> byte list \<times> byte list list" where
  "line_bytes delim data cs =
    (let data = data @ cs
     in case (if delim = [] then None else search_from delim 0 data) of
          None \<Rightarrow> (data, [])
        | Some i \<Rightarrow> (case dispatch_lines delim data (i + length delim) of (lines, rest) \<Rightarrow> (rest, lines)))"

definition line_encode :: "byte list \<Rightarrow> byte list \<Rightarrow> byte list" where
  "line_encode delim m = m @ delim"

section \<open>Prefixed sizes\<close>

datatype header_bytes = One | Two | Four

fun width :: "header_bytes \<Rightarrow> nat" where
  "width One = 1"
| "width Two = 2"
| "width Four = 4"

record prefix =
  header_bytes :: header_bytes
  big_endian :: bool
  max_frame_size :: nat

fun default_max_frame_size :: "header_bytes \<Rightarrow> nat" where
  "default_max_frame_size One = 255"
| "default_max_frame_size Two = 65535"
| "default_max_frame_size Four = 2147483647"

definition read_header :: "prefix \<Rightarrow> byte list \<Rightarrow> nat" where
  "read_header k bs = foldr (\<lambda>b n. unat b + 256 * n) (if big_endian k then rev bs else bs) 0"

definition write_header :: "prefix \<Rightarrow> nat \<Rightarrow> byte list" where
  "write_header k n =
    (let bs = List.map (\<lambda>i. of_nat (n div 256 ^ i)) [0..<width (header_bytes k)]
     in if big_endian k then rev bs else bs)"

lemma width_pos: "0 < width h"
  by (cases h) simp_all

text \<open>After a size that is zero or too large no read is started any more.\<close>

datatype prefix_phase = Header | Data nat | Stopped

function prefix_run :: "prefix \<Rightarrow> prefix_phase \<Rightarrow> byte list \<Rightarrow> (prefix_phase \<times> byte list) \<times> byte list list" where
  "prefix_run k Stopped bs = ((Stopped, bs), [])"
| "prefix_run k Header bs =
    (let w = width (header_bytes k); packet_size = read_header k (take w bs)
     in if length bs < w then ((Header, bs), [])
        else if packet_size = 0 \<or> packet_size > max_frame_size k then ((Stopped, drop w bs), [])
        else prefix_run k (Data packet_size) (drop w bs))"
| "prefix_run k (Data n) bs =
    (if length bs < n then ((Data n, bs), [])
     else case prefix_run k Header (drop n bs) of (s, ms) \<Rightarrow> (s, take n bs # ms))"
  by pat_completeness auto

termination
proof (relation "measure (\<lambda>(k, phase, bs). 2 * length bs + (case phase of Data n \<Rightarrow> 1 | _ \<Rightarrow> 0))", goal_cases)
  case (2 k bs w n)
  then show ?case using width_pos[of "header_bytes k"] by simp
qed simp_all

declare prefix_run.simps [simp del]

section \<open>Messages of one length\<close>

function fixed_run :: "nat \<Rightarrow> byte list \<Rightarrow> byte list \<times> byte list list" where
  "fixed_run frame_size bs =
    (if frame_size = 0 \<or> length bs < frame_size then (bs, [])
     else case fixed_run frame_size (drop frame_size bs) of (rest, ms) \<Rightarrow> (rest, take frame_size bs # ms))"
  by pat_completeness auto

termination by (relation "measure (\<lambda>(n, bs). length bs)") auto

declare fixed_run.simps [simp del]

section \<open>A stream in pieces\<close>

fun feed_all :: "('s \<Rightarrow> byte list \<Rightarrow> 's \<times> byte list list) \<Rightarrow> 's \<Rightarrow> byte list list \<Rightarrow> 's \<times> byte list list" where
  "feed_all feed s [] = (s, [])"
| "feed_all feed s (c # cs) =
    (case feed s c of (s, ms) \<Rightarrow> (case feed_all feed s cs of (s, ns) \<Rightarrow> (s, ms @ ns)))"

definition prefix_bytes :: "prefix \<Rightarrow> prefix_phase \<times> byte list \<Rightarrow> byte list \<Rightarrow> (prefix_phase \<times> byte list) \<times> byte list list" where
  "prefix_bytes k s bs = prefix_run k (fst s) (snd s @ bs)"

definition prefix_encode :: "prefix \<Rightarrow> byte list \<Rightarrow> byte list" where
  "prefix_encode k m = write_header k (length m) @ m"

definition fixed_bytes :: "nat \<Rightarrow> byte list \<Rightarrow> byte list \<Rightarrow> byte list \<times> byte list list" where
  "fixed_bytes frame_size rest bs = fixed_run frame_size (rest @ bs)"

end
