(* ===== verification/FramingProps.thy ===== *)
theory FramingProps
  imports Framings
begin

text \<open>
  The contract of a framing: a decoder gives the same messages however the stream is cut into pieces, and the messages
  that were encoded. What a decoder does with bytes that no encoder has written.
\<close>

section \<open>The contract\<close>

definition joined :: "'s \<times> 'm list \<Rightarrow> ('s \<Rightarrow> 's \<times> 'm list) \<Rightarrow> 's \<times> 'm list" where
  "joined r f = (case r of (s, ms) \<Rightarrow> (case f s of (s', ns) \<Rightarrow> (s', ms @ ns)))"

lemma joined_simps [simp]: "joined (s, []) f = f s" "joined (joined r f) g = joined r (\<lambda>s. joined (f s) g)"
  by (auto simp: joined_def split: prod.splits)

locale framing =
  fixes feed :: "'s \<Rightarrow> byte list \<Rightarrow> 's \<times> byte list list"
    and encode :: "byte list \<Rightarrow> byte list"
    and ready :: "'s \<Rightarrow> bool"
    and sendable :: "byte list \<Rightarrow> bool"
  assumes pieces: "feed s (xs @ ys) = joined (feed s xs) (\<lambda>s. feed s ys)"
    and no_bytes: "ready s \<Longrightarrow> feed s [] = (s, [])"
    and one_message: "ready s \<Longrightarrow> sendable m \<Longrightarrow> \<exists>s'. ready s' \<and> feed s (encode m) = (s', if m = [] then [] else [m])"
begin

lemma all_pieces: "cs \<noteq> [] \<Longrightarrow> feed_all feed s cs = feed s (concat cs)"
proof (induction cs arbitrary: s)
  case (Cons c cs)
  show ?case
  proof (cases "cs = []")
    case True
    then show ?thesis by (auto split: prod.splits)
  next
    case False
    then show ?thesis using Cons.IH by (simp add: pieces joined_def)
  qed
qed simp

lemma many_messages:
  "ready s \<Longrightarrow> \<forall>m \<in> set ms. sendable m \<Longrightarrow>
    \<exists>s'. ready s' \<and> feed s (concat (List.map encode ms)) = (s', filter (\<lambda>m. m \<noteq> []) ms)"
proof (induction ms arbitrary: s)
  case Nil
  show ?case by (rule exI[of _ s]) (simp add: Nil(1) no_bytes[OF Nil(1)])
next
  case (Cons m ms)
  obtain s1 where s1: "ready s1" "feed s (encode m) = (s1, if m = [] then [] else [m])"
    using one_message[of s m] Cons.prems by auto
  obtain s2 where s2: "ready s2" "feed s1 (concat (List.map encode ms)) = (s2, filter (\<lambda>m. m \<noteq> []) ms)"
    using Cons.IH[OF s1(1)] Cons.prems(2) by auto
  show ?case using s1 s2 by (auto simp: pieces joined_def)
qed

lemma stream_delivered:
  assumes "ready s" "\<forall>m \<in> set ms. sendable m" "concat cs = concat (List.map encode ms)"
  shows "\<exists>s'. ready s' \<and> feed_all feed s cs = (s', filter (\<lambda>m. m \<noteq> []) ms)"
proof (cases "cs = []")
  case True
  then have "concat (List.map encode ms) = []" using assms(3) by simp
  then have "\<exists>s'. feed s [] = (s', filter (\<lambda>m. m \<noteq> []) ms)" using many_messages[OF assms(1,2)] by metis
  then have "filter (\<lambda>m. m \<noteq> []) ms = []" unfolding no_bytes[OF assms(1)] by simp
  then show ?thesis using True assms(1) by simp
next
  case False
  then show ?thesis using many_messages[OF assms(1,2)] assms(3) all_pieces[OF False] by simp
qed

end

section \<open>SLIP\<close>

text \<open>The decoder that appends plain bytes at once is the one that takes byte by byte.\<close>

fun slip_each :: "slip_decoder \<Rightarrow> byte list \<Rightarrow> slip_decoder \<times> byte list list" where
  "slip_each d [] = (d, [])"
| "slip_each d (c # cs) = joined (slip_byte d c) (\<lambda>d. slip_each d cs)"

lemma slip_each_append: "slip_each d (xs @ ys) = joined (slip_each d xs) (\<lambda>d. slip_each d ys)"
  by (induction xs arbitrary: d) simp_all

lemma slip_each_plain:
  assumes "slip_state d = Reading_char"
  shows "\<forall>b \<in> set bs. b \<noteq> slip_eot \<and> b \<noteq> slip_esc \<Longrightarrow> slip_each d bs = (slip_push bs d, [])"
  using assms
proof (induction bs arbitrary: d)
  case Nil
  then show ?case by (simp add: slip_push_def)
next
  case (Cons b bs)
  have "slip_byte d b = (slip_push [b] d, [])" using Cons.prems by (simp add: slip_byte_def)
  then show ?case using Cons by (simp add: slip_push_def)
qed

lemma slip_bytes_each: "slip_bytes d cs = slip_each d cs"
proof (induction d cs rule: slip_bytes.induct)
  case (2 d c cs)
  show ?case
  proof (cases "slip_state d = Reading_char")
    case True
    let ?plain = "\<lambda>b. b \<noteq> slip_eot \<and> b \<noteq> slip_esc"
    define pre where "pre = takeWhile ?plain (c # cs)"
    define suf where "suf = dropWhile ?plain (c # cs)"
    have parts: "c # cs = pre @ suf" unfolding pre_def suf_def by (rule takeWhile_dropWhile_id[symmetric])
    have "slip_each d pre = (slip_push pre d, [])"
      unfolding pre_def by (rule slip_each_plain[OF True]) (blast dest: set_takeWhileD)
    then have each: "slip_each d (c # cs) = slip_each (slip_push pre d) suf" unfolding parts slip_each_append by simp
    note bulk = slip_bytes.simps(2)[of d c cs, unfolded Let_def if_P[OF True], folded pre_def suf_def]
    show ?thesis
    proof (cases suf)
      case Nil
      then show ?thesis unfolding each bulk by simp
    next
      case (Cons b rest)
      have "slip_bytes d' rest = slip_each d' rest" if "slip_byte (slip_push pre d) b = (d', fs)" for d' fs
        using 2(1)[OF True refl _ _ that[symmetric]] Cons unfolding pre_def suf_def by metis
      then show ?thesis unfolding each bulk Cons by (auto simp: joined_def split: prod.splits)
    qed
  next
    case False
    have "slip_bytes d' cs = slip_each d' cs" if "slip_byte d c = (d', fs)" for d' fs
      using 2(2)[OF False that[symmetric]] .
    then show ?thesis unfolding slip_bytes.simps(2) if_not_P[OF False]
      by (auto simp: joined_def split: prod.splits)
  qed
qed simp

lemma slip_codes: "slip_eot \<noteq> slip_esc" "slip_esc_end \<noteq> slip_eot" "slip_esc_esc \<noteq> slip_eot" "slip_esc_end \<noteq> slip_esc_esc"
  by (simp_all add: slip_eot_def slip_esc_def slip_esc_end_def slip_esc_esc_def)

lemma slip_each_escape:
  assumes "slip_state d = Reading_char"
  shows "slip_each d (slip_escape b) = (slip_push [b] d, [])"
  using assms slip_codes by (cases d) (auto simp: slip_escape_def slip_byte_def slip_push_def joined_def)

lemma slip_each_message:
  assumes "slip_state d = Reading_char"
  shows "slip_each d (concat (List.map slip_escape m)) = (slip_push m d, [])"
  using assms
proof (induction m arbitrary: d)
  case Nil
  then show ?case by (simp add: slip_push_def)
next
  case (Cons b m)
  have "slip_each (slip_push [b] d) (concat (List.map slip_escape m)) = (slip_push m (slip_push [b] d), [])"
    using Cons by (simp add: slip_push_def)
  then show ?case by (simp add: slip_each_append slip_each_escape[OF Cons.prems]) (simp add: slip_push_def)
qed

lemma slip_start_eot: "slip_byte slip_start slip_eot = (\<lparr>slip_state = Reading_char, slip_decoded = []\<rparr>, [])"
  by (simp add: slip_byte_def slip_start_def)

lemma slip_each_frame: "slip_each slip_start (slip_encode m) = (slip_start, if m = [] then [] else [m])"
proof -
  have "slip_each slip_start (slip_encode m)
      = slip_each (slip_push m \<lparr>slip_state = Reading_char, slip_decoded = []\<rparr>) [slip_eot]"
    by (simp add: slip_encode_def slip_start_eot slip_each_append slip_each_message)
  also have "\<dots> = (slip_start, if m = [] then [] else [m])" by (simp add: slip_push_def slip_byte_def slip_start_def joined_def)
  finally show ?thesis .
qed

interpretation slip: framing slip_bytes slip_encode "\<lambda>d. d = slip_start" "\<lambda>m. True"
  by unfold_locales (simp_all add: slip_bytes_each slip_each_append slip_each_frame)

text \<open>Out of phase: the mark that ends a message is taken for the start of the next, and what lies between is dropped.\<close>

definition out_of_phase :: slip_decoder where
  "out_of_phase = \<lparr>slip_state = Reading_char, slip_decoded = []\<rparr>"

lemma slip_waiting: "slip_eot \<notin> set bs \<Longrightarrow> slip_each slip_start bs = (slip_start, [])"
  by (induction bs) (auto simp: slip_byte_def slip_start_def)

lemma slip_escape_no_eot: "slip_eot \<notin> set (concat (List.map slip_escape m))"
  using slip_codes by (auto simp: slip_escape_def)

lemma slip_lost: "slip_each out_of_phase (slip_encode m) = (out_of_phase, [])"
proof -
  have "slip_byte out_of_phase slip_eot = (slip_start, [])" by (simp add: slip_byte_def out_of_phase_def slip_start_def)
  then show ?thesis
    by (simp add: slip_encode_def slip_each_append slip_waiting[OF slip_escape_no_eot] slip_start_eot out_of_phase_def)
qed

lemma slip_all_lost: "slip_each out_of_phase (concat (List.map slip_encode ms)) = (out_of_phase, [])"
  by (induction ms) (simp_all add: slip_each_append slip_lost)

text \<open>A bad escape in a message has the same effect.\<close>

lemma slip_bad_escape:
  assumes "slip_eot \<notin> set xs" "slip_esc \<notin> set xs" "b \<noteq> slip_esc_end" "b \<noteq> slip_esc_esc" "slip_eot \<notin> set ys"
  shows "slip_bytes slip_start ([slip_eot] @ xs @ [slip_esc, b] @ ys @ [slip_eot] @ concat (List.map slip_encode ms)) = (out_of_phase, [])"
proof -
  have "slip_each \<lparr>slip_state = Reading_char, slip_decoded = []\<rparr> xs = (slip_push xs \<lparr>slip_state = Reading_char, slip_decoded = []\<rparr>, [])"
    using assms(1,2) by (intro slip_each_plain) auto
  moreover have "slip_byte (slip_push xs \<lparr>slip_state = Reading_char, slip_decoded = []\<rparr>) slip_esc
      = (\<lparr>slip_state = Reading_esc, slip_decoded = xs\<rparr>, [])"
    using slip_codes by (simp add: slip_push_def slip_byte_def)
  moreover have "slip_byte \<lparr>slip_state = Reading_esc, slip_decoded = xs\<rparr> b = (slip_start, [])"
    using assms(3,4) by (simp add: slip_byte_def slip_start_def)
  ultimately show ?thesis
    by (simp add: slip_bytes_each slip_start_eot slip_all_lost slip_waiting[OF assms(5)] slip_each_append flip: out_of_phase_def)
qed

section \<open>Start, end and escape bytes\<close>

fun marked_each :: "marks \<Rightarrow> marked_decoder \<Rightarrow> byte list \<Rightarrow> marked_decoder \<times> byte list list" where
  "marked_each k d [] = (d, [])"
| "marked_each k d (c # cs) = joined (marked_byte k d c) (\<lambda>d. marked_each k d cs)"

lemma marked_each_append: "marked_each k d (xs @ ys) = joined (marked_each k d xs) (\<lambda>d. marked_each k d ys)"
  by (induction xs arbitrary: d) simp_all

lemma marked_each_plain:
  assumes "marked_state d = Reading_data"
  shows "\<forall>b \<in> set bs. \<not> is_mark k b \<Longrightarrow> marked_each k d bs = (marked_push bs d, [])"
  using assms
proof (induction bs arbitrary: d)
  case Nil
  then show ?case by (simp add: marked_push_def)
next
  case (Cons b bs)
  have "marked_byte k d b = (marked_push [b] d, [])" using Cons.prems by (simp add: marked_byte_def is_mark_def)
  then show ?case using Cons by (simp add: marked_push_def)
qed

lemma marked_bytes_each: "marked_bytes k d cs = marked_each k d cs"
proof (induction k d cs rule: marked_bytes.induct)
  case (2 k d c cs)
  show ?case
  proof (cases "marked_state d = Reading_data")
    case True
    define pre where "pre = takeWhile (\<lambda>b. \<not> is_mark k b) (c # cs)"
    define suf where "suf = dropWhile (\<lambda>b. \<not> is_mark k b) (c # cs)"
    have parts: "c # cs = pre @ suf" unfolding pre_def suf_def by (rule takeWhile_dropWhile_id[symmetric])
    have "marked_each k d pre = (marked_push pre d, [])"
      unfolding pre_def by (rule marked_each_plain[OF True]) (blast dest: set_takeWhileD)
    then have each: "marked_each k d (c # cs) = marked_each k (marked_push pre d) suf" unfolding parts marked_each_append by simp
    note bulk = marked_bytes.simps(2)[of k d c cs, unfolded Let_def if_P[OF True], folded pre_def suf_def]
    show ?thesis
    proof (cases suf)
      case Nil
      then show ?thesis unfolding each bulk by simp
    next
      case (Cons b rest)
      have "marked_bytes k d' rest = marked_each k d' rest" if "marked_byte k (marked_push pre d) b = (d', fs)" for d' fs
        using 2(1)[OF True _ _ that[symmetric]] Cons unfolding pre_def suf_def by metis
      then show ?thesis unfolding each bulk Cons by (auto simp: joined_def split: prod.splits)
    qed
  next
    case False
    have "marked_bytes k d' cs = marked_each k d' cs" if "marked_byte k d c = (d', fs)" for d' fs
      using 2(2)[OF False that[symmetric]] .
    then show ?thesis unfolding marked_bytes.simps(2) if_not_P[OF False]
      by (auto simp: joined_def split: prod.splits)
  qed
qed simp

lemma marked_each_message:
  assumes "distinct_marks k" "marked_state d = Reading_data"
  shows "marked_each k d (concat (List.map (\<lambda>b. if is_mark k b then [escape_mark k, b] else [b]) m)) = (marked_push m d, [])"
  using assms(2)
proof (induction m arbitrary: d)
  case Nil
  then show ?case by (simp add: marked_push_def)
next
  case (Cons b m)
  have "marked_each k d (if is_mark k b then [escape_mark k, b] else [b]) = (marked_push [b] d, [])"
    using Cons.prems assms(1)
    by (cases d) (auto simp: marked_byte_def marked_push_def joined_def is_mark_def distinct_marks_def)
  moreover have "marked_each k (marked_push [b] d) (concat (List.map (\<lambda>b. if is_mark k b then [escape_mark k, b] else [b]) m))
      = (marked_push m (marked_push [b] d), [])"
    using Cons by (simp add: marked_push_def)
  ultimately show ?case by (simp add: marked_each_append) (simp add: marked_push_def)
qed

text \<open>A message is read whatever came before it, unless an escape is still open.\<close>

lemma marked_each_frame:
  assumes "distinct_marks k" "marked_state d \<noteq> Reading_escape"
  shows "marked_each k d (marked_encode k m) = (marked_start, if m = [] then [] else [m])"
proof -
  have "marked_byte k d (start_mark k) = (\<lparr>marked_state = Reading_data, marked_decoded = []\<rparr>, [])"
    using assms by (cases d; cases "marked_state d") (auto simp: marked_byte_def distinct_marks_def)
  moreover have "marked_byte k (marked_push m \<lparr>marked_state = Reading_data, marked_decoded = []\<rparr>) (end_mark k)
      = (marked_start, if m = [] then [] else [m])"
    by (simp add: marked_push_def marked_byte_def marked_start_def)
  ultimately show ?thesis
    using marked_each_message[OF assms(1), of "\<lparr>marked_state = Reading_data, marked_decoded = []\<rparr>" m]
    by (simp add: marked_encode_def marked_each_append joined_def)
qed

interpretation marked: framing "marked_bytes k" "marked_encode k" "\<lambda>d. d = marked_start" "\<lambda>m. distinct_marks k" for k
proof unfold_locales
  fix s xs ys
  show "marked_bytes k s (xs @ ys) = joined (marked_bytes k s xs) (\<lambda>s. marked_bytes k s ys)"
    by (simp add: marked_bytes_each marked_each_append)
next
  fix s m
  assume "s = marked_start" "distinct_marks k"
  then show "\<exists>s'. s' = marked_start \<and> marked_bytes k s (marked_encode k m) = (s', if m = [] then [] else [m])"
    using marked_each_frame[of k s m] by (simp add: marked_bytes_each marked_start_def)
qed simp

section \<open>COBS\<close>

definition cobs_frame :: "byte list \<Rightarrow> byte list list" where
  "cobs_frame enc = (case cobs_decode enc of Some (d # ds) \<Rightarrow> [d # ds] | _ \<Rightarrow> [])"

fun cobs_each :: "byte list \<Rightarrow> byte list \<Rightarrow> byte list \<times> byte list list" where
  "cobs_each enc [] = (enc, [])"
| "cobs_each enc (c # cs) = (if c = 0 then joined ([], cobs_frame enc) (\<lambda>enc. cobs_each enc cs) else cobs_each (enc @ [c]) cs)"

lemma cobs_each_append: "cobs_each enc (xs @ ys) = joined (cobs_each enc xs) (\<lambda>enc. cobs_each enc ys)"
  by (induction xs arbitrary: enc) simp_all

lemma cobs_each_plain: "0 \<notin> set bs \<Longrightarrow> cobs_each enc bs = (enc @ bs, [])"
  by (induction bs arbitrary: enc) auto

lemma cobs_bytes_each: "cobs_bytes enc cs = cobs_each enc cs"
proof (induction enc cs rule: cobs_bytes.induct)
  case (1 enc cs)
  show ?case
  proof (cases "cs = []")
    case False
    define pre where "pre = takeWhile (\<lambda>b. b \<noteq> 0) cs"
    define suf where "suf = dropWhile (\<lambda>b. b \<noteq> 0) cs"
    have parts: "cs = pre @ suf" unfolding pre_def suf_def by simp
    have "0 \<notin> set pre" unfolding pre_def by (auto dest: set_takeWhileD)
    then have each: "cobs_each enc cs = cobs_each (enc @ pre) suf" unfolding parts cobs_each_append by (simp add: cobs_each_plain)
    note bulk = cobs_bytes.simps[of enc cs, unfolded Let_def if_not_P[OF False], folded pre_def suf_def]
    show ?thesis
    proof (cases suf)
      case Nil
      then show ?thesis unfolding each bulk by simp
    next
      case (Cons b rest)
      have "b = 0" using Cons unfolding suf_def by (metis (mono_tags, lifting) dropWhile_eq_Cons_conv)
      have empty: "cobs_frame [] = []" by (simp add: cobs_frame_def)
      have "cobs_bytes [] rest = cobs_each [] rest"
      proof (cases "enc @ takeWhile (\<lambda>b. b \<noteq> 0) cs = []")
        case True
        show ?thesis by (rule 1(1)[OF False refl Cons[unfolded suf_def] True])
      next
        case some: False
        show ?thesis by (rule 1(2)[OF False refl Cons[unfolded suf_def] some refl])
      qed
      then show ?thesis unfolding each bulk Cons
        using \<open>b = 0\<close> empty by (simp add: joined_def cobs_frame_def split: prod.splits option.splits list.splits)
    qed
  qed (simp add: cobs_bytes.simps)
qed

text \<open>The encoding as blocks: the bytes of the current block come first.\<close>

fun cobs_blocks :: "byte list \<Rightarrow> byte list \<Rightarrow> byte list" where
  "cobs_blocks blk [] = of_nat (length blk + 1) # blk"
| "cobs_blocks blk (b # bs) =
    (if b = 0 then of_nat (length blk + 1) # blk @ cobs_blocks [] bs
     else if length blk = 253 then 255 # blk @ [b] @ cobs_blocks [] bs
     else cobs_blocks (blk @ [b]) bs)"

lemma block_code: "n < 256 \<Longrightarrow> unat (of_nat n :: byte) = n"
  by (simp add: unat_of_nat)

lemma cobs_loop_blocks:
  "length blk < 254 \<Longrightarrow>
    cobs_loop (pre @ [0] @ blk) (length pre) (of_nat (length blk + 1)) bs = pre @ cobs_blocks blk bs @ [0]"
proof (induction bs arbitrary: pre blk)
  case (Cons b bs)
  have full: "(of_nat (length blk + 1) + 1 = (255 :: byte)) \<longleftrightarrow> length blk = 253"
  proof -
    have "of_nat (length blk + 1) + 1 = (of_nat (length blk + 2) :: byte)" by simp
    moreover have "unat (of_nat (length blk + 2) :: byte) = length blk + 2" using Cons.prems by (intro block_code) simp
    ultimately show ?thesis by (auto simp: word_unat_eq_iff)
  qed
  show ?case
  proof (cases "b = 0")
    case True
    then show ?thesis using Cons.IH[of "[]" "pre @ of_nat (length blk + 1) # blk"] by simp
  next
    case False
    show ?thesis
    proof (cases "length blk = 253")
      case True
      then show ?thesis using False full Cons.IH[of "[]" "pre @ 255 # blk @ [b]"] by simp
    next
      case nfull: False
      then have "length (blk @ [b]) < 254" using Cons.prems by simp
      from Cons.IH[OF this, of pre] show ?thesis using False nfull full by (simp add: add.commute)
    qed
  qed
qed simp

lemma cobs_blocks_nonempty: "cobs_blocks blk bs \<noteq> []"
  by (induction bs arbitrary: blk) simp_all

lemma cobs_blocks_no_zero: "length blk < 254 \<Longrightarrow> 0 \<notin> set blk \<Longrightarrow> 0 \<notin> set (cobs_blocks blk bs)"
proof (induction bs arbitrary: blk)
  case Nil
  then have "(of_nat (length blk + 1) :: byte) \<noteq> 0" using block_code[of "length blk + 1"] by (auto simp: word_unat_eq_iff)
  then show ?case using Nil by simp
next
  case (Cons b bs)
  have "(of_nat (length blk + 1) :: byte) \<noteq> 0" using block_code[of "length blk + 1"] Cons.prems by (auto simp: word_unat_eq_iff)
  then show ?case using Cons by auto
qed

lemma cobs_decode_block:
  assumes "length blk < 254"
  shows "cobs_decode (of_nat (length blk + 1) # blk @ rest)
    = map_option (\<lambda>ds. blk @ (if rest \<noteq> [] then [0] else []) @ ds) (cobs_decode rest)"
proof -
  let ?code = "of_nat (length blk + 1) :: byte"
  have code: "unat ?code = length blk + 1" using assms by (intro block_code) simp
  then have "?code \<noteq> 0" by auto
  moreover have "unat (?code - 1) = length blk" using assms by (simp add: unat_of_nat)
  moreover have "?code < 255" using code assms by (simp add: word_less_nat_alt)
  ultimately show ?thesis by (subst cobs_decode.simps) (simp add: Let_def)
qed

lemma cobs_decode_full_block:
  assumes "length blk = 254"
  shows "cobs_decode (255 # blk @ rest) = map_option (\<lambda>ds. blk @ ds) (cobs_decode rest)"
  using assms by (subst cobs_decode.simps) (simp add: Let_def)

lemma cobs_decode_blocks: "length blk < 254 \<Longrightarrow> cobs_decode (cobs_blocks blk bs) = Some (blk @ bs)"
proof (induction bs arbitrary: blk)
  case Nil
  then show ?case using cobs_decode_block[of blk "[]"] by simp
next
  case (Cons b bs)
  show ?case
  proof (cases "b = 0")
    case True
    then show ?thesis using cobs_decode_block[OF Cons.prems, of "cobs_blocks [] bs"] Cons.IH[of "[]"] cobs_blocks_nonempty by simp
  next
    case False
    then show ?thesis using cobs_decode_full_block[of "blk @ [b]" "cobs_blocks [] bs"] Cons.IH[of "[]"] Cons.IH[of "blk @ [b]"] Cons.prems
      by (cases "length blk = 253") simp_all
  qed
qed

lemma cobs_encode_blocks: "cobs_encode m = cobs_blocks [] m @ [0]"
  using cobs_loop_blocks[of "[]" "[]" m] by (simp add: cobs_encode_def)

lemma cobs_frame_blocks: "cobs_frame (cobs_blocks [] m) = (if m = [] then [] else [m])"
  by (cases m) (simp_all add: cobs_frame_def cobs_decode_blocks del: cobs_blocks.simps)

lemma cobs_each_encode: "cobs_each [] (cobs_encode m) = ([], if m = [] then [] else [m])"
  using cobs_each_plain[of "cobs_blocks [] m" "[]"] cobs_blocks_no_zero[of "[]" m]
  by (simp add: cobs_encode_blocks cobs_each_append cobs_frame_blocks joined_def)

interpretation cobs: framing cobs_bytes cobs_encode "\<lambda>enc. enc = []" "\<lambda>m. True"
  by unfold_locales (simp_all add: cobs_bytes_each cobs_each_append cobs_each_encode)

section \<open>Lines\<close>

lemma search_from_Some:
  "search_from delim 0 cs = Some i \<longleftrightarrow>
    i + length delim \<le> length cs \<and> take (length delim) (drop i cs) = delim \<and> (\<forall>j < i. take (length delim) (drop j cs) \<noteq> delim)"
proof (induction cs arbitrary: i)
  case Nil
  then show ?case by (subst search_from.simps) auto
next
  case (Cons c cs)
  show ?case
  proof (cases "take (length delim) (c # cs) = delim")
    case True
    then have "length delim \<le> length (c # cs)" by (metis length_take min.cobounded1)
    then show ?thesis using True by (subst search_from.simps) (fastforce simp: gr0_conv_Suc)
  next
    case False
    then show ?thesis
      by (subst search_from.simps, cases i) (auto simp: search_from_shift[of delim "Suc 0"] Cons less_Suc_eq_0_disj)
  qed
qed

lemma search_from_append:
  assumes "search_from delim 0 xs = Some i"
  shows "search_from delim 0 (xs @ ys) = Some i"
proof -
  have i: "i + length delim \<le> length xs" "take (length delim) (drop i xs) = delim" "\<forall>j < i. take (length delim) (drop j xs) \<noteq> delim"
    using assms by (simp_all add: search_from_Some)
  have "take (length delim) (drop j (xs @ ys)) = take (length delim) (drop j xs)" if "j \<le> i" for j using that i(1) by simp
  then show ?thesis using i by (simp add: search_from_Some)
qed

function split_lines :: "byte list \<Rightarrow> byte list \<Rightarrow> byte list \<times> byte list list" where
  "split_lines delim data =
    (case (if delim = [] then None else search_from delim 0 data) of
       None \<Rightarrow> (data, [])
     | Some i \<Rightarrow> (case split_lines delim (drop (i + length delim) data) of
         (rest, lines) \<Rightarrow> (rest, (if i > 0 then [take i data] else []) @ lines)))"
  by pat_completeness auto

termination
proof (relation "measure (\<lambda>(delim, data). length data)", goal_cases)
  case (2 delim data i)
  then have i: "delim \<noteq> []" "search_from delim 0 data = Some i" by (auto split: if_splits)
  then have "0 < length delim" "i + length delim \<le> length data" by (simp_all add: search_from_Some)
  then show ?case by (simp del: length_greater_0_conv)
qed simp

declare split_lines.simps [simp del]

lemma split_lines_append: "split_lines delim (xs @ ys) = joined (split_lines delim xs) (\<lambda>rest. split_lines delim (rest @ ys))"
proof (induction delim xs rule: split_lines.induct)
  case (1 delim xs)
  show ?case
  proof (cases "if delim = [] then None else search_from delim 0 xs")
    case None
    then have "split_lines delim xs = (xs, [])" by (simp add: split_lines.simps)
    then show ?thesis by simp
  next
    case (Some i)
    then have i: "delim \<noteq> []" "search_from delim 0 xs = Some i" by (auto split: if_splits)
    have len: "i + length delim \<le> length xs" using i(2) by (simp add: search_from_Some)
    have IH: "split_lines delim (drop (i + length delim) xs @ ys)
        = joined (split_lines delim (drop (i + length delim) xs)) (\<lambda>rest. split_lines delim (rest @ ys))"
      using 1[OF Some] by blast
    show ?thesis
      using len by (subst (1 2) split_lines.simps) (simp add: i search_from_append[OF i(2)] IH joined_def split: prod.splits)
  qed
qed

lemma dispatch_split:
  assumes "delim \<noteq> []" "fin \<ge> length delim"
  shows "dispatch_lines delim data fin
    = (case split_lines delim (drop fin data) of (rest, lines) \<Rightarrow> ((if fin > length delim then [take (fin - length delim) data] else []) @ lines, rest))"
  using assms
proof (induction delim data fin rule: dispatch_lines.induct)
  case (1 delim data fin)
  show ?case
  proof (cases "search_from delim 0 (drop fin data)")
    case None
    then show ?thesis using 1(2) by (simp add: dispatch_lines.simps split_lines.simps)
  next
    case (Some i)
    have ne: "\<not> (drop fin data = [] \<or> delim = [])" using Some 1(2) by (auto simp: search_from_Some)
    have split: "split_lines delim (drop fin data)
        = (case split_lines delim (drop (i + length delim) (drop fin data)) of
            (rest, lines) \<Rightarrow> (rest, (if i > 0 then [take i (drop fin data)] else []) @ lines))"
      using Some 1(2) by (subst split_lines.simps) simp
    have IH: "dispatch_lines delim (drop fin data) (i + length delim)
        = (case split_lines delim (drop (i + length delim) (drop fin data)) of
            (rest, lines) \<Rightarrow> ((if i + length delim > length delim then [take (i + length delim - length delim) (drop fin data)] else []) @ lines, rest))"
      using 1(1)[OF refl refl Some ne] 1(2) by simp
    show ?thesis unfolding split
      by (subst dispatch_lines.simps) (simp only: Let_def Some option.case if_not_P[OF ne] IH, simp split: prod.splits)
  qed
qed

lemma line_bytes_split: "line_bytes delim data cs = split_lines delim (data @ cs)"
proof -
  obtain all where all: "data @ cs = all" by blast
  show ?thesis
  proof (cases "if delim = [] then None else search_from delim 0 all")
    case None
    then show ?thesis by (simp add: line_bytes_def all split_lines.simps)
  next
    case (Some i)
    then have i: "delim \<noteq> []" "search_from delim 0 all = Some i" by (auto split: if_splits)
    have "split_lines delim all = (case split_lines delim (drop (i + length delim) all) of
        (rest, lines) \<Rightarrow> (rest, (if i > 0 then [take i all] else []) @ lines))"
      by (subst split_lines.simps) (simp add: i)
    then show ?thesis using dispatch_split[OF i(1), of "i + length delim" all]
      by (simp add: line_bytes_def all i split: prod.splits)
  qed
qed

text \<open>
  A message can be sent as a line when the delimiter, put after it, does not begin earlier: neither in the message nor across
  its end.
\<close>

definition plain_line :: "byte list \<Rightarrow> byte list \<Rightarrow> bool" where
  "plain_line delim m \<longleftrightarrow> delim \<noteq> [] \<and> (\<forall>j < length m. take (length delim) (drop j (m @ delim)) \<noteq> delim)"

lemma plain_line_search: "plain_line delim m \<Longrightarrow> search_from delim 0 (m @ delim) = Some (length m)"
  by (simp add: plain_line_def search_from_Some)

text \<open>A delimiter in which no byte comes back after the first, such as CR LF, must only not be in the message.\<close>

lemma plain_line_no_border:
  assumes "d \<notin> set ds" "\<nexists>xs ys. m = xs @ (d # ds) @ ys"
  shows "plain_line (d # ds) m"
proof -
  have False if j: "j < length m" and found: "take (length (d # ds)) (drop j (m @ d # ds)) = d # ds" for j
  proof (cases "j + length (d # ds) \<le> length m")
    case True
    then have "take (length (d # ds)) (drop j m) = d # ds" using found by simp
    then have "m = take j m @ (d # ds) @ drop (length (d # ds)) (drop j m)" by (metis append_take_drop_id)
    then show False using assms(2) by blast
  next
    case False
    define i where "i = length m - j"
    have i: "0 < i" "i < length (d # ds)" using j False by (auto simp: i_def)
    have "(d # ds) ! i = take (length (d # ds)) (drop j (m @ d # ds)) ! i" using found by simp
    also have "\<dots> = d" using i j by (simp add: i_def nth_append)
    finally show False using i assms(1) by (auto simp: nth_Cons' in_set_conv_nth split: if_splits)
  qed
  then show ?thesis unfolding plain_line_def by blast
qed

lemma split_lines_empty: "split_lines delim [] = ([], [])"
  by (subst split_lines.simps) (auto simp: search_from_Some split: option.splits)

interpretation line: framing "line_bytes delim" "line_encode delim" "\<lambda>rest. rest = []" "plain_line delim" for delim
proof unfold_locales
  fix s xs ys :: "byte list"
  show "line_bytes delim s (xs @ ys) = joined (line_bytes delim s xs) (\<lambda>s. line_bytes delim s ys)"
    using split_lines_append[of delim "s @ xs" ys] by (simp add: line_bytes_split)
next
  fix s :: "byte list"
  assume "s = []"
  then show "line_bytes delim s [] = (s, [])" by (simp add: line_bytes_split split_lines_empty)
next
  fix s m :: "byte list"
  assume "s = []" "plain_line delim m"
  then show "\<exists>s'. s' = [] \<and> line_bytes delim s (line_encode delim m) = (s', if m = [] then [] else [m])"
    using plain_line_search[of delim m]
    by (subst line_bytes_split, subst split_lines.simps) (simp add: plain_line_def line_encode_def split_lines_empty)
qed

section \<open>Prefixed sizes\<close>

lemma prefix_run_append:
  "prefix_run k phase (xs @ ys) = joined (prefix_run k phase xs) (\<lambda>(phase, rest). prefix_run k phase (rest @ ys))"
proof (induction k phase xs rule: prefix_run.induct)
  case (1 k bs)
  show ?case by (simp add: prefix_run.simps)
next
  case (2 k bs)
  let ?w = "width (header_bytes k)"
  show ?case
  proof (cases "length bs < ?w")
    case True
    then show ?thesis by (simp add: prefix_run.simps(2)[of k bs])
  next
    case False
    then have parts: "take ?w (bs @ ys) = take ?w bs" "drop ?w (bs @ ys) = drop ?w bs @ ys" by simp_all
    show ?thesis using False 2[OF refl refl False] by (simp add: prefix_run.simps(1,2) Let_def parts)
  qed
next
  case (3 k n bs)
  show ?case
  proof (cases "length bs < n")
    case True
    then show ?thesis by (simp add: prefix_run.simps(3)[of k n bs])
  next
    case False
    then show ?thesis using 3[OF False] by (simp add: prefix_run.simps(3)) (auto simp: joined_def split: prod.splits)
  qed
qed

lemma little_endian_value: "foldr (\<lambda>b m. unat (b :: byte) + 256 * m) (List.map (\<lambda>i. of_nat (n div 256 ^ i)) [0..<w]) 0 = n mod 256 ^ w"
proof (induction w arbitrary: n)
  case (Suc w)
  have "List.map (\<lambda>i. of_nat (n div 256 ^ i) :: byte) [0..<Suc w] = of_nat n # List.map (\<lambda>i. of_nat (n div 256 div 256 ^ i)) [0..<w]"
    by (simp add: upt_conv_Cons map_Suc_upt[symmetric] div_mult2_eq comp_def del: upt_Suc)
  moreover have "unat (of_nat n :: byte) = n mod 256" by (simp add: unat_of_nat)
  ultimately show ?case using Suc[of "n div 256"] by (simp add: mod_mult2_eq)
qed simp

lemma read_write_header: "read_header k (write_header k n) = n mod 256 ^ width (header_bytes k)"
  by (simp add: read_header_def write_header_def Let_def little_endian_value)

lemma length_write_header [simp]: "length (write_header k n) = width (header_bytes k)"
  by (simp add: write_header_def Let_def)

definition fits_prefix :: "prefix \<Rightarrow> byte list \<Rightarrow> bool" where
  "fits_prefix k m \<longleftrightarrow> m \<noteq> [] \<and> length m \<le> max_frame_size k \<and> length m < 256 ^ width (header_bytes k)"

lemma prefix_run_nothing: "prefix_run k Header [] = ((Header, []), [])"
  using width_pos[of "header_bytes k"] by (simp add: prefix_run.simps(2))

lemma prefix_run_message: "fits_prefix k m \<Longrightarrow> prefix_run k Header (prefix_encode k m) = ((Header, []), [m])"
  by (simp add: fits_prefix_def prefix_encode_def prefix_run.simps(2)[of k "write_header k (length m) @ m"] Let_def
      read_write_header prefix_run.simps(3) prefix_run_nothing)

interpretation prefix: framing "prefix_bytes k" "prefix_encode k" "\<lambda>s. s = (Header, [])" "fits_prefix k" for k
proof unfold_locales
  fix s :: "prefix_phase \<times> byte list" and xs ys
  show "prefix_bytes k s (xs @ ys) = joined (prefix_bytes k s xs) (\<lambda>s. prefix_bytes k s ys)"
    using prefix_run_append[of k "fst s" "snd s @ xs" ys] by (simp add: prefix_bytes_def case_prod_beta')
next
  fix s :: "prefix_phase \<times> byte list" and m
  assume "s = (Header, [])" "fits_prefix k m"
  then show "\<exists>s'. s' = (Header, []) \<and> prefix_bytes k s (prefix_encode k m) = (s', if m = [] then [] else [m])"
    using prefix_run_message[of k m] by (simp add: prefix_bytes_def fits_prefix_def)
qed (simp add: prefix_bytes_def prefix_run_nothing)

text \<open>After an empty message, or one that is longer than the header can say, nothing is read any more.\<close>

lemma prefix_stopped: "prefix_bytes k (Stopped, rest) bs = ((Stopped, rest @ bs), [])"
  by (simp add: prefix_bytes_def prefix_run.simps(1))

definition bad_size :: "prefix \<Rightarrow> byte list \<Rightarrow> bool" where
  "bad_size k m \<longleftrightarrow> (let n = length m mod 256 ^ width (header_bytes k) in n = 0 \<or> n > max_frame_size k)"

lemma prefix_bad_stops:
  assumes "bad_size k m"
  shows "prefix_bytes k (Header, []) (prefix_encode k m @ bs) = ((Stopped, m @ bs), [])"
  using assms unfolding prefix_bytes_def prefix_encode_def fst_conv snd_conv append_Nil append_assoc
  by (subst prefix_run.simps(2)) (simp add: read_write_header bad_size_def Let_def)

lemma prefix_ends:
  assumes "\<forall>m \<in> set ms. fits_prefix k m" "bad_size k m"
    and "concat cs = concat (List.map (prefix_encode k) ms) @ prefix_encode k m @ bs"
  shows "feed_all (prefix_bytes k) (Header, []) cs = ((Stopped, m @ bs), ms)"
proof -
  have "prefix_encode k m \<noteq> []" using width_pos[of "header_bytes k"] by (simp add: prefix_encode_def flip: length_0_conv)
  then have "cs \<noteq> []" using assms(3) by auto
  moreover have "prefix_bytes k (Header, []) (concat (List.map (prefix_encode k) ms)) = ((Header, []), ms)"
    using prefix.many_messages[of "(Header, [])" ms k] assms(1) by (auto simp: fits_prefix_def filter_id_conv)
  ultimately show ?thesis
    by (simp add: prefix.all_pieces assms(3) prefix.pieces[of k _ "concat (List.map (prefix_encode k) ms)"] joined_def
        prefix_bad_stops[OF assms(2)])
qed

section \<open>Messages of one length\<close>

lemma fixed_run_append: "fixed_run n (xs @ ys) = joined (fixed_run n xs) (\<lambda>rest. fixed_run n (rest @ ys))"
proof (induction n xs rule: fixed_run.induct)
  case (1 n xs)
  show ?case
  proof (cases "n = 0 \<or> length xs < n")
    case True
    then show ?thesis by (auto simp: fixed_run.simps[of n xs])
  next
    case False
    then show ?thesis using 1[OF False] fixed_run.simps[of n xs] fixed_run.simps[of n "xs @ ys"]
      by (auto simp: joined_def split: prod.splits)
  qed
qed

interpretation fixed: framing "fixed_bytes n" "\<lambda>m. m" "\<lambda>rest. rest = []" "\<lambda>m. m \<noteq> [] \<and> length m = n" for n
proof unfold_locales
  fix s xs ys :: "byte list"
  show "fixed_bytes n s (xs @ ys) = joined (fixed_bytes n s xs) (\<lambda>s. fixed_bytes n s ys)"
    using fixed_run_append[of n "s @ xs" ys] by (simp add: fixed_bytes_def)
next
  fix s m :: "byte list"
  assume "s = []" "m \<noteq> [] \<and> length m = n"
  then show "\<exists>s'. s' = [] \<and> fixed_bytes n s m = (s', if m = [] then [] else [m])"
    by (auto simp: fixed_bytes_def fixed_run.simps[of "length m"])
qed (auto simp: fixed_bytes_def fixed_run.simps)

section \<open>Delivery\<close>

text \<open>C26: 
  Whatever their bytes are, messages that are framed by escapes or by COBS arrive as they were sent, one by one and in order,
  however the stream is cut into pieces; only empty messages are dropped.
\<close>

theorem escaped_messages_arrive:
  "(concat cs = concat (List.map slip_encode ms) \<longrightarrow> feed_all slip_bytes slip_start cs = (slip_start, filter (\<lambda>m. m \<noteq> []) ms))
  \<and> (concat cs = concat (List.map cobs_encode ms) \<longrightarrow> feed_all cobs_bytes [] cs = ([], filter (\<lambda>m. m \<noteq> []) ms))
  \<and> (distinct_marks k \<and> concat cs = concat (List.map (marked_encode k) ms) \<longrightarrow>
      feed_all (marked_bytes k) marked_start cs = (marked_start, filter (\<lambda>m. m \<noteq> []) ms))"
  using slip.stream_delivered[of slip_start ms cs] cobs.stream_delivered[of "[]" ms cs]
    marked.stream_delivered[of marked_start ms k cs]
  by auto

lemma escaped_messages_arrive_witness:
  "feed_all slip_bytes slip_start [[192, 219], [220, 219, 221, 192, 192], [], [192, 192, 1, 192]] = (slip_start, [[192, 219], [1]])"
proof -
  have "concat [[192, 219], [220, 219, 221, 192, 192], [], [192, 192, 1, 192]]
      = concat (List.map slip_encode [[192, 219], [], [1]])" by code_simp
  from escaped_messages_arrive[THEN conjunct1, rule_format, OF this] show ?thesis by simp
qed

text \<open>C27: 
  Messages that are framed by a delimiter or by their size arrive as they were sent, one by one and in order, however the
  stream is cut into pieces, when they can be framed so: lines for which the delimiter, put after the line, does not begin
  earlier, neither in the line nor across its end (only empty lines are dropped); messages after a header that are not empty,
  not longer than the maximum and of a length that the header can say; messages of the agreed length. Of those with a
  header, the first whose size is read as zero or as more than the maximum ends the reception: those before it arrive,
  nothing after them does, and the rest of the stream is not read.
\<close>

theorem sized_messages_arrive:
  "((\<forall>m \<in> set ms. plain_line delim m) \<and> concat cs = concat (List.map (line_encode delim) ms) \<longrightarrow>
      feed_all (line_bytes delim) [] cs = ([], filter (\<lambda>m. m \<noteq> []) ms))
  \<and> ((\<forall>m \<in> set ms. fits_prefix k m) \<and> concat cs = concat (List.map (prefix_encode k) ms) \<longrightarrow>
      feed_all (prefix_bytes k) (Header, []) cs = ((Header, []), ms))
  \<and> ((\<forall>m \<in> set ms. fits_prefix k m) \<and> bad_size k m \<and> concat cs = concat (List.map (prefix_encode k) ms) @ prefix_encode k m @ bs \<longrightarrow>
      feed_all (prefix_bytes k) (Header, []) cs = ((Stopped, m @ bs), ms))
  \<and> ((\<forall>m \<in> set ms. m \<noteq> [] \<and> length m = n) \<and> concat cs = concat ms \<longrightarrow> feed_all (fixed_bytes n) [] cs = ([], ms))"
proof -
  have "filter (\<lambda>m. m \<noteq> []) ms = ms" if "\<forall>m \<in> set ms. P m \<and> m \<noteq> []" for P
    using that by (simp add: filter_id_conv)
  then show ?thesis
    using line.stream_delivered[of "[]" ms delim cs] prefix.stream_delivered[of "(Header, [])" ms k cs]
      fixed.stream_delivered[of "[]" ms n cs] prefix_ends[of ms k m cs bs]
    by (simp add: fits_prefix_def filter_id_conv)
qed

definition sample_prefix :: prefix where
  "sample_prefix = \<lparr>header_bytes = Two, big_endian = True, max_frame_size = 65535\<rparr>"

lemma sized_messages_arrive_witness:
  "feed_all (line_bytes [13, 10]) [] [[65, 13], [10, 66, 67], [13, 10]] = ([], [[65], [66, 67]])
  \<and> feed_all (prefix_bytes sample_prefix) (Header, []) [[0], [1, 9, 0, 2], [7, 8]] = ((Header, []), [[9], [7, 8]])
  \<and> feed_all (prefix_bytes sample_prefix) (Header, []) [[0], [0], [0, 2, 7, 8]] = ((Stopped, [0, 2, 7, 8]), [])"
proof -
  have "\<forall>m \<in> set [[65], [66, 67]]. plain_line [13, 10] m" by code_simp
  moreover have "concat [[65, 13], [10, 66, 67], [13, 10]] = concat (List.map (line_encode [13, 10]) [[65], [66, 67]])" by code_simp
  ultimately have lines: "feed_all (line_bytes [13, 10]) [] [[65, 13], [10, 66, 67], [13, 10]] = ([], filter (\<lambda>m. m \<noteq> []) [[65], [66, 67]])"
    by (intro sized_messages_arrive[THEN conjunct1, THEN mp] conjI)
  have "\<forall>m \<in> set [[9], [7, 8]]. fits_prefix sample_prefix m" by (simp add: fits_prefix_def sample_prefix_def)
  moreover have "concat [[0], [1, 9, 0, 2], [7, 8]] = concat (List.map (prefix_encode sample_prefix) [[9], [7, 8]])"
    by (simp add: prefix_encode_def write_header_def sample_prefix_def upt_rec)
  ultimately have "feed_all (prefix_bytes sample_prefix) (Header, []) [[0], [1, 9, 0, 2], [7, 8]] = ((Header, []), [[9], [7, 8]])"
    by (intro sized_messages_arrive[THEN conjunct2, THEN conjunct1, THEN mp] conjI)
  moreover have "bad_size sample_prefix []" by (simp add: bad_size_def)
  then have "feed_all (prefix_bytes sample_prefix) (Header, []) [[0], [0], [0, 2, 7, 8]] = ((Stopped, [] @ [0, 2, 7, 8]), [])"
    by (intro sized_messages_arrive[THEN conjunct2, THEN conjunct2, THEN conjunct1, THEN mp] conjI)
      (simp_all add: prefix_encode_def write_header_def sample_prefix_def upt_rec)
  ultimately show ?thesis using lines by simp
qed

section \<open>After an error\<close>

text \<open>C28: 
  A SLIP decoder that has seen one end mark too many, or a bad escape in a message, never finds the messages again: it takes
  every start for an end, and stays so however many messages follow.
\<close>

theorem slip_stays_out_of_phase:
  "slip_bytes slip_start ([slip_eot] @ concat (List.map slip_encode ms)) = (out_of_phase, [])
  \<and> (slip_eot \<notin> set xs \<and> slip_esc \<notin> set xs \<and> b \<notin> {slip_esc_end, slip_esc_esc} \<and> slip_eot \<notin> set ys \<longrightarrow>
      slip_bytes slip_start ([slip_eot] @ xs @ [slip_esc, b] @ ys @ [slip_eot] @ concat (List.map slip_encode ms)) = (out_of_phase, []))"
proof -
  have "slip_bytes slip_start ([slip_eot] @ concat (List.map slip_encode ms)) = (out_of_phase, [])"
    by (simp add: slip_bytes_each slip_each_append slip_start_eot slip_all_lost flip: out_of_phase_def)
  then show ?thesis using slip_bad_escape[of xs b ys ms] by simp
qed

lemma slip_stays_out_of_phase_witness:
  "slip_bytes slip_start ([192, 65, 219, 66, 192] @ slip_encode [1, 2] @ slip_encode [3]) = (out_of_phase, [])"
  using slip_stays_out_of_phase[THEN conjunct2, of "[65]" 66 "[]" "[[1, 2], [3]]"]
  by (simp add: slip_eot_def slip_esc_def slip_esc_end_def slip_esc_esc_def)

lemma marked_each_any:
  assumes "distinct_marks k"
  shows "\<exists>fs. marked_each k d (marked_encode k m) = (marked_start, fs)"
proof (cases "marked_state d = Reading_escape")
  case True
  let ?d = "marked_push [start_mark k] (d\<lparr>marked_state := Reading_data\<rparr>)"
  have "marked_byte k d (start_mark k) = (?d, [])" using True by (simp add: marked_byte_def)
  moreover have "marked_state ?d = Reading_data" by (simp add: marked_push_def)
  moreover have "\<exists>fs. marked_byte k (marked_push m ?d) (end_mark k) = (marked_start, fs)"
    by (simp add: marked_push_def marked_byte_def marked_start_def)
  ultimately show ?thesis using marked_each_message[OF assms, of ?d m]
    by (auto simp: marked_encode_def marked_each_append joined_def)
next
  case False
  then show ?thesis using marked_each_frame[OF assms] by blast
qed

text \<open>C29: 
  The decoders for start, end and escape bytes and for COBS lose at most the message in which an error is: whatever state
  they are in, from the second message on they give what was sent.
\<close>

theorem escapes_recover:
  "(distinct_marks k \<longrightarrow>
      (\<exists>fs. marked_bytes k d (concat (List.map (marked_encode k) (m # ms))) = (marked_start, fs @ filter (\<lambda>m. m \<noteq> []) ms)))
  \<and> (\<exists>fs. cobs_bytes enc (concat (List.map cobs_encode (m # ms))) = ([], fs @ filter (\<lambda>m. m \<noteq> []) ms))"
proof (intro conjI impI)
  assume k: "distinct_marks k"
  obtain fs where "marked_bytes k d (marked_encode k m) = (marked_start, fs)"
    using marked_each_any[OF k] by (metis marked_bytes_each)
  moreover have "marked_bytes k marked_start (concat (List.map (marked_encode k) ms)) = (marked_start, filter (\<lambda>m. m \<noteq> []) ms)"
    using marked.many_messages[of marked_start ms k] k by simp
  ultimately have "marked_bytes k d (concat (List.map (marked_encode k) (m # ms))) = (marked_start, fs @ filter (\<lambda>m. m \<noteq> []) ms)"
    by (simp add: marked.pieces joined_def)
  then show "\<exists>fs. marked_bytes k d (concat (List.map (marked_encode k) (m # ms))) = (marked_start, fs @ filter (\<lambda>m. m \<noteq> []) ms)" ..
next
  have "cobs_bytes enc (cobs_encode m) = ([], cobs_frame (enc @ cobs_blocks [] m))"
    using cobs_each_plain[of "cobs_blocks [] m" enc] cobs_blocks_no_zero[of "[]" m]
    by (simp add: cobs_encode_blocks cobs_bytes_each cobs_each_append joined_def)
  moreover have "cobs_bytes [] (concat (List.map cobs_encode ms)) = ([], filter (\<lambda>m. m \<noteq> []) ms)"
    using cobs.many_messages[of "[]" ms] by simp
  ultimately have "cobs_bytes enc (concat (List.map cobs_encode (m # ms))) = ([], cobs_frame (enc @ cobs_blocks [] m) @ filter (\<lambda>m. m \<noteq> []) ms)"
    by (simp add: cobs.pieces joined_def)
  then show "\<exists>fs. cobs_bytes enc (concat (List.map cobs_encode (m # ms))) = ([], fs @ filter (\<lambda>m. m \<noteq> []) ms)" ..
qed

lemma escapes_recover_witness:
  "\<exists>fs. marked_bytes stx_etx \<lparr>marked_state = Reading_escape, marked_decoded = [9]\<rparr> (marked_encode stx_etx [1] @ marked_encode stx_etx [2, 3])
    = (marked_start, fs @ [[2, 3]])"
proof -
  have "distinct_marks stx_etx" by code_simp
  then show ?thesis using escapes_recover[THEN conjunct1, of stx_etx "\<lparr>marked_state = Reading_escape, marked_decoded = [9]\<rparr>" "[1]" "[[2, 3]]"] by simp
qed

end
