(* ===== verification/Spec2Isabelle.thy ===== *)
theory Spec2Isabelle
  imports TimeValue NodeLifecycle NatCompare Addresses NodeFunctions NodeListing BraceExpansion
    TraversalProps Values Callbacks Expressions TokenRequest LoopTiling TripleBuffer
    ScenarioTriggerProps ScenarioLifecycle ScenarioTickProps ScenarioRequests ScenarioTermination
    ScenarioOffsetProps DomainProps StateProps ClosureProps GraphDynamic TaskFlow EncodingProps FramingProps
begin

text \<open>
  libossia, a library for distributed and timed media objects: a model of its core in HOL, translated from the
  sources under src/src/ossia, with the theorems that make it correct.

  \<^bold>\<open>The program.\<close> An application describes itself as a device: a tree of named nodes that carry parameters and
  are found by address or by pattern (network/base, network/generic, network/common). The parameters hold
  values (network/value), which are converted to each other's types, are bounded by domains (network/domain), are
  sent by states of messages (editor/state) and are compared and observed by expressions (editor/expression). A
  scenario
  (editor/scenario) is a graph of intervals between syncs: a sync holds events, an event has an expression, an
  interval has processes and a clock. An audio engine calls the scenario with a token request
  (dataflow/token_request.hpp), the part of model time that falls into a buffer of samples; the scenario
  advances the intervals that run, triggers the syncs that are ready, lets their events happen or disposes of them,
  and hands requests to the nodes of the dataflow graph (dataflow/). These have ports that are joined by cables or by
  addresses; the graph sorts them, runs in each tick those that were asked for, and moves values between their ports
  and the parameters. Values pass between threads through triple buffers
  (detail/triple_buffer.hpp) and observers through lists of callbacks (detail/callback_container.hpp). Devices talk to each
  other over streams of bytes, on which messages are framed (network/sockets).

  \<^bold>\<open>Conventions.\<close> An integer of the code is an \<open>int\<close> whose operations reduce it to its width (\<open>s32\<close>, \<open>s64\<close>, \<open>u64\<close> of
  Prelude), a byte of flags a word. Objects that refer to each other by pointer are in a store and refer by number; the
  order of the numbers is that of the addresses, on which the sorted sets of pointers depend. An exception or a
  null pointer that is followed is a value of a sum or of \<open>option\<close>. A loop that may not end is a
  \<open>partial_function\<close>, or takes fuel and has \<open>Diverge\<close> (Outcome) as the result of running out of it. What the program
  calls outside of itself - signals, callbacks, processes, nodes of the dataflow graph - is a list of calls in the
  order in which they were made. The operations of \<open>double\<close> are a parameter, the record \<open>fpu\<close> of Floats; a
  theorem that does not fix it holds for every rounding, and exact statements are about its instance \<open>rat_fpu\<close>.

  \<^bold>\<open>The network tree.\<close>
  \<^item> Names (name_validation): validity, replacement of characters, and \<open>sanitize_name\<close>, which makes a name unique
    among its siblings; \<open>sanitize_name_fresh\<close> up to the overflow of the instance number. Strings has the string
    functions it uses, NatCompare the natural order of names (node_functions.cpp).
  \<^item> DeviceTree (generic_node.cpp, generic_device.cpp, node.cpp): the store of nodes and its operations with the
    signals sent; NodeLifecycle proves for each operation what it changes and that the tree stays well formed.
    RankedTree is the locale of trees kept in a store, whose recursions end.
  \<^item> Addresses (osc_address.cpp) builds addresses, NodeFunctions and NodeListing (node_functions.cpp) find, create
    and list nodes; the address of a node finds it again (\<open>find_node_of_address\<close>).
  \<^item> BraceExpansion (node_functions.cpp) expands address patterns; \<open>expand_denotes\<close> refines it to the set of words a
    pattern denotes. Traversal and TraversalProps (path.hpp, path.cpp) turn a pattern into functions on lists of
    nodes; the engine of regular expressions is a parameter.

  \<^bold>\<open>Values and expressions.\<close>
  \<^item> Values (value.cpp, value_comparison.hpp): the variant of values and its six comparisons.
  \<^item> Conversion (value_conversion_impl.hpp, value_conversion.cpp, format_value.hpp): from a value of any type to one of
    any other, and printing. What the code takes from outside - the reading and the printing of floating-point numbers, the
    parser of values - is the record \<open>num_env\<close>. \<open>conversions_round_trip\<close> has the conversions that lose nothing.
  \<^item> Domains (domain_base.hpp, domain_functions.hpp), DomainOps (domain.cpp, domain_conversion.hpp): the ten kinds of
    domain, what they do to a value in each of the bounding modes, and reading, setting and converting their bounds.
    DomainProps: a value keeps its type (\<open>apply_domain_keeps_type\<close>), a bounded number is within the bounds, one
    that is within them is left alone, and bounds that are set are read back.
  \<^item> Merging (value_algorithms.hpp) joins the values of two messages to the same parameter. States (editor/state)
    has messages, piecewise messages, their launching, and the flattening of nested states; StateProps that a flat
    state names each parameter once and that launching it does what launching the messages one by one does.
  \<^item> Expressions (editor/expression): construction, evaluation, update, reset, comparison, and what an expression
    sends when a parameter changes; \<open>fire_sends_evaluation\<close> says that this is its value.
  \<^item> Callbacks (callback_container.hpp, expression_fwd.hpp): the containers behind it, with the locale
    \<open>callback_store\<close> for the validity of the iterators they hand out.

  \<^bold>\<open>Time.\<close>
  \<^item> TimeValue (time_value.hpp): 64-bit dates with an infinity, whose sums saturate.
  \<^item> TokenRequest and LoopTiling (token_request.hpp): the request and its cutting at the boundaries of a loop. A
    reference cuts an interval of integers at the multiples of the duration; the code follows it forward and
    backward and the samples of the pieces tile those of the tick.
  \<^item> MusicalTime (token_request.hpp): positions in samples, bar lines, quantification dates, the metronome. Its loops
    are bounded by 1024 and 64 rounds as in the code.
  \<^item> TripleBuffer (triple_buffer.hpp): three mailboxes, as operations and as interleaved steps of two threads. No
    slot is written while it is read, what is read was published, and a consumer that looks finds the latest value.
    The locale \<open>latest_value\<close> has the contract; every class interprets it. Memory is sequential.

  \<^bold>\<open>The scenario.\<close>
  \<^item> ScenarioData (time_interval, time_event, time_process): intervals, events, syncs and the scenario as records,
    and the operations on one object. ScenarioFrames collects what each of them leaves alone.
  \<^item> ScenarioSync (time_sync.cpp, time_interval.cpp): the expression and the date of a sync; the setters of the
    durations of an interval, which keep them in order.
  \<^item> ScenarioEvents (scenario_execution.cpp): \<open>make_happen\<close> and \<open>make_dispose\<close>. The disposal recurses through the
    graph; fuel above the rank of the event in a graph without cycles is enough, and the events disposed of are those
    with no way left into them (\<open>make_dispose_correct\<close>).
  \<^item> ScenarioGraph (scenario.cpp): components of the graph and their resetting; as much fuel as a component has syncs.
  \<^item> ScenarioTrigger and ScenarioTriggerProps (scenario_sync_execution.cpp, scenario_sync_musical_execution.cpp): when
    a sync is ready, its quantification, and what triggering does.
  \<^item> ScenarioLifecycle (scenario.cpp, scenario_offset.cpp): building, starting and stopping a scenario; durations that
    are made rigid and restored.
  \<^item> ScenarioClock (time_interval.cpp): the clock of an interval in a tick, with the fraction carried over, its
    samples and its musical position. ScenarioTick (scenario_execution.cpp): the whole tick, forward and backward.
    ScenarioTickProps proves that an interval passes its end only by a seek, ScenarioRequests
    what the requests to start and stop do, ScenarioTermination that the cascade returns: on a graph whose
    intervals lead to syncs of larger rank, with ranks up to \<open>N\<close>, \<open>N + 2\<close> rounds and disposals of depth \<open>N + 1\<close> are
    enough.
  \<^item> ScenarioOffset and ScenarioOffsetProps (scenario_offset.cpp): the offset and the transport of a whole scenario to
    a date: which events have happened by then, and where each interval is placed.

  \<^bold>\<open>The dataflow graph.\<close>
  \<^item> DepthFirst, DepthFirstProps (topological_sort.hpp): the iterative depth-first search with its colors and its visitor, and
    the sort: an order, or an exception when there is a cycle. BreadthFirst (breadth_first_search.hpp): the search for a path with
    its circular queue and two bits of color to a vertex. Closure, ClosureProps (transitive_closure.hpp): the closure by strong
    components and chains; what the Boost library computes for it is a parameter (\<open>graph_library\<close>).
  \<^item> ValueMapping (value_mapping.cpp, complex_type.cpp, data.cpp): a value between two domains, units and types.
  \<^item> GraphData, GraphBase (port.hpp, graph_edge.hpp, graph_node.cpp, graph_utils.hpp): ports, edges and nodes in a store;
    connecting, disconnecting, adding and removing. GraphUpdate (graph_static.hpp): the order of the nodes with an edge where one
    reads what another writes. The search for a path and the closure give the same order when the edges that are not delayed are
    acyclic; on a cycle the first has no result (\<open>updates_agree\<close>).
  \<^item> Timings (execution_state.cpp): the samples a token stands for. ValuePorts (data.cpp, data_copy.hpp, graph_ordering.hpp,
    local_state_execution_policy.cpp): filling the inlets and emptying the outlets of a node, as calls that may end the program.
  \<^item> GraphTick (graph_utils.hpp, graph_static.hpp, graph.hpp): running a node, strict connections, a tick of the static and of the
    dynamic graph. GraphTickProps has what running leaves alone, GraphStatic and GraphDynamic the theorems: which nodes run, in
    which order, and the state at the end. What the code of a node does is the parameter \<open>user_code\<close>: a call of it returns,
    throws, or ends the program, which is what an exception does in a function that is \<open>noexcept\<close>, as those of a node and the
    loops over its ports are. The handler of the executor is modelled: a call that throws leaves the rest of the nodes out.
  \<^item> TaskPool (graph_parallel_impl.hpp, exec_pool.hpp): the parallel executor, the threads of its pool, their queues and the
    counter they sleep on, as interleaved steps that each access shared memory once. TaskPoolProps has the invariant: a task is in
    one place, and its counter is what it still waits for. TaskPoolRuns: each task runs once and in order, runs end, and no thread
    sleeps while there is work, for fewer than \<open>2 ^ 32 - 1\<close> tasks (the counter must not turn in one run). TaskFlow: the tasks of a
    sorted graph, and that a loop through a delayed edge never ends.

  \<^bold>\<open>Messages on a stream.\<close>
  \<^item> Encodings, EncodingProps (network/sockets/encoding.hpp): bytes as text in six encodings, with the buffers they are written
    to; what is encoded is decoded again, and no decoder leaves its buffer (\<open>decoding_stays_in_buffer\<close>).
  \<^item> Framings, FramingProps (network/sockets/*_framing.hpp): SLIP, start and end marks, COBS, lines, prefixed sizes and fixed
    sizes. The locale \<open>framing\<close> has the contract - the pieces in which a stream arrives do not matter, and each message that
    was sent is given once - and every framing interprets it. After an error COBS and marks recover, SLIP does not.

  \<^bold>\<open>Kinds of properties.\<close> Functional behaviour of the operations on every branch, invariants of the tree and of the
  durations, refinement (brace expansion, triple buffers), equivalence (path patterns with \<open>find_node\<close>, the two updates of the graph),
  termination (disposal, cascade, runs of the pool), round trips (addresses, conversions, encodings, framings),
  bounds (buffers, domains), errors (a SLIP decoder out of phase), progress of the threads of the pool, and
  types (a domain keeps the type of the value it bounds).

  \<^bold>\<open>Not modelled.\<close> Of the dataflow graph, ports for audio, MIDI and geometry carry no data, and fork_n and nested batches of the pool, the
  tick of the devices and the other policies of local state are left out. Of values, the parser (Boost.Spirit) is a parameter and
  conversion to \<open>double\<close> is left out; of states, \<open>flat_vec_state\<close> and printing; of domains, printing and the
  conversion with units; of nodes, attributes and locks.
  Units are generated visitors over floating-point conversions; protocols, sockets, presets, audio and graphics
  are input and output around third-party libraries; bindings and host objects are glue. A processor that reorders
  memory is outside of the models of the triple buffers and of the pool of threads.
\<close>

end
